(* ===== verification/Prelude.thy ===== *)
theory Prelude
  imports Main "HOL-Library.Word" "HOL-Library.Signed_Division"
begin

text \<open>
  What every component of the development shares: the error taxonomy of
  \<open>crates/core/src/error.rs\<close>, the result types, the reading of Rust's fixed-width
  integers, and the generic lemmas on lists, options and words that the component
  theories use through the simplifier or the collections declared here.
\<close>

section \<open>Errors and results\<close>

text \<open>
  \<open>ServerError\<close> has six variants. The message strings are diagnostics for a log and
  no code under \<open>src/\<close> branches on them, so a value of the model is the variant
  alone.
\<close>

datatype server_error =
    Protocol
  | InvalidAction
  | Operational
  | CorruptData
  | Invariant
  | Shutdown

text \<open>\<open>ServerResult<T>\<close>: \<open>Inl\<close> is \<open>Err\<close>, \<open>Inr\<close> is \<open>Ok\<close>.\<close>

type_synonym 'a server_result = "server_error + 'a"

definition is_ok :: "'e + 'a \<Rightarrow> bool" where
  "is_ok r = (case r of Inl _ \<Rightarrow> False | Inr _ \<Rightarrow> True)"

lemma is_ok_simps [simp]: "is_ok (Inr x)" "\<not> is_ok (Inl e)"
  by (simp_all add: is_ok_def)

lemma is_ok_iff: "is_ok r \<longleftrightarrow> (\<exists>x. r = Inr x)"
  by (cases r) auto

text \<open>The \<open>?\<close> operator: go on with the value of an \<open>Ok\<close>, hand an \<open>Err\<close> to the caller.\<close>

definition and_then :: "'e + 'a \<Rightarrow> ('a \<Rightarrow> 'e + 'b) \<Rightarrow> 'e + 'b" where
  "and_then r f = (case r of Inl e \<Rightarrow> Inl e | Inr x \<Rightarrow> f x)"

lemma and_then_simps [simp]: "and_then (Inl e) f = Inl e" "and_then (Inr x) f = f x"
  by (simp_all add: and_then_def)

lemma and_then_Inr: "and_then r f = Inr y \<longleftrightarrow> (\<exists>x. r = Inr x \<and> f x = Inr y)"
  by (cases r) auto

lemma and_then_Inl: "and_then r f = Inl e \<longleftrightarrow> r = Inl e \<or> (\<exists>x. r = Inr x \<and> f x = Inl e)"
  by (cases r) auto

lemma and_then_cong [fundef_cong]:
  "r = r' \<Longrightarrow> (\<And>x. r' = Inr x \<Longrightarrow> f x = f' x) \<Longrightarrow> and_then r f = and_then r' f'"
  by (cases r') auto

section \<open>Machine integers\<close>

type_synonym u8 = "8 word"
type_synonym u16 = "16 word"
type_synonym u32 = "32 word"
type_synonym u64 = "64 word"

text \<open>
  Signed Rust integers are words read with \<^const>\<open>sint\<close> where the bits matter (the wire
  codecs, the random generator) and values of type \<^typ>\<open>int\<close> where the code keeps them
  in a small range that the development proves (stack counts, slot numbers).
  Indices of type \<open>usize\<close> are \<^typ>\<open>nat\<close>; a cast \<open>as u16\<close> of an index is the
  remainder it denotes.
\<close>

definition as_u16 :: "nat \<Rightarrow> nat" where
  "as_u16 n = n mod 65536"

lemma as_u16_small [simp]: "n < 65536 \<Longrightarrow> as_u16 n = n"
  by (simp add: as_u16_def)

text \<open>Signed readings of words that hold small non-negative values.\<close>

lemma sless_zero_iff: "0 <s (w :: 'a::len word) \<longleftrightarrow> 0 < sint w"
  unfolding word_sless_alt by simp

lemma sle_zero_iff: "0 \<le>s (w :: 'a::len word) \<longleftrightarrow> 0 \<le> sint w"
  unfolding word_sle_eq by simp

lemma sint_nonneg_u32: "0 \<le> sint w \<Longrightarrow> sint (w :: u32) = int (unat w)"
  using sint_lt [of w] uint_sint [of w] by (simp add: take_bit_int_eq_self)

lemma sint_small_u32:
  assumes "unat w < 2 ^ 31"
  shows "sint (w :: u32) = int (unat w)"
proof -
  have "int (unat w) < 2 ^ 31" using assms by (metis of_nat_less_iff of_nat_numeral of_nat_power)
  moreover have "int (unat w) = uint w" by simp
  ultimately have "uint w < 2 ^ 31" by (simp only:)
  moreover have "- (2 ^ 31) \<le> uint w" by (rule order_trans [of _ 0]) simp_all
  ultimately have "signed_take_bit 31 (uint w) = uint w" by (intro signed_take_bit_int_eq_self)
  then show ?thesis by (simp add: sint_uint)
qed

lemma sint_of_nat_u32: "n < 2147483648 \<Longrightarrow> sint (of_nat n :: u32) = int n"
  by (simp add: sint_uint unat_of_nat uint_nat signed_take_bit_int_eq_self)

definition u64_max :: nat where
  "u64_max = 2 ^ 64 - 1"

text \<open>\<open>u64::saturating_add\<close> on the naturals below \<open>2^64\<close>.\<close>

definition sat_add :: "nat \<Rightarrow> nat \<Rightarrow> nat" where
  "sat_add a b = min (a + b) u64_max"

lemma sat_add_le [simp]: "sat_add a b \<le> u64_max"
  by (simp add: sat_add_def)

lemma sat_add_exact: "a + b \<le> u64_max \<Longrightarrow> sat_add a b = a + b"
  by (simp add: sat_add_def)

lemma sat_add_mono: "a \<le> u64_max \<Longrightarrow> a \<le> sat_add a b"
  by (simp add: sat_add_def)

section \<open>Lists\<close>

lemma nth_update_other [simp]: "i \<noteq> j \<Longrightarrow> xs[i := x] ! j = xs ! j"
  by simp

lemma sum_list_update_int:
  fixes f :: "'a \<Rightarrow> int"
  assumes "i < length xs"
  shows "sum_list (map f (xs[i := x])) = sum_list (map f xs) - f (xs ! i) + f x"
  using assms
proof (induction xs arbitrary: i)
  case Nil
  then show ?case by simp
next
  case (Cons a xs)
  then show ?case by (cases i) auto
qed

lemma set_update_Ball:
  "\<forall>y \<in> set xs. P y \<Longrightarrow> P x \<Longrightarrow> \<forall>y \<in> set (xs[i := x]). P y"
  using set_update_subset_insert [of xs i x] by auto

text \<open>
  \<open>Iterator::position\<close>: the index of the first element that satisfies the
  predicate.
\<close>

fun position :: "('a \<Rightarrow> bool) \<Rightarrow> 'a list \<Rightarrow> nat option" where
  "position p [] = None"
| "position p (x # xs) = (if p x then Some 0 else map_option Suc (position p xs))"

lemma position_SomeD:
  "position p xs = Some i \<Longrightarrow> i < length xs \<and> p (xs ! i) \<and> (\<forall>j < i. \<not> p (xs ! j))"
proof (induction xs arbitrary: i)
  case Nil
  then show ?case by simp
next
  case (Cons x xs)
  then show ?case
    by (auto simp: less_Suc_eq_0_disj split: if_splits)
qed

lemma position_None: "position p xs = None \<longleftrightarrow> (\<forall>x \<in> set xs. \<not> p x)"
  by (induction xs) auto

lemma position_lt [dest]: "position p xs = Some i \<Longrightarrow> i < length xs"
  by (simp add: position_SomeD)

text \<open>
  A \<open>for\<close> loop over a list whose body may break: the body returns the state after the
  iteration, or \<^const>\<open>None\<close> to leave the loop before it does anything.
\<close>

fun scan :: "('a \<Rightarrow> 's \<Rightarrow> 's option) \<Rightarrow> 'a list \<Rightarrow> 's \<Rightarrow> 's" where
  "scan body [] s = s"
| "scan body (x # xs) s = (case body x s of None \<Rightarrow> s | Some s' \<Rightarrow> scan body xs s')"

lemma scan_invariant:
  assumes "\<And>x s s'. x \<in> set xs \<Longrightarrow> I s \<Longrightarrow> body x s = Some s' \<Longrightarrow> I s'" and "I s"
  shows "I (scan body xs s)"
  using assms
proof (induction xs arbitrary: s)
  case (Cons x xs)
  show ?case
  proof (cases "body x s")
    case None
    with Cons.prems(2) show ?thesis by simp
  next
    case (Some s')
    have "I (scan body xs s')"
    proof (rule Cons.IH)
      show "I s'" using Cons.prems(1) [of x s s'] Cons.prems(2) Some by simp
      show "I t'" if "y \<in> set xs" "I t" "body y t = Some t'" for y t t'
        using Cons.prems(1) [of y t t'] that by simp
    qed
    with Some show ?thesis by simp
  qed
qed simp

section \<open>Partial equivalences\<close>

text \<open>
  A derived \<open>PartialEq\<close> on data that holds floats is symmetric and transitive, not
  reflexive. Whatever compares item stacks by such an equality is stated over this
  contract; equal things then belong to the same classes.
\<close>

locale partial_equiv =
  fixes eq :: "'a \<Rightarrow> 'a \<Rightarrow> bool"
  assumes sym: "eq a b \<Longrightarrow> eq b a"
    and trans: "eq a b \<Longrightarrow> eq b c \<Longrightarrow> eq a c"
begin

lemma refl_left: "eq a b \<Longrightarrow> eq a a"
  using sym trans by blast

lemma same_class: "eq a b \<Longrightarrow> eq a c = eq b c"
  using sym trans by blast

lemma list_sym: "list_all2 eq xs ys \<Longrightarrow> list_all2 eq ys xs"
  by (auto simp: list_all2_conv_all_nth sym)

lemma list_trans: "list_all2 eq xs ys \<Longrightarrow> list_all2 eq ys zs \<Longrightarrow> list_all2 eq xs zs"
  unfolding list_all2_conv_all_nth by (metis trans)

lemma option_sym: "rel_option eq x y \<Longrightarrow> rel_option eq y x"
  by (cases x; cases y) (auto intro: sym)

lemma option_trans: "rel_option eq x y \<Longrightarrow> rel_option eq y z \<Longrightarrow> rel_option eq x z"
  by (cases x; cases y; cases z) (auto intro: trans)

end

end
