(* ===== verification/Bytes.thy ===== *)
theory Bytes
  imports Prelude
begin

text \<open>
  Big-endian byte order, as \<open>to_be_bytes\<close> and \<open>from_be_bytes\<close> of Rust's integers
  give it. The wire codec and the NBT codec both rest on these two functions and on
  their round trip at 16, 32 and 64 bits.
\<close>

unbundle bit_operations_syntax

type_synonym bytes = "u8 list"

text \<open>The \<open>n\<close> low bytes of a word, most significant first.\<close>

fun be_of :: "nat \<Rightarrow> 'a::len word \<Rightarrow> bytes" where
  "be_of 0 w = []"
| "be_of (Suc n) w = ucast (drop_bit (8 * n) w) # be_of n w"

definition be_to :: "bytes \<Rightarrow> 'a::len word" where
  "be_to bs = foldl (\<lambda>acc b. push_bit 8 acc OR ucast b) 0 bs"

lemma length_be_of [simp]: "length (be_of n w) = n"
  by (induction n) auto

lemma bit_be_step:
  fixes acc w :: "'a::len word"
  shows "push_bit (8 * n) (push_bit 8 acc OR ucast (ucast (drop_bit (8 * n) w) :: u8)) OR take_bit (8 * n) w
       = push_bit (8 * Suc n) acc OR take_bit (8 * Suc n) w"
  by (rule bit_word_eqI) (auto simp: bit_simps not_le not_less less_diff_conv2 algebra_simps)

lemma foldl_be_of:
  fixes acc w :: "'a::len word"
  shows "foldl (\<lambda>a b. push_bit 8 a OR ucast b) acc (be_of n w)
       = push_bit (8 * n) acc OR take_bit (8 * n) w"
proof (induction n arbitrary: acc)
  case 0
  then show ?case by simp
next
  case (Suc n)
  show ?case
    by (simp only: be_of.simps foldl_Cons Suc.IH bit_be_step)
qed

lemma be_to_be_of:
  fixes w :: "'a::len word"
  assumes "LENGTH('a) \<le> 8 * n"
  shows "be_to (be_of n w) = w"
  using assms by (simp add: be_to_def foldl_be_of take_bit_word_eq_self)

lemma be_to_be_of_16 [simp]: "be_to (be_of 2 (w :: u16)) = w"
  by (simp add: be_to_be_of)

lemma be_to_be_of_32 [simp]: "be_to (be_of 4 (w :: u32)) = w"
  by (simp add: be_to_be_of)

lemma be_to_be_of_64 [simp]: "be_to (be_of 8 (w :: u64)) = w"
  by (simp add: be_to_be_of)

text \<open>The bytes one by one, to evaluate an encoding.\<close>

lemma be_of_2: "be_of 2 w = [ucast (drop_bit 8 w), ucast w]"
proof -
  have "be_of (Suc (Suc 0)) w = [ucast (drop_bit 8 w), ucast w]" by simp
  then show ?thesis by (simp only: numeral_2_eq_2)
qed

lemma be_of_4:
  "be_of 4 w = [ucast (drop_bit 24 w), ucast (drop_bit 16 w), ucast (drop_bit 8 w), ucast w]"
proof -
  have "be_of (Suc (Suc (Suc (Suc 0)))) w
      = [ucast (drop_bit 24 w), ucast (drop_bit 16 w), ucast (drop_bit 8 w), ucast w]"
    by simp
  moreover have "(4 :: nat) = Suc (Suc (Suc (Suc 0)))" by simp
  ultimately show ?thesis by (simp only:)
qed

end
