(* ===== verification/VarInt.thy ===== *)
theory VarInt
  imports Bytes
begin

text \<open>
  \<open>crates/protocol/src/varint.rs\<close>: the base-128 codecs of 32 and 64 bit values. The
  two widths run the same loops, so the loops are stated once over \<^typ>\<open>'a::len word\<close>
  and the functions of the file are their instances. A reader takes the bytes not yet
  consumed and returns its result together with the bytes left, on an error too: the
  code advances its slice before it fails.
\<close>

section \<open>Readers and the laws of a codec\<close>

type_synonym 'a reader = "bytes \<Rightarrow> 'a server_result \<times> bytes"

text \<open>
  A codec: what a reader gives back on what the writer produced, whatever follows it in
  the stream. Prefix-freeness and the round trip of a sequence of values follow.
\<close>

locale stream_codec =
  fixes enc :: "'a \<Rightarrow> bytes"
    and dec :: "'a reader"
    and ok :: "'a \<Rightarrow> bool"
  assumes dec_enc: "ok x \<Longrightarrow> dec (enc x @ rest) = (Inr x, rest)"
begin

lemma enc_prefix_free:
  assumes "ok x" "ok y" "enc x @ xs = enc y @ ys"
  shows "x = y \<and> xs = ys"
proof -
  have "(Inr x, xs) = dec (enc x @ xs)" using assms(1) by (simp add: dec_enc)
  also have "\<dots> = dec (enc y @ ys)" using assms(3) by simp
  also have "\<dots> = (Inr y, ys)" using assms(2) by (simp add: dec_enc)
  finally show ?thesis by simp
qed

lemma enc_inj: "inj_on enc {x. ok x}"
  by (rule inj_onI) (use enc_prefix_free [of _ _ "[]" "[]"] in auto)

end

section \<open>The loops\<close>

lemma and_mask7: "(v :: 'a::len word) AND 0x7F = take_bit 7 v"
  by (simp add: take_bit_eq_mask mask_eq_exp_minus_1)

lemma unat_take_bit_7: "unat (take_bit 7 (v :: 'a::len word)) = unat v mod 128"
  using unsigned_take_bit_eq [of 7 v, where ?'a = nat] by (simp only: take_bit_eq_mod) simp

lemma unat_drop_bit_7: "unat (drop_bit 7 (v :: 'a::len word)) = unat v div 128"
proof -
  have "unat (drop_bit 7 v) = drop_bit 7 (take_bit LENGTH('a) (unat v))"
    by (rule unsigned_drop_bit_eq)
  also have "take_bit LENGTH('a) (unat v) = unat v"
    by (simp add: take_bit_nat_eq_self)
  also have "drop_bit 7 (unat v) = unat v div 128"
    by (simp add: drop_bit_eq_div)
  finally show ?thesis .
qed

lemma unat_drop_bit_7_less: "128 \<le> unat v \<Longrightarrow> unat (drop_bit 7 (v :: 'a::len word)) < unat v"
  unfolding unat_drop_bit_7 by (rule div_less_dividend) auto

lemma take_bit_7_id: "take_bit 7 (v :: 'a::len word) = v \<longleftrightarrow> unat v < 128"
  by (metis mod_less mod_less_divisor unat_take_bit_7 word_unat_eq_iff zero_less_numeral)

text \<open>The test \<open>value & !0x7F == 0\<close>, in the form the simplifier brings it to.\<close>

lemma and_not_mask7 [simp]:
  "(v :: 'a::len word) AND - 128 = 0 \<longleftrightarrow> unat v < 128"
proof -
  have "v AND NOT (mask 7) = 0 \<longleftrightarrow> take_bit 7 v = v"
    by (auto simp: bit_eq_iff bit_simps)
  moreover have "NOT (mask 7) = (- 128 :: 'a word)"
    by (simp add: mask_eq_exp_minus_1)
  ultimately show ?thesis by (simp add: take_bit_7_id)
qed

text \<open>\<open>value & !0x7F == 0\<close> ends the loop; otherwise seven bits go out with the high bit set.\<close>

function write_loop :: "'a::len word \<Rightarrow> bytes" where
  "write_loop v =
     (if v AND NOT 0x7F = 0 then [ucast v]
      else ((ucast v AND 0x7F) OR 0x80) # write_loop (drop_bit 7 v))"
  by pat_completeness auto
termination
  by (relation "measure unat")  (simp, simp only: in_measure unat_drop_bit_7, simp)

declare write_loop.simps [simp del]

text \<open>\<open>while value >= 0x80 { value >>= 7; len += 1 }\<close>, from \<open>len = 1\<close>.\<close>

function len_loop :: "'a::len word \<Rightarrow> nat \<Rightarrow> nat" where
  "len_loop v len = (if unat v \<ge> 0x80 then len_loop (drop_bit 7 v) (len + 1) else len)"
  by pat_completeness auto
termination
  by (relation "measure (\<lambda>(v, len). unat v)") (simp, simp only: in_measure prod.case unat_drop_bit_7_less)

declare len_loop.simps [simp del]

text \<open>
  The decoding loop, with \<open>result\<close>, \<open>shift\<close> and \<open>count\<close> as the code has them and
  the limit \<open>MAX_VARINT_BYTES\<close> or \<open>MAX_VARLONG_BYTES\<close> as \<open>max_bytes\<close>.
\<close>

fun read_loop :: "nat \<Rightarrow> 'a::len word \<Rightarrow> nat \<Rightarrow> nat \<Rightarrow> 'a word reader" where
  "read_loop max_bytes result shift count [] = (Inl Protocol, [])"
| "read_loop max_bytes result shift count (byte # rest) =
     (let count = count + 1;
          result = result OR push_bit shift (ucast (byte AND 0x7F))
      in if byte AND 0x80 = 0 then (Inr result, rest)
         else if count \<ge> max_bytes then (Inl Protocol, rest)
         else read_loop max_bytes result (shift + 7) count rest)"

section \<open>The functions of the file\<close>

definition MAX_VARINT_BYTES :: nat where "MAX_VARINT_BYTES = 5"
definition MAX_VARLONG_BYTES :: nat where "MAX_VARLONG_BYTES = 10"

definition varint_len :: "u32 \<Rightarrow> nat" where
  "varint_len value = len_loop value 1"

definition varlong_len :: "u64 \<Rightarrow> nat" where
  "varlong_len value = len_loop value 1"

text \<open>The writers append to the buffer and return the number of bytes written.\<close>

definition write_varint :: "bytes \<Rightarrow> u32 \<Rightarrow> bytes \<times> nat" where
  "write_varint out value =
     (let out' = out @ write_loop value in (out', length out' - length out))"

definition write_varlong :: "bytes \<Rightarrow> u64 \<Rightarrow> bytes \<times> nat" where
  "write_varlong out value =
     (let out' = out @ write_loop value in (out', length out' - length out))"

definition read_varint :: "u32 reader" where
  "read_varint bytes = read_loop MAX_VARINT_BYTES 0 0 0 bytes"

definition read_varlong :: "u64 reader" where
  "read_varlong bytes = read_loop MAX_VARLONG_BYTES 0 0 0 bytes"

section \<open>Laws\<close>

lemma length_write_loop_pos: "0 < length (write_loop v)"
  by (subst write_loop.simps) simp

lemma len_loop_write_loop: "len_loop v n + 1 = n + length (write_loop v)"
proof (induction v arbitrary: n rule: write_loop.induct)
  case (1 v)
  show ?case
  proof (cases "unat v < 128")
    case True
    then show ?thesis by (simp add: len_loop.simps [of v] write_loop.simps [of v])
  next
    case False
    with "1.IH" [of "n + 1"] show ?thesis
      by (simp add: len_loop.simps [of v] write_loop.simps [of v])
  qed
qed

lemma varint_len_eq: "varint_len v = length (write_loop v)"
  using len_loop_write_loop [of v 1] by (simp add: varint_len_def)

lemma varlong_len_eq: "varlong_len v = length (write_loop v)"
  using len_loop_write_loop [of v 1] by (simp add: varlong_len_def)

lemma length_write_loop_le:
  "unat v < 2 ^ (7 * k) \<Longrightarrow> 0 < k \<Longrightarrow> length (write_loop v) \<le> k"
proof (induction k arbitrary: v)
  case 0
  then show ?case by simp
next
  case (Suc k)
  show ?case
  proof (cases "unat v < 128")
    case True
    then show ?thesis by (simp add: write_loop.simps [of v])
  next
    case False
    then have k: "0 < k" using Suc.prems by (cases k) auto
    have "unat v div 128 < 2 ^ (7 * k)"
      using Suc.prems by (simp add: power_add less_mult_imp_div_less)
    then have "length (write_loop (drop_bit 7 v)) \<le> k"
      using k by (intro Suc.IH) (simp_all only: unat_drop_bit_7)
    with False show ?thesis by (simp add: write_loop.simps [of v])
  qed
qed

lemma length_write_loop_u32: "length (write_loop (v :: u32)) \<le> 5"
proof (rule length_write_loop_le)
  have "unat v < 2 ^ 32" using unsigned_less [of v] by simp
  then show "unat v < 2 ^ (7 * 5)" by simp
qed simp

lemma length_write_loop_u64: "length (write_loop (v :: u64)) \<le> 10"
proof (rule length_write_loop_le)
  have "unat v < 2 ^ 64" using unsigned_less [of v] by simp
  then show "unat v < 2 ^ (7 * 10)" by simp
qed simp

text \<open>One round of the loop reads back the seven bits one round of the writer put out.\<close>

lemma cont_byte: "((b :: u8) AND 0x7F OR 0x80) AND 0x80 \<noteq> 0"
proof -
  have "bit (((b :: u8) AND 0x7F OR 0x80) AND 0x80) 7" by (simp add: bit_simps)
  then show ?thesis by auto
qed

lemma cont_byte_bits: "((b :: u8) AND 0x7F OR 0x80) AND 0x7F = take_bit 7 b"
proof -
  have "((b AND 0x7F) OR 0x80) AND 0x7F = b AND (0x7F :: u8)"
    by (simp add: bit.conj_disj_distrib2 and.assoc)
  then show ?thesis by (simp add: and_mask7)
qed

lemma last_byte:
  assumes "unat (v :: 'a::len word) < 128"
  shows "(ucast v :: u8) AND 0x80 = 0" "ucast ((ucast v :: u8) AND 0x7F) = v"
proof -
  have low: "n < 7" if "bit v n" for n
    using that assms by (metis bit_take_bit_iff take_bit_7_id)
  have b80: "bit (0x80 :: u8) n \<longleftrightarrow> n = 7" for n
    using bit_push_bit_iff [of 7 "1 :: u8" n] bit_imp_le_length [of "0x80 :: u8" n]
    by (auto simp: bit_1_iff)
  show "(ucast v :: u8) AND 0x80 = 0"
    by (rule bit_word_eqI) (simp only: bit_and_iff b80 bit_ucast_iff bit_0_eq, auto dest: low)
  show "ucast ((ucast v :: u8) AND 0x7F) = v"
    unfolding and_mask7
    by (rule bit_word_eqI) (auto simp: bit_take_bit_iff bit_ucast_iff dest: low bit_imp_le_length)
qed

lemma split7:
  "(r OR push_bit s (ucast (take_bit 7 (ucast (v :: 'a::len word) :: u8))))
     OR push_bit (s + 7) (drop_bit 7 v) = r OR push_bit s v"
proof (rule bit_word_eqI)
  fix n assume n: "n < LENGTH('a)"
  show "bit ((r OR push_bit s (ucast (take_bit 7 (ucast v :: u8))))
          OR push_bit (s + 7) (drop_bit 7 v)) n = bit (r OR push_bit s v) n"
  proof (cases "s + 7 \<le> n")
    case True
    then have "7 + (n - (s + 7)) = n - s" by simp
    with n True show ?thesis by (auto simp: bit_simps)
  next
    case False
    with n show ?thesis by (auto simp: bit_simps)
  qed
qed

lemma read_write_loop:
  "c + length (write_loop v) \<le> m \<Longrightarrow>
   read_loop m r s c (write_loop v @ rest) = (Inr (r OR push_bit s v), rest)"
proof (induction v arbitrary: r s c rule: write_loop.induct)
  case (1 v)
  show ?case
  proof (cases "unat v < 128")
    case True
    then show ?thesis by (simp add: write_loop.simps [of v] last_byte)
  next
    case False
    let ?w = "drop_bit 7 v"
    have w: "write_loop v = ((ucast v AND 0x7F) OR 0x80) # write_loop ?w"
      using False by (subst write_loop.simps) simp
    have c: "Suc c + length (write_loop ?w) \<le> m"
      using "1.prems" by (simp add: w)
    have lim: "\<not> m \<le> Suc c"
      using c length_write_loop_pos [of ?w] by linarith
    from False have "\<not> v AND NOT 0x7F = 0" by simp
    note IH = "1.IH" [OF this c, of "r OR push_bit s (ucast (take_bit 7 (ucast v :: u8)))" "s + 7"]
    show ?thesis
      using lim IH by (simp add: w cont_byte cont_byte_bits Let_def split7)
  qed
qed

end
