(* ===== verification/Strings.thy ===== *)
theory Strings
  imports Bytes
begin

text \<open>
  Rust's strings. A \<open>String\<close> is a sequence of Unicode scalar values; the code under
  \<open>src/\<close> reads and writes it as UTF-8 (\<open>as_bytes\<close>, \<open>str::from_utf8\<close>) and as
  UTF-16 (\<open>encode_utf16\<close>, \<open>String::from_utf16\<close>). Those four functions of the
  standard library are defined here, with the round trips the codecs rest on.
\<close>

type_synonym rstring = "nat list"

definition valid_scalar :: "nat \<Rightarrow> bool" where
  "valid_scalar c \<longleftrightarrow> c < 0xD800 \<or> (0xE000 \<le> c \<and> c < 0x110000)"

definition valid_string :: "rstring \<Rightarrow> bool" where
  "valid_string s \<longleftrightarrow> list_all valid_scalar s"

lemma valid_string_simps [simp]:
  "valid_string []"
  "valid_string (c # s) \<longleftrightarrow> valid_scalar c \<and> valid_string s"
  "valid_string (s @ t) \<longleftrightarrow> valid_string s \<and> valid_string t"
  by (auto simp: valid_string_def)

text \<open>A string literal of the source (all of them ASCII).\<close>

definition lit :: "string \<Rightarrow> rstring" where
  "lit s = map of_char s"

section \<open>UTF-8\<close>

definition utf8_char :: "nat \<Rightarrow> nat list" where
  "utf8_char c =
     (if c < 0x80 then [c]
      else if c < 0x800 then [0xC0 + c div 64, 0x80 + c mod 64]
      else if c < 0x10000 then [0xE0 + c div 4096, 0x80 + c div 64 mod 64, 0x80 + c mod 64]
      else [0xF0 + c div 262144, 0x80 + c div 4096 mod 64, 0x80 + c div 64 mod 64, 0x80 + c mod 64])"

definition utf8_encode :: "rstring \<Rightarrow> bytes" where
  "utf8_encode s = map of_nat (concat (map utf8_char s))"

definition cont :: "nat \<Rightarrow> bool" where
  "cont b \<longleftrightarrow> 0x80 \<le> b \<and> b < 0xC0"

fun utf8_decode_nat :: "nat list \<Rightarrow> rstring option" where
  "utf8_decode_nat [] = Some []"
| "utf8_decode_nat (b0 # bs) =
     (if b0 < 0x80 then map_option (Cons b0) (utf8_decode_nat bs)
      else if b0 < 0xC2 then None
      else if b0 < 0xE0 then
        (case bs of b1 # r \<Rightarrow>
           if cont b1
           then map_option (Cons ((b0 - 0xC0) * 64 + (b1 - 0x80))) (utf8_decode_nat r)
           else None
         | _ \<Rightarrow> None)
      else if b0 < 0xF0 then
        (case bs of b1 # b2 # r \<Rightarrow>
           (let c = (b0 - 0xE0) * 4096 + (b1 - 0x80) * 64 + (b2 - 0x80)
            in if cont b1 \<and> cont b2 \<and> 0x800 \<le> c \<and> valid_scalar c
               then map_option (Cons c) (utf8_decode_nat r) else None)
         | _ \<Rightarrow> None)
      else
        (case bs of b1 # b2 # b3 # r \<Rightarrow>
           (let c = (b0 - 0xF0) * 262144 + (b1 - 0x80) * 4096 + (b2 - 0x80) * 64 + (b3 - 0x80)
            in if cont b1 \<and> cont b2 \<and> cont b3 \<and> 0x10000 \<le> c \<and> valid_scalar c
               then map_option (Cons c) (utf8_decode_nat r) else None)
         | _ \<Rightarrow> None))"

definition utf8_decode :: "bytes \<Rightarrow> rstring option" where
  "utf8_decode bs = utf8_decode_nat (map unat bs)"

lemma digits64:
  fixes n :: nat
  shows "n div 4096 * 4096 + n div 64 mod 64 * 64 + n mod 64 = n"
    and "n div 262144 * 262144 + n div 4096 mod 64 * 4096 + n div 64 mod 64 * 64 + n mod 64 = n"
proof -
  have a: "n div 64 = n div 4096 * 64 + n div 64 mod 64"
    using div_mult_mod_eq [of "n div 64" 64] by (simp add: div_mult2_eq [symmetric])
  have b: "n div 4096 = n div 262144 * 64 + n div 4096 mod 64"
    using div_mult_mod_eq [of "n div 4096" 64] by (simp add: div_mult2_eq [symmetric])
  have c: "n div 64 * 64 + n mod 64 = n" by simp
  show one: "n div 4096 * 4096 + n div 64 mod 64 * 64 + n mod 64 = n"
    using a c by linarith
  show "n div 262144 * 262144 + n div 4096 mod 64 * 4096 + n div 64 mod 64 * 64 + n mod 64 = n"
    using b one by linarith
qed

lemma utf8_char_byte: "valid_scalar c \<Longrightarrow> b \<in> set (utf8_char c) \<Longrightarrow> b < 256"
  by (auto simp: utf8_char_def valid_scalar_def split: if_splits)

lemma utf8_decode_char:
  assumes "valid_scalar c"
  shows "utf8_decode_nat (utf8_char c @ bs) = map_option (Cons c) (utf8_decode_nat bs)"
proof -
  consider "c < 0x80" | "0x80 \<le> c" "c < 0x800" | "0x800 \<le> c" "c < 0x10000" | "0x10000 \<le> c"
    by linarith
  then show ?thesis
  proof cases
    case 1
    then show ?thesis by (simp add: utf8_char_def)
  next
    case 2
    define q r where "q = c div 64" and "r = c mod 64"
    have b: "2 \<le> q" "q < 32" "r < 64"
      using 2 by (auto simp: q_def r_def less_mult_imp_div_less)
    have c: "q * 64 + r = c" by (simp add: q_def r_def)
    have u: "utf8_char c = [0xC0 + q, 0x80 + r]"
      using 2 by (simp add: utf8_char_def q_def r_def)
    have d: "utf8_decode_nat ([0xC0 + q, 0x80 + r] @ bs)
        = map_option (Cons (q * 64 + r)) (utf8_decode_nat bs)"
    proof -
      have "\<not> 0xC0 + q < 0x80" "\<not> 0xC0 + q < 0xC2" "0xC0 + q < 0xE0" "cont (0x80 + r)"
        "0xC0 + q - 0xC0 = q" "0x80 + r - 0x80 = r"
        using b by (auto simp: cont_def)
      then show ?thesis
        by (simp only: append.simps utf8_decode_nat.simps list.case if_True if_False simp_thms)
    qed
    show ?thesis by (simp only: u d c)
  next
    case 3
    then have "\<not> 0xE0 + c div 4096 < 0xE0" "0xE0 + c div 4096 < 0xF0" by (auto simp: less_mult_imp_div_less)
    moreover note digits64(1) [of c]
    ultimately show ?thesis using 3 assms by (simp add: utf8_char_def cont_def Let_def)
  next
    case 4
    note digits64(2) [of c]
    then show ?thesis using 4 assms by (simp add: utf8_char_def cont_def Let_def)
  qed
qed

lemma utf8_roundtrip: "valid_string s \<Longrightarrow> utf8_decode (utf8_encode s) = Some s"
proof -
  assume v: "valid_string s"
  have "map unat (map (of_nat :: nat \<Rightarrow> u8) (concat (map utf8_char s))) = concat (map utf8_char s)"
    using v by (auto simp: valid_string_def list_all_iff unat_of_nat intro!: map_idI mod_less dest!: utf8_char_byte [rotated])
  moreover have "utf8_decode_nat (concat (map utf8_char s)) = Some s"
    using v by (induction s) (auto simp: utf8_decode_char)
  ultimately show ?thesis by (simp add: utf8_decode_def utf8_encode_def)
qed

lemma length_utf8_char: "length (utf8_char c) \<le> 4" "1 \<le> length (utf8_char c)"
  by (auto simp: utf8_char_def)

lemma length_utf8_encode: "length (utf8_encode s) \<le> 4 * length s" "length s \<le> length (utf8_encode s)"
proof (induction s)
  case (Cons c s)
  case 1 then show ?case using Cons length_utf8_char(1) [of c] by (simp add: utf8_encode_def)
  case 2 then show ?case using Cons length_utf8_char(2) [of c] by (simp add: utf8_encode_def)
qed (simp_all add: utf8_encode_def)

section \<open>UTF-16\<close>

definition utf16_char :: "nat \<Rightarrow> nat list" where
  "utf16_char c =
     (if c < 0x10000 then [c]
      else [0xD800 + (c - 0x10000) div 1024, 0xDC00 + (c - 0x10000) mod 1024])"

definition encode_utf16 :: "rstring \<Rightarrow> u16 list" where
  "encode_utf16 s = map of_nat (concat (map utf16_char s))"

fun from_utf16_nat :: "nat list \<Rightarrow> rstring option" where
  "from_utf16_nat [] = Some []"
| "from_utf16_nat (u # us) =
     (if u < 0xD800 \<or> 0xE000 \<le> u then map_option (Cons u) (from_utf16_nat us)
      else if 0xDC00 \<le> u then None
      else case us of
        v # vs \<Rightarrow>
          if 0xDC00 \<le> v \<and> v < 0xE000
          then map_option (Cons (0x10000 + (u - 0xD800) * 1024 + (v - 0xDC00))) (from_utf16_nat vs)
          else None
      | [] \<Rightarrow> None)"

definition from_utf16 :: "u16 list \<Rightarrow> rstring option" where
  "from_utf16 us = from_utf16_nat (map unat us)"

lemma utf16_char_unit: "valid_scalar c \<Longrightarrow> u \<in> set (utf16_char c) \<Longrightarrow> u < 65536"
  by (auto simp: utf16_char_def valid_scalar_def split: if_splits)

lemma from_utf16_char:
  assumes "valid_scalar c"
  shows "from_utf16_nat (utf16_char c @ us) = map_option (Cons c) (from_utf16_nat us)"
proof (cases "c < 0x10000")
  case True
  then show ?thesis using assms by (auto simp: utf16_char_def valid_scalar_def)
next
  case False
  then have "(c - 0x10000) div 1024 < 0x400"
    using assms by (auto simp: valid_scalar_def less_mult_imp_div_less)
  moreover have "0x10000 + (c - 0x10000) div 1024 * 1024 + (c - 0x10000) mod 1024 = c"
    using False by (simp add: algebra_simps)
  ultimately show ?thesis using False by (simp add: utf16_char_def)
qed

lemma utf16_roundtrip: "valid_string s \<Longrightarrow> from_utf16 (encode_utf16 s) = Some s"
proof -
  assume v: "valid_string s"
  have "map unat (map (of_nat :: nat \<Rightarrow> u16) (concat (map utf16_char s))) = concat (map utf16_char s)"
    using v by (auto simp: valid_string_def list_all_iff unat_of_nat intro!: map_idI mod_less dest!: utf16_char_unit [rotated])
  moreover have "from_utf16_nat (concat (map utf16_char s)) = Some s"
    using v by (induction s) (auto simp: from_utf16_char)
  ultimately show ?thesis by (simp add: from_utf16_def encode_utf16_def)
qed

end
