(* ===== verification/ResourceIds.thy ===== *)
theory ResourceIds
  imports Strings
begin

text \<open>
  \<open>crates/core/src/ids.rs\<close>: parsing and printing of \<open>namespace:value\<close> identifiers,
  with the rules that keep a path traversal out of them.
\<close>

section \<open>The string functions the parser uses\<close>

text \<open>\<open>str::bytes\<close>, as the numbers the closures compare.\<close>

definition str_bytes :: "rstring \<Rightarrow> nat list" where
  "str_bytes s = concat (map utf8_char s)"

text \<open>\<open>str::split(c)\<close>: the segments between the separators, at least one.\<close>

fun split_on :: "nat \<Rightarrow> rstring \<Rightarrow> rstring list" where
  "split_on d [] = [[]]"
| "split_on d (c # cs) =
     (if c = d then [] # split_on d cs
      else (case split_on d cs of [] \<Rightarrow> [[c]] | s # ss \<Rightarrow> (c # s) # ss))"

text \<open>\<open>str::split_once(c)\<close>: the parts around the first separator.\<close>

fun split_once :: "nat \<Rightarrow> rstring \<Rightarrow> (rstring \<times> rstring) option" where
  "split_once d [] = None"
| "split_once d (c # cs) =
     (if c = d then Some ([], cs)
      else map_option (\<lambda>(a, b). (c # a, b)) (split_once d cs))"

fun contains_pair :: "nat \<Rightarrow> nat \<Rightarrow> rstring \<Rightarrow> bool" where
  "contains_pair a b (x # y # s) = ((x = a \<and> y = b) \<or> contains_pair a b (y # s))"
| "contains_pair a b s = False"

section \<open>Parsing and printing\<close>

record resource_id =
  namespace :: rstring
  rvalue :: rstring

definition is_ascii_lowercase :: "nat \<Rightarrow> bool" where
  "is_ascii_lowercase b \<longleftrightarrow> 97 \<le> b \<and> b \<le> 122"

definition is_ascii_digit :: "nat \<Rightarrow> bool" where
  "is_ascii_digit b \<longleftrightarrow> 48 \<le> b \<and> b \<le> 57"

definition valid_namespace :: "rstring \<Rightarrow> bool" where
  "valid_namespace s \<longleftrightarrow>
     s \<noteq> [] \<and> s \<noteq> lit ''.'' \<and> s \<noteq> lit ''..'' \<and>
     list_all (\<lambda>b. is_ascii_lowercase b \<or> is_ascii_digit b \<or>
       b = of_char (CHR ''.'') \<or> b = of_char (CHR ''_'') \<or> b = of_char (CHR ''-'')) (str_bytes s)"

definition valid_value :: "rstring \<Rightarrow> bool" where
  "valid_value s \<longleftrightarrow>
     s \<noteq> [] \<and>
     \<not> list_ex (\<lambda>seg. seg = lit ''.'' \<or> seg = lit ''..'') (split_on (of_char (CHR ''/'')) s) \<and>
     list_all (\<lambda>b. is_ascii_lowercase b \<or> is_ascii_digit b \<or>
       b = of_char (CHR ''.'') \<or> b = of_char (CHR ''_'') \<or> b = of_char (CHR ''-'') \<or>
       b = of_char (CHR ''/'')) (str_bytes s)"

definition parse_id :: "rstring \<Rightarrow> resource_id server_result" where
  "parse_id input =
     (let (ns, v) = (case split_once (of_char (CHR '':'')) input of
            Some (ns, v) \<Rightarrow> (ns, v)
          | None \<Rightarrow> (lit ''minecraft'', input));
          slash = of_char (CHR ''/'')
      in if (v \<noteq> [] \<and> hd v = slash) \<or> (v \<noteq> [] \<and> last v = slash) \<or> contains_pair slash slash v
         then Inl Protocol
         else if \<not> valid_namespace ns \<or> \<not> valid_value v then Inl Protocol
         else Inr \<lparr>namespace = ns, rvalue = v\<rparr>)"

text \<open>\<open>Display for ResourceId\<close>.\<close>

definition display_id :: "resource_id \<Rightarrow> rstring" where
  "display_id r = namespace r @ lit '':'' @ rvalue r"

section \<open>Laws\<close>

definition well_formed_id :: "resource_id \<Rightarrow> bool" where
  "well_formed_id r \<longleftrightarrow>
     valid_namespace (namespace r) \<and> valid_value (rvalue r) \<and>
     [] \<notin> set (split_on (of_char (CHR ''/'')) (rvalue r))"

lemma split_on_nonempty [simp]: "split_on d s \<noteq> []"
  by (cases s) (auto split: list.splits)

lemma hd_split_on: "hd (split_on d s) = [] \<longleftrightarrow> s = [] \<or> hd s = d"
  by (cases s) (auto split: list.splits)

lemma tl_split_on:
  "[] \<in> set (tl (split_on d s)) \<longleftrightarrow> (s \<noteq> [] \<and> last s = d) \<or> contains_pair d d s"
proof (induction s)
  case Nil
  then show ?case by simp
next
  case (Cons c t)
  obtain x xs where sp: "split_on d t = x # xs" by (cases "split_on d t") auto
  then have x: "x = [] \<longleftrightarrow> t = [] \<or> hd t = d" using hd_split_on [of d t] by simp
  have cp: "contains_pair d d (c # t) \<longleftrightarrow> (c = d \<and> t \<noteq> [] \<and> hd t = d) \<or> contains_pair d d t"
    by (cases t) auto
  show ?case
  proof (cases "c = d")
    case True
    then have "[] \<in> set (tl (split_on d (c # t))) \<longleftrightarrow> x = [] \<or> [] \<in> set xs"
      using sp by auto
    then show ?thesis unfolding x cp using Cons.IH sp True by (cases "t = []") auto
  next
    case False
    then have "[] \<in> set (tl (split_on d (c # t))) \<longleftrightarrow> [] \<in> set xs"
      using sp by auto
    then show ?thesis unfolding cp using Cons.IH sp False by (cases "t = []") auto
  qed
qed

lemma empty_segment_iff:
  "[] \<in> set (split_on d s) \<longleftrightarrow> s = [] \<or> hd s = d \<or> last s = d \<or> contains_pair d d s"
proof -
  obtain x xs where sp: "split_on d s = x # xs" by (cases "split_on d s") auto
  show ?thesis
    using hd_split_on [of d s] tl_split_on [of d s] unfolding sp by auto
qed

lemma split_once_append: "d \<notin> set a \<Longrightarrow> split_once d (a @ d # b) = Some (a, b)"
  by (induction a) auto

lemma utf8_char_ascii: "c < 128 \<Longrightarrow> utf8_char c = [c]"
  by (simp add: utf8_char_def)

lemma mem_str_bytes: "c \<in> set s \<Longrightarrow> c < 128 \<Longrightarrow> c \<in> set (str_bytes s)"
  by (force simp: str_bytes_def utf8_char_ascii)

lemma namespace_no_colon: "valid_namespace s \<Longrightarrow> of_char (CHR '':'') \<notin> set s"
proof
  assume v: "valid_namespace s" and "of_char (CHR '':'') \<in> set s"
  then have "58 \<in> set (str_bytes s)" by (intro mem_str_bytes) auto
  with v show False
    by (auto simp: valid_namespace_def list_all_iff is_ascii_lowercase_def is_ascii_digit_def
        dest!: bspec [where x = 58])
qed

lemma parse_parts:
  "(if (v \<noteq> [] \<and> hd v = d) \<or> (v \<noteq> [] \<and> last v = d) \<or> contains_pair d d v then Inl Protocol
    else if \<not> valid_namespace ns \<or> \<not> valid_value v then Inl Protocol
    else Inr \<lparr>namespace = ns, rvalue = v\<rparr>) = Inr r
   \<longleftrightarrow> r = \<lparr>namespace = ns, rvalue = v\<rparr> \<and> valid_namespace ns \<and> valid_value v \<and> [] \<notin> set (split_on d v)"
  unfolding empty_segment_iff by (auto simp: valid_value_def)

lemma parse_id_Inr:
  "parse_id s = Inr r \<longleftrightarrow>
     well_formed_id r \<and>
     (case split_once (of_char (CHR '':'')) s of
        Some (ns, v) \<Rightarrow> r = \<lparr>namespace = ns, rvalue = v\<rparr>
      | None \<Rightarrow> r = \<lparr>namespace = lit ''minecraft'', rvalue = s\<rparr>)"
proof (cases "split_once (of_char (CHR '':'')) s")
  case None
  then show ?thesis
    unfolding parse_id_def well_formed_id_def Let_def
    by (simp only: option.case prod.case parse_parts) auto
next
  case (Some p)
  then show ?thesis
    unfolding parse_id_def well_formed_id_def Let_def
    by (cases p) (simp only: option.case prod.case parse_parts, auto)
qed

lemma parse_display: "well_formed_id r \<Longrightarrow> parse_id (display_id r) = Inr r"
  using split_once_append [OF namespace_no_colon, of "namespace r" "rvalue r"]
  by (simp add: parse_id_Inr display_id_def lit_def well_formed_id_def)

text \<open>
  Every identifier the parser accepts is well formed (its namespace, its path and each
  segment of the path obey the character rules and are not empty), and printing it gives a
  string that parses to the same identifier again.
\<close>

lemma parse_id_canonical:
  assumes "parse_id s = Inr r"
  shows "well_formed_id r \<and> parse_id (display_id r) = Inr r"
  using assms parse_display by (simp add: parse_id_Inr)

lemma parse_id_canonical_witness:
  "well_formed_id \<lparr>namespace = lit ''minecraft'', rvalue = lit ''stone''\<rparr> \<and>
   parse_id (display_id \<lparr>namespace = lit ''minecraft'', rvalue = lit ''stone''\<rparr>)
     = Inr \<lparr>namespace = lit ''minecraft'', rvalue = lit ''stone''\<rparr>"
  by (rule parse_id_canonical [of "lit ''stone''"])
     (simp add: parse_id_def lit_def valid_namespace_def valid_value_def contains_pair.simps
       is_ascii_lowercase_def is_ascii_digit_def str_bytes_def utf8_char_def)

end
