(* ===== verification/Wire.thy ===== *)
theory Wire
  imports VarInt Strings ResourceIds
begin

text \<open>
  \<open>crates/protocol/src/wire.rs\<close>: the packet reader and writer. A \<open>PacketReader\<close> is
  the bytes it has not consumed, a \<open>PacketWriter\<close> the bytes it has written. Signed
  integers are the words that hold their bits, floats are the words \<open>to_bits\<close> gives.
\<close>

definition MAX_IDENTIFIER_LEN :: nat where "MAX_IDENTIFIER_LEN = 32767"

section \<open>The reader\<close>

definition ensure :: "bytes \<Rightarrow> nat \<Rightarrow> unit server_result" where
  "ensure data n = (if length data < n then Inl Protocol else Inr ())"

definition advance :: "nat \<Rightarrow> unit reader" where
  "advance n data = (case ensure data n of Inl e \<Rightarrow> (Inl e, data) | Inr _ \<Rightarrow> (Inr (), drop n data))"

definition take_remaining :: "bytes \<Rightarrow> bytes \<times> bytes" where
  "take_remaining data = (data, [])"

definition read_u8 :: "u8 reader" where
  "read_u8 data =
     (case ensure data 1 of Inl e \<Rightarrow> (Inl e, data) | Inr _ \<Rightarrow> (Inr (data ! 0), drop 1 data))"

definition read_i8 :: "u8 reader" where
  "read_i8 data = read_u8 data"

definition read_bool :: "bool reader" where
  "read_bool data = (case read_u8 data of (Inl e, d) \<Rightarrow> (Inl e, d) | (Inr b, d) \<Rightarrow> (Inr (b \<noteq> 0), d))"

text \<open>The fixed-width big-endian reads share this shape: \<open>ensure(n)\<close>, convert, advance.\<close>

definition read_be :: "nat \<Rightarrow> 'a::len word reader" where
  "read_be n data =
     (case ensure data n of Inl e \<Rightarrow> (Inl e, data) | Inr _ \<Rightarrow> (Inr (be_to (take n data)), drop n data))"

definition read_u16 :: "u16 reader" where
  "read_u16 data = read_be 2 data"

definition read_i16 :: "u16 reader" where
  "read_i16 data = read_u16 data"

definition read_i32 :: "u32 reader" where
  "read_i32 data = read_be 4 data"

definition read_i64 :: "u64 reader" where
  "read_i64 data = read_be 8 data"

definition read_f32 :: "u32 reader" where
  "read_f32 data = read_i32 data"

definition read_f64 :: "u64 reader" where
  "read_f64 data = read_i64 data"

definition read_bytes :: "nat \<Rightarrow> bytes reader" where
  "read_bytes n data =
     (case ensure data n of Inl e \<Rightarrow> (Inl e, data) | Inr _ \<Rightarrow> (Inr (take n data), drop n data))"

definition read_uuid :: "bytes reader" where
  "read_uuid data = read_bytes 16 data"

text \<open>
  \<open>read_string\<close>: a negative length, a length above four bytes a character, a short
  payload, a payload that is not UTF-8 and one with too many characters are refused in
  this order. \<open>saturating_mul\<close> saturates at \<open>usize::MAX\<close>.
\<close>

definition read_string :: "nat \<Rightarrow> rstring reader" where
  "read_string max_chars data =
     (case read_varint data of
        (Inl e, d) \<Rightarrow> (Inl e, d)
      | (Inr len, d) \<Rightarrow>
          if sint len < 0 then (Inl Protocol, d)
          else if nat (sint len) > min (max_chars * 4) u64_max then (Inl Protocol, d)
          else (case read_bytes (nat (sint len)) d of
              (Inl e, d) \<Rightarrow> (Inl e, d)
            | (Inr bs, d) \<Rightarrow>
                (case utf8_decode bs of
                   None \<Rightarrow> (Inl Protocol, d)
                 | Some text \<Rightarrow>
                     if length text > max_chars then (Inl Protocol, d) else (Inr text, d))))"

definition read_identifier :: "resource_id reader" where
  "read_identifier data =
     (case read_string MAX_IDENTIFIER_LEN data of
        (Inl e, d) \<Rightarrow> (Inl e, d)
      | (Inr text, d) \<Rightarrow> (parse_id text, d))"

section \<open>The writer\<close>

definition with_id :: "u32 \<Rightarrow> bytes" where
  "with_id i = fst (write_varint [] i)"

definition write_u8 :: "bytes \<Rightarrow> u8 \<Rightarrow> bytes" where "write_u8 buf v = buf @ [v]"
definition write_i8 :: "bytes \<Rightarrow> u8 \<Rightarrow> bytes" where "write_i8 buf v = buf @ [v]"
definition write_bool :: "bytes \<Rightarrow> bool \<Rightarrow> bytes" where
  "write_bool buf v = buf @ [if v then 1 else 0]"
definition write_u16 :: "bytes \<Rightarrow> u16 \<Rightarrow> bytes" where "write_u16 buf v = buf @ be_of 2 v"
definition write_i16 :: "bytes \<Rightarrow> u16 \<Rightarrow> bytes" where "write_i16 buf v = buf @ be_of 2 v"
definition write_i32 :: "bytes \<Rightarrow> u32 \<Rightarrow> bytes" where "write_i32 buf v = buf @ be_of 4 v"
definition write_i64 :: "bytes \<Rightarrow> u64 \<Rightarrow> bytes" where "write_i64 buf v = buf @ be_of 8 v"
definition write_f32 :: "bytes \<Rightarrow> u32 \<Rightarrow> bytes" where "write_f32 buf v = buf @ be_of 4 v"
definition write_f64 :: "bytes \<Rightarrow> u64 \<Rightarrow> bytes" where "write_f64 buf v = buf @ be_of 8 v"
definition write_bytes :: "bytes \<Rightarrow> bytes \<Rightarrow> bytes" where "write_bytes buf bs = buf @ bs"
definition write_uuid :: "bytes \<Rightarrow> bytes \<Rightarrow> bytes" where "write_uuid buf bs = buf @ bs"

text \<open>A refused string leaves the buffer as it was.\<close>

definition write_string :: "bytes \<Rightarrow> rstring \<Rightarrow> unit server_result \<times> bytes" where
  "write_string buf s =
     (let value = utf8_encode s
      in if length value > MAX_IDENTIFIER_LEN then (Inl Operational, buf)
         else if length value > 2147483647 then (Inl Operational, buf)
         else (Inr (), fst (write_varint buf (of_nat (length value))) @ value))"

definition write_identifier :: "bytes \<Rightarrow> resource_id \<Rightarrow> unit server_result \<times> bytes" where
  "write_identifier buf r = write_string buf (display_id r)"

section \<open>Laws\<close>

lemma write_varint_append: "fst (write_varint buf v) = buf @ write_loop v"
  by (simp add: write_varint_def Let_def)

lemma read_varint_write: "read_varint (write_loop v @ rest) = (Inr v, rest)"
  using read_write_loop [of 0 v MAX_VARINT_BYTES 0 0 rest] length_write_loop_u32 [of v]
  by (simp add: read_varint_def MAX_VARINT_BYTES_def)

lemma read_varlong_write: "read_varlong (write_loop v @ rest) = (Inr v, rest)"
  using read_write_loop [of 0 v MAX_VARLONG_BYTES 0 0 rest] length_write_loop_u64 [of v]
  by (simp add: read_varlong_def MAX_VARLONG_BYTES_def)

lemma read_be_of:
  "LENGTH('a) \<le> 8 * n \<Longrightarrow> read_be n (be_of n (w :: 'a::len word) @ rest) = (Inr w, rest)"
  by (simp add: read_be_def ensure_def be_to_be_of)

lemma read_bytes_append: "length bs = n \<Longrightarrow> read_bytes n (bs @ rest) = (Inr bs, rest)"
  by (simp add: read_bytes_def ensure_def)

interpretation varint_codec: stream_codec "write_loop :: u32 \<Rightarrow> bytes" read_varint "\<lambda>_. True"
  by unfold_locales (rule read_varint_write)

interpretation varlong_codec: stream_codec "write_loop :: u64 \<Rightarrow> bytes" read_varlong "\<lambda>_. True"
  by unfold_locales (rule read_varlong_write)

interpretation i16_codec: stream_codec "be_of 2 :: u16 \<Rightarrow> bytes" read_i16 "\<lambda>_. True"
  by unfold_locales (simp add: read_i16_def read_u16_def read_be_of)

interpretation i32_codec: stream_codec "be_of 4 :: u32 \<Rightarrow> bytes" read_i32 "\<lambda>_. True"
  by unfold_locales (simp add: read_i32_def read_be_of)

interpretation i64_codec: stream_codec "be_of 8 :: u64 \<Rightarrow> bytes" read_i64 "\<lambda>_. True"
  by unfold_locales (simp add: read_i64_def read_be_of)

definition string_writable :: "rstring \<Rightarrow> bool" where
  "string_writable s \<longleftrightarrow> valid_string s \<and> length (utf8_encode s) \<le> MAX_IDENTIFIER_LEN"

lemma write_string_ok:
  assumes "length (utf8_encode s) \<le> MAX_IDENTIFIER_LEN"
  shows "write_string buf s
       = (Inr (), buf @ write_loop (of_nat (length (utf8_encode s)) :: u32) @ utf8_encode s)"
proof -
  have "\<not> length (utf8_encode s) > 2147483647"
    using assms by (simp add: MAX_IDENTIFIER_LEN_def)
  then show ?thesis
    using assms by (simp add: write_string_def Let_def write_varint_append)
qed

lemma read_string_write:
  assumes "string_writable s" "length s \<le> max_chars" "4 * max_chars \<le> u64_max"
  shows "read_string max_chars (snd (write_string [] s) @ rest) = (Inr s, rest)"
proof -
  let ?v = "utf8_encode s"
  from assms have v: "valid_string s" and n: "length ?v \<le> MAX_IDENTIFIER_LEN"
    by (auto simp: string_writable_def)
  have len: "sint (of_nat (length ?v) :: u32) = int (length ?v)"
    using n by (intro sint_of_nat_u32) (simp add: MAX_IDENTIFIER_LEN_def)
  have fits: "\<not> length ?v > min (max_chars * 4) u64_max"
    using length_utf8_encode(1) [of s] assms(2,3) by auto
  show ?thesis
    using n v fits assms(2)
    by (simp add: write_string_ok read_string_def read_varint_write len read_bytes_append
        utf8_roundtrip)
qed

text \<open>
  VarInt and VarLong: what a writer appends is 1 to 5 (1 to 10) bytes, as many as it
  returns and as the length function predicts, and the reader gives the value back and
  leaves exactly the bytes that follow.
\<close>

lemma varint_round_trip:
  "(case write_varint [] v of (out, n) \<Rightarrow>
      n = varint_len v \<and> 1 \<le> n \<and> n \<le> 5 \<and> length out = n
      \<and> read_varint (out @ rest) = (Inr v, rest)) \<and>
   (case write_varlong [] w of (out, n) \<Rightarrow>
      n = varlong_len w \<and> 1 \<le> n \<and> n \<le> 10 \<and> length out = n
      \<and> read_varlong (out @ rest) = (Inr w, rest))"
  using length_write_loop_u32 [of v] length_write_loop_pos [of v]
    length_write_loop_u64 [of w] length_write_loop_pos [of w]
  by (simp add: write_varint_def write_varlong_def varint_len_eq varlong_len_eq
      read_varint_write read_varlong_write Let_def Suc_le_eq)

text \<open>
  A string the writer accepts is read back unchanged when the reader allows its number
  of characters, and the reader stops where the string ends.
\<close>

lemma string_round_trip:
  assumes "write_string [] s = (Inr (), out)" "valid_string s"
    and "length s \<le> max_chars" "4 * max_chars \<le> u64_max"
  shows "read_string max_chars (out @ rest) = (Inr s, rest)"
proof -
  have "string_writable s"
    using assms(1,2) by (auto simp: write_string_def string_writable_def Let_def split: if_splits)
  from read_string_write [OF this assms(3,4), of rest] assms(1) show ?thesis by simp
qed

lemma string_round_trip_witness: "read_string 16 ([2, 104, 105] @ [9]) = (Inr (lit ''hi''), [9])"
proof (rule string_round_trip)
  show "write_string [] (lit ''hi'') = (Inr (), [2, 104, 105])"
    by (simp add: write_string_def write_varint_def lit_def utf8_encode_def utf8_char_def
        MAX_IDENTIFIER_LEN_def write_loop.simps)
qed (simp_all add: lit_def valid_string_def valid_scalar_def u64_max_def)

end
