(* ===== verification/Framing.thy ===== *)
theory Framing
  imports Wire
begin

text \<open>
  \<open>crates/protocol/src/framing.rs\<close> and \<open>packet.rs\<close>: the length-prefixed frame
  codec with optional compression. The zlib library is not under \<open>src/\<close>: the two
  functions the file uses of it are arguments, \<open>deflate\<close> for \<open>ZlibEncoder\<close> (the
  compressed bytes, or \<open>None\<close> for an error) and \<open>inflate limit\<close> for
  \<open>ZlibDecoder::take(limit).read_to_end\<close>.
\<close>

definition MAX_PACKET_SIZE :: nat where "MAX_PACKET_SIZE = 2097152"

definition BUFFER_CAP :: nat where
  "BUFFER_CAP = 2 * (MAX_PACKET_SIZE + MAX_VARINT_BYTES) + 16"

record raw_packet =
  packet_id :: u32
  payload :: bytes

record frame_codec =
  buffer :: bytes
  start :: nat
  compression_threshold :: "int option"

type_synonym deflate = "bytes \<Rightarrow> bytes option"
type_synonym inflate = "nat \<Rightarrow> bytes \<Rightarrow> bytes option"

definition new_codec :: frame_codec where
  "new_codec = \<lparr>buffer = [], start = 0, compression_threshold = None\<rparr>"

text \<open>\<open>threshold.max(0) as usize\<close>.\<close>

definition max0_usize :: "int \<Rightarrow> nat" where
  "max0_usize threshold = nat (max threshold 0)"

definition set_compression :: "frame_codec \<Rightarrow> int \<Rightarrow> frame_codec" where
  "set_compression c threshold = c\<lparr>compression_threshold := Some (max threshold 0)\<rparr>"

definition buffered :: "frame_codec \<Rightarrow> nat" where
  "buffered c = length (buffer c) - start c"

definition feed :: "frame_codec \<Rightarrow> bytes \<Rightarrow> unit server_result \<times> frame_codec" where
  "feed c data =
     (let c = c\<lparr>buffer := buffer c @ data\<rparr>
      in if buffered c > BUFFER_CAP then (Inl Protocol, c) else (Inr (), c))"

definition decompress_frame :: "inflate \<Rightarrow> bytes \<Rightarrow> int \<Rightarrow> bytes server_result" where
  "decompress_frame inflate frame threshold =
     (case read_varint frame of
        (Inl e, _) \<Rightarrow> Inl e
      | (Inr declared, cursor) \<Rightarrow>
          if sint declared < 0 then Inl Protocol
          else let declared = nat (sint declared) in
            if declared = 0 then
              (if length cursor > MAX_PACKET_SIZE then Inl Protocol else Inr cursor)
            else if declared > MAX_PACKET_SIZE then Inl Protocol
            else if declared < max0_usize threshold then Inl Protocol
            else (case inflate (declared + 1) cursor of
                None \<Rightarrow> Inl Protocol
              | Some output \<Rightarrow>
                  if length output \<noteq> declared then Inl Protocol else Inr output))"

text \<open>
  \<open>try_next\<close>. An error leaves the codec as it is at that point: before the frame is
  cut off the buffer it is unchanged, after it the frame is gone.
\<close>

definition try_next :: "inflate \<Rightarrow> frame_codec \<Rightarrow> raw_packet option server_result \<times> frame_codec" where
  "try_next inflate c =
     (if buffered c = 0 then (Inr None, c)
      else let data = drop (start c) (buffer c) in
      case read_varint data of
        (Inl _, _) \<Rightarrow>
          if length data \<ge> MAX_VARINT_BYTES then (Inl Protocol, c) else (Inr None, c)
      | (Inr frame_len, prefix) \<Rightarrow>
          let prefix_len = length data - length prefix in
          if sint frame_len < 0 then (Inl Protocol, c)
          else let frame_len = nat (sint frame_len) in
          if frame_len = 0 then (Inl Protocol, c)
          else if frame_len > MAX_PACKET_SIZE then (Inl Protocol, c)
          else let total = prefix_len + frame_len in
          if length data < total then (Inr None, c)
          else let frame = take frame_len (drop prefix_len data) in
          case (case compression_threshold c of
                  None \<Rightarrow> Inr frame
                | Some threshold \<Rightarrow> decompress_frame inflate frame threshold) of
            Inl e \<Rightarrow> (Inl e, c)
          | Inr body \<Rightarrow>
              let c = c\<lparr>start := start c + total\<rparr>;
                  c = (if start c > 8192 \<and> start c * 2 > length (buffer c)
                       then c\<lparr>buffer := drop (start c) (buffer c), start := 0\<rparr> else c)
              in if length body > MAX_PACKET_SIZE then (Inl Protocol, c)
                 else (case read_varint body of
                    (Inl e, _) \<Rightarrow> (Inl e, c)
                  | (Inr i, rest) \<Rightarrow> (Inr (Some \<lparr>packet_id = i, payload = rest\<rparr>), c)))"

definition i32_try_from :: "nat \<Rightarrow> u32 server_result" where
  "i32_try_from n = (if n < 2147483648 then Inr (of_nat n) else Inl Protocol)"

definition encode_frame :: "deflate \<Rightarrow> raw_packet \<Rightarrow> int option \<Rightarrow> bytes server_result" where
  "encode_frame deflate packet threshold_opt =
     (let body = fst (write_varint [] (packet_id packet)) @ payload packet
      in if length body > MAX_PACKET_SIZE then Inl Protocol
      else case threshold_opt of
        None \<Rightarrow>
          (case i32_try_from (length body) of
             Inl e \<Rightarrow> Inl e
           | Inr len \<Rightarrow> Inr (fst (write_varint [] len) @ body))
      | Some threshold \<Rightarrow>
          if length body < max0_usize threshold then
            (case i32_try_from (length body + 1) of
               Inl e \<Rightarrow> Inl e
             | Inr len \<Rightarrow> Inr (fst (write_varint (fst (write_varint [] len)) 0) @ body))
          else
            (case i32_try_from (length body) of
               Inl e \<Rightarrow> Inl e
             | Inr declared \<Rightarrow>
                 (case deflate body of
                    None \<Rightarrow> Inl Operational
                  | Some compressed \<Rightarrow>
                      (case i32_try_from (varint_len declared + length compressed) of
                         Inl e \<Rightarrow> Inl e
                       | Inr len \<Rightarrow>
                           Inr (fst (write_varint (fst (write_varint [] len)) declared)
                                @ compressed)))))"

section \<open>Abstraction: the bytes a codec still holds\<close>

definition pending :: "frame_codec \<Rightarrow> bytes" where
  "pending c = drop (start c) (buffer c)"

definition codec_ok :: "frame_codec \<Rightarrow> bool" where
  "codec_ok c \<longleftrightarrow> start c \<le> length (buffer c)"

lemma buffered_pending: "buffered c = length (pending c)"
  by (simp add: buffered_def pending_def)

lemma feed_pending:
  "codec_ok c \<Longrightarrow> feed c data = (r, c') \<Longrightarrow>
     codec_ok c' \<and> pending c' = pending c @ data \<and> compression_threshold c' = compression_threshold c"
  by (auto simp: feed_def Let_def codec_ok_def pending_def split: if_splits)

text \<open>What the documentation of zlib promises: reading back what was compressed.\<close>

definition zlib_ok :: "deflate \<Rightarrow> inflate \<Rightarrow> bool" where
  "zlib_ok deflate inflate \<longleftrightarrow>
     (\<forall>data z limit. deflate data = Some z \<longrightarrow> inflate limit z = Some (take limit data))"

text \<open>The frame of a packet without its length prefix, and the limit a peer puts on it.\<close>

definition frame_of :: "deflate \<Rightarrow> raw_packet \<Rightarrow> int option \<Rightarrow> bytes option" where
  "frame_of deflate packet t =
     (let body = write_loop (packet_id packet) @ payload packet
      in case t of
        None \<Rightarrow> Some body
      | Some threshold \<Rightarrow>
          if length body < max0_usize threshold then Some (write_loop (0 :: u32) @ body)
          else map_option (\<lambda>z. write_loop (of_nat (length body) :: u32) @ z) (deflate body))"

definition body_len :: "raw_packet \<Rightarrow> nat" where
  "body_len packet = length (write_loop (packet_id packet) @ payload packet)"

lemma body_len_pos: "0 < body_len packet"
  using length_write_loop_pos [of "packet_id packet"] by (simp add: body_len_def)

lemma length_zero_varint: "length (write_loop (0 :: u32)) = 1"
  by (subst write_loop.simps) simp

lemma encode_frame_eq:
  assumes "body_len packet \<le> MAX_PACKET_SIZE" "frame_of deflate packet t = Some f"
    "length f < 2147483648"
  shows "encode_frame deflate packet t = Inr (write_loop (of_nat (length f) :: u32) @ f)"
proof -
  have b: "i32_try_from (body_len packet) = Inr (of_nat (body_len packet))"
    "i32_try_from (body_len packet + 1) = Inr (of_nat (body_len packet + 1))"
    using assms(1) by (auto simp: i32_try_from_def MAX_PACKET_SIZE_def)
  show ?thesis
    using assms b
    by (auto simp: encode_frame_def frame_of_def body_len_def write_varint_append Let_def
        length_zero_varint varint_len_eq i32_try_from_def split: option.splits if_splits)
qed

lemma read_loop_strict_prefix:
  "write_loop v = p @ q \<Longrightarrow> q \<noteq> [] \<Longrightarrow> fst (read_loop m r s c p) = Inl Protocol"
proof (induction v arbitrary: p r s c rule: write_loop.induct)
  case (1 v)
  show ?case
  proof (cases p)
    case Nil
    then show ?thesis by simp
  next
    case (Cons b p')
    have big: "\<not> v AND NOT 0x7F = 0"
      using "1.prems" Cons by (auto simp: write_loop.simps [of v])
    then have w: "write_loop v = ((ucast v AND 0x7F) OR 0x80) # write_loop (drop_bit 7 v)"
      by (subst write_loop.simps) simp
    have "write_loop (drop_bit 7 v) = p' @ q" "b = (ucast v AND 0x7F) OR 0x80"
      using "1.prems" Cons w by auto
    then show ?thesis
      using "1.IH" [OF big _ "1.prems"(2)] Cons by (simp add: cont_byte Let_def)
  qed
qed

lemma decompress_raw:
  "length body \<le> MAX_PACKET_SIZE \<Longrightarrow>
     decompress_frame inflate (write_loop (0 :: u32) @ body) threshold = Inr body"
  by (simp add: decompress_frame_def read_varint_write)

lemma decompress_deflated:
  assumes "0 < length body" "length body \<le> MAX_PACKET_SIZE" "max0_usize threshold \<le> length body"
    and "inflate (length body + 1) z = Some body"
  shows "decompress_frame inflate (write_loop (of_nat (length body) :: u32) @ z) threshold = Inr body"
proof -
  have "sint (of_nat (length body) :: u32) = int (length body)"
    using assms(2) by (intro sint_of_nat_u32) (simp add: MAX_PACKET_SIZE_def)
  with assms show ?thesis by (simp add: decompress_frame_def read_varint_write Let_def)
qed

lemma decode_frame_of:
  assumes "zlib_ok deflate inflate" "body_len packet \<le> MAX_PACKET_SIZE"
    and "frame_of deflate packet t = Some f"
  shows "(case t of None \<Rightarrow> Inr f | Some threshold \<Rightarrow> decompress_frame inflate f threshold)
       = Inr (write_loop (packet_id packet) @ payload packet)"
proof -
  define body where "body = write_loop (packet_id packet) @ payload packet"
  have pos: "0 < length body" and lim: "length body \<le> MAX_PACKET_SIZE"
    using assms(2) body_len_pos [of packet] by (simp_all only: body_len_def body_def)
  have f: "(case t of None \<Rightarrow> Some body
      | Some threshold \<Rightarrow>
          if length body < max0_usize threshold then Some (write_loop (0 :: u32) @ body)
          else map_option (\<lambda>z. write_loop (of_nat (length body) :: u32) @ z) (deflate body)) = Some f"
    using assms(3) by (simp only: frame_of_def Let_def body_def)
  have inf: "deflate body = Some z \<Longrightarrow> inflate (length body + 1) z = Some body" for z
    using assms(1) unfolding zlib_ok_def by (metis le_add1 take_all)
  have "(case t of None \<Rightarrow> Inr f | Some threshold \<Rightarrow> decompress_frame inflate f threshold) = Inr body"
    using f pos lim inf
    by (auto simp: decompress_raw decompress_deflated split: option.splits if_splits)
  then show ?thesis by (simp add: body_def)
qed

lemma length_frame_of_pos: "frame_of deflate packet t = Some f \<Longrightarrow> 0 < length f"
  using length_write_loop_pos [of "packet_id packet"] length_write_loop_pos [of "0 :: u32"]
    length_write_loop_pos [of "of_nat (body_len packet) :: u32"]
  by (auto simp: frame_of_def Let_def body_len_def split: option.splits if_splits)

lemma try_next_frame:
  assumes "codec_ok c" "pending c = write_loop (of_nat (length f) :: u32) @ f @ rest"
    and "0 < length f" "length f \<le> MAX_PACKET_SIZE"
    and "(case compression_threshold c of None \<Rightarrow> Inr f
          | Some threshold \<Rightarrow> decompress_frame inflate f threshold) = Inr (write_loop i @ p)"
    and "length (write_loop i @ p) \<le> MAX_PACKET_SIZE"
  shows "\<exists>c'. try_next inflate c = (Inr (Some \<lparr>packet_id = i, payload = p\<rparr>), c')
       \<and> codec_ok c' \<and> pending c' = rest \<and> compression_threshold c' = compression_threshold c"
proof -
  let ?w = "write_loop (of_nat (length f) :: u32)"
  let ?tot = "length ?w + length f"
  define c1 where "c1 = c\<lparr>start := start c + ?tot\<rparr>"
  define c2 where "c2 = (if start c1 > 8192 \<and> start c1 * 2 > length (buffer c1)
      then c1\<lparr>buffer := drop (start c1) (buffer c1), start := 0\<rparr> else c1)"
  have data: "drop (start c) (buffer c) = ?w @ f @ rest"
    using assms(2) by (simp add: pending_def)
  have ne: "buffered c \<noteq> 0"
    using assms(2) length_write_loop_pos [of "of_nat (length f) :: u32"] by (simp add: buffered_pending)
  have len: "sint (of_nat (length f) :: u32) = int (length f)"
    using assms(4) by (intro sint_of_nat_u32) (simp add: MAX_PACKET_SIZE_def)
  have sub: "length (?w @ f @ rest) - length (f @ rest) = length ?w" by simp
  have step: "try_next inflate c = (Inr (Some \<lparr>packet_id = i, payload = p\<rparr>), c2)"
    using ne assms(3-6)
    by (simp add: try_next_def data read_varint_write len Let_def c1_def c2_def)
  have "drop (start c + ?tot) (buffer c) = drop ?tot (drop (start c) (buffer c))"
    by (simp only: drop_drop add.commute)
  then have "drop (start c1) (buffer c1) = rest"
    by (simp add: c1_def data)
  moreover have "start c1 \<le> length (buffer c1)"
    using assms(1) arg_cong [OF data, of length] by (simp add: c1_def codec_ok_def)
  ultimately have "codec_ok c2" "pending c2 = rest"
      "compression_threshold c2 = compression_threshold c"
    by (auto simp: c2_def codec_ok_def pending_def c1_def)
  with step show ?thesis by blast
qed

lemma try_next_partial:
  assumes "pending c = p" "write_loop (of_nat (length f) :: u32) @ f = p @ q" "q \<noteq> []"
    and "0 < length f" "length f \<le> MAX_PACKET_SIZE"
  shows "try_next inflate c = (Inr None, c)"
proof (cases "p = []")
  case True
  then show ?thesis using assms(1) by (simp add: try_next_def buffered_pending)
next
  case False
  let ?w = "write_loop (of_nat (length f) :: u32)"
  have data: "drop (start c) (buffer c) = p" using assms(1) by (simp add: pending_def)
  have ne: "buffered c \<noteq> 0" using False assms(1) by (simp add: buffered_pending)
  have len: "sint (of_nat (length f) :: u32) = int (length f)"
    using assms(5) by (intro sint_of_nat_u32) (simp add: MAX_PACKET_SIZE_def)
  from assms(2) consider
      us where "?w = p @ us" "us \<noteq> []" | us where "p = ?w @ us" "f = us @ q"
    by (auto simp: append_eq_append_conv2) (metis append_Nil2 append_self_conv)
  then show ?thesis
  proof cases
    case 1
    then have "fst (read_varint p) = Inl Protocol"
      by (simp add: read_varint_def read_loop_strict_prefix)
    moreover have "length p < MAX_VARINT_BYTES"
      using 1 length_write_loop_u32 [of "of_nat (length f)"]
      by (cases us) (auto simp: MAX_VARINT_BYTES_def)
    ultimately show ?thesis
      using ne by (cases "read_varint p") (simp add: try_next_def data Let_def)
  next
    case 2
    have "length us < length f" using 2(2) assms(3) by (cases q) simp_all
    then show ?thesis
      using ne 2(1) assms(4,5) by (simp add: try_next_def data read_varint_write len Let_def)
  qed
qed

lemma encode_frame_Inr:
  assumes "encode_frame deflate packet t = Inr out"
  shows "\<exists>f. body_len packet \<le> MAX_PACKET_SIZE \<and> frame_of deflate packet t = Some f
    \<and> out = write_loop (of_nat (length f) :: u32) @ f"
proof -
  have le: "body_len packet \<le> MAX_PACKET_SIZE"
    using assms
    by (auto simp: encode_frame_def body_len_def write_varint_append Let_def split: if_splits)
  have i: "i32_try_from n = Inr v \<Longrightarrow> v = of_nat n \<and> n < 2147483648" for n v
    by (auto simp: i32_try_from_def split: if_splits)
  have "\<exists>f. frame_of deflate packet t = Some f \<and> length f < 2147483648"
    using assms le
    by (auto simp: encode_frame_def frame_of_def body_len_def write_varint_append Let_def
        length_zero_varint varint_len_eq MAX_PACKET_SIZE_def split: option.splits if_splits sum.splits
        dest!: i)
  with encode_frame_eq [OF le] le assms show ?thesis by fastforce
qed

text \<open>
  C6. A packet that is encoded into a frame of at most \<open>MAX_PACKET_SIZE\<close> bytes comes out of
  a peer's codec with the same compression setting as the same packet, whatever bytes
  follow it in the stream, and the codec then holds exactly those bytes. zlib is assumed to
  give back what it compressed.
\<close>

theorem frame_round_trip:
  assumes "zlib_ok deflate inflate" "encode_frame deflate packet (compression_threshold c) = Inr out"
    and "length out \<le> MAX_PACKET_SIZE" "codec_ok c" "pending c = out @ rest"
  shows "\<exists>c'. try_next inflate c = (Inr (Some packet), c') \<and> codec_ok c' \<and> pending c' = rest
    \<and> compression_threshold c' = compression_threshold c"
proof -
  obtain f where f: "body_len packet \<le> MAX_PACKET_SIZE"
      "frame_of deflate packet (compression_threshold c) = Some f"
      "out = write_loop (of_nat (length f) :: u32) @ f"
    using encode_frame_Inr [OF assms(2)] by blast
  have "\<exists>c'. try_next inflate c
        = (Inr (Some \<lparr>packet_id = packet_id packet, payload = payload packet\<rparr>), c')
      \<and> codec_ok c' \<and> pending c' = rest \<and> compression_threshold c' = compression_threshold c"
    using assms f length_frame_of_pos [OF f(2)]
    by (intro try_next_frame [where f = f] decode_frame_of [OF assms(1) f(1,2)])
       (simp_all add: body_len_def)
  moreover have "\<lparr>packet_id = packet_id packet, payload = payload packet\<rparr> = packet"
    by (cases packet) simp
  ultimately show ?thesis by (simp only:)
qed

definition store_deflate :: deflate where "store_deflate data = Some data"
definition store_inflate :: inflate where "store_inflate limit z = Some (take limit z)"

theorem frame_round_trip_witness:
  "\<exists>c'. try_next store_inflate \<lparr>buffer = [3, 0, 7, 8] @ [1], start = 0, compression_threshold = Some 64\<rparr>
     = (Inr (Some \<lparr>packet_id = 7, payload = [8]\<rparr>), c') \<and> codec_ok c' \<and> pending c' = [1]
     \<and> compression_threshold c' = Some 64"
proof -
  let ?c = "\<lparr>buffer = [3, 0, 7, 8] @ [1], start = 0, compression_threshold = Some 64\<rparr>"
  have "zlib_ok store_deflate store_inflate"
    by (simp add: zlib_ok_def store_deflate_def store_inflate_def)
  moreover have "encode_frame store_deflate \<lparr>packet_id = 7, payload = [8]\<rparr> (compression_threshold ?c)
      = Inr [3, 0, 7, 8]"
    by (simp add: encode_frame_def write_varint_append write_loop.simps max0_usize_def
        MAX_PACKET_SIZE_def i32_try_from_def)
  ultimately show ?thesis
    using frame_round_trip [of store_deflate store_inflate "\<lparr>packet_id = 7, payload = [8]\<rparr>" ?c
        "[3, 0, 7, 8]" "[1]"]
    by (simp add: MAX_PACKET_SIZE_def codec_ok_def pending_def)
qed

text \<open>
  While only part of a frame has arrived the codec reports that it needs more input
  and is left as it was: a split read never drops a byte or raises an error.
\<close>

lemma partial_frame_waits:
  assumes "encode_frame deflate packet t = Inr out" "length out \<le> MAX_PACKET_SIZE"
    and "out = p @ q" "q \<noteq> []" "pending c = p"
  shows "try_next inflate c = (Inr None, c)"
proof -
  obtain f where f: "frame_of deflate packet t = Some f"
      "out = write_loop (of_nat (length f) :: u32) @ f"
    using encode_frame_Inr [OF assms(1)] by blast
  have "length f \<le> MAX_PACKET_SIZE" using assms(2) f(2) by simp
  then show ?thesis
    using assms f length_frame_of_pos [OF f(1)] by (intro try_next_partial [where f = f]) simp_all
qed

lemma partial_frame_waits_witness:
  "try_next store_inflate \<lparr>buffer = [2, 7], start = 0, compression_threshold = None\<rparr>
     = (Inr None, \<lparr>buffer = [2, 7], start = 0, compression_threshold = None\<rparr>)"
  by (rule partial_frame_waits [of store_deflate "\<lparr>packet_id = 7, payload = [8]\<rparr>" None
        "[2, 7, 8]" "[2, 7]" "[8]"])
     (simp_all add: encode_frame_def write_varint_append write_loop.simps MAX_PACKET_SIZE_def
        i32_try_from_def pending_def)

end
