(* ===== verification/Packing.thy ===== *)
theory Packing
  imports Prelude
begin

text \<open>
  \<open>crates/core/src/packing.rs\<close>: the packed index arrays of paletted containers. An
  \<open>i64\<close> of the array is the 64-bit word that holds its bits; a bit width is a natural
  number. \<open>out[slot]\<close> stays inside the array, which \<open>pack_loop\<close> needs and
  \<open>longs_needed\<close> gives.
\<close>

definition BLOCK_ENTRIES :: nat where "BLOCK_ENTRIES = 4096"
definition BIOME_ENTRIES :: nat where "BIOME_ENTRIES = 64"
definition BLOCK_MIN_BITS :: nat where "BLOCK_MIN_BITS = 4"
definition BIOME_MIN_BITS :: nat where "BIOME_MIN_BITS = 1"
definition MAX_BITS :: nat where "MAX_BITS = 32"

text \<open>\<open>usize::bit_width\<close>.\<close>

fun bit_width :: "nat \<Rightarrow> nat" where
  "bit_width n = (if n = 0 then 0 else Suc (bit_width (n div 2)))"

declare bit_width.simps [simp del]

definition bits_for :: "nat \<Rightarrow> nat \<Rightarrow> nat" where
  "bits_for palette_len min_bits =
     (let needed = (if palette_len \<le> 1 then 0 else bit_width (palette_len - 1))
      in if needed < min_bits then min_bits else needed)"

definition values_per_long :: "nat \<Rightarrow> nat" where
  "values_per_long bits = 64 div bits"

definition longs_needed :: "nat \<Rightarrow> nat \<Rightarrow> nat" where
  "longs_needed entries bits =
     (let per_long = values_per_long bits in (entries + per_long - 1) div per_long)"

fun pack_loop :: "nat \<Rightarrow> nat \<Rightarrow> u64 \<Rightarrow> nat \<Rightarrow> u32 list \<Rightarrow> u64 list \<Rightarrow> u64 list" where
  "pack_loop bits per_long low_mask index [] out = out"
| "pack_loop bits per_long low_mask index (value # values) out =
     (let slot = index div per_long;
          offset = (index mod per_long) * bits
      in pack_loop bits per_long low_mask (index + 1) values
           (out[slot := or (out ! slot) (push_bit offset (and (ucast value) low_mask))]))"

definition pack :: "u32 list \<Rightarrow> nat \<Rightarrow> u64 list server_result" where
  "pack values bits =
     (if \<not> (1 \<le> bits \<and> bits \<le> MAX_BITS) then Inl Invariant
      else let per_long = values_per_long bits;
               low_mask = push_bit bits 1 - 1;
               out = replicate (longs_needed (length values) bits) 0
           in Inr (pack_loop bits per_long low_mask 0 values out))"

definition unpack :: "u64 list \<Rightarrow> nat \<Rightarrow> nat \<Rightarrow> u32 list server_result" where
  "unpack data bits entries =
     (if \<not> (1 \<le> bits \<and> bits \<le> MAX_BITS) then Inl CorruptData
      else if length data < longs_needed entries bits then Inl CorruptData
      else let per_long = values_per_long bits;
               low_mask = push_bit bits (1 :: u64) - 1
           in Inr (map (\<lambda>index.
                let slot = index div per_long;
                    offset = (index mod per_long) * bits
                in ucast (and (drop_bit offset (data ! slot)) low_mask)) [0..<entries]))"

section \<open>Bit widths\<close>

lemma bit_width_bounds: "n < 2 ^ bit_width n"
proof (induction n rule: bit_width.induct)
  case (1 n)
  show ?case
  proof (cases "n = 0")
    case False
    with 1 have "n div 2 < 2 ^ bit_width (n div 2)" by blast
    then have "n < 2 * 2 ^ bit_width (n div 2)" by linarith
    with False show ?thesis by (simp add: bit_width.simps [of n])
  qed (simp add: bit_width.simps)
qed

lemma bit_width_least: "n < 2 ^ k \<Longrightarrow> bit_width n \<le> k"
proof (induction n arbitrary: k rule: bit_width.induct)
  case (1 n)
  show ?case
  proof (cases "n = 0")
    case False
    with "1.prems" obtain k' where k: "k = Suc k'" by (cases k) auto
    then have "n div 2 < 2 ^ k'" using "1.prems" by auto
    with 1 False k show ?thesis by (simp add: bit_width.simps [of n])
  qed (simp add: bit_width.simps)
qed

lemma bits_for_le_iff: "bits_for n m \<le> k \<longleftrightarrow> m \<le> k \<and> n \<le> 2 ^ k"
proof (cases "n \<le> 1")
  case True
  have "(1 :: nat) \<le> 2 ^ k" by simp
  with True have "n \<le> 2 ^ k" by (rule le_trans)
  with True show ?thesis by (auto simp: bits_for_def)
next
  case False
  have "bit_width (n - 1) \<le> k \<longleftrightarrow> n - 1 < 2 ^ k"
  proof
    assume le: "bit_width (n - 1) \<le> k"
    have "n - 1 < 2 ^ bit_width (n - 1)" by (rule bit_width_bounds)
    also have "\<dots> \<le> 2 ^ k" using le by (intro power_increasing) simp_all
    finally show "n - 1 < 2 ^ k" .
  qed (rule bit_width_least)
  then have "bit_width (n - 1) \<le> k \<longleftrightarrow> n \<le> 2 ^ k" using False by linarith
  with False show ?thesis by (auto simp: bits_for_def Let_def)
qed

section \<open>The bits of a packed array\<close>

lemma mask_bit: "bit (push_bit k (1 :: u64) - 1) n \<longleftrightarrow> n < k \<and> n < 64"
proof -
  have "push_bit k (1 :: u64) - 1 = mask k"
    by (simp add: mask_eq_exp_minus_1 push_bit_eq_mult)
  then show ?thesis by (auto simp: bit_mask_iff)
qed

lemma mask_bit_power: "bit (2 ^ k - 1 :: u64) n \<longleftrightarrow> n < k \<and> n < 64"
  using mask_bit [of k n] by (simp add: push_bit_eq_mult)

lemma div_slot:
  fixes p :: nat
  assumes "q < p"
  shows "s * p + q = i \<longleftrightarrow> s = i div p \<and> q = i mod p"
  using assms by (auto simp: div_mult_mod_eq)

lemma offset_div:
  fixes k :: nat
  assumes "0 < k"
  shows "m * k \<le> b \<and> b - m * k < k \<longleftrightarrow> b div k = m"
    and "b div k = m \<Longrightarrow> b - m * k = b mod k"
proof -
  show "m * k \<le> b \<and> b - m * k < k \<longleftrightarrow> b div k = m"
    using assms by (auto simp: div_nat_eqI mult.commute le_diff_conv2 dividend_less_times_div
        less_diff_conv2 times_div_less_eq_dividend minus_mult_div_eq_mod)
  show "b div k = m \<Longrightarrow> b - m * k = b mod k"
    by (simp add: minus_div_mult_eq_mod [symmetric])
qed

lemma pack_loop_length [simp]: "length (pack_loop k p m i vs out) = length out"
  by (induction vs arbitrary: i out) (simp_all add: Let_def)

lemma pack_step_bit:
  assumes k: "0 < k" "k \<le> 32" and q: "b div k < p" and b: "b < 64" and s: "i div p < length out"
  shows "bit (out[i div p := or (out ! (i div p))
            (push_bit (i mod p * k) (and (ucast (v :: u32)) (push_bit k (1 :: u64) - 1)))] ! s) b
     \<longleftrightarrow> bit (out ! s) b \<or> (s * p + b div k = i \<and> bit v (b mod k))"
proof -
  have sl: "s * p + b div k = i \<longleftrightarrow> s = i div p \<and> b div k = i mod p"
    using q by (rule div_slot)
  note od = offset_div [OF k(1), where m = "i mod p" and b = b]
  have "bit (push_bit (i mod p * k) (and (ucast v) (push_bit k (1 :: u64) - 1))) b
      \<longleftrightarrow> b div k = i mod p \<and> bit v (b mod k)"
  proof (cases "b div k = i mod p")
    case True
    then have "i mod p * k \<le> b" "b - i mod p * k = b mod k" "b mod k < k"
      using od(1) od(2) [OF True] k(1) by auto
    with b k(2) show ?thesis
      by (simp add: bit_push_bit_iff bit_and_iff mask_bit_power bit_ucast_iff True)
  next
    case False
    then have "\<not> (i mod p * k \<le> b \<and> b - i mod p * k < k)" using od(1) by simp
    with False show ?thesis
      by (auto simp: bit_push_bit_iff bit_and_iff mask_bit_power)
  qed
  with sl s show ?thesis
    by (cases "s = i div p") (auto simp: bit_or_iff)
qed

lemma pack_loop_bit:
  assumes k: "0 < k" "k \<le> 32" and q: "b div k < p" and b: "b < 64"
  shows "(\<forall>j < i + length vs. j div p < length out) \<Longrightarrow>
    bit (pack_loop k p (push_bit k 1 - 1) i vs out ! s) b \<longleftrightarrow>
      bit (out ! s) b \<or>
      (i \<le> s * p + b div k \<and> s * p + b div k < i + length vs
        \<and> bit (vs ! (s * p + b div k - i)) (b mod k))"
proof (induction vs arbitrary: i out)
  case Nil
  then show ?case by auto
next
  case (Cons v vs)
  let ?j = "s * p + b div k"
  let ?out = "out[i div p := or (out ! (i div p))
      (push_bit (i mod p * k) (and (ucast v) (push_bit k 1 - 1)))]"
  have "i div p < length out" using Cons.prems by simp
  note st = pack_step_bit [OF k q b this, of v s]
  have "bit (pack_loop k p (push_bit k 1 - 1) i (v # vs) out ! s) b
      \<longleftrightarrow> bit (pack_loop k p (push_bit k 1 - 1) (Suc i) vs ?out ! s) b"
    by (simp only: pack_loop.simps Let_def Suc_eq_plus1)
  also have "\<dots> \<longleftrightarrow> bit (?out ! s) b \<or> (Suc i \<le> ?j \<and> ?j < Suc i + length vs
        \<and> bit (vs ! (?j - Suc i)) (b mod k))"
    using Cons.prems by (intro Cons.IH) simp
  also have "\<dots> \<longleftrightarrow> bit (out ! s) b \<or> (?j = i \<and> bit v (b mod k)) \<or> (Suc i \<le> ?j \<and> ?j < Suc i + length vs
        \<and> bit (vs ! (?j - Suc i)) (b mod k))"
    by (simp only: st disj_assoc)
  also have "\<dots> \<longleftrightarrow> bit (out ! s) b \<or> (i \<le> ?j \<and> ?j < i + length (v # vs)
        \<and> bit ((v # vs) ! (?j - i)) (b mod k))"
    by (auto simp: nth_Cons' Suc_le_eq)
  finally show ?case .
qed

lemma longs_needed_slot:
  assumes "1 \<le> k" "k \<le> 64" "j < n"
  shows "j div values_per_long k < longs_needed n k"
proof -
  let ?p = "values_per_long k"
  have p: "0 < ?p" using assms(1,2) by (simp add: values_per_long_def div_greater_zero_iff)
  have "j div ?p * ?p \<le> j" by simp
  with assms(3) p have "(j div ?p + 1) * ?p \<le> n + ?p - 1"
    unfolding add_mult_distrib by linarith
  with p have "j div ?p + 1 \<le> (n + ?p - 1) div ?p"
    by (simp only: less_eq_div_iff_mult_less_eq)
  then show ?thesis by (simp add: longs_needed_def Let_def)
qed

text \<open>
  What \<open>unpack\<close> reads at an index that \<open>pack\<close> wrote: the low bits of the value.
\<close>

lemma pack_read:
  assumes k: "1 \<le> k" "k \<le> 32" and j: "j < length vs"
  shows "ucast (and (drop_bit (j mod values_per_long k * k)
      (pack_loop k (values_per_long k) (push_bit k 1 - 1) 0 vs
         (replicate (longs_needed (length vs) k) 0) ! (j div values_per_long k)))
      (push_bit k (1 :: u64) - 1)) = take_bit k (vs ! j)"
proof (rule bit_word_eqI)
  fix n assume n: "n < LENGTH(32)"
  let ?p = "values_per_long k"
  let ?out = "replicate (longs_needed (length vs) k) (0 :: u64)"
  let ?b = "j mod ?p * k + n"
  have p: "0 < ?p" using k by (simp add: values_per_long_def div_greater_zero_iff)
  have slots: "\<forall>i < 0 + length vs. i div ?p < length ?out"
    using k longs_needed_slot by simp
  show "bit (ucast (and (drop_bit (j mod ?p * k) (pack_loop k ?p (push_bit k 1 - 1) 0 vs ?out
      ! (j div ?p))) (push_bit k (1 :: u64) - 1)) :: u32) n = bit (take_bit k (vs ! j)) n"
  proof (cases "n < k")
    case False
    then show ?thesis by (auto simp: bit_ucast_iff bit_and_iff mask_bit_power bit_take_bit_iff)
  next
    case True
    have "j mod ?p \<le> ?p - 1" using mod_less_divisor [OF p, of j] by linarith
    then have "j mod ?p * k \<le> (?p - 1) * k" by simp
    moreover have "?p * k \<le> 64" "1 * k \<le> ?p * k"
      using p by (simp add: values_per_long_def) (intro mult_le_mono1, simp add: p Suc_leI)
    ultimately have b: "?b < 64" using True unfolding diff_mult_distrib by linarith
    have bk: "?b div k = j mod ?p" "?b mod k = n" using True by simp_all
    have 0: "bit (?out ! (j div ?p)) ?b = False"
      using longs_needed_slot [of k j "length vs"] k j by simp
    have "bit (pack_loop k ?p (push_bit k 1 - 1) 0 vs ?out ! (j div ?p)) ?b \<longleftrightarrow> bit (vs ! j) n"
      using pack_loop_bit [of k ?b ?p 0 vs ?out "j div ?p", OF _ k(2) _ b slots] k(1) p j
      by (simp only: bk 0) simp
    with True n show ?thesis
      by (simp add: bit_ucast_iff bit_and_iff bit_drop_bit_eq mask_bit_power bit_take_bit_iff)
  qed
qed

lemma unpack_pack_low:
  assumes "1 \<le> bits" "bits \<le> MAX_BITS" "pack values bits = Inr out"
  shows "length out = longs_needed (length values) bits"
    and "unpack out bits (length values) = Inr (map (take_bit bits) values)"
proof -
  have out: "out = pack_loop bits (values_per_long bits) (push_bit bits 1 - 1) 0 values
      (replicate (longs_needed (length values) bits) 0)"
    using assms by (simp add: pack_def Let_def)
  then show "length out = longs_needed (length values) bits" by simp
  moreover have "map (\<lambda>j. ucast (and (drop_bit (j mod values_per_long bits * bits)
      (out ! (j div values_per_long bits))) (push_bit bits (1 :: u64) - 1))) [0..<length values]
    = map (take_bit bits) values"
    using assms(1,2) unfolding out MAX_BITS_def
    by (intro nth_equalityI) (simp_all only: length_map length_upt nth_map nth_upt pack_read
        add_0 diff_zero)
  ultimately show "unpack out bits (length values) = Inr (map (take_bit bits) values)"
    using assms(1,2) by (simp add: unpack_def Let_def)
qed

text \<open>
  Packing a list of palette indices at a width of 1 to 32 bits always succeeds, gives
  exactly \<open>longs_needed\<close> longs, and unpacking that array gives the indices back when each
  of them fits in the width.
\<close>

lemma unpack_pack:
  assumes "1 \<le> bits" "bits \<le> MAX_BITS" "\<forall>v \<in> set values. unat v < 2 ^ bits"
  shows "\<exists>out. pack values bits = Inr out \<and> length out = longs_needed (length values) bits
           \<and> unpack out bits (length values) = Inr values"
proof -
  obtain out where out: "pack values bits = Inr out"
    using assms(1,2) by (simp add: pack_def Let_def)
  have "map (take_bit bits) values = values"
    using assms(3) by (intro map_idI) (simp add: word_unat_eq_iff unsigned_take_bit_eq take_bit_nat_eq_self)
  with unpack_pack_low [OF assms(1,2) out] out show ?thesis by simp
qed

lemma unpack_pack_witness:
  "\<exists>out. pack [3, 1, 4] 4 = Inr out \<and> length out = longs_needed (length [3 :: u32, 1, 4]) 4
      \<and> unpack out 4 (length [3 :: u32, 1, 4]) = Inr [3, 1, 4]"
  using unpack_pack [of 4 "[3, 1, 4]"] by (simp add: MAX_BITS_def)

text \<open>
  The width derived from a palette is the smallest one that is at least \<open>min_bits\<close>
  and has a code for every index of the palette, so an index of the palette always fits
  the width its section is packed at.
\<close>

lemma bits_for_least:
  "bits_for palette_len min_bits \<le> k \<longleftrightarrow> min_bits \<le> k \<and> palette_len \<le> 2 ^ k"
  by (rule bits_for_le_iff)

lemma packing_is_ok:
  "is_ok (pack values bits) \<longleftrightarrow> 1 \<le> bits \<and> bits \<le> MAX_BITS"
  "is_ok (unpack data bits n) \<longleftrightarrow>
     1 \<le> bits \<and> bits \<le> MAX_BITS \<and> longs_needed n bits \<le> length data"
  by (auto simp: pack_def unpack_def Let_def)

end
