(* ===== verification/TickClock.thy ===== *)
theory TickClock
  imports Prelude
begin

text \<open>
  \<open>crates/core/src/tick.rs\<close>: the fixed-step clock. A \<open>u64\<close> is a natural number;
  the saturating additions are written out, and the plain \<open>+\<close>, \<open>-\<close> and \<open>*\<close> of
  \<open>poll\<close>, which panic on overflow in a checked build, give \<open>None\<close> there.
\<close>

definition TICKS_PER_SECOND :: nat where "TICKS_PER_SECOND = 20"
definition NANOS_PER_TICK :: nat where "NANOS_PER_TICK = 1000000000 div TICKS_PER_SECOND"
definition MAX_CATCH_UP :: nat where "MAX_CATCH_UP = 5"

record tick_clock =
  next_tick_nanos :: nat
  tick :: nat
  tick_nanos :: nat
  started :: bool

definition with_tick_nanos :: "nat \<Rightarrow> tick_clock" where
  "with_tick_nanos nanos =
     \<lparr>next_tick_nanos = 0, tick = 0, tick_nanos = max nanos 1, started = False\<rparr>"

definition new_clock :: tick_clock where
  "new_clock = with_tick_nanos NANOS_PER_TICK"

definition set_tick_nanos :: "tick_clock \<Rightarrow> nat \<Rightarrow> nat \<Rightarrow> tick_clock" where
  "set_tick_nanos c nanos now_nanos =
     (let c = c\<lparr>tick_nanos := max nanos 1\<rparr>
      in c\<lparr>next_tick_nanos := sat_add now_nanos (tick_nanos c)\<rparr>)"

text \<open>Checked \<open>u64\<close> arithmetic.\<close>

definition checked :: "nat \<Rightarrow> nat option" where
  "checked n = (if n \<le> u64_max then Some n else None)"

definition poll :: "tick_clock \<Rightarrow> nat \<Rightarrow> (nat \<times> tick_clock) option" where
  "poll c now_nanos =
     (if \<not> started c then
        Some (0, c\<lparr>started := True, next_tick_nanos := sat_add now_nanos (tick_nanos c)\<rparr>)
      else if now_nanos < next_tick_nanos c then Some (0, c)
      else
        let elapsed = now_nanos - next_tick_nanos c in
        case checked (elapsed div tick_nanos c + 1) of
          None \<Rightarrow> None
        | Some due \<Rightarrow>
            if due > MAX_CATCH_UP then
              Some (MAX_CATCH_UP,
                c\<lparr>next_tick_nanos := sat_add now_nanos (tick_nanos c),
                  tick := sat_add (tick c) MAX_CATCH_UP\<rparr>)
            else
              (case checked (due * tick_nanos c) of
                 None \<Rightarrow> None
               | Some step \<Rightarrow>
                   Some (due,
                     c\<lparr>next_tick_nanos := sat_add (next_tick_nanos c) step,
                       tick := sat_add (tick c) due\<rparr>)))"

definition nanos_until_next :: "tick_clock \<Rightarrow> nat \<Rightarrow> nat" where
  "nanos_until_next c now_nanos =
     (if \<not> started c then tick_nanos c else next_tick_nanos c - now_nanos)"

section \<open>The clocks a program can reach\<close>

text \<open>
  The clock is built by one of its constructors and changed by \<open>poll\<close> and
  \<open>set_tick_nanos\<close> only, with any \<open>u64\<close> as the step and the time; the time need not
  even be monotone.
\<close>

inductive clock_reachable :: "tick_clock \<Rightarrow> bool" where
  init: "nanos \<le> u64_max \<Longrightarrow> clock_reachable (with_tick_nanos nanos)"
| set_step: "clock_reachable c \<Longrightarrow> nanos \<le> u64_max \<Longrightarrow> now_nanos \<le> u64_max \<Longrightarrow>
    clock_reachable (set_tick_nanos c nanos now_nanos)"
| polled: "clock_reachable c \<Longrightarrow> now_nanos \<le> u64_max \<Longrightarrow> poll c now_nanos = Some (due, c') \<Longrightarrow>
    clock_reachable c'"

definition clock_ok :: "tick_clock \<Rightarrow> bool" where
  "clock_ok c \<longleftrightarrow> 1 \<le> tick_nanos c \<and> tick_nanos c \<le> u64_max \<and> next_tick_nanos c \<le> u64_max
     \<and> tick c \<le> u64_max \<and> (started c \<longrightarrow> tick_nanos c \<le> next_tick_nanos c)"

lemma u64_max_pos: "1 \<le> u64_max" "5 \<le> u64_max"
  by (simp_all add: u64_max_def)

lemma poll_total:
  assumes "clock_ok c" "now_nanos \<le> u64_max"
  shows "\<exists>due c'. poll c now_nanos = Some (due, c') \<and> due \<le> MAX_CATCH_UP \<and> clock_ok c'
    \<and> started c' \<and> tick_nanos c' = tick_nanos c \<and> tick c' = sat_add (tick c) due
    \<and> (now_nanos < next_tick_nanos c' \<or> next_tick_nanos c' = u64_max)"
proof (cases "started c \<and> next_tick_nanos c \<le> now_nanos")
  case False
  with assms show ?thesis
    by (auto simp: poll_def clock_ok_def sat_add_def)
next
  case True
  let ?e = "now_nanos - next_tick_nanos c"
  let ?due = "?e div tick_nanos c + 1"
  have step: "1 \<le> tick_nanos c" "tick_nanos c \<le> next_tick_nanos c" "tick_nanos c \<le> u64_max"
      "tick c \<le> u64_max" "next_tick_nanos c \<le> u64_max"
    using assms(1) True by (auto simp: clock_ok_def)
  have le: "?e div tick_nanos c \<le> ?e" by (rule div_le_dividend)
  have due: "checked ?due = Some ?due"
  proof -
    have "?due \<le> u64_max" using le step assms(2) True by linarith
    then show ?thesis by (simp only: checked_def if_True)
  qed
  have mult: "?e div tick_nanos c * tick_nanos c \<le> ?e" by simp
  have over: "?e < ?e div tick_nanos c * tick_nanos c + tick_nanos c"
    using mod_less_divisor [of "tick_nanos c" ?e] div_mult_mod_eq [of ?e "tick_nanos c"] step(1)
    by linarith
  have steps: "?due * tick_nanos c = ?e div tick_nanos c * tick_nanos c + tick_nanos c" by simp
  have ck: "checked (?due * tick_nanos c) = Some (?due * tick_nanos c)"
  proof -
    have "?due * tick_nanos c \<le> u64_max"
      unfolding steps using mult step assms(2) True by linarith
    then show ?thesis by (simp only: checked_def if_True)
  qed
  show ?thesis
  proof (cases "?due > MAX_CATCH_UP")
    case True
    with due step assms \<open>started c \<and> _\<close> show ?thesis
      by (auto simp: poll_def clock_ok_def sat_add_def)
  next
    case False
    have "now_nanos < next_tick_nanos c + ?due * tick_nanos c"
      using over True unfolding steps by linarith
    with False due ck step assms True show ?thesis
      by (auto simp: poll_def clock_ok_def sat_add_def)
  qed
qed

lemma clock_reachable_ok: "clock_reachable c \<Longrightarrow> clock_ok c"
proof (induction rule: clock_reachable.induct)
  case (init nanos)
  then show ?case using u64_max_pos by (simp add: with_tick_nanos_def clock_ok_def)
next
  case (set_step c nanos now_nanos)
  then show ?case
    using u64_max_pos by (auto simp: set_tick_nanos_def clock_ok_def sat_add_def)
next
  case (polled c now_nanos due c')
  then show ?case using poll_total [of c now_nanos] by auto
qed

text \<open>Polled in time, the clock does not drift: its deadline moves by whole steps.\<close>

lemma poll_no_drift:
  assumes "clock_ok c" "started c" "poll c now_nanos = Some (due, c')" "due < MAX_CATCH_UP"
    and "next_tick_nanos c + due * tick_nanos c \<le> u64_max"
  shows "next_tick_nanos c' = next_tick_nanos c + due * tick_nanos c"
  using assms
  by (auto simp: poll_def checked_def sat_add_exact Let_def split: if_splits)

text \<open>
  C9. On every clock a program can reach, with any \<open>u64\<close> times and steps in any order,
  \<open>poll\<close> returns without an arithmetic overflow, releases at most \<open>MAX_CATCH_UP\<close> ticks,
  counts exactly those and leaves a deadline in the future (or saturated): the counter
  never goes back and no call can owe more than five ticks.
\<close>

theorem poll_never_panics:
  assumes "clock_reachable c" "now_nanos \<le> u64_max"
  shows "\<exists>due c'. poll c now_nanos = Some (due, c') \<and> due \<le> MAX_CATCH_UP
     \<and> tick c' = sat_add (tick c) due \<and> tick_nanos c' = tick_nanos c
     \<and> (now_nanos < next_tick_nanos c' \<or> next_tick_nanos c' = u64_max)"
  using poll_total [OF clock_reachable_ok [OF assms(1)] assms(2)] by blast

theorem poll_never_panics_witness:
  "\<exists>due c'. poll (with_tick_nanos 50) 7 = Some (due, c') \<and> due \<le> MAX_CATCH_UP
     \<and> tick c' = sat_add (tick (with_tick_nanos 50)) due
     \<and> tick_nanos c' = tick_nanos (with_tick_nanos 50)
     \<and> (7 < next_tick_nanos c' \<or> next_tick_nanos c' = u64_max)"
  by (rule poll_never_panics) (simp_all add: clock_reachable.init u64_max_def)

end
