(* ===== verification/JavaRandom.thy ===== *)
theory JavaRandom
  imports Prelude
begin

text \<open>
  \<open>crates/core/src/random.rs\<close>: the 48-bit linear congruential generator of
  \<open>java.util.Random\<close>, its integer draws. An \<open>i32\<close> or \<open>i64\<close> is the word that holds its
  bits. The rejection loop of a bounded draw is a partial function: \<open>None\<close> is the loop
  that does not end, and \<open>bounded_loop_returns\<close> shows that it always ends, from the full
  period of the generator.
\<close>

definition MULTIPLIER :: u64 where "MULTIPLIER = 0x5DEECE66D"
definition ADDEND :: u64 where "ADDEND = 0xB"
definition MASK :: u64 where "MASK = push_bit 48 1 - 1"

record random_source =
  seed :: u64
  draws :: nat

definition new_random :: "u64 \<Rightarrow> random_source" where
  "new_random s = \<lparr>seed = and (xor s MULTIPLIER) MASK, draws = 0\<rparr>"

definition next_bits :: "nat \<Rightarrow> random_source \<Rightarrow> u32 \<times> random_source" where
  "next_bits bits r =
     (let bits = max 1 (min bits 32);
          r = r\<lparr>seed := and (seed r * MULTIPLIER + ADDEND) MASK\<rparr>;
          r = r\<lparr>draws := sat_add (draws r) 1\<rparr>
      in (ucast (drop_bit (48 - bits) (seed r)), r))"

definition next_i32 :: "random_source \<Rightarrow> u32 \<times> random_source" where
  "next_i32 r = next_bits 32 r"

partial_function (option) bounded_loop :: "u32 \<Rightarrow> random_source \<Rightarrow> (u32 \<times> random_source) option" where
  "bounded_loop bound r =
     (let bits = fst (next_bits 31 r);
          r' = snd (next_bits 31 r);
          value = bits mod bound;
          test = bits - value + (bound - 1)
      in if 0 \<le>s test then Some (value, r') else bounded_loop bound r')"

declare bounded_loop.simps [code]

definition next_i32_bounded :: "u32 \<Rightarrow> random_source \<Rightarrow> (u32 \<times> random_source) option" where
  "next_i32_bounded bound r =
     (if bound \<le>s 0 then Some (0, r)
      else if and bound (bound - 1) = 0 then
        (let (v, r) = next_bits 31 r
         in Some (ucast (signed_drop_bit 31 ((scast bound :: u64) * ucast v)), r))
      else bounded_loop bound r)"

definition next_i64 :: "random_source \<Rightarrow> u64 \<times> random_source" where
  "next_i64 r =
     (let (h, r) = next_bits 32 r;
          high = scast h;
          (l, r) = next_bits 32 r;
          low = scast l
      in (push_bit 32 high + low, r))"

definition next_bool :: "random_source \<Rightarrow> bool \<times> random_source" where
  "next_bool r = (let (v, r) = next_bits 1 r in (v \<noteq> 0, r))"

text \<open>
  The source's \<open>+\<close> and \<open>-\<close> on \<open>i32\<close> wrap as in a release build (the workspace sets no
  \<open>overflow-checks\<close>); a debug build panics where \<open>hi - lo + 1\<close> overflows.
\<close>

definition next_i32_inclusive :: "u32 \<Rightarrow> u32 \<Rightarrow> random_source \<Rightarrow> (u32 \<times> random_source) option" where
  "next_i32_inclusive lo hi r =
     (if hi \<le>s lo then Some (lo, r)
      else case next_i32_bounded (hi - lo + 1) r of
        None \<Rightarrow> None
      | Some (v, r) \<Rightarrow> Some (lo + v, r))"

definition one_in :: "u32 \<Rightarrow> random_source \<Rightarrow> (bool \<times> random_source) option" where
  "one_in n r =
     (if 0 <s n then
        (case next_i32_bounded n r of None \<Rightarrow> None | Some (v, r) \<Rightarrow> Some (v = 0, r))
      else Some (False, r))"

definition index_in :: "nat \<Rightarrow> random_source \<Rightarrow> (nat option \<times> random_source) option" where
  "index_in len r =
     (if len = 0 then Some (None, r)
      else let bound = (if len < 2147483648 then of_nat len else 2147483647)
        in case next_i32_bounded bound r of
          None \<Rightarrow> None
        | Some (v, r) \<Rightarrow> Some (Some (unat v), r))"

section \<open>The period of the generator\<close>

text \<open>
  \<open>geo a n\<close> is \<open>1 + a + ... + a^(n-1)\<close>: \<open>n\<close> steps of \<open>x \<mapsto> a * x + c\<close> give
  \<open>a^n * x + c * geo a n\<close>. For \<open>a\<close> congruent to 1 modulo 4 a power of two divides
  \<open>geo a n\<close> exactly when it divides \<open>n\<close>.
\<close>

fun geo :: "nat \<Rightarrow> nat \<Rightarrow> nat" where
  "geo a 0 = 0"
| "geo a (Suc n) = a * geo a n + 1"

lemma geo_power: "1 \<le> a \<Longrightarrow> (a - 1) * geo a n + 1 = a ^ n"
proof (induction n)
  case 0
  then show ?case by simp
next
  case (Suc n)
  have "(a - 1) * geo a (Suc n) + 1 = a * ((a - 1) * geo a n) + (a - 1) + 1"
    by (simp add: algebra_simps)
  also have "\<dots> = a * ((a - 1) * geo a n + 1)"
    using Suc.prems by (simp add: distrib_left)
  also have "\<dots> = a ^ Suc n" using Suc by (simp only: power_Suc)
  finally show ?case .
qed

lemma geo_add: "geo a (m + n) = a ^ n * geo a m + geo a n"
  by (induction n) (simp_all add: algebra_simps)

lemma geo_double: "geo a (2 * m) = geo a m * (a ^ m + 1)"
  unfolding mult_2 geo_add by (simp add: algebra_simps)

lemma geo_parity: "odd a \<Longrightarrow> even (geo a n) = even n"
  by (induction n) auto

lemma power_mod4: "a mod 4 = 1 \<Longrightarrow> (a ^ m) mod 4 = (1 :: nat)"
  by (induction m) (auto simp: mod_mult_eq [symmetric, of a])

lemma two_power_dvd_geo:
  assumes "a mod 4 = (1 :: nat)"
  shows "2 ^ k dvd geo a n \<Longrightarrow> 2 ^ k dvd n"
proof (induction k arbitrary: n)
  case 0
  then show ?case by simp
next
  case (Suc k)
  have odd: "odd a" using assms by presburger
  have "even (geo a n)" using Suc.prems by (auto elim: dvd_trans [rotated])
  then obtain m where n: "n = 2 * m" using geo_parity [OF odd] by auto
  obtain q where q: "a ^ m + 1 = 2 * q" "odd q"
  proof -
    have "(a ^ m + 1) mod 4 = 2" using power_mod4 [OF assms, of m] by presburger
    then have "a ^ m + 1 = 2 * ((a ^ m + 1) div 2)" "odd ((a ^ m + 1) div 2)" by presburger+
    then show ?thesis by (rule that)
  qed
  have "geo a n = 2 * (geo a m * q)" unfolding n geo_double q(1) by simp
  then have "2 * 2 ^ k dvd 2 * (geo a m * q)" using Suc.prems by simp
  then have "2 ^ k dvd geo a m * q" by simp
  moreover have "coprime (2 ^ k) q" using q(2) by simp
  ultimately have "2 ^ k dvd geo a m" by (simp add: coprime_dvd_mult_left_iff)
  with Suc.IH n show ?case by simp
qed

definition lcg :: "nat \<Rightarrow> nat \<Rightarrow> nat \<Rightarrow> nat \<Rightarrow> nat" where
  "lcg a c k x = (a * x + c) mod 2 ^ k"

lemma lcg_iterate: "(lcg a c k ^^ n) x mod 2 ^ k = (a ^ n * x + c * geo a n) mod 2 ^ k"
proof (induction n)
  case 0
  then show ?case by simp
next
  case (Suc n)
  have "(lcg a c k ^^ Suc n) x mod 2 ^ k = (a * ((lcg a c k ^^ n) x mod 2 ^ k) + c) mod 2 ^ k"
    unfolding lcg_def by simp (metis mod_add_left_eq mod_mult_right_eq)
  also have "\<dots> = (a * (a ^ n * x + c * geo a n) + c) mod 2 ^ k"
    unfolding Suc.IH by (metis mod_add_left_eq mod_mult_right_eq)
  also have "a * (a ^ n * x + c * geo a n) + c = a ^ Suc n * x + c * geo a (Suc n)"
    by (simp add: algebra_simps)
  finally show ?case .
qed

lemma lcg_less: "0 < n \<or> x < 2 ^ k \<Longrightarrow> (lcg a c k ^^ n) x < 2 ^ k"
  by (cases n) (auto simp: lcg_def)

lemma lcg_no_short_cycle:
  assumes "a mod 4 = 1" "odd c" "0 < n" "n < 2 ^ k" "x < 2 ^ k"
  shows "(lcg a c k ^^ n) x \<noteq> x"
proof
  assume fix_x: "(lcg a c k ^^ n) x = x"
  have a: "1 \<le> a" using assms(1) by (cases a) auto
  have "(a ^ n * x + c * geo a n) mod 2 ^ k = x mod 2 ^ k"
    using lcg_iterate [where a = a and c = c and k = k and n = n and x = x] fix_x by simp
  moreover have "a ^ n * x + c * geo a n = geo a n * ((a - 1) * x + c) + x"
    unfolding geo_power [OF a, of n, symmetric] by (simp add: algebra_simps)
  ultimately have "(geo a n * ((a - 1) * x + c) + x) mod 2 ^ k = (0 + x) mod 2 ^ k" by simp
  then have "2 ^ k dvd geo a n * ((a - 1) * x + c)"
    by (metis add_0 add_diff_cancel_right' le_add2 mod_eq_dvd_iff_nat)
  moreover have "odd ((a - 1) * x + c)"
  proof -
    have "even (a - 1)" using assms(1) a by presburger
    then show ?thesis using assms(2) by simp
  qed
  ultimately have "2 ^ k dvd geo a n" by (simp add: coprime_dvd_mult_left_iff)
  then have "2 ^ k dvd n" by (rule two_power_dvd_geo [OF assms(1)])
  with assms(3,4) show False by (auto dest: dvd_imp_le)
qed

lemma lcg_full_period:
  assumes "a mod 4 = 1" "odd c" "x < 2 ^ k" "y < 2 ^ k"
  shows "\<exists>n < 2 ^ k. (lcg a c k ^^ n) x = y"
proof -
  let ?f = "\<lambda>n. (lcg a c k ^^ n) x"
  have neq: "?f i \<noteq> ?f j" if "i < j" "j < 2 ^ k" for i j
  proof
    assume "?f i = ?f j"
    moreover have "?f j = (lcg a c k ^^ (j - i)) (?f i)"
      using that(1) by (metis comp_apply funpow_add le_add_diff_inverse2 less_imp_le)
    moreover have "?f i < 2 ^ k" using assms(3) by (rule lcg_less [OF disjI2])
    ultimately show False
      using lcg_no_short_cycle [OF assms(1,2), of "j - i" k "?f i"] that
      by (simp add: less_imp_diff_less)
  qed
  have "inj_on ?f {..<2 ^ k}"
    by (rule inj_onI) (metis lessThan_iff linorder_neqE_nat neq)
  moreover have sub: "?f ` {..<2 ^ k} \<subseteq> {..<2 ^ k}"
    using assms(3) lcg_less by auto
  ultimately have "?f ` {..<2 ^ k} = {..<2 ^ k}"
    by (intro card_subset_eq) (simp_all add: card_image)
  with assms(4) show ?thesis by (metis (no_types, lifting) imageE lessThan_iff)
qed

section \<open>Bounded draws return\<close>

lemma mask48: "and w MASK = take_bit 48 w"
  by (simp add: MASK_def take_bit_eq_mask mask_eq_exp_minus_1 push_bit_eq_mult)

lemma unat_seed_step:
  "unat (and (s * MULTIPLIER + ADDEND) MASK) = lcg 0x5DEECE66D 0xB 48 (unat s)"
proof -
  have "unat (s * MULTIPLIER + ADDEND) = (unat s * 0x5DEECE66D + 0xB) mod 2 ^ 64"
    by (simp add: unat_word_ariths MULTIPLIER_def ADDEND_def mod_simps)
  moreover have "unat (take_bit 48 (s * MULTIPLIER + ADDEND))
      = take_bit 48 (unat (s * MULTIPLIER + ADDEND))"
    by (rule unsigned_take_bit_eq)
  ultimately have "unat (take_bit 48 (s * MULTIPLIER + ADDEND))
      = ((unat s * 0x5DEECE66D + 0xB) mod 2 ^ 64) mod 2 ^ 48"
    by (simp only: take_bit_eq_mod)
  also have "\<dots> = (unat s * 0x5DEECE66D + 0xB) mod 2 ^ 48"
    by (rule mod_mod_cancel) (simp add: dvd_def)
  finally show ?thesis by (simp add: mask48 lcg_def mult.commute)
qed

lemma seed_next_bits: "unat (seed (snd (next_bits b r))) = lcg 0x5DEECE66D 0xB 48 (unat (seed r))"
  by (simp add: next_bits_def Let_def unat_seed_step)

lemma sint_pred: "0 <s bound \<Longrightarrow> sint (bound - 1) = sint (bound :: u32) - 1"
proof -
  assume "0 <s bound"
  then have "0 < sint bound" by (simp only: sless_zero_iff)
  moreover have "sint bound < 2 ^ 31" using sint_lt [of bound] by simp
  ultimately have "signed_take_bit 31 (sint bound - 1) = sint bound - 1"
    by (intro signed_take_bit_int_eq_self) simp_all
  then show ?thesis by (simp add: sint_word_ariths)
qed

lemma mod_below:
  assumes "0 <s bound"
  shows "0 \<le>s w mod bound \<and> w mod bound <s (bound :: u32)"
proof -
  have pos: "0 < sint bound" using assms by (simp only: sless_zero_iff)
  then have b: "sint bound = int (unat bound)" by (intro sint_nonneg_u32) simp
  have lt: "unat (w mod bound) < unat bound"
    unfolding unat_mod_distrib using b pos by (intro mod_less_divisor) linarith
  moreover have "sint bound < 2147483648" using sint_lt [of bound] by simp
  ultimately have "unat (w mod bound) < 2147483648" using b by linarith
  then have "unat (w mod bound) < 2 ^ 31" by simp
  then have "sint (w mod bound) = int (unat (w mod bound))" by (rule sint_small_u32)
  with lt b show ?thesis
    unfolding sle_zero_iff word_sless_alt by linarith
qed

definition in_range :: "u32 \<Rightarrow> (u32 \<times> random_source) option \<Rightarrow> bool" where
  "in_range bound res = (case res of None \<Rightarrow> False | Some (v, r) \<Rightarrow> 0 \<le>s v \<and> v <s bound)"

text \<open>A generator whose next state is 0 has its draw accepted, whatever the bound.\<close>

lemma accept_zero:
  assumes "seed (snd (next_bits 31 r)) = 0" "0 <s bound"
  shows "in_range bound (bounded_loop bound r)"
proof -
  have "fst (next_bits 31 r) = 0"
    using assms(1) by (simp add: next_bits_def Let_def)
  moreover have "0 \<le>s bound - 1"
    using assms(2) by (simp add: sle_zero_iff sless_zero_iff sint_pred)
  ultimately show ?thesis
    using assms(2) by (subst bounded_loop.simps) (simp add: Let_def in_range_def)
qed

lemma bounded_loop_step:
  "0 <s bound \<Longrightarrow> in_range bound (bounded_loop bound (snd (next_bits 31 r)))
     \<Longrightarrow> in_range bound (bounded_loop bound r)"
  by (subst bounded_loop.simps) (auto simp: Let_def in_range_def mod_below)

lemma bounded_loop_from:
  "0 <s bound \<Longrightarrow> (lcg 0x5DEECE66D 0xB 48 ^^ Suc n) (unat (seed r)) = 0 \<Longrightarrow>
     in_range bound (bounded_loop bound r)"
proof (induction n arbitrary: r)
  case 0
  then have "unat (seed (snd (next_bits 31 r))) = 0" by (simp add: seed_next_bits)
  then have "seed (snd (next_bits 31 r)) = 0" by (simp add: unat_eq_zero)
  with accept_zero 0(1) show ?case by blast
next
  case (Suc n)
  have "(lcg 0x5DEECE66D 0xB 48 ^^ Suc n) (unat (seed (snd (next_bits 31 r)))) = 0"
    using Suc.prems(2) unfolding seed_next_bits by (simp only: funpow_Suc_right comp_apply)
  from bounded_loop_step [OF Suc.prems(1) Suc.IH [OF Suc.prems(1) this]] show ?case .
qed

lemma bounded_loop_returns:
  assumes "0 <s bound"
  shows "in_range bound (bounded_loop bound r)"
proof -
  let ?x = "lcg 0x5DEECE66D 0xB 48 (unat (seed r))"
  have "?x < 2 ^ 48" by (simp add: lcg_def)
  then have "\<exists>n < 2 ^ 48. (lcg 0x5DEECE66D 0xB 48 ^^ n) ?x = 0"
    by (intro lcg_full_period) simp_all
  then obtain n where n: "(lcg 0x5DEECE66D 0xB 48 ^^ n) ?x = 0" by blast
  have "(lcg 0x5DEECE66D 0xB 48 ^^ Suc n) (unat (seed r)) = 0"
    using n by (simp only: funpow_Suc_right comp_apply)
  with assms show ?thesis by (rule bounded_loop_from)
qed

text \<open>
  The branch for powers of two: \<open>(bound * next(31)) >> 31\<close> in 64 bits, without overflow.
\<close>

lemma sint_word_of_int_u64: "- (2 ^ 63) \<le> x \<Longrightarrow> x < 2 ^ 63 \<Longrightarrow> sint (word_of_int x :: u64) = x"
  by (simp add: sint_sbintrunc' signed_take_bit_int_eq_self)

lemma ucast_signed_drop:
  assumes "0 \<le> x" "x < 2 ^ 62" "x div 2 ^ 31 < 2 ^ 31"
  shows "sint (ucast (signed_drop_bit 31 (word_of_int x :: u64)) :: u32) = x div 2 ^ 31"
proof -
  let ?w = "signed_drop_bit 31 (word_of_int x :: u64)"
  have "sint (word_of_int x :: u64) = x"
    using assms(1,2) by (intro sint_word_of_int_u64) simp_all
  then have w: "sint ?w = x div 2 ^ 31"
    by (simp add: sint_signed_drop_bit_eq drop_bit_eq_div)
  have q: "0 \<le> x div 2 ^ 31" using assms(1) by simp
  have u: "uint ?w = x div 2 ^ 31"
    using w q assms(3) uint_sint [of ?w] by (simp add: take_bit_int_eq_self)
  have "uint (ucast ?w :: u32) = x div 2 ^ 31"
    using q assms(3) u by (simp add: unsigned_ucast_eq take_bit_int_eq_self)
  then have "unat (ucast ?w :: u32) = nat (x div 2 ^ 31)" by (metis nat_uint_eq)
  moreover have "nat (x div 2 ^ 31) < 2 ^ 31"
    using q assms(3) by (simp add: nat_less_iff)
  ultimately show ?thesis using sint_small_u32 [of "ucast ?w"] q by simp
qed

lemma power_two_range:
  assumes "0 <s bound" "unat v < 2 ^ 31"
  shows "0 \<le>s (ucast (signed_drop_bit 31 ((scast (bound :: u32) :: u64) * ucast (v :: u32))) :: u32)
     \<and> (ucast (signed_drop_bit 31 ((scast bound :: u64) * ucast v)) :: u32) <s bound"
proof -
  let ?x = "sint bound * uint v"
  have b: "0 < sint bound" "sint bound < 2 ^ 31"
    using assms(1) sint_lt [of bound] by (simp_all add: sless_zero_iff)
  have "int (unat v) < int (2 ^ 31)" using assms(2) by (simp only: of_nat_less_iff)
  then have v: "0 \<le> uint v" "uint v < 2 ^ 31" by simp_all
  have x: "(scast bound :: u64) * ucast v = word_of_int ?x"
    by simp
  have "?x < sint bound * 2 ^ 31" using b v by (intro mult_strict_left_mono)
  then have q: "?x div 2 ^ 31 < sint bound" by (simp add: div_less_iff_less_mult)
  have "?x < 2 ^ 31 * 2 ^ 31" using b v by (intro mult_strict_mono) simp_all
  then have lim: "?x < 2 ^ 62" by simp
  have pos: "0 \<le> ?x" using b v by simp
  have r: "sint (ucast (signed_drop_bit 31 (word_of_int ?x :: u64)) :: u32) = ?x div 2 ^ 31"
    using ucast_signed_drop [OF pos lim] q b by linarith
  have "0 \<le> ?x div 2 ^ 31" using pos by simp
  with q show ?thesis unfolding x sle_zero_iff word_sless_alt r by simp
qed

lemma next31_range: "unat (fst (next_bits 31 r)) < 2 ^ 31"
proof -
  let ?s = "seed (snd (next_bits 31 r))"
  have "unat ?s < 2 ^ 48" by (simp add: seed_next_bits lcg_def)
  then have "unat ?s div 2 ^ 17 < 2 ^ 31" by (intro less_mult_imp_div_less) simp
  moreover have "unat (drop_bit 17 ?s) = drop_bit 17 (take_bit LENGTH(64) (unat ?s))"
    by (rule unsigned_drop_bit_eq)
  moreover have "take_bit LENGTH(64) (unat ?s) = unat ?s"
    using \<open>unat ?s < 2 ^ 48\<close> by (intro take_bit_nat_eq_self) simp
  ultimately have d: "unat (drop_bit 17 ?s) < 2 ^ 31"
    by (simp only: drop_bit_eq_div)
  have "fst (next_bits 31 r) = ucast (drop_bit 17 ?s)"
    by (simp add: next_bits_def Let_def)
  moreover have "unat (ucast (drop_bit 17 ?s) :: u32) \<le> unat (drop_bit 17 ?s)"
    by (simp add: unsigned_ucast_eq)
  ultimately show ?thesis using d by simp
qed

lemma next_i32_bounded_in_range:
  assumes "0 <s bound"
  shows "in_range bound (next_i32_bounded bound r)"
proof -
  have "\<not> bound \<le>s 0" using assms by (simp only: signed.not_le)
  with bounded_loop_returns [OF assms, of r] power_two_range [OF assms next31_range, of r]
  show ?thesis
    by (auto simp: next_i32_bounded_def in_range_def split_beta Let_def)
qed

text \<open>
  C8. The generator has full period: from any 48-bit state every other state is reached
  by fewer than \<open>2^48\<close> draws.
\<close>

theorem random_full_period:
  "unat s < 2 ^ 48 \<Longrightarrow> unat t < 2 ^ 48 \<Longrightarrow>
     \<exists>n < 2 ^ 48. unat (seed (((\<lambda>r. snd (next_bits 32 r)) ^^ n) \<lparr>seed = s, draws = d\<rparr>)) = unat t"
proof -
  assume st: "unat s < 2 ^ 48" "unat t < 2 ^ 48"
  have "unat (seed (((\<lambda>r. snd (next_bits 32 r)) ^^ n) r))
      = (lcg 0x5DEECE66D 0xB 48 ^^ n) (unat (seed r))" for n r
    by (induction n) (simp_all add: seed_next_bits)
  moreover have "\<exists>n < 2 ^ 48. (lcg 0x5DEECE66D 0xB 48 ^^ n) (unat s) = unat t"
    using st by (intro lcg_full_period) simp_all
  ultimately show ?thesis by simp
qed

theorem random_full_period_witness:
  "\<exists>n < 2 ^ 48. unat (seed (((\<lambda>r. snd (next_bits 32 r)) ^^ n) \<lparr>seed = 0, draws = 0\<rparr>)) = unat (5 :: u64)"
  by (rule random_full_period) simp_all

text \<open>
  C7. A bounded draw with a positive bound always returns (its rejection loop ends on
  every generator state) and the value is in \<open>0..bound\<close>, read as a signed integer. A
  bound that is not positive gives 0 and draws nothing.
\<close>

theorem next_i32_bounded_returns:
  "(if bound \<le>s 0 then next_i32_bounded bound r = Some (0, r)
    else \<exists>v r'. next_i32_bounded bound r = Some (v, r') \<and> 0 \<le> sint v \<and> sint v < sint bound)"
proof (cases "bound \<le>s 0")
  case True
  then show ?thesis by (simp add: next_i32_bounded_def)
next
  case False
  then have "in_range bound (next_i32_bounded bound r)"
    by (intro next_i32_bounded_in_range) (simp only: signed.not_le)
  with False show ?thesis
    by (auto simp: in_range_def sle_zero_iff word_sless_alt split: option.splits)
qed

text \<open>
  \<open>index\<close> returns on every generator, and what it returns for a collection of \<open>len\<close>
  entries is a valid index of it.
\<close>

lemma index_in_range:
  "\<exists>i r'. index_in len r = Some (i, r') \<and> (i = None \<longleftrightarrow> len = 0) \<and> (case i of None \<Rightarrow> True | Some k \<Rightarrow> k < len)"
proof (cases "len = 0")
  case True
  then show ?thesis by (simp add: index_in_def)
next
  case False
  define b :: u32 where "b = (if len < 2147483648 then of_nat len else 2147483647)"
  have b: "sint b = int (min len 2147483647)"
    by (simp add: b_def sint_of_nat_u32 min_def)
  with False have "0 <s b" by (simp add: sless_zero_iff)
  then have "in_range b (next_i32_bounded b r)" by (rule next_i32_bounded_in_range)
  then obtain v r' where v: "next_i32_bounded b r = Some (v, r')" "0 \<le> sint v" "sint v < sint b"
    by (auto simp: in_range_def sle_zero_iff word_sless_alt split: option.splits)
  then have "unat v < len" using b sint_nonneg_u32 [of v] by linarith
  with False v show ?thesis by (simp add: index_in_def b_def [symmetric])
qed

end
