(* ===== verification/NbtString.thy ===== *)
theory NbtString
  imports Bytes Strings
begin

text \<open>
  \<open>crates/nbt/src/string.rs\<close>: Java's modified UTF-8. A Rust string is encoded unit by
  unit of its UTF-16 form, so NUL is \<open>C0 80\<close> and a supplementary character is a pair of
  three-byte groups.
\<close>

definition MAX_ENCODED_LEN :: nat where "MAX_ENCODED_LEN = 65535"

definition encode_unit :: "u16 \<Rightarrow> bytes" where
  "encode_unit u =
     (if u = 0 then [0xC0, 0x80]
      else if u \<le> 0x7F then [ucast u]
      else if u \<le> 0x7FF then
        [0xC0 OR ucast (drop_bit 6 u), 0x80 OR ucast (u AND 0x3F)]
      else
        [0xE0 OR ucast (drop_bit 12 u), 0x80 OR ucast (drop_bit 6 u AND 0x3F),
         0x80 OR ucast (u AND 0x3F)])"

definition encode_body :: "rstring \<Rightarrow> bytes" where
  "encode_body value = concat (map encode_unit (encode_utf16 value))"

text \<open>The length prefix is backfilled; a string that is too long leaves \<open>out\<close> as it was.\<close>

definition write_modified_utf8 :: "rstring \<Rightarrow> bytes \<Rightarrow> unit server_result \<times> bytes" where
  "write_modified_utf8 value out =
     (let len = length (encode_body value)
      in if len > MAX_ENCODED_LEN then (Inl Operational, out)
         else (Inr (), out @ be_of 2 (of_nat len :: u16) @ encode_body value))"

text \<open>The loop of \<open>decode\<close>, one lead byte at a time.\<close>

fun decode_units :: "bytes \<Rightarrow> u16 list server_result" where
  "decode_units [] = Inr []"
| "decode_units (b0 # rest) =
     (if 0x01 \<le> b0 \<and> b0 \<le> 0x7F then
        and_then (decode_units rest) (\<lambda>us. Inr (ucast b0 # us))
      else if 0xC0 \<le> b0 \<and> b0 \<le> 0xDF then
        (case rest of
           [] \<Rightarrow> Inl Protocol
         | b1 # rest \<Rightarrow>
             if b1 AND 0xC0 \<noteq> 0x80 then Inl Protocol
             else and_then (decode_units rest) (\<lambda>us.
               Inr ((push_bit 6 (ucast (b0 AND 0x1F)) OR ucast (b1 AND 0x3F)) # us)))
      else if 0xE0 \<le> b0 \<and> b0 \<le> 0xEF then
        (case rest of
           b1 # b2 # rest \<Rightarrow>
             if b1 AND 0xC0 \<noteq> 0x80 \<or> b2 AND 0xC0 \<noteq> 0x80 then Inl Protocol
             else and_then (decode_units rest) (\<lambda>us.
               Inr ((push_bit 12 (ucast (b0 AND 0x0F)) OR push_bit 6 (ucast (b1 AND 0x3F))
                     OR ucast (b2 AND 0x3F)) # us))
         | _ \<Rightarrow> Inl Protocol)
      else Inl Protocol)"

definition decode_modified :: "bytes \<Rightarrow> rstring server_result" where
  "decode_modified payload =
     and_then (decode_units payload) (\<lambda>units.
       case from_utf16 units of None \<Rightarrow> Inl Protocol | Some s \<Rightarrow> Inr s)"

definition take_bytes :: "nat \<Rightarrow> bytes \<Rightarrow> (bytes \<times> bytes) server_result" where
  "take_bytes n data = (if length data < n then Inl Protocol else Inr (take n data, drop n data))"

definition read_modified_utf8 :: "bytes \<Rightarrow> (rstring \<times> bytes) server_result" where
  "read_modified_utf8 data =
     and_then (take_bytes 2 data) (\<lambda>(raw, data).
     and_then (take_bytes (unat (be_to raw :: u16)) data) (\<lambda>(payload, data).
     and_then (decode_modified payload) (\<lambda>s. Inr (s, data))))"

section \<open>Round trip\<close>

lemma take_bytes_append [simp]: "take_bytes (length xs) (xs @ ys) = Inr (xs, ys)"
  by (simp add: take_bytes_def)

lemma mask_values: "(0x3F :: 'a::len word) = mask 6" "(0x7F :: 'a::len word) = mask 7"
  by (simp_all add: mask_eq_exp_minus_1)

lemma ucast_group: "(ucast (v AND 0x3F) :: u8) = ucast (v :: u16) AND 0x3F"
  unfolding mask_values by (rule bit_word_eqI) (auto simp: bit_simps)

lemma cont_group:
  "(0x80 OR ucast ((v :: u16) AND 0x3F)) AND 0xC0 = (0x80 :: u8)"
  "(0x80 OR ucast (v AND 0x3F)) AND 0x3F = ucast (v AND 0x3F) AND (0x3F :: u8)"
  unfolding ucast_group by (simp_all add: bit.conj_disj_distrib2 and.assoc)

lemma lead2:
  assumes "x < (0x20 :: u8)"
  shows "0xC0 \<le> 0xC0 OR x \<and> 0xC0 OR x \<le> 0xDF \<and> (0xC0 OR x) AND 0x1F = x"
proof -
  have all: "\<forall>n \<in> set [0..<32]. 0xC0 \<le> 0xC0 OR (of_nat n :: u8) \<and> 0xC0 OR of_nat n \<le> (0xDF :: u8)
      \<and> (0xC0 OR of_nat n) AND 0x1F = (of_nat n :: u8)"
    by (simp add: upt_rec)
  have "unat x \<in> set [0..<32]" using assms by (simp add: word_less_nat_alt)
  from bspec [OF all this] show ?thesis by (simp only: of_nat_unat ucast_id)
qed

lemma lead3:
  assumes "x < (0x10 :: u8)"
  shows "0xE0 \<le> 0xE0 OR x \<and> 0xE0 OR x \<le> 0xEF \<and> (0xE0 OR x) AND 0x0F = x"
proof -
  have all: "\<forall>n \<in> set [0..<16]. 0xE0 \<le> 0xE0 OR (of_nat n :: u8) \<and> 0xE0 OR of_nat n \<le> (0xEF :: u8)
      \<and> (0xE0 OR of_nat n) AND 0x0F = (of_nat n :: u8)"
    by (simp add: upt_rec)
  have "unat x \<in> set [0..<16]" using assms by (simp add: word_less_nat_alt)
  from bspec [OF all this] show ?thesis by (simp only: of_nat_unat ucast_id)
qed

lemma high_bits_zero: "unat (u :: u16) < 2 ^ k \<Longrightarrow> k \<le> n \<Longrightarrow> \<not> bit u n"
proof
  assume u: "unat u < 2 ^ k" "k \<le> n" "bit u n"
  have "take_bit k (unat u) = unat u" using u(1) by (rule take_bit_nat_eq_self)
  then have "take_bit k u = u" by (simp add: word_unat_eq_iff unsigned_take_bit_eq)
  then show False using u(2,3) by (metis bit_take_bit_iff linorder_not_le)
qed

lemma unit_two:
  assumes "unat (u :: u16) < 2 ^ 11"
  shows "push_bit 6 (ucast (ucast (drop_bit 6 u) :: u8)) OR ucast (ucast (u AND 0x3F) AND 0x3F :: u8) = u"
  unfolding mask_values
proof (rule bit_word_eqI)
  fix n :: nat
  consider "n < 6" | "6 \<le> n" "n < 11" | "11 \<le> n" by linarith
  then show "bit (push_bit 6 (ucast (ucast (drop_bit 6 u) :: u8))
      OR ucast (ucast (u AND mask 6) AND mask 6 :: u8) :: u16) n = bit u n"
  proof cases
    case 2
    then have "6 + (n - 6) = n" "n - 6 < 8" "n < 16" by simp_all
    with 2 show ?thesis by (simp add: bit_simps)
  next
    case 3
    then have "6 + (n - 6) = n" by simp
    with 3 high_bits_zero [OF assms 3] show ?thesis by (simp add: bit_simps)
  qed (auto simp: bit_simps)
qed

lemma unit_three:
  "push_bit 12 (ucast (ucast (drop_bit 12 u) :: u8))
     OR push_bit 6 (ucast (ucast (drop_bit 6 u AND 0x3F) AND 0x3F :: u8))
     OR ucast (ucast (u AND 0x3F) AND 0x3F :: u8) = (u :: u16)"
  unfolding mask_values
proof (rule bit_word_eqI)
  fix n assume n: "n < LENGTH(16)"
  consider "n < 6" | "6 \<le> n" "n < 12" | "12 \<le> n" by linarith
  then show "bit (push_bit 12 (ucast (ucast (drop_bit 12 u) :: u8))
     OR push_bit 6 (ucast (ucast (drop_bit 6 u AND mask 6) AND mask 6 :: u8))
     OR ucast (ucast (u AND mask 6) AND mask 6 :: u8) :: u16) n = bit u n"
  proof cases
    case 2
    then have "6 + (n - 6) = n" "n - 6 < 6" "n < 16" by simp_all
    with 2 show ?thesis by (simp add: bit_simps)
  next
    case 3
    with n have "n - 12 < 8" "n < 16" "\<not> n - 6 < 6" by simp_all
    with 3 show ?thesis by (simp add: bit_simps)
  qed (auto simp: bit_simps)
qed

lemma unat_ucast_small: "unat (w :: u16) < 256 \<Longrightarrow> unat (ucast w :: u8) = unat w"
  by (simp add: unsigned_ucast_eq take_bit_nat_eq_self)

lemma drop_small:
  assumes "unat (u :: u16) div 2 ^ k < 256"
  shows "unat (ucast (drop_bit k u) :: u8) = unat u div 2 ^ k"
proof -
  have "unat (drop_bit k u) = drop_bit k (take_bit LENGTH(16) (unat u))"
    by (rule unsigned_drop_bit_eq)
  also have "take_bit LENGTH(16) (unat u) = unat u"
    using unsigned_less [of u] by (intro take_bit_nat_eq_self) simp
  finally have "unat (drop_bit k u) = unat u div 2 ^ k" by (simp only: drop_bit_eq_div)
  with assms show ?thesis by (simp only: unat_ucast_small)
qed

lemma decode_unit:
  "decode_units (encode_unit u @ rest) = and_then (decode_units rest) (\<lambda>us. Inr (u # us))"
proof -
  consider "u = 0" | "u \<noteq> 0" "u \<le> 0x7F" | "\<not> u \<le> 0x7F" "u \<le> 0x7FF" | "\<not> u \<le> 0x7F" "\<not> u \<le> 0x7FF"
    by blast
  then show ?thesis
  proof cases
    case 1
    then show ?thesis by (simp add: encode_unit_def)
  next
    case 2
    then have u: "unat (ucast u :: u8) = unat u"
      by (intro unat_ucast_small) (simp add: word_le_nat_alt)
    moreover have "unat (ucast (ucast u :: u8) :: u16) = unat (ucast u :: u8)"
      using u 2 by (simp add: unsigned_ucast_eq unsigned_take_bit_eq take_bit_nat_eq_self word_le_nat_alt)
    ultimately have "ucast (ucast u :: u8) = u" by (simp only: word_unat_eq_iff)
    moreover have "0x01 \<le> (ucast u :: u8)" "(ucast u :: u8) \<le> 0x7F"
      using u 2 by (simp_all add: word_le_nat_alt unat_gt_0 Suc_le_eq)
    ultimately show ?thesis using 2 by (simp add: encode_unit_def)
  next
    case 3
    have u: "unat u < 2 ^ 11" using 3(2) by (simp add: word_le_nat_alt)
    then have d: "unat u div 2 ^ 6 < 32" by (simp add: less_mult_imp_div_less)
    then have "ucast (drop_bit 6 u) < (0x20 :: u8)"
      using drop_small [of u 6] by (simp add: word_less_nat_alt)
    note lead = lead2 [OF this]
    have e: "encode_unit u = [0xC0 OR ucast (drop_bit 6 u), 0x80 OR ucast (u AND 0x3F)]"
      using 3 by (auto simp: encode_unit_def)
    have "\<not> 0xC0 OR ucast (drop_bit 6 u) \<le> (0x7F :: u8)"
      using lead order_trans [of "0xC0" "0xC0 OR ucast (drop_bit 6 u)" "0x7F :: u8"] by auto
    then show ?thesis
      using lead unit_two [OF u] unfolding e append.simps
      by (subst decode_units.simps(2)) (simp only: cont_group if_True if_False simp_thms list.case)
  next
    case 4
    have "unat u < 65536" using unsigned_less [of u] by simp
    then have "unat u div 2 ^ 12 < 16" by (simp add: less_mult_imp_div_less)
    then have "ucast (drop_bit 12 u) < (0x10 :: u8)"
      using drop_small [of u 12] by (simp add: word_less_nat_alt)
    note lead = lead3 [OF this]
    have e: "encode_unit u = [0xE0 OR ucast (drop_bit 12 u), 0x80 OR ucast (drop_bit 6 u AND 0x3F),
        0x80 OR ucast (u AND 0x3F)]"
      using 4 by (auto simp: encode_unit_def)
    have "\<not> 0xE0 OR ucast (drop_bit 12 u) \<le> (0x7F :: u8)"
      "\<not> 0xE0 OR ucast (drop_bit 12 u) \<le> (0xDF :: u8)"
      using lead order_trans [of "0xE0" "0xE0 OR ucast (drop_bit 12 u)" "0x7F :: u8"]
        order_trans [of "0xE0" "0xE0 OR ucast (drop_bit 12 u)" "0xDF :: u8"] by auto
    then show ?thesis
      using lead unit_three [of u] unfolding e append.simps
      by (subst decode_units.simps(2)) (simp only: cont_group if_True if_False simp_thms list.case)
  qed
qed

lemma decode_units_encode:
  "decode_units (concat (map encode_unit us)) = Inr us"
  by (induction us) (simp_all add: decode_unit)

lemma decode_encode_body: "valid_string s \<Longrightarrow> decode_modified (encode_body s) = Inr s"
  by (simp add: decode_modified_def encode_body_def decode_units_encode utf16_roundtrip)

lemma read_write_modified:
  assumes "valid_string s" "write_modified_utf8 s [] = (Inr (), out)"
  shows "read_modified_utf8 (out @ rest) = Inr (s, rest)"
proof -
  have len: "length (encode_body s) \<le> 65535"
    and out: "out = be_of 2 (of_nat (length (encode_body s)) :: u16) @ encode_body s"
    using assms(2) by (auto simp: write_modified_utf8_def MAX_ENCODED_LEN_def Let_def split: if_splits)
  have "unat (of_nat (length (encode_body s)) :: u16) = length (encode_body s)"
    using len by (simp add: unat_of_nat take_bit_nat_eq_self)
  moreover have "take_bytes 2 (out @ rest)
      = Inr (be_of 2 (of_nat (length (encode_body s)) :: u16), encode_body s @ rest)"
    by (simp add: out take_bytes_def)
  ultimately show ?thesis
    using assms(1) by (simp add: read_modified_utf8_def decode_encode_body)
qed

end
