(* ===== verification/KeyedStore.thy ===== *)
theory KeyedStore
  imports Prelude
begin

text \<open>
  The contract of a store of values under keys, as the compound tags of
  \<open>crates/nbt\<close> and the component patch of an item stack both promise it: what a lookup
  returns after an insertion and after a removal. A value may be tied to its key
  (\<open>fits\<close>), as a component is to its type id. The lemmas are proved once for any such
  store and used through the interpretations of the component theories.
\<close>

locale keyed_store =
  fixes lookup :: "'m \<Rightarrow> 'k \<Rightarrow> 'v option"
    and insert :: "'k \<Rightarrow> 'v \<Rightarrow> 'm \<Rightarrow> 'm"
    and remove :: "'k \<Rightarrow> 'm \<Rightarrow> 'm"
    and ok :: "'m \<Rightarrow> bool"
    and fits :: "'k \<Rightarrow> 'v \<Rightarrow> bool"
  assumes lookup_insert: "ok m \<Longrightarrow> fits k v \<Longrightarrow>
      lookup (insert k v m) k' = (if k' = k then Some v else lookup m k')"
    and lookup_remove: "ok m \<Longrightarrow> lookup (remove k m) k' = (if k' = k then None else lookup m k')"
    and ok_insert: "ok m \<Longrightarrow> fits k v \<Longrightarrow> ok (insert k v m)"
    and ok_remove: "ok m \<Longrightarrow> ok (remove k m)"
begin

lemma insert_twice:
  "ok m \<Longrightarrow> fits k v \<Longrightarrow> fits k w \<Longrightarrow> lookup (insert k v (insert k w m)) = lookup (insert k v m)"
  by (rule ext) (simp add: lookup_insert ok_insert)

lemma insert_commute:
  "ok m \<Longrightarrow> fits k v \<Longrightarrow> fits k' v' \<Longrightarrow> k \<noteq> k' \<Longrightarrow>
     lookup (insert k v (insert k' v' m)) = lookup (insert k' v' (insert k v m))"
  by (rule ext) (auto simp: lookup_insert ok_insert)

lemma remove_insert:
  "ok m \<Longrightarrow> fits k v \<Longrightarrow> lookup m k = None \<Longrightarrow> lookup (remove k (insert k v m)) = lookup m"
  by (rule ext) (auto simp: lookup_insert lookup_remove ok_insert)

text \<open>Insertion of a list of pairs: the last pair of a key decides.\<close>

lemma lookup_fold:
  "ok m \<Longrightarrow> \<forall>(k, v) \<in> set kvs. fits k v \<Longrightarrow> lookup (fold (\<lambda>(k, v). insert k v) kvs m) k =
     (case map_of (rev kvs) k of Some v \<Rightarrow> Some v | None \<Rightarrow> lookup m k)"
proof (induction kvs arbitrary: m)
  case Nil
  then show ?case by simp
next
  case (Cons kv kvs)
  obtain a b where kv: "kv = (a, b)" by (cases kv)
  have ab: "fits a b" using Cons.prems kv by simp
  show ?case
    using Cons.IH [OF ok_insert [OF Cons.prems(1) ab]] Cons.prems ab
    by (auto simp: kv lookup_insert map_add_def split: option.splits)
qed

end

end
