(* ===== verification/Nbt.thy ===== *)
theory Nbt
  imports NbtString KeyedStore
begin

text \<open>
  \<open>crates/nbt/src/value.rs\<close>: the tag model and its accessors. Signed integers are the
  words of their bits, floats the words of theirs. A compound is the list of its
  entries, in the order of the file.
\<close>

datatype nbt_tag =
    Nbt_Byte u8
  | Nbt_Short u16
  | Nbt_Int u32
  | Nbt_Long u64
  | Nbt_Float u32
  | Nbt_Double u64
  | Nbt_ByteArray bytes
  | Nbt_String rstring
  | Nbt_List "nbt_tag list"
  | Nbt_Compound "(rstring \<times> nbt_tag) list"
  | Nbt_IntArray "u32 list"
  | Nbt_LongArray "u64 list"

definition TAG_END :: u8 where "TAG_END = 0"
definition TAG_LONG_ARRAY :: u8 where "TAG_LONG_ARRAY = 12"

fun tag_id :: "nbt_tag \<Rightarrow> u8" where
  "tag_id (Nbt_Byte _) = 1"
| "tag_id (Nbt_Short _) = 2"
| "tag_id (Nbt_Int _) = 3"
| "tag_id (Nbt_Long _) = 4"
| "tag_id (Nbt_Float _) = 5"
| "tag_id (Nbt_Double _) = 6"
| "tag_id (Nbt_ByteArray _) = 7"
| "tag_id (Nbt_String _) = 8"
| "tag_id (Nbt_List _) = 9"
| "tag_id (Nbt_Compound _) = 10"
| "tag_id (Nbt_IntArray _) = 11"
| "tag_id (Nbt_LongArray _) = 12"

fun entries :: "nbt_tag \<Rightarrow> (rstring \<times> nbt_tag) list option" where
  "entries (Nbt_Compound es) = Some es"
| "entries _ = None"

text \<open>\<open>iter().rev().find(..)\<close>: the last entry of the name.\<close>

definition nbt_get :: "nbt_tag \<Rightarrow> rstring \<Rightarrow> nbt_tag option" where
  "nbt_get t name = Option.bind (entries t) (\<lambda>es. map_option snd (find (\<lambda>e. fst e = name) (rev es)))"

definition nbt_contains :: "nbt_tag \<Rightarrow> rstring \<Rightarrow> bool" where
  "nbt_contains t name = (nbt_get t name \<noteq> None)"

text \<open>The \<open>retain\<close> with its \<open>seen\<close> flag.\<close>

fun retain_first :: "rstring \<Rightarrow> bool \<Rightarrow> (rstring \<times> nbt_tag) list \<Rightarrow> (rstring \<times> nbt_tag) list" where
  "retain_first name seen [] = []"
| "retain_first name seen (e # es) =
     (if fst e = name then
        (if seen then retain_first name True es else e # retain_first name True es)
      else e # retain_first name seen es)"

fun nbt_insert :: "rstring \<Rightarrow> nbt_tag \<Rightarrow> nbt_tag \<Rightarrow> nbt_tag" where
  "nbt_insert name v (Nbt_Compound es) =
     (case position (\<lambda>e. fst e = name) es of
        Some index \<Rightarrow> Nbt_Compound (retain_first name False (es[index := (fst (es ! index), v)]))
      | None \<Rightarrow> Nbt_Compound (es @ [(name, v)]))"
| "nbt_insert name v t = t"

text \<open>\<open>remove\<close> returns whether anything was removed, and the tag.\<close>

fun nbt_remove :: "rstring \<Rightarrow> nbt_tag \<Rightarrow> bool \<times> nbt_tag" where
  "nbt_remove name (Nbt_Compound es) =
     (let es' = filter (\<lambda>e. fst e \<noteq> name) es in (length es' \<noteq> length es, Nbt_Compound es'))"
| "nbt_remove name t = (False, t)"

fun as_i64 :: "nbt_tag \<Rightarrow> int option" where
  "as_i64 (Nbt_Byte v) = Some (sint v)"
| "as_i64 (Nbt_Short v) = Some (sint v)"
| "as_i64 (Nbt_Int v) = Some (sint v)"
| "as_i64 (Nbt_Long v) = Some (sint v)"
| "as_i64 _ = None"

definition get_i64 :: "nbt_tag \<Rightarrow> rstring \<Rightarrow> int option" where
  "get_i64 t name = Option.bind (nbt_get t name) as_i64"

definition int_try_from :: "nat \<Rightarrow> int \<Rightarrow> int option" where
  "int_try_from w v = (if - (2 ^ (w - 1)) \<le> v \<and> v < 2 ^ (w - 1) then Some v else None)"

definition get_i32 :: "nbt_tag \<Rightarrow> rstring \<Rightarrow> int option" where
  "get_i32 t name = Option.bind (get_i64 t name) (int_try_from 32)"

definition get_i16 :: "nbt_tag \<Rightarrow> rstring \<Rightarrow> int option" where
  "get_i16 t name = Option.bind (get_i64 t name) (int_try_from 16)"

definition get_i8 :: "nbt_tag \<Rightarrow> rstring \<Rightarrow> int option" where
  "get_i8 t name = Option.bind (get_i64 t name) (int_try_from 8)"

definition get_bool :: "nbt_tag \<Rightarrow> rstring \<Rightarrow> bool option" where
  "get_bool t name = map_option (\<lambda>v. v \<noteq> 0) (get_i8 t name)"

definition get_str :: "nbt_tag \<Rightarrow> rstring \<Rightarrow> rstring option" where
  "get_str t name = (case nbt_get t name of Some (Nbt_String v) \<Rightarrow> Some v | _ \<Rightarrow> None)"

definition get_list :: "nbt_tag \<Rightarrow> rstring \<Rightarrow> nbt_tag list option" where
  "get_list t name = (case nbt_get t name of Some (Nbt_List v) \<Rightarrow> Some v | _ \<Rightarrow> None)"

definition get_compound :: "nbt_tag \<Rightarrow> rstring \<Rightarrow> nbt_tag option" where
  "get_compound t name =
     (case nbt_get t name of Some (Nbt_Compound v) \<Rightarrow> Some (Nbt_Compound v) | _ \<Rightarrow> None)"

definition get_byte_array :: "nbt_tag \<Rightarrow> rstring \<Rightarrow> bytes option" where
  "get_byte_array t name = (case nbt_get t name of Some (Nbt_ByteArray v) \<Rightarrow> Some v | _ \<Rightarrow> None)"

definition get_int_array :: "nbt_tag \<Rightarrow> rstring \<Rightarrow> u32 list option" where
  "get_int_array t name = (case nbt_get t name of Some (Nbt_IntArray v) \<Rightarrow> Some v | _ \<Rightarrow> None)"

definition get_long_array :: "nbt_tag \<Rightarrow> rstring \<Rightarrow> u64 list option" where
  "get_long_array t name = (case nbt_get t name of Some (Nbt_LongArray v) \<Rightarrow> Some v | _ \<Rightarrow> None)"

section \<open>A compound is a keyed store\<close>

definition is_compound :: "nbt_tag \<Rightarrow> bool" where
  "is_compound t = (entries t \<noteq> None)"

lemma is_compoundE: "is_compound t \<Longrightarrow> (\<And>es. t = Nbt_Compound es \<Longrightarrow> thesis) \<Longrightarrow> thesis"
  by (cases t) (auto simp: is_compound_def)

lemma find_key: "map_option snd (find (\<lambda>e. fst e = k) es) = map_of es k"
  by (induction es) auto

lemma nbt_get_compound: "nbt_get (Nbt_Compound es) k = map_of (rev es) k"
  by (simp add: nbt_get_def find_key)

lemma retain_seen: "retain_first k True es = filter (\<lambda>e. fst e \<noteq> k) es"
  by (induction es) auto

lemma map_of_filter_key:
  "map_of (filter (\<lambda>e. fst e \<noteq> k) es) k' = (if k' = k then None else map_of es k')"
  by (induction es) auto

lemma map_of_rev_filter:
  "map_of (rev (filter (\<lambda>e. fst e \<noteq> k) es)) k' = (if k' = k then None else map_of (rev es) k')"
  unfolding rev_filter by (rule map_of_filter_key)

lemma map_of_rev_snoc:
  "map_of (rev (es @ (k, v) # fs)) k' =
     (case map_of (rev fs) k' of Some w \<Rightarrow> Some w
      | None \<Rightarrow> if k' = k then Some v else map_of (rev es) k')"
  by (simp add: map_add_def split: option.splits)

lemma retain_split:
  "position (\<lambda>e. fst e = k) es = Some i \<Longrightarrow>
     \<exists>pre w post. es = pre @ (k, w) # post \<and> fst (es ! i) = k \<and> k \<notin> fst ` set pre
       \<and> retain_first k False (es[i := (k, v)]) = pre @ (k, v) # filter (\<lambda>e. fst e \<noteq> k) post"
proof (induction es arbitrary: i)
  case Nil
  then show ?case by simp
next
  case (Cons e es)
  show ?case
  proof (cases "fst e = k")
    case True
    then have "i = 0" using Cons.prems by simp
    moreover have "e = (k, snd e)" using True by (cases e) simp
    ultimately show ?thesis
      using True
      by (intro exI [of _ "[]"] exI [of _ "snd e"] exI [of _ es]) (simp add: retain_seen)
  next
    case False
    then obtain j where j: "position (\<lambda>e. fst e = k) es = Some j" "i = Suc j"
      using Cons.prems by (auto split: if_splits)
    from Cons.IH [OF j(1)] obtain pre w post where
      "es = pre @ (k, w) # post" "fst (es ! j) = k" "k \<notin> fst ` set pre"
      "retain_first k False (es[j := (k, v)]) = pre @ (k, v) # filter (\<lambda>e. fst e \<noteq> k) post"
      by blast
    with False j have "e # es = (e # pre) @ (k, w) # post \<and> fst ((e # es) ! i) = k
      \<and> k \<notin> fst ` set (e # pre)
      \<and> retain_first k False ((e # es)[i := (k, v)])
          = (e # pre) @ (k, v) # filter (\<lambda>e. fst e \<noteq> k) post"
      by simp
    then show ?thesis by blast
  qed
qed

lemma nbt_get_insert:
  assumes "is_compound t"
  shows "nbt_get (nbt_insert k v t) k' = (if k' = k then Some v else nbt_get t k')"
proof -
  obtain es where t: "t = Nbt_Compound es" using assms by (rule is_compoundE)
  show ?thesis
  proof (cases "position (\<lambda>e. fst e = k) es")
    case None
    then show ?thesis
      by (auto simp: t nbt_get_compound)
  next
    case (Some i)
    from retain_split [OF Some] obtain pre w post where s: "es = pre @ (k, w) # post"
      "fst (es ! i) = k" "k \<notin> fst ` set pre"
      "retain_first k False (es[i := (k, v)]) = pre @ (k, v) # filter (\<lambda>e. fst e \<noteq> k) post"
      by blast
    show ?thesis
      using Some s(2,4)
      by (simp add: t nbt_get_compound map_of_rev_snoc map_of_rev_filter s(1) map_add_def split: option.split)
  qed
qed

lemma nbt_get_remove:
  "is_compound t \<Longrightarrow> nbt_get (snd (nbt_remove k t)) k' = (if k' = k then None else nbt_get t k')"
  by (erule is_compoundE) (simp add: Let_def nbt_get_compound map_of_rev_filter)

lemma nbt_remove_fst: "is_compound t \<Longrightarrow> fst (nbt_remove k t) = nbt_contains t k"
proof (erule is_compoundE)
  fix es assume t: "t = Nbt_Compound es"
  have "length (filter (\<lambda>e. fst e \<noteq> k) es) \<noteq> length es \<longleftrightarrow> k \<in> fst ` set es"
    by (metis (mono_tags, lifting) filter_True filter_id_conv image_iff length_filter_less
        less_irrefl)
  then show "fst (nbt_remove k t) = nbt_contains t k"
    by (simp add: t Let_def nbt_contains_def nbt_get_compound map_of_eq_None_iff)
qed

lemma is_compound_insert: "is_compound t \<Longrightarrow> is_compound (nbt_insert k v t)"
  by (erule is_compoundE) (simp add: is_compound_def split: option.split)

lemma is_compound_remove: "is_compound t \<Longrightarrow> is_compound (snd (nbt_remove k t))"
  by (erule is_compoundE) (simp add: is_compound_def Let_def)

interpretation compound: keyed_store nbt_get nbt_insert "\<lambda>k t. snd (nbt_remove k t)" is_compound "\<lambda>_ _. True"
  by unfold_locales (simp_all add: nbt_get_insert nbt_get_remove is_compound_insert is_compound_remove)

text \<open>
  C11. A compound behaves as a map under \<open>get\<close>, \<open>insert\<close> and \<open>remove\<close>, whatever duplicate
  names it was read with: an inserted entry is the one a lookup returns, an insertion or a
  removal changes no other name, a removed name is gone and \<open>remove\<close> tells whether it was
  there, and the order of insertions under two names does not matter.
\<close>

theorem compound_is_a_map:
  "nbt_get (nbt_insert k v (Nbt_Compound es)) k'
      = (if k' = k then Some v else nbt_get (Nbt_Compound es) k')
    \<and> nbt_get (snd (nbt_remove k (Nbt_Compound es))) k'
      = (if k' = k then None else nbt_get (Nbt_Compound es) k')
    \<and> fst (nbt_remove k (Nbt_Compound es)) = nbt_contains (Nbt_Compound es) k
    \<and> (k = k' \<or> nbt_get (nbt_insert k v (nbt_insert k' v' (Nbt_Compound es)))
        = nbt_get (nbt_insert k' v' (nbt_insert k v (Nbt_Compound es))))"
proof -
  have "is_compound (Nbt_Compound es)" by (simp add: is_compound_def)
  then show ?thesis
    using compound.insert_commute [where m = "Nbt_Compound es" and k = k and k' = k' and v = v and v' = v']
    by (auto simp del: nbt_insert.simps nbt_remove.simps
        simp: compound.lookup_insert compound.lookup_remove nbt_remove_fst)
qed

end
