(* ===== verification/NbtCodec.thy ===== *)
theory NbtCodec
  imports Nbt
begin

text \<open>
  \<open>crates/nbt/src/write.rs\<close> and \<open>read.rs\<close>: the binary form of a tag and its bounded
  reader. \<open>write_payload\<close> is the bytes the function appends; the entry points append
  them to the buffer, or leave the buffer as it was. The reader is the unread input with
  the count of tags created. The compound loop of the reader ends when it meets
  \<open>TAG_End\<close> or runs out of input; its fuel is the number of unread bytes plus one, and
  \<open>read_payload_total\<close> shows that it never runs out.
\<close>

section \<open>Writer\<close>

fun concat_results :: "('e + 'a list) list \<Rightarrow> 'e + 'a list" where
  "concat_results [] = Inr []"
| "concat_results (r # rs) = and_then r (\<lambda>b. and_then (concat_results rs) (\<lambda>bs. Inr (b @ bs)))"

definition nbt_write_len :: "nat \<Rightarrow> bytes server_result" where
  "nbt_write_len len =
     (if len < 2147483648 then Inr (be_of 4 (of_nat len :: u32)) else Inl Operational)"

text \<open>\<open>write_modified_utf8\<close> appends to the buffer it is given.\<close>

definition nbt_write_string :: "rstring \<Rightarrow> bytes server_result" where
  "nbt_write_string value =
     (case write_modified_utf8 value [] of (Inl e, _) \<Rightarrow> Inl e | (Inr _, bs) \<Rightarrow> Inr bs)"

definition list_element_id :: "nbt_tag list \<Rightarrow> u8" where
  "list_element_id items = (case items of [] \<Rightarrow> TAG_END | t # _ \<Rightarrow> tag_id t)"

fun write_payload :: "nbt_tag \<Rightarrow> bytes server_result" where
  "write_payload (Nbt_Byte v) = Inr [v]"
| "write_payload (Nbt_Short v) = Inr (be_of 2 v)"
| "write_payload (Nbt_Int v) = Inr (be_of 4 v)"
| "write_payload (Nbt_Long v) = Inr (be_of 8 v)"
| "write_payload (Nbt_Float v) = Inr (be_of 4 v)"
| "write_payload (Nbt_Double v) = Inr (be_of 8 v)"
| "write_payload (Nbt_ByteArray bs) = and_then (nbt_write_len (length bs)) (\<lambda>l. Inr (l @ bs))"
| "write_payload (Nbt_String v) = nbt_write_string v"
| "write_payload (Nbt_List items) =
     (let element_id = list_element_id items
      in if position (\<lambda>item. tag_id item \<noteq> element_id) items \<noteq> None then Inl Invariant
      else and_then (nbt_write_len (length items)) (\<lambda>l.
           and_then (concat_results (map write_payload items)) (\<lambda>bs.
           Inr (element_id # l @ bs))))"
| "write_payload (Nbt_Compound es) =
     and_then (concat_results (map (\<lambda>e.
         and_then (nbt_write_string (fst e)) (\<lambda>n.
         and_then (write_payload (snd e)) (\<lambda>p. Inr (tag_id (snd e) # n @ p)))) es)) (\<lambda>bs.
     Inr (bs @ [TAG_END]))"
| "write_payload (Nbt_IntArray vs) =
     and_then (nbt_write_len (length vs)) (\<lambda>l. Inr (l @ concat (map (be_of 4) vs)))"
| "write_payload (Nbt_LongArray vs) =
     and_then (nbt_write_len (length vs)) (\<lambda>l. Inr (l @ concat (map (be_of 8) vs)))"

definition nbt_write_named :: "rstring \<Rightarrow> nbt_tag \<Rightarrow> bytes \<Rightarrow> unit server_result \<times> bytes" where
  "nbt_write_named name t out =
     (case and_then (nbt_write_string name) (\<lambda>n. and_then (write_payload t) (\<lambda>p. Inr (n @ p))) of
        Inl e \<Rightarrow> (Inl e, out)
      | Inr bs \<Rightarrow> (Inr (), out @ tag_id t # bs))"

definition nbt_write_unnamed :: "nbt_tag \<Rightarrow> bytes \<Rightarrow> unit server_result \<times> bytes" where
  "nbt_write_unnamed t out =
     (case write_payload t of
        Inl e \<Rightarrow> (Inl e, out)
      | Inr bs \<Rightarrow> (Inr (), out @ tag_id t # bs))"

section \<open>Reader\<close>

record limits =
  max_depth :: nat
  max_bytes :: nat
  max_elements :: nat

definition DISK_LIMITS :: limits where
  "DISK_LIMITS = \<lparr>max_depth = 512, max_bytes = 16 * 1024 * 1024, max_elements = 4 * 1024 * 1024\<rparr>"

definition NETWORK_LIMITS :: limits where
  "NETWORK_LIMITS = \<lparr>max_depth = 512, max_bytes = 2 * 1024 * 1024, max_elements = 1024 * 1024\<rparr>"

record tag_reader =
  unread :: bytes
  elements :: nat

datatype read_error = Failed server_error | Out_of_fuel

type_synonym 'a tag_read = "tag_reader \<Rightarrow> read_error + 'a \<times> tag_reader"

definition rd_u8 :: "u8 tag_read" where
  "rd_u8 r = (case unread r of [] \<Rightarrow> Inl (Failed Protocol) | b # bs \<Rightarrow> Inr (b, r\<lparr>unread := bs\<rparr>))"

definition rd_take :: "nat \<Rightarrow> bytes tag_read" where
  "rd_take n r =
     (if length (unread r) < n then Inl (Failed Protocol)
      else Inr (take n (unread r), r\<lparr>unread := drop n (unread r)\<rparr>))"

definition rd_i16 :: "u16 tag_read" where
  "rd_i16 r = and_then (rd_take 2 r) (\<lambda>(raw, r). Inr (be_to raw, r))"

definition rd_i32 :: "u32 tag_read" where
  "rd_i32 r = and_then (rd_take 4 r) (\<lambda>(raw, r). Inr (be_to raw, r))"

definition rd_i64 :: "u64 tag_read" where
  "rd_i64 r = and_then (rd_take 8 r) (\<lambda>(raw, r). Inr (be_to raw, r))"

text \<open>\<open>Cursor::string\<close> reads the length as an \<open>i16\<close>.\<close>

definition rd_string :: "rstring tag_read" where
  "rd_string r =
     and_then (rd_i16 r) (\<lambda>(len, r).
       if sint len < 0 then Inl (Failed Protocol)
       else and_then (rd_take (nat (sint len)) r) (\<lambda>(payload, r).
         case decode_modified payload of Inl e \<Rightarrow> Inl (Failed e) | Inr s \<Rightarrow> Inr (s, r)))"

definition rd_bounded_len :: "nat tag_read" where
  "rd_bounded_len r =
     and_then (rd_i32 r) (\<lambda>(len, r).
       if sint len < 0 then Inl (Failed Protocol)
       else if nat (sint len) > length (unread r) then Inl (Failed Protocol)
       else Inr (nat (sint len), r))"

primrec rd_times :: "nat \<Rightarrow> 'a tag_read \<Rightarrow> 'a list tag_read" where
  "rd_times 0 f r = Inr ([], r)"
| "rd_times (Suc n) f r =
     and_then (f r) (\<lambda>(x, r). and_then (rd_times n f r) (\<lambda>(xs, r). Inr (x # xs, r)))"

primrec rd_entries ::
    "nat \<Rightarrow> (u8 \<Rightarrow> nbt_tag tag_read) \<Rightarrow> (rstring \<times> nbt_tag) list tag_read" where
  "rd_entries 0 f r = Inl Out_of_fuel"
| "rd_entries (Suc fuel) f r =
     and_then (rd_u8 r) (\<lambda>(entry_id, r).
       if entry_id = TAG_END then Inr ([], r)
       else if entry_id > TAG_LONG_ARRAY then Inl (Failed Protocol)
       else and_then (rd_string r) (\<lambda>(name, r).
            and_then (f entry_id r) (\<lambda>(value, r).
            and_then (rd_entries fuel f r) (\<lambda>(es, r). Inr ((name, value) # es, r)))))"

definition rd_budget :: "limits \<Rightarrow> unit tag_read" where
  "rd_budget l r =
     (let r = r\<lparr>elements := elements r + 1\<rparr>
      in if elements r > max_elements l then Inl (Failed CorruptData) else Inr ((), r))"

definition with_tag :: "('a \<Rightarrow> nbt_tag) \<Rightarrow> read_error + 'a \<times> tag_reader \<Rightarrow> read_error + nbt_tag \<times> tag_reader" where
  "with_tag c res = and_then res (\<lambda>(x, r). Inr (c x, r))"

text \<open>The arms of \<open>read_payload\<close> that do not recurse.\<close>

definition read_leaf :: "u8 \<Rightarrow> nbt_tag tag_read" where
  "read_leaf i r =
     (if i = 1 then with_tag Nbt_Byte (rd_u8 r)
      else if i = 2 then with_tag Nbt_Short (rd_i16 r)
      else if i = 3 then with_tag Nbt_Int (rd_i32 r)
      else if i = 4 then with_tag Nbt_Long (rd_i64 r)
      else if i = 5 then with_tag Nbt_Float (rd_i32 r)
      else if i = 6 then with_tag Nbt_Double (rd_i64 r)
      else if i = 7 then
        and_then (rd_bounded_len r) (\<lambda>(len, r). with_tag Nbt_ByteArray (rd_take len r))
      else if i = 8 then with_tag Nbt_String (rd_string r)
      else if i = 11 then
        and_then (rd_bounded_len r) (\<lambda>(len, r).
          if len > length (unread r) div 4 then Inl (Failed Protocol)
          else with_tag Nbt_IntArray (rd_times len rd_i32 r))
      else if i = 12 then
        and_then (rd_bounded_len r) (\<lambda>(len, r).
          if len > length (unread r) div 8 then Inl (Failed Protocol)
          else with_tag Nbt_LongArray (rd_times len rd_i64 r))
      else Inl (Failed Protocol))"

function read_payload :: "limits \<Rightarrow> u8 \<Rightarrow> nat \<Rightarrow> nbt_tag tag_read" where
  "read_payload l i depth r =
     and_then (rd_budget l r) (\<lambda>(_, r).
       if i = 9 then
         (if depth > max_depth l then Inl (Failed CorruptData)
          else and_then (rd_u8 r) (\<lambda>(element_id, r).
               and_then (rd_bounded_len r) (\<lambda>(count, r).
               if element_id = TAG_END \<and> count > 0 then Inl (Failed Protocol)
               else if element_id > TAG_LONG_ARRAY then Inl (Failed Protocol)
               else with_tag Nbt_List
                 (rd_times count (\<lambda>r. read_payload l element_id (depth + 1) r) r))))
       else if i = 10 then
         (if depth > max_depth l then Inl (Failed CorruptData)
          else with_tag Nbt_Compound
            (rd_entries (Suc (length (unread r)))
              (\<lambda>entry_id r. read_payload l entry_id (depth + 1) r) r))
       else read_leaf i r)"
  by pat_completeness auto
termination
  by (relation "measure (\<lambda>(l, i, depth, r). Suc (max_depth l) - depth)") auto

declare read_payload.simps [simp del]

definition new_reader :: "bytes \<Rightarrow> limits \<Rightarrow> read_error + tag_reader" where
  "new_reader bs l =
     (if length bs > max_bytes l then Inl (Failed CorruptData)
      else Inr \<lparr>unread = bs, elements = 0\<rparr>)"

definition reader_named :: "limits \<Rightarrow> (rstring \<times> nbt_tag) tag_read" where
  "reader_named l r =
     and_then (rd_u8 r) (\<lambda>(i, r).
       if i = TAG_END then Inl (Failed CorruptData)
       else and_then (rd_string r) (\<lambda>(name, r).
            and_then (read_payload l i 0 r) (\<lambda>(value, r). Inr ((name, value), r))))"

definition reader_unnamed :: "limits \<Rightarrow> nbt_tag tag_read" where
  "reader_unnamed l r =
     and_then (rd_u8 r) (\<lambda>(i, r).
       if i = TAG_END then Inl (Failed Protocol) else read_payload l i 0 r)"

text \<open>The entry points; the \<open>&mut &[u8]\<close> ones also give back the bytes not consumed.\<close>

definition read_named :: "bytes \<Rightarrow> limits \<Rightarrow> read_error + rstring \<times> nbt_tag" where
  "read_named bs l =
     and_then (new_reader bs l) (\<lambda>r. and_then (reader_named l r) (\<lambda>(res, r). Inr res))"

definition read_network_with :: "bytes \<Rightarrow> limits \<Rightarrow> read_error + nbt_tag \<times> bytes" where
  "read_network_with bs l =
     and_then (new_reader bs l) (\<lambda>r. and_then (reader_unnamed l r) (\<lambda>(t, r). Inr (t, unread r)))"

definition read_named_tag :: "bytes \<Rightarrow> limits \<Rightarrow> read_error + (rstring \<times> nbt_tag) \<times> bytes" where
  "read_named_tag bs l =
     and_then (new_reader bs l) (\<lambda>r. and_then (reader_named l r) (\<lambda>(res, r). Inr (res, unread r)))"

section \<open>The reader is total\<close>

text \<open>A step of the reader never runs out of fuel and never gives input back.\<close>

definition advances :: "nat \<Rightarrow> 'a tag_read \<Rightarrow> bool" where
  "advances n f \<longleftrightarrow> (\<forall>r. f r \<noteq> Inl Out_of_fuel
     \<and> (\<forall>x r'. f r = Inr (x, r') \<longrightarrow> length (unread r') + n \<le> length (unread r)))"

named_theorems advance_intros

lemma advancesD: "advances n f \<Longrightarrow> f r = Inr (x, r') \<Longrightarrow> length (unread r') + n \<le> length (unread r)"
  by (auto simp: advances_def)

lemma advances_not_fuel: "advances n f \<Longrightarrow> f r \<noteq> Inl Out_of_fuel"
  by (auto simp: advances_def)

lemma advances_bind [advance_intros]:
  assumes "advances n f" "\<And>x. advances m (g x)"
  shows "advances (n + m) (\<lambda>r. and_then (f r) (\<lambda>(x, r). g x r))"
  using assms by (fastforce simp: advances_def and_then_def split: sum.splits prod.splits)

lemma advances_weaken: "advances n f \<Longrightarrow> m \<le> n \<Longrightarrow> advances m f"
  by (fastforce simp: advances_def)

lemma advances_fail [advance_intros]: "advances n (\<lambda>r. Inl (Failed e))"
  by (simp add: advances_def)

lemma advances_return [advance_intros]: "advances 0 (\<lambda>r. Inr (x, r))"
  by (simp add: advances_def)

lemma advances_if [advance_intros]:
  "advances n f \<Longrightarrow> advances n g \<Longrightarrow> advances n (\<lambda>r. if b then f r else g r)"
  by (simp add: advances_def)

lemma advances_if_state:
  "advances n f \<Longrightarrow> advances n g \<Longrightarrow> advances n (\<lambda>r. if b r then f r else g r)"
  by (simp add: advances_def)

lemma advances_with_tag [advance_intros]:
  "advances n f \<Longrightarrow> advances n (\<lambda>r. with_tag c (f r))"
  by (fastforce simp: advances_def with_tag_def and_then_def split: sum.splits prod.splits)

lemma advances_u8: "advances 1 rd_u8"
  by (auto simp: advances_def rd_u8_def split: list.splits)

lemma advances_take: "advances 0 (rd_take n)"
  by (auto simp: advances_def rd_take_def)

lemma advances_ints: "advances 0 rd_i16" "advances 0 rd_i32" "advances 0 rd_i64"
  using advances_take
  by (fastforce simp: advances_def rd_i16_def rd_i32_def rd_i64_def and_then_def
      split: sum.splits prod.splits)+

lemma advances_bind0 [advance_intros]:
  assumes "advances 0 f" "\<And>x. advances 0 (g x)"
  shows "advances 0 (\<lambda>r. and_then (f r) (\<lambda>(x, r). g x r))"
  using advances_bind [OF assms] by simp

lemmas advance_steps = advances_bind0 advances_fail advances_return advances_with_tag
  advances_take advances_ints advances_weaken [OF advances_u8 zero_le_one]

lemma advances_string: "advances 0 rd_string"
proof -
  have "advances 0 (\<lambda>r. case decode_modified payload of Inl e \<Rightarrow> Inl (Failed e) | Inr s \<Rightarrow> Inr (s, r))"
    for payload
    by (cases "decode_modified payload") (simp_all add: advance_steps)
  then show ?thesis
    unfolding rd_string_def by (intro advance_steps advances_if)
qed

lemma advances_bounded_len: "advances 0 rd_bounded_len"
  unfolding rd_bounded_len_def by (intro advance_steps advances_if advances_if_state)

lemma rd_times_fun:
  "rd_times 0 f = (\<lambda>r. Inr ([], r))"
  "rd_times (Suc n) f =
     (\<lambda>r. and_then (f r) (\<lambda>(x, r). and_then (rd_times n f r) (\<lambda>(xs, r). Inr (x # xs, r))))"
  by (rule ext, simp)+

lemma advances_times: "advances 0 f \<Longrightarrow> advances 0 (rd_times n f)"
proof (induction n)
  case 0
  show ?case unfolding rd_times_fun by (rule advances_return)
next
  case (Suc n)
  then show ?case unfolding rd_times_fun by (intro advance_steps)
qed

lemma advances_leaf: "advances 0 (read_leaf i)"
  unfolding read_leaf_def
  by (intro advance_steps advances_if advances_if_state advances_string advances_bounded_len
      advances_times)

lemma advances_budget: "advances 0 (rd_budget l)"
  by (auto simp: advances_def rd_budget_def Let_def)

text \<open>Enough fuel for the unread input: every entry takes its id byte at least.\<close>

lemma entries_enough_fuel:
  assumes f: "\<And>i. advances 0 (f i)"
  shows "length (unread r) < fuel \<Longrightarrow> rd_entries fuel f r \<noteq> Inl Out_of_fuel
     \<and> (\<forall>x r'. rd_entries fuel f r = Inr (x, r') \<longrightarrow> length (unread r') \<le> length (unread r))"
proof (induction fuel arbitrary: r)
  case 0
  then show ?case by simp
next
  case (Suc fuel)
  show ?case
  proof (cases "rd_u8 r")
    case (Inl e)
    then show ?thesis using advances_not_fuel [OF advances_u8, of r] by simp
  next
    case u8: (Inr p)
    obtain i r1 where p: "p = (i, r1)" by (cases p)
    have l1: "length (unread r1) < length (unread r)"
      using advancesD [OF advances_u8, of r] u8 p by fastforce
    show ?thesis
    proof (cases "i = TAG_END \<or> i > TAG_LONG_ARRAY")
      case True
      then show ?thesis using u8 p l1 by auto
    next
      case False
      show ?thesis
      proof (cases "rd_string r1")
        case (Inl e)
        then show ?thesis using False u8 p advances_not_fuel [OF advances_string, of r1] by simp
      next
        case name: (Inr q)
        obtain n r2 where q: "q = (n, r2)" by (cases q)
        have l2: "length (unread r2) \<le> length (unread r1)"
          using advancesD [OF advances_string, of r1] name q by fastforce
        show ?thesis
        proof (cases "f i r2")
          case (Inl e)
          then show ?thesis using False u8 p name q advances_not_fuel [OF f, of i r2] by simp
        next
          case v: (Inr w)
          obtain t r3 where w: "w = (t, r3)" by (cases w)
          have l3: "length (unread r3) \<le> length (unread r2)"
            using advancesD [OF f, of i r2] v w by fastforce
          have "length (unread r3) < fuel" using Suc.prems l1 l2 l3 by simp
          from Suc.IH [OF this] show ?thesis
            using False u8 p name q v w l1 l2 l3
            by (cases "rd_entries fuel f r3") fastforce+
        qed
      qed
    qed
  qed
qed

lemma advances_entries:
  "(\<And>i. advances 0 (f i)) \<Longrightarrow> advances 0 (\<lambda>r. rd_entries (Suc (length (unread r))) f r)"
  using entries_enough_fuel [of f] by (fastforce simp: advances_def simp del: rd_entries.simps)

lemma read_payload_fun:
  "read_payload l i depth = (\<lambda>r.
     and_then (rd_budget l r) (\<lambda>(_, r).
       if i = 9 then
         (if depth > max_depth l then Inl (Failed CorruptData)
          else and_then (rd_u8 r) (\<lambda>(element_id, r).
               and_then (rd_bounded_len r) (\<lambda>(count, r).
               if element_id = TAG_END \<and> count > 0 then Inl (Failed Protocol)
               else if element_id > TAG_LONG_ARRAY then Inl (Failed Protocol)
               else with_tag Nbt_List (rd_times count (read_payload l element_id (depth + 1)) r))))
       else if i = 10 then
         (if depth > max_depth l then Inl (Failed CorruptData)
          else with_tag Nbt_Compound
            (rd_entries (Suc (length (unread r))) (\<lambda>j. read_payload l j (depth + 1)) r))
       else read_leaf i r))"
  by (rule ext) (subst read_payload.simps, simp)

lemma advances_payload: "advances 0 (read_payload l i depth)"
proof (induction "Suc (max_depth l) - depth" arbitrary: i depth rule: less_induct)
  case less
  show ?case
  proof (cases "depth > max_depth l")
    case True
    then show ?thesis
      by (subst read_payload_fun, simp cong: if_cong)
         (intro advances_bind0 advances_budget advances_if advances_fail advances_leaf)
  next
    case False
    then have IH: "advances 0 (read_payload l j (depth + 1))" for j
      by (intro less) simp
    show ?thesis
      by (subst read_payload_fun, intro advance_steps advances_budget advances_if advances_leaf advances_bounded_len
          advances_times advances_entries IH)
  qed
qed

lemma advances_readers: "advances 0 (reader_named l)" "advances 0 (reader_unnamed l)"
  unfolding reader_named_def reader_unnamed_def
  by (intro advance_steps advances_if advances_string advances_payload)+

text \<open>
  C5. The bounded reader always comes back with a tag or an error: on every input and
  under every budget the fuel of the model is never exhausted, that is, the compound loop
  of \<open>read_payload\<close> and its recursion end on hostile input too; and what it leaves unread
  is no longer than what it was given.
\<close>

theorem nbt_reader_total:
  "read_network_with bs l \<noteq> Inl Out_of_fuel \<and> read_named_tag bs l \<noteq> Inl Out_of_fuel \<and>
   (case read_network_with bs l of Inl _ \<Rightarrow> True | Inr (t, rest) \<Rightarrow> length rest \<le> length bs)"
proof -
  let ?r = "\<lparr>unread = bs, elements = 0\<rparr>"
  have "reader_named l ?r \<noteq> Inl Out_of_fuel" "reader_unnamed l ?r \<noteq> Inl Out_of_fuel"
    using advances_readers by (auto simp: advances_def)
  moreover have "reader_unnamed l ?r = Inr (t, r') \<Longrightarrow> length (unread r') \<le> length bs" for t r'
    using advancesD [OF advances_readers(2)] by fastforce
  ultimately show ?thesis
    by (auto simp: read_network_with_def read_named_tag_def new_reader_def and_then_Inl
        and_then_Inr split: sum.splits)
qed

section \<open>Round trip\<close>

text \<open>
  What a tag must satisfy to be read back: strings whose encoded form the reader's signed
  length holds, nesting and number of tags within the budgets.
\<close>

definition readable_string :: "rstring \<Rightarrow> bool" where
  "readable_string s \<longleftrightarrow> valid_string s \<and> length (encode_body s) < 32768"

fun readable :: "nbt_tag \<Rightarrow> bool" where
  "readable (Nbt_String s) = readable_string s"
| "readable (Nbt_List items) = (\<forall>t \<in> set items. readable t)"
| "readable (Nbt_Compound es) = (\<forall>e \<in> set es. readable_string (fst e) \<and> readable (snd e))"
| "readable _ = True"

fun nesting :: "nbt_tag \<Rightarrow> nat" where
  "nesting (Nbt_List items) = Suc (fold max (map nesting items) 0)"
| "nesting (Nbt_Compound es) = Suc (fold max (map (\<lambda>e. nesting (snd e)) es) 0)"
| "nesting _ = 0"

fun tag_count :: "nbt_tag \<Rightarrow> nat" where
  "tag_count (Nbt_List items) = Suc (sum_list (map tag_count items))"
| "tag_count (Nbt_Compound es) = Suc (sum_list (map (\<lambda>e. tag_count (snd e)) es))"
| "tag_count _ = 1"

lemma fold_max_ge: "(a :: nat) \<le> fold max xs a \<and> (\<forall>x \<in> set xs. x \<le> fold max xs a)"
proof (induction xs arbitrary: a)
  case Nil
  then show ?case by simp
next
  case (Cons y ys)
  from Cons.IH [of "max y a"] show ?case by auto
qed

lemma nesting_child:
  "t \<in> set items \<Longrightarrow> nesting t < nesting (Nbt_List items)"
  "e \<in> set es \<Longrightarrow> nesting (snd e) < nesting (Nbt_Compound es)"
  using fold_max_ge [of 0 "map nesting items"] fold_max_ge [of 0 "map (\<lambda>e. nesting (snd e)) es"]
  by (auto simp: less_Suc_eq_le)

abbreviation at :: "bytes \<Rightarrow> nat \<Rightarrow> tag_reader" where
  "at bs n \<equiv> \<lparr>unread = bs, elements = n\<rparr>"

lemma rd_u8_at [simp]: "rd_u8 (at (b # bs) n) = Inr (b, at bs n)"
  by (simp add: rd_u8_def)

lemma rd_take_at [simp]: "rd_take (length xs) (at (xs @ ys) n) = Inr (xs, at ys n)"
  by (simp add: rd_take_def)

lemma rd_ints_at [simp]:
  "rd_i16 (at (be_of 2 w @ bs) n) = Inr (w, at bs n)"
  "rd_i32 (at (be_of 4 v @ bs) n) = Inr (v, at bs n)"
  "rd_i64 (at (be_of 8 u @ bs) n) = Inr (u, at bs n)"
  by (simp_all add: rd_i16_def rd_i32_def rd_i64_def rd_take_def)

lemma sint_of_nat_u16: "n < 32768 \<Longrightarrow> sint (of_nat n :: u16) = int n"
  by (simp add: sint_uint unat_of_nat uint_nat signed_take_bit_int_eq_self)

lemma rd_string_at:
  assumes "nbt_write_string s = Inr bs" "readable_string s"
  shows "rd_string (at (bs @ rest) n) = Inr (s, at rest n)"
proof -
  have s: "valid_string s" "length (encode_body s) < 32768"
    using assms(2) by (auto simp: readable_string_def)
  have bs: "bs = be_of 2 (of_nat (length (encode_body s)) :: u16) @ encode_body s"
    using assms(1) s(2)
    by (auto simp: nbt_write_string_def write_modified_utf8_def MAX_ENCODED_LEN_def)
  show ?thesis
    using s by (simp add: bs rd_string_def sint_of_nat_u16 decode_encode_body)
qed

lemma rd_len_at:
  assumes "nbt_write_len len = Inr h" "len \<le> length rest"
  shows "rd_bounded_len (at (h @ rest) n) = Inr (len, at rest n)"
  using assms by (auto simp: nbt_write_len_def rd_bounded_len_def sint_of_nat_u32 split: if_splits)

lemma rd_times_i32:
  "rd_times (length vs) rd_i32 (at (concat (map (be_of 4) vs) @ rest) n) = Inr (vs, at rest n)"
  by (induction vs) simp_all

lemma rd_times_i64:
  "rd_times (length vs) rd_i64 (at (concat (map (be_of 8) vs) @ rest) n) = Inr (vs, at rest n)"
  by (induction vs) simp_all

lemma length_concat_be: "length (concat (map (be_of k) vs)) = k * length vs"
  by (induction vs) simp_all

lemma rd_budget_at [simp]:
  "n < max_elements l \<Longrightarrow> rd_budget l (at bs n) = Inr ((), at bs (Suc n))"
  by (simp add: rd_budget_def)

lemma concat_results_Cons:
  "concat_results (r # rs) = Inr bs \<longleftrightarrow>
     (\<exists>b bs'. r = Inr b \<and> concat_results rs = Inr bs' \<and> bs = b @ bs')"
  by (auto simp: and_then_Inr)

lemma rd_times_at:
  assumes "\<And>t bs rest n. t \<in> set items \<Longrightarrow> write_payload t = Inr bs \<Longrightarrow> n + tag_count t \<le> m \<Longrightarrow>
      f (at (bs @ rest) n) = Inr (t, at rest (n + tag_count t))"
  shows "concat_results (map write_payload items) = Inr bs \<Longrightarrow>
     n + sum_list (map tag_count items) \<le> m \<Longrightarrow>
     rd_times (length items) f (at (bs @ rest) n)
       = Inr (items, at rest (n + sum_list (map tag_count items)))"
  using assms
proof (induction items arbitrary: bs n)
  case Nil
  then show ?case by simp
next
  case (Cons t ts)
  from Cons.prems(1) obtain b bs' where b: "write_payload t = Inr b"
      "concat_results (map write_payload ts) = Inr bs'" "bs = b @ bs'"
    by (simp only: list.map concat_results_Cons) blast
  have "f (at (b @ bs' @ rest) n) = Inr (t, at (bs' @ rest) (n + tag_count t))"
    using Cons.prems(2) by (intro Cons.prems(3)) (simp_all add: b)
  moreover have "rd_times (length ts) f (at (bs' @ rest) (n + tag_count t))
      = Inr (ts, at rest (n + tag_count t + sum_list (map tag_count ts)))"
    using Cons.prems by (intro Cons.IH b(2)) simp_all
  ultimately show ?case by (simp add: b(3) add.assoc)
qed

lemma write_string_pos: "nbt_write_string s = Inr bs \<Longrightarrow> 2 \<le> length bs"
  by (auto simp: nbt_write_string_def write_modified_utf8_def Let_def split: if_splits)

lemma write_payload_pos: "write_payload t = Inr bs \<Longrightarrow> 1 \<le> length bs"
  by (cases t)
     (auto simp: and_then_Inr nbt_write_len_def Let_def split: if_splits dest: write_string_pos)

lemma length_concat_results:
  "concat_results (map write_payload items) = Inr bs \<Longrightarrow> length items \<le> length bs"
proof (induction items arbitrary: bs)
  case (Cons t ts)
  then obtain b bs' where "write_payload t = Inr b" "concat_results (map write_payload ts) = Inr bs'"
      "bs = b @ bs'"
    by (simp only: list.map concat_results_Cons) blast
  with Cons.IH [of bs'] write_payload_pos [of t b] show ?case by simp
qed simp

definition write_entry :: "rstring \<times> nbt_tag \<Rightarrow> bytes server_result" where
  "write_entry e =
     and_then (nbt_write_string (fst e)) (\<lambda>n.
     and_then (write_payload (snd e)) (\<lambda>p. Inr (tag_id (snd e) # n @ p)))"

lemma write_payload_compound:
  "write_payload (Nbt_Compound es) =
     and_then (concat_results (map write_entry es)) (\<lambda>bs. Inr (bs @ [TAG_END]))"
  by (simp add: write_entry_def [abs_def])

lemma tag_id_range: "tag_id t \<noteq> TAG_END \<and> \<not> tag_id t > TAG_LONG_ARRAY"
  by (cases t) (simp_all add: TAG_END_def TAG_LONG_ARRAY_def)

lemma write_entry_Inr:
  "write_entry e = Inr bs \<longleftrightarrow> (\<exists>n p. nbt_write_string (fst e) = Inr n \<and> write_payload (snd e) = Inr p
      \<and> bs = tag_id (snd e) # n @ p)"
  by (auto simp: write_entry_def and_then_Inr)

lemma rd_entries_at:
  assumes "\<And>e bs rest n. e \<in> set es \<Longrightarrow> write_payload (snd e) = Inr bs \<Longrightarrow>
      n + tag_count (snd e) \<le> m \<Longrightarrow>
      f (tag_id (snd e)) (at (bs @ rest) n) = Inr (snd e, at rest (n + tag_count (snd e)))"
  shows "concat_results (map write_entry es) = Inr bs \<Longrightarrow>
     n + sum_list (map (\<lambda>e. tag_count (snd e)) es) \<le> m \<Longrightarrow>
     \<forall>e \<in> set es. readable_string (fst e) \<Longrightarrow> length es < fuel \<Longrightarrow>
     rd_entries fuel f (at (bs @ TAG_END # rest) n)
       = Inr (es, at rest (n + sum_list (map (\<lambda>e. tag_count (snd e)) es)))"
  using assms
proof (induction es arbitrary: bs n fuel)
  case Nil
  then obtain k where "fuel = Suc k" by (cases fuel) auto
  with Nil show ?case by simp
next
  case (Cons e es)
  obtain k where k: "fuel = Suc k" using Cons.prems(4) by (cases fuel) auto
  from Cons.prems(1) obtain b bs' where b: "write_entry e = Inr b"
      "concat_results (map write_entry es) = Inr bs'" "bs = b @ bs'"
    by (simp only: list.map concat_results_Cons) blast
  from b(1) obtain nm p where e: "nbt_write_string (fst e) = Inr nm" "write_payload (snd e) = Inr p"
      "b = tag_id (snd e) # nm @ p"
    by (auto simp: write_entry_Inr)
  have "f (tag_id (snd e)) (at (p @ bs' @ TAG_END # rest) n)
      = Inr (snd e, at (bs' @ TAG_END # rest) (n + tag_count (snd e)))"
    using Cons.prems(2) by (intro Cons.prems(5) e) simp_all
  moreover have "rd_entries k f (at (bs' @ TAG_END # rest) (n + tag_count (snd e)))
      = Inr (es, at rest (n + tag_count (snd e) + sum_list (map (\<lambda>e. tag_count (snd e)) es)))"
    using Cons.prems k by (intro Cons.IH b(2)) simp_all
  moreover have "rd_string (at (nm @ p @ bs' @ TAG_END # rest) n)
      = Inr (fst e, at (p @ bs' @ TAG_END # rest) n)"
    using Cons.prems(3) e(1) by (intro rd_string_at) simp_all
  ultimately show ?case
    using tag_id_range [of "snd e"] by (simp add: b(3) e(3) k add.assoc)
qed

lemma length_entries: "concat_results (map write_entry es) = Inr bs \<Longrightarrow> length es \<le> length bs"
proof (induction es arbitrary: bs)
  case (Cons e es)
  then obtain b bs' where "write_entry e = Inr b" "concat_results (map write_entry es) = Inr bs'"
      "bs = b @ bs'"
    by (simp only: list.map concat_results_Cons) blast
  with Cons.IH [of bs'] show ?case by (auto simp: write_entry_Inr)
qed simp

lemma tag_count_pos: "1 \<le> tag_count t"
  by (cases t) simp_all

lemma read_payload_leaf:
  assumes "n < max_elements l" "i \<noteq> 9" "i \<noteq> 10"
  shows "read_payload l i d (at bs n) = read_leaf i (at bs (Suc n))"
  using assms by (subst read_payload.simps) simp

lemma payload_round_trip:
  "readable t \<Longrightarrow> write_payload t = Inr bs \<Longrightarrow> d + nesting t \<le> Suc (max_depth l) \<Longrightarrow>
   n + tag_count t \<le> max_elements l \<Longrightarrow>
   read_payload l (tag_id t) d (at (bs @ rest) n) = Inr (t, at rest (n + tag_count t))"
proof (induction t arbitrary: bs d n rest)
  case (Nbt_List items)
  let ?eid = "list_element_id items"
  from Nbt_List.prems(2) obtain h body where w:
      "position (\<lambda>item. tag_id item \<noteq> ?eid) items = None"
      "nbt_write_len (length items) = Inr h" "concat_results (map write_payload items) = Inr body"
      "bs = ?eid # h @ body"
    by (auto simp: and_then_Inr Let_def split: if_splits)
  have ids: "tag_id t = ?eid" if "t \<in> set items" for t
    using w(1) that by (auto simp: position_None)
  have d: "d \<le> max_depth l" using Nbt_List.prems(3) by simp
  have len: "length items \<le> length (body @ rest)" using length_concat_results [OF w(3)] by simp
  have eid: "?eid = TAG_END \<longrightarrow> length items = 0" "\<not> ?eid > TAG_LONG_ARRAY"
    using tag_id_range by (auto simp: list_element_id_def TAG_END_def TAG_LONG_ARRAY_def split: list.splits)
  have items: "rd_times (length items) (read_payload l ?eid (Suc d)) (at (body @ rest) (Suc n))
      = Inr (items, at rest (Suc n + sum_list (map tag_count items)))"
  proof (rule rd_times_at [OF _ w(3), where m = "max_elements l"])
    fix t b r k
    assume t: "t \<in> set items" "write_payload t = Inr b" "k + tag_count t \<le> max_elements l"
    have "read_payload l (tag_id t) (Suc d) (at (b @ r) k) = Inr (t, at r (k + tag_count t))"
      using Nbt_List.prems(1,3) nesting_child(1) [OF t(1)] t by (intro Nbt_List.IH) auto
    then show "read_payload l ?eid (Suc d) (at (b @ r) k) = Inr (t, at r (k + tag_count t))"
      using ids [OF t(1)] by simp
  qed (use Nbt_List.prems(4) in simp)
  show ?case
    using Nbt_List.prems(4) d eid len items
    by (subst read_payload.simps) (simp add: w(4) rd_len_at [OF w(2) len] with_tag_def)
next
  case (Nbt_Compound es)
  from Nbt_Compound.prems(2) obtain body where w:
      "concat_results (map write_entry es) = Inr body" "bs = body @ [TAG_END]"
    by (auto simp: write_payload_compound and_then_Inr simp del: write_payload.simps)
  have d: "d \<le> max_depth l" using Nbt_Compound.prems(3) by simp
  have es: "rd_entries (Suc (length (body @ TAG_END # rest))) (\<lambda>j. read_payload l j (Suc d))
        (at (body @ TAG_END # rest) (Suc n))
      = Inr (es, at rest (Suc n + sum_list (map (\<lambda>e. tag_count (snd e)) es)))"
  proof (rule rd_entries_at [OF _ w(1), where m = "max_elements l"])
    fix e b r k
    assume e: "e \<in> set es" "write_payload (snd e) = Inr b" "k + tag_count (snd e) \<le> max_elements l"
    obtain nm t where nt: "e = (nm, t)" by (cases e)
    show "read_payload l (tag_id (snd e)) (Suc d) (at (b @ r) k) = Inr (snd e, at r (k + tag_count (snd e)))"
      using Nbt_Compound.prems(1,3) nesting_child(2) [OF e(1)] e
      by (intro Nbt_Compound.IH [of e]) (auto simp: nt)
  qed (use Nbt_Compound.prems(1,4) length_entries [OF w(1)] in auto)
  show ?case
    using Nbt_Compound.prems(4) d es
    by (subst read_payload.simps) (simp add: w(2) with_tag_def del: rd_entries.simps)
next
  case (Nbt_IntArray vs)
  from Nbt_IntArray.prems(2) obtain h where h: "nbt_write_len (length vs) = Inr h"
      "bs = h @ concat (map (be_of 4) vs)"
    by (auto simp: and_then_Inr)
  have len: "length (concat (map (be_of 4) vs) @ rest) = 4 * length vs + length rest"
    by (simp only: length_append length_concat_be)
  have "rd_bounded_len (at (h @ concat (map (be_of 4) vs) @ rest) (Suc n))
      = Inr (length vs, at (concat (map (be_of 4) vs) @ rest) (Suc n))"
    by (rule rd_len_at [OF h(1)]) (simp add: len del: length_append)
  moreover have "\<not> length (concat (map (be_of 4) vs) @ rest) div 4 < length vs"
    unfolding len by simp
  ultimately show ?case
    using Nbt_IntArray.prems(4)
    by (simp add: read_payload_leaf read_leaf_def with_tag_def rd_times_i32 h(2)
        del: length_append)
next
  case (Nbt_LongArray vs)
  from Nbt_LongArray.prems(2) obtain h where h: "nbt_write_len (length vs) = Inr h"
      "bs = h @ concat (map (be_of 8) vs)"
    by (auto simp: and_then_Inr)
  have len: "length (concat (map (be_of 8) vs) @ rest) = 8 * length vs + length rest"
    by (simp only: length_append length_concat_be)
  have "rd_bounded_len (at (h @ concat (map (be_of 8) vs) @ rest) (Suc n))
      = Inr (length vs, at (concat (map (be_of 8) vs) @ rest) (Suc n))"
    by (rule rd_len_at [OF h(1)]) (simp add: len del: length_append)
  moreover have "\<not> length (concat (map (be_of 8) vs) @ rest) div 8 < length vs"
    unfolding len by simp
  ultimately show ?case
    using Nbt_LongArray.prems(4)
    by (simp add: read_payload_leaf read_leaf_def with_tag_def rd_times_i64 h(2)
        del: length_append)
qed (auto simp: read_payload_leaf read_leaf_def with_tag_def and_then_Inr rd_len_at rd_string_at)

text \<open>
  C4. Whatever \<open>write_unnamed\<close> writes, \<open>read_network_with\<close> reads back, and stops where the
  tag ends: for a tag whose strings encode to less than 32768 bytes and whose nesting and
  number of tags are within the budgets, the reader returns that very tag, float bits and
  entry order included, and leaves exactly the bytes that follow it.
\<close>

theorem nbt_network_round_trip:
  assumes "nbt_write_unnamed t [] = (Inr (), out)" "readable t"
    and "nesting t \<le> Suc (max_depth l)" "tag_count t \<le> max_elements l"
    and "length (out @ rest) \<le> max_bytes l"
  shows "read_network_with (out @ rest) l = Inr (t, rest)"
proof -
  obtain bs where bs: "write_payload t = Inr bs" "out = tag_id t # bs"
    using assms(1) by (auto simp: nbt_write_unnamed_def split: sum.splits)
  have "read_payload l (tag_id t) 0 (at (bs @ rest) 0) = Inr (t, at rest (0 + tag_count t))"
    using assms bs(1) by (intro payload_round_trip) simp_all
  then show ?thesis
    using assms(5) bs(2) tag_id_range [of t]
    by (simp add: read_network_with_def new_reader_def reader_unnamed_def)
qed

definition sample_tag :: nbt_tag where
  "sample_tag = Nbt_Compound [([120], Nbt_Int 5), ([121], Nbt_List [Nbt_Byte 1, Nbt_Byte 2])]"

theorem nbt_network_round_trip_witness:
  "read_network_with ([10, 3, 0, 1, 120, 0, 0, 0, 5, 9, 0, 1, 121, 1, 0, 0, 0, 2, 1, 2, 0] @ [7])
     NETWORK_LIMITS = Inr (sample_tag, [7])"
proof (rule nbt_network_round_trip)
  show "nbt_write_unnamed sample_tag [] =
      (Inr (), [10, 3, 0, 1, 120, 0, 0, 0, 5, 9, 0, 1, 121, 1, 0, 0, 0, 2, 1, 2, 0])"
    by (simp add: sample_tag_def nbt_write_unnamed_def nbt_write_string_def write_modified_utf8_def
        encode_body_def encode_utf16_def utf16_char_def encode_unit_def MAX_ENCODED_LEN_def
        nbt_write_len_def list_element_id_def TAG_END_def be_of_2 be_of_4)
qed (simp_all add: sample_tag_def NETWORK_LIMITS_def readable_string_def encode_body_def
      encode_utf16_def utf16_char_def encode_unit_def valid_string_def valid_scalar_def)

text \<open>
  The same for the disk form, with the root name in front.
\<close>

lemma nbt_named_round_trip:
  assumes "nbt_write_named name t [] = (Inr (), out)" "readable t" "readable_string name"
    and "nesting t \<le> Suc (max_depth l)" "tag_count t \<le> max_elements l"
    and "length (out @ rest) \<le> max_bytes l"
  shows "read_named_tag (out @ rest) l = Inr ((name, t), rest)"
proof -
  obtain n bs where bs: "nbt_write_string name = Inr n" "write_payload t = Inr bs" "out = tag_id t # n @ bs"
    using assms(1) by (auto simp: nbt_write_named_def and_then_Inr and_then_def split: sum.splits)
  have "read_payload l (tag_id t) 0 (at (bs @ rest) 0) = Inr (t, at rest (0 + tag_count t))"
    using assms bs(2) by (intro payload_round_trip) simp_all
  then show ?thesis
    using assms(3,6) bs(3) tag_id_range [of t] rd_string_at [OF bs(1) assms(3), of "bs @ rest" 0]
    by (simp add: read_named_tag_def new_reader_def reader_named_def)
qed

lemma nbt_named_round_trip_witness:
  "read_named_tag ([3, 0, 1, 120, 0, 0, 0, 5] @ [7]) NETWORK_LIMITS = Inr (([120], Nbt_Int 5), [7])"
  by (rule nbt_named_round_trip)
     (simp_all add: nbt_write_named_def nbt_write_string_def write_modified_utf8_def
        encode_body_def encode_utf16_def utf16_char_def encode_unit_def MAX_ENCODED_LEN_def
        be_of_2 be_of_4 NETWORK_LIMITS_def readable_string_def valid_string_def valid_scalar_def)

lemma sint_of_nat_u16_neg:
  assumes "32768 \<le> n" "n < 65536"
  shows "sint (of_nat n :: u16) < 0"
proof (rule ccontr)
  assume neg: "\<not> sint (of_nat n :: u16) < 0"
  have "uint (of_nat n :: u16) = int n"
    using assms(2) by (simp add: uint_nat unat_of_nat take_bit_nat_eq_self)
  moreover have "uint (of_nat n :: u16) = sint (of_nat n :: u16)"
    using neg uint_sint [of "of_nat n :: u16"] sint_lt [of "of_nat n :: u16"]
    by (simp add: take_bit_int_eq_self)
  moreover have "sint (of_nat n :: u16) < 32768" using sint_lt [of "of_nat n :: u16"] by simp
  ultimately show False using assms(1) by linarith
qed

text \<open>
  A string whose encoded form has 32768 to 65535 bytes is written without an error,
  its length prefix being a \<open>u16\<close>, but no reader takes it back: \<open>Cursor::string\<close> reads
  the prefix as an \<open>i16\<close> and refuses it as negative.
\<close>

lemma nbt_long_string_refused:
  assumes "32768 \<le> length (encode_body s)" "length (encode_body s) \<le> 65535"
  shows "\<exists>out. nbt_write_unnamed (Nbt_String s) [] = (Inr (), out) \<and>
    (\<exists>e. read_network_with (out @ rest) l = Inl (Failed e))"
proof -
  let ?p = "be_of 2 (of_nat (length (encode_body s)) :: u16)"
  have w: "nbt_write_string s = Inr (?p @ encode_body s)"
    using assms by (simp add: nbt_write_string_def write_modified_utf8_def MAX_ENCODED_LEN_def)
  have "sint (of_nat (length (encode_body s)) :: u16) < 0"
    using assms by (intro sint_of_nat_u16_neg) simp_all
  then have "rd_string (at (?p @ encode_body s @ rest) n) = Inl (Failed Protocol)" for n
    by (simp add: rd_string_def)
  then have "\<exists>e. read_payload l 8 0 (at ((?p @ encode_body s) @ rest) 0) = Inl (Failed e)"
    by (subst read_payload.simps) (simp add: rd_budget_def read_leaf_def with_tag_def)
  then obtain e where "read_payload l 8 0 (at ((?p @ encode_body s) @ rest) 0) = Inl (Failed e)" ..
  then show ?thesis
    by (simp add: nbt_write_unnamed_def w read_network_with_def new_reader_def reader_unnamed_def
        TAG_END_def)
qed

lemma encode_body_ascii: "encode_body (replicate n 97) = replicate n 97"
  by (induction n) (simp_all add: encode_body_def encode_utf16_def utf16_char_def encode_unit_def)

lemma nbt_long_string_refused_witness:
  "\<exists>out. nbt_write_unnamed (Nbt_String (replicate 32768 97)) [] = (Inr (), out) \<and>
    (\<exists>e. read_network_with (out @ []) NETWORK_LIMITS = Inl (Failed e))"
proof -
  have "length (encode_body (replicate 32768 97)) = 32768"
    unfolding encode_body_ascii by (rule length_replicate)
  then show ?thesis by (intro nbt_long_string_refused) simp_all
qed

end
