(* ===== verification/NbtEq.thy ===== *)
theory NbtEq
  imports Nbt
begin

text \<open>
  The derived \<open>PartialEq\<close> of \<open>NbtTag\<close> (\<open>crates/nbt/src/value.rs\<close>). Two float tags are
  equal as IEEE numbers: a NaN is not equal to itself and the two zeros are equal. The
  relation is therefore symmetric and transitive, and reflexive only on tags without a
  NaN; every merge of item stacks rests on it.
\<close>

definition f32_is_nan :: "u32 \<Rightarrow> bool" where
  "f32_is_nan b = (b AND 0x7FFFFFFF > 0x7F800000)"

definition f64_is_nan :: "u64 \<Rightarrow> bool" where
  "f64_is_nan b = (b AND 0x7FFFFFFFFFFFFFFF > 0x7FF0000000000000)"

definition f32_eq :: "u32 \<Rightarrow> u32 \<Rightarrow> bool" where
  "f32_eq a b \<longleftrightarrow> \<not> f32_is_nan a \<and> \<not> f32_is_nan b
     \<and> (a = b \<or> (a AND 0x7FFFFFFF = 0 \<and> b AND 0x7FFFFFFF = 0))"

definition f64_eq :: "u64 \<Rightarrow> u64 \<Rightarrow> bool" where
  "f64_eq a b \<longleftrightarrow> \<not> f64_is_nan a \<and> \<not> f64_is_nan b
     \<and> (a = b \<or> (a AND 0x7FFFFFFFFFFFFFFF = 0 \<and> b AND 0x7FFFFFFFFFFFFFFF = 0))"

text \<open>Each element of a list brings the comparison of its own value.\<close>

primrec nbt_eq :: "nbt_tag \<Rightarrow> nbt_tag \<Rightarrow> bool" where
  "nbt_eq (Nbt_Byte a) = (\<lambda>t. case t of Nbt_Byte b \<Rightarrow> a = b | _ \<Rightarrow> False)"
| "nbt_eq (Nbt_Short a) = (\<lambda>t. case t of Nbt_Short b \<Rightarrow> a = b | _ \<Rightarrow> False)"
| "nbt_eq (Nbt_Int a) = (\<lambda>t. case t of Nbt_Int b \<Rightarrow> a = b | _ \<Rightarrow> False)"
| "nbt_eq (Nbt_Long a) = (\<lambda>t. case t of Nbt_Long b \<Rightarrow> a = b | _ \<Rightarrow> False)"
| "nbt_eq (Nbt_Float a) = (\<lambda>t. case t of Nbt_Float b \<Rightarrow> f32_eq a b | _ \<Rightarrow> False)"
| "nbt_eq (Nbt_Double a) = (\<lambda>t. case t of Nbt_Double b \<Rightarrow> f64_eq a b | _ \<Rightarrow> False)"
| "nbt_eq (Nbt_ByteArray a) = (\<lambda>t. case t of Nbt_ByteArray b \<Rightarrow> a = b | _ \<Rightarrow> False)"
| "nbt_eq (Nbt_String a) = (\<lambda>t. case t of Nbt_String b \<Rightarrow> a = b | _ \<Rightarrow> False)"
| "nbt_eq (Nbt_List xs) = (\<lambda>t. case t of
       Nbt_List ys \<Rightarrow> list_all2 (\<lambda>eq y. eq y) (map nbt_eq xs) ys | _ \<Rightarrow> False)"
| "nbt_eq (Nbt_Compound es) = (\<lambda>t. case t of
       Nbt_Compound fs \<Rightarrow> list_all2 (\<lambda>e f. fst e = fst f \<and> snd e (snd f)) (map (map_prod id nbt_eq) es) fs
     | _ \<Rightarrow> False)"
| "nbt_eq (Nbt_IntArray a) = (\<lambda>t. case t of Nbt_IntArray b \<Rightarrow> a = b | _ \<Rightarrow> False)"
| "nbt_eq (Nbt_LongArray a) = (\<lambda>t. case t of Nbt_LongArray b \<Rightarrow> a = b | _ \<Rightarrow> False)"

lemma nbt_eq_containers [simp]:
  "nbt_eq (Nbt_List xs) (Nbt_List ys) = list_all2 nbt_eq xs ys"
  "nbt_eq (Nbt_Compound es) (Nbt_Compound fs) =
     list_all2 (\<lambda>e f. fst e = fst f \<and> nbt_eq (snd e) (snd f)) es fs"
  by (simp_all add: list_all2_map1 map_prod_def split_beta)

declare nbt_eq.simps(9,10) [simp del]

lemma nbt_eq_other:
  "nbt_eq (Nbt_List xs) t \<Longrightarrow> \<exists>ys. t = Nbt_List ys"
  "nbt_eq (Nbt_Compound es) t \<Longrightarrow> \<exists>fs. t = Nbt_Compound fs"
  by (cases t; simp add: nbt_eq.simps)+

lemma f32_eq_sym: "f32_eq a b \<Longrightarrow> f32_eq b a" by (auto simp: f32_eq_def)
lemma f64_eq_sym: "f64_eq a b \<Longrightarrow> f64_eq b a" by (auto simp: f64_eq_def)
lemma f32_eq_trans: "f32_eq a b \<Longrightarrow> f32_eq b c \<Longrightarrow> f32_eq a c" by (auto simp: f32_eq_def)
lemma f64_eq_trans: "f64_eq a b \<Longrightarrow> f64_eq b c \<Longrightarrow> f64_eq a c" by (auto simp: f64_eq_def)

text \<open>Lists compare with their elements' equality.\<close>

lemma list_all2_sym_on:
  "(\<And>x y. x \<in> set xs \<Longrightarrow> R x y \<Longrightarrow> S y x) \<Longrightarrow> list_all2 R xs ys \<Longrightarrow> list_all2 S ys xs"
  by (auto simp: list_all2_conv_all_nth)

lemma list_all2_trans_on:
  "(\<And>x y z. x \<in> set xs \<Longrightarrow> R x y \<Longrightarrow> S y z \<Longrightarrow> T x z) \<Longrightarrow> list_all2 R xs ys \<Longrightarrow> list_all2 S ys zs
     \<Longrightarrow> list_all2 T xs zs"
  by (auto simp: list_all2_conv_all_nth)

lemma snd_in_snds: "snd e \<in> Basic_BNFs.snds e"
  by (cases e) simp

lemma nbt_eq_sym: "nbt_eq a b \<Longrightarrow> nbt_eq b a"
proof (induction a arbitrary: b)
  case (Nbt_List xs)
  obtain ys where b: "b = Nbt_List ys" using nbt_eq_other(1) [OF Nbt_List.prems] by blast
  with Nbt_List.prems have "list_all2 nbt_eq xs ys" by simp
  then have "list_all2 nbt_eq ys xs" by (rule list_all2_sym_on [rotated]) (rule Nbt_List.IH)
  then show ?case by (simp add: b)
next
  case (Nbt_Compound es)
  have step: "fst f = fst e \<and> nbt_eq (snd f) (snd e)"
    if "e \<in> set es" "fst e = fst f \<and> nbt_eq (snd e) (snd f)" for e f
    using that Nbt_Compound.IH [of e "snd e" "snd f"] snd_in_snds [of e] by auto
  let ?R = "\<lambda>e f. fst e = fst f \<and> nbt_eq (snd e) (snd f)"
  obtain fs where b: "b = Nbt_Compound fs" using nbt_eq_other(2) [OF Nbt_Compound.prems] by blast
  with Nbt_Compound.prems have "list_all2 ?R es fs" by simp
  then have "list_all2 ?R fs es" by (rule list_all2_sym_on [rotated]) (rule step)
  then show ?case by (simp add: b)
next
  case (Nbt_Float x)
  then show ?case by (cases b) (auto intro: f32_eq_sym)
next
  case (Nbt_Double x)
  then show ?case by (cases b) (auto intro: f64_eq_sym)
qed (auto split: nbt_tag.splits)

lemma nbt_eq_trans: "nbt_eq a b \<Longrightarrow> nbt_eq b c \<Longrightarrow> nbt_eq a c"
proof (induction a arbitrary: b c)
  case (Nbt_List xs)
  obtain ys zs where b: "b = Nbt_List ys" "c = Nbt_List zs"
    using nbt_eq_other(1) Nbt_List.prems by blast
  with Nbt_List.prems have "list_all2 nbt_eq xs ys" "list_all2 nbt_eq ys zs" by simp_all
  then have "list_all2 nbt_eq xs zs" by (rule list_all2_trans_on [rotated]) (rule Nbt_List.IH)
  then show ?case by (simp add: b)
next
  case (Nbt_Compound es)
  have step: "fst e = fst g \<and> nbt_eq (snd e) (snd g)"
    if "e \<in> set es" "fst e = fst f \<and> nbt_eq (snd e) (snd f)"
      "fst f = fst g \<and> nbt_eq (snd f) (snd g)" for e f g
    using that Nbt_Compound.IH [of e "snd e" "snd f" "snd g"] snd_in_snds [of e] by auto
  let ?R = "\<lambda>e f. fst e = fst f \<and> nbt_eq (snd e) (snd f)"
  obtain fs gs where b: "b = Nbt_Compound fs" "c = Nbt_Compound gs"
    using nbt_eq_other(2) Nbt_Compound.prems by blast
  with Nbt_Compound.prems have "list_all2 ?R es fs" "list_all2 ?R fs gs" by simp_all
  then have "list_all2 ?R es gs" by (rule list_all2_trans_on [rotated]) (rule step)
  then show ?case by (simp add: b)
next
  case (Nbt_Float x)
  then show ?case by (cases b; cases c) (auto intro: f32_eq_trans)
next
  case (Nbt_Double x)
  then show ?case by (cases b; cases c) (auto intro: f64_eq_trans)
qed (auto split: nbt_tag.splits)

interpretation nbt: partial_equiv nbt_eq
  by unfold_locales (fact nbt_eq_sym, fact nbt_eq_trans)

text \<open>A tag that holds a NaN is not equal to itself.\<close>

lemma nbt_eq_nan: "\<not> nbt_eq (Nbt_Float 0x7FC00000) (Nbt_Float 0x7FC00000)"
  by (simp add: f32_eq_def f32_is_nan_def)

end
