(* ===== verification/Components.thy ===== *)
theory Components
  imports NbtEq
begin

text \<open>
  \<open>crates/entity/src/components.rs\<close>: the data components of an item stack, as an ordered
  patch. Floats are the words of their bits (\<open>f32\<close> literals are written as those words);
  an \<open>i32\<close> is an integer, since the file does no arithmetic on it.
\<close>

definition TYPE_MAX_DAMAGE :: int where "TYPE_MAX_DAMAGE = 2"
definition TYPE_DAMAGE :: int where "TYPE_DAMAGE = 3"
definition TYPE_CUSTOM_NAME :: int where "TYPE_CUSTOM_NAME = 6"
definition TYPE_ENCHANTMENTS :: int where "TYPE_ENCHANTMENTS = 13"
definition TYPE_REPAIR_COST :: int where "TYPE_REPAIR_COST = 19"
definition TYPE_FOOD :: int where "TYPE_FOOD = 23"
definition TYPE_CONSUMABLE :: int where "TYPE_CONSUMABLE = 24"
definition TYPE_ATTACK_RANGE :: int where "TYPE_ATTACK_RANGE = 30"
definition TYPE_STORED_ENCHANTMENTS :: int where "TYPE_STORED_ENCHANTMENTS = 42"

lemmas type_ids = TYPE_MAX_DAMAGE_def TYPE_DAMAGE_def TYPE_CUSTOM_NAME_def TYPE_ENCHANTMENTS_def
  TYPE_REPAIR_COST_def TYPE_FOOD_def TYPE_CONSUMABLE_def TYPE_ATTACK_RANGE_def
  TYPE_STORED_ENCHANTMENTS_def

record attack_range =
  min_reach :: u32
  max_reach :: u32
  min_creative_reach :: u32
  max_creative_reach :: u32
  hitbox_margin :: u32
  mob_factor :: u32

definition attack_values :: "attack_range \<Rightarrow> u32 list" where
  "attack_values a = [min_reach a, max_reach a, min_creative_reach a, max_creative_reach a,
     hitbox_margin a, mob_factor a]"

definition attack_from_values :: "u32 list \<Rightarrow> attack_range" where
  "attack_from_values vs = \<lparr>min_reach = vs ! 0, max_reach = vs ! 1, min_creative_reach = vs ! 2,
     max_creative_reach = vs ! 3, hitbox_margin = vs ! 4, mob_factor = vs ! 5\<rparr>"

definition attack_default :: attack_range where
  "attack_default = \<lparr>min_reach = 0, max_reach = 0x40400000, min_creative_reach = 0,
     max_creative_reach = 0x40A00000, hitbox_margin = 0x3E99999A, mob_factor = 0x3F800000\<rparr>"

text \<open>\<open>values().iter().zip(..).all(..)\<close>, on bits.\<close>

definition attack_eq :: "attack_range \<Rightarrow> attack_range \<Rightarrow> bool" where
  "attack_eq a b = list_all (\<lambda>(x, y). x = y) (zip (attack_values a) (attack_values b))"

record food =
  nutrition :: int
  saturation :: u32
  can_always_eat :: bool

definition food_eq :: "food \<Rightarrow> food \<Rightarrow> bool" where
  "food_eq a b \<longleftrightarrow> nutrition a = nutrition b \<and> saturation a = saturation b
     \<and> can_always_eat a = can_always_eat b"

datatype consume_animation =
    Anim_None | Anim_Eat | Anim_Drink | Anim_Block | Anim_Bow | Anim_Spear | Anim_Crossbow
  | Anim_Spyglass | Anim_Horn | Anim_Brush

fun animation_id :: "consume_animation \<Rightarrow> int" where
  "animation_id Anim_None = 0"
| "animation_id Anim_Eat = 1"
| "animation_id Anim_Drink = 2"
| "animation_id Anim_Block = 3"
| "animation_id Anim_Bow = 4"
| "animation_id Anim_Spear = 5"
| "animation_id Anim_Crossbow = 6"
| "animation_id Anim_Spyglass = 7"
| "animation_id Anim_Horn = 8"
| "animation_id Anim_Brush = 9"

definition animation_from_id :: "int \<Rightarrow> consume_animation option" where
  "animation_from_id i =
     (if i = 0 then Some Anim_None
      else if i = 1 then Some Anim_Eat
      else if i = 2 then Some Anim_Drink
      else if i = 3 then Some Anim_Block
      else if i = 4 then Some Anim_Bow
      else if i = 5 then Some Anim_Spear
      else if i = 6 then Some Anim_Crossbow
      else if i = 7 then Some Anim_Spyglass
      else if i = 8 then Some Anim_Horn
      else if i = 9 then Some Anim_Brush
      else None)"

fun animation_name :: "consume_animation \<Rightarrow> rstring" where
  "animation_name Anim_None = lit ''none''"
| "animation_name Anim_Eat = lit ''eat''"
| "animation_name Anim_Drink = lit ''drink''"
| "animation_name Anim_Block = lit ''block''"
| "animation_name Anim_Bow = lit ''bow''"
| "animation_name Anim_Spear = lit ''spear''"
| "animation_name Anim_Crossbow = lit ''crossbow''"
| "animation_name Anim_Spyglass = lit ''spyglass''"
| "animation_name Anim_Horn = lit ''horn''"
| "animation_name Anim_Brush = lit ''brush''"

definition animation_from_name :: "rstring \<Rightarrow> consume_animation option" where
  "animation_from_name n =
     (if n = lit ''none'' then Some Anim_None
      else if n = lit ''eat'' then Some Anim_Eat
      else if n = lit ''drink'' then Some Anim_Drink
      else if n = lit ''block'' then Some Anim_Block
      else if n = lit ''bow'' then Some Anim_Bow
      else if n = lit ''spear'' then Some Anim_Spear
      else if n = lit ''crossbow'' then Some Anim_Crossbow
      else if n = lit ''spyglass'' then Some Anim_Spyglass
      else if n = lit ''horn'' then Some Anim_Horn
      else if n = lit ''brush'' then Some Anim_Brush
      else None)"

datatype sound_ref = Sound_Id int | Sound_Named rstring "u32 option"

fun sound_eq :: "sound_ref \<Rightarrow> sound_ref \<Rightarrow> bool" where
  "sound_eq (Sound_Id a) (Sound_Id b) = (a = b)"
| "sound_eq (Sound_Named n r) (Sound_Named n' r') = (n = n' \<and> r = r')"
| "sound_eq _ _ = False"

record consumable =
  consume_seconds :: u32
  animation :: consume_animation
  sound :: sound_ref
  consume_particles :: bool
  on_consume_effects :: "nbt_tag list"

definition consumable_default :: consumable where
  "consumable_default = \<lparr>consume_seconds = 0x3FCCCCCD, animation = Anim_Eat,
     sound = Sound_Named (lit ''minecraft:entity.generic.eat'') None,
     consume_particles = True, on_consume_effects = []\<rparr>"

definition consumable_eq :: "consumable \<Rightarrow> consumable \<Rightarrow> bool" where
  "consumable_eq a b \<longleftrightarrow> consume_seconds a = consume_seconds b \<and> animation a = animation b
     \<and> sound_eq (sound a) (sound b) \<and> consume_particles a = consume_particles b
     \<and> list_all2 nbt_eq (on_consume_effects a) (on_consume_effects b)"

section \<open>Default food components\<close>

text \<open>The match of \<open>food_defaults_of\<close> as the list of its arms.\<close>

definition food_arms :: "(rstring \<times> int \<times> u32 \<times> bool \<times> u32) list" where
  "food_arms =
  [(lit ''minecraft:apple'', (4, 0x4019999A, False, 0x3FCCCCCD)),
   (lit ''minecraft:baked_potato'', (5, 0x40C00000, False, 0x3FCCCCCD)),
   (lit ''minecraft:beef'', (3, 0x3FE66666, False, 0x3FCCCCCD)),
   (lit ''minecraft:beetroot'', (1, 0x3F99999A, False, 0x3FCCCCCD)),
   (lit ''minecraft:beetroot_soup'', (6, 0x40E66666, False, 0x3FCCCCCD)),
   (lit ''minecraft:bread'', (5, 0x40C00000, False, 0x3FCCCCCD)),
   (lit ''minecraft:carrot'', (3, 0x40666666, False, 0x3FCCCCCD)),
   (lit ''minecraft:chicken'', (2, 0x3F99999A, False, 0x3FCCCCCD)),
   (lit ''minecraft:chorus_fruit'', (4, 0x4019999A, True, 0x3FCCCCCD)),
   (lit ''minecraft:cod'', (2, 0x3ECCCCCD, False, 0x3FCCCCCD)),
   (lit ''minecraft:cooked_beef'', (8, 0x414CCCCD, False, 0x3FCCCCCD)),
   (lit ''minecraft:cooked_chicken'', (6, 0x40E66666, False, 0x3FCCCCCD)),
   (lit ''minecraft:cooked_cod'', (5, 0x40C00000, False, 0x3FCCCCCD)),
   (lit ''minecraft:cooked_mutton'', (6, 0x4119999A, False, 0x3FCCCCCD)),
   (lit ''minecraft:cooked_porkchop'', (8, 0x414CCCCD, False, 0x3FCCCCCD)),
   (lit ''minecraft:cooked_rabbit'', (5, 0x40C00000, False, 0x3FCCCCCD)),
   (lit ''minecraft:cooked_salmon'', (6, 0x4119999A, False, 0x3FCCCCCD)),
   (lit ''minecraft:cookie'', (2, 0x3ECCCCCD, False, 0x3FCCCCCD)),
   (lit ''minecraft:dried_kelp'', (1, 0x3F19999A, False, 0x3F4CCCCD)),
   (lit ''minecraft:enchanted_golden_apple'', (4, 0x4119999A, True, 0x3FCCCCCD)),
   (lit ''minecraft:glow_berries'', (2, 0x3ECCCCCD, False, 0x3FCCCCCD)),
   (lit ''minecraft:golden_apple'', (4, 0x4119999A, True, 0x3FCCCCCD)),
   (lit ''minecraft:golden_carrot'', (6, 0x41666666, False, 0x3FCCCCCD)),
   (lit ''minecraft:melon_slice'', (2, 0x3F99999A, False, 0x3FCCCCCD)),
   (lit ''minecraft:mushroom_stew'', (6, 0x40E66666, False, 0x3FCCCCCD)),
   (lit ''minecraft:mutton'', (2, 0x3F99999A, False, 0x3FCCCCCD)),
   (lit ''minecraft:poisonous_potato'', (2, 0x3F99999A, False, 0x3FCCCCCD)),
   (lit ''minecraft:porkchop'', (3, 0x3FE66666, False, 0x3FCCCCCD)),
   (lit ''minecraft:potato'', (1, 0x3F19999A, False, 0x3FCCCCCD)),
   (lit ''minecraft:pufferfish'', (1, 0x3E4CCCCD, False, 0x3FCCCCCD)),
   (lit ''minecraft:pumpkin_pie'', (8, 0x4099999A, False, 0x3FCCCCCD)),
   (lit ''minecraft:rabbit'', (3, 0x3FE66666, False, 0x3FCCCCCD)),
   (lit ''minecraft:rabbit_stew'', (10, 0x41400000, False, 0x3FCCCCCD)),
   (lit ''minecraft:rotten_flesh'', (4, 0x3F4CCCCD, False, 0x3FCCCCCD)),
   (lit ''minecraft:salmon'', (2, 0x3ECCCCCD, False, 0x3FCCCCCD)),
   (lit ''minecraft:spider_eye'', (2, 0x404CCCCD, False, 0x3FCCCCCD)),
   (lit ''minecraft:suspicious_stew'', (6, 0x40E66666, True, 0x3FCCCCCD)),
   (lit ''minecraft:sweet_berries'', (2, 0x3ECCCCCD, False, 0x3FCCCCCD)),
   (lit ''minecraft:tropical_fish'', (1, 0x3E4CCCCD, False, 0x3FCCCCCD))]"

definition food_defaults_of :: "rstring \<Rightarrow> (food \<times> consumable) option" where
  "food_defaults_of item_name =
     (case map_of food_arms item_name of
        None \<Rightarrow> None
      | Some (n, s, always, seconds) \<Rightarrow>
          Some (\<lparr>nutrition = n, saturation = s, can_always_eat = always\<rparr>,
            \<lparr>consume_seconds = seconds, animation = Anim_Eat,
             sound = Sound_Named (lit ''minecraft:entity.generic.eat'') None,
             consume_particles = True, on_consume_effects = []\<rparr>))"

section \<open>Components and patches\<close>

datatype data_component =
    Damage int
  | MaxDamage int
  | Enchantments "(int \<times> int) list"
  | StoredEnchantments "(int \<times> int) list"
  | CustomName rstring
  | RepairCost int
  | Attack_Range attack_range
  | Food food
  | Consumable consumable
  | Unknown (key: rstring) (unknown_type_id: int) (wire: bytes) (nbt: "nbt_tag option")

fun comp_eq :: "data_component \<Rightarrow> data_component \<Rightarrow> bool" where
  "comp_eq (Damage a) c = (case c of Damage b \<Rightarrow> a = b | _ \<Rightarrow> False)"
| "comp_eq (MaxDamage a) c = (case c of MaxDamage b \<Rightarrow> a = b | _ \<Rightarrow> False)"
| "comp_eq (RepairCost a) c = (case c of RepairCost b \<Rightarrow> a = b | _ \<Rightarrow> False)"
| "comp_eq (Enchantments a) c = (case c of Enchantments b \<Rightarrow> a = b | _ \<Rightarrow> False)"
| "comp_eq (StoredEnchantments a) c = (case c of StoredEnchantments b \<Rightarrow> a = b | _ \<Rightarrow> False)"
| "comp_eq (CustomName a) c = (case c of CustomName b \<Rightarrow> a = b | _ \<Rightarrow> False)"
| "comp_eq (Attack_Range a) c = (case c of Attack_Range b \<Rightarrow> attack_eq a b | _ \<Rightarrow> False)"
| "comp_eq (Food a) c = (case c of Food b \<Rightarrow> food_eq a b | _ \<Rightarrow> False)"
| "comp_eq (Consumable a) c = (case c of Consumable b \<Rightarrow> consumable_eq a b | _ \<Rightarrow> False)"
| "comp_eq (Unknown k i w n) c =
     (case c of Unknown k' i' w' n' \<Rightarrow> k = k' \<and> i = i' \<and> w = w' \<and> rel_option nbt_eq n n'
      | _ \<Rightarrow> False)"

fun type_id :: "data_component \<Rightarrow> int" where
  "type_id (Damage _) = TYPE_DAMAGE"
| "type_id (MaxDamage _) = TYPE_MAX_DAMAGE"
| "type_id (Enchantments _) = TYPE_ENCHANTMENTS"
| "type_id (StoredEnchantments _) = TYPE_STORED_ENCHANTMENTS"
| "type_id (CustomName _) = TYPE_CUSTOM_NAME"
| "type_id (RepairCost _) = TYPE_REPAIR_COST"
| "type_id (Attack_Range _) = TYPE_ATTACK_RANGE"
| "type_id (Food _) = TYPE_FOOD"
| "type_id (Consumable _) = TYPE_CONSUMABLE"
| "type_id (Unknown _ i _ _) = i"

fun comp_name :: "data_component \<Rightarrow> rstring" where
  "comp_name (Damage _) = lit ''minecraft:damage''"
| "comp_name (MaxDamage _) = lit ''minecraft:max_damage''"
| "comp_name (Enchantments _) = lit ''minecraft:enchantments''"
| "comp_name (StoredEnchantments _) = lit ''minecraft:stored_enchantments''"
| "comp_name (CustomName _) = lit ''minecraft:custom_name''"
| "comp_name (RepairCost _) = lit ''minecraft:repair_cost''"
| "comp_name (Attack_Range _) = lit ''minecraft:attack_range''"
| "comp_name (Food _) = lit ''minecraft:food''"
| "comp_name (Consumable _) = lit ''minecraft:consumable''"
| "comp_name (Unknown k _ _ _) = k"

definition is_known_type :: "int \<Rightarrow> bool" where
  "is_known_type i = (i \<in> {TYPE_MAX_DAMAGE, TYPE_DAMAGE, TYPE_CUSTOM_NAME, TYPE_ENCHANTMENTS,
     TYPE_REPAIR_COST, TYPE_FOOD, TYPE_CONSUMABLE, TYPE_ATTACK_RANGE, TYPE_STORED_ENCHANTMENTS})"

text \<open>\<open>ItemComponents\<close> is its list of entries.\<close>

type_synonym item_components = "data_component list"

definition EMPTY_COMPONENTS :: item_components where "EMPTY_COMPONENTS = []"

definition comps_eq :: "item_components \<Rightarrow> item_components \<Rightarrow> bool" where
  "comps_eq = list_all2 comp_eq"

definition comp_get :: "item_components \<Rightarrow> int \<Rightarrow> data_component option" where
  "comp_get cs i = find (\<lambda>c. type_id c = i) cs"

definition comp_set :: "data_component \<Rightarrow> item_components \<Rightarrow> item_components" where
  "comp_set c cs =
     (case position (\<lambda>d. type_id d = type_id c) cs of
        Some slot \<Rightarrow> cs[slot := c]
      | None \<Rightarrow> cs @ [c])"

definition comp_remove :: "int \<Rightarrow> item_components \<Rightarrow> nat \<times> item_components" where
  "comp_remove i cs =
     (let cs' = filter (\<lambda>c. type_id c \<noteq> i) cs in (length cs - length cs', cs'))"

definition damage_of :: "item_components \<Rightarrow> int option" where
  "damage_of cs = (case comp_get cs TYPE_DAMAGE of Some (Damage v) \<Rightarrow> Some v | _ \<Rightarrow> None)"

definition max_damage_of :: "item_components \<Rightarrow> int option" where
  "max_damage_of cs = (case comp_get cs TYPE_MAX_DAMAGE of Some (MaxDamage v) \<Rightarrow> Some v | _ \<Rightarrow> None)"

definition custom_name_of :: "item_components \<Rightarrow> rstring option" where
  "custom_name_of cs = (case comp_get cs TYPE_CUSTOM_NAME of Some (CustomName v) \<Rightarrow> Some v | _ \<Rightarrow> None)"

definition repair_cost_of :: "item_components \<Rightarrow> int option" where
  "repair_cost_of cs = (case comp_get cs TYPE_REPAIR_COST of Some (RepairCost v) \<Rightarrow> Some v | _ \<Rightarrow> None)"

definition enchantments_of :: "item_components \<Rightarrow> (int \<times> int) list option" where
  "enchantments_of cs =
     (case comp_get cs TYPE_ENCHANTMENTS of Some (Enchantments v) \<Rightarrow> Some v | _ \<Rightarrow> None)"

definition stored_enchantments_of :: "item_components \<Rightarrow> (int \<times> int) list option" where
  "stored_enchantments_of cs =
     (case comp_get cs TYPE_STORED_ENCHANTMENTS of Some (StoredEnchantments v) \<Rightarrow> Some v | _ \<Rightarrow> None)"

definition attack_range_of :: "item_components \<Rightarrow> attack_range option" where
  "attack_range_of cs =
     (case comp_get cs TYPE_ATTACK_RANGE of Some (Attack_Range v) \<Rightarrow> Some v | _ \<Rightarrow> None)"

definition food_of :: "item_components \<Rightarrow> food option" where
  "food_of cs = (case comp_get cs TYPE_FOOD of Some (Food v) \<Rightarrow> Some v | _ \<Rightarrow> None)"

definition consumable_of :: "item_components \<Rightarrow> consumable option" where
  "consumable_of cs = (case comp_get cs TYPE_CONSUMABLE of Some (Consumable v) \<Rightarrow> Some v | _ \<Rightarrow> None)"

definition unknowns :: "item_components \<Rightarrow> item_components" where
  "unknowns cs = filter is_Unknown cs"

section \<open>Laws\<close>

lemma animation_round_trip:
  "animation_from_id (animation_id a) = Some a"
  "animation_from_name (animation_name a) = Some a"
  by (cases a; simp add: animation_from_id_def animation_from_name_def lit_def)+

lemma attack_eq_iff: "attack_eq a b \<longleftrightarrow> a = b"
  by (cases a; cases b) (auto simp: attack_eq_def attack_values_def)

lemma attack_values_round_trip: "attack_from_values (attack_values a) = a"
  by (simp add: attack_from_values_def attack_values_def)

lemma food_eq_iff: "food_eq a b \<longleftrightarrow> a = b"
  by (cases a; cases b) (auto simp: food_eq_def)

lemma sound_eq_iff: "sound_eq a b \<longleftrightarrow> a = b"
  by (cases a; cases b) auto

lemma consumable_eq_sym: "consumable_eq a b \<Longrightarrow> consumable_eq b a"
  by (auto simp: consumable_eq_def sound_eq_iff intro: nbt.list_sym)

lemma consumable_eq_trans: "consumable_eq a b \<Longrightarrow> consumable_eq b c \<Longrightarrow> consumable_eq a c"
  by (auto simp: consumable_eq_def sound_eq_iff intro: nbt.list_trans)

lemma comp_eq_sym: "comp_eq a b \<Longrightarrow> comp_eq b a"
  by (cases a; cases b)
     (auto simp: attack_eq_iff food_eq_iff intro: consumable_eq_sym nbt.option_sym)

lemma comp_eq_trans: "comp_eq a b \<Longrightarrow> comp_eq b c \<Longrightarrow> comp_eq a c"
  by (cases a; cases b; simp split: data_component.splits)
     (auto simp: attack_eq_iff food_eq_iff intro: consumable_eq_trans nbt.option_trans)

interpretation comp: partial_equiv comp_eq
  by unfold_locales (fact comp_eq_sym, fact comp_eq_trans)

interpretation comps: partial_equiv comps_eq
  unfolding comps_eq_def by unfold_locales (fact comp.list_sym, fact comp.list_trans)

lemma comp_get_Some: "comp_get cs i = Some c \<Longrightarrow> type_id c = i"
  by (induction cs) (auto simp: comp_get_def split: if_splits)

lemma comp_get_set:
  "comp_get (comp_set c cs) i = (if i = type_id c then Some c else comp_get cs i)"
proof (induction cs)
  case Nil
  then show ?case by (simp add: comp_get_def comp_set_def)
next
  case (Cons d ds)
  then show ?case
    by (cases "position (\<lambda>d. type_id d = type_id c) ds")
       (auto simp: comp_get_def comp_set_def split: if_splits)
qed

lemma comp_get_remove:
  "comp_get (snd (comp_remove i cs)) j = (if j = i then None else comp_get cs j)"
  by (induction cs) (auto simp: comp_get_def comp_remove_def Let_def)

interpretation patch: keyed_store comp_get "\<lambda>_ c. comp_set c" "\<lambda>i cs. snd (comp_remove i cs)"
    "\<lambda>_. True" "\<lambda>i c. type_id c = i"
  by unfold_locales (auto simp: comp_get_set comp_get_remove)

text \<open>
  A component patch is a map from type ids to components: after \<open>set\<close> the lookup of the
  component's type returns it and no other type changes, and after \<open>remove\<close> the type is
  gone; in particular a \<open>damage\<close> that was set is the damage read back and leaves, for
  example, the custom name alone.
\<close>

lemma patch_is_a_map:
  "comp_get (comp_set c cs) i = (if i = type_id c then Some c else comp_get cs i) \<and>
   comp_get (snd (comp_remove j cs)) i = (if i = j then None else comp_get cs i) \<and>
   damage_of (comp_set (Damage d) cs) = Some d \<and>
   custom_name_of (comp_set (Damage d) cs) = custom_name_of cs"
  using patch.lookup_insert [of c "type_id c" cs i] patch.lookup_remove [of j cs i]
  by (simp add: comp_get_set comp_get_remove damage_of_def custom_name_of_def type_ids)

text \<open>
  Component equality is symmetric and transitive, so the stacks that merge with one
  another form classes; but it is not reflexive, although the code declares \<open>Eq\<close>: an
  unknown component whose stored tag holds a NaN is not equal to itself.
\<close>

lemma components_partial_equality:
  "(comps_eq a b \<longrightarrow> comps_eq b a) \<and> (comps_eq a b \<longrightarrow> comps_eq b c \<longrightarrow> comps_eq a c) \<and>
   (\<exists>c. \<not> comps_eq c c)"
proof -
  have "\<not> comps_eq [Unknown [] 0 [] (Some (Nbt_Float 0x7FC00000))]
      [Unknown [] 0 [] (Some (Nbt_Float 0x7FC00000))]"
    by (simp add: comps_eq_def f32_eq_def f32_is_nan_def)
  then show ?thesis using comps.sym [of a b] comps.trans [of a b c] by blast
qed

lemma components_partial_equality_witness:
  "comps_eq [Damage 3] [Damage 3] \<and> (\<exists>c. \<not> comps_eq c c)"
  using components_partial_equality [of "[Damage 3]" "[Damage 3]" "[Damage 3]"]
  by (simp add: comps_eq_def)

end
