(* ===== verification/ItemStack.thy ===== *)
theory ItemStack
  imports Components
begin

text \<open>
  \<open>crates/entity/src/stack.rs\<close>, the stack type: an item id, a count and a component
  patch, with the operations that split, grow, shrink and merge stacks. Counts are
  integers; \<open>wf_stack\<close> is the guarantee the type states, and under it no operation
  leaves the range of an \<open>i32\<close>.
\<close>

definition AIR_ITEM_ID :: int where "AIR_ITEM_ID = 0"
definition DEFAULT_MAX_STACK_SIZE :: int where "DEFAULT_MAX_STACK_SIZE = 64"
definition HARD_MAX_STACK_SIZE :: int where "HARD_MAX_STACK_SIZE = DEFAULT_MAX_STACK_SIZE"

lemmas stack_consts = AIR_ITEM_ID_def DEFAULT_MAX_STACK_SIZE_def HARD_MAX_STACK_SIZE_def

record item_stack =
  st_item :: int
  st_count :: int
  st_comps :: item_components

definition EMPTY :: item_stack where
  "EMPTY = \<lparr>st_item = AIR_ITEM_ID, st_count = 0, st_comps = EMPTY_COMPONENTS\<rparr>"

definition stack_is_empty :: "item_stack \<Rightarrow> bool" where
  "stack_is_empty s \<longleftrightarrow> st_item s = AIR_ITEM_ID \<or> st_count s \<le> 0"

definition new_stack :: "int \<Rightarrow> int \<Rightarrow> item_stack server_result" where
  "new_stack i n =
     (if i < 0 then Inl InvalidAction
      else if n > HARD_MAX_STACK_SIZE then Inl InvalidAction
      else if i = AIR_ITEM_ID \<or> n \<le> 0 then Inr EMPTY
      else Inr \<lparr>st_item = i, st_count = n, st_comps = EMPTY_COMPONENTS\<rparr>)"

definition with_components :: "int \<Rightarrow> int \<Rightarrow> item_components \<Rightarrow> item_stack server_result" where
  "with_components i n cs =
     and_then (new_stack i n) (\<lambda>s. Inr (if stack_is_empty s then s else s\<lparr>st_comps := cs\<rparr>))"

text \<open>\<open>take\<close> returns what was held and leaves \<open>EMPTY\<close>.\<close>

definition stack_take :: "item_stack \<Rightarrow> item_stack \<times> item_stack" where
  "stack_take s = (s, EMPTY)"

definition stack_item_id :: "item_stack \<Rightarrow> int option" where
  "stack_item_id s = (if st_item s = AIR_ITEM_ID then None else Some (st_item s))"

definition stack_count :: "item_stack \<Rightarrow> int" where
  "stack_count s = (if st_item s = AIR_ITEM_ID then 0 else st_count s)"

definition set_component :: "data_component \<Rightarrow> item_stack \<Rightarrow> item_stack" where
  "set_component c s = (if stack_is_empty s then s else s\<lparr>st_comps := comp_set c (st_comps s)\<rparr>)"

definition same_item :: "item_stack \<Rightarrow> item_stack \<Rightarrow> bool" where
  "same_item s other \<longleftrightarrow>
     \<not> stack_is_empty s \<and> st_item s = st_item other \<and> comps_eq (st_comps s) (st_comps other)"

text \<open>The derived \<open>PartialEq\<close>.\<close>

definition stack_eq :: "item_stack \<Rightarrow> item_stack \<Rightarrow> bool" where
  "stack_eq a b \<longleftrightarrow> st_item a = st_item b \<and> st_count a = st_count b \<and> comps_eq (st_comps a) (st_comps b)"

definition is_valid :: "item_stack \<Rightarrow> bool" where
  "is_valid s \<longleftrightarrow> st_item s \<ge> AIR_ITEM_ID \<and> st_count s \<ge> 0 \<and> st_count s \<le> HARD_MAX_STACK_SIZE"

text \<open>\<open>split\<close> returns the part split off and the remainder.\<close>

definition split :: "item_stack \<Rightarrow> int \<Rightarrow> item_stack \<times> item_stack" where
  "split s n =
     (if n \<le> 0 \<or> stack_is_empty s then (EMPTY, s)
      else let taken = min n (st_count s);
               rest = s\<lparr>st_count := st_count s - taken\<rparr>;
               out = \<lparr>st_item = st_item s, st_count = taken, st_comps = st_comps s\<rparr>
           in (out, if st_count rest \<le> 0 then EMPTY else rest))"

text \<open>\<open>i32::clamp\<close>.\<close>

definition clamp :: "int \<Rightarrow> int \<Rightarrow> int \<Rightarrow> int" where
  "clamp x lo hi = (if x < lo then lo else if x > hi then hi else x)"

definition grow_capped :: "item_stack \<Rightarrow> int \<Rightarrow> int \<Rightarrow> int \<times> item_stack" where
  "grow_capped s n limit =
     (if n \<le> 0 \<or> stack_is_empty s then (max n 0, s)
      else let limit = clamp limit 1 HARD_MAX_STACK_SIZE;
               room = max (limit - st_count s) 0;
               added = min n room
           in (n - added, s\<lparr>st_count := st_count s + added\<rparr>))"

definition grow :: "item_stack \<Rightarrow> int \<Rightarrow> int \<times> item_stack" where
  "grow s n = grow_capped s n DEFAULT_MAX_STACK_SIZE"

definition shrink :: "item_stack \<Rightarrow> int \<Rightarrow> int \<times> item_stack" where
  "shrink s n =
     (if n \<le> 0 \<or> stack_is_empty s then (0, s)
      else let removed = min n (st_count s);
               s = s\<lparr>st_count := st_count s - removed\<rparr>
           in (removed, if st_count s \<le> 0 then EMPTY else s))"

text \<open>\<open>merge_capped\<close> returns the count that did not fit, this stack and the other.\<close>

definition merge_capped :: "item_stack \<Rightarrow> item_stack \<Rightarrow> int \<Rightarrow> int \<times> item_stack \<times> item_stack" where
  "merge_capped s other limit =
     (if stack_is_empty other then (0, s, other)
      else if \<not> stack_is_empty s \<and> \<not> same_item s other then (stack_count other, s, other)
      else let limit = clamp limit 1 HARD_MAX_STACK_SIZE;
               room = (if stack_is_empty s then limit else max (limit - st_count s) 0);
               (taken, other) = split other room;
               s = (if stack_is_empty s then taken
                    else s\<lparr>st_count := st_count s + st_count taken\<rparr>)
           in (st_count other, s, other))"

definition merge :: "item_stack \<Rightarrow> item_stack \<Rightarrow> int \<times> item_stack \<times> item_stack" where
  "merge s other = merge_capped s other DEFAULT_MAX_STACK_SIZE"

section \<open>The guarantee of the type\<close>

definition wf_stack :: "item_stack \<Rightarrow> bool" where
  "wf_stack s \<longleftrightarrow> s = EMPTY \<or> (0 < st_item s \<and> 1 \<le> st_count s \<and> st_count s \<le> 64)"

lemma EMPTY_simps [simp]:
  "st_item EMPTY = 0" "st_count EMPTY = 0" "st_comps EMPTY = []"
  "stack_is_empty EMPTY" "wf_stack EMPTY" "stack_count EMPTY = 0"
  by (simp_all add: EMPTY_def stack_consts EMPTY_COMPONENTS_def stack_is_empty_def wf_stack_def
      stack_count_def)

lemma wf_empty: "wf_stack s \<Longrightarrow> stack_is_empty s \<longleftrightarrow> s = EMPTY"
  by (auto simp: wf_stack_def stack_is_empty_def stack_consts)

lemma wf_count: "wf_stack s \<Longrightarrow> stack_count s = st_count s"
  by (auto simp: wf_stack_def stack_count_def stack_consts)

lemma wf_bounds: "wf_stack s \<Longrightarrow> 0 \<le> st_count s \<and> st_count s \<le> 64"
  by (auto simp: wf_stack_def)

lemma wf_nonempty: "wf_stack s \<Longrightarrow> s \<noteq> EMPTY \<Longrightarrow> 0 < st_item s \<and> 1 \<le> st_count s \<and> st_count s \<le> 64"
  by (auto simp: wf_stack_def)

lemma wf_valid: "wf_stack s \<Longrightarrow> is_valid s"
  by (auto simp: wf_stack_def is_valid_def stack_consts)

lemma wf_new_stack: "new_stack i n = Inr s \<Longrightarrow> wf_stack s"
  by (auto simp: new_stack_def wf_stack_def stack_consts split: if_splits)

lemma wf_with_components: "with_components i n cs = Inr s \<Longrightarrow> wf_stack s"
  by (auto simp: with_components_def and_then_Inr new_stack_def wf_stack_def stack_consts
      split: if_splits)

lemma wf_count_update: "wf_stack s \<Longrightarrow> s \<noteq> EMPTY \<Longrightarrow> 1 \<le> n \<Longrightarrow> n \<le> 64 \<Longrightarrow> wf_stack (s\<lparr>st_count := n\<rparr>)"
  by (auto simp: wf_stack_def)

lemma clamp_range: "lo \<le> hi \<Longrightarrow> lo \<le> clamp x lo hi \<and> clamp x lo hi \<le> hi"
  by (auto simp: clamp_def)

lemma clamp_id [simp]: "lo \<le> x \<Longrightarrow> x \<le> hi \<Longrightarrow> clamp x lo hi = x"
  by (auto simp: clamp_def)

section \<open>Weights\<close>

text \<open>
  The items of a stack that satisfy a predicate on the item id and the component patch.
  A predicate that cannot tell equal patches apart counts a class of stacks that merge
  with one another, and the sum of such weights over all places is what the operations
  conserve.
\<close>

definition class_pred :: "(int \<Rightarrow> item_components \<Rightarrow> bool) \<Rightarrow> bool" where
  "class_pred P \<longleftrightarrow> (\<forall>i a b. comps_eq a b \<longrightarrow> P i a = P i b)"

definition weight :: "(int \<Rightarrow> item_components \<Rightarrow> bool) \<Rightarrow> item_stack \<Rightarrow> int" where
  "weight P s = (if P (st_item s) (st_comps s) then stack_count s else 0)"

lemma weight_EMPTY [simp]: "weight P EMPTY = 0"
  by (simp add: weight_def)

lemma weight_nonneg: "wf_stack s \<Longrightarrow> 0 \<le> weight P s"
  using wf_bounds [of s] wf_count [of s] by (simp add: weight_def)

lemma class_predD: "class_pred P \<Longrightarrow> comps_eq a b \<Longrightarrow> P i a = P i b"
  by (simp add: class_pred_def)

lemma weight_update:
  "wf_stack s \<Longrightarrow> s \<noteq> EMPTY \<Longrightarrow>
     weight P (s\<lparr>st_count := n\<rparr>) = (if P (st_item s) (st_comps s) then n else 0)"
  by (auto simp: weight_def stack_count_def wf_stack_def stack_consts)

lemma weight_same_item:
  "class_pred P \<Longrightarrow> same_item s t \<Longrightarrow> P (st_item t) (st_comps t) = P (st_item s) (st_comps s)"
  by (auto simp: same_item_def dest: class_predD)

interpretation stack: partial_equiv stack_eq
  by unfold_locales (auto simp: stack_eq_def intro: comps.sym comps.trans)

text \<open>\<open>class_pred\<close> is met by the class of any patch, by \<open>partial_equiv\<close>.\<close>

lemma class_pred_class: "class_pred (\<lambda>i cs. i = j \<and> comps_eq cs ds)"
  unfolding class_pred_def using comps.same_class by blast

lemma class_pred_item: "class_pred (\<lambda>i cs. Q i)"
  by (simp add: class_pred_def)

section \<open>Split, shrink and merge conserve\<close>

lemma split_spec:
  assumes "wf_stack s" "split s n = (out, rest)"
  shows "wf_stack out \<and> wf_stack rest \<and> st_count out = max 0 (min n (st_count s))
    \<and> st_count rest = st_count s - st_count out
    \<and> weight P out + weight P rest = weight P s
    \<and> (out \<noteq> EMPTY \<longrightarrow> st_item out = st_item s \<and> st_comps out = st_comps s)
    \<and> (rest \<noteq> EMPTY \<longrightarrow> st_item rest = st_item s \<and> st_comps rest = st_comps s)"
proof (cases "n \<le> 0 \<or> s = EMPTY")
  case True
  then have "out = EMPTY" "rest = s"
    using assms wf_empty [of s] by (auto simp: split_def)
  with True assms(1) wf_bounds [of s] show ?thesis by auto
next
  case False
  with assms(1) have s: "0 < st_item s" "1 \<le> st_count s" "st_count s \<le> 64" "\<not> stack_is_empty s"
    using wf_nonempty [of s] wf_empty [of s] by auto
  show ?thesis
  proof (cases "n < st_count s")
    case True
    then have out: "out = s\<lparr>st_count := n\<rparr>" and rest: "rest = s\<lparr>st_count := st_count s - n\<rparr>"
      using assms(2) False s by (auto simp: split_def Let_def min_def)
    show ?thesis
      using True False s assms(1)
      by (auto simp: out rest weight_update wf_stack_def weight_def wf_count stack_count_def stack_consts)
  next
    case nlt: False
    then have out: "out = s" and rest: "rest = EMPTY"
      using assms(2) False s by (auto simp: split_def Let_def min_def)
    show ?thesis using nlt False s assms(1) by (simp add: out rest)
  qed
qed

lemma shrink_spec:
  assumes "wf_stack s" "shrink s n = (removed, s')"
  shows "wf_stack s' \<and> removed = max 0 (min n (st_count s)) \<and> st_count s' = st_count s - removed
    \<and> s' = snd (split s n) \<and> removed = st_count (fst (split s n))"
proof -
  have "s' = snd (split s n)" "removed = st_count (fst (split s n))"
    using assms(2) by (auto simp: shrink_def split_def Let_def)
  moreover have "split s n = (fst (split s n), snd (split s n))" by simp
  note split_spec [OF assms(1) this]
  ultimately show ?thesis by simp
qed

lemma grow_spec:
  assumes "wf_stack s" "grow_capped s n limit = (left, s')" "0 \<le> n"
  shows "wf_stack s' \<and> 0 \<le> left \<and> left \<le> n \<and> st_count s' = st_count s + (n - left)
    \<and> st_item s' = st_item s \<and> st_comps s' = st_comps s"
  using assms clamp_range [of 1 64 limit] wf_empty [of s]
  by (auto simp: grow_capped_def Let_def wf_stack_def stack_consts min_def max_def split: if_splits)

text \<open>What a merge does under a limit between 1 and 64.\<close>

lemma merge_spec:
  assumes wf: "wf_stack s" "wf_stack t" and m: "merge_capped s t limit = (left, s', t')"
    and P: "class_pred P"
  shows "wf_stack s' \<and> wf_stack t' \<and> left = st_count t' \<and> 0 \<le> left
    \<and> st_count s' + st_count t' = st_count s + st_count t
    \<and> weight P s' + weight P t' = weight P s + weight P t
    \<and> (st_count s' \<le> max (st_count s) (clamp limit 1 64))"
proof (cases "t = EMPTY \<or> (s \<noteq> EMPTY \<and> \<not> same_item s t)")
  case True
  then have "s' = s" "t' = t" "left = st_count t"
    using m wf wf_empty [of s] wf_empty [of t] wf_count [of t]
    by (auto simp: merge_capped_def Let_def)
  with wf wf_bounds [of t] show ?thesis by auto
next
  case False
  let ?l = "clamp limit 1 64"
  let ?room = "if s = EMPTY then ?l else max (?l - st_count s) 0"
  obtain taken rest where sp: "split t ?room = (taken, rest)" by fastforce
  note ss = split_spec [OF wf(2) sp, of P]
  have ne: "\<not> stack_is_empty t" "t \<noteq> EMPTY" using False wf_empty [OF wf(2)] by auto
  have res: "left = st_count rest" "t' = rest"
    "s' = (if s = EMPTY then taken else s\<lparr>st_count := st_count s + st_count taken\<rparr>)"
    using m sp False ne wf_empty [OF wf(1)]
    by (auto simp: merge_capped_def Let_def stack_consts)
  have l: "1 \<le> ?l" "?l \<le> 64" using clamp_range [of 1 64 limit] by auto
  show ?thesis
  proof (cases "s = EMPTY")
    case True
    with ss res l wf_bounds [of rest] show ?thesis by auto
  next
    case nE: False
    then have same: "same_item s t" using False by blast
    note PP = weight_same_item [OF P same]
    let ?in = "P (st_item s) (st_comps s)"
    have w: "weight P s' = (if ?in then st_count s + st_count taken else 0)"
      using nE res weight_update [OF wf(1) nE] by simp
    have ws: "weight P s = (if ?in then st_count s else 0)" "weight P t = (if ?in then st_count t else 0)"
      using PP wf_count [OF wf(1)] wf_count [OF wf(2)] by (simp_all add: weight_def)
    have wr: "weight P rest = (if ?in then st_count rest else 0)"
      using ss PP wf_count [of rest] by (cases "rest = EMPTY") (simp_all add: weight_def)
    have tk: "st_count taken \<le> max (?l - st_count s) 0" "0 \<le> st_count taken"
      using ss nE wf_bounds [of taken] by simp_all
    have sum: "st_count taken + st_count rest = st_count t" using ss by simp
    have "1 \<le> st_count s + st_count taken \<and> st_count s + st_count taken \<le> 64"
      using l wf_nonempty [OF wf(1) nE] tk by (simp add: max_def split: if_splits)
    then have "wf_stack s'" using nE res wf_count_update [OF wf(1) nE] by simp
    moreover have "st_count s' + st_count t' = st_count s + st_count t" using res nE sum by simp
    moreover have "weight P s' + weight P t' = weight P s + weight P t"
      using sum by (simp add: w ws wr res(2))
    moreover have "st_count s' \<le> max (st_count s) ?l" using res nE tk by simp
    moreover have "wf_stack t' \<and> left = st_count t' \<and> 0 \<le> left"
    proof -
      have "wf_stack rest" using ss by (elim conjE)
      then show ?thesis using res(1,2) wf_bounds [of rest] by (simp only: simp_thms)
    qed
    ultimately show ?thesis by simp
  qed
qed

text \<open>Which items the two stacks hold afterwards, and when something is left over.\<close>

lemma merge_items:
  assumes wf: "wf_stack s" "wf_stack t" and m: "merge_capped s t limit = (left, s', t')"
  shows "(t' \<noteq> EMPTY \<longrightarrow> st_item t' = st_item t \<and> st_comps t' = st_comps t)
    \<and> (s \<noteq> EMPTY \<longrightarrow> st_item s' = st_item s \<and> st_comps s' = st_comps s)
    \<and> (s = EMPTY \<longrightarrow> s' \<noteq> EMPTY \<longrightarrow> st_item s' = st_item t \<and> st_comps s' = st_comps t)
    \<and> (t' \<noteq> EMPTY \<longrightarrow> s = EMPTY \<or> same_item s t \<longrightarrow> clamp limit 1 64 \<le> st_count s')
    \<and> (s = EMPTY \<longrightarrow> t \<noteq> EMPTY \<longrightarrow> s' \<noteq> EMPTY)"
proof (cases "t = EMPTY \<or> (s \<noteq> EMPTY \<and> \<not> same_item s t)")
  case True
  then have "s' = s" "t' = t"
    using m wf wf_empty [of s] wf_empty [of t] by (auto simp: merge_capped_def Let_def)
  with True show ?thesis by auto
next
  case False
  let ?l = "clamp limit 1 64"
  let ?room = "if s = EMPTY then ?l else max (?l - st_count s) 0"
  obtain taken rest where sp: "split t ?room = (taken, rest)" by fastforce
  note ss = split_spec [OF wf(2) sp, of "\<lambda>_ _. True"]
  have ne: "\<not> stack_is_empty t" "t \<noteq> EMPTY" using False wf_empty [OF wf(2)] by auto
  have res: "t' = rest"
    "s' = (if s = EMPTY then taken else s\<lparr>st_count := st_count s + st_count taken\<rparr>)"
    using m sp False ne wf_empty [OF wf(1)]
    by (auto simp: merge_capped_def Let_def stack_consts)
  have l: "1 \<le> ?l" using clamp_range [of 1 64 limit] by auto
  have t: "1 \<le> st_count t" using wf_nonempty [OF wf(2) ne(2)] by simp
  have rest: "rest \<noteq> EMPTY \<Longrightarrow> 1 \<le> st_count rest"
    using ss wf_nonempty [of rest] by blast
  have cnt: "st_count taken = max 0 (min ?room (st_count t))"
    "st_count rest = st_count t - st_count taken" using ss by blast+
  have full: "rest \<noteq> EMPTY \<longrightarrow> st_count taken = max 0 ?room"
    using rest cnt t by (auto simp: min_def max_def split: if_splits)
  have "s = EMPTY \<Longrightarrow> taken \<noteq> EMPTY"
    using cnt l t by (auto simp: min_def max_def split: if_splits)
  moreover have "rest \<noteq> EMPTY \<longrightarrow> ?l \<le> st_count s'"
    using full l by (auto simp: res(2) max_def split: if_splits)
  moreover have "rest \<noteq> EMPTY \<longrightarrow> st_item rest = st_item t \<and> st_comps rest = st_comps t"
    "taken \<noteq> EMPTY \<longrightarrow> st_item taken = st_item t \<and> st_comps taken = st_comps t"
    using ss by blast+
  ultimately show ?thesis by (auto simp: res)
qed

end
