(* ===== verification/TextTables.thy ===== *)
theory TextTables
  imports ResourceIds
begin

text \<open>
  What the registry files use of Rust's \<open>str\<close>: the lines of a text, the blank-line test
  and the parsing of a decimal \<open>i32\<close>. Every \<open>.tsv\<close> table of \<open>crates/registry\<close> is read
  with these.
\<close>

text \<open>\<open>str::lines\<close>: lines end at a line feed, a carriage return before it is dropped, and a
  final empty line is not one.\<close>

definition strip_cr :: "rstring \<Rightarrow> rstring" where
  "strip_cr l = (if l \<noteq> [] \<and> last l = 13 then butlast l else l)"

definition text_lines :: "rstring \<Rightarrow> rstring list" where
  "text_lines s =
     (let parts = split_on 10 s;
          full = butlast parts;
          rest = last parts
      in map strip_cr full @ (if rest = [] then [] else [rest]))"

text \<open>\<open>char::is_whitespace\<close>, the Unicode \<open>White_Space\<close> property.\<close>

definition is_whitespace :: "nat \<Rightarrow> bool" where
  "is_whitespace c \<longleftrightarrow> (9 \<le> c \<and> c \<le> 13) \<or> c = 32 \<or> c = 0x85 \<or> c = 0xA0 \<or> c = 0x1680
     \<or> (0x2000 \<le> c \<and> c \<le> 0x200A) \<or> c = 0x2028 \<or> c = 0x2029 \<or> c = 0x202F \<or> c = 0x205F \<or> c = 0x3000"

text \<open>\<open>line.trim().is_empty()\<close>.\<close>

definition is_blank :: "rstring \<Rightarrow> bool" where
  "is_blank l = list_all is_whitespace l"

text \<open>A comment or a blank line of a table.\<close>

definition skips_line :: "rstring \<Rightarrow> bool" where
  "skips_line l \<longleftrightarrow> (l \<noteq> [] \<and> hd l = 35) \<or> is_blank l"

fun digits_value :: "nat \<Rightarrow> rstring \<Rightarrow> nat option" where
  "digits_value acc [] = Some acc"
| "digits_value acc (c # cs) =
     (if 48 \<le> c \<and> c \<le> 57 then digits_value (acc * 10 + (c - 48)) cs else None)"

text \<open>\<open>str::parse::<i32>\<close>: an optional sign, at least one digit, the value in range.\<close>

definition parse_i32 :: "rstring \<Rightarrow> int option" where
  "parse_i32 s =
     (let (neg, ds) = (case s of
          [] \<Rightarrow> (False, [])
        | c # cs \<Rightarrow> if c = 45 then (True, cs) else if c = 43 then (False, cs) else (False, s))
      in if ds = [] then None
         else case digits_value 0 ds of
           None \<Rightarrow> None
         | Some n \<Rightarrow>
             let v = (if neg then - int n else int n)
             in if - (2 ^ 31) \<le> v \<and> v < 2 ^ 31 then Some v else None)"

lemma parse_i32_range: "parse_i32 s = Some v \<Longrightarrow> - (2 ^ 31) \<le> v \<and> v < 2 ^ 31"
  by (auto simp: parse_i32_def Let_def split: prod.splits option.splits if_splits)

end
