(* ===== verification/ItemRegistry.thy ===== *)
theory ItemRegistry
  imports TextTables
begin

text \<open>
  \<open>crates/registry/src/items.rs\<close>: the item table. The tool rules of the registry are read
  from another file by \<open>load\<close>; \<open>parse\<close> leaves them empty, and they are not part of this
  record.
\<close>

record item_entry =
  entry_name :: rstring
  entry_block :: "rstring option"

record item_registry =
  by_name :: "rstring \<Rightarrow> int option"
  by_id :: "item_entry list"

fun parse_rows :: "rstring list \<Rightarrow> item_entry list \<Rightarrow> item_entry list server_result" where
  "parse_rows [] entries = Inr entries"
| "parse_rows (line # lines) entries =
     (if skips_line line then parse_rows lines entries
      else case split_on 9 line of
        i # name # block # _ \<Rightarrow>
          (case parse_i32 i of
             None \<Rightarrow> Inl CorruptData
           | Some v \<Rightarrow>
               if v < 0 \<or> nat v \<noteq> length entries then Inl CorruptData
               else parse_rows lines (entries @
                 [\<lparr>entry_name = name,
                   entry_block = (if block \<noteq> [45] then Some block else None)\<rparr>]))
      | _ \<Rightarrow> Inl CorruptData)"

text \<open>Collecting into a \<open>HashMap\<close>: a later entry replaces an earlier one of the same name.\<close>

definition name_index :: "item_entry list \<Rightarrow> rstring \<Rightarrow> int option" where
  "name_index entries =
     map_of (rev (map (\<lambda>(i, e). (entry_name e, int i)) (enumerate 0 entries)))"

definition parse_registry :: "rstring \<Rightarrow> item_registry server_result" where
  "parse_registry text =
     and_then (parse_rows (text_lines text) []) (\<lambda>entries.
       if entries = [] then Inl CorruptData
       else Inr \<lparr>by_name = name_index entries, by_id = entries\<rparr>)"

definition registry_len :: "item_registry \<Rightarrow> nat" where
  "registry_len r = length (by_id r)"

definition registry_id :: "item_registry \<Rightarrow> rstring \<Rightarrow> int server_result" where
  "registry_id r name = (case by_name r name of None \<Rightarrow> Inl CorruptData | Some i \<Rightarrow> Inr i)"

definition registry_entry :: "item_registry \<Rightarrow> int \<Rightarrow> item_entry server_result" where
  "registry_entry r i =
     (if 0 \<le> i \<and> nat i < length (by_id r) then Inr (by_id r ! nat i) else Inl CorruptData)"

definition registry_name :: "item_registry \<Rightarrow> int \<Rightarrow> rstring server_result" where
  "registry_name r i = and_then (registry_entry r i) (\<lambda>e. Inr (entry_name e))"

definition block_of :: "item_registry \<Rightarrow> int \<Rightarrow> rstring option server_result" where
  "block_of r i = and_then (registry_entry r i) (\<lambda>e. Inr (entry_block e))"

definition registry_names :: "item_registry \<Rightarrow> rstring list" where
  "registry_names r = map entry_name (by_id r)"

definition item_for_block :: "item_registry \<Rightarrow> rstring \<Rightarrow> int server_result" where
  "item_for_block r block =
     (case by_name r block of
        Some i \<Rightarrow>
          if entry_block (by_id r ! nat i) = Some block then Inr i
          else (case position (\<lambda>e. entry_block e = Some block) (by_id r) of
              Some index \<Rightarrow> Inr (int index) | None \<Rightarrow> Inl CorruptData)
      | None \<Rightarrow>
          (case position (\<lambda>e. entry_block e = Some block) (by_id r) of
              Some index \<Rightarrow> Inr (int index) | None \<Rightarrow> Inl CorruptData))"

section \<open>Laws\<close>

lemma name_index_Some:
  assumes "name_index entries n = Some i"
  shows "0 \<le> i \<and> nat i < length entries \<and> entry_name (entries ! nat i) = n"
proof -
  have "(n, i) \<in> set (map (\<lambda>(i, e). (entry_name e, int i)) (enumerate 0 entries))"
    using assms by (auto simp: name_index_def dest: map_of_SomeD)
  then show ?thesis by (auto simp: in_set_enumerate_eq)
qed

lemma name_index_None: "name_index entries n = None \<longleftrightarrow> n \<notin> entry_name ` set entries"
proof -
  have "fst ` set (map (\<lambda>(i, e). (entry_name e, int i)) (enumerate 0 entries)) = entry_name ` set entries"
  proof -
    have "fst ` set (map (\<lambda>(i, e). (entry_name e, int i)) (enumerate 0 entries))
        = entry_name ` set (map snd (enumerate 0 entries))"
      by (simp only: set_map image_image split_beta fst_conv)
    then show ?thesis by simp
  qed
  then show ?thesis by (simp add: name_index_def map_of_eq_None_iff)
qed

lemma parse_registry_Inr:
  "parse_registry text = Inr r \<Longrightarrow> by_name r = name_index (by_id r) \<and> by_id r \<noteq> []"
  by (auto simp: parse_registry_def and_then_Inr split: if_splits)

lemma registry_id_name:
  assumes "parse_registry text = Inr r" "registry_id r n = Inr i"
  shows "registry_entry r i = Inr (by_id r ! nat i) \<and> registry_name r i = Inr n"
  using parse_registry_Inr [OF assms(1)] name_index_Some [of "by_id r" n i] assms(2)
  by (auto simp: registry_entry_def registry_id_def registry_name_def split: option.splits)

text \<open>
  A registry parsed from a table is consistent in both directions: an id looked up by
  name is in range and names that very item, an id resolves exactly when it is below the
  length, every listed name has an id, and the item found for a block is one that places
  the block.
\<close>

lemma registry_consistent:
  assumes "parse_registry text = Inr r"
  shows "(registry_id r n = Inr i \<longrightarrow> registry_name r i = Inr n) \<and>
    (is_ok (registry_entry r i) \<longleftrightarrow> 0 \<le> i \<and> i < int (registry_len r)) \<and>
    (n \<in> set (registry_names r) \<longleftrightarrow> is_ok (registry_id r n)) \<and>
    (item_for_block r b = Inr i \<longrightarrow> block_of r i = Inr (Some b))"
proof -
  note r = parse_registry_Inr [OF assms]
  have ids: "by_name r n = Some i \<Longrightarrow> registry_entry r i = Inr (by_id r ! nat i)" for n i
    using registry_id_name [OF assms, of n i] by (simp add: registry_id_def)
  have "registry_id r n = Inr i \<longrightarrow> registry_name r i = Inr n"
    using registry_id_name [OF assms] by blast
  moreover have "is_ok (registry_entry r i) \<longleftrightarrow> 0 \<le> i \<and> i < int (registry_len r)"
    by (auto simp: registry_entry_def registry_len_def)
  moreover have "n \<in> set (registry_names r) \<longleftrightarrow> is_ok (registry_id r n)"
    using r name_index_None [of "by_id r" n]
    by (auto simp: registry_names_def registry_id_def split: option.splits)
  moreover have pos: "position (\<lambda>e. entry_block e = Some b) (by_id r) = Some k \<Longrightarrow>
      block_of r (int k) = Inr (Some b)" for k
    using position_SomeD by (fastforce simp: block_of_def registry_entry_def)
  have "item_for_block r b = Inr i \<longrightarrow> block_of r i = Inr (Some b)"
    using ids pos by (auto simp: item_for_block_def block_of_def split: option.splits if_splits)
  ultimately show ?thesis by blast
qed

definition sample_registry :: item_registry where
  "sample_registry =
     \<lparr>by_name = name_index [\<lparr>entry_name = [97], entry_block = None\<rparr>],
      by_id = [\<lparr>entry_name = [97], entry_block = None\<rparr>]\<rparr>"

lemma registry_consistent_witness: "registry_name sample_registry 0 = Inr [97]"
proof -
  have p: "parse_registry [48, 9, 97, 9, 45, 10] = Inr sample_registry"
    by (simp add: parse_registry_def text_lines_def Let_def strip_cr_def skips_line_def is_blank_def
        is_whitespace_def parse_i32_def sample_registry_def)
  have "registry_id sample_registry [97] = Inr 0"
    by (simp add: registry_id_def sample_registry_def name_index_def)
  with registry_consistent [OF p, of "[97]" 0 "[]"] show ?thesis by blast
qed

end
