(* ===== verification/StackSizes.thy ===== *)
theory StackSizes
  imports ItemStack ItemRegistry "HOL-Library.Product_Lexorder"
begin

text \<open>
  \<open>crates/entity/src/stack.rs\<close>, the stack-size tables: the names that stack to 1 and to
  16, the lookup by name, and the table resolved against the item registry that every
  owner of stacks consults.
\<close>

section \<open>Binary search\<close>

datatype ordering = Less | Equal | Greater

text \<open>The order of \<open>str\<close>, that of its scalar values.\<close>

fun str_cmp :: "nat list \<Rightarrow> nat list \<Rightarrow> ordering" where
  "str_cmp [] [] = Equal"
| "str_cmp [] (_ # _) = Less"
| "str_cmp (_ # _) [] = Greater"
| "str_cmp (x # xs) (y # ys) = (if x < y then Less else if y < x then Greater else str_cmp xs ys)"

definition int_cmp :: "int \<Rightarrow> int \<Rightarrow> ordering" where
  "int_cmp a b = (if a < b then Less else if b < a then Greater else Equal)"

text \<open>
  \<open>slice::binary_search_by\<close>: the index of an element the closure calls equal, on a slice
  sorted by it.
\<close>

function bsearch :: "('a \<Rightarrow> ordering) \<Rightarrow> 'a list \<Rightarrow> nat \<Rightarrow> nat \<Rightarrow> nat option" where
  "bsearch cmp xs lo hi =
     (if lo < hi then
        (let mid = lo + (hi - lo) div 2 in
         case cmp (xs ! mid) of
           Equal \<Rightarrow> Some mid
         | Less \<Rightarrow> bsearch cmp xs (mid + 1) hi
         | Greater \<Rightarrow> bsearch cmp xs lo mid)
      else None)"
  by pat_completeness auto
termination
  by (relation "measure (\<lambda>(cmp, xs, lo, hi). hi - lo)") auto

declare bsearch.simps [simp del]

definition binary_search_by :: "('a \<Rightarrow> ordering) \<Rightarrow> 'a list \<Rightarrow> nat option" where
  "binary_search_by cmp xs = bsearch cmp xs 0 (length xs)"

text \<open>The closure follows the order of the slice.\<close>

definition ordered_by :: "('a \<Rightarrow> ordering) \<Rightarrow> 'a list \<Rightarrow> bool" where
  "ordered_by cmp xs \<longleftrightarrow>
     (\<forall>i j. i < j \<longrightarrow> j < length xs \<longrightarrow> cmp (xs ! i) \<noteq> Less \<longrightarrow> cmp (xs ! j) = Greater)"

lemma bsearch_spec:
  "ordered_by cmp xs \<Longrightarrow> hi \<le> length xs \<Longrightarrow>
    (case bsearch cmp xs lo hi of
       Some i \<Rightarrow> lo \<le> i \<and> i < hi \<and> cmp (xs ! i) = Equal
     | None \<Rightarrow> \<forall>i. lo \<le> i \<longrightarrow> i < hi \<longrightarrow> cmp (xs ! i) \<noteq> Equal)"
proof (induction cmp xs lo hi rule: bsearch.induct)
  case (1 cmp xs lo hi)
  let ?mid = "lo + (hi - lo) div 2"
  show ?case
  proof (cases "lo < hi")
    case False
    then show ?thesis by (simp add: bsearch.simps)
  next
    case True
    then have mid: "lo \<le> ?mid" "?mid < hi" by auto
    note ord = "1.prems"(1) [unfolded ordered_by_def, rule_format]
    show ?thesis
    proof (cases "cmp (xs ! ?mid)")
      case Less
      have left: "cmp (xs ! i) = Less" if "i \<le> ?mid" for i
        using ord [of i ?mid] that mid Less "1.prems"(2) by (cases "i = ?mid") fastforce+
      have eq: "bsearch cmp xs lo hi = bsearch cmp xs (?mid + 1) hi"
        using True Less by (subst bsearch.simps) (simp add: Let_def)
      have IH: "case bsearch cmp xs (?mid + 1) hi of
          Some i \<Rightarrow> ?mid + 1 \<le> i \<and> i < hi \<and> cmp (xs ! i) = Equal
        | None \<Rightarrow> \<forall>i. ?mid + 1 \<le> i \<longrightarrow> i < hi \<longrightarrow> cmp (xs ! i) \<noteq> Equal"
        by (rule "1.IH"(1) [OF True refl Less "1.prems"])
      show ?thesis
      proof (cases "bsearch cmp xs (?mid + 1) hi")
        case None
        have "cmp (xs ! i) \<noteq> Equal" if "lo \<le> i" "i < hi" for i
          using IH None left [of i] that by (cases "i \<le> ?mid") auto
        then show ?thesis using None eq by simp
      next
        case (Some k)
        with IH mid eq show ?thesis by auto
      qed
    next
      case Equal
      then have "bsearch cmp xs lo hi = Some ?mid"
        using True by (subst bsearch.simps) (simp add: Let_def)
      with Equal mid show ?thesis by simp
    next
      case Greater
      have right: "cmp (xs ! i) = Greater" if "?mid \<le> i" "i < hi" for i
        using ord [of ?mid i] that Greater "1.prems"(2) by (cases "i = ?mid") auto
      have eq: "bsearch cmp xs lo hi = bsearch cmp xs lo ?mid"
        using True Greater by (subst bsearch.simps) (simp add: Let_def)
      have IH: "case bsearch cmp xs lo ?mid of
          Some i \<Rightarrow> lo \<le> i \<and> i < ?mid \<and> cmp (xs ! i) = Equal
        | None \<Rightarrow> \<forall>i. lo \<le> i \<longrightarrow> i < ?mid \<longrightarrow> cmp (xs ! i) \<noteq> Equal"
        by (rule "1.IH"(2) [OF True refl Greater "1.prems"(1)]) (use mid "1.prems"(2) in simp)
      show ?thesis
      proof (cases "bsearch cmp xs lo ?mid")
        case None
        have "cmp (xs ! i) \<noteq> Equal" if "lo \<le> i" "i < hi" for i
          using IH None right [of i] that by (cases "?mid \<le> i") auto
        then show ?thesis using None eq by simp
      next
        case (Some k)
        with IH mid eq show ?thesis by auto
      qed
    qed
  qed
qed

lemma binary_search_Some:
  "ordered_by cmp xs \<Longrightarrow> binary_search_by cmp xs = Some i \<Longrightarrow> i < length xs \<and> cmp (xs ! i) = Equal"
  using bsearch_spec [of cmp xs "length xs" 0] by (auto simp: binary_search_by_def)

lemma binary_search_None:
  "ordered_by cmp xs \<Longrightarrow> binary_search_by cmp xs = None \<longleftrightarrow> (\<forall>x \<in> set xs. cmp x \<noteq> Equal)"
proof -
  assume o: "ordered_by cmp xs"
  show ?thesis
  proof (cases "bsearch cmp xs 0 (length xs)")
    case None
    with bsearch_spec [OF o order_refl, of 0] show ?thesis
      by (auto simp: binary_search_by_def in_set_conv_nth)
  next
    case (Some k)
    with bsearch_spec [OF o order_refl, of 0] have "xs ! k \<in> set xs" "cmp (xs ! k) = Equal" by simp_all
    with Some show ?thesis by (auto simp: binary_search_by_def)
  qed
qed

lemma str_cmp_Equal: "str_cmp a b = Equal \<longleftrightarrow> a = b"
  by (induction a b rule: str_cmp.induct) auto

lemma str_cmp_trans: "str_cmp a b = Less \<Longrightarrow> str_cmp b c \<noteq> Greater \<Longrightarrow> str_cmp a c = Less"
proof (induction a arbitrary: b c)
  case Nil
  then show ?case by (cases b; cases c) simp_all
next
  case (Cons x xs)
  then obtain y ys where b: "b = y # ys" by (cases b) simp_all
  with Cons.prems(2) obtain z zs where c: "c = z # zs" by (cases c) simp_all
  show ?case using Cons.prems Cons.IH [of ys zs] unfolding b c by (simp split: if_splits)
qed

lemma str_cmp_flip: "str_cmp a b = Less \<longleftrightarrow> str_cmp b a = Greater"
  by (induction a b rule: str_cmp.induct) auto

lemma str_cmp_after: "str_cmp a n \<noteq> Less \<Longrightarrow> str_cmp a b = Less \<Longrightarrow> str_cmp b n = Greater"
  by (metis ordering.exhaust str_cmp_Equal str_cmp_flip str_cmp_trans ordering.distinct(5))

text \<open>Strictly ascending names make the closures of the lookups follow the order.\<close>

fun ascending :: "nat list list \<Rightarrow> bool" where
  "ascending (x # y # zs) \<longleftrightarrow> str_cmp x y = Less \<and> ascending (y # zs)"
| "ascending _ \<longleftrightarrow> True"

lemma ascending_Cons: "ascending (x # xs) \<Longrightarrow> (\<forall>y \<in> set xs. str_cmp x y = Less) \<and> ascending xs"
proof (induction xs arbitrary: x)
  case (Cons y ys)
  have "ascending (y # ys)" "str_cmp x y = Less" using Cons.prems by simp_all
  with Cons.IH [of y] show ?case by (auto intro: str_cmp_trans)
qed simp

lemma ascending_nth:
  "ascending xs \<Longrightarrow> i < j \<Longrightarrow> j < length xs \<Longrightarrow> str_cmp (xs ! i) (xs ! j) = Less"
proof (induction xs arbitrary: i j)
  case (Cons x xs)
  then show ?case
    using ascending_Cons [of x xs] by (cases i; cases j) auto
qed simp

lemma ordered_names:
  "ascending (map fst t) \<Longrightarrow> ordered_by (\<lambda>e. str_cmp (fst e) n) t"
proof (unfold ordered_by_def, intro allI impI)
  fix i j
  assume a: "ascending (map fst t)" "i < j" "j < length t" "str_cmp (fst (t ! i)) n \<noteq> Less"
  have "str_cmp (map fst t ! i) (map fst t ! j) = Less"
    using a(1-3) by (intro ascending_nth) simp_all
  then have "str_cmp (fst (t ! i)) (fst (t ! j)) = Less" using a(2,3) by simp
  with a(4) show "str_cmp (fst (t ! j)) n = Greater" by (rule str_cmp_after)
qed

section \<open>The tables\<close>

definition STACK_SIZE_1 :: "(rstring \<times> int) list" where
  "STACK_SIZE_1 =
  [(lit ''minecraft:acacia_boat'', 1),
   (lit ''minecraft:acacia_chest_boat'', 1),
   (lit ''minecraft:bamboo_chest_raft'', 1),
   (lit ''minecraft:bamboo_raft'', 1),
   (lit ''minecraft:beetroot_soup'', 1),
   (lit ''minecraft:birch_boat'', 1),
   (lit ''minecraft:birch_chest_boat'', 1),
   (lit ''minecraft:black_bundle'', 1),
   (lit ''minecraft:black_harness'', 1),
   (lit ''minecraft:blue_bundle'', 1),
   (lit ''minecraft:blue_harness'', 1),
   (lit ''minecraft:bow'', 1),
   (lit ''minecraft:brown_bundle'', 1),
   (lit ''minecraft:brown_harness'', 1),
   (lit ''minecraft:bundle'', 1),
   (lit ''minecraft:cake'', 1),
   (lit ''minecraft:carrot_on_a_stick'', 1),
   (lit ''minecraft:chainmail_boots'', 1),
   (lit ''minecraft:chainmail_chestplate'', 1),
   (lit ''minecraft:chainmail_helmet'', 1),
   (lit ''minecraft:chainmail_leggings'', 1),
   (lit ''minecraft:cherry_boat'', 1),
   (lit ''minecraft:cherry_chest_boat'', 1),
   (lit ''minecraft:chest_minecart'', 1),
   (lit ''minecraft:command_block_minecart'', 1),
   (lit ''minecraft:copper_axe'', 1),
   (lit ''minecraft:copper_boots'', 1),
   (lit ''minecraft:copper_chestplate'', 1),
   (lit ''minecraft:copper_helmet'', 1),
   (lit ''minecraft:copper_hoe'', 1),
   (lit ''minecraft:copper_horse_armor'', 1),
   (lit ''minecraft:copper_leggings'', 1),
   (lit ''minecraft:copper_nautilus_armor'', 1),
   (lit ''minecraft:copper_pickaxe'', 1),
   (lit ''minecraft:copper_shovel'', 1),
   (lit ''minecraft:copper_spear'', 1),
   (lit ''minecraft:copper_sword'', 1),
   (lit ''minecraft:crossbow'', 1),
   (lit ''minecraft:cyan_bundle'', 1),
   (lit ''minecraft:cyan_harness'', 1),
   (lit ''minecraft:dark_oak_boat'', 1),
   (lit ''minecraft:dark_oak_chest_boat'', 1),
   (lit ''minecraft:diamond_axe'', 1),
   (lit ''minecraft:diamond_boots'', 1),
   (lit ''minecraft:diamond_chestplate'', 1),
   (lit ''minecraft:diamond_helmet'', 1),
   (lit ''minecraft:diamond_hoe'', 1),
   (lit ''minecraft:diamond_horse_armor'', 1),
   (lit ''minecraft:diamond_leggings'', 1),
   (lit ''minecraft:diamond_nautilus_armor'', 1),
   (lit ''minecraft:diamond_pickaxe'', 1),
   (lit ''minecraft:diamond_shovel'', 1),
   (lit ''minecraft:diamond_spear'', 1),
   (lit ''minecraft:diamond_sword'', 1),
   (lit ''minecraft:elytra'', 1),
   (lit ''minecraft:enchanted_golden_apple'', 1),
   (lit ''minecraft:fishing_rod'', 1),
   (lit ''minecraft:flint_and_steel'', 1),
   (lit ''minecraft:furnace_minecart'', 1),
   (lit ''minecraft:golden_apple'', 1),
   (lit ''minecraft:golden_axe'', 1),
   (lit ''minecraft:golden_boots'', 1),
   (lit ''minecraft:golden_chestplate'', 1),
   (lit ''minecraft:golden_helmet'', 1),
   (lit ''minecraft:golden_hoe'', 1),
   (lit ''minecraft:golden_horse_armor'', 1),
   (lit ''minecraft:golden_leggings'', 1),
   (lit ''minecraft:golden_nautilus_armor'', 1),
   (lit ''minecraft:golden_pickaxe'', 1),
   (lit ''minecraft:golden_shovel'', 1),
   (lit ''minecraft:golden_spear'', 1),
   (lit ''minecraft:golden_sword'', 1),
   (lit ''minecraft:gray_bundle'', 1),
   (lit ''minecraft:gray_harness'', 1),
   (lit ''minecraft:green_bundle'', 1),
   (lit ''minecraft:green_harness'', 1),
   (lit ''minecraft:hopper_minecart'', 1),
   (lit ''minecraft:iron_axe'', 1),
   (lit ''minecraft:iron_boots'', 1),
   (lit ''minecraft:iron_chestplate'', 1),
   (lit ''minecraft:iron_helmet'', 1),
   (lit ''minecraft:iron_hoe'', 1),
   (lit ''minecraft:iron_horse_armor'', 1),
   (lit ''minecraft:iron_leggings'', 1),
   (lit ''minecraft:iron_nautilus_armor'', 1),
   (lit ''minecraft:iron_pickaxe'', 1),
   (lit ''minecraft:iron_shovel'', 1),
   (lit ''minecraft:iron_spear'', 1),
   (lit ''minecraft:iron_sword'', 1),
   (lit ''minecraft:jungle_boat'', 1),
   (lit ''minecraft:jungle_chest_boat'', 1),
   (lit ''minecraft:leather_boots'', 1),
   (lit ''minecraft:leather_chestplate'', 1),
   (lit ''minecraft:leather_helmet'', 1),
   (lit ''minecraft:leather_horse_armor'', 1),
   (lit ''minecraft:leather_leggings'', 1),
   (lit ''minecraft:light_blue_bundle'', 1),
   (lit ''minecraft:light_blue_harness'', 1),
   (lit ''minecraft:light_gray_bundle'', 1),
   (lit ''minecraft:light_gray_harness'', 1),
   (lit ''minecraft:lime_bundle'', 1),
   (lit ''minecraft:lime_harness'', 1),
   (lit ''minecraft:lingering_potion'', 1),
   (lit ''minecraft:magenta_bundle'', 1),
   (lit ''minecraft:magenta_harness'', 1),
   (lit ''minecraft:mangrove_boat'', 1),
   (lit ''minecraft:mangrove_chest_boat'', 1),
   (lit ''minecraft:minecart'', 1),
   (lit ''minecraft:mushroom_stew'', 1),
   (lit ''minecraft:netherite_axe'', 1),
   (lit ''minecraft:netherite_boots'', 1),
   (lit ''minecraft:netherite_chestplate'', 1),
   (lit ''minecraft:netherite_helmet'', 1),
   (lit ''minecraft:netherite_hoe'', 1),
   (lit ''minecraft:netherite_horse_armor'', 1),
   (lit ''minecraft:netherite_leggings'', 1),
   (lit ''minecraft:netherite_nautilus_armor'', 1),
   (lit ''minecraft:netherite_pickaxe'', 1),
   (lit ''minecraft:netherite_shovel'', 1),
   (lit ''minecraft:netherite_spear'', 1),
   (lit ''minecraft:netherite_sword'', 1),
   (lit ''minecraft:oak_boat'', 1),
   (lit ''minecraft:oak_chest_boat'', 1),
   (lit ''minecraft:orange_bundle'', 1),
   (lit ''minecraft:orange_harness'', 1),
   (lit ''minecraft:pale_oak_boat'', 1),
   (lit ''minecraft:pale_oak_chest_boat'', 1),
   (lit ''minecraft:pink_bundle'', 1),
   (lit ''minecraft:pink_harness'', 1),
   (lit ''minecraft:potion'', 1),
   (lit ''minecraft:pumpkin_pie'', 1),
   (lit ''minecraft:purple_bundle'', 1),
   (lit ''minecraft:purple_harness'', 1),
   (lit ''minecraft:rabbit_stew'', 1),
   (lit ''minecraft:red_bundle'', 1),
   (lit ''minecraft:red_harness'', 1),
   (lit ''minecraft:saddle'', 1),
   (lit ''minecraft:shears'', 1),
   (lit ''minecraft:shield'', 1),
   (lit ''minecraft:splash_potion'', 1),
   (lit ''minecraft:spruce_boat'', 1),
   (lit ''minecraft:spruce_chest_boat'', 1),
   (lit ''minecraft:stone_axe'', 1),
   (lit ''minecraft:stone_hoe'', 1),
   (lit ''minecraft:stone_pickaxe'', 1),
   (lit ''minecraft:stone_shovel'', 1),
   (lit ''minecraft:stone_spear'', 1),
   (lit ''minecraft:stone_sword'', 1),
   (lit ''minecraft:suspicious_stew'', 1),
   (lit ''minecraft:tnt_minecart'', 1),
   (lit ''minecraft:totem_of_undying'', 1),
   (lit ''minecraft:trident'', 1),
   (lit ''minecraft:turtle_helmet'', 1),
   (lit ''minecraft:warped_fungus_on_a_stick'', 1),
   (lit ''minecraft:white_bundle'', 1),
   (lit ''minecraft:white_harness'', 1),
   (lit ''minecraft:wolf_armor'', 1),
   (lit ''minecraft:wooden_axe'', 1),
   (lit ''minecraft:wooden_hoe'', 1),
   (lit ''minecraft:wooden_pickaxe'', 1),
   (lit ''minecraft:wooden_shovel'', 1),
   (lit ''minecraft:wooden_spear'', 1),
   (lit ''minecraft:wooden_sword'', 1),
   (lit ''minecraft:writable_book'', 1),
   (lit ''minecraft:written_book'', 1),
   (lit ''minecraft:yellow_bundle'', 1),
   (lit ''minecraft:yellow_harness'', 1)]"

definition STACK_SIZE_16 :: "(rstring \<times> int) list" where
  "STACK_SIZE_16 =
  [(lit ''minecraft:acacia_hanging_sign'', 16),
   (lit ''minecraft:acacia_sign'', 16),
   (lit ''minecraft:axolotl_bucket'', 16),
   (lit ''minecraft:bamboo_hanging_sign'', 16),
   (lit ''minecraft:bamboo_sign'', 16),
   (lit ''minecraft:birch_hanging_sign'', 16),
   (lit ''minecraft:birch_sign'', 16),
   (lit ''minecraft:bucket'', 16),
   (lit ''minecraft:cherry_hanging_sign'', 16),
   (lit ''minecraft:cherry_sign'', 16),
   (lit ''minecraft:cod_bucket'', 16),
   (lit ''minecraft:crimson_hanging_sign'', 16),
   (lit ''minecraft:crimson_sign'', 16),
   (lit ''minecraft:dark_oak_hanging_sign'', 16),
   (lit ''minecraft:dark_oak_sign'', 16),
   (lit ''minecraft:egg'', 16),
   (lit ''minecraft:ender_pearl'', 16),
   (lit ''minecraft:jungle_hanging_sign'', 16),
   (lit ''minecraft:jungle_sign'', 16),
   (lit ''minecraft:lava_bucket'', 16),
   (lit ''minecraft:mangrove_hanging_sign'', 16),
   (lit ''minecraft:mangrove_sign'', 16),
   (lit ''minecraft:milk_bucket'', 16),
   (lit ''minecraft:oak_hanging_sign'', 16),
   (lit ''minecraft:oak_sign'', 16),
   (lit ''minecraft:pale_oak_hanging_sign'', 16),
   (lit ''minecraft:pale_oak_sign'', 16),
   (lit ''minecraft:powder_snow_bucket'', 16),
   (lit ''minecraft:pufferfish_bucket'', 16),
   (lit ''minecraft:salmon_bucket'', 16),
   (lit ''minecraft:snowball'', 16),
   (lit ''minecraft:spruce_hanging_sign'', 16),
   (lit ''minecraft:spruce_sign'', 16),
   (lit ''minecraft:tadpole_bucket'', 16),
   (lit ''minecraft:tropical_fish_bucket'', 16),
   (lit ''minecraft:warped_hanging_sign'', 16),
   (lit ''minecraft:warped_sign'', 16),
   (lit ''minecraft:water_bucket'', 16)]"

lemma ascending_1: "ascending (map fst STACK_SIZE_1)"
  by (simp add: STACK_SIZE_1_def lit_def)

lemma ascending_16: "ascending (map fst STACK_SIZE_16)"
  by (simp add: STACK_SIZE_16_def lit_def)

section \<open>The lookups\<close>

definition max_stack_size_for_name :: "rstring \<Rightarrow> int" where
  "max_stack_size_for_name item_name =
     (case binary_search_by (\<lambda>e. str_cmp (fst e) item_name) STACK_SIZE_16 of
        Some index \<Rightarrow> snd (STACK_SIZE_16 ! index)
      | None \<Rightarrow>
          (case binary_search_by (\<lambda>e. str_cmp (fst e) item_name) STACK_SIZE_1 of
             Some index \<Rightarrow> snd (STACK_SIZE_1 ! index)
           | None \<Rightarrow> DEFAULT_MAX_STACK_SIZE))"

text \<open>\<open>StackSizeTable\<close>: \<open>(item id, limit)\<close> pairs sorted by id.\<close>

type_synonym stack_size_table = "(int \<times> int) list"

definition empty_table :: stack_size_table where "empty_table = []"

fun resolve_rules :: "item_registry \<Rightarrow> (rstring \<times> int) list \<Rightarrow> (int \<times> int) list server_result" where
  "resolve_rules items [] = Inr []"
| "resolve_rules items ((name, limit) # rules) =
     (case registry_id items name of
        Inl _ \<Rightarrow> Inl CorruptData
      | Inr i \<Rightarrow> and_then (resolve_rules items rules) (\<lambda>by_id. Inr ((i, limit) # by_id)))"

text \<open>\<open>sort_unstable\<close> on pairs: equal pairs cannot be told apart, so the order is unique.\<close>

definition resolve_table :: "item_registry \<Rightarrow> stack_size_table server_result" where
  "resolve_table items =
     and_then (resolve_rules items (STACK_SIZE_1 @ STACK_SIZE_16)) (\<lambda>by_id. Inr (sort by_id))"

definition max_stack_size :: "stack_size_table \<Rightarrow> int \<Rightarrow> int" where
  "max_stack_size t item_id =
     (case binary_search_by (\<lambda>e. int_cmp (fst e) item_id) t of
        None \<Rightarrow> DEFAULT_MAX_STACK_SIZE
      | Some index \<Rightarrow> snd (t ! index))"

text \<open>Every limit of the table is between 1 and 64.\<close>

definition table_ok :: "stack_size_table \<Rightarrow> bool" where
  "table_ok t \<longleftrightarrow> (\<forall>e \<in> set t. 1 \<le> snd e \<and> snd e \<le> 64)"

lemma bsearch_bound: "hi \<le> length xs \<Longrightarrow> bsearch cmp xs lo hi = Some i \<Longrightarrow> i < length xs"
proof (induction cmp xs lo hi rule: bsearch.induct)
  case (1 cmp xs lo hi)
  from "1.prems"(2) show ?case
    by (subst (asm) bsearch.simps)
       (use "1.prems"(1) "1.IH" in \<open>auto simp: Let_def split: if_splits ordering.splits\<close>)
qed

lemma max_stack_size_range: "table_ok t \<Longrightarrow> 1 \<le> max_stack_size t i \<and> max_stack_size t i \<le> 64"
  by (auto simp: max_stack_size_def binary_search_by_def table_ok_def DEFAULT_MAX_STACK_SIZE_def
      split: option.split dest!: bsearch_bound [OF order_refl])

lemma table_ok_empty [simp]: "table_ok empty_table"
  by (simp add: table_ok_def empty_table_def)

lemma max_stack_size_empty [simp]: "max_stack_size empty_table i = 64"
  by (simp add: max_stack_size_def empty_table_def binary_search_by_def bsearch.simps
      DEFAULT_MAX_STACK_SIZE_def)

lemma ordered_ids: "sorted_wrt (<) (map fst t) \<Longrightarrow> ordered_by (\<lambda>e. int_cmp (fst e) i) t"
proof (unfold ordered_by_def, intro allI impI)
  fix a b
  assume s: "sorted_wrt (<) (map fst t)" "a < b" "b < length t" "int_cmp (fst (t ! a)) i \<noteq> Less"
  have "map fst t ! a < map fst t ! b"
    using s(1-3) by (simp only: sorted_wrt_iff_nth_less length_map)
  then have "fst (t ! a) < fst (t ! b)" using s(2,3) by simp
  with s(4) show "int_cmp (fst (t ! b)) i = Greater" by (simp add: int_cmp_def split: if_splits)
qed

lemma table_limits:
  "\<forall>e \<in> set STACK_SIZE_1. snd e = 1" "\<forall>e \<in> set STACK_SIZE_16. snd e = 16"
proof -
  have "list_all (\<lambda>e. snd e = 1) STACK_SIZE_1"
    unfolding STACK_SIZE_1_def by (simp only: list.pred_inject snd_conv simp_thms)
  then show "\<forall>e \<in> set STACK_SIZE_1. snd e = 1" by (simp only: list_all_iff)
  have "list_all (\<lambda>e. snd e = 16) STACK_SIZE_16"
    unfolding STACK_SIZE_16_def by (simp only: list.pred_inject snd_conv simp_thms)
  then show "\<forall>e \<in> set STACK_SIZE_16. snd e = 16" by (simp only: list_all_iff)
qed

lemma tables_length: "length STACK_SIZE_1 = 167" "length STACK_SIZE_16 = 38"
  by (simp_all add: STACK_SIZE_1_def STACK_SIZE_16_def)

lemma max_stack_size_for_name_eq:
  "max_stack_size_for_name n =
     (if n \<in> fst ` set STACK_SIZE_16 then 16 else if n \<in> fst ` set STACK_SIZE_1 then 1 else 64)"
proof -
  have mem: "(case binary_search_by (\<lambda>e. str_cmp (fst e) n) t of Some i \<Rightarrow> Some (snd (t ! i)) | None \<Rightarrow> None)
      = (if n \<in> fst ` set t then Some k else None)"
    if "ascending (map fst t)" "\<forall>e \<in> set t. snd e = k" for t :: "(rstring \<times> int) list" and k
  proof (cases "binary_search_by (\<lambda>e. str_cmp (fst e) n) t")
    case None
    then show ?thesis
      using binary_search_None [OF ordered_names [OF that(1)], of n] by (auto simp: str_cmp_Equal)
  next
    case (Some i)
    from binary_search_Some [OF ordered_names [OF that(1)] Some]
    have "t ! i \<in> set t" "fst (t ! i) = n" by (simp_all add: str_cmp_Equal)
    then show ?thesis using Some that(2) by force
  qed
  show ?thesis
    using mem [OF ascending_16 table_limits(2)] mem [OF ascending_1 table_limits(1)]
    by (auto simp: max_stack_size_for_name_def DEFAULT_MAX_STACK_SIZE_def split: option.splits if_splits)
qed

text \<open>No name is in both tables: their last three letters never agree.\<close>

definition ends_like_16 :: "nat list \<Rightarrow> bool" where
  "ends_like_16 n = (case rev n of
       c # b # a # _ \<Rightarrow> list_ex (\<lambda>w. w = [a, b, c])
         [[105, 103, 110], [107, 101, 116], [101, 103, 103], [97, 114, 108], [97, 108, 108]]
     | _ \<Rightarrow> False)"

lemma ends_16: "list_all ends_like_16 (map fst STACK_SIZE_16)"
  by (simp add: STACK_SIZE_16_def lit_def ends_like_16_def)

lemma ends_1: "list_all (\<lambda>n. \<not> ends_like_16 n) (map fst STACK_SIZE_1)"
  by (simp add: STACK_SIZE_1_def lit_def ends_like_16_def)

lemma ascending_distinct: "ascending xs \<Longrightarrow> distinct xs"
proof (induction xs)
  case (Cons x xs)
  from ascending_Cons [OF Cons.prems] Cons.IH show ?case
    using str_cmp_Equal [of x x] by auto
qed simp

lemma distinct_names: "distinct (map fst (STACK_SIZE_1 @ STACK_SIZE_16))"
proof -
  have "ends_like_16 n" if "n \<in> fst ` set STACK_SIZE_16" for n
    using ends_16 that by (auto simp: list_all_iff)
  moreover have "\<not> ends_like_16 n" if "n \<in> fst ` set STACK_SIZE_1" for n
    using ends_1 that by (auto simp: list_all_iff)
  ultimately have "fst ` set STACK_SIZE_1 \<inter> fst ` set STACK_SIZE_16 = {}" by blast
  then show ?thesis
    using ascending_distinct [OF ascending_1] ascending_distinct [OF ascending_16]
    by (simp add: distinct_append)
qed

section \<open>The resolved table\<close>

lemma resolve_rules_Inr:
  "resolve_rules items rules = Inr ids \<Longrightarrow>
     list_all2 (\<lambda>rule e. registry_id items (fst rule) = Inr (fst e) \<and> snd rule = snd e) rules ids"
proof (induction items rules arbitrary: ids rule: resolve_rules.induct)
  case (2 items name limit rules)
  then show ?case by (auto simp: and_then_Inr split: sum.splits)
qed simp

lemma resolve_rules_mem:
  assumes "resolve_rules items rules = Inr ids"
  shows "(i, l) \<in> set ids \<longleftrightarrow> (\<exists>n. (n, l) \<in> set rules \<and> registry_id items n = Inr i)"
  using resolve_rules_Inr [OF assms]
  by (induction rule: list_all2_induct) fastforce+

definition registry_injective :: "item_registry \<Rightarrow> bool" where
  "registry_injective r \<longleftrightarrow>
     (\<forall>m n i. registry_id r m = Inr i \<longrightarrow> registry_id r n = Inr i \<longrightarrow> m = n)"

lemma resolve_rules_distinct:
  assumes inj: "registry_injective items"
  shows "resolve_rules items rules = Inr ids \<Longrightarrow> distinct (map fst rules) \<Longrightarrow> distinct (map fst ids)"
proof (induction rules arbitrary: ids)
  case (Cons rule rules)
  obtain name limit where rule: "rule = (name, limit)" by (cases rule)
  obtain i ids' where r: "registry_id items name = Inr i" "resolve_rules items rules = Inr ids'"
      "ids = (i, limit) # ids'"
    using Cons.prems(1) rule by (auto simp: and_then_Inr split: sum.splits)
  have "i \<notin> fst ` set ids'"
  proof
    assume "i \<in> fst ` set ids'"
    then obtain l where "(i, l) \<in> set ids'" by force
    then obtain n where "(n, l) \<in> set rules" "registry_id items n = Inr i"
      using resolve_rules_mem [OF r(2)] by blast
    moreover have "n = name" using inj calculation(2) r(1) by (auto simp: registry_injective_def)
    ultimately show False using Cons.prems(2) rule by force
  qed
  then show ?case using Cons.IH [OF r(2)] Cons.prems(2) rule r(3) by simp
qed simp

lemma sorted_pairs: "sorted t \<Longrightarrow> distinct (map fst t) \<Longrightarrow> sorted_wrt (<) (map fst (t :: (int \<times> int) list))"
proof (induction t)
  case (Cons e t)
  have "fst e < fst f" if "f \<in> set t" for f
  proof -
    have "e \<le> f" using Cons.prems(1) that by simp
    then have "fst e \<le> fst f" by (cases e; cases f) (auto simp: less_eq_prod_def)
    moreover have "fst e \<noteq> fst f" using Cons.prems(2) that by force
    ultimately show ?thesis by simp
  qed
  with Cons show ?case by simp
qed simp

lemma resolve_table_Inr:
  assumes "resolve_table items = Inr t" "registry_injective items"
  shows "sorted_wrt (<) (map fst t) \<and> length t = 205 \<and>
    (\<forall>i l. (i, l) \<in> set t \<longleftrightarrow>
      (\<exists>n. (n, l) \<in> set (STACK_SIZE_1 @ STACK_SIZE_16) \<and> registry_id items n = Inr i))"
proof -
  obtain ids where ids: "resolve_rules items (STACK_SIZE_1 @ STACK_SIZE_16) = Inr ids" "t = sort ids"
    using assms(1) by (auto simp: resolve_table_def and_then_Inr)
  have "distinct (map fst ids)"
    by (rule resolve_rules_distinct [OF assms(2) ids(1) distinct_names])
  then have "distinct (map fst t)"
    using ids(2) by (metis distinct_map distinct_sort set_sort)
  then have "sorted_wrt (<) (map fst t)" using ids(2) by (intro sorted_pairs) simp
  moreover have "length ids = length (STACK_SIZE_1 @ STACK_SIZE_16)"
    using list_all2_lengthD [OF resolve_rules_Inr [OF ids(1)]] by simp
  then have "length t = 205" using ids(2) tables_length by simp
  ultimately show ?thesis using resolve_rules_mem [OF ids(1)] ids(2) by simp
qed

lemma resolved_table_ok:
  assumes "resolve_table items = Inr t"
  shows "table_ok t"
proof -
  obtain ids where ids: "resolve_rules items (STACK_SIZE_1 @ STACK_SIZE_16) = Inr ids" "t = sort ids"
    using assms by (auto simp: resolve_table_def and_then_Inr)
  have "l \<in> {1, 16}" if "(i, l) \<in> set t" for i l
    using that ids resolve_rules_mem [OF ids(1)] table_limits by fastforce
  then show ?thesis by (fastforce simp: table_ok_def)
qed

lemma max_stack_size_mem:
  assumes "sorted_wrt (<) (map fst t)"
  shows "(i, l) \<in> set t \<Longrightarrow> max_stack_size t i = l"
    and "i \<notin> fst ` set t \<Longrightarrow> max_stack_size t i = 64"
proof -
  have eq: "int_cmp a b = Equal \<longleftrightarrow> a = b" for a b by (simp add: int_cmp_def)
  note o = ordered_ids [OF assms, of i]
  show "max_stack_size t i = l" if m: "(i, l) \<in> set t"
  proof (cases "binary_search_by (\<lambda>e. int_cmp (fst e) i) t")
    case None
    then show ?thesis using binary_search_None [OF o] m eq by force
  next
    case (Some k)
    note k = binary_search_Some [OF o Some]
    obtain j where j: "j < length t" "t ! j = (i, l)" using m by (auto simp: in_set_conv_nth)
    have "distinct (map fst t)" using assms strict_sorted_iff by blast
    moreover have "map fst t ! k = map fst t ! j" using k j eq by simp
    ultimately have "k = j" using k j by (simp only: nth_eq_iff_index_eq length_map)
    then show ?thesis using Some j by (simp add: max_stack_size_def)
  qed
  show "max_stack_size t i = 64" if "i \<notin> fst ` set t"
    using binary_search_None [OF o] that eq
    by (force simp: max_stack_size_def DEFAULT_MAX_STACK_SIZE_def)
qed

lemma parsed_injective: "parse_registry text = Inr items \<Longrightarrow> registry_injective items"
proof (unfold registry_injective_def, intro allI impI)
  fix m n i
  assume p: "parse_registry text = Inr items" "registry_id items m = Inr i" "registry_id items n = Inr i"
  from registry_id_name [OF p(1,2)] registry_id_name [OF p(1,3)] show "m = n" by simp
qed

text \<open>
  Resolved against a registry whose names have different ids (every parsed registry is
  one, \<open>parsed_injective\<close>), the table has one entry for each of the 205 named exceptions
  (a comment in the file says 165), and its lookup by id agrees with the lookup by name for
  every registered item: 16 for a name of the one table, 1 for a name of the other, 64 for
  any other item.
\<close>

lemma resolved_table_agrees:
  assumes "registry_injective items" "resolve_table items = Inr t"
    and "registry_id items name = Inr i"
  shows "length t = 205 \<and> max_stack_size t i = max_stack_size_for_name name
    \<and> max_stack_size t i =
      (if name \<in> fst ` set STACK_SIZE_16 then 16 else if name \<in> fst ` set STACK_SIZE_1 then 1 else 64)"
proof -
  note t = resolve_table_Inr [OF assms(2,1)]
  have n: "(i, l) \<in> set t \<longleftrightarrow> (name, l) \<in> set (STACK_SIZE_1 @ STACK_SIZE_16)" for l
    using t assms(1,3) by (fastforce simp: registry_injective_def)
  let ?lim = "if name \<in> fst ` set STACK_SIZE_16 then 16 else if name \<in> fst ` set STACK_SIZE_1 then 1 else 64"
  have "max_stack_size t i = ?lim"
  proof (cases "name \<in> fst ` set (STACK_SIZE_1 @ STACK_SIZE_16)")
    case True
    then obtain l where l: "(name, l) \<in> set (STACK_SIZE_1 @ STACK_SIZE_16)" by force
    have "max_stack_size t i = l" using t n l by (intro max_stack_size_mem(1)) blast+
    moreover have "?lim = l"
    proof (cases "(name, l) \<in> set STACK_SIZE_16")
      case True
      then have "name \<in> fst ` set STACK_SIZE_16" by force
      moreover have "l = 16" using table_limits(2) True by fastforce
      ultimately show ?thesis by simp
    next
      case False
      then have l1: "(name, l) \<in> set STACK_SIZE_1" using l by simp
      then have "name \<in> fst ` set STACK_SIZE_1" by force
      moreover have "name \<notin> fst ` set STACK_SIZE_16"
        using distinct_names calculation by (auto simp: distinct_append)
      moreover have "l = 1" using table_limits(1) l1 by fastforce
      ultimately show ?thesis by simp
    qed
    ultimately show ?thesis by simp
  next
    case False
    then have "i \<notin> fst ` set t" using n by force
    then have "max_stack_size t i = 64" using t by (intro max_stack_size_mem(2)) blast+
    with False show ?thesis by (simp add: image_Un)
  qed
  with t max_stack_size_for_name_eq [of name] show ?thesis by simp
qed

text \<open>A registry of exactly the named items.\<close>

definition exception_registry :: item_registry where
  "exception_registry =
     \<lparr>by_name = (\<lambda>n. map_option int (position (\<lambda>m. m = n) (map fst (STACK_SIZE_1 @ STACK_SIZE_16)))),
      by_id = map (\<lambda>e. \<lparr>entry_name = fst e, entry_block = None\<rparr>) (STACK_SIZE_1 @ STACK_SIZE_16)\<rparr>"

lemma resolve_rules_total:
  "\<forall>rule \<in> set rules. is_ok (registry_id items (fst rule)) \<Longrightarrow> \<exists>ids. resolve_rules items rules = Inr ids"
proof (induction rules)
  case (Cons rule rules)
  then obtain ids i where "resolve_rules items rules = Inr ids" "registry_id items (fst rule) = Inr i"
    by (auto simp: is_ok_iff)
  then show ?case by (cases rule) simp
qed simp

lemma exception_registry_injective: "registry_injective exception_registry"
  by (auto simp: registry_injective_def registry_id_def exception_registry_def
      dest!: position_SomeD split: option.splits)

lemma resolved_table_agrees_witness:
  "\<exists>t i. resolve_table exception_registry = Inr t \<and> length t = 205
    \<and> max_stack_size t i = max_stack_size_for_name (fst (hd STACK_SIZE_1))"
proof -
  let ?names = "map fst (STACK_SIZE_1 @ STACK_SIZE_16)"
  have ok: "is_ok (registry_id exception_registry n)" if "n \<in> set ?names" for n
    using that position_None [of "\<lambda>m. m = n" ?names]
    by (cases "position (\<lambda>m. m = n) ?names") (simp_all only: registry_id_def exception_registry_def
        item_registry.simps option.map option.case is_ok_simps, blast)
  then have "\<exists>ids. resolve_rules exception_registry (STACK_SIZE_1 @ STACK_SIZE_16) = Inr ids"
    by (intro resolve_rules_total) auto
  then obtain t where t: "resolve_table exception_registry = Inr t"
    by (auto simp: resolve_table_def)
  have "STACK_SIZE_1 \<noteq> []" using tables_length(1) by fastforce
  then have "fst (hd STACK_SIZE_1) \<in> set ?names" by simp
  with ok obtain i where "registry_id exception_registry (fst (hd STACK_SIZE_1)) = Inr i"
    by (meson is_ok_iff)
  from resolved_table_agrees [OF exception_registry_injective t this] t show ?thesis by blast
qed

end
