(* ===== verification/Inventory.thy ===== *)
theory Inventory
  imports StackSizes
begin

text \<open>
  \<open>crates/entity/src/inventory.rs\<close>: the 41 stored slots of a player, the selected hotbar
  slot, and the operations the click handler, the pickup and the death drop use. An
  index out of range is the error the code returns, never an access: the model's lists are
  read and written only below 41.
\<close>

definition HOTBAR_SLOTS :: nat where "HOTBAR_SLOTS = 9"
definition HOTBAR_LAST :: nat where "HOTBAR_LAST = 8"
definition MAIN_START :: nat where "MAIN_START = 9"
definition MAIN_SLOTS :: nat where "MAIN_SLOTS = 27"
definition ARMOR_START :: nat where "ARMOR_START = 36"
definition ARMOR_SLOTS :: nat where "ARMOR_SLOTS = 4"
definition ARMOR_MENU_START :: nat where "ARMOR_MENU_START = 5"
definition OFFHAND_SLOT :: nat where "OFFHAND_SLOT = 40"
definition LAST_STORED_SLOT :: nat where "LAST_STORED_SLOT = OFFHAND_SLOT"
definition OFFHAND_MENU_SLOT :: nat where "OFFHAND_MENU_SLOT = 45"
definition CONTAINER_SLOT_COUNT :: nat where "CONTAINER_SLOT_COUNT = 46"

lemmas slot_consts = HOTBAR_SLOTS_def HOTBAR_LAST_def MAIN_START_def MAIN_SLOTS_def
  ARMOR_START_def ARMOR_SLOTS_def ARMOR_MENU_START_def OFFHAND_SLOT_def LAST_STORED_SLOT_def
  OFFHAND_MENU_SLOT_def CONTAINER_SLOT_COUNT_def

datatype hand = Main | Off

fun hand_id :: "hand \<Rightarrow> nat" where
  "hand_id Main = 0"
| "hand_id Off = 1"

definition hand_from_id :: "nat \<Rightarrow> hand option" where
  "hand_from_id i = (if i = 0 then Some Main else if i = 1 then Some Off else None)"

record player_inventory =
  slots :: "item_stack list"
  selected_hotbar :: nat
  stack_sizes :: stack_size_table

definition new_inventory :: "stack_size_table \<Rightarrow> player_inventory" where
  "new_inventory t =
     \<lparr>slots = replicate (LAST_STORED_SLOT + 1) EMPTY, selected_hotbar = 0, stack_sizes = t\<rparr>"

definition inventory_for_registry :: "item_registry \<Rightarrow> player_inventory server_result" where
  "inventory_for_registry items = and_then (resolve_table items) (\<lambda>t. Inr (new_inventory t))"

definition inv_slot :: "player_inventory \<Rightarrow> nat \<Rightarrow> item_stack" where
  "inv_slot p index = (if index < length (slots p) then slots p ! index else EMPTY)"

definition limit_for :: "player_inventory \<Rightarrow> item_stack \<Rightarrow> int" where
  "limit_for p s = (case stack_item_id s of None \<Rightarrow> 1 | Some i \<Rightarrow> max_stack_size (stack_sizes p) i)"

definition inv_set_slot :: "player_inventory \<Rightarrow> nat \<Rightarrow> item_stack \<Rightarrow> unit server_result \<times> player_inventory" where
  "inv_set_slot p index s =
     (if index > LAST_STORED_SLOT then (Inl InvalidAction, p)
      else if stack_count s > limit_for p s then (Inl InvalidAction, p)
      else (Inr (), p\<lparr>slots := (slots p)[index := s]\<rparr>))"

definition select :: "player_inventory \<Rightarrow> nat \<Rightarrow> unit server_result \<times> player_inventory" where
  "select p slot =
     (if slot > HOTBAR_LAST then (Inl InvalidAction, p) else (Inr (), p\<lparr>selected_hotbar := slot\<rparr>))"

definition set_selected_hotbar_tolerant :: "player_inventory \<Rightarrow> int \<Rightarrow> player_inventory" where
  "set_selected_hotbar_tolerant p slot =
     p\<lparr>selected_hotbar := (if 0 \<le> slot \<and> slot \<le> 255 \<and> nat slot \<le> HOTBAR_LAST then nat slot else 0)\<rparr>"

definition selected_item :: "player_inventory \<Rightarrow> item_stack" where
  "selected_item p = inv_slot p (selected_hotbar p)"

fun held_item :: "player_inventory \<Rightarrow> hand \<Rightarrow> item_stack" where
  "held_item p Main = selected_item p"
| "held_item p Off = inv_slot p OFFHAND_SLOT"

fun hand_slot :: "hand \<Rightarrow> nat \<Rightarrow> nat" where
  "hand_slot Main selected = selected"
| "hand_slot Off selected = OFFHAND_SLOT"

definition take_held :: "player_inventory \<Rightarrow> hand \<Rightarrow> item_stack \<times> player_inventory" where
  "take_held p h =
     (let index = hand_slot h (selected_hotbar p);
          (held, rest) = stack_take (slots p ! index)
      in (held, p\<lparr>slots := (slots p)[index := rest]\<rparr>))"

definition replace_held :: "player_inventory \<Rightarrow> hand \<Rightarrow> item_stack \<Rightarrow> item_stack \<times> player_inventory" where
  "replace_held p h s =
     (let index = hand_slot h (selected_hotbar p)
      in (slots p ! index, p\<lparr>slots := (slots p)[index := s]\<rparr>))"

fun drain_slots :: "item_stack list \<Rightarrow> item_stack list \<times> item_stack list" where
  "drain_slots [] = ([], [])"
| "drain_slots (s # ss) =
     (let (out, rest) = drain_slots ss
      in if \<not> stack_is_empty s then (s # out, EMPTY # rest) else (out, s # rest))"

definition drain_all :: "player_inventory \<Rightarrow> item_stack list \<times> player_inventory" where
  "drain_all p = (let (out, rest) = drain_slots (slots p) in (out, p\<lparr>slots := rest\<rparr>))"

text \<open>\<open>(0..HOTBAR_SLOTS).chain(MAIN_START..ARMOR_START)\<close>.\<close>

definition candidates :: "nat list" where
  "candidates = [0..<HOTBAR_SLOTS] @ [MAIN_START..<ARMOR_START]"

text \<open>
  The two loops of \<open>add_stack\<close>: the slots, what is left of the stack, and whether the
  function returned from inside the loop.
\<close>

fun top_up :: "int \<Rightarrow> nat list \<Rightarrow> item_stack list \<Rightarrow> item_stack \<Rightarrow> item_stack list \<times> item_stack \<times> bool" where
  "top_up limit [] ss s = (ss, s, False)"
| "top_up limit (i # is) ss s =
     (if \<not> same_item (ss ! i) s then top_up limit is ss s
      else let (_, target, s) = merge_capped (ss ! i) s limit;
               ss = ss[i := target]
           in if stack_is_empty s then (ss, EMPTY, True) else top_up limit is ss s)"

fun fill_empty :: "int \<Rightarrow> nat list \<Rightarrow> item_stack list \<Rightarrow> item_stack \<Rightarrow> item_stack list \<times> item_stack" where
  "fill_empty limit [] ss s = (ss, s)"
| "fill_empty limit (i # is) ss s =
     (if \<not> stack_is_empty (ss ! i) then fill_empty limit is ss s
      else let (_, target, s) = merge_capped EMPTY s limit;
               ss = ss[i := target]
           in if stack_is_empty s then (ss, EMPTY) else fill_empty limit is ss s)"

definition add_stack :: "player_inventory \<Rightarrow> item_stack \<Rightarrow> item_stack \<times> player_inventory" where
  "add_stack p s =
     (if stack_is_empty s then (EMPTY, p)
      else let limit = limit_for p s
      in case top_up limit candidates (slots p) s of
           (ss, s, True) \<Rightarrow> (s, p\<lparr>slots := ss\<rparr>)
         | (ss, s, False) \<Rightarrow>
             (let (ss, s) = fill_empty limit candidates ss s in (s, p\<lparr>slots := ss\<rparr>)))"

definition remove_from_slot :: "player_inventory \<Rightarrow> nat \<Rightarrow> int \<Rightarrow> item_stack server_result \<times> player_inventory" where
  "remove_from_slot p index n =
     (if index > LAST_STORED_SLOT then (Inl InvalidAction, p)
      else if n \<le> 0 then (Inl InvalidAction, p)
      else let (out, rest) = split (slots p ! index) n
           in (Inr out, p\<lparr>slots := (slots p)[index := rest]\<rparr>))"

text \<open>\<open>to_container_payload\<close>, its copies in the order of the code.\<close>

definition copy_range :: "nat \<Rightarrow> nat \<Rightarrow> nat \<Rightarrow> item_stack list \<Rightarrow> item_stack list \<Rightarrow> item_stack list" where
  "copy_range dst src n from to = fold (\<lambda>k out. out[dst + k := from ! (src + k)]) [0..<n] to"

definition to_container_payload :: "player_inventory \<Rightarrow> item_stack list" where
  "to_container_payload p =
     (let payload = replicate CONTAINER_SLOT_COUNT EMPTY;
          payload = copy_range (MAIN_START + MAIN_SLOTS) 0 HOTBAR_SLOTS (slots p) payload;
          payload = copy_range MAIN_START MAIN_START (ARMOR_START - MAIN_START) (slots p) payload;
          payload = copy_range ARMOR_MENU_START ARMOR_START ARMOR_SLOTS (slots p) payload
      in payload[OFFHAND_MENU_SLOT := slots p ! OFFHAND_SLOT])"

section \<open>Invariant\<close>

definition inv_ok :: "player_inventory \<Rightarrow> bool" where
  "inv_ok p \<longleftrightarrow> length (slots p) = 41 \<and> selected_hotbar p \<le> 8 \<and> table_ok (stack_sizes p)
     \<and> (\<forall>s \<in> set (slots p). wf_stack s)"

definition inv_within_limits :: "player_inventory \<Rightarrow> bool" where
  "inv_within_limits p \<longleftrightarrow> (\<forall>s \<in> set (slots p). st_count s \<le> limit_for p s)"

definition inv_weight :: "(int \<Rightarrow> item_components \<Rightarrow> bool) \<Rightarrow> player_inventory \<Rightarrow> int" where
  "inv_weight P p = sum_list (map (weight P) (slots p))"

lemma limit_range: "inv_ok p \<Longrightarrow> 1 \<le> limit_for p s \<and> limit_for p s \<le> 64"
  using max_stack_size_range by (auto simp: inv_ok_def limit_for_def split: option.split)

lemma new_inventory_ok: "table_ok t \<Longrightarrow> inv_ok (new_inventory t) \<and> inv_within_limits (new_inventory t)"
  by (auto simp: inv_ok_def inv_within_limits_def new_inventory_def slot_consts limit_for_def
      stack_item_id_def stack_consts)

lemma candidates_lt: "i \<in> set candidates \<Longrightarrow> i < 36"
  by (auto simp: candidates_def slot_consts)

lemma candidates_distinct: "distinct candidates"
  by (auto simp: candidates_def slot_consts)

section \<open>Insertion conserves and is complete\<close>

abbreviation wf_slots :: "item_stack list \<Rightarrow> bool" where
  "wf_slots ss \<equiv> \<forall>s \<in> set ss. wf_stack s"

abbreviation slots_weight :: "(int \<Rightarrow> item_components \<Rightarrow> bool) \<Rightarrow> item_stack list \<Rightarrow> int" where
  "slots_weight P ss \<equiv> sum_list (map (weight P) ss)"

definition step_ok :: "(int \<Rightarrow> item_components \<Rightarrow> bool) \<Rightarrow> item_stack list \<Rightarrow> item_stack \<Rightarrow> item_stack list \<Rightarrow> item_stack \<Rightarrow> bool" where
  "step_ok P ss s ss' s' \<longleftrightarrow> wf_slots ss' \<and> wf_stack s' \<and> length ss' = length ss
     \<and> slots_weight P ss' + weight P s' = slots_weight P ss + weight P s
     \<and> (s' \<noteq> EMPTY \<longrightarrow> st_item s' = st_item s \<and> st_comps s' = st_comps s)"

lemma step_ok_refl: "wf_slots ss \<Longrightarrow> wf_stack s \<Longrightarrow> step_ok P ss s ss s"
  by (simp add: step_ok_def)

lemma step_ok_trans: "step_ok P ss s ss' s' \<Longrightarrow> step_ok P ss' s' ss'' s'' \<Longrightarrow> step_ok P ss s ss'' s''"
  using wf_nonempty [of s''] by (auto simp: step_ok_def)

lemma step_ok_EMPTY: "step_ok P ss s ss' s' \<Longrightarrow> stack_is_empty s' \<Longrightarrow> step_ok P ss s ss' EMPTY"
  using wf_empty [of s'] by (auto simp: step_ok_def)

lemma merge_at:
  assumes "class_pred P" "wf_slots ss" "wf_stack s" "i < length ss"
    and "merge_capped (ss ! i) s limit = (left, target, s')"
  shows "step_ok P ss s (ss[i := target]) s'"
proof -
  have "wf_stack (ss ! i)" using assms(2,4) by simp
  note m = merge_spec [OF this assms(3,5,1)] and it = merge_items [OF this assms(3,5)]
  from m have wfs: "wf_slots (ss[i := target])" "wf_stack s'"
    using assms(2) by (auto intro: set_update_Ball [rule_format])
  moreover have "slots_weight P (ss[i := target]) + weight P s' = slots_weight P ss + weight P s"
    using m sum_list_update_int [OF assms(4), of "weight P" target] by simp
  ultimately show ?thesis using it by (simp add: step_ok_def)
qed

text \<open>Slots other than the visited ones keep their stacks; a visited slot keeps its item.\<close>

definition same_elsewhere :: "nat set \<Rightarrow> item_stack list \<Rightarrow> item_stack list \<Rightarrow> bool" where
  "same_elsewhere A ss ss' \<longleftrightarrow> (\<forall>j. j \<notin> A \<longrightarrow> ss' ! j = ss ! j)"

lemma top_up_spec:
  assumes P: "class_pred P"
  shows "wf_slots ss \<Longrightarrow> wf_stack s \<Longrightarrow> \<forall>i \<in> set is. i < length ss \<Longrightarrow>
    top_up limit is ss s = (ss', s', ret) \<Longrightarrow>
    step_ok P ss s ss' s' \<and> same_elsewhere (set is) ss ss' \<and> (ret \<longrightarrow> s' = EMPTY)"
proof (induction "is" arbitrary: ss s)
  case Nil
  then show ?case by (simp add: step_ok_refl same_elsewhere_def)
next
  case (Cons i "is")
  show ?case
  proof (cases "same_item (ss ! i) s")
    case False
    with Cons show ?thesis by (auto simp: same_elsewhere_def)
  next
    case True
    obtain l target s1 where m: "merge_capped (ss ! i) s limit = (l, target, s1)"
      by (cases "merge_capped (ss ! i) s limit")
    have st: "step_ok P ss s (ss[i := target]) s1"
      using Cons.prems by (intro merge_at [OF P _ _ _ m]) simp_all
    show ?thesis
    proof (cases "stack_is_empty s1")
      case e: True
      then have "ss' = ss[i := target]" "s' = EMPTY" "ret"
        using Cons.prems(4) True m by simp_all
      with step_ok_EMPTY [OF st e] show ?thesis by (simp add: same_elsewhere_def)
    next
      case False
      then have "top_up limit is (ss[i := target]) s1 = (ss', s', ret)"
        using Cons.prems(4) True m by simp
      with Cons.IH [of "ss[i := target]" s1] Cons.prems(3) st
      have "step_ok P (ss[i := target]) s1 ss' s'" "same_elsewhere (set is) (ss[i := target]) ss'"
        "ret \<longrightarrow> s' = EMPTY"
        by (auto simp: step_ok_def)
      with step_ok_trans [OF st] show ?thesis by (auto simp: same_elsewhere_def)
    qed
  qed
qed

lemma fill_empty_spec:
  assumes P: "class_pred P"
  shows "wf_slots ss \<Longrightarrow> wf_stack s \<Longrightarrow> \<forall>i \<in> set is. i < length ss \<Longrightarrow>
    fill_empty limit is ss s = (ss', s') \<Longrightarrow>
    step_ok P ss s ss' s' \<and> same_elsewhere (set is) ss ss'"
proof (induction "is" arbitrary: ss s)
  case Nil
  then show ?case by (simp add: step_ok_refl same_elsewhere_def)
next
  case (Cons i "is")
  show ?case
  proof (cases "stack_is_empty (ss ! i)")
    case False
    with Cons show ?thesis by (auto simp: same_elsewhere_def)
  next
    case True
    have "wf_stack (ss ! i)" using Cons.prems by simp
    then have e: "ss ! i = EMPTY" using True wf_empty by blast
    obtain l target s1 where m: "merge_capped EMPTY s limit = (l, target, s1)"
      by (cases "merge_capped EMPTY s limit")
    have st: "step_ok P ss s (ss[i := target]) s1"
      using Cons.prems m by (intro merge_at [OF P]) (simp_all add: e)
    show ?thesis
    proof (cases "stack_is_empty s1")
      case e1: True
      then have "ss' = ss[i := target]" "s' = EMPTY" using Cons.prems(4) True m by simp_all
      with step_ok_EMPTY [OF st e1] show ?thesis by (simp add: same_elsewhere_def)
    next
      case False
      then have "fill_empty limit is (ss[i := target]) s1 = (ss', s')"
        using Cons.prems(4) True m by simp
      with Cons.IH [of "ss[i := target]" s1] Cons.prems(3) st
      have "step_ok P (ss[i := target]) s1 ss' s'" "same_elsewhere (set is) (ss[i := target]) ss'"
        by (auto simp: step_ok_def)
      with step_ok_trans [OF st] show ?thesis by (auto simp: same_elsewhere_def)
    qed
  qed
qed

lemma same_item_step:
  "step_ok P ss s ss' s' \<Longrightarrow> wf_stack x \<Longrightarrow> same_item x s' \<Longrightarrow> same_item x s"
  using wf_empty [of x] wf_nonempty [of x] by (cases "s' = EMPTY") (auto simp: same_item_def step_ok_def)

lemma top_up_full:
  "wf_slots ss \<Longrightarrow> wf_stack s \<Longrightarrow> \<forall>i \<in> set is. i < length ss \<Longrightarrow> distinct is \<Longrightarrow>
    1 \<le> limit \<Longrightarrow> limit \<le> 64 \<Longrightarrow> top_up limit is ss s = (ss', s', False) \<Longrightarrow>
    \<forall>i \<in> set is. same_item (ss' ! i) s' \<longrightarrow> limit \<le> st_count (ss' ! i)"
proof (induction "is" arbitrary: ss s)
  case Nil
  then show ?case by simp
next
  case (Cons i "is")
  have P: "class_pred (\<lambda>_ _. True)" by (simp add: class_pred_def)
  show ?case
  proof (cases "same_item (ss ! i) s")
    case False
    then have r: "top_up limit is ss s = (ss', s', False)" using Cons.prems(7) by simp
    have sp: "step_ok (\<lambda>_ _. True) ss s ss' s'" "same_elsewhere (set is) ss ss'"
      using top_up_spec [OF P Cons.prems(1,2) _ r] Cons.prems(3) by simp_all
    have "ss' ! i = ss ! i" using sp(2) Cons.prems(4) by (simp add: same_elsewhere_def)
    moreover have "wf_stack (ss ! i)" using Cons.prems(1,3) by simp
    ultimately have "\<not> same_item (ss' ! i) s'" using same_item_step [OF sp(1)] False by auto
    moreover have "\<forall>i \<in> set is. same_item (ss' ! i) s' \<longrightarrow> limit \<le> st_count (ss' ! i)"
      using Cons.prems by (intro Cons.IH [OF _ _ _ _ _ _ r]) simp_all
    ultimately show ?thesis by simp
  next
    case True
    obtain l target s1 where m: "merge_capped (ss ! i) s limit = (l, target, s1)"
      by (cases "merge_capped (ss ! i) s limit")
    have wfi: "wf_stack (ss ! i)" using Cons.prems(1,3) by simp
    have ne: "\<not> stack_is_empty s1"
      using Cons.prems(7) True m by (auto split: if_splits)
    then have r: "top_up limit is (ss[i := target]) s1 = (ss', s', False)"
      using Cons.prems(7) True m by simp
    have st: "step_ok (\<lambda>_ _. True) ss s (ss[i := target]) s1"
      using Cons.prems by (intro merge_at [OF P _ _ _ m]) simp_all
    then have wf1: "wf_slots (ss[i := target])" "wf_stack s1" by (simp_all add: step_ok_def)
    have sp: "same_elsewhere (set is) (ss[i := target]) ss'"
      using top_up_spec [OF P wf1 _ r] Cons.prems(3) by simp
    have "ss' ! i = target" using sp Cons.prems(3,4) by (simp add: same_elsewhere_def)
    moreover have "limit \<le> st_count target"
      using merge_items [OF wfi Cons.prems(2) m] ne True Cons.prems(5,6) wf_empty [OF wf1(2)] by auto
    moreover have "\<forall>i \<in> set is. same_item (ss' ! i) s' \<longrightarrow> limit \<le> st_count (ss' ! i)"
      using Cons.prems wf1 by (intro Cons.IH [OF _ _ _ _ _ _ r]) simp_all
    ultimately show ?thesis by simp
  qed
qed

lemma fill_empty_full:
  "wf_slots ss \<Longrightarrow> wf_stack s \<Longrightarrow> s \<noteq> EMPTY \<Longrightarrow> \<forall>i \<in> set is. i < length ss \<Longrightarrow> distinct is \<Longrightarrow>
    1 \<le> limit \<Longrightarrow> limit \<le> 64 \<Longrightarrow> fill_empty limit is ss s = (ss', s') \<Longrightarrow> s' \<noteq> EMPTY \<Longrightarrow>
    \<forall>i \<in> set is. ss' ! i \<noteq> EMPTY \<and> (if ss ! i = EMPTY then limit \<le> st_count (ss' ! i) else ss' ! i = ss ! i)"
proof (induction "is" arbitrary: ss s)
  case Nil
  then show ?case by simp
next
  case (Cons i "is")
  have P: "class_pred (\<lambda>_ _. True)" by (simp add: class_pred_def)
  have wfi: "wf_stack (ss ! i)" using Cons.prems(1,4) by simp
  show ?case
  proof (cases "ss ! i = EMPTY")
    case False
    then have r: "fill_empty limit is ss s = (ss', s')"
      using Cons.prems(8) wf_empty [OF wfi] by simp
    have "same_elsewhere (set is) ss ss'"
      using fill_empty_spec [OF P Cons.prems(1,2) _ r] Cons.prems(4) by simp
    then have "ss' ! i = ss ! i" using Cons.prems(5) by (simp add: same_elsewhere_def)
    moreover have "\<forall>i \<in> set is. ss' ! i \<noteq> EMPTY \<and>
        (if ss ! i = EMPTY then limit \<le> st_count (ss' ! i) else ss' ! i = ss ! i)"
      using Cons.prems by (intro Cons.IH [OF _ _ _ _ _ _ _ r]) simp_all
    ultimately show ?thesis using False by simp
  next
    case True
    obtain l target s1 where m: "merge_capped EMPTY s limit = (l, target, s1)"
      by (cases "merge_capped EMPTY s limit")
    have ne: "\<not> stack_is_empty s1"
      using Cons.prems(8,9) True m by (auto split: if_splits)
    then have r: "fill_empty limit is (ss[i := target]) s1 = (ss', s')"
      using Cons.prems(8) True m by simp
    have st: "step_ok (\<lambda>_ _. True) ss s (ss[i := target]) s1"
      using Cons.prems m by (intro merge_at [OF P]) (simp_all add: True)
    then have wf1: "wf_slots (ss[i := target])" "wf_stack s1" by (simp_all add: step_ok_def)
    have ne1: "s1 \<noteq> EMPTY" using ne by auto
    have sp: "same_elsewhere (set is) (ss[i := target]) ss'"
      using fill_empty_spec [OF P wf1 _ r] Cons.prems(4) by simp
    have "ss' ! i = target" using sp Cons.prems(4,5) by (simp add: same_elsewhere_def)
    moreover have "limit \<le> st_count target" "target \<noteq> EMPTY"
      using merge_items [OF _ Cons.prems(2) m] ne1 Cons.prems(3,6,7) by auto
    moreover have other: "\<forall>j \<in> set is. (ss[i := target]) ! j = ss ! j"
      using Cons.prems(5) by (auto intro!: nth_list_update_neq)
    moreover have "\<forall>j \<in> set is. ss' ! j \<noteq> EMPTY \<and>
        (if (ss[i := target]) ! j = EMPTY then limit \<le> st_count (ss' ! j) else ss' ! j = (ss[i := target]) ! j)"
      using Cons.prems wf1 ne1 by (intro Cons.IH [OF _ _ _ _ _ _ _ r]) simp_all
    ultimately show ?thesis using True by simp
  qed
qed

text \<open>
  C10. Picking a stack up conserves items: for every class of stacks that merge together
  (every predicate on item id and components that respects component equality), what the
  inventory gains is exactly what the stack loses. The slots and the leftover are
  well formed, only hotbar and main slots change, and a leftover is refused only when no
  candidate slot is empty and every slot of the same item is at the item's limit.
\<close>

theorem add_stack_conserves:
  assumes "class_pred P" "inv_ok p" "wf_stack s" "add_stack p s = (left, p')"
  shows "inv_ok p' \<and> wf_stack left
    \<and> inv_weight P p' + weight P left = inv_weight P p + weight P s
    \<and> (\<forall>j. j \<notin> set candidates \<longrightarrow> slots p' ! j = slots p ! j)
    \<and> (left \<noteq> EMPTY \<longrightarrow> (\<forall>i \<in> set candidates. slots p' ! i \<noteq> EMPTY
          \<and> (same_item (slots p' ! i) left \<longrightarrow> limit_for p s \<le> st_count (slots p' ! i))))"
proof (cases "stack_is_empty s")
  case True
  then have "s = EMPTY" using assms(3) wf_empty by blast
  with assms True show ?thesis by (simp add: add_stack_def)
next
  case False
  then have ne: "s \<noteq> EMPTY" by auto
  let ?l = "limit_for p s"
  have l: "1 \<le> ?l" "?l \<le> 64" using limit_range [OF assms(2)] by simp_all
  have wf: "wf_slots (slots p)" "length (slots p) = 41" using assms(2) by (simp_all add: inv_ok_def)
  have idx: "\<forall>i \<in> set candidates. i < length (slots p)" using candidates_lt wf(2) by fastforce
  obtain ss1 s1 ret where t: "top_up ?l candidates (slots p) s = (ss1, s1, ret)"
    by (cases "top_up ?l candidates (slots p) s")
  have t1: "step_ok P (slots p) s ss1 s1" "same_elsewhere (set candidates) (slots p) ss1" "ret \<longrightarrow> s1 = EMPTY"
    using top_up_spec [OF assms(1) wf(1) assms(3) idx t] by blast+
  show ?thesis
  proof (cases ret)
    case True
    then have "p' = p\<lparr>slots := ss1\<rparr>" "left = EMPTY"
      using assms(4) False t t1(3) by (simp_all add: add_stack_def Let_def)
    with t1 True assms(2) show ?thesis
      by (simp add: step_ok_def inv_ok_def inv_weight_def same_elsewhere_def)
  next
    case nret: False
    obtain ss2 s2 where f: "fill_empty ?l candidates ss1 s1 = (ss2, s2)"
      by (cases "fill_empty ?l candidates ss1 s1")
    have res: "p' = p\<lparr>slots := ss2\<rparr>" "left = s2"
      using assms(4) False t nret f by (simp_all add: add_stack_def Let_def)
    have wf1: "wf_slots ss1" "wf_stack s1" "length ss1 = 41" using t1(1) wf(2) by (simp_all add: step_ok_def)
    have idx1: "\<forall>i \<in> set candidates. i < length ss1" using idx wf(2) wf1(3) by simp
    have f1: "step_ok P ss1 s1 ss2 s2" "same_elsewhere (set candidates) ss1 ss2"
      using fill_empty_spec [OF assms(1) wf1(1,2) idx1 f] by blast+
    note all = step_ok_trans [OF t1(1) f1(1)]
    have full: "slots p' ! i \<noteq> EMPTY \<and> (same_item (slots p' ! i) left \<longrightarrow> ?l \<le> st_count (slots p' ! i))"
      if "left \<noteq> EMPTY" "i \<in> set candidates" for i
    proof -
      have s1: "s1 \<noteq> EMPTY"
      proof
        assume "s1 = EMPTY"
        then have "st_item s2 = 0" if "s2 \<noteq> EMPTY" using f1(1) that by (simp add: step_ok_def)
        with f1(1) \<open>left \<noteq> EMPTY\<close> res(2) wf_nonempty [of s2] show False by (simp add: step_ok_def)
      qed
      have e: "ss2 ! i \<noteq> EMPTY \<and> (if ss1 ! i = EMPTY then ?l \<le> st_count (ss2 ! i) else ss2 ! i = ss1 ! i)"
        using fill_empty_full [OF wf1(1,2) s1 idx1 candidates_distinct l f] that res(2) by blast
      have "same_item (ss1 ! i) s1 \<longrightarrow> ?l \<le> st_count (ss1 ! i)"
        using top_up_full [OF wf(1) assms(3) idx candidates_distinct l] t nret that(2) by simp
      moreover have "wf_stack (ss1 ! i)" using wf1(1) idx1 that(2) by simp
      ultimately have "same_item (ss1 ! i) s2 \<longrightarrow> ?l \<le> st_count (ss1 ! i)"
        using same_item_step [OF f1(1)] by blast
      with e show ?thesis by (simp add: res split: if_splits)
    qed
    from all t1(2) f1(2) assms(2) full show ?thesis
      by (simp add: res step_ok_def inv_ok_def inv_weight_def same_elsewhere_def)
  qed
qed

theorem add_stack_conserves_witness:
  "\<exists>left p'. add_stack (new_inventory empty_table) \<lparr>st_item = 7, st_count = 5, st_comps = []\<rparr> = (left, p')
    \<and> inv_ok p' \<and> inv_weight (\<lambda>i _. i = 7) p' + weight (\<lambda>i _. i = 7) left = 5"
proof -
  let ?p = "new_inventory empty_table" and ?s = "\<lparr>st_item = 7, st_count = 5, st_comps = []\<rparr>"
  obtain left p' where a: "add_stack ?p ?s = (left, p')" by (cases "add_stack ?p ?s")
  have "inv_ok ?p" using new_inventory_ok by simp
  moreover have "wf_stack ?s" by (simp add: wf_stack_def)
  moreover have "inv_weight (\<lambda>i _. i = 7) ?p = 0"
    by (simp add: inv_weight_def new_inventory_def sum_list_replicate)
  moreover have "weight (\<lambda>i _. i = 7) ?s = 5" by (simp add: weight_def stack_count_def stack_consts)
  ultimately show ?thesis
    using add_stack_conserves [OF class_pred_item [of "\<lambda>i. i = 7"] _ _ a] a by simp
qed

section \<open>The other operations\<close>

lemma set_update_wf: "wf_slots ss \<Longrightarrow> wf_stack s \<Longrightarrow> wf_slots (ss[i := s])"
  by (auto intro: set_update_Ball [rule_format])

lemma inv_set_slot_ok: "inv_ok p \<Longrightarrow> wf_stack s \<Longrightarrow> inv_ok (snd (inv_set_slot p i s))"
  by (auto simp: inv_set_slot_def inv_ok_def intro: set_update_Ball [rule_format])

lemma select_ok: "inv_ok p \<Longrightarrow> inv_ok (snd (select p n)) \<and> inv_ok (set_selected_hotbar_tolerant p i)"
  by (auto simp: select_def set_selected_hotbar_tolerant_def inv_ok_def slot_consts)

lemma hand_slot_lt: "inv_ok p \<Longrightarrow> hand_slot h (selected_hotbar p) < length (slots p)"
  by (cases h) (auto simp: inv_ok_def slot_consts)

lemma held_item_slot: "inv_ok p \<Longrightarrow> held_item p h = slots p ! hand_slot h (selected_hotbar p)"
  using hand_slot_lt [of p h] by (cases h) (auto simp: selected_item_def inv_slot_def)

text \<open>A swap of a hand returns what the hand held; items are neither made nor lost.\<close>

lemma replace_held_conserves:
  assumes "inv_ok p" "wf_stack s" "replace_held p h s = (old, p')"
  shows "inv_ok p' \<and> old = held_item p h \<and> wf_stack old
    \<and> inv_weight P p' + weight P old = inv_weight P p + weight P s"
proof -
  let ?i = "hand_slot h (selected_hotbar p)"
  have r: "old = slots p ! ?i" "p' = p\<lparr>slots := (slots p)[?i := s]\<rparr>"
    using assms(3) by (simp_all add: replace_held_def Let_def)
  note lt = hand_slot_lt [OF assms(1), of h]
  have "wf_slots ((slots p)[?i := s])"
    using assms(1,2) by (intro set_update_wf) (simp_all add: inv_ok_def)
  moreover have "wf_stack old" using assms(1) lt r by (simp add: inv_ok_def)
  ultimately show ?thesis
    using assms(1) lt sum_list_update_int [OF lt, of "weight P" s] held_item_slot [OF assms(1), of h]
    by (simp add: r inv_ok_def inv_weight_def)
qed

lemma remove_from_slot_conserves:
  assumes "inv_ok p" "remove_from_slot p i n = (Inr out, p')"
  shows "inv_ok p' \<and> wf_stack out \<and> st_count out \<le> n
    \<and> inv_weight P p' + weight P out = inv_weight P p"
proof -
  obtain rest where sp: "split (slots p ! i) n = (out, rest)" and i: "i < 41" "0 < n"
      and p': "p' = p\<lparr>slots := (slots p)[i := rest]\<rparr>"
    using assms(2) by (auto simp: remove_from_slot_def slot_consts Let_def split: if_splits prod.splits)
  have lt: "i < length (slots p)" using assms(1) i by (simp add: inv_ok_def)
  then have "wf_stack (slots p ! i)" using assms(1) by (simp add: inv_ok_def)
  note ss = split_spec [OF this sp, of P]
  have "wf_slots ((slots p)[i := rest])"
    using assms(1) ss by (intro set_update_wf) (simp_all add: inv_ok_def)
  then show ?thesis
    using assms(1) ss i sum_list_update_int [OF lt, of "weight P" rest]
    by (simp add: p' inv_ok_def inv_weight_def)
qed

lemma drain_slots_spec:
  "wf_slots ss \<Longrightarrow> drain_slots ss = (out, rest) \<Longrightarrow>
    rest = replicate (length ss) EMPTY \<and> wf_slots out \<and> EMPTY \<notin> set out
    \<and> slots_weight P out = slots_weight P ss"
proof (induction ss arbitrary: out rest)
  case (Cons s ss)
  obtain o1 r1 where d: "drain_slots ss = (o1, r1)" by (cases "drain_slots ss")
  from Cons.IH [OF _ d] Cons.prems d wf_empty [of s] show ?case
    by (auto split: if_splits)
qed simp

lemma drain_all_spec:
  assumes "inv_ok p" "drain_all p = (out, p')"
  shows "inv_ok p' \<and> slots p' = replicate 41 EMPTY \<and> wf_slots out \<and> EMPTY \<notin> set out
    \<and> slots_weight P out = inv_weight P p"
proof -
  obtain o1 r1 where d: "drain_slots (slots p) = (o1, r1)" by (cases "drain_slots (slots p)")
  have wf: "wf_slots (slots p)" using assms(1) by (simp add: inv_ok_def)
  from drain_slots_spec [OF wf d, of P] assms d show ?thesis
    by (auto simp: drain_all_def inv_ok_def inv_weight_def)
qed

section \<open>The client's window\<close>

lemma length_copy_range [simp]: "length (copy_range d s n xs ys) = length ys"
  by (induction n) (simp_all add: copy_range_def)

lemma nth_copy_range:
  "d + n \<le> length ys \<Longrightarrow>
     copy_range d s n xs ys ! k = (if d \<le> k \<and> k < d + n then xs ! (s + (k - d)) else ys ! k)"
proof (induction n)
  case 0
  then show ?case by (auto simp: copy_range_def)
next
  case (Suc n)
  have "copy_range d s (Suc n) xs ys = (copy_range d s n xs ys)[d + n := xs ! (s + n)]"
    by (simp add: copy_range_def)
  with Suc show ?case by (auto simp: nth_list_update)
qed

lemma payload_nth:
  assumes "inv_ok p" "k < 46"
  shows "length (to_container_payload p) = 46 \<and>
    to_container_payload p ! k =
      (if k < 5 then EMPTY else if k < 9 then slots p ! (31 + k) else if k < 36 then slots p ! k
       else if k < 45 then slots p ! (k - 36) else slots p ! 40)"
  using assms by (auto simp: to_container_payload_def Let_def slot_consts nth_copy_range nth_list_update)

text \<open>
  The window payload lists 46 stacks in the documented places: armour at 5 to 8 (boots
  first), the main inventory at 9 to 35, the hotbar at 36 to 44, the offhand at 45, and the
  crafting result and grid (0 to 4) are empty.
\<close>

lemma payload_layout:
  assumes "inv_ok p" "k < 46"
  shows "length (to_container_payload p) = 46 \<and>
    to_container_payload p ! k =
      (if k < 5 then EMPTY else if k < 9 then slots p ! (31 + k) else if k < 36 then slots p ! k
       else if k < 45 then slots p ! (k - 36) else slots p ! 40)"
  by (rule payload_nth [OF assms])

lemma payload_layout_witness:
  "to_container_payload (new_inventory empty_table) ! 45 = EMPTY"
  using payload_layout [of "new_inventory empty_table" 45] new_inventory_ok [of empty_table]
  by (simp add: new_inventory_def slot_consts)

end
