(* ===== verification/Container.thy ===== *)
theory Container
  imports Inventory
begin

text \<open>
  \<open>crates/container/src/container.rs\<close>: a bounded list of stacks that remembers which
  slots changed, and the slot roles that say who may place into a slot. The set of changed
  slots is a set of naturals (the code's \<open>BTreeSet<u16>\<close>). \<open>set\<close> compares before it
  writes, with the equality of stacks.
\<close>

definition MAX_CONTAINER_SLOTS :: nat where "MAX_CONTAINER_SLOTS = 54"

datatype container_kind = Kind_Player | Kind_Generic | Kind_Crafting | Kind_Furnace

fun default_slots :: "container_kind \<Rightarrow> nat option" where
  "default_slots Kind_Player = Some 41"
| "default_slots Kind_Generic = None"
| "default_slots Kind_Crafting = Some 10"
| "default_slots Kind_Furnace = Some 3"

definition is_block_entity :: "container_kind \<Rightarrow> bool" where
  "is_block_entity k \<longleftrightarrow> k = Kind_Generic \<or> k = Kind_Furnace"

datatype slot_role =
    Storage | Armor | Offhand | CraftingInput | CraftingResult
  | FurnaceInput | FurnaceFuel | FurnaceOutput

definition may_place :: "slot_role \<Rightarrow> bool" where
  "may_place r = (\<not> (r = CraftingResult \<or> r = FurnaceOutput))"

definition may_pickup :: "slot_role \<Rightarrow> bool" where
  "may_pickup r = True"

definition may_hopper_extract :: "slot_role \<Rightarrow> bool" where
  "may_hopper_extract r = (\<not> (r = FurnaceInput \<or> r = FurnaceFuel))"

definition is_computed :: "slot_role \<Rightarrow> bool" where
  "is_computed r = (r = CraftingResult \<or> r = FurnaceOutput)"

record container =
  ct_kind :: container_kind
  ct_slots :: "item_stack list"
  ct_changed :: "nat set"

definition new_container :: "container_kind \<Rightarrow> nat \<Rightarrow> container server_result" where
  "new_container kind sz =
     (if sz = 0 \<or> sz > MAX_CONTAINER_SLOTS then Inl Invariant
      else Inr \<lparr>ct_kind = kind, ct_slots = replicate sz EMPTY, ct_changed = {}\<rparr>)"

definition with_default_size :: "container_kind \<Rightarrow> container server_result" where
  "with_default_size kind =
     (case default_slots kind of None \<Rightarrow> Inl Invariant | Some sz \<Rightarrow> new_container kind sz)"

definition ct_len :: "container \<Rightarrow> nat" where
  "ct_len c = length (ct_slots c)"

definition ct_get :: "container \<Rightarrow> nat \<Rightarrow> item_stack" where
  "ct_get c index = (if index < length (ct_slots c) then ct_slots c ! index else EMPTY)"

definition ct_set :: "container \<Rightarrow> nat \<Rightarrow> item_stack \<Rightarrow> unit server_result \<times> container" where
  "ct_set c index s =
     (if index < length (ct_slots c) then
        (if \<not> stack_eq (ct_slots c ! index) s then
           (Inr (), c\<lparr>ct_slots := (ct_slots c)[index := s],
                     ct_changed := insert (as_u16 index) (ct_changed c)\<rparr>)
         else (Inr (), c))
      else (Inl InvalidAction, c))"

definition clear_changed :: "container \<Rightarrow> container" where
  "clear_changed c = c\<lparr>ct_changed := {}\<rparr>"

definition mark_changed :: "container \<Rightarrow> nat \<Rightarrow> container" where
  "mark_changed c index =
     (if index < length (ct_slots c) then c\<lparr>ct_changed := insert (as_u16 index) (ct_changed c)\<rparr> else c)"

definition ct_total_items :: "container \<Rightarrow> int" where
  "ct_total_items c = sum_list (map stack_count (ct_slots c))"

definition non_empty :: "container \<Rightarrow> (nat \<times> item_stack) list" where
  "non_empty c = filter (\<lambda>(i, s). \<not> stack_is_empty s) (enumerate 0 (ct_slots c))"

definition ct_swap :: "container \<Rightarrow> nat \<Rightarrow> nat \<Rightarrow> unit server_result \<times> container" where
  "ct_swap c a b =
     (if a \<ge> length (ct_slots c) \<or> b \<ge> length (ct_slots c) then (Inl InvalidAction, c)
      else if a = b then (Inr (), c)
      else (Inr (), c\<lparr>ct_slots := (ct_slots c)[a := ct_slots c ! b, b := ct_slots c ! a],
                     ct_changed := insert (as_u16 b) (insert (as_u16 a) (ct_changed c))\<rparr>))"

definition ct_clear :: "container \<Rightarrow> container" where
  "ct_clear c =
     c\<lparr>ct_slots := map (\<lambda>s. if stack_is_empty s then s else EMPTY) (ct_slots c),
       ct_changed := ct_changed c \<union> set (map (\<lambda>(i, s). as_u16 i) (non_empty c))\<rparr>"

section \<open>Invariant and weights\<close>

definition ct_ok :: "container \<Rightarrow> bool" where
  "ct_ok c \<longleftrightarrow> wf_slots (ct_slots c)"

definition ct_weight :: "(int \<Rightarrow> item_components \<Rightarrow> bool) \<Rightarrow> container \<Rightarrow> int" where
  "ct_weight P c = slots_weight P (ct_slots c)"

lemma new_container_spec:
  "new_container kind sz = Inr c \<Longrightarrow>
     ct_ok c \<and> ct_weight P c = 0 \<and> length (ct_slots c) = sz \<and> ct_slots c = replicate sz EMPTY
     \<and> ct_changed c = {}"
  by (auto simp: new_container_def ct_ok_def ct_weight_def sum_list_replicate split: if_splits)

lemma weight_stack_eq: "class_pred P \<Longrightarrow> stack_eq a b \<Longrightarrow> weight P a = weight P b"
  by (auto simp: stack_eq_def weight_def stack_count_def dest: class_predD)

lemma ct_get_wf: "ct_ok c \<Longrightarrow> wf_stack (ct_get c i)"
  by (auto simp: ct_ok_def ct_get_def)

text \<open>
  What a \<open>set\<close> leaves in the slot: the stack, or one equal to it.
\<close>

lemma ct_set_spec:
  assumes "ct_ok c" "wf_stack s" "i < length (ct_slots c)"
  shows "fst (ct_set c i s) = Inr () \<and> ct_ok (snd (ct_set c i s))
    \<and> length (ct_slots (snd (ct_set c i s))) = length (ct_slots c)
    \<and> ct_kind (snd (ct_set c i s)) = ct_kind c
    \<and> (\<forall>j. j \<noteq> i \<longrightarrow> ct_slots (snd (ct_set c i s)) ! j = ct_slots c ! j)
    \<and> st_item (ct_slots (snd (ct_set c i s)) ! i) = st_item s
    \<and> st_count (ct_slots (snd (ct_set c i s)) ! i) = st_count s
    \<and> (class_pred P \<longrightarrow> ct_weight P (snd (ct_set c i s)) = ct_weight P c - weight P (ct_slots c ! i) + weight P s)"
proof (cases "stack_eq (ct_slots c ! i) s")
  case True
  then have "class_pred P \<longrightarrow> weight P (ct_slots c ! i) = weight P s" by (auto dest: weight_stack_eq)
  with True assms show ?thesis by (auto simp: ct_set_def stack_eq_def)
next
  case False
  with assms show ?thesis
    by (auto simp: ct_set_def ct_ok_def ct_weight_def sum_list_update_int
        intro: set_update_Ball [rule_format])
qed

lemma ct_set_out: "\<not> i < length (ct_slots c) \<Longrightarrow> ct_set c i s = (Inl InvalidAction, c)"
  by (simp add: ct_set_def)

lemma ct_swap_conserves:
  "ct_ok c \<Longrightarrow> ct_ok (snd (ct_swap c a b)) \<and> ct_weight P (snd (ct_swap c a b)) = ct_weight P c"
proof -
  assume ok: "ct_ok c"
  show ?thesis
  proof (cases "a < length (ct_slots c) \<and> b < length (ct_slots c) \<and> a \<noteq> b")
    case True
    then show ?thesis
      using ok by (auto simp: ct_swap_def ct_ok_def ct_weight_def sum_list_update_int
          intro!: set_update_Ball [rule_format])
  next
    case False
    with ok show ?thesis by (auto simp: ct_swap_def)
  qed
qed

lemma total_is_weight: "ct_total_items c = ct_weight (\<lambda>_ _. True) c"
  by (simp add: ct_total_items_def ct_weight_def weight_def [abs_def])

end
