(* ===== verification/Click.thy ===== *)
theory Click
  imports Container
begin

text \<open>
  \<open>crates/container/src/click.rs\<close>: the five wire integers of a click and the typed click
  they become. The rejections carry the values the code reports; \<open>Click::new\<close> wraps each
  of them in \<open>InvalidAction\<close>. Wire integers are integers in the range of their type.
\<close>

definition PLAYER_WINDOW_ID :: nat where "PLAYER_WINDOW_ID = 0"
definition SLOT_OUTSIDE :: int where "SLOT_OUTSIDE = - 1"
definition MAX_MENU_SLOTS :: nat where "MAX_MENU_SLOTS = 46 + 54"

datatype click_type = Pickup | QuickMove | Swap | Clone | Throw | QuickCraft | PickupAll

definition click_type_from_id :: "int \<Rightarrow> click_type option" where
  "click_type_from_id i =
     (if i = 0 then Some Pickup
      else if i = 1 then Some QuickMove
      else if i = 2 then Some Swap
      else if i = 3 then Some Clone
      else if i = 4 then Some Throw
      else if i = 5 then Some QuickCraft
      else if i = 6 then Some PickupAll
      else None)"

fun click_type_id :: "click_type \<Rightarrow> int" where
  "click_type_id Pickup = 0"
| "click_type_id QuickMove = 1"
| "click_type_id Swap = 2"
| "click_type_id Clone = 3"
| "click_type_id Throw = 4"
| "click_type_id QuickCraft = 5"
| "click_type_id PickupAll = 6"

definition changes_total_count :: "click_type \<Rightarrow> bool" where
  "changes_total_count t = (t = Throw \<or> t = Clone)"

definition uses_cursor :: "click_type \<Rightarrow> bool" where
  "uses_cursor t = (t \<noteq> Throw)"

datatype drag_type = Even | One | Full

definition drag_type_from_packed :: "int \<Rightarrow> drag_type option" where
  "drag_type_from_packed p =
     (if p = 0 then Some Even else if p = 1 then Some One else if p = 2 then Some Full else None)"

fun drag_type_packed :: "drag_type \<Rightarrow> int" where
  "drag_type_packed Even = 0"
| "drag_type_packed One = 1"
| "drag_type_packed Full = 2"

datatype drag_stage = Start | AddSlot | End

definition drag_stage_from_bits :: "int \<Rightarrow> drag_stage option" where
  "drag_stage_from_bits b =
     (if b = 0 then Some Start else if b = 1 then Some AddSlot else if b = 2 then Some End else None)"

fun drag_stage_bits :: "drag_stage \<Rightarrow> int" where
  "drag_stage_bits Start = 0"
| "drag_stage_bits AddSlot = 1"
| "drag_stage_bits End = 2"

datatype swap_target = Hotbar nat | OffhandTarget

definition swap_target_from_button :: "int \<Rightarrow> swap_target option" where
  "swap_target_from_button b =
     (if 0 \<le> b \<and> b \<le> 8 then Some (Hotbar (nat b)) else if b = 40 then Some OffhandTarget else None)"

datatype click_rejection =
    UnknownClickType int
  | BadButton click_type int
  | SlotOutOfRange int
  | NegativeStateId int
  | BadWindowId int

record click =
  window_id :: nat
  click_state_id :: int
  click_slot :: int
  button :: int
  click_type :: click_type
  secondary :: bool
  swap_target :: "swap_target option"
  drag_type :: "drag_type option"
  drag_stage :: "drag_stage option"

text \<open>\<open>packed >> 2\<close> and \<open>packed & 3\<close> on a sign-extended \<open>i8\<close>.\<close>

definition click_new :: "int \<Rightarrow> int \<Rightarrow> int \<Rightarrow> int \<Rightarrow> int \<Rightarrow> click_rejection + click" where
  "click_new w state slot btn ty =
     (if \<not> (0 \<le> w \<and> w \<le> 255) then Inl (BadWindowId w)
      else if state < 0 then Inl (NegativeStateId state)
      else if slot \<noteq> SLOT_OUTSIDE \<and> (slot < 0 \<or> nat slot > MAX_MENU_SLOTS) then Inl (SlotOutOfRange slot)
      else case click_type_from_id ty of
        None \<Rightarrow> Inl (UnknownClickType ty)
      | Some t \<Rightarrow>
          let c = \<lparr>window_id = nat w, click_state_id = state, click_slot = slot, button = btn,
                   click_type = t, secondary = False, swap_target = None, drag_type = None,
                   drag_stage = None\<rparr>
          in case t of
            Pickup \<Rightarrow>
              if btn = 0 then Inr c else if btn = 1 then Inr (c\<lparr>secondary := True\<rparr>)
              else Inl (BadButton t btn)
          | QuickMove \<Rightarrow> if btn \<noteq> 0 then Inl (BadButton t btn) else Inr c
          | Swap \<Rightarrow>
              (case swap_target_from_button btn of
                 None \<Rightarrow> Inl (BadButton t btn)
               | Some target \<Rightarrow> Inr (c\<lparr>swap_target := Some target\<rparr>))
          | Clone \<Rightarrow> if btn = 0 \<or> btn = 2 then Inr c else Inl (BadButton t btn)
          | Throw \<Rightarrow>
              if btn = 0 then Inr c else if btn = 1 then Inr (c\<lparr>secondary := True\<rparr>)
              else Inl (BadButton t btn)
          | QuickCraft \<Rightarrow>
              (case drag_type_from_packed (drop_bit 2 btn) of
                 None \<Rightarrow> Inl (BadButton t btn)
               | Some dt \<Rightarrow>
                   (case drag_stage_from_bits (and btn 3) of
                      None \<Rightarrow> Inl (BadButton t btn)
                    | Some ds \<Rightarrow> Inr (c\<lparr>drag_type := Some dt, drag_stage := Some ds\<rparr>)))
          | PickupAll \<Rightarrow>
              if btn = 0 then Inr c else if btn = 1 then Inr (c\<lparr>secondary := True\<rparr>)
              else Inl (BadButton t btn))"

definition is_outside :: "click \<Rightarrow> bool" where
  "is_outside c = (click_slot c = SLOT_OUTSIDE)"

definition slot_index :: "click \<Rightarrow> nat option" where
  "slot_index c = (if click_slot c < 0 then None else Some (nat (click_slot c)))"

definition click_drag :: "click \<Rightarrow> (drag_type \<times> drag_stage) option" where
  "click_drag c =
     (case (drag_type c, drag_stage c) of (Some t, Some s) \<Rightarrow> Some (t, s) | _ \<Rightarrow> None)"

section \<open>Laws\<close>

lemma click_type_round_trip: "click_type_from_id (click_type_id t) = Some t"
  by (cases t) (simp_all add: click_type_from_id_def)

lemma drag_round_trips:
  "drag_type_from_packed (drag_type_packed d) = Some d"
  "drag_stage_from_bits (drag_stage_bits s) = Some s"
  by (cases d; simp add: drag_type_from_packed_def) (cases s; simp add: drag_stage_from_bits_def)

text \<open>The fields a decoded click carries are those of its type.\<close>

definition click_shape :: "click \<Rightarrow> bool" where
  "click_shape c \<longleftrightarrow>
     window_id c \<le> 255 \<and> 0 \<le> click_state_id c
     \<and> (click_slot c = SLOT_OUTSIDE \<or> 0 \<le> click_slot c \<and> nat (click_slot c) \<le> MAX_MENU_SLOTS)
     \<and> (swap_target c \<noteq> None \<longleftrightarrow> click_type c = Swap)
     \<and> (drag_type c \<noteq> None \<longleftrightarrow> click_type c = QuickCraft)
     \<and> (drag_stage c \<noteq> None \<longleftrightarrow> click_type c = QuickCraft)
     \<and> (case swap_target c of Some (Hotbar n) \<Rightarrow> n \<le> 8 | _ \<Rightarrow> True)"

lemma swap_target_range: "swap_target_from_button b = Some (Hotbar n) \<Longrightarrow> n \<le> 8"
  by (auto simp: swap_target_from_button_def split: if_splits)

lemma click_new_shape:
  assumes "click_new w state slot btn ty = Inr c"
  shows "click_shape c \<and> click_state_id c = state \<and> click_slot c = slot \<and> button c = btn
    \<and> int (window_id c) = w \<and> click_type_from_id ty = Some (click_type c)"
proof -
  have g: "0 \<le> w" "w \<le> 255" "0 \<le> state"
      "slot = SLOT_OUTSIDE \<or> 0 \<le> slot \<and> nat slot \<le> MAX_MENU_SLOTS"
    using assms by (auto simp: click_new_def split: if_splits)
  have neg: "(0 \<le> w \<and> w \<le> 255) = True" "(state < 0) = False"
      "(slot \<noteq> SLOT_OUTSIDE \<and> (slot < 0 \<or> nat slot > MAX_MENU_SLOTS)) = False"
    using g by auto
  note e = assms [unfolded click_new_def neg not_True_eq_False if_False]
  obtain t where t: "click_type_from_id ty = Some t"
    using e by (cases "click_type_from_id ty") simp_all
  note e = e [unfolded t option.case Let_def]
  show ?thesis
  proof (cases t)
    case Swap
    then show ?thesis using e g t swap_target_range [of btn]
      by (cases "swap_target_from_button btn")
        (auto simp: click_shape_def split: swap_target.split)
  next
    case QuickCraft
    then show ?thesis using e g t
      by (cases "drag_type_from_packed (drop_bit 2 btn)"; cases "drag_stage_from_bits (and btn 3)")
        (auto simp: click_shape_def)
  next
    case Pickup
    then show ?thesis using e g t by (auto simp: click_shape_def split: if_splits)
  next
    case QuickMove
    then show ?thesis using e g t by (auto simp: click_shape_def split: if_splits)
  next
    case Clone
    then show ?thesis using e g t by (auto simp: click_shape_def split: if_splits)
  next
    case Throw
    then show ?thesis using e g t by (auto simp: click_shape_def split: if_splits)
  next
    case PickupAll
    then show ?thesis using e g t by (auto simp: click_shape_def split: if_splits)
  qed
qed

end
