(* ===== verification/Menu.thy ===== *)
theory Menu
  imports Click
begin

text \<open>
  \<open>crates/container/src/menu.rs\<close> without the click handlers: the mapping of menu slots to
  container slots, the shift-click layout, the constructors of the menus the server opens,
  and the primitive operations that move items. The three limits of a write are those of
  the code: the item's own maximum, the mapping's ceiling, and the role of the slot.
  An index into \<open>containers\<close> is one \<open>Menu::new\<close> has checked. Menu slot numbers stay below
  100, so the code's \<open>u16\<close> sums in a layout are exact.
\<close>

section \<open>Data\<close>

record slot_mapping =
  sm_container :: nat
  sm_slot :: nat
  sm_role :: slot_role
  sm_max :: int

definition storage_slot :: "nat \<Rightarrow> nat \<Rightarrow> slot_mapping" where
  "storage_slot c s =
     \<lparr>sm_container = c, sm_slot = s, sm_role = Storage, sm_max = DEFAULT_MAX_STACK_SIZE\<rparr>"

definition with_role :: "nat \<Rightarrow> nat \<Rightarrow> slot_role \<Rightarrow> slot_mapping" where
  "with_role c s r = \<lparr>sm_container = c, sm_slot = s, sm_role = r, sm_max = DEFAULT_MAX_STACK_SIZE\<rparr>"

definition with_limit :: "nat \<Rightarrow> nat \<Rightarrow> slot_role \<Rightarrow> int \<Rightarrow> slot_mapping" where
  "with_limit c s r l = \<lparr>sm_container = c, sm_slot = s, sm_role = r, sm_max = l\<rparr>"

definition sm_may_place :: "slot_mapping \<Rightarrow> bool" where
  "sm_may_place mp = may_place (sm_role mp)"

definition sm_may_pickup :: "slot_mapping \<Rightarrow> bool" where
  "sm_may_pickup mp = may_pickup (sm_role mp)"

record slot_range =
  sr_start :: nat
  sr_end :: nat

definition new_range :: "nat \<Rightarrow> nat \<Rightarrow> slot_range" where
  "new_range a b = \<lparr>sr_start = a, sr_end = b\<rparr>"

definition range_contains :: "slot_range \<Rightarrow> nat \<Rightarrow> bool" where
  "range_contains r s \<longleftrightarrow> s \<ge> sr_start r \<and> s < sr_end r"

definition range_len :: "slot_range \<Rightarrow> nat" where
  "range_len r = sr_end r - sr_start r"

definition range_is_empty :: "slot_range \<Rightarrow> bool" where
  "range_is_empty r \<longleftrightarrow> sr_start r \<ge> sr_end r"

record menu_layout =
  lay_groups :: "slot_range list"
  lay_player :: nat

definition layout_none :: menu_layout where
  "layout_none = \<lparr>lay_groups = [], lay_player = 0\<rparr>"

definition group_of :: "menu_layout \<Rightarrow> nat \<Rightarrow> nat option" where
  "group_of l slot = position (\<lambda>r. range_contains r slot) (lay_groups l)"

definition transfer_order :: "menu_layout \<Rightarrow> nat \<Rightarrow> slot_range list" where
  "transfer_order l slot =
     (case group_of l slot of
        None \<Rightarrow> lay_groups l
      | Some from \<Rightarrow>
          (let n = length (lay_groups l)
           in map (\<lambda>off. lay_groups l ! ((from + off) mod n)) [1..<n]))"

definition container_and_player :: "nat \<Rightarrow> menu_layout" where
  "container_and_player n =
     (let base = (if n \<le> 65535 then n else 65535)
      in \<lparr>lay_groups = [new_range 0 base, new_range base (base + 27),
                        new_range (base + 27) (base + 36)],
          lay_player = 1\<rparr>)"

definition player_only :: menu_layout where
  "player_only = \<lparr>lay_groups = [new_range 0 27, new_range 27 36], lay_player = 0\<rparr>"

record click_outcome =
  changed_slots :: "nat set"
  cursor_changed :: bool
  full_resync :: bool
  dropped :: "item_stack list"

definition default_outcome :: click_outcome where
  "default_outcome =
     \<lparr>changed_slots = {}, cursor_changed = False, full_resync = False, dropped = []\<rparr>"

definition is_noop :: "click_outcome \<Rightarrow> bool" where
  "is_noop oc \<longleftrightarrow>
     changed_slots oc = {} \<and> \<not> cursor_changed oc \<and> \<not> full_resync oc \<and> dropped oc = []"

definition outcome_merge :: "click_outcome \<Rightarrow> click_outcome \<Rightarrow> click_outcome" where
  "outcome_merge oc other =
     \<lparr>changed_slots = changed_slots oc \<union> changed_slots other,
      cursor_changed = (cursor_changed oc \<or> cursor_changed other),
      full_resync = (full_resync oc \<or> full_resync other),
      dropped = dropped oc @ dropped other\<rparr>"

record menu =
  mn_window_id :: nat
  mn_state_id :: int
  mn_containers :: "container list"
  mn_slots :: "slot_mapping list"
  mn_layout :: menu_layout
  mn_cursor :: item_stack
  mn_stack_sizes :: stack_size_table
  mn_creative :: bool
  mn_drag_slots :: "nat list"
  mn_drag_type :: "drag_type option"

section \<open>Construction\<close>

fun check_mappings :: "container list \<Rightarrow> slot_mapping list \<Rightarrow> unit server_result" where
  "check_mappings cs [] = Inr ()"
| "check_mappings cs (mp # mps) =
     (if \<not> sm_container mp < length cs then Inl Invariant
      else if sm_slot mp \<ge> ct_len (cs ! sm_container mp) then Inl Invariant
      else if sm_max mp < 1 \<or> sm_max mp > HARD_MAX_STACK_SIZE then Inl Invariant
      else check_mappings cs mps)"

definition new_menu ::
  "nat \<Rightarrow> container list \<Rightarrow> slot_mapping list \<Rightarrow> menu_layout \<Rightarrow> stack_size_table \<Rightarrow> menu server_result" where
  "new_menu w cs mps l t =
     (if mps = [] \<or> length mps > MAX_MENU_SLOTS then Inl Invariant
      else and_then (check_mappings cs mps) (\<lambda>_.
        Inr \<lparr>mn_window_id = w, mn_state_id = 0, mn_containers = cs, mn_slots = mps,
             mn_layout = l, mn_cursor = EMPTY, mn_stack_sizes = t, mn_creative = False,
             mn_drag_slots = [], mn_drag_type = None\<rparr>))"

definition set_creative :: "menu \<Rightarrow> bool \<Rightarrow> menu" where
  "set_creative m b = m\<lparr>mn_creative := b\<rparr>"

definition player_menu :: "nat \<Rightarrow> container \<Rightarrow> stack_size_table \<Rightarrow> menu server_result" where
  "player_menu w p t =
     (if ct_len p \<noteq> 41 then Inl Invariant
      else let mps = [with_role 1 0 CraftingResult]
               @ map (\<lambda>s. with_role 2 s CraftingInput) [0..<4]
               @ map (\<lambda>s. with_role 0 (36 + s) Armor) [0..<4]
               @ map (storage_slot 0) [9..<36]
               @ map (storage_slot 0) [0..<9]
               @ [with_role 0 40 Offhand]
           in and_then (new_container Kind_Crafting 1) (\<lambda>result.
              and_then (new_container Kind_Crafting 4) (\<lambda>grid.
              new_menu w [p, result, grid] mps
                \<lparr>lay_groups = [new_range 9 45], lay_player = 0\<rparr> t)))"

definition chest_menu :: "nat \<Rightarrow> container \<Rightarrow> container \<Rightarrow> stack_size_table \<Rightarrow> menu server_result" where
  "chest_menu w b p t =
     (let n = ct_len b
      in if n \<noteq> 27 \<and> n \<noteq> 54 then Inl Invariant
      else if ct_kind b \<noteq> Kind_Generic then Inl Invariant
      else if ct_len p \<noteq> 41 then Inl Invariant
      else new_menu w [b, p]
             (map (storage_slot 0) [0..<as_u16 n] @ map (storage_slot 1) [9..<36]
                @ map (storage_slot 1) [0..<9])
             (container_and_player n) t)"

definition furnace_menu :: "nat \<Rightarrow> container \<Rightarrow> container \<Rightarrow> stack_size_table \<Rightarrow> menu server_result" where
  "furnace_menu w b p t =
     (if ct_len b \<noteq> 3 then Inl Invariant
      else if ct_kind b \<noteq> Kind_Furnace then Inl Invariant
      else if ct_len p \<noteq> 41 then Inl Invariant
      else new_menu w [b, p]
             ([with_role 0 0 FurnaceInput, with_role 0 1 FurnaceFuel, with_role 0 2 FurnaceOutput]
                @ map (storage_slot 1) [9..<36] @ map (storage_slot 1) [0..<9])
             (container_and_player 3) t)"

definition hopper_menu :: "nat \<Rightarrow> container \<Rightarrow> container \<Rightarrow> stack_size_table \<Rightarrow> menu server_result" where
  "hopper_menu w b p t =
     (if ct_len b \<noteq> 5 then Inl Invariant
      else if ct_kind b \<noteq> Kind_Generic then Inl Invariant
      else if ct_len p \<noteq> 41 then Inl Invariant
      else new_menu w [b, p]
             (map (storage_slot 0) [0..<5] @ map (storage_slot 1) [9..<36]
                @ map (storage_slot 1) [0..<9])
             (container_and_player 5) t)"

definition dispenser_menu :: "nat \<Rightarrow> container \<Rightarrow> container \<Rightarrow> stack_size_table \<Rightarrow> menu server_result" where
  "dispenser_menu w b p t =
     (if ct_len b \<noteq> 9 then Inl Invariant
      else if ct_kind b \<noteq> Kind_Generic then Inl Invariant
      else if ct_len p \<noteq> 41 then Inl Invariant
      else new_menu w [b, p]
             (map (storage_slot 0) [0..<9] @ map (storage_slot 1) [9..<36]
                @ map (storage_slot 1) [0..<9])
             (container_and_player 9) t)"

definition crafting_table_menu :: "nat \<Rightarrow> container \<Rightarrow> container \<Rightarrow> stack_size_table \<Rightarrow> menu server_result" where
  "crafting_table_menu w g p t =
     (if ct_len g \<noteq> 9 then Inl Invariant
      else if ct_kind g \<noteq> Kind_Crafting then Inl Invariant
      else if ct_len p \<noteq> 41 then Inl Invariant
      else and_then (new_container Kind_Crafting 1) (\<lambda>result.
           new_menu w [p, result, g]
             ([with_role 1 0 CraftingResult] @ map (\<lambda>s. with_role 2 s CraftingInput) [0..<9]
                @ map (storage_slot 0) [9..<36] @ map (storage_slot 0) [0..<9])
             \<lparr>lay_groups = [new_range 0 10, new_range 10 37, new_range 37 46], lay_player = 0\<rparr> t))"

section \<open>Reading\<close>

text \<open>\<open>i32::wrapping_add(1)\<close>.\<close>

definition bump_state :: "menu \<Rightarrow> menu" where
  "bump_state m = m\<lparr>mn_state_id := sint (word_of_int (mn_state_id m + 1) :: 32 word)\<rparr>"

definition slot_count :: "menu \<Rightarrow> nat" where
  "slot_count m = length (mn_slots m)"

definition window_slot_for :: "menu \<Rightarrow> nat \<Rightarrow> nat \<Rightarrow> nat option" where
  "window_slot_for m c s = position (\<lambda>mp. sm_container mp = c \<and> sm_slot mp = s) (mn_slots m)"

definition display_stack :: "menu \<Rightarrow> nat \<Rightarrow> item_stack" where
  "display_stack m i =
     (if i < length (mn_slots m) then
        ct_get (mn_containers m ! sm_container (mn_slots m ! i)) (sm_slot (mn_slots m ! i))
      else EMPTY)"

definition item_limit :: "menu \<Rightarrow> item_stack \<Rightarrow> int" where
  "item_limit m s =
     (case stack_item_id s of Some i \<Rightarrow> max_stack_size (mn_stack_sizes m) i | None \<Rightarrow> 0)"

definition slot_limit :: "menu \<Rightarrow> nat \<Rightarrow> item_stack \<Rightarrow> int" where
  "slot_limit m i s =
     (if i < length (mn_slots m) then min (item_limit m s) (sm_max (mn_slots m ! i)) else 0)"

definition menu_total_items :: "menu \<Rightarrow> int" where
  "menu_total_items m = sum_list (map ct_total_items (mn_containers m)) + stack_count (mn_cursor m)"

definition mapping_of :: "menu \<Rightarrow> nat \<Rightarrow> slot_mapping server_result" where
  "mapping_of m i = (if i < length (mn_slots m) then Inr (mn_slots m ! i) else Inl InvalidAction)"

definition changed_menu_slots :: "menu \<Rightarrow> nat set" where
  "changed_menu_slots m =
     set (map (\<lambda>(i, mp). as_u16 i)
       (filter (\<lambda>(i, mp). sm_slot mp \<in> ct_changed (mn_containers m ! sm_container mp))
          (enumerate 0 (mn_slots m))))"

definition menu_clear_changed :: "menu \<Rightarrow> menu" where
  "menu_clear_changed m = m\<lparr>mn_containers := map clear_changed (mn_containers m)\<rparr>"

definition drain_changed :: "menu \<Rightarrow> nat set \<times> menu" where
  "drain_changed m = (changed_menu_slots m, menu_clear_changed m)"

definition full_contents :: "menu \<Rightarrow> item_stack list" where
  "full_contents m = map (display_stack m) [0..<length (mn_slots m)]"

section \<open>Moving items\<close>

definition set_slot :: "menu \<Rightarrow> nat \<Rightarrow> item_stack \<Rightarrow> unit server_result \<times> menu" where
  "set_slot m i s =
     (if \<not> i < length (mn_slots m) then (Inl InvalidAction, m)
      else let mp = mn_slots m ! i;
               limit = slot_limit m i s;
               clamped =
                 (if stack_is_empty s \<or> stack_count s \<le> limit then Inr s
                  else and_then (new_stack (case stack_item_id s of Some j \<Rightarrow> j | None \<Rightarrow> 0) limit)
                         (\<lambda>c. Inr (c\<lparr>st_comps := st_comps s\<rparr>)))
           in case clamped of
                Inl e \<Rightarrow> (Inl e, m)
              | Inr s \<Rightarrow>
                  (let (r, c) = ct_set (mn_containers m ! sm_container mp) (sm_slot mp) s
                   in (r, m\<lparr>mn_containers := (mn_containers m)[sm_container mp := c]\<rparr>)))"

definition set_cursor :: "menu \<Rightarrow> item_stack \<Rightarrow> menu" where
  "set_cursor m s =
     (let limit = item_limit m s;
          s = (if \<not> stack_is_empty s \<and> stack_count s > limit
               then snd (shrink s (stack_count s - limit)) else s)
      in m\<lparr>mn_cursor := s\<rparr>)"

definition return_to_cursor :: "menu \<Rightarrow> item_stack \<Rightarrow> item_stack \<times> menu" where
  "return_to_cursor m s =
     (if stack_is_empty s then (EMPTY, m)
      else let (remainder, cursor, s) = merge_capped (mn_cursor m) s (item_limit m s)
           in (if remainder > 0 then s else EMPTY, m\<lparr>mn_cursor := cursor\<rparr>))"

text \<open>\<open>self.cursor.split(count)\<close>.\<close>

definition split_cursor :: "menu \<Rightarrow> int \<Rightarrow> item_stack \<times> menu" where
  "split_cursor m n = (let (out, rest) = split (mn_cursor m) n in (out, m\<lparr>mn_cursor := rest\<rparr>))"

definition menu_extract :: "menu \<Rightarrow> nat \<Rightarrow> int \<Rightarrow> item_stack \<times> menu" where
  "menu_extract m i n =
     (let (taken, s) = split (display_stack m i) n
      in (taken, if \<not> stack_is_empty taken then snd (set_slot m i s) else m))"

definition menu_insert :: "menu \<Rightarrow> nat \<Rightarrow> item_stack \<Rightarrow> item_stack \<times> menu" where
  "menu_insert m i s =
     (if stack_is_empty s then (EMPTY, m)
      else if \<not> i < length (mn_slots m) then (s, m)
      else if \<not> sm_may_place (mn_slots m ! i) then (s, m)
      else let existing = display_stack m i
      in if \<not> stack_is_empty existing \<and> \<not> same_item existing s then (s, m)
      else let limit = slot_limit m i s
      in if stack_is_empty existing then
           (let (overflow, placed) =
                  (if stack_count s > limit then split s (stack_count s - limit) else (EMPTY, s))
            in (overflow, snd (set_slot m i placed)))
      else let (remainder, merged, incoming) = merge_capped existing s limit;
               m = (if \<not> stack_eq merged existing then snd (set_slot m i merged) else m)
           in (if remainder > 0 then incoming else EMPTY, m))"

section \<open>The invariant of a menu\<close>

definition limit_in :: "stack_size_table \<Rightarrow> item_stack \<Rightarrow> int" where
  "limit_in t s = (case stack_item_id s of Some i \<Rightarrow> max_stack_size t i | None \<Rightarrow> 0)"

definition fits :: "stack_size_table \<Rightarrow> item_stack \<Rightarrow> bool" where
  "fits t s \<longleftrightarrow> wf_stack s \<and> st_count s \<le> limit_in t s"

definition containers_ok :: "stack_size_table \<Rightarrow> container list \<Rightarrow> bool" where
  "containers_ok t cs \<longleftrightarrow> (\<forall>c \<in> set cs. \<forall>s \<in> set (ct_slots c). fits t s)"

text \<open>
  What \<open>Menu::new\<close> checks, with the ceiling that every constructor uses, and stacks within
  the limits of their items.
\<close>

definition mapping_ok :: "container list \<Rightarrow> slot_mapping \<Rightarrow> bool" where
  "mapping_ok cs mp \<longleftrightarrow> sm_container mp < length cs
     \<and> sm_slot mp < length (ct_slots (cs ! sm_container mp)) \<and> sm_max mp = 64"

definition menu_ok :: "menu \<Rightarrow> bool" where
  "menu_ok m \<longleftrightarrow> (\<forall>mp \<in> set (mn_slots m). mapping_ok (mn_containers m) mp)
     \<and> containers_ok (mn_stack_sizes m) (mn_containers m)
     \<and> fits (mn_stack_sizes m) (mn_cursor m) \<and> table_ok (mn_stack_sizes m)
     \<and> length (mn_slots m) \<le> 100"

definition containers_weight :: "(int \<Rightarrow> item_components \<Rightarrow> bool) \<Rightarrow> menu \<Rightarrow> int" where
  "containers_weight P m = sum_list (map (ct_weight P) (mn_containers m))"

definition menu_weight :: "(int \<Rightarrow> item_components \<Rightarrow> bool) \<Rightarrow> menu \<Rightarrow> int" where
  "menu_weight P m = containers_weight P m + weight P (mn_cursor m)"

text \<open>What no click changes.\<close>

definition frame :: "menu \<Rightarrow> menu \<Rightarrow> bool" where
  "frame m m' \<longleftrightarrow> mn_slots m' = mn_slots m \<and> mn_stack_sizes m' = mn_stack_sizes m
     \<and> mn_layout m' = mn_layout m \<and> mn_window_id m' = mn_window_id m
     \<and> mn_creative m' = mn_creative m \<and> mn_state_id m' = mn_state_id m"

lemma frame_refl [simp]: "frame m m"
  by (simp add: frame_def)

lemma frame_trans: "frame a b \<Longrightarrow> frame b c \<Longrightarrow> frame a c"
  by (simp add: frame_def)

lemma fits_EMPTY [simp]: "fits t EMPTY"
  by (simp add: fits_def limit_in_def stack_item_id_def stack_consts)

lemma item_limit_in: "item_limit m s = limit_in (mn_stack_sizes m) s"
  by (simp add: item_limit_def limit_in_def)

lemma fits_wf: "fits t s \<Longrightarrow> wf_stack s"
  by (simp add: fits_def)

lemma limit_in_range: "table_ok t \<Longrightarrow> wf_stack s \<Longrightarrow> s \<noteq> EMPTY \<Longrightarrow> 1 \<le> limit_in t s \<and> limit_in t s \<le> 64"
  using max_stack_size_range [of t "st_item s"] wf_nonempty [of s]
  by (auto simp: limit_in_def stack_item_id_def stack_consts)

lemma limit_in_item: "st_item a = st_item b \<Longrightarrow> limit_in t a = limit_in t b"
  by (simp add: limit_in_def stack_item_id_def)

lemma limit_in_nonneg: "table_ok t \<Longrightarrow> 0 \<le> limit_in t s"
  using max_stack_size_range [of t "st_item s"]
  by (auto simp: limit_in_def stack_item_id_def stack_consts)

lemma fits_smaller: "fits t s \<Longrightarrow> wf_stack s' \<Longrightarrow> st_count s' \<le> st_count s \<Longrightarrow> st_item s' = st_item s \<Longrightarrow> fits t s'"
  using limit_in_item [of s' s t] by (simp add: fits_def)

lemma fits_split:
  assumes "fits t s" "split s n = (out, rest)"
  shows "fits t out \<and> fits t rest"
proof -
  note wf = fits_wf [OF assms(1)]
  note ss = split_spec [OF wf assms(2), of "\<lambda>_ _. True"]
  have w: "wf_stack out" "wf_stack rest" using ss by blast+
  have c: "st_count rest = st_count s - st_count out" "st_count out = max 0 (min n (st_count s))"
    using ss by blast+
  have "st_count out \<le> st_count s" "st_count rest \<le> st_count s"
    using c wf_bounds [OF wf] by linarith+
  moreover have "out \<noteq> EMPTY \<longrightarrow> st_item out = st_item s" "rest \<noteq> EMPTY \<longrightarrow> st_item rest = st_item s"
    using ss by blast+
  ultimately show ?thesis using w fits_smaller [OF assms(1)] by (metis fits_EMPTY)
qed

lemma merge_noop:
  "wf_stack a \<Longrightarrow> wf_stack b \<Longrightarrow> b = EMPTY \<or> a \<noteq> EMPTY \<and> \<not> same_item a b \<Longrightarrow>
     merge_capped a b limit = (stack_count b, a, b)"
  using wf_empty [of a] wf_empty [of b] by (auto simp: merge_capped_def)

lemma merge_less:
  assumes "wf_stack b" "merge_capped a b limit = (left, a', b')"
  shows "st_count b' \<le> st_count b"
proof (cases "b = EMPTY \<or> (\<not> stack_is_empty a \<and> \<not> same_item a b)")
  case True
  then show ?thesis using assms by (auto simp: merge_capped_def split: if_splits)
next
  case False
  then have "b' = snd (split b (if stack_is_empty a then clamp limit 1 64
                                else max (clamp limit 1 64 - st_count a) 0))"
    using assms wf_empty [of b] by (auto simp: merge_capped_def Let_def stack_consts split: prod.splits)
  then show ?thesis
    using split_spec [OF assms(1) surjective_pairing [of "split b _"], of _ "\<lambda>_ _. True"] by simp
qed

lemma fits_merge:
  assumes "fits t a" "fits t b" "merge_capped a b (limit_in t b) = (left, a', b')" "table_ok t"
  shows "fits t a' \<and> fits t b'"
proof (cases "b = EMPTY \<or> a \<noteq> EMPTY \<and> \<not> same_item a b")
  case True
  then have "a' = a" "b' = b"
    using merge_noop [OF fits_wf [OF assms(1)] fits_wf [OF assms(2)]] assms(3) by auto
  with assms show ?thesis by simp
next
  case False
  have wf: "wf_stack a" "wf_stack b" using assms fits_wf by blast+
  have P: "class_pred (\<lambda>_ _. True)" by (simp add: class_pred_def)
  note m = merge_spec [OF wf assms(3) P] and it = merge_items [OF wf assms(3)]
  have r: "1 \<le> limit_in t b" "limit_in t b \<le> 64" using limit_in_range [OF assms(4) wf(2)] False by auto
  have ab: "a \<noteq> EMPTY \<longrightarrow> st_item a = st_item b" using False by (auto simp: same_item_def)
  have "st_count a' \<le> limit_in t b"
    using m r assms(1) ab limit_in_item [of a b t]
    by (cases "a = EMPTY") (auto simp: fits_def)
  moreover have "a' \<noteq> EMPTY \<longrightarrow> st_item a' = st_item b" using it ab by (cases "a = EMPTY") auto
  ultimately have "fits t a'"
    using m limit_in_item [of a' b t] by (metis fits_EMPTY fits_def)
  moreover have "fits t b'"
  proof (cases "b' = EMPTY")
    case nE: False
    have "st_count b' \<le> st_count b" by (rule merge_less [OF wf(2) assms(3)])
    moreover have "st_item b' = st_item b" using it nE by simp
    ultimately show ?thesis using m by (intro fits_smaller [OF assms(2)]) simp_all
  qed simp
  ultimately show ?thesis by simp
qed

section \<open>Every primitive conserves\<close>

lemma display_fits:
  assumes "menu_ok m"
  shows "fits (mn_stack_sizes m) (display_stack m i)"
proof (cases "i < length (mn_slots m)")
  case True
  then have "mapping_ok (mn_containers m) (mn_slots m ! i)" using assms by (simp add: menu_ok_def)
  then have "mn_containers m ! sm_container (mn_slots m ! i) \<in> set (mn_containers m)"
    "sm_slot (mn_slots m ! i) < length (ct_slots (mn_containers m ! sm_container (mn_slots m ! i)))"
    by (simp_all add: mapping_ok_def)
  with assms True show ?thesis
    by (simp add: menu_ok_def containers_ok_def display_stack_def ct_get_def)
qed (simp add: display_stack_def)

lemma display_wf: "menu_ok m \<Longrightarrow> wf_stack (display_stack m i)"
  by (rule fits_wf [OF display_fits])

lemma slot_limit_ok:
  assumes "menu_ok m" "i < length (mn_slots m)" "wf_stack s"
  shows "slot_limit m i s = limit_in (mn_stack_sizes m) s"
proof -
  have "mapping_ok (mn_containers m) (mn_slots m ! i)" using assms by (simp add: menu_ok_def)
  moreover have "limit_in (mn_stack_sizes m) s \<le> 64"
    using limit_in_range [OF _ assms(3)] assms(1)
    by (cases "s = EMPTY") (auto simp: menu_ok_def limit_in_def stack_item_id_def stack_consts)
  ultimately show ?thesis using assms(2) by (simp add: slot_limit_def mapping_ok_def item_limit_in)
qed

text \<open>The containers after one of them has had a slot written.\<close>

lemma containers_set:
  assumes ok: "menu_ok m" and i: "i < length (mn_slots m)" and s: "fits (mn_stack_sizes m) s"
  defines "mp \<equiv> mn_slots m ! i"
  defines "r \<equiv> ct_set (mn_containers m ! sm_container mp) (sm_slot mp) s"
  defines "m' \<equiv> m\<lparr>mn_containers := (mn_containers m)[sm_container mp := snd r]\<rparr>"
  shows "fst r = Inr () \<and> menu_ok m'
    \<and> (class_pred P \<longrightarrow> containers_weight P m' = containers_weight P m - weight P (display_stack m i) + weight P s)"
proof -
  let ?c = "mn_containers m ! sm_container mp" and ?t = "mn_stack_sizes m"
  have mp: "mapping_ok (mn_containers m) mp" using ok i by (simp add: menu_ok_def mp_def)
  then have lt: "sm_container mp < length (mn_containers m)" "sm_slot mp < length (ct_slots ?c)"
    by (simp_all add: mapping_ok_def)
  have mem: "?c \<in> set (mn_containers m)" using lt by simp
  have cok: "ct_ok ?c" using ok mem by (auto simp: menu_ok_def containers_ok_def ct_ok_def fits_def)
  note cs = ct_set_spec [OF cok fits_wf [OF s] lt(2), of P, folded r_def]
  have "\<forall>x \<in> set (ct_slots (snd r)). fits ?t x"
  proof -
    have "\<forall>x \<in> set (ct_slots ?c). fits ?t x" using ok mem by (simp add: menu_ok_def containers_ok_def)
    then show ?thesis using s
      by (auto simp: r_def ct_set_def intro: set_update_Ball [rule_format])
  qed
  then have "containers_ok ?t (mn_containers m')"
    using ok by (auto simp: m'_def containers_ok_def menu_ok_def dest!: set_update_subset_insert [THEN subsetD])
  moreover have "\<forall>x \<in> set (mn_slots m). mapping_ok (mn_containers m') x"
  proof
    fix x assume "x \<in> set (mn_slots m)"
    then have "mapping_ok (mn_containers m) x" using ok by (simp add: menu_ok_def)
    then show "mapping_ok (mn_containers m') x"
      using cs lt by (cases "sm_container x = sm_container mp") (auto simp: mapping_ok_def m'_def)
  qed
  ultimately have "menu_ok m'" using ok by (simp add: menu_ok_def m'_def)
  moreover have "display_stack m i = ct_slots ?c ! sm_slot mp"
    using i lt by (simp add: display_stack_def ct_get_def mp_def)
  moreover have "class_pred P \<longrightarrow> containers_weight P m' =
      containers_weight P m - weight P (ct_slots ?c ! sm_slot mp) + weight P s"
    using cs sum_list_update_int [OF lt(1), of "ct_weight P" "snd r"]
    by (simp add: containers_weight_def m'_def)
  ultimately show ?thesis using cs by simp
qed

lemma set_slot_eq:
  assumes "menu_ok m" "i < length (mn_slots m)" "fits (mn_stack_sizes m) s"
  defines "mp \<equiv> mn_slots m ! i"
  defines "w \<equiv> ct_set (mn_containers m ! sm_container mp) (sm_slot mp) s"
  shows "set_slot m i s = (fst w, m\<lparr>mn_containers := (mn_containers m)[sm_container mp := snd w]\<rparr>)"
proof -
  have "stack_count s \<le> slot_limit m i s"
    using slot_limit_ok [OF assms(1,2) fits_wf [OF assms(3)]] assms(3) wf_count
    by (simp add: fits_def)
  then show ?thesis
    using assms(2) by (simp add: set_slot_def Let_def case_prod_beta mp_def w_def)
qed

lemma set_slot_spec:
  assumes "menu_ok m" "i < length (mn_slots m)" "fits (mn_stack_sizes m) s"
    and "set_slot m i s = (r, m')"
  shows "r = Inr () \<and> menu_ok m' \<and> frame m m' \<and> mn_cursor m' = mn_cursor m
    \<and> (class_pred P \<longrightarrow> containers_weight P m' = containers_weight P m - weight P (display_stack m i) + weight P s)"
  using containers_set [OF assms(1-3), of P] assms(4) set_slot_eq [OF assms(1-3)]
  by (auto simp: frame_def)

text \<open>What the slots show afterwards.\<close>

lemma ct_set_get:
  "class_pred P \<Longrightarrow> i < length (ct_slots c) \<Longrightarrow>
     weight P (ct_get (snd (ct_set c i s)) k) = (if k = i then weight P s else weight P (ct_get c k))"
  by (auto simp: ct_set_def ct_get_def dest: weight_stack_eq)

lemma set_slot_display:
  assumes "menu_ok m" "i < length (mn_slots m)" "fits (mn_stack_sizes m) s"
    and "set_slot m i s = (r, m')" "class_pred P" "j < length (mn_slots m)"
  shows "weight P (display_stack m' j) =
    (if sm_container (mn_slots m ! j) = sm_container (mn_slots m ! i)
        \<and> sm_slot (mn_slots m ! j) = sm_slot (mn_slots m ! i)
     then weight P s else weight P (display_stack m j))"
proof -
  have mp: "mapping_ok (mn_containers m) (mn_slots m ! i)" using assms by (simp add: menu_ok_def)
  show ?thesis
    using assms(4,6) mp set_slot_eq [OF assms(1-3)] ct_set_get [OF assms(5)]
    by (cases "sm_container (mn_slots m ! j) = sm_container (mn_slots m ! i)")
      (auto simp: display_stack_def mapping_ok_def)
qed

lemma cursor_update_simps [simp]:
  "containers_weight P (m\<lparr>mn_cursor := s\<rparr>) = containers_weight P m"
  "frame m' (m\<lparr>mn_cursor := s\<rparr>) = frame m' m"
  by (simp_all add: containers_weight_def frame_def)

lemma set_cursor_spec:
  assumes "menu_ok m" "fits (mn_stack_sizes m) s"
  shows "set_cursor m s = m\<lparr>mn_cursor := s\<rparr> \<and> menu_ok (m\<lparr>mn_cursor := s\<rparr>)"
proof -
  have "stack_count s \<le> item_limit m s"
    using assms(2) wf_count by (simp add: fits_def item_limit_in)
  with assms show ?thesis by (simp add: set_cursor_def Let_def menu_ok_def)
qed

lemma return_to_cursor_spec:
  assumes ok: "menu_ok m" and s: "fits (mn_stack_sizes m) s"
    and r: "return_to_cursor m s = (left, m')" and P: "class_pred P"
  shows "menu_ok m' \<and> frame m m' \<and> fits (mn_stack_sizes m) left
    \<and> menu_weight P m' + weight P left = menu_weight P m + weight P s"
proof (cases "stack_is_empty s")
  case True
  then have "s = EMPTY" using wf_empty fits_wf [OF s] by blast
  with True r ok show ?thesis by (simp add: return_to_cursor_def)
next
  case False
  obtain n c s' where mc: "merge_capped (mn_cursor m) s (limit_in (mn_stack_sizes m) s) = (n, c, s')"
    by (metis prod_cases3)
  have cur: "fits (mn_stack_sizes m) (mn_cursor m)" and t: "table_ok (mn_stack_sizes m)"
    using ok by (simp_all add: menu_ok_def)
  have e: "left = (if n > 0 then s' else EMPTY)" "m' = m\<lparr>mn_cursor := c\<rparr>"
    using r False mc by (simp_all add: return_to_cursor_def item_limit_in)
  note mm = merge_spec [OF fits_wf [OF cur] fits_wf [OF s] mc P] and f = fits_merge [OF cur s mc t]
  have "\<not> n > 0 \<Longrightarrow> s' = EMPTY" using mm wf_nonempty [of s'] by fastforce
  then have "left = s'" using e by auto
  with mm f ok e show ?thesis by (simp add: menu_ok_def frame_def menu_weight_def containers_weight_def)
qed

lemma split_cursor_spec:
  assumes ok: "menu_ok m" and r: "split_cursor m n = (out, m')"
  shows "menu_ok m' \<and> frame m m' \<and> fits (mn_stack_sizes m) out
    \<and> menu_weight P m' + weight P out = menu_weight P m
    \<and> st_count out = max 0 (min n (st_count (mn_cursor m)))"
proof -
  obtain rest where sp: "split (mn_cursor m) n = (out, rest)" and m': "m' = m\<lparr>mn_cursor := rest\<rparr>"
    using r by (auto simp: split_cursor_def split: prod.splits)
  have cur: "fits (mn_stack_sizes m) (mn_cursor m)" using ok by (simp add: menu_ok_def)
  show ?thesis
    using split_spec [OF fits_wf [OF cur] sp, of P] fits_split [OF cur sp] ok
    by (simp add: m' menu_ok_def frame_def menu_weight_def containers_weight_def)
qed

lemma menu_extract_spec:
  assumes ok: "menu_ok m" and r: "menu_extract m i n = (taken, m')" and P: "class_pred P"
  shows "menu_ok m' \<and> frame m m' \<and> fits (mn_stack_sizes m) taken \<and> mn_cursor m' = mn_cursor m
    \<and> menu_weight P m' + weight P taken = menu_weight P m
    \<and> st_count taken = max 0 (min n (st_count (display_stack m i)))
    \<and> (taken \<noteq> EMPTY \<longrightarrow> st_item taken = st_item (display_stack m i)
          \<and> st_comps taken = st_comps (display_stack m i))"
proof -
  obtain s where sp: "split (display_stack m i) n = (taken, s)"
      and m': "m' = (if \<not> stack_is_empty taken then snd (set_slot m i s) else m)"
    using r by (auto simp: menu_extract_def split: prod.splits)
  note d = display_fits [OF ok, of i]
  note ss = split_spec [OF fits_wf [OF d] sp, of P] and f = fits_split [OF d sp]
  show ?thesis
  proof (cases "stack_is_empty taken")
    case True
    then have "taken = EMPTY" using f wf_empty fits_wf by blast
    with True ok f ss show ?thesis by (simp add: m')
  next
    case False
    then have "i < length (mn_slots m)"
      using sp by (cases "i < length (mn_slots m)") (auto simp: display_stack_def split_def)
    moreover have "set_slot m i s = (fst (set_slot m i s), m')" using False by (simp add: m')
    ultimately show ?thesis
      using set_slot_spec [OF ok _ _ , of i s _ m' P] f ss P
      by (simp add: menu_weight_def)
  qed
qed

lemma menu_insert_spec:
  assumes ok: "menu_ok m" and s: "fits (mn_stack_sizes m) s"
    and r: "menu_insert m i s = (left, m')" and P: "class_pred P"
  shows "menu_ok m' \<and> frame m m' \<and> fits (mn_stack_sizes m) left \<and> mn_cursor m' = mn_cursor m
    \<and> menu_weight P m' + weight P left = menu_weight P m + weight P s
    \<and> (left \<noteq> EMPTY \<longrightarrow> st_item left = st_item s)"
proof (cases "stack_is_empty s \<or> \<not> i < length (mn_slots m) \<or> \<not> sm_may_place (mn_slots m ! i)
    \<or> \<not> stack_is_empty (display_stack m i) \<and> \<not> same_item (display_stack m i) s")
  case True
  then have "menu_insert m i s = (s, m)"
    using wf_empty [OF fits_wf [OF s]] by (auto simp: menu_insert_def Let_def)
  then have "m' = m" "left = s" using r by simp_all
  with ok s show ?thesis by simp
next
  case False
  let ?t = "mn_stack_sizes m" and ?e = "display_stack m i"
  have i: "i < length (mn_slots m)" using False by blast
  note e = display_fits [OF ok, of i]
  have lim: "slot_limit m i s = limit_in ?t s" by (rule slot_limit_ok [OF ok i fits_wf [OF s]])
  show ?thesis
  proof (cases "stack_is_empty ?e")
    case True
    then have "?e = EMPTY" using wf_empty fits_wf [OF e] by blast
    have "\<not> stack_count s > slot_limit m i s"
      using s wf_count lim by (simp add: fits_def)
    then have "left = EMPTY" "m' = snd (set_slot m i s)"
      using r False True by (simp_all add: menu_insert_def Let_def)
    then show ?thesis
      using set_slot_spec [OF ok i s surjective_pairing [of "set_slot m i s"], of P] P \<open>?e = EMPTY\<close>
      by (simp add: menu_weight_def)
  next
    case nE: False
    obtain n g inc where mc: "merge_capped ?e s (limit_in ?t s) = (n, g, inc)"
      by (metis prod_cases3)
    have t: "table_ok ?t" using ok by (simp add: menu_ok_def)
    note mm = merge_spec [OF fits_wf [OF e] fits_wf [OF s] mc P] and f = fits_merge [OF e s mc t]
      and it = merge_items [OF fits_wf [OF e] fits_wf [OF s] mc]
    have l: "left = (if n > 0 then inc else EMPTY)"
      and m': "m' = (if \<not> stack_eq g ?e then snd (set_slot m i g) else m)"
      using r False nE mc by (simp_all add: menu_insert_def Let_def lim)
    have "\<not> n > 0 \<Longrightarrow> inc = EMPTY" using mm wf_nonempty [of inc] by fastforce
    then have l: "left = inc" using l by auto
    have "menu_ok m' \<and> frame m m' \<and> mn_cursor m' = mn_cursor m
        \<and> containers_weight P m' = containers_weight P m - weight P ?e + weight P g"
    proof (cases "stack_eq g ?e")
      case True
      with ok weight_stack_eq [OF P True] show ?thesis by (simp add: m')
    next
      case False
      with set_slot_spec [OF ok i _ surjective_pairing [of "set_slot m i g"], of P] f P
      show ?thesis by (simp add: m')
    qed
    with f mm it show ?thesis by (auto simp: l menu_weight_def)
  qed
qed

text \<open>An empty slot takes a fitting stack whole or refuses it.\<close>

lemma menu_insert_whole:
  assumes ok: "menu_ok m" and s: "fits (mn_stack_sizes m) s"
    and e: "stack_is_empty (display_stack m i)"
  shows "(s \<noteq> EMPTY \<longrightarrow> i < length (mn_slots m) \<longrightarrow> sm_may_place (mn_slots m ! i) \<longrightarrow>
            menu_insert m i s = (EMPTY, snd (set_slot m i s)))
    \<and> (s = EMPTY \<or> \<not> i < length (mn_slots m) \<or> \<not> sm_may_place (mn_slots m ! i) \<longrightarrow>
            menu_insert m i s = (s, m))"
proof -
  have "i < length (mn_slots m) \<Longrightarrow> \<not> stack_count s > slot_limit m i s"
    using s wf_count slot_limit_ok [OF ok _ fits_wf [OF s]] by (simp add: fits_def)
  then show ?thesis
    using e wf_empty [OF fits_wf [OF s]] by (auto simp: menu_insert_def Let_def)
qed

lemma menu_total_is_weight: "menu_total_items m = menu_weight (\<lambda>_ _. True) m"
proof -
  have "ct_total_items = ct_weight (\<lambda>_ _. True)" by (rule ext) (rule total_is_weight)
  then show ?thesis by (simp add: menu_total_items_def menu_weight_def containers_weight_def weight_def)
qed

section \<open>The constructors establish the invariant\<close>

lemma check_mappings_Inr:
  "check_mappings cs mps = Inr () \<longleftrightarrow>
     (\<forall>mp \<in> set mps. sm_container mp < length cs \<and> sm_slot mp < length (ct_slots (cs ! sm_container mp))
        \<and> 1 \<le> sm_max mp \<and> sm_max mp \<le> 64)"
  by (induction mps) (auto simp: ct_len_def stack_consts)

lemma new_menu_ok:
  assumes "new_menu w cs mps l t = Inr m" "containers_ok t cs" "table_ok t" "\<forall>mp \<in> set mps. sm_max mp = 64"
  shows "menu_ok m \<and> mn_containers m = cs \<and> mn_slots m = mps \<and> mn_cursor m = EMPTY
    \<and> mn_layout m = l \<and> mn_window_id m = w \<and> mn_state_id m = 0 \<and> mn_stack_sizes m = t
    \<and> menu_weight P m = sum_list (map (ct_weight P) cs) \<and> mn_drag_slots m = [] \<and> mps \<noteq> []
    \<and> \<not> mn_creative m"
proof -
  have "check_mappings cs mps = Inr ()" "length mps \<le> MAX_MENU_SLOTS" "mps \<noteq> []"
    using assms(1) by (auto simp: new_menu_def and_then_Inr split: if_splits)
  moreover have "m = \<lparr>mn_window_id = w, mn_state_id = 0, mn_containers = cs, mn_slots = mps,
             mn_layout = l, mn_cursor = EMPTY, mn_stack_sizes = t, mn_creative = False,
             mn_drag_slots = [], mn_drag_type = None\<rparr>"
    using assms(1) by (auto simp: new_menu_def and_then_Inr split: if_splits)
  ultimately show ?thesis
    using assms(2-4) unfolding check_mappings_Inr
    by (auto simp: menu_ok_def mapping_ok_def menu_weight_def containers_weight_def MAX_MENU_SLOTS_def)
qed

lemma storage_slot_max [simp]: "sm_max (storage_slot c s) = 64" "sm_max (with_role c s r) = 64"
  by (simp_all add: storage_slot_def with_role_def stack_consts)

lemma player_menu_ok:
  assumes "player_menu w p t = Inr m" "containers_ok t [p]" "table_ok t"
  shows "menu_ok m \<and> length (mn_slots m) = 46 \<and> menu_weight P m = ct_weight P p
    \<and> mn_stack_sizes m = t \<and> \<not> mn_creative m"
proof -
  obtain result grid mps where c: "new_container Kind_Crafting 1 = Inr result"
      "new_container Kind_Crafting 4 = Inr grid"
      and n: "new_menu w [p, result, grid] mps \<lparr>lay_groups = [new_range 9 45], lay_player = 0\<rparr> t = Inr m"
      and l: "length mps = 46" "\<forall>mp \<in> set mps. sm_max mp = 64"
    using assms(1) by (fastforce simp: player_menu_def and_then_Inr Let_def split: if_splits)
  have "containers_ok t [p, result, grid]"
    using assms(2) new_container_spec [OF c(1)] new_container_spec [OF c(2)]
    by (simp add: containers_ok_def)
  from new_menu_ok [OF n this assms(3) l(2), of P] new_container_spec [OF c(1), of P]
    new_container_spec [OF c(2), of P] l(1)
  show ?thesis by simp
qed

text \<open>The menus over a block container and the player's inventory.\<close>

lemma block_menu_ok:
  assumes "chest_menu w b p t = Inr m \<or> furnace_menu w b p t = Inr m \<or> hopper_menu w b p t = Inr m
      \<or> dispenser_menu w b p t = Inr m"
    and "containers_ok t [b, p]" "table_ok t"
  shows "menu_ok m \<and> length (mn_slots m) = ct_len b + 36 \<and> mn_containers m = [b, p]
    \<and> menu_weight P m = ct_weight P b + ct_weight P p"
proof -
  obtain mps l where n: "new_menu w [b, p] mps l t = Inr m"
      and l: "length mps = ct_len b + 36" "\<forall>mp \<in> set mps. sm_max mp = 64"
    using assms(1) unfolding chest_menu_def furnace_menu_def hopper_menu_def dispenser_menu_def Let_def
    by (elim disjE) (fastforce split: if_splits)+
  from new_menu_ok [OF n assms(2,3) l(2), of P] l(1) show ?thesis by simp
qed

lemma crafting_table_menu_ok:
  assumes "crafting_table_menu w g p t = Inr m" "containers_ok t [g, p]" "table_ok t"
  shows "menu_ok m \<and> length (mn_slots m) = 46 \<and> menu_weight P m = ct_weight P g + ct_weight P p"
proof -
  obtain result mps l where c: "new_container Kind_Crafting 1 = Inr result"
      and n: "new_menu w [p, result, g] mps l t = Inr m"
      and l: "length mps = 46" "\<forall>mp \<in> set mps. sm_max mp = 64"
    using assms(1) by (fastforce simp: crafting_table_menu_def and_then_Inr split: if_splits)
  have "containers_ok t [p, result, g]"
    using assms(2) new_container_spec [OF c(1)] by (simp add: containers_ok_def)
  from new_menu_ok [OF n this assms(3) l(2), of P] new_container_spec [OF c(1), of P] l(1)
  show ?thesis by simp
qed

text \<open>
  The player menu shows the inventory as the window payload lists it: opened over a
  container that holds the 41 stored stacks, its 46 slots display what
  \<^const>\<open>to_container_payload\<close> sends.
\<close>

lemma player_menu_shows_inventory:
  assumes "player_menu w c t = Inr m" "ct_slots c = slots p" "inv_ok p"
  shows "full_contents m = to_container_payload p"
proof -
  obtain result grid where c: "new_container Kind_Crafting 1 = Inr result"
      "new_container Kind_Crafting 4 = Inr grid"
      and n: "mn_containers m = [c, result, grid]"
      and l: "mn_slots m = [with_role 1 0 CraftingResult]
               @ map (\<lambda>s. with_role 2 s CraftingInput) [0..<4]
               @ map (\<lambda>s. with_role 0 (36 + s) Armor) [0..<4]
               @ map (storage_slot 0) [9..<36] @ map (storage_slot 0) [0..<9] @ [with_role 0 40 Offhand]"
    using assms(1) by (fastforce simp: player_menu_def new_menu_def and_then_Inr Let_def split: if_splits)
  have g: "ct_slots result = [EMPTY]" "ct_slots grid = replicate 4 EMPTY"
    using new_container_spec [OF c(1)] new_container_spec [OF c(2)] by simp_all
  show ?thesis
  proof (rule nth_equalityI)
    show "length (full_contents m) = length (to_container_payload p)"
      using payload_nth [OF assms(3), of 0] by (simp add: full_contents_def l)
  next
    fix k assume "k < length (full_contents m)"
    then have k: "k < 46" by (simp add: full_contents_def l)
    have len: "length (slots p) = 41" using assms(3) by (simp add: inv_ok_def)
    have mp: "mn_slots m ! k =
        (if k = 0 then with_role 1 0 CraftingResult else if k < 5 then with_role 2 (k - 1) CraftingInput
         else if k < 9 then with_role 0 (36 + (k - 5)) Armor else if k < 36 then storage_slot 0 k
         else if k < 45 then storage_slot 0 (k - 36) else with_role 0 40 Offhand)"
      using k by (auto simp: l nth_append nth_Cons' simp del: upt_rec_numeral)
    have f: "full_contents m ! k = ct_get (mn_containers m ! sm_container (mn_slots m ! k)) (sm_slot (mn_slots m ! k))"
      using k by (simp add: full_contents_def display_stack_def l)
    have e: "i < 4 \<Longrightarrow> replicate 4 EMPTY ! i = EMPTY" for i by simp
    consider "k = 0" | "0 < k" "k < 5" | "5 \<le> k" "k < 9" | "9 \<le> k" "k < 36" | "36 \<le> k" "k < 45" | "k = 45"
      using k by linarith
    then show "full_contents m ! k = to_container_payload p ! k"
      using payload_nth [OF assms(3) k] assms(2) g len f [unfolded mp]
      by cases (simp_all add: n with_role_def storage_slot_def ct_get_def)
  qed
qed

lemma player_menu_shows_inventory_witness:
  "\<exists>m. player_menu 0 \<lparr>ct_kind = Kind_Player, ct_slots = replicate 41 EMPTY, ct_changed = {}\<rparr> empty_table = Inr m
    \<and> full_contents m = to_container_payload (new_inventory empty_table)"
proof -
  let ?c = "\<lparr>ct_kind = Kind_Player, ct_slots = replicate 41 EMPTY, ct_changed = {}\<rparr>"
  have "\<exists>m. player_menu 0 ?c empty_table = Inr m"
    by (auto simp: player_menu_def new_container_def MAX_CONTAINER_SLOTS_def new_menu_def and_then_Inr
        MAX_MENU_SLOTS_def ct_len_def check_mappings_Inr with_role_def storage_slot_def stack_consts nth_Cons')
  then obtain m where m: "player_menu 0 ?c empty_table = Inr m" by blast
  have "slots (new_inventory empty_table) = replicate 41 EMPTY"
    by (simp add: new_inventory_def slot_consts)
  with player_menu_shows_inventory [OF m, of "new_inventory empty_table"] m new_inventory_ok
  show ?thesis by simp
qed

end
