(* ===== verification/MenuClicks.thy ===== *)
theory MenuClicks
  imports Menu
begin

text \<open>
  \<open>crates/container/src/menu.rs\<close>, \<open>Menu::apply_click\<close> and the seven handlers. A handler
  returns its outcome or error and the menu, changed also where it fails. The loops are
  \<^const>\<open>scan\<close>s over the slots they visit; a body returns \<^const>\<open>None\<close> where the code
  breaks.
\<close>

type_synonym handled = "click_outcome server_result \<times> menu"

text \<open>Return what did not fit to the cursor and drop what the cursor cannot take.\<close>

definition give_back :: "click_outcome \<Rightarrow> item_stack \<Rightarrow> menu \<Rightarrow> click_outcome \<times> menu" where
  "give_back oc overflow m =
     (if \<not> stack_is_empty overflow then
        (let (leftover, m) = return_to_cursor m overflow
         in (if \<not> stack_is_empty leftover then oc\<lparr>dropped := dropped oc @ [leftover]\<rparr> else oc, m))
      else (oc, m))"

definition mark :: "nat \<Rightarrow> click_outcome \<Rightarrow> click_outcome" where
  "mark i oc = oc\<lparr>changed_slots := insert (as_u16 i) (changed_slots oc)\<rparr>"

definition push_dropped :: "item_stack \<Rightarrow> click_outcome \<Rightarrow> click_outcome" where
  "push_dropped s oc = oc\<lparr>dropped := dropped oc @ [s]\<rparr>"

section \<open>Pickup\<close>

definition click_pickup :: "menu \<Rightarrow> click \<Rightarrow> handled" where
  "click_pickup m c =
     (let oc = default_outcome in
      case slot_index c of
        None \<Rightarrow>
          if \<not> stack_is_empty (mn_cursor m) then
            (let n = (if secondary c then 1 else stack_count (mn_cursor m));
                 (out, m) = split_cursor m n
             in if \<not> stack_is_empty out then
                  (Inr ((push_dropped out oc)\<lparr>cursor_changed := True\<rparr>), m)
                else (Inr oc, m))
          else (Inr oc, m)
      | Some index \<Rightarrow>
          (case mapping_of m index of
             Inl e \<Rightarrow> (Inl e, m)
           | Inr mapping \<Rightarrow>
               let slot_stack = display_stack m index in
               if stack_is_empty (mn_cursor m) then
                 (if \<not> sm_may_pickup mapping \<or> stack_is_empty slot_stack then (Inr oc, m)
                  else let n = (if secondary c then (stack_count slot_stack + 1) div 2
                                else stack_count slot_stack);
                           (taken, m) = menu_extract m index n
                       in if \<not> stack_is_empty taken then
                            (Inr (mark index (oc\<lparr>cursor_changed := True\<rparr>)), set_cursor m taken)
                          else (Inr oc, m))
               else if \<not> sm_may_place mapping then (Inr oc, m)
               else if stack_is_empty slot_stack then
                 (let wanted = (if secondary c then 1 else stack_count (mn_cursor m));
                      (offered, m) = split_cursor m wanted;
                      (overflow, m) = menu_insert m index offered;
                      (oc, m) = give_back oc overflow m;
                      oc = (if \<not> stack_eq (display_stack m index) slot_stack then mark index oc else oc)
                  in (Inr (oc\<lparr>cursor_changed := True\<rparr>), m))
               else if \<not> same_item slot_stack (mn_cursor m) then
                 (if \<not> secondary c then
                    (case set_slot m index (mn_cursor m) of
                       (Inl e, m) \<Rightarrow> (Inl e, m)
                     | (Inr _, m) \<Rightarrow>
                         (Inr ((mark index oc)\<lparr>cursor_changed := True\<rparr>), set_cursor m slot_stack))
                  else (Inr oc, m))
               else let room = slot_limit m index slot_stack - stack_count slot_stack
               in if room \<le> 0 then (Inr oc, m)
               else let wanted = (if secondary c then min 1 room else room);
                        (offered, m) = split_cursor m wanted;
                        (overflow, m) = menu_insert m index offered;
                        (oc, m) = give_back oc overflow m
                    in (Inr ((mark index oc)\<lparr>cursor_changed := True\<rparr>), m)))"

section \<open>Quick move\<close>

text \<open>One target slot, and one group, of a shift click.\<close>

definition move_into :: "nat \<Rightarrow> nat \<Rightarrow> menu \<times> item_stack \<times> click_outcome \<Rightarrow> (menu \<times> item_stack \<times> click_outcome) option" where
  "move_into index target st =
     (case st of (m, remaining, oc) \<Rightarrow>
        if stack_is_empty remaining then None
        else if target = index then Some (m, remaining, oc)
        else let (remaining, m) = menu_insert m target remaining
             in Some (m, remaining,
                  if \<not> stack_eq (display_stack m target) EMPTY then mark target oc else oc))"

definition move_group :: "nat \<Rightarrow> slot_range \<Rightarrow> menu \<times> item_stack \<times> click_outcome \<Rightarrow> (menu \<times> item_stack \<times> click_outcome) option" where
  "move_group index r st =
     (case st of (m, remaining, oc) \<Rightarrow>
        if stack_is_empty remaining then None
        else Some (scan (move_into index) [sr_start r..<sr_end r] (m, remaining, oc)))"

definition click_quick_move :: "menu \<Rightarrow> click \<Rightarrow> handled" where
  "click_quick_move m c =
     (let oc = default_outcome in
      case slot_index c of
        None \<Rightarrow> (Inr oc, m)
      | Some index \<Rightarrow>
          (case mapping_of m index of
             Inl e \<Rightarrow> (Inl e, m)
           | Inr mapping \<Rightarrow>
               let s = display_stack m index in
               if stack_is_empty s \<or> \<not> sm_may_pickup mapping then (Inr oc, m)
               else let (remaining, m) = menu_extract m index (stack_count s);
                        (m, remaining, oc) =
                          scan (move_group index) (transfer_order (mn_layout m) (as_u16 index))
                            (m, remaining, oc);
                        (leftover, m) = menu_insert m index remaining
                    in if \<not> stack_is_empty leftover then (Inl Invariant, m)
                       else (Inr (mark index oc), m)))"

section \<open>Swap, clone and throw\<close>

fun swap_partner :: "menu \<Rightarrow> swap_target \<Rightarrow> nat option" where
  "swap_partner m (Hotbar h) =
     map_option as_u16 (position
       (\<lambda>mp. sm_container mp = lay_player (mn_layout m) \<and> sm_role mp = Storage \<and> sm_slot mp = h)
       (mn_slots m))"
| "swap_partner m OffhandTarget =
     map_option as_u16 (position (\<lambda>mp. sm_role mp = Offhand) (mn_slots m))"

definition click_swap :: "menu \<Rightarrow> click \<Rightarrow> handled" where
  "click_swap m c =
     (let oc = default_outcome in
      case slot_index c of
        None \<Rightarrow> (Inr oc, m)
      | Some index \<Rightarrow>
      (case swap_target c of
        None \<Rightarrow> (Inr oc, m)
      | Some target \<Rightarrow>
      (case mapping_of m index of
        Inl e \<Rightarrow> (Inl e, m)
      | Inr mapping \<Rightarrow>
      (case swap_partner m target of
        None \<Rightarrow> (Inr oc, m)
      | Some partner \<Rightarrow>
          if partner = as_u16 index then (Inr oc, m)
          else
          (case mapping_of m partner of
             Inl e \<Rightarrow> (Inl e, m)
           | Inr partner_mapping \<Rightarrow>
               let a = display_stack m index;
                   b = display_stack m partner
               in if stack_is_empty (mn_cursor m) then
                    (if \<not> stack_is_empty b \<and> \<not> sm_may_place mapping then (Inr oc, m)
                     else if \<not> stack_is_empty a \<and> \<not> sm_may_place partner_mapping then (Inr oc, m)
                     else if \<not> stack_is_empty b \<and> stack_count b > slot_limit m index b then (Inr oc, m)
                     else if \<not> stack_is_empty a \<and> stack_count a > slot_limit m partner a then (Inr oc, m)
                     else (case set_slot m index b of
                             (Inl e, m) \<Rightarrow> (Inl e, m)
                           | (Inr _, m) \<Rightarrow>
                               (case set_slot m partner a of
                                  (Inl e, m) \<Rightarrow> (Inl e, m)
                                | (Inr _, m) \<Rightarrow> (Inr (mark partner (mark index oc)), m))))
                  else if stack_is_empty b \<and> sm_may_place mapping then
                    (let (overflow, m) = menu_insert m partner (mn_cursor m)
                     in if stack_is_empty overflow then
                          (Inr ((mark partner oc)\<lparr>cursor_changed := True\<rparr>), set_cursor m EMPTY)
                        else (Inr oc, m))
                  else (Inr oc, m))))))"

definition click_clone :: "menu \<Rightarrow> click \<Rightarrow> handled" where
  "click_clone m c =
     (let oc = default_outcome in
      if \<not> mn_creative m then (Inr oc, m)
      else case slot_index c of
        None \<Rightarrow> (Inr oc, m)
      | Some index \<Rightarrow>
          (case mapping_of m index of
             Inl e \<Rightarrow> (Inl e, m)
           | Inr _ \<Rightarrow>
               let s = display_stack m index in
               if stack_is_empty s then (Inr oc, m)
               else let n = (if button c = 2 then item_limit m s else stack_count s)
               in case with_components (case stack_item_id s of Some i \<Rightarrow> i | None \<Rightarrow> 0) n (st_comps s) of
                    Inl e \<Rightarrow> (Inl e, m)
                  | Inr cloned \<Rightarrow> (Inr (oc\<lparr>cursor_changed := True\<rparr>), set_cursor m cloned)))"

definition click_throw :: "menu \<Rightarrow> click \<Rightarrow> handled" where
  "click_throw m c =
     (let oc = default_outcome in
      case slot_index c of
        Some index \<Rightarrow>
          (case mapping_of m index of
             Inl e \<Rightarrow> (Inl e, m)
           | Inr mapping \<Rightarrow>
               if \<not> sm_may_pickup mapping then (Inr oc, m)
               else let s = display_stack m index in
               if stack_is_empty s then (Inr oc, m)
               else let n = (if secondary c then stack_count s else 1);
                        (out, m) = menu_extract m index n
                    in if \<not> stack_is_empty out then (Inr (mark index (push_dropped out oc)), m)
                       else (Inr oc, m))
      | None \<Rightarrow>
          if \<not> stack_is_empty (mn_cursor m) then
            (let n = (if secondary c then stack_count (mn_cursor m) else 1);
                 (out, m) = split_cursor m n
             in if \<not> stack_is_empty out then
                  (Inr ((push_dropped out oc)\<lparr>cursor_changed := True\<rparr>), m)
                else (Inr oc, m))
          else (Inr oc, m))"

section \<open>Drag\<close>

text \<open>Put a share into a slot and give back what did not fit.\<close>

definition put_share :: "nat \<Rightarrow> int \<Rightarrow> click_outcome \<times> menu \<Rightarrow> click_outcome \<times> menu" where
  "put_share slot n st =
     (case st of (oc, m) \<Rightarrow>
        let (share, m) = split_cursor m n;
            (overflow, m) = menu_insert m slot share;
            (oc, m) = give_back oc overflow m
        in (mark slot oc, m))"

definition drag_one :: "nat \<Rightarrow> click_outcome \<times> menu \<Rightarrow> (click_outcome \<times> menu) option" where
  "drag_one slot st =
     (if stack_is_empty (mn_cursor (snd st)) then None else Some (put_share slot 1 st))"

definition accepts :: "menu \<Rightarrow> nat \<Rightarrow> (nat \<times> int) option" where
  "accepts m slot =
     (let target = display_stack m slot
      in if \<not> stack_is_empty target \<and> \<not> same_item target (mn_cursor m) then None
         else let room = slot_limit m slot (mn_cursor m) - stack_count target
              in if room > 0 then Some (slot, room) else None)"

definition drag_even :: "int \<Rightarrow> nat \<times> int \<Rightarrow> int \<times> click_outcome \<times> menu \<Rightarrow> (int \<times> click_outcome \<times> menu) option" where
  "drag_even per sr st =
     (case (sr, st) of ((slot, room), (extra, oc, m)) \<Rightarrow>
        let give = min per room;
            (give, extra) = (if extra > 0 \<and> give < room then (give + 1, extra - 1) else (give, extra))
        in if give = 0 then Some (extra, oc, m)
           else Some (extra, put_share slot give (oc, m)))"

definition drag_full :: "nat \<Rightarrow> click_outcome \<times> menu \<Rightarrow> (click_outcome \<times> menu) option" where
  "drag_full slot st =
     (case st of (oc, m) \<Rightarrow>
        if stack_is_empty (mn_cursor m) then None
        else let target = display_stack m slot;
                 room = slot_limit m slot (mn_cursor m) - stack_count target
             in if room \<le> 0 then Some (oc, m) else Some (put_share slot room (oc, m)))"

definition click_quick_craft :: "menu \<Rightarrow> click \<Rightarrow> handled" where
  "click_quick_craft m c =
     (let oc = default_outcome in
      case click_drag c of
        None \<Rightarrow> (Inr oc, m)
      | Some (dt, stage) \<Rightarrow>
          (case stage of
             Start \<Rightarrow> (Inr oc, m\<lparr>mn_drag_slots := [], mn_drag_type := Some dt\<rparr>)
           | AddSlot \<Rightarrow>
               if mn_drag_type m \<noteq> Some dt then (Inr oc, m)
               else (case slot_index c of
                       None \<Rightarrow> (Inr oc, m)
                     | Some index \<Rightarrow>
                         (case mapping_of m index of
                            Inl e \<Rightarrow> (Inl e, m)
                          | Inr mapping \<Rightarrow>
                              if sm_may_place mapping \<and> as_u16 index \<notin> set (mn_drag_slots m)
                              then (Inr oc, m\<lparr>mn_drag_slots := mn_drag_slots m @ [as_u16 index]\<rparr>)
                              else (Inr oc, m)))
           | End \<Rightarrow>
               let sl = mn_drag_slots m;
                   opened = mn_drag_type m;
                   m = m\<lparr>mn_drag_slots := [], mn_drag_type := None\<rparr>
               in if opened \<noteq> Some dt \<or> stack_is_empty (mn_cursor m) \<or> sl = [] then (Inr oc, m)
                  else case dt of
                    One \<Rightarrow>
                      (let (oc, m) = scan drag_one sl (oc, m)
                       in (Inr (oc\<lparr>cursor_changed := True\<rparr>), m))
                  | Even \<Rightarrow>
                      (let accepted = List.map_filter (accepts m) sl
                       in if accepted = [] then (Inr oc, m)
                       else let total = stack_count (mn_cursor m);
                                per = total div int (length accepted);
                                extra = total mod int (length accepted);
                                (extra, oc, m) = scan (drag_even per) accepted (extra, oc, m)
                            in (Inr (oc\<lparr>cursor_changed := True\<rparr>), m))
                  | Full \<Rightarrow>
                      (let (oc, m) = scan drag_full sl (oc, m)
                       in (Inr (oc\<lparr>cursor_changed := True\<rparr>), m))))"

section \<open>Double click\<close>

definition gather :: "nat \<Rightarrow> int \<Rightarrow> nat \<Rightarrow> menu \<times> item_stack \<times> click_outcome \<Rightarrow> (menu \<times> item_stack \<times> click_outcome) option" where
  "gather index limit slot st =
     (case st of (m, gathered, oc) \<Rightarrow>
        if stack_count gathered \<ge> limit then None
        else if slot = index then Some (m, gathered, oc)
        else let s = display_stack m slot
        in if stack_is_empty s \<or> \<not> same_item s gathered \<or> \<not> sm_may_pickup (mn_slots m ! slot)
           then Some (m, gathered, oc)
        else let want = limit - stack_count gathered;
                 (moved, m) = menu_extract m slot want
             in if stack_is_empty moved then Some (m, gathered, oc)
             else let (_, gathered, _) = merge_capped gathered moved limit
                  in Some (m, gathered, mark slot oc))"

definition click_pickup_all :: "menu \<Rightarrow> click \<Rightarrow> handled" where
  "click_pickup_all m c =
     (let oc = default_outcome in
      case slot_index c of
        None \<Rightarrow> (Inr oc, m)
      | Some index \<Rightarrow>
          (case mapping_of m index of
             Inl e \<Rightarrow> (Inl e, m)
           | Inr mapping \<Rightarrow>
               if \<not> sm_may_pickup mapping then (Inr oc, m)
               else let target = display_stack m index
               in if stack_is_empty (mn_cursor m) \<and> stack_is_empty target then (Inr oc, m)
               else let (gathered, m, oc) =
                      (if stack_is_empty (mn_cursor m) then
                         (let (g, m) = menu_extract m index (stack_count target) in (g, m, mark index oc))
                       else (mn_cursor m, m, oc))
               in if stack_is_empty gathered then (Inr oc, m)
               else let (m, gathered, oc) =
                      scan (gather index (item_limit m gathered)) [0..<length (mn_slots m)] (m, gathered, oc)
               in if \<not> stack_eq gathered (mn_cursor m)
                  then (Inr (oc\<lparr>cursor_changed := True\<rparr>), set_cursor m gathered)
                  else (Inr oc, m)))"

section \<open>apply\_click\<close>

fun handle_click :: "click_type \<Rightarrow> menu \<Rightarrow> click \<Rightarrow> handled" where
  "handle_click Pickup m c = click_pickup m c"
| "handle_click QuickMove m c = click_quick_move m c"
| "handle_click Swap m c = click_swap m c"
| "handle_click Clone m c = click_clone m c"
| "handle_click Throw m c = click_throw m c"
| "handle_click QuickCraft m c = click_quick_craft m c"
| "handle_click PickupAll m c = click_pickup_all m c"

definition apply_click :: "menu \<Rightarrow> click \<Rightarrow> handled" where
  "apply_click m c =
     (if window_id c \<noteq> mn_window_id m then (Inl InvalidAction, m)
      else case (case slot_index c of
                   Some index \<Rightarrow> and_then (mapping_of m index) (\<lambda>_. Inr ())
                 | None \<Rightarrow> Inr ()) of
        Inl e \<Rightarrow> (Inl e, m)
      | Inr _ \<Rightarrow>
          if click_state_id c \<noteq> mn_state_id m then
            (Inr (default_outcome\<lparr>full_resync := True\<rparr>), m)
          else case handle_click (click_type c) m c of
            (Inl e, m) \<Rightarrow> (Inl e, m)
          | (Inr oc, m) \<Rightarrow>
              (Inr (if full_resync oc then oc\<lparr>changed_slots := {}, cursor_changed := False\<rparr> else oc),
               bump_state m))"

end
