(* ===== verification/MenuLaws.thy ===== *)
theory MenuLaws
  imports MenuClicks
begin

text \<open>
  What the click handlers of \<open>menu.rs\<close> guarantee: every handler keeps the menu's invariant,
  and what leaves the containers and the cursor is exactly what it reports as dropped.
\<close>

section \<open>Every handler conserves\<close>

definition balanced :: "(int \<Rightarrow> item_components \<Rightarrow> bool) \<Rightarrow> menu \<Rightarrow> click_outcome \<Rightarrow> menu \<Rightarrow> bool" where
  "balanced P m oc m' \<longleftrightarrow> menu_ok m' \<and> frame m m'
     \<and> menu_weight P m' + slots_weight P (dropped oc) = menu_weight P m"

lemma outcome_simps [simp]:
  "dropped default_outcome = []" "dropped (mark i oc) = dropped oc"
  "full_resync default_outcome = False" "full_resync (mark i oc) = full_resync oc"
  "dropped (push_dropped s oc) = dropped oc @ [s]" "full_resync (push_dropped s oc) = full_resync oc"
  "dropped (if b then mark i oc else oc) = dropped oc"
  "full_resync (if b then mark i oc else oc) = full_resync oc"
  by (simp_all add: default_outcome_def mark_def push_dropped_def)

lemma balanced_simps [simp]:
  "balanced P m (mark i oc) m' = balanced P m oc m'"
  "balanced P m (oc\<lparr>cursor_changed := b\<rparr>) m' = balanced P m oc m'"
  by (simp_all add: balanced_def)

lemma balanced_default: "menu_ok m \<Longrightarrow> balanced P m default_outcome m"
  by (simp add: balanced_def)

lemma frame_sizes: "frame m m' \<Longrightarrow> mn_stack_sizes m' = mn_stack_sizes m"
  by (simp add: frame_def)

lemma frame_slots: "frame m m' \<Longrightarrow> mn_slots m' = mn_slots m \<and> mn_creative m' = mn_creative m"
  by (simp add: frame_def)

lemma give_back_balanced:
  assumes "menu_ok m1" "frame m m1" "fits (mn_stack_sizes m1) s" "class_pred P"
    and "menu_weight P m1 + weight P s + slots_weight P (dropped oc) = menu_weight P m"
    and "give_back oc s m1 = (oc', m')"
  shows "balanced P m oc' m' \<and> full_resync oc' = full_resync oc"
proof (cases "stack_is_empty s")
  case True
  then have "s = EMPTY" using wf_empty [OF fits_wf [OF assms(3)]] by simp
  with assms True show ?thesis by (simp add: give_back_def balanced_def)
next
  case False
  obtain left m2 where r: "return_to_cursor m1 s = (left, m2)" by fastforce
  note rr = return_to_cursor_spec [OF assms(1,3) r assms(4)]
  have wl: "wf_stack left" using rr fits_wf by blast
  have "weight P left = 0" if "stack_is_empty left"
    using that wf_empty [OF wl] by simp
  then show ?thesis
    using rr assms(5,6) False r frame_trans [OF assms(2), of m2]
    by (auto simp: give_back_def balanced_def split: if_splits)
qed

lemma put_share_balanced:
  assumes b: "balanced P m oc m1" and P: "class_pred P" and r: "put_share slot n (oc, m1) = (oc', m')"
  shows "balanced P m oc' m' \<and> full_resync oc' = full_resync oc"
proof -
  obtain share m2 where sp: "split_cursor m1 n = (share, m2)" by fastforce
  obtain ov m3 where ins: "menu_insert m2 slot share = (ov, m3)" by fastforce
  obtain oc4 m4 where g: "give_back oc ov m3 = (oc4, m4)" by fastforce
  have res: "oc' = mark slot oc4" "m' = m4" using r sp ins g by (simp_all add: put_share_def)
  have ok: "menu_ok m1" "frame m m1" using b by (simp_all add: balanced_def)
  note s = split_cursor_spec [OF ok(1) sp, of P]
  then have f: "fits (mn_stack_sizes m2) share" by (simp add: frame_sizes [of m1 m2])
  have ok2: "menu_ok m2" using s by blast
  note i = menu_insert_spec [OF ok2 f ins P]
  then have f3: "fits (mn_stack_sizes m3) ov" "frame m1 m3"
    using s frame_trans [of m1 m2 m3] by (simp_all add: frame_sizes [of m2 m3])
  have "menu_weight P m3 + weight P ov + slots_weight P (dropped oc) = menu_weight P m"
    using s i b by (simp add: balanced_def)
  with i f3 give_back_balanced [OF _ frame_trans [OF ok(2) f3(2)] f3(1) P _ g]
  show ?thesis by (simp add: res)
qed

text \<open>A share offered to one slot outside a loop is the same sequence.\<close>

definition step_to :: "(int \<Rightarrow> item_components \<Rightarrow> bool) \<Rightarrow> menu \<Rightarrow> handled \<Rightarrow> bool" where
  "step_to P m r \<longleftrightarrow> (\<exists>oc m'. r = (Inr oc, m') \<and> balanced P m oc m' \<and> \<not> full_resync oc)"

lemma step_to_noop [simp]: "menu_ok m \<Longrightarrow> step_to P m (Inr default_outcome, m)"
  by (simp add: step_to_def balanced_default)

lemma drop_from_cursor:
  assumes ok: "menu_ok m" and sp: "split_cursor m n = (out, m')"
  shows "step_to P m (Inr ((push_dropped out default_outcome)\<lparr>cursor_changed := True\<rparr>), m')"
    "stack_is_empty out \<Longrightarrow> step_to P m (Inr default_outcome, m')"
proof -
  note s = split_cursor_spec [OF ok sp, of P]
  show "step_to P m (Inr ((push_dropped out default_outcome)\<lparr>cursor_changed := True\<rparr>), m')"
    using s by (simp add: step_to_def balanced_def)
  assume "stack_is_empty out"
  then have "out = EMPTY" using s wf_empty fits_wf by blast
  with s show "step_to P m (Inr default_outcome, m')"
    by (simp add: step_to_def balanced_def)
qed

lemma slot_has:
  "slot_index c = Some i \<Longrightarrow> i < length (mn_slots m) \<Longrightarrow> mapping_of m i = Inr (mn_slots m ! i)"
  by (simp add: mapping_of_def)

lemma offer_balanced:
  assumes ok: "menu_ok m" and P: "class_pred P"
    and r: "split_cursor m n = (share, m2)" "menu_insert m2 i share = (ov, m3)"
      "give_back default_outcome ov m3 = (oc, m4)"
  shows "balanced P m oc m4 \<and> \<not> full_resync oc"
  using put_share_balanced [OF balanced_default [OF ok] P, of i n "mark i oc" m4] r
  by (simp add: put_share_def)

lemma pickup_swap:
  assumes ok: "menu_ok m" and i: "i < length (mn_slots m)" and P: "class_pred P"
    and r: "set_slot m i (mn_cursor m) = (res, m')" and d: "dropped oc = []"
  shows "res = Inr () \<and> balanced P m oc (set_cursor m' (display_stack m i))"
proof -
  have cur: "fits (mn_stack_sizes m) (mn_cursor m)" using ok by (simp add: menu_ok_def)
  note s = set_slot_spec [OF ok i cur r, of P]
  then have f: "fits (mn_stack_sizes m') (display_stack m i)"
    using display_fits [OF ok] by (simp add: frame_sizes [of m m'])
  have "menu_ok m'" using s by blast
  note c = set_cursor_spec [OF this f]
  with s P d show ?thesis by (simp add: balanced_def menu_weight_def)
qed

lemma click_pickup_step:
  assumes ok: "menu_ok m" and P: "class_pred P"
    and idx: "\<And>i. slot_index c = Some i \<Longrightarrow> i < length (mn_slots m)"
  shows "step_to P m (click_pickup m c)"
proof (cases "slot_index c")
  case None
  then show ?thesis
    using ok drop_from_cursor [OF ok]
    by (auto simp: click_pickup_def Let_def split: prod.splits)
next
  case (Some i)
  note i = idx [OF Some]
  let ?d = "display_stack m i"
  have map: "mapping_of m i = Inr (mn_slots m ! i)" by (simp add: mapping_of_def i)
  note e = click_pickup_def [of m c, unfolded Some map Let_def option.case sum.case]
  show ?thesis
  proof (cases "stack_is_empty (mn_cursor m)")
    case True
    then have cur: "mn_cursor m = EMPTY" using ok wf_empty fits_wf unfolding menu_ok_def by blast
    show ?thesis
    proof (cases "\<not> sm_may_pickup (mn_slots m ! i) \<or> stack_is_empty ?d")
      case True
      with e cur ok show ?thesis by auto
    next
      case False
      obtain taken m2 where x: "menu_extract m i (if secondary c then (stack_count ?d + 1) div 2
            else stack_count ?d) = (taken, m2)" by fastforce
      note ex = menu_extract_spec [OF ok x P]
      then have f: "fits (mn_stack_sizes m2) taken" by (simp add: frame_sizes [of m m2])
      show ?thesis
      proof (cases "stack_is_empty taken")
        case True
        then have "taken = EMPTY" using wf_empty [OF fits_wf [OF f]] by blast
        with ex e x False True cur show ?thesis by (simp add: step_to_def balanced_def)
      next
        case ne: False
        have "menu_ok m2" using ex by blast
        note sc = set_cursor_spec [OF this f]
        moreover have "mn_cursor m2 = EMPTY" "frame m m2" using ex cur by simp_all
        moreover have "menu_weight P m2 + weight P taken = menu_weight P m" using ex by blast
        ultimately show ?thesis using e x False ne cur
          by (simp add: step_to_def balanced_def menu_weight_def)
      qed
    qed
  next
    case nc: False
    show ?thesis
    proof (cases "sm_may_place (mn_slots m ! i)")
      case False
      with e nc ok show ?thesis by simp
    next
      case pl: True
      have offer: "balanced P m oc m4 \<and> \<not> full_resync oc"
        if "split_cursor m n = (share, m2)" "menu_insert m2 i share = (ov, m3)"
          "give_back default_outcome ov m3 = (oc, m4)" for n share m2 ov m3 oc m4
        using offer_balanced [OF ok P that] .
      show ?thesis
      proof (cases "stack_is_empty ?d")
        case True
        with e nc pl show ?thesis
          by (auto simp: step_to_def dest: offer split: prod.split)
      next
        case nd: False
        show ?thesis
        proof (cases "same_item ?d (mn_cursor m)")
          case True
          with e nc pl nd ok show ?thesis
            by (auto simp: step_to_def balanced_default dest: offer split: prod.split)
        next
          case False
          obtain res m2 where s: "set_slot m i (mn_cursor m) = (res, m2)" by fastforce
          note sw = pickup_swap [OF ok i P s, of default_outcome]
          show ?thesis
            using e nc pl nd False ok s sw
            by (simp add: step_to_def balanced_default)
        qed
      qed
    qed
  qed
qed

lemma slot_stays: "frame m m' \<Longrightarrow> length (mn_slots m') = length (mn_slots m)"
  by (simp add: frame_def)

lemma quick_move_loop:
  assumes P: "class_pred P" and ok: "menu_ok m0" "fits (mn_stack_sizes m0) s"
    and r: "scan (move_group index) rs (m0, s, oc0) = (m', s', oc')"
  shows "menu_ok m' \<and> frame m0 m' \<and> fits (mn_stack_sizes m0) s'
    \<and> menu_weight P m' + weight P s' = menu_weight P m0 + weight P s
    \<and> dropped oc' = dropped oc0 \<and> full_resync oc' = full_resync oc0"
proof -
  define I where "I = (\<lambda>(m, t, oc :: click_outcome). menu_ok m \<and> frame m0 m \<and> fits (mn_stack_sizes m0) t
    \<and> menu_weight P m + weight P t = menu_weight P m0 + weight P s
    \<and> dropped oc = dropped oc0 \<and> full_resync oc = full_resync oc0)"
  have one: "I st'" if I: "I st" and b: "move_into index target st = Some st'" for target st st'
  proof -
    obtain m t oc where st: "st = (m, t, oc)" by (cases st)
    have ne: "\<not> stack_is_empty t" using b st by (auto simp: move_into_def)
    show ?thesis
    proof (cases "target = index")
      case True
      with b st ne I show ?thesis by (simp add: move_into_def)
    next
      case False
      obtain t1 m1 where ins: "menu_insert m target t = (t1, m1)" by fastforce
      have ok: "menu_ok m" "frame m0 m" "fits (mn_stack_sizes m) t"
        using I by (simp_all add: I_def st frame_sizes [of m0 m])
      note i = menu_insert_spec [OF ok(1,3) ins P]
      have "frame m0 m1" using i frame_trans [OF ok(2)] by blast
      with i I b False ne st ins ok show ?thesis
        by (auto simp: move_into_def I_def frame_sizes [of m0 m])
    qed
  qed
  have group: "I st'" if "I st" and b: "move_group index r st = Some st'" for r st st'
  proof -
    have "st' = scan (move_into index) [sr_start r..<sr_end r] st"
      using b by (auto simp: move_group_def split: prod.splits if_splits)
    moreover have "I (scan (move_into index) [sr_start r..<sr_end r] st)"
      by (rule scan_invariant [where I = I]) (use one \<open>I st\<close> in blast)+
    ultimately show ?thesis by simp
  qed
  have "I (m0, s, oc0)" using ok by (simp add: I_def)
  then have "I (scan (move_group index) rs (m0, s, oc0))"
    by (intro scan_invariant [where I = I]) (use group in blast)+
  then have "I (m', s', oc')" by (simp add: r)
  then show ?thesis by (simp add: I_def)
qed

lemma click_quick_move_step:
  assumes ok: "menu_ok m" and P: "class_pred P" and r: "click_quick_move m c = (res, m')"
    and idx: "\<And>i. slot_index c = Some i \<Longrightarrow> i < length (mn_slots m)"
  shows "menu_ok m' \<and> frame m m' \<and> (case res of Inr oc \<Rightarrow> balanced P m oc m' \<and> \<not> full_resync oc
    | Inl e \<Rightarrow> e = Invariant)"
proof (cases "slot_index c")
  case None
  with r ok show ?thesis by (auto simp: click_quick_move_def Let_def balanced_def)
next
  case (Some i)
  let ?d = "display_stack m i"
  have map: "mapping_of m i = Inr (mn_slots m ! i)" by (simp add: mapping_of_def idx [OF Some])
  note e = r [unfolded click_quick_move_def Some map Let_def option.case sum.case]
  show ?thesis
  proof (cases "stack_is_empty ?d \<or> \<not> sm_may_pickup (mn_slots m ! i)")
    case True
    with e ok have "res = Inr default_outcome" "m' = m" by auto
    with ok show ?thesis by (simp add: balanced_default)
  next
    case False
    obtain s1 m1 where x: "menu_extract m i (stack_count ?d) = (s1, m1)" by fastforce
    obtain m2 s2 oc2 where l: "scan (move_group i) (transfer_order (mn_layout m1) (as_u16 i))
        (m1, s1, default_outcome) = (m2, s2, oc2)" by (metis prod_cases3)
    obtain left m3 where ins: "menu_insert m2 i s2 = (left, m3)" by fastforce
    note ex = menu_extract_spec [OF ok x P]
    have ok1: "menu_ok m1" "fits (mn_stack_sizes m1) s1"
      using ex by (simp_all add: frame_sizes [of m m1])
    note lo = quick_move_loop [OF P ok1 l]
    have ok2: "menu_ok m2" "fits (mn_stack_sizes m2) s2"
      using lo by (simp_all add: frame_sizes [of m1 m2])
    note li = menu_insert_spec [OF ok2 ins P]
    have fr: "frame m m3" using ex lo li by (blast intro: frame_trans)
    have res: "(res, m') = (if \<not> stack_is_empty left then (Inl Invariant, m3) else (Inr (mark i oc2), m3))"
      using e False x l ins by simp
    show ?thesis
    proof (cases "stack_is_empty left")
      case True
      then have "left = EMPTY" using li wf_empty fits_wf by blast
      with True res fr li lo ex show ?thesis by (simp add: balanced_def)
    next
      case False
      with res fr li show ?thesis by simp
    qed
  qed
qed

lemma swap_partner_lt: "swap_partner m t = Some p \<Longrightarrow> length (mn_slots m) \<le> 100 \<Longrightarrow> p < length (mn_slots m)"
  by (cases t) (auto dest!: position_lt)

lemma swap_slots:
  assumes ok: "menu_ok m" and i: "i < length (mn_slots m)" "j < length (mn_slots m)" and P: "class_pred P"
    and r: "set_slot m i (display_stack m j) = (r1, m1)" "set_slot m1 j (display_stack m i) = (r2, m2)"
    and d: "dropped oc = []"
  shows "r1 = Inr () \<and> r2 = Inr () \<and> balanced P m oc m2"
proof -
  let ?a = "display_stack m i" and ?b = "display_stack m j"
  note f = display_fits [OF ok]
  note s1 = set_slot_spec [OF ok i(1) f r(1), of P]
  have ok1: "menu_ok m1" "frame m m1" using s1 by blast+
  have f1: "fits (mn_stack_sizes m1) ?a" "j < length (mn_slots m1)"
    using f i(2) by (simp_all add: frame_sizes [OF ok1(2)] slot_stays [OF ok1(2)])
  note s2 = set_slot_spec [OF ok1(1) f1(2,1) r(2), of P]
  have same: "weight P (display_stack m1 j) = weight P ?b"
    using set_slot_display [OF ok i(1) f r(1) P i(2)] by (simp split: if_splits)
  have "frame m m2" using ok1(2) s2 by (blast intro: frame_trans)
  with s1 s2 P same d show ?thesis by (simp add: balanced_def menu_weight_def)
qed

lemma click_swap_step:
  assumes ok: "menu_ok m" and P: "class_pred P"
    and idx: "\<And>i. slot_index c = Some i \<Longrightarrow> i < length (mn_slots m)"
  shows "step_to P m (click_swap m c)"
proof (cases "\<exists>i t p. slot_index c = Some i \<and> swap_target c = Some t \<and> swap_partner m t = Some p \<and> p \<noteq> as_u16 i")
  case False
  then have "click_swap m c = (Inr default_outcome, m)"
    using idx by (auto simp: click_swap_def Let_def mapping_of_def split: option.split)
  with ok show ?thesis by simp
next
  case True
  then obtain i t p where h: "slot_index c = Some i" "swap_target c = Some t" "swap_partner m t = Some p"
      "p \<noteq> as_u16 i" by blast
  have lt: "i < length (mn_slots m)" "p < length (mn_slots m)"
    using idx [OF h(1)] swap_partner_lt [OF h(3)] ok by (simp_all add: menu_ok_def)
  then have mp: "mapping_of m i = Inr (mn_slots m ! i)" "mapping_of m p = Inr (mn_slots m ! p)"
    by (simp_all add: mapping_of_def)
  note e = click_swap_def [of m c, unfolded h(1,2) Let_def option.case mp(1) sum.case h(3) if_not_P [OF h(4)] mp(2)]
  let ?a = "display_stack m i" and ?b = "display_stack m p"
  show ?thesis
  proof (cases "stack_is_empty (mn_cursor m)")
    case True
    obtain r1 m1 where s1: "set_slot m i ?b = (r1, m1)" by fastforce
    obtain r2 m2 where s2: "set_slot m1 p ?a = (r2, m2)" by fastforce
    have "r1 = Inr ()" "r2 = Inr ()" "balanced P m (mark p (mark i default_outcome)) m2"
      using swap_slots [OF ok lt P s1 s2, of "mark p (mark i default_outcome)"] by simp_all
    then show ?thesis using e True ok s1 s2
      by (auto simp: step_to_def balanced_default)
  next
    case nc: False
    show ?thesis
    proof (cases "stack_is_empty ?b \<and> sm_may_place (mn_slots m ! i)")
      case False
      with e nc ok show ?thesis by auto
    next
      case True
      obtain ov m1 where ins: "menu_insert m p (mn_cursor m) = (ov, m1)" by fastforce
      have cur: "fits (mn_stack_sizes m) (mn_cursor m)" using ok by (simp add: menu_ok_def)
      note i = menu_insert_spec [OF ok cur ins P]
      show ?thesis
      proof (cases "stack_is_empty ov")
        case e0: True
        then have "ov = EMPTY" using i wf_empty fits_wf by blast
        moreover have "menu_ok m1" using i by blast
        note sc = set_cursor_spec [OF this fits_EMPTY]
        moreover have "mn_cursor m1 = mn_cursor m" "frame m m1" using i by blast+
        moreover have "menu_weight P m1 + weight P ov = menu_weight P m + weight P (mn_cursor m)"
          using i by blast
        ultimately show ?thesis using e nc True e0 ins
          by (simp add: step_to_def balanced_def menu_weight_def)
      next
        case False
        then have "m1 = m"
          using ins True menu_insert_whole [OF ok cur, of p] by fastforce
        then show ?thesis using e nc True False ins ok by (simp add: step_to_def balanced_default)
      qed
    qed
  qed
qed

lemma click_throw_step:
  assumes ok: "menu_ok m" and P: "class_pred P"
    and idx: "\<And>i. slot_index c = Some i \<Longrightarrow> i < length (mn_slots m)"
  shows "step_to P m (click_throw m c)"
proof (cases "slot_index c")
  case None
  then show ?thesis
    using ok drop_from_cursor [OF ok]
    by (auto simp: click_throw_def Let_def split: prod.splits)
next
  case (Some i)
  let ?d = "display_stack m i"
  have map: "mapping_of m i = Inr (mn_slots m ! i)" by (simp add: mapping_of_def idx [OF Some])
  note e = click_throw_def [of m c, unfolded Some map Let_def option.case sum.case]
  obtain out m1 where x: "menu_extract m i (if secondary c then stack_count ?d else 1) = (out, m1)"
    by fastforce
  note ex = menu_extract_spec [OF ok x P]
  have "stack_is_empty out \<Longrightarrow> out = EMPTY" using ex wf_empty fits_wf by blast
  then show ?thesis
    using e x ok ex by (auto simp: step_to_def balanced_def)
qed

lemma click_clone_ok:
  assumes ok: "menu_ok m" and idx: "\<And>i. slot_index c = Some i \<Longrightarrow> i < length (mn_slots m)"
    and r: "click_clone m c = (res, m')"
  shows "\<exists>oc. res = Inr oc \<and> menu_ok m' \<and> frame m m' \<and> dropped oc = [] \<and> \<not> full_resync oc
    \<and> mn_containers m' = mn_containers m \<and> (\<not> mn_creative m \<longrightarrow> m' = m)
    \<and> (m' = m \<or> (\<exists>i. st_item (mn_cursor m') = st_item (display_stack m i)
          \<and> st_comps (mn_cursor m') = st_comps (display_stack m i)))"
proof (cases "\<not> mn_creative m \<or> (\<forall>i. slot_index c = Some i \<longrightarrow> stack_is_empty (display_stack m i))")
  case True
  then have "click_clone m c = (Inr default_outcome, m)"
    using idx by (auto simp: click_clone_def Let_def mapping_of_def split: option.split)
  then have "res = Inr default_outcome" "m' = m" using r by simp_all
  with ok show ?thesis by simp
next
  case False
  then obtain i where i: "slot_index c = Some i" "\<not> stack_is_empty (display_stack m i)" by blast
  let ?d = "display_stack m i"
  let ?n = "if button c = 2 then item_limit m ?d else stack_count ?d"
  have map: "mapping_of m i = Inr (mn_slots m ! i)" by (simp add: mapping_of_def idx [OF i(1)])
  note f = display_fits [OF ok, of i]
  have d: "0 < st_item ?d" "1 \<le> st_count ?d" "st_count ?d \<le> 64" "?d \<noteq> EMPTY"
    using i(2) wf_empty [OF fits_wf [OF f]] wf_nonempty [OF fits_wf [OF f]] by auto
  have n: "1 \<le> ?n" "?n \<le> limit_in (mn_stack_sizes m) ?d" "?n \<le> 64"
    using d f limit_in_range [OF _ fits_wf [OF f] d(4)] ok wf_count [OF fits_wf [OF f]]
    by (auto simp: item_limit_in menu_ok_def fits_def)
  let ?cl = "\<lparr>st_item = st_item ?d, st_count = ?n, st_comps = st_comps ?d\<rparr>"
  have w: "with_components (case stack_item_id ?d of Some i \<Rightarrow> i | None \<Rightarrow> 0) ?n (st_comps ?d) = Inr ?cl"
    using d n by (simp add: with_components_def new_stack_def stack_item_id_def stack_is_empty_def stack_consts)
  have "fits (mn_stack_sizes m) ?cl"
    using d n limit_in_item [of ?cl ?d] by (simp add: fits_def wf_stack_def)
  note sc = set_cursor_spec [OF ok this]
  have "click_clone m c = (Inr (default_outcome\<lparr>cursor_changed := True\<rparr>), m\<lparr>mn_cursor := ?cl\<rparr>)"
    using False i w sc map unfolding click_clone_def Let_def by simp
  then have "res = Inr (default_outcome\<lparr>cursor_changed := True\<rparr>)" "m' = m\<lparr>mn_cursor := ?cl\<rparr>"
    using r by simp_all
  with sc False show ?thesis by auto
qed

text \<open>The three loops of a drag.\<close>

lemma drag_update [simp]:
  "menu_ok (m\<lparr>mn_drag_slots := a, mn_drag_type := b\<rparr>) = menu_ok m"
  "menu_ok (m\<lparr>mn_drag_slots := a\<rparr>) = menu_ok m"
  "balanced P m oc (m\<lparr>mn_drag_slots := a, mn_drag_type := b\<rparr>) = balanced P m oc m"
  "balanced P m oc (m\<lparr>mn_drag_slots := a\<rparr>) = balanced P m oc m"
  by (simp_all add: menu_ok_def balanced_def frame_def menu_weight_def containers_weight_def)

definition drag_inv :: "(int \<Rightarrow> item_components \<Rightarrow> bool) \<Rightarrow> menu \<Rightarrow> click_outcome \<times> menu \<Rightarrow> bool" where
  "drag_inv P m st \<longleftrightarrow> balanced P m (fst st) (snd st) \<and> \<not> full_resync (fst st)"

lemma put_share_inv: "class_pred P \<Longrightarrow> drag_inv P m st \<Longrightarrow> drag_inv P m (put_share slot n st)"
  using put_share_balanced [of P m "fst st" "snd st" slot n "fst (put_share slot n st)" "snd (put_share slot n st)"]
  by (simp add: drag_inv_def)

lemma drag_loops:
  assumes P: "class_pred P" and i: "drag_inv P m st"
  shows "drag_inv P m (scan drag_one sl st)" "drag_inv P m (scan drag_full sl st)"
    "drag_inv P m (snd (scan (drag_even per) acc (extra, st)))"
proof -
  have ps: "drag_inv P m st'" if "put_share slot n st = st'" "drag_inv P m st" for slot n st st'
    using put_share_inv [OF P that(2), of slot n] that(1) by simp
  show "drag_inv P m (scan drag_one sl st)"
    by (rule scan_invariant [where I = "drag_inv P m"])
      (use i in \<open>auto simp: drag_one_def dest: ps split: if_splits\<close>)
  show "drag_inv P m (scan drag_full sl st)"
    by (rule scan_invariant [where I = "drag_inv P m"])
      (use i in \<open>auto simp: drag_full_def Let_def dest: ps split: if_splits prod.splits\<close>)
  show "drag_inv P m (snd (scan (drag_even per) acc (extra, st)))"
    by (rule scan_invariant [where I = "\<lambda>s. drag_inv P m (snd s)"])
      (use i in \<open>auto simp: drag_even_def Let_def dest: ps split: if_splits prod.splits\<close>)
qed

lemma click_quick_craft_step:
  assumes ok: "menu_ok m" and P: "class_pred P"
    and idx: "\<And>i. slot_index c = Some i \<Longrightarrow> i < length (mn_slots m)"
  shows "step_to P m (click_quick_craft m c)"
proof (cases "click_drag c")
  case None
  with ok show ?thesis by (simp add: click_quick_craft_def)
next
  case (Some ds)
  obtain dt stage where ds: "ds = (dt, stage)" by (cases ds)
  note e = click_quick_craft_def [of m c, unfolded Some ds Let_def option.case prod.case]
  let ?m = "m\<lparr>mn_drag_slots := [], mn_drag_type := None\<rparr>"
  show ?thesis
  proof (cases stage)
    case Start
    with e ok show ?thesis by (simp add: step_to_def balanced_default)
  next
    case AddSlot
    with e ok idx show ?thesis
      by (auto simp: step_to_def mapping_of_def balanced_default split: option.split)
  next
    case End
    have i: "drag_inv P m (default_outcome, ?m)" using ok by (simp add: drag_inv_def balanced_default)
    have fin: "step_to P m (case st of (oc, m) \<Rightarrow> (Inr (oc\<lparr>cursor_changed := True\<rparr>), m))"
      if "drag_inv P m st" for st
      using that by (cases st) (simp add: drag_inv_def step_to_def)
    note loops = drag_loops [OF P i]
    have even: "step_to P m (case scan (drag_even per) acc (extra, default_outcome, ?m) of
        (extra, oc, m) \<Rightarrow> (Inr (oc\<lparr>cursor_changed := True\<rparr>), m))" for per acc extra
      using fin [OF loops(3) [of per acc extra]] by (simp add: case_prod_beta)
    show ?thesis
    proof (cases "mn_drag_type m \<noteq> Some dt \<or> stack_is_empty (mn_cursor ?m) \<or> mn_drag_slots m = []")
      case True
      with e End ok show ?thesis by (auto simp: step_to_def balanced_default)
    next
      case False
      show ?thesis
      proof (cases dt)
        case One
        with e End False fin [OF loops(1)] show ?thesis by simp
      next
        case Full
        with e End False fin [OF loops(2)] show ?thesis by simp
      next
        case Even
        have n: "step_to P m (Inr default_outcome, ?m)" using ok by (simp add: step_to_def balanced_default)
        show ?thesis using e End False Even even n by simp
      qed
    qed
  qed
qed

text \<open>The gathering loop.\<close>

lemma merge_all:
  assumes "wf_stack a" "wf_stack b" "a \<noteq> EMPTY" "same_item a b" "st_count a + st_count b \<le> limit"
    "limit \<le> 64" "merge_capped a b limit = (l, a', b')" "class_pred P"
  shows "b' = EMPTY"
proof (cases "b = EMPTY")
  case True
  with assms show ?thesis by (simp add: merge_capped_def)
next
  case False
  have ne: "\<not> stack_is_empty a" "\<not> stack_is_empty b" using assms wf_empty False by blast+
  have "1 \<le> st_count a" "1 \<le> st_count b" using assms wf_nonempty False by blast+
  then have "clamp limit 1 64 = limit" using assms by simp
  with assms ne \<open>1 \<le> st_count b\<close> show ?thesis
    by (auto simp: merge_capped_def Let_def stack_consts split_def [of b] split: if_splits)
qed

lemma gather_step:
  assumes P: "class_pred P" and ok: "menu_ok m" "fits (mn_stack_sizes m) g" "g \<noteq> EMPTY"
    and lim: "limit = limit_in (mn_stack_sizes m) g" and slot: "slot < length (mn_slots m)"
    and b: "gather index limit slot (m, g, oc) = Some (m', g', oc')"
  shows "menu_ok m' \<and> frame m m' \<and> fits (mn_stack_sizes m) g' \<and> g' \<noteq> EMPTY
    \<and> st_item g' = st_item g \<and> mn_cursor m' = mn_cursor m
    \<and> menu_weight P m' + weight P g' = menu_weight P m + weight P g
    \<and> dropped oc' = dropped oc \<and> full_resync oc' = full_resync oc"
proof (cases "slot = index \<or> stack_is_empty (display_stack m slot)
    \<or> \<not> same_item (display_stack m slot) g \<or> \<not> sm_may_pickup (mn_slots m ! slot)")
  case True
  then have "m' = m" "g' = g" "oc' = oc" using b by (auto simp: gather_def Let_def split: if_splits)
  with ok show ?thesis by simp
next
  case False
  let ?d = "display_stack m slot"
  have lt: "stack_count g < limit" using b by (auto simp: gather_def split: if_splits)
  obtain moved m1 where x: "menu_extract m slot (limit - stack_count g) = (moved, m1)" by fastforce
  note ex = menu_extract_spec [OF ok(1) x P]
  note wg = fits_wf [OF ok(2)]
  have cg: "stack_count g = st_count g" by (rule wf_count [OF wg])
  have "?d \<noteq> EMPTY" using False by auto
  then have d: "?d \<noteq> EMPTY" "1 \<le> st_count ?d"
    using wf_nonempty [OF display_wf [OF ok(1)], of slot] by blast+
  have "st_count moved = min (limit - st_count g) (st_count ?d)" using ex lt cg d by linarith
  then have mc: "1 \<le> st_count moved" "st_count g + st_count moved \<le> limit"
    using lt cg d by linarith+
  then have mne: "moved \<noteq> EMPTY" by auto
  have wm: "wf_stack moved" using ex fits_wf by blast
  then have ne: "\<not> stack_is_empty moved" using mne wf_empty by blast
  obtain l g1 rest where mg: "merge_capped g moved limit = (l, g1, rest)" by (metis prod_cases3)
  have res: "m' = m1" "g' = g1" "oc' = mark slot oc"
    using b False lt x ne mg by (simp_all add: gather_def Let_def)
  have mi: "st_item moved = st_item ?d" "st_comps moved = st_comps ?d" using ex mne by blast+
  have sd: "st_item ?d = st_item g" "comps_eq (st_comps ?d) (st_comps g)"
    using False by (auto simp: same_item_def)
  have gm: "same_item g moved"
    using mi sd comps.sym wf_empty [OF wg] ok(3) by (auto simp: same_item_def)
  have t: "table_ok (mn_stack_sizes m)" using ok(1) by (simp add: menu_ok_def)
  have "limit \<le> 64" using limit_in_range [OF t wg ok(3)] lim by simp
  then have r: "rest = EMPTY"
    by (intro merge_all [OF wg wm ok(3) gm mc(2) _ mg P])
  have fm: "fits (mn_stack_sizes m) moved" using ex by blast
  have "limit = limit_in (mn_stack_sizes m) moved"
    using lim limit_in_item [of moved g] mi(1) sd(1) by simp
  then have f: "fits (mn_stack_sizes m) g1"
    using fits_merge [OF ok(2) fm _ t] mg by blast
  note mm = merge_spec [OF wg wm mg P] and it = merge_items [OF wg wm mg]
  have w: "weight P g1 = weight P g + weight P moved" using mm r by simp
  have "st_item g1 = st_item g" using it ok(3) by blast
  moreover have "st_count g1 = st_count g + st_count moved" using mm r by simp
  then have "g1 \<noteq> EMPTY" using mc wf_bounds [OF wg] by auto
  ultimately show ?thesis using ex f w by (simp add: res)
qed

lemma gather_loop:
  assumes P: "class_pred P" and ok: "menu_ok m" "fits (mn_stack_sizes m) g" "g \<noteq> EMPTY"
    and sl: "\<forall>s \<in> set sl. s < length (mn_slots m)"
    and r: "scan (gather index (item_limit m g)) sl (m, g, oc) = (m', g', oc')"
  shows "menu_ok m' \<and> frame m m' \<and> fits (mn_stack_sizes m) g' \<and> g' \<noteq> EMPTY \<and> mn_cursor m' = mn_cursor m
    \<and> menu_weight P m' + weight P g' = menu_weight P m + weight P g
    \<and> dropped oc' = dropped oc \<and> full_resync oc' = full_resync oc"
proof -
  define I where "I = (\<lambda>(n, h, q :: click_outcome). menu_ok n \<and> frame m n \<and> fits (mn_stack_sizes m) h \<and> h \<noteq> EMPTY
    \<and> st_item h = st_item g \<and> mn_cursor n = mn_cursor m
    \<and> menu_weight P n + weight P h = menu_weight P m + weight P g
    \<and> dropped q = dropped oc \<and> full_resync q = full_resync oc)"
  have step: "I st'" if s: "s \<in> set sl" and I: "I st" and b: "gather index (item_limit m g) s st = Some st'" for s st st'
  proof -
    obtain n h q where st: "st = (n, h, q)" by (cases st)
    obtain n' h' q' where st': "st' = (n', h', q')" by (cases st')
    have o: "menu_ok n" "fits (mn_stack_sizes n) h" "h \<noteq> EMPTY" and fr: "frame m n"
      using I by (simp_all add: I_def st frame_sizes [of m n])
    have l: "item_limit m g = limit_in (mn_stack_sizes n) h"
      using I limit_in_item [of h g] by (simp add: I_def st item_limit_in frame_sizes [of m n])
    have "s < length (mn_slots n)" using sl s slot_stays [OF fr] by simp
    from gather_step [OF P o l this b [unfolded st st']] I frame_trans [OF fr, of n']
    show ?thesis by (simp add: I_def st st' frame_sizes [OF fr])
  qed
  have "I (scan (gather index (item_limit m g)) sl (m, g, oc))"
    by (rule scan_invariant [where I = I]) (use step ok in \<open>auto simp: I_def\<close>)
  then show ?thesis by (simp add: r I_def)
qed

lemma click_pickup_all_step:
  assumes ok: "menu_ok m" and P: "class_pred P"
    and idx: "\<And>i. slot_index c = Some i \<Longrightarrow> i < length (mn_slots m)"
  shows "step_to P m (click_pickup_all m c)"
proof (cases "slot_index c")
  case None
  with ok show ?thesis by (simp add: click_pickup_all_def)
next
  case (Some i)
  let ?d = "display_stack m i"
  have map: "mapping_of m i = Inr (mn_slots m ! i)" by (simp add: mapping_of_def idx [OF Some])
  note e = click_pickup_all_def [of m c, unfolded Some map Let_def option.case sum.case]
  have cur: "fits (mn_stack_sizes m) (mn_cursor m)" using ok by (simp add: menu_ok_def)
  show ?thesis
  proof (cases "\<not> sm_may_pickup (mn_slots m ! i) \<or> stack_is_empty (mn_cursor m) \<and> stack_is_empty ?d")
    case True
    with e ok show ?thesis by auto
  next
    case False
    obtain g m1 oc1 where start: "(if stack_is_empty (mn_cursor m) then
        (let (g, m') = menu_extract m i (stack_count ?d) in (g, m', mark i default_outcome))
       else (mn_cursor m, m, default_outcome)) = (g, m1, oc1)"
      by (metis prod_cases3)
    have s: "menu_ok m1 \<and> frame m m1 \<and> fits (mn_stack_sizes m) g \<and> mn_cursor m1 = mn_cursor m
        \<and> containers_weight P m1 + weight P g = menu_weight P m
        \<and> dropped oc1 = [] \<and> \<not> full_resync oc1"
    proof (cases "stack_is_empty (mn_cursor m)")
      case True
      then have c0: "mn_cursor m = EMPTY" using cur wf_empty fits_wf by blast
      have x: "menu_extract m i (stack_count ?d) = (g, m1)" and o: "oc1 = mark i default_outcome"
        using start True by (auto simp: Let_def split: prod.splits)
      note ex = menu_extract_spec [OF ok x P]
      then have "mn_cursor m1 = EMPTY" using c0 by simp
      with ex o c0 show ?thesis by (simp add: menu_weight_def)
    next
      case False
      then have "g = mn_cursor m" "m1 = m" "oc1 = default_outcome" using start by auto
      with ok cur show ?thesis by (simp add: menu_weight_def)
    qed
    have ec: "click_pickup_all m c =
      (if stack_is_empty g then (Inr oc1, m1)
       else case scan (gather i (item_limit m1 g)) [0..<length (mn_slots m1)] (m1, g, oc1) of
         (m2, g2, oc2) \<Rightarrow>
           if \<not> stack_eq g2 (mn_cursor m2) then (Inr (oc2\<lparr>cursor_changed := True\<rparr>), set_cursor m2 g2)
           else (Inr oc2, m2))"
      using False unfolding e start [unfolded Let_def] by auto
    show ?thesis
    proof (cases "stack_is_empty g")
      case True
      then have "g = EMPTY" using s wf_empty fits_wf by blast
      have "mn_cursor m = EMPTY \<or> g = mn_cursor m"
        using start cur wf_empty fits_wf by (auto split: if_splits)
      then have "menu_weight P m1 = menu_weight P m"
        using s \<open>g = EMPTY\<close> by (auto simp: menu_weight_def)
      with ec True s show ?thesis by (simp add: step_to_def balanced_def)
    next
      case ne: False
      then have g: "g \<noteq> EMPTY" by auto
      obtain m2 g2 oc2 where l: "scan (gather i (item_limit m1 g)) [0..<length (mn_slots m1)]
          (m1, g, oc1) = (m2, g2, oc2)" by (metis prod_cases3)
      have o1: "menu_ok m1" "fits (mn_stack_sizes m1) g" using s by (simp_all add: frame_sizes [of m m1])
      have lo: "menu_ok m2" "frame m1 m2" "fits (mn_stack_sizes m1) g2" "mn_cursor m2 = mn_cursor m1"
        "menu_weight P m2 + weight P g2 = menu_weight P m1 + weight P g"
        "dropped oc2 = dropped oc1" "full_resync oc2 = full_resync oc1"
        using gather_loop [OF P o1 g _ l] by simp_all
      have fr: "frame m m2" using s lo(2) frame_trans by blast
      have f2: "fits (mn_stack_sizes m2) g2" using lo by (simp add: frame_sizes [of m1 m2])
      have bal: "containers_weight P m2 + weight P g2 = menu_weight P m"
        using lo s by (simp add: menu_weight_def)
      show ?thesis
      proof (cases "stack_eq g2 (mn_cursor m2)")
        case True
        then have "weight P g2 = weight P (mn_cursor m2)" by (rule weight_stack_eq [OF P])
        with ec ne l True lo s fr bal show ?thesis by (simp add: step_to_def balanced_def menu_weight_def)
      next
        case False
        with ec ne l lo s fr bal set_cursor_spec [OF lo(1) f2]
        show ?thesis by (simp add: step_to_def balanced_def menu_weight_def)
      qed
    qed
  qed
qed

section \<open>apply\_click\<close>

lemma bump_simps [simp]:
  "menu_ok (bump_state m) = menu_ok m" "menu_weight P (bump_state m) = menu_weight P m"
  "mn_containers (bump_state m) = mn_containers m" "mn_cursor (bump_state m) = mn_cursor m"
  "mn_slots (bump_state m) = mn_slots m" "mn_creative (bump_state m) = mn_creative m"
  by (simp_all add: bump_state_def menu_ok_def menu_weight_def containers_weight_def)

text \<open>All handlers but the creative clone and the shift click.\<close>

lemma handle_click_step:
  assumes "menu_ok m" "class_pred P" "\<And>i. slot_index c = Some i \<Longrightarrow> i < length (mn_slots m)"
    and "t \<noteq> Clone" "t \<noteq> QuickMove"
  shows "step_to P m (handle_click t m c)"
  using assms click_pickup_step click_swap_step click_throw_step click_quick_craft_step
    click_pickup_all_step
  by (cases t) simp_all

definition addressed :: "menu \<Rightarrow> click \<Rightarrow> bool" where
  "addressed m c \<longleftrightarrow> window_id c = mn_window_id m
     \<and> (case slot_index c of Some i \<Rightarrow> i < length (mn_slots m) | None \<Rightarrow> True)"

lemma apply_click_refused: "\<not> addressed m c \<Longrightarrow> apply_click m c = (Inl InvalidAction, m)"
  by (auto simp: addressed_def apply_click_def mapping_of_def split: option.splits)

lemma apply_click_stale:
  "addressed m c \<Longrightarrow> click_state_id c \<noteq> mn_state_id m \<Longrightarrow>
     apply_click m c = (Inr (default_outcome\<lparr>full_resync := True\<rparr>), m)"
  by (auto simp: addressed_def apply_click_def mapping_of_def split: option.splits)

lemma apply_click_current:
  assumes "addressed m c" "click_state_id c = mn_state_id m"
  shows "apply_click m c =
    (case handle_click (click_type c) m c of
       (Inl e, m) \<Rightarrow> (Inl e, m)
     | (Inr oc, m) \<Rightarrow>
         (Inr (if full_resync oc then oc\<lparr>changed_slots := {}, cursor_changed := False\<rparr> else oc),
          bump_state m))"
  using assms by (auto simp: addressed_def apply_click_def mapping_of_def split: option.splits)

lemma addressed_slot: "addressed m c \<Longrightarrow> slot_index c = Some i \<Longrightarrow> i < length (mn_slots m)"
  by (simp add: addressed_def)

lemma apply_click_ok:
  assumes ok: "menu_ok m" and P: "class_pred P" and r: "apply_click m c = (res, m')"
  shows "menu_ok m' \<and> mn_slots m' = mn_slots m \<and> mn_creative m' = mn_creative m \<and>
    (case res of
       Inr oc \<Rightarrow> click_type c \<noteq> Clone \<longrightarrow>
          menu_weight P m' + slots_weight P (dropped oc) = menu_weight P m
     | Inl e \<Rightarrow> e = InvalidAction \<and> m' = m \<and> \<not> addressed m c
          \<or> e = Invariant \<and> click_type c = QuickMove)"
proof (cases "addressed m c")
  case False
  with apply_click_refused [OF False] r ok show ?thesis by simp
next
  case ad: True
  show ?thesis
  proof (cases "click_state_id c = mn_state_id m")
    case False
    then have "apply_click m c = (Inr (default_outcome\<lparr>full_resync := True\<rparr>), m)"
      using apply_click_stale [OF ad] by simp
    then have "res = Inr (default_outcome\<lparr>full_resync := True\<rparr>)" "m' = m" using r by simp_all
    with ok show ?thesis by (simp add: default_outcome_def)
  next
    case cur: True
    obtain r1 m1 where h: "handle_click (click_type c) m c = (r1, m1)" by fastforce
    note idx = addressed_slot [OF ad]
    have res: "(res, m') = (case r1 of Inl e \<Rightarrow> (Inl e, m1)
      | Inr oc \<Rightarrow> (Inr (if full_resync oc then oc\<lparr>changed_slots := {}, cursor_changed := False\<rparr> else oc),
          bump_state m1))"
      using apply_click_current [OF ad cur] r h by simp
    consider "click_type c = Clone" | "click_type c = QuickMove"
      | "click_type c \<noteq> Clone" "click_type c \<noteq> QuickMove" by blast
    then show ?thesis
    proof cases
      case 1
      with h have "click_clone m c = (r1, m1)" by simp
      then obtain oc where "r1 = Inr oc" "menu_ok m1" "frame m m1"
        using click_clone_ok [OF ok idx] by blast
      with res 1 show ?thesis by (simp add: frame_slots)
    next
      case 2
      with h have "click_quick_move m c = (r1, m1)" by simp
      from click_quick_move_step [OF ok P this idx] res 2 show ?thesis
        by (cases r1) (auto simp: balanced_def frame_slots)
    next
      case 3
      have "step_to P m (handle_click (click_type c) m c)"
        by (rule handle_click_step [OF ok P _ 3]) (rule idx)
      then obtain oc where "r1 = Inr oc" "balanced P m oc m1" "\<not> full_resync oc"
        using h by (auto simp: step_to_def)
      with res show ?thesis by (simp add: balanced_def frame_slots)
    qed
  qed
qed

lemma clone_survival:
  assumes "menu_ok m" "\<not> mn_creative m" "apply_click m c = (Inr oc, m')" "click_type c = Clone"
  shows "mn_containers m' = mn_containers m \<and> mn_cursor m' = mn_cursor m \<and> dropped oc = []"
proof -
  have ad: "addressed m c" using apply_click_refused [of m c] assms(3) by fastforce
  obtain r1 m1 where h: "click_clone m c = (r1, m1)" by fastforce
  then obtain oc1 where "r1 = Inr oc1" "m1 = m" "dropped oc1 = []" "\<not> full_resync oc1"
    using click_clone_ok [OF assms(1) addressed_slot [OF ad]] assms(2) by blast
  then show ?thesis
    using assms(3,4) h apply_click_stale [OF ad] apply_click_current [OF ad]
    by (cases "click_state_id c = mn_state_id m") (auto simp: default_outcome_def)
qed

lemma apply_click_balance:
  assumes "menu_ok m" "class_pred P" "apply_click m c = (Inr oc, m')" "click_type c = Clone \<Longrightarrow> \<not> mn_creative m"
  shows "menu_ok m' \<and> mn_slots m' = mn_slots m \<and> mn_creative m' = mn_creative m
    \<and> menu_weight P m' + slots_weight P (dropped oc) = menu_weight P m"
  using apply_click_ok [OF assms(1-3)] clone_survival [OF assms(1) _ assms(3)] assms(4)
  by (cases "click_type c = Clone") (auto simp: menu_weight_def containers_weight_def)

text \<open>
  C1. A click that is applied neither makes nor destroys items: for every class of stacks
  that merge together, what the containers and the cursor hold afterwards plus what the
  outcome hands back for dropping is what they held before. This covers pickups, shift
  clicks, number-key swaps, throws, drags and double clicks; a clone conserves when the menu
  is not creative. The invariant of the menu is preserved.
\<close>

theorem apply_click_conserves:
  assumes "menu_ok m" "class_pred P" "apply_click m c = (Inr oc, m')"
    and "click_type c = Clone \<Longrightarrow> \<not> mn_creative m"
  shows "menu_ok m' \<and> mn_slots m' = mn_slots m
    \<and> menu_weight P m' + slots_weight P (dropped oc) = menu_weight P m"
  using apply_click_balance [OF assms] by simp

text \<open>Two storage slots, the first with five of item 7, and a click on a slot.\<close>

definition demo_menu :: "menu server_result" where
  "demo_menu = new_menu 0
     [\<lparr>ct_kind = Kind_Generic, ct_slots = [\<lparr>st_item = 7, st_count = 5, st_comps = []\<rparr>, EMPTY],
       ct_changed = {}\<rparr>]
     [storage_slot 0 0, storage_slot 0 1] layout_none empty_table"

definition demo_click :: "click_type \<Rightarrow> int \<Rightarrow> int \<Rightarrow> click" where
  "demo_click t state s = \<lparr>window_id = 0, click_state_id = state, click_slot = s, button = 0, click_type = t,
     secondary = False, swap_target = None, drag_type = None, drag_stage = None\<rparr>"

lemma demo_menu_ok:
  "\<exists>m. demo_menu = Inr m \<and> menu_ok m \<and> menu_weight (\<lambda>i _. i = 7) m = 5 \<and> mn_window_id m = 0
    \<and> mn_state_id m = 0 \<and> length (mn_slots m) = 2"
  by (simp add: demo_menu_def new_menu_def MAX_MENU_SLOTS_def storage_slot_def ct_len_def stack_consts
      menu_ok_def mapping_ok_def containers_ok_def fits_def limit_in_def stack_item_id_def
      wf_stack_def max_stack_size_empty menu_weight_def containers_weight_def ct_weight_def weight_def stack_count_def)

lemma demo_addressed:
  "mn_window_id m = 0 \<Longrightarrow> length (mn_slots m) = 2 \<Longrightarrow> 0 \<le> s \<Longrightarrow> s < 2 \<Longrightarrow> addressed m (demo_click t state s)"
  by (auto simp: addressed_def demo_click_def slot_index_def)

theorem apply_click_conserves_witness:
  "\<exists>m oc m'. demo_menu = Inr m \<and> apply_click m (demo_click Throw 0 0) = (Inr oc, m')
    \<and> menu_weight (\<lambda>i _. i = 7) m' + slots_weight (\<lambda>i _. i = 7) (dropped oc) = 5"
proof -
  obtain m where m: "demo_menu = Inr m" "menu_ok m" "menu_weight (\<lambda>i _. i = 7) m = 5" "mn_window_id m = 0"
      "length (mn_slots m) = 2"
    using demo_menu_ok by blast
  note P = class_pred_item [of "\<lambda>i. i = 7"]
  have ad: "addressed m (demo_click Throw 0 0)" using m demo_addressed by simp
  have t: "click_type (demo_click Throw 0 0) = Throw" by (simp add: demo_click_def)
  obtain r m' where r: "apply_click m (demo_click Throw 0 0) = (r, m')" by fastforce
  obtain oc where "r = Inr oc" using apply_click_ok [OF m(2) P r] ad t by (cases r) auto
  with apply_click_conserves [OF m(2) P, of "demo_click Throw 0 0" oc m'] r t m show ?thesis by auto
qed

text \<open>
  A shift click loses items when its source may not be placed into and the targets
  are full: the refused click has already taken the stack out of the furnace's output.
\<close>

definition full_furnace :: "menu server_result" where
  "full_furnace = new_menu 0
     [\<lparr>ct_kind = Kind_Generic, ct_slots = [\<lparr>st_item = 7, st_count = 5, st_comps = []\<rparr>,
        \<lparr>st_item = 8, st_count = 64, st_comps = []\<rparr>], ct_changed = {}\<rparr>]
     [with_role 0 0 FurnaceOutput, storage_slot 0 1]
     \<lparr>lay_groups = [new_range 0 1, new_range 1 2], lay_player = 0\<rparr> empty_table"

theorem quick_move_loses_items:
  "case full_furnace of
     Inl _ \<Rightarrow> False
   | Inr m \<Rightarrow> menu_total_items m = 69
       \<and> fst (apply_click m (demo_click QuickMove 0 0)) = Inl Invariant
       \<and> menu_total_items (snd (apply_click m (demo_click QuickMove 0 0))) = 64"
  by (simp add: full_furnace_def new_menu_def MAX_MENU_SLOTS_def storage_slot_def with_role_def ct_len_def stack_consts
      new_range_def demo_click_def apply_click_def slot_index_def mapping_of_def click_quick_move_def Let_def
      display_stack_def ct_get_def stack_is_empty_def sm_may_pickup_def may_pickup_def menu_extract_def stack_count_def split_def
      set_slot_def ct_set_def stack_eq_def slot_limit_def item_limit_def stack_item_id_def transfer_order_def group_of_def
      range_contains_def move_group_def move_into_def menu_insert_def sm_may_place_def may_place_def same_item_def
      menu_total_items_def ct_total_items_def EMPTY_def [symmetric] upt_rec)

end
