(* ===== verification/MenuSessions.thy ===== *)
theory MenuSessions
  imports MenuLaws
begin

text \<open>
  The clicks of \<open>menu.rs\<close> that fail, and whole sessions. A shift click fails only when its
  source slot takes nothing and its targets are full; slots that take nothing and are empty stay
  empty, so that in the windows whose other slots all take items no click ever fails but an
  ill-addressed one.
\<close>

section \<open>Slots apart\<close>

text \<open>No two menu slots show one container slot.\<close>

definition slots_apart :: "menu \<Rightarrow> bool" where
  "slots_apart m \<longleftrightarrow> distinct (map (\<lambda>mp. (sm_container mp, sm_slot mp)) (mn_slots m))"

lemma ct_set_other: "k \<noteq> i \<Longrightarrow> ct_get (snd (ct_set c i s)) k = ct_get c k"
  by (simp add: ct_set_def ct_get_def)

lemma apart_slots:
  "slots_apart m \<Longrightarrow> i < length (mn_slots m) \<Longrightarrow> j < length (mn_slots m) \<Longrightarrow> i \<noteq> j \<Longrightarrow>
     sm_container (mn_slots m ! i) \<noteq> sm_container (mn_slots m ! j) \<or> sm_slot (mn_slots m ! i) \<noteq> sm_slot (mn_slots m ! j)"
  by (force simp: slots_apart_def distinct_conv_nth)

lemma display_update:
  assumes "slots_apart m" "i < length (mn_slots m)" "i \<noteq> j"
  defines "mp \<equiv> mn_slots m ! i"
  shows "display_stack (m\<lparr>mn_containers := (mn_containers m)[sm_container mp :=
      snd (ct_set (mn_containers m ! sm_container mp) (sm_slot mp) s)]\<rparr>) j = display_stack m j"
proof (cases "j < length (mn_slots m) \<and> sm_container (mn_slots m ! j) = sm_container mp
    \<and> sm_container mp < length (mn_containers m)")
  case True
  then have "sm_slot (mn_slots m ! j) \<noteq> sm_slot mp" using apart_slots [OF assms(1,2) _ assms(3)] by (auto simp: mp_def)
  then show ?thesis using True by (simp add: display_stack_def ct_set_other)
next
  case False
  then show ?thesis by (auto simp: display_stack_def list_update_beyond not_less)
qed

lemma set_slot_other:
  assumes "slots_apart m" "i \<noteq> j"
  shows "display_stack (snd (set_slot m i s)) j = display_stack m j"
  using display_update [OF assms(1) _ assms(2)]
  by (simp add: set_slot_def Let_def split_beta split: sum.split)

lemma set_slot_slots [simp]: "mn_slots (snd (set_slot m i s)) = mn_slots m"
  by (simp add: set_slot_def Let_def split_beta split: sum.split)


section \<open>A shift click that fails\<close>

text \<open>A slot takes nothing more of a stack: it may not be placed into, or it shows something else, or it is full.\<close>

definition takes_nothing :: "menu \<Rightarrow> nat \<Rightarrow> item_stack \<Rightarrow> bool" where
  "takes_nothing m j s \<longleftrightarrow> \<not> sm_may_place (mn_slots m ! j)
     \<or> \<not> stack_is_empty (display_stack m j)
       \<and> (\<not> same_item (display_stack m j) s \<or> item_limit m s \<le> stack_count (display_stack m j))"

lemma insert_other:
  "slots_apart m \<Longrightarrow> i \<noteq> j \<Longrightarrow> display_stack (snd (menu_insert m i s)) j = display_stack m j"
  by (simp add: menu_insert_def Let_def split_beta set_slot_other)

lemma insert_slots [simp]: "mn_slots (snd (menu_insert m i s)) = mn_slots m"
  by (simp add: menu_insert_def Let_def split_beta)

lemma class_pred_all: "class_pred (\<lambda>_ _. True)"
  by (simp add: class_pred_def)

lemma weight_all: "wf_stack s \<Longrightarrow> weight (\<lambda>_ _. True) s = st_count s"
  by (simp add: weight_def wf_count)

lemma insert_rest:
  assumes ok: "menu_ok m" and s: "fits (mn_stack_sizes m) s" and i: "i < length (mn_slots m)"
    and r: "menu_insert m i s = (left, m')" and ne: "\<not> stack_is_empty left"
  shows "takes_nothing m' i left \<and> st_item left = st_item s \<and> st_comps left = st_comps s"
proof -
  let ?t = "mn_stack_sizes m" and ?e = "display_stack m i"
  have sne: "\<not> stack_is_empty s" using r ne by (auto simp: menu_insert_def)
  have lim: "slot_limit m i s = limit_in ?t s" by (rule slot_limit_ok [OF ok i fits_wf [OF s]])
  note e = display_fits [OF ok, of i]
  show ?thesis
  proof (cases "\<not> sm_may_place (mn_slots m ! i) \<or> \<not> stack_is_empty ?e \<and> \<not> same_item ?e s")
    case True
    then have "m' = m" "left = s" using r i sne by (auto simp: menu_insert_def Let_def split: if_splits)
    with True show ?thesis by (auto simp: takes_nothing_def)
  next
    case False
    have nE: "\<not> stack_is_empty ?e"
    proof
      assume "stack_is_empty ?e"
      from menu_insert_whole [OF ok s this] False i sne r ne show False by auto
    qed
    obtain n g inc where mc: "merge_capped ?e s (limit_in ?t s) = (n, g, inc)" by (metis prod_cases3)
    have t: "table_ok ?t" using ok by (simp add: menu_ok_def)
    note mm = merge_spec [OF fits_wf [OF e] fits_wf [OF s] mc class_pred_all] and f = fits_merge [OF e s mc t]
      and it = merge_items [OF fits_wf [OF e] fits_wf [OF s] mc]
    have l: "left = (if n > 0 then inc else EMPTY)"
      and m': "m' = (if \<not> stack_eq g ?e then snd (set_slot m i g) else m)"
      using r False nE sne i mc by (simp_all add: menu_insert_def Let_def lim)
    have inc: "left = inc" "inc \<noteq> EMPTY" using l ne by (auto split: if_splits)
    have "s \<noteq> EMPTY" using sne by auto
    then have "1 \<le> limit_in ?t s \<and> limit_in ?t s \<le> 64" by (rule limit_in_range [OF t fits_wf [OF s]])
    then have full: "limit_in ?t s \<le> st_count g" "1 \<le> st_count g"
      using it inc(2) False nE by (auto simp: clamp_def)
    have "mn_stack_sizes m' = ?t \<and> menu_ok m' \<and> mn_slots m' = mn_slots m \<and> st_count (display_stack m' i) = st_count g"
    proof (cases "stack_eq g ?e")
      case True
      then show ?thesis using ok by (simp add: m' stack_eq_def)
    next
      case False
      have ss: "set_slot m i g = (fst (set_slot m i g), m')" using False by (simp add: m')
      note sp = set_slot_spec [OF ok i _ ss, of "\<lambda>_ _. True"] and sd = set_slot_display [OF ok i _ ss class_pred_all i]
      have ok': "menu_ok m'" "frame m m'" using sp f by blast+
      have "weight (\<lambda>_ _. True) (display_stack m' i) = weight (\<lambda>_ _. True) g" using sd f by simp
      then show ?thesis
        using ok' weight_all [OF display_wf [OF ok'(1)], of i] weight_all [OF fits_wf [of ?t g]] f
        by (simp add: frame_def)
    qed
    note d = this
    have "st_item inc = st_item s" "st_comps inc = st_comps s" using it inc(2) by blast+
    moreover have "display_stack m' i \<noteq> EMPTY" using d full(2) by auto
    then have "\<not> stack_is_empty (display_stack m' i)" using wf_empty display_wf d by blast
    moreover have "stack_count (display_stack m' i) = st_count g" using d wf_count [OF display_wf] by simp
    moreover have "item_limit m' inc = limit_in ?t s"
      using d limit_in_item [of inc s] \<open>st_item inc = st_item s\<close> by (simp add: item_limit_in)
    ultimately show ?thesis using full(1) by (simp add: takes_nothing_def inc(1))
  qed
qed


text \<open>The groups of a shift click visited one after the other are one loop over their slots.\<close>

definition group_slots :: "slot_range list \<Rightarrow> nat list" where
  "group_slots rs = concat (map (\<lambda>r. [sr_start r..<sr_end r]) rs)"

lemma move_into_stops: "stack_is_empty t \<Longrightarrow> scan (move_into index) xs (m, t, oc) = (m, t, oc)"
  by (cases xs) (simp_all add: move_into_def)

lemma move_into_append:
  "scan (move_into index) (xs @ ys) st = scan (move_into index) ys (scan (move_into index) xs st)"
proof (induction xs arbitrary: st)
  case (Cons x xs)
  obtain m t oc where st: "st = (m, t, oc)" by (cases st)
  show ?case
  proof (cases "stack_is_empty t")
    case True
    then show ?thesis by (simp only: st append_Cons [symmetric] move_into_stops)
  next
    case False
    then obtain st' where "move_into index x st = Some st'"
      by (cases "x = index"; cases "menu_insert m x t") (auto simp: st move_into_def)
    then show ?thesis using Cons.IH by simp
  qed
qed simp

lemma move_groups: "scan (move_group index) rs st = scan (move_into index) (group_slots rs) st"
proof (induction rs arbitrary: st)
  case (Cons r rs)
  obtain m t oc where st: "st = (m, t, oc)" by (cases st)
  show ?case
  proof (cases "stack_is_empty t")
    case True
    then show ?thesis by (simp add: st move_group_def move_into_stops)
  next
    case False
    then show ?thesis using Cons.IH by (simp add: st move_group_def group_slots_def move_into_append)
  qed
qed (simp add: group_slots_def)

lemma takes_nothing_other:
  assumes "takes_nothing m j s" "display_stack m' j = display_stack m j" "frame m m'"
    and "st_item s' = st_item s" "st_comps s' = st_comps s"
  shows "takes_nothing m' j s'"
  using assms limit_in_item [OF assms(4)]
  by (auto simp: takes_nothing_def frame_def item_limit_in same_item_def)

lemma move_loop_rest:
  assumes "scan (move_into index) xs (m, t, oc) = (m', t', oc')"
    and "menu_ok m" "slots_apart m" "fits (mn_stack_sizes m) t" "\<not> stack_is_empty t'"
  shows "frame m m' \<and> display_stack m' index = display_stack m index
    \<and> st_item t' = st_item t \<and> st_comps t' = st_comps t
    \<and> (\<forall>j. j \<noteq> index \<longrightarrow> j < length (mn_slots m) \<longrightarrow> j \<in> set xs \<or> takes_nothing m j t \<longrightarrow> takes_nothing m' j t')"
  using assms
proof (induction xs arbitrary: m t oc)
  case (Cons x xs)
  have ne: "\<not> stack_is_empty t"
    using Cons.prems(1,5) move_into_stops [of t index "x # xs" m oc] by auto
  show ?case
  proof (cases "x = index")
    case True
    then have "move_into index x (m, t, oc) = Some (m, t, oc)" using ne by (simp add: move_into_def)
    then show ?thesis using Cons.IH [of m t oc] Cons.prems True by auto
  next
    case False
    obtain t1 m1 where ins: "menu_insert m x t = (t1, m1)" by fastforce
    obtain oc1 where st: "move_into index x (m, t, oc) = Some (m1, t1, oc1)"
      using ne False ins by (simp add: move_into_def)
    then have r: "scan (move_into index) xs (m1, t1, oc1) = (m', t', oc')" using Cons.prems(1) by simp
    note i = menu_insert_spec [OF Cons.prems(2,4) ins class_pred_all]
    have ne1: "\<not> stack_is_empty t1" using r Cons.prems(5) move_into_stops [of t1 index xs m1 oc1] by auto
    have fr: "frame m m1" "menu_ok m1" "fits (mn_stack_sizes m1) t1"
      using i by (simp_all add: frame_sizes [of m m1])
    have other: "display_stack m1 j = display_stack m j" if "j \<noteq> x" for j
      using insert_other [OF Cons.prems(3), of x j t] that by (simp add: ins)
    have ap: "slots_apart m1" using Cons.prems(3) fr(1) by (simp add: slots_apart_def frame_def)
    have same: "st_item t1 = st_item t \<and> st_comps t1 = st_comps t \<and> (x < length (mn_slots m) \<longrightarrow> takes_nothing m1 x t1)"
    proof (cases "x < length (mn_slots m)")
      case True
      from insert_rest [OF Cons.prems(2,4) True ins ne1] show ?thesis by simp
    next
      case False
      then have "t1 = t" using ins ne by (auto simp: menu_insert_def)
      with False show ?thesis by simp
    qed
    note ih = Cons.IH [OF r fr(2) ap fr(3) Cons.prems(5)]
    have "takes_nothing m1 j t1" if "j < length (mn_slots m)" "j = x \<or> takes_nothing m j t" for j
      using same that takes_nothing_other [OF _ other fr(1), of j t t1] by (cases "j = x") auto
    with ih same other [of index] False frame_trans [OF fr(1)] slot_stays [OF fr(1)] show ?thesis by auto
  qed
qed simp

definition shift_targets :: "menu \<Rightarrow> nat \<Rightarrow> nat set" where
  "shift_targets m i = {j \<in> set (group_slots (transfer_order (mn_layout m) (as_u16 i))). j < length (mn_slots m) \<and> j \<noteq> i}"

lemma quick_move_fails:
  assumes ok: "menu_ok m" "slots_apart m" and r: "click_quick_move m c = (Inl e, m')"
    and idx: "\<And>i. slot_index c = Some i \<Longrightarrow> i < length (mn_slots m)"
  shows "\<exists>i left. slot_index c = Some i \<and> \<not> sm_may_place (mn_slots m ! i) \<and> left \<noteq> EMPTY
    \<and> \<not> stack_is_empty (display_stack m i)
    \<and> st_item left = st_item (display_stack m i) \<and> st_comps left = st_comps (display_stack m i)
    \<and> (\<forall>P. class_pred P \<longrightarrow> menu_weight P m' + weight P left = menu_weight P m)
    \<and> (\<forall>j \<in> shift_targets m i. takes_nothing m' j left)"
proof (cases "slot_index c")
  case None
  with r show ?thesis by (auto simp: click_quick_move_def Let_def)
next
  case (Some i)
  let ?d = "display_stack m i"
  have lt: "i < length (mn_slots m)" by (rule idx [OF Some])
  have map: "mapping_of m i = Inr (mn_slots m ! i)" by (simp add: mapping_of_def lt)
  note e = r [unfolded click_quick_move_def Some map Let_def option.case sum.case]
  have go: "\<not> (stack_is_empty ?d \<or> \<not> sm_may_pickup (mn_slots m ! i))"
  proof
    assume "stack_is_empty ?d \<or> \<not> sm_may_pickup (mn_slots m ! i)"
    from e [unfolded if_P [OF this]] show False by simp
  qed
  obtain s1 m1 where x: "menu_extract m i (stack_count ?d) = (s1, m1)" by fastforce
  obtain m2 s2 oc2 where l: "scan (move_group i) (transfer_order (mn_layout m1) (as_u16 i))
      (m1, s1, default_outcome) = (m2, s2, oc2)" by (metis prod_cases3)
  obtain left m3 where ins: "menu_insert m2 i s2 = (left, m3)" by fastforce
  have left: "\<not> stack_is_empty left" "m' = m3"
    using e go x l ins by (auto split: if_splits)
  have wd: "wf_stack ?d" by (rule display_wf [OF ok(1)])
  have ex: "menu_ok m1" "frame m m1" "fits (mn_stack_sizes m1) s1"
    "s1 \<noteq> EMPTY \<longrightarrow> st_item s1 = st_item ?d \<and> st_comps s1 = st_comps ?d"
    "\<And>P. class_pred P \<Longrightarrow> menu_weight P m1 + weight P s1 = menu_weight P m"
    using menu_extract_spec [OF ok(1) x] class_pred_all frame_sizes [of m m1] by auto
  have lo: "menu_ok m2" "frame m1 m2" "fits (mn_stack_sizes m2) s2"
    "\<And>P. class_pred P \<Longrightarrow> menu_weight P m2 + weight P s2 = menu_weight P m1 + weight P s1"
    using quick_move_loop [OF _ ex(1,3) l] class_pred_all frame_sizes [of m1 m2] by auto
  have ap: "slots_apart m1" using ok(2) ex(2) by (simp add: slots_apart_def frame_def)
  have ne2: "\<not> stack_is_empty s2" using ins left(1) by (auto simp: menu_insert_def)
  note rest = move_loop_rest [OF l [unfolded move_groups] ex(1) ap ex(3) ne2]
  have s1: "s1 \<noteq> EMPTY" using rest ne2 l move_into_stops [of s1] by (auto simp: move_groups)
  have gone: "stack_is_empty (display_stack m1 i)"
  proof -
    obtain q where sp: "split ?d (stack_count ?d) = (s1, q)" and m1: "m1 = snd (set_slot m i q)"
      using x s1 wf_empty [OF fits_wf [OF ex(3)]] by (auto simp: menu_extract_def split: prod.splits)
    note ss = split_spec [OF wd sp, of "\<lambda>_ _. True"]
    have "st_count q = 0" using ss wf_count [OF wd] wf_bounds [OF wd] by simp
    then have q: "q = EMPTY" using ss wf_nonempty [of q] by fastforce
    have "set_slot m i EMPTY = (fst (set_slot m i EMPTY), m1)" by (simp add: m1 q)
    from set_slot_display [OF ok(1) lt fits_EMPTY this class_pred_all lt]
    have "st_count (display_stack m1 i) = 0" using weight_all [OF display_wf [OF ex(1)], of i] by simp
    then show ?thesis by (simp add: stack_is_empty_def)
  qed
  have sl: "mn_slots m2 = mn_slots m" "mn_layout m1 = mn_layout m" "mn_slots m1 = mn_slots m"
    using ex(2) lo(2) by (simp_all add: frame_def)
  have e2: "stack_is_empty (display_stack m2 i)" using gone rest by simp
  have np: "\<not> sm_may_place (mn_slots m ! i)"
  proof
    assume "sm_may_place (mn_slots m ! i)"
    then have "menu_insert m2 i s2 = (EMPTY, snd (set_slot m2 i s2))"
      using menu_insert_whole [OF lo(1,3) e2] ne2 lt sl by auto
    then show False using ins left(1) by simp
  qed
  then have "left = s2" "m3 = m2" using ins ne2 lt sl by (auto simp: menu_insert_def)
  moreover have "takes_nothing m2 j s2" if "j \<in> shift_targets m i" for j
    using rest that by (auto simp: shift_targets_def sl)
  ultimately show ?thesis
    using Some np left ex(4,5) lo(4) rest s1 go by (intro exI [of _ i] exI [of _ s2]) auto
qed


section \<open>Sealed slots\<close>

text \<open>
  Slots that may not be placed into and show nothing stay so: no handler writes into them. In
  such a menu no shift click fails.
\<close>

definition seal :: "menu \<Rightarrow> bool" where
  "seal m \<longleftrightarrow> slots_apart m
     \<and> (\<forall>i < length (mn_slots m). \<not> sm_may_place (mn_slots m ! i) \<longrightarrow> stack_is_empty (display_stack m i))"

lemma seal_cong: "mn_slots m' = mn_slots m \<Longrightarrow> mn_containers m' = mn_containers m \<Longrightarrow> seal m' = seal m"
  by (simp add: seal_def slots_apart_def display_stack_def)

lemma seal_frames [simp]:
  "seal (m\<lparr>mn_cursor := s\<rparr>) = seal m" "seal (m\<lparr>mn_drag_slots := d, mn_drag_type := t\<rparr>) = seal m"
  "seal (m\<lparr>mn_drag_slots := d\<rparr>) = seal m" "seal (set_cursor m s) = seal m" "seal (bump_state m) = seal m"
  by (rule seal_cong; simp add: set_cursor_def Let_def bump_state_def)+

lemma seal_cursor [simp]: "seal (snd (return_to_cursor m s)) = seal m" "seal (snd (split_cursor m n)) = seal m"
  by (rule seal_cong; simp add: return_to_cursor_def split_cursor_def Let_def split_beta)+

lemma set_empty:
  assumes "stack_is_empty (display_stack m i)" "stack_is_empty s"
  shows "stack_is_empty (display_stack (snd (set_slot m i s)) i)"
  using assms
  by (cases "sm_container (mn_slots m ! i) < length (mn_containers m)")
    (auto simp: set_slot_def Let_def split_beta display_stack_def ct_set_def ct_get_def list_update_beyond)

lemma seal_set_slot [intro]:
  assumes "seal m" "sm_may_place (mn_slots m ! i) \<or> stack_is_empty s"
  shows "seal (snd (set_slot m i s))"
proof -
  have "stack_is_empty (display_stack (snd (set_slot m i s)) j)"
    if "j < length (mn_slots m)" "\<not> sm_may_place (mn_slots m ! j)" for j
    using assms that set_empty [of m i s] set_slot_other [of m i j s] by (cases "i = j") (auto simp: seal_def)
  then show ?thesis using assms(1) by (simp add: seal_def slots_apart_def)
qed

lemma seal_extract [intro]:
  assumes "seal m" shows "seal (snd (menu_extract m i n))"
proof (cases "i < length (mn_slots m) \<and> sm_may_place (mn_slots m ! i)")
  case True
  then show ?thesis using assms by (auto simp: menu_extract_def split_beta)
next
  case False
  then have "stack_is_empty (display_stack m i)" using assms by (auto simp: seal_def display_stack_def stack_consts stack_is_empty_def)
  then show ?thesis using assms by (simp add: menu_extract_def split_beta split_def)
qed

lemma seal_insert [intro]: "seal m \<Longrightarrow> seal (snd (menu_insert m i s))"
  by (auto simp: menu_insert_def Let_def split_beta)

lemma seal_give_back [simp]: "seal (snd (give_back oc s m)) = seal m"
  by (simp add: give_back_def split_beta)

lemma seal_put_share [intro]: "seal (snd st) \<Longrightarrow> seal (snd (put_share slot n st))"
  by (auto simp: put_share_def split_beta)


lemma seal_snd_if: "(b \<Longrightarrow> seal (snd x)) \<Longrightarrow> (\<not> b \<Longrightarrow> seal (snd y)) \<Longrightarrow> seal (snd (if b then x else y))"
  by simp

lemma seal_case_prod: "(\<And>a b. p = (a, b) \<Longrightarrow> seal (snd (f a b))) \<Longrightarrow> seal (snd (case p of (a, b) \<Rightarrow> f a b))"
  by (cases p) simp

lemma seal_case_option:
  "(x = None \<Longrightarrow> seal (snd y)) \<Longrightarrow> (\<And>a. x = Some a \<Longrightarrow> seal (snd (f a))) \<Longrightarrow> seal (snd (case x of None \<Rightarrow> y | Some a \<Rightarrow> f a))"
  by (cases x) simp_all

lemma seal_case_sum:
  "(\<And>a. x = Inl a \<Longrightarrow> seal (snd (g a))) \<Longrightarrow> (\<And>a. x = Inr a \<Longrightarrow> seal (snd (f a))) \<Longrightarrow> seal (snd (case x of Inl a \<Rightarrow> g a | Inr a \<Rightarrow> f a))"
  by (cases x) simp_all

lemmas seal_branches = seal_snd_if seal_case_prod seal_case_option seal_case_sum

lemma seal_steps:
  "menu_extract m i n = (x, m') \<Longrightarrow> seal m \<Longrightarrow> seal m'"
  "menu_insert m i s = (x, m') \<Longrightarrow> seal m \<Longrightarrow> seal m'"
  "split_cursor m n = (x, m') \<Longrightarrow> seal m \<Longrightarrow> seal m'"
  "give_back oc s m = (oc', m') \<Longrightarrow> seal m \<Longrightarrow> seal m'"
  using seal_extract [of m i n] seal_insert [of m i s] seal_cursor(2) [of m n] seal_give_back [of oc s m] by auto

lemma seal_set:
  "set_slot m i s = (x, m') \<Longrightarrow> seal m \<Longrightarrow> sm_may_place (mn_slots m ! i) \<or> stack_is_empty s \<Longrightarrow>
     seal m' \<and> mn_slots m' = mn_slots m"
  using seal_set_slot [of m i s] set_slot_slots [of m i s] by auto


lemma seal_set_both:
  "set_slot m1 j a = (y, m2) \<Longrightarrow> set_slot m i b = (x, m1) \<Longrightarrow> seal m \<Longrightarrow>
     sm_may_place (mn_slots m ! i) \<or> stack_is_empty b \<Longrightarrow> sm_may_place (mn_slots m ! j) \<or> stack_is_empty a \<Longrightarrow> seal m2"
  using seal_set [of m i b x m1] seal_set [of m1 j a y m2] by auto

lemma seal_share: "put_share slot n (oc, m) = (oc', m') \<Longrightarrow> seal m \<Longrightarrow> seal m'"
  using seal_put_share [of "(oc, m)" slot n] by simp

lemma seal_loops:
  "scan (move_group index) rs (m, t, oc) = (m', t', oc') \<Longrightarrow> seal m \<Longrightarrow> seal m'"
  "scan (gather index limit) sl (m, t, oc) = (m', t', oc') \<Longrightarrow> seal m \<Longrightarrow> seal m'"
  "scan drag_one sl (oc, m) = (oc', m') \<Longrightarrow> seal m \<Longrightarrow> seal m'"
  "scan drag_full sl (oc, m) = (oc', m') \<Longrightarrow> seal m \<Longrightarrow> seal m'"
  "scan (drag_even per) slr (n, oc, m) = (n', oc', m') \<Longrightarrow> seal m \<Longrightarrow> seal m'"
proof -
  have "seal m \<Longrightarrow> seal (fst (scan (move_into index) (group_slots rs) (m, t, oc)))"
    by (rule scan_invariant [where I = "\<lambda>st. seal (fst st)"])
      (auto simp: move_into_def split: if_splits prod.splits dest: seal_steps)
  then show "scan (move_group index) rs (m, t, oc) = (m', t', oc') \<Longrightarrow> seal m \<Longrightarrow> seal m'"
    by (simp add: move_groups)
  have "seal m \<Longrightarrow> seal (fst (scan (gather index limit) sl (m, t, oc)))"
    by (rule scan_invariant [where I = "\<lambda>st. seal (fst st)"])
      (auto simp: gather_def Let_def split: if_splits prod.splits dest: seal_steps)
  then show "scan (gather index limit) sl (m, t, oc) = (m', t', oc') \<Longrightarrow> seal m \<Longrightarrow> seal m'" by simp
  have "seal m \<Longrightarrow> seal (snd (scan drag_one sl (oc, m)))"
    by (rule scan_invariant [where I = "\<lambda>st. seal (snd st)"]) (auto simp: drag_one_def split: if_splits dest: seal_share)
  then show "scan drag_one sl (oc, m) = (oc', m') \<Longrightarrow> seal m \<Longrightarrow> seal m'" by simp
  have "seal m \<Longrightarrow> seal (snd (scan drag_full sl (oc, m)))"
    by (rule scan_invariant [where I = "\<lambda>st. seal (snd st)"])
      (auto simp: drag_full_def Let_def split: if_splits prod.splits dest: seal_share)
  then show "scan drag_full sl (oc, m) = (oc', m') \<Longrightarrow> seal m \<Longrightarrow> seal m'" by simp
  have "seal m \<Longrightarrow> seal (snd (snd (scan (drag_even per) slr (n, oc, m))))"
    by (rule scan_invariant [where I = "\<lambda>st. seal (snd (snd st))"])
      (auto simp: drag_even_def Let_def split: if_splits prod.splits dest: seal_share)
  then show "scan (drag_even per) slr (n, oc, m) = (n', oc', m') \<Longrightarrow> seal m \<Longrightarrow> seal m'" by simp
qed

lemma seal_pickup: "seal m \<Longrightarrow> seal (snd (click_pickup m c))"
  unfolding click_pickup_def Let_def
  by (intro seal_branches; (auto dest: seal_steps seal_set simp: mapping_of_def split: if_splits; fail)?)

lemma seal_quick_move: "seal m \<Longrightarrow> seal (snd (click_quick_move m c))"
  unfolding click_quick_move_def Let_def
  by (intro seal_branches; (auto dest: seal_steps seal_loops; fail)?)

lemma seal_swap: "seal m \<Longrightarrow> seal (snd (click_swap m c))"
  unfolding click_swap_def Let_def
  by (intro seal_branches; (auto dest: seal_steps seal_set_both seal_set simp: mapping_of_def split: if_splits; fail)?)

lemma seal_clone: "seal m \<Longrightarrow> seal (snd (click_clone m c))"
  unfolding click_clone_def Let_def by (intro seal_branches; (auto; fail)?)

lemma seal_throw: "seal m \<Longrightarrow> seal (snd (click_throw m c))"
  unfolding click_throw_def Let_def by (intro seal_branches; (auto dest: seal_steps; fail)?)

lemma seal_quick_craft: "seal m \<Longrightarrow> seal (snd (click_quick_craft m c))"
  unfolding click_quick_craft_def Let_def
  by (auto split: option.split sum.split drag_stage.split drag_type.split prod.split dest: seal_loops)

lemma seal_pickup_all: "seal m \<Longrightarrow> seal (snd (click_pickup_all m c))"
  unfolding click_pickup_all_def Let_def
  by (intro seal_branches; (auto split: if_splits prod.splits dest: seal_steps seal_loops; fail)?)

lemma seal_handler: "seal m \<Longrightarrow> seal (snd (handle_click t m c))"
  by (cases t) (simp_all add: seal_pickup seal_quick_move seal_swap seal_clone seal_throw seal_quick_craft seal_pickup_all)

lemma seal_apply_click: "seal m \<Longrightarrow> seal (snd (apply_click m c))"
  using seal_handler [of m "click_type c" c]
  by (auto simp: apply_click_def split: option.split sum.split prod.split)

lemma seal_click_refused:
  assumes "menu_ok m" "seal m" "apply_click m c = (Inl e, m')"
  shows "e = InvalidAction \<and> m' = m"
proof (rule ccontr)
  assume no: "\<not> ?thesis"
  have e: "e = Invariant \<and> click_type c = QuickMove" and ad: "addressed m c"
    using apply_click_ok [OF assms(1) class_pred_all assms(3)] no apply_click_refused [of m c] assms(3) by auto
  then have "click_quick_move m c = (Inl e, m')"
    using assms(3) apply_click_stale [OF ad] apply_click_current [OF ad]
    by (cases "click_state_id c = mn_state_id m") (auto split: sum.splits prod.splits)
  from quick_move_fails [OF assms(1) _ this addressed_slot [OF ad]] assms(2) addressed_slot [OF ad]
  show False by (auto simp: seal_def)
qed

section \<open>Failures\<close>

text \<open>
  C3. A click fails in one of two ways. It names another window or a slot the menu lacks, and
  then nothing has changed. Or it is a shift click on a source that may not be placed into (a
  crafting result, a furnace's output) holding items whose targets cannot take them all: a part
  of the source's stack is left that no target slot takes any of, and exactly that part is gone
  from the menu. So a shift click never fails on a source that may be placed into, nor when the
  targets take everything. A stale click on a slot of the menu changes nothing and asks for a
  full resync.
\<close>

theorem apply_click_failures:
  assumes "menu_ok m" "slots_apart m" "apply_click m c = (res, m')"
  shows "case res of
      Inr oc \<Rightarrow> addressed m c \<and>
        (click_state_id c \<noteq> mn_state_id m \<longrightarrow> oc = default_outcome\<lparr>full_resync := True\<rparr> \<and> m' = m)
    | Inl e \<Rightarrow> e = InvalidAction \<and> m' = m \<and> \<not> addressed m c
      \<or> e = Invariant \<and> click_type c = QuickMove \<and> click_state_id c = mn_state_id m \<and> addressed m c
        \<and> (\<exists>i left. slot_index c = Some i \<and> \<not> sm_may_place (mn_slots m ! i)
            \<and> left \<noteq> EMPTY \<and> \<not> stack_is_empty (display_stack m i)
            \<and> st_item left = st_item (display_stack m i) \<and> st_comps left = st_comps (display_stack m i)
            \<and> (\<forall>P. class_pred P \<longrightarrow> menu_weight P m' + weight P left = menu_weight P m)
            \<and> (\<forall>j \<in> shift_targets m i. takes_nothing m' j left))"
proof (cases "addressed m c")
  case False
  then show ?thesis using apply_click_refused [OF False] assms(3) by simp
next
  case ad: True
  show ?thesis
  proof (cases res)
    case (Inr oc)
    then show ?thesis using ad apply_click_stale [OF ad] assms(3) by auto
  next
    case (Inl e)
    then have cur: "click_state_id c = mn_state_id m" using apply_click_stale [OF ad] assms(3) by auto
    have e: "e = Invariant \<and> click_type c = QuickMove"
      using apply_click_ok [OF assms(1) class_pred_all assms(3)] ad by (simp add: Inl)
    then have "click_quick_move m c = (Inl e, m')"
      using assms(3) apply_click_current [OF ad cur] by (auto simp: Inl split: sum.splits prod.splits)
    from quick_move_fails [OF assms(1,2) this addressed_slot [OF ad]] show ?thesis
      using Inl e cur ad by simp
  qed
qed

lemma full_furnace_ok:
  "\<exists>m. full_furnace = Inr m \<and> menu_ok m \<and> slots_apart m \<and> menu_weight (\<lambda>_ _. True) m = 69
    \<and> st_item (display_stack m 0) = 7 \<and> addressed m (demo_click QuickMove 0 0)"
  by (simp add: full_furnace_def new_menu_def MAX_MENU_SLOTS_def storage_slot_def with_role_def ct_len_def stack_consts
      menu_ok_def mapping_ok_def containers_ok_def fits_def limit_in_def stack_item_id_def slots_apart_def
      wf_stack_def max_stack_size_empty menu_weight_def containers_weight_def ct_weight_def weight_def stack_count_def
      display_stack_def ct_get_def addressed_def demo_click_def slot_index_def)

theorem apply_click_failures_witness:
  "\<exists>m m' left. full_furnace = Inr m \<and> apply_click m (demo_click QuickMove 0 0) = (Inl Invariant, m')
    \<and> left \<noteq> EMPTY \<and> st_item left = 7 \<and> menu_weight (\<lambda>_ _. True) m' + weight (\<lambda>_ _. True) left = 69"
proof -
  obtain m where m: "full_furnace = Inr m" "menu_ok m" "slots_apart m" "menu_weight (\<lambda>_ _. True) m = 69"
      "st_item (display_stack m 0) = 7" "addressed m (demo_click QuickMove 0 0)"
    using full_furnace_ok by blast
  have "fst (apply_click m (demo_click QuickMove 0 0)) = Inl Invariant"
    using quick_move_loses_items unfolding m(1) by (simp only: sum.case)
  then obtain m' where r: "apply_click m (demo_click QuickMove 0 0) = (Inl Invariant, m')"
    by (metis prod.collapse)
  have s: "slot_index (demo_click QuickMove 0 0) = Some 0" by (simp add: demo_click_def slot_index_def)
  obtain left where "left \<noteq> EMPTY" "st_item left = 7"
      "\<forall>P. class_pred P \<longrightarrow> menu_weight P m' + weight P left = menu_weight P m"
    using apply_click_failures [OF m(2,3) r] s m(5) by auto
  with r m(1,4) class_pred_all show ?thesis by metis
qed

section \<open>Sessions\<close>

text \<open>All the clicks of a session with their answers, and what these hand back for dropping.\<close>

fun run_clicks :: "menu \<Rightarrow> click list \<Rightarrow> click_outcome server_result list \<times> menu" where
  "run_clicks m [] = ([], m)"
| "run_clicks m (c # cs) =
     (let (r, m) = apply_click m c; (rs, m) = run_clicks m cs in (r # rs, m))"

definition all_dropped :: "click_outcome server_result list \<Rightarrow> item_stack list" where
  "all_dropped rs = concat (map (\<lambda>r. case r of Inl _ \<Rightarrow> [] | Inr oc \<Rightarrow> dropped oc) rs)"

lemma run_clicks_conserves:
  assumes "menu_ok m" "seal m" "\<not> mn_creative m" "class_pred P" "run_clicks m cs = (rs, m')"
  shows "menu_ok m' \<and> menu_weight P m' + slots_weight P (all_dropped rs) = menu_weight P m
    \<and> (\<forall>e. Inl e \<in> set rs \<longrightarrow> e = InvalidAction)"
  using assms
proof (induction cs arbitrary: m rs)
  case Nil
  then show ?case by (simp add: all_dropped_def)
next
  case (Cons c cs)
  obtain r m1 where a: "apply_click m c = (r, m1)" by fastforce
  obtain qs where q: "run_clicks m1 cs = (qs, m')" and rs: "rs = r # qs"
    using Cons.prems(5) a by (auto split: prod.splits)
  have seal: "seal m1" using seal_apply_click [OF Cons.prems(2), of c] by (simp add: a)
  show ?case
  proof (cases r)
    case (Inl e)
    have "e = InvalidAction \<and> m1 = m"
      by (rule seal_click_refused [OF Cons.prems(1,2), of c]) (simp add: a Inl)
    then show ?thesis using Cons.IH [OF Cons.prems(1-4)] q by (simp add: rs Inl all_dropped_def)
  next
    case (Inr oc)
    have b: "menu_ok m1" "mn_creative m1 = mn_creative m"
      "menu_weight P m1 + slots_weight P (dropped oc) = menu_weight P m"
      using apply_click_balance [OF Cons.prems(1,4), of c oc m1] Cons.prems(3) a by (simp_all add: Inr)
    then show ?thesis
      using Cons.IH [OF b(1) seal _ Cons.prems(4) q] Cons.prems(3) by (simp add: rs Inr all_dropped_def)
  qed
qed

text \<open>The windows a session starts from.\<close>

lemma seal_places: "slots_apart m \<Longrightarrow> \<forall>mp \<in> set (mn_slots m). sm_may_place mp \<Longrightarrow> seal m"
  by (simp add: seal_def)

lemma block_menu_seal:
  assumes "chest_menu w b p t = Inr m \<or> hopper_menu w b p t = Inr m \<or> dispenser_menu w b p t = Inr m"
    and "containers_ok t [b, p]" "table_ok t"
  shows "menu_ok m \<and> seal m \<and> \<not> mn_creative m \<and> menu_weight P m = ct_weight P b + ct_weight P p"
proof -
  obtain n l where m: "new_menu w [b, p] (map (storage_slot 0) [0..<n] @ map (storage_slot 1) [9..<36]
      @ map (storage_slot 1) [0..<9]) l t = Inr m"
    using assms(1) unfolding chest_menu_def hopper_menu_def dispenser_menu_def Let_def
    by (elim disjE) (auto split: if_splits)
  have "\<forall>mp \<in> set (map (storage_slot 0) [0..<n] @ map (storage_slot 1) [9..<36] @ map (storage_slot 1) [0..<9]).
      sm_max mp = 64" by auto
  note ok = new_menu_ok [OF m assms(2,3) this, of P]
  have s: "mn_slots m = map (storage_slot 0) [0..<n] @ map (storage_slot 1) [9..<36] @ map (storage_slot 1) [0..<9]"
    using ok by blast
  have "slots_apart m"
    by (auto simp: slots_apart_def s distinct_map inj_on_def storage_slot_def simp del: upt_rec_numeral)
  moreover have "\<forall>mp \<in> set (mn_slots m). sm_may_place mp"
    by (auto simp: s storage_slot_def sm_may_place_def may_place_def simp del: upt_rec_numeral)
  ultimately show ?thesis using ok seal_places by auto
qed

lemma player_menu_seal:
  assumes "player_menu w p t = Inr m" "containers_ok t [p]" "table_ok t"
  shows "menu_ok m \<and> seal m \<and> \<not> mn_creative m \<and> menu_weight P m = ct_weight P p"
proof -
  obtain result grid where c: "new_container Kind_Crafting 1 = Inr result"
      and n: "mn_containers m = [p, result, grid]"
      and l: "mn_slots m = [with_role 1 0 CraftingResult]
               @ map (\<lambda>s. with_role 2 s CraftingInput) [0..<4]
               @ map (\<lambda>s. with_role 0 (36 + s) Armor) [0..<4]
               @ map (storage_slot 0) [9..<36] @ map (storage_slot 0) [0..<9] @ [with_role 0 40 Offhand]"
    using assms(1) by (fastforce simp: player_menu_def new_menu_def and_then_Inr Let_def split: if_splits)
  have "slots_apart m"
    by (auto simp: slots_apart_def l distinct_map inj_on_def storage_slot_def with_role_def simp del: upt_rec_numeral)
  moreover have "ct_slots result = [EMPTY]" using new_container_spec [OF c] by simp
  then have "stack_is_empty (display_stack m 0)"
    by (simp add: display_stack_def l n with_role_def ct_get_def)
  moreover have "sm_may_place (mn_slots m ! i)" if "0 < i" "i < length (mn_slots m)" for i
  proof -
    have "mn_slots m ! i \<in> set (tl (mn_slots m))"
      using that by (metis Suc_pred length_tl nth_mem nth_tl Suc_less_eq diff_Suc_1 less_diff_conv2 Suc_leI One_nat_def less_diff_conv add.commute plus_1_eq_Suc)
    then show ?thesis
      by (auto simp: l with_role_def storage_slot_def sm_may_place_def may_place_def simp del: upt_rec_numeral)
  qed
  then have "\<not> sm_may_place (mn_slots m ! i) \<Longrightarrow> i < length (mn_slots m) \<Longrightarrow> i = 0" for i by blast
  ultimately have "seal m" by (auto simp: seal_def)
  with player_menu_ok [OF assms, of P] show ?thesis by simp
qed

text \<open>
  C2. A whole session conserves. From a survival player's freshly opened inventory, or a chest,
  hopper or dispenser opened beside it, after any sequence of clicks, whatever each of them
  answers: the only failures are refusals of ill-addressed clicks, the menu's invariant holds,
  and for every class of items what the containers and the cursor hold plus what all the clicks
  together dropped is what the containers held at the start.
\<close>

theorem session_conserves:
  assumes "player_menu w p t = Inr m \<and> cs = [p]
      \<or> (chest_menu w b p t = Inr m \<or> hopper_menu w b p t = Inr m \<or> dispenser_menu w b p t = Inr m) \<and> cs = [b, p]"
    and "containers_ok t cs" "table_ok t" "class_pred P" "run_clicks m clicks = (rs, m')"
  shows "menu_ok m' \<and> menu_weight P m' + slots_weight P (all_dropped rs) = sum_list (map (ct_weight P) cs)
    \<and> (\<forall>e. Inl e \<in> set rs \<longrightarrow> e = InvalidAction)"
proof -
  have "menu_ok m \<and> seal m \<and> \<not> mn_creative m \<and> menu_weight P m = sum_list (map (ct_weight P) cs)"
    using assms(1-3) player_menu_seal [of w p t m P] block_menu_seal [of w b p t m P] by auto
  with run_clicks_conserves [OF _ _ _ assms(4,5)] show ?thesis by simp
qed

text \<open>Five of item 7 in the player's storage; one is thrown, and another click names a slot the menu lacks.\<close>

definition demo_player :: container where
  "demo_player = \<lparr>ct_kind = Kind_Player,
     ct_slots = \<lparr>st_item = 7, st_count = 5, st_comps = []\<rparr> # replicate 40 EMPTY, ct_changed = {}\<rparr>"

theorem session_conserves_witness:
  "\<exists>m rs m'. player_menu 0 demo_player empty_table = Inr m
    \<and> run_clicks m [demo_click Throw 0 36, demo_click Pickup 0 99] = (rs, m')
    \<and> (\<exists>oc. rs = [Inr oc, Inl InvalidAction])
    \<and> menu_weight (\<lambda>i _. i = 7) m' + slots_weight (\<lambda>i _. i = 7) (all_dropped rs) = 5"
proof -
  let ?P = "\<lambda>i (cs :: item_components). i = (7 :: int)"
  have "\<exists>m. player_menu 0 demo_player empty_table = Inr m \<and> mn_window_id m = 0"
    by (auto simp: player_menu_def new_container_def MAX_CONTAINER_SLOTS_def new_menu_def and_then_Inr demo_player_def
        MAX_MENU_SLOTS_def ct_len_def check_mappings_Inr with_role_def storage_slot_def stack_consts nth_Cons')
  then obtain m where m: "player_menu 0 demo_player empty_table = Inr m" "mn_window_id m = 0" by blast
  have c: "containers_ok empty_table [demo_player]"
    by (simp add: containers_ok_def demo_player_def fits_def wf_stack_def limit_in_def stack_item_id_def stack_consts
        max_stack_size_empty)
  have len: "length (mn_slots m) = 46" using player_menu_ok [OF m(1) c table_ok_empty] by blast
  obtain rs m' where run: "run_clicks m [demo_click Throw 0 36, demo_click Pickup 0 99] = (rs, m')" by fastforce
  obtain r m1 where r: "apply_click m (demo_click Throw 0 36) = (r, m1)" by fastforce
  have ad: "addressed m (demo_click Throw 0 36)" using len m(2) by (simp add: addressed_def demo_click_def slot_index_def)
  have ok: "menu_ok m" using player_menu_ok [OF m(1) c table_ok_empty] by blast
  obtain oc where oc: "r = Inr oc"
    using apply_click_ok [OF ok class_pred_all r] ad by (cases r) (auto simp: demo_click_def)
  have "length (mn_slots m1) = 46" using apply_click_ok [OF ok class_pred_all r] len by simp
  then have "\<not> addressed m1 (demo_click Pickup 0 99)" by (simp add: addressed_def demo_click_def slot_index_def)
  then have "rs = [Inr oc, Inl InvalidAction]"
    using run r oc apply_click_refused by simp
  moreover have "sum_list (map (ct_weight ?P) [demo_player]) = 5"
    by (simp add: demo_player_def ct_weight_def weight_def stack_count_def sum_list_replicate stack_consts)
  ultimately show ?thesis
    using session_conserves [of 0 demo_player empty_table m "[demo_player]" _ ?P, OF _ c table_ok_empty class_pred_item run]
      m(1) run by auto
qed

end
