(* ===== verification/Hopper.thy ===== *)
theory Hopper
  imports Container
begin

text \<open>
  \<open>crates/container/src/hopper.rs\<close>: one hopper transfer between two containers. A list of
  roles may be shorter than its container; the missing roles are \<^const>\<open>Storage\<close>.
\<close>

definition HOPPER_TRANSFER_COOLDOWN_TICKS :: nat where "HOPPER_TRANSFER_COOLDOWN_TICKS = 8"
definition MAX_ITEMS_PER_TRANSFER :: int where "MAX_ITEMS_PER_TRANSFER = DEFAULT_MAX_STACK_SIZE"

record hopper_transfer =
  moved :: int
  source_slot :: "nat option"
  destination_slot :: "nat option"

definition transfer_none :: hopper_transfer where
  "transfer_none = \<lparr>moved = 0, source_slot = None, destination_slot = None\<rparr>"

definition moved_anything :: "hopper_transfer \<Rightarrow> bool" where
  "moved_anything t \<longleftrightarrow> moved t > 0"

definition role_at :: "slot_role list \<Rightarrow> nat \<Rightarrow> slot_role" where
  "role_at roles i = (if i < length roles then roles ! i else Storage)"

text \<open>\<open>u16::try_from\<close>, saturating.\<close>

definition wire_slot :: "nat \<Rightarrow> nat" where
  "wire_slot i = (if i \<le> 65535 then i else 65535)"

definition wanted :: "int \<Rightarrow> int" where
  "wanted n = (if n \<le> 0 then 0 else min n MAX_ITEMS_PER_TRANSFER)"

definition pull_candidates :: "container \<Rightarrow> slot_role list \<Rightarrow> int \<Rightarrow> (nat \<times> item_stack) list" where
  "pull_candidates source roles per_transfer =
     (if wanted per_transfer = 0 then []
      else filter (\<lambda>(i, _). may_hopper_extract (role_at roles i)) (non_empty source))"

definition room_in :: "item_stack \<Rightarrow> item_stack \<Rightarrow> int" where
  "room_in existing s =
     (if stack_is_empty existing then MAX_ITEMS_PER_TRANSFER
      else if same_item existing s then MAX_ITEMS_PER_TRANSFER - stack_count existing
      else 0)"

fun push_search :: "slot_role list \<Rightarrow> item_stack \<Rightarrow> (nat \<times> item_stack) list \<Rightarrow> (nat \<times> int) option" where
  "push_search roles s [] = None"
| "push_search roles s ((i, existing) # rest) =
     (if \<not> may_place (role_at roles i) then push_search roles s rest
      else if room_in existing s > 0 then Some (i, room_in existing s)
      else push_search roles s rest)"

definition push_target :: "container \<Rightarrow> slot_role list \<Rightarrow> item_stack \<Rightarrow> (nat \<times> int) option" where
  "push_target destination roles s = push_search roles s (enumerate 0 (ct_slots destination))"

text \<open>
  The loop over the candidates: the result and the two containers, source first. A write
  that is refused returns with what was written before it.
\<close>

fun try_candidates ::
  "int \<Rightarrow> slot_role list \<Rightarrow> (nat \<times> item_stack) list \<Rightarrow> container \<Rightarrow> container
    \<Rightarrow> hopper_transfer server_result \<times> container \<times> container" where
  "try_candidates per_transfer droles [] source destination = (Inr transfer_none, source, destination)"
| "try_candidates per_transfer droles ((i, s) # rest) source destination =
     (case push_target destination droles s of
        None \<Rightarrow> try_candidates per_transfer droles rest source destination
      | Some (j, room) \<Rightarrow>
          let n = min (min per_transfer (stack_count s)) room
          in if n \<le> 0 then try_candidates per_transfer droles rest source destination
          else let (taken, from) = split s n;
                   n = stack_count taken
          in if n \<le> 0 then try_candidates per_transfer droles rest source destination
          else let (shortfall, to, taken) = merge_capped (ct_get destination j) taken MAX_ITEMS_PER_TRANSFER
          in if shortfall \<noteq> 0 \<or> \<not> stack_is_empty taken then (Inl Invariant, source, destination)
          else case ct_set source i from of
                 (Inl e, source) \<Rightarrow> (Inl e, source, destination)
               | (Inr _, source) \<Rightarrow>
                   (case ct_set destination j to of
                      (Inl e, destination) \<Rightarrow> (Inl e, source, destination)
                    | (Inr _, destination) \<Rightarrow>
                        (Inr \<lparr>moved = n, source_slot = Some (wire_slot i),
                              destination_slot = Some (wire_slot j)\<rparr>, source, destination)))"

definition transfer ::
  "container \<Rightarrow> slot_role list \<Rightarrow> container \<Rightarrow> slot_role list \<Rightarrow> int
    \<Rightarrow> hopper_transfer server_result \<times> container \<times> container" where
  "transfer source sroles destination droles per_transfer =
     (let cs = pull_candidates source sroles per_transfer
      in if cs = [] then (Inr transfer_none, source, destination)
         else try_candidates per_transfer droles cs source destination)"

definition transfer_storage :: "container \<Rightarrow> container \<Rightarrow> int \<Rightarrow> hopper_transfer server_result \<times> container \<times> container" where
  "transfer_storage source destination per_transfer = transfer source [] destination [] per_transfer"

section \<open>The searches\<close>

lemma push_search_spec:
  "push_search roles s (enumerate k xs) = Some (j, room) \<Longrightarrow>
     k \<le> j \<and> j - k < length xs \<and> may_place (role_at roles j)
     \<and> room = room_in (xs ! (j - k)) s \<and> 0 < room"
proof (induction xs arbitrary: k)
  case (Cons x xs)
  show ?case
  proof (cases "may_place (role_at roles k) \<and> room_in x s > 0")
    case True
    with Cons.prems show ?thesis by auto
  next
    case False
    then have "push_search roles s (enumerate (Suc k) xs) = Some (j, room)"
      using Cons.prems by (auto split: if_splits)
    from Cons.IH [OF this] show ?thesis by (auto simp: nth_Cons' Suc_diff_le)
  qed
qed simp

lemma push_search_None:
  "push_search roles s (enumerate k xs) = None \<longleftrightarrow>
     (\<forall>j < length xs. may_place (role_at roles (k + j)) \<longrightarrow> room_in (xs ! j) s \<le> 0)"
proof (induction xs arbitrary: k)
  case (Cons x xs)
  show ?case
    using Cons.IH [of "Suc k"] by (auto simp: All_less_Suc2)
qed simp

lemma push_target_spec:
  "push_target d roles s = Some (j, room) \<Longrightarrow>
     j < length (ct_slots d) \<and> may_place (role_at roles j)
     \<and> room = room_in (ct_slots d ! j) s \<and> 0 < room"
  using push_search_spec [of roles s 0 "ct_slots d"] by (auto simp: push_target_def)

lemma push_target_None:
  "push_target d roles s = None \<longleftrightarrow>
     (\<forall>j < length (ct_slots d). may_place (role_at roles j) \<longrightarrow> room_in (ct_slots d ! j) s \<le> 0)"
  using push_search_None [of roles s 0 "ct_slots d"] by (simp add: push_target_def)

lemma pull_candidate:
  "(i, s) \<in> set (pull_candidates c roles n) \<longleftrightarrow>
     0 < n \<and> i < length (ct_slots c) \<and> s = ct_slots c ! i \<and> \<not> stack_is_empty s
     \<and> may_hopper_extract (role_at roles i)"
  by (auto simp: pull_candidates_def wanted_def MAX_ITEMS_PER_TRANSFER_def stack_consts non_empty_def
      in_set_enumerate_eq)

section \<open>One move\<close>

text \<open>What the call does for the first candidate that has a destination.\<close>

definition hopper_ok ::
  "(int \<Rightarrow> item_components \<Rightarrow> bool) \<Rightarrow> int \<Rightarrow> container \<Rightarrow> container
    \<Rightarrow> hopper_transfer server_result \<times> container \<times> container \<Rightarrow> bool" where
  "hopper_ok P n source destination r =
     (case r of (res, s', d') \<Rightarrow>
        ct_ok s' \<and> ct_ok d'
        \<and> ct_weight P s' + ct_weight P d' = ct_weight P source + ct_weight P destination
        \<and> (case res of
             Inl e \<Rightarrow> False
           | Inr t \<Rightarrow> 0 \<le> moved t \<and> (moved t \<noteq> 0 \<longrightarrow> moved t \<le> n)
               \<and> ct_total_items s' = ct_total_items source - moved t
               \<and> ct_total_items d' = ct_total_items destination + moved t
               \<and> (moved t = 0 \<longrightarrow> s' = source \<and> d' = destination)))"

lemma one_move:
  assumes ok: "ct_ok source" "ct_ok destination" and P: "class_pred P" and n: "0 < n"
    and i: "i < length (ct_slots source)" "s = ct_slots source ! i" "\<not> stack_is_empty s"
    and t: "push_target destination droles s = Some (j, room)"
  shows "hopper_ok P n source destination (try_candidates n droles ((i, s) # rest) source destination)
    \<and> (\<exists>t. fst (try_candidates n droles ((i, s) # rest) source destination) = Inr t
          \<and> moved t = min (min n (st_count s)) room \<and> 0 < moved t)"
proof -
  let ?e = "ct_slots destination ! j" and ?n = "min (min n (stack_count s)) room"
  note pt = push_target_spec [OF t]
  have wf: "wf_stack s" "wf_stack ?e" using ok i pt by (simp_all add: ct_ok_def)
  have s: "s \<noteq> EMPTY" "1 \<le> st_count s" "stack_count s = st_count s"
    using i(3) wf_empty [OF wf(1)] wf_nonempty [OF wf(1)] wf_count [OF wf(1)] by auto
  have n1: "1 \<le> ?n" "?n \<le> n" "?n \<le> st_count s" "?n \<le> room" using n s pt by auto
  obtain taken lft where sp: "split s ?n = (taken, lft)" by fastforce
  note ss = split_spec [OF wf(1) sp]
  have tk: "st_count taken = ?n" "wf_stack taken" "wf_stack lft" "st_count lft = st_count s - ?n"
    using ss [of P] n1 by auto
  have tne: "taken \<noteq> EMPTY" "stack_count taken = ?n" using tk n1 wf_count [OF tk(2)] by auto
  have ti: "st_item taken = st_item s" "st_comps taken = st_comps s" using ss [of P] tne by blast+
  obtain l tgt rem where m: "merge_capped ?e taken MAX_ITEMS_PER_TRANSFER = (l, tgt, rem)"
    by (metis prod_cases3)
  note mm = merge_spec [OF wf(2) tk(2) m] and mi = merge_items [OF wf(2) tk(2) m]
  have same: "?e = EMPTY \<or> same_item ?e taken"
    using pt wf_empty [OF wf(2)] ti by (auto simp: room_in_def same_item_def split: if_splits)
  have r0: "rem = EMPTY"
  proof (rule ccontr)
    assume ne: "rem \<noteq> EMPTY"
    then have "64 \<le> st_count tgt" using mi same by (simp add: MAX_ITEMS_PER_TRANSFER_def stack_consts)
    moreover have "st_count tgt + st_count rem = st_count ?e + ?n"
      using mm [OF P] tk by simp
    moreover have "1 \<le> st_count rem" using ne mm [OF P] wf_nonempty [of rem] by blast
    moreover have "st_count ?e + room \<le> 64"
      using pt wf_empty [OF wf(2)] wf_count [OF wf(2)]
      by (auto simp: room_in_def MAX_ITEMS_PER_TRANSFER_def stack_consts split: if_splits)
    ultimately show False using n1 by linarith
  qed
  then have l0: "l = 0" using mm [OF P] by simp
  have tto: "wf_stack tgt" "st_count tgt = st_count ?e + ?n" using mm [OF P] r0 tk by simp_all
  have get: "ct_get destination j = ?e" using pt by (simp add: ct_get_def)
  obtain S D where S: "ct_set source i lft = (Inr (), S)" and D: "ct_set destination j tgt = (Inr (), D)"
    using ct_set_spec [OF ok(1) tk(3) i(1), of P] ct_set_spec [OF ok(2) tto(1), of j P] pt
    by (metis prod.exhaust_sel)
  have e: "try_candidates n droles ((i, s) # rest) source destination =
    (Inr \<lparr>moved = ?n, source_slot = Some (wire_slot i), destination_slot = Some (wire_slot j)\<rparr>, S, D)"
  proof -
    have "\<not> ?n \<le> 0" using n1 by linarith
    then show ?thesis
      by (simp only: try_candidates.simps t option.case prod.case Let_def sp if_False tne m get r0 l0
          EMPTY_simps simp_thms sum.case S D)
  qed
  note cs = ct_set_spec [OF ok(1) tk(3) i(1), unfolded S snd_conv] and
    cd = ct_set_spec [OF ok(2) tto(1), of j, unfolded D snd_conv]
  have w: "ct_weight P S + ct_weight P D = ct_weight P source + ct_weight P destination"
  proof -
    have "ct_weight P S = ct_weight P source - weight P s + weight P lft"
      using cs [of P] P i(2) by blast
    moreover have "ct_weight P D = ct_weight P destination - weight P ?e + weight P tgt"
      using cd [of P] P pt by blast
    moreover have "weight P taken + weight P lft = weight P s"
      using split_spec [OF wf(1) sp, of P] by blast
    moreover have "weight P tgt + weight P rem = weight P ?e + weight P taken"
      using mm [OF P] by blast
    ultimately show ?thesis using r0 by simp
  qed
  have tot: "ct_total_items S = ct_total_items source - ?n" "ct_total_items D = ct_total_items destination + ?n"
  proof -
    have T: "class_pred (\<lambda>_ _. True)" by (simp add: class_pred_def)
    have "ct_weight (\<lambda>_ _. True) S = ct_weight (\<lambda>_ _. True) source - stack_count s + stack_count lft"
      using cs [of "\<lambda>_ _. True"] T i(2) by (simp add: weight_def)
    then show "ct_total_items S = ct_total_items source - ?n"
      using s(3) tk(4) wf_count [OF tk(3)] by (simp add: total_is_weight)
    have "ct_weight (\<lambda>_ _. True) D = ct_weight (\<lambda>_ _. True) destination - stack_count ?e + stack_count tgt"
      using cd [of "\<lambda>_ _. True"] T pt by (simp add: weight_def)
    then show "ct_total_items D = ct_total_items destination + ?n"
      using tto wf_count [OF wf(2)] wf_count [OF tto(1)] by (simp add: total_is_weight)
  qed
  have oks: "ct_ok S" "ct_ok D" using cs cd pt by blast+
  show ?thesis unfolding e hopper_ok_def
    using oks w tot n1 s(3) by (simp, linarith)
qed

text \<open>The whole call: it stops at the first candidate with a destination.\<close>

lemma try_candidates_spec:
  assumes ok: "ct_ok source" "ct_ok destination" and P: "class_pred P" and n: "0 < n"
  shows "\<forall>(i, s) \<in> set cs. i < length (ct_slots source) \<and> s = ct_slots source ! i \<and> \<not> stack_is_empty s \<Longrightarrow>
    hopper_ok P n source destination (try_candidates n droles cs source destination)
    \<and> (\<exists>t. fst (try_candidates n droles cs source destination) = Inr t
          \<and> (moved t = 0 \<longleftrightarrow> (\<forall>(i, s) \<in> set cs. push_target destination droles s = None)))"
proof (induction cs)
  case Nil
  with ok show ?case by (simp add: hopper_ok_def transfer_none_def)
next
  case (Cons c cs)
  obtain i s where c: "c = (i, s)" by (cases c)
  show ?case
  proof (cases "push_target destination droles s")
    case None
    with Cons c show ?thesis by auto
  next
    case (Some jr)
    obtain j room where jr: "jr = (j, room)" by (cases jr)
    from one_move [OF ok P n _ _ _ Some [unfolded jr], of i] Cons.prems Some c show ?thesis
      by fastforce
  qed
qed

lemma transfer_spec:
  assumes ok: "ct_ok source" "ct_ok destination" and P: "class_pred P"
  shows "hopper_ok P n source destination (transfer source sroles destination droles n)
    \<and> (\<exists>t. fst (transfer source sroles destination droles n) = Inr t
          \<and> (moved t = 0 \<longleftrightarrow> (\<forall>(i, s) \<in> set (pull_candidates source sroles n).
                push_target destination droles s = None)))"
proof (cases "pull_candidates source sroles n = []")
  case True
  with ok show ?thesis by (simp add: transfer_def hopper_ok_def transfer_none_def)
next
  case False
  then have "0 < n" by (auto simp: pull_candidates_def wanted_def split: if_splits)
  from try_candidates_spec [OF ok P this, of "pull_candidates source sroles n" droles] False pull_candidate
  show ?thesis by (fastforce simp: transfer_def Let_def)
qed

text \<open>
  C12. A hopper transfer conserves items of every class over the two containers and never
  fails: it reports how many items moved (at most the amount asked for), the source loses
  and the destination gains exactly that many, and a transfer that moves nothing changes
  nothing. It moves something whenever an extractable source slot holds a stack for which
  a destination slot that may be placed into has room.
\<close>

theorem hopper_conserves:
  assumes "ct_ok source" "ct_ok destination" "class_pred P"
    and "transfer source sroles destination droles n = (res, source', destination')"
  shows "\<exists>t. res = Inr t \<and> ct_ok source' \<and> ct_ok destination'
    \<and> ct_weight P source' + ct_weight P destination' = ct_weight P source + ct_weight P destination
    \<and> 0 \<le> moved t \<and> (moved t \<noteq> 0 \<longrightarrow> moved t \<le> n)
    \<and> ct_total_items source' = ct_total_items source - moved t
    \<and> ct_total_items destination' = ct_total_items destination + moved t
    \<and> (moved t = 0 \<longrightarrow> source' = source \<and> destination' = destination)
    \<and> (moved t = 0 \<longleftrightarrow> \<not> (\<exists>i < length (ct_slots source). \<exists>j < length (ct_slots destination).
          0 < n \<and> \<not> stack_is_empty (ct_slots source ! i) \<and> may_hopper_extract (role_at sroles i)
          \<and> may_place (role_at droles j) \<and> 0 < room_in (ct_slots destination ! j) (ct_slots source ! i)))"
proof -
  note tr = transfer_spec [OF assms(1-3), of n sroles droles, unfolded assms(4) fst_conv]
  obtain t where t: "res = Inr t" and z: "moved t = 0 \<longleftrightarrow> (\<forall>(i, s) \<in> set (pull_candidates source sroles n).
      push_target destination droles s = None)" using tr by blast
  have "(\<forall>(i, s) \<in> set (pull_candidates source sroles n). push_target destination droles s = None)
    \<longleftrightarrow> \<not> (\<exists>i < length (ct_slots source). \<exists>j < length (ct_slots destination).
          0 < n \<and> \<not> stack_is_empty (ct_slots source ! i) \<and> may_hopper_extract (role_at sroles i)
          \<and> may_place (role_at droles j) \<and> 0 < room_in (ct_slots destination ! j) (ct_slots source ! i))"
  proof -
    have "(\<forall>(i, s) \<in> set (pull_candidates source sroles n). Q s) \<longleftrightarrow>
      (\<forall>i < length (ct_slots source). 0 < n \<and> \<not> stack_is_empty (ct_slots source ! i)
        \<and> may_hopper_extract (role_at sroles i) \<longrightarrow> Q (ct_slots source ! i))" for Q
      by (force simp: pull_candidate)
    note cand = this
    have le: "room_in a b \<le> 0 \<longleftrightarrow> \<not> 0 < room_in a b" for a b by auto
    have logic: "(\<forall>i < m. N \<and> E i \<and> X i \<longrightarrow> (\<forall>j < k. L j \<longrightarrow> \<not> R i j)) \<longleftrightarrow>
      \<not> (\<exists>i < m. \<exists>j < k. N \<and> E i \<and> X i \<and> L j \<and> R i j)" for m k :: nat and N E X L R
      by blast
    show ?thesis unfolding push_target_None le cand logic ..
  qed
  with tr t z show ?thesis by (simp add: hopper_ok_def)
qed

text \<open>Two one-slot chests, and a hopper moving one of five items.\<close>

definition demo_chest :: "item_stack \<Rightarrow> container" where
  "demo_chest s = \<lparr>ct_kind = Kind_Generic, ct_slots = [s], ct_changed = {}\<rparr>"

theorem hopper_conserves_witness:
  "\<exists>t s' d'. transfer (demo_chest \<lparr>st_item = 7, st_count = 5, st_comps = []\<rparr>) [] (demo_chest EMPTY) [] 1
      = (Inr t, s', d') \<and> moved t \<noteq> 0 \<and> ct_total_items s' + ct_total_items d' = 5"
proof -
  let ?a = "demo_chest \<lparr>st_item = 7, st_count = 5, st_comps = []\<rparr>" and ?b = "demo_chest EMPTY"
  obtain res s' d' where r: "transfer ?a [] ?b [] 1 = (res, s', d')" by (metis prod_cases3)
  have "ct_ok ?a" "ct_ok ?b" by (simp_all add: demo_chest_def ct_ok_def wf_stack_def)
  note h = hopper_conserves [OF this class_pred_item [of "\<lambda>_. True"] r]
  obtain t where t: "res = Inr t" "ct_total_items s' = ct_total_items ?a - moved t"
      "ct_total_items d' = ct_total_items ?b + moved t"
      "moved t = 0 \<longleftrightarrow> \<not> (\<exists>i < length (ct_slots ?a). \<exists>j < length (ct_slots ?b).
          0 < (1::int) \<and> \<not> stack_is_empty (ct_slots ?a ! i) \<and> may_hopper_extract (role_at [] i)
          \<and> may_place (role_at [] j) \<and> 0 < room_in (ct_slots ?b ! j) (ct_slots ?a ! i))"
    using h by blast
  have "moved t \<noteq> 0" unfolding t(4)
    by (simp add: demo_chest_def role_at_def may_hopper_extract_def may_place_def room_in_def
        MAX_ITEMS_PER_TRANSFER_def stack_consts stack_is_empty_def)
  moreover have "ct_total_items ?a = 5" "ct_total_items ?b = 0"
    by (simp_all add: demo_chest_def ct_total_items_def stack_count_def stack_consts)
  ultimately show ?thesis using r t(1-3) by simp
qed

text \<open>
  The ceiling of a destination is 64 whatever the item: two stacks of an item limited to one
  per slot are put together.
\<close>

theorem hopper_ignores_item_limit:
  "case transfer (demo_chest \<lparr>st_item = 7, st_count = 1, st_comps = []\<rparr>) []
      (demo_chest \<lparr>st_item = 7, st_count = 1, st_comps = []\<rparr>) [] 1 of
     (res, s', d') \<Rightarrow> st_count (ct_get d' 0) = 2
       \<and> max_stack_size [(7, 1)] 7 = 1"
  by (simp add: transfer_def pull_candidates_def wanted_def MAX_ITEMS_PER_TRANSFER_def stack_consts
      non_empty_def demo_chest_def stack_is_empty_def role_at_def may_hopper_extract_def push_target_def
      may_place_def room_in_def same_item_def comps_eq_def stack_count_def split_def merge_capped_def
      clamp_def ct_get_def ct_set_def stack_eq_def max_stack_size_def binary_search_by_def bsearch.simps int_cmp_def)

end
