(* ===== verification/Floats.thy ===== *)
theory Floats
  imports Prelude
begin

text \<open>
  Rust's \<open>f32\<close> and \<open>f64\<close> arithmetic on the words of the values' bits: IEEE 754 binary
  formats, round to nearest with ties to even. A finite value is a sign, a natural
  mantissa and a binary exponent; an operation computes the exact dyadic result and rounds
  it once. Rust leaves the payload of a computed NaN open; the model picks the canonical
  quiet one.
\<close>

datatype float_value = NaN | Inf bool | Fin bool nat int

text \<open>A format is its stored mantissa bits and its exponent bits.\<close>

record float_format =
  mant :: nat
  expo :: nat

definition F32 :: float_format where "F32 = \<lparr>mant = 23, expo = 8\<rparr>"
definition F64 :: float_format where "F64 = \<lparr>mant = 52, expo = 11\<rparr>"

definition bias :: "float_format \<Rightarrow> int" where
  "bias f = 2 ^ (expo f - 1) - 1"

definition min_exp :: "float_format \<Rightarrow> int" where
  "min_exp f = 1 - bias f - int (mant f)"

definition fdecode :: "float_format \<Rightarrow> nat \<Rightarrow> float_value" where
  "fdecode f b =
     (let frac = b mod 2 ^ mant f;
          ex = (b div 2 ^ mant f) mod 2 ^ expo f;
          s = (b div 2 ^ (mant f + expo f)) mod 2 = 1
      in if ex = 2 ^ expo f - 1 then (if frac = 0 then Inf s else NaN)
         else if ex = 0 then Fin s frac (min_exp f)
         else Fin s (frac + 2 ^ mant f) (int ex - bias f - int (mant f)))"

definition sign_bit :: "float_format \<Rightarrow> bool \<Rightarrow> nat" where
  "sign_bit f s = (if s then 2 ^ (mant f + expo f) else 0)"

definition inf_bits :: "float_format \<Rightarrow> bool \<Rightarrow> nat" where
  "inf_bits f s = sign_bit f s + (2 ^ expo f - 1) * 2 ^ mant f"

definition nan_bits :: "float_format \<Rightarrow> nat" where
  "nan_bits f = inf_bits f False + 2 ^ (mant f - 1)"

fun bit_length :: "nat \<Rightarrow> nat" where
  "bit_length n = (if n = 0 then 0 else Suc (bit_length (n div 2)))"

declare bit_length.simps [simp del]

text \<open>Division by \<open>2 ^ k\<close>, to the nearest integer, ties to even.\<close>

definition shift_round :: "nat \<Rightarrow> nat \<Rightarrow> nat" where
  "shift_round m k =
     (if k = 0 then m
      else let q = m div 2 ^ k; r = m mod 2 ^ k; half = 2 ^ (k - 1)
           in if r > half \<or> (r = half \<and> odd q) then q + 1 else q)"

text \<open>The bits of \<open>(-1)^s * m * 2^e\<close>, rounded.\<close>

definition fround :: "float_format \<Rightarrow> bool \<Rightarrow> nat \<Rightarrow> int \<Rightarrow> nat" where
  "fround f s m e =
     (let target = max (e + int (bit_length m) - int (mant f) - 1) (min_exp f);
          q = (if target \<le> e then m * 2 ^ nat (e - target) else shift_round m (nat (target - e)));
          (q, target) = (if q = 2 ^ (mant f + 1) then (2 ^ mant f, target + 1) else (q, target));
          ex = target + bias f + int (mant f)
      in if q < 2 ^ mant f then sign_bit f s + q
         else if ex \<ge> 2 ^ expo f - 1 then inf_bits f s
         else sign_bit f s + nat ex * 2 ^ mant f + (q - 2 ^ mant f))"

definition signed :: "bool \<Rightarrow> nat \<Rightarrow> int" where
  "signed s m = (if s then - int m else int m)"

text \<open>An exact sum that is zero is \<open>-0\<close> only when both operands are negative.\<close>

fun fadd_value :: "float_format \<Rightarrow> float_value \<Rightarrow> float_value \<Rightarrow> nat" where
  "fadd_value f (Fin s m e) (Fin t n d) =
     (let low = min e d;
          x = signed s m * 2 ^ nat (e - low) + signed t n * 2 ^ nat (d - low)
      in if x = 0 then sign_bit f (s \<and> t) else fround f (x < 0) (nat \<bar>x\<bar>) low)"
| "fadd_value f (Inf s) (Inf t) = (if s = t then inf_bits f s else nan_bits f)"
| "fadd_value f (Inf s) (Fin _ _ _) = inf_bits f s"
| "fadd_value f (Fin _ _ _) (Inf t) = inf_bits f t"
| "fadd_value f NaN _ = nan_bits f"
| "fadd_value f _ NaN = nan_bits f"

fun fmul_value :: "float_format \<Rightarrow> float_value \<Rightarrow> float_value \<Rightarrow> nat" where
  "fmul_value f (Fin s m e) (Fin t n d) = fround f (s \<noteq> t) (m * n) (e + d)"
| "fmul_value f (Inf s) (Inf t) = inf_bits f (s \<noteq> t)"
| "fmul_value f (Inf s) (Fin t n d) = (if n = 0 then nan_bits f else inf_bits f (s \<noteq> t))"
| "fmul_value f (Fin s m e) (Inf t) = (if m = 0 then nan_bits f else inf_bits f (s \<noteq> t))"
| "fmul_value f NaN _ = nan_bits f"
| "fmul_value f _ NaN = nan_bits f"

text \<open>A quotient is computed with two guard bits and a sticky bit, then rounded.\<close>

fun fdiv_value :: "float_format \<Rightarrow> float_value \<Rightarrow> float_value \<Rightarrow> nat" where
  "fdiv_value f (Fin s m e) (Fin t n d) =
     (if n = 0 then (if m = 0 then nan_bits f else inf_bits f (s \<noteq> t))
      else if m = 0 then sign_bit f (s \<noteq> t)
      else let k = mant f + 3 + bit_length n;
               q = (m * 2 ^ k) div n;
               sticky = (if (m * 2 ^ k) mod n = 0 then 0 else 1)
           in fround f (s \<noteq> t) (2 * q + sticky) (e - d - int k - 1))"
| "fdiv_value f (Inf s) (Inf t) = nan_bits f"
| "fdiv_value f (Inf s) (Fin t n d) = inf_bits f (s \<noteq> t)"
| "fdiv_value f (Fin s m e) (Inf t) = sign_bit f (s \<noteq> t)"
| "fdiv_value f NaN _ = nan_bits f"
| "fdiv_value f _ NaN = nan_bits f"

text \<open>The order of two values; None when one is a NaN.\<close>

fun fcompare :: "float_value \<Rightarrow> float_value \<Rightarrow> int option" where
  "fcompare (Fin s m e) (Fin t n d) =
     (let low = min e d
      in Some (sgn (signed s m * 2 ^ nat (e - low) - signed t n * 2 ^ nat (d - low))))"
| "fcompare (Inf s) (Inf t) = Some (if s = t then 0 else if s then - 1 else 1)"
| "fcompare (Inf s) (Fin _ _ _) = Some (if s then - 1 else 1)"
| "fcompare (Fin _ _ _) (Inf t) = Some (if t then 1 else - 1)"
| "fcompare NaN _ = None"
| "fcompare _ NaN = None"

section \<open>Operations on words\<close>

definition f32_value :: "u32 \<Rightarrow> float_value" where "f32_value w = fdecode F32 (unat w)"
definition f64_value :: "u64 \<Rightarrow> float_value" where "f64_value w = fdecode F64 (unat w)"

definition f32_add :: "u32 \<Rightarrow> u32 \<Rightarrow> u32" where
  "f32_add a b = of_nat (fadd_value F32 (f32_value a) (f32_value b))"

definition f32_mul :: "u32 \<Rightarrow> u32 \<Rightarrow> u32" where
  "f32_mul a b = of_nat (fmul_value F32 (f32_value a) (f32_value b))"

definition f32_div :: "u32 \<Rightarrow> u32 \<Rightarrow> u32" where
  "f32_div a b = of_nat (fdiv_value F32 (f32_value a) (f32_value b))"

definition f32_neg :: "u32 \<Rightarrow> u32" where
  "f32_neg a = xor a (push_bit 31 1)"

definition f32_sub :: "u32 \<Rightarrow> u32 \<Rightarrow> u32" where
  "f32_sub a b = f32_add a (f32_neg b)"

definition f32_lt :: "u32 \<Rightarrow> u32 \<Rightarrow> bool" where
  "f32_lt a b \<longleftrightarrow> fcompare (f32_value a) (f32_value b) = Some (- 1)"

definition f32_le :: "u32 \<Rightarrow> u32 \<Rightarrow> bool" where
  "f32_le a b \<longleftrightarrow> fcompare (f32_value a) (f32_value b) \<in> {Some (- 1), Some 0}"

definition f64_add :: "u64 \<Rightarrow> u64 \<Rightarrow> u64" where
  "f64_add a b = of_nat (fadd_value F64 (f64_value a) (f64_value b))"

definition f64_mul :: "u64 \<Rightarrow> u64 \<Rightarrow> u64" where
  "f64_mul a b = of_nat (fmul_value F64 (f64_value a) (f64_value b))"

definition f64_div :: "u64 \<Rightarrow> u64 \<Rightarrow> u64" where
  "f64_div a b = of_nat (fdiv_value F64 (f64_value a) (f64_value b))"

definition f64_neg :: "u64 \<Rightarrow> u64" where
  "f64_neg a = xor a (push_bit 63 1)"

definition f64_sub :: "u64 \<Rightarrow> u64 \<Rightarrow> u64" where
  "f64_sub a b = f64_add a (f64_neg b)"

definition f64_lt :: "u64 \<Rightarrow> u64 \<Rightarrow> bool" where
  "f64_lt a b \<longleftrightarrow> fcompare (f64_value a) (f64_value b) = Some (- 1)"

definition f64_le :: "u64 \<Rightarrow> u64 \<Rightarrow> bool" where
  "f64_le a b \<longleftrightarrow> fcompare (f64_value a) (f64_value b) \<in> {Some (- 1), Some 0}"

text \<open>An integer converted with \<open>as\<close> or \<open>from\<close>.\<close>

definition f32_of_int :: "int \<Rightarrow> u32" where
  "f32_of_int i = of_nat (fround F32 (i < 0) (nat \<bar>i\<bar>) 0)"

definition f64_of_int :: "int \<Rightarrow> u64" where
  "f64_of_int i = of_nat (fround F64 (i < 0) (nat \<bar>i\<bar>) 0)"

end
