(* ===== verification/Furnace.thy ===== *)
theory Furnace
  imports Container Floats
begin

text \<open>
  \<open>crates/container/src/furnace.rs\<close>: the smelting table, the fuel table and the tick rule of a
  furnace. Tick counters are naturals below \<open>2^32\<close>; experience is the word of an \<open>f32\<close>.
\<close>

definition FURNACE_TICKS_PER_SECOND :: nat where "FURNACE_TICKS_PER_SECOND = 20"
definition SMELTING_COOK_TICKS :: nat where "SMELTING_COOK_TICKS = 200"
definition MAX_COOK_TICKS :: nat where "MAX_COOK_TICKS = 400"

text \<open>\<open>0.7f32\<close>.\<close>

definition EXPERIENCE_PER_IRON_SMELT :: u32 where "EXPERIENCE_PER_IRON_SMELT = 0x3F333333"

datatype evidence = Verified | Derived | Approximation | ProductDecision

definition is_vanilla :: "evidence \<Rightarrow> bool" where
  "is_vanilla e \<longleftrightarrow> e = Verified \<or> e = Derived"

record fuel_value =
  fuel_item :: rstring
  fuel_ticks :: nat
  fuel_label :: evidence

definition fuel_row :: "string \<Rightarrow> nat \<Rightarrow> fuel_value" where
  "fuel_row name n = \<lparr>fuel_item = lit name, fuel_ticks = n, fuel_label = Verified\<rparr>"

definition FUEL_BURST_TICKS :: "fuel_value list" where
  "FUEL_BURST_TICKS =
     [fuel_row ''minecraft:coal'' 1600,
      fuel_row ''minecraft:charcoal'' 1600,
      fuel_row ''minecraft:coal_block'' 16000,
      fuel_row ''minecraft:blaze_rod'' 2400,
      fuel_row ''minecraft:oak_planks'' 300,
      fuel_row ''minecraft:stick'' 100,
      fuel_row ''minecraft:lava_bucket'' 20000,
      fuel_row ''minecraft:dried_kelp_block'' 4000]"

section \<open>Recipes\<close>

record smelting_recipe =
  r_input :: int
  r_output :: int
  r_count :: int
  r_ticks :: nat
  r_experience :: u32

definition new_recipe :: "int \<Rightarrow> int \<Rightarrow> int \<Rightarrow> nat \<Rightarrow> u32 \<Rightarrow> smelting_recipe server_result" where
  "new_recipe i out n ticks xp =
     (if \<not> (1 \<le> n \<and> n \<le> HARD_MAX_STACK_SIZE) then Inl Invariant
      else if ticks = 0 \<or> ticks > MAX_COOK_TICKS then Inl Invariant
      else Inr \<lparr>r_input = i, r_output = out, r_count = n, r_ticks = ticks, r_experience = xp\<rparr>)"

definition recipe_one :: "int \<Rightarrow> int \<Rightarrow> nat \<Rightarrow> u32 \<Rightarrow> smelting_recipe server_result" where
  "recipe_one i out ticks xp = new_recipe i out 1 ticks xp"

type_synonym smelting_registry = "smelting_recipe list"

fun check_recipes :: "smelting_recipe list \<Rightarrow> smelting_recipe list \<Rightarrow> unit server_result" where
  "check_recipes earlier [] = Inr ()"
| "check_recipes earlier (r # rs) =
     (if \<exists>e \<in> set earlier. r_input e = r_input r then Inl Invariant
      else check_recipes (earlier @ [r]) rs)"

definition smelting_new :: "smelting_recipe list \<Rightarrow> smelting_registry server_result" where
  "smelting_new rs = and_then (check_recipes [] rs) (\<lambda>_. Inr rs)"

definition smelting_empty :: smelting_registry where "smelting_empty = []"

definition id_of :: "item_registry \<Rightarrow> rstring \<Rightarrow> int server_result" where
  "id_of items name = (case registry_id items name of Inl _ \<Rightarrow> Inl CorruptData | Inr i \<Rightarrow> Inr i)"

definition baseline_rows :: "(string \<times> string \<times> u32) list" where
  "baseline_rows =
     [(''minecraft:iron_ore'', ''minecraft:iron_ingot'', EXPERIENCE_PER_IRON_SMELT),
      (''minecraft:deepslate_iron_ore'', ''minecraft:iron_ingot'', EXPERIENCE_PER_IRON_SMELT),
      (''minecraft:raw_iron'', ''minecraft:iron_ingot'', EXPERIENCE_PER_IRON_SMELT),
      (''minecraft:sand'', ''minecraft:glass'', 0x3DCCCCCD),
      (''minecraft:cobblestone'', ''minecraft:stone'', 0x3DCCCCCD),
      (''minecraft:porkchop'', ''minecraft:cooked_porkchop'', 0x3EB33333),
      (''minecraft:potato'', ''minecraft:baked_potato'', 0x3EB33333)]"

fun baseline_recipes :: "item_registry \<Rightarrow> (string \<times> string \<times> u32) list \<Rightarrow> smelting_recipe list server_result" where
  "baseline_recipes items [] = Inr []"
| "baseline_recipes items ((i, out, xp) # rows) =
     and_then (id_of items (lit i)) (\<lambda>i.
     and_then (id_of items (lit out)) (\<lambda>out.
     and_then (recipe_one i out SMELTING_COOK_TICKS xp) (\<lambda>r.
     and_then (baseline_recipes items rows) (\<lambda>rs. Inr (r # rs)))))"

definition baseline :: "item_registry \<Rightarrow> smelting_registry server_result" where
  "baseline items = and_then (baseline_recipes items baseline_rows) smelting_new"

definition recipe_for :: "smelting_registry \<Rightarrow> int \<Rightarrow> smelting_recipe option" where
  "recipe_for rs i = List.find (\<lambda>r. r_input r = i) rs"

definition burn_ticks_for :: "item_registry \<Rightarrow> int \<Rightarrow> nat option server_result" where
  "burn_ticks_for items i =
     (case registry_name items i of
        Inl _ \<Rightarrow> Inl CorruptData
      | Inr name \<Rightarrow> Inr (map_option fuel_ticks (List.find (\<lambda>f. fuel_item f = name) FUEL_BURST_TICKS)))"

definition fuel_evidence :: "rstring \<Rightarrow> evidence" where
  "fuel_evidence item =
     (case List.find (\<lambda>f. fuel_item f = item) FUEL_BURST_TICKS of
        None \<Rightarrow> Approximation | Some f \<Rightarrow> fuel_label f)"

section \<open>State\<close>

record furnace_state =
  burn_ticks_remaining :: nat
  burn_ticks_total :: nat
  cook_progress :: nat
  cook_total :: nat
  experience :: u32

definition new_furnace :: furnace_state where
  "new_furnace = \<lparr>burn_ticks_remaining = 0, burn_ticks_total = 0, cook_progress = 0,
     cook_total = 0, experience = 0\<rparr>"

definition is_lit :: "furnace_state \<Rightarrow> bool" where
  "is_lit st \<longleftrightarrow> burn_ticks_remaining st > 0"

definition u16_or_max :: "nat \<Rightarrow> nat" where
  "u16_or_max n = (if n \<le> 65535 then n else 65535)"

definition cook_fraction :: "furnace_state \<Rightarrow> u32" where
  "cook_fraction st =
     (if cook_total st = 0 then 0
      else f32_div (f32_of_int (int (u16_or_max (min (cook_progress st) (cook_total st)))))
             (f32_of_int (int (u16_or_max (cook_total st)))))"

record furnace_slots =
  fs_input :: nat
  fs_fuel :: nat
  fs_output :: nat

definition CANONICAL :: furnace_slots where
  "CANONICAL = \<lparr>fs_input = 0, fs_fuel = 1, fs_output = 2\<rparr>"

definition are_distinct :: "furnace_slots \<Rightarrow> bool" where
  "are_distinct sl \<longleftrightarrow> fs_input sl \<noteq> fs_fuel sl \<and> fs_fuel sl \<noteq> fs_output sl \<and> fs_input sl \<noteq> fs_output sl"

record tick_report =
  lit_after :: bool
  finished_items :: nat
  fuel_consumed :: bool
  cook_progressed :: bool
  state_changed :: bool

definition default_report :: tick_report where
  "default_report = \<lparr>lit_after = False, finished_items = 0, fuel_consumed = False,
     cook_progressed = False, state_changed = False\<rparr>"

definition report_is_noop :: "tick_report \<Rightarrow> bool" where
  "report_is_noop r \<longleftrightarrow> \<not> fuel_consumed r \<and> \<not> cook_progressed r \<and> finished_items r = 0 \<and> \<not> state_changed r"

section \<open>The tick\<close>

record smelt_plan =
  p_output :: int
  p_count :: int
  p_ticks :: nat
  p_experience :: u32

definition plan_smelt :: "item_stack \<Rightarrow> item_stack \<Rightarrow> smelting_registry \<Rightarrow> stack_size_table \<Rightarrow> smelt_plan option" where
  "plan_smelt i out recipes sizes =
     (case stack_item_id i of
        None \<Rightarrow> None
      | Some i \<Rightarrow>
      (case recipe_for recipes i of
        None \<Rightarrow> None
      | Some r \<Rightarrow>
          let limit = max_stack_size sizes (r_output r)
          in if \<not> stack_is_empty out \<and> stack_item_id out \<noteq> Some (r_output r) then None
             else if \<not> stack_is_empty out \<and> stack_count out + r_count r > limit then None
             else Some \<lparr>p_output = r_output r, p_count = r_count r, p_ticks = r_ticks r,
                        p_experience = r_experience r\<rparr>))"

definition take_fuel ::
  "furnace_state \<Rightarrow> container \<Rightarrow> furnace_slots \<Rightarrow> item_registry
    \<Rightarrow> nat option server_result \<times> furnace_state \<times> container" where
  "take_fuel st c sl items =
     (case stack_item_id (ct_get c (fs_fuel sl)) of
        None \<Rightarrow> (Inr None, st, c)
      | Some fuel_id \<Rightarrow>
      (case burn_ticks_for items fuel_id of
        Inl e \<Rightarrow> (Inl e, st, c)
      | Inr None \<Rightarrow> (Inr None, st, c)
      | Inr (Some ticks) \<Rightarrow>
          if ticks = 0 then (Inr None, st, c)
          else case ct_set c (fs_fuel sl) (snd (shrink (ct_get c (fs_fuel sl)) 1)) of
                 (Inl e, c) \<Rightarrow> (Inl e, st, c)
               | (Inr _, c) \<Rightarrow>
                   (Inr (Some ticks), st\<lparr>burn_ticks_remaining := ticks, burn_ticks_total := ticks\<rparr>, c)))"

definition finish ::
  "container \<Rightarrow> furnace_slots \<Rightarrow> smelt_plan \<Rightarrow> stack_size_table \<Rightarrow> nat option server_result \<times> container" where
  "finish c sl plan sizes =
     (let out = ct_get c (fs_output sl);
          limit = max_stack_size sizes (p_output plan);
          room = (if stack_is_empty out then limit
                  else if stack_item_id out = Some (p_output plan) then limit - stack_count out
                  else 0)
      in if room < p_count plan then (Inr None, c)
         else case (if stack_is_empty out then new_stack (p_output plan) (p_count plan)
                    else Inr (snd (grow_capped out (p_count plan) limit))) of
           Inl e \<Rightarrow> (Inl e, c)
         | Inr produced \<Rightarrow>
             (let (removed, i) = shrink (ct_get c (fs_input sl)) 1
              in if removed \<noteq> 1 then (Inr None, c)
                 else case ct_set c (fs_input sl) i of
                   (Inl e, c) \<Rightarrow> (Inl e, c)
                 | (Inr _, c) \<Rightarrow>
                     (case ct_set c (fs_output sl) produced of
                        (Inl e, c) \<Rightarrow> (Inl e, c)
                      | (Inr _, c) \<Rightarrow> (Inr (Some 1), mark_changed c (fs_output sl)))))"

definition valid_slots :: "container \<Rightarrow> furnace_slots \<Rightarrow> unit server_result" where
  "valid_slots c sl =
     (if \<not> are_distinct sl then Inl Invariant
      else if ct_len c \<le> max (max (fs_input sl) (fs_fuel sl)) (fs_output sl) then Inl Invariant
      else Inr ())"

text \<open>The tick of a furnace that has nothing to cook.\<close>

definition blocked_tick :: "furnace_state \<Rightarrow> tick_report \<times> furnace_state" where
  "blocked_tick st =
     (let was_lit = is_lit st;
          st = (if burn_ticks_remaining st > 0
                then st\<lparr>burn_ticks_remaining := burn_ticks_remaining st - 1\<rparr> else st);
          st = st\<lparr>cook_total := 0\<rparr>;
          st = (if burn_ticks_remaining st = 0 then st\<lparr>burn_ticks_total := 0\<rparr> else st);
          now_lit = burn_ticks_remaining st > 0
      in (default_report\<lparr>lit_after := now_lit, state_changed := (now_lit \<noteq> was_lit)\<rparr>, st))"

text \<open>The part of a lit tick after the fuel has been settled.\<close>

definition cook_tick ::
  "bool \<Rightarrow> tick_report \<Rightarrow> furnace_state \<Rightarrow> container \<Rightarrow> furnace_slots \<Rightarrow> smelt_plan \<Rightarrow> stack_size_table
    \<Rightarrow> tick_report server_result \<times> furnace_state \<times> container" where
  "cook_tick was_lit rep st c sl plan sizes =
     (let st = st\<lparr>cook_total := p_ticks plan, cook_progress := min (cook_progress st + 1) 4294967295\<rparr>;
          rep = rep\<lparr>cook_progressed := True\<rparr>;
          last = (\<lambda>rep st c.
            let st = (if burn_ticks_remaining st = 0 then st\<lparr>burn_ticks_total := 0\<rparr> else st)
            in (Inr (rep\<lparr>lit_after := is_lit st, state_changed := (is_lit st \<noteq> was_lit)\<rparr>), st, c))
      in if cook_progress st \<ge> p_ticks plan then
           (case finish c sl plan sizes of
              (Inl e, c) \<Rightarrow> (Inl e, st, c)
            | (Inr finished, c) \<Rightarrow>
                let (rep, st) =
                      (case finished of
                         None \<Rightarrow> (rep, st)
                       | Some n \<Rightarrow> (rep\<lparr>finished_items := n\<rparr>,
                                    st\<lparr>experience := f32_add (experience st) (p_experience plan)\<rparr>));
                    st = st\<lparr>cook_progress := 0,
                            cook_total := (if stack_is_empty (ct_get c (fs_input sl)) then 0 else p_ticks plan)\<rparr>
                in last rep st c)
         else last rep st c)"

definition furnace_tick ::
  "furnace_state \<Rightarrow> container \<Rightarrow> furnace_slots \<Rightarrow> smelting_registry \<Rightarrow> item_registry \<Rightarrow> stack_size_table
    \<Rightarrow> tick_report server_result \<times> furnace_state \<times> container" where
  "furnace_tick st c sl recipes items sizes =
     (case valid_slots c sl of
        Inl e \<Rightarrow> (Inl e, st, c)
      | Inr _ \<Rightarrow>
          let was_lit = is_lit st
          in case plan_smelt (ct_get c (fs_input sl)) (ct_get c (fs_output sl)) recipes sizes of
            None \<Rightarrow> (let (rep, st) = blocked_tick st in (Inr rep, st, c))
          | Some plan \<Rightarrow>
              let st = (if burn_ticks_remaining st > 0
                        then st\<lparr>burn_ticks_remaining := burn_ticks_remaining st - 1\<rparr> else st)
              in case (if burn_ticks_remaining st = 0 then take_fuel st c sl items else (Inr None, st, c)) of
                (Inl e, st, c) \<Rightarrow> (Inl e, st, c)
              | (Inr taken, st, c) \<Rightarrow>
                  let rep = default_report\<lparr>fuel_consumed := (taken \<noteq> None)\<rparr>
                  in if burn_ticks_remaining st = 0 then
                       (Inr (rep\<lparr>lit_after := False, state_changed := was_lit\<rparr>),
                        st\<lparr>cook_progress := 0, cook_total := 0, burn_ticks_total := 0\<rparr>, c)
                     else cook_tick was_lit rep st c sl plan sizes)"

definition ready_to_cook ::
  "container \<Rightarrow> furnace_slots \<Rightarrow> smelting_registry \<Rightarrow> stack_size_table \<Rightarrow> bool server_result" where
  "ready_to_cook c sl recipes sizes =
     (case valid_slots c sl of
        Inl e \<Rightarrow> Inl e
      | Inr _ \<Rightarrow> Inr (plan_smelt (ct_get c (fs_input sl)) (ct_get c (fs_output sl)) recipes sizes \<noteq> None))"

section \<open>What a tick changes\<close>

definition recipes_ok :: "smelting_registry \<Rightarrow> bool" where
  "recipes_ok rs \<longleftrightarrow> (\<forall>r \<in> set rs. 1 \<le> r_count r \<and> r_count r \<le> 64 \<and> 1 \<le> r_ticks r \<and> r_ticks r \<le> 400
     \<and> 0 < r_output r)"

definition count_in :: "container \<Rightarrow> nat \<Rightarrow> int" where
  "count_in c i = st_count (ct_get c i)"

lemma valid_slots_Inr:
  "valid_slots c sl = Inr () \<longleftrightarrow> fs_input sl \<noteq> fs_fuel sl \<and> fs_fuel sl \<noteq> fs_output sl \<and> fs_input sl \<noteq> fs_output sl
     \<and> fs_input sl < length (ct_slots c) \<and> fs_fuel sl < length (ct_slots c) \<and> fs_output sl < length (ct_slots c)"
  by (auto simp: valid_slots_def are_distinct_def ct_len_def)

text \<open>A write to one slot and the counts of all of them.\<close>

lemma ct_set_counts:
  assumes "ct_ok c" "wf_stack s" "i < length (ct_slots c)"
  shows "\<exists>c'. ct_set c i s = (Inr (), c') \<and> ct_ok c' \<and> length (ct_slots c') = length (ct_slots c)
    \<and> (\<forall>j. j \<noteq> i \<longrightarrow> ct_get c' j = ct_get c j)
    \<and> count_in c' i = st_count s \<and> st_item (ct_get c' i) = st_item s"
proof -
  obtain c' where c': "ct_set c i s = (Inr (), c')"
    using ct_set_spec [OF assms] by (metis prod.exhaust_sel)
  note cs = ct_set_spec [OF assms, unfolded c' snd_conv]
  then show ?thesis using c' assms(3) by (auto simp: ct_get_def count_in_def)
qed

lemma plan_smelt_Some:
  assumes "plan_smelt i out recipes sizes = Some plan" "wf_stack i" "wf_stack out"
  shows "i \<noteq> EMPTY \<and> (\<exists>r \<in> set recipes. recipe_for recipes (st_item i) = Some r \<and> r_input r = st_item i
    \<and> p_output plan = r_output r \<and> p_count plan = r_count r \<and> p_ticks plan = r_ticks r
    \<and> (out \<noteq> EMPTY \<longrightarrow> st_item out = r_output r \<and> st_count out + r_count r \<le> max_stack_size sizes (r_output r)))"
proof -
  obtain r where r: "stack_item_id i = Some (st_item i)" "recipe_for recipes (st_item i) = Some r"
    using assms(1) by (auto simp: plan_smelt_def stack_item_id_def split: option.splits if_splits)
  then have "i \<noteq> EMPTY" by (auto simp: stack_item_id_def stack_consts)
  moreover have "r \<in> set recipes" "r_input r = st_item i"
    using r(2) by (auto simp: recipe_for_def find_Some_iff)
  moreover have "out \<noteq> EMPTY \<longrightarrow> stack_item_id out = Some (r_output r)
      \<and> stack_count out + r_count r \<le> max_stack_size sizes (r_output r)"
    using assms(1) r wf_empty [OF assms(3)] by (auto simp: plan_smelt_def Let_def split: if_splits)
  moreover have "p_output plan = r_output r \<and> p_count plan = r_count r \<and> p_ticks plan = r_ticks r"
    using assms(1) r by (auto simp: plan_smelt_def Let_def split: if_splits)
  ultimately show ?thesis
    using r wf_count [OF assms(3)] by (auto simp: stack_item_id_def split: if_splits)
qed

text \<open>Taking fuel: one item less in the fuel slot exactly when a burn starts.\<close>

lemma take_fuel_spec:
  assumes "ct_ok c" "fs_fuel sl < length (ct_slots c)" "take_fuel st c sl items = (res, st', c')"
  shows "ct_ok c' \<and> length (ct_slots c') = length (ct_slots c)
    \<and> (\<forall>j. j \<noteq> fs_fuel sl \<longrightarrow> ct_get c' j = ct_get c j)
    \<and> (case res of
         Inl e \<Rightarrow> e = CorruptData \<and> c' = c \<and> st' = st
           \<and> \<not> is_ok (registry_name items (st_item (ct_get c (fs_fuel sl))))
       | Inr None \<Rightarrow> c' = c \<and> st' = st
       | Inr (Some n) \<Rightarrow> 0 < n \<and> st' = st\<lparr>burn_ticks_remaining := n, burn_ticks_total := n\<rparr>
           \<and> count_in c' (fs_fuel sl) = count_in c (fs_fuel sl) - 1
           \<and> burn_ticks_for items (st_item (ct_get c (fs_fuel sl))) = Inr (Some n))"
proof (cases "\<exists>n. stack_item_id (ct_get c (fs_fuel sl)) \<noteq> None \<and> 0 < n
    \<and> burn_ticks_for items (st_item (ct_get c (fs_fuel sl))) = Inr (Some n)")
  case False
  then have "c' = c \<and> st' = st \<and> (res = Inr None \<or> res = Inl CorruptData
      \<and> \<not> is_ok (registry_name items (st_item (ct_get c (fs_fuel sl)))))"
    using assms(3)
    by (auto simp: take_fuel_def stack_item_id_def burn_ticks_for_def
        split: option.splits sum.splits if_splits) (metis less_numeral_extra(3))+
  with assms(1) show ?thesis by auto
next
  case True
  then obtain n where n: "stack_item_id (ct_get c (fs_fuel sl)) \<noteq> None" "0 < n"
      "burn_ticks_for items (st_item (ct_get c (fs_fuel sl))) = Inr (Some n)" by blast
  let ?s = "ct_get c (fs_fuel sl)"
  have wf: "wf_stack ?s" by (rule ct_get_wf [OF assms(1)])
  have ne: "?s \<noteq> EMPTY" using n(1) by (auto simp: stack_item_id_def stack_consts)
  obtain k s' where sh: "shrink ?s 1 = (k, s')" by fastforce
  have s': "wf_stack s'" "st_count s' = st_count ?s - 1"
    using shrink_spec [OF wf sh] wf_nonempty [OF wf ne] by auto
  obtain c1 where c1: "ct_set c (fs_fuel sl) s' = (Inr (), c1)" and
    p: "ct_ok c1" "length (ct_slots c1) = length (ct_slots c)"
      "\<forall>j. j \<noteq> fs_fuel sl \<longrightarrow> ct_get c1 j = ct_get c j"
      "count_in c1 (fs_fuel sl) = st_count s'"
    using ct_set_counts [OF assms(1) s'(1) assms(2)] by blast
  have "take_fuel st c sl items = (Inr (Some n), st\<lparr>burn_ticks_remaining := n, burn_ticks_total := n\<rparr>, c1)"
  proof -
    have "stack_item_id ?s = Some (st_item ?s)" using n(1) by (auto simp: stack_item_id_def)
    then show ?thesis using n(2) by (simp add: take_fuel_def n(3) sh c1)
  qed
  then have "res = Inr (Some n)" "st' = st\<lparr>burn_ticks_remaining := n, burn_ticks_total := n\<rparr>" "c' = c1"
    using assms(3) by simp_all
  then show ?thesis using p s' n by (simp add: count_in_def)
qed

text \<open>Finishing an item: one input becomes the recipe's output.\<close>

lemma finish_spec:
  assumes ok: "ct_ok c" and sl: "fs_input sl \<noteq> fs_output sl" "fs_input sl < length (ct_slots c)"
      "fs_output sl < length (ct_slots c)"
    and t: "table_ok sizes" and pl: "plan_smelt (ct_get c (fs_input sl)) (ct_get c (fs_output sl)) recipes sizes = Some plan"
    and rs: "recipes_ok recipes" and r: "finish c sl plan sizes = (res, c')"
  shows "ct_ok c' \<and> length (ct_slots c') = length (ct_slots c)
    \<and> (\<forall>j. j \<noteq> fs_input sl \<longrightarrow> j \<noteq> fs_output sl \<longrightarrow> ct_get c' j = ct_get c j)
    \<and> (res = Inr None \<and> c' = c \<and> ct_get c (fs_output sl) = EMPTY \<and> max_stack_size sizes (p_output plan) < p_count plan
       \<or> res = Inr (Some 1) \<and> count_in c' (fs_input sl) = count_in c (fs_input sl) - 1
         \<and> count_in c' (fs_output sl) = count_in c (fs_output sl) + p_count plan
         \<and> count_in c' (fs_output sl) \<le> max_stack_size sizes (p_output plan)
         \<and> st_item (ct_get c' (fs_output sl)) = p_output plan)"
proof -
  let ?i = "ct_get c (fs_input sl)" and ?o = "ct_get c (fs_output sl)"
  let ?limit = "max_stack_size sizes (p_output plan)"
  have wf: "wf_stack ?i" "wf_stack ?o" using ct_get_wf [OF ok] by blast+
  obtain rec where rec: "rec \<in> set recipes" "p_output plan = r_output rec" "p_count plan = r_count rec"
      "?o \<noteq> EMPTY \<longrightarrow> st_item ?o = r_output rec \<and> st_count ?o + r_count rec \<le> max_stack_size sizes (r_output rec)"
      and ne: "?i \<noteq> EMPTY"
    using plan_smelt_Some [OF pl wf] by blast
  have n: "1 \<le> p_count plan" "p_count plan \<le> 64" "0 < p_output plan" using rs rec by (auto simp: recipes_ok_def)
  have lim: "1 \<le> ?limit" "?limit \<le> 64" using max_stack_size_range [OF t] by auto
  show ?thesis
  proof (cases "?o = EMPTY \<and> ?limit < p_count plan")
    case True
    then have "res = Inr None" "c' = c" using r by (simp_all add: finish_def)
    with True ok show ?thesis by simp
  next
    case False
    define produced where "produced = (if ?o = EMPTY then \<lparr>st_item = p_output plan, st_count = p_count plan, st_comps = []\<rparr>
      else snd (grow_capped ?o (p_count plan) ?limit))"
    have room: "\<not> (if stack_is_empty ?o then ?limit
        else if stack_item_id ?o = Some (p_output plan) then ?limit - stack_count ?o else 0) < p_count plan"
      using False rec wf_empty [OF wf(2)] wf_count [OF wf(2)] n by (auto simp: stack_item_id_def stack_consts)
    have mk: "(if stack_is_empty ?o then new_stack (p_output plan) (p_count plan)
        else Inr (snd (grow_capped ?o (p_count plan) ?limit))) = Inr produced"
      using n wf_empty [OF wf(2)] by (auto simp: produced_def new_stack_def stack_consts EMPTY_COMPONENTS_def)
    have most: "st_count ?o + p_count plan \<le> ?limit" using False rec by (cases "?o = EMPTY") auto
    have prod: "wf_stack produced \<and> st_count produced = st_count ?o + p_count plan \<and> st_item produced = p_output plan"
    proof (cases "?o = EMPTY")
      case True
      with n show ?thesis by (simp add: produced_def wf_stack_def)
    next
      case nE: False
      obtain left s' where g: "grow_capped ?o (p_count plan) ?limit = (left, s')" by fastforce
      have "left = 0"
        using g nE wf_empty [OF wf(2)] rec n lim by (auto simp: grow_capped_def Let_def stack_consts)
      with grow_spec [OF wf(2) g] n g nE rec show ?thesis by (simp add: produced_def)
    qed
    obtain k i' where sh: "shrink ?i 1 = (k, i')" by fastforce
    have i': "wf_stack i'" "st_count i' = st_count ?i - 1" "k = 1"
      using shrink_spec [OF wf(1) sh] wf_nonempty [OF wf(1) ne] by auto
    obtain c1 where c1: "ct_set c (fs_input sl) i' = (Inr (), c1)" and
      p1: "ct_ok c1" "length (ct_slots c1) = length (ct_slots c)"
        "\<forall>j. j \<noteq> fs_input sl \<longrightarrow> ct_get c1 j = ct_get c j"
        "count_in c1 (fs_input sl) = st_count i'"
      using ct_set_counts [OF ok i'(1) sl(2)] by blast
    have "fs_output sl < length (ct_slots c1)" using sl(3) p1(2) by simp
    with ct_set_counts [OF p1(1)] prod obtain c2 where c2: "ct_set c1 (fs_output sl) produced = (Inr (), c2)" and
      p2: "ct_ok c2" "length (ct_slots c2) = length (ct_slots c1)"
        "\<forall>j. j \<noteq> fs_output sl \<longrightarrow> ct_get c2 j = ct_get c1 j"
        "count_in c2 (fs_output sl) = st_count produced" "st_item (ct_get c2 (fs_output sl)) = st_item produced"
      by blast
    have "finish c sl plan sizes = (Inr (Some 1), mark_changed c2 (fs_output sl))"
      using room mk sh i'(3) c1 c2 by (simp add: finish_def Let_def)
    then have res: "res = Inr (Some 1)" "c' = mark_changed c2 (fs_output sl)" using r by simp_all
    have mk: "ct_slots (mark_changed c2 j) = ct_slots c2" for j by (simp add: mark_changed_def)
    then have "ct_get (mark_changed c2 j) k = ct_get c2 k" for j k by (simp add: ct_get_def)
    moreover have "ct_get c2 (fs_input sl) = ct_get c1 (fs_input sl)" using p2(3) sl(1) by simp
    moreover have "\<forall>j. j \<noteq> fs_input sl \<longrightarrow> j \<noteq> fs_output sl \<longrightarrow> ct_get c2 j = ct_get c j"
      using p1(3) p2(3) by simp
    ultimately show ?thesis
      using res p1 p2 prod i' mk most by (simp add: count_in_def ct_ok_def)
  qed
qed

text \<open>The container after a cooking step, and the burn counter it leaves alone.\<close>

lemma cook_tick_spec:
  assumes ok: "ct_ok c" and sl: "fs_input sl \<noteq> fs_output sl" "fs_input sl < length (ct_slots c)"
      "fs_output sl < length (ct_slots c)"
    and t: "table_ok sizes" and pl: "plan_smelt (ct_get c (fs_input sl)) (ct_get c (fs_output sl)) recipes sizes = Some plan"
    and rs: "recipes_ok recipes" and r: "cook_tick was_lit rep st c sl plan sizes = (res, st', c')"
    and rep: "finished_items rep = 0"
  shows "\<exists>rep'. res = Inr rep' \<and> ct_ok c' \<and> length (ct_slots c') = length (ct_slots c)
    \<and> (\<forall>j. j \<noteq> fs_input sl \<longrightarrow> j \<noteq> fs_output sl \<longrightarrow> ct_get c' j = ct_get c j)
    \<and> finished_items rep' \<le> 1 \<and> fuel_consumed rep' = fuel_consumed rep
    \<and> count_in c' (fs_input sl) = count_in c (fs_input sl) - int (finished_items rep')
    \<and> count_in c' (fs_output sl) = count_in c (fs_output sl) + int (finished_items rep') * p_count plan
    \<and> (finished_items rep' = 0 \<longrightarrow> c' = c)
    \<and> (finished_items rep' \<noteq> 0 \<longrightarrow> st_item (ct_get c' (fs_output sl)) = p_output plan
         \<and> count_in c' (fs_output sl) \<le> max_stack_size sizes (p_output plan))
    \<and> burn_ticks_remaining st' = burn_ticks_remaining st
    \<and> lit_after rep' = is_lit st'
    \<and> (finished_items rep' \<noteq> 0 \<longrightarrow> cook_progress st + 1 \<ge> p_ticks plan)"
proof (cases "min (cook_progress st + 1) 4294967295 \<ge> p_ticks plan")
  case False
  then have "res = Inr (rep\<lparr>cook_progressed := True, lit_after := is_lit st, state_changed := (is_lit st \<noteq> was_lit)\<rparr>)"
    "c' = c" "burn_ticks_remaining st' = burn_ticks_remaining st"
    using r by (auto simp: cook_tick_def Let_def is_lit_def)
  with ok rep show ?thesis by (simp add: is_lit_def)
next
  case True
  obtain fin c1 where f: "finish c sl plan sizes = (fin, c1)" by fastforce
  note fs = finish_spec [OF ok sl t pl rs f]
  consider "fin = Inr None" "c1 = c" | "fin = Inr (Some 1)" using fs by blast
  then show ?thesis
  proof cases
    case 1
    then have "\<exists>rep'. res = Inr rep' \<and> finished_items rep' = 0 \<and> fuel_consumed rep' = fuel_consumed rep
        \<and> lit_after rep' = is_lit st' \<and> c' = c \<and> burn_ticks_remaining st' = burn_ticks_remaining st"
      using r True f rep by (auto simp: cook_tick_def Let_def is_lit_def split: if_splits)
    with ok show ?thesis by auto
  next
    case 2
    have "cook_progress st + 1 \<ge> p_ticks plan" using True by simp
    moreover have "\<exists>rep'. res = Inr rep' \<and> finished_items rep' = 1 \<and> fuel_consumed rep' = fuel_consumed rep
        \<and> lit_after rep' = is_lit st' \<and> c' = c1 \<and> burn_ticks_remaining st' = burn_ticks_remaining st"
      using r True f 2 by (auto simp: cook_tick_def Let_def is_lit_def split: if_splits)
    ultimately show ?thesis using fs 2 by auto
  qed
qed

text \<open>The fuel part of a tick: the state and container the rest of the tick sees.\<close>

lemma furnace_tick_cases:
  assumes "furnace_tick st c sl recipes items sizes = (res, st', c')"
  obtains (invalid) "valid_slots c sl \<noteq> Inr ()" "res = Inl Invariant" "st' = st" "c' = c"
  | (blocked) rep where "valid_slots c sl = Inr ()"
      "plan_smelt (ct_get c (fs_input sl)) (ct_get c (fs_output sl)) recipes sizes = None"
      "blocked_tick st = (rep, st')" "res = Inr rep" "c' = c"
  | (fuelled) plan st1 taken st2 c2 where "valid_slots c sl = Inr ()"
      "plan_smelt (ct_get c (fs_input sl)) (ct_get c (fs_output sl)) recipes sizes = Some plan"
      "st1 = (if burn_ticks_remaining st > 0
              then st\<lparr>burn_ticks_remaining := burn_ticks_remaining st - 1\<rparr> else st)"
      "(if burn_ticks_remaining st1 = 0 then take_fuel st1 c sl items else (Inr None, st1, c)) = (taken, st2, c2)"
      "(case taken of
          Inl e \<Rightarrow> (res, st', c') = (Inl e, st2, c2)
        | Inr n \<Rightarrow>
            (if burn_ticks_remaining st2 = 0 then
               (res, st', c') = (Inr (default_report\<lparr>fuel_consumed := (n \<noteq> None), lit_after := False, state_changed := is_lit st\<rparr>),
                 st2\<lparr>cook_progress := 0, cook_total := 0, burn_ticks_total := 0\<rparr>, c2)
             else (res, st', c') = cook_tick (is_lit st) (default_report\<lparr>fuel_consumed := (n \<noteq> None)\<rparr>) st2 c2 sl plan sizes))"
proof (cases "valid_slots c sl")
  case (Inl e)
  then have "e = Invariant" by (auto simp: valid_slots_def split: if_splits)
  with invalid assms Inl show ?thesis by (simp add: furnace_tick_def)
next
  case (Inr u)
  then have v: "valid_slots c sl = Inr ()" by simp
  show ?thesis
  proof (cases "plan_smelt (ct_get c (fs_input sl)) (ct_get c (fs_output sl)) recipes sizes")
    case None
    obtain rep s where b: "blocked_tick st = (rep, s)" by fastforce
    with assms v None have "res = Inr rep" "st' = s" "c' = c" by (simp_all add: furnace_tick_def)
    with blocked [OF v None, of rep] b show ?thesis by simp
  next
    case (Some plan)
    define st1 where "st1 = (if burn_ticks_remaining st > 0
              then st\<lparr>burn_ticks_remaining := burn_ticks_remaining st - 1\<rparr> else st)"
    obtain taken st2 c2 where tf: "(if burn_ticks_remaining st1 = 0 then take_fuel st1 c sl items else (Inr None, st1, c))
        = (taken, st2, c2)" by (metis prod_cases3)
    show ?thesis
    proof (rule fuelled [OF v Some st1_def tf])
      show "case taken of
          Inl e \<Rightarrow> (res, st', c') = (Inl e, st2, c2)
        | Inr n \<Rightarrow>
            (if burn_ticks_remaining st2 = 0 then
               (res, st', c') = (Inr (default_report\<lparr>fuel_consumed := (n \<noteq> None), lit_after := False, state_changed := is_lit st\<rparr>),
                 st2\<lparr>cook_progress := 0, cook_total := 0, burn_ticks_total := 0\<rparr>, c2)
             else (res, st', c') = cook_tick (is_lit st) (default_report\<lparr>fuel_consumed := (n \<noteq> None)\<rparr>) st2 c2 sl plan sizes)"
        using assms unfolding furnace_tick_def v Some Let_def st1_def [symmetric] sum.case option.case tf prod.case
        by (auto split: sum.split if_splits)
    qed
  qed
qed

section \<open>The furnace's promises\<close>

text \<open>
  When a furnace has something to do, said without its code: a recipe takes the input's item,
  and the output slot is empty or holds the recipe's item with room for one more result.
\<close>

definition can_smelt :: "smelting_registry \<Rightarrow> stack_size_table \<Rightarrow> item_stack \<Rightarrow> item_stack \<Rightarrow> smelting_recipe \<Rightarrow> bool" where
  "can_smelt recipes sizes i out r \<longleftrightarrow> i \<noteq> EMPTY \<and> r \<in> set recipes \<and> r_input r = st_item i
     \<and> (out = EMPTY \<or> st_item out = r_output r \<and> st_count out + r_count r \<le> max_stack_size sizes (r_output r))"

lemma plan_smelt_can:
  assumes "plan_smelt i out recipes sizes = Some plan" "wf_stack i" "wf_stack out"
  shows "\<exists>r. can_smelt recipes sizes i out r \<and> p_output plan = r_output r \<and> p_count plan = r_count r"
  using plan_smelt_Some [OF assms] unfolding can_smelt_def by blast

definition tick_effect ::
  "container \<Rightarrow> container \<Rightarrow> furnace_slots \<Rightarrow> smelting_registry \<Rightarrow> stack_size_table \<Rightarrow> tick_report \<Rightarrow> bool" where
  "tick_effect c c' sl recipes sizes rep \<longleftrightarrow>
     ct_ok c' \<and> finished_items rep \<le> 1
     \<and> (\<forall>j. j \<noteq> fs_input sl \<longrightarrow> j \<noteq> fs_fuel sl \<longrightarrow> j \<noteq> fs_output sl \<longrightarrow> ct_get c' j = ct_get c j)
     \<and> count_in c' (fs_input sl) = count_in c (fs_input sl) - int (finished_items rep)
     \<and> count_in c' (fs_fuel sl) = count_in c (fs_fuel sl) - (if fuel_consumed rep then 1 else 0)
     \<and> (c' = c \<and> finished_items rep = 0 \<and> \<not> fuel_consumed rep
        \<or> (\<exists>r. can_smelt recipes sizes (ct_get c (fs_input sl)) (ct_get c (fs_output sl)) r
            \<and> (if finished_items rep = 0 then ct_get c' (fs_output sl) = ct_get c (fs_output sl)
               else st_item (ct_get c' (fs_output sl)) = r_output r
                 \<and> count_in c' (fs_output sl) = count_in c (fs_output sl) + int (finished_items rep) * r_count r
                 \<and> count_in c' (fs_output sl) \<le> max_stack_size sizes (r_output r))))"

lemma fuelled_effect:
  assumes ok: "ct_ok c" "table_ok sizes" "recipes_ok recipes" and v: "valid_slots c sl = Inr ()"
    and pl: "plan_smelt (ct_get c (fs_input sl)) (ct_get c (fs_output sl)) recipes sizes = Some plan"
    and tf: "(if b then take_fuel st1 c sl items else (Inr None, st1, c)) = (Inr n, st2, c2)"
    and res: "if burn_ticks_remaining st2 = 0 then
               (res, st', c') = (Inr (default_report\<lparr>fuel_consumed := (n \<noteq> None), lit_after := False, state_changed := w\<rparr>),
                 st2\<lparr>cook_progress := 0, cook_total := 0, burn_ticks_total := 0\<rparr>, c2)
             else (res, st', c') = cook_tick w' (default_report\<lparr>fuel_consumed := (n \<noteq> None)\<rparr>) st2 c2 sl plan sizes"
  shows "\<exists>rep. res = Inr rep \<and> tick_effect c c' sl recipes sizes rep \<and> (fuel_consumed rep \<longleftrightarrow> n \<noteq> None)
    \<and> burn_ticks_remaining st' = burn_ticks_remaining st2 \<and> lit_after rep = (burn_ticks_remaining st2 > 0)"
proof -
  note v = v [unfolded valid_slots_Inr]
  obtain q where q: "can_smelt recipes sizes (ct_get c (fs_input sl)) (ct_get c (fs_output sl)) q"
      "p_output plan = r_output q" "p_count plan = r_count q"
    using plan_smelt_can [OF pl] ct_get_wf [OF ok(1)] by blast
  have tfs: "ct_ok c2 \<and> length (ct_slots c2) = length (ct_slots c)
    \<and> (\<forall>j. j \<noteq> fs_fuel sl \<longrightarrow> ct_get c2 j = ct_get c j)
    \<and> count_in c2 (fs_fuel sl) = count_in c (fs_fuel sl) - (if n \<noteq> None then 1 else 0)"
  proof (cases b)
    case True
    with tf have "take_fuel st1 c sl items = (Inr n, st2, c2)" by simp
    from take_fuel_spec [OF ok(1) _ this] v show ?thesis by (auto split: option.splits)
  next
    case False
    with tf ok show ?thesis by auto
  qed
  show ?thesis
  proof (cases "burn_ticks_remaining st2 = 0")
    case True
    with res have "res = Inr (default_report\<lparr>fuel_consumed := (n \<noteq> None), lit_after := False, state_changed := w\<rparr>)"
      "c' = c2" "burn_ticks_remaining st' = 0" by simp_all
    with True tfs v q(1) show ?thesis by (auto simp: tick_effect_def default_report_def count_in_def)
  next
    case False
    with res have r: "cook_tick w' (default_report\<lparr>fuel_consumed := (n \<noteq> None)\<rparr>) st2 c2 sl plan sizes = (res, st', c')"
      by simp
    have same: "ct_get c2 (fs_input sl) = ct_get c (fs_input sl)" "ct_get c2 (fs_output sl) = ct_get c (fs_output sl)"
      using tfs v by simp_all
    obtain rep where "res = Inr rep" and ck: "ct_ok c'" "\<forall>j. j \<noteq> fs_input sl \<longrightarrow> j \<noteq> fs_output sl \<longrightarrow> ct_get c' j = ct_get c2 j"
        "finished_items rep \<le> 1" "fuel_consumed rep = (n \<noteq> None)"
        "count_in c' (fs_input sl) = count_in c2 (fs_input sl) - int (finished_items rep)"
        "count_in c' (fs_output sl) = count_in c2 (fs_output sl) + int (finished_items rep) * p_count plan"
        "finished_items rep \<noteq> 0 \<longrightarrow> st_item (ct_get c' (fs_output sl)) = p_output plan
          \<and> count_in c' (fs_output sl) \<le> max_stack_size sizes (p_output plan)"
        "finished_items rep = 0 \<longrightarrow> c' = c2"
        "burn_ticks_remaining st' = burn_ticks_remaining st2" "lit_after rep = is_lit st'"
      using cook_tick_spec [of c2 sl sizes recipes plan w' "default_report\<lparr>fuel_consumed := (n \<noteq> None)\<rparr>" st2 res st' c']
        tfs v ok(2,3) pl same r by (auto simp: default_report_def)
    moreover have "tick_effect c c' sl recipes sizes rep"
      using ck(1-6) tfs v same q ck(7,8) by (auto simp: tick_effect_def count_in_def)
    ultimately show ?thesis using False by (simp add: is_lit_def)
  qed
qed

lemma furnace_tick_effect:
  assumes ok: "ct_ok c" "table_ok sizes" "recipes_ok recipes"
    and r: "furnace_tick st c sl recipes items sizes = (res, st', c')"
  shows "case res of
      Inl e \<Rightarrow> c' = c \<and> (e = Invariant \<and> valid_slots c sl \<noteq> Inr ()
          \<or> e = CorruptData \<and> \<not> is_ok (registry_name items (st_item (ct_get c (fs_fuel sl)))))
    | Inr rep \<Rightarrow> tick_effect c c' sl recipes sizes rep"
  using r
proof (cases rule: furnace_tick_cases)
  case invalid
  then show ?thesis by simp
next
  case (blocked rep)
  then have "finished_items rep = 0" "\<not> fuel_consumed rep"
    by (auto simp: blocked_tick_def Let_def default_report_def)
  with blocked ok show ?thesis by (simp add: tick_effect_def)
next
  case (fuelled plan st1 taken st2 c2)
  show ?thesis
  proof (cases taken)
    case (Inr n)
    with fuelled have res: "if burn_ticks_remaining st2 = 0 then
               (res, st', c') = (Inr (default_report\<lparr>fuel_consumed := (n \<noteq> None), lit_after := False, state_changed := is_lit st\<rparr>),
                 st2\<lparr>cook_progress := 0, cook_total := 0, burn_ticks_total := 0\<rparr>, c2)
             else (res, st', c') = cook_tick (is_lit st) (default_report\<lparr>fuel_consumed := (n \<noteq> None)\<rparr>) st2 c2 sl plan sizes"
      by simp
    from fuelled_effect [OF ok fuelled(1,2) fuelled(4) [unfolded Inr] res] show ?thesis by auto
  next
    case (Inl e)
    with fuelled(4) have tk: "take_fuel st1 c sl items = (Inl e, st2, c2)" by (auto split: if_splits)
    have "fs_fuel sl < length (ct_slots c)" using fuelled(1) by (simp add: valid_slots_Inr)
    from take_fuel_spec [OF ok(1) this tk] fuelled(5) Inl show ?thesis by simp
  qed
qed

text \<open>The burn counter: one less on every tick that takes no fuel.\<close>

lemma furnace_tick_burn:
  assumes ok: "ct_ok c" "table_ok sizes" "recipes_ok recipes"
    and r: "furnace_tick st c sl recipes items sizes = (Inr rep, st', c')"
  shows "(fuel_consumed rep \<longrightarrow> burn_ticks_remaining st \<le> 1 \<and>
            burn_ticks_for items (st_item (ct_get c (fs_fuel sl))) = Inr (Some (burn_ticks_remaining st')))
    \<and> (\<not> fuel_consumed rep \<longrightarrow> burn_ticks_remaining st' = burn_ticks_remaining st - 1)
    \<and> lit_after rep = (burn_ticks_remaining st' > 0)"
  using r
proof (cases rule: furnace_tick_cases)
  case invalid
  then show ?thesis by simp
next
  case (blocked rep')
  then show ?thesis by (auto simp: blocked_tick_def Let_def default_report_def)
next
  case (fuelled plan st1 taken st2 c2)
  then obtain n where n: "taken = Inr n" by (cases taken) auto
  have res: "if burn_ticks_remaining st2 = 0 then
               (Inr rep, st', c') = (Inr (default_report\<lparr>fuel_consumed := (n \<noteq> None), lit_after := False, state_changed := is_lit st\<rparr>),
                 st2\<lparr>cook_progress := 0, cook_total := 0, burn_ticks_total := 0\<rparr>, c2)
             else (Inr rep, st', c') = cook_tick (is_lit st) (default_report\<lparr>fuel_consumed := (n \<noteq> None)\<rparr>) st2 c2 sl plan sizes"
    using fuelled(5) n by (auto split: if_splits)
  from fuelled_effect [OF ok fuelled(1,2) fuelled(4) [unfolded n] res]
  have e: "fuel_consumed rep \<longleftrightarrow> n \<noteq> None" "burn_ticks_remaining st' = burn_ticks_remaining st2"
    "lit_after rep = (burn_ticks_remaining st2 > 0)" by auto
  have st1: "burn_ticks_remaining st1 = burn_ticks_remaining st - 1" using fuelled(3) by simp
  show ?thesis
  proof (cases "burn_ticks_remaining st1 = 0")
    case True
    with fuelled(4) n have tk: "take_fuel st1 c sl items = (Inr n, st2, c2)" by simp
    have "fs_fuel sl < length (ct_slots c)" using fuelled(1) by (simp add: valid_slots_Inr)
    from take_fuel_spec [OF ok(1) this tk] e st1 True show ?thesis by (cases n) auto
  next
    case False
    with fuelled(4) n e st1 show ?thesis by auto
  qed
qed

text \<open>
  C13. A furnace tick makes and loses nothing. On success it finishes at most one item: the
  input slot loses exactly what was finished, the fuel slot loses one item exactly when the
  report says so, and the slots beside the three are untouched. Fuel is taken or an item
  finished only when a recipe takes the input's item and the output slot is empty or holds the
  recipe's item with room for another result; a finished item leaves the recipe's result added
  to the output, within the item's stack limit. A failed tick leaves the container alone; it
  fails only for impossible slots or for fuel that the item registry does not know. (An empty
  output slot takes fuel also for a recipe whose count exceeds the limit; nothing is finished
  then.)
\<close>

theorem furnace_conserves:
  assumes "ct_ok c" "table_ok sizes" "recipes_ok recipes"
    and "furnace_tick st c sl recipes items sizes = (res, st', c')"
  shows "case res of
      Inl e \<Rightarrow> c' = c \<and> (e = Invariant \<and> valid_slots c sl \<noteq> Inr ()
          \<or> e = CorruptData \<and> \<not> is_ok (registry_name items (st_item (ct_get c (fs_fuel sl)))))
    | Inr rep \<Rightarrow>
        ct_ok c' \<and> finished_items rep \<le> 1
        \<and> (\<forall>j. j \<noteq> fs_input sl \<longrightarrow> j \<noteq> fs_fuel sl \<longrightarrow> j \<noteq> fs_output sl \<longrightarrow> ct_get c' j = ct_get c j)
        \<and> st_count (ct_get c' (fs_input sl)) = st_count (ct_get c (fs_input sl)) - int (finished_items rep)
        \<and> st_count (ct_get c' (fs_fuel sl)) = st_count (ct_get c (fs_fuel sl)) - (if fuel_consumed rep then 1 else 0)
        \<and> (c' = c \<and> finished_items rep = 0 \<and> \<not> fuel_consumed rep
           \<or> (\<exists>r. can_smelt recipes sizes (ct_get c (fs_input sl)) (ct_get c (fs_output sl)) r
               \<and> (if finished_items rep = 0 then ct_get c' (fs_output sl) = ct_get c (fs_output sl)
                  else st_item (ct_get c' (fs_output sl)) = r_output r
                    \<and> st_count (ct_get c' (fs_output sl))
                        = st_count (ct_get c (fs_output sl)) + int (finished_items rep) * r_count r
                    \<and> st_count (ct_get c' (fs_output sl)) \<le> max_stack_size sizes (r_output r))))"
  using furnace_tick_effect [OF assms] unfolding tick_effect_def count_in_def .

text \<open>A furnace with one item to smelt and one coal, over a registry of three items.\<close>

definition demo_items :: item_registry where
  "demo_items =
     (let es = [\<lparr>entry_name = lit ''minecraft:air'', entry_block = None\<rparr>,
                \<lparr>entry_name = lit ''minecraft:coal'', entry_block = None\<rparr>,
                \<lparr>entry_name = lit ''minecraft:sand'', entry_block = None\<rparr>,
                \<lparr>entry_name = lit ''minecraft:glass'', entry_block = None\<rparr>]
      in \<lparr>by_name = name_index es, by_id = es\<rparr>)"

definition demo_recipes :: smelting_registry where
  "demo_recipes = [\<lparr>r_input = 2, r_output = 3, r_count = 1, r_ticks = 200, r_experience = 0x3DCCCCCD\<rparr>]"

definition demo_furnace :: container where
  "demo_furnace = \<lparr>ct_kind = Kind_Furnace,
     ct_slots = [\<lparr>st_item = 2, st_count = 1, st_comps = []\<rparr>, \<lparr>st_item = 1, st_count = 1, st_comps = []\<rparr>, EMPTY],
     ct_changed = {}\<rparr>"

lemma demo_burn: "burn_ticks_for demo_items 1 = Inr (Some 1600)"
  by (simp add: burn_ticks_for_def registry_name_def registry_entry_def demo_items_def Let_def
      FUEL_BURST_TICKS_def fuel_row_def lit_def)

lemma demo_furnace_ok: "ct_ok demo_furnace" "recipes_ok demo_recipes" "valid_slots demo_furnace CANONICAL = Inr ()"
  by (simp_all add: ct_ok_def demo_furnace_def wf_stack_def recipes_ok_def demo_recipes_def
      valid_slots_Inr CANONICAL_def)

lemma demo_plan:
  "plan_smelt (ct_get demo_furnace (fs_input CANONICAL)) (ct_get demo_furnace (fs_output CANONICAL)) demo_recipes empty_table
     = Some \<lparr>p_output = 3, p_count = 1, p_ticks = 200, p_experience = 0x3DCCCCCD\<rparr>"
  by (simp add: plan_smelt_def demo_furnace_def CANONICAL_def ct_get_def stack_item_id_def stack_consts
      recipe_for_def demo_recipes_def Let_def)

lemma demo_tick:
  "\<exists>rep st' c'. furnace_tick new_furnace demo_furnace CANONICAL demo_recipes demo_items empty_table = (Inr rep, st', c')
    \<and> fuel_consumed rep \<and> finished_items rep = 0"
proof -
  let ?f = "ct_get demo_furnace 1"
  have f: "stack_item_id ?f = Some 1" by (simp add: demo_furnace_def ct_get_def stack_item_id_def stack_consts)
  obtain k s' where sh: "shrink ?f 1 = (k, s')" by fastforce
  have wf: "wf_stack s'" using shrink_spec [OF ct_get_wf [OF demo_furnace_ok(1)] sh] by blast
  have "1 < length (ct_slots demo_furnace)" by (simp add: demo_furnace_def)
  from ct_set_counts [OF demo_furnace_ok(1) wf this] obtain c1 where
    c1: "ct_set demo_furnace 1 s' = (Inr (), c1)" by blast
  have tf: "take_fuel new_furnace demo_furnace CANONICAL demo_items
      = (Inr (Some 1600), new_furnace\<lparr>burn_ticks_remaining := 1600, burn_ticks_total := 1600\<rparr>, c1)"
    using f sh c1 demo_burn by (simp add: take_fuel_def CANONICAL_def)
  show ?thesis
    unfolding furnace_tick_def demo_furnace_ok(3) demo_plan
    using tf by (simp add: new_furnace_def Let_def cook_tick_def default_report_def)
qed

theorem furnace_conserves_witness:
  "\<exists>rep st' c'. furnace_tick new_furnace demo_furnace CANONICAL demo_recipes demo_items empty_table = (Inr rep, st', c')
    \<and> st_count (ct_get c' 1) = 0 \<and> st_count (ct_get c' 0) = 1"
proof -
  obtain rep st' c' where t: "furnace_tick new_furnace demo_furnace CANONICAL demo_recipes demo_items empty_table
      = (Inr rep, st', c')" "fuel_consumed rep" "finished_items rep = 0"
    using demo_tick by blast
  note e = furnace_conserves [OF demo_furnace_ok(1) table_ok_empty demo_furnace_ok(2) t(1)]
  have "st_count (ct_get c' (fs_fuel CANONICAL)) = st_count (ct_get demo_furnace (fs_fuel CANONICAL)) - 1"
    "st_count (ct_get c' (fs_input CANONICAL)) = st_count (ct_get demo_furnace (fs_input CANONICAL))"
    using e t(2,3) by simp_all
  with t show ?thesis by (simp add: CANONICAL_def demo_furnace_def ct_get_def)
qed

text \<open>Consecutive ticks; between two of them anything may happen to the container.\<close>

fun furnace_run ::
  "furnace_slots \<Rightarrow> smelting_registry \<Rightarrow> item_registry \<Rightarrow> stack_size_table \<Rightarrow> furnace_state \<Rightarrow> container list
    \<Rightarrow> (tick_report list \<times> furnace_state) option" where
  "furnace_run sl recipes items sizes st [] = Some ([], st)"
| "furnace_run sl recipes items sizes st (c # cs) =
     (case furnace_tick st c sl recipes items sizes of
        (Inl _, _, _) \<Rightarrow> None
      | (Inr rep, st', _) \<Rightarrow>
          map_option (\<lambda>(reps, st). (rep # reps, st)) (furnace_run sl recipes items sizes st' cs))"

lemma furnace_run_burn:
  assumes "table_ok sizes" "recipes_ok recipes"
  shows "\<forall>c \<in> set cs. ct_ok c \<Longrightarrow> furnace_run sl recipes items sizes st cs = Some (reps, st') \<Longrightarrow>
    length cs < burn_ticks_remaining st \<Longrightarrow>
    burn_ticks_remaining st' = burn_ticks_remaining st - length cs
    \<and> (\<forall>r \<in> set reps. lit_after r \<and> \<not> fuel_consumed r)"
proof (induction cs arbitrary: st reps)
  case (Cons c cs)
  obtain rep st1 c1 reps1 where t: "furnace_tick st c sl recipes items sizes = (Inr rep, st1, c1)"
      and r: "furnace_run sl recipes items sizes st1 cs = Some (reps1, st')" "reps = rep # reps1"
    using Cons.prems(2) by (auto split: sum.splits prod.splits)
  have "ct_ok c" using Cons.prems(1) by simp
  note b = furnace_tick_burn [OF this assms t]
  have nf: "\<not> fuel_consumed rep" using b Cons.prems(3) by auto
  then have rem: "burn_ticks_remaining st1 = burn_ticks_remaining st - 1" "lit_after rep"
    using b Cons.prems(3) by auto
  have "length cs < burn_ticks_remaining st1" using rem Cons.prems(3) by simp
  from Cons.IH [OF _ r(1) this] Cons.prems(1) rem nf r(2) show ?case by simp
qed simp

text \<open>
  C14. A fuel item that burns for D ticks lights the furnace for exactly D ticks: the tick
  that takes it is the first, on the following D - 1 ticks the furnace is lit and takes no
  fuel whatever happens to its slots in between (also while it is blocked), and the tick
  after those leaves it lit only if it took another fuel item.
\<close>

theorem fuel_item_lasts:
  assumes "table_ok sizes" "recipes_ok recipes" "ct_ok c" "\<forall>d \<in> set cs. ct_ok d" "ct_ok c2"
    and "furnace_tick st c sl recipes items sizes = (Inr rep, st1, c1)" "fuel_consumed rep"
    and "burn_ticks_for items (st_item (ct_get c (fs_fuel sl))) = Inr (Some D)"
    and "furnace_run sl recipes items sizes st1 cs = Some (reps, st2)" "length cs < D"
  shows "lit_after rep \<and> (\<forall>r \<in> set reps. lit_after r \<and> \<not> fuel_consumed r)
    \<and> (\<forall>rep' st3 c3. length cs = D - 1 \<and> furnace_tick st2 c2 sl recipes items sizes = (Inr rep', st3, c3)
          \<longrightarrow> (lit_after rep' \<longleftrightarrow> fuel_consumed rep'))"
proof -
  note b = furnace_tick_burn [OF assms(3,1,2,6)]
  have d: "burn_ticks_remaining st1 = D" using b assms(7,8) by simp
  have run: "burn_ticks_remaining st2 = D - length cs" "\<forall>r \<in> set reps. lit_after r \<and> \<not> fuel_consumed r"
    using furnace_run_burn [OF assms(1,2,4,9)] d assms(10) by simp_all
  have "lit_after rep' \<longleftrightarrow> fuel_consumed rep'"
    if l: "length cs = D - 1" and t: "furnace_tick st2 c2 sl recipes items sizes = (Inr rep', st3, c3)" for rep' st3 c3
  proof -
    note b2 = furnace_tick_burn [OF assms(5,1,2) t]
    have "0 < burn_ticks_remaining st3" if "fuel_consumed rep'"
    proof -
      have "burn_ticks_for items (st_item (ct_get c2 (fs_fuel sl))) = Inr (Some (burn_ticks_remaining st3))"
        using b2 that by blast
      then have "\<exists>f \<in> set FUEL_BURST_TICKS. fuel_ticks f = burn_ticks_remaining st3"
        by (auto simp: burn_ticks_for_def find_Some_iff split: sum.splits)
      then show ?thesis by (auto simp: FUEL_BURST_TICKS_def fuel_row_def)
    qed
    with b2 run(1) l assms(10) show ?thesis by auto
  qed
  with run(2) b d assms(10) show ?thesis by auto
qed

theorem fuel_item_lasts_witness:
  "\<exists>rep st' c'. furnace_tick new_furnace demo_furnace CANONICAL demo_recipes demo_items empty_table = (Inr rep, st', c')
    \<and> lit_after rep"
proof -
  obtain rep st' c' where t: "furnace_tick new_furnace demo_furnace CANONICAL demo_recipes demo_items empty_table
      = (Inr rep, st', c')" "fuel_consumed rep"
    using demo_tick by blast
  have "burn_ticks_for demo_items (st_item (ct_get demo_furnace (fs_fuel CANONICAL))) = Inr (Some 1600)"
    using demo_burn by (simp add: demo_furnace_def CANONICAL_def ct_get_def)
  from fuel_item_lasts [OF table_ok_empty demo_furnace_ok(2,1) _ demo_furnace_ok(1) t this, of "[]" "[]" st'] t
  show ?thesis by simp
qed

end
