(* ===== verification/AtomicFile.thy ===== *)
theory AtomicFile
  imports Strings
begin

text \<open>
  The atomic replacement of \<open>level.dat\<close> (\<open>write_atomic\<close>, \<open>stage\<close> and
  \<open>commit\<close> of \<open>persistence/src/save.rs\<close>) over the calls of \<open>std::fs\<close> it makes.
  Each call may fail, a write after any prefix of its bytes; a power loss may come between
  any two changes, and then what was never synced holds anything.
\<close>

section \<open>Files and directories\<close>

text \<open>
  A directory maps names to nodes. \<open>fs_dir\<close> is the directory the program sees;
  \<open>fs_disk\<close> lists the directories a power loss may leave: every one there has been since
  the directory was last synced, since renames and removals reach the disk in order but at
  any later time. The bytes of a node are only sure to survive once it has been synced.
\<close>

record file_node =
  fn_bytes :: bytes
  fn_synced :: bool

record file_system =
  fs_node :: "nat \<Rightarrow> file_node"
  fs_dir :: "rstring \<Rightarrow> nat option"
  fs_disk :: "(rstring \<Rightarrow> nat option) list"
  fs_fresh :: nat

definition contents :: "file_system \<Rightarrow> rstring \<Rightarrow> bytes option" where
  "contents fs p = map_option (\<lambda>n. fn_bytes (fs_node fs n)) (fs_dir fs p)"

definition set_dir :: "(rstring \<Rightarrow> nat option) \<Rightarrow> file_system \<Rightarrow> file_system" where
  "set_dir dir fs = fs\<lparr>fs_dir := dir, fs_disk := dir # fs_disk fs\<rparr>"

definition set_node :: "nat \<Rightarrow> file_node \<Rightarrow> file_system \<Rightarrow> file_system" where
  "set_node n x fs = fs\<lparr>fs_node := (fs_node fs)(n := x)\<rparr>"

definition create_file :: "rstring \<Rightarrow> file_system \<Rightarrow> file_system" where
  "create_file p fs =
     (case fs_dir fs p of
        Some n \<Rightarrow> set_node n \<lparr>fn_bytes = [], fn_synced = False\<rparr> fs
      | None \<Rightarrow>
          set_dir ((fs_dir fs)(p \<mapsto> fs_fresh fs))
            (set_node (fs_fresh fs) \<lparr>fn_bytes = [], fn_synced = False\<rparr> (fs\<lparr>fs_fresh := fs_fresh fs + 1\<rparr>)))"

definition append_file :: "rstring \<Rightarrow> bytes \<Rightarrow> file_system \<Rightarrow> file_system" where
  "append_file p bs fs =
     (case fs_dir fs p of
        None \<Rightarrow> fs
      | Some n \<Rightarrow> set_node n \<lparr>fn_bytes = fn_bytes (fs_node fs n) @ bs, fn_synced = False\<rparr> fs)"

definition sync_file :: "rstring \<Rightarrow> file_system \<Rightarrow> file_system" where
  "sync_file p fs =
     (case fs_dir fs p of None \<Rightarrow> fs | Some n \<Rightarrow> set_node n ((fs_node fs n)\<lparr>fn_synced := True\<rparr>) fs)"

definition rename_file :: "rstring \<Rightarrow> rstring \<Rightarrow> file_system \<Rightarrow> file_system" where
  "rename_file p q fs =
     (case fs_dir fs p of None \<Rightarrow> fs | Some n \<Rightarrow> set_dir ((fs_dir fs)(p := None, q \<mapsto> n)) fs)"

definition remove_file :: "rstring \<Rightarrow> file_system \<Rightarrow> file_system" where
  "remove_file p fs = set_dir ((fs_dir fs)(p := None)) fs"

definition sync_dir :: "file_system \<Rightarrow> file_system" where
  "sync_dir fs = fs\<lparr>fs_disk := [fs_dir fs]\<rparr>"

text \<open>A write appends byte by byte: what the file holds after each of them.\<close>

definition write_states :: "rstring \<Rightarrow> bytes \<Rightarrow> file_system \<Rightarrow> file_system list" where
  "write_states p bs fs = map (\<lambda>k. append_file p (take k bs) fs) [1..<Suc (length bs)]"

text \<open>What a power loss may leave.\<close>

definition power_loss :: "file_system \<Rightarrow> file_system \<Rightarrow> bool" where
  "power_loss fs fs' \<longleftrightarrow> fs_dir fs' \<in> set (fs_disk fs) \<and> fs_disk fs' = [fs_dir fs']
     \<and> fs_fresh fs' = fs_fresh fs
     \<and> (\<forall>n. fn_synced (fs_node fs' n) \<and> (fn_synced (fs_node fs n) \<longrightarrow> fs_node fs' n = fs_node fs n))"

section \<open>Calls of the operating system\<close>

text \<open>
  What the system will answer to the coming calls: success, or a failure after some of
  the call's changes (never after the last, which is the call itself). An exhausted list
  answers success. \<open>os_seen\<close> lists the file systems there have been, for the
  properties: a power loss can come at any of them.
\<close>

datatype os_answer =
    Succeeds
  | Fails nat

record os =
  os_files :: file_system
  os_answers :: "os_answer list"
  os_seen :: "file_system list"

definition passed :: "os_answer list \<Rightarrow> file_system list \<Rightarrow> file_system list" where
  "passed answers states =
     (case answers of Fails n # rest \<Rightarrow> take n (butlast states) | _ \<Rightarrow> states)"

definition succeeds :: "os_answer list \<Rightarrow> bool" where
  "succeeds answers = (case answers of Fails n # rest \<Rightarrow> False | _ \<Rightarrow> True)"

text \<open>A call that is impossible in the present state (a file is not there) fails as well.\<close>

definition os_call :: "bool \<Rightarrow> (file_system \<Rightarrow> file_system list) \<Rightarrow> os \<Rightarrow> bool \<times> os" where
  "os_call possible changes s =
     (let states = (if possible then passed (os_answers s) (changes (os_files s)) else [])
      in (possible \<and> succeeds (os_answers s),
          s\<lparr>os_files := last (os_files s # states), os_answers := drop 1 (os_answers s),
            os_seen := os_seen s @ states\<rparr>))"

text \<open>\<open>path.exists()\<close> answers no when the look-up itself fails.\<close>

definition file_exists :: "rstring \<Rightarrow> os \<Rightarrow> bool \<times> os" where
  "file_exists p s = os_call (fs_dir (os_files s) p \<noteq> None) (\<lambda>fs. []) s"

text \<open>\<open>fs::copy\<close> opens the source, creates the target and writes the bytes.\<close>

definition copy_file :: "rstring \<Rightarrow> rstring \<Rightarrow> os \<Rightarrow> bool \<times> os" where
  "copy_file p q s =
     os_call (fs_dir (os_files s) p \<noteq> None)
       (\<lambda>fs. let bs = the (contents fs p); fs = create_file q fs in fs # write_states q bs fs) s"

section \<open>The code\<close>

definition temp_path :: "rstring \<Rightarrow> rstring" where
  "temp_path path = path @ lit ''.tmp''"

definition backup_path :: "rstring \<Rightarrow> rstring" where
  "backup_path path = path @ lit ''_old''"

definition stage :: "rstring \<Rightarrow> bytes \<Rightarrow> os \<Rightarrow> unit server_result \<times> os" where
  "stage temp bs s =
     (case os_call True (\<lambda>fs. [create_file temp fs]) s of
        (False, s) \<Rightarrow> (Inl Operational, s)
      | (True, s) \<Rightarrow>
          (case os_call True (write_states temp bs) s of
             (False, s) \<Rightarrow> (Inl Operational, s)
           | (True, s) \<Rightarrow>
               (case os_call True (\<lambda>fs. [sync_file temp fs]) s of
                  (False, s) \<Rightarrow> (Inl Operational, s)
                | (True, s) \<Rightarrow> (Inr (), s))))"

text \<open>Copy the live file to the backup; the sync of the copy is best effort.\<close>

definition copy_backup :: "rstring \<Rightarrow> os \<Rightarrow> unit server_result \<times> os" where
  "copy_backup path s =
     (case copy_file path (backup_path path) s of
        (False, s) \<Rightarrow> (Inl Operational, s)
      | (True, s) \<Rightarrow>
          (case os_call (fs_dir (os_files s) (backup_path path) \<noteq> None) (\<lambda>fs. []) s of
             (False, s) \<Rightarrow> (Inr (), s)
           | (True, s) \<Rightarrow> (Inr (), snd (os_call True (\<lambda>fs. [sync_file (backup_path path) fs]) s))))"

definition commit :: "rstring \<Rightarrow> rstring \<Rightarrow> os \<Rightarrow> unit server_result \<times> os" where
  "commit temp path s =
     (case os_call (fs_dir (os_files s) temp \<noteq> None) (\<lambda>fs. [rename_file temp path fs]) s of
        (True, s) \<Rightarrow> (Inr (), s)
      | (False, s) \<Rightarrow>
          (Inl Operational,
           snd (os_call (fs_dir (os_files s) temp \<noteq> None) (\<lambda>fs. [remove_file temp fs]) s)))"

definition sync_directory :: "os \<Rightarrow> os" where
  "sync_directory s =
     (case os_call True (\<lambda>fs. []) s of
        (False, s) \<Rightarrow> s
      | (True, s) \<Rightarrow> snd (os_call True (\<lambda>fs. [sync_dir fs]) s))"

text \<open>
  The parent directory is made first; that changes none of the three names. The path
  always has one (\<open>level.dat\<close> in the world's directory).
\<close>

definition write_atomic :: "rstring \<Rightarrow> bytes \<Rightarrow> bool \<Rightarrow> os \<Rightarrow> unit server_result \<times> os" where
  "write_atomic path bs keep_backup s =
     (case os_call True (\<lambda>fs. []) s of
        (False, s) \<Rightarrow> (Inl Operational, s)
      | (True, s) \<Rightarrow>
          (case stage (temp_path path) bs s of
             (Inl e, s) \<Rightarrow> (Inl e, s)
           | (Inr u, s) \<Rightarrow>
               (case (if keep_backup then file_exists path s else (False, s)) of
                  (had, s) \<Rightarrow>
                    (case (if had then copy_backup path s else (Inr (), s)) of
                       (Inl e, s) \<Rightarrow> (Inl e, s)
                     | (Inr u, s) \<Rightarrow>
                         (case commit (temp_path path) path s of
                            (Inl e, s) \<Rightarrow> (Inl e, s)
                          | (Inr u, s) \<Rightarrow> (Inr (), sync_directory s))))))"

lemma paths_distinct [simp]:
  "temp_path path \<noteq> path" "backup_path path \<noteq> path" "temp_path path \<noteq> backup_path path"
  "path \<noteq> temp_path path" "path \<noteq> backup_path path" "backup_path path \<noteq> temp_path path"
  by (auto simp: temp_path_def backup_path_def lit_def)

end
