(* ===== verification/AtomicLaws.thy ===== *)
theory AtomicLaws
  imports AtomicFile
begin

text \<open>
  Replacing a file by \<open>write_atomic\<close>: whatever call fails and whenever the power does,
  the file is there with its complete old or its complete new contents.
\<close>

section \<open>What the disk is sure of\<close>

text \<open>The contents a power loss may leave under a name, while all that is named has been synced.\<close>

definition durable :: "file_system \<Rightarrow> rstring \<Rightarrow> bytes option set" where
  "durable fs p = (\<lambda>d. map_option (\<lambda>n. fn_bytes (fs_node fs n)) (d p)) ` set (fs_disk fs)"

definition live_nodes :: "rstring \<Rightarrow> file_system \<Rightarrow> nat set" where
  "live_nodes path fs = {n. \<exists>d \<in> set (fs_disk fs). d path = Some n}"

text \<open>
  No two names share a node; every node the live file may be after a power loss has been
  synced, and no other name leads to it, so that writing elsewhere cannot touch it.
\<close>

definition dir_ok :: "nat \<Rightarrow> (rstring \<Rightarrow> nat option) \<Rightarrow> bool" where
  "dir_ok fresh d \<longleftrightarrow> (\<forall>p n. d p = Some n \<longrightarrow> n < fresh) \<and> (\<forall>p q n. d p = Some n \<longrightarrow> d q = Some n \<longrightarrow> p = q)"

definition fs_ok :: "rstring \<Rightarrow> file_system \<Rightarrow> bool" where
  "fs_ok path fs \<longleftrightarrow> fs_dir fs \<in> set (fs_disk fs)
     \<and> (\<forall>d \<in> set (fs_disk fs). dir_ok (fs_fresh fs) d)
     \<and> (\<forall>n \<in> live_nodes path fs. fn_synced (fs_node fs n))
     \<and> (\<forall>p. \<forall>n \<in> live_nodes path fs. fs_dir fs p = Some n \<longrightarrow> p = path)"

lemma power_loss_durable:
  assumes "fs_ok path fs" "power_loss fs fs'"
  shows "contents fs' path \<in> durable fs path" "fs_ok path fs'"
proof -
  have "fs_node fs' n = fs_node fs n" if "fs_dir fs' path = Some n" for n
    using assms that by (auto simp: fs_ok_def power_loss_def live_nodes_def)
  then have "contents fs' path = map_option (\<lambda>n. fn_bytes (fs_node fs n)) (fs_dir fs' path)"
    by (cases "fs_dir fs' path") (simp_all add: contents_def)
  then show "contents fs' path \<in> durable fs path"
    using assms(2) by (simp add: durable_def power_loss_def)
  show "fs_ok path fs'"
    using assms by (auto simp: fs_ok_def power_loss_def live_nodes_def dir_ok_def)
qed

lemma contents_durable: "fs_ok path fs \<Longrightarrow> contents fs path \<in> durable fs path"
  by (auto simp: fs_ok_def durable_def contents_def)

section \<open>Before the rename\<close>

text \<open>The live file is the one it was, now and after any power loss.\<close>

definition untouched :: "rstring \<Rightarrow> file_system \<Rightarrow> file_system \<Rightarrow> bool" where
  "untouched path base fs \<longleftrightarrow> fs_ok path fs \<and> contents fs path = contents base path
     \<and> durable fs path = durable base path"

lemma untouched_refl: "fs_ok path fs \<Longrightarrow> untouched path fs fs"
  by (simp add: untouched_def)

lemma other_node:
  assumes "fs_ok path fs" "p \<noteq> path" "fs_dir fs p = Some n"
  shows "n \<notin> live_nodes path fs" "fs_dir fs path \<noteq> Some n"
  using assms by (auto simp: fs_ok_def dir_ok_def)

lemma fresh_node:
  assumes "fs_ok path fs"
  shows "fs_fresh fs \<notin> live_nodes path fs" "fs_dir fs p \<noteq> Some (fs_fresh fs)"
  using assms unfolding fs_ok_def dir_ok_def live_nodes_def by blast+

lemma set_node_untouched:
  assumes u: "untouched path base fs" and n: "n \<notin> live_nodes path fs"
  shows "untouched path base (set_node n x fs)"
proof -
  have ok: "fs_ok path fs" using u by (simp add: untouched_def)
  then have "fs_dir fs path \<noteq> Some n" using n by (auto simp: fs_ok_def live_nodes_def)
  then have c: "contents (set_node n x fs) path = contents fs path"
    by (cases "fs_dir fs path") (auto simp: contents_def set_node_def)
  have "d path \<noteq> Some n" if "d \<in> set (fs_disk fs)" for d using n that by (auto simp: live_nodes_def)
  then have d: "durable (set_node n x fs) path = durable fs path"
    unfolding durable_def by (intro image_cong) (auto simp: set_node_def map_option_case split: option.split)
  have "live_nodes path (set_node n x fs) = live_nodes path fs" by (simp add: live_nodes_def set_node_def)
  then have "fs_ok path (set_node n x fs)"
    using ok n by (auto simp: fs_ok_def set_node_def)
  then show ?thesis using u c d by (simp add: untouched_def)
qed

lemma set_dir_untouched:
  assumes u: "untouched path base fs" and d: "dir path = fs_dir fs path" "dir_ok (fs_fresh fs) dir"
    and n: "\<And>p n. n \<in> live_nodes path fs \<Longrightarrow> dir p = Some n \<Longrightarrow> p = path"
  shows "untouched path base (set_dir dir fs)"
proof -
  have ok: "fs_ok path fs" using u by (simp add: untouched_def)
  have m: "fs_dir fs \<in> set (fs_disk fs)" using ok by (simp add: fs_ok_def)
  have live: "live_nodes path (set_dir dir fs) = live_nodes path fs"
    using m d(1) by (auto simp: live_nodes_def set_dir_def)
  have "durable (set_dir dir fs) path = durable fs path"
    using m d(1) by (auto simp: durable_def set_dir_def)
  moreover have "contents (set_dir dir fs) path = contents fs path"
    by (simp add: contents_def set_dir_def d(1))
  moreover have "fs_ok path (set_dir dir fs)"
    using ok d(2) n by (auto simp: fs_ok_def live) (auto simp: set_dir_def)
  ultimately show ?thesis using u by (simp add: untouched_def)
qed

lemma fresh_untouched:
  assumes "untouched path base fs"
  shows "untouched path base (fs\<lparr>fs_fresh := fs_fresh fs + 1\<rparr>)"
  using assms
  by (auto simp: untouched_def fs_ok_def contents_def durable_def live_nodes_def dir_ok_def less_SucI)

lemma create_untouched:
  assumes u: "untouched path base fs" and p: "p \<noteq> path"
  shows "untouched path base (create_file p fs)"
proof (cases "fs_dir fs p")
  case (Some n)
  have "n \<notin> live_nodes path fs" using other_node(1) [OF _ p Some] u by (simp add: untouched_def)
  then show ?thesis using u Some by (simp add: create_file_def set_node_untouched)
next
  case None
  let ?n = "fs_fresh fs" and ?s = "fs\<lparr>fs_fresh := fs_fresh fs + 1\<rparr>"
  let ?t = "set_node ?n \<lparr>fn_bytes = [], fn_synced = False\<rparr> ?s"
  have ok: "fs_ok path fs" using u by (simp add: untouched_def)
  have live: "live_nodes path ?t = live_nodes path fs" by (simp add: live_nodes_def set_node_def)
  have "?n \<notin> live_nodes path ?s" using fresh_node(1) [OF ok] by (simp add: live_nodes_def)
  then have t: "untouched path base ?t" using set_node_untouched fresh_untouched u by blast
  have "untouched path base (set_dir ((fs_dir fs)(p \<mapsto> ?n)) ?t)"
  proof (rule set_dir_untouched [OF t])
    show "((fs_dir fs)(p \<mapsto> ?n)) path = fs_dir ?t path" using p by (simp add: set_node_def)
    show "dir_ok (fs_fresh ?t) ((fs_dir fs)(p \<mapsto> ?n))"
      using ok by (auto simp: fs_ok_def dir_ok_def set_node_def less_SucI split: if_splits)
    show "q = path" if "n \<in> live_nodes path ?t" "((fs_dir fs)(p \<mapsto> ?n)) q = Some n" for q n
      using that fresh_node(1) [OF ok] ok unfolding live by (auto simp: fs_ok_def split: if_splits)
  qed
  then show ?thesis using None by (simp add: create_file_def)
qed

lemma append_untouched: "untouched path base fs \<Longrightarrow> p \<noteq> path \<Longrightarrow> untouched path base (append_file p bs fs)"
  using other_node(1) [of path fs p]
  by (auto simp: append_file_def untouched_def [of _ _ fs] intro!: set_node_untouched split: option.split)

lemma sync_untouched: "untouched path base fs \<Longrightarrow> p \<noteq> path \<Longrightarrow> untouched path base (sync_file p fs)"
  using other_node(1) [of path fs p]
  by (auto simp: sync_file_def untouched_def [of _ _ fs] intro!: set_node_untouched split: option.split)

lemma remove_untouched: "untouched path base fs \<Longrightarrow> p \<noteq> path \<Longrightarrow> untouched path base (remove_file p fs)"
  unfolding remove_file_def
  by (rule set_dir_untouched)
    (auto simp: untouched_def fs_ok_def dir_ok_def split: if_splits)

text \<open>The staged file is there, complete and synced.\<close>

definition staged :: "rstring \<Rightarrow> file_system \<Rightarrow> bytes \<Rightarrow> file_system \<Rightarrow> bool" where
  "staged path base bs fs \<longleftrightarrow> untouched path base fs
     \<and> (\<exists>n. fs_dir fs (temp_path path) = Some n \<and> fs_node fs n = \<lparr>fn_bytes = bs, fn_synced = True\<rparr>)"

lemma same_name:
  assumes "fs_ok path fs" "fs_dir fs p = Some n" "fs_dir fs q = Some n"
  shows "p = q"
  using assms unfolding fs_ok_def dir_ok_def by blast

section \<open>After the rename\<close>

lemma fs_ok_set_dir:
  assumes ok: "fs_ok path fs" and dir: "dir_ok (fs_fresh fs) dir"
    and new: "\<And>n. dir path = Some n \<Longrightarrow> fn_synced (fs_node fs n)"
    and old: "\<And>p n. n \<in> live_nodes path fs \<Longrightarrow> dir p = Some n \<Longrightarrow> p = path"
  shows "fs_ok path (set_dir dir fs)"
proof -
  have live: "live_nodes path (set_dir dir fs) = {n. dir path = Some n} \<union> live_nodes path fs"
    by (auto simp: live_nodes_def set_dir_def)
  have f: "fs_dir (set_dir dir fs) = dir" "fs_disk (set_dir dir fs) = dir # fs_disk fs"
    "fs_node (set_dir dir fs) = fs_node fs" "fs_fresh (set_dir dir fs) = fs_fresh fs"
    by (simp_all add: set_dir_def)
  have "p = path" if "dir path = Some n" "dir p = Some n" for p n
    using dir that unfolding dir_ok_def by blast
  then have "\<forall>p. \<forall>n \<in> {n. dir path = Some n} \<union> live_nodes path fs. dir p = Some n \<longrightarrow> p = path"
    using old by blast
  moreover have "\<forall>n \<in> {n. dir path = Some n} \<union> live_nodes path fs. fn_synced (fs_node fs n)"
    using ok new unfolding fs_ok_def by blast
  moreover have "\<forall>d \<in> set (fs_disk fs). dir_ok (fs_fresh fs) d" using ok unfolding fs_ok_def by blast
  ultimately show ?thesis using dir unfolding fs_ok_def live f by simp
qed

definition replaced :: "rstring \<Rightarrow> file_system \<Rightarrow> bytes \<Rightarrow> file_system \<Rightarrow> bool" where
  "replaced path base bs fs \<longleftrightarrow> fs_ok path fs \<and> contents fs path = Some bs
     \<and> durable fs path \<subseteq> insert (Some bs) (durable base path) \<and> fs_dir fs (temp_path path) = None"

lemma rename_replaced:
  assumes "staged path base bs fs"
  shows "replaced path base bs (rename_file (temp_path path) path fs)"
proof -
  let ?t = "temp_path path"
  obtain n where u: "untouched path base fs" and n: "fs_dir fs ?t = Some n"
    and x: "fs_node fs n = \<lparr>fn_bytes = bs, fn_synced = True\<rparr>"
    using assms by (auto simp: staged_def)
  have ok: "fs_ok path fs" using u by (simp add: untouched_def)
  let ?dir = "(fs_dir fs)(?t := None, path \<mapsto> n)"
  have e: "rename_file ?t path fs = set_dir ?dir fs" by (simp add: rename_file_def n)
  have in_dir: "dir_ok (fs_fresh fs) (fs_dir fs)" using ok by (simp add: fs_ok_def)
  have dir: "dir_ok (fs_fresh fs) ?dir"
  proof -
    have "r = ?t" if "fs_dir fs r = Some n" for r using same_name [OF ok that n] .
    then show ?thesis using in_dir n by (auto simp: dir_ok_def)
  qed
  have "fs_ok path (set_dir ?dir fs)"
  proof (rule fs_ok_set_dir [OF ok dir])
    show "fn_synced (fs_node fs m)" if "?dir path = Some m" for m using that x by simp
    show "p = path" if "m \<in> live_nodes path fs" "?dir p = Some m" for p m
      using that ok by (auto simp: fs_ok_def split: if_splits)
  qed
  moreover have "durable (set_dir ?dir fs) path = insert (Some bs) (durable fs path)"
    by (simp add: durable_def set_dir_def x)
  moreover have "contents (set_dir ?dir fs) path = Some bs" by (simp add: contents_def set_dir_def x)
  ultimately show ?thesis
    using u by (simp add: e replaced_def untouched_def) (simp add: set_dir_def)
qed

lemma sync_dir_replaced:
  assumes "replaced path base bs fs"
  shows "replaced path base bs (sync_dir fs)" "durable (sync_dir fs) path = {Some bs}"
proof -
  have ok: "fs_ok path fs" and c: "contents fs path = Some bs" using assms by (auto simp: replaced_def)
  show d: "durable (sync_dir fs) path = {Some bs}" using c by (simp add: durable_def sync_dir_def contents_def)
  have f: "fs_dir (sync_dir fs) = fs_dir fs" "fs_disk (sync_dir fs) = [fs_dir fs]"
    "fs_node (sync_dir fs) = fs_node fs" "fs_fresh (sync_dir fs) = fs_fresh fs"
    by (simp_all add: sync_dir_def)
  have live: "live_nodes path (sync_dir fs) = {n. fs_dir fs path = Some n}" by (simp add: live_nodes_def f)
  have "p = path" if "fs_dir fs path = Some n" "fs_dir fs p = Some n" for p n
    using same_name [OF ok that(2,1)] .
  moreover have "fn_synced (fs_node fs n)" if "fs_dir fs path = Some n" for n
    using ok that unfolding fs_ok_def live_nodes_def by blast
  moreover have "dir_ok (fs_fresh fs) (fs_dir fs)" using ok unfolding fs_ok_def by blast
  ultimately have "fs_ok path (sync_dir fs)" unfolding fs_ok_def live f by simp
  moreover have "contents (sync_dir fs) path = contents fs path" by (simp add: contents_def f)
  ultimately show "replaced path base bs (sync_dir fs)"
    using assms unfolding replaced_def d f by auto
qed

section \<open>Calls that keep a property\<close>

text \<open>A run of calls that a property of the file system holds all through.\<close>

definition passes :: "(file_system \<Rightarrow> bool) \<Rightarrow> os \<Rightarrow> os \<Rightarrow> bool" where
  "passes P s s' \<longleftrightarrow> P (os_files s') \<and> (\<exists>new. os_seen s' = os_seen s @ new \<and> list_all P new)"

lemma passes_refl [simp]: "passes P s s \<longleftrightarrow> P (os_files s)"
  by (simp add: passes_def)

lemma passes_trans: "passes P s t \<Longrightarrow> passes P t u \<Longrightarrow> passes P s u"
  by (auto simp: passes_def)

lemma passes_mono: "passes P s t \<Longrightarrow> (\<And>fs. P fs \<Longrightarrow> Q fs) \<Longrightarrow> passes Q s t"
  by (auto simp: passes_def list_all_iff)

lemma passesD: "passes P s t \<Longrightarrow> P (os_files t)"
  by (simp add: passes_def)

lemma passed_subset: "set (passed answers states) \<subseteq> set states"
  by (auto simp: passed_def split: list.splits os_answer.splits dest: in_set_takeD in_set_butlastD)

lemma os_call_passes:
  assumes "os_call possible changes s = (ok, s')" "P (os_files s)"
    and "possible \<Longrightarrow> list_all P (changes (os_files s))"
  shows "passes P s s'"
proof -
  let ?new = "if possible then passed (os_answers s) (changes (os_files s)) else []"
  have new: "list_all P ?new"
    using assms(3) passed_subset [of "os_answers s" "changes (os_files s)"] by (auto simp: list_all_iff)
  have s': "os_files s' = last (os_files s # ?new)" "os_seen s' = os_seen s @ ?new"
    using assms(1) by (auto simp: os_call_def Let_def)
  have "P (last (os_files s # ?new))"
    using new assms(2) last_in_set [of "os_files s # ?new"] by (auto simp: list_all_iff)
  then show ?thesis using new s' by (auto simp: passes_def)
qed

lemma os_call_done:
  assumes "os_call possible changes s = (True, s')"
  shows "possible" "os_files s' = last (os_files s # changes (os_files s))"
  using assms by (auto simp: os_call_def passed_def succeeds_def Let_def split: list.splits os_answer.splits)

lemma os_call_failed:
  assumes "os_call possible (\<lambda>fs. [f fs]) s = (False, s')"
  shows "os_files s' = os_files s" "os_seen s' = os_seen s"
  using assms by (auto simp: os_call_def passed_def succeeds_def Let_def split: list.splits os_answer.splits)

lemma os_call_quiet:
  "os_call possible (\<lambda>fs. []) s = (ok, s') \<Longrightarrow> os_files s' = os_files s \<and> os_seen s' = os_seen s"
  by (auto simp: os_call_def passed_def Let_def split: list.splits os_answer.splits)

text \<open>A property that holds whatever is done to the files outside a set.\<close>

locale kept_outside =
  fixes P :: "file_system \<Rightarrow> bool" and fixed :: "rstring set"
  assumes create: "P fs \<Longrightarrow> p \<notin> fixed \<Longrightarrow> P (create_file p fs)"
    and append: "P fs \<Longrightarrow> p \<notin> fixed \<Longrightarrow> P (append_file p bs fs)"
    and sync: "P fs \<Longrightarrow> p \<notin> fixed \<Longrightarrow> P (sync_file p fs)"
    and remove: "P fs \<Longrightarrow> p \<notin> fixed \<Longrightarrow> P (remove_file p fs)"
begin

lemma write_states: "P fs \<Longrightarrow> p \<notin> fixed \<Longrightarrow> list_all P (write_states p bs fs)"
  by (auto simp: write_states_def list_all_iff append)

lemma stage_passes:
  assumes "stage temp bs s = (res, s')" "P (os_files s)" "temp \<notin> fixed"
  shows "passes P s s'"
proof -
  obtain a s1 where c1: "os_call True (\<lambda>fs. [create_file temp fs]) s = (a, s1)" by fastforce
  obtain b s2 where c2: "os_call True (write_states temp bs) s1 = (b, s2)" by fastforce
  obtain c s3 where c3: "os_call True (\<lambda>fs. [sync_file temp fs]) s2 = (c, s3)" by fastforce
  have p1: "passes P s s1" using os_call_passes [OF c1] assms(2,3) create by simp
  have p2: "passes P s1 s2" using os_call_passes [OF c2] passesD [OF p1] assms(3) write_states by simp
  have p3: "passes P s2 s3" using os_call_passes [OF c3] passesD [OF p2] assms(3) sync by simp
  have "s' = s1 \<or> s' = s2 \<or> s' = s3"
    using assms(1) by (cases a; cases b; cases c) (auto simp: stage_def c1 c2 c3)
  then show ?thesis using p1 passes_trans [OF p1 p2] passes_trans [OF passes_trans [OF p1 p2] p3] by blast
qed

lemma copy_passes:
  assumes "copy_file p q s = (ok, s')" "P (os_files s)" "q \<notin> fixed"
  shows "passes P s s'"
  using assms(1) unfolding copy_file_def
  by (rule os_call_passes) (use assms(2,3) create write_states in \<open>auto simp: Let_def\<close>)

lemma copy_backup_passes:
  assumes "copy_backup path s = (res, s')" "P (os_files s)" "backup_path path \<notin> fixed"
  shows "passes P s s'"
proof -
  let ?b = "backup_path path"
  obtain a s1 where c1: "copy_file path ?b s = (a, s1)" by fastforce
  obtain b s2 where c2: "os_call (fs_dir (os_files s1) ?b \<noteq> None) (\<lambda>fs. []) s1 = (b, s2)" by fastforce
  note c2' = c2 [simplified]
  obtain c s3 where c3: "os_call True (\<lambda>fs. [sync_file ?b fs]) s2 = (c, s3)" by fastforce
  have p1: "passes P s s1" using copy_passes [OF c1] assms(2,3) by blast
  have p2: "passes P s1 s2" using os_call_passes [OF c2] passesD [OF p1] by simp
  have p3: "passes P s2 s3" using os_call_passes [OF c3] passesD [OF p2] assms(3) sync by simp
  have "s' = s1 \<or> s' = s2 \<or> s' = s3"
    using assms(1) by (cases a; cases b) (auto simp: copy_backup_def c1 c2' c3)
  then show ?thesis using p1 passes_trans [OF p1 p2] passes_trans [OF passes_trans [OF p1 p2] p3] by blast
qed

end

section \<open>The two phases keep what they must\<close>

interpretation before: kept_outside "untouched path base" "{path}" for path base
  by unfold_locales (simp_all add: create_untouched append_untouched sync_untouched remove_untouched)

lemma other_names:
  assumes "p \<noteq> q"
  shows "fs_dir (create_file p fs) q = fs_dir fs q" "fs_dir (append_file p bs fs) q = fs_dir fs q"
    "fs_dir (sync_file p fs) q = fs_dir fs q" "fs_dir (remove_file p fs) q = fs_dir fs q"
  using assms
  by (auto simp: create_file_def append_file_def sync_file_def remove_file_def set_dir_def set_node_def
      split: option.split)

lemma other_bytes:
  assumes "fs_ok path fs" "p \<noteq> q" "fs_dir fs q = Some n"
  shows "fs_node (create_file p fs) n = fs_node fs n" "fs_node (append_file p bs fs) n = fs_node fs n"
    "fs_node (sync_file p fs) n = fs_node fs n" "fs_node (remove_file p fs) n = fs_node fs n"
proof -
  have "fs_dir fs p \<noteq> Some n" using same_name [OF assms(1) _ assms(3), of p] assms(2) by blast
  moreover have "n \<noteq> fs_fresh fs" using fresh_node(2) [OF assms(1), of q] assms(3) by auto
  ultimately show "fs_node (create_file p fs) n = fs_node fs n" "fs_node (append_file p bs fs) n = fs_node fs n"
    "fs_node (sync_file p fs) n = fs_node fs n" "fs_node (remove_file p fs) n = fs_node fs n"
    by (auto simp: create_file_def append_file_def sync_file_def remove_file_def set_dir_def set_node_def
        split: option.split)
qed

interpretation ready: kept_outside "staged path base bs" "{path, temp_path path}" for path base bs
proof unfold_locales
  fix fs p cs
  assume st: "staged path base bs fs" and p: "p \<notin> {path, temp_path path}"
  obtain n where u: "untouched path base fs" and n: "fs_dir fs (temp_path path) = Some n"
    "fs_node fs n = \<lparr>fn_bytes = bs, fn_synced = True\<rparr>"
    using st unfolding staged_def by blast
  have ok: "fs_ok path fs" using u by (simp add: untouched_def)
  have ne: "p \<noteq> temp_path path" "p \<notin> {path}" using p by simp_all
  note same = other_names [OF ne(1)] other_bytes [OF ok ne(1) n(1)]
  show "staged path base bs (create_file p fs)"
    unfolding staged_def same n(1) using before.create [OF u ne(2)] same n(2) by simp
  show "staged path base bs (append_file p cs fs)"
    unfolding staged_def same n(1) using before.append [OF u ne(2)] same n(2) by simp
  show "staged path base bs (sync_file p fs)"
    unfolding staged_def same n(1) using before.sync [OF u ne(2)] same n(2) by simp
  show "staged path base bs (remove_file p fs)"
    unfolding staged_def same n(1) using before.remove [OF u ne(2)] same n(2) by simp
qed

lemma created:
  obtains n where "fs_dir (create_file p fs) p = Some n"
    "fs_node (create_file p fs) n = \<lparr>fn_bytes = [], fn_synced = False\<rparr>"
  by (cases "fs_dir fs p") (auto simp: create_file_def set_dir_def set_node_def)

lemma written:
  assumes "fs_dir fs p = Some n"
  shows "fs_dir (last (fs # write_states p bs fs)) p = Some n"
    and "fn_bytes (fs_node (last (fs # write_states p bs fs)) n) = fn_bytes (fs_node fs n) @ bs"
proof -
  have "last (fs # write_states p bs fs) = (if bs = [] then fs else append_file p bs fs)"
    by (cases bs) (auto simp: write_states_def last_map)
  then show "fs_dir (last (fs # write_states p bs fs)) p = Some n"
    "fn_bytes (fs_node (last (fs # write_states p bs fs)) n) = fn_bytes (fs_node fs n) @ bs"
    using assms by (auto simp: append_file_def set_node_def)
qed

lemma stage_done:
  assumes e: "stage (temp_path path) bs s = (Inr u, s')" and u: "untouched path base (os_files s)"
  shows "staged path base bs (os_files s')"
proof -
  let ?t = "temp_path path"
  obtain s1 s2 where c1: "os_call True (\<lambda>fs. [create_file ?t fs]) s = (True, s1)"
    and c2: "os_call True (write_states ?t bs) s1 = (True, s2)"
    and c3: "os_call True (\<lambda>fs. [sync_file ?t fs]) s2 = (True, s')"
    using e by (auto simp: stage_def split: prod.splits bool.splits)
  obtain n where n1: "fs_dir (os_files s1) ?t = Some n"
    "fs_node (os_files s1) n = \<lparr>fn_bytes = [], fn_synced = False\<rparr>"
    using os_call_done(2) [OF c1] created [of ?t "os_files s"] by auto
  have n2: "fs_dir (os_files s2) ?t = Some n" "fn_bytes (fs_node (os_files s2) n) = bs"
    using written [OF n1(1), of bs] n1(2) by (simp_all add: os_call_done(2) [OF c2] del: last.simps)
  have "fs_dir (os_files s') ?t = Some n" "fs_node (os_files s') n = \<lparr>fn_bytes = bs, fn_synced = True\<rparr>"
    using n2 by (simp_all add: os_call_done(2) [OF c3] sync_file_def set_node_def)
  moreover have "passes (untouched path base) s s'" using before.stage_passes [OF e u] by simp
  ultimately show ?thesis using passesD by (auto simp: staged_def)
qed

section \<open>The whole replacement\<close>

text \<open>What a power loss at some moment may leave under a name.\<close>

definition after_loss :: "file_system \<Rightarrow> rstring \<Rightarrow> bytes option set" where
  "after_loss fs p = {contents fs' p |fs'. power_loss fs fs'}"

lemma after_loss_durable:
  assumes "fs_ok path fs"
  shows "after_loss fs path = durable fs path"
proof (intro equalityI subsetI)
  fix c assume "c \<in> after_loss fs path"
  then show "c \<in> durable fs path" using power_loss_durable(1) [OF assms] by (auto simp: after_loss_def)
next
  fix c assume "c \<in> durable fs path"
  then obtain d where d: "d \<in> set (fs_disk fs)" "c = map_option (\<lambda>n. fn_bytes (fs_node fs n)) (d path)"
    by (auto simp: durable_def)
  let ?fs = "fs\<lparr>fs_dir := d, fs_disk := [d], fs_node := \<lambda>n. (fs_node fs n)\<lparr>fn_synced := True\<rparr>\<rparr>"
  have "power_loss fs ?fs" using d(1) by (simp add: power_loss_def)
  moreover have "contents ?fs path = c" by (simp add: contents_def d(2))
  ultimately show "c \<in> after_loss fs path" unfolding after_loss_def by blast
qed

lemma commit_cases:
  assumes e: "commit (temp_path path) path s = (res, s')" and st: "staged path base bs (os_files s)"
  shows "(res = Inr () \<and> passes (replaced path base bs) s s')
    \<or> (res = Inl Operational \<and> passes (untouched path base) s s')"
proof -
  let ?t = "temp_path path"
  have u: "untouched path base (os_files s)" and t: "fs_dir (os_files s) ?t \<noteq> None"
    using st by (auto simp: staged_def)
  obtain a s1 where c1: "os_call (fs_dir (os_files s) ?t \<noteq> None) (\<lambda>fs. [rename_file ?t path fs]) s = (a, s1)"
    by fastforce
  obtain b s2 where c2: "os_call (fs_dir (os_files s1) ?t \<noteq> None) (\<lambda>fs. [remove_file ?t fs]) s1 = (b, s2)"
    by fastforce
  show ?thesis
  proof (cases a)
    case True
    have "os_seen s1 = os_seen s @ [rename_file ?t path (os_files s)]"
      using c1 t True by (auto simp: os_call_def passed_def succeeds_def split: list.splits os_answer.splits)
    moreover have "os_files s1 = rename_file ?t path (os_files s)"
      using os_call_done(2) c1 True by fastforce
    ultimately have "passes (replaced path base bs) s s1"
      using rename_replaced [OF st] by (simp add: passes_def)
    then show ?thesis using e True by (simp add: commit_def c1 [simplified])
  next
    case False
    have p: "passes (untouched path base) s s1"
      using os_call_failed [of _ "rename_file ?t path" s s1] c1 False u by (auto simp: passes_def)
    have "passes (untouched path base) s1 s2"
      using os_call_passes [OF c2] passesD [OF p] before.remove by simp
    then have "passes (untouched path base) s s2" using passes_trans p by blast
    then show ?thesis using e False by (simp add: commit_def c1 [simplified] c2 [simplified])
  qed
qed

lemma sync_directory_passes:
  assumes "replaced path base bs (os_files s)"
  shows "passes (replaced path base bs) s (sync_directory s)"
proof -
  obtain a s1 where c1: "os_call True (\<lambda>fs. []) s = (a, s1)" by fastforce
  obtain b s2 where c2: "os_call True (\<lambda>fs. [sync_dir fs]) s1 = (b, s2)" by fastforce
  have p1: "passes (replaced path base bs) s s1" using os_call_passes [OF c1] assms by simp
  have p2: "passes (replaced path base bs) s1 s2"
    using os_call_passes [OF c2] passesD [OF p1] sync_dir_replaced(1) by simp
  show ?thesis using p1 passes_trans [OF p1 p2] by (cases a) (simp_all add: sync_directory_def c1 c2)
qed

text \<open>The replacement fails before the rename, or stages, renames and syncs.\<close>

lemma write_atomic_cases:
  assumes e: "write_atomic path bs keep_backup s = (res, s')" and ok: "fs_ok path (os_files s)"
  shows "(res = Inl Operational \<and> passes (untouched path (os_files s)) s s')
    \<or> (res = Inr () \<and> (\<exists>t. passes (untouched path (os_files s)) s t \<and> passes (replaced path (os_files s) bs) t s'))"
proof -
  let ?t = "temp_path path" and ?base = "os_files s"
  let ?P = "untouched path ?base"
  obtain a s1 where c1: "os_call True (\<lambda>fs. []) s = (a, s1)" by fastforce
  obtain r2 s2 where c2: "stage ?t bs s1 = (r2, s2)" by fastforce
  obtain had s3 where c3: "(if keep_backup then file_exists path s2 else (False, s2)) = (had, s3)" by fastforce
  obtain r4 s4 where c4: "(if had then copy_backup path s3 else (Inr (), s3)) = (r4, s4)" by fastforce
  obtain r5 s5 where c5: "commit ?t path s4 = (r5, s5)" by fastforce
  have p1: "passes ?P s s1" using os_call_passes [OF c1] untouched_refl [OF ok] by simp
  have p2: "passes ?P s s2" using before.stage_passes [OF c2 passesD [OF p1]] passes_trans [OF p1] by simp
  show ?thesis
  proof (cases "a \<and> (\<exists>u. r2 = Inr u)")
    case False
    then have "res = Inl Operational" "s' = s1 \<or> s' = s2"
      using e c2 by (auto simp: write_atomic_def c1 stage_def split: prod.splits bool.splits)
    then show ?thesis using p1 p2 by blast
  next
    case True
    then obtain u where a: "a" "r2 = Inr u" by blast
    have st2: "staged path ?base bs (os_files s2)"
      using stage_done [OF c2 [unfolded a(2)] passesD [OF p1]] .
    have "os_files s3 = os_files s2 \<and> os_seen s3 = os_seen s2"
      using c3 os_call_quiet by (auto simp: file_exists_def split: if_splits)
    then have st3: "staged path ?base bs (os_files s3)" and q3: "passes ?P s s3"
      using st2 p2 by (simp_all add: passes_def)
    have p4: "passes (staged path ?base bs) s3 s4"
      using ready.copy_backup_passes [of path s3 r4 s4] c4 st3 by (auto split: if_splits)
    have q4: "passes ?P s s4"
      using passes_trans [OF q3 passes_mono [OF p4]] by (simp add: staged_def)
    show ?thesis
    proof (cases r4)
      case (Inl err)
      then have "res = Inl err" "s' = s4" using e a by (simp_all add: write_atomic_def c1 c2 c3 c4)
      moreover have "err = Operational"
        using c4 Inl by (auto simp: copy_backup_def split: if_splits prod.splits bool.splits)
      ultimately show ?thesis using q4 by simp
    next
      case (Inr v)
      note c = commit_cases [OF c5 passesD [OF p4]]
      show ?thesis
      proof (cases r5)
        case (Inl err)
        then have "res = Inl err" "s' = s5" using e a Inr by (simp_all add: write_atomic_def c1 c2 c3 c4 c5)
        then show ?thesis using c Inl passes_trans [OF q4] by auto
      next
        case Inr5: (Inr w)
        then have r: "res = Inr ()" "s' = sync_directory s5"
          using e a Inr by (simp_all add: write_atomic_def c1 c2 c3 c4 c5)
        have "passes (replaced path ?base bs) s4 s5" using c Inr5 by auto
        then have "passes (replaced path ?base bs) s4 s'"
          using sync_directory_passes passesD passes_trans r(2) by blast
        then show ?thesis using r(1) q4 by blast
      qed
    qed
  qed
qed

section \<open>When every call succeeds\<close>

lemma os_call_works:
  assumes "os_answers s = []" "possible"
  shows "os_call possible changes s
    = (True, s\<lparr>os_files := last (os_files s # changes (os_files s)), os_seen := os_seen s @ changes (os_files s)\<rparr>)"
  using assms by (cases s) (simp add: os_call_def passed_def succeeds_def Let_def)

lemma copied:
  assumes "os_answers s = []" "fs_ok path (os_files s)" "fs_dir (os_files s) path = Some m" "q \<noteq> path"
  shows "\<exists>s'. copy_file path q s = (True, s') \<and> os_answers s' = []
    \<and> contents (os_files s') q = contents (os_files s) path \<and> fs_dir (os_files s') q \<noteq> None"
proof -
  let ?fs = "os_files s"
  let ?bs = "the (contents ?fs path)"
  obtain n where n: "fs_dir (create_file q ?fs) q = Some n"
    "fs_node (create_file q ?fs) n = \<lparr>fn_bytes = [], fn_synced = False\<rparr>" by (rule created)
  note w = written [OF n(1), of ?bs]
  have "contents (last (create_file q ?fs # write_states q ?bs (create_file q ?fs))) q = Some ?bs"
    using w n(2) by (simp add: contents_def del: last.simps)
  moreover have "contents ?fs path = Some ?bs" using assms(3) by (simp add: contents_def)
  ultimately show ?thesis
    using w(1) assms(3) unfolding copy_file_def
    by (subst os_call_works [OF assms(1)]) (auto simp: Let_def assms(1) last_ConsR simp del: last.simps)
qed

lemma rename_other: "q \<noteq> p \<Longrightarrow> q \<noteq> r \<Longrightarrow> contents (rename_file p r fs) q = contents fs q"
  by (simp add: rename_file_def contents_def set_dir_def split: option.split)

lemma sync_file_contents: "contents (sync_file p fs) q = contents fs q"
  by (cases "fs_dir fs q") (auto simp: sync_file_def contents_def set_node_def split: option.split)

lemma sync_dir_contents: "contents (sync_dir fs) q = contents fs q"
  by (simp add: sync_dir_def contents_def)

lemma stage_works:
  assumes "os_answers s = []"
  shows "\<exists>s'. stage temp bs s = (Inr (), s') \<and> os_answers s' = []"
  using assms by (simp add: stage_def os_call_works)

lemma backup_works:
  assumes "os_answers s = []" "fs_ok path (os_files s)" "fs_dir (os_files s) path = Some m"
  shows "\<exists>s'. copy_backup path s = (Inr (), s') \<and> os_answers s' = []
    \<and> contents (os_files s') (backup_path path) = contents (os_files s) path"
proof -
  obtain s1 where c: "copy_file path (backup_path path) s = (True, s1)" "os_answers s1 = []"
    "contents (os_files s1) (backup_path path) = contents (os_files s) path"
    "fs_dir (os_files s1) (backup_path path) \<noteq> None"
    using copied [OF assms, of "backup_path path"] by auto
  show ?thesis
    using c by (simp add: copy_backup_def os_call_works sync_file_contents)
qed

lemma commit_works:
  assumes "os_answers s = []" "fs_dir (os_files s) temp \<noteq> None"
  shows "\<exists>s'. commit temp path s = (Inr (), s') \<and> os_answers s' = []
    \<and> os_files s' = rename_file temp path (os_files s)"
  using assms by (simp add: commit_def os_call_works)

lemma sync_directory_works:
  "os_answers s = [] \<Longrightarrow> os_files (sync_directory s) = sync_dir (os_files s)"
  by (simp add: sync_directory_def os_call_works)

lemma write_atomic_works:
  assumes q: "os_answers s = []" and ok: "fs_ok path (os_files s)"
    and e: "write_atomic path bs keep_backup s = (res, s')"
  shows "res = Inr () \<and> after_loss (os_files s') path = {Some bs}
    \<and> (keep_backup \<longrightarrow> contents (os_files s) path \<noteq> None \<longrightarrow>
         contents (os_files s') (backup_path path) = contents (os_files s) path)"
proof -
  let ?t = "temp_path path" and ?base = "os_files s"
  obtain s1 where c1: "os_call True (\<lambda>fs. []) s = (True, s1)" and s1: "os_answers s1 = []" "os_files s1 = ?base"
    using q by (simp add: os_call_works)
  obtain s2 where c2: "stage ?t bs s1 = (Inr (), s2)" and s2: "os_answers s2 = []"
    using stage_works [OF s1(1)] by blast
  have st2: "staged path ?base bs (os_files s2)"
    by (rule stage_done [OF c2]) (simp add: s1 untouched_refl ok)
  then have ok2: "fs_ok path (os_files s2)" and same: "contents (os_files s2) path = contents ?base path"
    by (auto simp: staged_def untouched_def)
  let ?had = "keep_backup \<and> fs_dir (os_files s2) path \<noteq> None"
  obtain s3 where c3: "(if keep_backup then file_exists path s2 else (False, s2)) = (?had, s3)"
    and s3: "os_answers s3 = []" "os_files s3 = os_files s2"
    by (rule that [of "snd (if keep_backup then file_exists path s2 else (False, s2))"])
      (use s2 in \<open>auto simp: file_exists_def os_call_def passed_def succeeds_def Let_def\<close>)
  obtain s4 where c4: "(if ?had then copy_backup path s3 else (Inr (), s3)) = (Inr (), s4)"
    and s4: "os_answers s4 = []" "?had \<longrightarrow> contents (os_files s4) (backup_path path) = contents ?base path"
  proof (cases ?had)
    case True
    then obtain m where "fs_dir (os_files s3) path = Some m" by (auto simp: s3)
    then show ?thesis using backup_works [OF s3(1), of path m] that True ok2 same by (auto simp: s3)
  next
    case False
    show ?thesis by (rule that [of s3]) (use False s3 in auto)
  qed
  have st4: "staged path ?base bs (os_files s4)"
  proof (cases ?had)
    case True
    then have "copy_backup path s3 = (Inr (), s4)" using c4 by simp
    then have "passes (staged path ?base bs) s3 s4"
      by (rule ready.copy_backup_passes) (use st2 in \<open>simp_all add: s3\<close>)
    then show ?thesis by (rule passesD)
  next
    case False
    then have "s4 = s3" using c4 by auto
    then show ?thesis using st2 by (simp add: s3)
  qed
  then obtain s5 where c5: "commit ?t path s4 = (Inr (), s5)" and s5: "os_answers s5 = []"
    "os_files s5 = rename_file ?t path (os_files s4)"
    using commit_works [OF s4(1), of ?t path] by (auto simp: staged_def)
  have r: "res = Inr ()" "s' = sync_directory s5"
    using e by (simp_all only: write_atomic_def c1 c2 c3 c4 c5 prod.case sum.case bool.case prod.inject)
  have f: "os_files s' = sync_dir (rename_file ?t path (os_files s4))"
    by (simp add: r sync_directory_works s5)
  have rp: "replaced path ?base bs (rename_file ?t path (os_files s4))" using rename_replaced [OF st4] .
  have "after_loss (os_files s') path = {Some bs}"
    using after_loss_durable sync_dir_replaced [OF rp] by (simp add: f replaced_def)
  moreover have "contents (os_files s') (backup_path path) = contents ?base path"
    if "keep_backup" "contents ?base path \<noteq> None"
  proof -
    have "?had" using that same by (auto simp: contents_def)
    then show ?thesis using s4(2) by (simp add: f sync_dir_contents rename_other)
  qed
  ultimately show ?thesis using r(1) by blast
qed

section \<open>The property\<close>

text \<open>
  C20. Replacing \<open>level.dat\<close> is atomic against failing calls and power loss. Start from
  any sound file system and let the operating system answer as it likes. At every moment
  of the save the live file reads as the complete old or the complete new document, and so
  it does after a power loss at that moment, which leaves a sound file system again. An
  error means the live file is the old one, and no power loss during the save can have
  brought the new one; success means it is the new one and nothing is left staged. If every
  call succeeds, then so does the save, the new document survives any later power loss, and
  the old one is kept as the backup when there was one and one was asked for.
\<close>

theorem level_file_atomic:
  assumes "fs_ok path (os_files s)" and "write_atomic path bs keep_backup s = (res, s')"
  shows "(\<exists>new. os_seen s' = os_seen s @ new
      \<and> (\<forall>fs \<in> set new. contents fs path \<in> {contents (os_files s) path, Some bs}
           \<and> after_loss fs path \<subseteq> insert (Some bs) (after_loss (os_files s) path)
           \<and> (\<forall>fs'. power_loss fs fs' \<longrightarrow> fs_ok path fs')
           \<and> (res \<noteq> Inr () \<longrightarrow> after_loss fs path = after_loss (os_files s) path)))
    \<and> fs_ok path (os_files s')
    \<and> (res \<noteq> Inr () \<longrightarrow> res = Inl Operational \<and> contents (os_files s') path = contents (os_files s) path)
    \<and> (res = Inr () \<longrightarrow> contents (os_files s') path = Some bs \<and> contents (os_files s') (temp_path path) = None)
    \<and> (os_answers s = [] \<longrightarrow> res = Inr () \<and> after_loss (os_files s') path = {Some bs}
         \<and> (keep_backup \<longrightarrow> contents (os_files s) path \<noteq> None \<longrightarrow>
              contents (os_files s') (backup_path path) = contents (os_files s) path))"
proof -
  let ?base = "os_files s"
  have at: "contents fs path = contents ?base path \<and> after_loss fs path = after_loss ?base path \<and> fs_ok path fs"
    if "untouched path ?base fs" for fs
    using that after_loss_durable assms(1) by (simp add: untouched_def)
  have after: "contents fs path = Some bs \<and> after_loss fs path \<subseteq> insert (Some bs) (after_loss ?base path) \<and> fs_ok path fs"
    if "replaced path ?base bs fs" for fs
    using that after_loss_durable assms(1) by (simp add: replaced_def)
  have sound: "fs_ok path fs'" if "fs_ok path fs" "power_loss fs fs'" for fs fs'
    using power_loss_durable(2) that by blast
  note works = write_atomic_works [OF _ assms]
  from write_atomic_cases [OF assms(2,1)] show ?thesis
  proof (elim disjE exE conjE)
    assume r: "res = Inl Operational" and p: "passes (untouched path ?base) s s'"
    obtain new where new: "os_seen s' = os_seen s @ new" "list_all (untouched path ?base) new"
      and fin: "untouched path ?base (os_files s')" using p by (auto simp: passes_def)
    have all: "untouched path ?base fs" if "fs \<in> set new" for fs using new(2) that by (auto simp: list_all_iff)
    have "os_answers s \<noteq> []" using works r by auto
    moreover have "\<forall>fs \<in> set new. contents fs path \<in> {contents ?base path, Some bs}
        \<and> after_loss fs path \<subseteq> insert (Some bs) (after_loss ?base path)
        \<and> (\<forall>fs'. power_loss fs fs' \<longrightarrow> fs_ok path fs') \<and> after_loss fs path = after_loss ?base path"
      using at [OF all] sound by blast
    ultimately show ?thesis using r new(1) at [OF fin] by auto
  next
    fix t
    assume r: "res = Inr ()" and "passes (untouched path ?base) s t" "passes (replaced path ?base bs) t s'"
    then obtain n1 n2 where n: "os_seen s' = os_seen s @ (n1 @ n2)" and n1: "list_all (untouched path ?base) n1"
      and n2: "list_all (replaced path ?base bs) n2" and fin: "replaced path ?base bs (os_files s')"
      by (auto simp: passes_def)
    have all: "untouched path ?base fs \<or> replaced path ?base bs fs" if "fs \<in> set (n1 @ n2)" for fs
      using n1 n2 that by (auto simp: list_all_iff)
    have "contents (os_files s') (temp_path path) = None" using fin by (simp add: replaced_def contents_def)
    moreover have "\<forall>fs \<in> set (n1 @ n2). contents fs path \<in> {contents ?base path, Some bs}
        \<and> after_loss fs path \<subseteq> insert (Some bs) (after_loss ?base path)
        \<and> (\<forall>fs'. power_loss fs fs' \<longrightarrow> fs_ok path fs')"
      using all at after sound by blast
    ultimately show ?thesis using works n after [OF fin] unfolding r by auto
  qed
qed

text \<open>
  A world with a level file and a temporary file left by an earlier crash; the write of
  the new document fails after one byte, or every call succeeds.
\<close>

definition old_files :: file_system where
  "old_files = \<lparr>fs_node = (\<lambda>n. \<lparr>fn_bytes = [of_nat n], fn_synced = n = 0\<rparr>),
     fs_dir = [lit ''level.dat'' \<mapsto> 0, lit ''level.dat.tmp'' \<mapsto> 1],
     fs_disk = [[lit ''level.dat'' \<mapsto> 0, lit ''level.dat.tmp'' \<mapsto> 1], [lit ''level.dat'' \<mapsto> 0]], fs_fresh = 2\<rparr>"

lemma old_files_ok: "fs_ok (lit ''level.dat'') old_files"
  by (auto simp: fs_ok_def old_files_def dir_ok_def live_nodes_def lit_def split: if_splits)

lemma old_files_contents: "contents old_files (lit ''level.dat'') = Some [0]"
  by (simp add: contents_def old_files_def lit_def)

definition old_os :: "os_answer list \<Rightarrow> os" where
  "old_os answers = \<lparr>os_files = old_files, os_answers = answers, os_seen = []\<rparr>"

theorem level_file_atomic_witness:
  "(\<exists>s'. write_atomic (lit ''level.dat'') [7, 8, 9] True (old_os [Succeeds, Succeeds, Fails 1]) = (Inl Operational, s')
      \<and> length (os_seen s') = 2 \<and> contents (os_files s') (lit ''level.dat'') = Some [0]
      \<and> contents (os_files s') (lit ''level.dat.tmp'') = Some [7])
   \<and> (\<exists>s'. write_atomic (lit ''level.dat'') [7, 8, 9] True (old_os []) = (Inr (), s')
      \<and> after_loss (os_files s') (lit ''level.dat'') = {Some [7, 8, 9]}
      \<and> contents (os_files s') (backup_path (lit ''level.dat'')) = Some [0])"
proof (intro conjI)
  let ?p = "lit ''level.dat''"
  have f: "os_files (old_os a) = old_files" for a by (simp add: old_os_def)
  note t = level_file_atomic [of ?p "old_os a" for a, unfolded f, OF old_files_ok]
  obtain s' where w: "write_atomic ?p [7, 8, 9] True (old_os [Succeeds, Succeeds, Fails 1]) = (Inl Operational, s')"
    "length (os_seen s') = 2" "contents (os_files s') (lit ''level.dat.tmp'') = Some [7]"
    by (simp add: write_atomic_def stage_def os_call_def passed_def succeeds_def Let_def old_os_def
        write_states_def create_file_def append_file_def set_node_def set_dir_def contents_def old_files_def
        lit_def temp_path_def)
  then show "\<exists>s'. write_atomic ?p [7, 8, 9] True (old_os [Succeeds, Succeeds, Fails 1]) = (Inl Operational, s')
      \<and> length (os_seen s') = 2 \<and> contents (os_files s') ?p = Some [0]
      \<and> contents (os_files s') (lit ''level.dat.tmp'') = Some [7]"
    using t [OF w(1)] old_files_contents by auto
  obtain r s'' where e: "write_atomic ?p [7, 8, 9] True (old_os []) = (r, s'')" by fastforce
  have "os_answers (old_os []) = []" by (simp add: old_os_def)
  then show "\<exists>s'. write_atomic ?p [7, 8, 9] True (old_os []) = (Inr (), s')
      \<and> after_loss (os_files s') ?p = {Some [7, 8, 9]} \<and> contents (os_files s') (backup_path ?p) = Some [0]"
    using t [OF e] e old_files_contents by auto
qed

end
