(* ===== verification/Compression.thy ===== *)
theory Compression
  imports Framing
begin

text \<open>
  \<open>crates/persistence/src/compression.rs\<close>: the codecs of a stored chunk. The zlib and
  gzip streams are produced and read by a library outside \<open>src/\<close>: the record
  \<open>flate\<close> holds the four functions the file uses of it, with the types of
  the frame codec.
\<close>

record flate =
  zlib_encode :: deflate
  zlib_decode :: inflate
  gzip_encode :: deflate
  gzip_decode :: inflate

definition flate_ok :: "flate \<Rightarrow> bool" where
  "flate_ok fl \<longleftrightarrow> zlib_ok (zlib_encode fl) (zlib_decode fl) \<and> zlib_ok (gzip_encode fl) (gzip_decode fl)"

definition DEFAULT_PAYLOAD_LIMIT :: nat where "DEFAULT_PAYLOAD_LIMIT = 16 * 1024 * 1024"

datatype compression = Gzip | Zlib | Stored | Lz4 | Custom

definition DEFAULT_WRITE :: compression where "DEFAULT_WRITE = Zlib"

fun compression_id :: "compression \<Rightarrow> u8" where
  "compression_id Gzip = 1"
| "compression_id Zlib = 2"
| "compression_id Stored = 3"
| "compression_id Lz4 = 4"
| "compression_id Custom = 127"

definition compression_from_id :: "u8 \<Rightarrow> compression option" where
  "compression_from_id i =
     (if i = 1 then Some Gzip
      else if i = 2 then Some Zlib
      else if i = 3 then Some Stored
      else if i = 4 then Some Lz4
      else if i = 127 then Some Custom
      else None)"

fun option_name :: "compression \<Rightarrow> string" where
  "option_name Gzip = ''gzip''"
| "option_name Zlib = ''deflate''"
| "option_name Stored = ''none''"
| "option_name Lz4 = ''lz4''"
| "option_name Custom = ''custom''"

definition is_supported :: "compression \<Rightarrow> bool" where
  "is_supported c \<longleftrightarrow> c \<in> {Gzip, Zlib, Stored}"

text \<open>
  \<open>take(limit + 1)\<close> caps what is decoded, with the saturation of the 64-bit sum.
\<close>

definition read_limited :: "inflate \<Rightarrow> bytes \<Rightarrow> nat \<Rightarrow> bytes server_result" where
  "read_limited reader data limit =
     (case reader (sat_add limit 1) data of
        None \<Rightarrow> Inl CorruptData
      | Some out \<Rightarrow> if length out > limit then Inl CorruptData else Inr out)"

definition finish_stream :: "bytes option \<Rightarrow> bytes server_result" where
  "finish_stream result = (case result of None \<Rightarrow> Inl Operational | Some z \<Rightarrow> Inr z)"

fun decompress :: "flate \<Rightarrow> compression \<Rightarrow> bytes \<Rightarrow> nat \<Rightarrow> bytes server_result" where
  "decompress fl Stored data limit = (if length data > limit then Inl CorruptData else Inr data)"
| "decompress fl Zlib data limit = read_limited (zlib_decode fl) data limit"
| "decompress fl Gzip data limit = read_limited (gzip_decode fl) data limit"
| "decompress fl Lz4 data limit = Inl Operational"
| "decompress fl Custom data limit = Inl Operational"

fun compress :: "flate \<Rightarrow> compression \<Rightarrow> bytes \<Rightarrow> bytes server_result" where
  "compress fl Stored raw = Inr raw"
| "compress fl Zlib raw = finish_stream (zlib_encode fl raw)"
| "compress fl Gzip raw = finish_stream (gzip_encode fl raw)"
| "compress fl Lz4 raw = Inl Operational"
| "compress fl Custom raw = Inl Operational"

lemma compression_from_id_id [simp]: "compression_from_id (compression_id c) = Some c"
  by (cases c) (simp_all add: compression_from_id_def)

lemma compression_id_small [simp]: "compression_id c AND 128 = 0"
  by (cases c) simp_all

lemma read_limited_encoded:
  assumes "zlib_ok enc dec" "enc raw = Some z" "length raw \<le> limit" "limit < u64_max"
  shows "read_limited dec z limit = Inr raw"
  using assms by (simp add: read_limited_def zlib_ok_def sat_add_exact)

text \<open>What was compressed within the limit decompresses to itself.\<close>

lemma decompress_compress:
  assumes ok: "flate_ok fl" and c: "compress fl c raw = Inr z"
    and small: "length raw \<le> limit" "limit < u64_max"
  shows "decompress fl c z limit = Inr raw"
  using c ok small
  by (cases c) (auto simp: finish_stream_def flate_ok_def intro!: read_limited_encoded split: option.splits)

lemma compress_fails_only_operational:
  "compress fl c raw = Inl e \<Longrightarrow> e = Operational"
  by (cases c) (auto simp: finish_stream_def split: option.splits)

text \<open>A decompressed payload never exceeds the limit it was read under.\<close>

lemma decompress_bounded: "decompress fl c z limit = Inr raw \<Longrightarrow> length raw \<le> limit"
  by (cases c) (auto simp: read_limited_def split: if_splits option.splits)

definition plain_flate :: flate where
  "plain_flate = \<lparr>zlib_encode = store_deflate, zlib_decode = store_inflate,
     gzip_encode = store_deflate, gzip_decode = store_inflate\<rparr>"

lemma plain_flate_ok: "flate_ok plain_flate"
  by (simp add: flate_ok_def zlib_ok_def plain_flate_def store_deflate_def store_inflate_def)

end
