(* ===== verification/Region.thy ===== *)
theory Region
  imports Compression
begin

text \<open>
  \<open>crates/persistence/src/region.rs\<close>: a region file holds up to 1024 chunks in runs of
  4096-byte sectors behind an 8 KiB header. The state of \<open>RegionFile\<close> is the file's
  bytes, the parsed header, the sector bitmap and the list of the writes performed
  (the code's journal, here with the bytes written). Reads and writes of the operating
  system succeed; a crash is modelled by stopping between two writes.
\<close>

section \<open>Files\<close>

text \<open>Seeking to an offset and writing there: a gap behind the end reads as zeros.\<close>

definition file_write :: "bytes \<Rightarrow> nat \<Rightarrow> bytes \<Rightarrow> bytes" where
  "file_write f offset data =
     take offset (f @ replicate (offset - length f) 0) @ data @ drop (offset + length data) f"

definition replay :: "bytes \<Rightarrow> (nat \<times> bytes) list \<Rightarrow> bytes" where
  "replay f ws = foldl (\<lambda>f (offset, data). file_write f offset data) f ws"

definition read_exact :: "bytes \<Rightarrow> nat \<Rightarrow> nat \<Rightarrow> bytes server_result" where
  "read_exact f offset n =
     (if offset + n \<le> length f then Inr (take n (drop offset f)) else Inl CorruptData)"

section \<open>Header\<close>

definition SECTOR_BYTES :: nat where "SECTOR_BYTES = 4096"
definition HEADER_BYTES :: nat where "HEADER_BYTES = SECTOR_BYTES * 2"
definition CHUNK_SLOTS :: nat where "CHUNK_SLOTS = 1024"
definition MAX_SECTORS_PER_CHUNK :: nat where "MAX_SECTORS_PER_CHUNK = 255"
definition FIRST_CHUNK_SECTOR :: nat where "FIRST_CHUNK_SECTOR = 2"
definition EXTERNAL_STREAM_FLAG :: u8 where "EXTERNAL_STREAM_FLAG = 128"

lemmas region_consts = SECTOR_BYTES_def HEADER_BYTES_def CHUNK_SLOTS_def
  MAX_SECTORS_PER_CHUNK_def FIRST_CHUNK_SECTOR_def

record chunk_location =
  loc_sector :: u32
  loc_count :: u32

definition decode_location :: "u32 \<Rightarrow> chunk_location option" where
  "decode_location raw =
     (if raw = 0 then None
      else Some \<lparr>loc_sector = drop_bit 8 raw, loc_count = raw AND 255\<rparr>)"

definition encode_location :: "chunk_location \<Rightarrow> u32" where
  "encode_location l = push_bit 8 (loc_sector l) OR (loc_count l AND 255)"

definition byte_offset :: "chunk_location \<Rightarrow> nat" where
  "byte_offset l = unat (loc_sector l) * SECTOR_BYTES"

record region_header =
  rh_locations :: "u32 list"
  rh_timestamps :: "u32 list"

definition empty_header :: region_header where
  "empty_header = \<lparr>rh_locations = replicate CHUNK_SLOTS 0, rh_timestamps = replicate CHUNK_SLOTS 0\<rparr>"

text \<open>\<open>from_be_bytes\<close> of the four bytes at an index.\<close>

definition word_at :: "bytes \<Rightarrow> nat \<Rightarrow> u32" where
  "word_at bs at = be_to [bs ! at, bs ! (at + 1), bs ! (at + 2), bs ! (at + 3)]"

definition parse_header :: "bytes \<Rightarrow> region_header server_result" where
  "parse_header bs =
     (if length bs < HEADER_BYTES then Inl CorruptData
      else Inr \<lparr>rh_locations = map (\<lambda>slot. word_at bs (slot * 4)) [0..<CHUNK_SLOTS],
                rh_timestamps = map (\<lambda>slot. word_at bs (SECTOR_BYTES + slot * 4)) [0..<CHUNK_SLOTS]\<rparr>)"

definition raw_location :: "region_header \<Rightarrow> nat \<Rightarrow> u32" where
  "raw_location h slot = (if slot < length (rh_locations h) then rh_locations h ! slot else 0)"

definition location :: "region_header \<Rightarrow> nat \<Rightarrow> chunk_location option" where
  "location h slot =
     (if slot < length (rh_locations h) then decode_location (rh_locations h ! slot) else None)"

definition timestamp :: "region_header \<Rightarrow> nat \<Rightarrow> u32" where
  "timestamp h slot = (if slot < length (rh_timestamps h) then rh_timestamps h ! slot else 0)"

definition occupied_slots :: "region_header \<Rightarrow> nat list" where
  "occupied_slots h = List.filter (\<lambda>slot. rh_locations h ! slot \<noteq> 0) [0..<length (rh_locations h)]"

definition occupied_count :: "region_header \<Rightarrow> nat" where
  "occupied_count h = length (occupied_slots h)"

definition set_location :: "region_header \<Rightarrow> nat \<Rightarrow> chunk_location option \<Rightarrow> u32 \<Rightarrow> region_header" where
  "set_location h slot l now =
     (if slot \<ge> CHUNK_SLOTS then h
      else h\<lparr>rh_locations := (rh_locations h)[slot := (case l of None \<Rightarrow> 0 | Some l \<Rightarrow> encode_location l)],
             rh_timestamps := (rh_timestamps h)[slot := now]\<rparr>)"

section \<open>Sector bitmap\<close>

definition u32_max :: nat where "u32_max = 4294967295"

definition set_run :: "bool \<Rightarrow> bool list \<Rightarrow> nat \<Rightarrow> nat \<Rightarrow> bool list" where
  "set_run b used sector count = fold (\<lambda>i u. u[i := b]) [sector ..< min (sector + count) u32_max] used"

definition mark_run :: "bool list \<Rightarrow> nat \<Rightarrow> nat \<Rightarrow> bool list" where
  "mark_run used sector count = set_run True used sector count"

definition free_run :: "bool list \<Rightarrow> nat \<Rightarrow> nat \<Rightarrow> bool list" where
  "free_run used sector count = set_run False used sector count"

definition mark_slot :: "region_header \<Rightarrow> nat \<Rightarrow> bool list \<Rightarrow> bool list" where
  "mark_slot h slot used =
     (case location h slot of
        None \<Rightarrow> used
      | Some l \<Rightarrow>
          if unat (loc_sector l) \<ge> FIRST_CHUNK_SECTOR
          then mark_run used (unat (loc_sector l)) (unat (loc_count l)) else used)"

definition from_header :: "region_header \<Rightarrow> nat \<Rightarrow> bool list" where
  "from_header h sectors_in_file =
     fold (mark_slot h) (occupied_slots h)
       (mark_run (replicate (max sectors_in_file FIRST_CHUNK_SECTOR) False) 0 FIRST_CHUNK_SECTOR)"

text \<open>The search of \<open>allocate\<close> over the sectors from an index on.\<close>

fun find_run :: "nat \<Rightarrow> bool list \<Rightarrow> nat \<Rightarrow> nat \<Rightarrow> nat \<Rightarrow> nat option" where
  "find_run needed [] index run_start run_len = None"
| "find_run needed (u # us) index run_start run_len =
     (if u then find_run needed us (index + 1) (index + 1) 0
      else if run_len + 1 = needed then Some run_start
      else find_run needed us (index + 1) run_start (run_len + 1))"

definition as_u32 :: "nat \<Rightarrow> nat" where "as_u32 n = n mod 4294967296"

definition allocate :: "bool list \<Rightarrow> nat \<Rightarrow> nat \<times> bool list" where
  "allocate used count =
     (case find_run count (drop FIRST_CHUNK_SECTOR used) FIRST_CHUNK_SECTOR FIRST_CHUNK_SECTOR 0 of
        Some run_start \<Rightarrow> (as_u32 run_start, mark_run used (as_u32 run_start) count)
      | None \<Rightarrow>
          (let sector = as_u32 (max (length used) FIRST_CHUNK_SECTOR);
               used = take (sector + count) used @ replicate (sector + count - length used) False
           in (sector, mark_run used sector count)))"

section \<open>The file\<close>

record stored_chunk =
  sc_compression :: compression
  sc_data :: bytes
  sc_timestamp :: u32

record region_file =
  rf_file :: bytes
  rf_header :: region_header
  rf_bitmap :: "bool list"
  rf_readonly :: bool
  rf_journal :: "(nat \<times> bytes) list"

text \<open>Rounding a partial trailing sector up.\<close>

definition sectors_of :: "bytes \<Rightarrow> nat" where
  "sectors_of f = as_u32 ((length f + (SECTOR_BYTES - 1)) div SECTOR_BYTES)"

definition write_all_at :: "region_file \<Rightarrow> nat \<Rightarrow> bytes \<Rightarrow> region_file" where
  "write_all_at r offset data =
     r\<lparr>rf_file := file_write (rf_file r) offset data, rf_journal := rf_journal r @ [(offset, data)]\<rparr>"

definition write_u32_at :: "region_file \<Rightarrow> nat \<Rightarrow> u32 \<Rightarrow> region_file" where
  "write_u32_at r offset v = write_all_at r offset (be_of 4 v)"

text \<open>\<open>None\<close> is a path without a file: it is created, unless the handle is read-only.\<close>

definition open_region :: "bytes option \<Rightarrow> bool \<Rightarrow> region_file server_result" where
  "open_region disk readonly =
     (case (disk, readonly) of
        (None, True) \<Rightarrow> Inl Operational
      | _ \<Rightarrow>
        (let f = (case disk of None \<Rightarrow> [] | Some f \<Rightarrow> f);
             this = \<lparr>rf_file = f, rf_header = empty_header,
                     rf_bitmap = from_header empty_header FIRST_CHUNK_SECTOR,
                     rf_readonly = readonly, rf_journal = []\<rparr>
         in if length f = 0 then Inr this
            else if length f < HEADER_BYTES then Inl CorruptData
            else (case read_exact f 0 HEADER_BYTES of
                Inl e \<Rightarrow> Inl e
              | Inr header_bytes \<Rightarrow>
                  (case parse_header header_bytes of
                     Inl e \<Rightarrow> Inl e
                   | Inr h \<Rightarrow> Inr (this\<lparr>rf_header := h, rf_bitmap := from_header h (sectors_of f)\<rparr>)))))"

definition has_chunk_at :: "region_file \<Rightarrow> nat \<Rightarrow> bool" where
  "has_chunk_at r slot \<longleftrightarrow> location (rf_header r) slot \<noteq> None"

definition read_chunk_at :: "flate \<Rightarrow> region_file \<Rightarrow> nat \<Rightarrow> nat \<Rightarrow> stored_chunk option server_result" where
  "read_chunk_at fl r slot limit =
     (case location (rf_header r) slot of
        None \<Rightarrow> Inr None
      | Some l \<Rightarrow>
          if unat (loc_sector l) < FIRST_CHUNK_SECTOR then Inl CorruptData
          else if loc_count l = 0 then Inl CorruptData
          else if byte_offset l \<ge> length (rf_file r) then Inl CorruptData
          else
            (let usable = min (unat (loc_count l) * SECTOR_BYTES) (length (rf_file r) - byte_offset l)
             in if usable < 5 then Inl CorruptData
                else (case read_exact (rf_file r) (byte_offset l) 5 of
                   Inl e \<Rightarrow> Inl e
                 | Inr prefix \<Rightarrow>
                    (let len = unat (word_at prefix 0); codec_byte = prefix ! 4
                     in if len < 1 then Inl CorruptData
                        else if len - 1 > usable - 4 then Inl CorruptData
                        else if codec_byte AND EXTERNAL_STREAM_FLAG \<noteq> 0 then Inl Operational
                        else (case compression_from_id codec_byte of
                           None \<Rightarrow> Inl CorruptData
                         | Some c \<Rightarrow>
                            (case read_exact (rf_file r) (byte_offset l + 5) (len - 1) of
                               Inl e \<Rightarrow> Inl e
                             | Inr stored \<Rightarrow>
                                (case decompress fl c stored limit of
                                   Inl e \<Rightarrow> Inl e
                                 | Inr data \<Rightarrow>
                                     Inr (Some \<lparr>sc_compression = c, sc_data = data,
                                        sc_timestamp = timestamp (rf_header r) slot\<rparr>))))))))"

definition header_bytes :: "region_header \<Rightarrow> bytes" where
  "header_bytes h =
     concat (map (be_of 4) (rh_locations h)) @ concat (map (be_of 4) (rh_timestamps h))"

definition write_header :: "region_file \<Rightarrow> region_file" where
  "write_header r = write_all_at r 0 (header_bytes (rf_header r))"

text \<open>The length, the codec byte and the payload, padded to whole sectors.\<close>

definition chunk_body :: "compression \<Rightarrow> bytes \<Rightarrow> nat \<Rightarrow> bytes" where
  "chunk_body c z sector_count =
     (let body = be_of 4 (of_nat (length z + 1) :: u32) @ compression_id c # z
      in body @ replicate (sector_count * SECTOR_BYTES - length body) 0)"

definition write_chunk_at ::
    "flate \<Rightarrow> region_file \<Rightarrow> nat \<Rightarrow> bytes \<Rightarrow> compression \<Rightarrow> u32 \<Rightarrow> unit server_result \<times> region_file" where
  "write_chunk_at fl r slot data c now =
     (if rf_readonly r then (Inl Operational, r)
      else if slot \<ge> CHUNK_SLOTS then (Inl CorruptData, r)
      else (case compress fl c data of
          Inl e \<Rightarrow> (Inl e, r)
        | Inr z \<Rightarrow>
          (let body_len = length z + 1
           in if body_len + 4 > MAX_SECTORS_PER_CHUNK * SECTOR_BYTES then (Inl Invariant, r)
              else
                (let sector_count = (body_len + 4 + (SECTOR_BYTES - 1)) div SECTOR_BYTES;
                     r = (if length (rf_file r) = 0 then write_header r else r);
                     previous = location (rf_header r) slot;
                     (sector, used) = allocate (rf_bitmap r) sector_count;
                     r = r\<lparr>rf_bitmap := used\<rparr>;
                     r = write_all_at r (sector * SECTOR_BYTES) (chunk_body c z sector_count);
                     r = (case previous of
                            None \<Rightarrow> r
                          | Some p \<Rightarrow>
                              if unat (loc_sector p) = sector \<and> unat (loc_count p) = sector_count then r
                              else r\<lparr>rf_bitmap := free_run (rf_bitmap r) (unat (loc_sector p)) (unat (loc_count p))\<rparr>);
                     r = r\<lparr>rf_header := set_location (rf_header r) slot
                            (Some \<lparr>loc_sector = of_nat sector, loc_count = of_nat sector_count\<rparr>) now\<rparr>;
                     r = write_u32_at r (SECTOR_BYTES + slot * 4) now;
                     r = write_u32_at r (slot * 4) (raw_location (rf_header r) slot)
                 in (Inr (), r)))))"

definition remove_chunk_at :: "region_file \<Rightarrow> nat \<Rightarrow> bool server_result \<times> region_file" where
  "remove_chunk_at r slot =
     (case location (rf_header r) slot of
        None \<Rightarrow> (Inr False, r)
      | Some l \<Rightarrow>
          if rf_readonly r then (Inl Operational, r)
          else
            (let r = r\<lparr>rf_bitmap := free_run (rf_bitmap r) (unat (loc_sector l)) (unat (loc_count l))\<rparr>;
                 r = r\<lparr>rf_header := set_location (rf_header r) slot None 0\<rparr>;
                 r = write_u32_at r (slot * 4) 0;
                 r = write_u32_at r (SECTOR_BYTES + slot * 4) 0
             in (Inr True, r)))"

definition allocated_sectors :: "region_file \<Rightarrow> nat" where
  "allocated_sectors r = as_u32 (length (rf_bitmap r))"

section \<open>Chunk positions\<close>

datatype chunk_pos = ChunkPos (cp_x: int) (cp_z: int)

definition REGION_CHUNKS :: int where "REGION_CHUNKS = 32"

text \<open>
  The coordinates are i32 values in two's complement: shifting right by five is the
  division rounding down, and masking with 31 its remainder.
\<close>

definition region_x :: "chunk_pos \<Rightarrow> int" where "region_x p = cp_x p div 32"
definition region_z :: "chunk_pos \<Rightarrow> int" where "region_z p = cp_z p div 32"

definition pos_slot :: "chunk_pos \<Rightarrow> nat" where
  "pos_slot p = nat (cp_x p mod 32 + cp_z p mod 32 * REGION_CHUNKS)"

definition same_region :: "chunk_pos \<Rightarrow> chunk_pos \<Rightarrow> bool" where
  "same_region p q \<longleftrightarrow> region_x p = region_x q \<and> region_z p = region_z q"

definition read_chunk :: "flate \<Rightarrow> region_file \<Rightarrow> chunk_pos \<Rightarrow> stored_chunk option server_result" where
  "read_chunk fl r p = read_chunk_at fl r (pos_slot p) DEFAULT_PAYLOAD_LIMIT"

definition has_chunk :: "region_file \<Rightarrow> chunk_pos \<Rightarrow> bool" where
  "has_chunk r p = has_chunk_at r (pos_slot p)"

definition write_chunk ::
    "flate \<Rightarrow> region_file \<Rightarrow> chunk_pos \<Rightarrow> bytes \<Rightarrow> compression \<Rightarrow> u32 \<Rightarrow> unit server_result \<times> region_file" where
  "write_chunk fl r p data c now = write_chunk_at fl r (pos_slot p) data c now"

definition remove_chunk :: "region_file \<Rightarrow> chunk_pos \<Rightarrow> bool server_result \<times> region_file" where
  "remove_chunk r p = remove_chunk_at r (pos_slot p)"

end
