(* ===== verification/OrderedMap.thy ===== *)
theory OrderedMap
  imports KeyedStore
begin

text \<open>
  \<open>BTreeMap\<close>: an ordered map as the list of its entries in key order, which is the
  order its iterators give.
\<close>

type_synonym ('k, 'v) ordered_map = "('k \<times> 'v) list"

fun om_insert :: "'k::linorder \<Rightarrow> 'v \<Rightarrow> ('k, 'v) ordered_map \<Rightarrow> ('k, 'v) ordered_map" where
  "om_insert k v [] = [(k, v)]"
| "om_insert k v ((a, b) # m) =
     (if k < a then (k, v) # (a, b) # m else if k = a then (k, v) # m else (a, b) # om_insert k v m)"

definition om_remove :: "'k \<Rightarrow> ('k, 'v) ordered_map \<Rightarrow> ('k, 'v) ordered_map" where
  "om_remove k m = filter (\<lambda>e. fst e \<noteq> k) m"

definition om_ok :: "('k::linorder, 'v) ordered_map \<Rightarrow> bool" where
  "om_ok m \<longleftrightarrow> sorted_wrt (<) (map fst m)"

lemma om_ok_Nil [simp]: "om_ok []"
  by (simp add: om_ok_def)

lemma om_ok_Cons: "om_ok (e # m) \<longleftrightarrow> om_ok m \<and> (\<forall>k \<in> fst ` set m. fst e < k)"
  by (auto simp: om_ok_def)

lemma om_ok_distinct: "om_ok m \<Longrightarrow> distinct (map fst m)"
  by (simp add: om_ok_def strict_sorted_iff)

lemma keys_insert [simp]: "fst ` set (om_insert k v m) = insert k (fst ` set m)"
  by (induction k v m rule: om_insert.induct) auto

lemma om_ok_insert [simp]: "om_ok m \<Longrightarrow> om_ok (om_insert k v m)"
  by (induction k v m rule: om_insert.induct) (auto simp: om_ok_Cons)

lemma om_ok_remove [simp]: "om_ok m \<Longrightarrow> om_ok (om_remove k m)"
  by (induction m) (auto simp: om_ok_Cons om_remove_def)

lemma map_of_insert [simp]: "om_ok m \<Longrightarrow> map_of (om_insert k v m) = (map_of m)(k \<mapsto> v)"
proof (induction k v m rule: om_insert.induct)
  case (2 k v a b m)
  then show ?case
    by (auto simp: om_ok_Cons fun_eq_iff map_of_eq_None_iff [symmetric] split: if_splits)
qed simp

lemma map_of_remove [simp]: "map_of (om_remove k m) = (map_of m)(k := None)"
  by (induction m) (auto simp: om_remove_def fun_eq_iff)

lemma keys_remove [simp]: "fst ` set (om_remove k m) = fst ` set m - {k}"
  by (auto simp: om_remove_def)

lemma length_remove: "om_ok m \<Longrightarrow> length (om_remove k m) = length m - (if k \<in> fst ` set m then 1 else 0)"
proof (induction m)
  case (Cons e m)
  have "om_remove k m = m" if "k \<notin> fst ` set m"
    unfolding om_remove_def using that by (auto simp: filter_id_conv)
  then show ?case
    using Cons by (auto simp: om_ok_Cons om_remove_def Suc_diff_Suc length_greater_0_conv
        intro!: Suc_pred' dest: length_pos_if_in_set)
qed (simp add: om_remove_def)

lemma card_keys: "om_ok m \<Longrightarrow> card (fst ` set m) = length m"
  using distinct_card [OF om_ok_distinct] by fastforce

lemma set_remove_subset: "set (om_remove k m) \<subseteq> set m"
  by (auto simp: om_remove_def)

lemma map_of_below: "om_ok m \<Longrightarrow> \<forall>a \<in> fst ` set m. k < a \<Longrightarrow> map_of m k = None"
  by (force simp: map_of_eq_None_iff)

lemma sum_insert:
  fixes f :: "'v \<Rightarrow> nat"
  shows "om_ok m \<Longrightarrow> sum_list (map (\<lambda>e. f (snd e)) (om_insert k v m))
      + (case map_of m k of None \<Rightarrow> 0 | Some w \<Rightarrow> f w) = sum_list (map (\<lambda>e. f (snd e)) m) + f v"
proof (induction k v m rule: om_insert.induct)
  case (2 k v a b m)
  have "map_of m k = None" if "k < a"
    using 2 that by (intro map_of_below) (auto simp: om_ok_Cons)
  then show ?case using 2 by (auto simp: om_ok_Cons)
qed simp

interpretation om: keyed_store "\<lambda>m k. map_of m k" om_insert om_remove om_ok "\<lambda>_ _. True"
  by unfold_locales auto

end
