(* ===== verification/Dimensions.thy ===== *)
theory Dimensions
  imports Region ResourceIds OrderedMap "HOL-Library.List_Lexorder" "HOL-Library.Product_Lexorder"
begin

text \<open>
  \<open>crates/persistence/src/dimension.rs\<close> and the keys of \<open>chunk.rs\<close>: dimensions, their
  names, and the orders that \<open>derive(Ord)\<close> gives the keys of the ordered maps of the
  world storage (variant first, then the fields; strings by their scalar values, which
  is the order of their UTF-8 bytes).
\<close>

datatype dimension = Overworld | Nether | End | Custom_Dimension resource_id

definition OVERWORLD_KEY :: rstring where "OVERWORLD_KEY = lit ''minecraft:overworld''"
definition NETHER_KEY :: rstring where "NETHER_KEY = lit ''minecraft:the_nether''"
definition THE_END_KEY :: rstring where "THE_END_KEY = lit ''minecraft:the_end''"

definition parse_dimension :: "rstring \<Rightarrow> dimension server_result" where
  "parse_dimension key =
     (if key = OVERWORLD_KEY then Inr Overworld
      else if key = NETHER_KEY then Inr Nether
      else if key = THE_END_KEY then Inr End
      else case parse_id key of Inl e \<Rightarrow> Inl e | Inr r \<Rightarrow> Inr (Custom_Dimension r))"

fun dimension_key :: "dimension \<Rightarrow> rstring" where
  "dimension_key Overworld = OVERWORLD_KEY"
| "dimension_key Nether = NETHER_KEY"
| "dimension_key End = THE_END_KEY"
| "dimension_key (Custom_Dimension r) = display_id r"

fun legacy_dir :: "dimension \<Rightarrow> rstring option" where
  "legacy_dir Overworld = Some []"
| "legacy_dir Nether = Some (lit ''DIM-1'')"
| "legacy_dir End = Some (lit ''DIM1'')"
| "legacy_dir (Custom_Dimension r) = None"

definition is_vanilla_dimension :: "dimension \<Rightarrow> bool" where
  "is_vanilla_dimension d \<longleftrightarrow> (case d of Custom_Dimension r \<Rightarrow> False | _ \<Rightarrow> True)"

text \<open>The derived order, as the order of a tuple.\<close>

fun dimension_rank :: "dimension \<Rightarrow> nat \<times> rstring \<times> rstring" where
  "dimension_rank Overworld = (0, [], [])"
| "dimension_rank Nether = (1, [], [])"
| "dimension_rank End = (2, [], [])"
| "dimension_rank (Custom_Dimension r) = (3, namespace r, rvalue r)"

lemma dimension_rank_inj: "dimension_rank d = dimension_rank e \<Longrightarrow> d = e"
  by (cases d; cases e) auto

instantiation dimension :: linorder
begin

definition less_eq_dimension :: "dimension \<Rightarrow> dimension \<Rightarrow> bool" where
  "less_eq_dimension d e \<longleftrightarrow> dimension_rank d \<le> dimension_rank e"

definition less_dimension :: "dimension \<Rightarrow> dimension \<Rightarrow> bool" where
  "less_dimension d e \<longleftrightarrow> dimension_rank d < dimension_rank e"

instance
  by standard
    (auto simp: less_eq_dimension_def less_dimension_def dest: dimension_rank_inj)

end

instantiation chunk_pos :: linorder
begin

definition less_eq_chunk_pos :: "chunk_pos \<Rightarrow> chunk_pos \<Rightarrow> bool" where
  "less_eq_chunk_pos p q \<longleftrightarrow> (cp_x p, cp_z p) \<le> (cp_x q, cp_z q)"

definition less_chunk_pos :: "chunk_pos \<Rightarrow> chunk_pos \<Rightarrow> bool" where
  "less_chunk_pos p q \<longleftrightarrow> (cp_x p, cp_z p) < (cp_x q, cp_z q)"

instance
  by standard (auto simp: less_eq_chunk_pos_def less_chunk_pos_def intro: chunk_pos.expand)

end

text \<open>A chunk key is a dimension and a position; its region is where its file is.\<close>

type_synonym chunk_key = "dimension \<times> chunk_pos"

type_synonym region_key = "dimension \<times> int \<times> int"

definition key_region :: "chunk_key \<Rightarrow> int \<times> int" where
  "key_region k = (region_x (snd k), region_z (snd k))"

text \<open>
  A bare name parses to a custom dimension that prints as the Vanilla key: one directory
  under two keys.
\<close>

lemma dimension_alias:
  "\<exists>d. parse_dimension (lit ''overworld'') = Inr d \<and> d \<noteq> Overworld \<and> dimension_key d = dimension_key Overworld"
  by (rule exI [of _ "Custom_Dimension \<lparr>namespace = lit ''minecraft'', rvalue = lit ''overworld''\<rparr>"])
    (simp add: parse_dimension_def OVERWORLD_KEY_def NETHER_KEY_def THE_END_KEY_def parse_id_def lit_def
      valid_namespace_def valid_value_def contains_pair.simps is_ascii_lowercase_def is_ascii_digit_def
      str_bytes_def utf8_char_def display_id_def)

text \<open>The slots of one region do not clash.\<close>

lemma pos_slot_inj:
  assumes "same_region p q" "pos_slot p = pos_slot q"
  shows "p = q"
proof -
  have r: "cp_x p div 32 = cp_x q div 32" "cp_z p div 32 = cp_z q div 32"
    using assms(1) by (auto simp: same_region_def region_x_def region_z_def)
  have digits: "a = c \<and> b = d" if "a + b * 32 = c + d * 32" "0 \<le> a" "a < 32" "0 \<le> c" "c < 32"
    for a b c d :: int
  proof -
    have "a = c" using that by (metis mod_mult_self1 mod_pos_pos_trivial)
    then show ?thesis using that(1) by simp
  qed
  have nonneg: "0 \<le> x mod 32 + y mod 32 * (32 :: int)" for x y :: int
    by (intro add_nonneg_nonneg mult_nonneg_nonneg) simp_all
  have "cp_x p mod 32 + cp_z p mod 32 * 32 = cp_x q mod 32 + cp_z q mod 32 * 32"
    using assms(2) nonneg [of "cp_x p" "cp_z p"] nonneg [of "cp_x q" "cp_z q"]
    unfolding pos_slot_def REGION_CHUNKS_def by (simp only: eq_nat_nat_iff)
  from digits [OF this] have m: "cp_x p mod 32 = cp_x q mod 32" "cp_z p mod 32 = cp_z q mod 32"
    by simp_all
  have same: "x = y" if "x div 32 = y div 32" "x mod 32 = y mod 32" for x y :: int
  proof -
    have "x = x div 32 * 32 + x mod 32" by simp
    also have "\<dots> = y div 32 * 32 + y mod 32" by (simp only: that)
    also have "\<dots> = y" by simp
    finally show ?thesis .
  qed
  have "cp_x p = cp_x q" "cp_z p = cp_z q"
    by (rule same [OF r(1) m(1)], rule same [OF r(2) m(2)])
  then show ?thesis by (cases p; cases q) simp
qed

lemma pos_slot_bound: "pos_slot p < 1024"
  using pos_mod_bound [of 32 "cp_x p"] pos_mod_bound [of 32 "cp_z p"]
  by (simp add: pos_slot_def REGION_CHUNKS_def)

end
