(* ===== verification/Saving.thy ===== *)
theory Saving
  imports Dimensions NbtCodec Compression AtomicFile
begin

text \<open>
  What decides when and what to save: the dirty tracker (\<open>persistence/src/dirty.rs\<close>), the
  autosave timer (\<open>autosave.rs\<close>), the report and the encoding of \<open>level.dat\<close>
  (\<open>save.rs\<close>; its atomic replacement is the theory AtomicFile).
\<close>

section \<open>Dirty chunks\<close>

record dirty_tracker =
  dt_chunks :: "(chunk_key, unit) ordered_map"
  dt_level :: bool

record dirty_snapshot =
  ds_chunks :: "(chunk_key, unit) ordered_map"
  ds_level :: bool

definition new_tracker :: dirty_tracker where
  "new_tracker = \<lparr>dt_chunks = [], dt_level = False\<rparr>"

definition mark_chunk :: "dirty_tracker \<Rightarrow> dimension \<Rightarrow> chunk_pos \<Rightarrow> dirty_tracker" where
  "mark_chunk t d p = t\<lparr>dt_chunks := om_insert (d, p) () (dt_chunks t)\<rparr>"

definition mark_level :: "dirty_tracker \<Rightarrow> dirty_tracker" where
  "mark_level t = t\<lparr>dt_level := True\<rparr>"

definition tracker_is_empty :: "dirty_tracker \<Rightarrow> bool" where
  "tracker_is_empty t \<longleftrightarrow> dt_chunks t = [] \<and> \<not> dt_level t"

definition is_dirty :: "dirty_tracker \<Rightarrow> dimension \<Rightarrow> chunk_pos \<Rightarrow> bool" where
  "is_dirty t d p \<longleftrightarrow> map_of (dt_chunks t) (d, p) \<noteq> None"

definition snapshot :: "dirty_tracker \<Rightarrow> dirty_snapshot \<times> dirty_tracker" where
  "snapshot t = (\<lparr>ds_chunks = dt_chunks t, ds_level = dt_level t\<rparr>, t\<lparr>dt_chunks := [], dt_level := False\<rparr>)"

definition restore :: "dirty_tracker \<Rightarrow> dirty_snapshot \<Rightarrow> dirty_tracker" where
  "restore t s = t\<lparr>dt_chunks := fold (\<lambda>(k, u). om_insert k u) (ds_chunks s) (dt_chunks t),
     dt_level := dt_level t \<or> ds_level s\<rparr>"

definition snapshot_is_empty :: "dirty_snapshot \<Rightarrow> bool" where
  "snapshot_is_empty s \<longleftrightarrow> ds_chunks s = [] \<and> \<not> ds_level s"

definition push_group ::
    "chunk_key \<Rightarrow> (region_key, chunk_pos list) ordered_map \<Rightarrow> (region_key, chunk_pos list) ordered_map" where
  "push_group k g =
     (let r = (fst k, key_region k)
      in om_insert r ((case map_of g r of None \<Rightarrow> [] | Some ps \<Rightarrow> ps) @ [snd k]) g)"

definition by_region :: "dirty_snapshot \<Rightarrow> (region_key, chunk_pos list) ordered_map" where
  "by_region s = fold push_group (map fst (ds_chunks s)) []"

section \<open>Autosave\<close>

definition DEFAULT_INTERVAL_TICKS :: nat where "DEFAULT_INTERVAL_TICKS = 6000"

record autosave =
  as_interval :: nat
  as_next_due :: "nat option"
  as_saves :: nat

definition new_autosave :: "nat \<Rightarrow> autosave" where
  "new_autosave interval = \<lparr>as_interval = interval, as_next_due = None, as_saves = 0\<rparr>"

definition autosave_enabled :: "autosave \<Rightarrow> bool" where
  "autosave_enabled a \<longleftrightarrow> as_interval a > 0"

definition autosave_tick :: "autosave \<Rightarrow> nat \<Rightarrow> bool \<times> autosave" where
  "autosave_tick a tick =
     (if \<not> autosave_enabled a then (False, a)
      else case as_next_due a of
          None \<Rightarrow> (False, a\<lparr>as_next_due := Some (sat_add tick (as_interval a))\<rparr>)
        | Some due \<Rightarrow>
            if tick \<ge> due
            then (True, a\<lparr>as_next_due := Some (sat_add tick (as_interval a)), as_saves := sat_add (as_saves a) 1\<rparr>)
            else (False, a))"

definition defer_from :: "autosave \<Rightarrow> nat \<Rightarrow> autosave" where
  "defer_from a tick =
     (if autosave_enabled a then a\<lparr>as_next_due := Some (sat_add tick (as_interval a))\<rparr> else a)"

definition set_interval :: "autosave \<Rightarrow> nat \<Rightarrow> nat \<Rightarrow> autosave" where
  "set_interval a interval tick =
     a\<lparr>as_interval := interval,
       as_next_due := (if interval = 0 then None else Some (sat_add tick interval))\<rparr>"

section \<open>Reports\<close>

text \<open>The messages of \<open>errors\<close> are diagnostics: the model counts them.\<close>

record save_report =
  chunks_written :: nat
  chunks_failed :: nat
  regions_synced :: nat
  level_written :: bool
  chunks_skipped :: nat
  report_errors :: nat

definition default_report_save :: save_report where
  "default_report_save = \<lparr>chunks_written = 0, chunks_failed = 0, regions_synced = 0,
     level_written = False, chunks_skipped = 0, report_errors = 0\<rparr>"

definition report_clean :: "save_report \<Rightarrow> bool" where
  "report_clean r \<longleftrightarrow> report_errors r = 0 \<and> chunks_failed r = 0"

definition report_empty :: "save_report \<Rightarrow> bool" where
  "report_empty r \<longleftrightarrow> chunks_written r = 0 \<and> chunks_failed r = 0 \<and> regions_synced r = 0
     \<and> \<not> level_written r \<and> chunks_skipped r = 0"

definition merge_reports :: "save_report \<Rightarrow> save_report \<Rightarrow> save_report" where
  "merge_reports r other =
     r\<lparr>chunks_written := chunks_written r + chunks_written other,
       chunks_failed := chunks_failed r + chunks_failed other,
       regions_synced := regions_synced r + regions_synced other,
       chunks_skipped := chunks_skipped r + chunks_skipped other,
       level_written := (level_written r \<or> level_written other),
       report_errors := report_errors r + report_errors other\<rparr>"

definition report_result :: "save_report \<Rightarrow> save_report server_result" where
  "report_result r = (if report_clean r then Inr r else Inl Operational)"

section \<open>The level document\<close>

definition GZIP_MAGIC :: bytes where "GZIP_MAGIC = [0x1F, 0x8B]"

definition encode_gzip_nbt :: "flate \<Rightarrow> rstring \<Rightarrow> nbt_tag \<Rightarrow> bytes server_result" where
  "encode_gzip_nbt fl name tag =
     (case nbt_write_named name tag [] of
        (Inl e, raw) \<Rightarrow> Inl e
      | (Inr u, raw) \<Rightarrow> compress fl Gzip raw)"

definition decode_gzip_nbt :: "flate \<Rightarrow> bytes \<Rightarrow> read_error + nbt_tag" where
  "decode_gzip_nbt fl bs =
     (if length bs < length GZIP_MAGIC \<or> take 2 bs \<noteq> GZIP_MAGIC then Inl (Failed CorruptData)
      else case decompress fl Gzip bs (max_bytes DISK_LIMITS) of
          Inl e \<Rightarrow> Inl (Failed e)
        | Inr raw \<Rightarrow> (case read_named raw DISK_LIMITS of Inl e \<Rightarrow> Inl e | Inr (_, tag) \<Rightarrow> Inr tag))"

end
