(* ===== verification/RegionLaws.thy ===== *)
theory RegionLaws
  imports Region
begin

text \<open>
  The laws of the region file: its header on disk, its bitmap and its runs stay
  consistent, a write is read back and disturbs no other chunk, and a write that stops
  between two of its file operations leaves every chunk readable.
\<close>

section \<open>Files\<close>

lemma length_file_write [simp]:
  "length (file_write f off b) = max (length f) (off + length b)"
proof -
  have "length (take off (f @ replicate (off - length f) 0)) = off" by simp
  then show ?thesis by (simp add: file_write_def del: length_take)
qed

lemma nth_file_write:
  assumes "i < max (length f) (off + length b)"
  shows "file_write f off b ! i =
    (if off \<le> i \<and> i < off + length b then b ! (i - off)
     else if i < length f then f ! i else 0)"
proof -
  have l: "length (take off (f @ replicate (off - length f) 0)) = off" by simp
  show ?thesis
  proof (cases "i < off")
    case True
    have "file_write f off b ! i = take off (f @ replicate (off - length f) 0) ! i"
      unfolding file_write_def using True l by (simp only: nth_append if_True)
    then have "file_write f off b ! i = (f @ replicate (off - length f) 0) ! i"
      using True by (simp only: nth_take)
    moreover have "\<not> i < length f \<Longrightarrow> i - length f < off - length f" using True by linarith
    ultimately show ?thesis using True by (auto simp: nth_append)
  next
    case False
    then show ?thesis
      using assms unfolding file_write_def nth_append l
      by (auto simp: nth_append)
  qed
qed

definition slice :: "bytes \<Rightarrow> nat \<Rightarrow> nat \<Rightarrow> bytes" where
  "slice f off n = take n (drop off f)"

lemma length_slice [simp]: "length (slice f off n) = min n (length f - off)"
  by (auto simp: slice_def)

lemma nth_slice [simp]: "i < n \<Longrightarrow> off + i < length f \<Longrightarrow> slice f off n ! i = f ! (off + i)"
  by (simp add: slice_def)

lemma slice_file_write_other:
  assumes "off' + n \<le> length f" "off' + n \<le> off \<or> off + length b \<le> off'"
  shows "slice (file_write f off b) off' n = slice f off' n"
  using assms by (intro nth_equalityI) (auto simp: nth_file_write)

lemma slice_file_write_same:
  assumes "off \<le> off'" "off' + n \<le> off + length b"
  shows "slice (file_write f off b) off' n = slice b (off' - off) n"
  using assms by (intro nth_equalityI) (auto simp: nth_file_write)

lemma read_exact_slice: "off + n \<le> length f \<Longrightarrow> read_exact f off n = Inr (slice f off n)"
  by (simp add: read_exact_def slice_def)

lemma word_at_slice: "at + 4 \<le> length f \<Longrightarrow> word_at f at = be_to (slice f at 4)"
proof -
  assume a: "at + 4 \<le> length f"
  have "slice f at 4 = [f ! at, f ! (at + 1), f ! (at + 2), f ! (at + 3)]"
    using a by (intro nth_equalityI) (auto simp: less_Suc_eq numeral_eq_Suc)
  then show ?thesis by (simp add: word_at_def)
qed

lemma word_at_write_same: "word_at (file_write f at (be_of 4 w)) at = w"
  by (simp add: word_at_slice slice_file_write_same) (simp add: slice_def)

lemma word_at_write_other:
  assumes "at + 4 \<le> length f" "at + 4 \<le> off \<or> off + length b \<le> at"
  shows "word_at (file_write f off b) at = word_at f at"
  using assms by (simp add: word_at_slice slice_file_write_other)

lemma replay_snoc [simp]: "replay f (ws @ [(off, b)]) = file_write (replay f ws) off b"
  by (simp add: replay_def)

lemma replay_Cons [simp]: "replay f ((off, b) # ws) = replay (file_write f off b) ws"
  by (simp add: replay_def)

lemma replay_Nil [simp]: "replay f [] = f"
  by (simp add: replay_def)

section \<open>Bitmap\<close>

lemma length_set_run [simp]: "length (set_run b u s n) = length u"
proof -
  have "length (fold (\<lambda>i u. u[i := b]) xs u) = length u" for xs
    by (induction xs arbitrary: u) auto
  then show ?thesis by (simp add: set_run_def)
qed

lemma nth_set_run:
  assumes "i < length u"
  shows "set_run b u s n ! i = (if s \<le> i \<and> i < min (s + n) u32_max then b else u ! i)"
proof -
  have "i < length u \<Longrightarrow> fold (\<lambda>j u. u[j := b]) xs u ! i = (if i \<in> set xs then b else u ! i)" for xs
    by (induction xs arbitrary: u) (auto simp: nth_list_update)
  then show ?thesis using assms by (auto simp: set_run_def)
qed

lemma length_mark_slot [simp]: "length (mark_slot h slot u) = length u"
  by (simp add: mark_slot_def mark_run_def split: option.splits)

definition covers :: "region_header \<Rightarrow> nat \<Rightarrow> nat \<Rightarrow> bool" where
  "covers h slot i \<longleftrightarrow> (\<exists>l. location h slot = Some l \<and> 2 \<le> unat (loc_sector l)
     \<and> unat (loc_sector l) \<le> i \<and> i < min (unat (loc_sector l) + unat (loc_count l)) u32_max)"

lemma nth_mark_slot:
  "i < length u \<Longrightarrow> mark_slot h slot u ! i = (covers h slot i \<or> u ! i)"
  by (auto simp: mark_slot_def mark_run_def nth_set_run covers_def FIRST_CHUNK_SECTOR_def split: option.splits)

lemma length_from_header [simp]: "length (from_header h n) = max n 2"
proof -
  have "length (fold (mark_slot h) xs u) = length u" for xs u
    by (induction xs arbitrary: u) auto
  then show ?thesis by (simp add: from_header_def mark_run_def FIRST_CHUNK_SECTOR_def)
qed

lemma covers_occupied: "covers h slot i \<Longrightarrow> slot \<in> set (occupied_slots h)"
  by (auto simp: covers_def occupied_slots_def location_def decode_location_def split: if_splits)

lemma nth_from_header:
  assumes "i < max n 2"
  shows "from_header h n ! i = (i < 2 \<or> (\<exists>slot. covers h slot i))"
proof -
  have f: "i < length u \<Longrightarrow> fold (mark_slot h) xs u ! i = ((\<exists>slot \<in> set xs. covers h slot i) \<or> u ! i)" for xs u
    by (induction xs arbitrary: u) (auto simp: nth_mark_slot)
  show ?thesis
    unfolding from_header_def using assms covers_occupied [of h _ i]
    by (subst f) (auto simp: mark_run_def nth_set_run FIRST_CHUNK_SECTOR_def u32_max_def)
qed

lemma find_run_Some:
  assumes "find_run needed (drop index used) index st len = Some s"
    and "index \<le> length used" "st + len = index" "len < needed"
    and "\<forall>i. st \<le> i \<and> i < index \<longrightarrow> \<not> used ! i"
  shows "st \<le> s \<and> s + needed \<le> length used \<and> (\<forall>i. s \<le> i \<and> i < s + needed \<longrightarrow> \<not> used ! i)"
  using assms
proof (induction "length used - index" arbitrary: index st len)
  case 0
  then show ?case by simp
next
  case (Suc n)
  have i: "index < length used" using Suc.hyps(2) by simp
  have d: "drop index used = used ! index # drop (index + 1) used"
    using i by (simp add: Cons_nth_drop_Suc)
  have n: "n = length used - (index + 1)" using Suc.hyps(2) by simp
  show ?case
  proof (cases "used ! index")
    case True
    then have r: "find_run needed (drop (index + 1) used) (index + 1) (index + 1) 0 = Some s"
      using Suc.prems(1) by (simp add: d)
    have "index + 1 \<le> s \<and> s + needed \<le> length used \<and> (\<forall>i. s \<le> i \<and> i < s + needed \<longrightarrow> \<not> used ! i)"
      by (rule Suc.hyps(1) [OF n r]) (use i Suc.prems(4) in auto)
    then show ?thesis using Suc.prems(3) by auto
  next
    case False
    show ?thesis
    proof (cases "len + 1 = needed")
      case True
      then have "s = st" using Suc.prems(1) False by (simp add: d)
      then show ?thesis
        using True False i Suc.prems(3,5) by (auto simp: less_Suc_eq_le le_less)
    next
      case more: False
      then have r: "find_run needed (drop (index + 1) used) (index + 1) st (len + 1) = Some s"
        using Suc.prems(1) False by (simp add: d)
      show ?thesis
        using Suc.hyps(1) [OF n r] i Suc.prems(3,4,5) more False by (auto simp: less_Suc_eq)
    qed
  qed
qed

text \<open>An allocated run was free, or lies at the end of the bitmap; nothing else changes.\<close>

lemma allocate_spec:
  assumes a: "allocate used count = (s, used')"
    and l: "2 \<le> length used" "0 < count" "length used + count < u32_max"
  shows "2 \<le> s" "s \<le> length used" "length used' = max (length used) (s + count)"
    "length used' \<le> length used + count"
    "\<forall>i < length used'. used' ! i = ((s \<le> i \<and> i < s + count) \<or> (i < length used \<and> used ! i))"
    "\<forall>i. s \<le> i \<and> i < s + count \<and> i < length used \<longrightarrow> \<not> used ! i"
proof -
  have "2 \<le> s \<and> s \<le> length used \<and> length used' = max (length used) (s + count)
    \<and> length used' \<le> length used + count
    \<and> (\<forall>i < length used'. used' ! i = ((s \<le> i \<and> i < s + count) \<or> (i < length used \<and> used ! i)))
    \<and> (\<forall>i. s \<le> i \<and> i < s + count \<and> i < length used \<longrightarrow> \<not> used ! i)"
  proof (cases "find_run count (drop FIRST_CHUNK_SECTOR used) FIRST_CHUNK_SECTOR FIRST_CHUNK_SECTOR 0")
    case None
    have "s = length used" "used' = mark_run (used @ replicate count False) (length used) count"
      using a l None by (auto simp: allocate_def as_u32_def u32_max_def FIRST_CHUNK_SECTOR_def Let_def)
    then show ?thesis
      using l by (auto simp: mark_run_def nth_set_run nth_append u32_max_def)
  next
    case (Some t)
    have "2 \<le> t \<and> t + count \<le> length used \<and> (\<forall>i. t \<le> i \<and> i < t + count \<longrightarrow> \<not> used ! i)"
      by (rule find_run_Some [OF Some [unfolded FIRST_CHUNK_SECTOR_def]]) (use l in auto)
    then have t: "2 \<le> t" "t + count \<le> length used" "\<forall>i. t \<le> i \<and> i < t + count \<longrightarrow> \<not> used ! i"
      by blast+
    have "s = t" "used' = mark_run used t count"
      using a l Some t(2) by (auto simp: allocate_def as_u32_def u32_max_def)
    then show ?thesis
      using t l by (auto simp: mark_run_def nth_set_run)
  qed
  then show "2 \<le> s" "s \<le> length used" "length used' = max (length used) (s + count)"
    "length used' \<le> length used + count"
    "\<forall>i < length used'. used' ! i = ((s \<le> i \<and> i < s + count) \<or> (i < length used \<and> used ! i))"
    "\<forall>i. s \<le> i \<and> i < s + count \<and> i < length used \<longrightarrow> \<not> used ! i"
    by blast+
qed

section \<open>Locations\<close>

lemma bit_small_word:
  fixes w :: "'a::len word"
  assumes "unat w < 2 ^ k" "bit w n"
  shows "n < k"
proof -
  have "bit (unat w) n" using assms(2) by (simp add: bit_unsigned_iff)
  moreover have "take_bit k (unat w) = unat w" using assms(1) by (simp add: take_bit_nat_eq_self_iff)
  ultimately show ?thesis by (metis bit_take_bit_iff)
qed

lemma and_255: "(w :: u32) AND 255 = take_bit 8 w"
  by (simp add: take_bit_eq_mask mask_eq_exp_minus_1)

lemma decode_encode_location:
  assumes "unat (loc_sector l) < 16777216" "unat (loc_count l) < 256" "loc_count l \<noteq> 0"
  shows "decode_location (encode_location l) = Some l"
proof -
  obtain s c where l: "l = \<lparr>loc_sector = s, loc_count = c\<rparr>" by (cases l) auto
  have sb: "bit s n \<Longrightarrow> n < 24" for n
    using bit_small_word [of s 24 n] assms(1) by (simp add: l)
  have cb: "bit c n \<Longrightarrow> n < 8" for n
    using bit_small_word [of c 8 n] assms(2) by (simp add: l)
  have ca: "take_bit 8 c = c" by (rule bit_word_eqI) (auto simp: bit_simps dest: cb)
  have d: "drop_bit 8 (push_bit 8 s OR c) = s"
    by (rule bit_word_eqI) (auto simp: bit_simps dest: sb cb)
  have a: "take_bit 8 (push_bit 8 s OR c) = c"
    by (rule bit_word_eqI) (auto simp: bit_simps dest: cb)
  have "c \<noteq> 0" using assms(3) by (simp add: l)
  then have "push_bit 8 s OR c \<noteq> 0" using a by (metis take_bit_of_0)
  then show ?thesis
    using d a ca by (simp add: l decode_location_def encode_location_def and_255)
qed

section \<open>Soundness\<close>

text \<open>The header is what the first 8 KiB of the file say.\<close>

definition header_on :: "bytes \<Rightarrow> region_header \<Rightarrow> bool" where
  "header_on f h \<longleftrightarrow> 8192 \<le> length f
     \<and> (\<forall>slot < 1024. rh_locations h ! slot = word_at f (slot * 4)
          \<and> rh_timestamps h ! slot = word_at f (4096 + slot * 4))"

definition header_wf :: "region_header \<Rightarrow> bool" where
  "header_wf h \<longleftrightarrow> length (rh_locations h) = 1024 \<and> length (rh_timestamps h) = 1024"

definition run_of :: "chunk_location \<Rightarrow> nat set" where
  "run_of l = {unat (loc_sector l) ..< unat (loc_sector l) + unat (loc_count l)}"

text \<open>Every run lies behind the header, within \<open>n\<close> sectors, and no two overlap.\<close>

definition runs_ok :: "region_header \<Rightarrow> nat \<Rightarrow> bool" where
  "runs_ok h n \<longleftrightarrow>
     (\<forall>slot l. location h slot = Some l \<longrightarrow>
        2 \<le> unat (loc_sector l) \<and> 0 < unat (loc_count l)
        \<and> unat (loc_sector l) + unat (loc_count l) \<le> n)
     \<and> (\<forall>i j l m. i \<noteq> j \<longrightarrow> location h i = Some l \<longrightarrow> location h j = Some m \<longrightarrow> run_of l \<inter> run_of m = {})"

lemma sectors_of_eq:
  "length f \<le> 16777216 * 4096 \<Longrightarrow> sectors_of f = (length f + 4095) div 4096"
proof -
  assume "length f \<le> 16777216 * 4096"
  then have "(length f + 4095) div 4096 \<le> (16777216 * 4096 + 4095) div 4096"
    by (intro div_le_mono) simp
  then show ?thesis by (simp add: sectors_of_def as_u32_def SECTOR_BYTES_def)
qed

lemma parse_header_on:
  assumes "header_on f h" "header_wf h"
  shows "parse_header (take 8192 f) = Inr h"
proof -
  obtain ls ts where h: "h = \<lparr>rh_locations = ls, rh_timestamps = ts\<rparr>" by (cases h) auto
  have w: "word_at (take 8192 f) at = word_at f at" if "at + 4 \<le> 8192" for at
    using that by (simp add: word_at_def)
  have "map (\<lambda>slot. word_at (take 8192 f) (slot * 4)) [0..<1024] = ls"
    using assms by (intro nth_equalityI) (auto simp: h header_on_def header_wf_def w)
  moreover have "map (\<lambda>slot. word_at (take 8192 f) (4096 + slot * 4)) [0..<1024] = ts"
    using assms by (intro nth_equalityI) (auto simp: h header_on_def header_wf_def w)
  moreover have "8192 \<le> length f" using assms by (simp add: header_on_def)
  ultimately show ?thesis
    by (simp add: parse_header_def region_consts h del: upt_rec_numeral)
qed

lemma from_header_max: "from_header h (max n 2) = from_header h n"
  by (simp add: from_header_def FIRST_CHUNK_SECTOR_def)

lemma location_bound: "location h slot = Some l \<Longrightarrow> slot < length (rh_locations h)"
  by (simp add: location_def split: if_splits)

lemma location_nonempty: "location h slot = Some l \<Longrightarrow> unat (loc_sector l) < 16777216 \<and> unat (loc_count l) < 256"
proof -
  assume "location h slot = Some l"
  then obtain raw where l: "l = \<lparr>loc_sector = drop_bit 8 raw, loc_count = take_bit 8 raw\<rparr>"
    by (auto simp: location_def decode_location_def and_255 split: if_splits)
  have "unat (drop_bit 8 raw) = unat raw div 256" by (simp add: drop_bit_eq_div unat_div)
  moreover have "unat raw < 4294967296" using unsigned_less [of raw] by simp
  moreover have "unat (take_bit 8 raw) < 256"
    by (simp add: take_bit_eq_mod unat_mod)
  ultimately show ?thesis by (simp add: l)
qed

lemma covers_run:
  "covers h slot i \<longleftrightarrow> (\<exists>l. location h slot = Some l \<and> 2 \<le> unat (loc_sector l) \<and> i \<in> run_of l)"
  by (fastforce simp: covers_def run_of_def u32_max_def dest: location_nonempty)

lemma runs_ok_mono: "runs_ok h n \<Longrightarrow> n \<le> m \<Longrightarrow> runs_ok h m"
  unfolding runs_ok_def by (meson le_trans)

lemma runs_ok_covers:
  "runs_ok h n \<Longrightarrow> covers h slot i \<longleftrightarrow> (\<exists>l. location h slot = Some l \<and> i \<in> run_of l)"
  unfolding covers_run runs_ok_def by blast

section \<open>Reads\<close>

text \<open>What a read gives of a run, apart from the timestamp.\<close>

definition read_run :: "flate \<Rightarrow> bytes \<Rightarrow> chunk_location \<Rightarrow> nat \<Rightarrow> (compression \<times> bytes) server_result" where
  "read_run fl f l limit =
     (if unat (loc_sector l) < 2 then Inl CorruptData
      else if loc_count l = 0 then Inl CorruptData
      else if byte_offset l \<ge> length f then Inl CorruptData
      else
        (let usable = min (unat (loc_count l) * 4096) (length f - byte_offset l)
         in if usable < 5 then Inl CorruptData
            else
              (let len = unat (word_at f (byte_offset l)); codec_byte = f ! (byte_offset l + 4)
               in if len < 1 then Inl CorruptData
                  else if len - 1 > usable - 4 then Inl CorruptData
                  else if codec_byte AND 128 \<noteq> 0 then Inl Operational
                  else (case compression_from_id codec_byte of
                     None \<Rightarrow> Inl CorruptData
                   | Some c \<Rightarrow>
                      (case read_exact f (byte_offset l + 5) (len - 1) of
                         Inl e \<Rightarrow> Inl e
                       | Inr stored \<Rightarrow> map_sum id (\<lambda>data. (c, data)) (decompress fl c stored limit))))))"

definition with_time :: "u32 \<Rightarrow> compression \<times> bytes \<Rightarrow> stored_chunk option" where
  "with_time t cd = Some \<lparr>sc_compression = fst cd, sc_data = snd cd, sc_timestamp = t\<rparr>"

lemma read_chunk_at_eq:
  "read_chunk_at fl r slot limit =
     (case location (rf_header r) slot of
        None \<Rightarrow> Inr None
      | Some l \<Rightarrow> map_sum id (with_time (timestamp (rf_header r) slot)) (read_run fl (rf_file r) l limit))"
proof (cases "location (rf_header r) slot")
  case None
  then show ?thesis by (simp add: read_chunk_at_def)
next
  case (Some l)
  let ?f = "rf_file r" and ?o = "byte_offset l"
  have p: "read_exact ?f ?o 5 = Inr (slice ?f ?o 5)" "word_at (slice ?f ?o 5) 0 = word_at ?f ?o"
    "slice ?f ?o 5 ! 4 = ?f ! (?o + 4)"
    if "\<not> min (unat (loc_count l) * 4096) (length ?f - ?o) < 5"
  proof -
    have l5: "?o + 5 \<le> length ?f" using that by linarith
    then show "read_exact ?f ?o 5 = Inr (slice ?f ?o 5)" by (rule read_exact_slice)
    show "word_at (slice ?f ?o 5) 0 = word_at ?f ?o" "slice ?f ?o 5 ! 4 = ?f ! (?o + 4)"
      using l5 by (simp_all add: word_at_def)
  qed
  show ?thesis
    unfolding read_chunk_at_def read_run_def Some option.case region_consts EXTERNAL_STREAM_FLAG_def
    using p by (auto simp: Let_def with_time_def split: option.splits sum.splits simp del: min_less_iff_conj)
qed

lemma slice_sub: "m + k \<le> n \<Longrightarrow> slice f (off + m) k = slice (slice f off n) m k"
  by (simp add: slice_def drop_take add.commute min_absorb1)

text \<open>A run that could be read stays readable when the file grows and its bytes stay.\<close>

lemma read_run_stable:
  assumes r: "read_run fl f l limit = Inr x"
    and len: "length f \<le> length f'"
    and fits: "4 + unat (word_at f (byte_offset l)) \<le> unat (loc_count l) * 4096"
    and same: "slice f' (byte_offset l) (min (unat (loc_count l) * 4096) (length f - byte_offset l))
       = slice f (byte_offset l) (min (unat (loc_count l) * 4096) (length f - byte_offset l))"
  shows "read_run fl f' l limit = Inr x"
proof -
  let ?o = "byte_offset l" and ?u = "min (unat (loc_count l) * 4096) (length f - byte_offset l)"
  have ok: "\<not> unat (loc_sector l) < 2" "loc_count l \<noteq> 0" "?o < length f" "5 \<le> ?u"
    "\<not> unat (word_at f ?o) < 1" "unat (word_at f ?o) - 1 \<le> ?u - 4"
    using r by (auto simp: read_run_def Let_def split: if_splits simp del: min_less_iff_conj min.bounded_iff)
  have s: "slice f' (?o + m) k = slice f (?o + m) k" if "m + k \<le> ?u" for m k
    by (simp add: slice_sub [OF that] same)
  have o5: "?o + 5 \<le> length f" using ok(4) by linarith
  have w: "word_at f' ?o = word_at f ?o"
    using s [of 0 4] ok(4) o5 len by (simp add: word_at_slice)
  have "slice f' (?o + 4) 1 = slice f (?o + 4) 1" by (rule s) (use ok(4) in simp)
  then have "slice f' (?o + 4) 1 ! 0 = slice f (?o + 4) 1 ! 0" by simp
  then have b: "f' ! (?o + 4) = f ! (?o + 4)" using o5 len by simp
  let ?n = "unat (word_at f ?o) - 1"
  have u: "min (unat (loc_count l) * 4096) (length f' - ?o) \<ge> ?u" using len by auto
  note e = r [unfolded read_run_def Let_def]
  show ?thesis
  proof (cases "?n = ?u - 4")
    case True
    then have "\<not> ?o + 5 + ?n \<le> length f" using ok(3-6) fits by linarith
    then have "read_exact f (?o + 5) ?n = Inl CorruptData" by (simp add: read_exact_def)
    then show ?thesis using e ok by (simp split: if_splits option.splits)
  next
    case False
    then have n: "5 + ?n \<le> ?u" using ok(4,6) by linarith
    then have "?o + 5 + ?n \<le> length f" using ok(3) by linarith
    then have x: "read_exact f' (?o + 5) ?n = read_exact f (?o + 5) ?n"
      using s [of 5 ?n] n len by (simp add: read_exact_slice)
    have "\<not> min (unat (loc_count l) * 4096) (length f' - ?o) < 5"
      "\<not> ?n > min (unat (loc_count l) * 4096) (length f' - ?o) - 4"
      using u ok(4,6) by linarith+
    then show ?thesis
      using e ok w b x len by (auto simp: read_run_def Let_def simp del: One_nat_def split: if_splits option.splits sum.splits)
  qed
qed

section \<open>Steps of a write\<close>

text \<open>Every run has its length field on disk and the length stays within the run.\<close>

definition runs_filled :: "bytes \<Rightarrow> region_header \<Rightarrow> bool" where
  "runs_filled f h \<longleftrightarrow> (\<forall>slot l. location h slot = Some l \<longrightarrow>
     byte_offset l + 5 \<le> length f \<and> 4 + unat (word_at f (byte_offset l)) \<le> unat (loc_count l) * 4096)"

text \<open>A file with a header: what a region file on disk satisfies before and after each write.\<close>

definition disk_ok :: "bytes \<Rightarrow> region_header \<Rightarrow> bool" where
  "disk_ok f h \<longleftrightarrow> header_wf h \<and> header_on f h \<and> runs_ok h (max 2 (sectors_of f))
     \<and> runs_filled f h \<and> length f \<le> 16777216 * 4096"

definition opened :: "bytes \<Rightarrow> region_header \<Rightarrow> region_file" where
  "opened f h = \<lparr>rf_file = f, rf_header = h, rf_bitmap = from_header h (sectors_of f),
     rf_readonly = False, rf_journal = []\<rparr>"

lemma disk_ok_open:
  assumes "disk_ok f h"
  shows "open_region (Some f) ro = Inr ((opened f h)\<lparr>rf_readonly := ro\<rparr>)"
proof -
  have h: "header_on f h" "header_wf h" using assms by (auto simp: disk_ok_def)
  have l: "8192 \<le> length f" using h by (simp add: header_on_def)
  have "read_exact f 0 8192 = Inr (take 8192 f)" using l by (simp add: read_exact_def)
  moreover have "f \<noteq> []" using l by auto
  ultimately show ?thesis
    using l parse_header_on [OF h] by (simp add: open_region_def Let_def region_consts opened_def)
qed

text \<open>A region: its file is unused, or has a header that the memory mirrors.\<close>

definition region_sound :: "region_file \<Rightarrow> bool" where
  "region_sound r \<longleftrightarrow>
     rf_bitmap r = from_header (rf_header r) (sectors_of (rf_file r))
     \<and> (rf_file r = [] \<and> rf_header r = empty_header \<or> disk_ok (rf_file r) (rf_header r))"

text \<open>Opening the file again gives the state in memory.\<close>

lemma reopen:
  assumes "region_sound r"
  shows "open_region (Some (rf_file r)) ro = Inr (r\<lparr>rf_readonly := ro, rf_journal := []\<rparr>)"
proof (cases "rf_file r = []")
  case True
  have "sectors_of [] = 0" by (simp add: sectors_of_def as_u32_def SECTOR_BYTES_def)
  then have "rf_bitmap r = from_header empty_header 2" "rf_header r = empty_header"
    using assms True from_header_max [of empty_header 0]
    by (auto simp: region_sound_def disk_ok_def header_on_def)
  then show ?thesis
    using True by (cases r) (simp add: open_region_def Let_def FIRST_CHUNK_SECTOR_def)
next
  case False
  then have "disk_ok (rf_file r) (rf_header r)"
    and "rf_bitmap r = from_header (rf_header r) (sectors_of (rf_file r))"
    using assms by (auto simp: region_sound_def)
  then show ?thesis using disk_ok_open [of "rf_file r" "rf_header r" ro] by (cases r) (simp add: opened_def)
qed

definition slot_read :: "flate \<Rightarrow> bytes \<Rightarrow> region_header \<Rightarrow> nat \<Rightarrow> nat \<Rightarrow> (compression \<times> bytes) option server_result" where
  "slot_read fl f h slot limit =
     (case location h slot of
        None \<Rightarrow> Inr None | Some l \<Rightarrow> map_sum id Some (read_run fl f l limit))"

lemma header_on_write:
  assumes "header_on f h" "8192 \<le> off"
  shows "header_on (file_write f off b) h"
  using assms by (auto simp: header_on_def word_at_write_other)

lemma run_bytes:
  assumes "runs_ok h n" "location h slot = Some l"
  shows "8192 \<le> byte_offset l"
  using assms by (fastforce simp: runs_ok_def byte_offset_def SECTOR_BYTES_def)

text \<open>Writing to bytes that belong to no run, behind the header.\<close>

definition outside :: "region_header \<Rightarrow> bytes \<Rightarrow> nat \<Rightarrow> bytes \<Rightarrow> bool" where
  "outside h f off b \<longleftrightarrow> (\<forall>slot l. location h slot = Some l \<longrightarrow>
     byte_offset l + unat (loc_count l) * 4096 \<le> off \<or> off + length b \<le> byte_offset l)"

lemma outside_header: "runs_ok h n \<Longrightarrow> off + length b \<le> 8192 \<Longrightarrow> outside h f off b"
  unfolding outside_def by (meson run_bytes le_trans)

lemma outside_filled:
  assumes "runs_filled f h" "outside h f off b"
  shows "runs_filled (file_write f off b) h"
  unfolding runs_filled_def
proof (intro allI impI)
  fix slot l assume l: "location h slot = Some l"
  have f: "byte_offset l + 5 \<le> length f" "4 + unat (word_at f (byte_offset l)) \<le> unat (loc_count l) * 4096"
    using assms(1) l by (auto simp: runs_filled_def)
  have o: "byte_offset l + unat (loc_count l) * 4096 \<le> off \<or> off + length b \<le> byte_offset l"
    using assms(2) l by (auto simp: outside_def)
  have "0 < unat (loc_count l)" using f(2) by (cases "unat (loc_count l)") auto
  then have "byte_offset l + 4 \<le> off \<or> off + length b \<le> byte_offset l" using o by linarith
  then show "byte_offset l + 5 \<le> length (file_write f off b)
      \<and> 4 + unat (word_at (file_write f off b) (byte_offset l)) \<le> unat (loc_count l) * 4096"
    using f by (simp add: word_at_write_other)
qed

lemma outside_read:
  assumes "runs_filled f h" "outside h f off b" "slot_read fl f h slot limit = Inr x"
  shows "slot_read fl (file_write f off b) h slot limit = Inr x"
proof (cases "location h slot")
  case None
  then show ?thesis using assms(3) by (simp add: slot_read_def)
next
  case (Some l)
  obtain y where y: "read_run fl f l limit = Inr y" "x = Some y"
    using assms(3) Some by (cases "read_run fl f l limit") (auto simp: slot_read_def)
  have fits: "4 + unat (word_at f (byte_offset l)) \<le> unat (loc_count l) * 4096"
    using assms(1) Some by (auto simp: runs_filled_def)
  have "read_run fl (file_write f off b) l limit = Inr y"
  proof (rule read_run_stable [OF y(1) _ fits])
    let ?u = "min (unat (loc_count l) * 4096) (length f - byte_offset l)"
    have "byte_offset l + unat (loc_count l) * 4096 \<le> off \<or> off + length b \<le> byte_offset l"
      using assms(2) Some by (auto simp: outside_def)
    moreover have "byte_offset l + 5 \<le> length f" using assms(1) Some by (auto simp: runs_filled_def)
    ultimately show "slice (file_write f off b) (byte_offset l) ?u = slice f (byte_offset l) ?u"
      by (intro slice_file_write_other) linarith+
  qed simp
  then show ?thesis using Some y by (simp add: slot_read_def)
qed

lemma sectors_mono: "length f \<le> length f' \<Longrightarrow> length f' \<le> 16777216 * 4096 \<Longrightarrow> sectors_of f \<le> sectors_of f'"
  by (simp add: sectors_of_eq div_le_mono)

text \<open>The three kinds of write of a save, and what each leaves of the file.\<close>

lemma write_outside:
  assumes ok: "disk_ok f h" and off: "8192 \<le> off" "outside h f off b" "off + length b \<le> 16777216 * 4096"
  shows "disk_ok (file_write f off b) h"
proof -
  have "max 2 (sectors_of f) \<le> max 2 (sectors_of (file_write f off b))"
    using ok off by (intro max.mono order_refl sectors_mono) (auto simp: disk_ok_def)
  then show ?thesis
    using ok off runs_ok_mono [of h "max 2 (sectors_of f)"] header_on_write [of f h off b]
      outside_filled [of f h off b]
    by (simp add: disk_ok_def del: max.bounded_iff) (simp add: disk_ok_def)
qed

lemma word_at_write_slot:
  assumes "j \<noteq> slot" "n + j * 4 + 4 \<le> length f"
  shows "word_at (file_write f (n + slot * 4) (be_of 4 w)) (n + j * 4) = word_at f (n + j * 4)"
  using assms by (intro word_at_write_other) (auto simp: not_le)

lemma write_time:
  fixes t :: u32
  assumes ok: "disk_ok f h" and slot: "slot < 1024"
  defines "f' \<equiv> file_write f (4096 + slot * 4) (be_of 4 t)"
    and "h' \<equiv> h\<lparr>rh_timestamps := (rh_timestamps h)[slot := t]\<rparr>"
  shows "disk_ok f' h'" "slot_read fl f h j limit = Inr x \<Longrightarrow> slot_read fl f' h' j limit = Inr x"
proof -
  have h: "header_wf h" "header_on f h" "runs_ok h (max 2 (sectors_of f))" "runs_filled f h"
    "length f \<le> 16777216 * 4096" using ok by (auto simp: disk_ok_def)
  have len: "length f' = length f" using h(2) slot by (auto simp: f'_def header_on_def)
  have loc: "location h' = location h" by (simp add: h'_def location_def fun_eq_iff)
  have out: "outside h f (4096 + slot * 4) (be_of 4 t)"
    using slot by (intro outside_header [OF h(3)]) simp
  have "header_on f' h'"
    using h(1,2) slot
    by (auto simp: header_on_def header_wf_def f'_def h'_def word_at_write_other word_at_write_slot word_at_write_same nth_list_update)
  moreover have "runs_filled f' h'"
    using outside_filled [OF h(4) out] by (simp add: runs_filled_def loc f'_def)
  moreover have "runs_ok h' (max 2 (sectors_of f'))"
    using h(3) by (simp add: runs_ok_def loc sectors_of_def len)
  ultimately show "disk_ok f' h'"
    using h(1,5) len by (simp add: disk_ok_def header_wf_def h'_def)
  show "slot_read fl f' h' j limit = Inr x" if "slot_read fl f h j limit = Inr x"
    using outside_read [OF h(4) out that] by (simp add: slot_read_def loc f'_def)
qed


text \<open>The location word: the commit point of a save and of a removal.\<close>

definition free_for :: "bytes \<Rightarrow> region_header \<Rightarrow> nat \<Rightarrow> chunk_location \<Rightarrow> bool" where
  "free_for f h slot l \<longleftrightarrow>
     2 \<le> unat (loc_sector l) \<and> 0 < unat (loc_count l)
     \<and> unat (loc_sector l) + unat (loc_count l) \<le> max 2 (sectors_of f)
     \<and> byte_offset l + 5 \<le> length f \<and> 4 + unat (word_at f (byte_offset l)) \<le> unat (loc_count l) * 4096
     \<and> (\<forall>j m. j \<noteq> slot \<longrightarrow> location h j = Some m \<longrightarrow> run_of l \<inter> run_of m = {})"

lemma location_set:
  "header_wf h \<Longrightarrow> slot < 1024 \<Longrightarrow>
     location (h\<lparr>rh_locations := (rh_locations h)[slot := raw]\<rparr>) j
       = (if j = slot then decode_location raw else location h j)"
  by (simp add: location_def header_wf_def)

lemma write_location:
  fixes raw :: u32
  assumes ok: "disk_ok f h" and slot: "slot < 1024"
    and ready: "\<forall>l. decode_location raw = Some l \<longrightarrow> free_for f h slot l"
  defines "f' \<equiv> file_write f (slot * 4) (be_of 4 raw)"
    and "h' \<equiv> h\<lparr>rh_locations := (rh_locations h)[slot := raw]\<rparr>"
  shows "disk_ok f' h'"
    and "j \<noteq> slot \<Longrightarrow> slot_read fl f h j limit = Inr x \<Longrightarrow> slot_read fl f' h' j limit = Inr x"
    and "decode_location raw = Some l \<Longrightarrow> read_run fl f l limit = Inr y \<Longrightarrow>
      slot_read fl f' h' slot limit = Inr (Some y)"
    and "decode_location raw = None \<Longrightarrow> slot_read fl f' h' slot limit = Inr None"
proof -
  note l = ready [rule_format]
  have h: "header_wf h" "header_on f h" "runs_ok h (max 2 (sectors_of f))" "runs_filled f h"
    "length f \<le> 16777216 * 4096" using ok by (auto simp: disk_ok_def)
  have len: "length f' = length f" using h(2) slot by (auto simp: f'_def header_on_def)
  have loc: "location h' i = (if i = slot then decode_location raw else location h i)" for i
    using location_set [OF h(1) slot] by (simp add: h'_def)
  have out: "outside h f (slot * 4) (be_of 4 raw)"
    using slot by (intro outside_header [OF h(3)]) simp
  have behind: "8192 \<le> byte_offset l" if "decode_location raw = Some l" for l
    using l [OF that] by (simp add: free_for_def byte_offset_def SECTOR_BYTES_def)
  have word: "word_at f' (byte_offset l) = word_at f (byte_offset l)"
    if "decode_location raw = Some l" for l
    using behind [OF that] l [OF that] slot by (simp add: f'_def word_at_write_other free_for_def)
  have "header_on f' h'"
    using h(1,2) slot word_at_write_slot [of _ slot 0 f raw]
    by (auto simp: header_on_def header_wf_def f'_def h'_def word_at_write_other word_at_write_same nth_list_update)
  moreover have "runs_filled f' h'"
    using outside_filled [OF h(4) out] l word len
    by (auto simp: runs_filled_def loc f'_def free_for_def split: if_splits)
  moreover have "runs_ok h' (max 2 (sectors_of f'))"
    using h(3) l unfolding runs_ok_def loc free_for_def sectors_of_def len
    by (metis (no_types, lifting) Int_commute)
  ultimately show "disk_ok f' h'"
    using h(1,5) len by (simp add: disk_ok_def header_wf_def h'_def)
  show "slot_read fl f' h' j limit = Inr x" if "j \<noteq> slot" "slot_read fl f h j limit = Inr x"
    using outside_read [OF h(4) out that(2)] that(1) by (simp add: slot_read_def loc f'_def)
  show "slot_read fl f' h' slot limit = Inr None" if "decode_location raw = None"
    using that by (simp add: slot_read_def loc)
  show "slot_read fl f' h' slot limit = Inr (Some y)"
    if d: "decode_location raw = Some l" and y: "read_run fl f l limit = Inr y"
  proof -
    have "read_run fl f' l limit = Inr y"
    proof (rule read_run_stable [OF y])
      show "length f \<le> length f'" by (simp add: len)
      show "4 + unat (word_at f (byte_offset l)) \<le> unat (loc_count l) * 4096"
        using l [OF d] by (simp add: free_for_def)
      let ?u = "min (unat (loc_count l) * 4096) (length f - byte_offset l)"
      have "byte_offset l + ?u \<le> length f" using l [OF d] unfolding free_for_def by linarith
      then show "slice f' (byte_offset l) ?u = slice f (byte_offset l) ?u"
        unfolding f'_def using behind [OF d] slot by (intro slice_file_write_other) auto
    qed
    then show ?thesis by (simp add: slot_read_def loc d)
  qed
qed


section \<open>A save, step by step\<close>

lemma location_empty [simp]: "location empty_header slot = None"
  by (simp add: location_def empty_header_def decode_location_def)

lemma word_at_zeros: "at + 4 \<le> n \<Longrightarrow> word_at (replicate n 0) at = 0"
  by (simp add: word_at_def be_to_def)

lemma header_bytes_empty: "header_bytes empty_header = replicate 8192 0"
proof -
  have z: "be_of 4 (0 :: u32) = replicate 4 0" by (simp add: be_of_4 numeral_eq_Suc)
  have "concat (replicate n (replicate 4 (0 :: u8))) = replicate (n * 4) 0" for n
    by (induction n) (simp_all add: replicate_add)
  then show ?thesis
    by (simp add: header_bytes_def empty_header_def CHUNK_SLOTS_def map_replicate z flip: replicate_add)
qed

lemma disk_ok_fresh: "disk_ok (replicate 8192 0) empty_header"
proof -
  have "header_on (replicate 8192 0) empty_header"
    unfolding header_on_def by (auto simp: empty_header_def CHUNK_SLOTS_def word_at_zeros)
  then show ?thesis
    by (simp add: disk_ok_def header_wf_def empty_header_def [unfolded CHUNK_SLOTS_def]
          runs_ok_def runs_filled_def location_empty [unfolded empty_header_def CHUNK_SLOTS_def])
qed

definition with_header :: "region_file \<Rightarrow> bytes" where
  "with_header r = (if rf_file r = [] then replicate 8192 0 else rf_file r)"

lemma with_header_ok:
  assumes "region_sound r"
  shows "disk_ok (with_header r) (rf_header r)"
    and "rf_bitmap r = from_header (rf_header r) (sectors_of (with_header r))"
    and "slot_read fl (rf_file r) (rf_header r) j limit = Inr x \<Longrightarrow>
      slot_read fl (with_header r) (rf_header r) j limit = Inr x"
    and "2 \<le> sectors_of (with_header r)"
proof -
  have z: "sectors_of [] = 0" "sectors_of (replicate 8192 0) = 2"
    by (simp_all add: sectors_of_eq) (simp add: sectors_of_def as_u32_def SECTOR_BYTES_def)?
  show d: "disk_ok (with_header r) (rf_header r)"
    using assms disk_ok_fresh by (auto simp: region_sound_def with_header_def disk_ok_def header_on_def)
  show "rf_bitmap r = from_header (rf_header r) (sectors_of (with_header r))"
    using assms z from_header_max [of empty_header 0]
    by (auto simp: region_sound_def with_header_def disk_ok_def header_on_def)
  show "slot_read fl (with_header r) (rf_header r) j limit = Inr x"
    if "slot_read fl (rf_file r) (rf_header r) j limit = Inr x"
    using assms that
    by (auto simp: region_sound_def with_header_def disk_ok_def header_on_def slot_read_def)
  have "8192 \<le> length (with_header r)" "length (with_header r) \<le> 16777216 * 4096"
    using d by (auto simp: disk_ok_def header_on_def)
  then show "2 \<le> sectors_of (with_header r)"
    using div_le_mono [of "2 * 4096" "length (with_header r) + 4095" 4096]
    by (simp add: sectors_of_eq)
qed

lemma disjoint_intervals:
  fixes a b c d k :: nat
  assumes "{a..<a + b} \<inter> {c..<c + d} = {}" "0 < b" "0 < d"
  shows "a * k + b * k \<le> c * k \<or> c * k + d * k \<le> a * k"
proof -
  have "a + b \<le> c \<or> c + d \<le> a"
  proof (rule ccontr)
    assume "\<not> (a + b \<le> c \<or> c + d \<le> a)"
    then have "max a c \<in> {a..<a + b} \<inter> {c..<c + d}" using assms(2,3) by auto
    then show False using assms(1) by blast
  qed
  then show ?thesis by (metis add_mult_distrib mult_le_mono1)
qed

lemma ceil_max:
  fixes a t :: nat
  shows "(max a (t * 4096) + 4095) div 4096 = max ((a + 4095) div 4096) t"
proof (cases "a \<le> t * 4096")
  case True
  then have "(a + 4095) div 4096 \<le> (t * 4096 + 4095) div 4096" by (intro div_le_mono) simp
  then show ?thesis using True by (simp add: max_def)
next
  case False
  then have "t * 4096 div 4096 \<le> (a + 4095) div 4096" by (intro div_le_mono) simp
  then show ?thesis using False by (simp add: max_def)
qed

text \<open>The payload goes to an allocated run.\<close>

lemma write_payload:
  assumes ok: "disk_ok f h" and two: "2 \<le> sectors_of f" and room: "sectors_of f + 255 \<le> 16777216"
    and sc: "0 < sc" "sc \<le> 255" and b: "length b = sc * 4096"
    and a: "allocate (from_header h (sectors_of f)) sc = (s, used)"
  defines "f' \<equiv> file_write f (s * 4096) b"
  shows "disk_ok f' h" "slot_read fl f h j limit = Inr x \<Longrightarrow> slot_read fl f' h j limit = Inr x"
    and "2 \<le> s" "s + sc \<le> sectors_of f'" "length used = sectors_of f'" "sectors_of f' \<le> sectors_of f + 255"
    and "location h j = Some m \<Longrightarrow> {s..<s + sc} \<inter> run_of m = {}"
    and "\<forall>i < length used. used ! i = (i < 2 \<or> (s \<le> i \<and> i < s + sc) \<or> (\<exists>slot. covers h slot i))"
proof -
  let ?n = "sectors_of f" and ?u = "from_header h (sectors_of f)"
  have h: "runs_ok h ?n" "runs_filled f h" "length f \<le> 16777216 * 4096"
    using ok two by (auto simp: disk_ok_def max_def split: if_splits)
  have lu: "length ?u = ?n" using two by simp
  have s: "2 \<le> s" "s \<le> ?n" "length used = max ?n (s + sc)" "length used \<le> ?n + sc"
    "\<forall>i < length used. used ! i = ((s \<le> i \<and> i < s + sc) \<or> (i < ?n \<and> ?u ! i))"
    "\<forall>i. s \<le> i \<and> i < s + sc \<and> i < ?n \<longrightarrow> \<not> ?u ! i"
    using allocate_spec [OF a] two room sc by (auto simp: lu u32_max_def)
  have u: "?u ! i = (i < 2 \<or> (\<exists>slot. covers h slot i))" if "i < ?n" for i
    using nth_from_header [of i ?n h] that by simp
  have in_n: "i < ?n" if "location h j = Some m" "i \<in> run_of m" for i j m
    using h(1) that by (fastforce simp: runs_ok_def run_of_def)
  show dis: "{s..<s + sc} \<inter> run_of m = {}" if "location h j = Some m" for j m
    using s(6) u in_n [OF that] that runs_ok_covers [OF h(1)] by fastforce
  have "(?n + sc) * 4096 \<le> 16777216 * 4096" using room sc by simp
  then have bound: "s * 4096 + length b \<le> 16777216 * 4096" using s(2) b by (simp add: algebra_simps)
  have out: "outside h f (s * 4096) b"
    unfolding outside_def
  proof (intro allI impI)
    fix slot l assume l: "location h slot = Some l"
    have "0 < unat (loc_count l)" using h(1) l by (auto simp: runs_ok_def)
    then show "byte_offset l + unat (loc_count l) * 4096 \<le> s * 4096 \<or> s * 4096 + length b \<le> byte_offset l"
      using disjoint_intervals [of s sc "unat (loc_sector l)" "unat (loc_count l)" 4096] dis [OF l] sc
      by (auto simp: run_of_def byte_offset_def SECTOR_BYTES_def b)
  qed
  have off: "8192 \<le> s * 4096" using s(1) by simp
  show "disk_ok f' h"
    unfolding f'_def by (rule write_outside [OF ok off out bound])
  show "slot_read fl f' h j limit = Inr x" if "slot_read fl f h j limit = Inr x"
    unfolding f'_def by (rule outside_read [OF h(2) out that])
  have l': "length f' = max (length f) ((s + sc) * 4096)" by (simp add: f'_def b algebra_simps)
  have "length f' \<le> 16777216 * 4096" using h(3) bound by (simp add: f'_def)
  then have "sectors_of f' = (max (length f) ((s + sc) * 4096) + 4095) div 4096"
    using sectors_of_eq [of f'] by (simp add: l')
  also have "\<dots> = max ((length f + 4095) div 4096) (s + sc)"
    by (rule ceil_max)
  finally have sf: "sectors_of f' = max ?n (s + sc)" using sectors_of_eq [OF h(3)] by simp
  show "2 \<le> s" by (rule s(1))
  show "s + sc \<le> sectors_of f'" "length used = sectors_of f'" using sf s(3) by simp_all
  show "sectors_of f' \<le> sectors_of f + 255" using sf s(2) sc by simp
  show "\<forall>i < length used. used ! i = (i < 2 \<or> (s \<le> i \<and> i < s + sc) \<or> (\<exists>slot. covers h slot i))"
  proof (intro allI impI)
    fix i assume i: "i < length used"
    have c: "i < ?n" if "\<exists>slot. covers h slot i"
      using that runs_ok_covers [OF h(1)] in_n by blast
    show "used ! i = (i < 2 \<or> (s \<le> i \<and> i < s + sc) \<or> (\<exists>slot. covers h slot i))"
    proof (cases "i < ?n")
      case True
      then show ?thesis using s(5) i u by auto
    next
      case False
      then show ?thesis using s(5) i c two by auto
    qed
  qed
qed


lemma unat_of_nat_32: "n < 2 ^ 32 \<Longrightarrow> unat (of_nat n :: u32) = n"
  by (simp add: unsigned_of_nat take_bit_nat_eq_self_iff)

text \<open>What the written run holds.\<close>

lemma length_chunk_body:
  "length z + 5 \<le> sc * 4096 \<Longrightarrow> length (chunk_body c z sc) = sc * 4096"
  by (simp add: chunk_body_def Let_def SECTOR_BYTES_def)

lemma read_written:
  assumes f: "slice f (byte_offset l) (sc * 4096) = chunk_body c z sc"
    and l: "unat (loc_count l) = sc" "2 \<le> unat (loc_sector l)" "byte_offset l + sc * 4096 \<le> length f"
    and z: "length z + 5 \<le> sc * 4096" "sc \<le> 255"
  shows "unat (word_at f (byte_offset l)) = length z + 1"
    and "decompress fl c z limit = Inr data \<Longrightarrow> read_run fl f l limit = Inr (c, data)"
proof -
  let ?o = "byte_offset l"
  have part: "slice f (?o + m) k = slice (chunk_body c z sc) m k" if "m + k \<le> sc * 4096" for m k
    using slice_sub [OF that, of f ?o] f by simp
  have b: "chunk_body c z sc = be_of 4 (of_nat (length z + 1) :: u32) @ compression_id c # z
      @ replicate (sc * 4096 - (length z + 5)) 0"
    by (simp add: chunk_body_def Let_def SECTOR_BYTES_def)
  have o: "?o + 5 + length z \<le> length f" using l(3) z(1) by linarith
  have "slice f ?o 4 = be_of 4 (of_nat (length z + 1) :: u32)"
    using part [of 0 4] z(1) by (simp add: b slice_def)
  then have w: "word_at f ?o = of_nat (length z + 1)"
    using o by (simp add: word_at_slice del: of_nat_add)
  have "length z + 1 < 2 ^ 32" using z by simp
  then show u: "unat (word_at f ?o) = length z + 1"
    unfolding w by (rule unat_of_nat_32)
  have "slice f (?o + 4) 1 = [compression_id c]"
    using part [of 4 1] z(1) by (simp add: b slice_def)
  moreover have "slice f (?o + 4) 1 ! 0 = f ! (?o + 4)" using o by simp
  ultimately have k: "f ! (?o + 4) = compression_id c" by simp
  have "slice f (?o + 5) (length z) = z"
    using part [of 5 "length z"] z(1) by (simp add: b slice_def)
  then have r: "read_exact f (?o + 5) (length z) = Inr z"
    using o by (simp add: read_exact_slice)
  have "loc_count l \<noteq> 0" using l(1) z(1) by auto
  moreover have "\<not> min (unat (loc_count l) * 4096) (length f - ?o) - 4 < length z"
    "\<not> min (unat (loc_count l) * 4096) (length f - ?o) < 5"
    using l(1) z(1) o by linarith+
  moreover have "?o < length f" using o by simp
  ultimately show "read_run fl f l limit = Inr (c, data)" if "decompress fl c z limit = Inr data"
    using l(2) r that by (simp add: read_run_def Let_def u k)
qed


text \<open>The writes of a save, in order.\<close>

definition sectors_for :: "bytes \<Rightarrow> nat" where
  "sectors_for z = (length z + 5 + 4095) div 4096"

definition save_writes :: "region_file \<Rightarrow> nat \<Rightarrow> compression \<Rightarrow> bytes \<Rightarrow> u32 \<Rightarrow> nat \<Rightarrow> (nat \<times> bytes) list" where
  "save_writes r slot c z now s =
     (if rf_file r = [] then [(0, header_bytes (rf_header r))] else [])
     @ [(s * 4096, chunk_body c z (sectors_for z)),
        (4096 + slot * 4, be_of 4 now),
        (slot * 4, be_of 4 (encode_location \<lparr>loc_sector = of_nat s, loc_count = of_nat (sectors_for z)\<rparr>))]"

definition freed :: "bool list \<Rightarrow> chunk_location option \<Rightarrow> nat \<Rightarrow> nat \<Rightarrow> bool list" where
  "freed used previous s sc =
     (case previous of
        None \<Rightarrow> used
      | Some p \<Rightarrow>
          if unat (loc_sector p) = s \<and> unat (loc_count p) = sc then used
          else free_run used (unat (loc_sector p)) (unat (loc_count p)))"

lemma replay_append [simp]: "replay f (xs @ ys) = replay (replay f xs) ys"
  by (simp add: replay_def)

lemma write_chunk_at_Inr:
  assumes "write_chunk_at fl r slot data c now = (Inr (), r')" and wf: "header_wf (rf_header r)"
  obtains z s used where "compress fl c data = Inr z" "length z + 5 \<le> 255 * 4096" "slot < 1024"
    "\<not> rf_readonly r" "allocate (rf_bitmap r) (sectors_for z) = (s, used)"
    "r' = r\<lparr>rf_file := replay (rf_file r) (save_writes r slot c z now s),
            rf_header := set_location (rf_header r) slot
              (Some \<lparr>loc_sector = of_nat s, loc_count = of_nat (sectors_for z)\<rparr>) now,
            rf_bitmap := freed used (location (rf_header r) slot) s (sectors_for z),
            rf_journal := rf_journal r @ save_writes r slot c z now s\<rparr>"
proof -
  obtain f h bm ro jr where r: "r = \<lparr>rf_file = f, rf_header = h, rf_bitmap = bm, rf_readonly = ro, rf_journal = jr\<rparr>"
    by (cases r) auto
  obtain z where z: "compress fl c data = Inr z" and ok: "\<not> ro" "slot < 1024" "length z + 5 \<le> 255 * 4096"
    using assms(1) by (auto simp: write_chunk_at_def r Let_def region_consts split: if_splits sum.splits)
  obtain s used where a: "allocate bm (sectors_for z) = (s, used)" by fastforce
  have raw: "raw_location (set_location h slot (Some l) now) slot = encode_location l" for l
    using wf ok(2) by (simp add: raw_location_def set_location_def header_wf_def CHUNK_SLOTS_def r)
  have sc: "(length z + 1 + 4 + (4096 - 1)) div 4096 = sectors_for z"
    by (simp add: sectors_for_def)
  have e: "r' = r\<lparr>rf_file := replay f (save_writes r slot c z now s),
            rf_header := set_location h slot
              (Some \<lparr>loc_sector = of_nat s, loc_count = of_nat (sectors_for z)\<rparr>) now,
            rf_bitmap := freed used (location h slot) s (sectors_for z),
            rf_journal := jr @ save_writes r slot c z now s\<rparr>"
    using assms(1) ok z
    by (cases "f = []"; cases "location h slot")
      (auto simp: write_chunk_at_def r Let_def region_consts sc [simplified] a raw write_header_def
          write_all_at_def write_u32_at_def save_writes_def freed_def)
  show ?thesis
    by (rule that [OF z ok(3) ok(2) _ _ ]) (use ok a e in \<open>simp_all add: r\<close>)
qed


text \<open>The bitmap in memory after a save is the one the new header gives.\<close>

lemma freed_bitmap:
  assumes h: "header_wf h" "runs_ok h n" "slot < 1024"
    and l: "decode_location raw = Some l" "unat (loc_sector l) = s" "0 < sc" "2 \<le> s" "unat (loc_count l) = sc"
    and dis: "\<And>j m. location h j = Some m \<Longrightarrow> {s..<s + sc} \<inter> run_of m = {}"
    and used: "length used = k" "2 \<le> k"
      "\<forall>i < length used. used ! i = (i < 2 \<or> (s \<le> i \<and> i < s + sc) \<or> (\<exists>slot. covers h slot i))"
    and h': "rh_locations h' = (rh_locations h)[slot := raw]"
  shows "freed used (location h slot) s sc = from_header h' k"
proof (rule nth_equalityI)
  show "length (freed used (location h slot) s sc) = length (from_header h' k)"
    using used by (simp add: freed_def free_run_def split: option.splits)
next
  fix i assume "i < length (freed used (location h slot) s sc)"
  then have i: "i < length used" by (simp add: freed_def free_run_def split: option.splits if_splits)
  have loc: "location h' j = (if j = slot then Some l else location h j)" for j
    using h(1,3) l(1) by (simp add: location_def h' header_wf_def)
  have cov: "covers h' j i \<longleftrightarrow> (if j = slot then s \<le> i \<and> i < s + sc else covers h j i)" for j
    using l by (auto simp: covers_run loc run_of_def)
  have new: "from_header h' k ! i
      = (i < 2 \<or> (s \<le> i \<and> i < s + sc) \<or> (\<exists>j. j \<noteq> slot \<and> covers h j i))"
    using i used(1,2) by (subst nth_from_header) (auto simp: cov)
  have old: "freed used (location h slot) s sc ! i
      = (used ! i \<and> \<not> (\<exists>p. location h slot = Some p \<and> i \<in> run_of p))"
  proof (cases "location h slot")
    case None
    then show ?thesis by (simp add: freed_def)
  next
    case (Some p)
    have "s \<in> {s..<s + sc}" using l(3) by simp
    then have "s \<notin> run_of p" using dis [OF Some] by blast
    then have ne: "\<not> (unat (loc_sector p) = s \<and> unat (loc_count p) = sc)" using l(3) by (auto simp: run_of_def)
    have "unat (loc_sector p) + unat (loc_count p) \<le> u32_max"
      using location_nonempty [OF Some] by (simp add: u32_max_def)
    then show ?thesis
      using i ne by (auto simp: freed_def Some free_run_def nth_set_run run_of_def)
  qed
  have excl: "\<not> (i < 2 \<or> (s \<le> i \<and> i < s + sc) \<or> (\<exists>j. j \<noteq> slot \<and> covers h j i))"
    if p: "location h slot = Some p" "i \<in> run_of p" for p
  proof -
    have "2 \<le> i" using h(2) p by (fastforce simp: runs_ok_def run_of_def)
    moreover have "\<not> (s \<le> i \<and> i < s + sc)" using dis [OF p(1)] p(2) by auto
    moreover have "\<not> covers h j i" if "j \<noteq> slot" for j
      using h(2) p that unfolding runs_ok_covers [OF h(2)] runs_ok_def by blast
    ultimately show ?thesis by auto
  qed
  show "freed used (location h slot) s sc ! i = from_header h' k ! i"
  proof (cases "covers h slot i")
    case True
    then show ?thesis using excl by (simp add: old new runs_ok_covers [OF h(2)]) blast
  next
    case False
    then have "\<not> (\<exists>p. location h slot = Some p \<and> i \<in> run_of p)" by (simp add: runs_ok_covers [OF h(2)])
    moreover have "(\<exists>j. covers h j i) \<longleftrightarrow> (\<exists>j. j \<noteq> slot \<and> covers h j i)" using False by metis
    ultimately show ?thesis using used(3) i by (simp add: old new)
  qed
qed


lemma slot_read_chunk:
  "read_chunk_at fl r slot limit =
     map_sum id (\<lambda>y. Option.bind y (with_time (timestamp (rf_header r) slot)))
       (slot_read fl (rf_file r) (rf_header r) slot limit)"
proof (cases "location (rf_header r) slot")
  case None
  then show ?thesis by (simp add: read_chunk_at_eq slot_read_def)
next
  case (Some l)
  then show ?thesis
    by (cases "read_run fl (rf_file r) l limit") (simp_all add: read_chunk_at_eq slot_read_def)
qed

text \<open>
  The four files of a save: with a header, with the payload, with the timestamp, with
  the location. Each is a region file that opens; the first three hold the old chunk.
\<close>

lemma save_steps:
  fixes now :: u32 and c :: compression
  assumes r: "region_sound r" and room: "length (rf_bitmap r) + 255 \<le> 16777216"
    and z: "length z + 5 \<le> 255 * 4096" "slot < 1024"
    and a: "allocate (rf_bitmap r) (sectors_for z) = (s, used)"
  defines "h \<equiv> rf_header r"
    and "l \<equiv> \<lparr>loc_sector = of_nat s, loc_count = of_nat (sectors_for z)\<rparr>"
  defines "h2 \<equiv> h\<lparr>rh_timestamps := (rh_timestamps h)[slot := now]\<rparr>"
    and "h3 \<equiv> set_location h slot (Some l) now"
  defines "f0 \<equiv> with_header r"
  defines "f1 \<equiv> file_write f0 (s * 4096) (chunk_body c z (sectors_for z))"
  defines "f2 \<equiv> file_write f1 (4096 + slot * 4) (be_of 4 now)"
  defines "f3 \<equiv> file_write f2 (slot * 4) (be_of 4 (encode_location l))"
  shows "disk_ok f0 h" "disk_ok f1 h" "disk_ok f2 h2" "disk_ok f3 h3"
    and "slot_read fl (rf_file r) h j limit = Inr x \<Longrightarrow> slot_read fl f0 h j limit = Inr x"
    and "slot_read fl (rf_file r) h j limit = Inr x \<Longrightarrow> slot_read fl f1 h j limit = Inr x"
    and "slot_read fl (rf_file r) h j limit = Inr x \<Longrightarrow> slot_read fl f2 h2 j limit = Inr x"
    and "j \<noteq> slot \<Longrightarrow> slot_read fl (rf_file r) h j limit = Inr x \<Longrightarrow> slot_read fl f3 h3 j limit = Inr x"
    and "decompress fl c z limit = Inr data \<Longrightarrow> slot_read fl f3 h3 slot limit = Inr (Some (c, data))"
    and "freed used (location h slot) s (sectors_for z) = from_header h3 (sectors_of f3)"
    and "sectors_of f3 \<le> length (rf_bitmap r) + 255"
proof -
  let ?sc = "sectors_for z" and ?b = "chunk_body c z (sectors_for z)"
  have sc: "0 < ?sc" "?sc \<le> 255" "length z + 5 \<le> ?sc * 4096" using z(1) by (auto simp: sectors_for_def)
  have b: "length ?b = ?sc * 4096" by (rule length_chunk_body [OF sc(3)])
  have bm: "rf_bitmap r = from_header h (sectors_of f0)" "2 \<le> sectors_of f0"
    using with_header_ok [OF r] by (simp_all add: h_def f0_def)
  have room0: "sectors_of f0 + 255 \<le> 16777216" using room bm by simp
  show d0: "disk_ok f0 h" using with_header_ok(1) [OF r] by (simp add: h_def f0_def)
  note p = write_payload [OF d0 bm(2) room0 sc(1,2) b a [unfolded bm(1)], folded f1_def]
  have s: "s < 16777216" using p(4,6) room0 sc(1) by linarith
  have us: "unat (loc_sector l) = s" "unat (loc_count l) = ?sc"
    using s sc(2) by (simp_all add: l_def unat_of_nat_32)
  have ne: "loc_count l \<noteq> 0" using us(2) sc(1) by auto
  have dec: "decode_location (encode_location l) = Some l"
    using us ne s sc(2) by (intro decode_encode_location) auto
  have off: "byte_offset l = s * 4096" by (simp add: byte_offset_def SECTOR_BYTES_def us)
  note t = write_time [OF p(1) z(2), where t = now, folded f2_def h2_def]
  have head: "8192 \<le> length f1" using p(1) by (simp add: disk_ok_def header_on_def)
  have len2: "length f2 = length f1" using head z(2) by (simp add: f2_def)
  have len3: "length f3 = length f2" using head z(2) by (simp add: f3_def len2)
  have f1len: "s * 4096 + ?sc * 4096 \<le> length f1" by (simp add: f1_def b)
  have body1: "slice f1 (s * 4096) (?sc * 4096) = ?b"
    by (simp add: f1_def slice_file_write_same b) (simp add: slice_def b)
  have body2: "slice f2 (byte_offset l) (?sc * 4096) = ?b"
    unfolding f2_def off using f1len p(3) z(2) body1 by (subst slice_file_write_other) auto
  have wf: "header_wf h" using d0 by (simp add: disk_ok_def)
  have loc2: "location h2 = location h" by (simp add: h2_def location_def fun_eq_iff)
  have l2: "byte_offset l + ?sc * 4096 \<le> length f2" using f1len by (simp add: off len2)
  have ss: "2 \<le> unat (loc_sector l)" using p(3) by (simp add: us)
  note rw = read_written [OF body2 us(2) ss l2 sc(3,2)]
  have sec: "sectors_of f2 = sectors_of f1" "sectors_of f3 = sectors_of f1"
    by (simp_all add: sectors_of_def len2 len3)
  have free: "free_for f2 h2 slot l"
    unfolding free_for_def
  proof (intro conjI allI impI)
    show "unat (loc_sector l) + unat (loc_count l) \<le> max 2 (sectors_of f2)" using p(4) by (simp add: us sec)
    show "byte_offset l + 5 \<le> length f2" using l2 sc(3) by linarith
    show "4 + unat (word_at f2 (byte_offset l)) \<le> unat (loc_count l) * 4096" using sc(3) by (simp add: rw(1) us)
    show "run_of l \<inter> run_of m = {}" if "location h2 j = Some m" for j m
      using p(7) that by (simp add: loc2 run_of_def us)
  qed (use ss sc us in simp_all)
  have freel: "\<forall>k. decode_location (encode_location l) = Some k \<longrightarrow> free_for f2 h2 slot k"
    using free by (simp add: dec)
  have h3: "h3 = h2\<lparr>rh_locations := (rh_locations h2)[slot := encode_location l]\<rparr>"
    using z(2) by (cases h) (simp add: h3_def h2_def set_location_def CHUNK_SLOTS_def)
  note w = write_location [OF t(1) z(2) freel, folded f3_def, folded h3]
  show "disk_ok f1 h" by (rule p(1))
  show "disk_ok f2 h2" by (rule t(1))
  show "disk_ok f3 h3" by (rule w(1))
  show r0: "slot_read fl f0 h j limit = Inr x" if "slot_read fl (rf_file r) h j limit = Inr x" for j x
    using with_header_ok(3) [OF r] that by (simp add: h_def f0_def)
  show r1: "slot_read fl f1 h j limit = Inr x" if "slot_read fl (rf_file r) h j limit = Inr x" for j x
    by (rule p(2) [OF r0 [OF that]])
  show r2: "slot_read fl f2 h2 j limit = Inr x" if "slot_read fl (rf_file r) h j limit = Inr x" for j x
    by (rule t(2) [OF r1 [OF that]])
  show "slot_read fl f3 h3 j limit = Inr x" if "j \<noteq> slot" "slot_read fl (rf_file r) h j limit = Inr x"
    by (rule w(2) [OF that(1) r2 [OF that(2)]])
  show "slot_read fl f3 h3 slot limit = Inr (Some (c, data))" if "decompress fl c z limit = Inr data"
    by (rule w(3) [OF dec rw(2) [OF that]])
  show "freed used (location h slot) s ?sc = from_header h3 (sectors_of f3)"
  proof (rule freed_bitmap [OF wf _ z(2) dec us(1) sc(1) p(3) us(2) p(7)])
    show "runs_ok h (max 2 (sectors_of f0))" using d0 by (simp add: disk_ok_def)
    show "length used = sectors_of f3" using p(5) by (simp add: sec)
    show "2 \<le> sectors_of f3" using p(3,4) by (simp add: sec)
    show "rh_locations h3 = (rh_locations h)[slot := encode_location l]" by (simp add: h3 h2_def)
  qed (use p(8) in blast)+
  show "sectors_of f3 \<le> length (rf_bitmap r) + 255" using p(6) bm by (simp add: sec)
qed


section \<open>The laws\<close>

lemma opened_sound: "disk_ok f h \<Longrightarrow> region_sound (opened f h)"
  by (simp add: region_sound_def opened_def)

lemma timestamp_set:
  "header_wf h \<Longrightarrow> slot < 1024 \<Longrightarrow>
     timestamp (set_location h slot l now) j = (if j = slot then now else timestamp h j)"
  by (simp add: timestamp_def set_location_def header_wf_def CHUNK_SLOTS_def)

lemma slot_read_to_chunk:
  assumes "read_chunk_at fl r j limit = Inr x"
    and "timestamp h j = timestamp (rf_header r) j" "rf_file q = f" "rf_header q = h"
    and "\<And>y. slot_read fl (rf_file r) (rf_header r) j limit = Inr y \<Longrightarrow> slot_read fl f h j limit = Inr y"
  shows "read_chunk_at fl q j limit = Inr x"
  using assms
  by (cases "slot_read fl (rf_file r) (rf_header r) j limit") (auto simp: slot_read_chunk)

lemma save_result:
  assumes r: "region_sound r" "length (rf_bitmap r) + 255 \<le> 16777216"
    and w: "write_chunk_at fl r slot data c now = (Inr (), r')"
  obtains z s used where "compress fl c data = Inr z" "slot < 1024" "length z + 5 \<le> 255 * 4096"
    "allocate (rf_bitmap r) (sectors_for z) = (s, used)"
    "rf_file r' = replay (rf_file r) (save_writes r slot c z now s)"
    "rf_header r' = set_location (rf_header r) slot
       (Some \<lparr>loc_sector = of_nat s, loc_count = of_nat (sectors_for z)\<rparr>) now"
    "rf_bitmap r' = freed used (location (rf_header r) slot) s (sectors_for z)"
    "rf_journal r' = rf_journal r @ save_writes r slot c z now s"
    "rf_readonly r' = rf_readonly r"
proof -
  have wf: "header_wf (rf_header r)" using with_header_ok(1) [OF r(1)] by (simp add: disk_ok_def)
  show ?thesis by (rule write_chunk_at_Inr [OF w wf]) (rule that; simp)
qed

lemma replay_save:
  assumes "region_sound r"
  shows "replay (rf_file r) (save_writes r slot c z now s)
    = file_write (file_write (file_write (with_header r) (s * 4096) (chunk_body c z (sectors_for z)))
        (4096 + slot * 4) (be_of 4 now)) (slot * 4)
        (be_of 4 (encode_location \<lparr>loc_sector = of_nat s, loc_count = of_nat (sectors_for z)\<rparr>))"
proof (cases "rf_file r = []")
  case True
  then have "rf_header r = empty_header" using assms by (auto simp: region_sound_def disk_ok_def header_on_def)
  moreover have "file_write [] 0 b = b" for b by (simp add: file_write_def)
  ultimately show ?thesis using True by (simp add: save_writes_def with_header_def header_bytes_empty)
next
  case False
  then show ?thesis by (simp add: save_writes_def with_header_def)
qed

lemma write_chunk_sound:
  assumes r: "region_sound r" "length (rf_bitmap r) + 255 \<le> 16777216"
    and w: "write_chunk_at fl r slot data c now = (Inr (), r')"
  shows "region_sound r'" "length (rf_bitmap r') \<le> length (rf_bitmap r) + 255"
    and "rf_readonly r' = rf_readonly r"
    and "j \<noteq> slot \<Longrightarrow> read_chunk_at fl r j limit = Inr x \<Longrightarrow> read_chunk_at fl r' j limit = Inr x"
    and "flate_ok fl \<Longrightarrow> length data \<le> limit \<Longrightarrow> limit < u64_max \<Longrightarrow>
      read_chunk_at fl r' slot limit
        = Inr (Some \<lparr>sc_compression = c, sc_data = data, sc_timestamp = now\<rparr>)"
proof -
  obtain z s used where z: "compress fl c data = Inr z" "slot < 1024" "length z + 5 \<le> 255 * 4096"
    and a: "allocate (rf_bitmap r) (sectors_for z) = (s, used)"
    and f: "rf_file r' = replay (rf_file r) (save_writes r slot c z now s)"
    and h: "rf_header r' = set_location (rf_header r) slot
       (Some \<lparr>loc_sector = of_nat s, loc_count = of_nat (sectors_for z)\<rparr>) now"
    and b: "rf_bitmap r' = freed used (location (rf_header r) slot) s (sectors_for z)"
    and ro: "rf_readonly r' = rf_readonly r"
    by (rule save_result [OF r w])
  note st = save_steps [OF r z(3,2) a]
  note f' = f [unfolded replay_save [OF r(1)]]
  have wf: "header_wf (rf_header r)" using with_header_ok(1) [OF r(1)] by (simp add: disk_ok_def)
  have d: "disk_ok (rf_file r') (rf_header r')" unfolding f' h by (rule st(4))
  have bm: "rf_bitmap r' = from_header (rf_header r') (sectors_of (rf_file r'))"
    unfolding b unfolding f' h by (rule st(10))
  show "region_sound r'" using d bm by (simp add: region_sound_def)
  have "sectors_of (rf_file r') \<le> length (rf_bitmap r) + 255" unfolding f' by (rule st(11))
  then show "length (rf_bitmap r') \<le> length (rf_bitmap r) + 255"
    unfolding bm by simp
  show "rf_readonly r' = rf_readonly r" by (rule ro)
  show "read_chunk_at fl r' j limit = Inr x" if j: "j \<noteq> slot" and x: "read_chunk_at fl r j limit = Inr x"
  proof -
    have "slot_read fl (rf_file r') (rf_header r') j limit = Inr y"
      if "slot_read fl (rf_file r) (rf_header r) j limit = Inr y" for y
      unfolding f' h by (rule st(8) [OF j that])
    moreover have "timestamp (rf_header r') j = timestamp (rf_header r) j"
      using timestamp_set [OF wf z(2)] j by (simp add: h)
    ultimately show ?thesis using x slot_read_to_chunk [of fl r j limit x "rf_header r'" r' "rf_file r'"] by blast
  qed
  show "read_chunk_at fl r' slot limit
        = Inr (Some \<lparr>sc_compression = c, sc_data = data, sc_timestamp = now\<rparr>)"
    if "flate_ok fl" "length data \<le> limit" "limit < u64_max"
  proof -
    have "slot_read fl (rf_file r') (rf_header r') slot limit = Inr (Some (c, data))"
      unfolding f' h by (rule st(9)) (rule decompress_compress [OF that(1) z(1) that(2,3)])
    moreover have "timestamp (rf_header r') slot = now"
      using timestamp_set [OF wf z(2)] by (simp add: h)
    ultimately show ?thesis by (simp add: slot_read_chunk with_time_def)
  qed
qed


text \<open>Removal: the location word is cleared first, then the timestamp.\<close>

lemma removed_bitmap:
  assumes h: "header_wf h" "runs_ok h k" "2 \<le> k" and l: "location h slot = Some l"
    and h': "rh_locations h' = (rh_locations h)[slot := 0]"
  shows "free_run (from_header h k) (unat (loc_sector l)) (unat (loc_count l)) = from_header h' k"
proof (rule nth_equalityI)
  fix i assume "i < length (free_run (from_header h k) (unat (loc_sector l)) (unat (loc_count l)))"
  then have i: "i < max k 2" by (simp add: free_run_def)
  have slot: "slot < 1024" using location_bound [OF l] h(1) by (simp add: header_wf_def)
  have cov: "covers h' j i \<longleftrightarrow> j \<noteq> slot \<and> covers h j i" for j
  proof -
    have "location h' j = (if j = slot then None else location h j)"
      using h(1) slot by (simp add: location_def h' header_wf_def decode_location_def)
    then show ?thesis by (simp add: covers_run)
  qed
  have run: "unat (loc_sector l) \<le> i \<and> i < min (unat (loc_sector l) + unat (loc_count l)) u32_max
      \<longleftrightarrow> i \<in> run_of l"
    using location_nonempty [OF l] by (auto simp: run_of_def u32_max_def)
  have "covers h slot i \<longleftrightarrow> i \<in> run_of l" using runs_ok_covers [OF h(2)] l by auto
  moreover have "\<not> covers h j i" if "i \<in> run_of l" "j \<noteq> slot" for j
    using h(2) l that unfolding runs_ok_covers [OF h(2)] runs_ok_def by blast
  moreover have "2 \<le> i" if "i \<in> run_of l"
    using h(2) l that by (fastforce simp: runs_ok_def run_of_def)
  ultimately show "free_run (from_header h k) (unat (loc_sector l)) (unat (loc_count l)) ! i = from_header h' k ! i"
    using i run by (auto simp: free_run_def nth_set_run nth_from_header cov)
qed (simp add: free_run_def)

lemma remove_chunk_sound:
  assumes r: "region_sound r" and w: "remove_chunk_at r slot = (Inr b, r')"
  shows "region_sound r'" "b \<longleftrightarrow> has_chunk_at r slot" "read_chunk_at fl r' slot limit = Inr None"
    and "length (rf_bitmap r') = length (rf_bitmap r)"
    and "j \<noteq> slot \<Longrightarrow> read_chunk_at fl r j limit = Inr x \<Longrightarrow> read_chunk_at fl r' j limit = Inr x"
proof -
  have "region_sound r' \<and> (b \<longleftrightarrow> has_chunk_at r slot) \<and> read_chunk_at fl r' slot limit = Inr None
    \<and> length (rf_bitmap r') = length (rf_bitmap r)
    \<and> (j \<noteq> slot \<longrightarrow> (\<forall>x. read_chunk_at fl r j limit = Inr x \<longrightarrow> read_chunk_at fl r' j limit = Inr x))"
  proof (cases "location (rf_header r) slot")
    case None
    then show ?thesis
      using r w by (auto simp: remove_chunk_at_def has_chunk_at_def read_chunk_at_def)
  next
    case (Some l)
    let ?f = "rf_file r" and ?h = "rf_header r"
    let ?h1 = "?h\<lparr>rh_locations := (rh_locations ?h)[slot := 0]\<rparr>"
    let ?h2 = "?h1\<lparr>rh_timestamps := (rh_timestamps ?h1)[slot := 0]\<rparr>"
    let ?f1 = "file_write ?f (slot * 4) (be_of 4 (0 :: u32))"
    let ?f2 = "file_write ?f1 (4096 + slot * 4) (be_of 4 (0 :: u32))"
    have d: "disk_ok ?f ?h" using r Some by (auto simp: region_sound_def)
    then have wf: "header_wf ?h" and ro: "runs_ok ?h (max 2 (sectors_of ?f))"
      and len: "8192 \<le> length ?f" by (auto simp: disk_ok_def header_on_def)
    have slot: "slot < 1024" using location_bound [OF Some] wf by (simp add: header_wf_def)
    have none: "decode_location 0 = None" by (simp add: decode_location_def)
    have ready: "\<forall>l. decode_location 0 = Some l \<longrightarrow> free_for ?f ?h slot l" by (simp add: none)
    note l1 = write_location [OF d slot ready]
    note t = write_time [OF l1(1) slot, where t = 0]
    have h2: "set_location ?h slot None 0 = ?h2"
      using slot by (cases ?h) (simp add: set_location_def CHUNK_SLOTS_def)
    have r': "b" "r' = r\<lparr>rf_file := ?f2, rf_header := ?h2,
          rf_bitmap := free_run (rf_bitmap r) (unat (loc_sector l)) (unat (loc_count l)),
          rf_journal := rf_journal r @ [(slot * 4, be_of 4 (0 :: u32)), (4096 + slot * 4, be_of 4 (0 :: u32))]\<rparr>"
      using w Some
      by (auto simp: remove_chunk_at_def Let_def h2 write_u32_at_def write_all_at_def SECTOR_BYTES_def
            split: if_splits)
    have sec: "sectors_of ?f2 = sectors_of ?f" using len slot by (simp add: sectors_of_def)
    have bm: "rf_bitmap r = from_header ?h (max 2 (sectors_of ?f))"
      using r from_header_max [of ?h "sectors_of ?f"] by (simp add: region_sound_def max.commute)
    have "rf_bitmap r' = from_header ?h2 (max 2 (sectors_of ?f))"
      using removed_bitmap [OF wf ro _ Some, of ?h2] by (simp add: r' bm)
    then have sound: "region_sound r'"
      using t(1) sec from_header_max [of ?h2 "sectors_of ?f"]
      by (simp add: region_sound_def r' max.commute del: max.commute) (simp add: max.commute)
    have gone: "read_chunk_at fl r' slot limit = Inr None"
      using l1(4) [OF none] t(2) by (simp add: slot_read_chunk r')
    have keep: "read_chunk_at fl r' j limit = Inr x"
      if j: "j \<noteq> slot" and x: "read_chunk_at fl r j limit = Inr x" for x
    proof (rule slot_read_to_chunk [OF x])
      show "timestamp ?h2 j = timestamp ?h j" using j by (simp add: timestamp_def)
      show "slot_read fl ?f2 ?h2 j limit = Inr y" if "slot_read fl ?f ?h j limit = Inr y" for y
        by (rule t(2) [OF l1(2) [OF j that]])
    qed (simp_all add: r')
    show ?thesis using r' sound gone keep Some by (simp add: has_chunk_at_def free_run_def)
  qed
  then show "region_sound r'" "b \<longleftrightarrow> has_chunk_at r slot" "read_chunk_at fl r' slot limit = Inr None"
    "length (rf_bitmap r') = length (rf_bitmap r)"
    "j \<noteq> slot \<Longrightarrow> read_chunk_at fl r j limit = Inr x \<Longrightarrow> read_chunk_at fl r' j limit = Inr x"
    by blast+
qed

end
