(* ===== verification/RegionStore.thy ===== *)
theory RegionStore
  imports RegionLaws
begin

text \<open>
  The properties of the region file, and the contract it offers the world storage: a
  store of chunks whose writes are read back and disturb no other chunk.
\<close>

text \<open>When a save succeeds, and that a refused save changes nothing.\<close>

lemma write_chunk_at_result:
  "write_chunk_at fl r slot data c now = (res, r') \<Longrightarrow>
     res = (if rf_readonly r then Inl Operational
            else if 1024 \<le> slot then Inl CorruptData
            else case compress fl c data of
                Inl e \<Rightarrow> Inl e
              | Inr z \<Rightarrow> if 255 * 4096 < length z + 5 then Inl Invariant else Inr ())
     \<and> (is_ok res \<or> r' = r)"
  by (auto simp: write_chunk_at_def Let_def region_consts split: if_splits sum.splits prod.splits option.splits)

text \<open>The file after some of the writes of a save is one of the five files of its steps.\<close>

lemma replay_prefix:
  assumes r: "region_sound r" and ws: "writes = save_writes r slot c z now s"
  defines "f1 \<equiv> file_write (with_header r) (s * 4096) (chunk_body c z (sectors_for z))"
  defines "f2 \<equiv> file_write f1 (4096 + slot * 4) (be_of 4 now)"
  shows "replay (rf_file r) (take k writes) \<in> {rf_file r, with_header r, f1, f2}
    \<or> length writes \<le> k \<and> replay (rf_file r) (take k writes) = replay (rf_file r) writes"
proof (cases "length writes \<le> k")
  case False
  have zero: "file_write [] 0 b = b" for b by (simp add: file_write_def)
  consider "k = 0" | "k = 1" | "k = 2" | "k = 3 \<and> rf_file r = []"
    using False by (simp add: ws save_writes_def split: if_splits) linarith+
  then show ?thesis
  proof cases
    case 1
    then show ?thesis by simp
  next
    case 2
    then show ?thesis
      using r by (auto simp: ws save_writes_def f1_def with_header_def header_bytes_empty zero
          region_sound_def disk_ok_def header_on_def)
  next
    case 3
    then show ?thesis
      using r by (auto simp: ws save_writes_def f1_def f2_def with_header_def header_bytes_empty zero
          region_sound_def disk_ok_def header_on_def numeral_2_eq_2)
  next
    case 4
    then show ?thesis
      using r by (auto simp: ws save_writes_def f1_def f2_def with_header_def header_bytes_empty zero
          region_sound_def disk_ok_def header_on_def numeral_3_eq_3)
  qed
qed simp

definition survives :: "flate \<Rightarrow> region_file \<Rightarrow> nat \<Rightarrow> bool \<Rightarrow> bytes \<Rightarrow> bool" where
  "survives fl r slot old f \<longleftrightarrow> (\<exists>q. open_region (Some f) False = Inr q \<and> region_sound q
    \<and> (\<forall>j limit x. j \<noteq> slot \<longrightarrow> read_chunk_at fl r j limit = Inr x \<longrightarrow> read_chunk_at fl q j limit = Inr x)
    \<and> (old \<longrightarrow> (\<forall>limit x. read_chunk_at fl r slot limit = Inr x \<longrightarrow>
         (\<exists>t. read_chunk_at fl q slot limit = Inr (map_option (\<lambda>ch. ch\<lparr>sc_timestamp := t\<rparr>) x)))))"

lemma survivesI:
  assumes d: "disk_ok f h"
    and keep: "\<And>j limit y. j \<noteq> slot \<or> old \<Longrightarrow> slot_read fl (rf_file r) (rf_header r) j limit = Inr y \<Longrightarrow>
      slot_read fl f h j limit = Inr y"
    and times: "\<And>j. j \<noteq> slot \<Longrightarrow> timestamp h j = timestamp (rf_header r) j"
  shows "survives fl r slot old f"
  unfolding survives_def
proof (intro exI conjI allI impI)
  let ?q = "opened f h"
  show "open_region (Some f) False = Inr ?q" using disk_ok_open [OF d] by (simp add: opened_def)
  show "region_sound ?q" by (rule opened_sound [OF d])
  show "read_chunk_at fl ?q j limit = Inr x" if "j \<noteq> slot" "read_chunk_at fl r j limit = Inr x" for j limit x
    by (rule slot_read_to_chunk [OF that(2) times [OF that(1)]]) (use keep that in \<open>auto simp: opened_def\<close>)
  show "read_chunk_at fl ?q slot limit = Inr (map_option (\<lambda>ch. ch\<lparr>sc_timestamp := timestamp h slot\<rparr>) x)"
    if old "read_chunk_at fl r slot limit = Inr x" for limit x
    using that keep [of slot limit]
    by (cases "slot_read fl (rf_file r) (rf_header r) slot limit")
      (auto simp: slot_read_chunk opened_def with_time_def bind_eq_Some_conv split: bind_splits)
qed

lemma survives_same: "region_sound r \<Longrightarrow> survives fl r slot old (rf_file r)"
  unfolding survives_def
proof (intro exI conjI allI impI)
  let ?q = "r\<lparr>rf_readonly := False, rf_journal := []\<rparr>"
  assume r: "region_sound r"
  show "open_region (Some (rf_file r)) False = Inr ?q" by (rule reopen [OF r])
  show "region_sound ?q" using r by (simp add: region_sound_def)
  show "read_chunk_at fl ?q j limit = Inr x" if "read_chunk_at fl r j limit = Inr x" for j limit x
    using that by (simp add: slot_read_chunk)
  show "read_chunk_at fl ?q slot limit
      = Inr (map_option (\<lambda>ch. ch\<lparr>sc_timestamp := timestamp (rf_header r) slot\<rparr>) x)"
    if "read_chunk_at fl r slot limit = Inr x" for limit x
    using that
    by (cases "slot_read fl (rf_file r) (rf_header r) slot limit")
      (auto simp: slot_read_chunk with_time_def split: bind_splits)
qed

lemma interrupted_states:
  assumes r: "region_sound r" "length (rf_bitmap r) + 255 \<le> 16777216"
    and w: "write_chunk_at fl r slot data c now = (Inr (), r')"
    and j: "rf_journal r' = rf_journal r @ writes"
  shows "survives fl r slot (k < length writes) (replay (rf_file r) (take k writes))"
proof -
  obtain z s used where z: "compress fl c data = Inr z" "slot < 1024" "length z + 5 \<le> 255 * 4096"
    and a: "allocate (rf_bitmap r) (sectors_for z) = (s, used)"
    and ws: "rf_journal r' = rf_journal r @ save_writes r slot c z now s"
    by (rule save_result [OF r w])
  have wr: "writes = save_writes r slot c z now s" using j ws by simp
  note st = save_steps [OF r z(3,2) a]
  have wf: "header_wf (rf_header r)" using with_header_ok(1) [OF r(1)] by (simp add: disk_ok_def)
  have last: "survives fl r slot False (replay (rf_file r) writes)"
    unfolding wr replay_save [OF r(1)]
  proof (rule survivesI [OF st(4)])
    show "timestamp (set_location (rf_header r) slot l now) j = timestamp (rf_header r) j" if "j \<noteq> slot" for j l
      using timestamp_set [OF wf z(2)] that by simp
  qed (use st(8) in blast)
  have before: "survives fl r slot b f"
    if "f \<in> {rf_file r, with_header r, file_write (with_header r) (s * 4096) (chunk_body c z (sectors_for z)),
      file_write (file_write (with_header r) (s * 4096) (chunk_body c z (sectors_for z)))
        (4096 + slot * 4) (be_of 4 now)}" for b f
    using that
  proof (elim insertE emptyE)
    assume "f = rf_file r"
    then show ?thesis using survives_same [OF r(1)] by simp
  next
    assume f: "f = with_header r"
    show ?thesis unfolding f by (rule survivesI [OF st(1)]) (use st(5) in auto)
  next
    assume f: "f = file_write (with_header r) (s * 4096) (chunk_body c z (sectors_for z))"
    show ?thesis unfolding f by (rule survivesI [OF st(2)]) (use st(6) in auto)
  next
    assume f: "f = file_write (file_write (with_header r) (s * 4096) (chunk_body c z (sectors_for z)))
        (4096 + slot * 4) (be_of 4 now)"
    show ?thesis unfolding f
      by (rule survivesI [OF st(3)]) (use st(7) in \<open>auto simp: timestamp_def\<close>)
  qed
  show ?thesis
    using replay_prefix [OF r(1) wr, of k] before last by auto
qed

text \<open>A region without a file.\<close>

definition fresh_region :: region_file where
  "fresh_region = \<lparr>rf_file = [], rf_header = empty_header,
     rf_bitmap = from_header empty_header FIRST_CHUNK_SECTOR, rf_readonly = False, rf_journal = []\<rparr>"

lemma open_fresh: "open_region None False = Inr fresh_region"
  by (simp add: open_region_def fresh_region_def Let_def)

lemma fresh_sound: "region_sound fresh_region"
proof -
  have "sectors_of [] = 0" by (simp add: sectors_of_def as_u32_def SECTOR_BYTES_def)
  then show ?thesis
    using from_header_max [of empty_header 0]
    by (simp add: region_sound_def fresh_region_def FIRST_CHUNK_SECTOR_def)
qed

lemma fresh_bitmap [simp]: "length (rf_bitmap fresh_region) = 2"
  by (simp add: fresh_region_def FIRST_CHUNK_SECTOR_def)

lemma fresh_fields [simp]: "rf_file fresh_region = []" "rf_journal fresh_region = []"
  by (simp_all add: fresh_region_def)

definition demo_save :: "unit server_result \<times> region_file" where
  "demo_save = write_chunk_at plain_flate fresh_region 5 [1, 2, 3] Stored 7"

lemma demo_save_ok: "demo_save = (Inr (), snd demo_save)"
  using write_chunk_at_result [of plain_flate fresh_region 5 "[1, 2, 3]" Stored 7 "fst demo_save" "snd demo_save"]
  by (simp add: demo_save_def fresh_region_def prod_eq_iff)

text \<open>
  C15. A successful save of a chunk leaves a consistent region: the header, the bitmap
  and the runs in memory are exactly what opening the file again gives, the slot reads
  back the saved bytes, codec and time, and every other chunk that could be read still
  reads the same. (The bound keeps the file below 64 GiB, where a location still fits
  its 24 bits.)
\<close>

theorem region_save:
  assumes "flate_ok fl" and "region_sound r" and "length (rf_bitmap r) + 255 \<le> 16777216"
    and "write_chunk_at fl r slot data c now = (Inr (), r')"
    and "length data \<le> limit" and "limit < u64_max"
  shows "region_sound r'
    \<and> open_region (Some (rf_file r')) False = Inr (r'\<lparr>rf_readonly := False, rf_journal := []\<rparr>)
    \<and> read_chunk_at fl r' slot limit = Inr (Some \<lparr>sc_compression = c, sc_data = data, sc_timestamp = now\<rparr>)
    \<and> (\<forall>j x. j \<noteq> slot \<longrightarrow> read_chunk_at fl r j limit = Inr x \<longrightarrow> read_chunk_at fl r' j limit = Inr x)"
  using write_chunk_sound [OF assms(2-4)] reopen assms(1,5,6) by blast

theorem region_save_witness:
  "\<exists>r'. write_chunk_at plain_flate fresh_region 5 [1, 2, 3] Stored 7 = (Inr (), r')
     \<and> read_chunk_at plain_flate r' 5 100 = Inr (Some \<lparr>sc_compression = Stored, sc_data = [1, 2, 3], sc_timestamp = 7\<rparr>)"
  using region_save [OF plain_flate_ok fresh_sound _ demo_save_ok [unfolded demo_save_def], of 100] demo_save_ok
  by (auto simp: demo_save_def u64_max_def)

text \<open>
  C16. A save interrupted between two of its file writes loses nothing: after any number
  of them the file still opens to a consistent region in which every other chunk reads
  as before, and until the last write, the location word, the slot being saved still
  reads as the old chunk (with the new time once that has been written).
\<close>

theorem interrupted_save:
  assumes "region_sound r" and "length (rf_bitmap r) + 255 \<le> 16777216"
    and "write_chunk_at fl r slot data c now = (Inr (), r')"
    and "rf_journal r' = rf_journal r @ writes"
  shows "\<exists>q. open_region (Some (replay (rf_file r) (take k writes))) False = Inr q
    \<and> region_sound q
    \<and> (\<forall>j limit x. j \<noteq> slot \<longrightarrow> read_chunk_at fl r j limit = Inr x \<longrightarrow> read_chunk_at fl q j limit = Inr x)
    \<and> (k < length writes \<longrightarrow> (\<forall>limit x. read_chunk_at fl r slot limit = Inr x \<longrightarrow>
         (\<exists>t. read_chunk_at fl q slot limit = Inr (map_option (\<lambda>ch. ch\<lparr>sc_timestamp := t\<rparr>) x))))"
  using interrupted_states [OF assms] unfolding survives_def .


theorem interrupted_save_witness:
  "\<exists>writes. rf_journal (snd demo_save) = writes \<and> length writes = 4
     \<and> (\<exists>q. open_region (Some (replay [] (take 2 writes))) False = Inr q
          \<and> read_chunk_at plain_flate q 5 100 = Inr None)"
proof -
  have l: "length (rf_bitmap fresh_region) + 255 \<le> 16777216" by simp
  note w = demo_save_ok [unfolded demo_save_def]
  obtain z s used where "rf_journal (snd demo_save) = rf_journal fresh_region @ save_writes fresh_region 5 Stored z 7 s"
    unfolding demo_save_def by (rule save_result [OF fresh_sound l w])
  then have j: "rf_journal (snd demo_save) = save_writes fresh_region 5 Stored z 7 s"
    by (simp add: fresh_region_def)
  let ?ws = "save_writes fresh_region 5 Stored z 7 s"
  have n: "length ?ws = 4" by (simp add: save_writes_def fresh_region_def)
  have none: "read_chunk_at plain_flate fresh_region 5 100 = Inr None"
    by (simp add: read_chunk_at_def fresh_region_def)
  have js: "rf_journal (snd (write_chunk_at plain_flate fresh_region 5 [1, 2, 3] Stored 7)) = rf_journal fresh_region @ ?ws"
    using j by (simp add: demo_save_def)
  obtain q where q: "open_region (Some (replay [] (take 2 ?ws))) False = Inr q"
    "\<forall>limit x. read_chunk_at plain_flate fresh_region 5 limit = Inr x \<longrightarrow>
       (\<exists>t. read_chunk_at plain_flate q 5 limit = Inr (map_option (\<lambda>ch. ch\<lparr>sc_timestamp := t\<rparr>) x))"
    using interrupted_save [OF fresh_sound l w js, of 2] n by auto
  have "read_chunk_at plain_flate q 5 100 = Inr None" using q(2) none by fastforce
  then show ?thesis using j n q(1) by blast
qed

text \<open>
  Removing a chunk reports whether there was one, leaves a consistent region with
  the slot empty and its sectors free, and touches no other chunk.
\<close>

theorem region_remove:
  assumes "region_sound r" and "remove_chunk_at r slot = (Inr b, r')"
  shows "(b \<longleftrightarrow> has_chunk_at r slot) \<and> region_sound r' \<and> \<not> has_chunk_at r' slot
    \<and> (\<forall>j limit x. j \<noteq> slot \<longrightarrow> read_chunk_at fl r j limit = Inr x \<longrightarrow> read_chunk_at fl r' j limit = Inr x)"
proof -
  have "read_chunk_at fl r' slot 0 = Inr None" by (rule remove_chunk_sound(3) [OF assms])
  then have "location (rf_header r') slot = None"
    by (auto simp: read_chunk_at_eq with_time_def split: option.splits)
      (metis (no_types, lifting) map_sum.simps(1) map_sum.simps(2) obj_sumE option.distinct(1) sum.inject(2) sum.distinct(1) with_time_def)
  then show ?thesis
    using remove_chunk_sound(1,2,5) [OF assms] by (auto simp: has_chunk_at_def)
qed

theorem region_remove_witness:
  "\<exists>r'. remove_chunk_at fresh_region 5 = (Inr False, r') \<and> region_sound r' \<and> \<not> has_chunk_at fresh_region 5"
proof -
  have "remove_chunk_at fresh_region 5 = (Inr False, fresh_region)"
    by (simp add: remove_chunk_at_def fresh_region_def)
  then show ?thesis using region_remove [OF fresh_sound, of 5 False fresh_region plain_flate] by auto
qed

text \<open>
  The bound on the length field is one byte too generous: a payload may end one byte
  past its run, in the next chunk's first sector.
\<close>

lemma read_past_run:
  assumes "2 \<le> unat (loc_sector l)" "loc_count l = 1" "byte_offset l + 8192 \<le> length f"
    and "word_at f (byte_offset l) = 4093" "f ! (byte_offset l + 4) = 3"
  shows "read_run fl f l 5000 = Inr (Stored, slice f (byte_offset l + 5) 4092)"
    and "byte_offset l + 5 + 4092 = (byte_offset l + unat (loc_count l) * 4096) + 1"
  using assms read_exact_slice [of "byte_offset l + 5" 4092 f]
  by (simp_all add: read_run_def compression_from_id_def Let_def)

section \<open>A store of chunks\<close>

text \<open>
  What the world storage relies on: a successful write is read back and disturbs no
  other key, a failed one changes nothing. The state is good for a number of writes.
\<close>

locale chunk_store =
  fixes holds :: "'r \<Rightarrow> 'k \<Rightarrow> 'v \<Rightarrow> bool"
    and put :: "'k \<Rightarrow> 'v \<Rightarrow> 'r \<Rightarrow> 'e option \<times> 'r"
    and good :: "nat \<Rightarrow> 'r \<Rightarrow> bool"
    and storable :: "'v \<Rightarrow> bool"
  assumes put_ok: "good (Suc n) r \<Longrightarrow> put k v r = (None, r') \<Longrightarrow> good n r'"
    and put_holds: "good (Suc n) r \<Longrightarrow> storable v \<Longrightarrow> put k v r = (None, r') \<Longrightarrow> holds r' k v"
    and put_keeps: "good (Suc n) r \<Longrightarrow> put k v r = (None, r') \<Longrightarrow> j \<noteq> k \<Longrightarrow> holds r j w \<Longrightarrow> holds r' j w"
    and put_fails: "put k v r = (Some e, r') \<Longrightarrow> r' = r"
    and good_mono: "good (Suc n) r \<Longrightarrow> good n r"
begin

fun batch :: "('k \<times> 'v) list \<Rightarrow> 'r \<Rightarrow> ('k \<times> 'e) list \<times> 'r" where
  "batch [] r = ([], r)"
| "batch ((k, v) # kvs) r =
     (case put k v r of
        (None, r) \<Rightarrow> batch kvs r
      | (Some e, r) \<Rightarrow> (case batch kvs r of (failures, r) \<Rightarrow> ((k, e) # failures, r)))"

lemma batch_spec:
  assumes "good (length kvs + n) r" "batch kvs r = (failures, r')" "distinct (map fst kvs)"
    "\<forall>v \<in> snd ` set kvs. storable v"
  shows "good n r'"
    and "fst ` set failures \<subseteq> fst ` set kvs"
    and "(k, v) \<in> set kvs \<Longrightarrow> k \<notin> fst ` set failures \<Longrightarrow> holds r' k v"
    and "holds r j w \<Longrightarrow> j \<notin> fst ` set kvs \<or> j \<in> fst ` set failures \<Longrightarrow> holds r' j w"
proof -
  have "good n r' \<and> fst ` set failures \<subseteq> fst ` set kvs
    \<and> (\<forall>k v. (k, v) \<in> set kvs \<longrightarrow> k \<notin> fst ` set failures \<longrightarrow> holds r' k v)
    \<and> (\<forall>j w. holds r j w \<longrightarrow> j \<notin> fst ` set kvs \<or> j \<in> fst ` set failures \<longrightarrow> holds r' j w)"
    using assms
  proof (induction kvs arbitrary: r failures)
    case Nil
    then show ?case by simp
  next
    case (Cons kv kvs)
    obtain k v where kv: "kv = (k, v)" by (cases kv)
    have g: "good (Suc (length kvs + n)) r" using Cons.prems(1) by simp
    have new: "k \<notin> fst ` set kvs" using Cons.prems(3) by (simp add: kv)
    obtain res r1 where w: "put k v r = (res, r1)" by fastforce
    show ?case
    proof (cases res)
      case None
      have b: "batch kvs r1 = (failures, r')" using Cons.prems(2) w None by (simp add: kv)
      have w': "put k v r = (None, r1)" using w None by simp
      note ih = Cons.IH [OF put_ok [OF g w'] b]
      have h: "holds r1 k v" by (rule put_holds [OF g _ w']) (use Cons.prems(4) in \<open>simp add: kv\<close>)
      have ih': "good n r'" "fst ` set failures \<subseteq> fst ` set kvs"
        "\<forall>k v. (k, v) \<in> set kvs \<longrightarrow> k \<notin> fst ` set failures \<longrightarrow> holds r' k v"
        "\<forall>j w. holds r1 j w \<longrightarrow> j \<notin> fst ` set kvs \<or> j \<in> fst ` set failures \<longrightarrow> holds r' j w"
        using ih Cons.prems(3,4) by (auto simp: kv)
      have keep: "holds r1 j w" if "holds r j w" "j \<noteq> k" for j w
        by (rule put_keeps [OF g w' that(2,1)])
      have "holds r' j w" if "holds r j w" "j \<notin> fst ` set (kv # kvs) \<or> j \<in> fst ` set failures" for j w
      proof -
        have "j \<noteq> k" using that(2) new ih'(2) by (auto simp: kv)
        then show ?thesis using ih'(4) keep [OF that(1)] that(2) by auto
      qed
      moreover have "\<forall>k' v'. (k', v') \<in> set (kv # kvs) \<longrightarrow> k' \<notin> fst ` set failures \<longrightarrow> holds r' k' v'"
        using ih'(3,4) h new by (auto simp: kv)
      moreover have "fst ` set failures \<subseteq> fst ` set (kv # kvs)" using ih'(2) by auto
      ultimately show ?thesis using ih'(1) by blast
    next
      case (Some e)
      have r1: "r1 = r" using put_fails w Some by simp
      obtain fs where b: "batch kvs r = (fs, r')" "failures = (k, e) # fs"
        using Cons.prems(2) w Some by (auto simp: kv r1 split: prod.splits)
      have "good (length kvs + n) r" by (rule good_mono [OF g])
      from Cons.IH [OF this b(1)] show ?thesis
        using Cons.prems(3,4) by (auto simp: kv b(2))
    qed
  qed
  then show "good n r'" "fst ` set failures \<subseteq> fst ` set kvs"
    "(k, v) \<in> set kvs \<Longrightarrow> k \<notin> fst ` set failures \<Longrightarrow> holds r' k v"
    "holds r j w \<Longrightarrow> j \<notin> fst ` set kvs \<or> j \<in> fst ` set failures \<Longrightarrow> holds r' j w"
    by blast+
qed

end


text \<open>The region file provides it, for a fixed codec and time, over its slots.\<close>

definition slot_holds :: "flate \<Rightarrow> region_file \<Rightarrow> nat \<Rightarrow> bytes \<Rightarrow> bool" where
  "slot_holds fl r slot bs \<longleftrightarrow>
     (\<exists>ch. read_chunk_at fl r slot DEFAULT_PAYLOAD_LIMIT = Inr (Some ch) \<and> sc_data ch = bs)"

definition slot_put :: "flate \<Rightarrow> compression \<Rightarrow> u32 \<Rightarrow> nat \<Rightarrow> bytes \<Rightarrow> region_file \<Rightarrow> server_error option \<times> region_file" where
  "slot_put fl c now slot bs r =
     (case write_chunk_at fl r slot bs c now of (Inr u, r) \<Rightarrow> (None, r) | (Inl e, r) \<Rightarrow> (Some e, r))"

definition region_good :: "nat \<Rightarrow> region_file \<Rightarrow> bool" where
  "region_good n r \<longleftrightarrow> region_sound r \<and> \<not> rf_readonly r \<and> length (rf_bitmap r) + 255 * n \<le> 16777216"

lemma slot_put_None: "slot_put fl c now slot bs r = (None, r') \<longleftrightarrow> write_chunk_at fl r slot bs c now = (Inr (), r')"
  by (auto simp: slot_put_def split: prod.splits sum.splits)

interpretation region: chunk_store "slot_holds fl" "slot_put fl c now" region_good
    "\<lambda>bs. flate_ok fl \<and> length bs \<le> DEFAULT_PAYLOAD_LIMIT" for fl c now
proof
  fix n r k v r' j w e
  assume g: "region_good (Suc n) r"
  then have r: "region_sound r" "length (rf_bitmap r) + 255 \<le> 16777216"
    by (auto simp: region_good_def)
  show "region_good n r" using g by (simp add: region_good_def)
  assume "slot_put fl c now k v r = (None, r')"
  then have w: "write_chunk_at fl r k v c now = (Inr (), r')" by (simp add: slot_put_None)
  note s = write_chunk_sound [OF r w]
  show "region_good n r'" using s(1-3) g by (simp add: region_good_def)
  show "slot_holds fl r' k v" if "flate_ok fl \<and> length v \<le> DEFAULT_PAYLOAD_LIMIT"
    using s(5) that by (simp add: slot_holds_def DEFAULT_PAYLOAD_LIMIT_def u64_max_def)
  show "slot_holds fl r' j w" if "j \<noteq> k" "slot_holds fl r j w"
    using s(4) that by (auto simp: slot_holds_def)
next
  fix k v r e r'
  show "r' = r" if "slot_put fl c now k v r = (Some e, r')"
    using that write_chunk_at_result [of fl r k v c now]
    by (auto simp: slot_put_def split: prod.splits sum.splits)
qed

end
