(* ===== verification/WorldStorage.thy ===== *)
theory WorldStorage
  imports Saving RegionStore
begin

text \<open>
  \<open>crates/persistence/src/world.rs\<close>: the queue of encoded chunks, the bounded cache of
  open region files and the flush that writes the one through the other. Region files
  are addressed by dimension and region coordinate (their directories are the file
  system's business); the level document is the NBT tag its encoder gives. The time of
  a flush is an argument. The calls that write the level file and those that sync a
  region file may fail, as \<open>ws_os\<close> answers them; the other calls on region files
  succeed (a sync on eviction only logs its failure).
\<close>

definition LEVEL_FILE :: rstring where "LEVEL_FILE = lit ''level.dat''"

definition DEFAULT_MAX_OPEN_REGIONS :: nat where "DEFAULT_MAX_OPEN_REGIONS = 64"

record world_storage =
  ws_disk :: "region_key \<Rightarrow> bytes option"
  ws_os :: os
  ws_level :: "nbt_tag option"
  ws_regions :: "(region_key, region_file) ordered_map"
  ws_region_use :: "(region_key, nat) ordered_map"
  ws_use_counter :: nat
  ws_max_open :: nat
  ws_compression :: compression
  ws_pending :: "(chunk_key, bytes) ordered_map"
  ws_dirty :: dirty_tracker
  ws_autosave :: autosave

definition new_storage :: "(region_key \<Rightarrow> bytes option) \<Rightarrow> os \<Rightarrow> nbt_tag option \<Rightarrow> nat \<Rightarrow> world_storage" where
  "new_storage disk os level autosave_ticks =
     \<lparr>ws_disk = disk, ws_os = os, ws_level = level, ws_regions = [], ws_region_use = [],
      ws_use_counter = 0, ws_max_open = DEFAULT_MAX_OPEN_REGIONS, ws_compression = DEFAULT_WRITE,
      ws_pending = [], ws_dirty = new_tracker, ws_autosave = new_autosave autosave_ticks\<rparr>"

section \<open>The handle cache\<close>

text \<open>\<open>min_by_key\<close> over the uses: the first of the smallest.\<close>

fun min_use :: "('k \<times> nat) list \<Rightarrow> ('k \<times> nat) option" where
  "min_use [] = None"
| "min_use ((k, u) # m) =
     (case min_use m of
        None \<Rightarrow> Some (k, u)
      | Some (k', u') \<Rightarrow> if u \<le> u' then Some (k, u) else Some (k', u'))"

lemma min_use_None [simp]: "min_use m = None \<longleftrightarrow> m = []"
  by (induction m rule: min_use.induct) (auto split: option.splits)

lemma min_use_in: "min_use m = Some (k, u) \<Longrightarrow> (k, u) \<in> set m \<and> (\<forall>(k', u') \<in> set m. u \<le> u')"
  by (induction m arbitrary: k u rule: min_use.induct) (auto split: option.splits if_splits prod.splits)

function evict_regions :: "world_storage \<Rightarrow> world_storage" where
  "evict_regions s =
     (if length (ws_regions s) > ws_max_open s then
        (case min_use (ws_region_use s) of
           None \<Rightarrow> s
         | Some (victim, used) \<Rightarrow>
             evict_regions (s\<lparr>ws_region_use := om_remove victim (ws_region_use s),
                              ws_regions := om_remove victim (ws_regions s)\<rparr>))
      else s)"
  by auto

termination
proof (relation "measure (\<lambda>s. length (ws_region_use s))")
  fix s :: world_storage and p victim used
  assume "min_use (ws_region_use s) = Some p" "(victim, used) = p"
  then have "(victim, used) \<in> set (ws_region_use s)" using min_use_in [of "ws_region_use s" victim used] by simp
  then have "length (om_remove victim (ws_region_use s)) < length (ws_region_use s)"
    unfolding om_remove_def by (intro length_filter_less [of "(victim, used)"]) auto
  then show "(s\<lparr>ws_region_use := om_remove victim (ws_region_use s),
      ws_regions := om_remove victim (ws_regions s)\<rparr>, s) \<in> measure (\<lambda>s. length (ws_region_use s))"
    by simp
qed simp

declare evict_regions.simps [simp del]

definition set_max_open_regions :: "world_storage \<Rightarrow> nat \<Rightarrow> world_storage" where
  "set_max_open_regions s limit = evict_regions (s\<lparr>ws_max_open := max limit 1\<rparr>)"

text \<open>The part of \<open>with_region\<close> that makes sure a handle is in the cache.\<close>

definition ensure_open :: "world_storage \<Rightarrow> region_key \<Rightarrow> unit server_result \<times> world_storage" where
  "ensure_open s key =
     (if map_of (ws_regions s) key \<noteq> None then (Inr (), s)
      else case open_region (ws_disk s key) False of
          Inl e \<Rightarrow> (Inl e, s)
        | Inr handle \<Rightarrow>
            (let s = s\<lparr>ws_disk := (ws_disk s)(key \<mapsto> rf_file handle)\<rparr>;
                 s = s\<lparr>ws_regions := om_insert key handle (ws_regions s)\<rparr>;
                 s = s\<lparr>ws_region_use := om_insert key (ws_use_counter s) (ws_region_use s)\<rparr>
             in (Inr (), evict_regions s)))"

definition with_region ::
    "world_storage \<Rightarrow> region_key \<Rightarrow> (region_file \<Rightarrow> 'a server_result \<times> region_file)
      \<Rightarrow> 'a server_result \<times> world_storage" where
  "with_region s key f =
     (case ensure_open s key of
        (Inl e, s) \<Rightarrow> (Inl e, s)
      | (Inr u, s) \<Rightarrow>
          (let s = s\<lparr>ws_use_counter := sat_add (ws_use_counter s) 1\<rparr>;
               s = s\<lparr>ws_region_use := om_insert key (ws_use_counter s) (ws_region_use s)\<rparr>
           in case map_of (ws_regions s) key of
                None \<Rightarrow> (Inl Invariant, s)
              | Some handle \<Rightarrow>
                  (let s = s\<lparr>ws_regions := om_remove key (ws_regions s)\<rparr>;
                       (result, handle) = f handle;
                       s = s\<lparr>ws_disk := (ws_disk s)(key \<mapsto> rf_file handle)\<rparr>;
                       s = s\<lparr>ws_regions := om_insert key handle (ws_regions s)\<rparr>
                   in (result, evict_regions s))))"

section \<open>The queue\<close>

definition queue_bytes :: "world_storage \<Rightarrow> chunk_key \<Rightarrow> bytes \<Rightarrow> world_storage" where
  "queue_bytes s key bs =
     s\<lparr>ws_pending := om_insert key bs (ws_pending s),
       ws_dirty := mark_chunk (ws_dirty s) (fst key) (snd key)\<rparr>"

definition region_key_of :: "chunk_key \<Rightarrow> region_key" where
  "region_key_of key = (fst key, key_region key)"

definition storage_has_chunk :: "world_storage \<Rightarrow> chunk_key \<Rightarrow> bool server_result \<times> world_storage" where
  "storage_has_chunk s key =
     (if map_of (ws_pending s) key \<noteq> None then (Inr True, s)
      else with_region s (region_key_of key) (\<lambda>h. (Inr (has_chunk h (snd key)), h)))"

text \<open>The bytes \<open>read_chunk\<close> decodes: the queued ones, or those of the region file.\<close>

definition storage_read_bytes :: "flate \<Rightarrow> world_storage \<Rightarrow> chunk_key \<Rightarrow> bytes option server_result \<times> world_storage" where
  "storage_read_bytes fl s key =
     (case map_of (ws_pending s) key of
        Some bs \<Rightarrow> (Inr (Some bs), s)
      | None \<Rightarrow>
          (case with_region s (region_key_of key) (\<lambda>h. (read_chunk fl h (snd key), h)) of
             (Inl e, s) \<Rightarrow> (Inl e, s)
           | (Inr stored, s) \<Rightarrow> (Inr (map_option sc_data stored), s)))"

text \<open>\<open>sync_data\<close> on a region file: its answer, with no change a running program sees.\<close>

definition sync_region :: "world_storage \<Rightarrow> bool \<times> world_storage" where
  "sync_region s = (case os_call True (\<lambda>fs. []) (ws_os s) of (synced, os) \<Rightarrow> (synced, s\<lparr>ws_os := os\<rparr>))"

definition storage_write_now :: "flate \<Rightarrow> world_storage \<Rightarrow> chunk_key \<Rightarrow> bytes \<Rightarrow> u32 \<Rightarrow> unit server_result \<times> world_storage" where
  "storage_write_now fl s key bs now =
     (case with_region s (region_key_of key) (\<lambda>h. write_chunk fl h (snd key) bs (ws_compression s) now) of
        (Inl e, s) \<Rightarrow> (Inl e, s)
      | (Inr u, s) \<Rightarrow>
          (case sync_region s of
             (False, s) \<Rightarrow> (Inl Operational, s)
           | (True, s) \<Rightarrow> (Inr (), s\<lparr>ws_pending := om_remove key (ws_pending s)\<rparr>)))"

definition storage_remove_chunk :: "world_storage \<Rightarrow> chunk_key \<Rightarrow> bool server_result \<times> world_storage" where
  "storage_remove_chunk s key =
     (let s = s\<lparr>ws_pending := om_remove key (ws_pending s)\<rparr>
      in with_region s (region_key_of key) (\<lambda>h. Region.remove_chunk h (snd key)))"

section \<open>The flush\<close>

text \<open>The closure that writes one region's batch: the failures, in order.\<close>

fun write_batch ::
    "flate \<Rightarrow> compression \<Rightarrow> u32 \<Rightarrow> (chunk_pos \<times> bytes) list \<Rightarrow> region_file
      \<Rightarrow> (nat \<times> (chunk_pos \<times> server_error) list) \<times> region_file" where
  "write_batch fl c now [] h = ((0, []), h)"
| "write_batch fl c now ((pos, bs) # rest) h =
     (case write_chunk fl h pos bs c now of
        (Inr u, h) \<Rightarrow>
          (case write_batch fl c now rest h of ((written, failures), h) \<Rightarrow> ((written + 1, failures), h))
      | (Inl e, h) \<Rightarrow>
          (case write_batch fl c now rest h of ((written, failures), h) \<Rightarrow> ((written, (pos, e) # failures), h)))"

definition batch_of :: "world_storage \<Rightarrow> dimension \<Rightarrow> chunk_pos list \<Rightarrow> (chunk_pos \<times> bytes) list" where
  "batch_of s d positions =
     List.map_filter (\<lambda>p. map_option (\<lambda>bs. (p, bs)) (map_of (ws_pending s) (d, p))) positions"

text \<open>What the flush does with a batch after it has been written, or could not be.\<close>

definition settle :: "dimension \<Rightarrow> chunk_pos list \<Rightarrow> (chunk_pos \<times> bytes) list \<Rightarrow> world_storage \<Rightarrow> world_storage" where
  "settle d failed batch s =
     fold (\<lambda>(pos, bs) s.
        if pos \<in> set failed then s\<lparr>ws_dirty := mark_chunk (ws_dirty s) d pos\<rparr>
        else s\<lparr>ws_pending := om_remove (d, pos) (ws_pending s)\<rparr>) batch s"

definition flush_region ::
    "flate \<Rightarrow> compression \<Rightarrow> u32 \<Rightarrow> region_key \<times> chunk_pos list
      \<Rightarrow> save_report \<times> world_storage \<Rightarrow> save_report \<times> world_storage" where
  "flush_region fl c now g rs =
     (case (g, rs) of (((d, region), positions), (report, s)) \<Rightarrow>
       (let batch = batch_of s d positions;
            report = report\<lparr>chunks_skipped := chunks_skipped report + (length positions - length batch)\<rparr>
        in case with_region s (d, region) (\<lambda>h. case write_batch fl c now batch h of (out, h) \<Rightarrow> (Inr out, h)) of
             (Inr (written, failures), s) \<Rightarrow>
               (case sync_region s of (synced, s) \<Rightarrow>
                 (report\<lparr>chunks_written := chunks_written report + written,
                         chunks_failed := chunks_failed report + length failures,
                         report_errors := report_errors report + length failures + (if synced then 0 else 1),
                         regions_synced := regions_synced report + (if synced then 1 else 0)\<rparr>,
                  settle d (map fst failures) batch s))
           | (Inl e, s) \<Rightarrow>
               (report\<lparr>chunks_failed := chunks_failed report + length batch,
                       report_errors := report_errors report + 1\<rparr>,
                settle d (map fst batch) batch s)))"

definition write_chunks :: "flate \<Rightarrow> u32 \<Rightarrow> dirty_snapshot \<Rightarrow> world_storage \<Rightarrow> save_report \<times> world_storage" where
  "write_chunks fl now snap s =
     fold (flush_region fl (ws_compression s) now) (by_region snap) (default_report_save, s)"

definition write_level :: "flate \<Rightarrow> world_storage \<Rightarrow> nbt_tag \<Rightarrow> unit server_result \<times> world_storage" where
  "write_level fl s level =
     (case encode_gzip_nbt fl [] level of
        Inl e \<Rightarrow> (Inl e, s)
      | Inr bs \<Rightarrow>
          (case write_atomic LEVEL_FILE bs True (ws_os s) of (res, os) \<Rightarrow> (res, s\<lparr>ws_os := os\<rparr>)))"

definition save_level :: "flate \<Rightarrow> world_storage \<Rightarrow> nbt_tag \<Rightarrow> unit server_result \<times> world_storage" where
  "save_level fl s level =
     (case write_level fl s level of
        (Inl e, s) \<Rightarrow> (Inl e, s)
      | (Inr u, s) \<Rightarrow> (Inr (), s\<lparr>ws_level := Some level\<rparr>))"

definition flush :: "flate \<Rightarrow> u32 \<Rightarrow> world_storage \<Rightarrow> save_report server_result \<times> world_storage" where
  "flush fl now s =
     (let (snap, dirty) = snapshot (ws_dirty s);
          s = s\<lparr>ws_dirty := dirty\<rparr>;
          (report, s) = write_chunks fl now snap s
      in if ds_level snap then
           (case ws_level s of
              None \<Rightarrow> (Inr report, s)
            | Some level \<Rightarrow>
                (case write_level fl s level of
                   (Inr u, s) \<Rightarrow> (Inr (report\<lparr>level_written := True\<rparr>), s)
                 | (Inl e, s) \<Rightarrow> (Inl e, s\<lparr>ws_dirty := mark_level (ws_dirty s)\<rparr>)))
         else (Inr report, s))"

definition storage_on_tick :: "flate \<Rightarrow> u32 \<Rightarrow> world_storage \<Rightarrow> nat \<Rightarrow> save_report option server_result \<times> world_storage" where
  "storage_on_tick fl now s tick =
     (let (due, timer) = autosave_tick (ws_autosave s) tick;
          s = s\<lparr>ws_autosave := timer\<rparr>
      in if \<not> due then (Inr None, s)
         else case flush fl now s of
             (Inl e, s) \<Rightarrow> (Inl e, s)
           | (Inr report, s) \<Rightarrow> (Inr (Some report), s))"

end
