(* ===== verification/WorldLaws.thy ===== *)
theory WorldLaws
  imports WorldStorage
begin

text \<open>
  The laws of the world storage: the cache of region handles mirrors the disk and never
  drops the handle in use, and a flush loses no chunk.
\<close>

declare split_paired_All [simp del] split_paired_Ex [simp del]

section \<open>Eviction\<close>

lemma evict_regions_frame:
  "\<exists>R U. evict_regions s = s\<lparr>ws_region_use := U, ws_regions := R\<rparr>
     \<and> set R \<subseteq> set (ws_regions s) \<and> set U \<subseteq> set (ws_region_use s)
     \<and> (om_ok (ws_regions s) \<longrightarrow> om_ok R) \<and> (om_ok (ws_region_use s) \<longrightarrow> om_ok U)
     \<and> (fst ` set (ws_regions s) \<subseteq> fst ` set (ws_region_use s) \<longrightarrow>
          fst ` set R \<subseteq> fst ` set U \<and> length R \<le> ws_max_open s)"
proof (induction s rule: evict_regions.induct)
  case (1 s)
  show ?case
  proof (cases "length (ws_regions s) > ws_max_open s")
    case False
    then have "evict_regions s = s" by (simp add: evict_regions.simps)
    then show ?thesis
      using False by (intro exI [of _ "ws_regions s"] exI [of _ "ws_region_use s"]) simp
  next
    case True
    show ?thesis
    proof (cases "min_use (ws_region_use s)")
      case None
      then have "evict_regions s = s" "ws_region_use s = []" using True by (simp_all add: evict_regions.simps)
      then show ?thesis
        using True by (intro exI [of _ "ws_regions s"] exI [of _ "ws_region_use s"]) auto
    next
      case (Some p)
      obtain victim used where p: "p = (victim, used)" by (cases p)
      let ?s = "s\<lparr>ws_region_use := om_remove victim (ws_region_use s), ws_regions := om_remove victim (ws_regions s)\<rparr>"
      have e: "evict_regions s = evict_regions ?s" using True Some by (simp add: evict_regions.simps p)
      obtain R U where ih: "evict_regions ?s = ?s\<lparr>ws_region_use := U, ws_regions := R\<rparr>"
        "set R \<subseteq> set (ws_regions ?s)" "set U \<subseteq> set (ws_region_use ?s)"
        "om_ok (ws_regions ?s) \<longrightarrow> om_ok R" "om_ok (ws_region_use ?s) \<longrightarrow> om_ok U"
        "fst ` set (ws_regions ?s) \<subseteq> fst ` set (ws_region_use ?s) \<longrightarrow>
           fst ` set R \<subseteq> fst ` set U \<and> length R \<le> ws_max_open ?s"
        using "1.IH" [OF True Some p [symmetric]] by blast
      note sub = set_remove_subset
      show ?thesis
      proof (intro exI conjI impI)
        show "evict_regions s = s\<lparr>ws_region_use := U, ws_regions := R\<rparr>" using e ih(1) by simp
        have "set R \<subseteq> set (om_remove victim (ws_regions s))" "set U \<subseteq> set (om_remove victim (ws_region_use s))"
          using ih(2,3) by simp_all
        then show "set R \<subseteq> set (ws_regions s)" "set U \<subseteq> set (ws_region_use s)"
          using sub by (metis subset_trans)+
        show "om_ok R" if "om_ok (ws_regions s)" using ih(4) that by simp
        show "om_ok U" if "om_ok (ws_region_use s)" using ih(5) that by simp
        show "fst ` set R \<subseteq> fst ` set U" "length R \<le> ws_max_open s"
          if "fst ` set (ws_regions s) \<subseteq> fst ` set (ws_region_use s)"
          using ih(6) that by auto
      qed
    qed
  qed
qed

text \<open>With room for two handles, the key of the greatest use survives.\<close>

lemma evict_keeps:
  assumes "om_ok (ws_regions s)" "om_ok (ws_region_use s)" "2 \<le> ws_max_open s"
    and "fst ` set (ws_regions s) \<subseteq> fst ` set (ws_region_use s)"
    and "(key, h) \<in> set (ws_regions s)"
    and "(key, latest) \<in> set (ws_region_use s)"
    and "\<forall>(k, u) \<in> set (ws_region_use s). u \<le> latest \<and> (u = latest \<longrightarrow> k = key \<or> k = other)"
  shows "(key, h) \<in> set (ws_regions (evict_regions s))"
  using assms
proof (induction s rule: evict_regions.induct)
  case (1 s)
  show ?case
  proof (cases "length (ws_regions s) > ws_max_open s")
    case False
    then show ?thesis using "1.prems"(5) by (simp add: evict_regions.simps)
  next
    case True
    have "length (ws_regions s) \<le> length (ws_region_use s)"
      using card_mono [OF _ "1.prems"(4)] "1.prems"(1,2) by (simp add: card_keys)
    then have three: "3 \<le> length (ws_region_use s)" using True "1.prems"(3) by simp
    then have "ws_region_use s \<noteq> []" by auto
    then obtain victim used where m: "min_use (ws_region_use s) = Some (victim, used)"
      by (metis min_use_None not_None_eq surj_pair)
    note mu = min_use_in [OF m]
    have "victim \<noteq> key"
    proof
      assume v: "victim = key"
      have "used = latest"
        using om_ok_distinct [OF "1.prems"(2)] mu "1.prems"(6) v by (metis eq_key_imp_eq_value)
      then have "k = key \<or> k = other" if "(k, u) \<in> set (ws_region_use s)" for k u
        using mu "1.prems"(7) that by fastforce
      then have "fst ` set (ws_region_use s) \<subseteq> {key, other}" by force
      then have "card (fst ` set (ws_region_use s)) \<le> card {key, other}" by (intro card_mono) auto
      also have "\<dots> \<le> 2" by (simp add: card_insert_if)
      finally show False using three card_keys [OF "1.prems"(2)] by simp
    qed
    let ?s = "s\<lparr>ws_region_use := om_remove victim (ws_region_use s), ws_regions := om_remove victim (ws_regions s)\<rparr>"
    have e: "evict_regions s = evict_regions ?s" using True m by (simp add: evict_regions.simps)
    show ?thesis
      unfolding e
    proof (rule "1.IH" [OF True m refl])
      show "fst ` set (ws_regions ?s) \<subseteq> fst ` set (ws_region_use ?s)" using "1.prems"(4) by auto
      show "(key, h) \<in> set (ws_regions ?s)" "(key, latest) \<in> set (ws_region_use ?s)"
        using "1.prems"(5,6) \<open>victim \<noteq> key\<close> by (auto simp: om_remove_def)
      show "\<forall>(k, u) \<in> set (ws_region_use ?s). u \<le> latest \<and> (u = latest \<longrightarrow> k = key \<or> k = other)"
        using "1.prems"(7) by (auto simp: om_remove_def)
    qed (use "1.prems"(1-3) in simp_all)
  qed
qed

section \<open>The cache mirrors the disk\<close>

text \<open>Uses are bounded by the counter, and distinct except perhaps that of one key.\<close>

definition uses_but :: "region_key set \<Rightarrow> world_storage \<Rightarrow> bool" where
  "uses_but K s \<longleftrightarrow> om_ok (ws_regions s) \<and> om_ok (ws_region_use s)
     \<and> fst ` set (ws_regions s) \<subseteq> fst ` set (ws_region_use s)
     \<and> (\<forall>k u. (k, u) \<in> set (ws_region_use s) \<longrightarrow> u \<le> ws_use_counter s)
     \<and> (\<forall>k k' u. (k, u) \<in> set (ws_region_use s) \<longrightarrow> (k', u) \<in> set (ws_region_use s) \<longrightarrow>
          k \<notin> K \<longrightarrow> k' \<notin> K \<longrightarrow> k = k')
     \<and> 2 \<le> ws_max_open s"

definition disk_good :: "nat \<Rightarrow> world_storage \<Rightarrow> bool" where
  "disk_good n s \<longleftrightarrow> 2 + 255 * n \<le> 16777216
     \<and> (\<forall>key h. (key, h) \<in> set (ws_regions s) \<longrightarrow> ws_disk s key = Some (rf_file h) \<and> region_good n h)
     \<and> (\<forall>key f r. ws_disk s key = Some f \<longrightarrow> open_region (Some f) False = Inr r \<longrightarrow> region_good n r)"

text \<open>What the handle cache does not touch.\<close>

definition same_queue :: "world_storage \<Rightarrow> world_storage \<Rightarrow> bool" where
  "same_queue s s' \<longleftrightarrow> ws_pending s' = ws_pending s \<and> ws_dirty s' = ws_dirty s
     \<and> ws_level s' = ws_level s \<and> ws_max_open s' = ws_max_open s
     \<and> ws_compression s' = ws_compression s \<and> ws_autosave s' = ws_autosave s"

lemma same_queue_refl [simp]: "same_queue s s"
  by (simp add: same_queue_def)

lemma same_queue_trans: "same_queue s t \<Longrightarrow> same_queue t u \<Longrightarrow> same_queue s u"
  by (simp add: same_queue_def)

lemma in_insert: "om_ok m \<Longrightarrow> (k, v) \<in> set (om_insert a b m) \<longleftrightarrow> (if k = a then v = b else (k, v) \<in> set m)"
  by (metis map_of_eq_Some_iff om_ok_distinct om_ok_insert map_of_insert fun_upd_apply option.inject)

lemma in_remove: "(k, v) \<in> set (om_remove a m) \<longleftrightarrow> k \<noteq> a \<and> (k, v) \<in> set m"
  by (auto simp: om_remove_def)

lemma disk_goodD:
  "disk_good n s \<Longrightarrow> ws_disk s key = Some f \<Longrightarrow> open_region (Some f) False = Inr r \<Longrightarrow> region_good n r"
  unfolding disk_good_def by simp

lemma region_good_mono: "region_good n h \<Longrightarrow> m \<le> n \<Longrightarrow> region_good m h"
  unfolding region_good_def by (meson add_left_mono le_trans mult_le_mono2)

lemma region_good_reopen:
  "region_good n h \<Longrightarrow> open_region (Some (rf_file h)) False = Inr r \<Longrightarrow> region_good n r"
  using reopen [of h False] by (auto simp: region_good_def region_sound_def)

lemma evict_uses:
  assumes "uses_but K s" "disk_good n s"
  shows "uses_but K (evict_regions s)" "disk_good n (evict_regions s)" "same_queue s (evict_regions s)"
    and "ws_disk (evict_regions s) = ws_disk s" "ws_use_counter (evict_regions s) = ws_use_counter s"
    and "length (ws_regions (evict_regions s)) \<le> ws_max_open s"
proof -
  obtain R U where e: "evict_regions s = s\<lparr>ws_region_use := U, ws_regions := R\<rparr>"
    and sub: "set R \<subseteq> set (ws_regions s)" "set U \<subseteq> set (ws_region_use s)"
    and ok: "om_ok R" "om_ok U" "fst ` set R \<subseteq> fst ` set U" "length R \<le> ws_max_open s"
  proof -
    have u: "om_ok (ws_regions s)" "om_ok (ws_region_use s)"
      "fst ` set (ws_regions s) \<subseteq> fst ` set (ws_region_use s)"
      using assms(1) unfolding uses_but_def by simp_all
    show thesis
      using evict_regions_frame [of s] by (elim exE conjE) (erule that; use u in simp)
  qed
  have mu: "(k, u) \<in> set U \<Longrightarrow> (k, u) \<in> set (ws_region_use s)"
    and mr: "(k, h) \<in> set R \<Longrightarrow> (k, h) \<in> set (ws_regions s)" for k u h
    using sub by blast+
  show "uses_but K (evict_regions s)"
    unfolding e uses_but_def
  proof (simp, intro conjI allI impI)
    show "k = k'" if "(k, u) \<in> set U" "(k', u) \<in> set U" "k \<notin> K" "k' \<notin> K" for k k' u
      using assms(1) mu [OF that(1)] mu [OF that(2)] that(3,4) unfolding uses_but_def by blast
    show "u \<le> ws_use_counter s" if "(k, u) \<in> set U" for k u
      using assms(1) mu [OF that] unfolding uses_but_def by blast
    show "2 \<le> ws_max_open s" using assms(1) by (simp add: uses_but_def)
  qed (fact ok)+
  show "disk_good n (evict_regions s)"
    using assms(2) mr unfolding e disk_good_def by simp metis
  show "same_queue s (evict_regions s)" "ws_disk (evict_regions s) = ws_disk s"
    "ws_use_counter (evict_regions s) = ws_use_counter s"
    "length (ws_regions (evict_regions s)) \<le> ws_max_open s"
    using ok(4) by (simp_all add: e same_queue_def)
qed

definition disk_file :: "world_storage \<Rightarrow> region_key \<Rightarrow> bytes" where
  "disk_file s key = (case ws_disk s key of None \<Rightarrow> [] | Some f \<Rightarrow> f)"

lemma ensure_open_Inr:
  assumes ok: "uses_but {} s" "disk_good n s" and e: "ensure_open s key = (Inr (), s')"
  obtains h where "(key, h) \<in> set (ws_regions s')" "rf_file h = disk_file s key"
    "uses_but {key} s'" "disk_good n s'" "same_queue s s'"
    "ws_disk s' = (ws_disk s)(key \<mapsto> rf_file h)" "ws_use_counter s' = ws_use_counter s"
proof (cases "map_of (ws_regions s) key")
  case (Some h)
  then have s': "s' = s" and h: "(key, h) \<in> set (ws_regions s)"
    using e by (auto simp: ensure_open_def dest: map_of_SomeD)
  then have d: "ws_disk s key = Some (rf_file h)" using ok(2) unfolding disk_good_def by blast
  then have "ws_disk s = (ws_disk s)(key \<mapsto> rf_file h)" by auto
  then show ?thesis
    using that [of h] ok h d by (simp add: s' uses_but_def disk_file_def)
next
  case None
  then obtain h where h: "open_region (ws_disk s key) False = Inr h"
    using e by (auto simp: ensure_open_def split: sum.splits)
  have good: "region_good n h" and filed: "rf_file h = disk_file s key"
  proof -
    have "region_good n h \<and> rf_file h = disk_file s key"
    proof (cases "ws_disk s key")
      case None
      then have "h = fresh_region" using h open_fresh by simp
      then show ?thesis
        using None ok(2) fresh_sound
        by (simp add: region_good_def disk_file_def disk_good_def) (simp add: fresh_region_def)
    next
      case (Some f)
      have "rf_file h = f"
        using h Some by (auto simp: open_region_def Let_def split: if_splits sum.splits)
      then show ?thesis using h Some ok(2) by (auto simp: disk_good_def disk_file_def)
    qed
    then show "region_good n h" "rf_file h = disk_file s key" by auto
  qed
  let ?s = "s\<lparr>ws_disk := (ws_disk s)(key \<mapsto> rf_file h), ws_regions := om_insert key h (ws_regions s),
      ws_region_use := om_insert key (ws_use_counter s) (ws_region_use s)\<rparr>"
  have s': "s' = evict_regions ?s" using e None h by (simp add: ensure_open_def Let_def)
  have new: "key \<notin> fst ` set (ws_regions s)" using None by (simp add: map_of_eq_None_iff)
  have om: "om_ok (ws_regions s)" "om_ok (ws_region_use s)" using ok(1) by (auto simp: uses_but_def)
  have u: "uses_but {key} ?s"
    using ok(1) by (auto simp: uses_but_def in_insert)
  have d: "disk_good n ?s"
    using ok(2) om new good region_good_reopen [OF good]
    by (auto simp: disk_good_def in_insert image_iff split: if_splits)
  note ev = evict_uses [OF u d]
  have "\<exists>other. \<forall>k. (k, ws_use_counter s) \<in> set (ws_region_use s) \<longrightarrow> k = other"
  proof (cases "\<exists>k. (k, ws_use_counter s) \<in> set (ws_region_use s)")
    case True
    then obtain k where k: "(k, ws_use_counter s) \<in> set (ws_region_use s)" by blast
    have "k' = k" if "(k', ws_use_counter s) \<in> set (ws_region_use s)" for k'
      using ok(1) that k unfolding uses_but_def by blast
    then show ?thesis by blast
  qed blast
  then obtain other where other: "\<And>k. (k, ws_use_counter s) \<in> set (ws_region_use s) \<Longrightarrow> k = other" by blast
  have "(key, h) \<in> set (ws_regions (evict_regions ?s))"
  proof (rule evict_keeps)
    show "(key, ws_use_counter s) \<in> set (ws_region_use ?s)" "(key, h) \<in> set (ws_regions ?s)"
      using om by (simp_all add: in_insert)
    show "\<forall>(k, u) \<in> set (ws_region_use ?s). u \<le> ws_use_counter s
        \<and> (u = ws_use_counter s \<longrightarrow> k = key \<or> k = other)"
    proof (intro ballI, clarify)
      fix k u assume "(k, u) \<in> set (ws_region_use ?s)"
      then have "k = key \<and> u = ws_use_counter s \<or> (k, u) \<in> set (ws_region_use s)"
        using om by (simp add: in_insert split: if_splits)
      moreover have "u \<le> ws_use_counter s" if "(k, u) \<in> set (ws_region_use s)"
        using ok(1) that unfolding uses_but_def by blast
      ultimately show "u \<le> ws_use_counter s \<and> (u = ws_use_counter s \<longrightarrow> k = key \<or> k = other)"
        using other by blast
    qed
  qed (use u in \<open>auto simp: uses_but_def\<close>)
  then show ?thesis
    using that [of h] ev filed by (simp add: s' same_queue_def)
qed


text \<open>One operation on a region, through the cache.\<close>

definition storage_ok :: "nat \<Rightarrow> world_storage \<Rightarrow> bool" where
  "storage_ok n s \<longleftrightarrow> uses_but {} s \<and> disk_good n s \<and> ws_use_counter s + n < u64_max"

lemma with_region_ok:
  assumes ok: "storage_ok (Suc n) s"
    and w: "with_region s key f = (res, s')"
    and f: "\<And>h res h'. region_good (Suc n) h \<Longrightarrow> f h = (res, h') \<Longrightarrow> region_good m h'" and m: "m \<le> n"
  shows "(\<exists>e f0. res = Inl e \<and> s' = s \<and> ws_disk s key = Some f0 \<and> open_region (Some f0) False = Inl e)
    \<or> (\<exists>h h'. region_good (Suc n) h \<and> rf_file h = disk_file s key \<and> f h = (res, h') \<and> same_queue s s'
         \<and> ws_disk s' = (ws_disk s)(key \<mapsto> rf_file h') \<and> storage_ok m s'
         \<and> length (ws_regions s') \<le> ws_max_open s)"
proof (cases "ensure_open s key")
  case (Pair r s1)
  show ?thesis
  proof (cases r)
    case (Inl e)
    then have "res = Inl e" "s' = s1" using w Pair by (auto simp: with_region_def)
    moreover have "s1 = s \<and> (\<exists>f0. ws_disk s key = Some f0 \<and> open_region (Some f0) False = Inl e)"
      using Pair Inl open_fresh
      by (cases "ws_disk s key") (auto simp: ensure_open_def Let_def split: if_splits sum.splits)
    ultimately show ?thesis by blast
  next
    case (Inr u)
    have u: "uses_but {} s" and d: "disk_good (Suc n) s" and c: "ws_use_counter s + Suc n < u64_max"
      using ok by (auto simp: storage_ok_def)
    have "ensure_open s key = (Inr (), s1)" using Pair Inr by simp
    then obtain h where h: "(key, h) \<in> set (ws_regions s1)" "rf_file h = disk_file s key"
      and u1: "uses_but {key} s1" and d1: "disk_good (Suc n) s1" and q1: "same_queue s s1"
      and k1: "ws_disk s1 = (ws_disk s)(key \<mapsto> rf_file h)" "ws_use_counter s1 = ws_use_counter s"
      by (rule ensure_open_Inr [OF u d])
    have om: "om_ok (ws_regions s1)" "om_ok (ws_region_use s1)" using u1 by (auto simp: uses_but_def)
    have look: "map_of (ws_regions s1) key = Some h"
      using h(1) om(1) by (simp add: om_ok_distinct)
    obtain res1 h' where fh: "f h = (res1, h')" by (cases "f h")
    let ?c = "ws_use_counter s + 1"
    let ?s = "s1\<lparr>ws_use_counter := ?c, ws_region_use := om_insert key ?c (ws_region_use s1),
        ws_disk := (ws_disk s1)(key \<mapsto> rf_file h'),
        ws_regions := om_insert key h' (om_remove key (ws_regions s1))\<rparr>"
    have w': "res = res1" "s' = evict_regions ?s"
      using w Inr look fh c by (simp_all add: with_region_def Pair Let_def k1 sat_add_exact)
    have good: "region_good (Suc n) h" using d1 h(1) unfolding disk_good_def by blast
    have good': "region_good m h'" by (rule f [OF good fh])
    have u2: "uses_but {} ?s"
      unfolding uses_but_def
    proof (intro conjI allI impI)
      show "fst ` set (ws_regions ?s) \<subseteq> fst ` set (ws_region_use ?s)" using u1 by (auto simp: uses_but_def)
      have small: "u \<le> ws_use_counter s" if "(k, u) \<in> set (ws_region_use s1)" for k u
        using u1 that k1(2) unfolding uses_but_def by (metis (no_types))
      show "u \<le> ws_use_counter ?s" if "(k, u) \<in> set (ws_region_use ?s)" for k u
        using that om small by (fastforce simp: in_insert split: if_splits)
      show "k = k'" if "(k, u) \<in> set (ws_region_use ?s)" "(k', u) \<in> set (ws_region_use ?s)" for k k' u
      proof (cases "k = key \<or> k' = key")
        case True
        then have "u = ?c" using that om by (auto simp: in_insert split: if_splits)
        then show ?thesis using that om small by (fastforce simp: in_insert split: if_splits)
      next
        case False
        then have "(k, u) \<in> set (ws_region_use s1)" "(k', u) \<in> set (ws_region_use s1)"
          using that om by (simp_all add: in_insert)
        then show ?thesis using u1 False unfolding uses_but_def by blast
      qed
      show "2 \<le> ws_max_open ?s" using u1 by (simp add: uses_but_def)
    qed (use om in simp_all)
    have d2: "disk_good m ?s"
      unfolding disk_good_def
    proof (intro conjI allI impI)
      show "2 + 255 * m \<le> 16777216" using d1 m by (simp add: disk_good_def)
      fix k g assume g: "(k, g) \<in> set (ws_regions ?s)"
      have old: "(k, g) \<in> set (ws_regions s1)" if "k \<noteq> key"
        using g that om by (simp add: in_insert in_remove)
      have new: "g = h'" if "k = key" using g that om by (simp add: in_insert)
      have "ws_disk s1 k = Some (rf_file g) \<and> region_good (Suc n) g" if "k \<noteq> key"
        using d1 old [OF that] unfolding disk_good_def by blast
      then show "ws_disk ?s k = Some (rf_file g)" "region_good m g"
        using new good' m region_good_mono [of "Suc n" g m] by (cases "k = key"; simp)+
    next
      fix k f0 q assume f0: "ws_disk ?s k = Some f0" "open_region (Some f0) False = Inr q"
      show "region_good m q"
      proof (cases "k = key")
        case True
        then show ?thesis using f0 region_good_reopen [OF good'] by simp
      next
        case False
        then have "ws_disk s1 k = Some f0" using f0(1) by simp
        then have "region_good (Suc n) q" by (rule disk_goodD [OF d1]) (rule f0(2))
        then show ?thesis using m by (auto intro: region_good_mono)
      qed
    qed
    note ev = evict_uses [OF u2 d2]
    have "same_queue s s'" using q1 ev(3) by (simp add: w' same_queue_def)
    moreover have "ws_disk s' = (ws_disk s)(key \<mapsto> rf_file h')" using ev(4) by (simp add: w' k1)
    moreover have "storage_ok m s'" using ev(1,2,5) c m by (simp add: storage_ok_def w')
    moreover have "length (ws_regions s') \<le> ws_max_open s" using ev(6) q1 by (simp add: w' same_queue_def)
    ultimately show ?thesis
      using good h(2) fh w'(1) by (intro disjI2 exI [of _ h] exI [of _ h'] conjI) simp_all
  qed
qed

end
