(* ===== verification/FlushLaws.thy ===== *)
theory FlushLaws
  imports WorldLaws
begin

text \<open>A flush loses no chunk: every chunk a reader sees before it is seen after it.\<close>

section \<open>A batch\<close>

lemma write_batch_store:
  "write_batch fl c now kvs h = ((written, failures), h') \<Longrightarrow>
     region.batch fl c now (map (\<lambda>(p, b). (pos_slot p, b)) kvs) h = (map (\<lambda>(p, e). (pos_slot p, e)) failures, h')
     \<and> written + length failures = length kvs \<and> fst ` set failures \<subseteq> fst ` set kvs"
proof (induction kvs arbitrary: h h' written failures)
  case Nil
  then show ?case by simp
next
  case (Cons kv kvs)
  obtain p b where kv: "kv = (p, b)" by (cases kv)
  obtain r h1 where w: "write_chunk fl h p b c now = (r, h1)" by fastforce
  obtain w1 f1 h2 where b: "write_batch fl c now kvs h1 = ((w1, f1), h2)" by (metis surj_pair)
  note ih = Cons.IH [OF b]
  have put: "slot_put fl c now (pos_slot p) b h = (case r of Inl e \<Rightarrow> (Some e, h1) | Inr u \<Rightarrow> (None, h1))"
    using w by (simp add: slot_put_def write_chunk_def split: sum.splits)
  show ?case
    using Cons.prems ih put w b by (cases r) (auto simp: kv image_subset_iff)
qed

lemma batch_of_spec:
  "set (batch_of s d ps) = {(p, b). p \<in> set ps \<and> map_of (ws_pending s) (d, p) = Some b}"
  "length (batch_of s d ps) \<le> length ps"
  "distinct ps \<Longrightarrow> distinct (map fst (batch_of s d ps))"
proof -
  show "set (batch_of s d ps) = {(p, b). p \<in> set ps \<and> map_of (ws_pending s) (d, p) = Some b}"
    by (induction ps) (auto simp: batch_of_def map_filter_def)
  then have "fst ` set (batch_of s d ps) \<subseteq> set ps" for ps by (induction ps) (auto simp: batch_of_def map_filter_def)
  then have sub: "fst ` set (batch_of s d ps) \<subseteq> set ps" for ps .
  show "length (batch_of s d ps) \<le> length ps"
    by (simp add: batch_of_def map_filter_def)
  show "distinct (map fst (batch_of s d ps))" if "distinct ps"
    using that
  proof (induction ps)
    case (Cons p ps)
    then show ?case
      using sub [of ps] by (auto simp: batch_of_def map_filter_def split: option.splits)
  qed (simp add: batch_of_def)
qed

definition in_region :: "int \<times> int \<Rightarrow> chunk_pos \<Rightarrow> bool" where
  "in_region r p \<longleftrightarrow> (region_x p, region_z p) = r"

lemma in_region_inj: "in_region r p \<Longrightarrow> in_region r q \<Longrightarrow> pos_slot p = pos_slot q \<Longrightarrow> p = q"
  by (rule pos_slot_inj) (auto simp: in_region_def same_region_def)

lemma write_batch_ok:
  assumes w: "write_batch fl c now kvs h = ((written, failures), h')"
    and g: "region_good (length kvs + n) h" and fl: "flate_ok fl"
    and kvs: "distinct (map fst kvs)" "\<forall>(p, b) \<in> set kvs. in_region r p \<and> length b \<le> DEFAULT_PAYLOAD_LIMIT"
  shows "region_good n h'" "written + length failures = length kvs" "fst ` set failures \<subseteq> fst ` set kvs"
    and "(p, b) \<in> set kvs \<Longrightarrow> p \<notin> fst ` set failures \<Longrightarrow> slot_holds fl h' (pos_slot p) b"
    and "in_region r p \<Longrightarrow> p \<notin> fst ` set kvs \<Longrightarrow> slot_holds fl h (pos_slot p) b \<Longrightarrow>
      slot_holds fl h' (pos_slot p) b"
proof -
  let ?m = "map (\<lambda>(p, b). (pos_slot p, b)) kvs" and ?f = "map (\<lambda>(p, e). (pos_slot p, e)) failures"
  have b: "region.batch fl c now ?m h = (?f, h')"
    and count: "written + length failures = length kvs" and sub: "fst ` set failures \<subseteq> fst ` set kvs"
    using write_batch_store [OF w] by auto
  have g': "region_good (length ?m + n) h" using g by simp
  have reg: "in_region r p" if "p \<in> fst ` set kvs" for p using kvs(2) that by auto
  have "inj_on pos_slot (fst ` set kvs)"
    using reg by (intro inj_onI) (metis in_region_inj)
  moreover have "map fst ?m = map pos_slot (map fst kvs)" by (simp add: case_prod_beta comp_def)
  moreover have "distinct (map pos_slot (map fst kvs))"
    using kvs(1) calculation(1) unfolding distinct_map [of pos_slot] by simp
  ultimately have dist: "distinct (map fst ?m)" by metis
  have st: "\<forall>v \<in> snd ` set ?m. flate_ok fl \<and> length v \<le> DEFAULT_PAYLOAD_LIMIT"
    using kvs(2) fl by auto
  note sp = region.batch_spec [OF g' b dist st]
  show "region_good n h'" by (rule sp(1))
  show "written + length failures = length kvs" "fst ` set failures \<subseteq> fst ` set kvs"
    by (fact count, fact sub)
  show "slot_holds fl h' (pos_slot p) b" if "(p, b) \<in> set kvs" "p \<notin> fst ` set failures"
  proof (rule sp(3))
    show "(pos_slot p, b) \<in> set ?m" using that(1) by force
    show "pos_slot p \<notin> fst ` set ?f"
    proof
      assume "pos_slot p \<in> fst ` set ?f"
      then obtain q e where q: "(q, e) \<in> set failures" "pos_slot q = pos_slot p" by auto
      then have "q = p" using in_region_inj reg sub that(1) by (metis fst_conv image_eqI subsetD)
      then show False using q(1) that(2) by force
    qed
  qed
  show "slot_holds fl h' (pos_slot p) b"
    if p: "in_region r p" "p \<notin> fst ` set kvs" and h: "slot_holds fl h (pos_slot p) b"
  proof (rule sp(4) [OF h])
    have "pos_slot p \<notin> fst ` set ?m"
    proof
      assume "pos_slot p \<in> fst ` set ?m"
      then obtain q b' where q: "(q, b') \<in> set kvs" "pos_slot q = pos_slot p" by auto
      then have "q \<in> fst ` set kvs" by force
      then have "q = p" by (rule in_region_inj [OF reg p(1) q(2)])
      then show False using \<open>q \<in> fst ` set kvs\<close> p(2) by simp
    qed
    then show "pos_slot p \<notin> fst ` set ?m \<or> pos_slot p \<in> fst ` set ?f" by blast
  qed
qed

section \<open>What a reader sees\<close>

definition disk_chunk :: "flate \<Rightarrow> world_storage \<Rightarrow> chunk_key \<Rightarrow> bytes option" where
  "disk_chunk fl s key =
     (case ws_disk s (region_key_of key) of
        None \<Rightarrow> None
      | Some f \<Rightarrow> (case open_region (Some f) False of
           Inl e \<Rightarrow> None
         | Inr r \<Rightarrow> (case read_chunk fl r (snd key) of Inr (Some ch) \<Rightarrow> Some (sc_data ch) | _ \<Rightarrow> None)))"

definition visible :: "flate \<Rightarrow> world_storage \<Rightarrow> chunk_key \<Rightarrow> bytes option" where
  "visible fl s key =
     (case map_of (ws_pending s) key of Some bs \<Rightarrow> Some bs | None \<Rightarrow> disk_chunk fl s key)"

lemma disk_chunk_holds:
  assumes "ws_disk s (region_key_of key) = Some (rf_file h)" "region_good n h"
  shows "disk_chunk fl s key = Some bs \<longleftrightarrow> slot_holds fl h (pos_slot (snd key)) bs"
proof -
  have "read_chunk_at fl (h\<lparr>rf_readonly := False, rf_journal := []\<rparr>) slot limit = read_chunk_at fl h slot limit"
    for slot limit by (simp add: slot_read_chunk)
  moreover have "open_region (Some (rf_file h)) False = Inr (h\<lparr>rf_readonly := False, rf_journal := []\<rparr>)"
    using assms(2) by (intro reopen) (simp add: region_good_def)
  ultimately show ?thesis
    using assms(1) by (auto simp: disk_chunk_def read_chunk_def slot_holds_def split: sum.splits option.splits)
qed

section \<open>Settling a batch\<close>

lemma settle_spec:
  assumes "om_ok (ws_pending s)" "om_ok (dt_chunks (ws_dirty s))"
  shows "\<exists>P D. settle d failed batch s = s\<lparr>ws_pending := P, ws_dirty := (ws_dirty s)\<lparr>dt_chunks := D\<rparr>\<rparr>
    \<and> om_ok P \<and> om_ok D
    \<and> map_of P = (\<lambda>k. if k \<in> Pair d ` (fst ` set batch - set failed) then None else map_of (ws_pending s) k)
    \<and> fst ` set D = fst ` set (dt_chunks (ws_dirty s)) \<union> Pair d ` (fst ` set batch \<inter> set failed)"
  using assms
proof (induction batch arbitrary: s)
  case Nil
  then show ?case
    by (intro exI [of _ "ws_pending s"] exI [of _ "dt_chunks (ws_dirty s)"]) (simp add: settle_def)
next
  case (Cons pb batch)
  obtain p b where pb: "pb = (p, b)" by (cases pb)
  let ?s = "if p \<in> set failed then s\<lparr>ws_dirty := mark_chunk (ws_dirty s) d p\<rparr>
        else s\<lparr>ws_pending := om_remove (d, p) (ws_pending s)\<rparr>"
  have st: "settle d failed (pb # batch) s = settle d failed batch ?s" by (simp add: settle_def pb)
  have ok: "om_ok (ws_pending ?s)" "om_ok (dt_chunks (ws_dirty ?s))"
    using Cons.prems by (simp_all add: mark_chunk_def)
  obtain P D where e: "settle d failed batch ?s = ?s\<lparr>ws_pending := P, ws_dirty := (ws_dirty ?s)\<lparr>dt_chunks := D\<rparr>\<rparr>"
    "om_ok P" "om_ok D"
    "map_of P = (\<lambda>k. if k \<in> Pair d ` (fst ` set batch - set failed) then None else map_of (ws_pending ?s) k)"
    "fst ` set D = fst ` set (dt_chunks (ws_dirty ?s)) \<union> Pair d ` (fst ` set batch \<inter> set failed)"
    using Cons.IH [OF ok] by blast
  show ?case
  proof (intro exI conjI)
    show "settle d failed (pb # batch) s = s\<lparr>ws_pending := P, ws_dirty := (ws_dirty s)\<lparr>dt_chunks := D\<rparr>\<rparr>"
      unfolding st e(1) by (simp add: mark_chunk_def)
    show "map_of P = (\<lambda>k. if k \<in> Pair d ` (fst ` set (pb # batch) - set failed) then None
        else map_of (ws_pending s) k)"
      unfolding e(4) by (auto simp: pb fun_eq_iff)
    show "fst ` set D = fst ` set (dt_chunks (ws_dirty s)) \<union> Pair d ` (fst ` set (pb # batch) \<inter> set failed)"
      unfolding e(5) by (auto simp: pb mark_chunk_def)
  qed (fact e(2,3))+
qed


section \<open>One region of a flush\<close>

definition dirty_keys :: "world_storage \<Rightarrow> chunk_key set" where
  "dirty_keys s = fst ` set (dt_chunks (ws_dirty s))"

definition queue_ok :: "world_storage \<Rightarrow> bool" where
  "queue_ok s \<longleftrightarrow> om_ok (ws_pending s) \<and> om_ok (dt_chunks (ws_dirty s))
     \<and> (\<forall>k bs. map_of (ws_pending s) k = Some bs \<longrightarrow> length bs \<le> DEFAULT_PAYLOAD_LIMIT)"

text \<open>A chunk the flush is done with: it is on disk, or it is queued and dirty again.\<close>

definition settled :: "world_storage \<Rightarrow> chunk_key \<Rightarrow> bool" where
  "settled s k \<longleftrightarrow> map_of (ws_pending s) k = None \<or> k \<in> dirty_keys s"

definition group_keys :: "region_key \<times> chunk_pos list \<Rightarrow> chunk_key set" where
  "group_keys g = Pair (fst (fst g)) ` set (snd g)"

definition good_group :: "region_key \<times> chunk_pos list \<Rightarrow> bool" where
  "good_group g \<longleftrightarrow> distinct (snd g) \<and> snd g \<noteq> [] \<and> (\<forall>p \<in> set (snd g). in_region (snd (fst g)) p)"

definition counted :: "save_report \<Rightarrow> nat" where
  "counted r = chunks_written r + chunks_failed r + chunks_skipped r"

definition keeps_visible :: "flate \<Rightarrow> world_storage \<Rightarrow> world_storage \<Rightarrow> bool" where
  "keeps_visible fl s s' \<longleftrightarrow>
     (\<forall>k bs. visible fl s k = Some bs \<longrightarrow> visible fl s' k = Some bs)
     \<and> (\<forall>k. map_of (ws_pending s') k = map_of (ws_pending s) k \<or> map_of (ws_pending s') k = None)
     \<and> dirty_keys s \<subseteq> dirty_keys s'
     \<and> ws_level s' = ws_level s
     \<and> dt_level (ws_dirty s') = dt_level (ws_dirty s) \<and> ws_compression s' = ws_compression s"

lemma keeps_visible_refl: "keeps_visible fl s s"
  by (simp add: keeps_visible_def)

lemma keeps_visible_trans: "keeps_visible fl s t \<Longrightarrow> keeps_visible fl t u \<Longrightarrow> keeps_visible fl s u"
  unfolding keeps_visible_def by (simp, metis subset_trans)

lemma settled_keep: "keeps_visible fl s s' \<Longrightarrow> settled s k \<Longrightarrow> settled s' k"
  unfolding keeps_visible_def settled_def by (metis subsetD)

lemma storage_ok_settle:
  "storage_ok n (s\<lparr>ws_pending := P, ws_dirty := D\<rparr>) = storage_ok n s"
  by (simp add: storage_ok_def uses_but_def disk_good_def)

lemma storage_ok_mono: "storage_ok n s \<Longrightarrow> m \<le> n \<Longrightarrow> storage_ok m s"
  unfolding storage_ok_def disk_good_def
  by (meson add_left_mono le_trans mult_le_mono2 region_good_mono order.strict_trans1)

lemma visible_mono:
  assumes pend: "\<And>k. map_of (ws_pending s') k = (if k \<in> K then None else map_of (ws_pending s) k)"
    and disk: "\<And>k bs. k \<in> K \<Longrightarrow> map_of (ws_pending s) k = Some bs \<Longrightarrow> disk_chunk fl s' k = Some bs"
      "\<And>k bs. map_of (ws_pending s) k = None \<Longrightarrow> disk_chunk fl s k = Some bs \<Longrightarrow> disk_chunk fl s' k = Some bs"
    and v: "visible fl s k = Some bs"
  shows "visible fl s' k = Some bs"
proof (cases "map_of (ws_pending s) k")
  case None
  then show ?thesis using v disk(2) by (simp add: visible_def pend)
next
  case (Some b)
  then show ?thesis using v disk(1) by (cases "k \<in> K") (auto simp: visible_def pend)
qed

text \<open>The answers of the operating system decide nothing that is read.\<close>

lemma os_frame [simp]:
  "storage_ok n (s\<lparr>ws_os := x\<rparr>) = storage_ok n s" "disk_chunk fl (s\<lparr>ws_os := x\<rparr>) k = disk_chunk fl s k"
  "visible fl (s\<lparr>ws_os := x\<rparr>) k = visible fl s k"
  by (simp_all add: storage_ok_def uses_but_def disk_good_def disk_chunk_def visible_def split: option.split)

lemma sync_region_frame: "sync_region s = (synced, t) \<Longrightarrow> \<exists>x. t = s\<lparr>ws_os := x\<rparr>"
  by (auto simp: sync_region_def split: prod.splits)

lemma flush_region_ok:
  assumes ok: "storage_ok (Suc (length (snd g) + n)) s" "queue_ok s" and fl: "flate_ok fl"
    and g: "good_group g" and e: "flush_region fl c now g (report, s) = (report', s')"
  shows "storage_ok n s'" "queue_ok s'" "keeps_visible fl s s'"
    and "k \<in> group_keys g \<Longrightarrow> settled s' k"
    and "k \<notin> group_keys g \<Longrightarrow> map_of (ws_pending s') k = map_of (ws_pending s) k"
    and "counted report' = counted report + length (snd g)"
    and "chunks_failed report \<le> chunks_failed report'"
    and "chunks_failed report' = chunks_failed report \<Longrightarrow> k \<in> group_keys g \<Longrightarrow> map_of (ws_pending s') k = None"
proof -
  obtain d r ps where gd: "g = ((d, r), ps)" by (cases g) auto
  let ?b = "batch_of s d ps"
  let ?f = "\<lambda>h. case write_batch fl c now ?b h of (out, h) \<Rightarrow> (Inr out, h)"
  have bs: "set ?b = {(p, b). p \<in> set ps \<and> map_of (ws_pending s) (d, p) = Some b}" "length ?b \<le> length ps"
    "distinct (map fst ?b)" using batch_of_spec g by (auto simp: gd good_group_def)
  have reg: "\<forall>(p, b) \<in> set ?b. in_region r p \<and> length b \<le> DEFAULT_PAYLOAD_LIMIT"
    using g ok(2) by (auto simp: bs good_group_def gd queue_ok_def)
  obtain res s1 where w: "with_region s (d, r) ?f = (res, s1)" by fastforce
  have fok: "region_good n h'" if h: "region_good (Suc (length ps + n)) h" and f: "?f h = (res, h')" for h h' res
  proof -
    obtain wr fs where "write_batch fl c now ?b h = ((wr, fs), h')"
      using f by (auto split: prod.splits)
    moreover have "region_good (length ?b + n) h"
      using h bs(2) by (auto intro: region_good_mono)
    ultimately show ?thesis using write_batch_ok(1) fl bs(3) reg by blast
  qed
  have ok1: "storage_ok (Suc (length ps + n)) s" using ok(1) by (simp add: gd)
  have wr: "(\<exists>e f0. res = Inl e \<and> s1 = s \<and> ws_disk s (d, r) = Some f0 \<and> open_region (Some f0) False = Inl e)
    \<or> (\<exists>h h'. region_good (Suc (length ps + n)) h \<and> rf_file h = disk_file s (d, r) \<and> ?f h = (res, h')
         \<and> same_queue s s1 \<and> ws_disk s1 = (ws_disk s)((d, r) \<mapsto> rf_file h') \<and> storage_ok n s1
         \<and> length (ws_regions s1) \<le> ws_max_open s)"
    by (rule with_region_ok [OF ok1 w fok]) simp_all
  have mid: "\<exists>F s1. s' = settle d F ?b s1 \<and> set F \<subseteq> fst ` set ?b \<and> storage_ok n s1 \<and> same_queue s s1
      \<and> chunks_failed report' = chunks_failed report + length F
      \<and> counted report' = counted report + length ps
      \<and> (\<forall>p b. (p, b) \<in> set ?b \<longrightarrow> p \<notin> set F \<longrightarrow> disk_chunk fl s1 (d, p) = Some b)
      \<and> (\<forall>k b. map_of (ws_pending s) k = None \<longrightarrow> disk_chunk fl s k = Some b \<longrightarrow> disk_chunk fl s1 k = Some b)"
  proof (cases res)
    case (Inl err)
    have "s1 = s"
      using wr Inl by (auto split: prod.splits)
    have e': "s' = settle d (map fst ?b) ?b s1"
      "chunks_failed report' = chunks_failed report + length ?b"
      "counted report' = counted report + length ps"
      using e w Inl bs(2) by (simp_all add: flush_region_def gd Let_def counted_def) auto
    have "storage_ok n s1" using storage_ok_mono [OF ok1, of n] \<open>s1 = s\<close> by simp
    then show ?thesis
      using e' \<open>s1 = s\<close> by (intro exI [of _ "map fst ?b"] exI [of _ s1]) force
  next
    case (Inr out)
    obtain written failures where out: "out = (written, failures)" by (cases out)
    obtain h h' where h: "region_good (Suc (length ps + n)) h" "rf_file h = disk_file s (d, r)"
      and fh: "?f h = (res, h')" and q: "same_queue s s1"
      and dk: "ws_disk s1 = (ws_disk s)((d, r) \<mapsto> rf_file h')" and ok': "storage_ok n s1"
      using wr Inr by auto
    have wb: "write_batch fl c now ?b h = ((written, failures), h')"
      using fh by (auto simp: Inr out split: prod.splits)
    have hb: "region_good (length ?b + n) h" using h(1) bs(2) by (auto intro: region_good_mono)
    note b = write_batch_ok [OF wb hb fl bs(3) reg]
    have key: "region_key_of (d, p) = (d, r)" if "in_region r p" for p
      using that by (simp add: region_key_of_def key_region_def in_region_def)
    have new: "disk_chunk fl s1 (d, p) = Some x \<longleftrightarrow> slot_holds fl h' (pos_slot p) x" if "in_region r p" for p x
      using disk_chunk_holds [of s1 "(d, p)" h' n] b(1) dk key [OF that] by simp
    have written: "disk_chunk fl s1 (d, p) = Some x" if "(p, x) \<in> set ?b" "p \<notin> set (map fst failures)" for p x
    proof -
      have "in_region r p" using reg that(1) by auto
      then show ?thesis using b(4) [OF that(1)] that(2) new by simp
    qed
    have kept: "disk_chunk fl s1 k = Some x"
      if k: "map_of (ws_pending s) k = None" and x: "disk_chunk fl s k = Some x" for k x
    proof (cases "region_key_of k = (d, r)")
      case False
      then show ?thesis using x dk by (simp add: disk_chunk_def)
    next
      case True
      obtain p where p: "k = (d, p)" "in_region r p"
        using True by (cases k) (auto simp: region_key_of_def key_region_def in_region_def)
      have "ws_disk s (d, r) = Some (rf_file h)"
        using x h(2) True by (auto simp: disk_chunk_def disk_file_def split: option.splits)
      then have "slot_holds fl h (pos_slot p) x"
        using disk_chunk_holds [of s k h, OF _ h(1)] x True p by simp
      moreover have "p \<notin> fst ` set ?b" using k by (auto simp: bs p)
      ultimately show ?thesis using b(5) [OF p(2)] new [OF p(2)] p by simp
    qed
    obtain synced t where sync: "sync_region s1 = (synced, t)" by fastforce
    obtain x where t: "t = s1\<lparr>ws_os := x\<rparr>" using sync_region_frame [OF sync] by blast
    have e': "s' = settle d (map fst failures) ?b t"
      "chunks_failed report' = chunks_failed report + length failures"
      "counted report' = counted report + length ps"
      using e w Inr out bs(2) b(2) sync by (simp_all add: flush_region_def gd Let_def counted_def) auto
    have "storage_ok n t" "same_queue s t" using ok' q by (simp_all add: t same_queue_def)
    then show ?thesis
      using e' b(3) written kept by (intro exI [of _ "map fst failures"] exI [of _ t]) (simp add: t)
  qed
  obtain F s1 where s': "s' = settle d F ?b s1" and F: "set F \<subseteq> fst ` set ?b" and ok2: "storage_ok n s1"
    and q: "same_queue s s1" and rep: "chunks_failed report' = chunks_failed report + length F"
      "counted report' = counted report + length ps"
    and saved: "\<And>p b. (p, b) \<in> set ?b \<Longrightarrow> p \<notin> set F \<Longrightarrow> disk_chunk fl s1 (d, p) = Some b"
    and kept: "\<And>k b. map_of (ws_pending s) k = None \<Longrightarrow> disk_chunk fl s k = Some b \<Longrightarrow> disk_chunk fl s1 k = Some b"
    using mid by blast
  have q': "om_ok (ws_pending s1)" "om_ok (dt_chunks (ws_dirty s1))"
    using ok(2) q by (simp_all add: queue_ok_def same_queue_def)
  let ?K = "Pair d ` (fst ` set ?b - set F)"
  obtain P D where se: "s' = s1\<lparr>ws_pending := P, ws_dirty := (ws_dirty s1)\<lparr>dt_chunks := D\<rparr>\<rparr>"
    and om: "om_ok P" "om_ok D"
    and P: "map_of P = (\<lambda>k. if k \<in> ?K then None else map_of (ws_pending s1) k)"
    and D: "fst ` set D = fst ` set (dt_chunks (ws_dirty s1)) \<union> Pair d ` (fst ` set ?b \<inter> set F)"
    using settle_spec [OF q', of d F ?b] unfolding s' by blast
  have pend: "map_of (ws_pending s') k = (if k \<in> ?K then None else map_of (ws_pending s) k)" for k
    using q by (simp add: se P same_queue_def)
  have dk: "disk_chunk fl s' k = disk_chunk fl s1 k" for k by (simp add: disk_chunk_def se)
  show "storage_ok n s'" using ok2 by (simp add: se storage_ok_settle)
  show "queue_ok s'" using om ok(2) pend by (auto simp: queue_ok_def se)
  show "keeps_visible fl s s'"
    unfolding keeps_visible_def
  proof (intro conjI allI impI)
    show "visible fl s' k = Some x" if "visible fl s k = Some x" for k x
    proof (rule visible_mono [OF pend _ _ that])
      show "disk_chunk fl s' j = Some y" if "j \<in> ?K" "map_of (ws_pending s) j = Some y" for j y
      proof -
        from that(1) obtain p where p: "j = (d, p)" "p \<in> fst ` set ?b" "p \<notin> set F" by auto
        then have "(p, y) \<in> set ?b" using that(2) by (auto simp: bs)
        then show ?thesis using saved p by (simp add: dk)
      qed
    qed (simp add: dk kept)
    show "dirty_keys s \<subseteq> dirty_keys s'" using D q by (auto simp: dirty_keys_def se same_queue_def)
  qed (use pend q in \<open>auto simp: se same_queue_def\<close>)
  have ingroup: "k \<in> Pair d ` (fst ` set ?b)" if "k \<in> group_keys g" "map_of (ws_pending s) k \<noteq> None" for k
    using that by (auto simp: group_keys_def gd bs image_iff)
  show "settled s' k" if "k \<in> group_keys g"
  proof (cases "map_of (ws_pending s) k = None")
    case True
    then show ?thesis by (simp add: settled_def pend)
  next
    case False
    from ingroup [OF that this] obtain p where "k = (d, p)" "p \<in> fst ` set ?b" by blast
    then have "k \<in> ?K \<or> k \<in> Pair d ` (fst ` set ?b \<inter> set F)" by blast
    then show ?thesis
    proof
      assume "k \<in> ?K"
      then show ?thesis using pend [of k] by (simp add: settled_def)
    next
      assume "k \<in> Pair d ` (fst ` set ?b \<inter> set F)"
      then show ?thesis using D by (auto simp: settled_def dirty_keys_def se)
    qed
  qed
  show "map_of (ws_pending s') k = map_of (ws_pending s) k" if "k \<notin> group_keys g"
    using that by (auto simp: pend bs group_keys_def gd)
  show "counted report' = counted report + length (snd g)" using rep by (simp add: gd)
  show "chunks_failed report \<le> chunks_failed report'" using rep by simp
  show "map_of (ws_pending s') k = None"
    if "chunks_failed report' = chunks_failed report" "k \<in> group_keys g"
    using that(1) rep ingroup [OF that(2)] by (cases "map_of (ws_pending s) k") (auto simp: pend)
qed

text \<open>A whole list of regions.\<close>

definition budget :: "(region_key \<times> chunk_pos list) list \<Rightarrow> nat" where
  "budget gs = sum_list (map (\<lambda>g. Suc (length (snd g))) gs)"

lemma flush_regions_ok:
  assumes "storage_ok (budget gs + n) s" "queue_ok s" "flate_ok fl"
    and "\<forall>g \<in> set gs. good_group g"
    and "fold (flush_region fl c now) gs (report, s) = (report', s')"
  shows "storage_ok n s' \<and> queue_ok s' \<and> keeps_visible fl s s'
    \<and> (\<forall>g \<in> set gs. \<forall>k \<in> group_keys g. settled s' k)
    \<and> counted report' = counted report + sum_list (map (\<lambda>g. length (snd g)) gs)
    \<and> chunks_failed report \<le> chunks_failed report'
    \<and> (chunks_failed report' = chunks_failed report \<longrightarrow>
         (\<forall>g \<in> set gs. \<forall>k \<in> group_keys g. map_of (ws_pending s') k = None))"
  using assms
proof (induction gs arbitrary: report s)
  case Nil
  then show ?case by (simp add: budget_def keeps_visible_refl)
next
  case (Cons g gs)
  obtain r1 s1 where e: "flush_region fl c now g (report, s) = (r1, s1)" by fastforce
  have "storage_ok (Suc (length (snd g) + (budget gs + n))) s"
    using Cons.prems(1) by (simp add: budget_def add.assoc)
  note st = flush_region_ok [OF this Cons.prems(2,3) _ e]
  have g: "good_group g" using Cons.prems(4) by simp
  have rest: "fold (flush_region fl c now) gs (r1, s1) = (report', s')"
    using Cons.prems(5) e by simp
  have ih: "storage_ok n s'" "queue_ok s'" "keeps_visible fl s1 s'"
    "\<forall>g \<in> set gs. \<forall>k \<in> group_keys g. settled s' k"
    "counted report' = counted r1 + sum_list (map (\<lambda>g. length (snd g)) gs)"
    "chunks_failed r1 \<le> chunks_failed report'"
    "chunks_failed report' = chunks_failed r1 \<longrightarrow>
         (\<forall>g \<in> set gs. \<forall>k \<in> group_keys g. map_of (ws_pending s') k = None)"
    using Cons.IH [OF st(1) [OF g] st(2) [OF g] Cons.prems(3) _ rest] Cons.prems(4) by auto
  have first: "settled s' k" if "k \<in> group_keys g" for k
    using settled_keep [OF ih(3) st(4) [OF g that]] .
  have clean: "map_of (ws_pending s') k = None"
    if "chunks_failed r1 = chunks_failed report" "k \<in> group_keys g" for k
    using st(8) [OF g that] ih(3) unfolding keeps_visible_def by metis
  show ?case
    using ih first clean st(6,7) [OF g] keeps_visible_trans [OF st(3) [OF g] ih(3)] by auto
qed

section \<open>The groups of a snapshot\<close>

lemma push_group_ok:
  assumes "om_ok g" "\<forall>e \<in> set g. good_group e" "\<forall>e \<in> set g. k \<notin> group_keys e"
  shows "om_ok (push_group k g) \<and> (\<forall>e \<in> set (push_group k g). good_group e)
    \<and> \<Union> (group_keys ` set (push_group k g)) = insert k (\<Union> (group_keys ` set g))
    \<and> sum_list (map (\<lambda>e. length (snd e)) (push_group k g)) = Suc (sum_list (map (\<lambda>e. length (snd e)) g))"
proof -
  let ?r = "(fst k, key_region k)"
  define ps0 where "ps0 = (case map_of g ?r of None \<Rightarrow> [] | Some ps \<Rightarrow> ps)"
  have e: "push_group k g = om_insert ?r (ps0 @ [snd k]) g" by (simp add: push_group_def Let_def ps0_def)
  have ok: "om_ok (push_group k g)" using assms(1) by (simp add: e)
  have mem: "x \<in> set (push_group k g) \<longleftrightarrow> x = (?r, ps0 @ [snd k]) \<or> (fst x \<noteq> ?r \<and> x \<in> set g)" for x
    using in_insert [OF assms(1), of "fst x" "snd x" ?r "ps0 @ [snd k]"] by (auto simp: e prod_eq_iff)
  have ps: "(?r, ps0) \<in> set g \<or> ps0 = []"
    by (cases "map_of g ?r") (auto simp: ps0_def dest: map_of_SomeD)
  have new: "good_group (?r, ps0 @ [snd k])"
  proof -
    have "good_group (?r, ps @ [snd k])" if "(?r, ps) \<in> set g \<or> ps = []" for ps
    proof -
      have "distinct ps \<and> (\<forall>p \<in> set ps. in_region (key_region k) p) \<and> snd k \<notin> set ps"
        using that
      proof
        assume m: "(?r, ps) \<in> set g"
        have "k \<notin> group_keys (?r, ps)" using assms(3) m by blast
        then have "snd k \<notin> set ps" by (auto simp: group_keys_def image_iff prod_eq_iff)
        moreover have "good_group (?r, ps)" using assms(2) m by blast
        ultimately show ?thesis by (simp add: good_group_def)
      qed simp
      then show ?thesis by (simp add: good_group_def in_region_def key_region_def)
    qed
    then show ?thesis using ps by blast
  qed
  have uni: "map_of g (fst x) = Some (snd x)" if "x \<in> set g" for x
    using that om_ok_distinct [OF assms(1)] by simp
  note sum = sum_insert [OF assms(1), of length]
  show ?thesis
  proof (intro conjI)
    show "\<forall>e \<in> set (push_group k g). good_group e" using mem new assms(2) by auto
    show "\<Union> (group_keys ` set (push_group k g)) = insert k (\<Union> (group_keys ` set g))"
    proof (intro equalityI subsetI)
      fix y assume "y \<in> \<Union> (group_keys ` set (push_group k g))"
      then obtain x where x: "x \<in> set (push_group k g)" "y \<in> group_keys x" by blast
      have "y = k \<or> (\<exists>x \<in> set g. y \<in> group_keys x)"
      proof (cases "x = (?r, ps0 @ [snd k])")
        case True
        then have "y = k \<or> y \<in> group_keys (?r, ps0)" using x(2) by (auto simp: group_keys_def)
        moreover have "group_keys (?r, []) = {}" by (simp add: group_keys_def)
        ultimately show ?thesis using ps by blast
      next
        case False
        then show ?thesis using x mem by blast
      qed
      then show "y \<in> insert k (\<Union> (group_keys ` set g))" by blast
    next
      fix y assume y: "y \<in> insert k (\<Union> (group_keys ` set g))"
      have new': "(?r, ps0 @ [snd k]) \<in> set (push_group k g)" by (simp add: mem)
      have k: "k \<in> group_keys (?r, ps0 @ [snd k])" by (simp add: group_keys_def image_iff prod_eq_iff)
      show "y \<in> \<Union> (group_keys ` set (push_group k g))"
      proof (cases "y = k")
        case True
        then show ?thesis using new' k by blast
      next
        case False
        then obtain x where x: "x \<in> set g" "y \<in> group_keys x" using y by blast
        show ?thesis
        proof (cases "fst x = ?r")
          case True
          then have "snd x = ps0" using uni [OF x(1)] by (simp add: ps0_def)
          then have "y \<in> group_keys (?r, ps0 @ [snd k])" using x(2) True by (auto simp: group_keys_def)
          then show ?thesis using new' by blast
        next
          case False
          then show ?thesis using x mem by blast
        qed
      qed
    qed
    show "sum_list (map (\<lambda>e. length (snd e)) (push_group k g)) = Suc (sum_list (map (\<lambda>e. length (snd e)) g))"
      using sum [of ?r "ps0 @ [snd k]"] by (simp add: e ps0_def split: option.splits)
  qed (fact ok)
qed

lemma by_region_ok:
  assumes "om_ok (ds_chunks snap)"
  shows "\<forall>e \<in> set (by_region snap). good_group e"
    and "\<Union> (group_keys ` set (by_region snap)) = fst ` set (ds_chunks snap)"
    and "sum_list (map (\<lambda>e. length (snd e)) (by_region snap)) = length (ds_chunks snap)"
proof -
  have "om_ok (fold push_group ks g) \<and> (\<forall>e \<in> set (fold push_group ks g). good_group e)
    \<and> \<Union> (group_keys ` set (fold push_group ks g)) = set ks \<union> \<Union> (group_keys ` set g)
    \<and> sum_list (map (\<lambda>e. length (snd e)) (fold push_group ks g))
        = length ks + sum_list (map (\<lambda>e. length (snd e)) g)"
    if "distinct ks" "om_ok g" "\<forall>e \<in> set g. good_group e" "set ks \<inter> \<Union> (group_keys ` set g) = {}" for ks g
    using that
  proof (induction ks arbitrary: g)
    case (Cons k ks)
    have p: "om_ok (push_group k g)" "\<forall>e \<in> set (push_group k g). good_group e"
      "\<Union> (group_keys ` set (push_group k g)) = insert k (\<Union> (group_keys ` set g))"
      "sum_list (map (\<lambda>e. length (snd e)) (push_group k g)) = Suc (sum_list (map (\<lambda>e. length (snd e)) g))"
      using push_group_ok [OF Cons.prems(2,3), of k] Cons.prems(4) by auto
    have dis: "distinct ks" "set ks \<inter> \<Union> (group_keys ` set (push_group k g)) = {}"
      using Cons.prems(1,4) unfolding p(3) by auto
    note ih = Cons.IH [OF dis(1) p(1,2) dis(2)]
    then show ?case by (simp add: p(3,4))
  qed simp
  from this [of "map fst (ds_chunks snap)" "[]"] om_ok_distinct [OF assms]
  show "\<forall>e \<in> set (by_region snap). good_group e"
    "\<Union> (group_keys ` set (by_region snap)) = fst ` set (ds_chunks snap)"
    "sum_list (map (\<lambda>e. length (snd e)) (by_region snap)) = length (ds_chunks snap)"
    by (simp_all add: by_region_def)
qed

lemma budget_bound:
  "\<forall>e \<in> set gs. good_group e \<Longrightarrow> budget gs \<le> 2 * sum_list (map (\<lambda>e. length (snd e)) gs)"
proof (induction gs)
  case (Cons g gs)
  then have "0 < length (snd g)" by (simp add: good_group_def)
  moreover have "budget gs \<le> 2 * sum_list (map (\<lambda>e. length (snd e)) gs)" using Cons by simp
  moreover have "budget (g # gs) = Suc (length (snd g)) + budget gs" by (simp add: budget_def)
  moreover have "sum_list (map (\<lambda>e. length (snd e)) (g # gs)) = length (snd g) + sum_list (map (\<lambda>e. length (snd e)) gs)"
    by simp
  ultimately show ?case by linarith
qed (simp add: budget_def)

end
