(* ===== verification/WorldTheorems.thy ===== *)
theory WorldTheorems
  imports FlushLaws
begin

text \<open>
  The properties of the world storage: what a flush leaves queued and on disk, and when
  the autosave timer fires.
\<close>

section \<open>Flush\<close>

lemma write_level_frame:
  "write_level fl s level = (res, s') \<Longrightarrow> \<exists>files. s' = s\<lparr>ws_os := files\<rparr>"
  by (auto simp: write_level_def split: sum.splits prod.splits intro: exI [of _ "ws_os s"])

lemma storage_ok_dirty: "storage_ok n (s\<lparr>ws_dirty := t\<rparr>) = storage_ok n s"
  by (simp add: storage_ok_def uses_but_def disk_good_def)

lemma dirty_frame [simp]:
  "disk_chunk fl (s\<lparr>ws_dirty := t\<rparr>) k = disk_chunk fl s k"
  "visible fl (s\<lparr>ws_dirty := t\<rparr>) k = visible fl s k"
  by (simp_all add: disk_chunk_def visible_def split: option.split)

lemma flush_core:
  assumes ok: "storage_ok (2 * length (dt_chunks (ws_dirty s))) s" "queue_ok s" and fl: "flate_ok fl"
    and e: "write_chunks fl now (fst (snapshot (ws_dirty s))) (s\<lparr>ws_dirty := snd (snapshot (ws_dirty s))\<rparr>)
      = (report, t)"
  shows "\<forall>k bs. visible fl s k = Some bs \<longrightarrow> visible fl t k = Some bs"
    and "\<forall>k. map_of (ws_pending t) k = map_of (ws_pending s) k \<or> map_of (ws_pending t) k = None"
    and "\<forall>k \<in> dirty_keys s. settled t k"
    and "counted report = length (dt_chunks (ws_dirty s))"
    and "chunks_failed report = 0 \<longrightarrow> (\<forall>k \<in> dirty_keys s. map_of (ws_pending t) k = None)"
    and "storage_ok 0 t" "queue_ok t"
proof -
  let ?snap = "fst (snapshot (ws_dirty s))" and ?s = "s\<lparr>ws_dirty := snd (snapshot (ws_dirty s))\<rparr>"
  have om: "om_ok (ds_chunks ?snap)" using ok(2) by (simp add: snapshot_def queue_ok_def)
  note br = by_region_ok [OF om]
  have "budget (by_region ?snap) \<le> 2 * length (dt_chunks (ws_dirty s))"
    using budget_bound [OF br(1)] br(3) by (simp add: snapshot_def)
  then have ok1: "storage_ok (budget (by_region ?snap) + 0) ?s"
    using storage_ok_mono [OF ok(1)] by (simp add: storage_ok_dirty)
  have ok2: "queue_ok ?s" using ok(2) by (simp add: queue_ok_def snapshot_def)
  have f: "fold (flush_region fl (ws_compression ?s) now) (by_region ?snap) (default_report_save, ?s) = (report, t)"
    using e by (simp add: write_chunks_def)
  have keys: "\<Union> (group_keys ` set (by_region ?snap)) = dirty_keys s"
    using br(2) by (simp add: snapshot_def dirty_keys_def)
  note r = flush_regions_ok [OF ok1 ok2 fl br(1) f]
  show "\<forall>k bs. visible fl s k = Some bs \<longrightarrow> visible fl t k = Some bs"
    "\<forall>k. map_of (ws_pending t) k = map_of (ws_pending s) k \<or> map_of (ws_pending t) k = None"
    using r by (auto simp: keeps_visible_def)
  show "\<forall>k \<in> dirty_keys s. settled t k"
    using r unfolding keys [symmetric] by blast
  show "counted report = length (dt_chunks (ws_dirty s))"
    using r br(3) by (simp add: counted_def default_report_save_def snapshot_def)
  show "chunks_failed report = 0 \<longrightarrow> (\<forall>k \<in> dirty_keys s. map_of (ws_pending t) k = None)"
    using r unfolding keys [symmetric] by (simp add: default_report_save_def)
  show "storage_ok 0 t" "queue_ok t" using r by auto
qed

lemma flush_cases:
  assumes "flush fl now s = (res, s')"
  obtains report t where
    "write_chunks fl now (fst (snapshot (ws_dirty s))) (s\<lparr>ws_dirty := snd (snapshot (ws_dirty s))\<rparr>) = (report, t)"
    and "\<exists>files D. s' = t\<lparr>ws_os := files, ws_dirty := D\<rparr> \<and> dt_chunks D = dt_chunks (ws_dirty t)"
    and "\<And>rep. res = Inr rep \<Longrightarrow> \<exists>b. rep = report\<lparr>level_written := b\<rparr>"
proof -
  obtain report t where w: "write_chunks fl now (fst (snapshot (ws_dirty s)))
      (s\<lparr>ws_dirty := snd (snapshot (ws_dirty s))\<rparr>) = (report, t)" by fastforce
  have "\<exists>files D. s' = t\<lparr>ws_os := files, ws_dirty := D\<rparr> \<and> dt_chunks D = dt_chunks (ws_dirty t)"
    and "\<And>rep. res = Inr rep \<Longrightarrow> \<exists>b. rep = report\<lparr>level_written := b\<rparr>"
  proof -
    have id: "\<exists>files D. t = t\<lparr>ws_os := files, ws_dirty := D\<rparr> \<and> dt_chunks D = dt_chunks (ws_dirty t)"
      by (rule exI [of _ "ws_os t"], rule exI [of _ "ws_dirty t"]) simp
    have id': "\<exists>b. report = report\<lparr>level_written := b\<rparr>"
      by (rule exI [of _ "level_written report"]) simp
    have "(\<exists>files D. s' = t\<lparr>ws_os := files, ws_dirty := D\<rparr> \<and> dt_chunks D = dt_chunks (ws_dirty t))
      \<and> (\<forall>rep. res = Inr rep \<longrightarrow> (\<exists>b. rep = report\<lparr>level_written := b\<rparr>))"
    proof (cases "ds_level (fst (snapshot (ws_dirty s)))")
      case False
      then have "res = Inr report" "s' = t"
        using assms w by (auto simp: flush_def Let_def case_prod_beta)
      then show ?thesis using id id' by blast
    next
      case True
      show ?thesis
      proof (cases "ws_level t")
        case None
        then have "res = Inr report" "s' = t"
          using assms w True by (auto simp: flush_def Let_def case_prod_beta)
        then show ?thesis using id id' by blast
      next
        case (Some level)
        obtain r u where wl: "write_level fl t level = (r, u)" by fastforce
        obtain files where u: "u = t\<lparr>ws_os := files\<rparr>" using write_level_frame [OF wl] by blast
        show ?thesis
        proof (cases r)
          case (Inl a)
          have "res = Inl a" "s' = t\<lparr>ws_os := files, ws_dirty := mark_level (ws_dirty t)\<rparr>"
            using assms w True Some wl by (simp_all add: Inl u flush_def Let_def case_prod_beta)
          then show ?thesis
            by (intro conjI exI [of _ files] exI [of _ "mark_level (ws_dirty t)"]) (simp_all add: mark_level_def)
        next
          case (Inr v)
          have same: "t\<lparr>ws_os := files\<rparr> = t\<lparr>ws_os := files, ws_dirty := ws_dirty t\<rparr>"
            by (cases t) simp
          have "res = Inr (report\<lparr>level_written := True\<rparr>)" "s' = t\<lparr>ws_os := files\<rparr>"
            using assms w True Some wl by (simp_all add: Inr u flush_def Let_def case_prod_beta)
          note this(1) trans [OF this(2) same]
          then show ?thesis by blast
        qed
      qed
    qed
    then show "\<exists>files D. s' = t\<lparr>ws_os := files, ws_dirty := D\<rparr> \<and> dt_chunks D = dt_chunks (ws_dirty t)"
      "\<And>rep. res = Inr rep \<Longrightarrow> \<exists>b. rep = report\<lparr>level_written := b\<rparr>" by blast+
  qed
  then show ?thesis using that [OF w] by blast
qed

text \<open>
  C17. A flush loses no chunk, whatever write or sync fails: every chunk a reader could get before it,
  from the queue or from its region file, reads the same after it; the queue only
  shrinks; a chunk that was dirty is afterwards on disk, or still queued and marked dirty
  for the next flush; and the report counts each dirty chunk once as written, failed or
  skipped, so that without a failure nothing dirty is left in the queue.
\<close>

theorem flush_loses_nothing:
  assumes "storage_ok (2 * length (dt_chunks (ws_dirty s))) s" and "queue_ok s" and "flate_ok fl"
    and "flush fl now s = (res, s')"
  shows "(\<forall>k bs. visible fl s k = Some bs \<longrightarrow> visible fl s' k = Some bs)
    \<and> (\<forall>k. map_of (ws_pending s') k = map_of (ws_pending s) k \<or> map_of (ws_pending s') k = None)
    \<and> (\<forall>k \<in> dirty_keys s. settled s' k)
    \<and> storage_ok 0 s' \<and> queue_ok s'
    \<and> (\<forall>report. res = Inr report \<longrightarrow>
         chunks_written report + chunks_failed report + chunks_skipped report = length (dt_chunks (ws_dirty s))
         \<and> (chunks_failed report = 0 \<longrightarrow> (\<forall>k \<in> dirty_keys s. map_of (ws_pending s') k = None)))"
proof -
  obtain report t where w: "write_chunks fl now (fst (snapshot (ws_dirty s)))
      (s\<lparr>ws_dirty := snd (snapshot (ws_dirty s))\<rparr>) = (report, t)"
    and ex: "\<exists>files D. s' = t\<lparr>ws_os := files, ws_dirty := D\<rparr> \<and> dt_chunks D = dt_chunks (ws_dirty t)"
    and rep: "\<And>rep. res = Inr rep \<Longrightarrow> \<exists>b. rep = report\<lparr>level_written := b\<rparr>"
    using flush_cases [OF assms(4)] by blast
  obtain files D where s': "s' = t\<lparr>ws_os := files, ws_dirty := D\<rparr>" "dt_chunks D = dt_chunks (ws_dirty t)"
    using ex by blast
  note c = flush_core [OF assms(1-3) w]
  have "storage_ok 0 s'" "queue_ok s'" "settled s' = settled t"
    using c(6,7) s'(2)
    by (simp_all add: s'(1) storage_ok_def uses_but_def disk_good_def queue_ok_def settled_def dirty_keys_def fun_eq_iff)
  then show ?thesis
    using c(1-5) rep by (auto simp: s'(1) counted_def)
qed

text \<open>A world without files, where the next call of the operating system fails.\<close>

definition no_files :: os where
  "no_files = \<lparr>os_files = \<lparr>fs_node = (\<lambda>n. \<lparr>fn_bytes = [], fn_synced = True\<rparr>), fs_dir = Map.empty,
       fs_disk = [Map.empty], fs_fresh = 0\<rparr>, os_answers = [Fails 0], os_seen = []\<rparr>"

definition empty_storage :: world_storage where
  "empty_storage = new_storage (\<lambda>k. None) no_files None 0"

definition queued_storage :: world_storage where
  "queued_storage = queue_bytes empty_storage (Overworld, ChunkPos 3 (-1)) [1, 2, 3]"

lemma queued_storage_ok: "storage_ok 2 queued_storage" "queue_ok queued_storage"
  "length (dt_chunks (ws_dirty queued_storage)) = 1"
  "visible fl queued_storage (Overworld, ChunkPos 3 (-1)) = Some [1, 2, 3]"
  by (simp_all add: queued_storage_def queue_bytes_def empty_storage_def new_storage_def storage_ok_def uses_but_def
      disk_good_def DEFAULT_MAX_OPEN_REGIONS_def u64_max_def queue_ok_def mark_chunk_def new_tracker_def
      om_ok_Cons DEFAULT_PAYLOAD_LIMIT_def visible_def)

theorem flush_loses_nothing_witness:
  "\<exists>res s'. flush plain_flate 7 queued_storage = (res, s')
     \<and> visible plain_flate s' (Overworld, ChunkPos 3 (-1)) = Some [1, 2, 3]
     \<and> settled s' (Overworld, ChunkPos 3 (-1))"
proof -
  obtain res s' where f: "flush plain_flate 7 queued_storage = (res, s')" by fastforce
  have ok: "storage_ok (2 * length (dt_chunks (ws_dirty queued_storage))) queued_storage"
    using queued_storage_ok(1,3) by simp
  have "(Overworld, ChunkPos 3 (-1)) \<in> dirty_keys queued_storage"
    by (simp add: dirty_keys_def queued_storage_def queue_bytes_def empty_storage_def new_storage_def
        mark_chunk_def new_tracker_def)
  then show ?thesis
    using flush_loses_nothing [OF ok queued_storage_ok(2) plain_flate_ok f] queued_storage_ok(4) f by blast
qed

text \<open>
  Where the sync fails the flush reports it, but the written chunk has left the queue and is
  not dirty: no later flush syncs or writes it again.
\<close>

lemma unsynced_flush_drops:
  "\<exists>report s'. flush plain_flate 7 queued_storage = (Inr report, s')
     \<and> report_errors report = 1 \<and> regions_synced report = 0 \<and> chunks_written report = 1
     \<and> ws_pending s' = [] \<and> dt_chunks (ws_dirty s') = []"
proof -
  let ?p = "ChunkPos 3 (-1)"
  have w: "write_chunk plain_flate fresh_region ?p [1, 2, 3] DEFAULT_WRITE 7
      = (Inr (), snd (write_chunk plain_flate fresh_region ?p [1, 2, 3] DEFAULT_WRITE 7))"
    using write_chunk_at_result [of plain_flate fresh_region "pos_slot ?p" "[1, 2, 3]" DEFAULT_WRITE 7
        "fst (write_chunk plain_flate fresh_region ?p [1, 2, 3] DEFAULT_WRITE 7)"
        "snd (write_chunk plain_flate fresh_region ?p [1, 2, 3] DEFAULT_WRITE 7)"] pos_slot_bound [of ?p]
    by (simp add: write_chunk_def fresh_region_def prod_eq_iff DEFAULT_WRITE_def plain_flate_def store_deflate_def finish_stream_def)
  then obtain h where h: "write_chunk plain_flate fresh_region ?p [1, 2, 3] DEFAULT_WRITE 7 = (Inr (), h)" by blast
  show ?thesis
    by (simp add: flush_def snapshot_def write_chunks_def by_region_def push_group_def queued_storage_def queue_bytes_def
        empty_storage_def new_storage_def mark_chunk_def new_tracker_def flush_region_def batch_of_def map_filter_def
        with_region_def ensure_open_def open_fresh Let_def evict_regions.simps h sync_region_def os_call_def no_files_def
        passed_def succeeds_def settle_def default_report_save_def region_x_def region_z_def REGION_CHUNKS_def DEFAULT_MAX_OPEN_REGIONS_def key_region_def om_remove_def)
qed

section \<open>Reads\<close>

lemma empty_file_reads_none:
  assumes "region_good n h" "rf_file h = []"
  shows "read_chunk fl h p = Inr None"
proof -
  have "rf_header h = empty_header"
    using assms by (auto simp: region_good_def region_sound_def disk_ok_def header_on_def)
  then show ?thesis by (simp add: read_chunk_def read_chunk_at_def)
qed

lemma disk_chunk_open:
  assumes "region_good n h" "rf_file h = disk_file s (region_key_of key)"
  shows "disk_chunk fl s key = (case read_chunk fl h (snd key) of Inr (Some ch) \<Rightarrow> Some (sc_data ch) | _ \<Rightarrow> None)"
proof (cases "ws_disk s (region_key_of key)")
  case None
  then show ?thesis
    using empty_file_reads_none [OF assms(1)] assms(2) by (simp add: disk_chunk_def disk_file_def)
next
  case (Some f)
  have "read_chunk_at fl (h\<lparr>rf_readonly := False, rf_journal := []\<rparr>) slot limit = read_chunk_at fl h slot limit"
    for slot limit by (simp add: slot_read_chunk)
  moreover have "open_region (Some (rf_file h)) False = Inr (h\<lparr>rf_readonly := False, rf_journal := []\<rparr>)"
    using assms(1) by (intro reopen) (simp add: region_good_def)
  moreover have "f = rf_file h" using Some assms(2) by (simp add: disk_file_def)
  ultimately show ?thesis using Some by (simp add: disk_chunk_def read_chunk_def)
qed

text \<open>
  What reading the region file itself gives, with no cache in between: the specification
  of a read that finds nothing queued.
\<close>

definition file_read :: "flate \<Rightarrow> world_storage \<Rightarrow> chunk_key \<Rightarrow> bytes option server_result" where
  "file_read fl s key =
     (case open_region (ws_disk s (region_key_of key)) False of
        Inl e \<Rightarrow> Inl e
      | Inr h \<Rightarrow> map_sum id (map_option sc_data) (read_chunk fl h (snd key)))"

lemma file_read_open:
  assumes "region_good n h" "rf_file h = disk_file s (region_key_of key)"
  shows "file_read fl s key = map_sum id (map_option sc_data) (read_chunk fl h (snd key))"
proof (cases "ws_disk s (region_key_of key)")
  case None
  then have "read_chunk fl h (snd key) = Inr None"
    using empty_file_reads_none [OF assms(1)] assms(2) by (simp add: disk_file_def)
  moreover have "read_chunk fl fresh_region p = Inr None" for p
    by (simp add: read_chunk_def read_chunk_at_def fresh_region_def)
  ultimately show ?thesis using None by (simp add: file_read_def open_fresh)
next
  case (Some f)
  have "read_chunk_at fl (h\<lparr>rf_readonly := False, rf_journal := []\<rparr>) slot limit = read_chunk_at fl h slot limit"
    for slot limit by (simp add: slot_read_chunk)
  moreover have "open_region (Some (rf_file h)) False = Inr (h\<lparr>rf_readonly := False, rf_journal := []\<rparr>)"
    using assms(1) by (intro reopen) (simp add: region_good_def)
  moreover have "f = rf_file h" using Some assms(2) by (simp add: disk_file_def)
  ultimately show ?thesis using Some by (simp add: file_read_def read_chunk_def)
qed

lemma read_bytes_result:
  assumes ok: "storage_ok (Suc n) s" and e: "storage_read_bytes fl s key = (res, s')"
  shows "res = (case map_of (ws_pending s) key of Some bs \<Rightarrow> Inr (Some bs) | None \<Rightarrow> file_read fl s key)
    \<and> (\<forall>r. res = Inr r \<longrightarrow> r = visible fl s key)
    \<and> (\<forall>k. visible fl s' k = visible fl s k) \<and> storage_ok n s'
    \<and> ws_pending s' = ws_pending s \<and> ws_dirty s' = ws_dirty s"
proof (cases "map_of (ws_pending s) key")
  case (Some bs)
  then show ?thesis
    using e storage_ok_mono [OF ok, of n] by (auto simp: storage_read_bytes_def visible_def)
next
  case None
  let ?f = "\<lambda>h. (read_chunk fl h (snd key), h)"
  obtain r s1 where w: "with_region s (region_key_of key) ?f = (r, s1)" by fastforce
  have s': "s' = s1" and res: "res = map_sum id (map_option sc_data) r"
    using e None w by (auto simp: storage_read_bytes_def split: sum.splits)
  have "(\<exists>e f0. r = Inl e \<and> s1 = s \<and> ws_disk s (region_key_of key) = Some f0 \<and> open_region (Some f0) False = Inl e)
    \<or> (\<exists>h h'. region_good (Suc n) h \<and> rf_file h = disk_file s (region_key_of key) \<and> ?f h = (r, h') \<and> same_queue s s1
         \<and> ws_disk s1 = (ws_disk s)(region_key_of key \<mapsto> rf_file h') \<and> storage_ok n s1
         \<and> length (ws_regions s1) \<le> ws_max_open s)"
    by (rule with_region_ok [OF ok w]) (auto intro: region_good_mono)
  then show ?thesis
  proof (elim disjE exE conjE)
    fix err f0 assume "r = Inl err" "s1 = s"
      and "ws_disk s (region_key_of key) = Some f0" "open_region (Some f0) False = Inl err"
    then show ?thesis using storage_ok_mono [OF ok, of n] None by (simp add: s' res file_read_def)
  next
    fix h h' assume g: "region_good (Suc n) h" and f: "rf_file h = disk_file s (region_key_of key)"
      and h': "?f h = (r, h')" and q: "same_queue s s1"
      and d: "ws_disk s1 = (ws_disk s)(region_key_of key \<mapsto> rf_file h')" and o: "storage_ok n s1"
    have hh: "h' = h" "r = read_chunk fl h (snd key)" using h' by auto
    have "disk_chunk fl s1 k = disk_chunk fl s k" for k
    proof (cases "region_key_of k = region_key_of key")
      case True
      have "rf_file h = disk_file s1 (region_key_of k)" using d True by (simp add: disk_file_def hh)
      then show ?thesis using disk_chunk_open [OF g] f True by simp
    next
      case False
      then show ?thesis by (simp add: disk_chunk_def d)
    qed
    then have "visible fl s1 k = visible fl s k" for k
      using q by (simp add: visible_def same_queue_def split: option.split)
    moreover have "x = visible fl s key" if "res = Inr x" for x
      using that None disk_chunk_open [OF g f] by (auto simp: res hh visible_def split: sum.splits option.splits)
    moreover have "res = file_read fl s key" using file_read_open [OF g f] by (simp add: res hh)
    ultimately show ?thesis using q o None by (simp add: s' same_queue_def)
  qed
qed

text \<open>
  C18. Readers see one consistent map of chunks. While at least two region handles may be
  open, a read through the queue and the handle cache, whatever handles it opens and
  evicts, answers exactly what is queued or else what reading the region file itself
  gives (so it fails only when the file cannot be opened or the slot not decoded), and
  changes nothing visible; queueing a chunk changes exactly its entry, at once.
\<close>

theorem storage_is_a_map:
  assumes "2 \<le> ws_max_open s" and "storage_ok (Suc n) s" and "queue_ok s"
    and "storage_read_bytes fl s key = (res, s')"
  shows "res = (case map_of (ws_pending s) key of Some bs \<Rightarrow> Inr (Some bs) | None \<Rightarrow> file_read fl s key)
    \<and> (\<forall>r. res = Inr r \<longrightarrow> r = visible fl s key)
    \<and> (\<forall>k. visible fl s' k = visible fl s k) \<and> storage_ok n s' \<and> queue_ok s'
    \<and> (\<forall>bs k. visible fl (queue_bytes s key bs) k = (if k = key then Some bs else visible fl s k))"
proof -
  have "visible fl (queue_bytes s key bs) k = (if k = key then Some bs else visible fl s k)" for bs k
  proof -
    have "disk_chunk fl (queue_bytes s key bs) k = disk_chunk fl s k"
      by (simp add: disk_chunk_def queue_bytes_def)
    then show ?thesis
      using assms(3) by (simp add: visible_def queue_ok_def queue_bytes_def split: option.split)
  qed
  then show ?thesis
    using read_bytes_result [OF assms(2,4)] assms(3) by (simp add: queue_ok_def)
qed

text \<open>A chunk in the queue over a region file that holds another.\<close>

definition saved_storage :: world_storage where
  "saved_storage = queued_storage\<lparr>ws_disk := [(Overworld, 0, 0) \<mapsto> rf_file (snd demo_save)]\<rparr>"

lemma demo_save_good:
  "region_good 2 (snd demo_save)"
  "open_region (Some (rf_file (snd demo_save))) False = Inr ((snd demo_save)\<lparr>rf_readonly := False, rf_journal := []\<rparr>)"
  "read_chunk_at plain_flate ((snd demo_save)\<lparr>rf_readonly := False, rf_journal := []\<rparr>) 5 DEFAULT_PAYLOAD_LIMIT
    = Inr (Some \<lparr>sc_compression = Stored, sc_data = [1, 2, 3], sc_timestamp = 7\<rparr>)"
proof -
  have bm: "length (rf_bitmap fresh_region) = 2"
    using from_header_max [of empty_header 2] by (simp add: fresh_region_def FIRST_CHUNK_SECTOR_def)
  have l: "length (rf_bitmap fresh_region) + 255 \<le> 16777216" by (simp add: bm)
  note s = write_chunk_sound [OF fresh_sound l demo_save_ok [unfolded demo_save_def]]
  show "region_good 2 (snd demo_save)"
    using s(1,2,3) by (simp add: region_good_def demo_save_def bm) (simp add: fresh_region_def)
  show "open_region (Some (rf_file (snd demo_save))) False = Inr ((snd demo_save)\<lparr>rf_readonly := False, rf_journal := []\<rparr>)"
    using s(1) by (intro reopen) (simp add: demo_save_def)
  show "read_chunk_at plain_flate ((snd demo_save)\<lparr>rf_readonly := False, rf_journal := []\<rparr>) 5 DEFAULT_PAYLOAD_LIMIT
    = Inr (Some \<lparr>sc_compression = Stored, sc_data = [1, 2, 3], sc_timestamp = 7\<rparr>)"
    using s(5) [OF plain_flate_ok, of DEFAULT_PAYLOAD_LIMIT]
    by (simp add: slot_read_chunk demo_save_def DEFAULT_PAYLOAD_LIMIT_def u64_max_def)
qed

lemma saved_storage_ok: "storage_ok (Suc 1) saved_storage" "queue_ok saved_storage" "2 \<le> ws_max_open saved_storage"
proof -
  have good: "region_good 2 ((snd demo_save)\<lparr>rf_readonly := False, rf_journal := []\<rparr>)"
    by (rule region_good_reopen [OF demo_save_good(1,2)])
  show "storage_ok (Suc 1) saved_storage"
    using demo_save_good(2) good queued_storage_ok(1)
    by (auto simp: storage_ok_def saved_storage_def uses_but_def disk_good_def numeral_2_eq_2 [symmetric]
        queued_storage_def queue_bytes_def empty_storage_def new_storage_def split: if_splits)
  show "queue_ok saved_storage" using queued_storage_ok(2) by (simp add: queue_ok_def saved_storage_def)
  show "2 \<le> ws_max_open saved_storage"
    by (simp add: saved_storage_def queued_storage_def queue_bytes_def empty_storage_def new_storage_def
        DEFAULT_MAX_OPEN_REGIONS_def)
qed

theorem storage_is_a_map_witness:
  "(\<exists>s'. storage_read_bytes plain_flate saved_storage (Overworld, ChunkPos 5 0) = (Inr (Some [1, 2, 3]), s')
      \<and> visible plain_flate s' (Overworld, ChunkPos 3 (-1)) = Some [1, 2, 3])
   \<and> (\<exists>s'. storage_read_bytes plain_flate saved_storage (Overworld, ChunkPos 40 0) = (Inr None, s'))"
proof (intro conjI)
  note t = storage_is_a_map [OF saved_storage_ok(3,1,2)]
  have q: "map_of (ws_pending saved_storage) = [(Overworld, ChunkPos 3 (-1)) \<mapsto> [1, 2, 3]]"
    by (simp add: saved_storage_def queued_storage_def queue_bytes_def empty_storage_def new_storage_def)
  have read: "file_read plain_flate saved_storage (Overworld, ChunkPos 5 0) = Inr (Some [1, 2, 3])"
    using demo_save_good(2,3)
    by (simp add: file_read_def saved_storage_def region_key_of_def key_region_def region_x_def region_z_def
        REGION_CHUNKS_def pos_slot_def read_chunk_def)
  have none: "file_read plain_flate saved_storage (Overworld, ChunkPos 40 0) = Inr None"
    by (simp add: file_read_def saved_storage_def region_key_of_def key_region_def region_x_def region_z_def
        REGION_CHUNKS_def open_fresh queued_storage_def queue_bytes_def empty_storage_def new_storage_def
        read_chunk_def read_chunk_at_def fresh_region_def)
  have v: "visible plain_flate saved_storage (Overworld, ChunkPos 3 (-1)) = Some [1, 2, 3]"
    by (simp add: visible_def q)
  obtain r1 s1 where e1: "storage_read_bytes plain_flate saved_storage (Overworld, ChunkPos 5 0) = (r1, s1)"
    by fastforce
  obtain r2 s2 where e2: "storage_read_bytes plain_flate saved_storage (Overworld, ChunkPos 40 0) = (r2, s2)"
    by fastforce
  show "\<exists>s'. storage_read_bytes plain_flate saved_storage (Overworld, ChunkPos 5 0) = (Inr (Some [1, 2, 3]), s')
      \<and> visible plain_flate s' (Overworld, ChunkPos 3 (-1)) = Some [1, 2, 3]"
    using t [OF e1] e1 v by (simp add: q read)
  show "\<exists>s'. storage_read_bytes plain_flate saved_storage (Overworld, ChunkPos 40 0) = (Inr None, s')"
    using t [OF e2] e2 by (simp add: q none)
qed

section \<open>Handles\<close>

text \<open>
  With a limit of one handle the code can evict the handle it has just opened: it is
  inserted with the use of the previous operation, and a tie is broken by key order.
\<close>

definition demo_storage :: world_storage where
  "demo_storage = (new_storage (\<lambda>k. None) no_files None 0)
     \<lparr>ws_max_open := 1\<rparr>"

lemma handle_vanishes:
  "\<exists>s s'. with_region demo_storage (Overworld, 1, 0) (\<lambda>h. (Inr (), h)) = (Inr (), s)
     \<and> with_region s (Overworld, 0, 0) (\<lambda>h. (Inr (), h)) = (Inl Invariant, s')"
proof -
  have less: "(Overworld, 0 :: int, 0 :: int) < (Overworld, 1, 0)" "Overworld \<le> Overworld"
    by (simp_all add: less_prod_def less_eq_dimension_def)
  show ?thesis
    by (simp add: with_region_def ensure_open_def demo_storage_def new_storage_def open_fresh Let_def
        evict_regions.simps om_remove_def sat_add_def u64_max_def less)
qed


section \<open>Autosave\<close>

text \<open>The ticks at which the timer fires.\<close>

fun autosave_run :: "autosave \<Rightarrow> nat list \<Rightarrow> nat list" where
  "autosave_run a [] = []"
| "autosave_run a (t # ts) =
     (case autosave_tick a t of (fired, a) \<Rightarrow> (if fired then [t] else []) @ autosave_run a ts)"

lemma mod_shift:
  fixes t i x :: nat
  assumes "t + i \<le> x"
  shows "(x - (t + i)) mod i = (x - t) mod i"
proof -
  have "x - t = x - (t + i) + i" using assms by simp
  then show ?thesis by (simp only: mod_add_self2)
qed

lemma autosave_due:
  assumes "as_next_due a = Some d" "t \<le> d" "0 < as_interval a" "t + n + as_interval a \<le> u64_max"
  shows "autosave_run a [t..<t + n] = filter (\<lambda>x. d \<le> x \<and> (x - d) mod as_interval a = 0) [t..<t + n]"
  using assms
proof (induction n arbitrary: a t d)
  case 0
  then show ?case by simp
next
  case (Suc n)
  let ?i = "as_interval a"
  have up: "[t..<t + Suc n] = t # [Suc t..<Suc t + n]" by (simp add: upt_rec)
  show ?case
  proof (cases "t = d")
    case True
    let ?a = "a\<lparr>as_next_due := Some (t + ?i), as_saves := sat_add (as_saves a) 1\<rparr>"
    have st: "autosave_tick a t = (True, ?a)"
      using Suc.prems True by (simp add: autosave_tick_def autosave_enabled_def sat_add_exact)
    have "autosave_run ?a [Suc t..<Suc t + n]
        = filter (\<lambda>x. t + ?i \<le> x \<and> (x - (t + ?i)) mod ?i = 0) [Suc t..<Suc t + n]"
      using Suc.IH [of ?a "t + ?i" "Suc t"] Suc.prems by simp
    also have "\<dots> = filter (\<lambda>x. d \<le> x \<and> (x - d) mod ?i = 0) [Suc t..<Suc t + n]"
    proof (rule filter_cong [OF refl])
      fix x assume "x \<in> set [Suc t..<Suc t + n]"
      then have x: "d < x" using True by auto
      show "(t + ?i \<le> x \<and> (x - (t + ?i)) mod ?i = 0) = (d \<le> x \<and> (x - d) mod ?i = 0)"
      proof (cases "t + ?i \<le> x")
        case True
        then show ?thesis using mod_shift [OF True] x \<open>t = d\<close> by simp
      next
        case False
        then have "(x - d) mod ?i = x - d" using x \<open>t = d\<close> by (intro mod_less) simp
        then show ?thesis using False x by simp
      qed
    qed
    finally show ?thesis using st True unfolding up by simp
  next
    case False
    have st: "autosave_tick a t = (False, a)"
      using Suc.prems False by (simp add: autosave_tick_def autosave_enabled_def)
    have "autosave_run a [Suc t..<Suc t + n] = filter (\<lambda>x. d \<le> x \<and> (x - d) mod ?i = 0) [Suc t..<Suc t + n]"
      using Suc.IH [of a d "Suc t"] Suc.prems False by simp
    then show ?thesis using st False Suc.prems(2) unfolding up by simp
  qed
qed

text \<open>
  C19. Over any run of consecutive ticks a fresh autosave timer fires exactly at the
  multiples of its interval after the first tick, and a disabled one never.
\<close>

theorem autosave_cadence:
  assumes "t + n + interval \<le> u64_max"
  shows "autosave_run (new_autosave interval) [t..<t + n]
    = (if interval = 0 then [] else filter (\<lambda>x. t < x \<and> (x - t) mod interval = 0) [t..<t + n])"
proof (cases "interval = 0 \<or> n = 0")
  case True
  have "autosave_run (new_autosave 0) ts = []" for ts
    by (induction ts) (simp_all add: autosave_tick_def autosave_enabled_def new_autosave_def)
  then show ?thesis using True by auto
next
  case False
  then obtain m where m: "n = Suc m" by (cases n) auto
  have up: "[t..<t + n] = t # [Suc t..<Suc t + m]" by (simp add: m upt_rec)
  let ?a = "(new_autosave interval)\<lparr>as_next_due := Some (t + interval)\<rparr>"
  have st: "autosave_tick (new_autosave interval) t = (False, ?a)"
    using assms False by (simp add: autosave_tick_def autosave_enabled_def new_autosave_def sat_add_exact)
  have i: "as_interval ?a = interval" by (simp add: new_autosave_def)
  have "autosave_run ?a [Suc t..<Suc t + m]
      = filter (\<lambda>x. t + interval \<le> x \<and> (x - (t + interval)) mod interval = 0) [Suc t..<Suc t + m]"
    using autosave_due [of ?a "t + interval" "Suc t" m] assms False m by (simp add: i)
  also have "\<dots> = filter (\<lambda>x. t < x \<and> (x - t) mod interval = 0) [Suc t..<Suc t + m]"
  proof (rule filter_cong [OF refl])
    fix x assume "x \<in> set [Suc t..<Suc t + m]"
    then have x: "t < x" by auto
    show "(t + interval \<le> x \<and> (x - (t + interval)) mod interval = 0) = (t < x \<and> (x - t) mod interval = 0)"
    proof (cases "t + interval \<le> x")
      case True
      then show ?thesis using mod_shift [OF True] x by simp
    next
      case small: False
      then have "(x - t) mod interval = x - t" using x by (intro mod_less) linarith
      then show ?thesis using small x by simp
    qed
  qed
  finally show ?thesis using st False unfolding up by simp
qed

theorem autosave_cadence_witness:
  "autosave_run (new_autosave 3) [10..<18] = [13, 16]"
  using autosave_cadence [of 10 8 3] by (simp add: u64_max_def upt_rec)

end
