(* ===== verification/BlockRegistry.thy ===== *)
theory BlockRegistry
  imports TextTables "HOL-Library.List_Lexorder" "HOL-Library.Product_Lexorder"
begin

text \<open>
  \<open>crates/registry/src/blocks.rs\<close>: the block table. A row gives a block a run of state ids
  and its property axes; the state of an assignment of the properties is the number with
  those digits in the mixed radix of the axes. The tables beside it are texts that may be
  absent; the two whose cells are decimal fractions (hardness and collision shapes) are
  not read here, and a state's shape is a list of boxes of f64 bit patterns.

  A \<open>HashMap\<close> is a list of its entries without repeated keys; no result depends on its
  order.
\<close>

type_synonym ('k, 'v) hash_map = "('k \<times> 'v) list"

definition hm_insert :: "'k \<Rightarrow> 'v \<Rightarrow> ('k, 'v) hash_map \<Rightarrow> ('k, 'v) hash_map" where
  "hm_insert k v m = (k, v) # filter (\<lambda>e. fst e \<noteq> k) m"

lemma map_of_hm_insert [simp]: "map_of (hm_insert k v m) = (map_of m)(k \<mapsto> v)"
proof -
  have "map_of (filter (\<lambda>e. fst e \<noteq> k) m) a = map_of m a" if "a \<noteq> k" for a
    using that by (induction m) auto
  then show ?thesis by (auto simp: hm_insert_def fun_eq_iff)
qed

type_synonym property_list = "(rstring \<times> rstring) list"

section \<open>One block\<close>

record block_entry =
  first_state_id :: int
  default_state_id :: int
  entry_states :: int
  axes :: "(rstring \<times> rstring list) list"

text \<open>\<open>index_of\<close> goes over the axes from the last: the digits so far and their weight.\<close>

fun index_axes ::
  "(rstring \<times> rstring list) list \<Rightarrow> property_list \<Rightarrow> nat \<Rightarrow> nat \<Rightarrow> (nat \<times> nat) option"
where
  "index_axes [] ps index stride = Some (index, stride)"
| "index_axes ((name, vs) # rest) ps index stride =
     (case map_of ps name of
        None \<Rightarrow> None
      | Some v \<Rightarrow>
          (case position (\<lambda>c. c = v) vs of
             None \<Rightarrow> None
           | Some k \<Rightarrow> index_axes rest ps (index + k * stride) (stride * length vs)))"

definition index_of :: "block_entry \<Rightarrow> property_list \<Rightarrow> nat option" where
  "index_of e ps =
     (if axes e = [] then (if ps = [] then Some 0 else None)
      else case index_axes (rev (axes e)) ps 0 1 of
        None \<Rightarrow> None
      | Some (index, stride) \<Rightarrow>
          if stride \<noteq> nat (entry_states e) then None
          else if list_ex (\<lambda>p. \<not> list_ex (\<lambda>a. fst a = fst p) (axes e)) ps then None
          else Some index)"

fun property_digits :: "(rstring \<times> rstring list) list \<Rightarrow> nat \<Rightarrow> property_list" where
  "property_digits [] remaining = []"
| "property_digits ((name, vs) # rest) remaining =
     (name, vs ! (remaining mod length vs)) # property_digits rest (remaining div length vs)"

definition entry_properties :: "block_entry \<Rightarrow> nat \<Rightarrow> property_list option" where
  "entry_properties e offset =
     (if nat (entry_states e) \<le> offset then None
      else Some (rev (sort (property_digits (rev (axes e)) offset))))"

section \<open>The registry\<close>

record block_registry =
  blocks_by_name :: "(rstring, block_entry) hash_map"
  blocks_by_id :: "(rstring \<times> int) list"
  air_id :: int
  empty_ids :: "int list"
  mineable :: "(rstring, rstring list) hash_map"
  refused :: "(rstring, rstring list) hash_map"
  shapes :: "(int, u64 list list) hash_map"

definition AIR :: rstring where "AIR = lit ''minecraft:air''"

definition parse_axis :: "rstring \<Rightarrow> (rstring \<times> rstring list) server_result" where
  "parse_axis axis =
     (case split_once (of_char (CHR ''='')) axis of
        None \<Rightarrow> Inl CorruptData
      | Some (property, vs) \<Rightarrow>
          let vs = split_on (of_char (CHR ''|'')) vs
          in if property = [] \<or> list_ex (\<lambda>v. v = []) vs then Inl CorruptData
             else Inr (property, vs))"

fun parse_axes :: "rstring list \<Rightarrow> (rstring \<times> rstring list) list server_result" where
  "parse_axes [] = Inr []"
| "parse_axes (a # as) = and_then (parse_axis a) (\<lambda>x. and_then (parse_axes as) (\<lambda>xs. Inr (x # xs)))"

definition axes_of_text :: "rstring \<Rightarrow> (rstring \<times> rstring list) list server_result" where
  "axes_of_text t = (if t = lit ''-'' then Inr [] else parse_axes (split_on (of_char (CHR '';'')) t))"

definition axes_product :: "(rstring \<times> rstring list) list \<Rightarrow> nat" where
  "axes_product as = max (prod_list (map (\<lambda>a. length (snd a)) as)) 1"

definition parse_block_row :: "rstring \<Rightarrow> (rstring \<times> block_entry) server_result" where
  "parse_block_row line =
     (case split_on 9 line of
        name # first # count # axis_text # _ \<Rightarrow>
          (case parse_i32 first of
             None \<Rightarrow> Inl CorruptData
           | Some f \<Rightarrow>
               (case parse_i32 count of
                  None \<Rightarrow> Inl CorruptData
                | Some n \<Rightarrow>
                    if n < 1 then Inl CorruptData
                    else and_then (axes_of_text axis_text) (\<lambda>as.
                      if axes_product as \<noteq> nat n then Inl CorruptData
                      else Inr (name, \<lparr>first_state_id = f, default_state_id = f,
                                        entry_states = n, axes = as\<rparr>))))
      | _ \<Rightarrow> Inl CorruptData)"

fun parse_block_rows ::
  "rstring list \<Rightarrow> (rstring, block_entry) hash_map \<Rightarrow> (rstring \<times> int) list \<Rightarrow>
   ((rstring, block_entry) hash_map \<times> (rstring \<times> int) list) server_result"
where
  "parse_block_rows [] names ids = Inr (names, ids)"
| "parse_block_rows (line # lines) names ids =
     (if skips_line line then parse_block_rows lines names ids
      else case parse_block_row line of
        Inl e \<Rightarrow> Inl e
      | Inr (name, e) \<Rightarrow>
          parse_block_rows lines (hm_insert name e names)
            (ids @ map (\<lambda>k. (name, first_state_id e + int k)) [0 ..< nat (entry_states e)]))"

definition parse_blocks :: "rstring \<Rightarrow> block_registry server_result" where
  "parse_blocks text =
     and_then (parse_block_rows (text_lines text) [] []) (\<lambda>(names, ids).
       if names = [] then Inl CorruptData
       else
         let ids = sort_key snd ids
         in if map snd ids \<noteq> map int [0 ..< length ids] then Inl CorruptData
            else case map_of names AIR of
              None \<Rightarrow> Inl CorruptData
            | Some air \<Rightarrow>
                Inr \<lparr>blocks_by_name = names, blocks_by_id = ids, air_id = first_state_id air,
                     empty_ids = concat (map (\<lambda>name. case map_of names name of
                         None \<Rightarrow> [] | Some e \<Rightarrow> [first_state_id e])
                       [AIR, lit ''minecraft:cave_air'', lit ''minecraft:void_air'']),
                     mineable = [], refused = [], shapes = []\<rparr>)"

definition block_count :: "block_registry \<Rightarrow> nat" where
  "block_count r = length (blocks_by_name r)"

definition state_count :: "block_registry \<Rightarrow> nat" where
  "state_count r = length (blocks_by_id r)"

definition is_empty_block :: "block_registry \<Rightarrow> int \<Rightarrow> bool" where
  "is_empty_block r i \<longleftrightarrow> i \<in> set (empty_ids r)"

definition contains_block :: "block_registry \<Rightarrow> rstring \<Rightarrow> bool" where
  "contains_block r name \<longleftrightarrow> map_of (blocks_by_name r) name \<noteq> None"

definition block_names :: "block_registry \<Rightarrow> rstring list" where
  "block_names r = map fst (sort_key (\<lambda>(name, e). first_state_id e) (blocks_by_name r))"

definition default_state :: "block_registry \<Rightarrow> rstring \<Rightarrow> int server_result" where
  "default_state r name =
     (case map_of (blocks_by_name r) name of None \<Rightarrow> Inl CorruptData | Some e \<Rightarrow> Inr (default_state_id e))"

definition state_id :: "block_registry \<Rightarrow> rstring \<Rightarrow> property_list \<Rightarrow> int server_result" where
  "state_id r name ps =
     (case map_of (blocks_by_name r) name of
        None \<Rightarrow> Inl CorruptData
      | Some e \<Rightarrow>
          if ps = [] then Inr (default_state_id e)
          else case index_of e ps of
            None \<Rightarrow> Inl CorruptData
          | Some k \<Rightarrow> Inr (first_state_id e + int k))"

record block_state_ref =
  ref_name :: rstring
  ref_properties :: property_list
  ref_id :: int

definition state_ref :: "block_registry \<Rightarrow> rstring \<Rightarrow> property_list \<Rightarrow> block_state_ref server_result" where
  "state_ref r name ps =
     (let ps = sort ps
      in and_then (state_id r name ps) (\<lambda>i. Inr \<lparr>ref_name = name, ref_properties = ps, ref_id = i\<rparr>))"

definition block_name :: "block_registry \<Rightarrow> int \<Rightarrow> rstring server_result" where
  "block_name r i =
     (if 0 \<le> i \<and> nat i < length (blocks_by_id r) then Inr (fst (blocks_by_id r ! nat i))
      else Inl CorruptData)"

definition properties_of :: "block_registry \<Rightarrow> int \<Rightarrow> property_list server_result" where
  "properties_of r i =
     and_then (block_name r i) (\<lambda>name.
       case map_of (blocks_by_name r) name of
         None \<Rightarrow> Inl CorruptData
       | Some e \<Rightarrow>
           if i < first_state_id e then Inl CorruptData
           else case entry_properties e (nat (i - first_state_id e)) of
             None \<Rightarrow> Inl CorruptData
           | Some ps \<Rightarrow> Inr ps)"

definition state_ref_of :: "block_registry \<Rightarrow> int \<Rightarrow> block_state_ref server_result" where
  "state_ref_of r i =
     and_then (block_name r i) (\<lambda>name.
       and_then (properties_of r i) (\<lambda>ps.
         Inr \<lparr>ref_name = name, ref_properties = ps, ref_id = i\<rparr>))"

definition mineable_tags :: "block_registry \<Rightarrow> rstring \<Rightarrow> rstring list" where
  "mineable_tags r name = (case map_of (mineable r) name of None \<Rightarrow> [] | Some ts \<Rightarrow> ts)"

definition refused_tiers :: "block_registry \<Rightarrow> rstring \<Rightarrow> rstring list" where
  "refused_tiers r name = (case map_of (refused r) name of None \<Rightarrow> [] | Some ts \<Rightarrow> ts)"

definition collision_boxes :: "block_registry \<Rightarrow> int \<Rightarrow> u64 list list option" where
  "collision_boxes r i = map_of (shapes r) i"

section \<open>The tables beside it\<close>

text \<open>\<open>str::split_whitespace\<close>.\<close>

fun words_from :: "rstring \<Rightarrow> rstring \<Rightarrow> rstring list" where
  "words_from w [] = (if w = [] then [] else [w])"
| "words_from w (c # cs) =
     (if is_whitespace c then (if w = [] then [] else [w]) @ words_from [] cs
      else words_from (w @ [c]) cs)"

definition split_whitespace :: "rstring \<Rightarrow> rstring list" where
  "split_whitespace s = words_from [] s"

definition default_of_line :: "(rstring, block_entry) hash_map \<Rightarrow> rstring \<Rightarrow> (rstring, block_entry) hash_map" where
  "default_of_line names line =
     (if skips_line line then names
      else case split_whitespace line of
        name # i # _ \<Rightarrow>
          (case parse_i32 i of
             None \<Rightarrow> names
           | Some v \<Rightarrow>
               (case map_of names name of
                  None \<Rightarrow> names
                | Some e \<Rightarrow> hm_insert name (e\<lparr>default_state_id := v\<rparr>) names))
      | _ \<Rightarrow> names)"

definition apply_default_states :: "rstring option \<Rightarrow> block_registry \<Rightarrow> block_registry" where
  "apply_default_states text r =
     (case text of
        None \<Rightarrow> r
      | Some t \<Rightarrow> r\<lparr>blocks_by_name := foldl default_of_line (blocks_by_name r) (text_lines t)\<rparr>)"

definition load_tag_list ::
  "rstring option \<Rightarrow> nat \<Rightarrow> (rstring, rstring list) hash_map \<Rightarrow>
   (rstring list \<Rightarrow> (rstring \<times> rstring) option) \<Rightarrow> (rstring, rstring list) hash_map"
where
  "load_tag_list text columns m pick =
     (case text of
        None \<Rightarrow> m
      | Some t \<Rightarrow>
          foldl (\<lambda>m line.
              if skips_line line then m
              else let fields = split_on 9 line
                in if length fields \<noteq> columns then m
                   else case pick fields of
                     None \<Rightarrow> m
                   | Some (block, member) \<Rightarrow>
                       hm_insert block ((case map_of m block of None \<Rightarrow> [] | Some ms \<Rightarrow> ms) @ [member]) m)
            m (text_lines t))"

definition apply_mining_tags :: "rstring option \<Rightarrow> rstring option \<Rightarrow> block_registry \<Rightarrow> block_registry" where
  "apply_mining_tags mineable_text tiers_text r =
     r\<lparr>mineable := load_tag_list mineable_text 3 (mineable r)
          (\<lambda>fields. if 2 < length fields then Some (hd fields, fields ! 2) else None),
       refused := load_tag_list tiers_text 2 (refused r)
          (\<lambda>fields. if 1 < length fields then Some (hd fields, fields ! 1) else None)\<rparr>"

end
