(* ===== verification/LightTable.thy ===== *)
theory LightTable
  imports TextTables
begin

text \<open>
  \<open>crates/registry/src/light.rs\<close>: emission, dampening and sky transparency of every block
  state, read from a table, and the readings for states outside it.
\<close>

text \<open>\<open>str::trim_end\<close> and \<open>str::parse::<usize>\<close> (64 bits).\<close>

definition trim_end :: "rstring \<Rightarrow> rstring" where
  "trim_end s = rev (dropWhile is_whitespace (rev s))"

definition parse_usize :: "rstring \<Rightarrow> nat option" where
  "parse_usize s =
     (let ds = (case s of [] \<Rightarrow> [] | c # cs \<Rightarrow> if c = 43 then cs else s)
      in if ds = [] then None
         else case digits_value 0 ds of
           None \<Rightarrow> None
         | Some n \<Rightarrow> if n \<le> u64_max then Some n else None)"

record light_table =
  lt_emission :: "nat list"
  lt_dampening :: "nat list"
  lt_propagates :: "bool list"

definition UNKNOWN :: "nat \<times> nat \<times> bool" where "UNKNOWN = (0, 0, True)"

definition parse_level :: "rstring \<Rightarrow> nat server_result" where
  "parse_level field =
     (case parse_i32 field of
        None \<Rightarrow> Inl CorruptData
      | Some v \<Rightarrow> if 0 \<le> v \<and> v \<le> 255 then Inr (nat v) else Inl CorruptData)"

definition parse_flag :: "rstring \<Rightarrow> bool server_result" where
  "parse_flag field =
     (if field = lit ''1'' then Inr True else if field = lit ''0'' then Inr False else Inl CorruptData)"

definition set_state :: "nat \<Rightarrow> nat \<Rightarrow> bool \<Rightarrow> light_table \<Rightarrow> nat \<Rightarrow> light_table" where
  "set_state e d p t i =
     t\<lparr>lt_emission := (lt_emission t)[i := e],
       lt_dampening := (lt_dampening t)[i := d],
       lt_propagates := (lt_propagates t)[i := p]\<rparr>"

definition parse_levels ::
  "rstring \<Rightarrow> rstring \<Rightarrow> rstring \<Rightarrow> (nat \<times> nat \<times> bool) server_result"
where
  "parse_levels e d p =
     and_then (parse_level e) (\<lambda>e. and_then (parse_level d) (\<lambda>d.
       and_then (parse_flag p) (\<lambda>p. Inr (e, d, p))))"

definition light_row :: "nat \<Rightarrow> rstring list \<Rightarrow> light_table \<Rightarrow> light_table server_result" where
  "light_row state_count cells t =
     (case cells of
        [kind, name, first, count, e, d, p] \<Rightarrow>
          if kind \<noteq> lit ''block'' then Inl CorruptData
          else (case (parse_usize first, parse_usize count) of
             (Some f, Some n) \<Rightarrow>
               and_then (parse_levels e d p) (\<lambda>(e, d, p).
                 if u64_max < f + n then Inl CorruptData
                 else if state_count < f + n then Inl CorruptData
                 else Inr (foldl (set_state e d p) t [f ..< f + n]))
           | _ \<Rightarrow> Inl CorruptData)
      | [kind, i, e, d, p] \<Rightarrow>
          if kind \<noteq> lit ''state'' then Inl CorruptData
          else (case parse_usize i of
             None \<Rightarrow> Inl CorruptData
           | Some i \<Rightarrow>
               if state_count \<le> i then Inl CorruptData
               else and_then (parse_levels e d p) (\<lambda>(e, d, p). Inr (set_state e d p t i)))
      | _ \<Rightarrow> Inl CorruptData)"

fun light_rows :: "nat \<Rightarrow> rstring list \<Rightarrow> light_table \<Rightarrow> light_table server_result" where
  "light_rows state_count [] t = Inr t"
| "light_rows state_count (line # lines) t =
     (let line = trim_end line
      in if line = [] \<or> hd line = 35 then light_rows state_count lines t
         else case light_row state_count (split_on 9 line) t of
           Inl e \<Rightarrow> Inl e
         | Inr t \<Rightarrow> light_rows state_count lines t)"

definition parse_light_table :: "rstring \<Rightarrow> nat \<Rightarrow> light_table server_result" where
  "parse_light_table text state_count =
     light_rows state_count (text_lines text)
       \<lparr>lt_emission = replicate state_count (fst UNKNOWN),
        lt_dampening = replicate state_count (fst (snd UNKNOWN)),
        lt_propagates = replicate state_count (snd (snd UNKNOWN))\<rparr>"

definition column_at :: "int \<Rightarrow> 'a list \<Rightarrow> 'a \<Rightarrow> 'a" where
  "column_at state column fallback =
     (if 0 \<le> state \<and> nat state < length column then column ! nat state else fallback)"

definition emission :: "light_table \<Rightarrow> int \<Rightarrow> nat" where
  "emission t state = column_at state (lt_emission t) (fst UNKNOWN)"

definition dampening :: "light_table \<Rightarrow> int \<Rightarrow> nat" where
  "dampening t state = column_at state (lt_dampening t) (fst (snd UNKNOWN))"

definition propagates_skylight_down :: "light_table \<Rightarrow> int \<Rightarrow> bool" where
  "propagates_skylight_down t state = column_at state (lt_propagates t) (snd (snd UNKNOWN))"

definition light_table_len :: "light_table \<Rightarrow> nat" where
  "light_table_len t = length (lt_emission t)"

lemma light_row_len:
  "light_row n cells t = Inr t' \<Longrightarrow> light_table_len t' = light_table_len t"
proof -
  have "light_table_len (foldl (set_state e d p) t is) = light_table_len t" for e d p "is"
    by (induction "is" arbitrary: t) (simp_all add: light_table_len_def set_state_def)
  then show "light_row n cells t = Inr t' \<Longrightarrow> ?thesis"
    by (auto simp: light_row_def and_then_Inr light_table_len_def set_state_def
        split: list.splits option.splits if_splits)
qed

end
