(* ===== verification/LightEngine.thy ===== *)
theory LightEngine
  imports LightTable
begin

text \<open>
  \<open>crates/world/src/light.rs\<close>: sky and block light of a chunk column, by seeding and a
  breadth-first spread over a work region of one block of margin around the chunk. Levels
  are \<open>u8\<close>, as naturals below 256. An array access outside the bounds panics in Rust;
  the spread returns None there, and the theory LightLaws shows that it never happens.
\<close>

type_synonym coords = "int \<times> int \<times> int"

definition MAX_LIGHT :: nat where "MAX_LIGHT = 15"
definition LIGHT_ARRAY_BYTES :: nat where "LIGHT_ARRAY_BYTES = 2048"
definition LIGHT_SECTION_WIDTH :: int where "LIGHT_SECTION_WIDTH = 16"

section \<open>Nibble arrays\<close>

type_synonym light_array = "u8 list"

definition light_index :: "int \<Rightarrow> int \<Rightarrow> int \<Rightarrow> nat" where
  "light_index x y z = nat (x + z * LIGHT_SECTION_WIDTH + y * LIGHT_SECTION_WIDTH * LIGHT_SECTION_WIDTH)"

definition light_default :: light_array where
  "light_default = replicate LIGHT_ARRAY_BYTES 0"

definition light_get :: "light_array \<Rightarrow> int \<Rightarrow> int \<Rightarrow> int \<Rightarrow> u8" where
  "light_get a x y z =
     (let cell = light_index x y z;
          byte = a ! (cell div 2)
      in if cell mod 2 = 0 then and byte 0x0F else drop_bit 4 byte)"

definition light_set :: "light_array \<Rightarrow> int \<Rightarrow> int \<Rightarrow> int \<Rightarrow> u8 \<Rightarrow> light_array" where
  "light_set a x y z level =
     (let cell = light_index x y z;
          byte = a ! (cell div 2)
      in a[cell div 2 :=
           (if cell mod 2 = 0 then or (and byte 0xF0) (and level 0x0F)
            else or (and byte 0x0F) (push_bit 4 (and level 0x0F)))])"

definition light_filled :: "u8 \<Rightarrow> light_array" where
  "light_filled level =
     (let level = and level 0x0F in replicate LIGHT_ARRAY_BYTES (or level (push_bit 4 level)))"

definition light_uniform :: "light_array \<Rightarrow> u8 option" where
  "light_uniform a =
     (let first = light_get a 0 0 0
      in if list_all (\<lambda>byte. and byte 0x0F = first \<and> drop_bit 4 byte = first) a then Some first else None)"

record chunk_light =
  cl_sky :: "light_array list"
  cl_block :: "light_array list"

section \<open>The work region\<close>

text \<open>The captured variables of the code's \<open>index\<close> closures.\<close>

record light_region =
  lr_width :: int
  lr_x :: int
  lr_z :: int
  lr_min_y :: int
  lr_top :: int

definition region_index :: "light_region \<Rightarrow> coords \<Rightarrow> nat" where
  "region_index g = (\<lambda>(x, y, z).
     nat ((x - lr_x g) + (z - lr_z g) * lr_width g + (y - lr_min_y g) * lr_width g * lr_width g))"

section \<open>Seeding\<close>

text \<open>\<open>block_at(x, y, z).unwrap_or(0)\<close>.\<close>

definition state_at :: "(int \<Rightarrow> int \<Rightarrow> int \<Rightarrow> int option) \<Rightarrow> coords \<Rightarrow> int" where
  "state_at block_at = (\<lambda>(x, y, z). case block_at x y z of None \<Rightarrow> 0 | Some s \<Rightarrow> s)"

text \<open>The fall of the sky in one column: \<open>n\<close> cells from \<open>y\<close> down are left.\<close>

fun seed_sky ::
  "light_table \<Rightarrow> (int \<Rightarrow> int \<Rightarrow> int \<Rightarrow> int option) \<Rightarrow> light_region \<Rightarrow> int \<Rightarrow> int \<Rightarrow> nat \<Rightarrow> nat list \<Rightarrow> nat list"
where
  "seed_sky t block_at g x z 0 sky = sky"
| "seed_sky t block_at g x z (Suc n) sky =
     (let y = lr_min_y g + int n
      in if propagates_skylight_down t (state_at block_at (x, y, z))
         then seed_sky t block_at g x z n (sky[region_index g (x, y, z) := MAX_LIGHT])
         else sky)"

definition seed_block ::
  "light_table \<Rightarrow> (int \<Rightarrow> int \<Rightarrow> int \<Rightarrow> int option) \<Rightarrow> light_region \<Rightarrow> int \<Rightarrow> int \<Rightarrow> nat list \<Rightarrow> nat list"
where
  "seed_block t block_at g x z block =
     foldl (\<lambda>block y.
         let e = emission t (state_at block_at (x, y, z));
             cell = region_index g (x, y, z)
         in if 0 < e \<and> block ! cell < e then block[cell := e] else block)
       block [lr_min_y g .. lr_top g]"

definition region_columns :: "light_region \<Rightarrow> (int \<times> int) list" where
  "region_columns g =
     concat (map (\<lambda>lx. map (\<lambda>lz. (lr_x g + lx, lr_z g + lz)) [0 .. lr_width g - 1]) [0 .. lr_width g - 1])"

definition seed_light ::
  "light_table \<Rightarrow> (int \<Rightarrow> int \<Rightarrow> int \<Rightarrow> int option) \<Rightarrow> light_region \<Rightarrow> nat list \<times> nat list \<Rightarrow> nat list \<times> nat list"
where
  "seed_light t block_at g layers =
     foldl (\<lambda>(sky, block) (x, z).
         (seed_sky t block_at g x z (nat (lr_top g - lr_min_y g + 1)) sky,
          seed_block t block_at g x z block))
       layers (region_columns g)"

section \<open>The frontier\<close>

definition darker_neighbour :: "nat list \<Rightarrow> nat \<Rightarrow> nat \<Rightarrow> nat \<Rightarrow> bool" where
  "darker_neighbour light cell width plane =
     (let own = light ! cell;
          in_plane = cell mod plane;
          row = in_plane div width;
          column = in_plane mod width
      in if plane \<le> cell \<and> light ! (cell - plane) < own then True
         else if cell + plane < length light \<and> light ! (cell + plane) < own then True
         else if column + 1 < width \<and> light ! (cell + 1) < own then True
         else if 1 \<le> column \<and> light ! (cell - 1) < own then True
         else if row + 1 < width \<and> light ! (cell + width) < own then True
         else if 1 \<le> row \<and> light ! (cell - width) < own then True
         else False)"

text \<open>The cells in the order of the scan: by z, then x, then y.\<close>

definition scan_cells :: "light_region \<Rightarrow> (nat \<times> coords) list" where
  "scan_cells g =
     concat (map (\<lambda>lz. concat (map (\<lambda>lx. map (\<lambda>ly.
         (nat (lx + lz * lr_width g) + ly * nat (lr_width g * lr_width g),
          (lr_x g + lx, lr_min_y g + int ly, lr_z g + lz)))
       [0 ..< nat (lr_top g - lr_min_y g + 1)]) [0 .. lr_width g - 1])) [0 .. lr_width g - 1])"

definition layer_frontier :: "light_region \<Rightarrow> nat list \<Rightarrow> coords list" where
  "layer_frontier g light =
     concat (map (\<lambda>(cell, p).
         if 0 < light ! cell \<and> darker_neighbour light cell (nat (lr_width g)) (nat (lr_width g * lr_width g))
         then [p] else [])
       (scan_cells g))"

definition queue_frontier :: "light_region \<Rightarrow> nat list \<Rightarrow> nat list \<Rightarrow> coords list \<times> coords list" where
  "queue_frontier g sky block = (layer_frontier g sky, layer_frontier g block)"

section \<open>Spreading\<close>

definition spread_dirs :: "coords list" where
  "spread_dirs = [(1, 0, 0), (-1, 0, 0), (0, 1, 0), (0, -1, 0), (0, 0, 1), (0, 0, -1)]"

definition in_region :: "light_region \<Rightarrow> coords \<Rightarrow> bool" where
  "in_region g = (\<lambda>(nx, ny, nz).
     \<not> (nx < lr_x g \<or> nz < lr_z g \<or> ny < lr_min_y g \<or> lr_top g < ny) \<and>
     \<not> (lr_x g + lr_width g \<le> nx \<or> lr_z g + lr_width g \<le> nz))"

definition light_candidate :: "light_table \<Rightarrow> bool \<Rightarrow> int \<Rightarrow> int \<Rightarrow> nat \<Rightarrow> nat" where
  "light_candidate t is_sky state dy level =
     (if is_sky \<and> dy = -1 \<and> level = MAX_LIGHT \<and> propagates_skylight_down t state then MAX_LIGHT
      else level - max (dampening t state) 1)"

fun spread_from ::
  "light_table \<Rightarrow> (int \<Rightarrow> int \<Rightarrow> int \<Rightarrow> int option) \<Rightarrow> light_region \<Rightarrow> bool \<Rightarrow> coords \<Rightarrow> nat \<Rightarrow> coords list \<Rightarrow>
   nat list \<Rightarrow> coords list \<Rightarrow> (nat list \<times> coords list) option"
where
  "spread_from t block_at g is_sky p level [] light queue = Some (light, queue)"
| "spread_from t block_at g is_sky (x, y, z) level ((dx, dy, dz) # dirs) light queue =
     (let n = (x + dx, y + dy, z + dz)
      in if \<not> in_region g n then spread_from t block_at g is_sky (x, y, z) level dirs light queue
         else
           let candidate = light_candidate t is_sky (state_at block_at n) dy level;
               cell = region_index g n
           in if length light \<le> cell then None
              else if light ! cell < candidate
              then spread_from t block_at g is_sky (x, y, z) level dirs (light[cell := candidate]) (queue @ [n])
              else spread_from t block_at g is_sky (x, y, z) level dirs light queue)"

text \<open>The measure of the loop: how much the levels can still grow, then the queue.\<close>

definition light_bound :: "nat list \<Rightarrow> nat" where
  "light_bound light = foldr max light MAX_LIGHT"

definition darkness :: "nat list \<Rightarrow> nat" where
  "darkness light = sum_list (map (\<lambda>l. light_bound light - l) light)"

lemma bound_member: "l \<in> set light \<Longrightarrow> l \<le> light_bound light"
  by (induction light) (auto simp: light_bound_def)

lemma bound_least: "\<forall>l \<in> set light. l \<le> b \<Longrightarrow> MAX_LIGHT \<le> b \<Longrightarrow> light_bound light \<le> b"
  by (induction light) (auto simp: light_bound_def)

lemma bound_max_light: "MAX_LIGHT \<le> light_bound light"
  by (induction light) (auto simp: light_bound_def)

lemma darkness_update:
  assumes "cell < length light" "light ! cell < v" "v \<le> light_bound light"
  shows "darkness (light[cell := v]) < darkness light" "light_bound (light[cell := v]) \<le> light_bound light"
proof -
  let ?l = "light[cell := v]" and ?b = "light_bound light"
  have "\<forall>l \<in> set ?l. l \<le> ?b" using assms(3) set_update_subset_insert [of light cell v] bound_member by blast
  then show le: "light_bound ?l \<le> ?b" using bound_max_light by (rule bound_least)
  have "darkness ?l \<le> sum_list (map (\<lambda>l. ?b - l) ?l)"
    unfolding darkness_def by (rule sum_list_mono) (use le in \<open>simp add: diff_le_mono\<close>)
  also have "map (\<lambda>l. ?b - l) ?l = (map (\<lambda>l. ?b - l) light)[cell := ?b - v]"
    by (simp add: map_update)
  also have "sum_list \<dots> < sum_list (map (\<lambda>l. ?b - l) light)"
    using assms elem_le_sum_list [of cell "map (\<lambda>l. ?b - l) light"]
    by (subst sum_list_update) simp_all
  finally show "darkness ?l < darkness light" by (simp add: darkness_def)
qed

lemma bound_update:
  assumes "cell < length light" "light ! cell < v" "v \<le> light_bound light"
  shows "light_bound (light[cell := v]) = light_bound light"
proof (rule antisym)
  show "light_bound (light[cell := v]) \<le> light_bound light" by (rule darkness_update(2) [OF assms])
  have "l \<le> light_bound (light[cell := v])" if l: "l \<in> set light" for l
  proof -
    obtain i where i: "i < length light" "light ! i = l" using l by (auto simp: in_set_conv_nth)
    have "l \<le> light[cell := v] ! i" using i assms(2) by (cases "i = cell") auto
    also have "\<dots> \<le> light_bound (light[cell := v])" using i by (intro bound_member nth_mem) simp
    finally show ?thesis .
  qed
  then show "light_bound light \<le> light_bound (light[cell := v])"
    using bound_max_light by (intro bound_least) auto
qed

lemma candidate_le: "light_candidate t is_sky state dy level \<le> max level MAX_LIGHT"
  by (auto simp: light_candidate_def)

lemma spread_from_darkness:
  assumes "spread_from t b g is_sky p level dirs light queue = Some (light', queue')"
    and "level \<le> light_bound light"
  shows "(light' = light \<and> queue' = queue) \<or> darkness light' < darkness light"
  using assms
proof (induction t b g is_sky p level dirs light queue rule: spread_from.induct)
  case (2 t b g is_sky x y z level dx dy dz dirs light queue)
  let ?n = "(x + dx, y + dy, z + dz)"
  let ?c = "light_candidate t is_sky (state_at b ?n) dy level" and ?cell = "region_index g ?n"
  show ?case
  proof (cases "in_region g ?n \<and> light ! ?cell < ?c")
    case True
    then have len: "?cell < length light" using "2.prems"(1) by (auto simp: Let_def split: if_splits)
    have "?c \<le> light_bound light"
      using candidate_le [of t is_sky "state_at b ?n" dy level] "2.prems"(2) bound_max_light [of light] by linarith
    note upd = darkness_update(1) [OF len conjunct2 [OF True] this] bound_update [OF len conjunct2 [OF True] this]
    have "light' = light[?cell := ?c] \<and> queue' = queue @ [?n] \<or> darkness light' < darkness (light[?cell := ?c])"
      by (rule "2.IH"(2)) (use True len "2.prems" upd(2) in \<open>auto simp: Let_def\<close>)
    then show ?thesis using upd(1) by auto
  next
    case False
    then show ?thesis using "2.IH"(1,3) "2.prems" by (auto simp: Let_def split: if_splits)
  qed
qed simp

function spread_light ::
  "light_table \<Rightarrow> (int \<Rightarrow> int \<Rightarrow> int \<Rightarrow> int option) \<Rightarrow> light_region \<Rightarrow> bool \<Rightarrow> coords list \<Rightarrow>
   nat list \<Rightarrow> nat list option"
where
  "spread_light t block_at g is_sky [] light = Some light"
| "spread_light t block_at g is_sky (p # queue) light =
     (if length light \<le> region_index g p then None
      else
        let level = light ! region_index g p
        in if level = 0 then spread_light t block_at g is_sky queue light
           else case spread_from t block_at g is_sky p level spread_dirs light queue of
             None \<Rightarrow> None
           | Some (light, queue) \<Rightarrow> spread_light t block_at g is_sky queue light)"
  by pat_completeness auto

termination
proof (relation "measures [\<lambda>(t, b, g, s, queue, light). darkness light, \<lambda>(t, b, g, s, queue, light). length queue]")
  fix t b g is_sky p queue light level x light' queue'
  assume "\<not> length light \<le> region_index g p" "level = light ! region_index g p"
    and s: "spread_from t b g is_sky p level spread_dirs light queue = Some x" "(light', queue') = x"
  then have "level \<le> light_bound light" by (auto intro: bound_member)
  with spread_from_darkness [of t b g is_sky p level spread_dirs light queue light' queue'] s
  show "((t, b, g, is_sky, queue', light'), (t, b, g, is_sky, p # queue, light)) \<in>
      measures [\<lambda>(t, b, g, s, queue, light). darkness light, \<lambda>(t, b, g, s, queue, light). length queue]"
    by auto
qed auto

section \<open>One chunk\<close>

definition copy_section ::
  "light_region \<Rightarrow> int \<Rightarrow> int \<Rightarrow> nat list \<Rightarrow> nat \<Rightarrow> light_array"
where
  "copy_section g chunk_x chunk_z light s =
     foldl (\<lambda>a (x, y, z).
         light_set a x y z (of_nat (light ! region_index g
           (chunk_x * LIGHT_SECTION_WIDTH + x, lr_min_y g + int s * LIGHT_SECTION_WIDTH + y,
            chunk_z * LIGHT_SECTION_WIDTH + z))))
       light_default
       (concat (map (\<lambda>x. concat (map (\<lambda>z. map (\<lambda>y. (x, y, z)) [0 .. LIGHT_SECTION_WIDTH - 1])
          [0 .. LIGHT_SECTION_WIDTH - 1])) [0 .. LIGHT_SECTION_WIDTH - 1]))"

definition copy_interior ::
  "light_region \<Rightarrow> int \<Rightarrow> int \<Rightarrow> nat list \<Rightarrow> nat list \<Rightarrow> nat \<Rightarrow> chunk_light"
where
  "copy_interior g chunk_x chunk_z sky block sections =
     \<lparr>cl_sky = map (copy_section g chunk_x chunk_z sky) [0 ..< sections],
      cl_block = map (copy_section g chunk_x chunk_z block) [0 ..< sections]\<rparr>"

text \<open>
  The result is None where the code panics: an index outside the arrays, or a region whose
  number of cells does not fit an i32 (with overflow checks on, as in the repository's
  test profile). Horizontal coordinates stay in range inside the world border.
\<close>

definition chunk_region :: "int \<Rightarrow> int \<Rightarrow> int \<Rightarrow> nat \<Rightarrow> light_region" where
  "chunk_region chunk_x chunk_z min_y sections =
     \<lparr>lr_width = LIGHT_SECTION_WIDTH + 2,
      lr_x = chunk_x * LIGHT_SECTION_WIDTH - 1,
      lr_z = chunk_z * LIGHT_SECTION_WIDTH - 1,
      lr_min_y = min_y,
      lr_top = min_y + int sections * LIGHT_SECTION_WIDTH - 1\<rparr>"

definition compute_chunk_light ::
  "light_table \<Rightarrow> int \<Rightarrow> int \<Rightarrow> int \<Rightarrow> nat \<Rightarrow> (int \<Rightarrow> int \<Rightarrow> int \<Rightarrow> int option) \<Rightarrow>
   chunk_light server_result option"
where
  "compute_chunk_light t chunk_x chunk_z min_y sections block_at =
     (if sections = 0 then Some (Inl Invariant)
      else if 2 ^ 31 \<le> int sections * LIGHT_SECTION_WIDTH then Some (Inl Invariant)
      else if 2 ^ 31 \<le> (LIGHT_SECTION_WIDTH + 2) * (LIGHT_SECTION_WIDTH + 2) * (int sections * LIGHT_SECTION_WIDTH)
      then None
      else
        let g = chunk_region chunk_x chunk_z min_y sections;
            cells = nat (lr_width g * lr_width g * (int sections * LIGHT_SECTION_WIDTH));
            (sky, block) = seed_light t block_at g (replicate cells 0, replicate cells 0);
            (sky_queue, block_queue) = queue_frontier g sky block
        in case spread_light t block_at g True sky_queue sky of
             None \<Rightarrow> None
           | Some sky \<Rightarrow>
               (case spread_light t block_at g False block_queue block of
                  None \<Rightarrow> None
                | Some block \<Rightarrow> Some (Inr (copy_interior g chunk_x chunk_z sky block sections))))"

end
