(* ===== verification/WorldBlocks.thy ===== *)
theory WorldBlocks
  imports BlockRegistry LightEngine Dimensions Nbt
begin

text \<open>
  \<open>crates/world/src/chunk.rs\<close> and the block storage of \<open>world.rs\<close>: sections of 4096 block
  states, chunk columns, and the loaded chunks of a dimension with their change log and
  their cache of computed light. Section numbers are i8 and coordinates i32, as integers;
  an arithmetic shift by 4 is the division by 16. A section holds 4096 blocks
  (\<open>section_ok\<close>, proved of every operation), so that no access panics.
\<close>

definition SECTION_WIDTH :: int where "SECTION_WIDTH = 16"
definition SECTION_HEIGHT :: int where "SECTION_HEIGHT = 16"
definition BLOCKS_PER_SECTION :: nat where "BLOCKS_PER_SECTION = 4096"
definition OVERWORLD_MIN_SECTION_Y :: int where "OVERWORLD_MIN_SECTION_Y = -4"
definition OVERWORLD_SECTION_COUNT :: nat where "OVERWORLD_SECTION_COUNT = 24"
definition DATA_VERSION_26_1_2 :: int where "DATA_VERSION_26_1_2 = 4790"

record world_section =
  sec_y :: int
  sec_blocks :: "int list"
  sec_non_empty :: int
  sec_block_light :: "bytes option"
  sec_sky_light :: "bytes option"

definition section_air :: "int \<Rightarrow> int \<Rightarrow> world_section" where
  "section_air y air =
     \<lparr>sec_y = y, sec_blocks = replicate BLOCKS_PER_SECTION air, sec_non_empty = 0,
      sec_block_light = None, sec_sky_light = None\<rparr>"

definition section_index :: "int \<Rightarrow> int \<Rightarrow> int \<Rightarrow> nat" where
  "section_index x y z = nat (x + z * SECTION_WIDTH + y * SECTION_WIDTH * SECTION_WIDTH)"

definition section_get :: "world_section \<Rightarrow> int \<Rightarrow> int \<Rightarrow> int \<Rightarrow> int option" where
  "section_get s x y z =
     (if \<not> (0 \<le> x \<and> x < SECTION_WIDTH) \<or> \<not> (0 \<le> y \<and> y < SECTION_HEIGHT) \<or> \<not> (0 \<le> z \<and> z < SECTION_WIDTH)
      then None
      else if section_index x y z < length (sec_blocks s) then Some (sec_blocks s ! section_index x y z)
      else None)"

record chunk =
  ch_pos :: chunk_pos
  ch_sections :: "world_section list"
  ch_min_section_y :: int
  ch_status :: rstring
  ch_data_version :: int
  ch_last_update :: int
  ch_inhabited_time :: int
  ch_light_correct :: bool
  ch_dirty :: bool
  ch_extra :: "(rstring \<times> nbt_tag) list"

text \<open>\<open>i8::wrapping_add\<close>.\<close>

definition i8_wrap :: "int \<Rightarrow> int" where
  "i8_wrap v = (v + 128) mod 256 - 128"

definition chunk_air :: "chunk_pos \<Rightarrow> int \<Rightarrow> nat \<Rightarrow> block_registry \<Rightarrow> chunk" where
  "chunk_air pos min_section_y sections r =
     \<lparr>ch_pos = pos,
      ch_sections = map (\<lambda>offset. section_air (i8_wrap (min_section_y + i8_wrap (int offset))) (air_id r))
        [0 ..< sections],
      ch_min_section_y = min_section_y,
      ch_status = lit ''minecraft:full'',
      ch_data_version = DATA_VERSION_26_1_2,
      ch_last_update = 0, ch_inhabited_time = 0, ch_light_correct = False, ch_dirty = True, ch_extra = []\<rparr>"

definition chunk_min_y :: "chunk \<Rightarrow> int" where
  "chunk_min_y c = ch_min_section_y c * SECTION_HEIGHT"

definition chunk_max_y :: "chunk \<Rightarrow> int" where
  "chunk_max_y c = (ch_min_section_y c + int (length (ch_sections c))) * SECTION_HEIGHT"

definition section_index_for :: "chunk \<Rightarrow> int \<Rightarrow> nat option" where
  "section_index_for c y =
     (let offset = y div SECTION_HEIGHT - ch_min_section_y c
      in if 0 \<le> offset \<and> nat offset < length (ch_sections c) then Some (nat offset) else None)"

definition chunk_get_block :: "chunk \<Rightarrow> int \<Rightarrow> int \<Rightarrow> int \<Rightarrow> int" where
  "chunk_get_block c x y z =
     (case section_index_for c y of
        None \<Rightarrow> 0
      | Some i \<Rightarrow>
          (case section_get (ch_sections c ! i) (x mod SECTION_WIDTH) (y mod SECTION_HEIGHT) (z mod SECTION_WIDTH) of
             None \<Rightarrow> 0 | Some b \<Rightarrow> b))"

definition chunk_set_block ::
  "chunk \<Rightarrow> int \<Rightarrow> int \<Rightarrow> int \<Rightarrow> int \<Rightarrow> block_registry \<Rightarrow> (int \<times> int) option server_result \<times> chunk"
where
  "chunk_set_block c x y z b r =
     (case section_index_for c y of
        None \<Rightarrow> (Inl InvalidAction, c)
      | Some i \<Rightarrow>
          let slot = section_index (x mod SECTION_WIDTH) (y mod SECTION_HEIGHT) (z mod SECTION_WIDTH);
              s = ch_sections c ! i;
              previous = sec_blocks s ! slot
          in if previous = b then (Inr None, c)
             else
               let n = (case (is_empty_block r previous, is_empty_block r b) of
                     (True, False) \<Rightarrow> sec_non_empty s + 1
                   | (False, True) \<Rightarrow> sec_non_empty s - 1
                   | _ \<Rightarrow> sec_non_empty s);
                   s = s\<lparr>sec_non_empty := n, sec_blocks := (sec_blocks s)[slot := b]\<rparr>
               in (Inr (Some (previous, b)),
                   c\<lparr>ch_sections := (ch_sections c)[i := s], ch_dirty := True\<rparr>))"

definition chunk_non_empty :: "chunk \<Rightarrow> nat \<Rightarrow> int" where
  "chunk_non_empty c i = (if i < length (ch_sections c) then sec_non_empty (ch_sections c ! i) else 0)"

definition chunk_mark_clean :: "chunk \<Rightarrow> chunk" where
  "chunk_mark_clean c = c\<lparr>ch_dirty := False\<rparr>"

section \<open>The loaded world\<close>

record block_change =
  bc_pos :: chunk_pos
  bc_x :: int
  bc_y :: int
  bc_z :: int
  bc_old :: int
  bc_new :: int

record world =
  w_dimension :: dimension
  w_registry :: block_registry
  w_chunks :: "(chunk_pos, chunk) ordered_map"
  w_light :: "(chunk_pos, chunk_light) ordered_map"
  w_changes :: "block_change list"
  w_min_section_y :: int
  w_section_count :: nat
  w_spawn :: "int \<times> int \<times> int"

definition world_with_height :: "dimension \<Rightarrow> block_registry \<Rightarrow> int \<Rightarrow> nat \<Rightarrow> world" where
  "world_with_height d r min_section_y sections =
     \<lparr>w_dimension = d, w_registry = r, w_chunks = [], w_light = [], w_changes = [],
      w_min_section_y = min_section_y, w_section_count = sections, w_spawn = (0, 64, 0)\<rparr>"

definition new_world :: "dimension \<Rightarrow> block_registry \<Rightarrow> world" where
  "new_world d r = world_with_height d r OVERWORLD_MIN_SECTION_Y OVERWORLD_SECTION_COUNT"

definition block_chunk :: "int \<Rightarrow> int \<Rightarrow> chunk_pos" where
  "block_chunk x z = ChunkPos (x div 16) (z div 16)"

definition set_spawn :: "world \<Rightarrow> int \<Rightarrow> int \<Rightarrow> int \<Rightarrow> world" where
  "set_spawn w x y z = w\<lparr>w_spawn := (x, y, z)\<rparr>"

definition load_chunk :: "world \<Rightarrow> chunk \<Rightarrow> world" where
  "load_chunk w c = w\<lparr>w_chunks := om_insert (ch_pos c) c (w_chunks w)\<rparr>"

definition is_loaded :: "world \<Rightarrow> chunk_pos \<Rightarrow> bool" where
  "is_loaded w pos \<longleftrightarrow> map_of (w_chunks w) pos \<noteq> None"

definition ensure_chunk :: "world \<Rightarrow> chunk_pos \<Rightarrow> chunk \<times> world" where
  "ensure_chunk w pos =
     (case map_of (w_chunks w) pos of
        Some c \<Rightarrow> (c, w)
      | None \<Rightarrow>
          let c = chunk_air pos (w_min_section_y w) (w_section_count w) (w_registry w)
          in (c, w\<lparr>w_chunks := om_insert pos c (w_chunks w)\<rparr>))"

definition remove_lights :: "chunk_pos list \<Rightarrow> world \<Rightarrow> world" where
  "remove_lights ps w = w\<lparr>w_light := foldl (\<lambda>l p. om_remove p l) (w_light w) ps\<rparr>"

definition chunks_a_block_can_light :: "chunk_pos \<Rightarrow> int \<Rightarrow> int \<Rightarrow> chunk_pos list" where
  "chunks_a_block_can_light pos x z =
     (let local_x = x mod SECTION_WIDTH;
          local_z = z mod SECTION_WIDTH;
          last_cell = SECTION_WIDTH - 1;
          within = (\<lambda>d local. if d = -1 then local = 0 else if d = 0 then True else local = last_cell)
      in concat (map (\<lambda>dx. concat (map (\<lambda>dz.
           if within dx local_x \<and> within dz local_z then [ChunkPos (cp_x pos + dx) (cp_z pos + dz)] else [])
         [-1, 0, 1])) [-1, 0, 1]))"

definition invalidate_light_around :: "chunk_pos \<Rightarrow> int \<Rightarrow> int \<Rightarrow> world \<Rightarrow> world" where
  "invalidate_light_around pos x z w = remove_lights (chunks_a_block_can_light pos x z) w"

definition light_square :: "chunk_pos \<Rightarrow> chunk_pos list" where
  "light_square pos =
     concat (map (\<lambda>dx. map (\<lambda>dz. ChunkPos (cp_x pos + dx) (cp_z pos + dz)) [-1, 0, 1]) [-1, 0, 1])"

definition invalidate_light_3x3 :: "chunk_pos \<Rightarrow> world \<Rightarrow> world" where
  "invalidate_light_3x3 pos w = remove_lights (light_square pos) w"

definition unload_chunk :: "world \<Rightarrow> chunk_pos \<Rightarrow> chunk option \<times> world" where
  "unload_chunk w pos =
     (let w = invalidate_light_3x3 pos w
      in (map_of (w_chunks w) pos, w\<lparr>w_chunks := om_remove pos (w_chunks w)\<rparr>))"

definition chunk_positions :: "world \<Rightarrow> chunk_pos list" where
  "chunk_positions w = map fst (w_chunks w)"

definition dirty_chunks :: "world \<Rightarrow> chunk_pos list" where
  "dirty_chunks w = map ch_pos (filter ch_dirty (map snd (w_chunks w)))"

definition clear_dirty :: "world \<Rightarrow> world" where
  "clear_dirty w = w\<lparr>w_chunks := map (\<lambda>(p, c). (p, chunk_mark_clean c)) (w_chunks w)\<rparr>"

definition get_block_loaded :: "world \<Rightarrow> int \<Rightarrow> int \<Rightarrow> int \<Rightarrow> int option" where
  "get_block_loaded w x y z =
     map_option (\<lambda>c. chunk_get_block c x y z) (map_of (w_chunks w) (block_chunk x z))"

definition get_block :: "world \<Rightarrow> int \<Rightarrow> int \<Rightarrow> int \<Rightarrow> int" where
  "get_block w x y z =
     (case map_of (w_chunks w) (block_chunk x z) of None \<Rightarrow> 0 | Some c \<Rightarrow> chunk_get_block c x y z)"

definition set_block ::
  "world \<Rightarrow> int \<Rightarrow> int \<Rightarrow> int \<Rightarrow> int \<Rightarrow> block_change option server_result \<times> world"
where
  "set_block w x y z b =
     (let pos = block_chunk x z;
          (c, w) = ensure_chunk w pos
      in case chunk_set_block c x y z b (w_registry w) of
           (Inl e, c) \<Rightarrow> (Inl e, w\<lparr>w_chunks := om_insert pos c (w_chunks w)\<rparr>)
         | (Inr None, c) \<Rightarrow> (Inr None, w\<lparr>w_chunks := om_insert pos c (w_chunks w)\<rparr>)
         | (Inr (Some (old, new)), c) \<Rightarrow>
             let change = \<lparr>bc_pos = pos, bc_x = x, bc_y = y, bc_z = z, bc_old = old, bc_new = new\<rparr>;
                 w = w\<lparr>w_chunks := om_insert pos c (w_chunks w), w_changes := w_changes w @ [change]\<rparr>
             in (Inr (Some change), invalidate_light_around pos x z w))"

text \<open>\<open>block_cursor\<close>: a reader that remembers the last chunk it resolved.\<close>

record block_cursor =
  cur_last :: "(int \<times> int) option"
  cur_chunk :: "chunk option"

definition new_cursor :: block_cursor where
  "new_cursor = \<lparr>cur_last = None, cur_chunk = None\<rparr>"

definition cursor_get :: "world \<Rightarrow> int \<Rightarrow> int \<Rightarrow> int \<Rightarrow> block_cursor \<Rightarrow> int option \<times> block_cursor" where
  "cursor_get w x y z cur =
     (let key = (x div 16, z div 16);
          cur = (if cur_last cur \<noteq> Some key
                 then \<lparr>cur_last = Some key, cur_chunk = map_of (w_chunks w) (ChunkPos (fst key) (snd key))\<rparr>
                 else cur)
      in (map_option (\<lambda>c. chunk_get_block c x y z) (cur_chunk cur), cur))"

text \<open>
  The engine reads the world through the cursor; the law \<open>cursor_get_world\<close> says that this
  is \<open>get_block_loaded\<close>, which is what stands here. None is a panic of the engine.
\<close>

definition compute_light :: "world \<Rightarrow> chunk_pos \<Rightarrow> light_table \<Rightarrow> (unit server_result \<times> world) option" where
  "compute_light w pos t =
     (if map_of (w_light w) pos \<noteq> None then Some (Inr (), w)
      else case map_of (w_chunks w) pos of
        None \<Rightarrow> Some (Inl Invariant, w)
      | Some c \<Rightarrow>
          (case compute_chunk_light t (cp_x pos) (cp_z pos) (chunk_min_y c) (length (ch_sections c))
                  (get_block_loaded w) of
             None \<Rightarrow> None
           | Some (Inl e) \<Rightarrow> Some (Inl e, w)
           | Some (Inr light) \<Rightarrow> Some (Inr (), w\<lparr>w_light := om_insert pos light (w_light w)\<rparr>)))"

definition cached_light :: "world \<Rightarrow> chunk_pos \<Rightarrow> chunk_light option" where
  "cached_light w pos = map_of (w_light w) pos"

definition clear_light :: "world \<Rightarrow> world" where
  "clear_light w = w\<lparr>w_light := []\<rparr>"

definition take_block_changes :: "world \<Rightarrow> block_change list \<times> world" where
  "take_block_changes w = (w_changes w, w\<lparr>w_changes := []\<rparr>)"

end
