(* ===== verification/LightLaws.thy ===== *)
theory LightLaws
  imports LightEngine
begin

text \<open>
  The light engine computes, for every cell, the brightest level that reaches it along any
  path of neighbouring cells from a seed. The reference is the relation \<open>shines\<close>; the loop's
  invariant is that every level is attained and that only queued cells can still spread.
\<close>

declare split_paired_All [simp del] split_paired_Ex [simp del]

lemma in_concat_map: "a \<in> set xs \<Longrightarrow> y \<in> set (f a) \<Longrightarrow> y \<in> set (concat (map f xs))"
  by auto

lemma in_map: "a \<in> set xs \<Longrightarrow> y = f a \<Longrightarrow> y \<in> set (map f xs)"
  by simp

section \<open>The region\<close>

definition region_ok :: "light_region \<Rightarrow> bool" where
  "region_ok g \<longleftrightarrow> 0 < lr_width g \<and> lr_min_y g \<le> lr_top g + 1"

definition region_size :: "light_region \<Rightarrow> nat" where
  "region_size g = nat (lr_width g * lr_width g * (lr_top g - lr_min_y g + 1))"

definition layer_ok :: "light_region \<Rightarrow> nat list \<Rightarrow> bool" where
  "layer_ok g light \<longleftrightarrow> length light = region_size g"

lemma in_region_iff:
  "in_region g (x, y, z) \<longleftrightarrow> lr_x g \<le> x \<and> x < lr_x g + lr_width g \<and> lr_min_y g \<le> y \<and> y \<le> lr_top g \<and>
     lr_z g \<le> z \<and> z < lr_z g + lr_width g"
  by (auto simp: in_region_def)

lemma digits_bound:
  fixes a b w h :: int
  assumes "0 \<le> a" "a < w" "0 \<le> b" "b < h"
  shows "0 \<le> a + b * w" "a + b * w < w * h"
proof -
  show "0 \<le> a + b * w" using assms by simp
  have "b * w + w \<le> h * w" using assms mult_right_mono [of "b + 1" h w] by (simp add: algebra_simps)
  then show "a + b * w < w * h" using assms by (simp add: mult.commute)
qed

lemma digits_unique:
  fixes a b c d w :: int
  assumes "0 \<le> a" "a < w" "0 \<le> c" "c < w" "a + b * w = c + d * w"
  shows "a = c \<and> b = d"
proof -
  have "(a + b * w) mod w = a" "(c + d * w) mod w = c"
    using assms(1-4) by (simp_all add: mod_pos_pos_trivial)
  then have "a = c" using assms(5) by simp
  then show ?thesis using assms by simp
qed

lemma region_index_split:
  assumes "in_region g (x, y, z)"
  shows "int (region_index g (x, y, z)) =
    (x - lr_x g) + ((z - lr_z g) + (y - lr_min_y g) * lr_width g) * lr_width g"
proof -
  have "0 \<le> (z - lr_z g) + (y - lr_min_y g) * lr_width g" using assms by (simp add: in_region_iff)
  then have "0 \<le> (x - lr_x g) + ((z - lr_z g) + (y - lr_min_y g) * lr_width g) * lr_width g"
    using assms by (simp add: in_region_iff)
  then show ?thesis by (simp add: region_index_def algebra_simps)
qed

lemma region_index_less: "in_region g p \<Longrightarrow> region_index g p < region_size g"
proof -
  assume i: "in_region g p"
  obtain x y z where [simp]: "p = (x, y, z)" by (cases p)
  let ?w = "lr_width g"
  have inner: "0 \<le> (z - lr_z g) + (y - lr_min_y g) * ?w"
    "(z - lr_z g) + (y - lr_min_y g) * ?w < ?w * (lr_top g - lr_min_y g + 1)"
    using i digits_bound [of "z - lr_z g" ?w "y - lr_min_y g" "lr_top g - lr_min_y g + 1"]
    by (simp_all add: in_region_iff)
  have "(x - lr_x g) + ((z - lr_z g) + (y - lr_min_y g) * ?w) * ?w < ?w * (?w * (lr_top g - lr_min_y g + 1))"
    using i inner by (intro digits_bound(2)) (simp_all add: in_region_iff)
  then show "region_index g p < region_size g"
    using region_index_split [of g x y z] i by (simp add: region_size_def zless_nat_eq_int_zless mult.assoc)
qed

lemma region_index_inj:
  assumes "in_region g p" "in_region g q" "region_index g p = region_index g q"
  shows "p = q"
proof -
  obtain x y z u v w where [simp]: "p = (x, y, z)" "q = (u, v, w)" by (cases p, cases q)
  from assms(3) have "(x - lr_x g) + ((z - lr_z g) + (y - lr_min_y g) * lr_width g) * lr_width g =
      (u - lr_x g) + ((w - lr_z g) + (v - lr_min_y g) * lr_width g) * lr_width g"
    using region_index_split [of g x y z] region_index_split [of g u v w] assms(1,2) by simp
  then have "x - lr_x g = u - lr_x g \<and>
      (z - lr_z g) + (y - lr_min_y g) * lr_width g = (w - lr_z g) + (v - lr_min_y g) * lr_width g"
    by (rule digits_unique [rotated 4]) (use assms in \<open>simp_all add: in_region_iff\<close>)
  moreover from this have "z - lr_z g = w - lr_z g \<and> y - lr_min_y g = v - lr_min_y g"
    by (intro digits_unique [of _ "lr_width g"]) (use assms in \<open>simp_all add: in_region_iff\<close>)
  ultimately show ?thesis by simp
qed

lemma layer_nth_less: "layer_ok g light \<Longrightarrow> in_region g p \<Longrightarrow> region_index g p < length light"
  by (simp add: layer_ok_def region_index_less)

lemma layer_update:
  assumes "layer_ok g light" "in_region g p" "in_region g q"
  shows "light[region_index g p := v] ! region_index g q = (if q = p then v else light ! region_index g q)"
proof (cases "q = p")
  case False
  then have "region_index g p \<noteq> region_index g q" using region_index_inj [OF assms(2,3)] by auto
  with False show ?thesis by simp
qed (simp add: layer_nth_less [OF assms(1,2)])

section \<open>The reference\<close>

definition neighbour :: "coords \<Rightarrow> coords \<Rightarrow> coords" where
  "neighbour = (\<lambda>(x, y, z) (dx, dy, dz). (x + dx, y + dy, z + dz))"

definition reach ::
  "light_table \<Rightarrow> (int \<Rightarrow> int \<Rightarrow> int \<Rightarrow> int option) \<Rightarrow> bool \<Rightarrow> coords \<Rightarrow> coords \<Rightarrow> nat \<Rightarrow> nat"
where
  "reach t b is_sky p d level = light_candidate t is_sky (state_at b (neighbour p d)) (fst (snd d)) level"

inductive shines ::
  "light_table \<Rightarrow> (int \<Rightarrow> int \<Rightarrow> int \<Rightarrow> int option) \<Rightarrow> light_region \<Rightarrow> bool \<Rightarrow> (coords \<Rightarrow> nat) \<Rightarrow> coords \<Rightarrow> nat \<Rightarrow> bool"
  for t b g is_sky seeds
where
  seed: "in_region g p \<Longrightarrow> shines t b g is_sky seeds p (seeds p)"
| step: "shines t b g is_sky seeds p level \<Longrightarrow> d \<in> set spread_dirs \<Longrightarrow> in_region g (neighbour p d) \<Longrightarrow>
     shines t b g is_sky seeds (neighbour p d) (reach t b is_sky p d level)"

lemma shines_in_region: "shines t b g is_sky seeds p l \<Longrightarrow> in_region g p"
  by (cases rule: shines.cases) auto

lemma reach_monotone:
  "l \<le> m \<Longrightarrow> (is_sky \<Longrightarrow> m \<le> MAX_LIGHT) \<Longrightarrow> reach t b is_sky p d l \<le> reach t b is_sky p d m"
  by (auto simp: reach_def light_candidate_def)

section \<open>The spread\<close>

lemma spread_from_law:
  assumes "layer_ok g light" "set dirs \<subseteq> set spread_dirs"
  shows "\<exists>light' queue'. spread_from t b g is_sky p level dirs light queue = Some (light', queue') \<and>
    layer_ok g light' \<and> set queue \<subseteq> set queue' \<and> (\<forall>q \<in> set queue'. q \<in> set queue \<or> in_region g q) \<and>
    (\<forall>q. in_region g q \<longrightarrow> light ! region_index g q \<le> light' ! region_index g q \<and>
       (light' ! region_index g q \<noteq> light ! region_index g q \<longrightarrow>
          q \<in> set queue' \<and> (\<exists>d \<in> set dirs. q = neighbour p d \<and> light' ! region_index g q = reach t b is_sky p d level))) \<and>
    (\<forall>d \<in> set dirs. in_region g (neighbour p d) \<longrightarrow>
       reach t b is_sky p d level \<le> light' ! region_index g (neighbour p d))"
  using assms
proof (induction dirs arbitrary: light queue)
  case Nil
  then show ?case by simp
next
  case (Cons d dirs)
  obtain x y z where p: "p = (x, y, z)" by (cases p)
  obtain dx dy dz where d: "d = (dx, dy, dz)" by (cases d)
  let ?n = "neighbour p d" and ?c = "reach t b is_sky p d level"
  have n: "(x + dx, y + dy, z + dz) = ?n" by (simp add: p d neighbour_def)
  have c: "light_candidate t is_sky (state_at b ?n) dy level = ?c" by (simp add: reach_def d)
  have sub: "set dirs \<subseteq> set spread_dirs" using Cons.prems(2) by simp
  define light1 where "light1 = (if in_region g ?n \<and> light ! region_index g ?n < ?c
      then light[region_index g ?n := ?c] else light)"
  define queue1 where "queue1 = (if in_region g ?n \<and> light ! region_index g ?n < ?c
      then queue @ [?n] else queue)"
  have ok1: "layer_ok g light1" using Cons.prems(1) by (simp add: light1_def layer_ok_def)
  have step: "spread_from t b g is_sky p level (d # dirs) light queue =
      spread_from t b g is_sky p level dirs light1 queue1"
    using layer_nth_less [OF Cons.prems(1), of ?n]
    by (cases "in_region g ?n") (simp_all add: p d light1_def queue1_def Let_def n [unfolded p d] c [unfolded p d] not_le)
  have first: "light ! region_index g q \<le> light1 ! region_index g q \<and>
      (light1 ! region_index g q \<noteq> light ! region_index g q \<longrightarrow>
         q \<in> set queue1 \<and> q = ?n \<and> light1 ! region_index g q = ?c)" if "in_region g q" for q
    using layer_update [OF Cons.prems(1) _ that, of ?n] by (auto simp: light1_def queue1_def)
  have reached: "?c \<le> light1 ! region_index g ?n" if "in_region g ?n"
    using layer_update [OF Cons.prems(1) that that] that by (auto simp: light1_def)
  have queue1: "set queue \<subseteq> set queue1" "\<forall>q \<in> set queue1. q \<in> set queue \<or> in_region g q"
    by (auto simp: queue1_def)
  obtain light' queue' where ih: "spread_from t b g is_sky p level dirs light1 queue1 = Some (light', queue')"
      "layer_ok g light'" "set queue1 \<subseteq> set queue'" "\<forall>q \<in> set queue'. q \<in> set queue1 \<or> in_region g q"
    and grow: "\<And>q. in_region g q \<Longrightarrow> light1 ! region_index g q \<le> light' ! region_index g q"
    and change: "\<And>q. in_region g q \<Longrightarrow> light' ! region_index g q \<noteq> light1 ! region_index g q \<Longrightarrow>
        q \<in> set queue' \<and> (\<exists>d \<in> set dirs. q = neighbour p d \<and> light' ! region_index g q = reach t b is_sky p d level)"
    and rest: "\<And>d. d \<in> set dirs \<Longrightarrow> in_region g (neighbour p d) \<Longrightarrow>
        reach t b is_sky p d level \<le> light' ! region_index g (neighbour p d)"
    using Cons.IH [OF ok1 sub, of queue1] by blast
  have "light ! region_index g q \<le> light' ! region_index g q \<and>
       (light' ! region_index g q \<noteq> light ! region_index g q \<longrightarrow>
          q \<in> set queue' \<and> (\<exists>e \<in> set (d # dirs). q = neighbour p e \<and> light' ! region_index g q = reach t b is_sky p e level))"
    if q: "in_region g q" for q
  proof (cases "light' ! region_index g q = light1 ! region_index g q")
    case True
    then show ?thesis using first [OF q] ih(3) by auto
  next
    case False
    then show ?thesis using change [OF q] grow [OF q] first [OF q] by auto
  qed
  moreover have "reach t b is_sky p e level \<le> light' ! region_index g (neighbour p e)"
    if "e \<in> set (d # dirs)" "in_region g (neighbour p e)" for e
    using that rest [of e] reached grow [of ?n] by fastforce
  moreover have "\<forall>q \<in> set queue'. q \<in> set queue \<or> in_region g q" using ih(4) queue1(2) by blast
  ultimately show ?case using step ih(1-3) queue1(1) by auto
qed

text \<open>The invariant of the loop, for the seeds \<open>seeds\<close>.\<close>

definition spread_inv ::
  "light_table \<Rightarrow> (int \<Rightarrow> int \<Rightarrow> int \<Rightarrow> int option) \<Rightarrow> light_region \<Rightarrow> bool \<Rightarrow> (coords \<Rightarrow> nat) \<Rightarrow> coords list \<Rightarrow> nat list \<Rightarrow> bool"
where
  "spread_inv t b g is_sky seeds queue light \<longleftrightarrow>
     layer_ok g light \<and> (\<forall>q \<in> set queue. in_region g q) \<and>
     (\<forall>q. in_region g q \<longrightarrow> shines t b g is_sky seeds q (light ! region_index g q) \<and>
        seeds q \<le> light ! region_index g q) \<and>
     (\<forall>q. in_region g q \<longrightarrow> (\<forall>d \<in> set spread_dirs. in_region g (neighbour q d) \<longrightarrow>
        q \<in> set queue \<or> reach t b is_sky q d (light ! region_index g q) \<le> light ! region_index g (neighbour q d)))"

lemma reach_zero [simp]: "reach t b is_sky p d 0 = 0"
  by (simp add: reach_def light_candidate_def MAX_LIGHT_def)

lemma spread_inv_step:
  assumes inv: "spread_inv t b g is_sky seeds (p # queue) light"
    and s: "spread_from t b g is_sky p (light ! region_index g p) spread_dirs light queue = Some (light', queue')"
  shows "spread_inv t b g is_sky seeds queue' light'"
proof -
  let ?v = "\<lambda>q. light ! region_index g q" and ?w = "\<lambda>q. light' ! region_index g q"
  have ok: "layer_ok g light" and queue: "\<forall>q \<in> set (p # queue). in_region g q"
    and sound: "\<And>q. in_region g q \<Longrightarrow> shines t b g is_sky seeds q (?v q) \<and> seeds q \<le> ?v q"
    and closed: "\<And>q d. in_region g q \<Longrightarrow> d \<in> set spread_dirs \<Longrightarrow> in_region g (neighbour q d) \<Longrightarrow>
        q \<in> set (p # queue) \<or> reach t b is_sky q d (?v q) \<le> ?v (neighbour q d)"
    using inv unfolding spread_inv_def by blast+
  note p = bspec [OF queue list.set_intros(1)]
  have ok': "layer_ok g light'" and queue': "set queue \<subseteq> set queue'" "\<forall>q \<in> set queue'. q \<in> set queue \<or> in_region g q"
    and grow: "\<And>q. in_region g q \<Longrightarrow> ?v q \<le> ?w q"
    and change: "\<And>q. in_region g q \<Longrightarrow> ?w q \<noteq> ?v q \<Longrightarrow>
        q \<in> set queue' \<and> (\<exists>d \<in> set spread_dirs. q = neighbour p d \<and> ?w q = reach t b is_sky p d (?v p))"
    and reached: "\<And>d. d \<in> set spread_dirs \<Longrightarrow> in_region g (neighbour p d) \<Longrightarrow>
        reach t b is_sky p d (?v p) \<le> ?w (neighbour p d)"
    using spread_from_law [OF ok, of spread_dirs t b is_sky p "?v p" queue] unfolding s by blast+
  have sound': "shines t b g is_sky seeds q (?w q) \<and> seeds q \<le> ?w q" if q: "in_region g q" for q
  proof (cases "?w q = ?v q")
    case True
    then show ?thesis using sound [OF q] by simp
  next
    case False
    then obtain d where "d \<in> set spread_dirs" "q = neighbour p d" "?w q = reach t b is_sky p d (?v p)"
      using change [OF q] by blast
    then have "shines t b g is_sky seeds q (?w q)" using shines.step [of t b g is_sky seeds p "?v p" d] sound [OF p] q by simp
    then show ?thesis using sound [OF q] grow [OF q] by simp
  qed
  have closed': "q \<in> set queue' \<or> reach t b is_sky q d (?w q) \<le> ?w (neighbour q d)"
    if q: "in_region g q" and d: "d \<in> set spread_dirs" "in_region g (neighbour q d)" for q d
  proof (cases "q \<in> set queue' \<or> ?w q \<noteq> ?v q")
    case True
    then show ?thesis using change [OF q] by blast
  next
    case False
    then have same: "?w q = ?v q" and out: "q \<notin> set queue" using queue'(1) by auto
    show ?thesis
    proof (cases "q = p")
      case True
      then show ?thesis using reached [OF d(1)] d(2) same by simp
    next
      case False
      then have "reach t b is_sky q d (?v q) \<le> ?v (neighbour q d)" using closed [OF q d] out by simp
      then show ?thesis using same grow [OF d(2)] by simp
    qed
  qed
  show ?thesis
    unfolding spread_inv_def using ok' queue queue'(2) sound' closed' by (metis list.set_intros(2))
qed

lemma spread_light_inv:
  assumes "spread_inv t b g is_sky seeds queue light"
  shows "\<exists>light'. spread_light t b g is_sky queue light = Some light' \<and> spread_inv t b g is_sky seeds [] light'"
  using assms
proof (induction t b g is_sky queue light rule: spread_light.induct)
  case (1 t b g is_sky light)
  then show ?case by simp
next
  case (2 t b g is_sky p queue light)
  have p: "in_region g p" and ok: "layer_ok g light" using "2.prems" by (auto simp: spread_inv_def)
  then have less: "\<not> length light \<le> region_index g p" using layer_nth_less by (simp add: not_le)
  show ?case
  proof (cases "light ! region_index g p = 0")
    case True
    have "q \<in> set queue \<or> reach t b is_sky q d (light ! region_index g q) \<le> light ! region_index g (neighbour q d)"
      if "in_region g q" "d \<in> set spread_dirs" "in_region g (neighbour q d)" for q d
      using "2.prems" that True unfolding spread_inv_def by (cases "q = p") auto
    then have "spread_inv t b g is_sky seeds queue light"
      using "2.prems" unfolding spread_inv_def by auto
    then show ?thesis using "2.IH"(1) [OF less refl True] True less by simp
  next
    case False
    obtain light' queue' where s: "spread_from t b g is_sky p (light ! region_index g p) spread_dirs light queue =
        Some (light', queue')"
      using spread_from_law [OF ok subset_refl] by blast
    from "2.IH"(2) [OF less refl False s refl spread_inv_step [OF "2.prems" s]]
    show ?thesis using False less s by simp
  qed
qed

text \<open>At the end every level is attained and none is exceeded.\<close>

definition brightest ::
  "light_table \<Rightarrow> (int \<Rightarrow> int \<Rightarrow> int \<Rightarrow> int option) \<Rightarrow> light_region \<Rightarrow> bool \<Rightarrow> (coords \<Rightarrow> nat) \<Rightarrow> coords \<Rightarrow> nat \<Rightarrow> bool"
where
  "brightest t b g is_sky seeds p l \<longleftrightarrow>
     shines t b g is_sky seeds p l \<and> (\<forall>m. shines t b g is_sky seeds p m \<longrightarrow> m \<le> l)"

lemma shines_sky_bounded:
  assumes "shines t b g True seeds p l" "\<forall>p. in_region g p \<longrightarrow> seeds p \<le> MAX_LIGHT"
  shows "l \<le> MAX_LIGHT"
  using assms(1)
proof (induction rule: shines.induct)
  case (step p l d)
  then show ?case using candidate_le [of t True "state_at b (neighbour p d)" "fst (snd d)" l] by (simp add: reach_def)
qed (use assms(2) in simp)

lemma spread_inv_brightest:
  assumes inv: "spread_inv t b g is_sky seeds [] light"
    and sky: "is_sky \<Longrightarrow> \<forall>p. in_region g p \<longrightarrow> seeds p \<le> MAX_LIGHT"
    and p: "in_region g p"
  shows "brightest t b g is_sky seeds p (light ! region_index g p)"
proof -
  let ?v = "\<lambda>q. light ! region_index g q"
  have sound: "\<And>q. in_region g q \<Longrightarrow> shines t b g is_sky seeds q (?v q) \<and> seeds q \<le> ?v q"
    and closed: "\<And>q d. in_region g q \<Longrightarrow> d \<in> set spread_dirs \<Longrightarrow> in_region g (neighbour q d) \<Longrightarrow>
        reach t b is_sky q d (?v q) \<le> ?v (neighbour q d)"
    using inv unfolding spread_inv_def by auto
  have "l \<le> ?v q" if "shines t b g is_sky seeds q l" for q l
    using that
  proof (induction rule: shines.induct)
    case (step q l d)
    have "is_sky \<Longrightarrow> ?v q \<le> MAX_LIGHT"
      using shines_sky_bounded [of t b g seeds q "?v q"] sound [OF shines_in_region [OF step.hyps(1)]] sky by simp
    then have "reach t b is_sky q d l \<le> reach t b is_sky q d (?v q)"
      using step.IH by (intro reach_monotone)
    also have "\<dots> \<le> ?v (neighbour q d)"
      using closed step.hyps shines_in_region by blast
    finally show ?case .
  qed (use sound in simp)
  then show ?thesis using sound [OF p] by (simp add: brightest_def)
qed

end
