(* ===== verification/ChunkLaws.thy ===== *)
theory ChunkLaws
  imports WorldBlocks LightLaws
begin

text \<open>
  The laws of the block storage: sections keep their 4096 blocks and count the non-empty
  ones, a write is read back and changes no other block, and the cursor reads the world.
\<close>

declare split_paired_All [simp del] split_paired_Ex [simp del]

section \<open>Sections and chunks\<close>

definition section_ok :: "block_registry \<Rightarrow> world_section \<Rightarrow> bool" where
  "section_ok r s \<longleftrightarrow> length (sec_blocks s) = BLOCKS_PER_SECTION \<and>
     sec_non_empty s = int (length (filter (\<lambda>b. \<not> is_empty_block r b) (sec_blocks s)))"

definition chunk_ok :: "block_registry \<Rightarrow> chunk \<Rightarrow> bool" where
  "chunk_ok r c \<longleftrightarrow> (\<forall>s \<in> set (ch_sections c). section_ok r s)"

lemma filter_count_update:
  "i < length xs \<Longrightarrow> int (length (filter P (xs[i := x]))) =
     int (length (filter P xs)) - (if P (xs ! i) then 1 else 0) + (if P x then 1 else 0)"
proof (induction xs arbitrary: i)
  case (Cons y xs)
  show ?case
  proof (cases i)
    case (Suc k)
    then show ?thesis using Cons.IH [of k] Cons.prems by auto
  qed (use Cons.prems in simp)
qed simp

lemma div_mod_16: "a div 16 = b div 16 \<Longrightarrow> a mod 16 = b mod 16 \<Longrightarrow> a = (b :: int)"
  by (metis div_mult_mod_eq)

definition local_slot :: "int \<Rightarrow> int \<Rightarrow> int \<Rightarrow> nat" where
  "local_slot x y z = section_index (x mod SECTION_WIDTH) (y mod SECTION_HEIGHT) (z mod SECTION_WIDTH)"

text \<open>A section is the region of the light engine of the same size.\<close>

lemma local_slot_region:
  "local_slot x y z = region_index \<lparr>lr_width = 16, lr_x = 0, lr_z = 0, lr_min_y = 0, lr_top = 15\<rparr>
     (x mod 16, y mod 16, z mod 16)"
  by (simp add: local_slot_def section_index_def region_index_def SECTION_WIDTH_def SECTION_HEIGHT_def)

lemma in_unit_region:
  "in_region \<lparr>lr_width = 16, lr_x = 0, lr_z = 0, lr_min_y = 0, lr_top = 15\<rparr> (x mod 16, y mod 16, z mod 16)"
  by (simp add: in_region_iff)

lemma local_slot_less: "local_slot x y z < BLOCKS_PER_SECTION"
  using region_index_less [OF in_unit_region, of x y z]
  by (simp add: local_slot_region region_size_def BLOCKS_PER_SECTION_def)

lemma local_slot_inj:
  "local_slot x y z = local_slot u v w \<Longrightarrow> x mod 16 = u mod 16 \<and> y mod 16 = v mod 16 \<and> z mod 16 = w mod 16"
  using region_index_inj [OF in_unit_region in_unit_region, of x y z u v w] by (simp add: local_slot_region)

lemma section_get_local:
  "length (sec_blocks s) = BLOCKS_PER_SECTION \<Longrightarrow>
     section_get s (x mod SECTION_WIDTH) (y mod SECTION_HEIGHT) (z mod SECTION_WIDTH) = Some (sec_blocks s ! local_slot x y z)"
  using local_slot_less [of x y z] in_unit_region [of x y z]
  by (simp add: section_get_def local_slot_def SECTION_WIDTH_def SECTION_HEIGHT_def in_region_iff)

lemma chunk_get_local:
  assumes "chunk_ok r c"
  shows "chunk_get_block c x y z =
    (case section_index_for c y of None \<Rightarrow> 0 | Some i \<Rightarrow> sec_blocks (ch_sections c ! i) ! local_slot x y z)"
proof -
  have "length (sec_blocks (ch_sections c ! i)) = BLOCKS_PER_SECTION" if "section_index_for c y = Some i" for i
    using assms that nth_mem by (fastforce simp: chunk_ok_def section_ok_def section_index_for_def Let_def split: if_splits)
  then show ?thesis by (auto simp: chunk_get_block_def section_get_local split: option.split)
qed

lemma section_index_for_Some:
  "section_index_for c y = Some i \<longleftrightarrow> y div 16 = ch_min_section_y c + int i \<and> i < length (ch_sections c)"
  by (auto simp: section_index_for_def Let_def SECTION_HEIGHT_def)

lemma chunk_ok_air: "is_empty_block r (air_id r) \<Longrightarrow> chunk_ok r (chunk_air pos y n r)"
  by (auto simp: chunk_ok_def chunk_air_def section_ok_def section_air_def)

text \<open>What a write to a chunk does, in the three cases of its result.\<close>

lemma chunk_set_block_law:
  assumes "chunk_ok r c" "chunk_set_block c x y z b r = (res, c')"
  shows "chunk_ok r c' \<and> ch_min_section_y c' = ch_min_section_y c \<and>
    length (ch_sections c') = length (ch_sections c) \<and> ch_pos c' = ch_pos c \<and>
    (case res of
       Inl e \<Rightarrow> e = InvalidAction \<and> c' = c \<and> section_index_for c y = None
     | Inr None \<Rightarrow> c' = c \<and> section_index_for c y \<noteq> None \<and> chunk_get_block c x y z = b
     | Inr (Some (old, new)) \<Rightarrow> section_index_for c y \<noteq> None \<and> old = chunk_get_block c x y z \<and> new = b \<and>
         old \<noteq> new \<and> ch_dirty c' \<and>
         (\<forall>u v w. u div 16 = x div 16 \<and> w div 16 = z div 16 \<longrightarrow>
            chunk_get_block c' u v w = (if (u, v, w) = (x, y, z) then b else chunk_get_block c u v w)))"
proof (cases "section_index_for c y")
  case None
  then show ?thesis using assms by (auto simp: chunk_set_block_def)
next
  case (Some i)
  let ?s = "ch_sections c ! i" and ?slot = "local_slot x y z"
  have i: "y div 16 = ch_min_section_y c + int i" "i < length (ch_sections c)"
    using Some by (simp_all add: section_index_for_Some)
  have s: "section_ok r ?s" using assms(1) i(2) nth_mem by (auto simp: chunk_ok_def)
  then have slot: "?slot < length (sec_blocks ?s)" using local_slot_less by (simp add: section_ok_def)
  have get: "chunk_get_block c x y z = sec_blocks ?s ! ?slot" using chunk_get_local [OF assms(1)] Some by simp
  show ?thesis
  proof (cases "sec_blocks ?s ! ?slot = b")
    case True
    then show ?thesis using assms Some get
      by (auto simp: chunk_set_block_def Let_def local_slot_def [symmetric])
  next
    case False
    define n where "n = (case (is_empty_block r (sec_blocks ?s ! ?slot), is_empty_block r b) of
        (True, False) \<Rightarrow> sec_non_empty ?s + 1 | (False, True) \<Rightarrow> sec_non_empty ?s - 1 | _ \<Rightarrow> sec_non_empty ?s)"
    define s' where "s' = ?s\<lparr>sec_non_empty := n, sec_blocks := (sec_blocks ?s)[?slot := b]\<rparr>"
    have res: "res = Inr (Some (sec_blocks ?s ! ?slot, b))"
      and c': "c' = c\<lparr>ch_sections := (ch_sections c)[i := s'], ch_dirty := True\<rparr>"
      using assms(2) Some False
      by (simp_all add: chunk_set_block_def Let_def local_slot_def [symmetric] n_def s'_def)
    have "n = int (length (filter (\<lambda>b. \<not> is_empty_block r b) ((sec_blocks ?s)[?slot := b])))"
      using s filter_count_update [OF slot, of "\<lambda>b. \<not> is_empty_block r b" b]
      by (auto simp: n_def section_ok_def)
    then have s': "section_ok r s'" using s by (simp add: s'_def section_ok_def)
    have ok': "chunk_ok r c'"
      using assms(1) s' set_update_subset_insert [of "ch_sections c" i s'] by (auto simp: chunk_ok_def c')
    have "chunk_get_block c' u v w = (if (u, v, w) = (x, y, z) then b else chunk_get_block c u v w)"
      if col: "u div 16 = x div 16" "w div 16 = z div 16" for u v w
    proof (cases "section_index_for c v")
      case None
      then have "section_index_for c' v = None" by (simp add: c' section_index_for_def Let_def)
      moreover have "v \<noteq> y" using None Some by auto
      ultimately show ?thesis using None by (simp add: chunk_get_block_def)
    next
      case (Some j)
      then have j: "v div 16 = ch_min_section_y c + int j" "section_index_for c' v = Some j" "j < length (ch_sections c)"
        by (auto simp: c' section_index_for_Some)
      have same: "i = j \<and> ?slot = local_slot u v w \<longleftrightarrow> (u, v, w) = (x, y, z)"
      proof
        assume "i = j \<and> ?slot = local_slot u v w"
        then have "v div 16 = y div 16" and "?slot = local_slot u v w" using i(1) j(1) by simp_all
        moreover from this(2) have "x mod 16 = u mod 16 \<and> y mod 16 = v mod 16 \<and> z mod 16 = w mod 16"
          by (rule local_slot_inj)
        ultimately have "u = x" "v = y" "w = z" using col div_mod_16 by metis+
        then show "(u, v, w) = (x, y, z)" by simp
      qed (use i(1) j(1) in auto)
      have get': "chunk_get_block c' u v w = sec_blocks ((ch_sections c)[i := s'] ! j) ! local_slot u v w"
        using j(2) unfolding chunk_get_local [OF ok'] by (simp add: c')
      have old: "chunk_get_block c u v w = sec_blocks (ch_sections c ! j) ! local_slot u v w"
        using Some by (simp add: chunk_get_local [OF assms(1)])
      show ?thesis
      proof (cases "i = j")
        case True
        then have "chunk_get_block c' u v w = (if ?slot = local_slot u v w then b else chunk_get_block c u v w)"
          using i(2) slot by (simp add: get' old s'_def)
        then show ?thesis using True same by simp
      next
        case False
        then have other: "(u, v, w) \<noteq> (x, y, z)" using same by blast
        show ?thesis unfolding if_not_P [OF other] get' old using False by simp
      qed
    qed
    then show ?thesis using ok' False get by (simp add: res c' Some)
  qed
qed

section \<open>The world\<close>

text \<open>
  Every loaded chunk is stored under its own position and has complete sections, and the
  block id 0, which stands for an unloaded chunk, is air.
\<close>

definition world_ok :: "world \<Rightarrow> bool" where
  "world_ok w \<longleftrightarrow> om_ok (w_chunks w) \<and> om_ok (w_light w) \<and> air_id (w_registry w) = 0 \<and>
     is_empty_block (w_registry w) 0 \<and>
     (\<forall>pos c. map_of (w_chunks w) pos = Some c \<longrightarrow> ch_pos c = pos \<and> chunk_ok (w_registry w) c)"

definition block_state :: "world \<Rightarrow> coords \<Rightarrow> int" where
  "block_state w = (\<lambda>(x, y, z). get_block w x y z)"

lemma state_at_world: "state_at (get_block_loaded w) p = block_state w p"
  by (simp add: state_at_def get_block_loaded_def block_state_def get_block_def split: prod.split option.split)

lemma air_chunk_reads:
  assumes "air_id r = 0"
  shows "chunk_get_block (chunk_air pos my n r) x y z = 0"
proof -
  have "length (sec_blocks (section_air s 0)) = BLOCKS_PER_SECTION" for s by (simp add: section_air_def)
  from section_get_local [OF this] have "section_get (section_air s 0) (x mod SECTION_WIDTH) (y mod SECTION_HEIGHT)
      (z mod SECTION_WIDTH) = Some 0" for s
    using local_slot_less [of x y z] by (simp add: section_air_def)
  then show ?thesis
    using assms by (auto simp: chunk_get_block_def section_index_for_Some chunk_air_def split: option.split)
qed

lemma ensure_chunk_law:
  assumes "world_ok w" "ensure_chunk w pos = (c, w')"
  shows "world_ok w' \<and> map_of (w_chunks w') = (map_of (w_chunks w))(pos \<mapsto> c) \<and>
    block_state w' = block_state w \<and> w_light w' = w_light w \<and> w_registry w' = w_registry w \<and>
    w_changes w' = w_changes w \<and> (map_of (w_chunks w) pos \<noteq> None \<longrightarrow> w' = w)"
proof (cases "map_of (w_chunks w) pos")
  case (Some a)
  then show ?thesis using assms by (auto simp: ensure_chunk_def)
next
  case None
  then have c: "c = chunk_air pos (w_min_section_y w) (w_section_count w) (w_registry w)"
    and w': "w' = w\<lparr>w_chunks := om_insert pos c (w_chunks w)\<rparr>"
    using assms(2) by (auto simp: ensure_chunk_def Let_def)
  have r: "air_id (w_registry w) = 0" "is_empty_block (w_registry w) (air_id (w_registry w))"
    and ok: "om_ok (w_chunks w)"
    using assms(1) by (simp_all add: world_ok_def)
  have "ch_pos c = pos" by (simp add: c chunk_air_def)
  moreover have "chunk_ok (w_registry w) c" unfolding c by (rule chunk_ok_air [OF r(2)])
  ultimately have "world_ok w'" using assms(1) by (simp add: world_ok_def w')
  moreover have "block_state w' = block_state w"
    using None air_chunk_reads [OF r(1)] ok
    by (auto simp: fun_eq_iff block_state_def get_block_def w' c)
  ultimately show ?thesis using ok None by (simp add: w')
qed

lemma remove_lights_simps [simp]:
  "w_chunks (remove_lights ps w) = w_chunks w" "w_registry (remove_lights ps w) = w_registry w"
  "block_state (remove_lights ps w) = block_state w" "w_changes (remove_lights ps w) = w_changes w"
  by (simp_all add: remove_lights_def block_state_def get_block_def)

lemma remove_lights_light:
  assumes "om_ok (w_light w)"
  shows "om_ok (w_light (remove_lights ps w)) \<and>
    map_of (w_light (remove_lights ps w)) p = (if p \<in> set ps then None else map_of (w_light w) p)"
proof -
  have "om_ok (foldl (\<lambda>l p. om_remove p l) l ps) \<and>
      map_of (foldl (\<lambda>l p. om_remove p l) l ps) p = (if p \<in> set ps then None else map_of l p)"
    if "om_ok l" for l :: "(chunk_pos, chunk_light) ordered_map"
    using that by (induction ps arbitrary: l) auto
  then show ?thesis using assms by (simp add: remove_lights_def)
qed

text \<open>A write: the error, the no-op and the change.\<close>

lemma set_block_law:
  assumes w: "world_ok w" and s: "set_block w x y z b = (res, w')"
  shows "world_ok w' \<and> w_registry w' = w_registry w \<and>
    (case res of
       Inl e \<Rightarrow> e = InvalidAction \<and> block_state w' = block_state w \<and> w_light w' = w_light w \<and> w_changes w' = w_changes w
     | Inr None \<Rightarrow> block_state w' = block_state w \<and> w_light w' = w_light w \<and> w_changes w' = w_changes w \<and>
         get_block w x y z = b
     | Inr (Some change) \<Rightarrow>
         block_state w' = (block_state w)((x, y, z) := b) \<and> get_block w x y z \<noteq> b \<and>
         change = \<lparr>bc_pos = block_chunk x z, bc_x = x, bc_y = y, bc_z = z, bc_old = get_block w x y z, bc_new = b\<rparr> \<and>
         w_changes w' = w_changes w @ [change] \<and>
         (\<forall>p. map_of (w_light w') p =
            (if p \<in> set (chunks_a_block_can_light (block_chunk x z) x z) then None else map_of (w_light w) p))) \<and>
    (\<forall>p. (case map_of (w_chunks w') p of None \<Rightarrow> map_of (w_chunks w) p = None
          | Some c' \<Rightarrow> (case map_of (w_chunks w) p of None \<Rightarrow> p = block_chunk x z
              | Some c \<Rightarrow> ch_min_section_y c' = ch_min_section_y c \<and> length (ch_sections c') = length (ch_sections c))))"
proof -
  let ?pos = "block_chunk x z"
  obtain c v where e: "ensure_chunk w ?pos = (c, v)" by fastforce
  note law = ensure_chunk_law [OF w e]
  have ok_v: "world_ok v" and mv: "map_of (w_chunks v) = (map_of (w_chunks w))(?pos \<mapsto> c)"
    using law by blast+
  have v: "om_ok (w_chunks v)" "om_ok (w_light v)" using ok_v by (simp_all add: world_ok_def)
  have cv: "map_of (w_chunks v) ?pos = Some c" by (simp add: mv)
  have c: "chunk_ok (w_registry v) c" "ch_pos c = ?pos" using ok_v cv unfolding world_ok_def by blast+
  obtain r c' where r: "chunk_set_block c x y z b (w_registry v) = (r, c')" by fastforce
  note cl = chunk_set_block_law [OF c(1) r]
  define u where "u = v\<lparr>w_chunks := om_insert ?pos c' (w_chunks v)\<rparr>"
  have u: "world_ok u" using ok_v v(1) c cl unfolding world_ok_def u_def by simp
  have same: "block_state u = block_state v" if "c' = c"
    using cv v(1) that by (auto simp: fun_eq_iff block_state_def get_block_def u_def)
  have get: "get_block v x y z = chunk_get_block c x y z" using cv by (simp add: get_block_def)
  have getw: "get_block w x y z = get_block v x y z"
    using law by (metis (mono_tags, lifting) block_state_def old.prod.case)
  have chunks: "case map_of (w_chunks u) p of None \<Rightarrow> map_of (w_chunks w) p = None
      | Some c' \<Rightarrow> (case map_of (w_chunks w) p of None \<Rightarrow> p = ?pos
          | Some c \<Rightarrow> ch_min_section_y c' = ch_min_section_y c \<and> length (ch_sections c') = length (ch_sections c))" for p
  proof (cases "p = ?pos")
    case True
    then have "map_of (w_chunks u) p = Some c'" using v(1) by (simp add: u_def)
    moreover have "map_of (w_chunks w) p = Some a \<Longrightarrow> a = c" for a using law True mv by (metis map_upd_Some_unfold option.inject option.distinct(1))
    ultimately show ?thesis using cl True by (cases "map_of (w_chunks w) p") auto
  next
    case False
    then have "map_of (w_chunks u) p = map_of (w_chunks w) p" using mv v(1) by (simp add: u_def)
    then show ?thesis by (simp split: option.split)
  qed
  show ?thesis
  proof (cases r)
    case (Inl err)
    then have "res = Inl err" "w' = u" using s e r by (auto simp: set_block_def u_def)
    then show ?thesis using Inl cl u law same chunks by (auto simp: u_def)
  next
    case (Inr ch)
    show ?thesis
    proof (cases ch)
      case None
      then have "res = Inr None" "w' = u" using s e r Inr by (auto simp: set_block_def u_def)
      then show ?thesis using Inr None cl u law same chunks get getw by (auto simp: u_def)
    next
      case (Some on)
      obtain old new where on: "on = (old, new)" by (cases on)
      let ?change = "\<lparr>bc_pos = ?pos, bc_x = x, bc_y = y, bc_z = z, bc_old = old, bc_new = new\<rparr>"
      let ?u = "u\<lparr>w_changes := w_changes u @ [?change]\<rparr>"
      have res: "res = Inr (Some ?change)" and w': "w' = invalidate_light_around ?pos x z ?u"
        using s e r Inr Some on by (auto simp: set_block_def u_def Let_def)
      have st: "block_state ?u = (block_state v)((x, y, z) := b)"
      proof
        fix p :: coords
        obtain a d f where p: "p = (a, d, f)" by (cases p)
        show "block_state ?u p = ((block_state v)((x, y, z) := b)) p"
        proof (cases "block_chunk a f = ?pos")
          case True
          then have "a div 16 = x div 16" "f div 16 = z div 16" by (simp_all add: block_chunk_def)
          moreover have "block_state v p = chunk_get_block c a d f"
            using True cv by (simp add: p block_state_def get_block_def)
          moreover have "block_state ?u p = chunk_get_block c' a d f"
            using True v(1) by (simp add: p block_state_def get_block_def u_def)
          ultimately show ?thesis using cl Inr Some on by (auto simp: p)
        next
          case False
          then have other: "p \<noteq> (x, y, z)" by (auto simp: p)
          show ?thesis
            unfolding fun_upd_other [OF other]
            using False v(1) by (simp add: p block_state_def get_block_def u_def)
        qed
      qed
      have ok': "world_ok ?u" using u by (simp add: world_ok_def)
      have light: "om_ok (w_light w') \<and> map_of (w_light w') p =
          (if p \<in> set (chunks_a_block_can_light ?pos x z) then None else map_of (w_light w) p)" for p
        using remove_lights_light [of ?u "chunks_a_block_can_light ?pos x z" p] v(2) law
        by (simp add: w' invalidate_light_around_def u_def)
      have "world_ok w'" using ok' light by (simp add: world_ok_def w' invalidate_light_around_def)
      then show ?thesis
        using law cl Inr Some on st light chunks get getw
        by (simp add: res w' invalidate_light_around_def u_def)
    qed
  qed
qed

section \<open>The cursor reads the world\<close>

definition cursor_ok :: "world \<Rightarrow> block_cursor \<Rightarrow> bool" where
  "cursor_ok w cur \<longleftrightarrow> (\<forall>a b. cur_last cur = Some (a, b) \<longrightarrow> cur_chunk cur = map_of (w_chunks w) (ChunkPos a b))"

lemma cursor_get_world:
  "cursor_ok w new_cursor"
  "cursor_ok w cur \<Longrightarrow> fst (cursor_get w x y z cur) = get_block_loaded w x y z \<and> cursor_ok w (snd (cursor_get w x y z cur))"
  by (auto simp: cursor_ok_def new_cursor_def cursor_get_def get_block_loaded_def block_chunk_def Let_def)

end
