(* ===== verification/LightTheorems.thy ===== *)
theory LightTheorems
  imports LightLaws
begin

text \<open>
  The seeds, the frontier and the packed result of the light engine, and the theorem that
  puts them together.
\<close>

section \<open>Indices as digits\<close>

definition local_coords :: "light_region \<Rightarrow> nat \<Rightarrow> nat \<Rightarrow> nat \<Rightarrow> coords" where
  "local_coords g lx ly lz = (lr_x g + int lx, lr_min_y g + int ly, lr_z g + int lz)"

definition region_height :: "light_region \<Rightarrow> nat" where
  "region_height g = nat (lr_top g - lr_min_y g + 1)"

lemma in_region_local:
  "in_region g p \<longleftrightarrow> (\<exists>lx ly lz. p = local_coords g lx ly lz \<and>
     lx < nat (lr_width g) \<and> ly < region_height g \<and> lz < nat (lr_width g))"
proof
  assume i: "in_region g p"
  obtain x y z where [simp]: "p = (x, y, z)" by (cases p)
  show "\<exists>lx ly lz. p = local_coords g lx ly lz \<and>
     lx < nat (lr_width g) \<and> ly < region_height g \<and> lz < nat (lr_width g)"
    by (rule exI [of _ "nat (x - lr_x g)"], rule exI [of _ "nat (y - lr_min_y g)"], rule exI [of _ "nat (z - lr_z g)"])
      (use i in \<open>auto simp: in_region_iff local_coords_def region_height_def\<close>)
next
  assume "\<exists>lx ly lz. p = local_coords g lx ly lz \<and>
     lx < nat (lr_width g) \<and> ly < region_height g \<and> lz < nat (lr_width g)"
  then show "in_region g p" by (auto simp: in_region_iff local_coords_def region_height_def)
qed

lemma index_local:
  assumes "0 < lr_width g"
  shows "region_index g (local_coords g lx ly lz) =
    lx + lz * nat (lr_width g) + ly * nat (lr_width g) * nat (lr_width g)"
proof -
  have "int lx + int lz * lr_width g + int ly * lr_width g * lr_width g =
      int (lx + lz * nat (lr_width g) + ly * nat (lr_width g) * nat (lr_width g))"
    using assms by simp
  then show ?thesis by (simp only: region_index_def local_coords_def prod.case add_diff_cancel_left' nat_int)
qed

section \<open>The frontier\<close>

lemma set_scan_cells:
  assumes "0 < lr_width g"
  shows "set (scan_cells g) = {(region_index g p, p) |p. in_region g p}"
proof -
  have "(c, p) \<in> set (scan_cells g) \<longleftrightarrow>
      (\<exists>lx ly lz. lx < nat (lr_width g) \<and> ly < region_height g \<and> lz < nat (lr_width g) \<and>
         c = lx + lz * nat (lr_width g) + ly * nat (lr_width g) * nat (lr_width g) \<and>
         p = local_coords g lx ly lz)" for c p
  proof
    assume "(c, p) \<in> set (scan_cells g)"
    then obtain lx ly lz where "0 \<le> lx" "lx < lr_width g" "0 \<le> lz" "lz < lr_width g" "ly < region_height g"
        "c = nat (lx + lz * lr_width g) + ly * nat (lr_width g * lr_width g)"
        "p = (lr_x g + lx, lr_min_y g + int ly, lr_z g + lz)"
      by (auto simp: scan_cells_def region_height_def)
    then show "\<exists>lx ly lz. lx < nat (lr_width g) \<and> ly < region_height g \<and> lz < nat (lr_width g) \<and>
         c = lx + lz * nat (lr_width g) + ly * nat (lr_width g) * nat (lr_width g) \<and>
         p = local_coords g lx ly lz"
      by (intro exI [of _ "nat lx"] exI [of _ ly] exI [of _ "nat lz"])
        (auto simp: local_coords_def nat_add_distrib nat_mult_distrib mult.assoc)
  next
    assume "\<exists>lx ly lz. lx < nat (lr_width g) \<and> ly < region_height g \<and> lz < nat (lr_width g) \<and>
         c = lx + lz * nat (lr_width g) + ly * nat (lr_width g) * nat (lr_width g) \<and>
         p = local_coords g lx ly lz"
    then obtain lx ly lz where l: "lx < nat (lr_width g)" "ly < region_height g" "lz < nat (lr_width g)"
         "c = lx + lz * nat (lr_width g) + ly * nat (lr_width g) * nat (lr_width g)"
         "p = local_coords g lx ly lz"
      by blast
    have row: "nat (int lx + int lz * lr_width g) = lx + lz * nat (lr_width g)"
      "nat (lr_width g * lr_width g) = nat (lr_width g) * nat (lr_width g)"
      using assms by (simp_all add: nat_add_distrib nat_mult_distrib)
    have m: "int lx \<in> set [0 .. lr_width g - 1]" "int lz \<in> set [0 .. lr_width g - 1]"
        "ly \<in> set [0 ..< nat (lr_top g - lr_min_y g + 1)]"
      using l by (auto simp: region_height_def)
    have "(c, p) = (nat (int lx + int lz * lr_width g) + ly * nat (lr_width g * lr_width g),
        (lr_x g + int lx, lr_min_y g + int ly, lr_z g + int lz))"
      using l(4,5) by (simp add: row local_coords_def mult.assoc)
    then show "(c, p) \<in> set (scan_cells g)"
      unfolding scan_cells_def by (intro in_concat_map [OF m(2)] in_concat_map [OF m(1)] in_map [OF m(3)])
  qed
  note member = this
  have "(c, p) \<in> set (scan_cells g) \<longleftrightarrow> in_region g p \<and> c = region_index g p" for c p
  proof
    assume "(c, p) \<in> set (scan_cells g)"
    then obtain lx ly lz where "lx < nat (lr_width g)" "ly < region_height g" "lz < nat (lr_width g)"
        "c = region_index g p" "p = local_coords g lx ly lz"
      unfolding member index_local [OF assms, symmetric] by blast
    then show "in_region g p \<and> c = region_index g p" unfolding in_region_local by blast
  next
    assume "in_region g p \<and> c = region_index g p"
    then show "(c, p) \<in> set (scan_cells g)"
      unfolding member index_local [OF assms, symmetric] in_region_local by blast
  qed
  then show ?thesis by auto
qed

lemma darker_neighbourI:
  assumes "0 < lr_width g" "layer_ok g light" "in_region g p" "d \<in> set spread_dirs" "in_region g (neighbour p d)"
    and dark: "light ! region_index g (neighbour p d) < light ! region_index g p"
  shows "darker_neighbour light (region_index g p) (nat (lr_width g)) (nat (lr_width g * lr_width g))"
proof -
  define w where "w = nat (lr_width g)"
  have plane: "nat (lr_width g * lr_width g) = w * w" using assms(1) by (simp add: w_def nat_mult_distrib)
  obtain lx ly lz where p: "p = local_coords g lx ly lz" and l: "lx < w" "ly < region_height g" "lz < w"
    using assms(3) by (auto simp: in_region_local w_def)
  have idx: "region_index g (local_coords g a b c) = a + c * w + b * w * w" for a b c
    using index_local [OF assms(1)] by (simp add: w_def)
  then have cell: "region_index g p = lx + lz * w + ly * w * w" by (simp add: p)
  have in_plane: "lx + lz * w < w * w"
    using l digits_bound(2) [of "int lx" "int w" "int lz" "int w"] by (simp flip: of_nat_mult of_nat_add)
  have m: "region_index g p mod (w * w) = lx + lz * w"
    using in_plane by (simp add: cell mult.assoc)
  have rc: "(lx + lz * w) div w = lz" "(lx + lz * w) mod w = lx" using l by auto
  have less: "region_index g (neighbour p d) < length light" by (rule layer_nth_less [OF assms(2,5)])
  consider "d = (1, 0, 0)" | "d = (-1, 0, 0)" | "d = (0, 1, 0)" | "d = (0, -1, 0)" | "d = (0, 0, 1)" | "d = (0, 0, -1)"
    using assms(4) by (auto simp: spread_dirs_def)
  then show ?thesis
  proof cases
    case 1
    then have n: "neighbour p d = local_coords g (lx + 1) ly lz" by (simp add: p neighbour_def local_coords_def)
    then have "lx + 1 < w" using assms(5) by (auto simp: in_region_iff local_coords_def w_def)
    then show ?thesis
      using dark 
      unfolding darker_neighbour_def Let_def plane w_def [symmetric] m rc n by (simp add: cell idx)
  next
    case 2
    then have "1 \<le> lx" using assms(5) by (auto simp: p neighbour_def local_coords_def in_region_iff)
    then obtain k where k: "lx = Suc k" by (cases lx) auto
    then have n: "neighbour p d = local_coords g k ly lz" using 2 by (simp add: p neighbour_def local_coords_def)
    show ?thesis
      using dark 
      unfolding darker_neighbour_def Let_def plane w_def [symmetric] m rc n by (simp add: cell idx k)
  next
    case 3
    then have n: "neighbour p d = local_coords g lx (ly + 1) lz" by (simp add: p neighbour_def local_coords_def)
    then show ?thesis
      using dark less
      unfolding darker_neighbour_def Let_def plane w_def [symmetric] m rc n by (simp add: cell idx algebra_simps)
  next
    case 4
    then have "1 \<le> ly" using assms(5) by (auto simp: p neighbour_def local_coords_def in_region_iff)
    then obtain k where k: "ly = Suc k" by (cases ly) auto
    then have n: "neighbour p d = local_coords g lx k lz" using 4 by (simp add: p neighbour_def local_coords_def)
    have "region_index g p = region_index g (neighbour p d) + w * w"
      unfolding n cell idx k by (simp add: algebra_simps)
    then show ?thesis using dark unfolding darker_neighbour_def Let_def plane by simp
  next
    case 5
    then have n: "neighbour p d = local_coords g lx ly (lz + 1)" by (simp add: p neighbour_def local_coords_def)
    then have less: "lz + 1 < w" using assms(5) by (auto simp: in_region_iff local_coords_def w_def)
    have "region_index g (neighbour p d) = region_index g p + w"
      unfolding n cell idx by (simp add: algebra_simps)
    with less dark show ?thesis
      unfolding darker_neighbour_def Let_def plane w_def [symmetric] m rc by simp
  next
    case 6
    then have "1 \<le> lz" using assms(5) by (auto simp: p neighbour_def local_coords_def in_region_iff)
    then obtain k where k: "lz = Suc k" by (cases lz) auto
    then have n: "neighbour p d = local_coords g lx ly k" using 6 by (simp add: p neighbour_def local_coords_def)
    have "region_index g p = region_index g (neighbour p d) + w"
      unfolding n cell idx k by (simp add: algebra_simps)
    with dark \<open>1 \<le> lz\<close> show ?thesis
      unfolding darker_neighbour_def Let_def plane w_def [symmetric] m rc by simp
  qed
qed

lemma reach_le: "reach t b is_sky p d l \<le> l"
  by (auto simp: reach_def light_candidate_def)

lemma frontier_inv:
  assumes "0 < lr_width g" "layer_ok g light"
  shows "spread_inv t b g is_sky (\<lambda>p. light ! region_index g p) (layer_frontier g light) light"
proof -
  have queued: "q \<in> set (layer_frontier g light) \<longleftrightarrow> in_region g q \<and> 0 < light ! region_index g q \<and>
      darker_neighbour light (region_index g q) (nat (lr_width g)) (nat (lr_width g * lr_width g))" for q
    by (auto simp: layer_frontier_def set_scan_cells [OF assms(1)])
  have closed: "q \<in> set (layer_frontier g light) \<or>
      reach t b is_sky q d (light ! region_index g q) \<le> light ! region_index g (neighbour q d)"
    if q: "in_region g q" "d \<in> set spread_dirs" "in_region g (neighbour q d)" for q d
  proof (cases "light ! region_index g (neighbour q d) < light ! region_index g q")
    case True
    then show ?thesis using darker_neighbourI [OF assms q True] queued q(1) by simp
  next
    case False
    then show ?thesis using reach_le [of t b is_sky q d "light ! region_index g q"] by linarith
  qed
  show ?thesis
    unfolding spread_inv_def using assms(2) queued closed
      shines.seed [of g _ t b is_sky "\<lambda>p. light ! region_index g p"] by simp
qed

section \<open>The seeds\<close>

text \<open>Full sky where nothing up to the top of the region stops it; the emission of each block.\<close>

definition sky_seeds ::
  "light_table \<Rightarrow> (int \<Rightarrow> int \<Rightarrow> int \<Rightarrow> int option) \<Rightarrow> light_region \<Rightarrow> coords \<Rightarrow> nat"
where
  "sky_seeds t b g = (\<lambda>(x, y, z).
     if list_all (\<lambda>y'. propagates_skylight_down t (state_at b (x, y', z))) [y .. lr_top g]
     then MAX_LIGHT else 0)"

definition block_seeds :: "light_table \<Rightarrow> (int \<Rightarrow> int \<Rightarrow> int \<Rightarrow> int option) \<Rightarrow> coords \<Rightarrow> nat" where
  "block_seeds t b p = emission t (state_at b p)"

definition column_ok :: "light_region \<Rightarrow> int \<Rightarrow> int \<Rightarrow> bool" where
  "column_ok g x z \<longleftrightarrow> lr_x g \<le> x \<and> x < lr_x g + lr_width g \<and> lr_z g \<le> z \<and> z < lr_z g + lr_width g"

lemma in_region_column:
  "in_region g (x, y, z) \<longleftrightarrow> column_ok g x z \<and> lr_min_y g \<le> y \<and> y \<le> lr_top g"
  by (auto simp: in_region_iff column_ok_def)

lemma seed_sky_law:
  assumes "layer_ok g sky" "column_ok g x z" "lr_min_y g + int n \<le> lr_top g + 1"
  shows "layer_ok g (seed_sky t b g x z n sky) \<and>
    (\<forall>u v w. in_region g (u, v, w) \<longrightarrow> seed_sky t b g x z n sky ! region_index g (u, v, w) =
      (if u = x \<and> w = z \<and> v < lr_min_y g + int n \<and>
          (\<forall>y'. v \<le> y' \<and> y' < lr_min_y g + int n \<longrightarrow> propagates_skylight_down t (state_at b (x, y', z)))
       then MAX_LIGHT else sky ! region_index g (u, v, w)))"
  using assms
proof (induction n arbitrary: sky)
  case (Suc n)
  let ?y = "lr_min_y g + int n"
  let ?sky = "sky[region_index g (x, ?y, z) := MAX_LIGHT]"
  have ok: "layer_ok g ?sky" using Suc.prems(1) by (simp add: layer_ok_def)
  have y: "in_region g (x, ?y, z)" using Suc.prems by (simp add: in_region_column)
  have n: "lr_min_y g + int n \<le> lr_top g + 1" using Suc.prems(3) by simp
  show ?case
  proof (cases "propagates_skylight_down t (state_at b (x, ?y, z))")
    case True
    have split: "(\<forall>y'. v \<le> y' \<and> y' < lr_min_y g + int (Suc n) \<longrightarrow> propagates_skylight_down t (state_at b (x, y', z)))
        \<longleftrightarrow> (\<forall>y'. v \<le> y' \<and> y' < ?y \<longrightarrow> propagates_skylight_down t (state_at b (x, y', z)))" for v
      using True by (auto simp: less_le)
    have s: "seed_sky t b g x z (Suc n) sky = seed_sky t b g x z n ?sky" using True by (simp add: Let_def)
    have "?sky ! region_index g (u, v, w) =
        (if (u, v, w) = (x, ?y, z) then MAX_LIGHT else sky ! region_index g (u, v, w))"
      if "in_region g (u, v, w)" for u v w
      by (rule layer_update [OF Suc.prems(1) y that])
    then show ?thesis
      using Suc.IH [OF ok Suc.prems(2) n] unfolding s split by auto
  next
    case False
    then show ?thesis using Suc.prems by (auto simp: Let_def)
  qed
qed (auto simp: in_region_column)

lemma seed_block_law:
  assumes "layer_ok g block" "column_ok g x z"
  shows "layer_ok g (seed_block t b g x z block) \<and>
    (\<forall>p. in_region g p \<longrightarrow> seed_block t b g x z block ! region_index g p =
      (if fst p = x \<and> snd (snd p) = z then max (block ! region_index g p) (block_seeds t b p)
       else block ! region_index g p))"
proof -
  define one where "one = (\<lambda>block y. let e = emission t (state_at b (x, y, z)); cell = region_index g (x, y, z)
      in if 0 < e \<and> block ! cell < e then block[cell := e] else block)"
  have loop: "layer_ok g (foldl one block ys) \<and>
    (\<forall>p. in_region g p \<longrightarrow> foldl one block ys ! region_index g p =
      (if fst p = x \<and> snd (snd p) = z \<and> fst (snd p) \<in> set ys
       then max (block ! region_index g p) (block_seeds t b p) else block ! region_index g p))"
    if "layer_ok g block" "\<forall>y \<in> set ys. in_region g (x, y, z)" for ys block
    using that
  proof (induction ys arbitrary: block)
    case (Cons y ys)
    have y: "in_region g (x, y, z)" using Cons.prems(2) by simp
    have ok: "layer_ok g (one block y)" using Cons.prems(1) by (simp add: one_def Let_def layer_ok_def)
    have step: "one block y ! region_index g p =
        (if p = (x, y, z) then max (block ! region_index g p) (block_seeds t b p) else block ! region_index g p)"
      if "in_region g p" for p
      using layer_update [OF Cons.prems(1) y that]
      by (auto simp: one_def Let_def block_seeds_def max_def)
    have rest: "\<forall>y \<in> set ys. in_region g (x, y, z)" using Cons.prems(2) by simp
    show ?case
      using Cons.IH [OF ok rest] step by (auto simp: prod_eq_iff)
  qed simp
  have "seed_block t b g x z block = foldl one block [lr_min_y g .. lr_top g]"
    by (simp add: seed_block_def one_def)
  moreover have "\<forall>y \<in> set [lr_min_y g .. lr_top g]. in_region g (x, y, z)"
    using assms(2) by (simp add: in_region_column)
  moreover have "fst (snd p) \<in> set [lr_min_y g .. lr_top g]" if "in_region g p" for p
    using that by (cases p) (simp add: in_region_column)
  ultimately show ?thesis using loop [OF assms(1), of "[lr_min_y g .. lr_top g]"] by auto
qed

lemma set_region_columns: "(x, z) \<in> set (region_columns g) \<longleftrightarrow> column_ok g x z"
proof
  assume "column_ok g x z"
  then have "x - lr_x g \<in> set [0 .. lr_width g - 1]" "z - lr_z g \<in> set [0 .. lr_width g - 1]"
    by (auto simp: column_ok_def)
  then show "(x, z) \<in> set (region_columns g)"
    unfolding region_columns_def by (intro in_concat_map [of "x - lr_x g"] in_map [of "z - lr_z g"]) simp_all
qed (auto simp: region_columns_def column_ok_def)

lemma seed_light_law:
  assumes "region_ok g" "layer_ok g zeros" "\<forall>p. in_region g p \<longrightarrow> zeros ! region_index g p = 0"
    and "seed_light t b g (zeros, zeros) = (sky, block)"
  shows "layer_ok g sky \<and> layer_ok g block \<and>
    (\<forall>p. in_region g p \<longrightarrow> sky ! region_index g p = sky_seeds t b g p \<and>
       block ! region_index g p = block_seeds t b p)"
proof -
  define one where "one = (\<lambda>(sky, block) (x, z).
      (seed_sky t b g x z (nat (lr_top g - lr_min_y g + 1)) sky, seed_block t b g x z block))"
  let ?v = "\<lambda>l p. l ! region_index g p"
  have loop: "layer_ok g (fst (foldl one layers cols)) \<and> layer_ok g (snd (foldl one layers cols)) \<and>
    (\<forall>p. in_region g p \<longrightarrow>
       ?v (fst (foldl one layers cols)) p =
         (if (fst p, snd (snd p)) \<in> done' \<union> set cols then sky_seeds t b g p else 0) \<and>
       ?v (snd (foldl one layers cols)) p =
         (if (fst p, snd (snd p)) \<in> done' \<union> set cols then block_seeds t b p else 0))"
    if "layer_ok g (fst layers)" "layer_ok g (snd layers)" "\<forall>c \<in> set cols. column_ok g (fst c) (snd c)"
      "\<forall>p. in_region g p \<longrightarrow>
         ?v (fst layers) p = (if (fst p, snd (snd p)) \<in> done' then sky_seeds t b g p else 0) \<and>
         ?v (snd layers) p = (if (fst p, snd (snd p)) \<in> done' then block_seeds t b p else 0)"
    for layers cols done'
    using that
  proof (induction cols arbitrary: layers done')
    case (Cons c cols)
    obtain x z where c: "c = (x, z)" by (cases c)
    obtain s k where l: "layers = (s, k)" by (cases layers)
    have col: "column_ok g x z" using Cons.prems(3) by (simp add: c)
    have h: "lr_min_y g + int (nat (lr_top g - lr_min_y g + 1)) = lr_top g + 1"
      using assms(1) by (simp add: region_ok_def)
    note sky = seed_sky_law [of g s x z "nat (lr_top g - lr_min_y g + 1)" t b, unfolded h]
    note blk = seed_block_law [of g k x z t b]
    have sky_v: "?v (fst (one layers c)) p =
        (if (fst p, snd (snd p)) \<in> insert c done' then sky_seeds t b g p else 0)" if p: "in_region g p" for p
    proof -
      obtain u v w where uvw: "p = (u, v, w)" by (cases p)
      have "v < lr_top g + 1" using p by (simp add: uvw in_region_column)
      then show ?thesis
        using sky Cons.prems(1,4) col p
        by (auto simp: one_def c l uvw sky_seeds_def list_all_iff MAX_LIGHT_def split: if_splits)
    qed
    have blk_v: "?v (snd (one layers c)) p =
        (if (fst p, snd (snd p)) \<in> insert c done' then block_seeds t b p else 0)" if p: "in_region g p" for p
      using blk Cons.prems(2,4) col p by (auto simp: one_def c l)
    have "layer_ok g (fst (one layers c))" "layer_ok g (snd (one layers c))"
      using sky blk Cons.prems(1,2) col by (simp_all add: one_def c l)
    from Cons.IH [OF this, of "insert c done'"] Cons.prems(3) sky_v blk_v show ?case by simp
  qed simp
  have "seed_light t b g (zeros, zeros) = foldl one (zeros, zeros) (region_columns g)"
    by (simp add: seed_light_def one_def)
  moreover have "(fst p, snd (snd p)) \<in> set (region_columns g)" if "in_region g p" for p
    using that by (cases p) (simp add: set_region_columns in_region_column)
  moreover have "\<forall>c \<in> set (region_columns g). column_ok g (fst c) (snd c)"
    using set_region_columns by (metis prod.collapse)
  ultimately show ?thesis
    using loop [of "(zeros, zeros)" "region_columns g" "{}"] assms(2-4) by simp (metis fst_conv snd_conv)
qed

section \<open>The packed arrays\<close>

lemma byte_bits: "n < LENGTH(8) \<Longrightarrow> n = 0 \<or> n = 1 \<or> n = 2 \<or> n = 3 \<or> n = 4 \<or> n = 5 \<or> n = 6 \<or> n = (7::nat)"
  by auto

lemma byte_eqI:
  fixes a b :: u8
  assumes "bit a 0 = bit b 0" "bit a 1 = bit b 1" "bit a 2 = bit b 2" "bit a 3 = bit b 3"
    "bit a 4 = bit b 4" "bit a 5 = bit b 5" "bit a 6 = bit b 6" "bit a 7 = bit b 7"
  shows "a = b"
proof (rule bit_word_eqI)
  fix n assume "n < LENGTH(8)"
  from byte_bits [OF this] show "bit a n = bit b n" using assms by auto
qed

lemma nibble_low:
  fixes byte level :: u8
  shows "and (or (and byte 0xF0) (and level 0x0F)) 0x0F = and level 0x0F"
    and "drop_bit 4 (or (and byte 0xF0) (and level 0x0F)) = drop_bit 4 byte"
  by (rule byte_eqI; auto simp: bit_simps dest: bit_imp_le_length)+

lemma nibble_high:
  fixes byte level :: u8
  shows "and (or (and byte 0x0F) (push_bit 4 (and level 0x0F))) 0x0F = and byte 0x0F"
    and "drop_bit 4 (or (and byte 0x0F) (push_bit 4 (and level 0x0F))) = and level 0x0F"
  by (rule byte_eqI; auto simp: bit_simps dest: bit_imp_le_length)+

text \<open>A section is a region of its own.\<close>

definition section_region :: light_region where
  "section_region = \<lparr>lr_width = 16, lr_x = 0, lr_z = 0, lr_min_y = 0, lr_top = 15\<rparr>"

lemma light_index_region: "light_index x y z = region_index section_region (x, y, z)"
  by (simp add: light_index_def region_index_def section_region_def LIGHT_SECTION_WIDTH_def algebra_simps)

abbreviation in_section :: "coords \<Rightarrow> bool" where "in_section \<equiv> in_region section_region"

lemma in_section_iff: "in_section (x, y, z) \<longleftrightarrow> 0 \<le> x \<and> x < 16 \<and> 0 \<le> y \<and> y < 16 \<and> 0 \<le> z \<and> z < 16"
  by (auto simp: in_region_iff section_region_def)

lemma light_index_less: "in_section p \<Longrightarrow> region_index section_region p < 4096"
  using region_index_less [of section_region p] by (simp add: region_size_def section_region_def)

lemma light_get_set:
  assumes "length a = LIGHT_ARRAY_BYTES" "in_section (x, y, z)" "in_section (u, v, w)"
  shows "light_get (light_set a x y z level) u v w =
    (if (u, v, w) = (x, y, z) then and level 0x0F else light_get a u v w)"
proof -
  define i j where "i = light_index x y z" and "j = light_index u v w"
  have i: "i div 2 < length a"
    using light_index_less [OF assms(2)] assms(1) by (simp add: i_def light_index_region LIGHT_ARRAY_BYTES_def)
  have same: "i = j \<longleftrightarrow> (u, v, w) = (x, y, z)"
    using region_index_inj [OF assms(2,3)] by (auto simp: i_def j_def light_index_region)
  have "i = j \<longleftrightarrow> i div 2 = j div 2 \<and> i mod 2 = j mod 2" by (metis div_mult_mod_eq)
  then show ?thesis
    unfolding light_get_def light_set_def Let_def i_def [symmetric] j_def [symmetric] same [symmetric]
    using i nibble_low nibble_high by (auto simp: nth_list_update parity_cases)
qed

lemma section_cells:
  "set (concat (map (\<lambda>x. concat (map (\<lambda>z. map (\<lambda>y. (x, y, z)) [0 .. LIGHT_SECTION_WIDTH - 1])
     [0 .. LIGHT_SECTION_WIDTH - 1])) [0 .. LIGHT_SECTION_WIDTH - 1])) = {p. in_section p}"
proof -
  have "(x, y, z) \<in> set (concat (map (\<lambda>x. concat (map (\<lambda>z. map (\<lambda>y. (x, y, z)) [0 .. LIGHT_SECTION_WIDTH - 1])
      [0 .. LIGHT_SECTION_WIDTH - 1])) [0 .. LIGHT_SECTION_WIDTH - 1]))" if "in_section (x, y, z)" for x y z
    by (rule in_concat_map [of x], simp_all only: LIGHT_SECTION_WIDTH_def, insert that,
        simp add: in_section_iff, rule in_concat_map [of z], auto simp: in_section_iff)
  then show ?thesis by (auto simp: in_section_iff LIGHT_SECTION_WIDTH_def)
qed

lemma copy_section_get:
  assumes "in_section (x, y, z)"
  shows "light_get (copy_section g chunk_x chunk_z light s) x y z =
    and (of_nat (light ! region_index g
      (chunk_x * 16 + x, lr_min_y g + int s * 16 + y, chunk_z * 16 + z))) 0x0F"
proof -
  define f :: "coords \<Rightarrow> u8" where "f = (\<lambda>(x, y, z). of_nat (light ! region_index g
      (chunk_x * 16 + x, lr_min_y g + int s * 16 + y, chunk_z * 16 + z)))"
  define one where "one = (\<lambda>a (x, y, z). light_set a x y z (f (x, y, z)))"
  have loop: "length (foldl one a ps) = LIGHT_ARRAY_BYTES \<and>
      (\<forall>x y z. in_section (x, y, z) \<longrightarrow> light_get (foldl one a ps) x y z =
         (if (x, y, z) \<in> done' \<union> set ps then and (f (x, y, z)) 0x0F else light_get a x y z))"
    if "length a = LIGHT_ARRAY_BYTES" "\<forall>p \<in> set ps. in_section p"
      "\<forall>x y z. in_section (x, y, z) \<and> (x, y, z) \<in> done' \<longrightarrow> light_get a x y z = and (f (x, y, z)) 0x0F"
    for a ps done'
    using that
  proof (induction ps arbitrary: a done')
    case (Cons p ps)
    obtain u v w where p: "p = (u, v, w)" by (cases p)
    have s: "in_section (u, v, w)" using Cons.prems(2) by (simp add: p)
    have len: "length (one a p) = LIGHT_ARRAY_BYTES"
      using Cons.prems(1) by (simp add: one_def p light_set_def Let_def)
    have get: "light_get (one a p) x y z =
        (if (x, y, z) = p then and (f (x, y, z)) 0x0F else light_get a x y z)" if "in_section (x, y, z)" for x y z
      using light_get_set [OF Cons.prems(1) s that] by (auto simp: one_def p)
    have "\<forall>x y z. in_section (x, y, z) \<and> (x, y, z) \<in> insert p done' \<longrightarrow>
        light_get (one a p) x y z = and (f (x, y, z)) 0x0F"
      using Cons.prems(3) get by auto
    from Cons.IH [OF len _ this] Cons.prems(2) get show ?case by auto
  qed auto
  have "copy_section g chunk_x chunk_z light s = foldl one light_default
      (concat (map (\<lambda>x. concat (map (\<lambda>z. map (\<lambda>y. (x, y, z)) [0 .. LIGHT_SECTION_WIDTH - 1])
          [0 .. LIGHT_SECTION_WIDTH - 1])) [0 .. LIGHT_SECTION_WIDTH - 1]))"
    by (simp add: copy_section_def one_def f_def LIGHT_SECTION_WIDTH_def)
  then show ?thesis
    using loop [of light_default _ "{}"] assms section_cells
    by (simp add: light_default_def f_def)
qed

section \<open>The whole computation\<close>

lemma nibble_mod: "and (of_nat n :: u8) 0x0F = of_nat (n mod 16)"
proof -
  have "and (of_nat n :: u8) 0x0F = take_bit 4 (of_nat n)"
    by (simp add: take_bit_eq_mask mask_eq_exp_minus_1)
  also have "\<dots> = of_nat (n mod 16)"
    by (simp add: word_unat_eq_iff take_bit_eq_mod unat_mod unat_of_nat mod_mod_cancel)
  finally show ?thesis .
qed

lemma chunk_region_ok: "region_ok (chunk_region cx cz min_y n)"
  by (simp add: region_ok_def chunk_region_def LIGHT_SECTION_WIDTH_def)

lemma layer_brightest:
  assumes "region_ok g" "layer_ok g light" "\<forall>p. in_region g p \<longrightarrow> light ! region_index g p = seeds p"
    and "is_sky \<Longrightarrow> \<forall>p. seeds p \<le> MAX_LIGHT"
  shows "\<exists>light'. spread_light t b g is_sky (layer_frontier g light) light = Some light' \<and>
    (\<forall>p. in_region g p \<longrightarrow> brightest t b g is_sky seeds p (light' ! region_index g p))"
proof -
  have seeds_eq: "shines t b g is_sky (\<lambda>p. light ! region_index g p) p l \<longleftrightarrow> shines t b g is_sky seeds p l" for p l
  proof
    assume "shines t b g is_sky (\<lambda>p. light ! region_index g p) p l"
    then show "shines t b g is_sky seeds p l"
    proof (induction rule: shines.induct)
      case (seed p)
      then show ?case using shines.seed [OF seed, of t b is_sky seeds] assms(3) by simp
    qed (rule shines.step)
  next
    assume "shines t b g is_sky seeds p l"
    then show "shines t b g is_sky (\<lambda>p. light ! region_index g p) p l"
    proof (induction rule: shines.induct)
      case (seed p)
      then show ?case
        using shines.seed [OF seed, of t b is_sky "\<lambda>p. light ! region_index g p"] assms(3) by simp
    qed (rule shines.step)
  qed
  have "0 < lr_width g" using assms(1) by (simp add: region_ok_def)
  from spread_light_inv [OF frontier_inv [OF this assms(2)], of t b is_sky]
  obtain light' where l: "spread_light t b g is_sky (layer_frontier g light) light = Some light'"
      "spread_inv t b g is_sky (\<lambda>p. light ! region_index g p) [] light'" by blast
  have "brightest t b g is_sky (\<lambda>p. light ! region_index g p) p (light' ! region_index g p)"
    if "in_region g p" for p
    by (rule spread_inv_brightest [OF l(2) _ that]) (use assms(3,4) in auto)
  then show ?thesis using l(1) unfolding brightest_def seeds_eq by blast
qed

definition chunk_lit ::
  "light_table \<Rightarrow> (int \<Rightarrow> int \<Rightarrow> int \<Rightarrow> int option) \<Rightarrow> int \<Rightarrow> int \<Rightarrow> int \<Rightarrow> nat \<Rightarrow> chunk_light \<Rightarrow> bool"
where
  "chunk_lit t b cx cz min_y sections light \<longleftrightarrow>
     (\<forall>s x y z. s < sections \<and> 0 \<le> x \<and> x < 16 \<and> 0 \<le> y \<and> y < 16 \<and> 0 \<le> z \<and> z < 16 \<longrightarrow>
       (\<exists>sky blk. let g = chunk_region cx cz min_y sections; p = (cx * 16 + x, min_y + int s * 16 + y, cz * 16 + z) in
          brightest t b g True (sky_seeds t b g) p sky \<and> sky \<le> 15 \<and>
          brightest t b g False (block_seeds t b) p blk \<and>
          light_get (cl_sky light ! s) x y z = of_nat sky \<and>
          light_get (cl_block light ! s) x y z = of_nat (blk mod 16)))"

lemma chunk_light_total:
  assumes "0 < sections" "sections < 2 ^ 18"
  shows "\<exists>light. compute_chunk_light t cx cz min_y sections b = Some (Inr light) \<and>
    chunk_lit t b cx cz min_y sections light"
proof -
  define g where "g = chunk_region cx cz min_y sections"
  define zeros :: "nat list" where
    "zeros = replicate (nat (lr_width g * lr_width g * (int sections * LIGHT_SECTION_WIDTH))) 0"
  have g: "region_ok g" by (simp add: g_def chunk_region_ok)
  have zok: "layer_ok g zeros"
    by (simp add: zeros_def layer_ok_def region_size_def g_def chunk_region_def LIGHT_SECTION_WIDTH_def)
  then have z0: "\<forall>p. in_region g p \<longrightarrow> zeros ! region_index g p = 0"
    using layer_nth_less [OF zok] by (simp add: zeros_def)
  obtain sky block where seeded: "seed_light t b g (zeros, zeros) = (sky, block)" by fastforce
  have ok: "layer_ok g sky" "layer_ok g block"
    and v: "\<forall>p. in_region g p \<longrightarrow> sky ! region_index g p = sky_seeds t b g p"
      "\<forall>p. in_region g p \<longrightarrow> block ! region_index g p = block_seeds t b p"
    using seed_light_law [OF g zok z0 seeded] by blast+
  have sky15: "sky_seeds t b g p \<le> MAX_LIGHT" for p by (simp add: sky_seeds_def split: prod.split)
  obtain sky' where sky': "spread_light t b g True (layer_frontier g sky) sky = Some sky'"
      "\<forall>p. in_region g p \<longrightarrow> brightest t b g True (sky_seeds t b g) p (sky' ! region_index g p)"
    using layer_brightest [OF g ok(1) v(1), of True t b] sky15 by blast
  obtain block' where block': "spread_light t b g False (layer_frontier g block) block = Some block'"
      "\<forall>p. in_region g p \<longrightarrow> brightest t b g False (block_seeds t b) p (block' ! region_index g p)"
    using layer_brightest [OF g ok(2) v(2), of False t b] by blast
  have small: "int sections * 16 < 2 ^ 22" using assms(2) by simp
  then have c: "compute_chunk_light t cx cz min_y sections b =
      Some (Inr (copy_interior g cx cz sky' block' sections))"
    using assms(1) seeded sky'(1) block'(1)
    by (simp add: compute_chunk_light_def g_def zeros_def queue_frontier_def LIGHT_SECTION_WIDTH_def Let_def)
  have min_y: "lr_min_y g = min_y" by (simp add: g_def chunk_region_def)
  have "chunk_lit t b cx cz min_y sections (copy_interior g cx cz sky' block' sections)"
    unfolding chunk_lit_def g_def [symmetric] Let_def
  proof (intro allI impI)
    fix s :: nat and x y z :: int
    assume a: "s < sections \<and> 0 \<le> x \<and> x < 16 \<and> 0 \<le> y \<and> y < 16 \<and> 0 \<le> z \<and> z < 16"
    let ?p = "(cx * 16 + x, min_y + int s * 16 + y, cz * 16 + z)"
    let ?s = "sky' ! region_index g ?p" and ?b = "block' ! region_index g ?p"
    have p: "in_region g ?p"
      using a by (auto simp: in_region_iff g_def chunk_region_def LIGHT_SECTION_WIDTH_def)
    have sec: "in_section (x, y, z)" using a by (simp add: in_section_iff)
    have b1: "brightest t b g True (sky_seeds t b g) ?p ?s" using sky'(2) p by blast
    then have s15: "?s \<le> 15"
      using shines_sky_bounded [of t b g "sky_seeds t b g" ?p ?s] sky15 by (simp add: brightest_def MAX_LIGHT_def)
    have "light_get (cl_sky (copy_interior g cx cz sky' block' sections) ! s) x y z = of_nat ?s"
      using a s15 by (simp add: copy_interior_def copy_section_get [OF sec] nibble_mod min_y)
    moreover have "light_get (cl_block (copy_interior g cx cz sky' block' sections) ! s) x y z = of_nat (?b mod 16)"
      using a by (simp add: copy_interior_def copy_section_get [OF sec] nibble_mod min_y)
    ultimately show "\<exists>sky blk. brightest t b g True (sky_seeds t b g) ?p sky \<and> sky \<le> 15 \<and>
        brightest t b g False (block_seeds t b) ?p blk \<and>
        light_get (cl_sky (copy_interior g cx cz sky' block' sections) ! s) x y z = of_nat sky \<and>
        light_get (cl_block (copy_interior g cx cz sky' block' sections) ! s) x y z = of_nat (blk mod 16)"
      using b1 s15 block'(2) p by blast
  qed
  then show ?thesis using c by blast
qed

text \<open>
  C21. Lighting a chunk returns, and every cell of the packed result is the brightest level,
  modulo 16, that any path of neighbouring cells of the chunk and its margin carries there:
  from the open sky for the sky layer, falling undiminished straight down through blocks
  that let it, and from the emitting blocks for the block layer, each other step losing the
  dampening of the block entered and at least one. Sky levels never exceed 15.
\<close>

theorem chunk_light_is_brightest:
  assumes "0 < sections" "sections < 2 ^ 18" "s < sections"
    and "0 \<le> x \<and> x < 16" "0 \<le> y \<and> y < 16" "0 \<le> z \<and> z < 16"
  shows "\<exists>light sky blk. compute_chunk_light t cx cz min_y sections b = Some (Inr light) \<and>
    (let g = chunk_region cx cz min_y sections; p = (cx * 16 + x, min_y + int s * 16 + y, cz * 16 + z) in
       brightest t b g True (sky_seeds t b g) p sky \<and> sky \<le> 15 \<and>
       brightest t b g False (block_seeds t b) p blk \<and>
       light_get (cl_sky light ! s) x y z = of_nat sky \<and>
       light_get (cl_block light ! s) x y z = of_nat (blk mod 16))"
  using chunk_light_total [OF assms(1,2), of t cx cz min_y b] assms(3-6) unfolding chunk_lit_def by metis

text \<open>Under an open sky every cell of an empty section is fully lit.\<close>

theorem chunk_light_is_brightest_witness:
  "\<exists>light. compute_chunk_light \<lparr>lt_emission = [], lt_dampening = [], lt_propagates = []\<rparr> 0 0 0 1 (\<lambda>_ _ _. None) =
       Some (Inr light) \<and> light_get (cl_sky light ! 0) 3 5 7 = 15"
proof -
  let ?t = "\<lparr>lt_emission = [], lt_dampening = [], lt_propagates = []\<rparr>" and ?b = "\<lambda>_ _ _. None"
  let ?g = "chunk_region 0 0 0 1"
  obtain light sky where l: "compute_chunk_light ?t 0 0 0 1 ?b = Some (Inr light)"
      "sky \<le> 15"
      "light_get (cl_sky light ! 0) 3 5 7 = of_nat sky"
      "brightest ?t ?b ?g True (sky_seeds ?t ?b ?g) (3, 5, 7) sky"
    using chunk_light_is_brightest [of 1 0 3 5 7 ?t 0 0 0 ?b] by (auto simp: Let_def)
  have "sky_seeds ?t ?b ?g (3, 5, 7) = 15"
    by (simp add: sky_seeds_def list_all_iff propagates_skylight_down_def column_at_def UNKNOWN_def MAX_LIGHT_def)
  moreover have "in_region ?g (3, 5, 7)" by (simp add: in_region_iff chunk_region_def LIGHT_SECTION_WIDTH_def)
  ultimately have "shines ?t ?b ?g True (sky_seeds ?t ?b ?g) (3, 5, 7) 15" by (metis shines.seed)
  then have "sky = 15" using l(2,4) unfolding brightest_def by (metis le_antisym)
  then show ?thesis using l(1,3) by auto
qed

end
