(* ===== verification/WorldLight.thy ===== *)
theory WorldLight
  imports ChunkLaws LightTheorems
begin

text \<open>
  The cache of computed light in \<open>crates/world/src/world.rs\<close>: every light the cache holds
  is what the engine would compute from the blocks as they are now, whatever sequence of
  writes, loads, unloads and computations led there. The engine reads the chunk and one
  block of margin, and the writes drop exactly the lights whose margin holds the block.
\<close>

declare split_paired_All [simp del] split_paired_Ex [simp del]

section \<open>What the engine reads\<close>

definition same_states ::
  "light_region \<Rightarrow> (int \<Rightarrow> int \<Rightarrow> int \<Rightarrow> int option) \<Rightarrow> (int \<Rightarrow> int \<Rightarrow> int \<Rightarrow> int option) \<Rightarrow> bool"
where
  "same_states g b b' \<longleftrightarrow> (\<forall>x y z.
     lr_x g \<le> x \<and> x < lr_x g + lr_width g \<and> lr_z g \<le> z \<and> z < lr_z g + lr_width g \<longrightarrow>
     state_at b (x, y, z) = state_at b' (x, y, z))"

lemma same_statesD: "same_states g b b' \<Longrightarrow> in_region g p \<Longrightarrow> state_at b p = state_at b' p"
  by (cases p) (auto simp: same_states_def in_region_iff)

lemma seed_sky_cong:
  "same_states g b b' \<Longrightarrow> lr_x g \<le> x \<Longrightarrow> x < lr_x g + lr_width g \<Longrightarrow> lr_z g \<le> z \<Longrightarrow> z < lr_z g + lr_width g \<Longrightarrow>
     seed_sky t b g x z n sky = seed_sky t b' g x z n sky"
  by (induction n arbitrary: sky) (simp_all add: same_states_def Let_def)

lemma seed_block_cong:
  assumes "same_states g b b'" "lr_x g \<le> x" "x < lr_x g + lr_width g" "lr_z g \<le> z" "z < lr_z g + lr_width g"
  shows "seed_block t b g x z block = seed_block t b' g x z block"
proof -
  have "state_at b (x, y, z) = state_at b' (x, y, z)" for y using assms by (simp add: same_states_def)
  then show ?thesis by (simp add: seed_block_def)
qed

lemma seed_light_cong:
  assumes "same_states g b b'"
  shows "seed_light t b g layers = seed_light t b' g layers"
  unfolding seed_light_def
proof (rule foldl_cong [OF refl refl], goal_cases)
  case (1 layers c)
  obtain x z where c: "c = (x, z)" by (cases c)
  have "lr_x g \<le> x" "x < lr_x g + lr_width g" "lr_z g \<le> z" "z < lr_z g + lr_width g"
    using 1 by (auto simp: c region_columns_def)
  then show ?case
    using seed_sky_cong [OF assms] seed_block_cong [OF assms] by (cases layers) (simp add: c)
qed

lemma spread_from_cong:
  "same_states g b b' \<Longrightarrow>
     spread_from t b g is_sky p level dirs light queue = spread_from t b' g is_sky p level dirs light queue"
proof (induction t b g is_sky p level dirs light queue rule: spread_from.induct)
  case (2 t b g is_sky x y z level dx dy dz dirs light queue)
  show ?case
  proof (cases "in_region g (x + dx, y + dy, z + dz)")
    case True
    from same_statesD [OF 2(4) True]
    have eq: "state_at b' (x + dx, y + dy, z + dz) = state_at b (x + dx, y + dy, z + dz)" by simp
    show ?thesis
      using True 2(2) [OF refl _ refl refl _ _ 2(4)] 2(3) [OF refl _ refl refl _ _ 2(4)]
      by (simp add: Let_def eq)
  next
    case False
    then show ?thesis using 2(1) [OF refl _ 2(4)] by (simp add: Let_def)
  qed
qed simp

lemma spread_light_cong:
  "same_states g b b' \<Longrightarrow> spread_light t b g is_sky queue light = spread_light t b' g is_sky queue light"
proof (induction t b g is_sky queue light rule: spread_light.induct)
  case (2 t b g is_sky p queue light)
  note eq = spread_from_cong [OF 2(3), of t is_sky p "light ! region_index g p" spread_dirs light queue]
  show ?case
    using 2(1) [OF _ refl _ 2(3)] 2(2) [OF _ refl _ _ refl 2(3)]
    by (simp add: Let_def eq split: option.split prod.split)
qed simp

lemma compute_chunk_light_cong:
  assumes "same_states (chunk_region cx cz min_y n) b b'"
  shows "compute_chunk_light t cx cz min_y n b = compute_chunk_light t cx cz min_y n b'"
  unfolding compute_chunk_light_def Let_def
  by (simp only: seed_light_cong [OF assms] spread_light_cong [OF assms])

section \<open>The cache\<close>

definition light_fresh :: "light_table \<Rightarrow> world \<Rightarrow> bool" where
  "light_fresh t w \<longleftrightarrow> (\<forall>pos l. map_of (w_light w) pos = Some l \<longrightarrow>
     (\<exists>c. map_of (w_chunks w) pos = Some c \<and>
        compute_chunk_light t (cp_x pos) (cp_z pos) (chunk_min_y c) (length (ch_sections c)) (get_block_loaded w) =
          Some (Inr l)))"

text \<open>A write reaches the margin of exactly the chunks it invalidates.\<close>

lemma margin_chunks:
  assumes "16 * cx - 1 \<le> x" "x \<le> 16 * cx + 16" "16 * cz - 1 \<le> z" "z \<le> 16 * cz + 16"
  shows "ChunkPos cx cz \<in> set (chunks_a_block_can_light (block_chunk x z) x z)"
proof -
  have near: "\<exists>d \<in> {-1, 0, 1}. c = u div 16 + d \<and>
      (if d = -1 then u mod 16 = 0 else if d = 0 then True else u mod 16 = 15)"
    if range: "16 * c - 1 \<le> u" "u \<le> 16 * c + 16" for c u :: int
  proof -
    consider "u = 16 * c - 1" | "16 * c \<le> u \<and> u < 16 * c + 16" | "u = 16 * c + 16"
      using range by fastforce
    then show ?thesis
    proof cases
      case 1
      then have "u div 16 = c - 1" "u mod 16 = 15" by presburger+
      then show ?thesis by (intro bexI [of _ 1]) simp_all
    next
      case 2
      then have "u div 16 = c" by presburger
      then show ?thesis by (intro bexI [of _ 0]) simp_all
    next
      case 3
      then have "u div 16 = c + 1" "u mod 16 = 0" by presburger+
      then show ?thesis by (intro bexI [of _ "-1"]) simp_all
    qed
  qed
  obtain dx dz where d: "dx \<in> {-1, 0, 1}" "dz \<in> {-1, 0, 1}" "cx = x div 16 + dx" "cz = z div 16 + dz"
      "if dx = -1 then x mod 16 = 0 else if dx = 0 then True else x mod 16 = 15"
      "if dz = -1 then z mod 16 = 0 else if dz = 0 then True else z mod 16 = 15"
    using near [OF assms(1,2)] near [OF assms(3,4)] by blast
  then have dx: "dx \<in> set [-1, 0, 1]" and dz: "dz \<in> set [-1, 0, 1]" by auto
  show ?thesis
    unfolding chunks_a_block_can_light_def Let_def SECTION_WIDTH_def
    by (rule in_concat_map [OF dx], rule in_concat_map [OF dz]) (simp add: d block_chunk_def)
qed

text \<open>The lights that survive a change of the world see the same states.\<close>

lemma fresh_step:
  assumes "light_fresh t w"
    and "\<And>pos l c. map_of (w_light w') pos = Some l \<Longrightarrow> map_of (w_chunks w) pos = Some c \<Longrightarrow>
        map_of (w_light w) pos = Some l \<and>
        (\<exists>c'. map_of (w_chunks w') pos = Some c' \<and> ch_min_section_y c' = ch_min_section_y c \<and>
           length (ch_sections c') = length (ch_sections c)) \<and>
        (\<forall>n y. same_states (chunk_region (cp_x pos) (cp_z pos) y n) (get_block_loaded w) (get_block_loaded w'))"
    and "\<And>pos. map_of (w_light w') pos \<noteq> None \<Longrightarrow> map_of (w_light w) pos \<noteq> None"
  shows "light_fresh t w'"
  unfolding light_fresh_def
proof (intro allI impI)
  fix pos l assume l: "map_of (w_light w') pos = Some l"
  then obtain l0 where "map_of (w_light w) pos = Some l0" using assms(3) [of pos] by auto
  then obtain c where c: "map_of (w_chunks w) pos = Some c" using assms(1) unfolding light_fresh_def by blast
  from assms(2) [OF l c] obtain c' where c': "map_of (w_chunks w') pos = Some c'"
      "ch_min_section_y c' = ch_min_section_y c" "length (ch_sections c') = length (ch_sections c)"
    and old: "map_of (w_light w) pos = Some l"
    and same: "\<And>n y. same_states (chunk_region (cp_x pos) (cp_z pos) y n) (get_block_loaded w) (get_block_loaded w')"
    by blast
  have "compute_chunk_light t (cp_x pos) (cp_z pos) (chunk_min_y c) (length (ch_sections c)) (get_block_loaded w) =
      Some (Inr l)"
    using assms(1) old c unfolding light_fresh_def by (metis option.inject)
  with compute_chunk_light_cong [OF same] c' show "\<exists>c'. map_of (w_chunks w') pos = Some c' \<and>
      compute_chunk_light t (cp_x pos) (cp_z pos) (chunk_min_y c') (length (ch_sections c')) (get_block_loaded w') =
        Some (Inr l)"
    by (auto simp: chunk_min_y_def)
qed

lemma same_states_world:
  "(\<And>x y z. 16 * cp_x pos - 1 \<le> x \<Longrightarrow> x \<le> 16 * cp_x pos + 16 \<Longrightarrow> 16 * cp_z pos - 1 \<le> z \<Longrightarrow>
      z \<le> 16 * cp_z pos + 16 \<Longrightarrow> block_state w (x, y, z) = block_state w' (x, y, z)) \<Longrightarrow>
     same_states (chunk_region (cp_x pos) (cp_z pos) my n) (get_block_loaded w) (get_block_loaded w')"
  by (simp add: same_states_def chunk_region_def state_at_world LIGHT_SECTION_WIDTH_def)

lemma fresh_set_block:
  assumes "world_ok w" "light_fresh t w" "set_block w x y z b = (res, w')"
  shows "light_fresh t w'"
proof (rule fresh_step [OF assms(2)])
  note law = set_block_law [OF assms(1,3)]
  let ?hit = "chunks_a_block_can_light (block_chunk x z) x z"
  have light: "map_of (w_light w') p = map_of (w_light w) p \<or>
      map_of (w_light w') p = None" for p
    using law by (auto split: sum.splits option.splits)
  then show "map_of (w_light w') pos \<noteq> None \<Longrightarrow> map_of (w_light w) pos \<noteq> None" for pos by metis
  fix pos l c assume l: "map_of (w_light w') pos = Some l" and c: "map_of (w_chunks w) pos = Some c"
  have state: "block_state w' = block_state w \<or>
      (block_state w' = (block_state w)((x, y, z) := b) \<and> pos \<notin> set ?hit)"
    using law l by (auto split: sum.splits option.splits if_splits)
  have "same_states (chunk_region (cp_x pos) (cp_z pos) my n) (get_block_loaded w) (get_block_loaded w')" for my n
  proof (rule same_states_world)
    fix u v s assume "16 * cp_x pos - 1 \<le> u" "u \<le> 16 * cp_x pos + 16" "16 * cp_z pos - 1 \<le> s" "s \<le> 16 * cp_z pos + 16"
    with margin_chunks [of "cp_x pos" u "cp_z pos" s] have "(u, s) = (x, z) \<Longrightarrow> pos \<in> set ?hit" by simp
    with state show "block_state w (u, v, s) = block_state w' (u, v, s)" by auto
  qed
  moreover have "\<exists>c'. map_of (w_chunks w') pos = Some c' \<and> ch_min_section_y c' = ch_min_section_y c \<and>
      length (ch_sections c') = length (ch_sections c)"
    using conjunct2 [OF conjunct2 [OF conjunct2 [OF law]], rule_format, of pos] c by (auto split: option.splits)
  ultimately show "map_of (w_light w) pos = Some l \<and>
        (\<exists>c'. map_of (w_chunks w') pos = Some c' \<and> ch_min_section_y c' = ch_min_section_y c \<and>
           length (ch_sections c') = length (ch_sections c)) \<and>
        (\<forall>n y. same_states (chunk_region (cp_x pos) (cp_z pos) y n) (get_block_loaded w) (get_block_loaded w'))"
    using light [of pos] l by auto
qed

lemma square_member: "\<bar>cx - cp_x pos\<bar> \<le> 1 \<Longrightarrow> \<bar>cz - cp_z pos\<bar> \<le> 1 \<Longrightarrow> ChunkPos cx cz \<in> set (light_square pos)"
proof -
  assume "\<bar>cx - cp_x pos\<bar> \<le> 1" "\<bar>cz - cp_z pos\<bar> \<le> 1"
  then have d: "cx - cp_x pos \<in> set [-1, 0, 1]" "cz - cp_z pos \<in> set [-1, 0, 1]" by auto
  show ?thesis
    unfolding light_square_def by (rule in_concat_map [OF d(1)], rule in_map [OF d(2)]) simp
qed

lemma near_div: "16 * c - 1 \<le> u \<Longrightarrow> u \<le> 16 * c + 16 \<Longrightarrow> \<bar>c - u div 16\<bar> \<le> (1 :: int)"
  by presburger

text \<open>Dropping the lights of the square around a chunk makes any change of that chunk harmless.\<close>

lemma fresh_chunk_change:
  assumes ok: "world_ok w" and fresh: "light_fresh t w"
    and light: "\<And>p. map_of (w_light w') p = (if p \<in> set (light_square pos) then None else map_of (w_light w) p)"
    and chunks: "\<And>p. p \<noteq> pos \<Longrightarrow> map_of (w_chunks w') p = map_of (w_chunks w) p"
  shows "light_fresh t w'"
proof (rule fresh_step [OF fresh])
  show "map_of (w_light w') p \<noteq> None \<Longrightarrow> map_of (w_light w) p \<noteq> None" for p
    using light [of p] by (auto split: if_splits)
  fix p l c assume l: "map_of (w_light w') p = Some l" and c: "map_of (w_chunks w) p = Some c"
  then have out: "p \<notin> set (light_square pos)" and old: "map_of (w_light w) p = Some l"
    using light [of p] by (auto split: if_splits)
  then have "p \<noteq> pos" using square_member [of "cp_x pos" pos "cp_z pos"] by auto
  have far: "\<not> (\<bar>cp_x p - cp_x pos\<bar> \<le> 1 \<and> \<bar>cp_z p - cp_z pos\<bar> \<le> 1)"
    using out square_member [of "cp_x p" pos "cp_z p"] by auto
  have "same_states (chunk_region (cp_x p) (cp_z p) my n) (get_block_loaded w) (get_block_loaded w')" for my n
  proof (rule same_states_world)
    fix x y z assume r: "16 * cp_x p - 1 \<le> x" "x \<le> 16 * cp_x p + 16" "16 * cp_z p - 1 \<le> z" "z \<le> 16 * cp_z p + 16"
    have "\<bar>cp_x p - x div 16\<bar> \<le> 1" "\<bar>cp_z p - z div 16\<bar> \<le> 1" using r near_div by simp_all
    then have "block_chunk x z \<noteq> pos" using far by (auto simp: block_chunk_def)
    then show "block_state w (x, y, z) = block_state w' (x, y, z)"
      using chunks by (simp add: block_state_def get_block_def)
  qed
  then show "map_of (w_light w) p = Some l \<and>
      (\<exists>c'. map_of (w_chunks w') p = Some c' \<and> ch_min_section_y c' = ch_min_section_y c \<and>
         length (ch_sections c') = length (ch_sections c)) \<and>
      (\<forall>n y. same_states (chunk_region (cp_x p) (cp_z p) y n) (get_block_loaded w) (get_block_loaded w'))"
    using old c chunks [OF \<open>p \<noteq> pos\<close>] by simp
qed

section \<open>Runs of a world\<close>

text \<open>
  The operations of the running server: a chunk read from disk or generated arrives as in
  \<open>load_or_create_chunk\<close>, which drops the lights around it.
\<close>

definition chunk_arrives :: "world \<Rightarrow> chunk \<Rightarrow> world" where
  "chunk_arrives w c = invalidate_light_3x3 (ch_pos c) (load_chunk w c)"

inductive world_step :: "light_table \<Rightarrow> world \<Rightarrow> world \<Rightarrow> bool" for t where
  edit: "set_block w x y z b = (res, w') \<Longrightarrow> world_step t w w'"
| arrive: "\<not> is_loaded w (ch_pos c) \<Longrightarrow> chunk_ok (w_registry w) c \<Longrightarrow> world_step t w (chunk_arrives w c)"
| unload: "unload_chunk w pos = (c, w') \<Longrightarrow> world_step t w w'"
| light: "compute_light w pos t = Some (res', w') \<Longrightarrow> world_step t w w'"
| forget: "world_step t w (clear_light w)"
| clean: "world_step t w (clear_dirty w)"
| report: "take_block_changes w = (cs, w') \<Longrightarrow> world_step t w w'"
| spawn: "world_step t w (set_spawn w x y z)"

inductive_cases world_stepE: "world_step t w w'"

lemma light_square_law:
  "om_ok (w_light w) \<Longrightarrow> om_ok (w_light (invalidate_light_3x3 pos w)) \<and>
     map_of (w_light (invalidate_light_3x3 pos w)) p =
       (if p \<in> set (light_square pos) then None else map_of (w_light w) p)"
  unfolding invalidate_light_3x3_def by (rule remove_lights_light)

lemma map_clean: "map_of (map (\<lambda>(p, c). (p, chunk_mark_clean c)) m) p = map_option chunk_mark_clean (map_of m p)"
  by (induction m) auto

lemma mark_clean_simps [simp]:
  "ch_pos (chunk_mark_clean c) = ch_pos c" "chunk_ok r (chunk_mark_clean c) = chunk_ok r c"
  "ch_min_section_y (chunk_mark_clean c) = ch_min_section_y c" "ch_sections (chunk_mark_clean c) = ch_sections c"
  "chunk_get_block (chunk_mark_clean c) = chunk_get_block c"
  by (auto simp: chunk_mark_clean_def chunk_ok_def fun_eq_iff chunk_get_block_def section_index_for_def Let_def)

lemma world_step_ok:
  assumes "world_step t w w'" "world_ok w"
  shows "world_ok w'"
  using assms
proof (cases rule: world_step.cases)
  case (edit x y z b res)
  then show ?thesis using set_block_law assms(2) by blast
next
  case (arrive c)
  then show ?thesis
    using assms(2) light_square_law [of "load_chunk w c" "ch_pos c"]
    by (auto simp: world_ok_def chunk_arrives_def load_chunk_def invalidate_light_3x3_def)
next
  case (unload pos c)
  then show ?thesis
    using assms(2) light_square_law [of w pos]
    by (auto simp: world_ok_def unload_chunk_def invalidate_light_3x3_def Let_def split: if_splits)
next
  case (light pos res)
  then show ?thesis
    using assms(2) by (auto simp: world_ok_def compute_light_def split: if_splits option.splits sum.splits)
next
  case clean
  have "om_ok (map (\<lambda>(p, c). (p, chunk_mark_clean c)) m) = om_ok m" for m :: "(chunk_pos, chunk) ordered_map"
    by (simp add: om_ok_def split_beta comp_def)
  then show ?thesis using clean assms(2) by (auto simp: world_ok_def clear_dirty_def map_clean)
qed (auto simp: world_ok_def clear_light_def take_block_changes_def set_spawn_def)

lemma fresh_same_blocks:
  assumes "light_fresh t w" "w_light w' = w_light w" "block_state w' = block_state w"
    and "\<And>p c. map_of (w_chunks w) p = Some c \<Longrightarrow> \<exists>c'. map_of (w_chunks w') p = Some c' \<and>
       ch_min_section_y c' = ch_min_section_y c \<and> length (ch_sections c') = length (ch_sections c)"
  shows "light_fresh t w'"
  by (rule fresh_step [OF assms(1)]) (use assms in \<open>auto simp: same_states_def state_at_world\<close>)

lemma fresh_same_chunks:
  assumes "light_fresh t w" "w_chunks w' = w_chunks w" "w_light w' = w_light w \<or> w_light w' = []"
  shows "light_fresh t w'"
proof -
  have "get_block_loaded w' = get_block_loaded w" by (simp add: fun_eq_iff get_block_loaded_def assms(2))
  then show ?thesis using assms by (auto simp: light_fresh_def)
qed

lemma fresh_compute:
  assumes "world_ok w" "light_fresh t w" "compute_light w pos t = Some (res, w')"
  shows "light_fresh t w'"
proof (cases "w' = w")
  case False
  then obtain c l where c: "map_of (w_chunks w) pos = Some c"
      "compute_chunk_light t (cp_x pos) (cp_z pos) (chunk_min_y c) (length (ch_sections c)) (get_block_loaded w) =
         Some (Inr l)"
    and w': "w' = w\<lparr>w_light := om_insert pos l (w_light w)\<rparr>"
    using assms(3) by (auto simp: compute_light_def split: if_splits option.splits sum.splits)
  have same: "get_block_loaded w' = get_block_loaded w" by (simp add: fun_eq_iff get_block_loaded_def w')
  have ok: "om_ok (w_light w)" using assms(1) by (simp add: world_ok_def)
  show ?thesis
    unfolding light_fresh_def same
  proof (intro allI impI)
    fix p l' assume l': "map_of (w_light w') p = Some l'"
    show "\<exists>c. map_of (w_chunks w') p = Some c \<and> compute_chunk_light t (cp_x p) (cp_z p) (chunk_min_y c)
        (length (ch_sections c)) (get_block_loaded w) = Some (Inr l')"
    proof (cases "p = pos")
      case True
      then show ?thesis using l' c ok by (simp add: w')
    next
      case False
      then have "map_of (w_light w) p = Some l'" using l' ok by (simp add: w')
      then show ?thesis using assms(2) unfolding light_fresh_def by (simp add: w')
    qed
  qed
qed (use assms in simp)

lemma world_step_fresh:
  assumes "world_step t w w'" "world_ok w" "light_fresh t w"
  shows "light_fresh t w'"
  using assms(1)
proof (cases rule: world_step.cases)
  case (edit x y z b res)
  then show ?thesis using fresh_set_block assms(2,3) by blast
next
  case (arrive c)
  have ok: "om_ok (w_light (load_chunk w c))" "om_ok (w_chunks w)"
    using assms(2) by (simp_all add: world_ok_def load_chunk_def)
  show ?thesis
    by (rule fresh_chunk_change [OF assms(2,3), of _ "ch_pos c"])
      (use ok light_square_law [OF ok(1), of "ch_pos c"] arrive in
        \<open>auto simp: chunk_arrives_def load_chunk_def invalidate_light_3x3_def\<close>)
next
  case (unload pos c)
  have ok: "om_ok (w_light w)" using assms(2) by (simp add: world_ok_def)
  show ?thesis
    by (rule fresh_chunk_change [OF assms(2,3), of _ pos])
      (use light_square_law [OF ok, of pos] unload in \<open>auto simp: unload_chunk_def invalidate_light_3x3_def Let_def\<close>)
next
  case (light pos res)
  then show ?thesis using fresh_compute assms(2,3) by blast
next
  case clean
  show ?thesis
    by (rule fresh_same_blocks [OF assms(3)])
      (auto simp: clean clear_dirty_def block_state_def get_block_def map_clean fun_eq_iff split: option.split)
qed (auto intro!: fresh_same_chunks [OF assms(3)] simp: clear_light_def take_block_changes_def set_spawn_def)

text \<open>
  C22. After any run of block writes, chunk arrivals and unloads, light computations and the
  other operations of a world (not of writes that bypass them through \<open>chunk_mut\<close>, as the
  growth of a tree in \<open>growth.rs\<close> does), every cached light is exactly what the engine computes from
  the blocks as they are now; every section still holds its 4096 blocks and the right count
  of non-empty ones.
\<close>

theorem light_cache_fresh:
  assumes "(world_step t)\<^sup>*\<^sup>* (world_with_height d r my n) w" "air_id r = 0" "is_empty_block r 0"
  shows "(\<forall>pos l. cached_light w pos = Some l \<longrightarrow>
      (\<exists>c. map_of (w_chunks w) pos = Some c \<and>
        compute_chunk_light t (cp_x pos) (cp_z pos) (chunk_min_y c) (length (ch_sections c)) (get_block_loaded w) =
          Some (Inr l))) \<and>
    (\<forall>pos c. map_of (w_chunks w) pos = Some c \<longrightarrow> ch_pos c = pos \<and> chunk_ok (w_registry w) c)"
proof -
  have "world_ok w \<and> light_fresh t w"
    using assms(1)
  proof (induction rule: rtranclp_induct)
    case base
    then show ?case using assms(2,3) by (simp add: world_ok_def light_fresh_def world_with_height_def)
  next
    case (step w w')
    then show ?case using world_step_ok world_step_fresh by blast
  qed
  then show ?thesis by (auto simp: world_ok_def light_fresh_def cached_light_def)
qed

text \<open>An empty chunk arrives in an empty world and is lit.\<close>

definition air_registry :: block_registry where
  "air_registry = \<lparr>blocks_by_name = [], blocks_by_id = [], air_id = 0, empty_ids = [0], mineable = [],
     refused = [], shapes = []\<rparr>"

definition air_light :: light_table where
  "air_light = \<lparr>lt_emission = [0], lt_dampening = [0], lt_propagates = [True]\<rparr>"

theorem light_cache_fresh_witness:
  "\<exists>w l c. (world_step air_light)\<^sup>*\<^sup>* (world_with_height Overworld air_registry 0 1) w \<and>
    cached_light w (ChunkPos 0 0) = Some l \<and> map_of (w_chunks w) (ChunkPos 0 0) = Some c \<and>
    compute_chunk_light air_light 0 0 (chunk_min_y c) (length (ch_sections c)) (get_block_loaded w) = Some (Inr l)"
proof -
  let ?r = air_registry and ?t = air_light
  define w0 where "w0 = world_with_height Overworld ?r 0 1"
  define c where "c = chunk_air (ChunkPos 0 0) 0 1 ?r"
  define w1 where "w1 = chunk_arrives w0 c"
  have r: "air_id ?r = 0" "is_empty_block ?r 0" by (simp_all add: air_registry_def is_empty_block_def)
  have "chunk_ok ?r c" unfolding c_def by (rule chunk_ok_air) (simp add: r)
  then have s1: "world_step ?t w0 w1"
    unfolding w1_def by (intro arrive) (simp_all add: w0_def world_with_height_def is_loaded_def)
  have cs: "ch_pos c = ChunkPos 0 0" "chunk_min_y c = 0" "length (ch_sections c) = 1"
    by (simp_all add: c_def chunk_air_def chunk_min_y_def)
  have w1: "w_chunks w1 = [(ChunkPos 0 0, c)]"
    by (simp add: w1_def chunk_arrives_def load_chunk_def invalidate_light_3x3_def w0_def world_with_height_def cs)
  have l1: "map_of (w_light w1) (ChunkPos 0 0) = None"
    using light_square_law [of "load_chunk w0 c" "ChunkPos 0 0" "ChunkPos 0 0"]
    by (simp add: w1_def chunk_arrives_def cs load_chunk_def w0_def world_with_height_def)
  obtain l where l: "compute_chunk_light ?t 0 0 0 1 (get_block_loaded w1) = Some (Inr l)"
    using chunk_light_total [of 1 ?t 0 0 0 "get_block_loaded w1"] by auto
  define w2 where "w2 = w1\<lparr>w_light := om_insert (ChunkPos 0 0) l (w_light w1)\<rparr>"
  have "compute_light w1 (ChunkPos 0 0) ?t = Some (Inr (), w2)"
    using l1 l by (simp add: compute_light_def w1 cs w2_def)
  then have s2: "world_step ?t w1 w2" by (rule light)
  have run: "(world_step ?t)\<^sup>*\<^sup>* w0 w2" using s1 s2 by (meson converse_rtranclp_into_rtranclp rtranclp.rtrancl_refl)
  have "om_ok (w_light w1)"
    using world_step_ok [OF s1] r by (simp add: w0_def world_with_height_def world_ok_def)
  then have "cached_light w2 (ChunkPos 0 0) = Some l" by (simp add: w2_def cached_light_def)
  with light_cache_fresh [OF run [unfolded w0_def] r] run [unfolded w0_def] show ?thesis by fastforce
qed

end
