(* ===== verification/TickQueue.thy ===== *)
theory TickQueue
  imports OrderedMap "HOL-Library.Product_Lexorder"
begin

text \<open>
  The scheduled-tick structure that the fluid queue and the redstone queue share: a
  \<open>BTreeMap\<close> from due ticks to \<open>BTreeSet\<close>s of positions. Ordered sets are strictly
  ascending lists. The entries of the structure, flattened, are one ascending list of
  pairs of a due tick and a position; the contract of both queues is stated over it.
\<close>

section \<open>Ordered sets\<close>

type_synonym 'a ordered_set = "'a list"

fun os_insert :: "'a::linorder \<Rightarrow> 'a ordered_set \<Rightarrow> 'a ordered_set" where
  "os_insert x [] = [x]"
| "os_insert x (a # xs) = (if x < a then x # a # xs else if x = a then a # xs else a # os_insert x xs)"

abbreviation os_ok :: "'a::linorder ordered_set \<Rightarrow> bool" where
  "os_ok \<equiv> sorted_wrt (<)"

lemma set_os_insert [simp]: "set (os_insert x xs) = insert x (set xs)"
  by (induction xs) auto

lemma os_ok_insert [simp]: "os_ok xs \<Longrightarrow> os_ok (os_insert x xs)"
  by (induction xs) auto

lemma length_os_insert: "os_ok xs \<Longrightarrow> length (os_insert x xs) = (if x \<in> set xs then length xs else Suc (length xs))"
  by (induction xs) auto

lemma os_ok_unique: "os_ok xs \<Longrightarrow> os_ok ys \<Longrightarrow> set xs = set ys \<Longrightarrow> xs = ys"
  by (simp add: strict_sorted_iff sorted_distinct_set_unique)

lemma os_insert_below: "\<forall>y \<in> set xs. x < y \<Longrightarrow> os_insert x xs = x # xs"
  by (cases xs) auto

lemma os_insert_append: "\<forall>y \<in> set xs. y < x \<Longrightarrow> os_insert x (xs @ ys) = xs @ os_insert x ys"
  by (induction xs) auto

lemma os_insert_above: "\<forall>y \<in> set ys. x < y \<Longrightarrow> os_insert x (xs @ ys) = os_insert x xs @ ys"
  by (induction xs) (auto simp: os_insert_below)

text \<open>\<open>extend\<close>: inserting the elements of a list one by one.\<close>

definition os_extend :: "'a::linorder ordered_set \<Rightarrow> 'a list \<Rightarrow> 'a ordered_set" where
  "os_extend s xs = foldl (\<lambda>s x. os_insert x s) s xs"

lemma os_extend_sorted: "os_ok (s @ xs) \<Longrightarrow> os_extend s xs = s @ xs"
proof (induction xs arbitrary: s)
  case (Cons x xs)
  then have "os_insert x s = s @ [x]"
    using os_insert_append [of s x "[]"] by (simp add: sorted_wrt_append)
  with Cons show ?case by (simp add: os_extend_def)
qed (simp add: os_extend_def)

section \<open>The buckets\<close>

type_synonym 'p buckets = "(nat, 'p ordered_set) ordered_map"

definition bucket_at :: "nat \<Rightarrow> 'p buckets \<Rightarrow> 'p ordered_set" where
  "bucket_at due m = (case map_of m due of None \<Rightarrow> [] | Some ps \<Rightarrow> ps)"

text \<open>\<open>entry(due).or_default().insert(pos)\<close> and \<open>.extend(positions)\<close>.\<close>

definition bucket_insert :: "nat \<Rightarrow> 'p::linorder \<Rightarrow> 'p buckets \<Rightarrow> 'p buckets" where
  "bucket_insert due p m = om_insert due (os_insert p (bucket_at due m)) m"

definition bucket_extend :: "nat \<Rightarrow> 'p::linorder list \<Rightarrow> 'p buckets \<Rightarrow> 'p buckets" where
  "bucket_extend due ps m = om_insert due (os_extend (bucket_at due m) ps) m"

definition entry_count :: "'p buckets \<Rightarrow> nat" where
  "entry_count m = sum_list (map (\<lambda>e. length (snd e)) m)"

definition due_ticks :: "nat \<Rightarrow> 'p buckets \<Rightarrow> nat list" where
  "due_ticks now m = filter (\<lambda>due. due \<le> now) (map fst m)"

definition pending_after :: "nat \<Rightarrow> 'p buckets \<Rightarrow> bool" where
  "pending_after now m \<longleftrightarrow> filter (\<lambda>due. now < due) (map fst m) \<noteq> []"

text \<open>
  One bucket of a drain: positions move to the drained list until it holds \<open>cap\<close> of
  them; the others remain.
\<close>

fun take_bucket :: "nat \<Rightarrow> 'p list \<Rightarrow> 'p list \<Rightarrow> 'p list \<times> 'p list" where
  "take_bucket cap taken [] = (taken, [])"
| "take_bucket cap taken (p # ps) =
     (if cap \<le> length taken
      then (let (taken, rest) = take_bucket cap taken ps in (taken, p # rest))
      else take_bucket cap (taken @ [p]) ps)"

text \<open>
  The loop over the due ticks, which stops at the first bucket that keeps something: the
  drained positions, whether the cap stopped the drain, how many positions of that
  bucket remain, and the buckets.
\<close>

fun drain_buckets ::
  "nat \<Rightarrow> nat list \<Rightarrow> 'p::linorder list \<Rightarrow> 'p buckets \<Rightarrow> 'p list \<times> bool \<times> nat \<times> 'p buckets"
where
  "drain_buckets cap [] taken m = (taken, False, 0, m)"
| "drain_buckets cap (due # dues) taken m =
     (let pending = bucket_at due m;
          m = om_remove due m;
          (taken, rest) = take_bucket cap taken pending
      in if rest \<noteq> [] then (taken, True, length rest, bucket_extend due rest m)
         else drain_buckets cap dues taken m)"

section \<open>The flattened queue\<close>

definition flat :: "'p buckets \<Rightarrow> (nat \<times> 'p) list" where
  "flat m = concat (map (\<lambda>(due, ps). map (Pair due) ps) m)"

definition buckets_ok :: "'p::linorder buckets \<Rightarrow> bool" where
  "buckets_ok m \<longleftrightarrow> om_ok m \<and> (\<forall>ps \<in> snd ` set m. os_ok ps \<and> ps \<noteq> [])"

lemma flat_simps [simp]: "flat [] = []" "flat ((due, ps) # m) = map (Pair due) ps @ flat m"
  by (simp_all add: flat_def)

lemma buckets_ok_Nil [simp]: "buckets_ok []"
  by (simp add: buckets_ok_def)

lemma buckets_ok_Cons:
  "buckets_ok ((due, ps) # m) \<longleftrightarrow> buckets_ok m \<and> os_ok ps \<and> ps \<noteq> [] \<and> (\<forall>d \<in> fst ` set m. due < d)"
  by (auto simp: buckets_ok_def om_ok_Cons)

lemma fst_flat: "x \<in> set (flat m) \<Longrightarrow> fst x \<in> fst ` set m"
  by (auto simp: flat_def rev_image_eqI)

lemma length_flat [simp]: "length (flat m) = entry_count m"
  by (induction m) (auto simp: entry_count_def)

lemma flat_ascending: "buckets_ok m \<Longrightarrow> os_ok (flat m)"
proof (induction m)
  case (Cons e m)
  obtain due ps where [simp]: "e = (due, ps)" by (cases e)
  have "due < fst x" if "x \<in> set (flat m)" for x
    using Cons.prems fst_flat [OF that] by (auto simp: buckets_ok_Cons)
  then show ?case
    using Cons by (auto simp: buckets_ok_Cons sorted_wrt_append sorted_wrt_map less_prod_def)
qed simp

lemma set_flat: "om_ok m \<Longrightarrow> (due, p) \<in> set (flat m) \<longleftrightarrow> p \<in> set (bucket_at due m)"
proof (induction m)
  case (Cons e m)
  obtain d ps where [simp]: "e = (d, ps)" by (cases e)
  have "(d, q) \<notin> set (flat m)" for q
    using Cons.prems fst_flat [of "(d, q)" m] by (fastforce simp: om_ok_Cons)
  then show ?case using Cons by (auto simp: om_ok_Cons bucket_at_def)
qed (simp add: bucket_at_def)

lemma bucket_at_ok: "buckets_ok m \<Longrightarrow> os_ok (bucket_at due m)"
  by (force simp: bucket_at_def buckets_ok_def split: option.split dest: map_of_SomeD)

lemma bucket_insert_ok: "buckets_ok m \<Longrightarrow> buckets_ok (bucket_insert due p m)"
proof -
  have ok: "buckets_ok (om_insert d ps m)" if "buckets_ok m" "os_ok ps" "ps \<noteq> []" for d ps
    using that
  proof (induction d ps m rule: om_insert.induct)
    case (2 k v a b m)
    then show ?case by (auto simp: buckets_ok_Cons)
  qed (simp add: buckets_ok_Cons)
  have "os_insert p xs \<noteq> []" for xs :: "'a list" by (cases xs) auto
  then show "buckets_ok m \<Longrightarrow> buckets_ok (bucket_insert due p m)"
    unfolding bucket_insert_def by (intro ok) (simp_all add: bucket_at_ok)
qed

lemma flat_insert: "buckets_ok m \<Longrightarrow> flat (bucket_insert due p m) = os_insert (due, p) (flat m)"
proof (rule os_ok_unique)
  assume ok: "buckets_ok m"
  note ok' = bucket_insert_ok [OF ok, of due p]
  show "os_ok (flat (bucket_insert due p m))" by (rule flat_ascending [OF ok'])
  show "os_ok (os_insert (due, p) (flat m))" by (simp add: flat_ascending [OF ok])
  have "om_ok m" "om_ok (bucket_insert due p m)" using ok ok' by (simp_all add: buckets_ok_def)
  then have "(d, q) \<in> set (flat (bucket_insert due p m)) \<longleftrightarrow> (d, q) \<in> set (os_insert (due, p) (flat m))"
    for d q by (auto simp: set_flat bucket_insert_def bucket_at_def)
  then show "set (flat (bucket_insert due p m)) = set (os_insert (due, p) (flat m))" by auto
qed

section \<open>A drain takes a prefix\<close>

lemma take_bucket_split:
  "take_bucket cap taken ps = (taken @ take (cap - length taken) ps, drop (cap - length taken) ps)"
  by (induction cap taken ps rule: take_bucket.induct) (auto simp: take_Cons' drop_Cons' Suc_diff_Suc)

definition due_part :: "nat \<Rightarrow> 'p buckets \<Rightarrow> (nat \<times> 'p) list" where
  "due_part now m = filter (\<lambda>e. fst e \<le> now) (flat m)"

lemma filter_prefix:
  fixes xs :: "(nat \<times> 'a::linorder) list"
  shows "os_ok xs \<Longrightarrow> filter (\<lambda>e. fst e \<le> now) xs = takeWhile (\<lambda>e. fst e \<le> now) xs"
proof (induction xs)
  case (Cons x xs)
  have "fst x \<le> fst y" if "y \<in> set xs" for y
    using Cons.prems that by (auto simp: less_prod_def)
  then have "filter (\<lambda>e. fst e \<le> now) xs = []" if "\<not> fst x \<le> now"
    using that by (fastforce simp: filter_empty_conv)
  with Cons show ?case by auto
qed simp

lemma due_part_Cons:
  "due_part now ((due, ps) # m) = (if due \<le> now then map (Pair due) ps else []) @ due_part now m"
  by (auto simp: due_part_def o_def filter_map)

lemma due_part_later: "\<forall>d \<in> fst ` set m. now < d \<Longrightarrow> due_part now m = []"
  by (auto simp: due_part_def filter_empty_conv dest!: fst_flat)

lemma bucket_extend_first:
  assumes "buckets_ok m" "\<forall>d \<in> fst ` set m. due < d" "os_ok ps"
  shows "bucket_extend due ps m = (due, ps) # m"
proof -
  have "map_of m due = None" using assms by (force simp: map_of_eq_None_iff)
  moreover have "om_insert due xs m = (due, xs) # m" for xs
    using assms(2) by (cases m) auto
  ultimately show ?thesis
    using os_extend_sorted [of "[]" ps] assms(3) by (simp add: bucket_extend_def bucket_at_def)
qed

lemma om_remove_first:
  fixes m :: "'p buckets"
  shows "\<forall>d \<in> fst ` set m. due < d \<Longrightarrow> om_remove due ((due, ps) # m) = m"
  by (auto simp: om_remove_def filter_id_conv)

lemma drain_buckets_prefix:
  assumes "buckets_ok m" "drain_buckets cap (due_ticks now m) taken m = (taken', exhausted, left, m')"
  shows "taken' = taken @ map snd (take (cap - length taken) (due_part now m))"
    and "exhausted \<longleftrightarrow> cap - length taken < length (due_part now m)"
    and "flat m' = drop (min (cap - length taken) (length (due_part now m))) (flat m)"
    and "buckets_ok m'"
  using assms
proof (atomize (full), induction m arbitrary: taken)
  case Nil
  then show ?case by (auto simp: due_ticks_def due_part_def)
next
  case (Cons e m)
  obtain due ps where [simp]: "e = (due, ps)" by (cases e)
  from Cons.prems have ok: "buckets_ok m" "os_ok ps" "ps \<noteq> []" "\<forall>d \<in> fst ` set m. due < d"
    by (auto simp: buckets_ok_Cons)
  show ?case
  proof (cases "due \<le> now")
    case False
    then have later: "\<forall>d \<in> fst ` set m. now < d" using ok(4) by auto
    then have "due_ticks now (e # m) = []" using False by (auto simp: due_ticks_def filter_empty_conv)
    then show ?thesis using Cons.prems False due_part_later [OF later] by (auto simp: due_part_Cons)
  next
    case True
    define c where "c = cap - length taken"
    have rest_ok: "os_ok (drop c ps)" using ok(2) by (simp add: sorted_wrt_drop)
    have step: "drain_buckets cap (due_ticks now (e # m)) taken (e # m) =
        (if c < length ps then (taken @ take c ps, True, length ps - c, (due, drop c ps) # m)
         else drain_buckets cap (due_ticks now m) (taken @ ps) m)"
      using True ok rest_ok
      by (simp add: due_ticks_def bucket_at_def om_remove_first take_bucket_split c_def
          bucket_extend_first not_less)
    show ?thesis
    proof (cases "c < length ps")
      case True': True
      have "buckets_ok ((due, drop c ps) # m)" using ok rest_ok True' by (simp add: buckets_ok_Cons)
      moreover have "taken' = taken @ take c ps" "exhausted" "m' = (due, drop c ps) # m"
        using Cons.prems(2) unfolding step using True' by simp_all
      ultimately show ?thesis
        using True True' unfolding c_def [symmetric]
        by (simp add: due_part_Cons take_map drop_map comp_def)
    next
      case False
      then have c': "cap - length (taken @ ps) = c - length ps" by (simp add: c_def)
      have "drain_buckets cap (due_ticks now m) (taken @ ps) m = (taken', exhausted, left, m')"
        using Cons.prems(2) unfolding step using False by simp
      from Cons.IH [OF ok(1) this, unfolded c'] show ?thesis
        using True False unfolding c_def [symmetric]
        by (auto simp: due_part_Cons take_map comp_def min_def)
    qed
  qed
qed

end
