(* ===== verification/BlockPos.thy ===== *)
theory BlockPos
  imports Prelude "HOL-Library.Product_Lexorder"
begin

text \<open>
  Block positions, which \<open>crates/redstone/src/update.rs\<close> (\<open>BlockPos\<close>) and
  \<open>crates/simulation/src/fluid/world.rs\<close> (\<open>Pos\<close>) each declare with the same three i32
  coordinates, the derived order and a saturating offset; and the six faces.
\<close>

text \<open>\<open>i32::saturating_add\<close>.\<close>

definition i32_sat_add :: "int \<Rightarrow> int \<Rightarrow> int" where
  "i32_sat_add a b = max (- (2 ^ 31)) (min (2 ^ 31 - 1) (a + b))"

lemma i32_sat_add_exact: "- (2 ^ 31) \<le> a + b \<Longrightarrow> a + b < 2 ^ 31 \<Longrightarrow> i32_sat_add a b = a + b"
  by (simp add: i32_sat_add_def)

datatype pos = Pos (px: int) (py: int) (pz: int)

instantiation pos :: linorder
begin

definition less_eq_pos :: "pos \<Rightarrow> pos \<Rightarrow> bool" where
  "less_eq_pos p q \<longleftrightarrow> (px p, py p, pz p) \<le> (px q, py q, pz q)"

definition less_pos :: "pos \<Rightarrow> pos \<Rightarrow> bool" where
  "less_pos p q \<longleftrightarrow> (px p, py p, pz p) < (px q, py q, pz q)"

instance
  by standard (auto simp: less_eq_pos_def less_pos_def intro: pos.expand)

end

definition pos_offset :: "pos \<Rightarrow> int \<Rightarrow> int \<Rightarrow> int \<Rightarrow> pos" where
  "pos_offset p dx dy dz = Pos (i32_sat_add (px p) dx) (i32_sat_add (py p) dy) (i32_sat_add (pz p) dz)"

datatype dir = Down | Up | North | South | West | East

fun dir_delta :: "dir \<Rightarrow> int \<times> int \<times> int" where
  "dir_delta Down = (0, -1, 0)"
| "dir_delta Up = (0, 1, 0)"
| "dir_delta North = (0, 0, -1)"
| "dir_delta South = (0, 0, 1)"
| "dir_delta West = (-1, 0, 0)"
| "dir_delta East = (1, 0, 0)"

fun opposite :: "dir \<Rightarrow> dir" where
  "opposite Down = Up"
| "opposite Up = Down"
| "opposite North = South"
| "opposite South = North"
| "opposite West = East"
| "opposite East = West"

definition HORIZONTAL :: "dir list" where
  "HORIZONTAL = [North, East, South, West]"

definition offset :: "pos \<Rightarrow> dir \<Rightarrow> pos" where
  "offset p d = (case dir_delta d of (dx, dy, dz) \<Rightarrow> pos_offset p dx dy dz)"

lemma opposite_opposite [simp]: "opposite (opposite d) = d"
  by (cases d) simp_all

text \<open>Inside the world, away from the ends of i32, an offset is exact and reversible.\<close>

definition inner_pos :: "pos \<Rightarrow> bool" where
  "inner_pos p \<longleftrightarrow> - (2 ^ 31) < px p \<and> px p < 2 ^ 31 - 1 \<and> - (2 ^ 31) < py p \<and> py p < 2 ^ 31 - 1 \<and>
     - (2 ^ 31) < pz p \<and> pz p < 2 ^ 31 - 1"

lemma offset_exact:
  "inner_pos p \<Longrightarrow> offset p d = (case dir_delta d of (dx, dy, dz) \<Rightarrow> Pos (px p + dx) (py p + dy) (pz p + dz))"
  by (cases d) (simp_all add: offset_def pos_offset_def inner_pos_def i32_sat_add_def)

lemma offset_neq: "inner_pos p \<Longrightarrow> offset p d \<noteq> p"
  by (cases d; cases p) (simp_all add: offset_exact)

lemma offset_opposite: "inner_pos p \<Longrightarrow> offset (offset p d) (opposite d) = p"
  by (cases d; cases p) (simp_all add: offset_def pos_offset_def inner_pos_def i32_sat_add_def)

end
