(* ===== verification/FluidState.thy ===== *)
theory FluidState
  imports BlockPos Strings Floats
begin

text \<open>
  \<open>crates/simulation/src/fluid/state.rs\<close> and the data of \<open>world.rs\<close>: fluids, their encoding
  in the \<open>level\<close> property of a block, the rule numbers, and what the flow rules know about
  a block. Amounts are \<open>u8\<close> values between 1 and 8, as naturals.
\<close>

datatype fluid_kind = Water | Lava

definition fluid_kind_name :: "fluid_kind \<Rightarrow> rstring" where
  "fluid_kind_name k = (case k of Water \<Rightarrow> lit ''water'' | Lava \<Rightarrow> lit ''lava'')"

definition fluid_block_name :: "fluid_kind \<Rightarrow> rstring" where
  "fluid_block_name k = (case k of Water \<Rightarrow> lit ''minecraft:water'' | Lava \<Rightarrow> lit ''minecraft:lava'')"

definition other_fluid :: "fluid_kind \<Rightarrow> fluid_kind" where
  "other_fluid k = (case k of Water \<Rightarrow> Lava | Lava \<Rightarrow> Water)"

record fluid_body =
  fb_amount :: nat
  fb_falling :: bool
  fb_source :: bool

definition body_flowing :: "nat \<Rightarrow> fluid_body" where
  "body_flowing amount =
     \<lparr>fb_amount = (if amount = 0 then 1 else if 8 < amount then 8 else amount),
      fb_falling = False, fb_source = False\<rparr>"

definition body_falling :: fluid_body where
  "body_falling = \<lparr>fb_amount = 8, fb_falling = True, fb_source = False\<rparr>"

definition body_source :: fluid_body where
  "body_source = \<lparr>fb_amount = 8, fb_falling = False, fb_source = True\<rparr>"

definition lowered_by :: "fluid_body \<Rightarrow> nat \<Rightarrow> fluid_body option" where
  "lowered_by b drop_off =
     (if fb_amount b \<le> drop_off then None
      else Some \<lparr>fb_amount = fb_amount b - drop_off, fb_falling = False, fb_source = False\<rparr>)"

datatype fluid_state = No_Fluid | Water_Fluid fluid_body | Lava_Fluid fluid_body

definition from_block_level :: "fluid_kind \<Rightarrow> nat \<Rightarrow> fluid_state" where
  "from_block_level kind level =
     (let level = (if 15 < level then 15 else level);
          body = (if level = 0 then body_source
                  else if level < 8 then \<lparr>fb_amount = 8 - level, fb_falling = False, fb_source = False\<rparr>
                  else \<lparr>fb_amount = 16 - level, fb_falling = True, fb_source = False\<rparr>)
      in case kind of Water \<Rightarrow> Water_Fluid body | Lava \<Rightarrow> Lava_Fluid body)"

definition fluid_is_empty :: "fluid_state \<Rightarrow> bool" where
  "fluid_is_empty f \<longleftrightarrow> (case f of No_Fluid \<Rightarrow> True | _ \<Rightarrow> False)"

fun kind_of :: "fluid_state \<Rightarrow> fluid_kind option" where
  "kind_of No_Fluid = None"
| "kind_of (Water_Fluid b) = Some Water"
| "kind_of (Lava_Fluid b) = Some Lava"

fun body_of :: "fluid_state \<Rightarrow> fluid_body option" where
  "body_of No_Fluid = None"
| "body_of (Water_Fluid b) = Some b"
| "body_of (Lava_Fluid b) = Some b"

definition fluid_amount :: "fluid_state \<Rightarrow> nat" where
  "fluid_amount f = (case body_of f of Some b \<Rightarrow> fb_amount b | None \<Rightarrow> 0)"

definition fluid_is_source :: "fluid_state \<Rightarrow> bool" where
  "fluid_is_source f \<longleftrightarrow> (case body_of f of Some b \<Rightarrow> fb_source b | None \<Rightarrow> False)"

definition fluid_is_falling :: "fluid_state \<Rightarrow> bool" where
  "fluid_is_falling f \<longleftrightarrow> (case body_of f of Some b \<Rightarrow> fb_falling b | None \<Rightarrow> False)"

definition is_same :: "fluid_state \<Rightarrow> fluid_state \<Rightarrow> bool" where
  "is_same f h \<longleftrightarrow> (case (kind_of f, kind_of h) of (Some a, Some b) \<Rightarrow> a = b | _ \<Rightarrow> False)"

definition is_source_of :: "fluid_state \<Rightarrow> fluid_state \<Rightarrow> bool" where
  "is_source_of f h \<longleftrightarrow> is_same f h \<and> fluid_is_source f"

definition is_source_of_kind :: "fluid_state \<Rightarrow> fluid_kind \<Rightarrow> bool" where
  "is_source_of_kind f k \<longleftrightarrow> kind_of f = Some k \<and> fluid_is_source f"

definition block_level :: "fluid_state \<Rightarrow> nat" where
  "block_level f =
     (case body_of f of
        None \<Rightarrow> 0
      | Some b \<Rightarrow> if fb_source b then 0 else if fb_falling b then 16 - fb_amount b else 8 - fb_amount b)"

record fluid_rules =
  fr_kind :: fluid_kind
  fr_fast :: bool
  fr_convert :: bool

definition rules_water :: "bool \<Rightarrow> fluid_rules" where
  "rules_water convert = \<lparr>fr_kind = Water, fr_fast = False, fr_convert = convert\<rparr>"

definition rules_lava :: "bool \<Rightarrow> bool \<Rightarrow> fluid_rules" where
  "rules_lava fast convert = \<lparr>fr_kind = Lava, fr_fast = fast, fr_convert = convert\<rparr>"

definition tick_delay :: "fluid_rules \<Rightarrow> nat" where
  "tick_delay r = (case fr_kind r of Water \<Rightarrow> 5 | Lava \<Rightarrow> if fr_fast r then 10 else 30)"

definition slope_find_distance :: "fluid_rules \<Rightarrow> nat" where
  "slope_find_distance r = (case fr_kind r of Water \<Rightarrow> 4 | Lava \<Rightarrow> if fr_fast r then 4 else 2)"

definition drop_off :: "fluid_rules \<Rightarrow> nat" where
  "drop_off r = (case fr_kind r of Water \<Rightarrow> 1 | Lava \<Rightarrow> if fr_fast r then 1 else 2)"

section \<open>What is known about a block\<close>

record block_facts =
  bf_id :: int
  bf_fluid :: fluid_state
  bf_air :: bool
  bf_full_cube :: bool
  bf_can_hold_any :: bool
  bf_water_container :: bool
  bf_waterlogged :: bool

definition facts_air :: "int \<Rightarrow> block_facts" where
  "facts_air i = \<lparr>bf_id = i, bf_fluid = No_Fluid, bf_air = True, bf_full_cube = False,
     bf_can_hold_any = True, bf_water_container = False, bf_waterlogged = False\<rparr>"

definition facts_solid :: "int \<Rightarrow> block_facts" where
  "facts_solid i = \<lparr>bf_id = i, bf_fluid = No_Fluid, bf_air = False, bf_full_cube = True,
     bf_can_hold_any = False, bf_water_container = False, bf_waterlogged = False\<rparr>"

definition facts_of_fluid :: "int \<Rightarrow> fluid_state \<Rightarrow> block_facts" where
  "facts_of_fluid i f = \<lparr>bf_id = i, bf_fluid = f, bf_air = False, bf_full_cube = False,
     bf_can_hold_any = True, bf_water_container = False, bf_waterlogged = False\<rparr>"

definition facts_container :: "int \<Rightarrow> bool \<Rightarrow> bool \<Rightarrow> block_facts" where
  "facts_container i waterlogged full_cube =
     \<lparr>bf_id = i, bf_fluid = (if waterlogged then Water_Fluid body_source else No_Fluid), bf_air = False,
      bf_full_cube = full_cube, bf_can_hold_any = True, bf_water_container = True, bf_waterlogged = waterlogged\<rparr>"

definition can_hold_specific_fluid :: "block_facts \<Rightarrow> fluid_kind \<Rightarrow> bool" where
  "can_hold_specific_fluid b k \<longleftrightarrow> (if \<not> bf_water_container b then True else k = Water \<and> \<not> bf_waterlogged b)"

definition can_hold_fluid :: "block_facts \<Rightarrow> fluid_kind \<Rightarrow> bool" where
  "can_hold_fluid b k \<longleftrightarrow> bf_can_hold_any b \<and> can_hold_specific_fluid b k"

section \<open>The world the rules act on\<close>

text \<open>
  The trait \<open>FluidWorld\<close>: an implementation over a type of worlds is the record of its
  three methods.
\<close>

record 'w fluid_world =
  fw_facts :: "'w \<Rightarrow> pos \<Rightarrow> block_facts option"
  fw_place_fluid :: "'w \<Rightarrow> pos \<Rightarrow> fluid_state \<Rightarrow> bool \<times> 'w"
  fw_set_block_named :: "'w \<Rightarrow> pos \<Rightarrow> rstring \<Rightarrow> bool \<times> 'w"

section \<open>The encoding\<close>

definition body_ok :: "fluid_body \<Rightarrow> bool" where
  "body_ok b \<longleftrightarrow> 1 \<le> fb_amount b \<and> fb_amount b \<le> 8 \<and> (fb_source b \<longrightarrow> fb_amount b = 8 \<and> \<not> fb_falling b)"

definition fluid_ok :: "fluid_state \<Rightarrow> bool" where
  "fluid_ok f \<longleftrightarrow> (case body_of f of None \<Rightarrow> True | Some b \<Rightarrow> body_ok b)"

lemma level_round_trip:
  assumes "l \<le> 15"
  shows "fluid_ok (from_block_level k l) \<and> kind_of (from_block_level k l) = Some k \<and>
    block_level (from_block_level k l) = l"
  using assms
  by (cases k) (auto simp: from_block_level_def Let_def fluid_ok_def body_ok_def block_level_def body_source_def)

text \<open>
  Reading a level back is exact except for a flowing body of amount 8, which the encoding
  does not tell from a source.
\<close>

lemma fluid_round_trip:
  assumes "fluid_ok f" "kind_of f = Some k"
  shows "from_block_level k (block_level f) = f \<longleftrightarrow>
    \<not> (fluid_amount f = 8 \<and> \<not> fluid_is_source f \<and> \<not> fluid_is_falling f)"
  using assms
  by (cases f) (auto simp: from_block_level_def Let_def fluid_ok_def body_ok_def block_level_def body_source_def
      fluid_amount_def fluid_is_source_def fluid_is_falling_def fluid_body.equality)

end
