(* ===== verification/FluidQueue.thy ===== *)
theory FluidQueue
  imports TickQueue FluidState
begin

text \<open>
  \<open>crates/simulation/src/fluid/queue.rs\<close>: the queue of scheduled fluid ticks, with its
  caps and counters. Ticks and counters are u64 values, as naturals that saturate.
\<close>

definition MAX_FLUID_TICKS_PER_TICK :: nat where "MAX_FLUID_TICKS_PER_TICK = 4096"
definition MAX_FLUID_QUEUE_ENTRIES :: nat where "MAX_FLUID_QUEUE_ENTRIES = 4 * MAX_FLUID_TICKS_PER_TICK"
definition MAX_FLUID_SCHEDULE_DELAY :: nat where "MAX_FLUID_SCHEDULE_DELAY = 32768"

datatype fluid_scheduled = Scheduled | Deduplicated | Refused

definition was_scheduled :: "fluid_scheduled \<Rightarrow> bool" where
  "was_scheduled s \<longleftrightarrow> (case s of Scheduled \<Rightarrow> True | _ \<Rightarrow> False)"

record fluid_budget =
  fluid_ticks_per_tick :: nat

definition nominal_budget :: fluid_budget where
  "nominal_budget = \<lparr>fluid_ticks_per_tick = MAX_FLUID_TICKS_PER_TICK\<rparr>"

definition budget_is_empty :: "fluid_budget \<Rightarrow> bool" where
  "budget_is_empty b \<longleftrightarrow> fluid_ticks_per_tick b = 0"

record fluid_drain =
  fd_now :: nat
  fd_due :: "pos list"
  fd_exhausted :: bool
  fd_pending :: nat

definition drain_did_work :: "fluid_drain \<Rightarrow> bool" where
  "drain_did_work d \<longleftrightarrow> fd_due d \<noteq> []"

record fluid_queue =
  fq_scheduled :: "pos buckets"
  fq_entries :: nat
  fq_max_per_tick :: nat
  fq_last :: "nat option"
  fq_spilled :: nat
  fq_deduplicated :: nat
  fq_refused :: nat

definition new_fluid_queue :: fluid_queue where
  "new_fluid_queue =
     \<lparr>fq_scheduled = [], fq_entries = 0, fq_max_per_tick = MAX_FLUID_TICKS_PER_TICK, fq_last = None,
      fq_spilled = 0, fq_deduplicated = 0, fq_refused = 0\<rparr>"

definition fluid_pending :: "fluid_queue \<Rightarrow> nat" where
  "fluid_pending q = fq_entries q"

definition fluid_scheduled_at :: "fluid_queue \<Rightarrow> nat \<Rightarrow> pos ordered_set option" where
  "fluid_scheduled_at q due = map_of (fq_scheduled q) due"

definition fluid_pending_after :: "fluid_queue \<Rightarrow> nat \<Rightarrow> bool" where
  "fluid_pending_after q now = pending_after now (fq_scheduled q)"

definition set_fluid_max_per_tick :: "fluid_queue \<Rightarrow> nat \<Rightarrow> fluid_queue" where
  "set_fluid_max_per_tick q n = q\<lparr>fq_max_per_tick := max 1 (min n MAX_FLUID_QUEUE_ENTRIES)\<rparr>"

definition fluid_schedule_at :: "fluid_queue \<Rightarrow> nat \<Rightarrow> pos \<Rightarrow> fluid_scheduled \<times> fluid_queue" where
  "fluid_schedule_at q due p =
     (if (case map_of (fq_scheduled q) due of None \<Rightarrow> False | Some ps \<Rightarrow> p \<in> set ps)
      then (Deduplicated, q\<lparr>fq_deduplicated := sat_add (fq_deduplicated q) 1\<rparr>)
      else if MAX_FLUID_QUEUE_ENTRIES \<le> fq_entries q
      then (Refused, q\<lparr>fq_refused := sat_add (fq_refused q) 1\<rparr>)
      else (Scheduled, q\<lparr>fq_scheduled := bucket_insert due p (fq_scheduled q), fq_entries := fq_entries q + 1\<rparr>))"

definition fluid_schedule :: "fluid_queue \<Rightarrow> nat \<Rightarrow> pos \<Rightarrow> nat \<Rightarrow> fluid_scheduled \<times> fluid_queue" where
  "fluid_schedule q now p delay =
     fluid_schedule_at q (sat_add now (min delay MAX_FLUID_SCHEDULE_DELAY)) p"

definition fluid_drain_due :: "fluid_queue \<Rightarrow> nat \<Rightarrow> fluid_budget \<Rightarrow> fluid_drain \<times> fluid_queue" where
  "fluid_drain_due q now budget =
     (if (case fq_last q of None \<Rightarrow> False | Some t \<Rightarrow> now < t)
      then (\<lparr>fd_now = now, fd_due = [], fd_exhausted = False, fd_pending = fq_entries q\<rparr>, q)
      else
        let (due, exhausted, spilled, m) =
              drain_buckets (fluid_ticks_per_tick budget) (due_ticks now (fq_scheduled q)) [] (fq_scheduled q);
            entries = entry_count m
        in (\<lparr>fd_now = now, fd_due = due, fd_exhausted = exhausted, fd_pending = entries\<rparr>,
            q\<lparr>fq_scheduled := m, fq_entries := entries, fq_last := Some now,
              fq_spilled := sat_add (fq_spilled q) spilled\<rparr>))"

definition clear_fluid_queue :: "fluid_queue \<Rightarrow> fluid_queue" where
  "clear_fluid_queue q = q\<lparr>fq_scheduled := [], fq_entries := 0\<rparr>"

section \<open>The contract of a tick queue\<close>

text \<open>
  What a queue of scheduled ticks promises, over the ascending list of its entries (a due
  tick and a position): scheduling inserts one entry unless it is there or refused, and a
  drain takes the first due entries up to its cap and leaves the others.
\<close>

locale tick_queue =
  fixes schedule :: "'q \<Rightarrow> nat \<Rightarrow> 'p::linorder \<Rightarrow> 'q"
    and drain :: "'q \<Rightarrow> nat \<Rightarrow> nat \<Rightarrow> 'p list \<times> bool \<times> 'q"
    and entries :: "'q \<Rightarrow> (nat \<times> 'p) list"
    and clock :: "'q \<Rightarrow> nat option"
    and ok :: "'q \<Rightarrow> bool"
  assumes entries_ascend: "ok q \<Longrightarrow> os_ok (entries q)"
    and schedule_ok: "ok q \<Longrightarrow> ok (schedule q due p)"
    and schedule_entries: "ok q \<Longrightarrow>
      entries (schedule q due p) = entries q \<or> entries (schedule q due p) = os_insert (due, p) (entries q)"
    and schedule_clock: "clock (schedule q due p) = clock q"
    and drain_ok: "ok q \<Longrightarrow> drain q now cap = (ps, ex, q') \<Longrightarrow> ok q'"
    and drain_stale: "ok q \<Longrightarrow> clock q = Some t \<Longrightarrow> now < t \<Longrightarrow> drain q now cap = (ps, ex, q') \<Longrightarrow>
      ps = [] \<and> \<not> ex \<and> q' = q"
    and drain_clock: "drain q now cap = (ps, ex, q') \<Longrightarrow> (\<forall>t. clock q = Some t \<longrightarrow> t \<le> now) \<Longrightarrow>
      clock q' = Some now"
    and drain_law: "ok q \<Longrightarrow> (\<forall>t. clock q = Some t \<longrightarrow> t \<le> now) \<Longrightarrow> drain q now cap = (ps, ex, q') \<Longrightarrow>
      ps = map snd (take cap (filter (\<lambda>e. fst e \<le> now) (entries q))) \<and>
      (ex \<longleftrightarrow> cap < length (filter (\<lambda>e. fst e \<le> now) (entries q))) \<and>
      entries q' = drop (min cap (length (filter (\<lambda>e. fst e \<le> now) (entries q)))) (entries q)"
begin

text \<open>Nothing runs early.\<close>

lemma never_early:
  assumes "ok q" "drain q now cap = (ps, ex, q')" "p \<in> set ps"
  shows "\<exists>due \<le> now. (due, p) \<in> set (entries q)"
proof -
  have "\<forall>t. clock q = Some t \<longrightarrow> t \<le> now"
    using drain_stale [OF assms(1) _ _ assms(2)] assms(3) by (metis empty_iff empty_set not_le)
  from drain_law [OF assms(1) this assms(2)] assms(3) show ?thesis
    by (auto dest!: in_set_takeD)
qed

text \<open>Nothing is lost: what a drain does not run stays queued.\<close>

lemma nothing_lost:
  assumes "ok q" "drain q now cap = (ps, ex, q')"
  shows "\<exists>es. entries q = es @ entries q' \<and> ps = map snd es \<and> length es \<le> cap"
proof (cases "\<forall>t. clock q = Some t \<longrightarrow> t \<le> now")
  case True
  let ?due = "filter (\<lambda>e. fst e \<le> now) (entries q)"
  have pre: "?due = takeWhile (\<lambda>e. fst e \<le> now) (entries q)"
    by (rule filter_prefix [OF entries_ascend [OF assms(1)]])
  have "take (min cap (length ?due)) (entries q) = take cap ?due"
    unfolding pre by (metis min.commute takeWhile_eq_take take_take)
  moreover note law = drain_law [OF assms(1) True assms(2)]
  ultimately have "entries q = take cap ?due @ entries q'" by (metis append_take_drop_id)
  then show ?thesis using law by (intro exI [of _ "take cap ?due"]) simp
next
  case False
  then obtain t where "clock q = Some t" "now < t" by (auto simp: not_le)
  from drain_stale [OF assms(1) this assms(2)] show ?thesis by auto
qed

text \<open>
  Successive drains with one cap split the queue: drain number \<open>i\<close> runs the next entries in
  order, only due ones and at most \<open>cap\<close>, and fewer than \<open>cap\<close> only when everything it leaves
  is due later.
\<close>

fun drains :: "'q \<Rightarrow> nat list \<Rightarrow> nat \<Rightarrow> 'p list list \<times> 'q" where
  "drains q [] cap = ([], q)"
| "drains q (now # nows) cap =
     (let (ps, ex, q) = drain q now cap; (pss, q) = drains q nows cap in (ps # pss, q))"

lemma drain_split:
  assumes "ok q" "\<forall>t. clock q = Some t \<longrightarrow> t \<le> now" "drain q now cap = (ps, ex, q')"
  shows "\<exists>es. ps = map snd es \<and> entries q = es @ entries q' \<and> length es \<le> cap \<and> (\<forall>e \<in> set es. fst e \<le> now)
    \<and> (length es < cap \<longrightarrow> (\<forall>e \<in> set (entries q'). now < fst e))"
proof -
  let ?P = "\<lambda>e. fst e \<le> now" and ?due = "filter (\<lambda>e. fst e \<le> now) (entries q)"
  have split: "entries q = ?due @ dropWhile ?P (entries q)"
    using filter_prefix [OF entries_ascend [OF assms(1)]] takeWhile_dropWhile_id by metis
  have "?due = filter ?P ?due @ filter ?P (dropWhile ?P (entries q))" using split by (metis filter_append)
  then have "filter ?P (dropWhile ?P (entries q)) = []" by simp
  then have later: "\<forall>e \<in> set (dropWhile ?P (entries q)). now < fst e" by (auto simp: filter_empty_conv not_le)
  note law = drain_law [OF assms]
  have left: "entries q' = drop cap ?due @ dropWhile ?P (entries q)"
    using law split by (cases "cap \<le> length ?due") (metis drop_append diff_is_0_eq drop_0 min.absorb1 min.absorb2 drop_all
        append_eq_conv_conj nle_le append_Nil)+
  have whole: "entries q = take cap ?due @ entries q'"
    unfolding left by (subst split) simp
  have short: "\<forall>e \<in> set (entries q'). now < fst e" if "length (take cap ?due) < cap"
    using that later by (simp add: left)
  have "ps = map snd (take cap ?due)" using law by blast
  moreover have "\<forall>e \<in> set (take cap ?due). fst e \<le> now" using in_set_takeD by fastforce
  moreover have "length (take cap ?due) \<le> cap" by simp
  ultimately show ?thesis using whole short by blast
qed

lemma drains_spill:
  assumes "ok q" "sorted nows" "\<forall>t now. clock q = Some t \<and> now \<in> set nows \<longrightarrow> t \<le> now" "drains q nows cap = (pss, q')"
  shows "\<exists>ess. pss = map (map snd) ess \<and> length ess = length nows \<and> entries q = concat ess @ entries q' \<and>
    (\<forall>i < length nows. length (ess ! i) \<le> cap \<and> (\<forall>e \<in> set (ess ! i). fst e \<le> nows ! i) \<and>
       (length (ess ! i) < cap \<longrightarrow> (\<forall>e \<in> set (concat (drop (Suc i) ess) @ entries q'). nows ! i < fst e)))"
  using assms
proof (induction nows arbitrary: q pss)
  case (Cons now nows)
  obtain ps ex q1 where d: "drain q now cap = (ps, ex, q1)" by (cases "drain q now cap")
  obtain qss where r: "drains q1 nows cap = (qss, q')" and pss: "pss = ps # qss"
    using Cons.prems(4) d by (auto split: prod.splits)
  have clock: "\<forall>t. clock q = Some t \<longrightarrow> t \<le> now" using Cons.prems(3) by simp
  obtain es where es: "ps = map snd es" "entries q = es @ entries q1" "length es \<le> cap" "\<forall>e \<in> set es. fst e \<le> now"
      "length es < cap \<longrightarrow> (\<forall>e \<in> set (entries q1). now < fst e)"
    using drain_split [OF Cons.prems(1) clock d] by blast
  have "clock q1 = Some now" by (rule drain_clock [OF d clock])
  then have c1: "\<forall>t n. clock q1 = Some t \<and> n \<in> set nows \<longrightarrow> t \<le> n" using Cons.prems(2) by auto
  obtain ess where ess: "qss = map (map snd) ess" "length ess = length nows" "entries q1 = concat ess @ entries q'"
      and each: "\<forall>i < length nows. length (ess ! i) \<le> cap \<and> (\<forall>e \<in> set (ess ! i). fst e \<le> nows ! i) \<and>
       (length (ess ! i) < cap \<longrightarrow> (\<forall>e \<in> set (concat (drop (Suc i) ess) @ entries q'). nows ! i < fst e))"
    using Cons.IH [OF drain_ok [OF Cons.prems(1) d] _ c1 r] Cons.prems(2) by auto
  have "length ((es # ess) ! i) \<le> cap \<and> (\<forall>e \<in> set ((es # ess) ! i). fst e \<le> (now # nows) ! i) \<and>
       (length ((es # ess) ! i) < cap \<longrightarrow>
          (\<forall>e \<in> set (concat (drop (Suc i) (es # ess)) @ entries q'). (now # nows) ! i < fst e))"
    if "i < length (now # nows)" for i
    using that each es(3-5) ess(3) by (cases i) simp_all
  then show ?case using es(1,2) ess(1-3) by (intro exI [of _ "es # ess"]) (simp add: pss)
qed simp

text \<open>
  No due entry waits long: one of rank \<open>k\<close>, due when drain number \<open>i\<close> begins, has run by the
  end of drain number \<open>i + k div cap\<close>.
\<close>

lemma spill_delay:
  assumes "length ess = length nows" "es = concat ess @ rest" "sorted nows" "0 < cap"
    and each: "\<forall>i < length nows. length (ess ! i) < cap \<longrightarrow> (\<forall>e \<in> set (concat (drop (Suc i) ess) @ rest). nows ! i < fst e)"
    and cap: "\<forall>i < length nows. length (ess ! i) \<le> cap"
    and k: "k < length es" "fst (es ! k) \<le> nows ! i" "i + k div cap < length nows"
  shows "k < length (concat (take (Suc (i + k div cap)) ess))"
proof -
  let ?run = "\<lambda>m. length (concat (take m ess))"
  have next_drain: "min (Suc k) (?run m + cap) \<le> ?run (Suc m)" if m: "i \<le> m" "m < length nows" for m
  proof (cases "k < ?run (Suc m) \<or> length (ess ! m) = cap")
    case True
    then show ?thesis using m assms(1) by (auto simp: take_Suc_conv_app_nth)
  next
    case False
    then have short: "length (ess ! m) < cap" using cap m(2) by (meson le_neq_implies_less)
    have es: "es = concat (take (Suc m) ess) @ concat (drop (Suc m) ess) @ rest"
      unfolding assms(2) by (metis append.assoc append_take_drop_id concat_append)
    let ?later = "concat (drop (Suc m) ess) @ rest"
    have "es ! k = ?later ! (k - ?run (Suc m))" "k - ?run (Suc m) < length ?later"
      using False k(1) unfolding es nth_append by auto
    then have "es ! k \<in> set ?later" by (metis nth_mem)
    then have "nows ! m < fst (es ! k)" using each m(2) short by blast
    moreover have "nows ! i \<le> nows ! m" using m assms(3) by (simp add: sorted_nth_mono)
    ultimately show ?thesis using k(2) by simp
  qed
  have "min (Suc k) (Suc j * cap) \<le> ?run (Suc (i + j))" if "i + j < length nows" for j
    using that
  proof (induction j)
    case 0
    then show ?case using next_drain [of i] by simp
  next
    case (Suc j)
    then show ?case using next_drain [of "i + Suc j"] by (simp add: min_def split: if_splits)
  qed
  from this [OF k(3)] show ?thesis
    using dividend_less_div_times [OF assms(4), of k] by (simp add: min_def add.commute split: if_splits)
qed

end

section \<open>The fluid queue keeps it\<close>

definition fluid_queue_ok :: "fluid_queue \<Rightarrow> bool" where
  "fluid_queue_ok q \<longleftrightarrow> buckets_ok (fq_scheduled q) \<and> fq_entries q = entry_count (fq_scheduled q)"

definition fluid_entries :: "fluid_queue \<Rightarrow> (nat \<times> pos) list" where
  "fluid_entries q = flat (fq_scheduled q)"

lemma fluid_scheduled_member:
  "fluid_queue_ok q \<Longrightarrow>
     (case map_of (fq_scheduled q) due of None \<Rightarrow> False | Some ps \<Rightarrow> p \<in> set ps) \<longleftrightarrow> (due, p) \<in> set (fluid_entries q)"
  by (simp add: fluid_queue_ok_def buckets_ok_def fluid_entries_def set_flat bucket_at_def split: option.split)

lemma fluid_schedule_at_law:
  assumes "fluid_queue_ok q" "fluid_schedule_at q due p = (s, q')"
  shows "fluid_queue_ok q' \<and> fq_last q' = fq_last q \<and>
    (case s of
       Deduplicated \<Rightarrow> (due, p) \<in> set (fluid_entries q) \<and> fluid_entries q' = fluid_entries q
     | Refused \<Rightarrow> length (fluid_entries q) \<ge> MAX_FLUID_QUEUE_ENTRIES \<and> fluid_entries q' = fluid_entries q
     | Scheduled \<Rightarrow> (due, p) \<notin> set (fluid_entries q) \<and> fluid_entries q' = os_insert (due, p) (fluid_entries q) \<and>
         length (fluid_entries q') \<le> MAX_FLUID_QUEUE_ENTRIES)"
proof -
  note member = fluid_scheduled_member [OF assms(1), where due = due and p = p]
  have ok: "buckets_ok (fq_scheduled q)" and n: "fq_entries q = length (fluid_entries q)"
    using assms(1) by (simp_all add: fluid_queue_ok_def fluid_entries_def)
  show ?thesis
  proof (cases "(due, p) \<in> set (fluid_entries q)")
    case True
    then show ?thesis using assms member by (auto simp: fluid_schedule_at_def fluid_queue_ok_def fluid_entries_def)
  next
    case False
    have ins: "flat (bucket_insert due p (fq_scheduled q)) = os_insert (due, p) (fluid_entries q)"
      using flat_insert [OF ok] by (simp add: fluid_entries_def)
    have len: "length (os_insert (due, p) (fluid_entries q)) = Suc (length (fluid_entries q))"
      using length_os_insert [OF flat_ascending [OF ok]] False by (simp add: fluid_entries_def)
    show ?thesis
      using assms False member ok n ins len bucket_insert_ok [OF ok, of due p] length_flat [of "bucket_insert due p (fq_scheduled q)"]
      by (auto simp: fluid_schedule_at_def fluid_queue_ok_def fluid_entries_def split: if_splits)
  qed
qed

lemma fluid_drain_law:
  assumes "fluid_queue_ok q" "fluid_drain_due q now b = (d, q')"
  shows "fluid_queue_ok q' \<and> fd_pending d = length (fluid_entries q') \<and>
    (if (\<forall>t. fq_last q = Some t \<longrightarrow> t \<le> now)
     then fq_last q' = Some now \<and>
       fd_due d = map snd (take (fluid_ticks_per_tick b) (filter (\<lambda>e. fst e \<le> now) (fluid_entries q))) \<and>
       (fd_exhausted d \<longleftrightarrow> fluid_ticks_per_tick b < length (filter (\<lambda>e. fst e \<le> now) (fluid_entries q))) \<and>
       fluid_entries q' = drop (min (fluid_ticks_per_tick b) (length (filter (\<lambda>e. fst e \<le> now) (fluid_entries q))))
         (fluid_entries q)
     else fd_due d = [] \<and> \<not> fd_exhausted d \<and> q' = q)"
proof -
  have ok: "buckets_ok (fq_scheduled q)" using assms(1) by (simp add: fluid_queue_ok_def)
  obtain ps ex k m where dr: "drain_buckets (fluid_ticks_per_tick b) (due_ticks now (fq_scheduled q)) [] (fq_scheduled q)
      = (ps, ex, k, m)" by (metis prod.exhaust)
  note law = drain_buckets_prefix [OF ok dr, unfolded due_part_def]
  show ?thesis
  proof (cases "\<forall>t. fq_last q = Some t \<longrightarrow> t \<le> now")
    case True
    then have "\<not> (case fq_last q of None \<Rightarrow> False | Some t \<Rightarrow> now < t)" by (auto split: option.split)
    then show ?thesis using assms(2) True law
      by (auto simp: fluid_drain_due_def dr Let_def fluid_queue_ok_def fluid_entries_def)
  next
    case False
    then have "case fq_last q of None \<Rightarrow> False | Some t \<Rightarrow> now < t" by (auto split: option.split)
    then have "d = \<lparr>fd_now = now, fd_due = [], fd_exhausted = False, fd_pending = fq_entries q\<rparr>" "q' = q"
      using assms(2) by (auto simp: fluid_drain_due_def)
    then show ?thesis unfolding if_not_P [OF False] using assms(1) by (simp add: fluid_queue_ok_def fluid_entries_def)
  qed
qed

definition fluid_drain_op :: "fluid_queue \<Rightarrow> nat \<Rightarrow> nat \<Rightarrow> pos list \<times> bool \<times> fluid_queue" where
  "fluid_drain_op q now cap =
     (case fluid_drain_due q now \<lparr>fluid_ticks_per_tick = cap\<rparr> of (d, q) \<Rightarrow> (fd_due d, fd_exhausted d, q))"

interpretation fluid: tick_queue
  "\<lambda>q due p. snd (fluid_schedule_at q due p)" fluid_drain_op fluid_entries fq_last fluid_queue_ok
proof (unfold_locales, goal_cases)
  case (1 q)
  then show ?case by (simp add: fluid_queue_ok_def fluid_entries_def flat_ascending)
next
  case (2 q due p)
  then show ?case using fluid_schedule_at_law [of q due p] by (cases "fluid_schedule_at q due p") simp
next
  case (3 q due p)
  then show ?case using fluid_schedule_at_law [of q due p]
    by (cases "fluid_schedule_at q due p") (auto split: fluid_scheduled.splits)
next
  case (4 q due p)
  show ?case by (simp add: fluid_schedule_at_def)
next
  case (5 q now cap ps ex q')
  then show ?case using fluid_drain_law [of q now "\<lparr>fluid_ticks_per_tick = cap\<rparr>"]
    by (auto simp: fluid_drain_op_def split: prod.splits)
next
  case (6 q t now cap ps ex q')
  then have "\<not> (\<forall>t. fq_last q = Some t \<longrightarrow> t \<le> now)" by auto
  with 6 show ?case using fluid_drain_law [of q now "\<lparr>fluid_ticks_per_tick = cap\<rparr>"]
    by (auto simp: fluid_drain_op_def split: prod.splits)
next
  case (7 q now cap ps ex q')
  then have "\<not> (case fq_last q of None \<Rightarrow> False | Some t \<Rightarrow> now < t)" by (auto split: option.split)
  with 7 show ?case by (auto simp: fluid_drain_op_def fluid_drain_due_def Let_def split: prod.splits)
next
  case (8 q now cap ps ex q')
  then show ?case using fluid_drain_law [of q now "\<lparr>fluid_ticks_per_tick = cap\<rparr>"]
    by (auto simp: fluid_drain_op_def split: prod.splits)
qed

end
