(* ===== verification/FluidFlow.thy ===== *)
theory FluidFlow
  imports FluidQueue JavaRandom
begin

text \<open>
  \<open>crates/simulation/src/fluid/flow.rs\<close>: one due fluid tick. The world is a value of a
  type \<open>'w\<close> read and written through a \<open>fluid_world\<close> record, returned with the tick queue and
  the outcome. The only draw is \<open>get_spread_delay\<close>, whose result is an option because a
  bounded draw is one.
\<close>

definition STONE :: rstring where "STONE = lit ''minecraft:stone''"
definition COBBLESTONE :: rstring where "COBBLESTONE = lit ''minecraft:cobblestone''"
definition OBSIDIAN :: rstring where "OBSIDIAN = lit ''minecraft:obsidian''"

text \<open>The binary32 of \<open>0.444_444_45\<close>.\<close>

definition LAVA_REPLACEABLE_HEIGHT :: u32 where "LAVA_REPLACEABLE_HEIGHT = 0x3EE38E39"

definition POSSIBLE_FLOW_DIRECTIONS :: "dir list" where
  "POSSIBLE_FLOW_DIRECTIONS = [Down, North, South, West, East]"

definition UPDATE_ORDER :: "dir list" where
  "UPDATE_ORDER = [West, East, Down, Up, North, South]"

record fluid_tick_outcome =
  fo_level_changed :: bool
  fo_removed :: bool
  fo_spread_writes :: nat
  fo_converted :: bool
  fo_did_work :: bool

definition default_tick_outcome :: fluid_tick_outcome where
  "default_tick_outcome = \<lparr>fo_level_changed = False, fo_removed = False, fo_spread_writes = 0,
     fo_converted = False, fo_did_work = False\<rparr>"

section \<open>Predicates on two blocks\<close>

definition same_kind :: "fluid_state \<Rightarrow> fluid_kind \<Rightarrow> bool" where
  "same_kind f k \<longleftrightarrow> kind_of f = Some k"

definition source_state :: "fluid_kind \<Rightarrow> fluid_state" where
  "source_state k = (case k of Water \<Rightarrow> Water_Fluid body_source | Lava \<Rightarrow> Lava_Fluid body_source)"

definition falling_state :: "fluid_kind \<Rightarrow> fluid_state" where
  "falling_state k = (case k of Water \<Rightarrow> Water_Fluid body_falling | Lava \<Rightarrow> Lava_Fluid body_falling)"

definition flowing_state :: "fluid_kind \<Rightarrow> nat \<Rightarrow> fluid_state" where
  "flowing_state k amount =
     (case k of Water \<Rightarrow> Water_Fluid (body_flowing amount) | Lava \<Rightarrow> Lava_Fluid (body_flowing amount))"

definition can_pass_through_wall :: "block_facts \<Rightarrow> block_facts \<Rightarrow> bool" where
  "can_pass_through_wall b n \<longleftrightarrow>
     (if bf_full_cube b \<or> bf_full_cube n then False else bf_can_hold_any b \<and> bf_can_hold_any n)"

definition can_maybe_pass_through :: "fluid_rules \<Rightarrow> block_facts \<Rightarrow> block_facts \<Rightarrow> bool" where
  "can_maybe_pass_through r b n \<longleftrightarrow>
     \<not> is_source_of_kind (bf_fluid n) (fr_kind r) \<and> bf_can_hold_any n \<and> can_pass_through_wall b n"

definition can_pass_through :: "fluid_rules \<Rightarrow> block_facts \<Rightarrow> block_facts \<Rightarrow> bool" where
  "can_pass_through r b n \<longleftrightarrow> can_maybe_pass_through r b n \<and> can_hold_specific_fluid n (fr_kind r)"

definition can_hold_specific :: "block_facts \<Rightarrow> fluid_kind option \<Rightarrow> bool" where
  "can_hold_specific b k \<longleftrightarrow>
     (case k of Some k \<Rightarrow> can_hold_specific_fluid b k | None \<Rightarrow> \<not> bf_water_container b)"

section \<open>Reading the world\<close>

definition get_new_liquid :: "'w fluid_world \<Rightarrow> 'w \<Rightarrow> fluid_rules \<Rightarrow> pos \<Rightarrow> block_facts \<Rightarrow> fluid_state" where
  "get_new_liquid W w r p b =
     (let (max_amount, sources) =
            foldl (\<lambda>(max_amount, sources) d.
                case fw_facts W w (offset p d) of
                  None \<Rightarrow> (max_amount, sources)
                | Some n \<Rightarrow>
                    if \<not> same_kind (bf_fluid n) (fr_kind r) then (max_amount, sources)
                    else if \<not> can_pass_through_wall b n then (max_amount, sources)
                    else (max max_amount (fluid_amount (bf_fluid n)),
                          if fluid_is_source (bf_fluid n) then sources + 1 else sources))
              (0, 0::nat) HORIZONTAL
      in if sources \<ge> 2 \<and> fr_convert r \<and>
            (case fw_facts W w (offset p Down) of
               None \<Rightarrow> False
             | Some below \<Rightarrow> bf_full_cube below \<or> is_source_of_kind (bf_fluid below) (fr_kind r))
         then source_state (fr_kind r)
         else if (case fw_facts W w (offset p Up) of
               None \<Rightarrow> False
             | Some over \<Rightarrow> \<not> fluid_is_empty (bf_fluid over) \<and> same_kind (bf_fluid over) (fr_kind r) \<and>
                 can_pass_through_wall b over)
         then falling_state (fr_kind r)
         else if max_amount \<le> drop_off r then No_Fluid
         else flowing_state (fr_kind r) (max_amount - drop_off r))"

definition fluid_height :: "'w fluid_world \<Rightarrow> 'w \<Rightarrow> fluid_state \<Rightarrow> pos \<Rightarrow> u32" where
  "fluid_height W w f p =
     (if (case fw_facts W w (offset p Up) of
            None \<Rightarrow> False
          | Some over \<Rightarrow> same_kind (bf_fluid over) (case kind_of f of None \<Rightarrow> Water | Some k \<Rightarrow> k))
      then f32_of_int 1
      else f32_div (f32_of_int (int (fluid_amount f))) (f32_of_int 9))"

text \<open>\<open>saturating_mul\<close> is exact on the delays, which are at most 30.\<close>

definition get_spread_delay ::
  "'w fluid_world \<Rightarrow> 'w \<Rightarrow> fluid_rules \<Rightarrow> pos \<Rightarrow> fluid_state \<Rightarrow> fluid_state \<Rightarrow> random_source \<Rightarrow> (nat \<times> random_source) option"
where
  "get_spread_delay W w r p old new rng =
     (let delay = tick_delay r
      in if fr_kind r = Lava \<and> \<not> fluid_is_empty old \<and> \<not> fluid_is_empty new \<and>
            \<not> fluid_is_falling old \<and> \<not> fluid_is_falling new \<and>
            f32_lt (fluid_height W w old p) (fluid_height W w new p)
         then (case next_i32_bounded 4 rng of
             None \<Rightarrow> None
           | Some (v, rng) \<Rightarrow> Some (if v \<noteq> 0 then delay * 4 else delay, rng))
         else Some (delay, rng))"

definition is_water_hole :: "'w fluid_world \<Rightarrow> 'w \<Rightarrow> fluid_kind \<Rightarrow> pos \<Rightarrow> block_facts \<Rightarrow> bool" where
  "is_water_hole W w k p b \<longleftrightarrow>
     (case fw_facts W w (offset p Down) of
        None \<Rightarrow> False
      | Some below \<Rightarrow>
          if \<not> can_pass_through_wall b below then False
          else same_kind (bf_fluid below) k \<or> can_hold_fluid below k)"

definition source_neighbor_count :: "'w fluid_world \<Rightarrow> 'w \<Rightarrow> fluid_rules \<Rightarrow> pos \<Rightarrow> nat" where
  "source_neighbor_count W w r p =
     length (filter (\<lambda>d. case fw_facts W w (offset p d) of
         None \<Rightarrow> False | Some b \<Rightarrow> is_source_of_kind (bf_fluid b) (fr_kind r)) HORIZONTAL)"

definition can_be_replaced_with ::
  "'w fluid_world \<Rightarrow> 'w \<Rightarrow> fluid_state \<Rightarrow> fluid_kind option \<Rightarrow> dir \<Rightarrow> pos \<Rightarrow> bool"
where
  "can_be_replaced_with W w existing new d p \<longleftrightarrow>
     (case kind_of existing of
        Some Water \<Rightarrow> d = Down \<and> new \<noteq> Some Water
      | Some Lava \<Rightarrow> f32_le LAVA_REPLACEABLE_HEIGHT (fluid_height W w existing p) \<and> new = Some Water
      | None \<Rightarrow> True)"

section \<open>The sideways search\<close>

text \<open>\<open>SpreadContext\<close>: what one spread has already read.\<close>

record spread_context =
  sc_kind :: fluid_kind
  sc_facts :: "(pos, block_facts option) ordered_map"
  sc_holes :: "(pos, bool) ordered_map"

definition new_context :: "fluid_kind \<Rightarrow> spread_context" where
  "new_context k = \<lparr>sc_kind = k, sc_facts = [], sc_holes = []\<rparr>"

definition context_facts ::
  "'w fluid_world \<Rightarrow> 'w \<Rightarrow> pos \<Rightarrow> spread_context \<Rightarrow> block_facts option \<times> spread_context"
where
  "context_facts W w p c =
     (case map_of (sc_facts c) p of
        Some cached \<Rightarrow> (cached, c)
      | None \<Rightarrow> let value = fw_facts W w p in (value, c\<lparr>sc_facts := om_insert p value (sc_facts c)\<rparr>))"

definition context_is_hole :: "'w fluid_world \<Rightarrow> 'w \<Rightarrow> pos \<Rightarrow> spread_context \<Rightarrow> bool \<times> spread_context" where
  "context_is_hole W w p c =
     (case map_of (sc_holes c) p of
        Some cached \<Rightarrow> (cached, c)
      | None \<Rightarrow>
          let (b, c) = context_facts W w p c;
              value = (case b of Some b \<Rightarrow> is_water_hole W w (sc_kind c) p b | None \<Rightarrow> False)
          in (value, c\<lparr>sc_holes := om_insert p value (sc_holes c)\<rparr>))"

text \<open>
  \<open>get_slope_distance\<close>. Its loop over the horizontal faces calls the function itself, so the
  loop is the function: \<open>dirs\<close> are the faces left and \<open>best\<close> the distance so far.
\<close>

function slope_loop ::
  "'w fluid_world \<Rightarrow> 'w \<Rightarrow> fluid_rules \<Rightarrow> dir list \<Rightarrow> pos \<Rightarrow> nat \<Rightarrow> dir \<Rightarrow> block_facts \<Rightarrow> nat \<Rightarrow> spread_context \<Rightarrow>
     nat \<times> spread_context"
where
  "slope_loop W w r [] p distance came b best c = (best, c)"
| "slope_loop W w r (d # dirs) p distance came b best c =
     (if d = came then slope_loop W w r dirs p distance came b best c
      else
        let np = offset p d; (nb, c) = context_facts W w np c in
        case nb of
          None \<Rightarrow> slope_loop W w r dirs p distance came b best c
        | Some nb \<Rightarrow>
            if \<not> can_pass_through r b nb then slope_loop W w r dirs p distance came b best c
            else
              let (hole, c) = context_is_hole W w np c in
              if hole then (distance, c)
              else if distance < slope_find_distance r then
                let (found, c) = slope_loop W w r HORIZONTAL np (distance + 1) (opposite d) nb 1000 c
                in slope_loop W w r dirs p distance came b (if found < best then found else best) c
              else slope_loop W w r dirs p distance came b best c)"
  by pat_completeness auto
termination
  by (relation "measures [\<lambda>(W, w, r, dirs, p, distance, _). slope_find_distance r - distance,
        \<lambda>(W, w, r, dirs, _). length dirs]") auto

definition get_slope_distance ::
  "'w fluid_world \<Rightarrow> 'w \<Rightarrow> fluid_rules \<Rightarrow> pos \<Rightarrow> nat \<Rightarrow> dir \<Rightarrow> block_facts \<Rightarrow> spread_context \<Rightarrow> nat \<times> spread_context"
where
  "get_slope_distance W w r p distance came b c = slope_loop W w r HORIZONTAL p distance came b 1000 c"

fun spread_loop ::
  "'w fluid_world \<Rightarrow> 'w \<Rightarrow> fluid_rules \<Rightarrow> pos \<Rightarrow> block_facts \<Rightarrow> dir list \<Rightarrow> nat \<Rightarrow> (dir \<times> fluid_state) list \<Rightarrow>
     spread_context \<Rightarrow> (dir \<times> fluid_state) list \<times> spread_context"
where
  "spread_loop W w r p b [] best found c = (found, c)"
| "spread_loop W w r p b (d # dirs) best found c =
     (let np = offset p d; (nb, c) = context_facts W w np c in
      case nb of
        None \<Rightarrow> spread_loop W w r p b dirs best found c
      | Some nb \<Rightarrow>
          if \<not> can_maybe_pass_through r b nb then spread_loop W w r p b dirs best found c
          else
            let new = get_new_liquid W w r np nb in
            if \<not> can_hold_specific nb (kind_of new) then spread_loop W w r p b dirs best found c
            else
              let (hole, c) = context_is_hole W w np c;
                  (distance, c) = (if hole then (0, c) else get_slope_distance W w r np 1 (opposite d) nb c);
                  found = (if distance < best then [] else found)
              in if distance \<le> best then
                   spread_loop W w r p b dirs distance
                     (if can_be_replaced_with W w (bf_fluid nb) (kind_of new) d np then found @ [(d, new)] else found) c
                 else spread_loop W w r p b dirs best found c)"

definition get_spread ::
  "'w fluid_world \<Rightarrow> 'w \<Rightarrow> fluid_rules \<Rightarrow> pos \<Rightarrow> block_facts \<Rightarrow> spread_context \<Rightarrow>
     (dir \<times> fluid_state) list \<times> spread_context"
where
  "get_spread W w r p b c = spread_loop W w r p b HORIZONTAL 1000 [] c"

section \<open>Writing the world\<close>

definition should_spread_liquid ::
  "'w fluid_world \<Rightarrow> fluid_kind \<Rightarrow> pos \<Rightarrow> 'w \<Rightarrow> fluid_tick_outcome \<Rightarrow> bool \<times> 'w \<times> fluid_tick_outcome"
where
  "should_spread_liquid W k p w out =
     (if k \<noteq> Lava then (True, w, out)
      else case fw_facts W w p of
        None \<Rightarrow> (True, w, out)
      | Some b \<Rightarrow>
          if kind_of (bf_fluid b) \<noteq> Some Lava then (True, w, out)
          else if \<not> list_ex (\<lambda>d. case fw_facts W w (offset p (opposite d)) of
                None \<Rightarrow> False | Some probe \<Rightarrow> kind_of (bf_fluid probe) = Some Water) POSSIBLE_FLOW_DIRECTIONS
          then (True, w, out)
          else
            let target = (if fluid_is_source (bf_fluid b) then OBSIDIAN else COBBLESTONE);
                (wrote, w) = fw_set_block_named W w p target
            in (False, w, if wrote then out\<lparr>fo_converted := True\<rparr> else out))"

fun notify_loop ::
  "'w fluid_world \<Rightarrow> pos \<Rightarrow> dir list \<Rightarrow> 'w \<Rightarrow> fluid_tick_outcome \<Rightarrow> 'w \<times> fluid_tick_outcome"
where
  "notify_loop W p [] w out = (w, out)"
| "notify_loop W p (d # dirs) w out =
     (let np = offset p d in
      case (case fw_facts W w np of None \<Rightarrow> None | Some b \<Rightarrow> kind_of (bf_fluid b)) of
        None \<Rightarrow> notify_loop W p dirs w out
      | Some k \<Rightarrow> let (_, w, out) = should_spread_liquid W k np w out in notify_loop W p dirs w out)"

definition notify_neighbors :: "'w fluid_world \<Rightarrow> pos \<Rightarrow> 'w \<Rightarrow> fluid_tick_outcome \<Rightarrow> 'w \<times> fluid_tick_outcome" where
  "notify_neighbors W p w out = notify_loop W p UPDATE_ORDER w out"

definition on_place ::
  "'w fluid_world \<Rightarrow> pos \<Rightarrow> 'w \<Rightarrow> fluid_tick_outcome \<Rightarrow> bool \<times> 'w \<times> fluid_tick_outcome"
where
  "on_place W p w out =
     (case (case fw_facts W w p of None \<Rightarrow> None | Some b \<Rightarrow> kind_of (bf_fluid b)) of
        None \<Rightarrow> (True, w, out)
      | Some k \<Rightarrow> should_spread_liquid W k p w out)"

definition spread_to ::
  "'w fluid_world \<Rightarrow> fluid_rules \<Rightarrow> pos \<Rightarrow> block_facts \<Rightarrow> dir \<Rightarrow> fluid_state \<Rightarrow> nat \<Rightarrow>
     'w \<Rightarrow> fluid_queue \<Rightarrow> fluid_tick_outcome \<Rightarrow> 'w \<times> fluid_queue \<times> fluid_tick_outcome"
where
  "spread_to W r p b d f now w q out =
     (if fr_kind r = Lava \<and> d = Down \<and> kind_of (bf_fluid b) = Some Water \<and> \<not> bf_water_container b then
        let (wrote, w) = fw_set_block_named W w p STONE;
            out = (if wrote then out\<lparr>fo_converted := True\<rparr> else out);
            (w, out) = notify_neighbors W p w out
        in (w, q, out)
      else
        let (wrote, w) = fw_place_fluid W w p f;
            out = (if wrote then out\<lparr>fo_spread_writes := fo_spread_writes out + 1\<rparr> else out);
            (w, q, out) =
              (if \<not> fluid_is_empty f then
                 let (keeps, w, out) = should_spread_liquid W (fr_kind r) p w out
                 in (w, if keeps then snd (fluid_schedule q now p (tick_delay r)) else q, out)
               else (w, q, out));
            (w, out) = notify_neighbors W p w out
        in (w, q, out))"

fun spread_all ::
  "'w fluid_world \<Rightarrow> fluid_rules \<Rightarrow> pos \<Rightarrow> (dir \<times> fluid_state) list \<Rightarrow> nat \<Rightarrow>
     'w \<Rightarrow> fluid_queue \<Rightarrow> fluid_tick_outcome \<Rightarrow> 'w \<times> fluid_queue \<times> fluid_tick_outcome"
where
  "spread_all W r p [] now w q out = (w, q, out)"
| "spread_all W r p ((d, f) # ds) now w q out =
     (let target = offset p d in
      case fw_facts W w target of
        None \<Rightarrow> spread_all W r p ds now w q out
      | Some b \<Rightarrow>
          let (w, q, out) = spread_to W r target b d f now w q out in spread_all W r p ds now w q out)"

definition spread_to_sides ::
  "'w fluid_world \<Rightarrow> fluid_rules \<Rightarrow> pos \<Rightarrow> block_facts \<Rightarrow> fluid_state \<Rightarrow> nat \<Rightarrow>
     'w \<Rightarrow> fluid_queue \<Rightarrow> fluid_tick_outcome \<Rightarrow> 'w \<times> fluid_queue \<times> fluid_tick_outcome"
where
  "spread_to_sides W r p b f now w q out =
     (let amount = (if fluid_is_falling f then 7 else int (fluid_amount f) - int (drop_off r))
      in if amount \<le> 0 then (w, q, out)
         else spread_all W r p (fst (get_spread W w r p b (new_context (fr_kind r)))) now w q out)"

definition spread ::
  "'w fluid_world \<Rightarrow> fluid_rules \<Rightarrow> pos \<Rightarrow> block_facts \<Rightarrow> fluid_state \<Rightarrow> nat \<Rightarrow>
     'w \<Rightarrow> fluid_queue \<Rightarrow> fluid_tick_outcome \<Rightarrow> 'w \<times> fluid_queue \<times> fluid_tick_outcome"
where
  "spread W r p b f now w q out =
     (if fluid_is_empty f then (w, q, out)
      else
        let bp = offset p Down;
            sideways = (\<lambda>(w, q, out).
              if fluid_is_source f \<or> \<not> is_water_hole W w (fr_kind r) p b
              then spread_to_sides W r p b f now w q out else (w, q, out))
        in case fw_facts W w bp of
             None \<Rightarrow> sideways (w, q, out)
           | Some below \<Rightarrow>
               if can_maybe_pass_through r b below then
                 let new = get_new_liquid W w r bp below in
                 if can_be_replaced_with W w (bf_fluid below) (kind_of new) Down bp \<and> can_hold_specific below (kind_of new)
                 then
                   let (w, q, out) = spread_to W r bp below Down new now w q out
                   in if 3 \<le> source_neighbor_count W w r p then spread_to_sides W r p b f now w q out
                      else (w, q, out)
                 else sideways (w, q, out)
               else sideways (w, q, out))"

section \<open>One tick\<close>

text \<open>The level of a cell that is not a source, derived again from its neighbours.\<close>

definition relevel ::
  "'w fluid_world \<Rightarrow> fluid_rules \<Rightarrow> pos \<Rightarrow> block_facts \<Rightarrow> fluid_state \<Rightarrow> nat \<Rightarrow>
     'w \<Rightarrow> fluid_queue \<Rightarrow> random_source \<Rightarrow> fluid_tick_outcome \<Rightarrow>
     (block_facts \<times> fluid_state \<times> 'w \<times> fluid_queue \<times> random_source \<times> fluid_tick_outcome) option"
where
  "relevel W r p b f now w q rng out =
     (let new = get_new_liquid W w r p b in
      case get_spread_delay W w r p f new rng of
        None \<Rightarrow> None
      | Some (delay, rng) \<Rightarrow>
          Some (if fluid_is_empty new then
              let out = out\<lparr>fo_removed := True\<rparr>;
                  w = snd (fw_place_fluid W w p No_Fluid);
                  (w, out) = notify_neighbors W p w out
              in (case fw_facts W w p of Some after \<Rightarrow> after | None \<Rightarrow> b, new, w, q, rng, out)
            else if new \<noteq> f then
              let out = out\<lparr>fo_level_changed := True\<rparr>;
                  w = snd (fw_place_fluid W w p new);
                  (w, out) = notify_neighbors W p w out;
                  q' = snd (fluid_schedule q now p delay)
              in (case fw_facts W w p of Some after \<Rightarrow> after | None \<Rightarrow> b, new, w, q', rng, out)
            else (b, f, w, q, rng, out)))"

definition fluid_tick ::
  "'w fluid_world \<Rightarrow> fluid_rules \<Rightarrow> pos \<Rightarrow> nat \<Rightarrow> 'w \<Rightarrow> fluid_queue \<Rightarrow> random_source \<Rightarrow>
     (fluid_tick_outcome \<times> 'w \<times> fluid_queue \<times> random_source) option"
where
  "fluid_tick W r p now w q rng =
     (let out = default_tick_outcome in
      case fw_facts W w p of
        None \<Rightarrow> Some (out, w, q, rng)
      | Some b \<Rightarrow>
          if fluid_is_empty (bf_fluid b) then Some (out, w, q, rng)
          else
            let (keeps, w, out) = should_spread_liquid W (fr_kind r) p w out in
            if \<not> keeps then
              let (w, out) = notify_neighbors W p w out in Some (out\<lparr>fo_did_work := True\<rparr>, w, q, rng)
            else
              case (if \<not> fluid_is_source (bf_fluid b) then relevel W r p b (bf_fluid b) now w q rng out
                    else Some (b, bf_fluid b, w, q, rng, out)) of
                None \<Rightarrow> None
              | Some (b, f, w, q, rng, out) \<Rightarrow>
                  let (w, q, out) = spread W r p b f now w q out in
                  Some (out\<lparr>fo_did_work := fo_did_work out \<or> fo_level_changed out \<or> fo_removed out \<or>
                      fo_converted out \<or> fo_spread_writes out \<noteq> 0\<rparr>, w, q, rng))"

end
