(* ===== verification/FluidSearch.thy ===== *)
theory FluidSearch
  imports FluidFlow
begin

text \<open>
  The sideways search of \<open>crates/simulation/src/fluid/flow.rs\<close> against a specification
  without its cache and its depth-first order, and the levels the rules produce.
\<close>

section \<open>The cache\<close>

definition hole_at :: "'w fluid_world \<Rightarrow> 'w \<Rightarrow> fluid_kind \<Rightarrow> pos \<Rightarrow> bool" where
  "hole_at W w k p \<longleftrightarrow> (case fw_facts W w p of Some b \<Rightarrow> is_water_hole W w k p b | None \<Rightarrow> False)"

definition context_valid :: "'w fluid_world \<Rightarrow> 'w \<Rightarrow> fluid_kind \<Rightarrow> spread_context \<Rightarrow> bool" where
  "context_valid W w k c \<longleftrightarrow> sc_kind c = k \<and> om_ok (sc_facts c) \<and> om_ok (sc_holes c) \<and>
     (\<forall>p v. map_of (sc_facts c) p = Some v \<longrightarrow> v = fw_facts W w p) \<and>
     (\<forall>p v. map_of (sc_holes c) p = Some v \<longrightarrow> v = hole_at W w k p)"

lemma context_valid_new: "context_valid W w k (new_context k)"
  by (simp add: context_valid_def new_context_def)

lemma context_facts_valid:
  "context_valid W w k c \<Longrightarrow> \<exists>c'. context_facts W w p c = (fw_facts W w p, c') \<and> context_valid W w k c'"
  by (auto simp: context_facts_def context_valid_def Let_def split: option.split)

lemma context_is_hole_valid:
  assumes "context_valid W w k c"
  shows "\<exists>c'. context_is_hole W w p c = (hole_at W w k p, c') \<and> context_valid W w k c'"
proof (cases "map_of (sc_holes c) p")
  case None
  obtain c1 where c1: "context_facts W w p c = (fw_facts W w p, c1)" "context_valid W w k c1"
    using context_facts_valid [OF assms] by blast
  then have "context_valid W w k (c1\<lparr>sc_holes := om_insert p (hole_at W w k p) (sc_holes c1)\<rparr>)"
    by (simp add: context_valid_def)
  moreover have k: "sc_kind c1 = k" using c1(2) by (simp add: context_valid_def)
  have "(case fw_facts W w p of Some b \<Rightarrow> is_water_hole W w (sc_kind c1) p b | None \<Rightarrow> False) = hole_at W w k p"
    by (simp only: hole_at_def k)
  then have "context_is_hole W w p c = (hole_at W w k p, c1\<lparr>sc_holes := om_insert p (hole_at W w k p) (sc_holes c1)\<rparr>)"
    using None c1(1) by (simp add: context_is_hole_def) (simp add: Let_def)
  ultimately show ?thesis by blast
qed (use assms in \<open>auto simp: context_is_hole_def context_valid_def\<close>)

section \<open>Walks to a hole\<close>

text \<open>
  A walk of \<open>n + 1\<close> steps from a cell, the first through one of \<open>dirs\<close> and none straight
  back, over cells the fluid can pass, which ends at a hole.
\<close>

fun walk ::
  "'w fluid_world \<Rightarrow> 'w \<Rightarrow> fluid_rules \<Rightarrow> dir list \<Rightarrow> pos \<Rightarrow> dir \<Rightarrow> block_facts \<Rightarrow> nat \<Rightarrow> bool"
where
  "walk W w r dirs p came b 0 =
     list_ex (\<lambda>d. d \<noteq> came \<and> (case fw_facts W w (offset p d) of None \<Rightarrow> False
       | Some nb \<Rightarrow> can_pass_through r b nb \<and> hole_at W w (fr_kind r) (offset p d))) dirs"
| "walk W w r dirs p came b (Suc n) =
     list_ex (\<lambda>d. d \<noteq> came \<and> (case fw_facts W w (offset p d) of None \<Rightarrow> False
       | Some nb \<Rightarrow> can_pass_through r b nb \<and> walk W w r HORIZONTAL (offset p d) (opposite d) nb n)) dirs"

lemma walk_Nil [simp]: "\<not> walk W w r [] p came b n"
  by (cases n) simp_all

text \<open>The first step of a walk.\<close>

definition first_step ::
  "'w fluid_world \<Rightarrow> 'w \<Rightarrow> fluid_rules \<Rightarrow> dir \<Rightarrow> pos \<Rightarrow> dir \<Rightarrow> block_facts \<Rightarrow> nat \<Rightarrow> bool"
where
  "first_step W w r d p came b n \<longleftrightarrow> walk W w r [d] p came b n"

lemma walk_Cons:
  "walk W w r (d # dirs) p came b n \<longleftrightarrow> first_step W w r d p came b n \<or> walk W w r dirs p came b n"
  by (cases n) (simp_all add: first_step_def)

lemma first_step_blocked:
  "d = came \<or> fw_facts W w (offset p d) = None \<or>
     (\<exists>nb. fw_facts W w (offset p d) = Some nb \<and> \<not> can_pass_through r b nb) \<Longrightarrow>
   \<not> first_step W w r d p came b n"
  by (cases n) (auto simp: first_step_def)

lemma first_step_open:
  "d \<noteq> came \<Longrightarrow> fw_facts W w (offset p d) = Some nb \<Longrightarrow> can_pass_through r b nb \<Longrightarrow>
   first_step W w r d p came b n \<longleftrightarrow>
     (case n of 0 \<Rightarrow> hole_at W w (fr_kind r) (offset p d)
      | Suc m \<Rightarrow> walk W w r HORIZONTAL (offset p d) (opposite d) nb m)"
  by (cases n) (simp_all add: first_step_def)

text \<open>
  The search returns the length of a shortest walk, if one is within its reach, and
  otherwise what it started with. The bounds below a value \<open>m\<close> determine it.
\<close>

definition bounds_walk ::
  "'w fluid_world \<Rightarrow> 'w \<Rightarrow> fluid_rules \<Rightarrow> dir list \<Rightarrow> pos \<Rightarrow> nat \<Rightarrow> dir \<Rightarrow> block_facts \<Rightarrow> nat \<Rightarrow> bool"
where
  "bounds_walk W w r dirs p distance came b m \<longleftrightarrow>
     (\<exists>n. distance + n \<le> slope_find_distance r \<and> walk W w r dirs p came b n \<and> distance + n \<le> m)"

lemma bounds_walk_skip:
  "(\<And>n. \<not> first_step W w r d p came b n) \<Longrightarrow>
   bounds_walk W w r (d # dirs) p distance came b m \<longleftrightarrow> bounds_walk W w r dirs p distance came b m"
  by (simp add: bounds_walk_def walk_Cons)

lemma bounds_walk_deeper:
  assumes "d \<noteq> came" "fw_facts W w (offset p d) = Some nb" "can_pass_through r b nb"
    "\<not> hole_at W w (fr_kind r) (offset p d)"
  shows "bounds_walk W w r (d # dirs) p distance came b m \<longleftrightarrow>
    bounds_walk W w r HORIZONTAL (offset p d) (distance + 1) (opposite d) nb m \<or>
    bounds_walk W w r dirs p distance came b m"
proof -
  have f: "first_step W w r d p came b n \<longleftrightarrow>
      (\<exists>k. n = Suc k \<and> walk W w r HORIZONTAL (offset p d) (opposite d) nb k)" for n
    using assms(4) by (cases n) (simp_all add: first_step_open [OF assms(1-3)])
  show ?thesis unfolding bounds_walk_def walk_Cons f by force
qed

lemma slope_find_le: "slope_find_distance r \<le> 4"
  by (simp add: slope_find_distance_def split: fluid_kind.split)

lemma slope_loop_spec:
  assumes "context_valid W w (fr_kind r) c" "distance \<le> slope_find_distance r" "distance < best" "best \<le> 1000"
  shows "\<exists>res c'. slope_loop W w r dirs p distance came b best c = (res, c') \<and> context_valid W w (fr_kind r) c' \<and>
    (\<forall>m. res \<le> m \<longleftrightarrow> best \<le> m \<or> bounds_walk W w r dirs p distance came b m)"
  using assms
proof (induction W w r dirs p distance came b best c rule: slope_loop.induct)
  case (1 W w r p distance came b best c)
  then show ?case by (simp add: bounds_walk_def)
next
  case (2 W w r d dirs p distance came b best c)
  let ?np = "offset p d"
  show ?case
  proof (cases "d = came")
    case True
    then show ?thesis using 2(1) [OF True "2.prems"] bounds_walk_skip [OF first_step_blocked] by fastforce
  next
    case False
    obtain c1 where c1: "context_facts W w ?np c = (fw_facts W w ?np, c1)" "context_valid W w (fr_kind r) c1"
      using context_facts_valid [OF "2.prems"(1)] by blast
    show ?thesis
    proof (cases "fw_facts W w ?np")
      case None
      with 2(2) [OF False refl c1(1) [symmetric] refl None c1(2) "2.prems"(2-4)] False c1(1) show ?thesis
        using bounds_walk_skip [OF first_step_blocked, of d came W w p r b] by simp
    next
      case (Some nb)
      note s1 = False refl c1(1) [symmetric] refl Some
      show ?thesis
      proof (cases "can_pass_through r b nb")
        case blocked: False
        with 2(3) [OF s1 blocked c1(2) "2.prems"(2-4)] False c1(1) Some show ?thesis
          using bounds_walk_skip [OF first_step_blocked, of d came W w p r b] by simp
      next
        case passes: True
        then have np: "\<not> \<not> can_pass_through r b nb" by simp
        obtain c2 where c2: "context_is_hole W w ?np c1 = (hole_at W w (fr_kind r) ?np, c2)"
            "context_valid W w (fr_kind r) c2"
          using context_is_hole_valid [OF c1(2)] by blast
        show ?thesis
        proof (cases "hole_at W w (fr_kind r) ?np")
          case True
          have "walk W w r (d # dirs) p came b 0" using True False passes Some by simp
          then have "distance \<le> m \<longleftrightarrow> best \<le> m \<or> bounds_walk W w r (d # dirs) p distance came b m" for m
            using "2.prems"(2,3) unfolding bounds_walk_def by (metis add.right_neutral le_add1 le_trans less_imp_le)
          then show ?thesis using True False passes Some c1(1) c2 by simp
        next
          case dry: False
          note deeper = bounds_walk_deeper [OF False Some passes dry, of dirs distance]
          show ?thesis
          proof (cases "distance < slope_find_distance r")
            case True
            obtain found c3 where f: "slope_loop W w r HORIZONTAL ?np (distance + 1) (opposite d) nb 1000 c2 = (found, c3)"
                "context_valid W w (fr_kind r) c3"
                "\<forall>m. found \<le> m \<longleftrightarrow> 1000 \<le> m \<or> bounds_walk W w r HORIZONTAL ?np (distance + 1) (opposite d) nb m"
              using 2(4) [OF s1 np c2(1) [symmetric] refl dry True c2(2)] True
                slope_find_le [of r] by fastforce
            have "distance < found" using f(3) [rule_format, of distance] "2.prems"(3,4)
              by (fastforce simp: bounds_walk_def not_le [symmetric])
            then have "distance < (if found < best then found else best)" "(if found < best then found else best) \<le> 1000"
              using "2.prems"(3,4) by simp_all
            then obtain res c4 where g: "slope_loop W w r dirs p distance came b (if found < best then found else best) c3 = (res, c4)"
                "context_valid W w (fr_kind r) c4"
                "\<forall>m. res \<le> m \<longleftrightarrow> (if found < best then found else best) \<le> m \<or> bounds_walk W w r dirs p distance came b m"
              using 2(5) [OF s1 np c2(1) [symmetric] refl dry True f(1) [symmetric] refl f(2)] "2.prems"(2)
              by blast
            have "(if found < best then found else best) \<le> m \<longleftrightarrow> best \<le> m \<or> found \<le> m" for m by auto
            then have "res \<le> m \<longleftrightarrow> best \<le> m \<or> bounds_walk W w r (d # dirs) p distance came b m" for m
              using g(3) f(3) deeper "2.prems"(4) by auto
            then show ?thesis using False passes Some c1(1) c2(1) dry True f(1) g(1,2) by simp
          next
            case deep: False
            have "\<not> bounds_walk W w r HORIZONTAL ?np (distance + 1) (opposite d) nb m" for m
              using deep by (simp add: bounds_walk_def)
            then show ?thesis using 2(6) [OF s1 np c2(1) [symmetric] refl dry deep c2(2) "2.prems"(2-4)]
                False passes Some c1(1) c2(1) dry deep deeper by simp
          qed
        qed
      qed
    qed
  qed
qed

section \<open>The spread is along the shortest ways\<close>

definition flow_distance :: "'w fluid_world \<Rightarrow> 'w \<Rightarrow> fluid_rules \<Rightarrow> pos \<Rightarrow> dir \<Rightarrow> block_facts \<Rightarrow> nat" where
  "flow_distance W w r p d nb =
     (if hole_at W w (fr_kind r) (offset p d) then 0
      else case find (walk W w r HORIZONTAL (offset p d) (opposite d) nb) [0..<slope_find_distance r] of
          Some n \<Rightarrow> n + 1
        | None \<Rightarrow> 1000)"

lemma flow_distance_le: "flow_distance W w r p d nb \<le> 1000"
  using slope_find_le [of r] by (auto simp: flow_distance_def find_Some_iff split: option.split)

lemma get_slope_distance_spec:
  assumes "context_valid W w (fr_kind r) c" "\<not> hole_at W w (fr_kind r) (offset p d)"
  shows "\<exists>c'. get_slope_distance W w r (offset p d) 1 (opposite d) nb c = (flow_distance W w r p d nb, c') \<and>
    context_valid W w (fr_kind r) c'"
proof -
  have "1 \<le> slope_find_distance r" by (simp add: slope_find_distance_def split: fluid_kind.split)
  then obtain res c' where s: "slope_loop W w r HORIZONTAL (offset p d) 1 (opposite d) nb 1000 c = (res, c')"
      "context_valid W w (fr_kind r) c'"
      "\<And>m. res \<le> m \<longleftrightarrow> 1000 \<le> m \<or> bounds_walk W w r HORIZONTAL (offset p d) 1 (opposite d) nb m"
    using slope_loop_spec [OF assms(1), of 1 1000 HORIZONTAL "offset p d" "opposite d" nb] by fastforce
  let ?W = "walk W w r HORIZONTAL (offset p d) (opposite d) nb"
  have "res = flow_distance W w r p d nb"
  proof (cases "find ?W [0..<slope_find_distance r]")
    case None
    then have "\<not> bounds_walk W w r HORIZONTAL (offset p d) 1 (opposite d) nb m" for m
      by (auto simp: find_None_iff bounds_walk_def)
    then have "res = 1000" using s(3) by (metis nle_le order_refl)
    then show ?thesis using None assms(2) by (simp add: flow_distance_def)
  next
    case (Some n)
    then have n: "n < slope_find_distance r" "?W n" "\<And>j. j < n \<Longrightarrow> \<not> ?W j"
      by (auto simp: find_Some_iff)
    have "bounds_walk W w r HORIZONTAL (offset p d) 1 (opposite d) nb (n + 1)"
      using n(1,2) unfolding bounds_walk_def by (intro exI [of _ n]) simp
    then have "res \<le> n + 1" using s(3) by blast
    moreover have "\<not> res \<le> n"
      using n slope_find_le [of r] s(3) [of n] by (force simp: bounds_walk_def)
    ultimately show ?thesis using Some assms(2) by (simp add: flow_distance_def)
  qed
  then show ?thesis using s(1,2) by (simp add: get_slope_distance_def)
qed

text \<open>The faces a cell may flow through, in order, with the block there and its new level.\<close>

definition flow_candidate ::
  "'w fluid_world \<Rightarrow> 'w \<Rightarrow> fluid_rules \<Rightarrow> pos \<Rightarrow> block_facts \<Rightarrow> dir \<Rightarrow> (dir \<times> block_facts \<times> fluid_state) list"
where
  "flow_candidate W w r p b d =
     (case fw_facts W w (offset p d) of
        None \<Rightarrow> []
      | Some nb \<Rightarrow>
          (let new = get_new_liquid W w r (offset p d) nb
           in if can_maybe_pass_through r b nb \<and> can_hold_specific nb (kind_of new) then [(d, nb, new)] else []))"

definition flow_candidates ::
  "'w fluid_world \<Rightarrow> 'w \<Rightarrow> fluid_rules \<Rightarrow> pos \<Rightarrow> block_facts \<Rightarrow> (dir \<times> block_facts \<times> fluid_state) list"
where
  "flow_candidates W w r p b = concat (map (flow_candidate W w r p b) HORIZONTAL)"

definition spread_spec ::
  "'w fluid_world \<Rightarrow> 'w \<Rightarrow> fluid_rules \<Rightarrow> pos \<Rightarrow> block_facts \<Rightarrow> (dir \<times> fluid_state) list"
where
  "spread_spec W w r p b =
     (let cs = flow_candidates W w r p b
      in map (\<lambda>(d, nb, new). (d, new))
          (filter (\<lambda>(d, nb, new).
              can_be_replaced_with W w (bf_fluid nb) (kind_of new) d (offset p d) \<and>
              list_all (\<lambda>(e, mb, _). flow_distance W w r p d nb \<le> flow_distance W w r p e mb) cs) cs))"

text \<open>Keeping the entries of least distance while going through a list.\<close>

fun keep_least :: "('a \<Rightarrow> nat) \<Rightarrow> ('a \<Rightarrow> bool) \<Rightarrow> nat \<Rightarrow> 'a list \<Rightarrow> 'a list \<Rightarrow> 'a list" where
  "keep_least D R best found [] = found"
| "keep_least D R best found (x # xs) =
     (let found = (if D x < best then [] else found)
      in if D x \<le> best then keep_least D R (D x) (if R x then found @ [x] else found) xs
         else keep_least D R best found xs)"

lemma keep_least_filter:
  "keep_least D R best found xs =
     (if \<exists>x \<in> set xs. D x < best then filter (\<lambda>x. R x \<and> (\<forall>y \<in> set xs. D x \<le> D y)) xs
      else found @ filter (\<lambda>x. R x \<and> D x \<le> best) xs)"
proof (induction xs arbitrary: best found)
  case (Cons x xs)
  consider "D x < best" | "D x = best" | "best < D x" by linarith
  then show ?case
  proof cases
    case 1
    show ?thesis
    proof (cases "\<exists>y \<in> set xs. D y < D x")
      case True
      then have "filter (\<lambda>z. R z \<and> D z \<le> D x \<and> (\<forall>y \<in> set xs. D z \<le> D y)) xs =
          filter (\<lambda>z. R z \<and> (\<forall>y \<in> set xs. D z \<le> D y)) xs"
        by (intro filter_cong) fastforce+
      then show ?thesis using 1 True by (auto simp: Cons.IH not_le)
    next
      case False
      then have "filter (\<lambda>z. R z \<and> D z \<le> D x \<and> (\<forall>y \<in> set xs. D z \<le> D y)) xs =
          filter (\<lambda>z. R z \<and> D z \<le> D x) xs"
        by (intro filter_cong) fastforce+
      then show ?thesis using 1 False by (auto simp: Cons.IH not_less)
    qed
  next
    case 2
    have "filter (\<lambda>z. R z \<and> D z \<le> best \<and> (\<forall>y \<in> set xs. D z \<le> D y)) xs =
        filter (\<lambda>z. R z \<and> (\<forall>y \<in> set xs. D z \<le> D y)) xs" if "\<exists>y \<in> set xs. D y < best"
      using that by (intro filter_cong) fastforce+
    then show ?thesis using 2 by (auto simp: Cons.IH not_le not_less)
  next
    case 3
    have "filter (\<lambda>z. R z \<and> D z \<le> D x \<and> (\<forall>y \<in> set xs. D z \<le> D y)) xs =
        filter (\<lambda>z. R z \<and> (\<forall>y \<in> set xs. D z \<le> D y)) xs" if "\<exists>y \<in> set xs. D y < best"
      using that 3 by (intro filter_cong) fastforce+
    then show ?thesis using 3 by (auto simp: Cons.IH not_le not_less)
  qed
qed simp

lemma spread_loop_keeps:
  assumes "context_valid W w (fr_kind r) c"
  shows "fst (spread_loop W w r p b dirs best (map (\<lambda>(d, nb, new). (d, new)) found) c) =
    map (\<lambda>(d, nb, new). (d, new))
      (keep_least (\<lambda>(d, nb, new). flow_distance W w r p d nb)
        (\<lambda>(d, nb, new). can_be_replaced_with W w (bf_fluid nb) (kind_of new) d (offset p d))
        best found (concat (map (flow_candidate W w r p b) dirs)))"
  using assms
proof (induction dirs arbitrary: best found c)
  case (Cons d dirs)
  let ?np = "offset p d"
  obtain c1 where c1: "context_facts W w ?np c = (fw_facts W w ?np, c1)" "context_valid W w (fr_kind r) c1"
    using context_facts_valid [OF Cons.prems] by blast
  show ?case
  proof (cases "fw_facts W w ?np")
    case None
    then show ?thesis using Cons.IH [OF c1(2)] c1(1) by (simp add: flow_candidate_def)
  next
    case (Some nb)
    let ?new = "get_new_liquid W w r ?np nb"
    show ?thesis
    proof (cases "can_maybe_pass_through r b nb \<and> can_hold_specific nb (kind_of ?new)")
      case False
      then show ?thesis using Cons.IH [OF c1(2)] c1(1) Some by (auto simp: flow_candidate_def Let_def)
    next
      case True
      obtain c2 where c2: "context_is_hole W w ?np c1 = (hole_at W w (fr_kind r) ?np, c2)"
          "context_valid W w (fr_kind r) c2"
        using context_is_hole_valid [OF c1(2)] by blast
      have "\<exists>c3. (if hole_at W w (fr_kind r) ?np then (0, c2) else get_slope_distance W w r ?np 1 (opposite d) nb c2) =
          (flow_distance W w r p d nb, c3) \<and> context_valid W w (fr_kind r) c3"
        using get_slope_distance_spec [OF c2(2)] c2(2) by (auto simp: flow_distance_def)
      then obtain c3 where c3: "(if hole_at W w (fr_kind r) ?np then (0, c2) else get_slope_distance W w r ?np 1 (opposite d) nb c2) =
          (flow_distance W w r p d nb, c3)" "context_valid W w (fr_kind r) c3" by blast
      let ?F = "map (\<lambda>(d, nb, new). (d, new)) found"
      let ?R = "can_be_replaced_with W w (bf_fluid nb) (kind_of ?new) d ?np"
      let ?D = "flow_distance W w r p d nb"
      let ?G = "if ?D < best then [] else ?F"
      have split: "(case (if hole_at W w (fr_kind r) ?np then (0, c2) else get_slope_distance W w r ?np 1 (opposite d) nb c2) of
          (distance, c) \<Rightarrow> f distance c) = f ?D c3" for f :: "nat \<Rightarrow> spread_context \<Rightarrow> (dir \<times> fluid_state) list \<times> spread_context"
        unfolding c3(1) by simp
      have step: "spread_loop W w r p b (d # dirs) best ?F c =
          (if ?D \<le> best then spread_loop W w r p b dirs ?D (if ?R then ?G @ [(d, ?new)] else ?G) c3
           else spread_loop W w r p b dirs best ?G c3)"
        unfolding spread_loop.simps Let_def c1(1) prod.case Some option.case c2(1) split using True by simp
      have cand: "concat (map (flow_candidate W w r p b) (d # dirs)) =
          (d, nb, ?new) # concat (map (flow_candidate W w r p b) dirs)"
        using True Some by (simp add: flow_candidate_def Let_def)
      note ih = Cons.IH [OF c3(2)]
      have app: "fst (spread_loop W w r p b dirs bst (?F @ [(d, ?new)]) c3) =
          map (\<lambda>(d, nb, new). (d, new))
            (keep_least (\<lambda>(d, nb, new). flow_distance W w r p d nb)
              (\<lambda>(d, nb, new). can_be_replaced_with W w (bf_fluid nb) (kind_of new) d (offset p d))
              bst (found @ [(d, nb, ?new)]) (concat (map (flow_candidate W w r p b) dirs)))" for bst
        using ih [of bst "found @ [(d, nb, ?new)]"] by simp
      show ?thesis unfolding step cand
        using app ih [of _ found] ih [of _ "[]"] ih [of _ "[(d, nb, ?new)]"]
        by (cases "?D < best"; cases "?D \<le> best"; cases ?R) simp_all
    qed
  qed
qed simp

text \<open>
  C27. \<open>get_spread\<close>, with its cache and its bounded depth-first search, returns exactly the
  faces whose shortest way to a hole is the least among all the faces the cell may flow
  through, with their new levels, in the order of the faces.
\<close>

theorem spread_takes_shortest_ways:
  "fst (get_spread W w r p b (new_context (fr_kind r))) = spread_spec W w r p b"
proof -
  let ?cs = "flow_candidates W w r p b"
  let ?D = "\<lambda>(d, nb, new). flow_distance W w r p d nb"
  let ?R = "\<lambda>(d, nb, new). can_be_replaced_with W w (bf_fluid nb) (kind_of new) d (offset p d)"
  have le: "?D x \<le> 1000" for x by (cases x) (simp add: flow_distance_le)
  have "keep_least ?D ?R 1000 [] ?cs = filter (\<lambda>x. ?R x \<and> (\<forall>y \<in> set ?cs. ?D x \<le> ?D y)) ?cs"
  proof (cases "\<exists>x \<in> set ?cs. ?D x < 1000")
    case False
    then have "\<forall>x \<in> set ?cs. ?D x = 1000" using le by (metis le_neq_implies_less)
    then show ?thesis using False by (simp add: keep_least_filter cong: filter_cong)
  qed (simp add: keep_least_filter)
  also have "\<dots> = filter (\<lambda>(d, nb, new).
              can_be_replaced_with W w (bf_fluid nb) (kind_of new) d (offset p d) \<and>
              list_all (\<lambda>(e, mb, _). flow_distance W w r p d nb \<le> flow_distance W w r p e mb) ?cs) ?cs"
    by (intro filter_cong) (auto simp: list_all_iff)
  finally have least: "keep_least ?D ?R 1000 [] ?cs = filter (\<lambda>(d, nb, new).
              can_be_replaced_with W w (bf_fluid nb) (kind_of new) d (offset p d) \<and>
              list_all (\<lambda>(e, mb, _). flow_distance W w r p d nb \<le> flow_distance W w r p e mb) ?cs) ?cs" .
  have "fst (spread_loop W w r p b HORIZONTAL 1000 [] (new_context (fr_kind r))) =
      map (\<lambda>(d, nb, new). (d, new)) (keep_least ?D ?R 1000 [] ?cs)"
    using spread_loop_keeps [OF context_valid_new, where found = "[]"] by (simp add: flow_candidates_def)
  then show ?thesis unfolding get_spread_def spread_spec_def Let_def least .
qed

end
