(* ===== verification/FluidLaws.thy ===== *)
theory FluidLaws
  imports FluidFlow
begin

text \<open>
  What a fluid tick does to any world that keeps the contract of the trait \<open>FluidWorld\<close>:
  where it writes, what it reports, and that it leaves no lava in contact with water that
  was not in contact before.
\<close>

section \<open>New levels\<close>

lemma new_liquid_cases:
  obtains "get_new_liquid W w r p b = source_state (fr_kind r)"
  | "get_new_liquid W w r p b = falling_state (fr_kind r)"
  | "get_new_liquid W w r p b = No_Fluid"
  | m s where "get_new_liquid W w r p b = flowing_state (fr_kind r) (m - drop_off r)" "drop_off r < m"
      "foldl (\<lambda>(m, s) d. case fw_facts W w (offset p d) of
                  None \<Rightarrow> (m, s)
                | Some n \<Rightarrow>
                    if \<not> same_kind (bf_fluid n) (fr_kind r) then (m, s)
                    else if \<not> can_pass_through_wall b n then (m, s)
                    else (max m (fluid_amount (bf_fluid n)),
                          if fluid_is_source (bf_fluid n) then s + 1 else s))
              (0, 0::nat) HORIZONTAL = (m, s)"
proof (cases "foldl (\<lambda>(m, s) d. case fw_facts W w (offset p d) of
                  None \<Rightarrow> (m, s)
                | Some n \<Rightarrow>
                    if \<not> same_kind (bf_fluid n) (fr_kind r) then (m, s)
                    else if \<not> can_pass_through_wall b n then (m, s)
                    else (max m (fluid_amount (bf_fluid n)),
                          if fluid_is_source (bf_fluid n) then s + 1 else s))
              (0, 0::nat) HORIZONTAL")
  case (Pair m s)
  show ?thesis
    using that unfolding get_new_liquid_def Pair Let_def prod.case by (smt (verit) not_le)
qed

lemma states_simps [simp]:
  "kind_of (source_state k) = Some k" "kind_of (falling_state k) = Some k" "kind_of (flowing_state k n) = Some k"
  "body_of (source_state k) = Some body_source" "body_of (falling_state k) = Some body_falling"
  "body_of (flowing_state k n) = Some (body_flowing n)"
  by (cases k; simp add: source_state_def falling_state_def flowing_state_def)+

lemma new_liquid_kind: "kind_of (get_new_liquid W w r p b) \<in> {None, Some (fr_kind r)}"
  by (cases rule: new_liquid_cases [of W w r p b]) simp_all

lemma new_liquid_kind_full: "\<not> fluid_is_empty (get_new_liquid W w r p b) \<Longrightarrow> kind_of (get_new_liquid W w r p b) = Some (fr_kind r)"
  using new_liquid_kind [of W w r p b]
  by (cases "get_new_liquid W w r p b") (simp_all add: fluid_is_empty_def)

text \<open>
  The level a cell is given from neighbours of at most 8 has an amount of at most 8, and
  the block level it is written at reads back as the same fluid: the body the encoding
  confuses with a source, flowing at 8, is never produced.
\<close>

lemma new_liquid_reads_back:
  assumes "\<forall>q n. fw_facts W w q = Some n \<longrightarrow> fluid_amount (bf_fluid n) \<le> 8"
    "get_new_liquid W w r p b \<noteq> No_Fluid"
  shows "fluid_ok (get_new_liquid W w r p b) \<and>
    from_block_level (fr_kind r) (block_level (get_new_liquid W w r p b)) = get_new_liquid W w r p b"
proof -
  let ?f = "get_new_liquid W w r p b"
  have "fluid_ok ?f \<and> kind_of ?f = Some (fr_kind r) \<and> \<not> (fluid_amount ?f = 8 \<and> \<not> fluid_is_source ?f \<and> \<not> fluid_is_falling ?f)"
  proof (cases rule: new_liquid_cases [of W w r p b])
    case (4 m s)
    let ?step = "\<lambda>(m, s) d. case fw_facts W w (offset p d) of
                  None \<Rightarrow> (m, s)
                | Some n \<Rightarrow>
                    if \<not> same_kind (bf_fluid n) (fr_kind r) then (m, s)
                    else if \<not> can_pass_through_wall b n then (m, s)
                    else (max m (fluid_amount (bf_fluid n)),
                          if fluid_is_source (bf_fluid n) then s + 1 else s)"
    have step: "fst (?step a d) \<le> 8" if "fst a \<le> 8" for a :: "nat \<times> nat" and d
      using that assms(1) [rule_format, of "offset p d"] by (cases a) (simp split: option.split)
    have "fst (foldl ?step a ds) \<le> 8" if "fst a \<le> 8" for a :: "nat \<times> nat" and ds
      using that
    proof (induction ds arbitrary: a)
      case (Cons d ds)
      show ?case using Cons.IH [OF step [OF Cons.prems]] by (simp only: foldl.simps)
    qed simp
    from this [of "(0, 0)" HORIZONTAL] have "m \<le> 8" unfolding 4(3) by simp
    moreover have "1 \<le> drop_off r" by (simp add: drop_off_def split: fluid_kind.split)
    ultimately show ?thesis using 4(2)
      by (simp add: 4(1) fluid_ok_def body_ok_def body_flowing_def fluid_amount_def fluid_is_source_def fluid_is_falling_def) linarith
  qed (use assms(2) in \<open>simp_all add: fluid_ok_def body_ok_def body_source_def body_falling_def fluid_is_source_def
      fluid_is_falling_def\<close>)
  then show ?thesis using fluid_round_trip [of ?f "fr_kind r"] by blast
qed

section \<open>The contract\<close>

definition kind_at :: "'w fluid_world \<Rightarrow> 'w \<Rightarrow> pos \<Rightarrow> fluid_kind option" where
  "kind_at W w p = (case fw_facts W w p of None \<Rightarrow> None | Some b \<Rightarrow> kind_of (bf_fluid b))"

definition same_except :: "'w fluid_world \<Rightarrow> pos set \<Rightarrow> 'w \<Rightarrow> 'w \<Rightarrow> bool" where
  "same_except W S w w' \<longleftrightarrow>
     (\<forall>x. (fw_facts W w' x = None) = (fw_facts W w x = None)) \<and> (\<forall>x. x \<notin> S \<longrightarrow> fw_facts W w' x = fw_facts W w x)"

lemma same_except_refl [simp]: "same_except W S w w"
  by (simp add: same_except_def)

lemma same_except_trans: "same_except W S w w' \<Longrightarrow> same_except W T w' w'' \<Longrightarrow> same_except W (S \<union> T) w w''"
  by (simp add: same_except_def)

lemma same_except_mono: "same_except W S w w' \<Longrightarrow> S \<subseteq> T \<Longrightarrow> same_except W T w w'"
  by (auto simp: same_except_def)

text \<open>Lava at \<open>x\<close> beside or below water.\<close>

definition touches :: "'w fluid_world \<Rightarrow> 'w \<Rightarrow> pos \<Rightarrow> bool" where
  "touches W w x \<longleftrightarrow> kind_at W w x = Some Lava \<and>
     (\<exists>d \<in> set POSSIBLE_FLOW_DIRECTIONS. kind_at W w (offset x (opposite d)) = Some Water)"

lemma touches_before:
  assumes "same_except W {p} w w'" "kind_at W w' p = Some Lava \<longrightarrow> kind_at W w p = Some Lava" "touches W w' p"
  shows "touches W w p"
proof -
  obtain d where d: "d \<in> set POSSIBLE_FLOW_DIRECTIONS" "kind_at W w' (offset p (opposite d)) = Some Water"
    using assms(3) by (auto simp: touches_def)
  then have "offset p (opposite d) \<noteq> p" using assms(3) by (auto simp: touches_def)
  then have "kind_at W w (offset p (opposite d)) = Some Water"
    using d(2) assms(1) by (simp add: same_except_def kind_at_def)
  then show ?thesis using d(1) assms(2,3) by (auto simp: touches_def)
qed

text \<open>The blocks that differ were lava and hold no fluid any more.\<close>

definition hardens :: "'w fluid_world \<Rightarrow> 'w \<Rightarrow> 'w \<Rightarrow> bool" where
  "hardens W w w' \<longleftrightarrow>
     (\<forall>x. fw_facts W w' x = fw_facts W w x \<or> kind_at W w x = Some Lava \<and> kind_at W w' x = None)"

lemma hardens_refl [simp]: "hardens W w w"
  by (simp add: hardens_def)

lemma hardens_trans: "hardens W w w' \<Longrightarrow> hardens W w' w'' \<Longrightarrow> hardens W w w''"
  unfolding hardens_def kind_at_def by (metis option.distinct(1))

lemma hardens_kind: "hardens W w w' \<Longrightarrow> kind_at W w' x = Some k \<Longrightarrow> kind_at W w x = Some k"
  unfolding hardens_def kind_at_def by (metis option.distinct(1))

lemma hardens_touches: "hardens W w w' \<Longrightarrow> touches W w' x \<Longrightarrow> touches W w x"
  unfolding touches_def by (meson hardens_kind)

text \<open>What the outcome of a tick reports: if nothing, every block is the same.\<close>

definition busy :: "fluid_tick_outcome \<Rightarrow> bool" where
  "busy out \<longleftrightarrow> fo_level_changed out \<or> fo_removed out \<or> fo_converted out \<or> fo_spread_writes out \<noteq> 0"

definition reports :: "'w fluid_world \<Rightarrow> 'w \<Rightarrow> fluid_tick_outcome \<Rightarrow> 'w \<Rightarrow> fluid_tick_outcome \<Rightarrow> bool" where
  "reports W w out w' out' \<longleftrightarrow> (busy out \<longrightarrow> busy out') \<and> (\<not> busy out' \<longrightarrow> fw_facts W w' = fw_facts W w)"

lemma reports_refl [simp]: "reports W w out w out"
  by (simp add: reports_def)

lemma reports_trans: "reports W w out w' out' \<Longrightarrow> reports W w' out' w'' out'' \<Longrightarrow> reports W w out w'' out''"
  by (auto simp: reports_def)

lemma reports_busy [simp]: "busy out' \<Longrightarrow> reports W w out w' out'"
  by (simp add: reports_def)

text \<open>A cell and its six neighbours, and the cells within two steps.\<close>

definition around :: "pos \<Rightarrow> pos set" where
  "around p = insert p (range (offset p))"

definition within_two :: "pos \<Rightarrow> pos set" where
  "within_two p = \<Union> (around ` around p)"

lemma around_self [simp]: "p \<in> around p" "offset p d \<in> around p"
  by (simp_all add: around_def)

lemma around_within [simp]: "around p \<subseteq> within_two p" "around (offset p d) \<subseteq> within_two p"
  by (auto simp: within_two_def around_def)

definition in_i32 :: "pos \<Rightarrow> bool" where
  "in_i32 p \<longleftrightarrow> (\<forall>c \<in> {px p, py p, pz p}. - (2 ^ 31) \<le> c \<and> c < 2 ^ 31)"

lemma offset_back: "in_i32 x \<Longrightarrow> offset x d \<noteq> x \<Longrightarrow> offset (offset x d) (opposite d) = x"
  by (cases d; cases x) (auto simp: offset_def pos_offset_def in_i32_def i32_sat_add_def)

locale fluid_laws =
  fixes W :: "'w fluid_world" and inv :: "'w \<Rightarrow> bool"
  assumes place: "inv w \<Longrightarrow> fw_facts W w p = Some b \<Longrightarrow> fw_place_fluid W w p f = (wrote, w') \<Longrightarrow>
      inv w' \<and> same_except W {p} w w' \<and> (\<not> wrote \<longrightarrow> fw_facts W w' = fw_facts W w) \<and>
      kind_at W w' p \<in> {kind_of (bf_fluid b), kind_of f}"
    and harden: "inv w \<Longrightarrow> kind_at W w p \<noteq> None \<Longrightarrow> name \<in> {STONE, COBBLESTONE, OBSIDIAN} \<Longrightarrow>
      fw_set_block_named W w p name = (wrote, w') \<Longrightarrow>
      wrote \<and> inv w' \<and> same_except W {p} w w' \<and> kind_at W w' p = None"
begin

lemma should_spread_cases:
  assumes "inv w" "should_spread_liquid W k p w out = (keeps, w', out')"
  shows "(\<not> (k = Lava \<and> touches W w p) \<and> keeps \<and> w' = w \<and> out' = out) \<or>
    (k = Lava \<and> touches W w p \<and> \<not> keeps \<and> inv w' \<and> same_except W {p} w w' \<and> kind_at W w' p = None \<and>
     out' = out\<lparr>fo_converted := True\<rparr>)"
proof (cases "k = Lava \<and> touches W w p")
  case True
  then obtain b where b: "fw_facts W w p = Some b" "kind_of (bf_fluid b) = Some Lava"
    by (auto simp: touches_def kind_at_def split: option.splits)
  have probe: "list_ex (\<lambda>d. case fw_facts W w (offset p (opposite d)) of
      None \<Rightarrow> False | Some probe \<Rightarrow> kind_of (bf_fluid probe) = Some Water) POSSIBLE_FLOW_DIRECTIONS"
    using True by (auto simp: touches_def kind_at_def list_ex_iff split: option.splits)
  let ?name = "if fluid_is_source (bf_fluid b) then OBSIDIAN else COBBLESTONE"
  obtain wrote v where v: "fw_set_block_named W w p ?name = (wrote, v)" by fastforce
  have "kind_at W w p \<noteq> None" using b by (simp add: kind_at_def)
  from harden [OF assms(1) this _ v] show ?thesis
    using assms(2) True b probe v by (auto simp: should_spread_liquid_def Let_def)
next
  case False
  then show ?thesis
    using assms(2) unfolding should_spread_liquid_def touches_def kind_at_def
    by (auto simp: list_ex_iff split: option.splits if_splits)
qed

lemma should_spread_hardens:
  assumes "inv w" "should_spread_liquid W k p w out = (keeps, w', out')"
  shows "inv w' \<and> same_except W {p} w w' \<and> hardens W w w' \<and> reports W w out w' out' \<and> (k = Lava \<longrightarrow> \<not> touches W w' p)"
  using should_spread_cases [OF assms]
proof
  assume hard: "k = Lava \<and> touches W w p \<and> \<not> keeps \<and> inv w' \<and> same_except W {p} w w' \<and> kind_at W w' p = None \<and>
     out' = out\<lparr>fo_converted := True\<rparr>"
  have "fw_facts W w' x = fw_facts W w x \<or> kind_at W w x = Some Lava \<and> kind_at W w' x = None" for x
    using hard by (cases "x = p") (simp_all add: same_except_def touches_def)
  then have "hardens W w w'" by (simp add: hardens_def)
  then show ?thesis using hard by (simp add: reports_def busy_def touches_def)
qed (use assms(1) in simp)

lemma notify_loop_law:
  assumes "inv w" "notify_loop W p ds w out = (w', out')"
  shows "inv w' \<and> same_except W (offset p ` set ds) w w' \<and> hardens W w w' \<and> reports W w out w' out' \<and>
    (\<forall>d \<in> set ds. \<not> touches W w' (offset p d))"
  using assms
proof (induction ds arbitrary: w out)
  case (Cons d ds)
  let ?np = "offset p d"
  show ?case
  proof (cases "kind_at W w ?np")
    case None
    then have "notify_loop W p ds w out = (w', out')" using Cons.prems(2) by (simp add: kind_at_def)
    note ih = Cons.IH [OF Cons.prems(1) this]
    have "\<not> touches W w' ?np" using ih None by (metis hardens_touches option.distinct(1) touches_def)
    then show ?thesis using ih same_except_mono [of W "offset p ` set ds" w w' "offset p ` set (d # ds)"] by auto
  next
    case (Some k)
    obtain keeps v o1 where s: "should_spread_liquid W k ?np w out = (keeps, v, o1)" by (metis prod_cases3)
    note h = should_spread_hardens [OF Cons.prems(1) s]
    have "notify_loop W p ds v o1 = (w', out')" using Cons.prems(2) Some s by (simp add: kind_at_def)
    note ih = Cons.IH [OF conjunct1 [OF h] this]
    have "k = Lava" if "touches W v ?np"
    proof -
      have "kind_at W v ?np = Some Lava" using that by (simp add: touches_def)
      then have "kind_at W w ?np = Some Lava" by (rule hardens_kind [OF conjunct1 [OF conjunct2 [OF conjunct2 [OF h]]]])
      then show ?thesis using Some by simp
    qed
    then have "\<not> touches W v ?np" using h by blast
    then have "\<not> touches W w' ?np" using ih hardens_touches [of W v w' ?np] by blast
    moreover have "same_except W (offset p ` set (d # ds)) w w'"
      using same_except_mono [OF same_except_trans [of W "{?np}" w v "offset p ` set ds" w']] h ih by auto
    ultimately show ?thesis using h ih by (auto intro: hardens_trans reports_trans)
  qed
qed simp

lemma update_order_all: "set UPDATE_ORDER = UNIV"
proof -
  have "d \<in> set UPDATE_ORDER" for d by (cases d) (simp_all add: UPDATE_ORDER_def)
  then show ?thesis by blast
qed

text \<open>One write and what follows it.\<close>

definition settled :: "pos set \<Rightarrow> 'w \<Rightarrow> fluid_tick_outcome \<Rightarrow> 'w \<Rightarrow> fluid_tick_outcome \<Rightarrow> bool" where
  "settled S w out w' out' \<longleftrightarrow> inv w' \<and> same_except W S w w' \<and> reports W w out w' out' \<and>
     (\<forall>x. in_i32 x \<and> touches W w' x \<longrightarrow> touches W w x)"

lemma settled_refl: "inv w \<Longrightarrow> settled S w out w out"
  by (simp add: settled_def same_except_def)

lemma settled_trans:
  "settled S w out w' out' \<Longrightarrow> settled S w' out' w'' out'' \<Longrightarrow> settled S w out w'' out''"
  unfolding settled_def using reports_trans same_except_trans [of W S w w' S w''] by auto

lemma settled_mono: "settled S w out w' out' \<Longrightarrow> S \<subseteq> T \<Longrightarrow> settled T w out w' out'"
  unfolding settled_def using same_except_mono [of W S w w' T] by blast

lemma notify_settles:
  assumes "inv v" "same_except W {p} w v" "touches W v p \<longrightarrow> touches W w p" "reports W w out v o1"
    "notify_neighbors W p v o1 = (w', out')"
  shows "settled (around p) w out w' out'"
proof -
  note law = notify_loop_law [OF assms(1) assms(5) [unfolded notify_neighbors_def], unfolded update_order_all]
  have "touches W w x" if x: "in_i32 x" "touches W w' x" for x
  proof (cases "x = p")
    case True
    then show ?thesis using x(2) law assms(3) hardens_touches [of W v w' x] by blast
  next
    case False
    have v: "touches W v x" using x(2) law hardens_touches [of W v w' x] by blast
    then obtain d where d: "d \<in> set POSSIBLE_FLOW_DIRECTIONS" "kind_at W v (offset x (opposite d)) = Some Water"
      by (auto simp: touches_def)
    have "offset x (opposite d) \<noteq> p"
    proof
      assume e: "offset x (opposite d) = p"
      then have "offset p d = x" using offset_back [OF x(1), of "opposite d"] False by simp
      then show False using law x(2) by blast
    qed
    then have "kind_at W w (offset x (opposite d)) = Some Water" "kind_at W w x = Some Lava"
      using d(2) v False assms(2) by (simp_all add: same_except_def kind_at_def touches_def)
    then show ?thesis using d(1) by (auto simp: touches_def)
  qed
  moreover have "same_except W (around p) w w'"
    using same_except_mono [OF same_except_trans [OF assms(2)], of "range (offset p)" w' "around p"] law
    by (auto simp: around_def)
  ultimately show ?thesis using law reports_trans [OF assms(4)] by (auto simp: settled_def)
qed

lemma place_settles:
  assumes "inv w" "fw_facts W w p = Some b" "kind_of f \<in> {None, Some k}" "fw_place_fluid W w p f = (wrote, v)"
    "busy out \<longrightarrow> busy o1" "wrote \<longrightarrow> busy o1"
  shows "inv v \<and> same_except W {p} w v \<and> reports W w out v o1 \<and>
    (k = Water \<or> kind_of f = None \<or> kind_at W w p = Some Lava \<longrightarrow> touches W v p \<longrightarrow> touches W w p)"
proof -
  note law = place [OF assms(1,2,4)]
  have "kind_at W v p = Some Lava \<longrightarrow> kind_at W w p = Some Lava"
    if "k = Water \<or> kind_of f = None \<or> kind_at W w p = Some Lava"
    using law that assms(2,3) by (auto simp: kind_at_def)
  then show ?thesis using law assms(5,6) touches_before [of W p w v] by (auto simp: reports_def)
qed

lemma schedule_keeps_ok: "fluid_queue_ok q \<Longrightarrow> fluid_queue_ok (snd (fluid_schedule q now p delay))"
  using fluid.schedule_ok by (simp add: fluid_schedule_def)

lemma spread_to_settles:
  assumes "inv w" "fw_facts W w p = Some b" "kind_of f \<in> {None, Some (fr_kind r)}" "fluid_queue_ok q"
    "spread_to W r p b d f now w q out = (w', q', out')"
  shows "settled (around p) w out w' out' \<and> fluid_queue_ok q'"
proof (cases "fr_kind r = Lava \<and> d = Down \<and> kind_of (bf_fluid b) = Some Water \<and> \<not> bf_water_container b")
  case True
  obtain wrote v where v: "fw_set_block_named W w p STONE = (wrote, v)" by fastforce
  have "kind_at W w p \<noteq> None" using True assms(2) by (simp add: kind_at_def)
  from harden [OF assms(1) this _ v] have h: "wrote" "inv v" "same_except W {p} w v" "kind_at W v p = None" by simp_all
  have "notify_neighbors W p v (out\<lparr>fo_converted := True\<rparr>) = (w', out')" "q' = q"
    using assms(5) True v h(1) by (auto simp: spread_to_def Let_def split: prod.splits)
  moreover have "\<not> touches W v p" using h(4) by (simp add: touches_def)
  moreover have "reports W w out v (out\<lparr>fo_converted := True\<rparr>)" by (simp add: busy_def)
  ultimately show ?thesis using notify_settles [OF h(2,3)] assms(4) by blast
next
  case False
  obtain wrote v where v: "fw_place_fluid W w p f = (wrote, v)" by fastforce
  let ?o1 = "if wrote then out\<lparr>fo_spread_writes := fo_spread_writes out + 1\<rparr> else out"
  note pl = place_settles [OF assms(1-3) v, of out ?o1]
  have p: "inv v" "same_except W {p} w v" "reports W w out v ?o1"
      "fr_kind r = Water \<or> kind_of f = None \<longrightarrow> touches W v p \<longrightarrow> touches W w p"
    using pl by (simp_all add: busy_def)
  show ?thesis
  proof (cases "fluid_is_empty f")
    case True
    then have "notify_neighbors W p v ?o1 = (w', out')" "q' = q" "kind_of f = None"
      using assms(5) False v unfolding spread_to_def Let_def
      by (auto simp: fluid_is_empty_def split: prod.splits fluid_state.splits)
    then show ?thesis using notify_settles [OF p(1,2) _ p(3)] p(4) assms(4) by blast
  next
    case full: False
    obtain keeps u o2 where s: "should_spread_liquid W (fr_kind r) p v ?o1 = (keeps, u, o2)" by (metis prod_cases3)
    note h = should_spread_hardens [OF p(1) s]
    have n: "notify_neighbors W p u o2 = (w', out')"
        "q' = (if keeps then snd (fluid_schedule q now p (tick_delay r)) else q)"
      using assms(5) False v full s unfolding spread_to_def Let_def by (auto split: prod.splits)
    have "same_except W {p} w u" using h same_except_trans [OF p(2), of "{p}" u] by simp
    moreover have "touches W u p \<longrightarrow> touches W w p"
    proof (cases "fr_kind r")
      case Water
      then show ?thesis using h p(4) hardens_touches [of W v u p] by blast
    qed (use h in simp)
    moreover have "reports W w out u o2" using h reports_trans [OF p(3)] by blast
    ultimately have "settled (around p) w out w' out'" using notify_settles [OF _ _ _ _ n(1)] h by blast
    then show ?thesis using n(2) assms(4) schedule_keeps_ok by simp
  qed
qed

lemma spread_all_settles:
  assumes "inv w" "\<forall>(d, f) \<in> set ds. kind_of f \<in> {None, Some (fr_kind r)}" "fluid_queue_ok q"
    "spread_all W r p ds now w q out = (w', q', out')"
  shows "settled (within_two p) w out w' out' \<and> fluid_queue_ok q'"
  using assms
proof (induction ds arbitrary: w q out)
  case (Cons a ds)
  obtain d f where [simp]: "a = (d, f)" by (cases a)
  show ?case
  proof (cases "fw_facts W w (offset p d)")
    case None
    then show ?thesis using Cons by simp
  next
    case (Some b)
    obtain v q1 o1 where s: "spread_to W r (offset p d) b d f now w q out = (v, q1, o1)" by (metis prod_cases3)
    have "kind_of f \<in> {None, Some (fr_kind r)}" using Cons.prems(2) by simp
    note st = spread_to_settles [OF Cons.prems(1) Some this Cons.prems(3) s]
    have "spread_all W r p ds now v q1 o1 = (w', q', out')" using Cons.prems(4) Some s by simp
    then have "settled (within_two p) v o1 w' out' \<and> fluid_queue_ok q'"
      using Cons.IH [of v q1 o1] st Cons.prems(2) by (auto simp: settled_def)
    moreover have "settled (within_two p) w out v o1"
      using settled_mono [OF conjunct1 [OF st] around_within(2)] .
    ultimately show ?thesis using settled_trans by blast
  qed
qed (simp add: settled_refl)

lemma get_spread_kinds:
  "\<forall>(d, f) \<in> set (fst (spread_loop W w r p b dirs best found c)).
     (d, f) \<in> set found \<or> kind_of f \<in> {None, Some (fr_kind r)}"
proof (induction dirs arbitrary: best found c)
  case (Cons d dirs)
  obtain nb c1 where c1: "context_facts W w (offset p d) c = (nb, c1)" by fastforce
  show ?case
  proof (cases nb)
    case None
    then show ?thesis using Cons.IH c1 by simp
  next
    case (Some b')
    let ?new = "get_new_liquid W w r (offset p d) b'"
    obtain hole c2 where c2: "context_is_hole W w (offset p d) c1 = (hole, c2)" by fastforce
    obtain di c3 where c3: "(if hole then (0, c2) else get_slope_distance W w r (offset p d) 1 (opposite d) b' c2) = (di, c3)"
      by fastforce
    have split: "(case (if hole then (0, c2) else get_slope_distance W w r (offset p d) 1 (opposite d) b' c2) of
          (distance, c) \<Rightarrow> g distance c) = g di c3" for g :: "nat \<Rightarrow> spread_context \<Rightarrow> (dir \<times> fluid_state) list \<times> spread_context"
      unfolding c3 by simp
    let ?G = "if di < best then [] else found"
    let ?H = "if can_be_replaced_with W w (bf_fluid b') (kind_of ?new) d (offset p d) then ?G @ [(d, ?new)] else ?G"
    consider "spread_loop W w r p b (d # dirs) best found c = spread_loop W w r p b dirs best found c1"
      | "spread_loop W w r p b (d # dirs) best found c = spread_loop W w r p b dirs di ?H c3"
      | "spread_loop W w r p b (d # dirs) best found c = spread_loop W w r p b dirs best ?G c3"
      unfolding spread_loop.simps Let_def c1 prod.case Some option.case c2 split by presburger
    then show ?thesis
    proof cases
      case 2
      have "x \<in> set found \<or> x = (d, ?new)" if "x \<in> set ?H" for x using that by (auto split: if_splits)
      then show ?thesis unfolding 2 using Cons.IH [of di ?H c3] new_liquid_kind [of W w r "offset p d" b'] by fastforce
    next
      case 3
      have "x \<in> set found" if "x \<in> set ?G" for x using that by (auto split: if_splits)
      then show ?thesis unfolding 3 using Cons.IH [of best ?G c3] by fastforce
    qed (use Cons.IH in simp)
  qed
qed auto

lemma spread_to_sides_settles:
  assumes "inv w" "fluid_queue_ok q" "spread_to_sides W r p b f now w q out = (w', q', out')"
  shows "settled (within_two p) w out w' out' \<and> fluid_queue_ok q'"
proof -
  have "\<forall>(d, f) \<in> set (fst (get_spread W w r p b (new_context (fr_kind r)))). kind_of f \<in> {None, Some (fr_kind r)}"
    using get_spread_kinds [of w r p b HORIZONTAL 1000 "[]"] by (simp add: get_spread_def)
  with spread_all_settles [OF assms(1) this assms(2)] assms show ?thesis
    by (auto simp: spread_to_sides_def Let_def settled_refl split: if_splits)
qed

lemma spread_settles:
  assumes "inv w" "fluid_queue_ok q" "spread W r p b f now w q out = (w', q', out')"
  shows "settled (within_two p) w out w' out' \<and> fluid_queue_ok q'"
proof (cases "fluid_is_empty f")
  case True
  then show ?thesis using assms by (simp add: spread_def settled_refl)
next
  case False
  let ?bp = "offset p Down"
  have sideways: "settled (within_two p) w out w' out' \<and> fluid_queue_ok q'"
    if "(if fluid_is_source f \<or> \<not> is_water_hole W w (fr_kind r) p b
         then spread_to_sides W r p b f now w q out else (w, q, out)) = (w', q', out')"
    using that spread_to_sides_settles [OF assms(1,2)] assms(1,2) settled_refl by (auto split: if_splits)
  show ?thesis
  proof (cases "fw_facts W w ?bp")
    case None
    then show ?thesis using assms(3) False sideways by (simp add: spread_def Let_def)
  next
    case (Some below)
    let ?new = "get_new_liquid W w r ?bp below"
    show ?thesis
    proof (cases "can_maybe_pass_through r b below \<and>
        can_be_replaced_with W w (bf_fluid below) (kind_of ?new) Down ?bp \<and> can_hold_specific below (kind_of ?new)")
      case down: True
      obtain v q1 o1 where s: "spread_to W r ?bp below Down ?new now w q out = (v, q1, o1)" by (metis prod_cases3)
      note st = spread_to_settles [OF assms(1) Some new_liquid_kind assms(2) s]
      have v: "inv v" using st by (simp add: settled_def)
      have st': "settled (within_two p) w out v o1" using settled_mono [OF conjunct1 [OF st] around_within(2)] .
      have "(if 3 \<le> source_neighbor_count W v r p then spread_to_sides W r p b f now v q1 o1 else (v, q1, o1)) = (w', q', out')"
        using assms(3) False Some down s by (simp add: spread_def Let_def)
      then show ?thesis using spread_to_sides_settles [OF v, of q1 r p b f now o1 w' q' out'] st st'
          settled_trans [OF st'] by (auto split: if_splits)
    next
      case stay: False
      then show ?thesis using assms(3) False Some sideways by (auto simp: spread_def Let_def split: if_splits)
    qed
  qed
qed

lemma spread_delay_returns: "\<exists>d rng'. get_spread_delay W w r p f new rng = Some (d, rng')"
proof -
  have "next_i32_bounded 4 rng \<noteq> None" by (simp add: next_i32_bounded_def split: prod.split)
  then show ?thesis by (auto simp: get_spread_delay_def Let_def)
qed

lemma relevel_settles:
  assumes "inv w" "fw_facts W w p = Some b" "fluid_queue_ok q"
    "kind_at W w p = Some (fr_kind r)"
  shows "\<exists>b' f' w' q' rng' out'. relevel W r p b f now w q rng out = Some (b', f', w', q', rng', out') \<and>
    settled (within_two p) w out w' out' \<and> fluid_queue_ok q'"
proof -
  let ?new = "get_new_liquid W w r p b"
  obtain delay rng1 where d: "get_spread_delay W w r p f ?new rng = Some (delay, rng1)"
    using spread_delay_returns by blast
  have main: "settled (within_two p) w out w' out'"
    if "fw_place_fluid W w p g = (wrote, v)" "kind_of g \<in> {None, Some (fr_kind r)}" "busy o1"
      "notify_neighbors W p v o1 = (w', out')" for g wrote v o1 w' out'
  proof -
    note pl = place_settles [OF assms(1,2) that(2,1), of out o1]
    have t: "touches W v p \<longrightarrow> touches W w p"
      using pl that(3) assms(4) by (cases "fr_kind r") simp_all
    show ?thesis
      using settled_mono [OF notify_settles [OF _ _ t _ that(4)] around_within(1)] pl that(3) by simp
  qed
  obtain w0 v0 where p0: "fw_place_fluid W w p No_Fluid = (w0, v0)" by fastforce
  obtain w1 v1 where p1: "fw_place_fluid W w p ?new = (w1, v1)" by fastforce
  obtain w2 o2 where n0: "notify_neighbors W p v0 (out\<lparr>fo_removed := True\<rparr>) = (w2, o2)" by fastforce
  obtain w3 o3 where n1: "notify_neighbors W p v1 (out\<lparr>fo_level_changed := True\<rparr>) = (w3, o3)" by fastforce
  have s0: "settled (within_two p) w out w2 o2" using main [OF p0 _ _ n0] by (simp add: busy_def)
  have s1: "settled (within_two p) w out w3 o3" using main [OF p1 new_liquid_kind _ n1] by (simp add: busy_def)
  show ?thesis
    unfolding relevel_def Let_def d using s0 s1 assms(1,3) schedule_keeps_ok
    by (auto simp: p0 p1 n0 n1 settled_refl)
qed

lemma tick_settles:
  assumes "inv w" "fluid_queue_ok q" "kind_at W w p \<in> {None, Some (fr_kind r)}"
  shows "\<exists>out' w' q' rng'. fluid_tick W r p now w q rng = Some (out', w', q', rng') \<and>
    settled (within_two p) w default_tick_outcome w' out' \<and> fluid_queue_ok q' \<and>
    (\<not> fo_did_work out' \<longrightarrow> fw_facts W w' = fw_facts W w)"
proof (cases "fw_facts W w p")
  case None
  then show ?thesis using assms by (simp add: fluid_tick_def settled_refl)
next
  case (Some b)
  show ?thesis
  proof (cases "fluid_is_empty (bf_fluid b)")
    case True
    then show ?thesis using assms Some by (simp add: fluid_tick_def settled_refl)
  next
    case False
    then have kind: "kind_at W w p = Some (fr_kind r)"
      using assms(3) Some by (auto simp: kind_at_def fluid_is_empty_def split: fluid_state.splits)
    obtain keeps v o1 where s: "should_spread_liquid W (fr_kind r) p w default_tick_outcome = (keeps, v, o1)"
      by (metis prod_cases3)
    show ?thesis
    proof (cases keeps)
      case True
      then have v: "v = w" "o1 = default_tick_outcome" using should_spread_cases [OF assms(1) s] by auto
      obtain b' f w1 q1 rng1 o2 where m:
        "(if \<not> fluid_is_source (bf_fluid b) then relevel W r p b (bf_fluid b) now w q rng default_tick_outcome
          else Some (b, bf_fluid b, w, q, rng, default_tick_outcome)) = Some (b', f, w1, q1, rng1, o2)"
        "settled (within_two p) w default_tick_outcome w1 o2" "fluid_queue_ok q1"
        using relevel_settles [OF assms(1) Some assms(2) kind, of "bf_fluid b" now rng default_tick_outcome]
          settled_refl [OF assms(1)] assms(2) by (cases "fluid_is_source (bf_fluid b)") fastforce+
      obtain w2 q2 o3 where sp: "spread W r p b' f now w1 q1 o2 = (w2, q2, o3)" by (metis prod_cases3)
      have "inv w1" using m(2) by (simp add: settled_def)
      note st = spread_settles [OF this m(3) sp]
      have t: "settled (within_two p) w default_tick_outcome w2 o3" using settled_trans [OF m(2)] st by blast
      let ?o = "o3\<lparr>fo_did_work := fo_did_work o3 \<or> fo_level_changed o3 \<or> fo_removed o3 \<or>
                      fo_converted o3 \<or> fo_spread_writes o3 \<noteq> 0\<rparr>"
      have "fluid_tick W r p now w q rng = Some (?o, w2, q2, rng1)"
        unfolding fluid_tick_def Let_def using Some False s True m(1) sp by (simp add: v)
      moreover have "settled (within_two p) w default_tick_outcome w2 ?o"
        using t by (simp add: settled_def reports_def busy_def)
      moreover have "fw_facts W w2 = fw_facts W w" if "\<not> fo_did_work ?o"
        using that t by (simp add: settled_def reports_def busy_def)
      ultimately show ?thesis using st by blast
    next
      case hard: False
      then have v: "inv v" "same_except W {p} w v" "\<not> touches W v p" "o1 = default_tick_outcome\<lparr>fo_converted := True\<rparr>"
        using should_spread_cases [OF assms(1) s] by (auto simp: touches_def)
      obtain w1 o2 where n: "notify_neighbors W p v o1 = (w1, o2)" by fastforce
      have "settled (around p) w default_tick_outcome w1 o2"
        using notify_settles [OF v(1,2) _ _ n] v(3,4) by (simp add: busy_def)
      then have t: "settled (within_two p) w default_tick_outcome w1 o2" by (rule settled_mono) simp
      have "fluid_tick W r p now w q rng = Some (o2\<lparr>fo_did_work := True\<rparr>, w1, q, rng)"
        unfolding fluid_tick_def Let_def using Some False s hard n by simp
      moreover have "settled (within_two p) w default_tick_outcome w1 (o2\<lparr>fo_did_work := True\<rparr>)"
        using t by (simp add: settled_def reports_def busy_def)
      ultimately show ?thesis using assms(2) by simp
    qed
  qed
qed

end

end
