(* ===== verification/BlockLaws.thy ===== *)
theory BlockLaws
  imports BlockRegistry "HOL-Library.Multiset"
begin

text \<open>
  The laws of the block table: the digits of a state number and the state number of an
  assignment are inverse, and a parsed table carries that over to the whole registry.
\<close>

section \<open>Digits and numbers\<close>

definition weight :: "(rstring \<times> rstring list) list \<Rightarrow> nat" where
  "weight as = prod_list (map (\<lambda>a. length (snd a)) as)"

lemma weight_simps [simp]: "weight [] = 1" "weight (a # as) = length (snd a) * weight as"
  by (simp_all add: weight_def)

lemma weight_rev [simp]: "weight (rev as) = weight as"
  unfolding weight_def rev_map [symmetric] prod_list.rev by simp

definition axes_ok :: "(rstring \<times> rstring list) list \<Rightarrow> bool" where
  "axes_ok as \<longleftrightarrow> distinct (map fst as) \<and> (\<forall>a \<in> set as. distinct (snd a) \<and> snd a \<noteq> [])"

lemma axes_ok_rev [simp]: "axes_ok (rev as) = axes_ok as"
  by (simp add: axes_ok_def rev_map [symmetric])

lemma digits_names [simp]: "map fst (property_digits as k) = map fst as"
  by (induction as k rule: property_digits.induct) auto

definition agrees :: "property_list \<Rightarrow> property_list \<Rightarrow> bool" where
  "agrees qs ps \<longleftrightarrow> (\<forall>(n, v) \<in> set qs. map_of ps n = Some v)"

lemma position_nth: "distinct xs \<Longrightarrow> i < length xs \<Longrightarrow> position (\<lambda>c. c = xs ! i) xs = Some i"
proof (induction xs arbitrary: i)
  case (Cons x xs)
  then show ?case by (cases i) auto
qed simp

lemma index_of_digits:
  assumes "axes_ok as" "k < weight as" "agrees (property_digits as k) ps"
  shows "index_axes as ps index stride = Some (index + stride * k, stride * weight as)"
  using assms
proof (induction as arbitrary: k index stride)
  case (Cons a as)
  obtain name vs where [simp]: "a = (name, vs)" by (cases a)
  have len: "0 < length vs" and "distinct vs" using Cons.prems(1) by (auto simp: axes_ok_def)
  then have pos: "position (\<lambda>c. c = vs ! (k mod length vs)) vs = Some (k mod length vs)"
    by (intro position_nth) simp_all
  have less: "k div length vs < weight as"
    using Cons.prems(2) len by (simp add: div_less_iff_less_mult mult.commute)
  have "axes_ok as" "agrees (property_digits as (k div length vs)) ps"
    using Cons.prems by (simp_all add: axes_ok_def agrees_def)
  note ih = Cons.IH [OF this(1) less this(2)]
  have "index + stride * (k mod length vs) + stride * (length vs * (k div length vs)) = index + stride * k"
    by (metis add.assoc distrib_left mod_mult_div_eq)
  then show ?case
    using Cons.prems(3) pos ih by (simp add: agrees_def algebra_simps)
qed simp

lemma digits_of_index:
  assumes "axes_ok as" "index_axes as ps index stride = Some (index', stride')"
  obtains k where "k < weight as" "index' = index + stride * k" "stride' = stride * weight as"
    "agrees (property_digits as k) ps"
  using assms
proof (induction as arbitrary: index stride thesis)
  case Nil
  show ?case by (rule Nil.prems(1) [of 0]) (use Nil.prems(3) in \<open>auto simp: agrees_def\<close>)
next
  case (Cons a as)
  obtain name vs where [simp]: "a = (name, vs)" by (cases a)
  obtain v d where v: "map_of ps name = Some v" and d: "position (\<lambda>c. c = v) vs = Some d"
    and rest: "index_axes as ps (index + d * stride) (stride * length vs) = Some (index', stride')"
    using Cons.prems(3) by (auto split: option.splits)
  have ok: "axes_ok as" using Cons.prems(2) by (simp add: axes_ok_def)
  obtain k where k: "k < weight as" "index' = index + d * stride + stride * length vs * k"
      "stride' = stride * length vs * weight as" "agrees (property_digits as k) ps"
    using Cons.IH [OF _ ok rest] by blast
  have dl: "d < length vs" "vs ! d = v" using position_SomeD [OF d] by auto
  then have digits: "(d + length vs * k) mod length vs = d" "(d + length vs * k) div length vs = k"
    by (simp, subst div_mult_self2, auto)
  have "d + length vs * k < length vs * Suc k" using dl(1) by simp
  also have "\<dots> \<le> length vs * weight as" using k(1) by (intro mult_le_mono2) simp
  finally have "d + length vs * k < weight (a # as)" by simp
  moreover have "agrees (property_digits (a # as) (d + length vs * k)) ps"
    using k(4) digits dl v by (simp add: agrees_def)
  moreover have "index' = index + stride * (d + length vs * k)" using k(2) by (simp add: algebra_simps)
  moreover have "stride' = stride * weight (a # as)" using k(3) by simp
  ultimately show ?case by (intro Cons.prems(1))
qed

section \<open>One entry\<close>

definition entry_ok :: "block_entry \<Rightarrow> bool" where
  "entry_ok e \<longleftrightarrow> axes_ok (axes e) \<and> entry_states e = int (weight (axes e))"

lemma digits_keys_distinct: "axes_ok as \<Longrightarrow> distinct (map fst (property_digits as k))"
  by (simp add: axes_ok_def)

lemma map_of_same_set:
  assumes "distinct (map fst xs)" "mset xs = mset ys"
  shows "map_of xs = map_of ys"
proof -
  have "mset (map fst xs) = mset (map fst ys)" using assms(2) by simp
  then have "distinct (map fst ys)" using assms(1) by (metis mset_eq_imp_distinct_iff)
  then show ?thesis using assms by (metis map_of_inject_set mset_eq_setD)
qed

lemma agrees_eq:
  assumes "agrees qs ps" "distinct (map fst qs)" "fst ` set ps \<subseteq> fst ` set qs"
  shows "map_of qs = map_of ps"
proof
  fix n
  show "map_of qs n = map_of ps n"
  proof (cases "map_of qs n")
    case None
    then have "n \<notin> fst ` set ps" using assms(3) by (auto simp: map_of_eq_None_iff)
    then have "map_of ps n = None" by (simp add: map_of_eq_None_iff)
    with None show ?thesis by simp
  next
    case (Some v)
    then have "(n, v) \<in> set qs" by (rule map_of_SomeD)
    then have "map_of ps n = Some v" using assms(1) by (auto simp: agrees_def)
    then show ?thesis using Some by simp
  qed
qed

lemma entry_properties_mset:
  "entry_properties e k = Some ps \<Longrightarrow> mset ps = mset (property_digits (rev (axes e)) k)"
  by (auto simp: entry_properties_def split: if_splits)

lemma entry_properties_map:
  assumes "entry_ok e" "entry_properties e k = Some ps"
  shows "map_of ps = map_of (property_digits (rev (axes e)) k)"
    and "fst ` set ps = fst ` set (axes e)"
proof -
  let ?ds = "property_digits (rev (axes e)) k"
  have m: "mset ?ds = mset ps" using entry_properties_mset [OF assms(2)] by simp
  have "distinct (map fst ?ds)" using assms(1) by (intro digits_keys_distinct) (simp add: entry_ok_def)
  from map_of_same_set [OF this m] show "map_of ps = map_of ?ds" by simp
  have "fst ` set ps = set (map fst ?ds)" using mset_eq_setD [OF m] by (simp only: list.set_map)
  then show "fst ` set ps = fst ` set (axes e)" by simp
qed

lemma foreign_key:
  "list_ex (\<lambda>p. \<not> list_ex (\<lambda>a. fst a = fst p) as) ps \<longleftrightarrow> \<not> fst ` set ps \<subseteq> fst ` set as"
  unfolding list_ex_iff subset_iff image_iff by metis

lemma index_of_properties:
  assumes "entry_ok e" "entry_properties e k = Some ps"
  shows "index_of e ps = Some k"
proof -
  let ?ds = "property_digits (rev (axes e)) k"
  have ok: "axes_ok (rev (axes e))" and n: "nat (entry_states e) = weight (axes e)"
    using assms(1) by (simp_all add: entry_ok_def)
  have k: "k < weight (rev (axes e))" using assms(2) n by (auto simp: entry_properties_def split: if_splits)
  have "agrees ?ds ps"
    using digits_keys_distinct [OF ok, of k] entry_properties_map(1) [OF assms]
    by (auto simp: agrees_def)
  from index_of_digits [OF ok k this, of 0 1] n
  have ix: "index_axes (rev (axes e)) ps 0 1 = Some (k, nat (entry_states e))" by simp
  have no_foreign: "\<not> list_ex (\<lambda>p. \<not> list_ex (\<lambda>a. fst a = fst p) (axes e)) ps"
    unfolding foreign_key using entry_properties_map(2) [OF assms] by simp
  show ?thesis
  proof (cases "axes e = []")
    case True
    then have "ps = []" "k = 0" using assms(2) k by (auto simp: entry_properties_def split: if_splits)
    with True show ?thesis by (simp add: index_of_def)
  qed (use ix no_foreign in \<open>simp add: index_of_def\<close>)
qed

lemma properties_of_index:
  assumes "entry_ok e" "index_of e ps = Some k"
  shows "k < nat (entry_states e) \<and> (\<exists>qs. entry_properties e k = Some qs \<and> map_of qs = map_of ps)"
proof -
  have ok: "axes_ok (rev (axes e))" and n: "nat (entry_states e) = weight (axes e)"
    using assms(1) by (simp_all add: entry_ok_def)
  have k: "k < weight (axes e) \<and> agrees (property_digits (rev (axes e)) k) ps \<and>
      fst ` set ps \<subseteq> fst ` set (axes e)"
  proof (cases "axes e = []")
    case True
    then show ?thesis using assms(2) by (auto simp: index_of_def agrees_def split: if_splits)
  next
    case False
    then have ix: "index_axes (rev (axes e)) ps 0 1 = Some (k, nat (entry_states e))"
      and "fst ` set ps \<subseteq> fst ` set (axes e)"
      using assms(2) unfolding index_of_def foreign_key
      by (simp_all add: False split: option.splits if_splits prod.splits)
    moreover obtain k' where "k' < weight (rev (axes e))" "k = 0 + 1 * k'"
        "agrees (property_digits (rev (axes e)) k') ps"
      using digits_of_index [OF ok ix] by metis
    ultimately show ?thesis by simp
  qed
  let ?ds = "property_digits (rev (axes e)) k"
  have d: "distinct (map fst ?ds)" by (rule digits_keys_distinct [OF ok])
  have "fst ` set ps \<subseteq> set (map fst ?ds)" using k by simp
  then have "map_of ?ds = map_of ps" using agrees_eq [OF _ d] k by (metis list.set_map)
  moreover have some: "entry_properties e k = Some (rev (sort ?ds))"
    using k n by (simp add: entry_properties_def)
  ultimately show ?thesis using k n entry_properties_map(1) [OF assms(1) some] by auto
qed

section \<open>The parsed registry\<close>

text \<open>What the rows of a table leave: every row of the index has its ids in the list.\<close>

definition rows_inv :: "(rstring, block_entry) hash_map \<Rightarrow> (rstring \<times> int) list \<Rightarrow> bool" where
  "rows_inv names ids \<longleftrightarrow>
     (\<forall>n e. map_of names n = Some e \<longrightarrow>
        1 \<le> entry_states e \<and> axes_product (axes e) = nat (entry_states e) \<and>
        default_state_id e = first_state_id e \<and> (\<forall>a \<in> set (axes e). snd a \<noteq> []) \<and>
        (\<forall>k < nat (entry_states e). (n, first_state_id e + int k) \<in> set ids)) \<and>
     (\<forall>x \<in> set ids. map_of names (fst x) \<noteq> None)"

lemma parse_axis_values: "parse_axis t = Inr a \<Longrightarrow> snd a \<noteq> []"
  by (auto simp: parse_axis_def Let_def split: option.splits if_splits)

lemma parse_axes_values: "parse_axes ts = Inr as \<Longrightarrow> \<forall>a \<in> set as. snd a \<noteq> []"
proof (induction ts arbitrary: as)
  case (Cons t ts)
  then obtain x xs where "parse_axis t = Inr x" "parse_axes ts = Inr xs" "as = x # xs"
    by (auto simp: and_then_Inr)
  with Cons.IH [of xs] parse_axis_values [of t x] show ?case by simp
qed simp

lemma axes_of_text_values: "axes_of_text t = Inr as \<Longrightarrow> \<forall>a \<in> set as. snd a \<noteq> []"
  using parse_axes_values by (auto simp: axes_of_text_def split: if_splits)

lemma parse_block_row_Inr:
  "parse_block_row line = Inr (n, e) \<Longrightarrow> 1 \<le> entry_states e \<and>
     axes_product (axes e) = nat (entry_states e) \<and> default_state_id e = first_state_id e \<and>
     (\<forall>a \<in> set (axes e). snd a \<noteq> [])"
proof -
  assume "parse_block_row line = Inr (n, e)"
  then obtain t as where "axes_of_text t = Inr as" "axes e = as" "1 \<le> entry_states e"
      "axes_product as = nat (entry_states e)" "default_state_id e = first_state_id e"
    by (auto simp: parse_block_row_def and_then_Inr not_less split: list.splits option.splits if_splits)
  with axes_of_text_values show ?thesis by metis
qed

lemma parse_block_rows_inv:
  "rows_inv names ids \<Longrightarrow> parse_block_rows lines names ids = Inr (names', ids') \<Longrightarrow> rows_inv names' ids'"
proof (induction lines names ids rule: parse_block_rows.induct)
  case (2 line lines names ids)
  show ?case
  proof (cases "skips_line line")
    case False
    then obtain n e where row: "parse_block_row line = Inr (n, e)"
      using 2(4) by (auto split: sum.splits)
    have "rows_inv (hm_insert n e names)
        (ids @ map (\<lambda>k. (n, first_state_id e + int k)) [0 ..< nat (entry_states e)])"
      using 2(3) parse_block_row_Inr [OF row] unfolding rows_inv_def by (auto split: if_splits)
    with 2 False row show ?thesis by simp
  qed (use 2 in simp)
qed simp

lemma weight_product:
  assumes "\<forall>a \<in> set as. snd a \<noteq> []"
  shows "axes_product as = weight as"
proof -
  have "0 < weight as" using assms by (induction as) simp_all
  then show ?thesis by (simp add: axes_product_def weight_def max_def)
qed

lemma parse_blocks_Inr:
  assumes "parse_blocks text = Inr r"
  shows "rows_inv (blocks_by_name r) (blocks_by_id r) \<and>
    map snd (blocks_by_id r) = map int [0 ..< length (blocks_by_id r)]"
proof -
  obtain names ids where rows: "parse_block_rows (text_lines text) [] [] = Inr (names, ids)"
    and r: "blocks_by_name r = names" "blocks_by_id r = sort_key snd ids"
      "map snd (sort_key snd ids) = map int [0 ..< length (sort_key snd ids)]"
    using assms by (auto simp: parse_blocks_def and_then_Inr Let_def split: if_splits option.splits)
  have "rows_inv names ids"
    by (rule parse_block_rows_inv [OF _ rows]) (simp add: rows_inv_def)
  then show ?thesis using r by (simp add: rows_inv_def)
qed

lemma blocks_nth:
  assumes "parse_blocks text = Inr r" "k < length (blocks_by_id r)"
  shows "snd (blocks_by_id r ! k) = int k"
proof -
  have "map snd (blocks_by_id r) ! k = map int [0 ..< length (blocks_by_id r)] ! k"
    using parse_blocks_Inr [OF assms(1)] by simp
  then show ?thesis using assms(2) by simp
qed

lemma block_name_iff:
  assumes "parse_blocks text = Inr r"
  shows "block_name r i = Inr n \<longleftrightarrow> (n, i) \<in> set (blocks_by_id r)"
proof
  assume "block_name r i = Inr n"
  then have "0 \<le> i" "nat i < length (blocks_by_id r)" "fst (blocks_by_id r ! nat i) = n"
    by (auto simp: block_name_def split: if_splits)
  with blocks_nth [OF assms, of "nat i"] show "(n, i) \<in> set (blocks_by_id r)"
    by (metis int_nat_eq nth_mem prod.collapse)
next
  assume "(n, i) \<in> set (blocks_by_id r)"
  then obtain k where k: "k < length (blocks_by_id r)" "blocks_by_id r ! k = (n, i)"
    by (auto simp: in_set_conv_nth)
  with blocks_nth [OF assms, of k] show "block_name r i = Inr n" by (simp add: block_name_def)
qed

text \<open>The condition that the parser leaves unchecked: no axis and no value is repeated.\<close>

definition axes_distinct :: "block_registry \<Rightarrow> bool" where
  "axes_distinct r \<longleftrightarrow>
     list_all (\<lambda>e. distinct (map fst (axes (snd e))) \<and> list_all (\<lambda>a. distinct (snd a)) (axes (snd e)))
       (blocks_by_name r)"

lemma parsed_entry:
  assumes "parse_blocks text = Inr r" "axes_distinct r" "map_of (blocks_by_name r) n = Some e"
  shows "entry_ok e" and "default_state_id e = first_state_id e"
    and "k < nat (entry_states e) \<Longrightarrow> block_name r (first_state_id e + int k) = Inr n"
proof -
  have inv: "1 \<le> entry_states e" "axes_product (axes e) = nat (entry_states e)"
      "default_state_id e = first_state_id e" "\<forall>a \<in> set (axes e). snd a \<noteq> []"
      "\<forall>k < nat (entry_states e). (n, first_state_id e + int k) \<in> set (blocks_by_id r)"
    using parse_blocks_Inr [OF assms(1)] assms(3) unfolding rows_inv_def by blast+
  then show "default_state_id e = first_state_id e"
    and "k < nat (entry_states e) \<Longrightarrow> block_name r (first_state_id e + int k) = Inr n"
    by (simp_all add: block_name_iff [OF assms(1)])
  have "(n, e) \<in> set (blocks_by_name r)" using assms(3) by (rule map_of_SomeD)
  then have "axes_ok (axes e)"
    using assms(2) inv(4) by (auto simp: axes_distinct_def list_all_iff axes_ok_def)
  with inv weight_product [OF inv(4)] show "entry_ok e" by (simp add: entry_ok_def)
qed

lemma properties_of_Inr:
  assumes "properties_of r i = Inr ps"
  obtains n e where "block_name r i = Inr n" "map_of (blocks_by_name r) n = Some e" "first_state_id e \<le> i"
    "entry_properties e (nat (i - first_state_id e)) = Some ps"
proof -
  obtain n where n: "block_name r i = Inr n"
      "(case map_of (blocks_by_name r) n of None \<Rightarrow> Inl CorruptData
        | Some e \<Rightarrow> if i < first_state_id e then Inl CorruptData
           else case entry_properties e (nat (i - first_state_id e)) of
             None \<Rightarrow> Inl CorruptData | Some ps \<Rightarrow> Inr ps) = Inr ps"
    using assms by (auto simp: properties_of_def and_then_Inr)
  then show thesis by (cases "map_of (blocks_by_name r) n") (auto split: if_splits option.splits intro: that)
qed

lemma state_of_properties:
  assumes "parse_blocks text = Inr r" "axes_distinct r" "properties_of r i = Inr ps" "block_name r i = Inr n"
  shows "state_id r n ps = Inr i"
proof -
  obtain e where e: "map_of (blocks_by_name r) n = Some e" "first_state_id e \<le> i"
      "entry_properties e (nat (i - first_state_id e)) = Some ps"
    using assms(3,4) by (auto elim: properties_of_Inr)
  note entry = parsed_entry [OF assms(1,2) e(1)]
  note ix = index_of_properties [OF entry(1) e(3)]
  show ?thesis
  proof (cases "ps = []")
    case True
    then have "axes e = []"
      using entry_properties_map(2) [OF entry(1) e(3)] by simp
    then have "entry_states e = 1" using entry(1) by (simp add: entry_ok_def)
    then have "i = first_state_id e" using e(2,3) by (auto simp: entry_properties_def split: if_splits)
    then show ?thesis using True e(1) entry(2) by (simp add: state_id_def)
  next
    case False
    then show ?thesis using e(1,2) ix by (simp add: state_id_def)
  qed
qed

lemma properties_of_state:
  assumes "parse_blocks text = Inr r" "axes_distinct r" "state_id r n ps = Inr i" "ps \<noteq> []"
  shows "block_name r i = Inr n \<and> (\<exists>qs. properties_of r i = Inr qs \<and> map_of qs = map_of ps)"
proof -
  obtain e k where e: "map_of (blocks_by_name r) n = Some e" "index_of e ps = Some k"
      "i = first_state_id e + int k"
    using assms(3,4) by (auto simp: state_id_def split: option.splits)
  note entry = parsed_entry [OF assms(1,2) e(1)]
  from properties_of_index [OF entry(1) e(2)] entry(3) [of k]
  show ?thesis using e by (auto simp: properties_of_def)
qed

text \<open>
  C23. In a parsed block table whose axes repeat neither a property nor a value, state ids
  and assignments of properties determine each other: printing a state gives properties
  that resolve to that very state, and the state found for a nonempty assignment belongs
  to that block and prints the same assignment. The parser does not check that the axes repeat
  nothing, and the property needs it (\<open>repeated_value\<close>). An id names a block exactly when it is below the
  number of states.
\<close>

theorem block_states_round_trip:
  assumes "parse_blocks text = Inr r" "axes_distinct r"
  shows "(properties_of r i = Inr ps \<and> block_name r i = Inr n \<longrightarrow> state_id r n ps = Inr i) \<and>
    (state_id r n qs = Inr i \<and> qs \<noteq> [] \<longrightarrow>
       block_name r i = Inr n \<and> (\<exists>ps. properties_of r i = Inr ps \<and> map_of ps = map_of qs)) \<and>
    (is_ok (block_name r i) \<longleftrightarrow> 0 \<le> i \<and> i < int (state_count r))"
  using state_of_properties [OF assms, of i ps n] properties_of_state [OF assms, of n qs i]
  by (auto simp: block_name_def state_count_def)

text \<open>A two-row table: air, and a block with two axes of two values.\<close>

definition sample_table :: rstring where
  "sample_table = lit ''minecraft:air'' @ [9, 48, 9, 49, 9, 45, 10] @
     lit ''lever'' @ [9, 49, 9, 52, 9] @ lit ''f=n|s;p=0|1''"

lemma sample_registry:
  "\<exists>r. parse_blocks sample_table = Inr r \<and> axes_distinct r \<and> block_name r 3 = Inr (lit ''lever'') \<and>
     properties_of r 3 = Inr [(lit ''p'', lit ''0''), (lit ''f'', lit ''s'')]"
proof -
  have "case parse_blocks sample_table of Inl e \<Rightarrow> False | Inr r \<Rightarrow> axes_distinct r \<and>
      block_name r 3 = Inr (lit ''lever'') \<and>
      properties_of r 3 = Inr [(lit ''p'', lit ''0''), (lit ''f'', lit ''s'')]"
    by code_simp
  then show ?thesis by (auto split: sum.splits)
qed

theorem block_states_round_trip_witness:
  "\<exists>r. parse_blocks sample_table = Inr r \<and>
     state_id r (lit ''lever'') [(lit ''p'', lit ''0''), (lit ''f'', lit ''s'')] = Inr 3"
proof -
  obtain r where r: "parse_blocks sample_table = Inr r" "axes_distinct r"
      "block_name r 3 = Inr (lit ''lever'')"
      "properties_of r 3 = Inr [(lit ''p'', lit ''0''), (lit ''f'', lit ''s'')]"
    using sample_registry by blast
  with block_states_round_trip [OF r(1,2), of 3 _ "lit ''lever''"] show ?thesis by auto
qed

text \<open>The parser accepts a repeated value, and then two states print alike.\<close>

lemma repeated_value:
  "case parse_blocks (lit ''minecraft:air'' @ [9, 48, 9, 49, 9, 45, 10] @
       lit ''lever'' @ [9, 49, 9, 50, 9] @ lit ''p=0|0'') of
     Inl e \<Rightarrow> False
   | Inr r \<Rightarrow> properties_of r 1 = properties_of r 2 \<and>
       state_id r (lit ''lever'') [(lit ''p'', lit ''0'')] = Inr 1"
  by code_simp

end
