(* ===== verification/WorldFluids.thy ===== *)
theory WorldFluids
  imports FluidLaws ChunkLaws BlockLaws
begin

text \<open>
  \<open>crates/server/src/game/fluids.rs\<close>: the \<open>FluidWorld\<close> the game hands to the flow rules, over
  the block storage and the block registry, with the block predicates of
  \<open>crates/world/src/collision.rs\<close> that it and the mobs ask.
\<close>

declare split_paired_All [simp del] split_paired_Ex [simp del]

section \<open>Predicates on block ids\<close>

definition NON_SOLID :: "rstring list" where
  "NON_SOLID = map (\<lambda>n. lit ''minecraft:'' @ lit n)
     [''air'', ''cave_air'', ''void_air'', ''water'', ''lava'', ''short_grass'', ''tall_grass'', ''fern'',
      ''large_fern'', ''dead_bush'', ''dandelion'', ''poppy'', ''torch'', ''wall_torch'', ''soul_torch'',
      ''redstone_torch'', ''redstone_wire'', ''rail'', ''powered_rail'', ''detector_rail'', ''activator_rail'',
      ''ladder'', ''vine'', ''oak_sapling'', ''spruce_sapling'', ''birch_sapling'', ''jungle_sapling'',
      ''acacia_sapling'', ''dark_oak_sapling'', ''sugar_cane'', ''wheat'', ''carrots'', ''potatoes'', ''beetroots'',
      ''snow'', ''lever'', ''stone_pressure_plate'', ''oak_pressure_plate'', ''tripwire'', ''tripwire_hook'',
      ''lily_pad'', ''kelp'', ''seagrass'', ''scaffolding'', ''cobweb'', ''soul_fire'', ''fire'']"

text \<open>Equality of two binary64 values, as \<open>==\<close> has it.\<close>

definition f64_eq :: "u64 \<Rightarrow> u64 \<Rightarrow> bool" where
  "f64_eq a b \<longleftrightarrow> fcompare (f64_value a) (f64_value b) = Some 0"

definition UNIT_BOX :: "u64 list" where
  "UNIT_BOX = [f64_of_int 0, f64_of_int 0, f64_of_int 0, f64_of_int 1, f64_of_int 1, f64_of_int 1]"

definition is_full_cube :: "block_registry \<Rightarrow> int \<Rightarrow> bool" where
  "is_full_cube r i \<longleftrightarrow>
     (case collision_boxes r i of
        None \<Rightarrow> True
      | Some boxes \<Rightarrow> length boxes = 1 \<and> list_all2 f64_eq (boxes ! 0) UNIT_BOX)"

definition is_solid :: "block_registry \<Rightarrow> int \<Rightarrow> bool server_result" where
  "is_solid r i =
     (if is_empty_block r i then Inr False
      else and_then (block_name r i) (\<lambda>name. Inr (name \<notin> set NON_SOLID)))"

definition is_solid_or_unknown :: "block_registry \<Rightarrow> int \<Rightarrow> bool" where
  "is_solid_or_unknown r i = (case is_solid r i of Inl _ \<Rightarrow> True | Inr s \<Rightarrow> s)"

definition LIQUIDS :: "rstring list" where
  "LIQUIDS = [lit ''minecraft:water'', lit ''minecraft:lava'']"

definition is_liquid :: "block_registry \<Rightarrow> int \<Rightarrow> bool" where
  "is_liquid r i = (case block_name r i of Inl _ \<Rightarrow> False | Inr name \<Rightarrow> name \<in> set LIQUIDS)"

section \<open>Facts of a block state\<close>

definition NOT_A_FLUID_HOLDER :: "rstring list" where
  "NOT_A_FLUID_HOLDER = map (\<lambda>n. lit ''minecraft:'' @ lit n)
     [''ladder'', ''sugar_cane'', ''bubble_column'', ''nether_portal'', ''end_portal'', ''end_gateway'',
      ''structure_void'']"

definition ends_with :: "rstring \<Rightarrow> rstring \<Rightarrow> bool" where
  "ends_with s t \<longleftrightarrow> length t \<le> length s \<and> drop (length s - length t) s = t"

definition can_hold_any_fluid :: "rstring \<Rightarrow> bool \<Rightarrow> bool" where
  "can_hold_any_fluid name full_cube \<longleftrightarrow>
     (if full_cube then False
      else if name \<in> set NOT_A_FLUID_HOLDER then False
      else \<not> (ends_with name (lit ''_door'') \<or> ends_with name (lit ''_sign'')))"

text \<open>\<open>str::parse::<u8>\<close>.\<close>

definition parse_u8 :: "rstring \<Rightarrow> nat option" where
  "parse_u8 s =
     (let ds = (case s of c # cs \<Rightarrow> if c = 43 then cs else s | [] \<Rightarrow> [])
      in if ds = [] then None
         else case digits_value 0 ds of None \<Rightarrow> None | Some n \<Rightarrow> if n < 256 then Some n else None)"

definition LEVEL :: rstring where "LEVEL = lit ''level''"
definition WATERLOGGED :: rstring where "WATERLOGGED = lit ''waterlogged''"
definition TRUE_TEXT :: rstring where "TRUE_TEXT = lit ''true''"
definition FALSE_TEXT :: rstring where "FALSE_TEXT = lit ''false''"

definition is_waterlogged :: "property_list \<Rightarrow> bool" where
  "is_waterlogged ps \<longleftrightarrow> list_ex (\<lambda>(k, v). k = WATERLOGGED \<and> v = TRUE_TEXT) ps"

definition has_waterlogged :: "property_list \<Rightarrow> bool" where
  "has_waterlogged ps \<longleftrightarrow> list_ex (\<lambda>(k, v). k = WATERLOGGED) ps"

definition fluid_state_of :: "block_registry \<Rightarrow> int \<Rightarrow> property_list \<Rightarrow> fluid_state" where
  "fluid_state_of r i ps =
     (case block_name r i of
        Inl _ \<Rightarrow> No_Fluid
      | Inr name \<Rightarrow>
          let level = (case map_of ps LEVEL of None \<Rightarrow> None | Some v \<Rightarrow> parse_u8 v);
              l = (case level of None \<Rightarrow> 0 | Some l \<Rightarrow> l)
          in if name = lit ''minecraft:water'' then from_block_level Water l
             else if name = lit ''minecraft:lava'' then from_block_level Lava l
             else if is_waterlogged ps then from_block_level Water 0
             else No_Fluid)"

definition fluid_state_id :: "block_registry \<Rightarrow> rstring \<Rightarrow> property_list \<Rightarrow> int option" where
  "fluid_state_id r name ps = (case state_id r name ps of Inl _ \<Rightarrow> None | Inr i \<Rightarrow> Some i)"

definition fluid_properties :: "block_registry \<Rightarrow> int \<Rightarrow> property_list" where
  "fluid_properties r i = (case properties_of r i of Inl _ \<Rightarrow> [] | Inr ps \<Rightarrow> ps)"

text \<open>The facts of a block id, which \<open>facts\<close> looks up at a position.\<close>

definition id_facts :: "block_registry \<Rightarrow> int \<Rightarrow> block_facts" where
  "id_facts r i =
     (case block_name r i of
        Inl _ \<Rightarrow> facts_solid i
      | Inr name \<Rightarrow>
          let ps = fluid_properties r i;
              full = is_full_cube r i
          in \<lparr>bf_id = i, bf_fluid = fluid_state_of r i ps, bf_air = is_empty_block r i, bf_full_cube = full,
              bf_can_hold_any = has_waterlogged ps \<or> can_hold_any_fluid name full,
              bf_water_container = has_waterlogged ps, bf_waterlogged = is_waterlogged ps\<rparr>)"

definition wf_facts :: "block_registry \<Rightarrow> world \<Rightarrow> pos \<Rightarrow> block_facts option" where
  "wf_facts r w p = map_option (id_facts r) (get_block_loaded w (px p) (py p) (pz p))"

section \<open>Writing\<close>

text \<open>The first entry of a property given another value.\<close>

fun set_property :: "rstring \<Rightarrow> rstring \<Rightarrow> property_list \<Rightarrow> property_list" where
  "set_property k v [] = []"
| "set_property k v ((a, b) # ps) = (if a = k then (a, v) # ps else (a, b) # set_property k v ps)"

text \<open>\<open>u8::to_string\<close>.\<close>

fun digits_of :: "nat \<Rightarrow> rstring" where
  "digits_of n = (if n < 10 then [48 + n] else digits_of (n div 10) @ [48 + n mod 10])"

declare digits_of.simps [simp del]

definition fluid_block_for :: "block_registry \<Rightarrow> rstring \<Rightarrow> property_list \<Rightarrow> fluid_state \<Rightarrow> int option" where
  "fluid_block_for r name ps f =
     (if fluid_is_empty f then
        (if has_waterlogged ps then fluid_state_id r name (set_property WATERLOGGED FALSE_TEXT ps)
         else fluid_state_id r AIR [])
      else if kind_of f = Some Water \<and> has_waterlogged ps \<and> \<not> is_waterlogged ps
      then fluid_state_id r name (set_property WATERLOGGED TRUE_TEXT ps)
      else case kind_of f of
        None \<Rightarrow> None
      | Some k \<Rightarrow> fluid_state_id r (fluid_block_name k) [(LEVEL, digits_of (block_level f))])"

definition write_block :: "world \<Rightarrow> pos \<Rightarrow> int \<Rightarrow> bool \<times> world" where
  "write_block w p i = (case set_block w (px p) (py p) (pz p) i of (res, w) \<Rightarrow> (is_ok res, w))"

definition wf_place_fluid :: "block_registry \<Rightarrow> world \<Rightarrow> pos \<Rightarrow> fluid_state \<Rightarrow> bool \<times> world" where
  "wf_place_fluid r w p f =
     (case get_block_loaded w (px p) (py p) (pz p) of
        None \<Rightarrow> (False, w)
      | Some i \<Rightarrow>
          (case block_name r i of
             Inl _ \<Rightarrow> (False, w)
           | Inr name \<Rightarrow>
               (case fluid_block_for r name (fluid_properties r i) f of
                  None \<Rightarrow> (False, w)
                | Some j \<Rightarrow> if j = i then (False, w) else write_block w p j)))"

definition wf_set_block_named :: "block_registry \<Rightarrow> world \<Rightarrow> pos \<Rightarrow> rstring \<Rightarrow> bool \<times> world" where
  "wf_set_block_named r w p name =
     (case fluid_state_id r name [] of
        None \<Rightarrow> (False, w)
      | Some i \<Rightarrow>
          if get_block_loaded w (px p) (py p) (pz p) = Some i then (False, w) else write_block w p i)"

definition world_fluids :: "block_registry \<Rightarrow> world fluid_world" where
  "world_fluids r =
     \<lparr>fw_facts = wf_facts r, fw_place_fluid = wf_place_fluid r, fw_set_block_named = wf_set_block_named r\<rparr>"

definition notify_block_written :: "block_registry \<Rightarrow> world \<Rightarrow> pos \<Rightarrow> world" where
  "notify_block_written r w p =
     (let (_, w, out) = on_place (world_fluids r) p w default_tick_outcome
      in fst (notify_neighbors (world_fluids r) p w out))"

lemma world_fluids_simps [simp]:
  "fw_facts (world_fluids r) = wf_facts r" "fw_place_fluid (world_fluids r) = wf_place_fluid r"
  "fw_set_block_named (world_fluids r) = wf_set_block_named r"
  by (simp_all add: world_fluids_def)

section \<open>What the registry must have\<close>

definition fluid_at :: "block_registry \<Rightarrow> int \<Rightarrow> fluid_state" where
  "fluid_at r i = fluid_state_of r i (fluid_properties r i)"

lemma id_facts_fluid: "bf_fluid (id_facts r i) = fluid_at r i"
  by (simp add: id_facts_def fluid_at_def fluid_state_of_def facts_solid_def Let_def split: sum.split)

text \<open>
  States resolve to their own block and properties, properties are not repeated, and the
  four blocks the rules write by name exist and hold no fluid, nor does the id 0.
\<close>

definition fluid_registry :: "block_registry \<Rightarrow> bool" where
  "fluid_registry r \<longleftrightarrow>
     (\<forall>n ps i. state_id r n ps = Inr i \<and> ps \<noteq> [] \<longrightarrow>
        block_name r i = Inr n \<and> (\<exists>qs. properties_of r i = Inr qs \<and> map_of qs = map_of ps)) \<and>
     (\<forall>i qs. properties_of r i = Inr qs \<longrightarrow> distinct (map fst qs)) \<and>
     (\<forall>n \<in> {AIR, STONE, COBBLESTONE, OBSIDIAN}. \<exists>i. state_id r n [] = Inr i \<and> kind_of (fluid_at r i) = None) \<and>
     kind_of (fluid_at r 0) = None"

lemma registry_state:
  "fluid_registry r \<Longrightarrow> state_id r n ps = Inr i \<Longrightarrow> ps \<noteq> [] \<Longrightarrow>
     block_name r i = Inr n \<and> (\<exists>qs. properties_of r i = Inr qs \<and> distinct (map fst qs) \<and> map_of qs = map_of ps)"
  unfolding fluid_registry_def by blast

lemma level_kind [simp]: "kind_of (from_block_level k l) = Some k"
  by (cases k) (simp_all add: from_block_level_def Let_def)

lemma level_ok: "fluid_ok (from_block_level k l)"
  by (cases k) (auto simp: from_block_level_def Let_def fluid_ok_def body_ok_def body_source_def)

lemma fluid_at_ok: "fluid_ok (fluid_at r i)"
  by (auto simp: fluid_at_def fluid_state_of_def Let_def level_ok fluid_ok_def [of No_Fluid] split: sum.split)

lemma map_of_set_property: "map_of (set_property k v ps) = (if map_of ps k = None then map_of ps else (map_of ps)(k \<mapsto> v))"
  by (induction k v ps rule: set_property.induct) (auto simp: fun_eq_iff)

lemma waterlogged_map: "distinct (map fst ps) \<Longrightarrow> is_waterlogged ps \<longleftrightarrow> map_of ps WATERLOGGED = Some TRUE_TEXT"
  by (auto simp: is_waterlogged_def list_ex_iff)

lemma has_waterlogged_map: "has_waterlogged ps \<longleftrightarrow> map_of ps WATERLOGGED \<noteq> None"
  by (force simp: has_waterlogged_def list_ex_iff map_of_eq_None_iff)

text \<open>The kind of fluid a block of a given name and properties holds.\<close>

lemma kind_fluid_at:
  assumes "block_name r i = Inr n"
  shows "kind_of (fluid_at r i) =
    (if n = lit ''minecraft:water'' then Some Water else if n = lit ''minecraft:lava'' then Some Lava
     else if is_waterlogged (fluid_properties r i) then Some Water else None)"
  using assms by (simp add: fluid_at_def fluid_state_of_def Let_def)

lemma placed_kind:
  assumes "fluid_registry r" "block_name r i = Inr n" "fluid_block_for r n (fluid_properties r i) f = Some j"
  shows "kind_of (fluid_at r j) \<in> {kind_of (fluid_at r i), kind_of f}"
proof -
  let ?ps = "fluid_properties r i"
  have rewritten: "kind_of (fluid_at r j) =
      (if n = lit ''minecraft:water'' then Some Water else if n = lit ''minecraft:lava'' then Some Lava
       else if v = TRUE_TEXT then Some Water else None)"
    if "has_waterlogged ?ps" "fluid_state_id r n (set_property WATERLOGGED v ?ps) = Some j" for v
  proof -
    have m: "map_of (set_property WATERLOGGED v ?ps) WATERLOGGED = Some v"
      using that(1) by (simp add: has_waterlogged_map map_of_set_property)
    then have "set_property WATERLOGGED v ?ps \<noteq> []" by auto
    moreover have "state_id r n (set_property WATERLOGGED v ?ps) = Inr j"
      using that(2) by (auto simp: fluid_state_id_def split: sum.splits)
    ultimately obtain qs where q: "block_name r j = Inr n" "properties_of r j = Inr qs"
        "map_of qs = map_of (set_property WATERLOGGED v ?ps)" "distinct (map fst qs)"
      using registry_state [OF assms(1)] by blast
    then have "is_waterlogged (fluid_properties r j) \<longleftrightarrow> v = TRUE_TEXT"
      using q m by (simp add: waterlogged_map fluid_properties_def)
    then show ?thesis using kind_fluid_at [OF q(1)] by simp
  qed
  have old: "kind_of (fluid_at r i) = kind_of (fluid_at r i)" ..
  consider "fluid_is_empty f" "has_waterlogged ?ps" "fluid_state_id r n (set_property WATERLOGGED FALSE_TEXT ?ps) = Some j"
    | "fluid_is_empty f" "fluid_state_id r AIR [] = Some j"
    | "kind_of f = Some Water" "has_waterlogged ?ps" "fluid_state_id r n (set_property WATERLOGGED TRUE_TEXT ?ps) = Some j"
    | k where "kind_of f = Some k" "fluid_state_id r (fluid_block_name k) [(LEVEL, digits_of (block_level f))] = Some j"
    using assms(3) by (auto simp: fluid_block_for_def split: if_splits option.splits)
  then show ?thesis
  proof cases
    case 1
    have "kind_of f = None" using 1(1) by (auto simp: fluid_is_empty_def split: fluid_state.splits)
    moreover have "FALSE_TEXT \<noteq> TRUE_TEXT" by (simp add: FALSE_TEXT_def TRUE_TEXT_def lit_def)
    ultimately show ?thesis using rewritten [OF 1(2,3)] kind_fluid_at [OF assms(2)] by simp
  next
    case 2
    have "kind_of f = None" using 2(1) by (auto simp: fluid_is_empty_def split: fluid_state.splits)
    moreover have "kind_of (fluid_at r j) = None"
      using assms(1) 2(2) by (auto simp: fluid_registry_def fluid_state_id_def split: sum.splits)
    ultimately show ?thesis by simp
  next
    case 3
    then show ?thesis using rewritten [OF 3(2,3)] kind_fluid_at [OF assms(2)] by simp
  next
    case 4
    have "state_id r (fluid_block_name k) [(LEVEL, digits_of (block_level f))] = Inr j"
      using 4(2) by (auto simp: fluid_state_id_def split: sum.splits)
    then have "block_name r j = Inr (fluid_block_name k)" using registry_state [OF assms(1)] by blast
    from kind_fluid_at [OF this] show ?thesis
      using 4(1) by (cases k) (simp_all add: fluid_block_name_def lit_def)
  qed
qed

section \<open>The adapter keeps the contract\<close>

definition fluids_inv :: "block_registry \<Rightarrow> world \<Rightarrow> bool" where
  "fluids_inv r w \<longleftrightarrow> world_ok w \<and> fluid_registry r"

lemma block_loaded:
  "get_block_loaded w x y z = (if map_of (w_chunks w) (block_chunk x z) = None then None else Some (get_block w x y z))"
  by (simp add: get_block_loaded_def get_block_def split: option.split)

lemma kind_at_world:
  "kind_at (world_fluids r) w p =
     (case get_block_loaded w (px p) (py p) (pz p) of None \<Rightarrow> None | Some i \<Rightarrow> kind_of (fluid_at r i))"
  by (simp add: kind_at_def wf_facts_def id_facts_fluid split: option.split)

lemma set_block_error:
  assumes "set_block w x y z b = (Inl e, w')" "map_of (w_chunks w) (block_chunk x z) \<noteq> None"
  shows "get_block w x y z = 0"
proof -
  obtain c where c: "map_of (w_chunks w) (block_chunk x z) = Some c" using assms(2) by blast
  then have "\<exists>e c'. chunk_set_block c x y z b (w_registry w) = (Inl e, c')"
    using assms(1) by (auto simp: set_block_def ensure_chunk_def Let_def split: prod.splits sum.splits option.splits)
  then have "section_index_for c y = None"
    by (auto simp: chunk_set_block_def Let_def split: option.splits if_splits)
  then show ?thesis using c by (simp add: get_block_def chunk_get_block_def)
qed

lemma write_block_law:
  assumes "world_ok w" "get_block_loaded w (px p) (py p) (pz p) = Some i" "i \<noteq> j" "write_block w p j = (wrote, w')"
  shows "world_ok w' \<and> (\<forall>q. get_block_loaded w' (px q) (py q) (pz q) =
      (if q = p \<and> wrote then Some j else get_block_loaded w (px q) (py q) (pz q))) \<and> (\<not> wrote \<longrightarrow> i = 0)"
proof -
  obtain res where s: "set_block w (px p) (py p) (pz p) j = (res, w')" and wrote: "wrote = is_ok res"
    using assms(4) by (auto simp: write_block_def split: prod.splits)
  note law = set_block_law [OF assms(1) s]
  have here: "map_of (w_chunks w) (block_chunk (px p) (pz p)) \<noteq> None" "get_block w (px p) (py p) (pz p) = i"
    using assms(2) by (auto simp: block_loaded split: if_splits)
  have chunks: "map_of (w_chunks w') c = None \<longleftrightarrow> map_of (w_chunks w) c = None" for c
    using law [THEN conjunct2, THEN conjunct2, THEN conjunct2, rule_format, of c] here(1)
    by (auto split: option.splits)
  have blocks: "get_block w' (px q) (py q) (pz q) = (if q = p \<and> wrote then j else get_block w (px q) (py q) (pz q))" for q
  proof -
    have b: "get_block w' (px q) (py q) (pz q) = block_state w' (px q, py q, pz q)"
        "get_block w (px q) (py q) (pz q) = block_state w (px q, py q, pz q)" by (simp_all add: block_state_def)
    have same: "(px q, py q, pz q) = (px p, py p, pz p) \<longleftrightarrow> q = p" by (cases q; cases p) simp
    show ?thesis
    proof (cases res)
      case (Inl e)
      then show ?thesis using law b by (simp add: wrote)
    next
      case (Inr o1)
      show ?thesis
      proof (cases o1)
        case None
        then show ?thesis using law Inr here(2) assms(3) by simp
      next
        case (Some change)
        then have "block_state w' = (block_state w)((px p, py p, pz p) := j)" using law Inr by simp
        then show ?thesis unfolding b using same by (simp add: wrote Inr fun_upd_apply)
      qed
    qed
  qed
  have "i = 0" if "\<not> wrote"
    using that set_block_error [of w "px p" "py p" "pz p" j _ w'] s here wrote by (cases res) auto
  moreover have "world_ok w'" using law by blast
  ultimately show ?thesis using chunks blocks here(1) by (auto simp: block_loaded)
qed

lemma facts_after_write:
  assumes "\<forall>q. get_block_loaded w' (px q) (py q) (pz q) =
      (if q = p \<and> wrote then Some j else get_block_loaded w (px q) (py q) (pz q))"
    "get_block_loaded w (px p) (py p) (pz p) = Some i"
  shows "same_except (world_fluids r) {p} w w'" "\<not> wrote \<Longrightarrow> wf_facts r w' = wf_facts r w"
    "kind_at (world_fluids r) w' p = kind_of (fluid_at r (if wrote then j else i))"
  using assms by (simp_all add: same_except_def wf_facts_def fun_eq_iff kind_at_world)

interpretation wf: fluid_laws "world_fluids r" "fluids_inv r"
proof (unfold_locales, goal_cases)
  case (1 w p b f wrote w')
  then have ok: "world_ok w" and reg: "fluid_registry r" by (simp_all add: fluids_inv_def)
  obtain i where i: "get_block_loaded w (px p) (py p) (pz p) = Some i" "bf_fluid b = fluid_at r i"
    using 1(2) by (auto simp: wf_facts_def id_facts_fluid)
  have old: "kind_at (world_fluids r) w p = kind_of (fluid_at r i)" by (simp add: kind_at_world i(1))
  have same: ?case if "wrote = False" "w' = w"
    using 1(1) that old i(2) by simp
  show ?case
  proof (cases "block_name r i")
    case (Inl e)
    then show ?thesis using 1(3) i(1) by (intro same) (simp_all add: wf_place_fluid_def)
  next
    case (Inr n)
    show ?thesis
    proof (cases "fluid_block_for r n (fluid_properties r i) f")
      case None
      then show ?thesis using 1(3) i(1) Inr by (intro same) (simp_all add: wf_place_fluid_def)
    next
      case (Some j)
      show ?thesis
      proof (cases "j = i")
        case True
        then show ?thesis using 1(3) i(1) Inr Some by (intro same) (simp_all add: wf_place_fluid_def)
      next
        case False
        then have w: "write_block w p j = (wrote, w')" using 1(3) i(1) Inr Some by (simp add: wf_place_fluid_def)
        note law = write_block_law [OF ok i(1) False [symmetric] w]
        have q: "\<forall>q. get_block_loaded w' (px q) (py q) (pz q) =
            (if q = p \<and> wrote then Some j else get_block_loaded w (px q) (py q) (pz q))" using law by blast
        note after = facts_after_write [OF q i(1), of r]
        show ?thesis
          using law after placed_kind [OF reg Inr Some] reg i(2) by (cases wrote) (simp_all add: fluids_inv_def)
      qed
    qed
  qed
next
  case (2 w p name wrote w')
  then have ok: "world_ok w" and reg: "fluid_registry r" by (simp_all add: fluids_inv_def)
  obtain i where i: "get_block_loaded w (px p) (py p) (pz p) = Some i" "kind_of (fluid_at r i) \<noteq> None"
    using 2(2) by (auto simp: kind_at_world split: option.splits)
  have "name \<in> {AIR, STONE, COBBLESTONE, OBSIDIAN}" using 2(3) by blast
  then obtain j where j: "state_id r name [] = Inr j" "kind_of (fluid_at r j) = None"
    using reg unfolding fluid_registry_def by blast
  have ne: "i \<noteq> j" "i \<noteq> 0" using i(2) j(2) reg by (auto simp: fluid_registry_def)
  have w: "write_block w p j = (wrote, w')"
    using 2(4) j(1) i(1) ne(1) by (simp add: wf_set_block_named_def fluid_state_id_def)
  note law = write_block_law [OF ok i(1) ne(1) w]
  have wrote: "wrote" using law ne(2) by blast
  have q: "\<forall>q. get_block_loaded w' (px q) (py q) (pz q) =
      (if q = p \<and> wrote then Some j else get_block_loaded w (px q) (py q) (pz q))" using law by blast
  note after = facts_after_write [OF q i(1), of r]
  show ?case using law after wrote reg j(2) by (simp add: fluids_inv_def)
qed

end
