(* ===== verification/FluidTheorems.thy ===== *)
theory FluidTheorems
  imports WorldFluids
begin

text \<open>
  The fluid ticks of the game: the flow rules of \<open>crates/simulation/src/fluid\<close> over the
  adapter of \<open>crates/server/src/game/fluids.rs\<close> and the block storage.
\<close>

declare split_paired_All [simp del] split_paired_Ex [simp del]

abbreviation block_at :: "world \<Rightarrow> pos \<Rightarrow> int option" where
  "block_at w p \<equiv> get_block_loaded w (px p) (py p) (pz p)"

lemma id_facts_id [simp]: "bf_id (id_facts r i) = i"
  by (simp add: id_facts_def facts_solid_def Let_def split: sum.split)

lemma same_facts: "wf_facts r w' x = wf_facts r w x \<longleftrightarrow> block_at w' x = block_at w x"
proof -
  have "map_option bf_id (wf_facts r v x) = block_at v x" for v
    by (simp add: wf_facts_def option.map_comp comp_def option.map_ident)
  then show ?thesis unfolding wf_facts_def by metis
qed

lemma same_loaded: "(wf_facts r w' x = None) = (wf_facts r w x = None) \<longleftrightarrow> (block_at w' x = None) = (block_at w x = None)"
  by (simp add: wf_facts_def)

text \<open>
  C24. A fluid tick at a cell of the rules' own fluid always returns. It keeps the block
  storage and the tick queue well formed, loads and unloads nothing, changes no block more
  than two steps away, and when it reports that it did no work no block has changed.
\<close>

theorem fluid_tick_is_local:
  assumes "fluids_inv blocks w" "fluid_queue_ok q"
    "kind_at (world_fluids blocks) w p \<in> {None, Some (fr_kind r)}"
  shows "\<exists>out w' q' rng'. fluid_tick (world_fluids blocks) r p now w q rng = Some (out, w', q', rng') \<and>
    fluids_inv blocks w' \<and> fluid_queue_ok q' \<and>
    (\<forall>x. (block_at w' x = None) = (block_at w x = None)) \<and>
    (\<forall>x. x \<notin> within_two p \<longrightarrow> block_at w' x = block_at w x) \<and>
    (\<not> fo_did_work out \<longrightarrow> (\<forall>x. block_at w' x = block_at w x))"
proof -
  obtain out w' q' rng' where t: "fluid_tick (world_fluids blocks) r p now w q rng = Some (out, w', q', rng')"
      "wf.settled blocks (within_two p) w default_tick_outcome w' out" "fluid_queue_ok q'"
      "\<not> fo_did_work out \<longrightarrow> wf_facts blocks w' = wf_facts blocks w"
    using wf.tick_settles [OF assms, of now rng] by auto
  have "same_except (world_fluids blocks) (within_two p) w w'" "fluids_inv blocks w'"
    using t(2) by (simp_all add: wf.settled_def)
  then show ?thesis
    using t(1,3,4) by (simp add: same_except_def same_facts same_loaded fun_eq_iff)
qed

text \<open>
  C25. A fluid tick leaves no lava beside or below water that was not so before: whatever it
  writes, the cells of lava that come into contact with water turn into obsidian,
  cobblestone or stone before the tick ends.
\<close>

theorem fluid_tick_parts_lava_and_water:
  assumes "fluids_inv blocks w" "fluid_queue_ok q"
    "kind_at (world_fluids blocks) w p \<in> {None, Some (fr_kind r)}"
  shows "\<exists>out w' q' rng'. fluid_tick (world_fluids blocks) r p now w q rng = Some (out, w', q', rng') \<and>
    {x. in_i32 x \<and> touches (world_fluids blocks) w' x} \<subseteq> {x. touches (world_fluids blocks) w x}"
  using wf.tick_settles [OF assms, of now rng] by (auto simp: wf.settled_def)

text \<open>
  C26. After the notification of a block written by anything else, neither the cell nor any
  of its six neighbours is lava beside or below water, every block that changed was lava
  among them, and nothing was loaded.
\<close>

theorem notify_block_written_settles:
  assumes "fluids_inv blocks w"
  shows "let w' = notify_block_written blocks w p in
    fluids_inv blocks w' \<and>
    (\<forall>x \<in> around p. \<not> touches (world_fluids blocks) w' x) \<and>
    (\<forall>x. block_at w' x \<noteq> block_at w x \<longrightarrow>
       x \<in> around p \<and> kind_at (world_fluids blocks) w x = Some Lava \<and> kind_at (world_fluids blocks) w' x = None)"
proof -
  let ?W = "world_fluids blocks"
  obtain keeps v o1 where p: "on_place ?W p w default_tick_outcome = (keeps, v, o1)" by (metis prod_cases3)
  have v: "fluids_inv blocks v \<and> same_except ?W {p} w v \<and> hardens ?W w v \<and> \<not> touches ?W v p"
  proof (cases "kind_at ?W w p")
    case None
    then have "v = w" using p by (simp add: on_place_def kind_at_def)
    then show ?thesis using None assms(1) by (simp add: touches_def)
  next
    case (Some k)
    then have s: "should_spread_liquid ?W k p w default_tick_outcome = (keeps, v, o1)"
      using p by (simp add: on_place_def kind_at_def)
    note h = wf.should_spread_hardens [OF assms(1) s]
    have "k = Lava" if "touches ?W v p"
    proof -
      have "kind_at ?W v p = Some Lava" using that by (simp add: touches_def)
      then have "kind_at ?W w p = Some Lava" using hardens_kind [of ?W w v] h by blast
      then show ?thesis using Some by simp
    qed
    then show ?thesis using h by blast
  qed
  obtain w' o2 where n: "notify_neighbors ?W p v o1 = (w', o2)" by fastforce
  note law = wf.notify_loop_law [OF conjunct1 [OF v] n [unfolded notify_neighbors_def], unfolded wf.update_order_all]
  have "notify_block_written blocks w p = w'" by (simp add: notify_block_written_def p n)
  moreover have "\<not> touches ?W w' p" using v law hardens_touches [of ?W v w' p] by blast
  moreover have hard: "hardens ?W w w'" using v law hardens_trans [of ?W w v w'] by blast
  moreover have "same_except ?W (around p) w w'"
    using same_except_mono [OF same_except_trans [of ?W "{p}" w v "range (offset p)" w'], of "around p"] v law
    by (auto simp: around_def)
  then have "x \<in> around p \<and> kind_at ?W w x = Some Lava \<and> kind_at ?W w' x = None" if "block_at w' x \<noteq> block_at w x" for x
    using that hard by (auto simp: same_except_def hardens_def same_facts)
  ultimately show ?thesis using law by (auto simp: around_def Let_def)
qed

text \<open>
  C28. The level the flow rules compute for a cell is one that the block's \<open>level\<close> property
  holds exactly: reading the written block back gives the same fluid, of the rules' kind.
  The body that the encoding takes for a source, flowing at amount 8, is never computed.
\<close>

theorem new_level_is_written_exactly:
  "let f = get_new_liquid (world_fluids blocks) w r p b in
     f = No_Fluid \<or>
     (kind_of f = Some (fr_kind r) \<and> fluid_ok f \<and> block_level f \<le> 15 \<and>
      from_block_level (fr_kind r) (block_level f) = f)"
proof -
  let ?f = "get_new_liquid (world_fluids blocks) w r p b"
  have "fluid_amount (bf_fluid n) \<le> 8" if "wf_facts blocks w q = Some n" for q n
  proof -
    have "fluid_ok (bf_fluid n)" using that fluid_at_ok by (auto simp: wf_facts_def id_facts_fluid)
    then show ?thesis by (auto simp: fluid_ok_def body_ok_def fluid_amount_def split: option.split)
  qed
  then have reads: "?f \<noteq> No_Fluid \<Longrightarrow> fluid_ok ?f \<and> from_block_level (fr_kind r) (block_level ?f) = ?f"
    using new_liquid_reads_back [of "world_fluids blocks" w r p b] by simp
  have "kind_of ?f = Some (fr_kind r)" if "?f \<noteq> No_Fluid"
    using that new_liquid_kind [of "world_fluids blocks" w r p b] by (cases ?f) simp_all
  moreover have "block_level g \<le> 15" if "fluid_ok g" for g
    using that by (auto simp: block_level_def fluid_ok_def body_ok_def split: option.split)
  ultimately show ?thesis using reads by (auto simp: Let_def)
qed

section \<open>A parsed registry is one\<close>

lemma parsed_fluid_registry:
  assumes "parse_blocks text = Inr r" "axes_distinct r"
    "list_all (\<lambda>n. case state_id r n [] of Inl _ \<Rightarrow> False | Inr i \<Rightarrow> kind_of (fluid_at r i) = None)
       [AIR, STONE, COBBLESTONE, OBSIDIAN]" "kind_of (fluid_at r 0) = None"
  shows "fluid_registry r"
  unfolding fluid_registry_def
proof (intro conjI allI impI)
  fix i qs assume "properties_of r i = Inr qs"
  then obtain n e where e: "map_of (blocks_by_name r) n = Some e"
      "entry_properties e (nat (i - first_state_id e)) = Some qs"
    by (auto elim: properties_of_Inr)
  note entry = parsed_entry(1) [OF assms(1,2) e(1)]
  let ?ds = "property_digits (rev (axes e)) (nat (i - first_state_id e))"
  have "distinct (map fst ?ds)"
    using entry by (intro digits_keys_distinct) (simp add: entry_ok_def)
  moreover have "mset (map fst qs) = mset (map fst ?ds)"
    unfolding mset_map entry_properties_mset [OF e(2)] ..
  ultimately show "distinct (map fst qs)" by (metis mset_eq_imp_distinct_iff)
next
  show "\<forall>n \<in> {AIR, STONE, COBBLESTONE, OBSIDIAN}. \<exists>i. state_id r n [] = Inr i \<and> kind_of (fluid_at r i) = None"
    using assms(3) by (auto split: sum.splits)
qed (use properties_of_state [OF assms(1,2)] assms(4) in auto)

text \<open>A registry of the blocks the rules write and of lava, without properties.\<close>

definition lava_registry :: block_registry where
  "lava_registry =
     (let rows = [(AIR, 0), (STONE, 1), (COBBLESTONE, 2), (OBSIDIAN, 3), (lit ''minecraft:lava'', 4)]
      in \<lparr>blocks_by_name = map (\<lambda>(n, i). (n, \<lparr>first_state_id = i, default_state_id = i, entry_states = 1, axes = []\<rparr>)) rows,
          blocks_by_id = rows, air_id = 0, empty_ids = [0], mineable = [], refused = [], shapes = []\<rparr>)"

lemma lava_registry_fluid: "fluid_registry lava_registry"
proof -
  have names: "AIR \<noteq> STONE" "AIR \<noteq> COBBLESTONE" "AIR \<noteq> OBSIDIAN" "STONE \<noteq> COBBLESTONE" "STONE \<noteq> OBSIDIAN"
      "COBBLESTONE \<noteq> OBSIDIAN" "lit ''minecraft:lava'' \<notin> {AIR, STONE, COBBLESTONE, OBSIDIAN}"
      "lit ''minecraft:water'' \<notin> {AIR, STONE, COBBLESTONE, OBSIDIAN}"
    by (simp_all add: AIR_def STONE_def COBBLESTONE_def OBSIDIAN_def lit_def)
  have plain: "axes e = []" if "map_of (blocks_by_name lava_registry) n = Some e" for n e
    using that by (auto simp: lava_registry_def Let_def split: if_splits)
  then have no_states: "state_id lava_registry n ps \<noteq> Inr i" if "ps \<noteq> []" for n ps i
    using that by (auto simp: state_id_def index_of_def split: option.splits)
  have empty: "ps = []" if "properties_of lava_registry i = Inr ps" for i ps
    using that plain by (auto elim!: properties_of_Inr simp: entry_properties_def split: if_splits)
  then have no_props: "\<forall>i ps. properties_of lava_registry i = Inr ps \<longrightarrow> distinct (map fst ps)"
    by (metis distinct.simps(1) list.simps(8))
  have "fluid_properties lava_registry i = []" for i
    using empty by (auto simp: fluid_properties_def split: sum.split)
  then have kind: "kind_of (fluid_at lava_registry i) = None"
    if "block_name lava_registry i = Inr n" "n \<in> {AIR, STONE, COBBLESTONE, OBSIDIAN}" for n i
    using that names kind_fluid_at [of lava_registry i n] by (auto simp: is_waterlogged_def)
  have ids: "state_id lava_registry AIR [] = Inr 0" "state_id lava_registry STONE [] = Inr 1"
      "state_id lava_registry COBBLESTONE [] = Inr 2" "state_id lava_registry OBSIDIAN [] = Inr 3"
    using names by (simp_all add: state_id_def lava_registry_def)
  have reads: "block_name lava_registry 0 = Inr AIR" "block_name lava_registry 1 = Inr STONE"
      "block_name lava_registry 2 = Inr COBBLESTONE" "block_name lava_registry 3 = Inr OBSIDIAN"
    by (simp_all add: block_name_def lava_registry_def)
  have "\<forall>n \<in> {AIR, STONE, COBBLESTONE, OBSIDIAN}. \<exists>i. state_id lava_registry n [] = Inr i \<and> kind_of (fluid_at lava_registry i) = None"
    using ids kind [OF reads(1)] kind [OF reads(2)] kind [OF reads(3)] kind [OF reads(4)] by simp
  then show ?thesis unfolding fluid_registry_def using no_states no_props kind [OF reads(1)] by blast
qed

lemma lava_registry_simps [simp]:
  "air_id lava_registry = 0" "is_empty_block lava_registry 0" "kind_of (fluid_at lava_registry 4) = Some Lava"
proof -
  have "block_name lava_registry 4 = Inr (lit ''minecraft:lava'')" by (simp add: block_name_def lava_registry_def)
  from kind_fluid_at [OF this] show "kind_of (fluid_at lava_registry 4) = Some Lava" by (simp add: lit_def)
qed (simp_all add: lava_registry_def is_empty_block_def)

lemma write_in_range:
  assumes "world_ok w" "get_block_loaded w x y z = Some i" "i \<noteq> j"
    "map_of (w_chunks w) (block_chunk x z) = Some c" "section_index_for c y \<noteq> None"
  shows "\<exists>w'. write_block w (Pos x y z) j = (True, w')"
proof -
  obtain res w' where s: "set_block w x y z j = (res, w')" by fastforce
  have "\<exists>a. res = Inr a"
    using s assms(4,5) by (auto simp: set_block_def ensure_chunk_def chunk_set_block_def Let_def
        split: prod.splits sum.splits option.splits if_splits)
  then show ?thesis using s by (auto simp: write_block_def)
qed

lemma lava_world: "\<exists>w. fluids_inv lava_registry w \<and> kind_at (world_fluids lava_registry) w (Pos 0 64 0) = Some Lava"
proof -
  let ?r = lava_registry
  let ?w0 = "new_world Overworld ?r"
  let ?c = "chunk_air (ChunkPos 0 0) OVERWORLD_MIN_SECTION_Y OVERWORLD_SECTION_COUNT ?r"
  obtain c w where e: "ensure_chunk ?w0 (ChunkPos 0 0) = (c, w)" by fastforce
  have c: "c = ?c" using e by (auto simp: ensure_chunk_def new_world_def world_with_height_def Let_def)
  have ok0: "world_ok ?w0" by (simp add: world_ok_def new_world_def world_with_height_def)
  note law = ensure_chunk_law [OF ok0 e]
  have ok: "world_ok w" and m: "map_of (w_chunks w) (ChunkPos 0 0) = Some c" using law by auto
  have air: "get_block_loaded w 0 64 0 = Some 0"
    using m air_chunk_reads [of ?r] by (simp add: get_block_loaded_def block_chunk_def c)
  have "section_index_for ?c 64 \<noteq> None"
    by (simp add: section_index_for_def chunk_air_def Let_def OVERWORLD_MIN_SECTION_Y_def OVERWORLD_SECTION_COUNT_def SECTION_HEIGHT_def)
  then obtain w' where w': "write_block w (Pos 0 64 0) 4 = (True, w')"
    using write_in_range [OF ok air, of 4 c] m by (auto simp: block_chunk_def c)
  have "block_at w (Pos 0 64 0) = Some 0" using air by simp
  note written = write_block_law [OF ok this _ w']
  have "world_ok w' \<and> block_at w' (Pos 0 64 0) = Some 4"
    using written [THEN conjunct1] written [THEN conjunct2, THEN conjunct1, rule_format, of "Pos 0 64 0"] by simp
  then show ?thesis using lava_registry_fluid by (auto simp: fluids_inv_def kind_at_world)
qed

lemma new_queue_ok: "fluid_queue_ok new_fluid_queue"
  by (simp add: fluid_queue_ok_def new_fluid_queue_def entry_count_def)

theorem fluid_tick_is_local_witness:
  "\<exists>w out w' q' rng'. kind_at (world_fluids lava_registry) w (Pos 0 64 0) = Some Lava \<and>
     fluid_tick (world_fluids lava_registry) (rules_lava False False) (Pos 0 64 0) 7 w new_fluid_queue (new_random 1) =
       Some (out, w', q', rng') \<and> fluids_inv lava_registry w' \<and> fluid_queue_ok q'"
proof -
  obtain w where w: "fluids_inv lava_registry w" "kind_at (world_fluids lava_registry) w (Pos 0 64 0) = Some Lava"
    using lava_world by blast
  moreover have "kind_at (world_fluids lava_registry) w (Pos 0 64 0) \<in> {None, Some (fr_kind (rules_lava False False))}"
    using w(2) by (simp add: rules_lava_def)
  ultimately show ?thesis using fluid_tick_is_local [OF w(1) new_queue_ok] by blast
qed

theorem fluid_tick_parts_lava_and_water_witness:
  "\<exists>w out w' q' rng'. kind_at (world_fluids lava_registry) w (Pos 0 64 0) = Some Lava \<and>
     fluid_tick (world_fluids lava_registry) (rules_lava True True) (Pos 0 64 0) 9 w new_fluid_queue (new_random 2) =
       Some (out, w', q', rng') \<and>
     {x. in_i32 x \<and> touches (world_fluids lava_registry) w' x} \<subseteq> {x. touches (world_fluids lava_registry) w x}"
proof -
  obtain w where w: "fluids_inv lava_registry w" "kind_at (world_fluids lava_registry) w (Pos 0 64 0) = Some Lava"
    using lava_world by blast
  moreover have "kind_at (world_fluids lava_registry) w (Pos 0 64 0) \<in> {None, Some (fr_kind (rules_lava True True))}"
    using w(2) by (simp add: rules_lava_def)
  ultimately show ?thesis using fluid_tick_parts_lava_and_water [OF w(1) new_queue_ok] by blast
qed

text \<open>The lava cell below a written block, notified of it, is not left beside water.\<close>

theorem notify_block_written_settles_witness:
  "\<exists>w. kind_at (world_fluids lava_registry) w (Pos 0 64 0) = Some Lava \<and>
     \<not> touches (world_fluids lava_registry) (notify_block_written lava_registry w (Pos 0 65 0)) (Pos 0 64 0)"
proof -
  obtain w where w: "fluids_inv lava_registry w" "kind_at (world_fluids lava_registry) w (Pos 0 64 0) = Some Lava"
    using lava_world by blast
  have "offset (Pos 0 65 0) Down \<in> around (Pos 0 65 0)" by simp
  moreover have "offset (Pos 0 65 0) Down = Pos 0 64 0" by (simp add: offset_def pos_offset_def i32_sat_add_def)
  ultimately show ?thesis using notify_block_written_settles [OF w(1)] w(2) by (metis (no_types, lifting))
qed

text \<open>
  The trait promises that a block named in an unloaded chunk is not written; the adapter
  asks only whether the block differs, and the world creates the chunk.
\<close>

lemma named_block_in_unloaded_chunk:
  assumes "world_ok w" "block_at w p = None" "state_id r name [] = Inr i" "wf_set_block_named r w p name = (wrote, w')"
  shows "block_at w' p \<noteq> None"
proof -
  obtain res where s: "set_block w (px p) (py p) (pz p) i = (res, w')"
    using assms(2-4) by (auto simp: wf_set_block_named_def fluid_state_id_def write_block_def split: prod.splits)
  obtain c v where e: "ensure_chunk w (block_chunk (px p) (pz p)) = (c, v)" by fastforce
  note law = ensure_chunk_law [OF assms(1) e]
  have "om_ok (w_chunks v)" using law by (simp add: world_ok_def)
  then have "map_of (w_chunks w') (block_chunk (px p) (pz p)) \<noteq> None"
    using s e by (auto simp: set_block_def Let_def invalidate_light_around_def
        split: prod.splits sum.splits option.splits)
  then show ?thesis by (simp add: block_loaded)
qed

section \<open>Ticks beyond the cap\<close>

text \<open>Drains at successive ticks with one budget.\<close>

fun fluid_drains :: "fluid_queue \<Rightarrow> nat list \<Rightarrow> fluid_budget \<Rightarrow> pos list list \<times> fluid_queue" where
  "fluid_drains q [] b = ([], q)"
| "fluid_drains q (now # nows) b =
     (let (d, q) = fluid_drain_due q now b; (ds, q) = fluid_drains q nows b in (fd_due d # ds, q))"

lemma fluid_drains_queue: "fluid_drains q nows \<lparr>fluid_ticks_per_tick = cap\<rparr> = fluid.drains q nows cap"
  by (induction nows arbitrary: q) (simp_all add: fluid_drain_op_def Let_def split: prod.split)

text \<open>
  C29. The cap delays fluid ticks and loses none. Drains at ascending ticks cut the queue, which
  is in the order of due tick and position, into one batch for each drain and the part that
  stays: a batch holds only entries due by its drain, at most \<open>cap\<close> of them, and fewer only
  when everything left behind is due later. So an entry of rank \<open>k\<close> that is due at drain
  number \<open>i\<close> has run by the end of drain number \<open>i + k div cap\<close>.
\<close>

theorem fluid_ticks_spill_in_order:
  assumes "fluid_queue_ok q" "sorted nows" "\<forall>t now. fq_last q = Some t \<and> now \<in> set nows \<longrightarrow> t \<le> now"
    "fluid_drains q nows \<lparr>fluid_ticks_per_tick = cap\<rparr> = (pss, q')"
  shows "\<exists>batches. pss = map (map snd) batches \<and> length batches = length nows \<and>
    fluid_entries q = concat batches @ fluid_entries q' \<and>
    (\<forall>i < length nows. length (batches ! i) \<le> cap \<and> (\<forall>e \<in> set (batches ! i). fst e \<le> nows ! i) \<and>
       (length (batches ! i) < cap \<longrightarrow>
          (\<forall>e \<in> set (concat (drop (Suc i) batches) @ fluid_entries q'). nows ! i < fst e))) \<and>
    (0 < cap \<longrightarrow> (\<forall>k < length (fluid_entries q). \<forall>i. fst (fluid_entries q ! k) \<le> nows ! i \<longrightarrow>
       i + k div cap < length nows \<longrightarrow> k < length (concat (take (Suc (i + k div cap)) batches))))"
proof -
  have "fluid.drains q nows cap = (pss, q')" using assms(4) by (simp add: fluid_drains_queue)
  from fluid.drains_spill [OF assms(1-3) this] obtain bs where b: "pss = map (map snd) bs"
      "length bs = length nows" "fluid_entries q = concat bs @ fluid_entries q'"
      "\<forall>i < length nows. length (bs ! i) \<le> cap \<and> (\<forall>e \<in> set (bs ! i). fst e \<le> nows ! i) \<and>
       (length (bs ! i) < cap \<longrightarrow> (\<forall>e \<in> set (concat (drop (Suc i) bs) @ fluid_entries q'). nows ! i < fst e))"
    by blast
  have "k < length (concat (take (Suc (i + k div cap)) bs))"
    if "0 < cap" "k < length (fluid_entries q)" "fst (fluid_entries q ! k) \<le> nows ! i" "i + k div cap < length nows" for i k
    using fluid.spill_delay [OF b(2,3) assms(2) that(1) _ _ that(2-4)] b(4) by blast
  with b show ?thesis by blast
qed

definition two_due :: fluid_queue where
  "two_due = snd (fluid_schedule_at (snd (fluid_schedule_at new_fluid_queue 3 (Pos 1 2 3))) 5 (Pos 0 0 0))"

lemma two_due_simps:
  "fluid_queue_ok two_due" "fluid_entries two_due = [(3, Pos 1 2 3), (5, Pos 0 0 0)]" "fq_last two_due = None"
  "fq_spilled two_due = 0"
  by (simp_all add: two_due_def fluid_schedule_at_def new_fluid_queue_def fluid_queue_ok_def buckets_ok_def om_ok_def
      fluid_entries_def flat_def bucket_insert_def bucket_at_def entry_count_def MAX_FLUID_QUEUE_ENTRIES_def
      MAX_FLUID_TICKS_PER_TICK_def)

theorem fluid_ticks_spill_in_order_witness:
  "concat (fst (fluid_drains two_due [6, 7] \<lparr>fluid_ticks_per_tick = 1\<rparr>)) = [Pos 1 2 3, Pos 0 0 0] \<and>
   concat (fst (fluid_drains two_due [4] \<lparr>fluid_ticks_per_tick = 2\<rparr>)) = [Pos 1 2 3]"
proof
  obtain pss q' where d: "fluid_drains two_due [6, 7] \<lparr>fluid_ticks_per_tick = 1\<rparr> = (pss, q')" by fastforce
  obtain bs where b: "pss = map (map snd) bs" "length bs = 2" "[(3, Pos 1 2 3), (5, Pos 0 0 0)] = concat bs @ fluid_entries q'"
      and late: "\<forall>k < 2. \<forall>i. fst ([(3, Pos 1 2 3), (5, Pos 0 0 0)] ! k) \<le> [6, 7 :: nat] ! i \<longrightarrow> i + k < 2 \<longrightarrow>
        k < length (concat (take (Suc (i + k)) bs))"
    using fluid_ticks_spill_in_order [OF two_due_simps(1) _ _ d] by (auto simp: two_due_simps numeral_2_eq_2)
  have "1 < length (concat bs)" using spec [OF late, of 1] b(2) by (auto dest: spec [of _ 0])
  moreover have "length (concat bs) + length (fluid_entries q') = 2" using arg_cong [OF b(3), of length] by simp
  ultimately have "length (fluid_entries q') = 0" by linarith
  then have "concat bs = [(3, Pos 1 2 3), (5, Pos 0 0 0)]" using b(3) by simp
  then have "concat pss = [Pos 1 2 3, Pos 0 0 0]" by (simp add: b(1) flip: map_concat)
  then show "concat (fst (fluid_drains two_due [6, 7] \<lparr>fluid_ticks_per_tick = 1\<rparr>)) = [Pos 1 2 3, Pos 0 0 0]"
    unfolding d fst_conv .
next
  obtain pss q' where d: "fluid_drains two_due [4] \<lparr>fluid_ticks_per_tick = 2\<rparr> = (pss, q')" by fastforce
  obtain b where b: "pss = [map snd b]" "[(3, Pos 1 2 3), (5, Pos 0 0 0)] = b @ fluid_entries q'" "\<forall>e \<in> set b. fst e \<le> 4"
      "length b < 2 \<longrightarrow> (\<forall>e \<in> set (fluid_entries q'). 4 < fst e)"
    using fluid_ticks_spill_in_order [OF two_due_simps(1) _ _ d] by (auto simp: two_due_simps length_Suc_conv)
  have "b \<noteq> []"
  proof
    assume e: "b = []"
    with b(2) have "fluid_entries q' = [(3, Pos 1 2 3), (5, Pos 0 0 0)]" by simp
    with b(4) e show False by simp
  qed
  then have "b = [(3, Pos 1 2 3)]" using b(2,3) by (auto simp: Cons_eq_append_conv)
  then show "concat (fst (fluid_drains two_due [4] \<lparr>fluid_ticks_per_tick = 2\<rparr>)) = [Pos 1 2 3]"
    unfolding d fst_conv by (simp add: b(1))
qed

text \<open>The spill counter leaves out the due buckets behind the one where the cap was hit.\<close>

lemma spills_uncounted:
  "case fluid_drain_due two_due 7 \<lparr>fluid_ticks_per_tick = 0\<rparr> of (d, q) \<Rightarrow>
     fd_pending d = 2 \<and> fq_spilled q = 1"
  by (simp add: two_due_def fluid_schedule_at_def new_fluid_queue_def fluid_drain_due_def due_ticks_def bucket_insert_def
      bucket_at_def om_remove_def bucket_extend_def os_extend_def entry_count_def MAX_FLUID_QUEUE_ENTRIES_def
      MAX_FLUID_TICKS_PER_TICK_def sat_add_def u64_max_def Let_def)

end
