(* ===== verification/RedstoneQueue.thy ===== *)
theory RedstoneQueue
  imports FluidQueue
begin

text \<open>
  \<open>crates/redstone/src/update.rs\<close>: the bounded queue of neighbour updates and scheduled block
  ticks. Its scheduled half keeps the contract of a tick queue; its neighbour half is served
  in a rotation that starts after the last position served.
\<close>

definition neighbour_set :: "pos \<Rightarrow> pos list" where
  "neighbour_set p =
     [pos_offset p 0 (- 1) 0, pos_offset p 0 1 0, pos_offset p 0 0 (- 1), pos_offset p 0 0 1,
      pos_offset p (- 1) 0 0, pos_offset p 1 0 0]"

lemma neighbour_set_dirs: "neighbour_set p = map (offset p) [Down, Up, North, South, West, East]"
  by (simp add: neighbour_set_def offset_def)

datatype update_kind = Neighbor_Changed | Scheduled_Tick nat | Comparator_Update

definition MAX_SCHEDULE_DELAY :: nat where "MAX_SCHEDULE_DELAY = 32768"

datatype inserted = Inserted | Insert_Deduplicated | Insert_Refused

definition was_inserted :: "inserted \<Rightarrow> bool" where
  "was_inserted i \<longleftrightarrow> (case i of Inserted \<Rightarrow> True | _ \<Rightarrow> False)"

definition was_refused :: "inserted \<Rightarrow> bool" where
  "was_refused i \<longleftrightarrow> (case i of Insert_Refused \<Rightarrow> True | _ \<Rightarrow> False)"

definition MAX_ENTRIES :: nat where "MAX_ENTRIES = 4096"
definition MAX_UPDATES_PER_TICK :: nat where "MAX_UPDATES_PER_TICK = 1024"
definition DEFAULT_SCHEDULED_TICKS_PER_TICK :: nat where "DEFAULT_SCHEDULED_TICKS_PER_TICK = 256"

record update_budget =
  ub_neighbour :: nat
  ub_scheduled :: nat

definition nominal_update_budget :: update_budget where
  "nominal_update_budget =
     \<lparr>ub_neighbour = MAX_UPDATES_PER_TICK, ub_scheduled = DEFAULT_SCHEDULED_TICKS_PER_TICK\<rparr>"

definition update_budget_is_empty :: "update_budget \<Rightarrow> bool" where
  "update_budget_is_empty b \<longleftrightarrow> ub_neighbour b = 0 \<and> ub_scheduled b = 0"

record neighbour_drain =
  nd_now :: nat
  nd_positions :: "pos list"
  nd_exhausted :: bool

record block_tick_drain =
  bd_now :: nat
  bd_positions :: "pos list"
  bd_exhausted :: bool
  bd_later :: nat

record update_queue =
  uq_current :: "pos ordered_set"
  uq_cursor :: "pos option"
  uq_scheduled :: "pos buckets"
  uq_max_updates :: nat
  uq_exhausted :: bool
  uq_refused :: nat
  uq_deduplicated :: nat
  uq_last :: "nat option"

definition new_update_queue :: update_queue where
  "new_update_queue =
     \<lparr>uq_current = [], uq_cursor = None, uq_scheduled = [], uq_max_updates = MAX_UPDATES_PER_TICK,
      uq_exhausted = False, uq_refused = 0, uq_deduplicated = 0, uq_last = None\<rparr>"

definition uq_length :: "update_queue \<Rightarrow> nat" where
  "uq_length q = length (uq_current q) + entry_count (uq_scheduled q)"

definition uq_is_empty :: "update_queue \<Rightarrow> bool" where
  "uq_is_empty q \<longleftrightarrow> uq_current q = [] \<and> uq_scheduled q = []"

definition uq_scheduled_at :: "update_queue \<Rightarrow> nat \<Rightarrow> pos ordered_set option" where
  "uq_scheduled_at q due = map_of (uq_scheduled q) due"

definition set_max_updates_per_tick :: "update_queue \<Rightarrow> nat \<Rightarrow> update_queue" where
  "set_max_updates_per_tick q n = q\<lparr>uq_max_updates := max 1 (min n MAX_ENTRIES)\<rparr>"

definition pending_neighbours :: "update_queue \<Rightarrow> pos list" where
  "pending_neighbours q = uq_current q"

definition next_pending :: "update_queue \<Rightarrow> pos option" where
  "next_pending q = (case uq_current q of [] \<Rightarrow> None | p # _ \<Rightarrow> Some p)"

definition push_neighbour :: "update_queue \<Rightarrow> pos \<Rightarrow> inserted \<times> update_queue" where
  "push_neighbour q p =
     (if p \<in> set (uq_current q)
      then (Insert_Deduplicated, q\<lparr>uq_deduplicated := sat_add (uq_deduplicated q) 1\<rparr>)
      else if MAX_ENTRIES \<le> uq_length q
      then (Insert_Refused, q\<lparr>uq_refused := sat_add (uq_refused q) 1\<rparr>)
      else (Inserted, q\<lparr>uq_current := os_insert p (uq_current q)\<rparr>))"

fun push_neighbours :: "update_queue \<Rightarrow> pos list \<Rightarrow> nat \<times> update_queue" where
  "push_neighbours q [] = (0, q)"
| "push_neighbours q (p # ps) =
     (let (i, q) = push_neighbour q p; (n, q) = push_neighbours q ps
      in (if was_inserted i then n + 1 else n, q))"

definition uq_schedule_at :: "update_queue \<Rightarrow> nat \<Rightarrow> pos \<Rightarrow> inserted \<times> update_queue" where
  "uq_schedule_at q due p =
     (if (case map_of (uq_scheduled q) due of None \<Rightarrow> False | Some ps \<Rightarrow> p \<in> set ps)
      then (Insert_Deduplicated, q\<lparr>uq_deduplicated := sat_add (uq_deduplicated q) 1\<rparr>)
      else if MAX_ENTRIES \<le> uq_length q
      then (Insert_Refused, q\<lparr>uq_refused := sat_add (uq_refused q) 1\<rparr>)
      else (Inserted, q\<lparr>uq_scheduled := bucket_insert due p (uq_scheduled q)\<rparr>))"

text \<open>\<open>checked_add\<close> on u64: an error past the largest tick.\<close>

definition uq_schedule :: "update_queue \<Rightarrow> nat \<Rightarrow> pos \<Rightarrow> nat \<Rightarrow> inserted server_result \<times> update_queue" where
  "uq_schedule q now p delay =
     (if MAX_SCHEDULE_DELAY < delay then (Inl InvalidAction, q)
      else if 2 ^ 64 \<le> now + delay then (Inl InvalidAction, q)
      else (let (i, q) = uq_schedule_at q (now + delay) p in (Inr i, q)))"

definition uq_schedule_clamped :: "update_queue \<Rightarrow> nat \<Rightarrow> pos \<Rightarrow> nat \<Rightarrow> inserted \<times> update_queue" where
  "uq_schedule_clamped q now p delay = uq_schedule_at q (sat_add now (min delay MAX_SCHEDULE_DELAY)) p"

definition push_comparator_update :: "update_queue \<Rightarrow> pos \<Rightarrow> inserted \<times> update_queue" where
  "push_comparator_update q p = push_neighbour q p"

definition uq_pending_after :: "update_queue \<Rightarrow> nat \<Rightarrow> bool" where
  "uq_pending_after q now = pending_after now (uq_scheduled q)"

definition begin_tick :: "update_queue \<Rightarrow> nat \<Rightarrow> update_queue" where
  "begin_tick q now = q\<lparr>uq_last := Some now\<rparr>"

definition rotation :: "update_queue \<Rightarrow> pos list" where
  "rotation q =
     (case uq_cursor q of
        Some c \<Rightarrow> filter (\<lambda>p. c < p) (uq_current q) @ filter (\<lambda>p. p \<le> c) (uq_current q)
      | None \<Rightarrow> uq_current q)"

fun take_loop :: "nat \<Rightarrow> pos list \<Rightarrow> pos list \<Rightarrow> update_queue \<Rightarrow> pos list \<times> update_queue" where
  "take_loop cap [] taken q = (taken, q)"
| "take_loop cap (p # ps) taken q =
     (if cap \<le> length taken then (taken, q)
      else if p \<in> set (uq_current q)
      then take_loop cap ps (taken @ [p]) (q\<lparr>uq_current := filter (\<lambda>x. x \<noteq> p) (uq_current q), uq_cursor := Some p\<rparr>)
      else take_loop cap ps taken q)"

definition take_neighbours :: "update_queue \<Rightarrow> nat \<Rightarrow> nat \<Rightarrow> neighbour_drain \<times> update_queue" where
  "take_neighbours q now cap =
     (let (taken, q) = take_loop cap (rotation q) [] q;
          q = q\<lparr>uq_exhausted := uq_current q \<noteq> []\<rparr>
      in (\<lparr>nd_now = now, nd_positions = taken, nd_exhausted = uq_exhausted q\<rparr>, q))"

definition last_or_zero :: "update_queue \<Rightarrow> nat" where
  "last_or_zero q = (case uq_last q of None \<Rightarrow> 0 | Some t \<Rightarrow> t)"

definition drain_now :: "update_queue \<Rightarrow> neighbour_drain \<times> update_queue" where
  "drain_now q = take_neighbours q (last_or_zero q) (uq_max_updates q)"

definition drain_at_most :: "update_queue \<Rightarrow> nat \<Rightarrow> neighbour_drain \<times> update_queue" where
  "drain_at_most q n = take_neighbours q (last_or_zero q) (max 1 (min n MAX_ENTRIES))"

definition drain_for_tick :: "update_queue \<Rightarrow> nat \<Rightarrow> neighbour_drain \<times> update_queue" where
  "drain_for_tick q now =
     (if (case uq_last q of None \<Rightarrow> False | Some t \<Rightarrow> now < t)
      then (\<lparr>nd_now = now, nd_positions = [], nd_exhausted = False\<rparr>, q)
      else take_neighbours (begin_tick q now) now (uq_max_updates q))"

definition drain_due_block_ticks :: "update_queue \<Rightarrow> nat \<Rightarrow> update_budget \<Rightarrow> block_tick_drain \<times> update_queue" where
  "drain_due_block_ticks q now budget =
     (if (case uq_last q of None \<Rightarrow> False | Some t \<Rightarrow> now < t)
      then (\<lparr>bd_now = now, bd_positions = [], bd_exhausted = False, bd_later = uq_length q\<rparr>, q)
      else
        let q = begin_tick q now;
            (ps, exhausted, _, m) = drain_buckets (ub_scheduled budget) (due_ticks now (uq_scheduled q)) [] (uq_scheduled q);
            q = q\<lparr>uq_scheduled := m\<rparr>
        in (\<lparr>bd_now = now, bd_positions = ps, bd_exhausted = exhausted, bd_later = uq_length q\<rparr>, q))"

definition clear_update_queue :: "update_queue \<Rightarrow> update_queue" where
  "clear_update_queue q = q\<lparr>uq_current := [], uq_cursor := None, uq_scheduled := [], uq_exhausted := False\<rparr>"

section \<open>The scheduled half is a tick queue\<close>

definition uq_ok :: "update_queue \<Rightarrow> bool" where
  "uq_ok q \<longleftrightarrow> os_ok (uq_current q) \<and> buckets_ok (uq_scheduled q) \<and> uq_length q \<le> MAX_ENTRIES"

definition uq_entries :: "update_queue \<Rightarrow> (nat \<times> pos) list" where
  "uq_entries q = flat (uq_scheduled q)"

definition uq_drain_op :: "update_queue \<Rightarrow> nat \<Rightarrow> nat \<Rightarrow> pos list \<times> bool \<times> update_queue" where
  "uq_drain_op q now cap =
     (case drain_due_block_ticks q now \<lparr>ub_neighbour = 0, ub_scheduled = cap\<rparr> of (d, q) \<Rightarrow> (bd_positions d, bd_exhausted d, q))"

lemma uq_schedule_at_law:
  assumes "uq_ok q"
  shows "uq_ok (snd (uq_schedule_at q due p)) \<and> uq_last (snd (uq_schedule_at q due p)) = uq_last q \<and>
    (uq_entries (snd (uq_schedule_at q due p)) = uq_entries q \<or>
     uq_entries (snd (uq_schedule_at q due p)) = os_insert (due, p) (uq_entries q))"
proof -
  have ok: "buckets_ok (uq_scheduled q)" using assms by (simp add: uq_ok_def)
  have len: "entry_count (bucket_insert due p (uq_scheduled q)) \<le> Suc (entry_count (uq_scheduled q))"
    using length_os_insert [OF flat_ascending [OF ok], of "(due, p)"] flat_insert [OF ok, of due p]
      length_flat [of "bucket_insert due p (uq_scheduled q)"] length_flat [of "uq_scheduled q"]
    by (simp split: if_splits)
  then show ?thesis
    using assms bucket_insert_ok [OF ok] flat_insert [OF ok]
    by (auto simp: uq_schedule_at_def uq_ok_def uq_entries_def uq_length_def)
qed

lemma uq_drain_law:
  assumes "uq_ok q" "\<forall>t. uq_last q = Some t \<longrightarrow> t \<le> now" "uq_drain_op q now cap = (ps, ex, q')"
  shows "uq_ok q' \<and> uq_last q' = Some now \<and> uq_current q' = uq_current q \<and>
    ps = map snd (take cap (filter (\<lambda>e. fst e \<le> now) (uq_entries q))) \<and>
    (ex \<longleftrightarrow> cap < length (filter (\<lambda>e. fst e \<le> now) (uq_entries q))) \<and>
    uq_entries q' = drop (min cap (length (filter (\<lambda>e. fst e \<le> now) (uq_entries q)))) (uq_entries q)"
proof -
  have ok: "buckets_ok (uq_scheduled q)" using assms(1) by (simp add: uq_ok_def)
  obtain ps' ex' k m where dr: "drain_buckets cap (due_ticks now (uq_scheduled q)) [] (uq_scheduled q) = (ps', ex', k, m)"
    by (metis prod.exhaust)
  note law = drain_buckets_prefix [OF ok dr, unfolded due_part_def]
  have "\<not> (case uq_last q of None \<Rightarrow> False | Some t \<Rightarrow> now < t)" using assms(2) by (auto split: option.split)
  then have q': "q' = q\<lparr>uq_last := Some now, uq_scheduled := m\<rparr>" "ps = ps'" "ex = ex'"
    using assms(3) dr by (auto simp: uq_drain_op_def drain_due_block_ticks_def begin_tick_def Let_def)
  have "entry_count m \<le> entry_count (uq_scheduled q)"
    using law(3) unfolding length_flat [symmetric] by simp
  then have "uq_ok q'" using assms(1) law(4) by (simp add: q' uq_ok_def uq_length_def)
  then show ?thesis using law by (simp add: q' uq_entries_def)
qed

interpretation redstone: tick_queue
  "\<lambda>q due p. snd (uq_schedule_at q due p)" uq_drain_op uq_entries uq_last uq_ok
proof (unfold_locales, goal_cases)
  case (5 q now cap ps ex q')
  then show ?case
  proof (cases "\<forall>t. uq_last q = Some t \<longrightarrow> t \<le> now")
    case True
    then show ?thesis using uq_drain_law [OF 5(1) _ 5(2)] by blast
  next
    case False
    then have "q' = q" using 5(2) by (auto simp: uq_drain_op_def drain_due_block_ticks_def split: option.splits)
    then show ?thesis using 5(1) by simp
  qed
next
  case (7 q now cap ps ex q')
  then have "\<not> (case uq_last q of None \<Rightarrow> False | Some t \<Rightarrow> now < t)" by (auto split: option.split)
  with 7 show ?case by (auto simp: uq_drain_op_def drain_due_block_ticks_def begin_tick_def Let_def split: prod.splits)
next
  case (8 q now cap ps ex q')
  then show ?case using uq_drain_law [OF 8] by blast
qed (use uq_schedule_at_law in \<open>auto simp: uq_ok_def uq_entries_def flat_ascending uq_drain_op_def drain_due_block_ticks_def
  uq_schedule_at_def\<close>)

end
