(* ===== verification/RedstoneLaws.thy ===== *)
theory RedstoneLaws
  imports RedstoneQueue
begin

text \<open>
  The rotation of \<open>crates/redstone/src/update.rs\<close> is fair: a drain serves the positions after
  the last one served, and positions raised again after they were served wait behind those
  not served yet.
\<close>

section \<open>The order of the rotation\<close>

definition rotation_key :: "pos option \<Rightarrow> pos \<Rightarrow> bool \<times> pos" where
  "rotation_key c p = (case c of None \<Rightarrow> False | Some t \<Rightarrow> p \<le> t, p)"

definition in_rotation :: "pos option \<Rightarrow> pos list \<Rightarrow> bool" where
  "in_rotation c ps \<longleftrightarrow> os_ok (map (rotation_key c) ps)"

lemma rotation_key_less:
  "rotation_key c p < rotation_key c r \<longleftrightarrow>
     (case c of None \<Rightarrow> p < r | Some t \<Rightarrow> (t < p \<and> r \<le> t) \<or> ((p \<le> t \<longleftrightarrow> r \<le> t) \<and> p < r))"
  by (auto simp: rotation_key_def less_prod_def split: option.split)

lemma in_rotation_unique: "in_rotation c ps \<Longrightarrow> in_rotation c qs \<Longrightarrow> set ps = set qs \<Longrightarrow> ps = qs"
proof -
  assume "in_rotation c ps" "in_rotation c qs" "set ps = set qs"
  then have "map (rotation_key c) ps = map (rotation_key c) qs"
    unfolding in_rotation_def by (intro os_ok_unique) simp_all
  then have "map (snd \<circ> rotation_key c) ps = map (snd \<circ> rotation_key c) qs" by (metis list.map_comp)
  then show ?thesis by (simp add: rotation_key_def comp_def)
qed

lemma in_rotation_distinct: "in_rotation c ps \<Longrightarrow> distinct ps"
  unfolding in_rotation_def strict_sorted_iff by (simp add: distinct_map)

lemma rotation_law:
  assumes "os_ok (uq_current q)"
  shows "in_rotation (uq_cursor q) (rotation q)" "set (rotation q) = set (uq_current q)"
proof -
  show "in_rotation (uq_cursor q) (rotation q)"
  proof (cases "uq_cursor q")
    case None
    then show ?thesis using assms
      by (simp add: in_rotation_def rotation_def sorted_wrt_map rotation_key_less)
  next
    case (Some t)
    have up: "sorted_wrt (\<lambda>p r. rotation_key (Some t) p < rotation_key (Some t) r) (filter P (uq_current q))"
      if "(\<forall>p. P p \<longrightarrow> t < p) \<or> (\<forall>p. P p \<longrightarrow> p \<le> t)" for P
    proof (rule sorted_wrt_mono_rel [OF _ sorted_wrt_filter [OF assms, of P]])
      fix p r assume "p \<in> set (filter P (uq_current q))" "r \<in> set (filter P (uq_current q))" "p < r"
      then show "rotation_key (Some t) p < rotation_key (Some t) r"
        using that by (auto simp: rotation_key_less dest: leD)
    qed
    show ?thesis
      using Some up [of "\<lambda>p. t < p"] up [of "\<lambda>p. p \<le> t"]
      by (auto simp: in_rotation_def rotation_def sorted_wrt_map sorted_wrt_append rotation_key_less)
  qed
  show "set (rotation q) = set (uq_current q)" by (auto simp: rotation_def split: option.split)
qed

text \<open>After the cursor moves forward, what lies behind it comes after what lies ahead.\<close>

lemma served_go_last:
  assumes "rotation_key c x \<le> rotation_key c t" "rotation_key c t < rotation_key c y"
  shows "rotation_key (Some t) y < rotation_key (Some t) x"
  using assms by (cases c) (auto simp: rotation_key_def less_prod_def less_eq_prod_def)

lemma rest_keeps_order:
  assumes "rotation_key c t < rotation_key c x" "rotation_key c x < rotation_key c y"
  shows "rotation_key (Some t) x < rotation_key (Some t) y"
  using assms by (cases c) (auto simp: rotation_key_def less_prod_def)

section \<open>One drain\<close>

lemma take_loop_law:
  assumes "distinct ps" "set ps \<subseteq> set (uq_current q)"
  shows "take_loop cap ps taken q =
    (let served = take (cap - length taken) ps
     in (taken @ served, q\<lparr>uq_current := filter (\<lambda>x. x \<notin> set served) (uq_current q),
           uq_cursor := (if served = [] then uq_cursor q else Some (last served))\<rparr>))"
  using assms
proof (induction ps arbitrary: taken q)
  case (Cons p ps)
  show ?case
  proof (cases "cap \<le> length taken")
    case False
    let ?q = "q\<lparr>uq_current := filter (\<lambda>x. x \<noteq> p) (uq_current q), uq_cursor := Some p\<rparr>"
    have "set ps \<subseteq> set (uq_current ?q)" using Cons.prems by auto
    obtain m where m: "cap - length taken = Suc m" "cap - length (taken @ [p]) = m"
      using False by (cases "cap - length taken") auto
    note ih = Cons.IH [of ?q "taken @ [p]", unfolded m(2)]
    have "take_loop cap (p # ps) taken q = take_loop cap ps (taken @ [p]) ?q" using False Cons.prems by simp
    also have "\<dots> = (let served = take m ps
        in ((taken @ [p]) @ served, ?q\<lparr>uq_current := filter (\<lambda>x. x \<notin> set served) (uq_current ?q),
             uq_cursor := (if served = [] then uq_cursor ?q else Some (last served))\<rparr>))"
      using ih Cons.prems \<open>set ps \<subseteq> set (uq_current ?q)\<close> by simp
    finally show ?thesis by (simp add: m(1) Let_def conj_commute)
  qed (simp add: Let_def)
qed (simp add: Let_def)

lemma take_neighbours_law:
  assumes "os_ok (uq_current q)" "take_neighbours q now cap = (d, q')"
  shows "nd_positions d = take cap (rotation q) \<and> os_ok (uq_current q') \<and>
    set (uq_current q') = set (drop cap (rotation q)) \<and>
    uq_cursor q' = (if take cap (rotation q) = [] then uq_cursor q else Some (last (take cap (rotation q)))) \<and>
    nd_exhausted d = (uq_current q' \<noteq> []) \<and> uq_scheduled q' = uq_scheduled q"
proof -
  note rot = rotation_law [OF assms(1)]
  have dist: "distinct (rotation q)" by (rule in_rotation_distinct [OF rot(1)])
  have loop: "take_loop cap (rotation q) [] q =
     (take cap (rotation q), q\<lparr>uq_current := filter (\<lambda>x. x \<notin> set (take cap (rotation q))) (uq_current q),
        uq_cursor := (if take cap (rotation q) = [] then uq_cursor q else Some (last (take cap (rotation q))))\<rparr>)"
    using take_loop_law [OF dist, of q cap "[]"] rot(2) by (simp add: Let_def)
  have "set (take cap (rotation q)) \<inter> set (drop cap (rotation q)) = {}"
    by (rule set_take_disj_set_drop_if_distinct [OF dist order_refl])
  moreover have "set (uq_current q) = set (take cap (rotation q)) \<union> set (drop cap (rotation q))"
    unfolding rot(2) [symmetric] by (metis append_take_drop_id set_append)
  ultimately have rest: "set (uq_current q) - set (take cap (rotation q)) = set (drop cap (rotation q))" by blast
  have d: "d = \<lparr>nd_now = now, nd_positions = take cap (rotation q), nd_exhausted = (uq_current q' \<noteq> [])\<rparr>"
    and cur: "uq_current q' = filter (\<lambda>x. x \<notin> set (take cap (rotation q))) (uq_current q)"
    and "uq_cursor q' = (if take cap (rotation q) = [] then uq_cursor q else Some (last (take cap (rotation q))))"
    and "uq_scheduled q' = uq_scheduled q"
    using assms(2) unfolding take_neighbours_def loop Let_def by auto
  moreover have "set (uq_current q') = set (drop cap (rotation q))" unfolding cur rest [symmetric] by auto
  moreover have "os_ok (uq_current q')" unfolding cur by (rule sorted_wrt_filter [OF assms(1)])
  ultimately show ?thesis by simp
qed

section \<open>Rounds\<close>

text \<open>Drains of at most \<open>n\<close> positions, each followed by raises.\<close>

fun rounds :: "update_queue \<Rightarrow> nat \<Rightarrow> pos list list \<Rightarrow> pos list list" where
  "rounds q n [] = []"
| "rounds q n (xs # xss) =
     (let (d, q) = drain_at_most q n; (_, q) = push_neighbours q xs in nd_positions d # rounds q n xss)"

lemma push_neighbours_current:
  assumes "push_neighbours q ps = (n, q')" "os_ok (uq_current q)"
  shows "os_ok (uq_current q') \<and> uq_cursor q' = uq_cursor q \<and> set (uq_current q) \<subseteq> set (uq_current q') \<and>
    set (uq_current q') \<subseteq> set (uq_current q) \<union> set ps"
  using assms
proof (induction ps arbitrary: q n)
  case (Cons p ps)
  obtain i q1 where p: "push_neighbour q p = (i, q1)" by fastforce
  obtain m where r: "push_neighbours q1 ps = (m, q')" using Cons.prems(1) p by (auto split: prod.splits)
  have "os_ok (uq_current q1) \<and> uq_cursor q1 = uq_cursor q \<and>
      (uq_current q1 = uq_current q \<or> uq_current q1 = os_insert p (uq_current q))"
    using p Cons.prems(2) by (auto simp: push_neighbour_def split: if_splits)
  then show ?case using Cons.IH [OF r] by auto
qed simp

text \<open>
  \<open>j\<close> positions of the starting rotation are served; the others are pending, with some of
  those served.
\<close>

definition served_up_to :: "pos list \<Rightarrow> pos option \<Rightarrow> nat \<Rightarrow> update_queue \<Rightarrow> bool" where
  "served_up_to R c j q \<longleftrightarrow> os_ok (uq_current q) \<and> j \<le> length R \<and>
     uq_cursor q = (if j = 0 then c else Some (R ! (j - 1))) \<and>
     set (drop j R) \<subseteq> set (uq_current q) \<and> set (uq_current q) \<subseteq> set R"

lemma rotation_served:
  assumes "in_rotation c R" "served_up_to R c j q"
  shows "\<exists>S. rotation q = drop j R @ S"
proof -
  have q: "os_ok (uq_current q)" "j \<le> length R" "set (drop j R) \<subseteq> set (uq_current q)" "set (uq_current q) \<subseteq> set R"
      "uq_cursor q = (if j = 0 then c else Some (R ! (j - 1)))"
    using assms(2) by (simp_all add: served_up_to_def)
  have R: "sorted_wrt (\<lambda>p r. rotation_key c p < rotation_key c r) R" using assms(1) by (simp add: in_rotation_def sorted_wrt_map)
  have less: "rotation_key c (R ! a) < rotation_key c (R ! b)" if "a < b" "b < length R" for a b
    using R that by (simp add: sorted_wrt_iff_nth_less)
  let ?old = "filter (\<lambda>p. p \<notin> set (drop j R)) (rotation q)"
  note rot = rotation_law [OF q(1)]
  have ahead: "rotation_key (uq_cursor q) y < rotation_key (uq_cursor q) x"
    if xy: "y \<in> set (drop j R)" "x \<in> set R" "x \<notin> set (drop j R)" for x y
  proof -
    obtain i where i: "i < length (drop j R)" "y = drop j R ! i"
      using xy(1) unfolding in_set_conv_nth by blast
    have "y = R ! (j + i)" "j \<le> j + i" "j + i < length R" using i q(2) by (simp_all add: less_diff_conv add.commute)
    then obtain b where b: "y = R ! b" "j \<le> b" "b < length R" by blast
    obtain a where a: "x = R ! a" "a < length R" using xy(2) by (auto simp: in_set_conv_nth)
    have "a < j"
    proof (rule ccontr)
      assume "\<not> a < j"
      then have "drop j R ! (a - j) = x" "a - j < length (drop j R)" using a by simp_all
      then show False using xy(3) nth_mem by metis
    qed
    then have t: "uq_cursor q = Some (R ! (j - 1))" "a \<le> j - 1" "j - 1 < b" "j - 1 < length R" using q(2,5) b by auto
    have "rotation_key c x \<le> rotation_key c (R ! (j - 1))"
      using less [of a "j - 1"] t(2,4) a(1) by (cases "a = j - 1") auto
    then show ?thesis unfolding t(1) using less [OF t(3) b(3)] b(1) served_go_last by blast
  qed
  have keeps: "in_rotation (uq_cursor q) (drop j R)"
  proof (cases "j = 0")
    case True
    then show ?thesis using assms(1) q(5) by simp
  next
    case False
    have "rotation_key (Some (R ! (j - 1))) (R ! (j + a)) < rotation_key (Some (R ! (j - 1))) (R ! (j + b))"
      if "a < b" "j + b < length R" for a b
      using rest_keeps_order [OF less [of "j - 1" "j + a"] less [of "j + a" "j + b"]] that False by simp
    then show ?thesis using False q(5) by (simp add: in_rotation_def sorted_wrt_iff_nth_less)
  qed
  have "in_rotation (uq_cursor q) ?old"
    using rot(1) by (simp add: in_rotation_def sorted_wrt_map sorted_wrt_filter)
  then have "in_rotation (uq_cursor q) (drop j R @ ?old)"
    using keeps ahead rot(2) q(4) by (auto simp: in_rotation_def sorted_wrt_append)
  moreover have "set (drop j R @ ?old) = set (rotation q)" using rot(2) q(3) by auto
  ultimately show ?thesis using in_rotation_unique rot(1) by metis
qed

lemma rounds_fair:
  assumes "in_rotation c R" "served_up_to R c j q" "j \<le> k" "k < length R" "1 \<le> n" "n \<le> MAX_ENTRIES"
    "(k - j) div n < length xss"
    "\<forall>i < length xss. set (xss ! i) \<subseteq> set (take j R) \<union> set (concat (take (Suc i) (rounds q n xss)))"
  shows "R ! k \<in> set (rounds q n xss ! ((k - j) div n))"
  using assms(2-)
proof (induction xss arbitrary: j q)
  case (Cons xs xss)
  obtain S where S: "rotation q = drop j R @ S" using rotation_served [OF assms(1) Cons.prems(1)] by blast
  obtain d q1 where d: "drain_at_most q n = (d, q1)" by fastforce
  have ok: "os_ok (uq_current q)" using Cons.prems(1) by (simp add: served_up_to_def)
  have tn: "take_neighbours q (last_or_zero q) n = (d, q1)"
    using d Cons.prems(4,5) by (simp add: drain_at_most_def)
  note law = take_neighbours_law [OF ok tn]
  obtain m q2 where p: "push_neighbours q1 xs = (m, q2)" by fastforce
  have rounds: "rounds q n (xs # xss) = nd_positions d # rounds q2 n xss" by (simp add: d p)
  show ?case
  proof (cases "k - j < n")
    case True
    have "k - j < length R - j" using Cons.prems(2,3) by linarith
    then have "rotation q ! (k - j) = R ! k" using Cons.prems(2) by (simp add: S nth_append)
    moreover have "k - j < length (take n (rotation q))" using True Cons.prems(2,3) by (simp add: S)
    then have "take n (rotation q) ! (k - j) \<in> set (take n (rotation q))" by (rule nth_mem)
    then have "rotation q ! (k - j) \<in> set (take n (rotation q))" using True by simp
    ultimately show ?thesis using True law rounds by simp
  next
    case False
    then have jn: "j + n \<le> k" using Cons.prems(2) by linarith
    then have len: "n \<le> length (drop j R)" using Cons.prems(3) by simp
    then have served: "take n (rotation q) = take n (drop j R)" "drop n (rotation q) = drop (j + n) R @ S"
      by (simp_all add: S add.commute)
    have first: "set xs \<subseteq> set (take (j + n) R)"
      using Cons.prems(7) [rule_format, of 0] law unfolding rounds served(1) take_add by auto
    have "last (take n (drop j R)) = R ! (j + n - 1)"
      using len Cons.prems(4) by (subst last_conv_nth) (auto simp: min_def)
    then have cur: "uq_cursor q1 = Some (R ! (j + n - 1))" using law served(1) len Cons.prems(4) by auto
    have "set S \<subseteq> set R" using rotation_law(2) [OF ok] S Cons.prems(1) by (auto simp: served_up_to_def)
    then have q1: "set (uq_current q1) \<subseteq> set R" "set (drop (j + n) R) \<subseteq> set (uq_current q1)" "os_ok (uq_current q1)"
      using law served(2) set_drop_subset [of "j + n" R] by auto
    note pushed = push_neighbours_current [OF p q1(3)]
    have "set xs \<subseteq> set R" using first set_take_subset [of "j + n" R] by simp
    then have "set (uq_current q2) \<subseteq> set R" using pushed q1(1) by blast
    moreover have "set (drop (j + n) R) \<subseteq> set (uq_current q2)" using pushed q1(2) by blast
    moreover have "os_ok (uq_current q2)" "uq_cursor q2 = Some (R ! (j + n - 1))" using pushed cur by simp_all
    moreover have "j + n \<le> length R" "j + n \<noteq> 0" using jn Cons.prems(3,4) by simp_all
    ultimately have inv: "served_up_to R c (j + n) q2" unfolding served_up_to_def by auto
    have raises: "\<forall>i < length xss. set (xss ! i) \<subseteq> set (take (j + n) R) \<union> set (concat (take (Suc i) (rounds q2 n xss)))"
    proof (intro allI impI)
      fix i assume "i < length xss"
      then show "set (xss ! i) \<subseteq> set (take (j + n) R) \<union> set (concat (take (Suc i) (rounds q2 n xss)))"
        using Cons.prems(7) [rule_format, of "Suc i"] law unfolding rounds served(1) take_add by auto
    qed
    have step: "(k - j) div n = Suc ((k - (j + n)) div n)"
      using le_div_geq [of n "k - j"] False Cons.prems(4) by simp
    then have "(k - (j + n)) div n < length xss" using Cons.prems(6) by simp
    from Cons.IH [OF inv jn Cons.prems(3,4,5) this raises] show ?thesis unfolding rounds step by simp
  qed
qed simp

text \<open>
  C30. No pending neighbour update starves. Whatever positions are raised again after a drain,
  among those already served, the position of rank \<open>k\<close> in the rotation is served by drain
  number \<open>k div n\<close> when each drain takes at most \<open>n\<close>; so every position pending at the start is
  served within \<open>ceil (len / n)\<close> drains.
\<close>

theorem pending_updates_are_served:
  assumes "os_ok (uq_current q)" "k < length (rotation q)" "1 \<le> n" "n \<le> MAX_ENTRIES" "k div n < length xss"
    "\<forall>i < length xss. set (xss ! i) \<subseteq> set (concat (take (Suc i) (rounds q n xss)))"
  shows "rotation q ! k \<in> set (rounds q n xss ! (k div n)) \<and> set (rotation q) = set (uq_current q)"
proof -
  have "served_up_to (rotation q) (uq_cursor q) 0 q"
    using assms(1) rotation_law(2) [OF assms(1)] by (simp add: served_up_to_def)
  from rounds_fair [OF rotation_law(1) [OF assms(1)] this _ assms(2,3,4)] assms(5,6) rotation_law(2) [OF assms(1)]
  show ?thesis by simp
qed

text \<open>Three pending positions, one served at a time and raised again each time.\<close>

definition sample_queue :: update_queue where
  "sample_queue = snd (push_neighbours new_update_queue [Pos 1 0 0, Pos 2 0 0, Pos 3 0 0])"

lemma sample_rounds:
  "rounds sample_queue 1 [[Pos 1 0 0], [Pos 1 0 0, Pos 2 0 0], []] = [[Pos 1 0 0], [Pos 2 0 0], [Pos 3 0 0]]"
  "rotation sample_queue = [Pos 1 0 0, Pos 2 0 0, Pos 3 0 0]" "uq_current sample_queue = [Pos 1 0 0, Pos 2 0 0, Pos 3 0 0]"
  by (simp_all add: sample_queue_def new_update_queue_def push_neighbour_def uq_length_def entry_count_def
      MAX_ENTRIES_def less_pos_def drain_at_most_def take_neighbours_def rotation_def last_or_zero_def Let_def)

theorem pending_updates_are_served_witness:
  "Pos 3 0 0 \<in> set (rounds sample_queue 1 [[Pos 1 0 0], [Pos 1 0 0, Pos 2 0 0], []] ! 2)"
proof -
  let ?xss = "[[Pos 1 0 0], [Pos 1 0 0, Pos 2 0 0], []]"
  have "os_ok (uq_current sample_queue)" by (simp add: sample_rounds less_pos_def)
  moreover have "\<forall>i < length ?xss. set (?xss ! i) \<subseteq> set (concat (take (Suc i) (rounds sample_queue 1 ?xss)))"
    unfolding sample_rounds by (auto simp: less_Suc_eq numeral_3_eq_3)
  ultimately show ?thesis
    using pending_updates_are_served [of sample_queue 2 1 ?xss] by (simp add: sample_rounds MAX_ENTRIES_def)
qed

text \<open>\<open>scheduled_later\<close> counts the pending neighbour updates and the overdue ticks as well.\<close>

lemma scheduled_later_counts_all:
  "case drain_due_block_ticks (snd (uq_schedule_at (snd (push_neighbour new_update_queue (Pos 0 0 0))) 3 (Pos 1 2 3))) 5
       \<lparr>ub_neighbour = 0, ub_scheduled = 0\<rparr> of (d, q) \<Rightarrow> bd_later d = 2 \<and> \<not> uq_pending_after q 5"
  by (simp add: push_neighbour_def uq_schedule_at_def new_update_queue_def drain_due_block_ticks_def begin_tick_def
      due_ticks_def bucket_insert_def bucket_at_def om_remove_def bucket_extend_def os_extend_def entry_count_def
      uq_length_def MAX_ENTRIES_def uq_pending_after_def pending_after_def Let_def)

end
