(* ===== verification/RedstonePower.thy ===== *)
theory RedstonePower
  imports WorldFluids
begin

text \<open>
  \<open>crates/redstone/src/power.rs\<close>, \<open>blocks.rs\<close> and \<open>components.rs\<close>: power levels, what a source
  emits, the block names the model knows, and the state each component keeps in its block.

  A \<open>PowerLevel\<close> wraps a u8 that its constructors keep at most 15; it is a number here, and
  the bound is a theorem about what the constructors and the components return.
\<close>

section \<open>Power levels and signals\<close>

type_synonym power_level = nat

definition MAX_POWER :: power_level where "MAX_POWER = 15"

definition power_new :: "nat \<Rightarrow> power_level server_result" where
  "power_new v = (if MAX_POWER < v then Inl InvalidAction else Inr v)"

definition power_raw :: "nat \<Rightarrow> power_level" where
  "power_raw v = (if MAX_POWER < v then MAX_POWER else v)"

definition level_powered :: "power_level \<Rightarrow> bool" where
  "level_powered l \<longleftrightarrow> l \<noteq> 0"

text \<open>\<open>u8::saturating_sub\<close> is subtraction of naturals.\<close>

definition level_saturating_sub :: "power_level \<Rightarrow> nat \<Rightarrow> power_level" where
  "level_saturating_sub l n = l - n"

definition power_try_from :: "nat \<Rightarrow> power_level server_result" where
  "power_try_from v = power_new v"

datatype signal_kind = Weak | Strong

definition powers_dust :: "signal_kind \<Rightarrow> bool" where
  "powers_dust k \<longleftrightarrow> (case k of Strong \<Rightarrow> True | Weak \<Rightarrow> False)"

definition signal_kind_name :: "signal_kind \<Rightarrow> rstring" where
  "signal_kind_name k = (case k of Weak \<Rightarrow> lit ''weak'' | Strong \<Rightarrow> lit ''strong'')"

record power_state =
  ps_weak :: power_level
  ps_strong :: power_level

definition POWER_OFF :: power_state where "POWER_OFF = \<lparr>ps_weak = 0, ps_strong = 0\<rparr>"

definition weak_only :: "power_level \<Rightarrow> power_state" where
  "weak_only l = \<lparr>ps_weak = l, ps_strong = 0\<rparr>"

definition strong_at :: "power_level \<Rightarrow> power_state" where
  "strong_at l = \<lparr>ps_weak = l, ps_strong = l\<rparr>"

definition state_level :: "power_state \<Rightarrow> power_level" where
  "state_level s = (if ps_strong s \<le> ps_weak s then ps_weak s else ps_strong s)"

definition state_max :: "power_state \<Rightarrow> power_state \<Rightarrow> power_state" where
  "state_max a b =
     \<lparr>ps_weak = (if ps_weak b \<le> ps_weak a then ps_weak a else ps_weak b),
      ps_strong = (if ps_strong b \<le> ps_strong a then ps_strong a else ps_strong b)\<rparr>"

definition state_powered :: "power_state \<Rightarrow> bool" where
  "state_powered s \<longleftrightarrow> level_powered (ps_weak s) \<or> level_powered (ps_strong s)"

definition attenuate :: "power_state \<Rightarrow> nat \<Rightarrow> power_state" where
  "attenuate s n = \<lparr>ps_weak = level_saturating_sub (ps_weak s) n, ps_strong = level_saturating_sub (ps_strong s) n\<rparr>"

section \<open>Sources\<close>

datatype power_source =
  Src_Block | Src_Torch | Src_Lever | Src_Button | Src_Plate | Src_Repeater | Src_Comparator | Src_Observer | Src_Rod

definition base_power :: "power_source \<Rightarrow> power_level" where
  "base_power s = MAX_POWER"

definition is_strong_source :: "power_source \<Rightarrow> bool" where
  "is_strong_source s \<longleftrightarrow> s = Src_Block \<or> s = Src_Observer"

definition active_state :: "power_source \<Rightarrow> power_state" where
  "active_state s = (if is_strong_source s then strong_at (base_power s) else weak_only (base_power s))"

definition source_name :: "power_source \<Rightarrow> rstring" where
  "source_name s =
     (case s of
        Src_Block \<Rightarrow> lit ''redstone_block''
      | Src_Torch \<Rightarrow> lit ''redstone_torch''
      | Src_Lever \<Rightarrow> lit ''lever''
      | Src_Button \<Rightarrow> lit ''button''
      | Src_Plate \<Rightarrow> lit ''pressure_plate''
      | Src_Repeater \<Rightarrow> lit ''repeater''
      | Src_Comparator \<Rightarrow> lit ''comparator''
      | Src_Observer \<Rightarrow> lit ''observer''
      | Src_Rod \<Rightarrow> lit ''lightning_rod'')"

definition source_block_name :: "power_source \<Rightarrow> rstring" where
  "source_block_name s =
     (case s of
        Src_Block \<Rightarrow> lit ''minecraft:redstone_block''
      | Src_Torch \<Rightarrow> lit ''minecraft:redstone_torch''
      | Src_Lever \<Rightarrow> lit ''minecraft:lever''
      | Src_Button \<Rightarrow> lit ''minecraft:stone_button''
      | Src_Plate \<Rightarrow> lit ''minecraft:stone_pressure_plate''
      | Src_Repeater \<Rightarrow> lit ''minecraft:repeater''
      | Src_Comparator \<Rightarrow> lit ''minecraft:comparator''
      | Src_Observer \<Rightarrow> lit ''minecraft:observer''
      | Src_Rod \<Rightarrow> lit ''minecraft:lightning_rod'')"

section \<open>Block names\<close>

definition REDSTONE_WIRE :: rstring where "REDSTONE_WIRE = lit ''minecraft:redstone_wire''"
definition LEVER :: rstring where "LEVER = lit ''minecraft:lever''"
definition REDSTONE_TORCH :: rstring where "REDSTONE_TORCH = lit ''minecraft:redstone_torch''"
definition REDSTONE_WALL_TORCH :: rstring where "REDSTONE_WALL_TORCH = lit ''minecraft:redstone_wall_torch''"
definition REDSTONE_BLOCK :: rstring where "REDSTONE_BLOCK = lit ''minecraft:redstone_block''"
definition REPEATER :: rstring where "REPEATER = lit ''minecraft:repeater''"
definition REDSTONE_LAMP :: rstring where "REDSTONE_LAMP = lit ''minecraft:redstone_lamp''"
definition COMPARATOR :: rstring where "COMPARATOR = lit ''minecraft:comparator''"
definition OBSERVER :: rstring where "OBSERVER = lit ''minecraft:observer''"
definition DISPENSER :: rstring where "DISPENSER = lit ''minecraft:dispenser''"
definition DROPPER :: rstring where "DROPPER = lit ''minecraft:dropper''"

definition SOURCE_BLOCKS :: "(rstring \<times> power_source) list" where
  "SOURCE_BLOCKS =
     [(REDSTONE_BLOCK, Src_Block), (REDSTONE_TORCH, Src_Torch), (REDSTONE_WALL_TORCH, Src_Torch), (LEVER, Src_Lever)] @
     map (\<lambda>n. (lit ''minecraft:'' @ lit n @ lit ''_button'', Src_Button))
       [''stone'', ''oak'', ''spruce'', ''birch'', ''jungle'', ''acacia'', ''cherry'', ''dark_oak'', ''pale_oak'',
        ''mangrove'', ''bamboo'', ''crimson'', ''warped'', ''polished_blackstone''] @
     map (\<lambda>n. (lit ''minecraft:'' @ lit n @ lit ''_pressure_plate'', Src_Plate))
       [''stone'', ''oak'', ''spruce'', ''birch'', ''jungle'', ''acacia'', ''cherry'', ''dark_oak'', ''pale_oak'',
        ''mangrove'', ''bamboo'', ''crimson'', ''warped'', ''polished_blackstone''] @
     [(REPEATER, Src_Repeater), (COMPARATOR, Src_Comparator), (OBSERVER, Src_Observer)] @
     map (\<lambda>n. (lit ''minecraft:'' @ lit n @ lit ''lightning_rod'', Src_Rod))
       ['''', ''exposed_'', ''weathered_'', ''oxidized_'', ''waxed_'', ''waxed_exposed_'', ''waxed_weathered_'',
        ''waxed_oxidized_'']"

definition source_for_name :: "rstring \<Rightarrow> power_source option" where
  "source_for_name name = map_of SOURCE_BLOCKS name"

definition is_door :: "rstring \<Rightarrow> bool" where "is_door name = ends_with name (lit ''_door'')"
definition is_trapdoor :: "rstring \<Rightarrow> bool" where "is_trapdoor name = ends_with name (lit ''_trapdoor'')"
definition is_fence_gate :: "rstring \<Rightarrow> bool" where "is_fence_gate name = ends_with name (lit ''_fence_gate'')"

definition facing_offset :: "rstring \<Rightarrow> int \<times> int \<times> int" where
  "facing_offset f =
     (if f = lit ''down'' then (0, -1, 0)
      else if f = lit ''up'' then (0, 1, 0)
      else if f = lit ''north'' then (0, 0, -1)
      else if f = lit ''south'' then (0, 0, 1)
      else if f = lit ''west'' then (-1, 0, 0)
      else if f = lit ''east'' then (1, 0, 0)
      else (0, 0, -1))"

definition hand_toggleable :: "rstring \<Rightarrow> bool" where
  "hand_toggleable name \<longleftrightarrow>
     (is_door name \<or> is_trapdoor name \<or> is_fence_gate name) \<and>
     name \<noteq> lit ''minecraft:iron_door'' \<and> name \<noteq> lit ''minecraft:iron_trapdoor''"

definition primary_block_name :: "power_source \<Rightarrow> rstring" where
  "primary_block_name s =
     (case find (\<lambda>(_, c). c = s) SOURCE_BLOCKS of None \<Rightarrow> AIR | Some (block, _) \<Rightarrow> block)"

section \<open>Components\<close>

definition bool_text :: "bool \<Rightarrow> rstring" where
  "bool_text b = (if b then TRUE_TEXT else FALSE_TEXT)"

definition MIN_DELAY :: nat where "MIN_DELAY = 1"
definition MAX_DELAY :: nat where "MAX_DELAY = 4"

definition clamp_repeater_delay :: "nat \<Rightarrow> nat" where
  "clamp_repeater_delay d = (if d < MIN_DELAY then MIN_DELAY else if MAX_DELAY < d then MAX_DELAY else d)"

record lever = lever_on :: bool
record observer = obs_powered :: bool
record redstone_torch = torch_lit :: bool
record repeater =
  rep_delay :: nat
  rep_powered :: bool
  rep_locked :: bool
datatype comparator_mode = Compare | Subtract
record comparator =
  cmp_mode :: comparator_mode
  cmp_powered :: bool

definition lever_toggle :: "lever \<Rightarrow> bool \<times> lever" where
  "lever_toggle l = (lever_on l, l\<lparr>lever_on := \<not> lever_on l\<rparr>)"

definition lever_signal_kind :: "lever \<Rightarrow> signal_kind" where
  "lever_signal_kind l = Weak"

definition lever_properties :: "lever \<Rightarrow> property_list" where
  "lever_properties l = [(lit ''powered'', bool_text (lever_on l))]"

definition observer_properties :: "observer \<Rightarrow> property_list" where
  "observer_properties l = [(lit ''powered'', bool_text (obs_powered l))]"

definition torch_react :: "power_state \<Rightarrow> redstone_torch" where
  "torch_react input = \<lparr>torch_lit = \<not> state_powered input\<rparr>"

definition torch_output :: "redstone_torch \<Rightarrow> power_state" where
  "torch_output t = (if torch_lit t then weak_only (base_power Src_Torch) else POWER_OFF)"

definition torch_properties :: "redstone_torch \<Rightarrow> property_list" where
  "torch_properties t = [(lit ''lit'', bool_text (torch_lit t))]"

definition repeater_new :: "nat \<Rightarrow> repeater" where
  "repeater_new d = \<lparr>rep_delay = clamp_repeater_delay d, rep_powered = False, rep_locked = False\<rparr>"

definition repeater_delay :: "repeater \<Rightarrow> nat" where
  "repeater_delay r = clamp_repeater_delay (rep_delay r)"

definition repeater_output :: "repeater \<Rightarrow> power_state" where
  "repeater_output r = (if rep_powered r then weak_only (base_power Src_Repeater) else POWER_OFF)"

definition repeater_properties :: "repeater \<Rightarrow> property_list" where
  "repeater_properties r =
     [(lit ''delay'', digits_of (repeater_delay r)), (lit ''locked'', bool_text (rep_locked r)),
      (lit ''powered'', bool_text (rep_powered r))]"

definition comparator_mode_name :: "comparator_mode \<Rightarrow> rstring" where
  "comparator_mode_name m = (case m of Compare \<Rightarrow> lit ''compare'' | Subtract \<Rightarrow> lit ''subtract'')"

definition comparator_new :: "comparator_mode \<Rightarrow> comparator" where
  "comparator_new m = \<lparr>cmp_mode = m, cmp_powered = False\<rparr>"

definition comparator_level :: "comparator \<Rightarrow> power_level \<Rightarrow> power_level \<Rightarrow> power_level" where
  "comparator_level c b s =
     (case cmp_mode c of
        Compare \<Rightarrow> if s \<le> b then b else 0
      | Subtract \<Rightarrow> level_saturating_sub b s)"

definition comparator_output :: "comparator \<Rightarrow> power_level \<Rightarrow> power_level \<Rightarrow> power_state" where
  "comparator_output c b s = weak_only (comparator_level c b s)"

definition comparator_properties :: "comparator \<Rightarrow> property_list" where
  "comparator_properties c =
     [(lit ''mode'', comparator_mode_name (cmp_mode c)), (lit ''powered'', bool_text (cmp_powered c))]"

datatype component_state =
  C_Lever lever | C_Torch redstone_torch | C_Repeater repeater | C_Comparator comparator | C_Observer observer

definition output_power :: "component_state \<Rightarrow> power_state \<Rightarrow> power_state" where
  "output_power c input =
     (case c of
        C_Lever l \<Rightarrow> if lever_on l then weak_only (base_power Src_Lever) else POWER_OFF
      | C_Torch t \<Rightarrow> torch_output t
      | C_Repeater r \<Rightarrow> repeater_output r
      | C_Comparator k \<Rightarrow> comparator_output k (state_level input) 0
      | C_Observer b \<Rightarrow> if obs_powered b then active_state Src_Observer else POWER_OFF)"

definition output_power_with_side :: "component_state \<Rightarrow> power_state \<Rightarrow> power_level \<Rightarrow> power_state" where
  "output_power_with_side c input side =
     (case c of
        C_Comparator k \<Rightarrow> comparator_output k (state_level input) side
      | _ \<Rightarrow> output_power c input)"

definition component_source :: "component_state \<Rightarrow> power_source" where
  "component_source c =
     (case c of C_Lever _ \<Rightarrow> Src_Lever | C_Torch _ \<Rightarrow> Src_Torch | C_Repeater _ \<Rightarrow> Src_Repeater
      | C_Comparator _ \<Rightarrow> Src_Comparator | C_Observer _ \<Rightarrow> Src_Observer)"

definition has_facing :: "component_state \<Rightarrow> bool" where
  "has_facing c \<longleftrightarrow> (case c of C_Torch _ \<Rightarrow> False | _ \<Rightarrow> True)"

definition has_face :: "component_state \<Rightarrow> bool" where
  "has_face c \<longleftrightarrow> (case c of C_Lever _ \<Rightarrow> True | _ \<Rightarrow> False)"

definition component_properties :: "component_state \<Rightarrow> property_list" where
  "component_properties c =
     (case c of
        C_Lever l \<Rightarrow> lever_properties l
      | C_Torch t \<Rightarrow> torch_properties t
      | C_Repeater r \<Rightarrow> repeater_properties r
      | C_Comparator k \<Rightarrow> comparator_properties k
      | C_Observer b \<Rightarrow> observer_properties b) @
     (if has_facing c then [(lit ''facing'', lit ''north'')] else []) @
     (if has_face c then [(lit ''face'', lit ''floor'')] else [])"

section \<open>What the parts promise\<close>

definition power_ok :: "power_state \<Rightarrow> bool" where
  "power_ok s \<longleftrightarrow> ps_weak s \<le> MAX_POWER \<and> ps_strong s \<le> MAX_POWER"

lemma power_raw_le [simp]: "power_raw v \<le> MAX_POWER"
  by (simp add: power_raw_def)

lemma power_raw_id [simp]: "v \<le> MAX_POWER \<Longrightarrow> power_raw v = v"
  by (simp add: power_raw_def)

lemma state_level_max: "state_level s = max (ps_weak s) (ps_strong s)"
  by (simp add: state_level_def max_def)

lemma state_max_max: "state_max a b = \<lparr>ps_weak = max (ps_weak a) (ps_weak b), ps_strong = max (ps_strong a) (ps_strong b)\<rparr>"
  by (simp add: state_max_def max_def)

lemma power_ok_simps [simp]:
  "power_ok POWER_OFF" "power_ok (weak_only l) \<longleftrightarrow> l \<le> MAX_POWER" "power_ok (strong_at l) \<longleftrightarrow> l \<le> MAX_POWER"
  "power_ok (active_state s)" "power_ok a \<Longrightarrow> power_ok b \<Longrightarrow> power_ok (state_max a b)"
  "power_ok a \<Longrightarrow> state_level a \<le> MAX_POWER"
  by (simp_all add: power_ok_def POWER_OFF_def weak_only_def strong_at_def active_state_def base_power_def
        state_max_max state_level_max)

lemma state_level_simps [simp]:
  "state_level POWER_OFF = 0" "state_level (weak_only l) = l" "state_level (strong_at l) = l"
  by (simp_all add: state_level_def POWER_OFF_def weak_only_def strong_at_def)

lemma state_powered_level: "state_powered s \<longleftrightarrow> state_level s \<noteq> 0"
  by (auto simp: state_powered_def level_powered_def state_level_max)

lemma comparator_level_le: "comparator_level c b s \<le> b"
  by (simp add: comparator_level_def level_saturating_sub_def split: comparator_mode.split)

lemma output_power_ok: "power_ok input \<Longrightarrow> power_ok (output_power c input)"
  using comparator_level_le [THEN order_trans]
  by (auto simp: output_power_def torch_output_def repeater_output_def comparator_output_def base_power_def
        split: component_state.split)

lemma source_names_distinct: "distinct (map fst SOURCE_BLOCKS)"
  by (simp add: SOURCE_BLOCKS_def REDSTONE_BLOCK_def REDSTONE_TORCH_def REDSTONE_WALL_TORCH_def LEVER_def REPEATER_def
        COMPARATOR_def OBSERVER_def lit_def)

lemma primary_name: "primary_block_name s = source_block_name s"
  by (cases s) (simp_all add: primary_block_name_def SOURCE_BLOCKS_def source_block_name_def REDSTONE_BLOCK_def
      REDSTONE_TORCH_def LEVER_def REPEATER_def COMPARATOR_def OBSERVER_def lit_def)

lemma primary_source: "source_for_name (primary_block_name s) = Some s"
proof -
  have "(source_block_name s, s) \<in> set SOURCE_BLOCKS"
    by (cases s) (simp_all add: SOURCE_BLOCKS_def source_block_name_def REDSTONE_BLOCK_def
      REDSTONE_TORCH_def LEVER_def REPEATER_def COMPARATOR_def OBSERVER_def lit_def)
  then show ?thesis
    by (simp add: source_for_name_def primary_name source_names_distinct)
qed

end
