(* ===== verification/RedstonePropagation.thy ===== *)
theory RedstonePropagation
  imports RedstonePower RedstoneLaws
begin

text \<open>
  \<open>crates/redstone/src/propagation.rs\<close>: what a block state is to the circuit, what it receives
  from around it, the state it should have, and the loop that serves the queue of updates.

  The trait \<open>BlockView\<close> is a record of its two methods over a world of any type; the
  \<open>EmitterTable\<close> is the block registry it wraps. \<open>solid_power\<close> and \<open>gather_inputs_inner\<close> call
  each other, but the second call always has \<open>solids_live\<close> false and reads no solid again, so
  they are defined in the order of that depth: the reading of a solid is a parameter of the
  gathering, absent when solids are not live.
\<close>

record 'w block_view =
  bv_get :: "'w \<Rightarrow> pos \<Rightarrow> int option"
  bv_set :: "'w \<Rightarrow> pos \<Rightarrow> int \<Rightarrow> bool \<times> 'w"

definition WIRE_ATTENUATION_PER_BLOCK :: nat where "WIRE_ATTENUATION_PER_BLOCK = 1"
definition MIN_LIVE_WIRE_POWER :: nat where "MIN_LIVE_WIRE_POWER = 1"
definition WIRE_LIVE_BLOCKS :: nat where "WIRE_LIVE_BLOCKS = MAX_POWER div WIRE_ATTENUATION_PER_BLOCK"

datatype block_role = Wire power_level | Emitter power_source | Passive | Mechanism

record emitter_output =
  eo_state :: power_state
  eo_kind :: signal_kind

definition OUTPUT_OFF :: emitter_output where "OUTPUT_OFF = \<lparr>eo_state = POWER_OFF, eo_kind = Weak\<rparr>"

definition output_of :: "power_state \<Rightarrow> emitter_output" where
  "output_of s = \<lparr>eo_state = s, eo_kind = (if 0 < ps_strong s then Strong else Weak)\<rparr>"

definition output_effective :: "emitter_output \<Rightarrow> power_level" where
  "output_effective e = state_level (eo_state e)"

definition output_is_strong :: "emitter_output \<Rightarrow> bool" where
  "output_is_strong e \<longleftrightarrow> eo_kind e = Strong"

record block_inputs =
  in_faces :: "emitter_output list"
  in_dust :: "bool list"

definition NO_INPUTS :: block_inputs where
  "NO_INPUTS = \<lparr>in_faces = replicate 6 OUTPUT_OFF, in_dust = replicate 6 False\<rparr>"

definition strongest :: "block_inputs \<Rightarrow> emitter_output" where
  "strongest i = fold (\<lambda>e best. if output_effective best < output_effective e then e else best) (in_faces i) OUTPUT_OFF"

definition strongest_state :: "block_inputs \<Rightarrow> power_state" where
  "strongest_state i = fold (\<lambda>e best. state_max best (weak_only (output_effective e))) (in_faces i) POWER_OFF"

definition live_faces :: "block_inputs \<Rightarrow> nat" where
  "live_faces i = length (filter (\<lambda>e. state_powered (eo_state e)) (in_faces i))"

definition any_live :: "block_inputs \<Rightarrow> bool" where
  "any_live i \<longleftrightarrow> live_faces i \<noteq> 0"

section \<open>Reading a block state\<close>

definition et_name_of :: "block_registry \<Rightarrow> int \<Rightarrow> rstring option" where
  "et_name_of r i = (case block_name r i of Inl _ \<Rightarrow> None | Inr n \<Rightarrow> Some n)"

definition wire_power :: "block_registry \<Rightarrow> int \<Rightarrow> power_level option" where
  "wire_power r i =
     (case properties_of r i of
        Inl _ \<Rightarrow> None
      | Inr ps \<Rightarrow> (case map_of ps (lit ''power'') of None \<Rightarrow> None | Some v \<Rightarrow> map_option power_raw (parse_u8 v)))"

definition classify_block :: "block_registry \<Rightarrow> int \<Rightarrow> block_role" where
  "classify_block r i =
     (case block_name r i of
        Inl _ \<Rightarrow> Passive
      | Inr name \<Rightarrow>
          if name = REDSTONE_WIRE then (case wire_power r i of Some stored \<Rightarrow> Wire stored | None \<Rightarrow> Passive)
          else if name = REDSTONE_LAMP then Mechanism
          else if is_door name \<or> is_trapdoor name \<or> is_fence_gate name then Mechanism
          else case source_for_name name of Some s \<Rightarrow> Emitter s | None \<Rightarrow> Passive)"

definition wire_properties :: "power_level \<Rightarrow> property_list" where
  "wire_properties l =
     [(lit ''east'', lit ''side''), (lit ''north'', lit ''side''), (lit ''power'', digits_of l),
      (lit ''south'', lit ''side''), (lit ''west'', lit ''side'')]"

definition wire_state :: "block_registry \<Rightarrow> power_level \<Rightarrow> int server_result" where
  "wire_state r l = state_id r REDSTONE_WIRE (wire_properties l)"

definition component_state_id :: "block_registry \<Rightarrow> component_state \<Rightarrow> int server_result" where
  "component_state_id r c = state_id r (primary_block_name (component_source c)) (component_properties c)"

text \<open>The closure \<open>powered\<close>: some entry of that key is true.\<close>

definition property_true :: "property_list \<Rightarrow> rstring \<Rightarrow> bool" where
  "property_true ps k \<longleftrightarrow> list_ex (\<lambda>(a, v). a = k \<and> v = TRUE_TEXT) ps"

text \<open>\<open>str::parse::<u32>\<close>.\<close>

definition parse_u32 :: "rstring \<Rightarrow> nat option" where
  "parse_u32 s =
     (let ds = (case s of c # cs \<Rightarrow> if c = 43 then cs else s | [] \<Rightarrow> [])
      in if ds = [] then None
         else case digits_value 0 ds of None \<Rightarrow> None | Some n \<Rightarrow> if n < 2 ^ 32 then Some n else None)"

definition repeater_delay_of :: "property_list \<Rightarrow> nat" where
  "repeater_delay_of ps =
     (case map_of ps (lit ''delay'') of
        None \<Rightarrow> MIN_DELAY
      | Some v \<Rightarrow> (case parse_u32 v of None \<Rightarrow> MIN_DELAY | Some d \<Rightarrow> d))"

definition component_of :: "block_registry \<Rightarrow> int \<Rightarrow> component_state server_result" where
  "component_of r i =
     (case classify_block r i of
        Emitter source \<Rightarrow>
          and_then (properties_of r i) (\<lambda>ps.
            case source of
              Src_Lever \<Rightarrow> Inr (C_Lever \<lparr>lever_on = property_true ps (lit ''powered'')\<rparr>)
            | Src_Torch \<Rightarrow> Inr (C_Torch \<lparr>torch_lit = property_true ps (lit ''lit'')\<rparr>)
            | Src_Repeater \<Rightarrow>
                Inr (C_Repeater
                  \<lparr>rep_delay = clamp_repeater_delay (repeater_delay_of ps),
                   rep_powered = property_true ps (lit ''powered''), rep_locked = property_true ps (lit ''locked'')\<rparr>)
            | Src_Comparator \<Rightarrow>
                Inr (C_Comparator
                  \<lparr>cmp_mode = (case map_of ps (lit ''mode'') of
                      None \<Rightarrow> Compare
                    | Some v \<Rightarrow> if v = lit ''subtract'' then Subtract else Compare),
                   cmp_powered = property_true ps (lit ''powered'')\<rparr>)
            | Src_Observer \<Rightarrow> Inr (C_Observer \<lparr>obs_powered = property_true ps (lit ''powered'')\<rparr>)
            | _ \<Rightarrow> Inl CorruptData)
      | _ \<Rightarrow> Inl CorruptData)"

section \<open>Faces\<close>

definition opposite_face :: "nat \<Rightarrow> nat" where
  "opposite_face i =
     (if i = 0 then 1 else if i = 1 then 0 else if i = 2 then 3 else if i = 3 then 2 else if i = 4 then 5 else 4)"

definition facing_index :: "rstring \<Rightarrow> nat" where
  "facing_index f =
     (if f = lit ''down'' then 0 else if f = lit ''up'' then 1 else if f = lit ''south'' then 3
      else if f = lit ''west'' then 4 else if f = lit ''east'' then 5 else 2)"

definition property_or_north :: "property_list \<Rightarrow> rstring" where
  "property_or_north ps = (case map_of ps (lit ''facing'') of None \<Rightarrow> lit ''north'' | Some v \<Rightarrow> v)"

definition facing_of :: "block_registry \<Rightarrow> int \<Rightarrow> rstring" where
  "facing_of r i = (case properties_of r i of Inl _ \<Rightarrow> lit ''north'' | Inr ps \<Rightarrow> property_or_north ps)"

definition torch_attachment :: "rstring \<Rightarrow> property_list \<Rightarrow> nat" where
  "torch_attachment name ps =
     (if name = REDSTONE_WALL_TORCH then opposite_face (facing_index (property_or_north ps)) else 0)"

definition comparator_faces :: "rstring \<Rightarrow> nat \<times> nat \<times> nat" where
  "comparator_faces f =
     (if facing_index f = 4 then (5, 2, 3) else if facing_index f = 5 then (4, 2, 3)
      else if facing_index f = 3 then (2, 4, 5) else (3, 4, 5))"

definition offset_of_face :: "nat \<Rightarrow> int \<times> int \<times> int" where
  "offset_of_face i =
     (if i = 0 then (0, -1, 0) else if i = 1 then (0, 1, 0) else if i = 2 then (0, 0, -1)
      else if i = 3 then (0, 0, 1) else if i = 4 then (-1, 0, 0) else (1, 0, 0))"

definition pos_offset3 :: "pos \<Rightarrow> int \<times> int \<times> int \<Rightarrow> pos" where
  "pos_offset3 p d = (case d of (dx, dy, dz) \<Rightarrow> pos_offset p dx dy dz)"

definition observer_emits_toward :: "block_registry \<Rightarrow> int \<Rightarrow> nat \<Rightarrow> bool" where
  "observer_emits_toward r i face \<longleftrightarrow>
     face < 6 \<and>
     (case offset_of_face face of (ox, oy, oz) \<Rightarrow>
      case facing_offset (facing_of r i) of (fx, fy, fz) \<Rightarrow> (- ox, - oy, - oz) = (- fx, - fy, - fz))"

definition property_is :: "block_registry \<Rightarrow> int \<Rightarrow> rstring \<Rightarrow> bool" where
  "property_is r i k \<longleftrightarrow> (case properties_of r i of Inl _ \<Rightarrow> False | Inr ps \<Rightarrow> property_true ps k)"

definition lever_mount :: "block_registry \<Rightarrow> int \<Rightarrow> pos \<Rightarrow> pos option" where
  "lever_mount r i p =
     (case properties_of r i of
        Inl _ \<Rightarrow> None
      | Inr ps \<Rightarrow>
          (case map_of ps (lit ''face'') of
             None \<Rightarrow> None
           | Some face \<Rightarrow>
               if face = lit ''floor'' then Some (pos_offset p 0 (- 1) 0)
               else if face = lit ''ceiling'' then Some (pos_offset p 0 1 0)
               else if face = lit ''wall''
               then Some (pos_offset3 p (offset_of_face (opposite_face (facing_index (property_or_north ps)))))
               else None))"

section \<open>Emission\<close>

text \<open>\<open>emitted\<close>: what a role gives out for its inputs.\<close>

definition wire_receipt :: "block_inputs \<Rightarrow> power_level" where
  "wire_receipt i =
     fold (\<lambda>(face, is_dust) best.
        let l = output_effective face;
            l = (if is_dust then power_raw (l - WIRE_ATTENUATION_PER_BLOCK) else l)
        in max best l)
       (zip (in_faces i) (in_dust i)) 0"

definition emitted :: "block_role \<Rightarrow> block_inputs \<Rightarrow> emitter_output" where
  "emitted role i =
     (case role of
        Wire _ \<Rightarrow> output_of (weak_only (wire_receipt i))
      | Emitter source \<Rightarrow>
          output_of
            (if source = Src_Comparator
             then comparator_output (comparator_new Compare) (state_level (strongest_state i)) 0
             else active_state source)
      | _ \<Rightarrow> OUTPUT_OFF)"

definition emitted_for_id :: "block_registry \<Rightarrow> int \<Rightarrow> block_inputs \<Rightarrow> emitter_output" where
  "emitted_for_id r i inp =
     (let role = classify_block r i
      in case role of
           Wire _ \<Rightarrow> emitted role inp
         | Emitter _ \<Rightarrow>
             (case component_of r i of
                Inr (C_Comparator c) \<Rightarrow>
                  (case comparator_faces (facing_of r i) of
                     (b, side_a, side_b) \<Rightarrow>
                       let at = (\<lambda>k. if k < length (in_faces inp) then output_effective (in_faces inp ! k) else 0)
                       in output_of (comparator_output c (at b) (max (at side_a) (at side_b))))
              | Inr c \<Rightarrow> output_of (output_power c (strongest_state inp))
              | Inl _ \<Rightarrow> emitted role NO_INPUTS)
         | _ \<Rightarrow> OUTPUT_OFF)"

definition is_conductive :: "block_registry \<Rightarrow> int \<Rightarrow> bool" where
  "is_conductive r i \<longleftrightarrow> classify_block r i = Passive \<and> is_solid_or_unknown r i"

section \<open>Gathering\<close>

text \<open>One face of \<open>gather_inputs_inner\<close>: its output and whether it counts as dust. The
  reading of a solid is absent when \<open>solids_live\<close> is false.\<close>

definition face_input ::
  "'w block_view \<Rightarrow> block_registry \<Rightarrow> 'w \<Rightarrow> (pos \<Rightarrow> (power_level \<times> bool) option) option \<Rightarrow> bool \<Rightarrow> nat \<Rightarrow> pos \<Rightarrow>
     emitter_output \<times> bool"
where
  "face_input v r w solid for_wire index p =
     (case bv_get v w p of
        None \<Rightarrow> (OUTPUT_OFF, False)
      | Some i \<Rightarrow>
          (case classify_block r i of
             Wire stored \<Rightarrow> (output_of (weak_only stored), True)
           | Emitter source \<Rightarrow>
               (if source = Src_Observer \<and> \<not> observer_emits_toward r i index then OUTPUT_OFF
                else emitted_for_id r i NO_INPUTS, False)
           | Mechanism \<Rightarrow> (OUTPUT_OFF, False)
           | Passive \<Rightarrow>
               (case solid of
                  None \<Rightarrow> (OUTPUT_OFF, False)
                | Some read \<Rightarrow>
                    if \<not> is_conductive r i \<or> (for_wire \<and> index = 1) then (OUTPUT_OFF, False)
                    else case read p of
                      Some (l, True) \<Rightarrow> (output_of (strong_at l), False)
                    | Some (l, False) \<Rightarrow> (output_of (weak_only l), for_wire)
                    | None \<Rightarrow> (OUTPUT_OFF, False))))"

definition gather_with ::
  "'w block_view \<Rightarrow> block_registry \<Rightarrow> 'w \<Rightarrow> (pos \<Rightarrow> (power_level \<times> bool) option) option \<Rightarrow> pos \<Rightarrow> bool \<Rightarrow> block_inputs"
where
  "gather_with v r w solid p for_wire =
     (let fs = map (\<lambda>(index, q). face_input v r w solid for_wire index q) (enumerate 0 (neighbour_set p))
      in \<lparr>in_faces = map fst fs, in_dust = map snd fs\<rparr>)"

definition dust_headroom :: "'w block_view \<Rightarrow> block_registry \<Rightarrow> 'w \<Rightarrow> pos \<Rightarrow> nat \<Rightarrow> bool" where
  "dust_headroom v r w p face \<longleftrightarrow>
     face = 1 \<or> (case bv_get v w (pos_offset p 0 1 0) of None \<Rightarrow> True | Some i \<Rightarrow> \<not> is_conductive r i)"

definition solid_emitter_contribution ::
  "'w block_view \<Rightarrow> block_registry \<Rightarrow> 'w \<Rightarrow> power_source \<Rightarrow> int \<Rightarrow> pos \<Rightarrow> pos \<Rightarrow> nat \<Rightarrow> (power_level \<times> bool) option"
where
  "solid_emitter_contribution v r w source i emitter_pos solid_pos face =
     (case source of
        Src_Torch \<Rightarrow> if face \<noteq> 0 \<or> \<not> property_is r i (lit ''lit'') then None else Some (MAX_POWER, True)
      | Src_Lever \<Rightarrow>
          if \<not> property_is r i (lit ''powered'') then None
          else (case lever_mount r i emitter_pos of
                  None \<Rightarrow> None
                | Some mount \<Rightarrow> if mount = solid_pos then Some (MAX_POWER, True) else None)
      | Src_Observer \<Rightarrow>
          if \<not> property_is r i (lit ''powered'') then None
          else (case facing_offset (facing_of r i) of (fx, fy, fz) \<Rightarrow>
                  if pos_offset emitter_pos (- fx) (- fy) (- fz) = solid_pos then Some (MAX_POWER, True) else None)
      | _ \<Rightarrow>
          if source = Src_Repeater \<or> source = Src_Comparator then
            let e = emitted_for_id r i (gather_with v r w None emitter_pos False);
                l = output_effective e
            in if level_powered l then Some (l, output_is_strong e) else None
          else None)"

definition solid_face ::
  "'w block_view \<Rightarrow> block_registry \<Rightarrow> 'w \<Rightarrow> pos \<Rightarrow> nat \<Rightarrow> pos \<Rightarrow> int \<Rightarrow> (power_level \<times> bool) option"
where
  "solid_face v r w solid_pos index p i =
     (case classify_block r i of
        Wire _ \<Rightarrow>
          if index \<noteq> 0 \<and> dust_headroom v r w p index then
            let drive = output_effective (emitted (Wire 0) (gather_with v r w None p True))
            in if level_powered drive then Some (drive, False) else None
          else None
      | Emitter source \<Rightarrow> solid_emitter_contribution v r w source i p solid_pos index
      | _ \<Rightarrow> None)"

fun best_contribution :: "(power_level \<times> bool) option list \<Rightarrow> power_level \<Rightarrow> bool \<Rightarrow> power_level \<times> bool" where
  "best_contribution [] best strong = (best, strong)"
| "best_contribution (None # cs) best strong = best_contribution cs best strong"
| "best_contribution (Some (l, s) # cs) best strong =
     (if best < l \<or> (l = best \<and> s \<and> \<not> strong) then best_contribution cs l s else best_contribution cs best strong)"

definition solid_power ::
  "'w block_view \<Rightarrow> block_registry \<Rightarrow> 'w \<Rightarrow> pos \<Rightarrow> pos option \<Rightarrow> (power_level \<times> bool) option"
where
  "solid_power v r w p exclude =
     (let (best, strong) =
        best_contribution
          (map (\<lambda>(index, q). if Some q = exclude then None
                 else case bv_get v w q of None \<Rightarrow> None | Some i \<Rightarrow> solid_face v r w p index q i)
             (enumerate 0 (neighbour_set p))) 0 False
      in if 0 < best then Some (best, strong) else None)"

definition gather_inputs_inner ::
  "'w block_view \<Rightarrow> block_registry \<Rightarrow> 'w \<Rightarrow> pos \<Rightarrow> bool \<Rightarrow> bool \<Rightarrow> block_inputs"
where
  "gather_inputs_inner v r w p for_wire solids_live =
     gather_with v r w (if solids_live then Some (\<lambda>q. solid_power v r w q (Some p)) else None) p for_wire"

definition gather_inputs :: "'w block_view \<Rightarrow> block_registry \<Rightarrow> 'w \<Rightarrow> pos \<Rightarrow> bool \<Rightarrow> block_inputs" where
  "gather_inputs v r w p for_wire = gather_inputs_inner v r w p for_wire True"

definition is_wire_role :: "block_role \<Rightarrow> bool" where
  "is_wire_role role \<longleftrightarrow> (case role of Wire _ \<Rightarrow> True | _ \<Rightarrow> False)"

definition read_block ::
  "'w block_view \<Rightarrow> block_registry \<Rightarrow> 'w \<Rightarrow> pos \<Rightarrow> (block_role \<times> block_inputs \<times> emitter_output) option"
where
  "read_block v r w p =
     (case bv_get v w p of
        None \<Rightarrow> None
      | Some i \<Rightarrow>
          let role = classify_block r i; inputs = gather_inputs v r w p (is_wire_role role)
          in Some (role, inputs, emitted_for_id r i inputs))"

section \<open>The state a block should have\<close>

definition ok_option :: "'a server_result \<Rightarrow> 'a option" where
  "ok_option x = (case x of Inl _ \<Rightarrow> None | Inr a \<Rightarrow> Some a)"

definition torch_lit_of :: "property_list \<Rightarrow> bool" where
  "torch_lit_of ps \<longleftrightarrow> (case map_of ps (lit ''lit'') of None \<Rightarrow> True | Some v \<Rightarrow> v = TRUE_TEXT)"

definition new_torch_state :: "block_registry \<Rightarrow> block_inputs \<Rightarrow> int \<Rightarrow> int option" where
  "new_torch_state r i current =
     (case (properties_of r current, et_name_of r current) of
        (Inr ps, Some name) \<Rightarrow>
          let face = torch_attachment name ps;
              attachment_powered = face < length (in_faces i) \<and> state_powered (eo_state (in_faces i ! face));
              lit_now = torch_lit_of ps
          in if lit_now \<noteq> attachment_powered then Some current
             else ok_option (state_id r name (set_property (lit ''lit'') (bool_text (\<not> lit_now)) ps))
      | _ \<Rightarrow> None)"

definition lamp_powered :: "'w block_view \<Rightarrow> block_registry \<Rightarrow> 'w \<Rightarrow> pos \<Rightarrow> bool" where
  "lamp_powered v r w p \<longleftrightarrow>
     list_ex (\<lambda>q. case bv_get v w q of
                    None \<Rightarrow> False
                  | Some i \<Rightarrow> is_conductive r i \<and> solid_power v r w q None \<noteq> None)
       [pos_offset p 0 1 0, pos_offset p 0 (- 1) 0]"

definition property_says :: "property_list \<Rightarrow> rstring \<Rightarrow> bool" where
  "property_says ps k \<longleftrightarrow> map_of ps k = Some TRUE_TEXT"

definition new_mechanism_state ::
  "'w block_view \<Rightarrow> block_registry \<Rightarrow> 'w \<Rightarrow> pos \<Rightarrow> block_inputs \<Rightarrow> int \<Rightarrow> int option"
where
  "new_mechanism_state v r w p i current =
     (case et_name_of r current of
        None \<Rightarrow> None
      | Some name \<Rightarrow>
          (case properties_of r current of
             Inl _ \<Rightarrow> None
           | Inr ps \<Rightarrow>
               if name = REDSTONE_LAMP then
                 let lit_new = lamp_powered v r w p
                 in if lit_new = property_says ps (lit ''lit'') then Some current
                    else ok_option (state_id r REDSTONE_LAMP [(lit ''lit'', bool_text lit_new)])
               else
                 let powered = 0 < output_effective (strongest i)
                 in if property_says ps (lit ''powered'') = powered then Some current
                    else ok_option (state_id r name
                      (map (\<lambda>(k, x). if k = lit ''powered'' \<or> k = lit ''open'' then (k, bool_text powered) else (k, x)) ps))))"

definition new_state ::
  "'w block_view \<Rightarrow> block_registry \<Rightarrow> 'w \<Rightarrow> pos \<Rightarrow> block_role \<Rightarrow> block_inputs \<Rightarrow> int \<Rightarrow> int option"
where
  "new_state v r w p role i current =
     (case role of
        Wire _ \<Rightarrow> ok_option (wire_state r (output_effective (emitted role i)))
      | Emitter source \<Rightarrow> if source = Src_Torch then new_torch_state r i current else Some current
      | Mechanism \<Rightarrow> new_mechanism_state v r w p i current
      | Passive \<Rightarrow> Some current)"

section \<open>The loop\<close>

record propagated_change =
  pc_pos :: pos
  pc_cause :: update_kind
  pc_old :: int
  pc_new :: int
  pc_emitted :: emitter_output

record propagation_report =
  pr_processed :: nat
  pr_changed :: nat
  pr_exhausted :: bool
  pr_changes :: "propagated_change list"
  pr_refused :: nat

definition empty_report :: propagation_report where
  "empty_report = \<lparr>pr_processed = 0, pr_changed = 0, pr_exhausted = False, pr_changes = [], pr_refused = 0\<rparr>"

definition did_work :: "propagation_report \<Rightarrow> bool" where
  "did_work rep \<longleftrightarrow> pr_processed rep \<noteq> 0"

definition prepare :: "update_queue \<Rightarrow> pos \<Rightarrow> nat \<times> update_queue" where
  "prepare q p = push_neighbours q (neighbour_set p)"

definition prepare_self :: "update_queue \<Rightarrow> pos \<Rightarrow> inserted \<times> update_queue" where
  "prepare_self q p = push_neighbour q p"

text \<open>The state a position should have, as \<open>process_one\<close> computes it.\<close>

definition recompute :: "'w block_view \<Rightarrow> block_registry \<Rightarrow> 'w \<Rightarrow> pos \<Rightarrow> int \<Rightarrow> int option" where
  "recompute v r w p i =
     new_state v r w p (classify_block r i) (gather_inputs v r w p (is_wire_role (classify_block r i))) i"

definition process_one ::
  "'w block_view \<Rightarrow> block_registry \<Rightarrow> 'w \<Rightarrow> pos \<Rightarrow> propagated_change list \<Rightarrow>
     propagated_change option \<times> 'w \<times> propagated_change list"
where
  "process_one v r w p changes =
     (case bv_get v w p of
        None \<Rightarrow> (None, w, changes)
      | Some i \<Rightarrow>
          let inputs = gather_inputs v r w p (is_wire_role (classify_block r i));
              e = emitted_for_id r i inputs
          in case recompute v r w p i of
               None \<Rightarrow> (None, w, changes)
             | Some j \<Rightarrow>
                 if j = i then (None, w, changes)
                 else case bv_set v w p j of
                   (False, w) \<Rightarrow> (None, w, changes)
                 | (True, w) \<Rightarrow>
                     let c = \<lparr>pc_pos = p, pc_cause = Neighbor_Changed, pc_old = i, pc_new = j, pc_emitted = e\<rparr>
                     in (Some c, w, changes @ [c]))"

text \<open>Queues positions and counts the refusals, as both branches of the loop do.\<close>

fun push_counting :: "update_queue \<Rightarrow> nat \<Rightarrow> pos list \<Rightarrow> update_queue \<times> nat" where
  "push_counting q n [] = (q, n)"
| "push_counting q n (p # ps) =
     (let (i, q) = push_neighbour q p in push_counting q (if i = Insert_Refused then n + 1 else n) ps)"

definition is_passive_at :: "'w block_view \<Rightarrow> block_registry \<Rightarrow> 'w \<Rightarrow> pos \<Rightarrow> bool" where
  "is_passive_at v r w p \<longleftrightarrow> (case bv_get v w p of None \<Rightarrow> True | Some i \<Rightarrow> classify_block r i = Passive)"

definition forward_through_solid ::
  "'w block_view \<Rightarrow> block_registry \<Rightarrow> 'w \<Rightarrow> update_queue \<Rightarrow> pos \<Rightarrow> nat \<Rightarrow> update_queue \<times> nat"
where
  "forward_through_solid v r w q p n =
     (case bv_get v w p of
        None \<Rightarrow> (q, n)
      | Some i \<Rightarrow>
          if \<not> is_conductive r i then (q, n)
          else if list_all (is_passive_at v r w) (neighbour_set p) then (q, n)
          else push_counting q n (filter (\<lambda>u. \<not> is_passive_at v r w u) (neighbour_set p)))"

fun process_positions ::
  "'w block_view \<Rightarrow> block_registry \<Rightarrow> pos list \<Rightarrow> 'w \<times> update_queue \<times> propagation_report \<Rightarrow>
     'w \<times> update_queue \<times> propagation_report"
where
  "process_positions v r [] s = s"
| "process_positions v r (p # ps) (w, q, rep) =
     (case process_one v r w p (pr_changes rep) of
        (Some c, w, cs) \<Rightarrow>
          (case push_counting q (pr_refused rep) (neighbour_set p) of
             (q, n) \<Rightarrow>
               process_positions v r ps
                 (w, q, rep\<lparr>pr_processed := pr_processed rep + 1, pr_changed := pr_changed rep + 1, pr_changes := cs,
                   pr_refused := n\<rparr>))
      | (None, w, cs) \<Rightarrow>
          (case forward_through_solid v r w q p (pr_refused rep) of
             (q, n) \<Rightarrow>
               process_positions v r ps
                 (w, q, rep\<lparr>pr_processed := pr_processed rep + 1, pr_changes := cs, pr_refused := n\<rparr>)))"

lemma processed_positions:
  "process_positions v r ps (w, q, rep) = (w', q', rep') \<Longrightarrow> pr_processed rep' = pr_processed rep + length ps"
  by (induction ps arbitrary: w q rep) (auto split: prod.splits option.splits)

lemma processed_count [termination_simp]:
  "pr_processed (snd (snd (process_positions v r ps s))) = pr_processed (snd (snd s)) + length ps"
  by (metis prod.collapse processed_positions)

function propagate_loop ::
  "'w block_view \<Rightarrow> block_registry \<Rightarrow> nat \<Rightarrow> 'w \<times> update_queue \<times> propagation_report \<Rightarrow>
     'w \<times> update_queue \<times> propagation_report"
where
  "propagate_loop v r budget (w, q, rep) =
     (if pr_processed rep < budget \<and> next_pending q \<noteq> None then
        (case drain_at_most q (budget - pr_processed rep) of
           (d, q) \<Rightarrow>
             if nd_positions d = [] then (w, q, rep)
             else propagate_loop v r budget (process_positions v r (nd_positions d) (w, q, rep)))
      else (w, q, rep))"
  by pat_completeness auto

termination
  by (relation "measure (\<lambda>(v, r, budget, s). budget - pr_processed (snd (snd s)))")
    (auto simp: processed_count intro!: diff_less_mono2)

declare propagate_loop.simps [simp del]

definition propagate ::
  "'w block_view \<Rightarrow> 'w \<Rightarrow> update_queue \<Rightarrow> block_registry \<Rightarrow> update_budget \<Rightarrow>
     propagation_report \<times> 'w \<times> update_queue"
where
  "propagate v w q r budget =
     (case propagate_loop v r (ub_neighbour budget) (w, q, empty_report) of
        (w, q, rep) \<Rightarrow>
          (rep\<lparr>pr_exhausted := next_pending q \<noteq> None \<and> ub_neighbour budget \<le> pr_processed rep\<rparr>, w, q))"

fun schedule_wire_recheck ::
  "'w block_view \<Rightarrow> 'w \<Rightarrow> block_registry \<Rightarrow> update_queue \<Rightarrow> nat \<Rightarrow> pos list \<Rightarrow> nat \<times> update_queue"
where
  "schedule_wire_recheck v w r q now [] = (0, q)"
| "schedule_wire_recheck v w r q now (p # ps) =
     (case bv_get v w p of
        None \<Rightarrow> schedule_wire_recheck v w r q now ps
      | Some i \<Rightarrow>
          if \<not> is_wire_role (classify_block r i) then schedule_wire_recheck v w r q now ps
          else if (case wire_power r i of None \<Rightarrow> False | Some l \<Rightarrow> MIN_LIVE_WIRE_POWER \<le> l) then
            (case uq_schedule q now p 1 of
               (Inr _, q) \<Rightarrow> (case schedule_wire_recheck v w r q now ps of (n, q) \<Rightarrow> (n + 1, q))
             | (Inl _, q) \<Rightarrow> schedule_wire_recheck v w r q now ps)
          else schedule_wire_recheck v w r q now ps)"

fun prepare_all :: "update_queue \<Rightarrow> pos list \<Rightarrow> update_queue" where
  "prepare_all q [] = q"
| "prepare_all q (p # ps) = prepare_all (snd (prepare_self (snd (prepare q p)) p)) ps"

definition run_block_tick ::
  "'w block_view \<Rightarrow> 'w \<Rightarrow> update_queue \<Rightarrow> block_registry \<Rightarrow> nat \<Rightarrow> update_budget \<Rightarrow>
     propagation_report \<times> 'w \<times> update_queue"
where
  "run_block_tick v w q r now budget =
     (case drain_due_block_ticks q now budget of
        (due, q) \<Rightarrow>
          (case propagate v w (prepare_all q (bd_positions due)) r budget of
             (rep, w, q) \<Rightarrow>
               (rep, w, snd (schedule_wire_recheck v w r q now (map pc_pos (pr_changes rep) @ bd_positions due)))))"

end
