(* ===== verification/RedstoneBounds.thy ===== *)
theory RedstoneBounds
  imports RedstonePropagation
begin

text \<open>No input and no output of \<open>crates/redstone/src/propagation.rs\<close> exceeds the largest level.\<close>

definition output_ok :: "emitter_output \<Rightarrow> bool" where
  "output_ok e \<longleftrightarrow> power_ok (eo_state e)"

definition inputs_ok :: "block_inputs \<Rightarrow> bool" where
  "inputs_ok inp \<longleftrightarrow> list_all output_ok (in_faces inp)"

lemma output_ok_simps [simp]: "output_ok OUTPUT_OFF" "output_ok (output_of s) \<longleftrightarrow> power_ok s"
  by (simp_all add: output_ok_def OUTPUT_OFF_def output_of_def)

lemma output_effective_of [simp]: "output_effective (output_of s) = state_level s" "output_effective OUTPUT_OFF = 0"
  by (simp_all add: output_effective_def output_of_def OUTPUT_OFF_def)

lemma output_effective_le: "output_ok e \<Longrightarrow> output_effective e \<le> MAX_POWER"
  by (simp add: output_ok_def output_effective_def)

lemma no_inputs_ok [simp]: "inputs_ok NO_INPUTS"
  by (simp add: inputs_ok_def NO_INPUTS_def list_all_iff)

lemma fold_bound: "(\<And>x b. x \<in> set xs \<Longrightarrow> P b \<Longrightarrow> P (f x b)) \<Longrightarrow> P b \<Longrightarrow> P (fold f xs b)"
  by (induction xs arbitrary: b) auto

lemma strongest_state_ok: "inputs_ok inp \<Longrightarrow> power_ok (strongest_state inp)"
  unfolding strongest_state_def inputs_ok_def list_all_iff
  by (rule fold_bound) (auto simp: output_effective_le)

lemma strongest_ok: "inputs_ok inp \<Longrightarrow> output_ok (strongest inp)"
  unfolding strongest_def inputs_ok_def list_all_iff by (rule fold_bound) auto

lemma wire_receipt_le: "inputs_ok inp \<Longrightarrow> wire_receipt inp \<le> MAX_POWER"
  unfolding wire_receipt_def inputs_ok_def list_all_iff
  by (rule fold_bound) (auto dest!: set_zip_leftD simp: output_effective_le Let_def)

lemma comparator_output_ok: "b \<le> MAX_POWER \<Longrightarrow> power_ok (comparator_output c b s)"
  using comparator_level_le [THEN order_trans] by (simp add: comparator_output_def)

lemma emitted_ok: "inputs_ok inp \<Longrightarrow> output_ok (emitted role inp)"
  by (simp add: emitted_def wire_receipt_le comparator_output_ok strongest_state_ok split: block_role.split)

lemma emitted_for_id_ok:
  assumes "inputs_ok inp"
  shows "output_ok (emitted_for_id r i inp)"
proof -
  have "(if k < length (in_faces inp) then output_effective (in_faces inp ! k) else 0) \<le> MAX_POWER" for k
    using assms by (simp add: inputs_ok_def list_all_length output_effective_le)
  then show ?thesis
    using assms
    by (simp add: emitted_for_id_def Let_def emitted_ok output_power_ok strongest_state_ok comparator_output_ok
        split: block_role.split sum.split component_state.split prod.split)
qed

definition reading_ok :: "(power_level \<times> bool) option \<Rightarrow> bool" where
  "reading_ok o1 \<longleftrightarrow> (case o1 of None \<Rightarrow> True | Some (l, _) \<Rightarrow> 0 < l \<and> l \<le> MAX_POWER)"

lemma wire_power_le: "wire_power r i = Some l \<Longrightarrow> l \<le> MAX_POWER"
  by (auto simp: wire_power_def split: sum.splits option.splits)

lemma classify_wire_le: "classify_block r i = Wire l \<Longrightarrow> l \<le> MAX_POWER"
  by (auto simp: classify_block_def wire_power_le split: sum.splits if_splits option.splits)

definition solid_ok :: "(pos \<Rightarrow> (power_level \<times> bool) option) option \<Rightarrow> bool" where
  "solid_ok solid \<longleftrightarrow> (case solid of None \<Rightarrow> True | Some read \<Rightarrow> \<forall>q. reading_ok (read q))"

lemma reading_okD: "reading_ok (Some (l, s)) \<Longrightarrow> l \<le> MAX_POWER"
  by (simp add: reading_ok_def)

lemma face_input_ok:
  assumes "solid_ok solid"
  shows "output_ok (fst (face_input v r w solid fw k p))"
proof -
  have "l \<le> MAX_POWER" if "solid = Some read" "read p = Some (l, s)" for read l s
    using assms that by (metis option.simps(5) reading_okD solid_ok_def)
  then show ?thesis
    by (auto simp: face_input_def classify_wire_le emitted_for_id_ok
      split: option.split block_role.split bool.split)
qed

lemma gather_with_ok:
  assumes "solid_ok solid"
  shows "inputs_ok (gather_with v r w solid p fw)"
  by (simp add: gather_with_def inputs_ok_def Let_def list_all_iff split_beta face_input_ok assms)

lemma solid_ok_None [simp]: "solid_ok None"
  by (simp add: solid_ok_def)

lemma best_contribution_le:
  "list_all reading_ok cs \<Longrightarrow> b \<le> MAX_POWER \<Longrightarrow> best_contribution cs b s = (b', s') \<Longrightarrow> b' \<le> MAX_POWER"
  by (induction cs b s rule: best_contribution.induct) (auto simp: reading_ok_def split: if_splits)

lemma contribution_ok: "reading_ok (solid_emitter_contribution v r w source i p solid_pos face)"
  using emitted_for_id_ok [OF gather_with_ok [OF solid_ok_None], THEN output_effective_le]
  by (auto simp: solid_emitter_contribution_def reading_ok_def Let_def level_powered_def MAX_POWER_def
      split: power_source.splits option.splits prod.splits)

lemma solid_face_ok: "reading_ok (solid_face v r w solid_pos index p i)"
proof -
  have "output_effective (emitted (Wire 0) (gather_with v r w None p True)) \<le> MAX_POWER"
    by (simp add: output_effective_le emitted_ok gather_with_ok)
  then show ?thesis
    by (auto simp: solid_face_def contribution_ok Let_def reading_ok_def [of None] reading_ok_def [of "Some _"]
        level_powered_def split: block_role.split)
qed

lemma solid_power_ok: "reading_ok (solid_power v r w p exclude)"
proof -
  let ?cs = "map (\<lambda>(index, q). if Some q = exclude then None
                 else case bv_get v w q of None \<Rightarrow> None | Some i \<Rightarrow> solid_face v r w p index q i)
             (enumerate 0 (neighbour_set p))"
  obtain b s where bs: "best_contribution ?cs 0 False = (b, s)" by fastforce
  have none: "reading_ok None" by (simp add: reading_ok_def)
  have "list_all reading_ok ?cs"
    by (auto simp: list_all_iff none solid_face_ok split: option.split)
  then have "b \<le> MAX_POWER" using best_contribution_le [OF _ _ bs] by simp
  then show ?thesis unfolding solid_power_def bs by (simp add: reading_ok_def)
qed

lemma gather_inner_ok: "inputs_ok (gather_inputs_inner v r w p fw live)"
  unfolding gather_inputs_inner_def by (rule gather_with_ok) (simp add: solid_ok_def solid_power_ok)

lemma gather_ok: "inputs_ok (gather_inputs v r w p fw)"
  by (simp add: gather_inputs_def gather_inner_ok)

text \<open>No power leaves its four bits: whatever the world holds, every level that reaches a
  position, every level it gives out, and the level of a powered solid is at most 15, and a
  solid read as powered has a level above 0.\<close>

lemma power_is_bounded:
  "list_all (\<lambda>e. output_effective e \<le> MAX_POWER) (in_faces (gather_inputs v r w p for_wire)) \<and>
   output_effective (emitted_for_id r i (gather_inputs v r w p for_wire)) \<le> MAX_POWER \<and>
   (case solid_power v r w p exclude of None \<Rightarrow> True | Some (l, _) \<Rightarrow> 0 < l \<and> l \<le> MAX_POWER)"
  using gather_ok [of v r w p for_wire] emitted_for_id_ok [OF gather_ok, THEN output_effective_le, of r i v r w p for_wire]
    solid_power_ok [of v r w p exclude]
  by (simp add: inputs_ok_def list_all_iff output_effective_le reading_ok_def)

end
