(* ===== verification/RedstoneSettled.thy ===== *)
theory RedstoneSettled
  imports RedstoneBounds BlockLaws
begin

text \<open>
  The circuit of \<open>crates/redstone/src/propagation.rs\<close> at rest: a served queue leaves every block
  in the state it should have, and dust at rest carries the level of its nearest source.

  Reading through solids reaches three blocks away while a change only wakes the six
  neighbours and what a woken solid forwards to, so the statement about rest is for circuits
  whose positions hold no conductive solid; what the loop writes and how much it works is
  proved without that.
\<close>

section \<open>Decimal texts\<close>

lemma digits_value_append:
  "digits_value acc (xs @ ys) = (case digits_value acc xs of None \<Rightarrow> None | Some n \<Rightarrow> digits_value n ys)"
  by (induction acc xs rule: digits_value.induct) auto

lemma digits_value_digits [simp]: "digits_value 0 (digits_of n) = Some n"
proof (induction n rule: digits_of.induct)
  case (1 n)
  show ?case
  proof (cases "n < 10")
    case False
    have "digits_of n = digits_of (n div 10) @ [48 + n mod 10]" using False by (simp add: digits_of.simps [of n])
    then show ?thesis using 1 False by (simp add: digits_value_append)
  qed (simp add: digits_of.simps [of n])
qed

lemma digits_of_shape: "\<exists>c cs. digits_of n = c # cs \<and> c \<noteq> 43"
proof (induction n rule: digits_of.induct)
  case (1 n)
  show ?case
  proof (cases "n < 10")
    case False
    then obtain c cs where "digits_of (n div 10) = c # cs" "c \<noteq> 43" using 1 by blast
    then show ?thesis using False by (simp add: digits_of.simps [of n])
  qed (simp add: digits_of.simps [of n])
qed

lemma digits_value_cons: "digits_of n = c # cs \<Longrightarrow> digits_value 0 (c # cs) = Some n"
  by (metis digits_value_digits)

lemma parse_u8_digits [simp]: "n < 256 \<Longrightarrow> parse_u8 (digits_of n) = Some n"
  using digits_of_shape [of n] by (auto simp: parse_u8_def Let_def digits_value_cons simp del: digits_value.simps)

lemma parse_u32_digits [simp]: "n < 2 ^ 32 \<Longrightarrow> parse_u32 (digits_of n) = Some n"
  using digits_of_shape [of n] by (auto simp: parse_u32_def Let_def digits_value_cons simp del: digits_value.simps)

lemma bool_text_true [simp]: "bool_text b = TRUE_TEXT \<longleftrightarrow> b"
  by (simp add: bool_text_def TRUE_TEXT_def FALSE_TEXT_def lit_def)

section \<open>The table of a circuit\<close>

text \<open>What a parsed block table gives: states and properties determine each other.\<close>

definition circuit_table :: "block_registry \<Rightarrow> bool" where
  "circuit_table r \<longleftrightarrow>
     (\<forall>n ps i. state_id r n ps = Inr i \<and> ps \<noteq> [] \<longrightarrow>
        block_name r i = Inr n \<and> (\<exists>qs. properties_of r i = Inr qs \<and> map_of qs = map_of ps)) \<and>
     (\<forall>i n qs. properties_of r i = Inr qs \<and> block_name r i = Inr n \<longrightarrow> state_id r n qs = Inr i) \<and>
     (\<forall>i qs. properties_of r i = Inr qs \<longrightarrow> distinct (map fst qs)) \<and>
     classify_block r 0 = Passive"

lemma table_state:
  "circuit_table r \<Longrightarrow> state_id r n ps = Inr i \<Longrightarrow> ps \<noteq> [] \<Longrightarrow>
     block_name r i = Inr n \<and> (\<exists>qs. properties_of r i = Inr qs \<and> distinct (map fst qs) \<and> map_of qs = map_of ps)"
  unfolding circuit_table_def by blast

lemma table_same:
  "circuit_table r \<Longrightarrow> properties_of r i = Inr qs \<Longrightarrow> block_name r i = Inr n \<Longrightarrow> state_id r n qs = Inr i"
  unfolding circuit_table_def by blast

lemma table_distinct: "circuit_table r \<Longrightarrow> properties_of r i = Inr qs \<Longrightarrow> distinct (map fst qs)"
  unfolding circuit_table_def by blast

lemma parsed_properties_distinct:
  assumes "parse_blocks txt = Inr r" "axes_distinct r" "properties_of r i = Inr qs"
  shows "distinct (map fst qs)"
proof -
  obtain n e where e: "map_of (blocks_by_name r) n = Some e"
      "entry_properties e (nat (i - first_state_id e)) = Some qs"
    using properties_of_Inr [OF assms(3)] by blast
  have "entry_ok e" using parsed_entry(1) [OF assms(1,2) e(1)] .
  then have "distinct (map fst (property_digits (rev (axes e)) k))" for k
    by (simp add: entry_ok_def axes_ok_def rev_map [symmetric])
  moreover have "mset (map fst qs) = mset (map fst (property_digits (rev (axes e)) (nat (i - first_state_id e))))"
    using entry_properties_mset [OF e(2)] by (metis mset_map)
  ultimately show ?thesis by (metis mset_eq_imp_distinct_iff)
qed

lemma parsed_circuit_table:
  assumes "parse_blocks txt = Inr r" "axes_distinct r" "classify_block r 0 = Passive"
  shows "circuit_table r"
  unfolding circuit_table_def
  using properties_of_state [OF assms(1,2)] state_of_properties [OF assms(1,2)] assms(3)
    parsed_properties_distinct [OF assms(1,2)] by blast

lemma property_true_map: "distinct (map fst ps) \<Longrightarrow> property_true ps k \<longleftrightarrow> map_of ps k = Some TRUE_TEXT"
  by (auto simp: property_true_def list_ex_iff)

section \<open>Roles follow names\<close>

lemma classify_named:
  assumes "block_name r i = Inr n"
  shows "classify_block r i =
    (if n = REDSTONE_WIRE then (case wire_power r i of Some s \<Rightarrow> Wire s | None \<Rightarrow> Passive)
     else if n = REDSTONE_LAMP then Mechanism
     else if is_door n \<or> is_trapdoor n \<or> is_fence_gate n then Mechanism
     else case source_for_name n of Some s \<Rightarrow> Emitter s | None \<Rightarrow> Passive)"
  using assms by (simp add: classify_block_def)

lemma classify_active_name: "classify_block r i \<noteq> Passive \<Longrightarrow> \<exists>n. block_name r i = Inr n"
  by (auto simp: classify_block_def split: sum.splits)

lemma wire_name: "classify_block r i = Wire l \<Longrightarrow> block_name r i = Inr REDSTONE_WIRE \<and> wire_power r i = Some l"
  by (auto simp: classify_block_def split: sum.splits if_splits option.splits)

lemma other_name: "classify_block r i = Emitter s \<or> classify_block r i = Mechanism \<Longrightarrow> block_name r i \<noteq> Inr REDSTONE_WIRE"
  by (auto simp: classify_block_def split: sum.splits if_splits option.splits)

lemma same_name_role:
  "block_name r j = block_name r i \<Longrightarrow> block_name r i = Inr n \<Longrightarrow> n \<noteq> REDSTONE_WIRE \<Longrightarrow> classify_block r j = classify_block r i"
  by (simp add: classify_named)

lemma wire_not_conductive: "block_name r i = Inr REDSTONE_WIRE \<Longrightarrow> \<not> is_conductive r i"
proof -
  assume "block_name r i = Inr REDSTONE_WIRE"
  moreover have "REDSTONE_WIRE \<in> set NON_SOLID" by (simp add: NON_SOLID_def REDSTONE_WIRE_def lit_def)
  ultimately show ?thesis by (auto simp: is_conductive_def is_solid_or_unknown_def is_solid_def)
qed

lemma active_not_conductive: "classify_block r i \<noteq> Passive \<Longrightarrow> \<not> is_conductive r i"
  by (simp add: is_conductive_def)

text \<open>The state of dust of a level reads back as that level.\<close>

lemma wire_state_reads:
  assumes "circuit_table r" "wire_state r l = Inr i" "l \<le> MAX_POWER"
  shows "classify_block r i = Wire l"
proof -
  have i: "state_id r REDSTONE_WIRE (wire_properties l) = Inr i" using assms(2) by (simp add: wire_state_def)
  obtain qs where q: "block_name r i = Inr REDSTONE_WIRE" "properties_of r i = Inr qs" "map_of qs = map_of (wire_properties l)"
    using table_state [OF assms(1) i] by (auto simp: wire_properties_def)
  have "map_of qs (lit ''power'') = Some (digits_of l)" unfolding q(3) by (simp add: wire_properties_def lit_def)
  moreover have "l < 256" using assms(3) by (simp add: MAX_POWER_def)
  ultimately have "wire_power r i = Some l" using q(2) assms(3) by (simp add: wire_power_def)
  then show ?thesis using q(1) by (simp add: classify_named)
qed

section \<open>A recomputed state keeps its block\<close>

lemma ok_option_Some: "ok_option x = Some a \<longleftrightarrow> x = Inr a"
  by (simp add: ok_option_def split: sum.split)

lemma et_name_Some: "et_name_of r i = Some n \<longleftrightarrow> block_name r i = Inr n"
  by (simp add: et_name_of_def split: sum.split)

text \<open>A rewrite of a block's own properties is the same state or a state of the same block.\<close>

lemma rewritten_state:
  assumes "circuit_table r" "properties_of r i = Inr ps" "block_name r i = Inr n" "state_id r n qs = Inr j"
    "qs = [] \<longrightarrow> ps = []"
  shows "block_name r j = Inr n \<and> (\<exists>rs. properties_of r j = Inr rs \<and> distinct (map fst rs) \<and> map_of rs = map_of qs)"
proof (cases "qs = []")
  case True
  then have "j = i" "ps = []" using assms(4,5) table_same [OF assms(1-3)] by auto
  then show ?thesis using assms(2,3) True by simp
next
  case False
  then show ?thesis using table_state [OF assms(1,4)] by blast
qed

lemma set_property_Nil [simp]: "set_property k v ps = [] \<longleftrightarrow> ps = []"
  by (cases ps) (auto split: if_splits)

lemma torch_states:
  assumes "circuit_table r" "new_torch_state r inp i = Some j" "j \<noteq> i"
  obtains n ps qs where "block_name r i = Inr n" "properties_of r i = Inr ps" "block_name r j = Inr n"
    "properties_of r j = Inr qs" "map_of qs = map_of (set_property (lit ''lit'') (bool_text (\<not> torch_lit_of ps)) ps)"
    "torch_lit_of ps = (torch_attachment n ps < length (in_faces inp) \<and>
       state_powered (eo_state (in_faces inp ! torch_attachment n ps)))"
proof -
  obtain n ps where np: "block_name r i = Inr n" "properties_of r i = Inr ps"
    and st: "state_id r n (set_property (lit ''lit'') (bool_text (\<not> torch_lit_of ps)) ps) = Inr j"
    and att: "torch_lit_of ps = (torch_attachment n ps < length (in_faces inp) \<and>
       state_powered (eo_state (in_faces inp ! torch_attachment n ps)))"
    using assms(2,3)
    by (auto simp: new_torch_state_def Let_def et_name_Some ok_option_Some split: sum.splits option.splits if_splits)
  show ?thesis
    using rewritten_state [OF assms(1) np(2,1) st] np att by (auto intro: that)
qed

text \<open>The properties of a mechanism after its rewrite.\<close>

definition opened :: "bool \<Rightarrow> property_list \<Rightarrow> property_list" where
  "opened b ps = map (\<lambda>(k, x). if k = lit ''powered'' \<or> k = lit ''open'' then (k, bool_text b) else (k, x)) ps"

lemma map_of_opened:
  "map_of (opened b ps) k =
     (if map_of ps k \<noteq> None \<and> (k = lit ''powered'' \<or> k = lit ''open'') then Some (bool_text b) else map_of ps k)"
  by (induction ps) (auto simp: opened_def split: if_splits)

lemma mechanism_states:
  assumes "circuit_table r" "new_mechanism_state v r w p inp i = Some j" "j \<noteq> i"
  obtains n ps qs where "block_name r i = Inr n" "properties_of r i = Inr ps" "block_name r j = Inr n"
    "properties_of r j = Inr qs"
    "n = REDSTONE_LAMP \<longrightarrow> map_of qs = map_of [(lit ''lit'', bool_text (lamp_powered v r w p))]"
    "n \<noteq> REDSTONE_LAMP \<longrightarrow> map_of qs = map_of (opened (0 < output_effective (strongest inp)) ps)"
proof -
  obtain n ps where np: "block_name r i = Inr n" "properties_of r i = Inr ps"
    using assms(2) by (auto simp: new_mechanism_state_def et_name_Some split: sum.splits option.splits)
  show ?thesis
  proof (cases "n = REDSTONE_LAMP")
    case True
    then have st: "state_id r REDSTONE_LAMP [(lit ''lit'', bool_text (lamp_powered v r w p))] = Inr j"
      using assms(2,3) np
      by (auto simp: new_mechanism_state_def Let_def et_name_of_def ok_option_Some split: if_splits)
    show ?thesis using table_state [OF assms(1) st] np True by (auto intro: that)
  next
    case False
    then have st: "state_id r n (opened (0 < output_effective (strongest inp)) ps) = Inr j"
      using assms(2,3) np
      by (auto simp: new_mechanism_state_def Let_def et_name_of_def ok_option_Some opened_def split: if_splits)
    show ?thesis using rewritten_state [OF assms(1) np(2,1) st] np False by (auto intro: that simp: opened_def)
  qed
qed

lemma new_state_name:
  assumes "circuit_table r" "new_state v r w p (classify_block r i) inp i = Some j"
  shows "j = i \<or> (block_name r j = block_name r i \<and> classify_block r i \<noteq> Passive)"
proof (cases "classify_block r i")
  case (Wire l)
  then have "state_id r REDSTONE_WIRE (wire_properties (output_effective (emitted (Wire l) inp))) = Inr j"
    using assms(2) by (simp add: new_state_def ok_option_Some wire_state_def)
  then have "block_name r j = Inr REDSTONE_WIRE" using table_state [OF assms(1)] by (auto simp: wire_properties_def)
  then show ?thesis using wire_name [OF Wire] Wire by simp
next
  case (Emitter s)
  show ?thesis
  proof (cases "j = i")
    case False
    then have "new_torch_state r inp i = Some j" using Emitter assms(2) by (auto simp: new_state_def split: if_splits)
    then have "block_name r j = block_name r i" by (rule torch_states [OF assms(1) _ False]) simp
    then show ?thesis using Emitter by simp
  qed simp
next
  case Mechanism
  show ?thesis
  proof (cases "j = i")
    case False
    have "new_mechanism_state v r w p inp i = Some j" using Mechanism assms(2) by (simp add: new_state_def)
    then have "block_name r j = block_name r i" by (rule mechanism_states [OF assms(1) _ False]) simp
    then show ?thesis using Mechanism by simp
  qed simp
qed (use assms(2) in \<open>simp add: new_state_def\<close>)

lemma recompute_name:
  "circuit_table r \<Longrightarrow> recompute v r w p i = Some j \<Longrightarrow>
     j = i \<or> (block_name r j = block_name r i \<and> classify_block r i \<noteq> Passive)"
  unfolding recompute_def by (rule new_state_name)

lemma recompute_stays_open:
  assumes "circuit_table r" "recompute v r w p i = Some j" "\<not> is_conductive r i"
  shows "\<not> is_conductive r j"
proof (cases "j = i")
  case False
  then have n: "block_name r j = block_name r i" "classify_block r i \<noteq> Passive"
    using recompute_name [OF assms(1,2)] by auto
  then obtain m where m: "block_name r i = Inr m" using classify_active_name by blast
  show ?thesis
  proof (cases "m = REDSTONE_WIRE")
    case True
    then show ?thesis using m n(1) by (intro wire_not_conductive) simp
  next
    case False
    then show ?thesis using same_name_role [OF n(1) m] n(2) active_not_conductive by simp
  qed
qed (use assms in simp)

section \<open>Without conductive solids a block reads its neighbours only\<close>

definition open_view :: "'w block_view \<Rightarrow> block_registry \<Rightarrow> 'w \<Rightarrow> bool" where
  "open_view v r w \<longleftrightarrow> (\<forall>p i. bv_get v w p = Some i \<longrightarrow> \<not> is_conductive r i)"

definition plain_face :: "block_registry \<Rightarrow> nat \<Rightarrow> int option \<Rightarrow> emitter_output \<times> bool" where
  "plain_face r index o1 =
     (case o1 of
        None \<Rightarrow> (OUTPUT_OFF, False)
      | Some i \<Rightarrow>
          (case classify_block r i of
             Wire stored \<Rightarrow> (output_of (weak_only stored), True)
           | Emitter source \<Rightarrow>
               (if source = Src_Observer \<and> \<not> observer_emits_toward r i index then OUTPUT_OFF
                else emitted_for_id r i NO_INPUTS, False)
           | _ \<Rightarrow> (OUTPUT_OFF, False)))"

definition plain_inputs :: "block_registry \<Rightarrow> int option list \<Rightarrow> block_inputs" where
  "plain_inputs r os =
     (let fs = map (\<lambda>(index, o1). plain_face r index o1) (enumerate 0 os)
      in \<lparr>in_faces = map fst fs, in_dust = map snd fs\<rparr>)"

definition around :: "'w block_view \<Rightarrow> 'w \<Rightarrow> pos \<Rightarrow> int option list" where
  "around v w p = map (bv_get v w) (neighbour_set p)"

lemma face_open: "open_view v r w \<Longrightarrow> face_input v r w solid fw k p = plain_face r k (bv_get v w p)"
  by (auto simp: open_view_def face_input_def plain_face_def split: option.split block_role.split)

lemma gather_open: "open_view v r w \<Longrightarrow> gather_with v r w solid p fw = plain_inputs r (around v w p)"
  by (simp add: gather_with_def plain_inputs_def face_open around_def neighbour_set_def Let_def)

lemma inputs_open: "open_view v r w \<Longrightarrow> gather_inputs v r w p fw = plain_inputs r (around v w p)"
  by (simp add: gather_inputs_def gather_inputs_inner_def gather_open)

lemma lamp_open: "open_view v r w \<Longrightarrow> \<not> lamp_powered v r w p"
  by (auto simp: lamp_powered_def open_view_def split: option.splits)

lemma recompute_open:
  "open_view v r w \<Longrightarrow> recompute v r w p i = new_state v r w p (classify_block r i) (plain_inputs r (around v w p)) i"
  by (simp add: recompute_def inputs_open)

lemma new_state_open:
  assumes "open_view v r w" "open_view v r w'"
  shows "new_state v r w p role inp i = new_state v r w' p' role inp i"
proof -
  have "lamp_powered v r w p = lamp_powered v r w' p'" using lamp_open assms by metis
  then show ?thesis unfolding new_state_def new_mechanism_state_def by (simp only:)
qed

lemma recompute_local:
  "open_view v r w \<Longrightarrow> open_view v r w' \<Longrightarrow> around v w' p = around v w p \<Longrightarrow>
     recompute v r w' p i = recompute v r w p i"
  using new_state_open [of v r w' w] by (simp add: recompute_open)

section \<open>A recomputed block is at rest\<close>

lemma torch_rest:
  assumes "circuit_table r" "new_torch_state r inp i = Some j" "j \<noteq> i"
  shows "new_torch_state r inp j = Some j"
proof -
  obtain n ps qs where np: "block_name r j = Inr n" "properties_of r j = Inr qs"
    and m: "map_of qs = map_of (set_property (lit ''lit'') (bool_text (\<not> torch_lit_of ps)) ps)"
    and att: "torch_lit_of ps = (torch_attachment n ps < length (in_faces inp) \<and>
       state_powered (eo_state (in_faces inp ! torch_attachment n ps)))"
    and old: "block_name r i = Inr n" "properties_of r i = Inr ps"
    by (rule torch_states [OF assms])
  have face: "torch_attachment n qs = torch_attachment n ps"
    by (simp add: torch_attachment_def property_or_north_def m map_of_set_property lit_def)
  have "map_of ps (lit ''lit'') \<noteq> None"
  proof
    assume none: "map_of ps (lit ''lit'') = None"
    then have "set_property (lit ''lit'') b ps = ps" for b
      by (induction ps) (auto split: if_splits)
    then have "state_id r n ps = Inr j"
      using assms(2,3) old by (auto simp: new_torch_state_def Let_def et_name_of_def ok_option_Some split: if_splits)
    then show False using table_same [OF assms(1) old(2,1)] assms(3) by simp
  qed
  then have "torch_lit_of qs = (\<not> torch_lit_of ps)"
    by (auto simp: torch_lit_of_def [of qs] m map_of_set_property)
  then show ?thesis using np face att by (simp add: new_torch_state_def et_name_of_def)
qed

lemma property_says_opened:
  "property_says qs (lit ''powered'') \<Longrightarrow> map_of qs = map_of (opened b ps) \<Longrightarrow> b"
  by (auto simp: property_says_def map_of_opened split: if_splits)

lemma mechanism_rest:
  assumes "circuit_table r" "new_mechanism_state v r w p inp i = Some j" "j \<noteq> i"
    "lamp_powered v r w' p' = lamp_powered v r w p"
  shows "new_mechanism_state v r w' p' inp j = Some j"
proof -
  let ?b = "0 < output_effective (strongest inp)"
  obtain n ps qs where np: "block_name r j = Inr n" "properties_of r j = Inr qs"
    and lamp: "n = REDSTONE_LAMP \<longrightarrow> map_of qs = map_of [(lit ''lit'', bool_text (lamp_powered v r w p))]"
    and door: "n \<noteq> REDSTONE_LAMP \<longrightarrow> map_of qs = map_of (opened ?b ps)"
    and old: "block_name r i = Inr n" "properties_of r i = Inr ps"
    by (rule mechanism_states [OF assms(1-3)])
  show ?thesis
  proof (cases "n = REDSTONE_LAMP")
    case True
    then have "property_says qs (lit ''lit'') = lamp_powered v r w p" using lamp by (simp add: property_says_def)
    then show ?thesis using np True assms(4) by (simp add: new_mechanism_state_def et_name_of_def)
  next
    case False
    have same: "map_of (opened ?b qs) = map_of qs"
      using door False by (auto simp: fun_eq_iff map_of_opened)
    have "state_id r n (opened ?b qs) = Inr j" if "property_says qs (lit ''powered'') \<noteq> ?b"
    proof -
      have "opened ?b qs = qs"
        unfolding opened_def
      proof (rule map_idI)
        fix kx assume kx: "kx \<in> set qs"
        obtain k x where [simp]: "kx = (k, x)" by fastforce
        have "map_of qs k = Some x" using kx table_distinct [OF assms(1) np(2)] by simp
        moreover have "map_of (opened ?b qs) k = map_of qs k" using same by simp
        ultimately show "(case kx of (k, x) \<Rightarrow> if k = lit ''powered'' \<or> k = lit ''open'' then (k, bool_text ?b) else (k, x)) = kx"
          by (auto simp: map_of_opened)
      qed
      then show ?thesis using table_same [OF assms(1) np(2,1)] by simp
    qed
    then show ?thesis
      using np False by (auto simp: new_mechanism_state_def et_name_of_def Let_def ok_option_def opened_def)
  qed
qed

lemma new_state_rest:
  assumes "circuit_table r" "inputs_ok inp" "new_state v r w p (classify_block r i) inp i = Some j"
    "lamp_powered v r w' p' = lamp_powered v r w p"
  shows "new_state v r w' p' (classify_block r j) inp j = Some j"
proof (cases "j = i")
  case True
  have "new_state v r w' p' role inp i = new_state v r w p role inp i" for role
    unfolding new_state_def new_mechanism_state_def assms(4) ..
  then show ?thesis using True assms(3) by simp
next
  case False
  note name = new_state_name [OF assms(1,3)]
  show ?thesis
  proof (cases "classify_block r i")
    case (Wire l)
    let ?l = "output_effective (emitted (Wire l) inp)"
    have "wire_state r ?l = Inr j" using assms(3) Wire by (simp add: new_state_def ok_option_Some)
    moreover have "?l \<le> MAX_POWER" using output_effective_le [OF emitted_ok [OF assms(2)]] .
    ultimately have "classify_block r j = Wire ?l" using wire_state_reads [OF assms(1)] by blast
    then show ?thesis using \<open>wire_state r ?l = Inr j\<close> by (simp add: new_state_def ok_option_Some emitted_def)
  next
    case (Emitter s)
    have role: "classify_block r j = Emitter s"
      using name False same_name_role classify_active_name other_name Emitter by metis
    then show ?thesis
      using assms(3) Emitter torch_rest [OF assms(1) _ False] by (simp add: new_state_def split: if_splits)
  next
    case Mechanism
    have role: "classify_block r j = Mechanism"
      using name False same_name_role classify_active_name other_name Mechanism by metis
    then show ?thesis
      using assms(3) Mechanism mechanism_rest [OF assms(1) _ False assms(4)] by (simp add: new_state_def)
  next
    case Passive
    then show ?thesis using assms(3) False by (simp add: new_state_def)
  qed
qed

lemma recompute_rest:
  assumes "circuit_table r" "open_view v r w" "open_view v r w'" "around v w' p = around v w p"
    "recompute v r w p i = Some j"
  shows "recompute v r w' p j = Some j"
proof -
  have "inputs_ok (plain_inputs r (around v w p))" using gather_ok inputs_open [OF assms(2)] by metis
  moreover have "lamp_powered v r w' p = lamp_powered v r w p" using lamp_open assms(2,3) by metis
  moreover have "new_state v r w p (classify_block r i) (plain_inputs r (around v w p)) i = Some j"
    using assms(5) by (simp add: recompute_open [OF assms(2)])
  ultimately show ?thesis
    unfolding recompute_open [OF assms(3)] assms(4) by (metis new_state_rest [OF assms(1)])
qed

end
