(* ===== verification/RedstoneLoop.thy ===== *)
theory RedstoneLoop
  imports RedstoneSettled
begin

text \<open>
  \<open>propagate\<close> of \<open>crates/redstone/src/propagation.rs\<close> over any world that keeps the contract of
  \<open>BlockView\<close>: the changes it reports are the writes it made, its work stays in its budget, and
  a position it does not leave in the queue is at rest.
\<close>

section \<open>Pushing\<close>

lemma push_current:
  assumes "os_ok (uq_current q)" "push_neighbour q p = (i, q')"
  shows "os_ok (uq_current q') \<and> set (uq_current q) \<subseteq> set (uq_current q') \<and>
    (i \<noteq> Insert_Refused \<longrightarrow> set (uq_current q') = insert p (set (uq_current q)))"
  using assms by (auto simp: push_neighbour_def split: if_splits)

lemma push_counting_current:
  assumes "os_ok (uq_current q)" "push_counting q n ps = (q', n')"
  shows "os_ok (uq_current q') \<and> n \<le> n' \<and> set (uq_current q) \<subseteq> set (uq_current q') \<and>
    (n' = n \<longrightarrow> set (uq_current q') = set ps \<union> set (uq_current q))"
  using assms
proof (induction ps arbitrary: q n)
  case (Cons p ps)
  obtain i q1 where i: "push_neighbour q p = (i, q1)" by fastforce
  note law = push_current [OF Cons.prems(1) i]
  have "push_counting q1 (if i = Insert_Refused then n + 1 else n) ps = (q', n')" using Cons.prems(2) i by simp
  note ih = Cons.IH [OF _ this]
  show ?case using law ih by (cases "i = Insert_Refused") auto
qed simp

section \<open>Neighbours\<close>

definition i32_pos :: "pos \<Rightarrow> bool" where
  "i32_pos p \<longleftrightarrow> - (2 ^ 31) \<le> px p \<and> px p < 2 ^ 31 \<and> - (2 ^ 31) \<le> py p \<and> py p < 2 ^ 31 \<and>
     - (2 ^ 31) \<le> pz p \<and> pz p < 2 ^ 31"

text \<open>At the ends of i32 an offset stays where it is; elsewhere it can be undone.\<close>

lemma sat_step:
  assumes "- (2 ^ 31) \<le> b" "b < 2 ^ 31" "d = 1 \<or> d = - 1"
  shows "i32_sat_add b d = b \<or> i32_sat_add (i32_sat_add b d) (- d) = b"
  using assms by (auto simp: i32_sat_add_def)

lemma sat_zero: "- (2 ^ 31) \<le> b \<Longrightarrow> b < 2 ^ 31 \<Longrightarrow> i32_sat_add b 0 = b"
  by (simp add: i32_sat_add_def)

lemma redstone_offset_back:
  assumes "i32_pos q" "(d, 0, 0) = e \<or> (0, d, 0) = e \<or> (0, 0, d) = e" "d = 1 \<or> d = - 1"
  shows "pos_offset3 q e = q \<or> (case e of (x, y, z) \<Rightarrow> pos_offset3 (pos_offset3 q e) (- x, - y, - z)) = q"
  using assms sat_step [of _ d] sat_zero
  by (cases q) (elim disjE; fastforce simp: pos_offset3_def pos_offset_def i32_pos_def)

lemma neighbours_symmetric:
  assumes "i32_pos q" "p \<in> set (neighbour_set q)"
  shows "q \<in> set (neighbour_set p)"
proof -
  have "\<exists>e \<in> {(0, -1, 0), (0, 1, 0), (0, 0, -1), (0, 0, 1), (-1, 0, 0), (1, 0, 0)}. p = pos_offset3 q e"
    using assms(2) by (auto simp: neighbour_set_def pos_offset3_def)
  then obtain e where e: "e \<in> {(0, -1, 0), (0, 1, 0), (0, 0, -1), (0, 0, 1), (-1, 0, 0), (1, 0, 0)}" "p = pos_offset3 q e" ..
  have "pos_offset3 q e = q \<or> (case e of (x, y, z) \<Rightarrow> pos_offset3 (pos_offset3 q e) (- x, - y, - z)) = q"
    using e(1) by (elim insertE emptyE) (rule redstone_offset_back [OF assms(1), of 1] redstone_offset_back [OF assms(1), of "- 1"]; simp)+
  then show ?thesis
  proof
    assume "pos_offset3 q e = q"
    then show ?thesis using e(2) assms(2) by simp
  next
    assume "(case e of (x, y, z) \<Rightarrow> pos_offset3 (pos_offset3 q e) (- x, - y, - z)) = q"
    then show ?thesis using e by (auto simp: neighbour_set_def pos_offset3_def)
  qed
qed

section \<open>The contract of a view\<close>

definition settled_at :: "'w block_view \<Rightarrow> block_registry \<Rightarrow> 'w \<Rightarrow> pos \<Rightarrow> bool" where
  "settled_at v r w p \<longleftrightarrow>
     (case bv_get v w p of
        None \<Rightarrow> True
      | Some i \<Rightarrow> (case recompute v r w p i of None \<Rightarrow> True | Some j \<Rightarrow> j = i))"

text \<open>Every position outside \<open>A\<close> is at rest.\<close>

definition settled_outside :: "'w block_view \<Rightarrow> block_registry \<Rightarrow> 'w \<Rightarrow> pos set \<Rightarrow> bool" where
  "settled_outside v r w A \<longleftrightarrow> (\<forall>p. i32_pos p \<and> p \<notin> A \<longrightarrow> settled_at v r w p)"

text \<open>The blocks after writing a list of changes, and that each change found what it replaced.\<close>

fun replay :: "propagated_change list \<Rightarrow> (pos \<Rightarrow> int option) \<Rightarrow> pos \<Rightarrow> int option" where
  "replay [] g = g"
| "replay (c # cs) g = replay cs (g(pc_pos c := Some (pc_new c)))"

fun replays :: "propagated_change list \<Rightarrow> (pos \<Rightarrow> int option) \<Rightarrow> bool" where
  "replays [] g \<longleftrightarrow> True"
| "replays (c # cs) g \<longleftrightarrow> g (pc_pos c) = Some (pc_old c) \<and> pc_old c \<noteq> pc_new c \<and> replays cs (g(pc_pos c := Some (pc_new c)))"

lemma redstone_replay_append: "replay (cs @ ds) g = replay ds (replay cs g)"
  by (induction cs arbitrary: g) auto

lemma replays_append: "replays (cs @ ds) g \<longleftrightarrow> replays cs g \<and> replays ds (replay cs g)"
  by (induction cs arbitrary: g) auto

locale view_laws =
  fixes v :: "'w block_view" and inv :: "'w \<Rightarrow> bool"
  assumes set_law:
    "inv w \<Longrightarrow> bv_get v w p = Some i \<Longrightarrow> i \<noteq> j \<Longrightarrow> bv_set v w p j = (wrote, w') \<Longrightarrow>
       inv w' \<and> bv_get v w' = (if wrote then (bv_get v w)(p := Some j) else bv_get v w) \<and> (\<not> wrote \<longrightarrow> i = 0)"
begin

lemma process_cases:
  assumes "inv w" "process_one v r w p cs = (c, w', cs')"
  obtains (unloaded) "bv_get v w p = None" "c = None" "w' = w" "cs' = cs"
  | (rest) i where "bv_get v w p = Some i" "recompute v r w p i = None \<or> recompute v r w p i = Some i"
      "c = None" "w' = w" "cs' = cs"
  | (refused) j where "bv_get v w p = Some 0" "recompute v r w p 0 = Some j" "j \<noteq> 0" "c = None" "cs' = cs"
      "inv w'" "bv_get v w' = bv_get v w"
  | (changed) i j e where "bv_get v w p = Some i" "recompute v r w p i = Some j" "i \<noteq> j" "inv w'"
      "bv_get v w' = (bv_get v w)(p := Some j)"
      "c = Some \<lparr>pc_pos = p, pc_cause = Neighbor_Changed, pc_old = i, pc_new = j, pc_emitted = e\<rparr>" "cs' = cs @ [the c]"
proof (cases "bv_get v w p")
  case None
  then show ?thesis using assms(2) by (intro unloaded) (simp_all add: process_one_def)
next
  case (Some i)
  show ?thesis
  proof (cases "recompute v r w p i = None \<or> recompute v r w p i = Some i")
    case True
    then show ?thesis using assms(2) Some by (intro rest [of i]) (auto simp: process_one_def Let_def)
  next
    case False
    then obtain j where j: "recompute v r w p i = Some j" "i \<noteq> j" by auto
    obtain wrote w1 where st: "bv_set v w p j = (wrote, w1)" by fastforce
    note law = set_law [OF assms(1) Some j(2) st]
    show ?thesis
    proof (cases wrote)
      case True
      then show ?thesis using assms(2) Some j st law
        by (intro changed [of i j "emitted_for_id r i (gather_inputs v r w p (is_wire_role (classify_block r i)))"])
          (auto simp: process_one_def Let_def)
    next
      case False
      then show ?thesis using assms(2) Some j st law by (intro refused [of j]) (auto simp: process_one_def Let_def)
    qed
  qed
qed

lemma process_law:
  assumes "inv w" "process_one v r w p cs = (c, w', cs')"
  shows "inv w' \<and>
    (case c of
       None \<Rightarrow> bv_get v w' = bv_get v w \<and> cs' = cs
     | Some c \<Rightarrow> cs' = cs @ [c] \<and> pc_pos c = p \<and> bv_get v w p = Some (pc_old c) \<and> pc_old c \<noteq> pc_new c \<and>
         recompute v r w p (pc_old c) = Some (pc_new c) \<and> bv_get v w' = (bv_get v w)(p := Some (pc_new c)))"
  using process_cases [OF assms] assms(1) by cases simp_all

lemma process_None_settled:
  assumes "circuit_table r" "inv w" "process_one v r w p cs = (None, w', cs')"
  shows "settled_at v r w p"
proof -
  have zero: "recompute v r w p 0 = Some 0"
    using assms(1) by (simp add: circuit_table_def recompute_def new_state_def)
  show ?thesis
    using process_cases [OF assms(2,3)] zero by cases (auto simp: settled_at_def)
qed

definition report_ok :: "(pos \<Rightarrow> int option) \<Rightarrow> 'w \<Rightarrow> propagation_report \<Rightarrow> bool" where
  "report_ok g w rep \<longleftrightarrow> inv w \<and> bv_get v w = replay (pr_changes rep) g \<and> replays (pr_changes rep) g \<and>
     pr_changed rep = length (pr_changes rep) \<and> pr_changed rep \<le> pr_processed rep"

lemma process_positions_report:
  assumes "report_ok g w rep" "process_positions v r ps (w, q, rep) = (w', q', rep')"
  shows "report_ok g w' rep'"
  using assms
proof (induction ps arbitrary: w q rep)
  case (Cons p ps)
  obtain c w1 cs where o1: "process_one v r w p (pr_changes rep) = (c, w1, cs)" using prod_cases3 by blast
  have "inv w" using Cons.prems(1) by (simp add: report_ok_def)
  note law = process_law [OF this o1]
  show ?case
  proof (cases c)
    case None
    obtain q1 n where f: "forward_through_solid v r w1 q p (pr_refused rep) = (q1, n)" by fastforce
    show ?thesis
      using Cons.prems law None o1 f by (intro Cons.IH [of w1 "rep\<lparr>pr_processed := pr_processed rep + 1, pr_changes := cs, pr_refused := n\<rparr>" q1])
        (simp_all add: report_ok_def)
  next
    case (Some c1)
    obtain q1 n where f: "push_counting q (pr_refused rep) (neighbour_set p) = (q1, n)" by fastforce
    show ?thesis
      using Cons.prems law Some o1 f
      by (intro Cons.IH [of w1 "rep\<lparr>pr_processed := pr_processed rep + 1, pr_changed := pr_changed rep + 1,
          pr_changes := cs, pr_refused := n\<rparr>" q1]) (simp_all add: report_ok_def redstone_replay_append replays_append)
  qed
qed simp

lemma drain_length:
  assumes "drain_at_most q n = (d, q')" "0 < n"
  shows "length (nd_positions d) \<le> n"
proof -
  have "length (fst (take_loop cap ps taken q)) \<le> max cap (length taken)" for cap ps taken q
    by (induction cap ps taken q rule: take_loop.induct) auto
  from this [of "max 1 (min n MAX_ENTRIES)" "rotation q" "[]" q] show ?thesis
    using assms by (auto simp: drain_at_most_def take_neighbours_def Let_def MAX_ENTRIES_def split: prod.splits)
qed

lemma loop_report:
  assumes "report_ok g w rep" "pr_processed rep \<le> budget" "propagate_loop v r budget (w, q, rep) = (w', q', rep')"
  shows "report_ok g w' rep' \<and> pr_processed rep' \<le> budget"
  using assms
proof (induction v\<equiv>v r budget "(w, q, rep)" arbitrary: w q rep rule: propagate_loop.induct)
  case (1 r budget w q rep)
  show ?case
  proof (cases "pr_processed rep < budget \<and> next_pending q \<noteq> None")
    case True
    obtain d q1 where d: "drain_at_most q (budget - pr_processed rep) = (d, q1)" by fastforce
    show ?thesis
    proof (cases "nd_positions d = []")
      case True
      then show ?thesis using 1(2-4) \<open>pr_processed rep < budget \<and> next_pending q \<noteq> None\<close> d
        by (auto simp: propagate_loop.simps [of v r budget w q rep])
    next
      case False
      obtain w2 q2 rep2 where s: "process_positions v r (nd_positions d) (w, q1, rep) = (w2, q2, rep2)" using prod_cases3 by blast
      have "pr_processed rep2 \<le> budget"
        using processed_positions [OF s] drain_length [OF d] True [THEN conjunct1] by simp
      moreover have "propagate_loop v r budget (w2, q2, rep2) = (w', q', rep')"
        using 1(4) True d False s by (simp add: propagate_loop.simps [of v r budget w q rep])
      ultimately show ?thesis
        using 1(1) [OF True d [symmetric] False s] process_positions_report [OF 1(2) s] s by simp
    qed
  next
    case False
    then show ?thesis using 1(2-4) by (auto simp: propagate_loop.simps [of v r budget w q rep])
  qed
qed

lemma propagate_report:
  assumes "inv w" "propagate v w q r budget = (rep, w', q')"
  shows "inv w' \<and> bv_get v w' = replay (pr_changes rep) (bv_get v w) \<and> replays (pr_changes rep) (bv_get v w) \<and>
    pr_changed rep = length (pr_changes rep) \<and> pr_changed rep \<le> pr_processed rep \<and>
    pr_processed rep \<le> ub_neighbour budget \<and>
    (pr_exhausted rep \<longleftrightarrow> next_pending q' \<noteq> None \<and> pr_processed rep = ub_neighbour budget)"
proof -
  obtain rep1 where l: "propagate_loop v r (ub_neighbour budget) (w, q, empty_report) = (w', q', rep1)"
      "rep = rep1\<lparr>pr_exhausted := next_pending q' \<noteq> None \<and> ub_neighbour budget \<le> pr_processed rep1\<rparr>"
    using assms(2) by (auto simp: propagate_def split: prod.splits)
  have "report_ok (bv_get v w) w empty_report" using assms(1) by (simp add: report_ok_def empty_report_def)
  from loop_report [OF this _ l(1)] show ?thesis
    by (auto simp: l(2) report_ok_def empty_report_def)
qed

end

section \<open>What is not queued is at rest\<close>

lemma settled_local:
  assumes "open_view v r w" "open_view v r w'" "around v w' p = around v w p" "bv_get v w' p = bv_get v w p"
  shows "settled_at v r w' p = settled_at v r w p"
  using recompute_local [OF assms(1-3)] assms(4) by (simp add: settled_at_def split: option.split)

lemma take_neighbours_set:
  assumes "os_ok (uq_current q)" "take_neighbours q now cap = (d, q')"
  shows "os_ok (uq_current q') \<and> set (uq_current q) = set (nd_positions d) \<union> set (uq_current q')"
proof -
  have "set (rotation q) = set (take cap (rotation q)) \<union> set (drop cap (rotation q))"
    by (metis append_take_drop_id set_append)
  then show ?thesis using take_neighbours_law [OF assms] rotation_law(2) [OF assms(1)] by simp
qed

lemma forward_current:
  assumes "os_ok (uq_current q)" "forward_through_solid v r w q p n = (q', n')"
  shows "os_ok (uq_current q') \<and> n \<le> n'"
  using assms push_counting_current [OF assms(1), of n]
  by (auto simp: forward_through_solid_def split: option.splits if_splits)

lemma process_positions_refused:
  assumes "os_ok (uq_current q)" "process_positions v r ps (w, q, rep) = (w', q', rep')"
  shows "os_ok (uq_current q') \<and> pr_refused rep \<le> pr_refused rep'"
  using assms
proof (induction ps arbitrary: w q rep)
  case (Cons p ps)
  obtain c w1 cs where o1: "process_one v r w p (pr_changes rep) = (c, w1, cs)" using prod_cases3 by blast
  show ?case
  proof (cases c)
    case None
    obtain q1 n where f: "forward_through_solid v r w1 q p (pr_refused rep) = (q1, n)" by fastforce
    have "process_positions v r ps (w1, q1, rep\<lparr>pr_processed := pr_processed rep + 1, pr_changes := cs, pr_refused := n\<rparr>) = (w', q', rep')"
      using Cons.prems(2) o1 None f by simp
    from Cons.IH [OF _ this] show ?thesis using forward_current [OF Cons.prems(1) f] by simp
  next
    case (Some c1)
    obtain q1 n where f: "push_counting q (pr_refused rep) (neighbour_set p) = (q1, n)" by fastforce
    have "process_positions v r ps (w1, q1, rep\<lparr>pr_processed := pr_processed rep + 1, pr_changed := pr_changed rep + 1,
        pr_changes := cs, pr_refused := n\<rparr>) = (w', q', rep')"
      using Cons.prems(2) o1 Some f by simp
    from Cons.IH [OF _ this] show ?thesis using push_counting_current [OF Cons.prems(1) f] by simp
  qed
qed simp

lemma loop_refused:
  assumes "os_ok (uq_current q)" "propagate_loop v r budget (w, q, rep) = (w', q', rep')"
  shows "pr_refused rep \<le> pr_refused rep'"
  using assms
proof (induction v r budget "(w, q, rep)" arbitrary: w q rep rule: propagate_loop.induct)
  case (1 v r budget w q rep)
  show ?case
  proof (cases "pr_processed rep < budget \<and> next_pending q \<noteq> None")
    case True
    obtain d q1 where d: "drain_at_most q (budget - pr_processed rep) = (d, q1)" by fastforce
    note drained = take_neighbours_set [OF 1(2) d [unfolded drain_at_most_def]]
    show ?thesis
    proof (cases "nd_positions d = []")
      case True
      then show ?thesis using 1(3) \<open>pr_processed rep < budget \<and> next_pending q \<noteq> None\<close> d
        by (auto simp: propagate_loop.simps [of v r budget w q rep])
    next
      case False
      obtain w2 q2 rep2 where s: "process_positions v r (nd_positions d) (w, q1, rep) = (w2, q2, rep2)" using prod_cases3 by blast
      have "propagate_loop v r budget (w2, q2, rep2) = (w', q', rep')"
        using 1(3) True d False s by (simp add: propagate_loop.simps [of v r budget w q rep])
      then show ?thesis
        using 1(1) [OF True d [symmetric] False s] process_positions_refused [OF _ s] drained by simp
    qed
  next
    case False
    then show ?thesis using 1(3) by (auto simp: propagate_loop.simps [of v r budget w q rep])
  qed
qed

context view_laws
begin

definition circuit :: "block_registry \<Rightarrow> 'w \<Rightarrow> update_queue \<Rightarrow> pos set \<Rightarrow> bool" where
  "circuit r w q A \<longleftrightarrow> inv w \<and> open_view v r w \<and> os_ok (uq_current q) \<and> settled_outside v r w (A \<union> set (uq_current q))"

lemma changed_circuit:
  assumes r: "circuit_table r" and w: "inv w" "open_view v r w" and A: "settled_outside v r w A"
    and i: "bv_get v w p = Some i" "recompute v r w p i = Some j"
    and w': "bv_get v w' = (bv_get v w)(p := Some j)"
  shows "open_view v r w' \<and> settled_outside v r w' (set (neighbour_set p) \<union> (A - {p}))"
proof -
  have "\<not> is_conductive r i" using w(2) i(1) by (simp add: open_view_def)
  then have "\<not> is_conductive r j" by (rule recompute_stays_open [OF r i(2)])
  then have op: "open_view v r w'" using w(2) by (simp add: open_view_def w')
  have "settled_at v r w' s" if s: "i32_pos s" "s \<notin> set (neighbour_set p) \<union> (A - {p})" for s
  proof -
    have "p \<notin> set (neighbour_set s)" using neighbours_symmetric [OF s(1)] s(2) by blast
    then have same: "around v w' s = around v w s" by (auto simp: around_def w')
    show ?thesis
    proof (cases "s = p")
      case True
      then have "recompute v r w' p j = Some j"
        using recompute_rest [OF r w(2) op] same i(2) by simp
      then show ?thesis using True by (simp add: settled_at_def w')
    next
      case False
      then have "settled_at v r w s" using A s by (simp add: settled_outside_def)
      then show ?thesis using settled_local [OF w(2) op same] False by (simp add: w')
    qed
  qed
  then show ?thesis using op by (simp add: settled_outside_def)
qed

lemma process_positions_circuit:
  assumes r: "circuit_table r" and "circuit r w q (set ps)" "process_positions v r ps (w, q, rep) = (w', q', rep')"
    "pr_refused rep' = pr_refused rep"
  shows "circuit r w' q' {}"
  using assms(2-)
proof (induction ps arbitrary: w q rep)
  case (Cons p ps)
  have c: "inv w" "open_view v r w" "os_ok (uq_current q)" "settled_outside v r w (insert p (set ps) \<union> set (uq_current q))"
    using Cons.prems(1) by (simp_all add: circuit_def)
  obtain ch w1 cs where o1: "process_one v r w p (pr_changes rep) = (ch, w1, cs)" using prod_cases3 by blast
  show ?case
  proof (cases ch)
    case None
    have w1: "inv w1" "bv_get v w1 = bv_get v w" using process_law [OF c(1) o1] None by simp_all
    have op: "open_view v r w1" using c(2) w1(2) by (simp add: open_view_def)
    have f: "forward_through_solid v r w1 q p (pr_refused rep) = (q, pr_refused rep)"
      using op by (auto simp: forward_through_solid_def open_view_def split: option.split)
    have same: "settled_at v r w1 s = settled_at v r w s" for s
      by (rule settled_local [OF c(2) op]) (simp_all add: around_def w1(2))
    have "settled_at v r w p" using process_None_settled [OF r c(1) o1 [unfolded None]] .
    then have "circuit r w1 q (set ps)"
      using c w1(1) op by (auto simp: circuit_def settled_outside_def same)
    then show ?thesis using Cons.IH Cons.prems(2,3) o1 None f by simp
  next
    case (Some c1)
    note law = process_law [OF c(1) o1, unfolded Some option.case]
    obtain q1 n where f: "push_counting q (pr_refused rep) (neighbour_set p) = (q1, n)" by fastforce
    note push = push_counting_current [OF c(3) f]
    note next_state = changed_circuit [OF r c(1,2,4), of p "pc_old c1" "pc_new c1" w1]
    have rest: "process_positions v r ps (w1, q1, rep\<lparr>pr_processed := pr_processed rep + 1,
        pr_changed := pr_changed rep + 1, pr_changes := cs, pr_refused := n\<rparr>) = (w', q', rep')"
      using Cons.prems(2) o1 Some f by simp
    have n: "n = pr_refused rep" using process_positions_refused [OF _ rest] push Cons.prems(3) by simp
    have "set (uq_current q1) = set (neighbour_set p) \<union> set (uq_current q)" using push n by blast
    then have "circuit r w1 q1 (set ps)"
      using law next_state push c by (auto simp: circuit_def settled_outside_def)
    then show ?thesis using Cons.IH [OF _ rest] n Cons.prems(3) by simp
  qed
qed (simp add: circuit_def)

lemma loop_circuit:
  assumes "circuit_table r" "circuit r w q {}" "propagate_loop v r budget (w, q, rep) = (w', q', rep')"
    "pr_refused rep' = pr_refused rep"
  shows "circuit r w' q' {}"
  using assms
proof (induction v\<equiv>v r budget "(w, q, rep)" arbitrary: w q rep rule: propagate_loop.induct)
  case (1 r budget w q rep)
  have ok: "os_ok (uq_current q)" using 1(3) by (simp add: circuit_def)
  show ?case
  proof (cases "pr_processed rep < budget \<and> next_pending q \<noteq> None")
    case True
    obtain d q1 where d: "drain_at_most q (budget - pr_processed rep) = (d, q1)" by fastforce
    note drained = take_neighbours_set [OF ok d [unfolded drain_at_most_def]]
    show ?thesis
    proof (cases "nd_positions d = []")
      case empty: True
      then have "w' = w" "q' = q \<or> q' = q1" "rep' = rep" using 1(4) True d
        by (auto simp: propagate_loop.simps [of v r budget w q rep])
      then show ?thesis using 1(3) drained empty by (auto simp: circuit_def)
    next
      case False
      obtain w2 q2 rep2 where s: "process_positions v r (nd_positions d) (w, q1, rep) = (w2, q2, rep2)" using prod_cases3 by blast
      have rest: "propagate_loop v r budget (w2, q2, rep2) = (w', q', rep')"
        using 1(4) True d False s by (simp add: propagate_loop.simps [of v r budget w q rep])
      have "circuit r w q1 (set (nd_positions d))" using 1(3) drained by (simp add: circuit_def)
      moreover have n: "pr_refused rep2 = pr_refused rep"
        using process_positions_refused [OF _ s] loop_refused [OF _ rest] drained 1(5) by simp
      ultimately have "circuit r w2 q2 {}" using process_positions_circuit [OF 1(2) _ s] by blast
      then show ?thesis using 1(1) [OF True d [symmetric] False s 1(2)] rest n 1(5) by simp
    qed
  next
    case False
    then have "w' = w" "q' = q" "rep' = rep" using 1(4) by (auto simp: propagate_loop.simps [of v r budget w q rep])
    then show ?thesis using 1(3) by simp
  qed
qed

end

end
