(* ===== verification/RedstoneWorlds.thy ===== *)
theory RedstoneWorlds
  imports RedstoneLoop
begin

text \<open>
  The two implementations of \<open>BlockView\<close> in \<open>crates/redstone/src/propagation.rs\<close>: the game's
  world, and the small box of states that stands in for one. Both keep the contract.
\<close>

section \<open>The box\<close>

record flat_world =
  fw_min :: pos
  fw_size :: "nat \<times> nat \<times> nat"
  fw_states :: "int list"

definition sat_mul :: "nat \<Rightarrow> nat \<Rightarrow> nat" where
  "sat_mul a b = min (a * b) u64_max"

definition flat_new :: "pos \<Rightarrow> nat \<times> nat \<times> nat \<Rightarrow> flat_world" where
  "flat_new lo dims =
     (case dims of (sx, sy, sz) \<Rightarrow>
        \<lparr>fw_min = lo, fw_size = dims, fw_states = replicate (sat_mul (sat_mul sx sy) sz) 0\<rparr>)"

definition flat_boxed :: "nat \<times> nat \<times> nat \<Rightarrow> flat_world" where
  "flat_boxed dims = flat_new (Pos 0 0 0) dims"

text \<open>\<open>i32::checked_sub\<close> and then \<open>u32::try_from\<close>.\<close>

definition axis_index :: "int \<Rightarrow> int \<Rightarrow> nat option" where
  "axis_index a lo = (if a - lo < - (2 ^ 31) \<or> 2 ^ 31 \<le> a - lo then None else if a - lo < 0 then None else Some (nat (a - lo)))"

definition flat_index :: "flat_world \<Rightarrow> pos \<Rightarrow> nat option" where
  "flat_index f p =
     (case axis_index (px p) (px (fw_min f)) of
        None \<Rightarrow> None
      | Some x \<Rightarrow>
          (case axis_index (py p) (py (fw_min f)) of
             None \<Rightarrow> None
           | Some y \<Rightarrow>
               (case axis_index (pz p) (pz (fw_min f)) of
                  None \<Rightarrow> None
                | Some z \<Rightarrow>
                    (case fw_size f of (sx, sy, sz) \<Rightarrow>
                       if sx \<le> x \<or> sy \<le> y \<or> sz \<le> z then None
                       else Some (sat_add (sat_add x (sat_mul z sx)) (sat_mul (sat_mul y sx) sz))))))"

definition flat_get :: "flat_world \<Rightarrow> pos \<Rightarrow> int option" where
  "flat_get f p =
     (case flat_index f p of
        None \<Rightarrow> None
      | Some k \<Rightarrow> if k < length (fw_states f) then Some (fw_states f ! k) else None)"

text \<open>The index is inside the vector of any box that \<open>new\<close> can allocate, so the writes do not panic.\<close>

definition flat_set :: "flat_world \<Rightarrow> pos \<Rightarrow> int \<Rightarrow> bool \<times> flat_world" where
  "flat_set f p i =
     (case flat_index f p of
        None \<Rightarrow> (False, f)
      | Some k \<Rightarrow> (True, f\<lparr>fw_states := (fw_states f)[k := i]\<rparr>))"

definition flat_set_state :: "flat_world \<Rightarrow> pos \<Rightarrow> int \<Rightarrow> bool \<times> flat_world" where
  "flat_set_state f p i =
     (case flat_index f p of
        None \<Rightarrow> (False, f)
      | Some k \<Rightarrow>
          if fw_states f ! k = i then (False, f) else (True, f\<lparr>fw_states := (fw_states f)[k := i]\<rparr>))"

definition flat_view :: "flat_world block_view" where
  "flat_view = \<lparr>bv_get = flat_get, bv_set = flat_set_state\<rparr>"

definition flat_ok :: "flat_world \<Rightarrow> bool" where
  "flat_ok f \<longleftrightarrow> (case fw_size f of (sx, sy, sz) \<Rightarrow> length (fw_states f) = sx * sy * sz \<and> sx * sy * sz \<le> u64_max)"

lemma flat_new_ok:
  assumes "sx * sy * sz \<le> u64_max" "sz \<noteq> 0"
  shows "flat_ok (flat_new lo (sx, sy, sz))"
proof -
  have "sx * sy \<le> sx * sy * sz" using assms(2) by (cases sz) simp_all
  from order_trans [OF this assms(1)] have "sx * sy \<le> u64_max" .
  then show ?thesis using assms(1) by (simp add: flat_ok_def flat_new_def sat_mul_def min_absorb1)
qed

lemma cell_bound:
  fixes x y z sx sy sz :: nat
  assumes "x < sx" "y < sy" "z < sz"
  shows "x + z * sx + y * sx * sz < sx * sy * sz"
proof -
  have "x + z * sx < sx * sz" using assms(1,3) mult_le_mono1 [of "Suc z" sz sx] by (simp add: mult.commute)
  moreover have "(y + 1) * (sx * sz) \<le> sy * (sx * sz)" using assms(2) by (intro mult_le_mono1) simp
  ultimately show ?thesis by (simp add: algebra_simps)
qed

lemma cell_inj:
  fixes x y z sx sz :: nat
  assumes "x + z * sx + y * sx * sz = x' + z' * sx + y' * sx * sz" "x < sx" "x' < sx" "z < sz" "z' < sz"
  shows "x = x' \<and> y = y' \<and> z = z'"
proof -
  have "x = (x + sx * (z + y * sz)) mod sx" using assms(2) by simp
  moreover have "x' = (x' + sx * (z' + y' * sz)) mod sx" using assms(3) by simp
  moreover have "x + sx * (z + y * sz) = x' + sx * (z' + y' * sz)" using assms(1) by (simp add: algebra_simps)
  ultimately have x: "x = x'" "sx * (z + y * sz) = sx * (z' + y' * sz)" by simp_all
  then have "z + sz * y = z' + sz * y'" using assms(2) by (simp add: mult.commute)
  moreover have "z = (z + sz * y) mod sz" "z' = (z' + sz * y') mod sz" using assms(4,5) by simp_all
  ultimately have "z = z'" "sz * y = sz * y'" by simp_all
  then show ?thesis using x assms(4) by simp
qed

lemma axis_index_Some: "axis_index a lo = Some n \<longleftrightarrow> a = lo + int n \<and> int n < 2 ^ 31"
  by (auto simp: axis_index_def)

lemma flat_index_exact:
  assumes "flat_ok f" "flat_index f p = Some k"
  obtains x y z sx sy sz where "fw_size f = (sx, sy, sz)" "x < sx" "y < sy" "z < sz" "k = x + z * sx + y * sx * sz"
    "px p = px (fw_min f) + int x" "py p = py (fw_min f) + int y" "pz p = pz (fw_min f) + int z"
proof -
  obtain sx sy sz where s: "fw_size f = (sx, sy, sz)" using prod_cases3 by blast
  obtain x y z where c: "px p = px (fw_min f) + int x" "py p = py (fw_min f) + int y" "pz p = pz (fw_min f) + int z"
      "x < sx" "y < sy" "z < sz" "k = sat_add (sat_add x (sat_mul z sx)) (sat_mul (sat_mul y sx) sz)"
    using assms(2) s by (auto simp: flat_index_def axis_index_Some not_le split: option.splits if_splits)
  have b: "x + z * sx + y * sx * sz < sx * sy * sz" by (rule cell_bound [OF c(4-6)])
  have m: "sx * sy * sz \<le> u64_max" using assms(1) s by (simp add: flat_ok_def)
  have "y * sx \<le> y * sx * sz" using c(6) by (cases sz) simp_all
  then have "y * sx \<le> u64_max" using b m by linarith
  then have "k = x + z * sx + y * sx * sz" using b m c(7) by (simp add: sat_add_def sat_mul_def)
  then show ?thesis using that s c by blast
qed

lemma flat_index_bound: "flat_ok f \<Longrightarrow> flat_index f p = Some k \<Longrightarrow> k < length (fw_states f)"
  by (rule flat_index_exact, assumption, assumption) (simp add: flat_ok_def cell_bound)

lemma flat_index_inj:
  assumes "flat_ok f" "flat_index f p = Some k" "flat_index f q = Some k"
  shows "p = q"
proof (rule flat_index_exact [OF assms(1,2)])
  fix x y z sx sy sz
  assume p: "fw_size f = (sx, sy, sz)" "x < sx" "y < sy" "z < sz" "k = x + z * sx + y * sx * sz"
    "px p = px (fw_min f) + int x" "py p = py (fw_min f) + int y" "pz p = pz (fw_min f) + int z"
  show "p = q"
  proof (rule flat_index_exact [OF assms(1,3)])
    fix x' y' z' ax ay az
    assume q: "fw_size f = (ax, ay, az)" "x' < ax" "y' < ay" "z' < az" "k = x' + z' * ax + y' * ax * az"
      "px q = px (fw_min f) + int x'" "py q = py (fw_min f) + int y'" "pz q = pz (fw_min f) + int z'"
    have s: "ax = sx" "az = sz" using p(1) q(1) by simp_all
    have "x = x' \<and> y = y' \<and> z = z'" using cell_inj [of x z sx y sz x' z' y'] p q s by simp
    then show "p = q" using p(6-8) q(6-8) by (cases p; cases q) simp
  qed
qed

interpretation flat: view_laws flat_view flat_ok
proof (unfold_locales, goal_cases)
  case (1 f p i j wrote f')
  obtain k where k: "flat_index f p = Some k" "k < length (fw_states f)" "i = fw_states f ! k"
    using 1(2) by (auto simp: flat_view_def flat_get_def split: option.splits if_splits)
  then have f': "wrote" "f' = f\<lparr>fw_states := (fw_states f)[k := j]\<rparr>"
    using 1(3,4) by (auto simp: flat_view_def flat_set_state_def split: if_splits)
  have same: "fw_min f' = fw_min f" "fw_size f' = fw_size f" by (simp_all add: f'(2))
  have index: "flat_index f' q = flat_index f q" for q unfolding flat_index_def same ..
  have "flat_get f' q = (if q = p then Some j else flat_get f q)" for q
  proof (cases "flat_index f q = Some k")
    case True
    then have "q = p" using flat_index_inj [OF 1(1) _ k(1)] by blast
    moreover have "flat_index f' q = Some k" using True index by simp
    ultimately show ?thesis using k(2) by (simp only: flat_get_def option.case) (simp add: f'(2))
  next
    case False
    moreover have "flat_index f' q = flat_index f q" by (rule index)
    ultimately show ?thesis using k(1) by (auto simp: flat_get_def f'(2) split: option.split)
  qed
  then have "flat_get f' = (flat_get f)(p := Some j)" by (simp add: fun_eq_iff)
  moreover have "flat_ok f'" using 1(1) by (simp add: flat_ok_def f'(2))
  ultimately show ?case using f'(1) by (simp add: flat_view_def)
qed

section \<open>The world\<close>

definition world_get_state :: "world \<Rightarrow> pos \<Rightarrow> int option" where
  "world_get_state w p = get_block_loaded w (px p) (py p) (pz p)"

definition world_set_state :: "world \<Rightarrow> pos \<Rightarrow> int \<Rightarrow> bool \<times> world" where
  "world_set_state w p i =
     (case set_block w (px p) (py p) (pz p) i of
        (res, w) \<Rightarrow> (case res of Inr (Some _) \<Rightarrow> True | _ \<Rightarrow> False, w))"

definition world_view :: "world block_view" where
  "world_view = \<lparr>bv_get = world_get_state, bv_set = world_set_state\<rparr>"

interpretation loaded: view_laws world_view world_ok
proof (unfold_locales, goal_cases)
  case (1 w p i j wrote w')
  have i: "get_block_loaded w (px p) (py p) (pz p) = Some i" using 1(2) by (simp add: world_view_def world_get_state_def)
  obtain res where s: "set_block w (px p) (py p) (pz p) j = (res, w')"
    and wrote: "wrote = (case res of Inr (Some _) \<Rightarrow> True | _ \<Rightarrow> False)"
    using 1(4) by (auto simp: world_view_def world_set_state_def split: prod.splits)
  have "res \<noteq> Inr None" using set_block_law [OF 1(1) s] i 1(3) by (auto simp: block_loaded split: if_splits)
  then have w: "write_block w p j = (wrote, w')"
    using s wrote by (auto simp: write_block_def split: sum.splits option.splits)
  note law = write_block_law [OF 1(1) i 1(3) w]
  then show ?case by (auto simp: world_view_def world_get_state_def fun_eq_iff)
qed

end
