(* ===== verification/RedstoneTheorems.thy ===== *)
theory RedstoneTheorems
  imports RedstoneWorlds FluidTheorems
begin

text \<open>
  What the circuit of \<open>crates/redstone\<close> promises of the game's world: the component states and
  their blocks, what a call of \<open>propagate\<close> writes and leaves, and the level of dust at rest.
\<close>

section \<open>Components and their blocks\<close>

lemma source_not_mechanism: "\<not> is_door (source_block_name s) \<and> \<not> is_trapdoor (source_block_name s) \<and>
    \<not> is_fence_gate (source_block_name s) \<and> source_block_name s \<notin> {REDSTONE_WIRE, REDSTONE_LAMP}"
  by (cases s) (simp_all add: is_door_def is_trapdoor_def is_fence_gate_def ends_with_def source_block_name_def
      REDSTONE_WIRE_def REDSTONE_LAMP_def lit_def)

lemma source_classified:
  assumes "block_name r i = Inr (primary_block_name s)"
  shows "classify_block r i = Emitter s"
  using source_not_mechanism [of s] primary_source [of s]
  by (simp add: classify_named [OF assms] primary_name)

text \<open>The delay a repeater's properties hold is the clamped one.\<close>

definition normal_component :: "component_state \<Rightarrow> component_state" where
  "normal_component c = (case c of C_Repeater k \<Rightarrow> C_Repeater (k\<lparr>rep_delay := repeater_delay k\<rparr>) | _ \<Rightarrow> c)"

lemma clamp_bounds: "1 \<le> clamp_repeater_delay d" "clamp_repeater_delay d \<le> 4"
    "clamp_repeater_delay (clamp_repeater_delay d) = clamp_repeater_delay d"
  by (simp_all add: clamp_repeater_delay_def MIN_DELAY_def MAX_DELAY_def)

text \<open>A component survives being written as a block: when the table has a state for a
  component's properties, reading that state back gives the component, its delay clamped to
  1 through 4.\<close>

lemma component_round_trip:
  assumes "circuit_table r" "component_state_id r c = Inr i"
  shows "component_of r i = Inr (normal_component c)"
proof -
  let ?ps = "component_properties c"
  have ne: "?ps \<noteq> []"
    by (simp add: component_properties_def lever_properties_def torch_properties_def repeater_properties_def
        comparator_properties_def observer_properties_def split: component_state.split)
  have st: "state_id r (primary_block_name (component_source c)) ?ps = Inr i"
    using assms(2) by (simp add: component_state_id_def)
  obtain qs where q: "block_name r i = Inr (primary_block_name (component_source c))" "properties_of r i = Inr qs"
      "map_of qs = map_of ?ps" "distinct (map fst qs)"
    using table_state [OF assms(1) st ne] by blast
  then have says: "property_true qs k \<longleftrightarrow> map_of ?ps k = Some TRUE_TEXT" for k
    using property_true_map [OF q(4)] q(3) by simp
  have delay: "clamp_repeater_delay d < 2 ^ 32" for d using clamp_bounds(2) [of d] by simp
  show ?thesis
  proof (cases c)
    case (C_Repeater k)
    then have "map_of ?ps (lit ''delay'') = Some (digits_of (repeater_delay k))"
      by (simp add: component_properties_def repeater_properties_def)
    then have "repeater_delay_of qs = repeater_delay k"
      using parse_u32_digits [OF delay, of "rep_delay k"] by (simp add: repeater_delay_of_def q(3) repeater_delay_def)
    then show ?thesis
      using C_Repeater q(1,2) clamp_bounds(3) [of "rep_delay k"]
      by (simp add: component_of_def source_classified says normal_component_def component_source_def
          component_properties_def repeater_properties_def repeater_delay_def lit_def)
  qed (use q(1-3) in \<open>simp_all add: component_of_def source_classified says normal_component_def component_source_def
      component_properties_def lever_properties_def torch_properties_def observer_properties_def
      comparator_properties_def comparator_mode_name_def lit_def split: comparator_mode.split\<close>)
qed

text \<open>
  A comparator beside a block gives it nothing: the inputs it is asked with are none. Its
  output reaches only the solids next to it.
\<close>

lemma comparator_gives_neighbours_nothing:
  assumes "component_of r i = Inr (C_Comparator c)"
  shows "output_effective (emitted_for_id r i NO_INPUTS) = 0"
proof -
  obtain s where s: "classify_block r i = Emitter s"
    using assms by (auto simp: component_of_def split: block_role.splits)
  then have "classify_block r i = Emitter Src_Comparator"
    using assms by (cases s) (auto simp: component_of_def and_then_Inr)
  moreover have "(if k < length (in_faces NO_INPUTS) then output_effective (in_faces NO_INPUTS ! k) else 0) = 0" for k
    by (simp add: NO_INPUTS_def)
  ultimately show ?thesis
    using comparator_level_le [of c 0 0]
    by (simp add: emitted_for_id_def assms Let_def comparator_output_def split: prod.split)
qed

section \<open>Dust at rest\<close>

definition face_term :: "block_registry \<Rightarrow> nat \<times> int option \<Rightarrow> power_level" where
  "face_term r x =
     (case x of (k, o1) \<Rightarrow>
        case plain_face r k o1 of (e, d) \<Rightarrow> if d then power_raw (output_effective e - 1) else output_effective e)"

lemma fold_max: "fold (\<lambda>x b. max b (f x)) xs b = Max (insert (b :: nat) (f ` set xs))"
proof (induction xs arbitrary: b)
  case (Cons x xs)
  have "Max (insert (max b (f x)) (f ` set xs)) = Max (insert b (insert (f x) (f ` set xs)))"
    by (cases "xs = []") (simp_all add: max.assoc)
  then show ?case using Cons by simp
qed simp

lemma receipt_open:
  "wire_receipt (plain_inputs r os) = Max (insert 0 (face_term r ` set (enumerate 0 os)))"
proof -
  have "wire_receipt (plain_inputs r os) = fold (\<lambda>x b. max b (face_term r x)) (enumerate 0 os) 0"
    unfolding wire_receipt_def plain_inputs_def Let_def
    by (simp add: zip_map_map zip_same_conv_map fold_map comp_def split_beta face_term_def WIRE_ATTENUATION_PER_BLOCK_def
        split del: if_split cong del: if_weak_cong)
  then show ?thesis by (simp add: fold_max)
qed

text \<open>
  The levels a source sends along dust: its own to the dust beside it, one less with each
  further block of dust.
\<close>

inductive reached :: "'w block_view \<Rightarrow> block_registry \<Rightarrow> 'w \<Rightarrow> pos \<Rightarrow> power_level \<Rightarrow> bool" for v r w where
  source: "k < 6 \<Longrightarrow> bv_get v w (neighbour_set p ! k) = Some j \<Longrightarrow> classify_block r j = Emitter s \<Longrightarrow>
    l = output_effective (fst (plain_face r k (Some j))) \<Longrightarrow> 0 < l \<Longrightarrow> reached v r w p l"
| dust: "q \<in> set (neighbour_set p) \<Longrightarrow> bv_get v w q = Some j \<Longrightarrow> classify_block r j = Wire s \<Longrightarrow>
    reached v r w q (Suc l) \<Longrightarrow> 0 < l \<Longrightarrow> reached v r w p l"

definition dust_at :: "'w block_view \<Rightarrow> block_registry \<Rightarrow> 'w \<Rightarrow> pos \<Rightarrow> power_level \<Rightarrow> bool" where
  "dust_at v r w p l \<longleftrightarrow> (\<exists>i. bv_get v w p = Some i \<and> classify_block r i = Wire l)"

definition wire_states :: "block_registry \<Rightarrow> bool" where
  "wire_states r \<longleftrightarrow> list_all (\<lambda>l. is_ok (wire_state r l)) [0 ..< 16]"

lemma settled_dust_level:
  assumes "circuit_table r" "wire_states r" "open_view v r w" "settled_at v r w p" "dust_at v r w p s"
  shows "s = Max (insert 0 (face_term r ` set (enumerate 0 (around v w p))))"
proof -
  obtain i where i: "bv_get v w p = Some i" "classify_block r i = Wire s" using assms(5) by (auto simp: dust_at_def)
  let ?inp = "plain_inputs r (around v w p)"
  let ?l = "wire_receipt ?inp"
  have "inputs_ok ?inp" using gather_ok inputs_open [OF assms(3)] by metis
  then have l: "?l \<le> MAX_POWER" by (rule wire_receipt_le)
  have "recompute v r w p i = ok_option (wire_state r ?l)"
    using i(2) by (simp add: recompute_open [OF assms(3)] new_state_def emitted_def)
  moreover have "is_ok (wire_state r ?l)" using assms(2) l by (simp add: wire_states_def list_all_iff MAX_POWER_def)
  then obtain j where j: "wire_state r ?l = Inr j" by (auto simp: is_ok_iff)
  ultimately have "j = i" using assms(4) i(1) by (simp add: settled_at_def ok_option_def)
  then have "s = ?l" using wire_state_reads [OF assms(1) j l] i(2) by simp
  then show ?thesis by (simp add: receipt_open)
qed

lemma neighbour_count [simp]: "length (neighbour_set p) = 6"
  by (simp add: neighbour_set_def)

lemma in_around: "(k, o1) \<in> set (enumerate 0 (around v w p)) \<longleftrightarrow> k < 6 \<and> o1 = bv_get v w (neighbour_set p ! k)"
  by (auto simp: in_set_enumerate_eq around_def)

lemma face_term_cases:
  assumes "open_view v r w" "x \<in> set (enumerate 0 (around v w p))" "0 < face_term r x"
  obtains (source) k j s where "x = (k, Some j)" "k < 6" "bv_get v w (neighbour_set p ! k) = Some j"
      "classify_block r j = Emitter s" "face_term r x = output_effective (fst (plain_face r k (Some j)))"
  | (dust) k l where "k < 6" "dust_at v r w (neighbour_set p ! k) l" "face_term r x = l - 1"
proof -
  obtain k where k: "k < 6" "x = (k, bv_get v w (neighbour_set p ! k))"
    using assms(2) in_around [of "fst x" "snd x" v w p] by (metis prod.collapse)
  obtain j where j: "bv_get v w (neighbour_set p ! k) = Some j"
    using assms(3) k(2) by (cases "bv_get v w (neighbour_set p ! k)") (simp_all add: face_term_def plain_face_def)
  show ?thesis
  proof (cases "classify_block r j")
    case (Wire l)
    have "l \<le> MAX_POWER" using classify_wire_le Wire by blast
    then have "face_term r x = l - 1" using k(2) j Wire by (simp add: face_term_def plain_face_def)
    then show ?thesis using dust [of k l] k(1) j Wire by (simp add: dust_at_def)
  next
    case (Emitter s)
    then have "face_term r x = output_effective (fst (plain_face r k (Some j)))"
      using k(2) j by (simp add: face_term_def plain_face_def)
    then show ?thesis using source [of k j s] k j Emitter by simp
  qed (use assms(3) k(2) j in \<open>simp_all add: face_term_def plain_face_def\<close>)
qed

lemma neighbour_i32: "i32_pos p \<Longrightarrow> q \<in> set (neighbour_set p) \<Longrightarrow> i32_pos q"
  by (auto simp: neighbour_set_def pos_offset_def i32_pos_def i32_sat_add_def)

lemma dust_carries_reached:
  assumes "circuit_table r" "wire_states r" "open_view v r w" "settled_outside v r w {}"
    "reached v r w p l" "i32_pos p" "dust_at v r w p s"
  shows "l \<le> s"
  using assms(5-)
proof (induction arbitrary: s)
  case (source k p j src l)
  have "settled_at v r w p" using assms(4) source.prems(1) by (simp add: settled_outside_def)
  note s = settled_dust_level [OF assms(1-3) this source.prems(2)]
  have "(k, Some j) \<in> set (enumerate 0 (around v w p))"
    using source.hyps(1,2) by (simp add: in_around)
  then have "face_term r (k, Some j) \<le> s" unfolding s by (intro Max_ge) auto
  moreover have "face_term r (k, Some j) = l" using source.hyps(3,4) by (simp add: face_term_def plain_face_def)
  ultimately show ?case by simp
next
  case (dust q p j sq l)
  have "settled_at v r w p" using assms(4) dust.prems(1) by (simp add: settled_outside_def)
  note s = settled_dust_level [OF assms(1-3) this dust.prems(2)]
  have q: "i32_pos q" using neighbour_i32 dust.prems(1) dust.hyps(1) by blast
  have "dust_at v r w q sq" using dust.hyps(2,3) by (auto simp: dust_at_def)
  then have le: "Suc l \<le> sq" using dust.IH q by blast
  obtain k where k: "k < 6" "neighbour_set p ! k = q" using dust.hyps(1) by (auto simp: in_set_conv_nth)
  have "(k, Some j) \<in> set (enumerate 0 (around v w p))"
    using k dust.hyps(2) by (simp add: in_around)
  then have "face_term r (k, Some j) \<le> s" unfolding s by (intro Max_ge) auto
  moreover have "face_term r (k, Some j) = sq - 1"
    using dust.hyps(3) classify_wire_le [OF dust.hyps(3)] by (simp add: face_term_def plain_face_def)
  ultimately show ?case using le by simp
qed

lemma dust_is_reached:
  assumes "circuit_table r" "wire_states r" "open_view v r w" "settled_outside v r w {}"
    "i32_pos p" "dust_at v r w p s" "0 < s"
  shows "reached v r w p s"
  using assms(5-)
proof (induction "MAX_POWER - s" arbitrary: p s rule: less_induct)
  case less
  have "settled_at v r w p" using assms(4) less.prems(1) by (simp add: settled_outside_def)
  note s = settled_dust_level [OF assms(1-3) this less.prems(2)]
  have "s \<in> insert 0 (face_term r ` set (enumerate 0 (around v w p)))" unfolding s by (rule Max_in) auto
  then obtain x where x: "x \<in> set (enumerate 0 (around v w p))" "face_term r x = s" using less.prems(3) by auto
  have "0 < face_term r x" using x(2) less.prems(3) by simp
  show ?case
  proof (cases rule: face_term_cases [OF assms(3) x(1) \<open>0 < face_term r x\<close>])
    case (1 k j src)
    then show ?thesis using x(2) less.prems(3) by (auto intro: reached.source)
  next
    case dust: (2 k l)
    have q: "neighbour_set p ! k \<in> set (neighbour_set p)" using dust(1) by simp
    have l: "l = Suc s" using dust(3) x(2) less.prems(3) by simp
    obtain j where j: "bv_get v w (neighbour_set p ! k) = Some j" "classify_block r j = Wire l"
      using dust(2) by (auto simp: dust_at_def)
    have "l \<le> MAX_POWER" using classify_wire_le j(2) by blast
    then have "reached v r w (neighbour_set p ! k) l"
      using less.hyps [of l "neighbour_set p ! k"] neighbour_i32 [OF less.prems(1) q] dust(2) l by simp
    then show ?thesis using reached.dust [OF q j] less.prems(3) l by simp
  qed
qed

section \<open>A circuit to look at\<close>

lemma entries_circuit_table:
  assumes entries: "\<And>n e. map_of (blocks_by_name r) n = Some e \<Longrightarrow> entry_ok e \<and> default_state_id e = first_state_id e \<and>
      0 \<le> first_state_id e \<and> (\<forall>k < nat (entry_states e). block_name r (first_state_id e + int k) = Inr n)"
    and "classify_block r 0 = Passive"
  shows "circuit_table r"
  unfolding circuit_table_def
proof (intro conjI allI impI)
  fix n ps i assume st: "state_id r n ps = Inr i \<and> ps \<noteq> []"
  then obtain e k where e: "map_of (blocks_by_name r) n = Some e" "index_of e ps = Some k" "i = first_state_id e + int k"
    by (auto simp: state_id_def split: option.splits)
  note ok = entries [OF e(1)]
  obtain qs where q: "k < nat (entry_states e)" "entry_properties e k = Some qs" "map_of qs = map_of ps"
    using properties_of_index [OF _ e(2)] ok by blast
  have "block_name r i = Inr n" using ok q(1) e(3) by blast
  moreover have "properties_of r i = Inr qs"
    using q(2) e ok \<open>block_name r i = Inr n\<close> by (simp add: properties_of_def)
  ultimately show "block_name r i = Inr n" "\<exists>qs. properties_of r i = Inr qs \<and> map_of qs = map_of ps" using q(3) by auto
next
  fix i n qs assume p: "properties_of r i = Inr qs \<and> block_name r i = Inr n"
  then obtain e where e: "map_of (blocks_by_name r) n = Some e" "first_state_id e \<le> i"
      "entry_properties e (nat (i - first_state_id e)) = Some qs"
    by (auto elim!: properties_of_Inr)
  note ok = entries [OF e(1)]
  have "index_of e qs = Some (nat (i - first_state_id e))" using index_of_properties [OF _ e(3)] ok by blast
  moreover have "i = first_state_id e" if "qs = []"
  proof -
    have "axes e = []" using entry_properties_map(2) [OF _ e(3)] ok that by auto
    then have "index_of e qs = Some 0" using that by (simp add: index_of_def)
    then show ?thesis using calculation e(2) by simp
  qed
  ultimately show "state_id r n qs = Inr i" using e ok by (auto simp: state_id_def)
next
  fix i qs assume "properties_of r i = Inr qs"
  then obtain n e where e: "map_of (blocks_by_name r) n = Some e" "entry_properties e (nat (i - first_state_id e)) = Some qs"
    by (rule properties_of_Inr)
  have "entry_ok e" using entries [OF e(1)] by blast
  then have "distinct (map fst (property_digits (rev (axes e)) k))" for k
    by (simp add: entry_ok_def axes_ok_def rev_map [symmetric])
  moreover have "mset (map fst qs) = mset (map fst (property_digits (rev (axes e)) (nat (i - first_state_id e))))"
    using entry_properties_mset [OF e(2)] by (metis mset_map)
  ultimately show "distinct (map fst qs)" by (metis mset_eq_imp_distinct_iff)
qed (rule assms(2))

text \<open>Air, dust, the redstone block and the torch, with the axes their rows have.\<close>

definition dust_registry :: block_registry where
  "dust_registry =
     \<lparr>blocks_by_name =
        [(AIR, \<lparr>first_state_id = 0, default_state_id = 0, entry_states = 1, axes = []\<rparr>),
         (REDSTONE_WIRE, \<lparr>first_state_id = 1, default_state_id = 1, entry_states = 16,
            axes = [(lit ''east'', [lit ''side'']), (lit ''north'', [lit ''side'']), (lit ''power'', map digits_of [0 ..< 16]),
                    (lit ''south'', [lit ''side'']), (lit ''west'', [lit ''side''])]\<rparr>),
         (REDSTONE_BLOCK, \<lparr>first_state_id = 17, default_state_id = 17, entry_states = 1, axes = []\<rparr>),
         (REDSTONE_TORCH, \<lparr>first_state_id = 18, default_state_id = 18, entry_states = 2,
            axes = [(lit ''lit'', [lit ''true'', lit ''false''])]\<rparr>)],
      blocks_by_id =
        (AIR, 0) # map (\<lambda>i. (REDSTONE_WIRE, i)) [1 .. 16] @
        [(REDSTONE_BLOCK, 17), (REDSTONE_TORCH, 18), (REDSTONE_TORCH, 19)],
      air_id = 0, empty_ids = [0], mineable = [], refused = [], shapes = []\<rparr>"

lemma dust_wire_states: "wire_states dust_registry"
  by code_simp


text \<open>A block of redstone and two blocks of dust in a row.\<close>

definition dust_row :: flat_world where
  "dust_row = \<lparr>fw_min = Pos 0 0 0, fw_size = (3, 1, 1), fw_states = [17, 16, 15]\<rparr>"

lemma dust_row_get: "flat_get dust_row (Pos x y z) = (if y = 0 \<and> z = 0 then (if x = 0 then Some 17 else if x = 1 then Some 16 else if x = 2 then Some 15 else None) else None)"
  by (auto simp: flat_get_def flat_index_def dust_row_def axis_index_def sat_add_def sat_mul_def u64_max_def
      nth_Cons' split: if_splits)

lemma dust_roles: "classify_block dust_registry 0 = Passive" "classify_block dust_registry 17 = Emitter Src_Block"
  "classify_block dust_registry 16 = Wire 15" "classify_block dust_registry 15 = Wire 14"
  by code_simp+

lemma dust_receipts:
  "wire_receipt (plain_inputs dust_registry [None, None, None, None, Some 17, Some 15]) = 15"
  "wire_receipt (plain_inputs dust_registry [None, None, None, None, Some 16, None]) = 14"
  "wire_state dust_registry 15 = Inr 16" "wire_state dust_registry 14 = Inr 15"
  by code_simp+

lemma dust_row_around:
  "around flat_view dust_row (Pos 1 0 0) = [None, None, None, None, Some 17, Some 15]"
  "around flat_view dust_row (Pos 2 0 0) = [None, None, None, None, Some 16, None]"
  by (simp_all add: around_def neighbour_set_def pos_offset_def i32_sat_add_def flat_view_def dust_row_get)

lemma dust_row_open: "open_view flat_view dust_registry dust_row"
proof -
  have "\<not> is_conductive dust_registry i" if "i \<in> {15, 16, 17}" for i
    using that by (auto simp: is_conductive_def dust_roles)
  then show ?thesis
    unfolding open_view_def flat_view_def
    by (metis (no_types, lifting) block_view.select_convs(1) dust_row_get insert_iff option.distinct(1) option.inject pos.exhaust)
qed

lemma dust_row_settled: "settled_outside flat_view dust_registry dust_row {}"
proof -
  have "settled_at flat_view dust_registry dust_row (Pos x y z)" for x y z
    unfolding settled_at_def recompute_open [OF dust_row_open]
    by (auto simp: flat_view_def [THEN arg_cong, of bv_get] dust_row_get dust_roles dust_row_around new_state_def emitted_def dust_receipts
        ok_option_def)
  then show ?thesis unfolding settled_outside_def by (metis pos.exhaust)
qed

lemma dust_entries:
  "list_all (\<lambda>(n, e). entry_ok e \<and> default_state_id e = first_state_id e \<and> 0 \<le> first_state_id e \<and>
      list_all (\<lambda>k. block_name dust_registry (first_state_id e + int k) = Inr n) [0 ..< nat (entry_states e)])
     (blocks_by_name dust_registry)"
  by code_simp

lemma dust_registry_table: "circuit_table dust_registry"
proof (rule entries_circuit_table)
  fix n e assume "map_of (blocks_by_name dust_registry) n = Some e"
  then have "(n, e) \<in> set (blocks_by_name dust_registry)" by (rule map_of_SomeD)
  then show "entry_ok e \<and> default_state_id e = first_state_id e \<and> 0 \<le> first_state_id e \<and>
      (\<forall>k < nat (entry_states e). block_name dust_registry (first_state_id e + int k) = Inr n)"
    using dust_entries unfolding list_all_iff by fastforce
qed (rule dust_roles)

section \<open>The properties\<close>

text \<open>C32. Dust at rest carries the level of its nearest source: in a world none of whose loaded
  blocks is a conductive solid and every block of which has the state it should have, the level stored in a block of dust
  bounds every level that reaches it (a source's level, one less with each further block of
  dust), and is itself such a level unless it is 0.\<close>

theorem settled_dust_carries_its_sources:
  assumes "circuit_table r" "wire_states r" "open_view v r w" "settled_outside v r w {}"
    "i32_pos p" "dust_at v r w p s"
  shows "(\<forall>l. reached v r w p l \<longrightarrow> l \<le> s) \<and> (0 < s \<longrightarrow> reached v r w p s)"
  using dust_carries_reached [OF assms(1-4) _ assms(5,6)] dust_is_reached [OF assms] by blast

theorem settled_dust_carries_its_sources_witness:
  "dust_at flat_view dust_registry dust_row (Pos 2 0 0) 14 \<and> reached flat_view dust_registry dust_row (Pos 2 0 0) 14 \<and>
   \<not> reached flat_view dust_registry dust_row (Pos 2 0 0) 15"
proof -
  have d: "dust_at flat_view dust_registry dust_row (Pos 2 0 0) 14"
    unfolding dust_at_def flat_view_def by (simp add: dust_row_get dust_roles)
  have "i32_pos (Pos 2 0 0)" by (simp add: i32_pos_def)
  from settled_dust_carries_its_sources [OF dust_registry_table dust_wire_states dust_row_open dust_row_settled this d]
  show ?thesis using d by fastforce
qed

text \<open>C33. A call of \<open>propagate\<close> on the game's world reports exactly what it did: replaying the
  reported changes on the blocks it started from gives the blocks it left, each change found
  the state it says it replaced and put another there, the counts agree with the list, the
  updates processed stay within the budget, and it says the budget ran out just when it did
  with positions still queued.\<close>

theorem propagation_reports_its_writes:
  assumes "world_ok w" "propagate world_view w q r budget = (rep, w', q')"
  shows "world_ok w' \<and> world_get_state w' = replay (pr_changes rep) (world_get_state w) \<and>
    replays (pr_changes rep) (world_get_state w) \<and>
    pr_changed rep = length (pr_changes rep) \<and> pr_changed rep \<le> pr_processed rep \<and>
    pr_processed rep \<le> ub_neighbour budget \<and>
    (pr_exhausted rep \<longleftrightarrow> next_pending q' \<noteq> None \<and> pr_processed rep = ub_neighbour budget)"
  using loaded.propagate_report [OF assms] by (simp add: world_view_def)


section \<open>A world with dust\<close>

text \<open>A chunk of air with one block of unpowered dust.\<close>

lemma dust_world:
  "\<exists>w. world_ok w \<and> (\<forall>q i. world_get_state w q = Some i \<longrightarrow> i = (if q = Pos 0 64 0 then 1 else 0)) \<and>
     world_get_state w (Pos 0 64 0) = Some 1"
proof -
  let ?r = dust_registry
  let ?w0 = "new_world Overworld ?r"
  let ?c = "chunk_air (ChunkPos 0 0) OVERWORLD_MIN_SECTION_Y OVERWORLD_SECTION_COUNT ?r"
  have [simp]: "air_id ?r = 0" "is_empty_block ?r 0" by (simp_all add: dust_registry_def is_empty_block_def)
  obtain c w where e: "ensure_chunk ?w0 (ChunkPos 0 0) = (c, w)" by fastforce
  have c: "c = ?c" using e by (auto simp: ensure_chunk_def new_world_def world_with_height_def Let_def)
  have ok0: "world_ok ?w0" by (simp add: world_ok_def new_world_def world_with_height_def)
  note law = ensure_chunk_law [OF ok0 e]
  have ok: "world_ok w" and m: "map_of (w_chunks w) = [ChunkPos 0 0 \<mapsto> c]" using law
    by (auto simp: new_world_def world_with_height_def)
  have air: "world_get_state w q = Some i \<Longrightarrow> i = 0" for q i
    using air_chunk_reads [of ?r] by (auto simp: world_get_state_def get_block_loaded_def m c split: if_splits)
  have here: "get_block_loaded w 0 64 0 = Some 0"
    using air_chunk_reads [of ?r] by (simp add: get_block_loaded_def block_chunk_def m c)
  have "section_index_for ?c 64 \<noteq> None"
    by (simp add: section_index_for_def chunk_air_def Let_def OVERWORLD_MIN_SECTION_Y_def OVERWORLD_SECTION_COUNT_def SECTION_HEIGHT_def)
  then obtain w' where w': "write_block w (Pos 0 64 0) 1 = (True, w')"
    using write_in_range [OF ok here, of 1 c] m by (auto simp: block_chunk_def c)
  have "get_block_loaded w (px (Pos 0 64 0)) (py (Pos 0 64 0)) (pz (Pos 0 64 0)) = Some 0" using here by simp
  note written = write_block_law [OF ok this _ w']
  have "world_get_state w' q = (if q = Pos 0 64 0 then Some 1 else world_get_state w q)" for q
    using written by (simp add: world_get_state_def)
  then show ?thesis using written air by (intro exI [of _ w']) auto
qed

lemma unpowered_dust: "wire_state dust_registry 0 = Inr 1" "classify_block dust_registry 1 = Wire 0"
  by code_simp+

lemma dust_world_settled:
  assumes "\<forall>q i. world_get_state w q = Some i \<longrightarrow> i = (if q = Pos 0 64 0 then 1 else 0)"
  shows "open_view world_view dust_registry w" "settled_at world_view dust_registry w p"
proof -
  have "is_empty_block dust_registry 0" by (simp add: is_empty_block_def dust_registry_def)
  then have "\<not> is_conductive dust_registry 0" "\<not> is_conductive dust_registry 1"
    by (simp_all add: is_conductive_def unpowered_dust is_solid_or_unknown_def is_solid_def)
  then show op: "open_view world_view dust_registry w"
    using assms by (auto simp: open_view_def world_view_def split: if_splits)
  have "face_term dust_registry x = 0" if "x \<in> set (enumerate 0 (around world_view w (Pos 0 64 0)))" for x
  proof -
    have get: "bv_get world_view = world_get_state" by (simp add: world_view_def)
    obtain k o1 where x: "x = (k, o1)" by (rule prod.exhaust)
    then have k: "k < 6" "x = (k, world_get_state w (neighbour_set (Pos 0 64 0) ! k))"
      using that unfolding x in_around get by simp_all
    have "Pos 0 64 0 \<notin> set (neighbour_set (Pos 0 64 0))" by (simp add: neighbour_set_def pos_offset_def i32_sat_add_def)
    then have "neighbour_set (Pos 0 64 0) ! k \<noteq> Pos 0 64 0" using k(1) neighbour_count nth_mem by metis
    then have "world_get_state w (neighbour_set (Pos 0 64 0) ! k) \<in> {None, Some 0}"
      using assms [rule_format, of "neighbour_set (Pos 0 64 0) ! k"] by (metis insert_iff not_None_eq)
    then show ?thesis using k(2) by (auto simp: face_term_def plain_face_def dust_roles)
  qed
  then have "wire_receipt (plain_inputs dust_registry (around world_view w (Pos 0 64 0))) = 0"
    unfolding receipt_open by (simp add: image_constant_conv)
  then have "recompute world_view dust_registry w (Pos 0 64 0) 1 = Some 1"
    by (simp add: recompute_open [OF op] unpowered_dust new_state_def emitted_def ok_option_def)
  moreover have "recompute world_view dust_registry w p 0 = Some 0"
    by (simp add: recompute_open [OF op] dust_roles new_state_def)
  moreover have "bv_get world_view w p = Some i \<Longrightarrow> i = (if p = Pos 0 64 0 then 1 else 0)" for i
    using assms by (simp add: world_view_def)
  ultimately show "settled_at world_view dust_registry w p"
    by (auto simp: settled_at_def split: option.split)
qed


theorem propagation_reports_its_writes_witness:
  "\<exists>w rep w' q'. world_get_state w (Pos 0 64 0) = Some 1 \<and>
     propagate world_view w (new_update_queue\<lparr>uq_current := [Pos 0 64 0]\<rparr>) dust_registry nominal_update_budget = (rep, w', q') \<and>
     world_get_state w' = replay (pr_changes rep) (world_get_state w) \<and> pr_processed rep \<le> 1024"
proof -
  obtain w where w: "world_ok w" "world_get_state w (Pos 0 64 0) = Some 1" using dust_world by blast
  obtain rep w' q' where run: "propagate world_view w (new_update_queue\<lparr>uq_current := [Pos 0 64 0]\<rparr>) dust_registry
      nominal_update_budget = (rep, w', q')" using prod_cases3 by blast
  from propagation_reports_its_writes [OF w(1) run] show ?thesis
    using run w(2) by (auto simp: nominal_update_budget_def MAX_UPDATES_PER_TICK_def)
qed

lemma component_round_trip_witness:
  "component_state_id dust_registry (C_Torch \<lparr>torch_lit = False\<rparr>) = Inr 19 \<and>
   component_of dust_registry 19 = Inr (C_Torch \<lparr>torch_lit = False\<rparr>)"
proof -
  have "component_state_id dust_registry (C_Torch \<lparr>torch_lit = False\<rparr>) = Inr 19" by code_simp
  from component_round_trip [OF dust_registry_table this] show ?thesis
    using \<open>component_state_id dust_registry (C_Torch \<lparr>torch_lit = False\<rparr>) = Inr 19\<close> by (simp add: normal_component_def)
qed

end
