(* ===== verification/Crafting.thy ===== *)
theory Crafting
  imports StackSizes
begin

text \<open>
  \<open>crates/container/src/crafting.rs\<close>: ingredients, shaped and shapeless recipes, the search for
  the first recipe that matches a grid, and crafting, which consumes one item of each matched
  slot. An index outside a slice would panic; the bounds that rule it out are lemmas.
\<close>

definition MAX_GRID_WIDTH :: nat where "MAX_GRID_WIDTH = 3"
definition MAX_GRID_SLOTS :: nat where "MAX_GRID_SLOTS = MAX_GRID_WIDTH * MAX_GRID_WIDTH"
definition MAX_ALTERNATIVES_PER_KEY :: nat where "MAX_ALTERNATIVES_PER_KEY = 64"

lemmas grid_consts = MAX_GRID_WIDTH_def MAX_GRID_SLOTS_def

section \<open>Ingredients and patterns\<close>

type_synonym ingredient = "int list"

definition ingredient_item :: "int \<Rightarrow> ingredient" where
  "ingredient_item i = [i]"

text \<open>\<open>sort_unstable\<close> and \<open>dedup\<close>.\<close>

definition any_of :: "int list \<Rightarrow> ingredient server_result" where
  "any_of ids =
     (if ids = [] then Inl Invariant
      else if MAX_ALTERNATIVES_PER_KEY < length ids then Inl Invariant
      else Inr (remdups_adj (sort ids)))"

definition ingredient_accepts :: "ingredient \<Rightarrow> int \<Rightarrow> bool" where
  "ingredient_accepts g i \<longleftrightarrow> binary_search_by (\<lambda>e. int_cmp e i) g \<noteq> None"

record shaped_pattern =
  pat_width :: nat
  pat_height :: nat
  pat_cells :: "ingredient option list"

fun trim_width :: "ingredient option list list \<Rightarrow> nat \<Rightarrow> nat" where
  "trim_width rows 0 = 0"
| "trim_width rows (Suc w) = (if list_all (\<lambda>row. row ! w = None) rows then trim_width rows w else Suc w)"

fun trim_height :: "ingredient option list list \<Rightarrow> nat \<Rightarrow> nat" where
  "trim_height rows 0 = 0"
| "trim_height rows (Suc h) = (if list_all (\<lambda>c. c = None) (rows ! h) then trim_height rows h else Suc h)"

definition pattern_from_rows :: "ingredient option list list \<Rightarrow> shaped_pattern server_result" where
  "pattern_from_rows rows =
     (if rows = [] then Inl Invariant
      else
        let raw_width = length (rows ! 0); raw_height = length rows
        in if \<not> list_all (\<lambda>row. length row = raw_width) rows then Inl Invariant
           else if raw_width = 0 then Inl Invariant
           else if MAX_GRID_WIDTH < raw_width \<or> MAX_GRID_WIDTH < raw_height then Inl Invariant
           else
             let width = trim_width rows raw_width; height = trim_height rows raw_height
             in if width = 0 \<or> height = 0 then Inl Invariant
                else Inr \<lparr>pat_width = width, pat_height = height,
                          pat_cells = concat (map (take width) (take height rows))\<rparr>)"

definition pattern_at :: "shaped_pattern \<Rightarrow> nat \<Rightarrow> nat \<Rightarrow> ingredient option" where
  "pattern_at p x y = (if pat_width p \<le> x \<or> pat_height p \<le> y then None else pat_cells p ! (y * pat_width p + x))"

definition mirror :: "shaped_pattern \<Rightarrow> ingredient option list" where
  "mirror p =
     concat (map (\<lambda>y. map (\<lambda>x. pat_cells p ! (y * pat_width p + (pat_width p - 1 - x))) [0 ..< pat_width p])
       [0 ..< pat_height p])"

section \<open>Recipes\<close>

record shaped_recipe =
  sr_name :: rstring
  sr_pattern :: shaped_pattern
  sr_mirrored :: "ingredient option list"
  sr_result :: int
  sr_count :: int

definition new_shaped :: "rstring \<Rightarrow> shaped_pattern \<Rightarrow> int \<Rightarrow> int \<Rightarrow> shaped_recipe server_result" where
  "new_shaped name p res n =
     (if name = [] then Inl Invariant
      else if \<not> (1 \<le> n \<and> n \<le> HARD_MAX_STACK_SIZE) then Inl Invariant
      else if pat_width p = 0 \<or> pat_height p = 0 then Inl Invariant
      else Inr \<lparr>sr_name = name, sr_pattern = p, sr_mirrored = mirror p, sr_result = res, sr_count = n\<rparr>)"

record shapeless_recipe =
  sl_name :: rstring
  sl_ingredients :: "ingredient list"
  sl_result :: int
  sl_count :: int

definition new_shapeless :: "rstring \<Rightarrow> ingredient list \<Rightarrow> int \<Rightarrow> int \<Rightarrow> shapeless_recipe server_result" where
  "new_shapeless name ings res n =
     (if name = [] then Inl Invariant
      else if ings = [] then Inl Invariant
      else if MAX_GRID_SLOTS < length ings then Inl Invariant
      else if \<not> (1 \<le> n \<and> n \<le> HARD_MAX_STACK_SIZE) then Inl Invariant
      else Inr \<lparr>sl_name = name, sl_ingredients = ings, sl_result = res, sl_count = n\<rparr>)"

datatype recipe = Shaped shaped_recipe | Shapeless shapeless_recipe

definition recipe_name :: "recipe \<Rightarrow> rstring" where
  "recipe_name r = (case r of Shaped s \<Rightarrow> sr_name s | Shapeless s \<Rightarrow> sl_name s)"

definition recipe_result :: "recipe \<Rightarrow> int" where
  "recipe_result r = (case r of Shaped s \<Rightarrow> sr_result s | Shapeless s \<Rightarrow> sl_result s)"

definition recipe_count :: "recipe \<Rightarrow> int" where
  "recipe_count r = (case r of Shaped s \<Rightarrow> sr_count s | Shapeless s \<Rightarrow> sl_count s)"

definition recipe_ingredient_count :: "recipe \<Rightarrow> nat" where
  "recipe_ingredient_count r =
     (case r of Shaped s \<Rightarrow> length (filter (\<lambda>c. c \<noteq> None) (pat_cells (sr_pattern s)))
      | Shapeless s \<Rightarrow> length (sl_ingredients s))"

section \<open>Matching\<close>

definition grid_get :: "item_stack list \<Rightarrow> nat \<Rightarrow> item_stack option" where
  "grid_get grid k = (if k < length grid then Some (grid ! k) else None)"

text \<open>One cell of the pattern against the stack under it.\<close>

definition cell_matches :: "ingredient option \<Rightarrow> item_stack option \<Rightarrow> bool" where
  "cell_matches cell stack =
     (case cell of
        Some g \<Rightarrow>
          (case stack of
             None \<Rightarrow> False
           | Some s \<Rightarrow> (case stack_item_id s of None \<Rightarrow> False | Some i \<Rightarrow> ingredient_accepts g i))
      | None \<Rightarrow> (case stack of None \<Rightarrow> True | Some s \<Rightarrow> stack_is_empty s))"

definition matches_at ::
  "item_stack list \<Rightarrow> nat \<Rightarrow> nat \<Rightarrow> nat \<Rightarrow> nat \<Rightarrow> ingredient option list \<Rightarrow> bool"
where
  "matches_at grid width off sw sh cells \<longleftrightarrow>
     list_all (\<lambda>y. list_all (\<lambda>x. cell_matches (cells ! (y * sw + x)) (grid_get grid (off + y * width + x)))
       [0 ..< sw]) [0 ..< sh] \<and>
     (let edge = max width sh; left = off mod width; top = off div width
      in list_all (\<lambda>y. list_all (\<lambda>x.
           (top \<le> y \<and> y < top + sh \<and> left \<le> x \<and> x < left + sw) \<or>
           (case grid_get grid (y * width + x) of None \<Rightarrow> True | Some s \<Rightarrow> stack_is_empty s))
         [0 ..< edge]) [0 ..< edge])"

definition no_slots :: "bool list" where
  "no_slots = replicate MAX_GRID_SLOTS False"

definition considered_cells :: "nat \<Rightarrow> nat \<Rightarrow> nat \<Rightarrow> nat \<Rightarrow> ingredient option list \<Rightarrow> bool list" where
  "considered_cells width off sw sh cells =
     fold (\<lambda>(y, x) taken. if cells ! (y * sw + x) \<noteq> None then taken[off + y * width + x := True] else taken)
       (List.product [0 ..< sh] [0 ..< sw]) no_slots"

definition matched_cells ::
  "item_stack list \<Rightarrow> nat \<Rightarrow> nat \<Rightarrow> nat \<Rightarrow> nat \<Rightarrow> ingredient option list \<Rightarrow> bool list option"
where
  "matched_cells grid width off sw sh cells =
     (if matches_at grid width off sw sh cells then Some (considered_cells width off sw sh cells) else None)"

text \<open>The first result of a search over the items of a list.\<close>

fun first_some :: "('a \<Rightarrow> 'b option) \<Rightarrow> 'a list \<Rightarrow> 'b option" where
  "first_some f [] = None"
| "first_some f (x # xs) = (case f x of Some y \<Rightarrow> Some y | None \<Rightarrow> first_some f xs)"

definition shaped_find_at :: "shaped_recipe \<Rightarrow> item_stack list \<Rightarrow> nat \<Rightarrow> (nat \<times> bool \<times> bool list) option" where
  "shaped_find_at s grid width =
     (let height = length grid div width;
          sw = pat_width (sr_pattern s); sh = pat_height (sr_pattern s)
      in if width < sw \<or> height < sh then None
         else first_some (\<lambda>(y, x).
                let off = y * width + x
                in case matched_cells grid width off sw sh (pat_cells (sr_pattern s)) of
                     Some cells \<Rightarrow> Some (off, False, cells)
                   | None \<Rightarrow> map_option (\<lambda>cells. (off, True, cells)) (matched_cells grid width off sw sh (sr_mirrored s)))
              (List.product [0 ..< Suc (height - sh)] [0 ..< Suc (width - sw)]))"

text \<open>\<open>match_cells\<close> walks the slots; each occupied one takes the first ingredient left that accepts it.\<close>

definition open_slot :: "ingredient list \<Rightarrow> bool list \<Rightarrow> int \<Rightarrow> nat option" where
  "open_slot ings satisfied i = find (\<lambda>k. \<not> satisfied ! k \<and> ingredient_accepts (ings ! k) i) [0 ..< length ings]"

fun match_slots ::
  "ingredient list \<Rightarrow> (nat \<times> item_stack) list \<Rightarrow> bool list \<Rightarrow> bool list \<Rightarrow> nat \<Rightarrow> (bool list \<times> nat) option"
where
  "match_slots ings [] satisfied considered n = Some (considered, n)"
| "match_slots ings ((index, s) # rest) satisfied considered n =
     (case stack_item_id s of
        None \<Rightarrow> match_slots ings rest satisfied considered n
      | Some i \<Rightarrow>
          (case open_slot ings satisfied i of
             None \<Rightarrow> None
           | Some slot \<Rightarrow> match_slots ings rest (satisfied[slot := True]) (considered[index := True]) (n + 1)))"

definition match_cells :: "shapeless_recipe \<Rightarrow> item_stack list \<Rightarrow> bool list option" where
  "match_cells s grid =
     (case match_slots (sl_ingredients s) (take MAX_GRID_SLOTS (enumerate 0 grid))
             (replicate (length (sl_ingredients s)) False) no_slots 0 of
        None \<Rightarrow> None
      | Some (considered, n) \<Rightarrow> if n = length (sl_ingredients s) then Some considered else None)"

record recipe_match =
  rm_recipe :: recipe
  rm_offset :: nat
  rm_mirrored :: bool
  rm_consumed :: "bool list"

definition match_consumes :: "recipe_match \<Rightarrow> nat \<Rightarrow> bool" where
  "match_consumes m k \<longleftrightarrow> k < length (rm_consumed m) \<and> rm_consumed m ! k"

definition consumed_slots :: "recipe_match \<Rightarrow> nat list" where
  "consumed_slots m = filter (match_consumes m) [0 ..< MAX_GRID_SLOTS]"

definition grid_shape :: "item_stack list \<Rightarrow> nat \<Rightarrow> (nat \<times> nat) option" where
  "grid_shape grid width =
     (if width = 0 \<or> MAX_GRID_WIDTH < width \<or> MAX_GRID_SLOTS < length grid then None
      else if \<not> width dvd length grid then None
      else
        let height = length grid div width
        in if height = 0 \<or> MAX_GRID_WIDTH < height then None else Some (width, height))"

text \<open>The registry is its recipes in the order they are tried.\<close>

type_synonym recipe_registry = "recipe list"

definition new_recipes :: "recipe list \<Rightarrow> recipe_registry server_result" where
  "new_recipes rs =
     (if list_ex (\<lambda>k. list_ex (\<lambda>e. recipe_name e = recipe_name (rs ! k)) (take k rs)) [0 ..< length rs]
      then Inl Invariant else Inr rs)"

definition recipe_by_name :: "recipe_registry \<Rightarrow> rstring \<Rightarrow> recipe option" where
  "recipe_by_name rs name = find (\<lambda>r. recipe_name r = name) rs"

definition recipe_names :: "recipe_registry \<Rightarrow> rstring list" where
  "recipe_names rs = map recipe_name rs"

definition try_recipe :: "item_stack list \<Rightarrow> nat \<Rightarrow> recipe \<Rightarrow> recipe_match option" where
  "try_recipe grid width r =
     (case r of
        Shaped s \<Rightarrow>
          map_option (\<lambda>(off, mirrored, consumed).
              \<lparr>rm_recipe = r, rm_offset = off, rm_mirrored = mirrored, rm_consumed = consumed\<rparr>)
            (shaped_find_at s grid width)
      | Shapeless s \<Rightarrow>
          map_option (\<lambda>consumed. \<lparr>rm_recipe = r, rm_offset = 0, rm_mirrored = False, rm_consumed = consumed\<rparr>)
            (match_cells s grid))"

definition find_match :: "recipe_registry \<Rightarrow> item_stack list \<Rightarrow> nat \<Rightarrow> recipe_match option" where
  "find_match rs grid width =
     (case grid_shape grid width of
        None \<Rightarrow> None
      | Some (w, h) \<Rightarrow> if list_all stack_is_empty grid then None else first_some (try_recipe grid w) rs)"

definition check_ids :: "item_registry \<Rightarrow> recipe \<Rightarrow> bool server_result" where
  "check_ids items r = (case registry_entry items (recipe_result r) of Inl _ \<Rightarrow> Inl CorruptData | Inr _ \<Rightarrow> Inr True)"

definition matches_grid :: "recipe_registry \<Rightarrow> item_stack list \<Rightarrow> nat \<Rightarrow> bool" where
  "matches_grid rs grid width \<longleftrightarrow> find_match rs grid width \<noteq> None"

definition matches_with :: "recipe_registry \<Rightarrow> item_stack list \<Rightarrow> nat \<Rightarrow> item_registry \<Rightarrow> bool server_result" where
  "matches_with rs grid width items =
     (case find_match rs grid width of None \<Rightarrow> Inr False | Some m \<Rightarrow> check_ids items (rm_recipe m))"

section \<open>Crafting\<close>

text \<open>One slot of \<open>consume\<close>.\<close>

definition consume_slot :: "item_stack \<Rightarrow> item_stack" where
  "consume_slot s = (let s = snd (shrink s 1) in if stack_count s = 0 then EMPTY else s)"

definition consume_grid :: "item_stack list \<Rightarrow> bool list \<Rightarrow> item_stack list" where
  "consume_grid grid consumed =
     fold (\<lambda>(index, taken) g. if taken \<and> index < length g then g[index := consume_slot (g ! index)] else g)
       (enumerate 0 consumed) grid"

definition craft ::
  "recipe_registry \<Rightarrow> item_stack list \<Rightarrow> nat \<Rightarrow> item_registry \<Rightarrow> item_stack option server_result \<times> item_stack list"
where
  "craft rs grid width items =
     (case find_match rs grid width of
        None \<Rightarrow> (Inr None, grid)
      | Some m \<Rightarrow>
          (case check_ids items (rm_recipe m) of
             Inl e \<Rightarrow> (Inl e, grid)
           | Inr _ \<Rightarrow>
               let grid = consume_grid grid (rm_consumed m)
               in case new_stack (recipe_result (rm_recipe m)) (recipe_count (rm_recipe m)) of
                    Inl e \<Rightarrow> (Inl e, grid)
                  | Inr s \<Rightarrow> (Inr (Some s), grid)))"

definition recompute_result ::
  "recipe_registry \<Rightarrow> item_stack list \<Rightarrow> nat \<Rightarrow> item_registry \<Rightarrow> stack_size_table \<Rightarrow> item_stack server_result"
where
  "recompute_result rs grid width items sizes =
     (case find_match rs grid width of
        None \<Rightarrow> Inr EMPTY
      | Some m \<Rightarrow>
          and_then (check_ids items (rm_recipe m)) (\<lambda>_.
            let res = recipe_result (rm_recipe m);
                n = max (min (recipe_count (rm_recipe m)) (max_stack_size sizes res)) 0
            in new_stack res n))"

end
