(* ===== verification/CraftingLaws.thy ===== *)
theory CraftingLaws
  imports Crafting "HOL-Library.Multiset"
begin

text \<open>
  What the matching and crafting of \<open>crates/container/src/crafting.rs\<close> guarantee: a shaped recipe
  is found exactly where it lies, a shapeless match is an assignment of the items to the
  ingredients, and crafting takes one item of each slot of the match.
\<close>

section \<open>Ingredients\<close>

definition ingredient_ok :: "ingredient \<Rightarrow> bool" where
  "ingredient_ok g \<longleftrightarrow> g \<noteq> [] \<and> sorted g \<and> distinct g"

lemma ordered_ints:
  assumes "sorted g" "distinct g"
  shows "ordered_by (\<lambda>e. int_cmp e i) g"
proof -
  have "g ! a < g ! b" if "a < b" "b < length g" for a b
    using that sorted_nth_mono [OF assms(1), of a b] nth_eq_iff_index_eq [OF assms(2), of a b] by simp
  then show ?thesis by (force simp: ordered_by_def int_cmp_def)
qed

lemma accepts_iff: "ingredient_ok g \<Longrightarrow> ingredient_accepts g i \<longleftrightarrow> i \<in> set g"
proof -
  assume "ingredient_ok g"
  then have "ordered_by (\<lambda>e. int_cmp e i) g" by (simp add: ordered_ints ingredient_ok_def)
  from binary_search_None [OF this] show ?thesis by (auto simp: ingredient_accepts_def int_cmp_def split: if_splits)
qed

lemma ingredient_item_ok: "ingredient_ok (ingredient_item i)"
  by (simp add: ingredient_ok_def ingredient_item_def)

lemma distinct_sorted_adj: "sorted xs \<Longrightarrow> distinct (remdups_adj xs)"
  by (induction xs rule: remdups_adj.induct) (auto simp: order_le_less)

lemma sorted_adj: "sorted xs \<Longrightarrow> sorted (remdups_adj (xs :: int list))"
  by (induction xs rule: remdups_adj.induct) auto

lemma any_of_ok: "any_of ids = Inr g \<Longrightarrow> ingredient_ok g \<and> set g = set ids"
  by (auto simp: any_of_def ingredient_ok_def distinct_sorted_adj sorted_adj split: if_splits)
    (metis set_empty set_sort)

section \<open>Where a pattern lies\<close>

text \<open>The cell of a pattern laid with its corner at column \<open>ox\<close> and row \<open>oy\<close>.\<close>

definition laid_cell :: "nat \<Rightarrow> nat \<Rightarrow> nat \<Rightarrow> nat \<Rightarrow> ingredient option list \<Rightarrow> nat \<Rightarrow> nat \<Rightarrow> ingredient option" where
  "laid_cell ox oy sw sh cells y x =
     (if oy \<le> y \<and> y < oy + sh \<and> ox \<le> x \<and> x < ox + sw then cells ! ((y - oy) * sw + (x - ox)) else None)"

text \<open>The pattern laid there is the whole of the grid.\<close>

definition lies_at :: "item_stack list \<Rightarrow> nat \<Rightarrow> nat \<Rightarrow> nat \<Rightarrow> nat \<Rightarrow> nat \<Rightarrow> ingredient option list \<Rightarrow> bool" where
  "lies_at grid width ox oy sw sh cells \<longleftrightarrow>
     (\<forall>y < length grid div width. \<forall>x < width.
        cell_matches (laid_cell ox oy sw sh cells y x) (Some (grid ! (y * width + x))))"

lemma grid_index:
  assumes "width dvd length grid" "x < width" "y < length grid div width"
  shows "y * width + x < length grid"
proof -
  have "Suc y * width \<le> (length grid div width) * width" using assms(3) by (intro mult_le_mono1) simp
  also have "\<dots> = length grid" using assms(1) by simp
  finally show ?thesis using assms(2) by simp
qed

lemma grid_get_row:
  assumes "width dvd length grid" "x < width"
  shows "grid_get grid (y * width + x) = (if y < length grid div width then Some (grid ! (y * width + x)) else None)"
proof (cases "y < length grid div width")
  case True
  then show ?thesis using grid_index [OF assms True] by (simp add: grid_get_def)
next
  case False
  then have "(length grid div width) * width \<le> y * width" by (intro mult_le_mono1) simp
  then have "length grid \<le> y * width" using assms(1) by simp
  then show ?thesis using False by (simp add: grid_get_def)
qed

lemma matches_at_iff:
  assumes "width dvd length grid" "length grid div width \<le> width" "0 < sw"
    "ox + sw \<le> width" "oy + sh \<le> length grid div width"
  shows "matches_at grid width (oy * width + ox) sw sh cells \<longleftrightarrow> lies_at grid width ox oy sw sh cells"
proof -
  define h where "h = length grid div width"
  note get = grid_get_row [OF assms(1), folded h_def]
  note bounds = assms(2,5) [folded h_def]
  have corner: "ox < width" "max width sh = width" using assms(3,4) bounds by simp_all
  have inside: "grid_get grid (oy * width + ox + y * width + x) = Some (grid ! ((oy + y) * width + (ox + x)))"
    if "y < sh" "x < sw" for x y
    using get [of "ox + x" "oy + y"] assms(4) bounds that by (simp add: algebra_simps)
  have "matches_at grid width (oy * width + ox) sw sh cells \<longleftrightarrow>
      (\<forall>y < sh. \<forall>x < sw. cell_matches (cells ! (y * sw + x)) (Some (grid ! ((oy + y) * width + (ox + x))))) \<and>
      (\<forall>y < h. \<forall>x < width. (oy \<le> y \<and> y < oy + sh \<and> ox \<le> x \<and> x < ox + sw) \<or>
          stack_is_empty (grid ! (y * width + x)))"
  proof -
    have "(\<forall>y < width. \<forall>x < width. P y x \<or> (case grid_get grid (y * width + x) of None \<Rightarrow> True | Some s \<Rightarrow> stack_is_empty s)) \<longleftrightarrow>
        (\<forall>y < h. \<forall>x < width. P y x \<or> stack_is_empty (grid ! (y * width + x)))" for P
      using bounds(1) by (auto simp: get) (meson less_le_trans)
    then show ?thesis
      by (simp add: matches_at_def Let_def corner list_all_iff inside Ball_def)
  qed
  also have "\<dots> \<longleftrightarrow> lies_at grid width ox oy sw sh cells" (is "?L \<longleftrightarrow> ?R")
  proof
    assume L: ?L
    show ?R unfolding lies_at_def h_def [symmetric]
    proof (intro allI impI)
      fix y x assume yx: "y < h" "x < width"
      show "cell_matches (laid_cell ox oy sw sh cells y x) (Some (grid ! (y * width + x)))"
      proof (cases "oy \<le> y \<and> y < oy + sh \<and> ox \<le> x \<and> x < ox + sw")
        case True
        then have at: "y - oy < sh" "x - ox < sw" "oy + (y - oy) = y" "ox + (x - ox) = x" by auto
        show ?thesis
          using L [THEN conjunct1, rule_format, OF at(1,2)] at(3,4) True by (simp only: laid_cell_def if_True simp_thms)
      next
        case False
        then show ?thesis using L yx by (auto simp: laid_cell_def cell_matches_def)
      qed
    qed
  next
    assume R: ?R
    have "cell_matches (cells ! (y * sw + x)) (Some (grid ! ((oy + y) * width + (ox + x))))" if "y < sh" "x < sw" for x y
      using R [unfolded lies_at_def h_def [symmetric], rule_format, of "oy + y" "ox + x"] assms(4) bounds(2) that by (simp add: laid_cell_def)
    moreover have "stack_is_empty (grid ! (y * width + x))"
      if "y < h" "x < width" "\<not> (oy \<le> y \<and> y < oy + sh \<and> ox \<le> x \<and> x < ox + sw)" for x y
      using R [unfolded lies_at_def h_def [symmetric], rule_format, OF that(1,2)] that(3) by (simp only: laid_cell_def if_False) (simp add: cell_matches_def)
    ultimately show ?L by blast
  qed
  finally show ?thesis .
qed

section \<open>The slots of a match\<close>

lemma fold_marks:
  "k < length t \<Longrightarrow> length (fold (\<lambda>(y, x) t. if P y x then t[f y x := True] else t) ps t) = length t \<and>
     (fold (\<lambda>(y, x) t. if P y x then t[f y x := True] else t) ps t ! k \<longleftrightarrow> t ! k \<or> (\<exists>(y, x) \<in> set ps. P y x \<and> f y x = k))"
proof (induction ps arbitrary: t)
  case (Cons p ps)
  obtain y x where p: "p = (y, x)" by fastforce
  let ?t = "if P y x then t[f y x := True] else t"
  have "k < length ?t" "?t ! k \<longleftrightarrow> t ! k \<or> (P y x \<and> f y x = k)" using Cons.prems by (cases "f y x = k"; simp)+
  then show ?case using Cons.IH [of ?t] by (auto simp: p)
qed simp

lemma considered_iff:
  assumes "k < MAX_GRID_SLOTS"
  shows "length (considered_cells width off sw sh cells) = MAX_GRID_SLOTS"
    "considered_cells width off sw sh cells ! k \<longleftrightarrow>
       (\<exists>y < sh. \<exists>x < sw. cells ! (y * sw + x) \<noteq> None \<and> off + y * width + x = k)"
proof -
  have "k < length no_slots" using assms by (simp add: no_slots_def)
  note law = fold_marks [OF this, of "\<lambda>y x. cells ! (y * sw + x) \<noteq> None" "\<lambda>y x. off + y * width + x"
      "List.product [0 ..< sh] [0 ..< sw]", folded considered_cells_def]
  show "length (considered_cells width off sw sh cells) = MAX_GRID_SLOTS"
    using law by (simp add: no_slots_def)
  show "considered_cells width off sw sh cells ! k \<longleftrightarrow>
       (\<exists>y < sh. \<exists>x < sw. cells ! (y * sw + x) \<noteq> None \<and> off + y * width + x = k)"
    using law assms by (simp add: no_slots_def) (auto simp: Bex_def)
qed

text \<open>An occupied slot of a grid of well-formed stacks.\<close>

definition occupied :: "item_stack list \<Rightarrow> nat \<Rightarrow> bool" where
  "occupied grid k \<longleftrightarrow> k < length grid \<and> \<not> stack_is_empty (grid ! k)"

lemma wf_item_id: "wf_stack s \<Longrightarrow> stack_item_id s = None \<longleftrightarrow> stack_is_empty s"
  by (auto simp: wf_stack_def stack_item_id_def stack_is_empty_def stack_consts)

lemma cell_occupied:
  "wf_stack s \<Longrightarrow> cell_matches cell (Some s) \<Longrightarrow> cell \<noteq> None \<longleftrightarrow> \<not> stack_is_empty s"
  using wf_item_id [of s] by (auto simp: cell_matches_def split: option.splits)

lemma considered_occupied:
  assumes "width dvd length grid" "0 < width" "ox + sw \<le> width" "oy + sh \<le> length grid div width" "list_all wf_stack grid"
    "lies_at grid width ox oy sw sh cells" "length grid \<le> MAX_GRID_SLOTS" "k < MAX_GRID_SLOTS"
  shows "considered_cells width (oy * width + ox) sw sh cells ! k \<longleftrightarrow> occupied grid k"
proof
  assume "considered_cells width (oy * width + ox) sw sh cells ! k"
  then obtain y x where yx: "y < sh" "x < sw" "cells ! (y * sw + x) \<noteq> None" "oy * width + ox + y * width + x = k"
    using considered_iff(2) [OF assms(8)] by blast
  have at: "oy + y < length grid div width" "ox + x < width" "(oy + y) * width + (ox + x) = k"
    using yx assms(3,4) by (simp_all add: algebra_simps)
  have k: "k < length grid" using grid_index [OF assms(1) at(2,1)] at(3) by simp
  have "cell_matches (cells ! (y * sw + x)) (Some (grid ! k))"
    using assms(6) [unfolded lies_at_def, rule_format, OF at(1,2)] yx(1,2) at(3) by (simp add: laid_cell_def)
  then show "occupied grid k" using cell_occupied yx(3) k assms(5) by (auto simp: occupied_def list_all_length)
next
  assume k: "occupied grid k"
  have len: "k < length grid" using k by (simp add: occupied_def)
  have at: "k div width < length grid div width" "k mod width < width" "(k div width) * width + k mod width = k"
    using len assms(1,2) by (simp_all add: div_less_mono less_mult_imp_div_less)
  have m: "cell_matches (laid_cell ox oy sw sh cells (k div width) (k mod width)) (Some (grid ! k))"
    using assms(6) [unfolded lies_at_def, rule_format, OF at(1,2)] at(3) by simp
  have "laid_cell ox oy sw sh cells (k div width) (k mod width) \<noteq> None"
    using cell_occupied [OF _ m] k assms(5) by (auto simp: occupied_def list_all_length)
  then have c: "oy \<le> k div width" "k div width < oy + sh" "ox \<le> k mod width" "k mod width < ox + sw"
      "cells ! ((k div width - oy) * sw + (k mod width - ox)) \<noteq> None"
    by (auto simp: laid_cell_def split: if_splits)
  obtain a b where ab: "k div width = oy + a" "k mod width = ox + b" using c(1,3) by (auto simp: le_iff_add)
  have "oy * width + ox + (k div width - oy) * width + (k mod width - ox) = k"
    using at(3) unfolding ab by (simp add: algebra_simps)
  moreover have "k div width - oy < sh" "k mod width - ox < sw" using c(1-4) by linarith+
  ultimately show "considered_cells width (oy * width + ox) sw sh cells ! k"
    unfolding considered_iff(2) [OF assms(8)] using c(5) by blast
qed

section \<open>Shaped recipes\<close>

lemma first_some_None: "first_some f xs = None \<longleftrightarrow> (\<forall>x \<in> set xs. f x = None)"
  by (induction xs) (auto split: option.split)

lemma first_some_Some: "first_some f xs = Some y \<Longrightarrow> \<exists>x \<in> set xs. f x = Some y"
  by (induction xs) (auto split: option.splits)

lemma grid_shape_Some:
  "grid_shape grid width = Some (w, h) \<Longrightarrow>
     w = width \<and> h = length grid div width \<and> 0 < width \<and> 0 < h \<and> width \<le> 3 \<and> h \<le> 3 \<and> width dvd length grid \<and>
     length grid \<le> MAX_GRID_SLOTS"
  by (auto simp: grid_shape_def grid_consts Let_def split: if_splits)

lemma new_shaped_Inr:
  "new_shaped name p res n = Inr s \<Longrightarrow>
     sr_pattern s = p \<and> sr_mirrored s = mirror p \<and> sr_result s = res \<and> sr_count s = n \<and>
     0 < pat_width p \<and> 0 < pat_height p \<and> 1 \<le> n \<and> n \<le> 64"
  by (auto simp: new_shaped_def stack_consts split: if_splits)

lemma shaped_search:
  assumes "grid_shape grid width = Some (w, h)" "h \<le> w" "0 < pat_width (sr_pattern s)" "list_all wf_stack grid"
  shows "case shaped_find_at s grid width of
     None \<Rightarrow> \<forall>ox oy. ox + pat_width (sr_pattern s) \<le> w \<and> oy + pat_height (sr_pattern s) \<le> h \<longrightarrow>
       \<not> lies_at grid w ox oy (pat_width (sr_pattern s)) (pat_height (sr_pattern s)) (pat_cells (sr_pattern s)) \<and>
       \<not> lies_at grid w ox oy (pat_width (sr_pattern s)) (pat_height (sr_pattern s)) (sr_mirrored s)
   | Some (off, mirrored, taken) \<Rightarrow>
       (\<exists>ox oy. ox + pat_width (sr_pattern s) \<le> w \<and> oy + pat_height (sr_pattern s) \<le> h \<and> off = oy * w + ox \<and>
          lies_at grid w ox oy (pat_width (sr_pattern s)) (pat_height (sr_pattern s))
            (if mirrored then sr_mirrored s else pat_cells (sr_pattern s))) \<and>
       length taken = MAX_GRID_SLOTS \<and> (\<forall>k < MAX_GRID_SLOTS. taken ! k \<longleftrightarrow> occupied grid k)"
proof -
  let ?sw = "pat_width (sr_pattern s)" and ?sh = "pat_height (sr_pattern s)"
  note sh = grid_shape_Some [OF assms(1)]
  then have dims: "w = width" "h = length grid div width" "width dvd length grid" "0 < width" "length grid \<le> MAX_GRID_SLOTS"
    by auto
  define f where "f = (\<lambda>(y, x). let off = y * width + x
                in case matched_cells grid width off ?sw ?sh (pat_cells (sr_pattern s)) of
                     Some cells \<Rightarrow> Some (off, False, cells)
                   | None \<Rightarrow> map_option (\<lambda>cells. (off, True, cells)) (matched_cells grid width off ?sw ?sh (sr_mirrored s)))"
  have found: "shaped_find_at s grid width =
      (if width < ?sw \<or> h < ?sh then None else first_some f (List.product [0 ..< Suc (h - ?sh)] [0 ..< Suc (width - ?sw)]))"
    by (simp add: shaped_find_at_def f_def Let_def dims(2))
  have match: "matched_cells grid width (oy * width + ox) ?sw ?sh cells =
      (if lies_at grid width ox oy ?sw ?sh cells then Some (considered_cells width (oy * width + ox) ?sw ?sh cells) else None)"
    if "ox + ?sw \<le> width" "oy + ?sh \<le> h" for ox oy cells
    using matches_at_iff [OF dims(3) _ assms(3) that(1), of oy ?sh cells] that(2) assms(2) dims(1,2)
    by (simp add: matched_cells_def)
  show ?thesis
  proof (cases "width < ?sw \<or> h < ?sh")
    case True
    then show ?thesis using dims(1) by (auto simp: found)
  next
    case False
    then have fits: "ox + ?sw \<le> width \<and> oy + ?sh \<le> h \<longleftrightarrow> oy < Suc (h - ?sh) \<and> ox < Suc (width - ?sw)" for ox oy by auto
    have run: "shaped_find_at s grid width = first_some f (List.product [0 ..< Suc (h - ?sh)] [0 ..< Suc (width - ?sw)])"
      using False found by simp
    show ?thesis
    proof (cases "shaped_find_at s grid width")
      case None
      have none: "f (oy, ox) = None" if "ox + ?sw \<le> width" "oy + ?sh \<le> h" for ox oy
      proof -
        have "(oy, ox) \<in> set (List.product [0 ..< Suc (h - ?sh)] [0 ..< Suc (width - ?sw)])"
          using that fits [of ox oy] by (simp del: upt_Suc)
        then show ?thesis using None unfolding run first_some_None by blast
      qed
      have "\<not> lies_at grid width ox oy ?sw ?sh (pat_cells (sr_pattern s)) \<and> \<not> lies_at grid width ox oy ?sw ?sh (sr_mirrored s)"
        if "ox + ?sw \<le> width" "oy + ?sh \<le> h" for ox oy
        using none [OF that] match [OF that] by (auto simp: f_def Let_def split: if_splits)
      then show ?thesis unfolding None option.case dims(1) by blast
    next
      case (Some res)
      obtain off m taken where res: "res = (off, m, taken)" by (metis prod_cases3)
      obtain oy ox where at: "ox + ?sw \<le> width" "oy + ?sh \<le> h" "f (oy, ox) = Some (off, m, taken)"
      proof -
        obtain yx where yx: "yx \<in> set (List.product [0 ..< Suc (h - ?sh)] [0 ..< Suc (width - ?sw)])" "f yx = Some (off, m, taken)"
          using first_some_Some [OF Some [unfolded run res]] by blast
        obtain y x where "yx = (y, x)" by fastforce
        moreover from this yx(1) have "y < Suc (h - ?sh) \<and> x < Suc (width - ?sw)" by (simp del: upt_Suc)
        ultimately show thesis using that [of x y] fits [of x y] yx(2) by simp
      qed
      have off: "off = oy * width + ox \<and>
          lies_at grid width ox oy ?sw ?sh (if m then sr_mirrored s else pat_cells (sr_pattern s)) \<and>
          taken = considered_cells width (oy * width + ox) ?sw ?sh (if m then sr_mirrored s else pat_cells (sr_pattern s))"
        using at(3) match [OF at(1,2)] by (auto simp: f_def Let_def split: if_splits)
      have "taken ! k \<longleftrightarrow> occupied grid k" if "k < MAX_GRID_SLOTS" for k
        using off considered_occupied [OF dims(3,4) at(1) _ assms(4) _ dims(5) that] at(2) dims(2) by simp
      moreover have "length taken = MAX_GRID_SLOTS"
        using off considered_iff(1) [of 0] by (simp add: grid_consts)
      ultimately show ?thesis using off at(1,2) unfolding Some res option.case prod.case dims(1) by blast
    qed
  qed
qed

section \<open>Shapeless recipes\<close>

text \<open>The items of the occupied slots, in order.\<close>

definition grid_items :: "item_stack list \<Rightarrow> int list" where
  "grid_items grid = map st_item (filter (\<lambda>s. \<not> stack_is_empty s) grid)"

definition left_over :: "ingredient list \<Rightarrow> bool list \<Rightarrow> ingredient multiset" where
  "left_over ings sat = mset (map (nth ings) (filter (\<lambda>k. \<not> sat ! k) [0 ..< length ings]))"

lemma filter_one_less:
  "distinct xs \<Longrightarrow> k \<in> set xs \<Longrightarrow> P k \<Longrightarrow>
     mset (map f (filter P xs)) = add_mset (f k) (mset (map f (filter (\<lambda>j. P j \<and> j \<noteq> k) xs)))"
proof (induction xs)
  case (Cons x xs)
  show ?case
  proof (cases "x = k")
    case True
    have "filter (\<lambda>j. P j \<and> j \<noteq> k) xs = filter P xs" using Cons.prems(1) True by (intro filter_cong) auto
    then show ?thesis using True Cons.prems(3) by simp
  next
    case False
    then show ?thesis using Cons by simp
  qed
qed simp

lemma left_over_take:
  assumes "k < length ings" "\<not> sat ! k" "length sat = length ings"
  shows "left_over ings sat = add_mset (ings ! k) (left_over ings (sat[k := True]))"
proof -
  have "filter (\<lambda>j. \<not> sat ! j \<and> j \<noteq> k) [0 ..< length ings] = filter (\<lambda>j. \<not> sat[k := True] ! j) [0 ..< length ings]"
    using assms(1,3) by (intro filter_cong) (auto simp: nth_list_update)
  then show ?thesis
    using filter_one_less [of "[0 ..< length ings]" k "\<lambda>j. \<not> sat ! j" "nth ings"] assms by (simp add: left_over_def)
qed

lemma left_over_start: "left_over ings (replicate (length ings) False) = mset ings"
proof -
  have "filter (\<lambda>k. \<not> replicate (length ings) False ! k) [0 ..< length ings] = [0 ..< length ings]"
    by (intro filter_True) auto
  then show ?thesis by (simp add: left_over_def map_nth)
qed

lemma open_slot_Some:
  "open_slot ings sat i = Some k \<Longrightarrow> k < length ings \<and> \<not> sat ! k \<and> ingredient_accepts (ings ! k) i"
  by (auto simp: open_slot_def find_Some_iff)

lemma match_slots_sound:
  assumes "match_slots ings ps sat taken n = Some (taken', n')" "length sat = length ings"
    "list_all (\<lambda>p. wf_stack (snd p)) ps"
  shows "n' = n + length (grid_items (map snd ps)) \<and>
    (\<exists>gs. list_all2 ingredient_accepts gs (grid_items (map snd ps)) \<and> mset gs \<subseteq># left_over ings sat) \<and>
    length taken' = length taken \<and>
    (\<forall>k < length taken. taken' ! k \<longleftrightarrow> taken ! k \<or> (\<exists>s. (k, s) \<in> set ps \<and> \<not> stack_is_empty s))"
  using assms
proof (induction ings ps sat taken n rule: match_slots.induct)
  case (2 ings index s rest sat taken n)
  have id: "stack_item_id s = (if stack_is_empty s then None else Some (st_item s))"
    using 2(5) wf_item_id [of s] by (auto simp: stack_item_id_def)
  show ?case
  proof (cases "stack_is_empty s")
    case True
    then show ?thesis using 2 id by (auto simp: grid_items_def)
  next
    case False
    then obtain k where k: "open_slot ings sat (st_item s) = Some k"
      using 2(3) id by (auto split: option.splits)
    note law = open_slot_Some [OF k]
    have run: "match_slots ings rest (sat[k := True]) (taken[index := True]) (n + 1) = Some (taken', n')"
      using 2(3) id False k by simp
    have len: "length (sat[k := True]) = length ings" "list_all (\<lambda>p. wf_stack (snd p)) rest" using 2(4,5) by simp_all
    have id': "stack_item_id s = Some (st_item s)" using id False by simp
    note ih = 2(2) [OF id' k run len]
    obtain gs where gs: "list_all2 ingredient_accepts gs (grid_items (map snd rest))" "mset gs \<subseteq># left_over ings (sat[k := True])"
      using ih by blast
    have "list_all2 ingredient_accepts (ings ! k # gs) (grid_items (map snd ((index, s) # rest)))"
      using gs(1) law False by (simp add: grid_items_def)
    moreover have "mset (ings ! k # gs) \<subseteq># left_over ings sat"
      using left_over_take [of k ings sat] law 2(4) gs(2) by simp
    moreover have "n' = n + length (grid_items (map snd ((index, s) # rest)))" using ih False by (simp add: grid_items_def)
    moreover have "taken' ! j \<longleftrightarrow> taken ! j \<or> (\<exists>u. (j, u) \<in> set ((index, s) # rest) \<and> \<not> stack_is_empty u)"
      if "j < length taken" for j
      using ih that False by (cases "index = j") auto
    ultimately show ?thesis using ih by auto
  qed
qed (auto simp: grid_items_def)

lemma match_slots_complete:
  assumes "length sat = length ings" "list_all (\<lambda>p. wf_stack (snd p)) ps" "list_all ingredient_ok ings"
    "\<forall>a \<in> set ings. \<forall>b \<in> set ings. a = b \<or> set a \<inter> set b = {}"
    "list_all2 ingredient_accepts gs (grid_items (map snd ps))" "mset gs \<subseteq># left_over ings sat"
  shows "match_slots ings ps sat taken n \<noteq> None"
  using assms
proof (induction ings ps sat taken n arbitrary: gs rule: match_slots.induct)
  case (2 ings index s rest sat taken n)
  have id: "stack_item_id s = (if stack_is_empty s then None else Some (st_item s))"
    using 2(4) wf_item_id [of s] by (auto simp: stack_item_id_def)
  show ?case
  proof (cases "stack_is_empty s")
    case True
    then show ?thesis using 2(1) [OF _ 2(3) _ 2(5,6) _ 2(8)] 2(4,7) id by (auto simp: grid_items_def)
  next
    case False
    then have id': "stack_item_id s = Some (st_item s)" using id by simp
    obtain g gs' where gs: "gs = g # gs'" "ingredient_accepts g (st_item s)" "list_all2 ingredient_accepts gs' (grid_items (map snd rest))"
      using 2(7) False by (auto simp: grid_items_def list_all2_Cons2)
    have "g \<in># left_over ings sat" using 2(8) gs(1) by (simp add: insert_subset_eq_iff)
    then obtain j where j: "j < length ings" "\<not> sat ! j" "ings ! j = g" by (auto simp: left_over_def)
    then have "open_slot ings sat (st_item s) \<noteq> None" using gs(2) by (auto simp: open_slot_def find_None_iff)
    then obtain k where k: "open_slot ings sat (st_item s) = Some k" by blast
    note law = open_slot_Some [OF k]
    have members: "ings ! k \<in> set ings" "g \<in> set ings" using law j by auto
    have ok: "ingredient_ok (ings ! k)" "ingredient_ok g" using members 2(5) by (simp_all add: list_all_iff)
    have "ings ! k = g" using 2(6) members law gs(2) accepts_iff [OF ok(1)] accepts_iff [OF ok(2)] by blast
    then have "mset gs' \<subseteq># left_over ings (sat[k := True])"
      using 2(8) left_over_take [of k ings sat] law 2(3) gs(1) by simp
    then have "match_slots ings rest (sat[k := True]) (taken[index := True]) (n + 1) \<noteq> None"
      using 2(2) [OF id' k _ _ 2(5,6) gs(3)] 2(3,4) by simp
    then show ?thesis using id' k by simp
  qed
qed simp

text \<open>The ingredients are a permutation that the items of the grid fill one by one.\<close>

definition assigned :: "ingredient list \<Rightarrow> item_stack list \<Rightarrow> bool" where
  "assigned ings grid \<longleftrightarrow> (\<exists>gs. mset gs = mset ings \<and> list_all2 ingredient_accepts gs (grid_items grid))"

lemma snd_enumerate [simp]: "map snd (enumerate n xs) = xs"
  by (simp add: enumerate_eq_zip)

lemma match_cells_law:
  assumes "list_all wf_stack grid" "length grid \<le> MAX_GRID_SLOTS" "match_cells s grid = Some taken"
  shows "assigned (sl_ingredients s) grid" "length taken = MAX_GRID_SLOTS"
    "k < MAX_GRID_SLOTS \<Longrightarrow> taken ! k \<longleftrightarrow> occupied grid k"
proof -
  let ?ings = "sl_ingredients s" and ?ps = "enumerate 0 grid"
  have ps: "take MAX_GRID_SLOTS ?ps = ?ps" using assms(2) by simp
  have wf: "list_all (\<lambda>p. wf_stack (snd p)) ?ps"
    using assms(1) by (auto simp: list_all_iff in_set_enumerate_eq)
  obtain n where n: "match_slots ?ings ?ps (replicate (length ?ings) False) no_slots 0 = Some (taken, n)" "n = length ?ings"
    using assms(3) unfolding match_cells_def ps by (auto split: option.splits if_splits)
  note law = match_slots_sound [OF n(1) _ wf, unfolded snd_enumerate left_over_start]
  obtain gs where gs: "list_all2 ingredient_accepts gs (grid_items grid)" "mset gs \<subseteq># mset ?ings" using law by auto
  have "length gs = length ?ings" using list_all2_lengthD [OF gs(1)] law n(2) by simp
  then have "mset gs = mset ?ings" using gs(2) by (metis size_mset mset_subset_size subset_mset.le_imp_less_or_eq less_irrefl)
  then show "assigned ?ings grid" using gs(1) by (auto simp: assigned_def)
  show "length taken = MAX_GRID_SLOTS" using law by (simp add: no_slots_def)
  show "taken ! k \<longleftrightarrow> occupied grid k" if "k < MAX_GRID_SLOTS"
    using law that by (auto simp: no_slots_def occupied_def in_set_enumerate_eq)
qed

text \<open>C35. A shaped recipe is found exactly where it lies. On a grid at least as wide as it is
  high, the search returns a place at which the whole grid is the pattern or its mirror image,
  laid there with every other slot empty, and marks the occupied slots; it returns nothing
  just when neither lies at any place.\<close>

theorem shaped_found_where_it_lies:
  assumes "new_shaped name p res n = Inr s" "grid_shape grid width = Some (w, h)" "h \<le> w" "list_all wf_stack grid"
  shows "case shaped_find_at s grid width of
     None \<Rightarrow> \<forall>ox oy. ox + pat_width p \<le> w \<and> oy + pat_height p \<le> h \<longrightarrow>
       \<not> lies_at grid w ox oy (pat_width p) (pat_height p) (pat_cells p) \<and>
       \<not> lies_at grid w ox oy (pat_width p) (pat_height p) (mirror p)
   | Some (off, mirrored, taken) \<Rightarrow>
       (\<exists>ox oy. ox + pat_width p \<le> w \<and> oy + pat_height p \<le> h \<and> off = oy * w + ox \<and>
          lies_at grid w ox oy (pat_width p) (pat_height p) (if mirrored then mirror p else pat_cells p)) \<and>
       length taken = MAX_GRID_SLOTS \<and> (\<forall>k < MAX_GRID_SLOTS. taken ! k \<longleftrightarrow> occupied grid k)"
proof -
  have eqs: "sr_pattern s = p" "sr_mirrored s = mirror p" and pos: "0 < pat_width p"
    using new_shaped_Inr [OF assms(1)] by simp_all
  show ?thesis using shaped_search [OF assms(2,3) _ assms(4), of s, unfolded eqs] pos by blast
qed

text \<open>Two sticks one above the other, from planks of two kinds, in the left column of a two by two grid.\<close>

definition planks_column :: shaped_pattern where
  "planks_column = \<lparr>pat_width = 1, pat_height = 2, pat_cells = [Some [5, 7], Some [5, 7]]\<rparr>"

definition sticks :: shaped_recipe where
  "sticks = \<lparr>sr_name = [115], sr_pattern = planks_column, sr_mirrored = [Some [5, 7], Some [5, 7]], sr_result = 9, sr_count = 4\<rparr>"

definition planks_grid :: "item_stack list" where
  "planks_grid = [EMPTY, \<lparr>st_item = 7, st_count = 3, st_comps = []\<rparr>, EMPTY, \<lparr>st_item = 5, st_count = 1, st_comps = []\<rparr>]"

lemma planks_facts:
  "new_shaped [115] planks_column 9 4 = Inr sticks" "grid_shape planks_grid 2 = Some (2, 2)"
  "shaped_find_at sticks planks_grid 2 = Some (1, False, [False, True, False, True, False, False, False, False, False])"
  by code_simp+

lemma planks_grid_wf: "list_all wf_stack planks_grid"
  by (simp add: planks_grid_def wf_stack_def EMPTY_def stack_is_empty_def stack_consts)

theorem shaped_found_where_it_lies_witness:
  "lies_at planks_grid 2 1 0 1 2 (pat_cells planks_column)"
proof -
  have "case shaped_find_at sticks planks_grid 2 of None \<Rightarrow> False
    | Some (off, mirrored, taken) \<Rightarrow> \<exists>ox oy. ox + 1 \<le> 2 \<and> oy + 2 \<le> 2 \<and> off = oy * 2 + ox \<and>
        lies_at planks_grid 2 ox oy 1 2 (if mirrored then mirror planks_column else pat_cells planks_column)"
    using shaped_found_where_it_lies [OF planks_facts(1,2) _ planks_grid_wf]
    unfolding planks_facts(3) by (simp add: planks_column_def)
  then show ?thesis unfolding planks_facts(3) by auto
qed

text \<open>C36. A shapeless match is an assignment: when \<open>match_cells\<close> accepts a grid, the items of its
  occupied slots fill a permutation of the ingredients, one item each, and exactly those slots
  are marked. Taking the first ingredient that fits loses no match when any two ingredients
  are the same or share no item.\<close>

theorem shapeless_match_assigns:
  assumes "list_all wf_stack grid" "length grid \<le> MAX_GRID_SLOTS" "list_all ingredient_ok (sl_ingredients s)"
  shows "(match_cells s grid = Some taken \<longrightarrow>
      assigned (sl_ingredients s) grid \<and> (\<forall>k < MAX_GRID_SLOTS. taken ! k \<longleftrightarrow> occupied grid k)) \<and>
    (assigned (sl_ingredients s) grid \<and>
       (\<forall>a \<in> set (sl_ingredients s). \<forall>b \<in> set (sl_ingredients s). a = b \<or> set a \<inter> set b = {}) \<longrightarrow>
       match_cells s grid \<noteq> None)"
proof (intro conjI impI)
  assume "match_cells s grid = Some taken"
  from match_cells_law [OF assms(1,2) this] show "assigned (sl_ingredients s) grid"
    "\<forall>k < MAX_GRID_SLOTS. taken ! k \<longleftrightarrow> occupied grid k" by blast+
next
  let ?ings = "sl_ingredients s" and ?ps = "enumerate 0 grid"
  assume a: "assigned ?ings grid \<and> (\<forall>a \<in> set ?ings. \<forall>b \<in> set ?ings. a = b \<or> set a \<inter> set b = {})"
  obtain gs where gs: "mset gs = mset ?ings" "list_all2 ingredient_accepts gs (grid_items grid)" using a by (auto simp: assigned_def)
  have ps: "take MAX_GRID_SLOTS ?ps = ?ps" using assms(2) by simp
  have wf: "list_all (\<lambda>p. wf_stack (snd p)) ?ps" using assms(1) by (auto simp: list_all_iff in_set_enumerate_eq)
  have "match_slots ?ings ?ps (replicate (length ?ings) False) no_slots 0 \<noteq> None"
    by (rule match_slots_complete [where gs = gs]) (use wf assms(3) a gs in \<open>simp_all add: left_over_start\<close>)
  then obtain t n where run: "match_slots ?ings ?ps (replicate (length ?ings) False) no_slots 0 = Some (t, n)" by auto
  have "n = length (grid_items grid)" using match_slots_sound [OF run _ wf] by simp
  then have "n = length ?ings" using list_all2_lengthD [OF gs(2)] gs(1) by (metis size_mset)
  then show "match_cells s grid \<noteq> None" unfolding match_cells_def ps using run by simp
qed

definition planks_and_coal :: shapeless_recipe where
  "planks_and_coal = \<lparr>sl_name = [116], sl_ingredients = [[9], [5, 7]], sl_result = 3, sl_count = 4\<rparr>"

definition coal_grid :: "item_stack list" where
  "coal_grid = [\<lparr>st_item = 7, st_count = 3, st_comps = []\<rparr>, EMPTY, EMPTY, \<lparr>st_item = 9, st_count = 1, st_comps = []\<rparr>]"

theorem shapeless_match_assigns_witness:
  "match_cells planks_and_coal coal_grid \<noteq> None"
proof -
  have wf: "list_all wf_stack coal_grid" by (simp add: coal_grid_def wf_stack_def)
  have short: "length coal_grid \<le> MAX_GRID_SLOTS" by (simp add: coal_grid_def grid_consts)
  have ok: "list_all ingredient_ok (sl_ingredients planks_and_coal)" by (simp add: planks_and_coal_def ingredient_ok_def)
  have "list_all2 ingredient_accepts [[5, 7], [9]] (grid_items coal_grid)" by code_simp
  moreover have "mset [[5, 7], [9]] = mset (sl_ingredients planks_and_coal)" by (simp add: planks_and_coal_def)
  ultimately have "assigned (sl_ingredients planks_and_coal) coal_grid" unfolding assigned_def by blast
  moreover have "\<forall>a \<in> set (sl_ingredients planks_and_coal). \<forall>b \<in> set (sl_ingredients planks_and_coal). a = b \<or> set a \<inter> set b = {}"
    by (simp add: planks_and_coal_def)
  ultimately show ?thesis using shapeless_match_assigns [OF wf short ok] by blast
qed

text \<open>
  With overlapping ingredients the order of the slots decides: the same two items are refused
  in one order and accepted in the other.
\<close>

lemma shapeless_order_matters:
  "let s = \<lparr>sl_name = [97], sl_ingredients = [[1, 2], [1]], sl_result = 3, sl_count = 1\<rparr>;
       one = \<lparr>st_item = 1, st_count = 1, st_comps = []\<rparr>; two = \<lparr>st_item = 2, st_count = 1, st_comps = []\<rparr>
   in match_cells s [one, two, EMPTY, EMPTY] = None \<and> match_cells s [two, one, EMPTY, EMPTY] \<noteq> None"
  by code_simp

text \<open>
  The scan outside the pattern runs over a square as wide as the grid or as high as the
  pattern: in a grid of one column it takes a cell of the pattern for a stray item, and with a
  short pattern it does not look at the rows below.
\<close>

lemma tall_grids_are_misread:
  "let one = \<lparr>st_item = 1, st_count = 1, st_comps = []\<rparr>;
       column = \<lparr>sr_name = [97], sr_pattern = \<lparr>pat_width = 1, pat_height = 2, pat_cells = [Some [1], Some [1]]\<rparr>,
         sr_mirrored = [Some [1], Some [1]], sr_result = 3, sr_count = 1\<rparr>;
       row = \<lparr>sr_name = [97], sr_pattern = \<lparr>pat_width = 2, pat_height = 1, pat_cells = [Some [1], Some [1]]\<rparr>,
         sr_mirrored = [Some [1], Some [1]], sr_result = 3, sr_count = 1\<rparr>
   in shaped_find_at column [one, one] 1 = None \<and>
      shaped_find_at row [one, one, EMPTY, EMPTY, one, EMPTY] 2 \<noteq> None"
  by code_simp

section \<open>Crafting\<close>

definition recipe_ok :: "recipe \<Rightarrow> bool" where
  "recipe_ok r \<longleftrightarrow> 1 \<le> recipe_count r \<and> recipe_count r \<le> 64 \<and>
     (case r of Shaped s \<Rightarrow> 0 < pat_width (sr_pattern s) | Shapeless s \<Rightarrow> True)"

lemma new_recipes_ok:
  "new_shaped name p res n = Inr s \<Longrightarrow> recipe_ok (Shaped s)"
  "new_shapeless name ings res n = Inr t \<Longrightarrow> recipe_ok (Shapeless t)"
  by (auto dest!: new_shaped_Inr simp: recipe_ok_def recipe_count_def new_shapeless_def stack_consts split: if_splits)

lemma try_recipe_marks:
  assumes "grid_shape grid width = Some (w, h)" "h \<le> w" "list_all wf_stack grid" "recipe_ok r"
    "try_recipe grid w r = Some m"
  shows "rm_recipe m = r \<and> length (rm_consumed m) = MAX_GRID_SLOTS \<and> (\<forall>k < MAX_GRID_SLOTS. rm_consumed m ! k \<longleftrightarrow> occupied grid k)"
proof (cases r)
  case (Shaped s)
  have w: "w = width" using grid_shape_Some [OF assms(1)] by simp
  have "0 < pat_width (sr_pattern s)" using assms(4) Shaped by (simp add: recipe_ok_def)
  note search = shaped_search [OF assms(1,2) this assms(3)]
  obtain res where res: "shaped_find_at s grid width = Some res" using assms(5) Shaped w by (auto simp: try_recipe_def)
  obtain off mi taken where "res = (off, mi, taken)" by (metis prod_cases3)
  then show ?thesis using search assms(5) Shaped w res by (auto simp: try_recipe_def)
next
  case (Shapeless s)
  obtain taken where t: "match_cells s grid = Some taken" using assms(5) Shapeless by (auto simp: try_recipe_def)
  have "length grid \<le> MAX_GRID_SLOTS" using grid_shape_Some [OF assms(1)] by simp
  note law = match_cells_law [OF assms(3) this t]
  show ?thesis using law assms(5) Shapeless t by (auto simp: try_recipe_def)
qed

lemma consume_slot_law:
  assumes "wf_stack s"
  shows "wf_stack (consume_slot s) \<and> st_count (consume_slot s) = st_count s - (if stack_is_empty s then 0 else 1) \<and>
    (consume_slot s \<noteq> EMPTY \<longrightarrow> st_item (consume_slot s) = st_item s \<and> st_comps (consume_slot s) = st_comps s)"
proof -
  obtain removed s' where sh: "shrink s 1 = (removed, s')" by fastforce
  have spec: "wf_stack s' \<and> removed = max 0 (min 1 (st_count s)) \<and> st_count s' = st_count s - removed"
    using shrink_spec [OF assms sh] by blast
  have same: "s' \<noteq> EMPTY \<longrightarrow> st_item s' = st_item s \<and> st_comps s' = st_comps s"
    using sh by (auto simp: shrink_def Let_def split: if_splits)
  have "stack_is_empty s \<longleftrightarrow> st_count s = 0" using assms by (auto simp: wf_stack_def stack_is_empty_def stack_consts)
  moreover have "stack_count s' = st_count s'" using spec wf_count by blast
  moreover have "0 \<le> st_count s" using wf_bounds [OF assms] by simp
  ultimately show ?thesis using spec same by (auto simp: consume_slot_def sh Let_def)
qed

lemma consume_grid_law:
  "length (consume_grid grid taken) = length grid \<and>
   (\<forall>k < length grid. consume_grid grid taken ! k = (if k < length taken \<and> taken ! k then consume_slot (grid ! k) else grid ! k))"
proof -
  let ?f = "\<lambda>(index, taken) g. if taken \<and> index < length g then g[index := consume_slot (g ! index)] else g"
  have "length (fold ?f (enumerate n taken) grid) = length grid \<and>
      (\<forall>k < length grid. fold ?f (enumerate n taken) grid ! k =
        (if n \<le> k \<and> k < n + length taken \<and> taken ! (k - n) then consume_slot (grid ! k) else grid ! k))" for n
  proof (induction taken arbitrary: n grid)
    case (Cons t ts)
    let ?g = "if t \<and> n < length grid then grid[n := consume_slot (grid ! n)] else grid"
    have g: "length ?g = length grid" "k < length grid \<Longrightarrow> ?g ! k = (if t \<and> k = n then consume_slot (grid ! k) else grid ! k)" for k
      by (auto simp: nth_list_update)
    have step: "fold ?f (enumerate n (t # ts)) grid = fold ?f (enumerate (Suc n) ts) ?g" by simp
    have index: "(if Suc n \<le> k \<and> k < Suc n + length ts \<and> ts ! (k - Suc n) then consume_slot (?g ! k) else ?g ! k) =
        (if n \<le> k \<and> k < n + length (t # ts) \<and> (t # ts) ! (k - n) then consume_slot (grid ! k) else grid ! k)"
      if "k < length grid" for k
      using g(2) [OF that] by (cases "k = n") (auto simp: nth_Cons' not_less_eq_eq Suc_diff_Suc)
    show ?case unfolding step using Cons.IH [where n = "Suc n" and grid = ?g] g(1) index by simp
  qed auto
  from this [of 0] show ?thesis by (simp add: consume_grid_def)
qed

text \<open>C34. On a grid with no more rows than columns, crafting takes one item of each occupied
  slot (a higher grid is misread, \<open>tall_grids_are_misread\<close>). A craft that gives a stack gives the
  result of a registered recipe, keeps every stack well formed and what remains of it
  unchanged but for its count, which is one less in each occupied slot; when nothing matches,
  or the registry does not know the result, the grid is left as it was.\<close>

theorem craft_takes_one_of_each:
  assumes "list_all wf_stack grid" "list_all recipe_ok rs" "length grid \<le> width * width" "craft rs grid width items = (res, grid')"
  shows "case res of
     Inr (Some s) \<Rightarrow>
       (\<exists>r \<in> set rs. new_stack (recipe_result r) (recipe_count r) = Inr s) \<and>
       length grid' = length grid \<and> list_all wf_stack grid' \<and>
       (\<forall>k < length grid. st_count (grid' ! k) = st_count (grid ! k) - (if occupied grid k then 1 else 0) \<and>
          (grid' ! k \<noteq> EMPTY \<longrightarrow> st_item (grid' ! k) = st_item (grid ! k) \<and> st_comps (grid' ! k) = st_comps (grid ! k)))
   | _ \<Rightarrow> grid' = grid"
proof (cases "find_match rs grid width")
  case None
  then show ?thesis using assms(4) by (auto simp: craft_def)
next
  case (Some m)
  then obtain w h where shape: "grid_shape grid width = Some (w, h)" "first_some (try_recipe grid w) rs = Some m"
    by (auto simp: find_match_def split: option.splits if_splits)
  note dims = grid_shape_Some [OF shape(1)]
  have "h \<le> w"
  proof -
    have "length grid div width \<le> width * width div width" using assms(3) by (rule div_le_mono)
    then show ?thesis using dims by simp
  qed
  obtain r where r: "r \<in> set rs" "try_recipe grid w r = Some m" using first_some_Some [OF shape(2)] by blast
  have ok: "recipe_ok r" using r(1) assms(2) by (simp add: list_all_iff)
  note marks = try_recipe_marks [OF shape(1) \<open>h \<le> w\<close> assms(1) ok r(2)]
  show ?thesis
  proof (cases "check_ids items (rm_recipe m)")
    case (Inl e)
    then show ?thesis using assms(4) Some by (auto simp: craft_def)
  next
    case (Inr b)
    then have "0 \<le> recipe_result r" using marks by (auto simp: check_ids_def registry_entry_def split: sum.splits if_splits)
    then obtain s where s: "new_stack (recipe_result r) (recipe_count r) = Inr s"
      using ok by (cases "recipe_result r = 0") (auto simp: new_stack_def recipe_ok_def stack_consts)
    have out: "res = Inr (Some s)" "grid' = consume_grid grid (rm_consumed m)"
      using assms(4) Some Inr s marks by (auto simp: craft_def Let_def)
    have len: "length grid \<le> MAX_GRID_SLOTS" using dims by simp
    have slot: "grid' ! k = (if occupied grid k then consume_slot (grid ! k) else grid ! k)" if "k < length grid" for k
      using consume_grid_law [of grid "rm_consumed m"] marks that len by (simp add: out(2))
    have wf: "wf_stack (grid ! k)" if "k < length grid" for k using assms(1) that by (simp add: list_all_length)
    have each: "wf_stack (grid' ! k) \<and> st_count (grid' ! k) = st_count (grid ! k) - (if occupied grid k then 1 else 0) \<and>
        (grid' ! k \<noteq> EMPTY \<longrightarrow> st_item (grid' ! k) = st_item (grid ! k) \<and> st_comps (grid' ! k) = st_comps (grid ! k))"
      if "k < length grid" for k
      using slot [OF that] consume_slot_law [OF wf [OF that]] wf [OF that] that by (auto simp: occupied_def)
    moreover have "length grid' = length grid" using consume_grid_law by (simp add: out(2))
    ultimately show ?thesis using r(1) s by (auto simp: out(1) list_all_length)
  qed
qed

definition ten_items :: item_registry where
  "ten_items = \<lparr>by_name = (\<lambda>_. None), by_id = replicate 10 \<lparr>entry_name = [120], entry_block = None\<rparr>\<rparr>"

theorem craft_takes_one_of_each_witness:
  "case craft [Shaped sticks] planks_grid 2 ten_items of
     (Inr (Some s), grid') \<Rightarrow> st_item s = 9 \<and> st_count (grid' ! 1) = 2 \<and> st_item (grid' ! 1) = 7 \<and> grid' ! 3 = EMPTY
   | _ \<Rightarrow> False"
proof -
  obtain res grid' where run: "craft [Shaped sticks] planks_grid 2 ten_items = (res, grid')" by fastforce
  have made: "case craft [Shaped sticks] planks_grid 2 ten_items of (Inr (Some s), g) \<Rightarrow> st_item s = 9 \<and> g ! 1 \<noteq> EMPTY | _ \<Rightarrow> False"
    by code_simp
  then obtain s where s: "res = Inr (Some s)" "st_item s = 9" "grid' ! 1 \<noteq> EMPTY" using run by (auto split: sum.splits option.splits)
  have ok: "list_all recipe_ok [Shaped sticks]"
    by (simp add: recipe_ok_def recipe_count_def sticks_def planks_column_def)
  have four: "length planks_grid = 4" "length planks_grid \<le> 2 * 2" by (simp_all add: planks_grid_def)
  note law = craft_takes_one_of_each [OF planks_grid_wf ok four(2) run, unfolded s(1) four(1) sum.case option.case]
  have three: "wf_stack (grid' ! 3)" using law [THEN conjunct2, THEN conjunct1] law [THEN conjunct2, THEN conjunct2, THEN conjunct1]
    by (simp add: list_all_length)
  have counts: "occupied planks_grid 1" "occupied planks_grid 3" "st_count (planks_grid ! 1) = 3" "st_item (planks_grid ! 1) = 7"
      "st_count (planks_grid ! 3) = 1"
    by code_simp+
  have "st_count (grid' ! 1) = 2 \<and> st_item (grid' ! 1) = 7"
    using law [THEN conjunct2, THEN conjunct2, THEN conjunct2, rule_format, of 1] counts s(3) by simp
  moreover have "st_count (grid' ! 3) = 0"
    using law [THEN conjunct2, THEN conjunct2, THEN conjunct2, rule_format, of 3] counts by simp
  then have "grid' ! 3 = EMPTY" using wf_nonempty [OF three] by auto
  ultimately show ?thesis using run s by simp
qed

end
