(* ===== verification/Json.thy ===== *)
theory Json
  imports TextTables Floats
begin

text \<open>
  \<open>crates/data/src/json.rs\<close>: how the files of a data pack are read, bounded and taken apart.
  The parser is \<open>serde_json\<close>, which is not under \<open>src/\<close>: the text of a file becomes a value
  through a parameter, and so do the readings \<open>as_i64\<close> and \<open>as_f64\<close> of a number. The values
  themselves are the six variants the source matches on; an object is the list of its fields in
  the order in which it is walked. An error keeps its variant and its numbers, not its message.
\<close>

datatype 'n json =
    JNull
  | JBool bool
  | JNumber 'n
  | JString rstring
  | JArray "'n json list"
  | JObject "(rstring \<times> 'n json) list"

type_synonym 'n json_map = "(rstring \<times> 'n json) list"

record 'n numbers =
  num_as_i64 :: "'n \<Rightarrow> int option"
  num_as_f64 :: "'n \<Rightarrow> u64 option"

text \<open>What the loaders ask of the file system; a path is the list of its components.\<close>

type_synonym path = "rstring list"

record 'n pack_disk =
  is_dir :: "path \<Rightarrow> bool"
  is_file :: "path \<Rightarrow> bool"
  read_dir :: "path \<Rightarrow> path list option"
  metadata_len :: "path \<Rightarrow> nat option"
  read_to_string :: "path \<Rightarrow> rstring option"
  from_str :: "rstring \<Rightarrow> 'n json option"

section \<open>Limits and errors\<close>

record json_limits =
  max_bytes :: nat
  max_depth :: nat

definition DEFAULT_LIMITS :: json_limits where
  "DEFAULT_LIMITS = \<lparr>max_bytes = 4 * 1024 * 1024, max_depth = 64\<rparr>"

definition with_max_bytes :: "nat \<Rightarrow> json_limits" where
  "with_max_bytes n = DEFAULT_LIMITS\<lparr>max_bytes := n\<rparr>"

datatype json_error =
    JsonIo path
  | JsonTooLarge path nat nat
  | JsonInvalid path

type_synonym 'a json_result = "json_error + 'a"

fun json_error_path :: "json_error \<Rightarrow> path" where
  "json_error_path (JsonIo p) = p"
| "json_error_path (JsonTooLarge p _ _) = p"
| "json_error_path (JsonInvalid p) = p"

fun json_server_error :: "json_error \<Rightarrow> server_error" where
  "json_server_error (JsonIo _) = Operational"
| "json_server_error _ = CorruptData"

section \<open>Reading\<close>

definition parse_json :: "'n pack_disk \<Rightarrow> rstring \<Rightarrow> path \<Rightarrow> 'n json json_result" where
  "parse_json disk s path = (case from_str disk s of None \<Rightarrow> Inl (JsonInvalid path) | Some v \<Rightarrow> Inr v)"

definition read_json :: "'n pack_disk \<Rightarrow> path \<Rightarrow> json_limits \<Rightarrow> 'n json json_result" where
  "read_json disk path limits =
     (case metadata_len disk path of
        None \<Rightarrow> Inl (JsonIo path)
      | Some len \<Rightarrow>
          if max_bytes limits < len then Inl (JsonTooLarge path len (max_bytes limits))
          else
            (case read_to_string disk path of
               None \<Rightarrow> Inl (JsonIo path)
             | Some s \<Rightarrow> parse_json disk s path))"

definition into_object :: "'n json \<Rightarrow> path \<Rightarrow> 'n json_map json_result" where
  "into_object v path = (case v of JObject m \<Rightarrow> Inr m | _ \<Rightarrow> Inl (JsonInvalid path))"

definition read_json_object :: "'n pack_disk \<Rightarrow> path \<Rightarrow> json_limits \<Rightarrow> 'n json_map json_result" where
  "read_json_object disk path limits = and_then (read_json disk path limits) (\<lambda>v. into_object v path)"

fun json_type_name :: "'n json \<Rightarrow> rstring" where
  "json_type_name JNull = lit ''null''"
| "json_type_name (JBool _) = lit ''a boolean''"
| "json_type_name (JNumber _) = lit ''a number''"
| "json_type_name (JString _) = lit ''a string''"
| "json_type_name (JArray _) = lit ''an array''"
| "json_type_name (JObject _) = lit ''an object''"

definition required_str :: "'n json_map \<Rightarrow> rstring \<Rightarrow> path \<Rightarrow> rstring json_result" where
  "required_str m key path =
     (case map_of m key of
        Some (JString s) \<Rightarrow> Inr s
      | Some _ \<Rightarrow> Inl (JsonInvalid path)
      | None \<Rightarrow> Inl (JsonInvalid path))"

definition optional_str :: "'n json_map \<Rightarrow> rstring \<Rightarrow> path \<Rightarrow> rstring option json_result" where
  "optional_str m key path =
     (case map_of m key of
        None \<Rightarrow> Inr None
      | Some JNull \<Rightarrow> Inr None
      | Some (JString s) \<Rightarrow> Inr (Some s)
      | Some _ \<Rightarrow> Inl (JsonInvalid path))"

definition optional_i64 :: "'n numbers \<Rightarrow> 'n json_map \<Rightarrow> rstring \<Rightarrow> path \<Rightarrow> int option json_result" where
  "optional_i64 num m key path =
     (case map_of m key of
        None \<Rightarrow> Inr None
      | Some JNull \<Rightarrow> Inr None
      | Some (JNumber n) \<Rightarrow> (case num_as_i64 num n of None \<Rightarrow> Inl (JsonInvalid path) | Some i \<Rightarrow> Inr (Some i))
      | Some _ \<Rightarrow> Inl (JsonInvalid path))"

definition optional_f64 :: "'n numbers \<Rightarrow> 'n json_map \<Rightarrow> rstring \<Rightarrow> path \<Rightarrow> u64 option json_result" where
  "optional_f64 num m key path =
     (case map_of m key of
        None \<Rightarrow> Inr None
      | Some JNull \<Rightarrow> Inr None
      | Some (JNumber n) \<Rightarrow> (case num_as_f64 num n of None \<Rightarrow> Inl (JsonInvalid path) | Some x \<Rightarrow> Inr (Some x))
      | Some _ \<Rightarrow> Inl (JsonInvalid path))"

definition required_array :: "'n json_map \<Rightarrow> rstring \<Rightarrow> path \<Rightarrow> 'n json list json_result" where
  "required_array m key path =
     (case map_of m key of
        Some (JArray vs) \<Rightarrow> Inr vs
      | Some _ \<Rightarrow> Inl (JsonInvalid path)
      | None \<Rightarrow> Inl (JsonInvalid path))"

text \<open>A loop that collects what each element gives and stops at the first error.\<close>

fun collect :: "('a \<Rightarrow> 'e + 'b) \<Rightarrow> 'a list \<Rightarrow> 'e + 'b list" where
  "collect f [] = Inr []"
| "collect f (x # xs) = and_then (f x) (\<lambda>y. and_then (collect f xs) (\<lambda>ys. Inr (y # ys)))"

lemma collect_Inr: "collect f xs = Inr ys \<longleftrightarrow> list_all2 (\<lambda>x y. f x = Inr y) xs ys"
  by (induction xs arbitrary: ys) (auto simp: and_then_Inr list_all2_Cons1)

text \<open>A file over the limit is refused before it is read, and nothing else asks for its text.\<close>

lemma large_files_are_not_read:
  "metadata_len disk path = Some len \<Longrightarrow> max_bytes limits < len \<Longrightarrow>
     read_json disk path limits = Inl (JsonTooLarge path len (max_bytes limits))"
  by (simp add: read_json_def)

end
