(* ===== verification/Tags.thy ===== *)
theory Tags
  imports Json TickQueue Dimensions
begin

text \<open>
  \<open>crates/data/src/tag.rs\<close> and \<open>tag_resolve.rs\<close>: the files of a tag directory, their parsing, and
  the resolution of every tag to the ids it holds. Ordered maps and sets are kept in key order.
\<close>

section \<open>Keys\<close>

text \<open>The order \<open>derive(Ord)\<close> gives identifiers and tag keys, field by field.\<close>

instantiation resource_id_ext :: (linorder) linorder
begin

definition less_eq_resource_id_ext :: "'a resource_id_ext \<Rightarrow> 'a resource_id_ext \<Rightarrow> bool" where
  "less_eq_resource_id_ext r s \<longleftrightarrow>
     (namespace r, rvalue r, resource_id.more r) \<le> (namespace s, rvalue s, resource_id.more s)"

definition less_resource_id_ext :: "'a resource_id_ext \<Rightarrow> 'a resource_id_ext \<Rightarrow> bool" where
  "less_resource_id_ext r s \<longleftrightarrow>
     (namespace r, rvalue r, resource_id.more r) < (namespace s, rvalue s, resource_id.more s)"

instance
  by standard (auto simp: less_eq_resource_id_ext_def less_resource_id_ext_def intro: resource_id.equality)

end

record tag_key =
  tk_registry :: rstring
  tk_name :: resource_id

instantiation tag_key_ext :: (linorder) linorder
begin

definition less_eq_tag_key_ext :: "'a tag_key_ext \<Rightarrow> 'a tag_key_ext \<Rightarrow> bool" where
  "less_eq_tag_key_ext r s \<longleftrightarrow>
     (tk_registry r, tk_name r, tag_key.more r) \<le> (tk_registry s, tk_name s, tag_key.more s)"

definition less_tag_key_ext :: "'a tag_key_ext \<Rightarrow> 'a tag_key_ext \<Rightarrow> bool" where
  "less_tag_key_ext r s \<longleftrightarrow>
     (tk_registry r, tk_name r, tag_key.more r) < (tk_registry s, tk_name s, tag_key.more s)"

instance
  by standard (auto simp: less_eq_tag_key_ext_def less_tag_key_ext_def intro: tag_key.equality)

end

definition SLASH :: nat where "SLASH = of_char (CHR ''/'')"
definition HASH :: nat where "HASH = of_char (CHR ''#'')"
definition COLON :: nat where "COLON = of_char (CHR '':'')"

text \<open>The error of \<open>TagKey::parse\<close> names the text as its path.\<close>

definition parse_tag_key :: "rstring \<Rightarrow> tag_key json_result" where
  "parse_tag_key s =
     (case split_once SLASH s of
        None \<Rightarrow> Inl (JsonInvalid [s])
      | Some (reg, name) \<Rightarrow>
          (case parse_id name of
             Inl _ \<Rightarrow> Inl (JsonInvalid [s])
           | Inr r \<Rightarrow> Inr \<lparr>tk_registry = reg, tk_name = r\<rparr>))"

definition tag_relative_path :: "tag_key \<Rightarrow> rstring" where
  "tag_relative_path k =
     lit ''tags/'' @ tk_registry k @ lit ''/'' @ namespace (tk_name k) @ lit ''/'' @ rvalue (tk_name k) @ lit ''.json''"

definition display_tag_key :: "tag_key \<Rightarrow> rstring" where
  "display_tag_key k = tk_registry k @ lit ''/'' @ display_id (tk_name k)"

section \<open>Entries and files\<close>

datatype tag_entry =
    TagId resource_id
  | TagRef tag_key
  | OptionalId resource_id
  | OptionalTag tag_key

fun is_optional_entry :: "tag_entry \<Rightarrow> bool" where
  "is_optional_entry (OptionalId _) = True"
| "is_optional_entry (OptionalTag _) = True"
| "is_optional_entry _ = False"

fun as_tag :: "tag_entry \<Rightarrow> tag_key option" where
  "as_tag (TagRef k) = Some k"
| "as_tag (OptionalTag k) = Some k"
| "as_tag _ = None"

fun entry_id :: "tag_entry \<Rightarrow> resource_id option" where
  "entry_id (TagId r) = Some r"
| "entry_id (OptionalId r) = Some r"
| "entry_id _ = None"

record tag_value =
  tv_replace :: bool
  tv_entries :: "tag_entry list"

definition empty_tag_value :: tag_value where
  "empty_tag_value = \<lparr>tv_replace = False, tv_entries = []\<rparr>"

datatype tag_problem =
    MissingTag tag_key tag_key
  | OptionalMissingTag tag_key tag_key
  | MissingId tag_key resource_id rstring
  | OptionalMissingId tag_key resource_id rstring
  | TagCycle "tag_key list"
  | TooDeep tag_key nat

text \<open>What a skipped file is reported with: the message of the source says the same.\<close>

datatype skip_reason = NoRegistry path | UnusableName path | BadFile json_error

record tag_report =
  tr_files :: nat
  tr_skipped :: "skip_reason list"
  tr_problems :: "tag_problem list"
  tr_unknown :: "rstring list"

definition empty_tag_report :: tag_report where
  "empty_tag_report = \<lparr>tr_files = 0, tr_skipped = [], tr_problems = [], tr_unknown = []\<rparr>"

definition tags_clean :: "tag_report \<Rightarrow> bool" where
  "tags_clean r \<longleftrightarrow> tr_skipped r = [] \<and> tr_problems r = [] \<and> tr_unknown r = []"

definition tag_cycles :: "tag_report \<Rightarrow> tag_problem list" where
  "tag_cycles r = filter (\<lambda>p. case p of TagCycle _ \<Rightarrow> True | _ \<Rightarrow> False) (tr_problems r)"

definition tag_errors :: "tag_report \<Rightarrow> tag_problem list" where
  "tag_errors r =
     filter (\<lambda>p. \<not> (case p of OptionalMissingTag _ _ \<Rightarrow> True | OptionalMissingId _ _ _ \<Rightarrow> True | _ \<Rightarrow> False)) (tr_problems r)"

section \<open>Tag sets and known registries\<close>

type_synonym tag_set = "(tag_key, resource_id ordered_set) ordered_map"

definition tag_members :: "tag_set \<Rightarrow> tag_key \<Rightarrow> resource_id ordered_set option" where
  "tag_members t k = map_of t k"

definition contains_tag :: "tag_set \<Rightarrow> tag_key \<Rightarrow> bool" where
  "contains_tag t k \<longleftrightarrow> map_of t k \<noteq> None"

definition tag_contains :: "tag_set \<Rightarrow> tag_key \<Rightarrow> resource_id \<Rightarrow> bool" where
  "tag_contains t k r \<longleftrightarrow> (case map_of t k of None \<Rightarrow> False | Some s \<Rightarrow> r \<in> set s)"

definition tags_in_registry :: "tag_set \<Rightarrow> rstring \<Rightarrow> tag_key list" where
  "tags_in_registry t reg = filter (\<lambda>k. tk_registry k = reg) (map fst t)"

definition tag_registries :: "tag_set \<Rightarrow> rstring list" where
  "tag_registries t = os_extend [] (map (tk_registry \<circ> fst) t)"

definition total_entries :: "tag_set \<Rightarrow> nat" where
  "total_entries t = sum_list (map (length \<circ> snd) t)"

definition insert_tag :: "tag_set \<Rightarrow> tag_key \<Rightarrow> resource_id ordered_set \<Rightarrow> tag_set" where
  "insert_tag t k ids = om_insert k ids t"

type_synonym registry_contents = "(rstring, resource_id ordered_set) ordered_map"

definition insert_contents :: "registry_contents \<Rightarrow> rstring \<Rightarrow> resource_id ordered_set \<Rightarrow> registry_contents" where
  "insert_contents c reg ids = om_insert reg ids c"

definition contents_contains :: "registry_contents \<Rightarrow> rstring \<Rightarrow> resource_id \<Rightarrow> bool option" where
  "contents_contains c reg r = map_option (\<lambda>ids. r \<in> set ids) (map_of c reg)"

section \<open>Where a file belongs\<close>

definition TAG_REGISTRIES :: "rstring list" where
  "TAG_REGISTRIES =
     map lit [''worldgen/biome'', ''worldgen/configured_feature'', ''worldgen/flat_level_generator_preset'',
       ''worldgen/structure'', ''worldgen/world_preset'', ''banner_pattern'', ''block'', ''damage_type'', ''dialog'',
       ''enchantment'', ''entity_type'', ''fluid'', ''game_event'', ''instrument'', ''item'', ''painting_variant'',
       ''point_of_interest_type'', ''potion'', ''timeline'', ''villager_trade'']"

text \<open>\<open>str::strip_prefix\<close>.\<close>

definition strip_prefix :: "rstring \<Rightarrow> rstring \<Rightarrow> rstring option" where
  "strip_prefix p s = (if take (length p) s = p then Some (drop (length p) s) else None)"

fun match_registry :: "rstring list \<Rightarrow> rstring \<Rightarrow> (rstring \<times> rstring \<times> bool) option" where
  "match_registry [] relative = None"
| "match_registry (reg # regs) relative =
     (case strip_prefix reg relative of
        None \<Rightarrow> match_registry regs relative
      | Some rest \<Rightarrow>
          (case strip_prefix [SLASH] rest of
             None \<Rightarrow> match_registry regs relative
           | Some tag_path \<Rightarrow> Some (reg, tag_path, True)))"

definition split_registry :: "rstring \<Rightarrow> rstring \<times> rstring \<times> bool" where
  "split_registry relative =
     (case match_registry TAG_REGISTRIES relative of
        Some r \<Rightarrow> r
      | None \<Rightarrow>
          (case split_once SLASH relative of
             Some (first, rest) \<Rightarrow> (first, rest, False)
           | None \<Rightarrow> (relative, [], False)))"

section \<open>Reading a file\<close>

definition parse_named :: "rstring \<Rightarrow> bool \<Rightarrow> tag_key \<Rightarrow> path \<Rightarrow> tag_entry json_result" where
  "parse_named s optional owner path =
     (let (is_reference, rest) = (case strip_prefix [HASH] s of Some rest \<Rightarrow> (True, rest) | None \<Rightarrow> (False, s));
          qualified = (if COLON \<in> set rest then rest else namespace (tk_name owner) @ [COLON] @ rest)
      in case parse_id qualified of
           Inl _ \<Rightarrow> Inl (JsonInvalid path)
         | Inr r \<Rightarrow>
             Inr (if is_reference
                  then (if optional then OptionalTag \<lparr>tk_registry = tk_registry owner, tk_name = r\<rparr>
                        else TagRef \<lparr>tk_registry = tk_registry owner, tk_name = r\<rparr>)
                  else (if optional then OptionalId r else TagId r)))"

definition parse_tag_value :: "tag_key \<Rightarrow> path \<Rightarrow> 'n json \<Rightarrow> tag_entry json_result" where
  "parse_tag_value owner path v =
     (case v of
        JString s \<Rightarrow> parse_named s False owner path
      | JObject entry \<Rightarrow>
          and_then (required_str entry (lit ''id'') path) (\<lambda>r.
          and_then (case map_of entry (lit ''required'') of
                      None \<Rightarrow> Inr True
                    | Some (JBool flag) \<Rightarrow> Inr flag
                    | Some _ \<Rightarrow> Inl (JsonInvalid path)) (\<lambda>required.
            parse_named r (\<not> required) owner path))
      | _ \<Rightarrow> Inl (JsonInvalid path))"

definition read_tag_file :: "'n pack_disk \<Rightarrow> path \<Rightarrow> tag_key \<Rightarrow> json_limits \<Rightarrow> tag_value json_result" where
  "read_tag_file disk path key limits =
     and_then (read_json_object disk path limits) (\<lambda>m.
     and_then (case map_of m (lit ''replace'') of
                 None \<Rightarrow> Inr False
               | Some (JBool flag) \<Rightarrow> Inr flag
               | Some _ \<Rightarrow> Inl (JsonInvalid path)) (\<lambda>replace.
     and_then (required_array m (lit ''values'') path) (\<lambda>vs.
     and_then (collect (parse_tag_value key path) vs) (\<lambda>entries.
       Inr \<lparr>tv_replace = replace, tv_entries = entries\<rparr>))))"

section \<open>Walking a directory\<close>

text \<open>\<open>Path::extension\<close> and \<open>with_extension("")\<close> on a file name: the part after the last dot, if
  the dot is not the first character.\<close>

definition split_extension :: "rstring \<Rightarrow> (rstring \<times> rstring) option" where
  "split_extension name =
     (let dot = of_char (CHR ''.''); ext = rev (takeWhile (\<lambda>c. c \<noteq> dot) (rev name));
          stem = take (length name - length ext - 1) name
      in if length ext = length name \<or> stem = [] \<or> name = lit ''..'' then None else Some (stem, ext))"

definition is_json_file :: "path \<Rightarrow> bool" where
  "is_json_file p \<longleftrightarrow> p \<noteq> [] \<and> (case split_extension (last p) of None \<Rightarrow> False | Some (_, ext) \<Rightarrow> ext = lit ''json'')"

definition without_extension :: "path \<Rightarrow> path" where
  "without_extension p =
     (if p = [] then []
      else case split_extension (last p) of None \<Rightarrow> p | Some (stem, _) \<Rightarrow> butlast p @ [stem])"

text \<open>The directory's entries in reverse order: directories go on the stack, JSON files to the output.\<close>

fun push_entries :: "'n pack_disk \<Rightarrow> path list \<Rightarrow> path list \<Rightarrow> path list \<Rightarrow> path list \<times> path list" where
  "push_entries disk [] stack out = (stack, out)"
| "push_entries disk (p # ps) stack out =
     (if is_dir disk p then push_entries disk ps (p # stack) out
      else if is_json_file p then push_entries disk ps stack (out @ [p])
      else push_entries disk ps stack out)"

partial_function (option) walk_files :: "'n pack_disk \<Rightarrow> path list \<Rightarrow> path list \<Rightarrow> path list option" where
  "walk_files disk stack out =
     (case stack of
        [] \<Rightarrow> Some out
      | current # stack \<Rightarrow>
          (case read_dir disk current of
             None \<Rightarrow> walk_files disk stack out
           | Some entries \<Rightarrow>
               (case push_entries disk (rev (sort entries)) stack out of
                  (stack, out) \<Rightarrow> walk_files disk stack out)))"

definition json_files :: "'n pack_disk \<Rightarrow> path \<Rightarrow> path list option" where
  "json_files disk dir = map_option sort (walk_files disk [dir] [])"

text \<open>One file of \<open>load_directory\<close>; on a system whose separator is the slash, the stem is the
  components joined by it.\<close>

fun join_with :: "nat \<Rightarrow> rstring list \<Rightarrow> rstring" where
  "join_with c [] = []"
| "join_with c [s] = s"
| "join_with c (s # t # ss) = s @ [c] @ join_with c (t # ss)"

text \<open>\<open>str::replace\<close> of one character.\<close>

definition replace_char :: "nat \<Rightarrow> nat \<Rightarrow> rstring \<Rightarrow> rstring" where
  "replace_char a b s = map (\<lambda>c. if c = a then b else c) s"

definition file_stem :: "path \<Rightarrow> path \<Rightarrow> rstring" where
  "file_stem base p = replace_char 92 SLASH (join_with SLASH (without_extension (drop (length base) p)))"

definition load_tag_file ::
  "'n pack_disk \<Rightarrow> path \<Rightarrow> rstring \<Rightarrow> json_limits \<Rightarrow> path \<Rightarrow> (tag_key \<times> tag_value) list \<times> tag_report \<Rightarrow>
   (tag_key \<times> tag_value) list \<times> tag_report"
where
  "load_tag_file disk base ns limits p acc =
     (let (out, report) = acc
      in if take (length base) p \<noteq> base then (out, report)
         else
           let (reg, tag_path, recognised) = split_registry (file_stem base p)
           in if tag_path = [] then (out, report\<lparr>tr_skipped := tr_skipped report @ [NoRegistry p]\<rparr>)
              else
                let report = (if recognised then report else report\<lparr>tr_unknown := tr_unknown report @ [reg]\<rparr>)
                in case parse_id (ns @ [COLON] @ tag_path) of
                     Inl _ \<Rightarrow> (out, report\<lparr>tr_skipped := tr_skipped report @ [UnusableName p]\<rparr>)
                   | Inr name \<Rightarrow>
                       let key = \<lparr>tk_registry = reg, tk_name = name\<rparr>
                       in case read_tag_file disk p key limits of
                            Inr v \<Rightarrow> (out @ [(key, v)], report)
                          | Inl e \<Rightarrow> (out, report\<lparr>tr_skipped := tr_skipped report @ [BadFile e]\<rparr>))"

definition load_tag_directory ::
  "'n pack_disk \<Rightarrow> path \<Rightarrow> rstring \<Rightarrow> json_limits \<Rightarrow> tag_report \<Rightarrow> ((tag_key \<times> tag_value) list \<times> tag_report) option"
where
  "load_tag_directory disk root ns limits report =
     (let base = root @ [lit ''tags'']
      in map_option (\<lambda>files. fold (load_tag_file disk base ns limits) files ([], report)) (json_files disk base))"

section \<open>Resolution\<close>

definition MAX_TAG_DEPTH :: nat where "MAX_TAG_DEPTH = 64"

type_synonym merged_tags = "(tag_key, tag_value) ordered_map"

definition merge_file :: "tag_key \<times> tag_value \<Rightarrow> merged_tags \<Rightarrow> merged_tags" where
  "merge_file f merged =
     (let (key, v) = f;
          slot = (case map_of merged key of None \<Rightarrow> empty_tag_value | Some s \<Rightarrow> s)
      in om_insert key (if tv_replace v then v else slot\<lparr>tv_entries := tv_entries slot @ tv_entries v\<rparr>) merged)"

definition merge_tags :: "(tag_key \<times> tag_value) list \<Rightarrow> tag_report \<Rightarrow> merged_tags \<times> tag_report" where
  "merge_tags ordered report =
     fold (\<lambda>f (merged, report). (merge_file f merged, report\<lparr>tr_files := tr_files report + 1\<rparr>)) ordered ([], report)"

definition add_problem :: "tag_problem \<Rightarrow> tag_report \<Rightarrow> tag_report" where
  "add_problem p report = report\<lparr>tr_problems := tr_problems report @ [p]\<rparr>"

text \<open>An id of the tag: kept, or reported.\<close>

definition resolve_id ::
  "registry_contents \<Rightarrow> tag_key \<Rightarrow> bool \<Rightarrow> resource_id \<Rightarrow> resource_id ordered_set \<times> tag_report \<Rightarrow>
   resource_id ordered_set \<times> tag_report"
where
  "resolve_id contents key optional r acc =
     (let (own, report) = acc
      in case contents_contains contents (tk_registry key) r of
           None \<Rightarrow> (os_insert r own, report)
         | Some True \<Rightarrow> (os_insert r own, report)
         | Some False \<Rightarrow>
             (own, add_problem (if optional then OptionalMissingId key r (tk_registry key)
                                else MissingId key r (tk_registry key)) report))"

text \<open>
  \<open>resolve_into\<close> and its loop over the entries. The state is the memo, the report and the set
  being filled; the path of tags under resolution grows with the depth and is given back as it
  was.
\<close>

function resolve_into ::
    "merged_tags \<Rightarrow> registry_contents \<Rightarrow> tag_key list \<Rightarrow> nat \<Rightarrow> tag_key \<Rightarrow>
     tag_set \<times> tag_report \<times> resource_id ordered_set \<Rightarrow> tag_set \<times> tag_report \<times> resource_id ordered_set" and
  resolve_entries ::
    "merged_tags \<Rightarrow> registry_contents \<Rightarrow> tag_key list \<Rightarrow> nat \<Rightarrow> tag_key \<Rightarrow> tag_entry list \<Rightarrow>
     tag_set \<times> tag_report \<times> resource_id ordered_set \<Rightarrow> tag_set \<times> tag_report \<times> resource_id ordered_set"
where
  "resolve_into merged contents resolving depth key st =
     (let (memo, report, out) = st
      in case map_of memo key of
           Some ids \<Rightarrow> (memo, report, os_extend out ids)
         | None \<Rightarrow>
             if MAX_TAG_DEPTH < depth then (memo, add_problem (TooDeep key MAX_TAG_DEPTH) report, out)
             else if key \<in> set resolving then (memo, add_problem (TagCycle (resolving @ [key])) report, out)
             else
               let entries = (case map_of merged key of None \<Rightarrow> [] | Some v \<Rightarrow> tv_entries v);
                   (memo, report, own) = resolve_entries merged contents (resolving @ [key]) depth key entries (memo, report, [])
               in (om_insert key own memo, report, os_extend out own))"
| "resolve_entries merged contents resolving depth key [] st = st"
| "resolve_entries merged contents resolving depth key (e # es) st =
     resolve_entries merged contents resolving depth key es
       (case entry_id e of
          Some r \<Rightarrow>
            (let (memo, report, own) = st; (own, report) = resolve_id contents key (is_optional_entry e) r (own, report)
             in (memo, report, own))
        | None \<Rightarrow>
            (case as_tag e of
               None \<Rightarrow> st
             | Some target \<Rightarrow>
                 if map_of merged target \<noteq> None then resolve_into merged contents resolving (depth + 1) target st
                 else
                   let (memo, report, own) = st
                   in (memo, add_problem (if is_optional_entry e then OptionalMissingTag key target else MissingTag key target) report, own)))"
  by pat_completeness auto

termination
  by (relation "measures [\<lambda>x. case x of
          Inl (_, _, _, depth, _) \<Rightarrow> if MAX_TAG_DEPTH < depth then 0 else 2 * (Suc MAX_TAG_DEPTH - depth)
        | Inr (_, _, _, depth, _) \<Rightarrow> if MAX_TAG_DEPTH < depth then 1 else 2 * (Suc MAX_TAG_DEPTH - depth) - 1,
      \<lambda>x. case x of Inl _ \<Rightarrow> 0 | Inr (_, _, _, _, _, es, _) \<Rightarrow> length es]")
    auto

declare resolve_into.simps [simp del]

definition resolve_all ::
  "(tag_key \<times> tag_value) list \<Rightarrow> registry_contents \<Rightarrow> tag_report \<Rightarrow> tag_set \<times> tag_report"
where
  "resolve_all ordered contents report =
     (let (merged, report) = merge_tags ordered report
      in fold (\<lambda>key (memo, report).
             if map_of memo key = None
             then (let (memo, report, _) = resolve_into merged contents [] 0 key (memo, report, []) in (memo, report))
             else (memo, report))
           (map fst merged) ([], report))"

end
