(* ===== verification/TagLaws.thy ===== *)
theory TagLaws
  imports Tags
begin

text \<open>
  What tag resolution guarantees: the set of a tag holds nothing but the ids its entries reach,
  it holds all of them unless a guard was reported, and no guard is reported when references
  descend in at most as many levels as the limit allows.
\<close>

section \<open>The specification\<close>

text \<open>The ids a tag holds: its own known ids and those of the tags it references.\<close>

inductive tag_holds :: "merged_tags \<Rightarrow> registry_contents \<Rightarrow> tag_key \<Rightarrow> resource_id \<Rightarrow> bool"
  for merged contents
where
  own: "map_of merged k = Some v \<Longrightarrow> e \<in> set (tv_entries v) \<Longrightarrow> entry_id e = Some r \<Longrightarrow>
    contents_contains contents (tk_registry k) r \<noteq> Some False \<Longrightarrow> tag_holds merged contents k r"
| nested: "map_of merged k = Some v \<Longrightarrow> e \<in> set (tv_entries v) \<Longrightarrow> as_tag e = Some t \<Longrightarrow>
    tag_holds merged contents t r \<Longrightarrow> tag_holds merged contents k r"

inductive_cases tag_holds_cases: "tag_holds merged contents k r"

text \<open>A report of a cut: resolution did not follow a reference.\<close>

definition is_guard :: "tag_problem \<Rightarrow> bool" where
  "is_guard p \<longleftrightarrow> (case p of TagCycle _ \<Rightarrow> True | TooDeep _ _ \<Rightarrow> True | _ \<Rightarrow> False)"

definition unguarded :: "tag_report \<Rightarrow> bool" where
  "unguarded report \<longleftrightarrow> list_all (\<lambda>p. \<not> is_guard p) (tr_problems report)"

lemma unguarded_add [simp]: "unguarded (add_problem p report) \<longleftrightarrow> unguarded report \<and> \<not> is_guard p"
  by (auto simp: unguarded_def add_problem_def)

text \<open>What the entries of a tag add.\<close>

definition entry_holds :: "merged_tags \<Rightarrow> registry_contents \<Rightarrow> tag_key \<Rightarrow> tag_entry \<Rightarrow> resource_id \<Rightarrow> bool" where
  "entry_holds merged contents key e r \<longleftrightarrow>
     (entry_id e = Some r \<and> contents_contains contents (tk_registry key) r \<noteq> Some False) \<or>
     (\<exists>t. as_tag e = Some t \<and> tag_holds merged contents t r)"

lemma tag_holds_entries:
  "tag_holds merged contents k r \<longleftrightarrow>
     (\<exists>e \<in> set (case map_of merged k of None \<Rightarrow> [] | Some v \<Rightarrow> tv_entries v). entry_holds merged contents k e r)"
proof
  assume "tag_holds merged contents k r"
  then show "\<exists>e \<in> set (case map_of merged k of None \<Rightarrow> [] | Some v \<Rightarrow> tv_entries v). entry_holds merged contents k e r"
    by cases (auto simp: entry_holds_def)
next
  assume "\<exists>e \<in> set (case map_of merged k of None \<Rightarrow> [] | Some v \<Rightarrow> tv_entries v). entry_holds merged contents k e r"
  then obtain v e where e: "map_of merged k = Some v" "e \<in> set (tv_entries v)" "entry_holds merged contents k e r"
    by (cases "map_of merged k") auto
  from e(3) show "tag_holds merged contents k r" unfolding entry_holds_def
    using tag_holds.own [OF e(1,2)] tag_holds.nested [OF e(1,2)] by blast
qed

lemma entry_cases: "(\<exists>r. entry_id e = Some r \<and> as_tag e = None) \<or> (\<exists>t. entry_id e = None \<and> as_tag e = Some t)"
  by (cases e) auto

lemma absent_tag: "map_of merged t = None \<Longrightarrow> \<not> tag_holds merged contents t r"
  by (auto elim: tag_holds_cases)

lemma set_os_extend [simp]: "set (os_extend s xs) = set s \<union> set xs"
  by (induction xs arbitrary: s) (auto simp: os_extend_def)

lemma os_ok_extend [simp]: "os_ok s \<Longrightarrow> os_ok (os_extend s xs)"
  by (induction xs arbitrary: s) (simp_all add: os_extend_def)

section \<open>The invariant\<close>

text \<open>Every memoised set is sorted and sound; in a complete memo it is all the tag holds.\<close>

definition memo_sound :: "merged_tags \<Rightarrow> registry_contents \<Rightarrow> tag_set \<Rightarrow> bool" where
  "memo_sound merged contents memo \<longleftrightarrow>
     om_ok memo \<and> (\<forall>k ids. map_of memo k = Some ids \<longrightarrow> os_ok ids \<and> (\<forall>r \<in> set ids. tag_holds merged contents k r))"

definition memo_full :: "merged_tags \<Rightarrow> registry_contents \<Rightarrow> tag_set \<Rightarrow> bool" where
  "memo_full merged contents memo \<longleftrightarrow> (\<forall>k ids r. map_of memo k = Some ids \<longrightarrow> tag_holds merged contents k r \<longrightarrow> r \<in> set ids)"

text \<open>What a step from \<open>st\<close> to \<open>st'\<close> keeps, when it may add the ids in \<open>H\<close>.\<close>

definition resolves ::
  "merged_tags \<Rightarrow> registry_contents \<Rightarrow> (resource_id \<Rightarrow> bool) \<Rightarrow> tag_set \<times> tag_report \<times> resource_id ordered_set \<Rightarrow>
   tag_set \<times> tag_report \<times> resource_id ordered_set \<Rightarrow> bool"
where
  "resolves merged contents H st st' \<longleftrightarrow>
     (let (memo, report, out) = st; (memo', report', out') = st'
      in memo_sound merged contents memo \<and> os_ok out \<longrightarrow>
           memo_sound merged contents memo' \<and> os_ok out' \<and> dom (map_of memo) \<subseteq> dom (map_of memo') \<and>
           dom (map_of memo') \<subseteq> dom (map_of memo) \<union> dom (map_of merged) \<and>
           set out \<subseteq> set out' \<and> (\<forall>r \<in> set out'. r \<in> set out \<or> H r) \<and>
           (unguarded report' \<longrightarrow> unguarded report \<and>
              (memo_full merged contents memo \<longrightarrow> memo_full merged contents memo' \<and> (\<forall>r. H r \<longrightarrow> r \<in> set out'))))"

lemma resolves_refl: "resolves merged contents (\<lambda>_. False) st st"
  by (auto simp: resolves_def)

lemma resolves_trans:
  assumes "resolves merged contents H st st'" "resolves merged contents K st' st''"
  shows "resolves merged contents (\<lambda>r. H r \<or> K r) st st''"
proof -
  obtain m p o1 m' p' o' m'' p'' o'' where eqs: "st = (m, p, o1)" "st' = (m', p', o')" "st'' = (m'', p'', o'')"
    by (metis prod_cases3)
  show ?thesis unfolding eqs resolves_def Let_def prod.case
  proof (rule impI)
    assume pre: "memo_sound merged contents m \<and> os_ok o1"
    note one = mp [OF assms(1) [unfolded eqs resolves_def Let_def prod.case] pre]
    have "memo_sound merged contents m' \<and> os_ok o'" using one by blast
    note two = mp [OF assms(2) [unfolded eqs resolves_def Let_def prod.case] this]
    have first: "dom (map_of m) \<subseteq> dom (map_of m')" "dom (map_of m') \<subseteq> dom (map_of m) \<union> dom (map_of merged)"
      "set o1 \<subseteq> set o'" "\<forall>r \<in> set o'. r \<in> set o1 \<or> H r" "unguarded p' \<longrightarrow> unguarded p \<and>
        (memo_full merged contents m \<longrightarrow> memo_full merged contents m' \<and> (\<forall>r. H r \<longrightarrow> r \<in> set o'))"
      using one by simp_all
    have second: "dom (map_of m') \<subseteq> dom (map_of m'')" "dom (map_of m'') \<subseteq> dom (map_of m') \<union> dom (map_of merged)"
      "set o' \<subseteq> set o''" "\<forall>r \<in> set o''. r \<in> set o' \<or> K r" "unguarded p'' \<longrightarrow> unguarded p' \<and>
        (memo_full merged contents m' \<longrightarrow> memo_full merged contents m'' \<and> (\<forall>r. K r \<longrightarrow> r \<in> set o''))"
      using two by simp_all
    have "dom (map_of m) \<subseteq> dom (map_of m'')" by (rule subset_trans [OF first(1) second(1)])
    moreover have "dom (map_of m'') \<subseteq> dom (map_of m) \<union> dom (map_of merged)" using first(2) second(2) by blast
    moreover have "set o1 \<subseteq> set o''" by (rule subset_trans [OF first(3) second(3)])
    moreover have "\<forall>r \<in> set o''. r \<in> set o1 \<or> H r \<or> K r" using first(4) second(4) by blast
    moreover have "unguarded p'' \<longrightarrow> unguarded p" using first(5) second(5) by blast
    moreover have "unguarded p'' \<longrightarrow> memo_full merged contents m \<longrightarrow> memo_full merged contents m'' \<and> (\<forall>r. H r \<or> K r \<longrightarrow> r \<in> set o'')"
      using first(5) second(3,5) by blast
    ultimately show "memo_sound merged contents m'' \<and> os_ok o'' \<and> dom (map_of m) \<subseteq> dom (map_of m'') \<and>
           dom (map_of m'') \<subseteq> dom (map_of m) \<union> dom (map_of merged) \<and>
           set o1 \<subseteq> set o'' \<and> (\<forall>r \<in> set o''. r \<in> set o1 \<or> H r \<or> K r) \<and>
           (unguarded p'' \<longrightarrow> unguarded p \<and>
              (memo_full merged contents m \<longrightarrow> memo_full merged contents m'' \<and> (\<forall>r. H r \<or> K r \<longrightarrow> r \<in> set o'')))"
      using two by simp
  qed
qed

lemma resolve_id_step:
  assumes "entry_id e = Some r" "resolve_id contents key (is_optional_entry e) r (own, report) = (own', report')"
  shows "resolves merged contents (entry_holds merged contents key e) (memo, report, own) (memo, report', own')"
proof -
  have "as_tag e = None" using assms(1) entry_cases [of e] by auto
  then have holds: "entry_holds merged contents key e x \<longleftrightarrow> x = r \<and> contents_contains contents (tk_registry key) r \<noteq> Some False" for x
    using assms(1) by (auto simp: entry_holds_def)
  show ?thesis
  proof (cases "contents_contains contents (tk_registry key) r = Some False")
    case True
    then have "own' = own" "unguarded report' \<longleftrightarrow> unguarded report"
      using assms(2) by (auto simp: resolve_id_def is_guard_def)
    then show ?thesis using True by (simp add: resolves_def holds)
  next
    case False
    then have "own' = os_insert r own" "report' = report"
      using assms(2) by (auto simp: resolve_id_def split: option.splits bool.splits)
    then show ?thesis using False by (auto simp: resolves_def holds)
  qed
qed

lemma missing_tag_step:
  assumes "as_tag e = Some t" "map_of merged t = None" "\<not> is_guard p"
  shows "resolves merged contents (entry_holds merged contents key e) (memo, report, own) (memo, add_problem p report, own)"
proof -
  have "entry_id e = None" using assms(1) entry_cases [of e] by auto
  then have "\<not> entry_holds merged contents key e r" for r
    using assms(1,2) absent_tag by (auto simp: entry_holds_def)
  then show ?thesis using assms(3) by (auto simp: resolves_def)
qed

lemma memo_store:
  assumes "memo_sound merged contents memo" "os_ok own" "\<forall>r \<in> set own. tag_holds merged contents key r"
  shows "memo_sound merged contents (om_insert key own memo)"
    "memo_full merged contents memo \<Longrightarrow> \<forall>r. tag_holds merged contents key r \<longrightarrow> r \<in> set own \<Longrightarrow>
       memo_full merged contents (om_insert key own memo)"
  using assms by (auto simp: memo_sound_def memo_full_def)

lemma resolve_step:
  "key \<in> dom (map_of merged) \<Longrightarrow>
     resolves merged contents (tag_holds merged contents key) st (resolve_into merged contents resolving depth key st)"
  "key \<in> dom (map_of merged) \<Longrightarrow>
     resolves merged contents (\<lambda>r. \<exists>e \<in> set es. entry_holds merged contents key e r) st
       (resolve_entries merged contents resolving depth key es st)"
proof (induction merged contents resolving depth key st and merged contents resolving depth key es st
    rule: resolve_into_resolve_entries.induct)
  case (1 merged contents resolving depth key st)
  obtain memo report out where st: "st = (memo, report, out)" by (metis prod_cases3)
  show ?case
  proof (cases "map_of memo key")
    case (Some ids)
    then show ?thesis
      by (auto simp: st resolve_into.simps [of merged] resolves_def memo_sound_def memo_full_def)
  next
    case None
    show ?thesis
    proof (cases "MAX_TAG_DEPTH < depth \<or> key \<in> set resolving")
      case True
      then show ?thesis using None
        by (auto simp: st resolve_into.simps [of merged] resolves_def is_guard_def)
    next
      case False
      let ?es = "case map_of merged key of None \<Rightarrow> [] | Some v \<Rightarrow> tv_entries v"
      obtain memo' report' own where run: "resolve_entries merged contents (resolving @ [key]) depth key ?es (memo, report, []) = (memo', report', own)"
        by (metis prod_cases3)
      have ih: "resolves merged contents (tag_holds merged contents key) (memo, report, []) (memo', report', own)"
      proof -
        have holds: "tag_holds merged contents key = (\<lambda>r. \<exists>e \<in> set ?es. entry_holds merged contents key e r)"
          by (rule ext) (rule tag_holds_entries)
        show ?thesis unfolding holds
          using 1(1) [OF st [symmetric] refl refl None _ _ refl 1(2)] False unfolding run by blast
      qed
      have done_step: "resolve_into merged contents resolving depth key st = (om_insert key own memo', report', os_extend out own)"
        using None False run by (simp add: st resolve_into.simps [of merged] Let_def)
      show ?thesis
        unfolding st done_step [unfolded st] resolves_def Let_def prod.case
      proof (rule impI)
        assume pre: "memo_sound merged contents memo \<and> os_ok out"
        then have "memo_sound merged contents memo \<and> os_ok ([] :: resource_id list)" by simp
        note run = mp [OF ih [unfolded resolves_def Let_def prod.case] this]
        have own: "memo_sound merged contents memo'" "os_ok own" "\<forall>r \<in> set own. tag_holds merged contents key r"
          using run by simp_all
        have om: "om_ok memo'" using own(1) by (simp add: memo_sound_def)
        note store = memo_store [OF own]
        have dom: "dom (map_of (om_insert key own memo')) = insert key (dom (map_of memo'))" using om by simp
        have sub: "dom (map_of memo) \<subseteq> insert key (dom (map_of memo'))"
          "insert key (dom (map_of memo')) \<subseteq> dom (map_of memo) \<union> dom (map_of merged)"
          using run 1(2) by blast+
        have full: "unguarded report' \<longrightarrow> unguarded report \<and> (memo_full merged contents memo \<longrightarrow>
            memo_full merged contents (om_insert key own memo') \<and> (\<forall>r. tag_holds merged contents key r \<longrightarrow> r \<in> set own))"
          using run store(2) by blast
        show "memo_sound merged contents (om_insert key own memo') \<and> os_ok (os_extend out own) \<and>
           dom (map_of memo) \<subseteq> dom (map_of (om_insert key own memo')) \<and>
           dom (map_of (om_insert key own memo')) \<subseteq> dom (map_of memo) \<union> dom (map_of merged) \<and>
           set out \<subseteq> set (os_extend out own) \<and> (\<forall>r \<in> set (os_extend out own). r \<in> set out \<or> tag_holds merged contents key r) \<and>
           (unguarded report' \<longrightarrow> unguarded report \<and> (memo_full merged contents memo \<longrightarrow>
              memo_full merged contents (om_insert key own memo') \<and> (\<forall>r. tag_holds merged contents key r \<longrightarrow> r \<in> set (os_extend out own))))"
          unfolding dom using store(1) pre sub own(3) full by (simp add: ball_Un)
      qed
    qed
  qed
next
  case (2 merged contents resolving depth key st)
  then show ?case by (simp add: resolves_refl)
next
  case (3 merged contents resolving depth key e es st)
  obtain memo report own where st: "st = (memo, report, own)" by (metis prod_cases3)
  define st' where "st' = (case entry_id e of
          Some r \<Rightarrow>
            (let (memo, report, own) = st; (own, report) = resolve_id contents key (is_optional_entry e) r (own, report)
             in (memo, report, own))
        | None \<Rightarrow>
            (case as_tag e of
               None \<Rightarrow> st
             | Some target \<Rightarrow>
                 if map_of merged target \<noteq> None then resolve_into merged contents resolving (depth + 1) target st
                 else
                   let (memo, report, own) = st
                   in (memo, add_problem (if is_optional_entry e then OptionalMissingTag key target else MissingTag key target) report, own)))"
  have first: "resolves merged contents (entry_holds merged contents key e) st st'"
  proof (cases "entry_id e")
    case (Some r)
    obtain own' report' where "resolve_id contents key (is_optional_entry e) r (own, report) = (own', report')" by fastforce
    then show ?thesis using resolve_id_step [OF Some] Some by (simp add: st'_def st)
  next
    case None
    then obtain t where t: "as_tag e = Some t" using entry_cases [of e] by auto
    show ?thesis
    proof (cases "map_of merged t")
      case None
      then show ?thesis using missing_tag_step [OF t None] t \<open>entry_id e = None\<close>
        by (simp add: st'_def st is_guard_def)
    next
      case (Some v)
      have "entry_holds merged contents key e = tag_holds merged contents t"
        using t \<open>entry_id e = None\<close> by (auto simp: entry_holds_def)
      then show ?thesis using 3(1) [OF \<open>entry_id e = None\<close> t] Some t \<open>entry_id e = None\<close> by (auto simp: st'_def)
    qed
  qed
  have "resolves merged contents (\<lambda>r. \<exists>e \<in> set es. entry_holds merged contents key e r) st' (resolve_entries merged contents resolving depth key es st')"
    unfolding st'_def using 3(2) [OF 3(3)] .
  from resolves_trans [OF first this] show ?case unfolding st'_def by simp
qed

section \<open>Descending references\<close>

text \<open>The references of the declared tags descend, and nest no deeper than the limit.\<close>

definition tags_descend :: "merged_tags \<Rightarrow> (tag_key \<Rightarrow> nat) \<Rightarrow> bool" where
  "tags_descend merged rank \<longleftrightarrow>
     (\<forall>k v. map_of merged k = Some v \<longrightarrow> rank k \<le> MAX_TAG_DEPTH \<and>
        (\<forall>e \<in> set (tv_entries v). \<forall>t. as_tag e = Some t \<longrightarrow> map_of merged t \<noteq> None \<longrightarrow> rank t < rank k))"

lemma descending_unguarded:
  "tags_descend merged rank \<Longrightarrow> unguarded (fst (snd st)) \<Longrightarrow> depth + rank key \<le> MAX_TAG_DEPTH \<Longrightarrow>
     \<forall>k \<in> set resolving. rank key < rank k \<Longrightarrow>
     unguarded (fst (snd (resolve_into merged contents resolving depth key st)))"
  "tags_descend merged rank \<Longrightarrow> unguarded (fst (snd st)) \<Longrightarrow> depth + rank key \<le> MAX_TAG_DEPTH \<Longrightarrow>
     \<forall>k \<in> set resolving. rank key \<le> rank k \<Longrightarrow>
     set es \<subseteq> set (case map_of merged key of None \<Rightarrow> [] | Some v \<Rightarrow> tv_entries v) \<Longrightarrow>
     unguarded (fst (snd (resolve_entries merged contents resolving depth key es st)))"
proof (induction merged contents resolving depth key st and merged contents resolving depth key es st
    rule: resolve_into_resolve_entries.induct)
  case (1 merged contents resolving depth key st)
  obtain memo report out where st: "st = (memo, report, out)" by (metis prod_cases3)
  show ?case
  proof (cases "map_of memo key")
    case (Some ids)
    then show ?thesis using 1(3) by (simp add: st resolve_into.simps [of merged])
  next
    case None
    let ?es = "case map_of merged key of None \<Rightarrow> [] | Some v \<Rightarrow> tv_entries v"
    have guards: "\<not> MAX_TAG_DEPTH < depth" "key \<notin> set resolving" using 1(4,5) by auto
    have "unguarded (fst (snd (resolve_entries merged contents (resolving @ [key]) depth key ?es (memo, report, []))))"
      by (rule 1(1) [OF st [symmetric] refl refl None guards refl 1(2)]) (use 1(3-5) st in \<open>auto intro: less_imp_le\<close>)
    then show ?thesis using None guards
      by (simp add: st resolve_into.simps [of merged] Let_def split_beta)
  qed
next
  case (3 merged contents resolving depth key e es st)
  obtain memo report own where st: "st = (memo, report, own)" by (metis prod_cases3)
  define st' where "st' = (case entry_id e of
          Some r \<Rightarrow>
            (let (memo, report, own) = st; (own, report) = resolve_id contents key (is_optional_entry e) r (own, report)
             in (memo, report, own))
        | None \<Rightarrow>
            (case as_tag e of
               None \<Rightarrow> st
             | Some target \<Rightarrow>
                 if map_of merged target \<noteq> None then resolve_into merged contents resolving (depth + 1) target st
                 else
                   let (memo, report, own) = st
                   in (memo, add_problem (if is_optional_entry e then OptionalMissingTag key target else MissingTag key target) report, own)))"
  have "unguarded (fst (snd st'))"
  proof (cases "entry_id e")
    case (Some r)
    then show ?thesis using 3(4)
      by (auto simp: st'_def st resolve_id_def is_guard_def split: option.split bool.split)
  next
    case None
    then obtain t where t: "as_tag e = Some t" using entry_cases [of e] by auto
    show ?thesis
    proof (cases "map_of merged t")
      case None
      then show ?thesis using 3(4) t \<open>entry_id e = None\<close> by (simp add: st'_def st is_guard_def)
    next
      case (Some v)
      then have declared: "map_of merged t \<noteq> None" by simp
      have "rank t < rank key"
        using 3(3) [unfolded tags_descend_def] 3(7) t Some by (cases "map_of merged key") auto
      then have "unguarded (fst (snd (resolve_into merged contents resolving (depth + 1) t st)))"
        using 3(1) [OF \<open>entry_id e = None\<close> t declared 3(3,4)] 3(5,6) by fastforce
      then show ?thesis using t \<open>entry_id e = None\<close> declared by (simp add: st'_def)
    qed
  qed
  then have "unguarded (fst (snd (resolve_entries merged contents resolving depth key es st')))"
    unfolding st'_def using 3(2) [OF 3(3) _ 3(5,6)] 3(7) by simp
  then show ?case unfolding st'_def by simp
qed simp

section \<open>All tags\<close>

lemma merge_file_law:
  "om_ok merged \<Longrightarrow> om_ok (merge_file f merged) \<and> dom (map_of (merge_file f merged)) = insert (fst f) (dom (map_of merged))"
  by (simp add: merge_file_def Let_def split_beta)

lemma merge_tags_law:
  assumes "merge_tags ordered report = (merged, report')"
  shows "om_ok merged \<and> dom (map_of merged) = fst ` set ordered \<and> tr_problems report' = tr_problems report \<and>
    tr_files report' = tr_files report + length ordered"
proof -
  have "om_ok m \<Longrightarrow> fold (\<lambda>f (merged, report). (merge_file f merged, report\<lparr>tr_files := tr_files report + 1\<rparr>)) fs (m, rep) = (m', rep') \<Longrightarrow>
      om_ok m' \<and> dom (map_of m') = dom (map_of m) \<union> fst ` set fs \<and> tr_problems rep' = tr_problems rep \<and>
      tr_files rep' = tr_files rep + length fs" for fs m rep m' rep'
  proof (induction fs arbitrary: m rep)
    case (Cons f fs)
    note step = merge_file_law [OF Cons.prems(1), of f]
    have rest: "fold (\<lambda>f (merged, report). (merge_file f merged, report\<lparr>tr_files := tr_files report + 1\<rparr>)) fs
        (merge_file f m, rep\<lparr>tr_files := tr_files rep + 1\<rparr>) = (m', rep')"
      using Cons.prems(2) by simp
    show ?case using Cons.IH [OF conjunct1 [OF step] rest] step by simp
  qed simp
  from this [of "[]" ordered report merged report'] assms show ?thesis by (simp add: merge_tags_def)
qed

text \<open>One round of the loop over the declared keys.\<close>

definition resolve_key :: "merged_tags \<Rightarrow> registry_contents \<Rightarrow> tag_key \<Rightarrow> tag_set \<times> tag_report \<Rightarrow> tag_set \<times> tag_report" where
  "resolve_key merged contents key s =
     (if map_of (fst s) key = None
      then (let (memo, report, _) = resolve_into merged contents [] 0 key (fst s, snd s, []) in (memo, report)) else s)"

lemma resolve_all_keys:
  "resolve_all ordered contents report =
     (let (merged, report) = merge_tags ordered report in fold (resolve_key merged contents) (map fst merged) ([], report))"
proof -
  have "(\<lambda>key (memo, report).
             if map_of memo key = None
             then (let (memo, report, _) = resolve_into merged contents [] 0 key (memo, report, []) in (memo, report))
             else (memo, report)) = resolve_key merged contents" for merged
    by (intro ext) (simp add: resolve_key_def split_beta)
  then show ?thesis by (simp add: resolve_all_def)
qed

lemma resolve_into_stores:
  assumes "memo_sound merged contents memo" "key \<in> dom (map_of merged)"
    "resolve_into merged contents [] 0 key (memo, report, []) = (memo', report', own)"
  shows "key \<in> dom (map_of memo')"
proof (cases "map_of memo key")
  case (Some ids)
  then show ?thesis using assms(3) by (auto simp: resolve_into.simps [of merged])
next
  case None
  let ?es = "case map_of merged key of None \<Rightarrow> [] | Some v \<Rightarrow> tv_entries v"
  obtain m r o1 where run: "resolve_entries merged contents [key] 0 key ?es (memo, report, []) = (m, r, o1)" by (metis prod_cases3)
  have "resolves merged contents (\<lambda>r. \<exists>e \<in> set ?es. entry_holds merged contents key e r) (memo, report, []) (m, r, o1)"
    using resolve_step(2) [OF assms(2), of contents ?es "(memo, report, [])" "[key]" 0] run by simp
  then have "memo_sound merged contents m" using assms(1) by (simp add: resolves_def)
  then have "om_ok m" by (simp add: memo_sound_def)
  moreover have "memo' = om_insert key o1 m"
    using assms(3) unfolding resolve_into.simps [of merged contents "[]"] Let_def prod.case None option.case append_Nil run by simp
  ultimately show ?thesis by simp
qed

lemma resolve_key_law:
  assumes "memo_sound merged contents memo" "key \<in> dom (map_of merged)" "dom (map_of memo) \<subseteq> dom (map_of merged)"
    "resolve_key merged contents key (memo, report) = (memo', report')"
  shows "memo_sound merged contents memo' \<and> dom (map_of memo') \<subseteq> dom (map_of merged) \<and>
    insert key (dom (map_of memo)) \<subseteq> dom (map_of memo') \<and>
    (unguarded report' \<longrightarrow> unguarded report \<and> (memo_full merged contents memo \<longrightarrow> memo_full merged contents memo'))"
proof (cases "map_of memo key")
  case (Some ids)
  then show ?thesis using assms by (auto simp: resolve_key_def)
next
  case None
  obtain own where run: "resolve_into merged contents [] 0 key (memo, report, []) = (memo', report', own)"
    using assms(4) None by (auto simp: resolve_key_def split: prod.splits)
  note stored = resolve_into_stores [OF assms(1,2) run]
  have "resolves merged contents (tag_holds merged contents key) (memo, report, []) (memo', report', own)"
    using resolve_step(1) [OF assms(2), of contents "(memo, report, [])" "[]" 0] run by simp
  then have law: "memo_sound merged contents memo'" "dom (map_of memo) \<subseteq> dom (map_of memo')"
      "dom (map_of memo') \<subseteq> dom (map_of memo) \<union> dom (map_of merged)"
      "unguarded report' \<longrightarrow> unguarded report \<and> (memo_full merged contents memo \<longrightarrow> memo_full merged contents memo')"
    using assms(1) by (auto simp: resolves_def)
  show ?thesis using law(1,4) stored subset_trans [OF law(3)] law(2) assms(3) by simp
qed

lemma resolve_keys_law:
  assumes "memo_sound merged contents memo" "set keys \<subseteq> dom (map_of merged)" "dom (map_of memo) \<subseteq> dom (map_of merged)"
    "fold (resolve_key merged contents) keys (memo, report) = (memo', report')"
  shows "memo_sound merged contents memo' \<and> dom (map_of memo') \<subseteq> dom (map_of merged) \<and>
    set keys \<union> dom (map_of memo) \<subseteq> dom (map_of memo') \<and>
    (unguarded report' \<longrightarrow> unguarded report \<and> (memo_full merged contents memo \<longrightarrow> memo_full merged contents memo'))"
  using assms
proof (induction keys arbitrary: memo report)
  case (Cons key keys)
  obtain m r where step: "resolve_key merged contents key (memo, report) = (m, r)" by fastforce
  have "key \<in> dom (map_of merged)" using Cons.prems(2) by simp
  note one = resolve_key_law [OF Cons.prems(1) this Cons.prems(3) step]
  have "memo_sound merged contents memo' \<and> dom (map_of memo') \<subseteq> dom (map_of merged) \<and>
      set keys \<union> dom (map_of m) \<subseteq> dom (map_of memo') \<and>
      (unguarded report' \<longrightarrow> unguarded r \<and> (memo_full merged contents m \<longrightarrow> memo_full merged contents memo'))"
    by (rule Cons.IH) (use one Cons.prems step in simp_all)
  moreover have "insert key (dom (map_of memo)) \<subseteq> dom (map_of m)" using one by simp
  ultimately have "set (key # keys) \<union> dom (map_of memo) \<subseteq> dom (map_of memo')" by (simp add: subset_iff)
  then show ?case using \<open>memo_sound merged contents memo' \<and> _\<close> one by simp
qed auto

lemma descending_keys:
  assumes "tags_descend merged rank" "unguarded report" "set keys \<subseteq> dom (map_of merged)"
    "fold (resolve_key merged contents) keys (memo, report) = (memo', report')"
  shows "unguarded report'"
  using assms
proof (induction keys arbitrary: memo report)
  case (Cons key keys)
  obtain m r where step: "resolve_key merged contents key (memo, report) = (m, r)" by fastforce
  have "0 + rank key \<le> MAX_TAG_DEPTH" using Cons.prems(1,3) by (auto simp: tags_descend_def)
  then have "unguarded (fst (snd (resolve_into merged contents [] 0 key (memo, report, []))))"
    using Cons.prems(1,2) by (intro descending_unguarded(1)) simp_all
  then have "unguarded r" using step Cons.prems(2) by (auto simp: resolve_key_def split: if_splits prod.splits)
  then show ?case using Cons.IH [of r m] Cons.prems step by simp
qed simp

text \<open>C37. Resolved tags are the closure of their references. The keys of the result are the tags
  the files declare, each with an ascending set of ids that its entries reach through declared
  tags and that its registry, where it is known, holds; the set is all of those ids unless a cycle
  or an excessive depth is reported, and neither is when references descend within the limit.\<close>

theorem resolved_tags_are_closures:
  assumes "merge_tags ordered empty_tag_report = (merged, counted)" "resolve_all ordered contents empty_tag_report = (tags, report)"
  shows "dom (map_of tags) = fst ` set ordered \<and>
    (\<forall>k ids. map_of tags k = Some ids \<longrightarrow>
       os_ok ids \<and> (\<forall>r \<in> set ids. tag_holds merged contents k r) \<and>
       (unguarded report \<longrightarrow> (\<forall>r. tag_holds merged contents k r \<longrightarrow> r \<in> set ids))) \<and>
    (\<forall>rank. tags_descend merged rank \<longrightarrow> unguarded report)"
proof -
  have merged: "om_ok merged" "dom (map_of merged) = fst ` set ordered" "unguarded counted"
    using merge_tags_law [OF assms(1)] by (simp_all add: unguarded_def empty_tag_report_def)
  have keys: "set (map fst merged) = dom (map_of merged)" by (simp add: dom_map_of_conv_image_fst)
  have run: "fold (resolve_key merged contents) (map fst merged) ([], counted) = (tags, report)"
    using assms(2) by (simp add: resolve_all_keys assms(1))
  have start: "memo_sound merged contents []" "memo_full merged contents []" by (simp_all add: memo_sound_def memo_full_def)
  have all: "set (map fst merged) \<subseteq> dom (map_of merged)" using keys by simp
  note law = resolve_keys_law [OF start(1) all _ run]
  have sound: "memo_sound merged contents tags" "dom (map_of tags) = dom (map_of merged)"
      "unguarded report \<longrightarrow> memo_full merged contents tags"
    using law keys start(2) by auto
  have "unguarded report" if "tags_descend merged rank" for rank
    by (rule descending_keys [OF that merged(3) all run])
  moreover have "os_ok ids \<and> (\<forall>r \<in> set ids. tag_holds merged contents k r) \<and>
       (unguarded report \<longrightarrow> (\<forall>r. tag_holds merged contents k r \<longrightarrow> r \<in> set ids))"
    if "map_of tags k = Some ids" for k ids
    using sound(1,3) that unfolding memo_sound_def memo_full_def by simp
  moreover have "dom (map_of tags) = fst ` set ordered" using sound(2) merged(2) by simp
  ultimately show ?thesis by simp
qed

text \<open>Two tags, the first of which references the second.\<close>

definition item_tag :: "char \<Rightarrow> tag_key" where
  "item_tag c = \<lparr>tk_registry = lit ''item'', tk_name = \<lparr>namespace = lit ''m'', rvalue = [of_char c]\<rparr>\<rparr>"

definition item_name :: "char \<Rightarrow> resource_id" where
  "item_name c = \<lparr>namespace = lit ''m'', rvalue = [of_char c]\<rparr>"

definition nested_files :: "(tag_key \<times> tag_value) list" where
  "nested_files =
     [(item_tag CHR ''a'', \<lparr>tv_replace = False, tv_entries = [TagRef (item_tag CHR ''b'')]\<rparr>),
      (item_tag CHR ''b'', \<lparr>tv_replace = False, tv_entries = [TagId (item_name CHR ''x'')]\<rparr>)]"

theorem resolved_tags_are_closures_witness:
  "\<exists>ids. map_of (fst (resolve_all nested_files [] empty_tag_report)) (item_tag CHR ''a'') = Some ids \<and>
     item_name CHR ''x'' \<in> set ids"
proof -
  define merged where "merged = fst (merge_tags nested_files empty_tag_report)"
  obtain counted where m: "merge_tags nested_files empty_tag_report = (merged, counted)" by (metis merged_def prod.collapse)
  obtain tags report where run: "resolve_all nested_files [] empty_tag_report = (tags, report)" by fastforce
  have rows: "merged = nested_files" unfolding merged_def by code_simp
  have "tags_descend merged (\<lambda>k. if k = item_tag CHR ''a'' then 1 else 0)"
    unfolding rows by (auto simp: tags_descend_def nested_files_def MAX_TAG_DEPTH_def item_tag_def split: if_splits)
  then have law: "\<forall>ids. map_of tags (item_tag CHR ''a'') = Some ids \<longrightarrow> (\<forall>r. tag_holds merged [] (item_tag CHR ''a'') r \<longrightarrow> r \<in> set ids)"
      "dom (map_of tags) = fst ` set nested_files"
    using resolved_tags_are_closures [OF m run] by blast+
  have "item_tag CHR ''a'' \<in> dom (map_of tags)" unfolding law(2) by (simp add: nested_files_def)
  then obtain ids where "map_of tags (item_tag CHR ''a'') = Some ids" by blast
  moreover have "tag_holds merged [] (item_tag CHR ''b'') (item_name CHR ''x'')"
    by (rule tag_holds.own [of _ _ "snd (nested_files ! 1)" "TagId (item_name CHR ''x'')"])
      (simp_all add: rows nested_files_def contents_contains_def item_tag_def)
  then have "tag_holds merged [] (item_tag CHR ''a'') (item_name CHR ''x'')"
    by (rule tag_holds.nested [of _ _ "snd (nested_files ! 0)" "TagRef (item_tag CHR ''b'')", rotated -1])
      (simp_all add: rows nested_files_def)
  ultimately show ?thesis using law(1) run by simp
qed

text \<open>
  In a cycle the sets depend on the order of the keys: the tag that is resolved inside the other
  lacks what the other holds, and keeps that set. And the path reported for a cycle starts at the
  tag whose resolution met it, which need not be on the cycle.
\<close>

definition cyclic_files :: "(tag_key \<times> tag_value) list" where
  "cyclic_files =
     [(item_tag CHR ''a'', \<lparr>tv_replace = False, tv_entries = [TagRef (item_tag CHR ''b''), TagId (item_name CHR ''x'')]\<rparr>),
      (item_tag CHR ''b'', \<lparr>tv_replace = False, tv_entries = [TagRef (item_tag CHR ''a''), TagId (item_name CHR ''y'')]\<rparr>)]"

lemma cycles_resolve_unevenly:
  "let tags = fst (resolve_all cyclic_files [] empty_tag_report)
   in map_of tags (item_tag CHR ''a'') = Some [item_name CHR ''x'', item_name CHR ''y''] \<and>
      map_of tags (item_tag CHR ''b'') = Some [item_name CHR ''y'']"
  by code_simp

lemma cycle_path_starts_elsewhere:
  "tr_problems (snd (resolve_all
      [(item_tag CHR ''a'', \<lparr>tv_replace = False, tv_entries = [TagRef (item_tag CHR ''b'')]\<rparr>),
       (item_tag CHR ''b'', \<lparr>tv_replace = False, tv_entries = [TagRef (item_tag CHR ''b'')]\<rparr>)] [] empty_tag_report)) =
     [TagCycle [item_tag CHR ''a'', item_tag CHR ''b'', item_tag CHR ''b'']]"
  by code_simp

end
