(* ===== verification/TagFiles.thy ===== *)
theory TagFiles
  imports Tags
begin

text \<open>
  The walk of \<open>json_files\<close> over a directory: on a tree it returns, and it finds each JSON file
  once, in ascending order.
\<close>

section \<open>Trees\<close>

text \<open>The directories below \<open>dir\<close> list their own entries, each once, and nest no deeper than \<open>n\<close>.\<close>

definition tree_disk :: "'n pack_disk \<Rightarrow> nat \<Rightarrow> bool" where
  "tree_disk disk n \<longleftrightarrow>
     (\<forall>p es. read_dir disk p = Some es \<longrightarrow> length p \<le> n \<and> distinct es \<and> (\<forall>e \<in> set es. \<exists>name. e = p @ [name]))"

lemma tree_diskD:
  "tree_disk disk n \<Longrightarrow> read_dir disk p = Some es \<Longrightarrow>
     length p \<le> n \<and> distinct es \<and> (\<forall>e \<in> set es. \<exists>name. e = p @ [name])"
  by (simp add: tree_disk_def)

text \<open>The files below a directory.\<close>

inductive below :: "'n pack_disk \<Rightarrow> path \<Rightarrow> path \<Rightarrow> bool" for disk where
  entry: "read_dir disk d = Some es \<Longrightarrow> p \<in> set es \<Longrightarrow> \<not> is_dir disk p \<Longrightarrow> below disk d p"
| deeper: "read_dir disk d = Some es \<Longrightarrow> e \<in> set es \<Longrightarrow> is_dir disk e \<Longrightarrow> below disk e p \<Longrightarrow> below disk d p"

inductive_simps below_simps: "below disk d p"

lemma push_entries_result:
  "push_entries disk ps stack out =
     (rev (filter (is_dir disk) ps) @ stack, out @ filter (\<lambda>p. \<not> is_dir disk p \<and> is_json_file p) ps)"
  by (induction disk ps stack out rule: push_entries.induct) auto

lemma below_prefix:
  assumes "tree_disk disk n" "below disk d p"
  shows "length d < length p \<and> take (length d) p = d"
  using assms(2)
proof (induction rule: below.induct)
  case (entry d es p)
  then show ?case using tree_diskD [OF assms(1) entry(1)] by auto
next
  case (deeper d es e p)
  then obtain name where e: "e = d @ [name]" using tree_diskD [OF assms(1) deeper(1)] by auto
  have len: "Suc (length d) < length p" "take (Suc (length d)) p = d @ [name]" using deeper(5) by (simp_all add: e)
  have "take (length d) p = take (length d) (take (Suc (length d)) p)" by (simp add: min_def)
  then show ?case unfolding len(2) using len(1) by simp
qed

section \<open>The walk\<close>

text \<open>Taking a directory off the stack adds its files to the output.\<close>

definition walks :: "'n pack_disk \<Rightarrow> path \<Rightarrow> path list \<Rightarrow> bool" where
  "walks disk p fs \<longleftrightarrow>
     (\<forall>stack out. walk_files disk (p # stack) out = walk_files disk stack (out @ fs)) \<and> distinct fs \<and>
     (\<forall>f. f \<in> set fs \<longleftrightarrow> below disk p f \<and> is_json_file f)"

lemma walk_several:
  assumes "list_all2 (walks disk) ds fss"
  shows "walk_files disk (ds @ stack) out = walk_files disk stack (out @ concat fss)"
  using assms by (induction arbitrary: out rule: list_all2_induct) (simp_all add: walks_def)

lemma walks_tree:
  "tree_disk disk n \<Longrightarrow> Suc n - length p \<le> m \<Longrightarrow> \<exists>fs. walks disk p fs"
proof (induction m arbitrary: p)
  case 0
  have none: "read_dir disk p = None" using 0 tree_diskD [OF 0(1), of p] by (cases "read_dir disk p") auto
  then have "walks disk p []"
    by (auto simp: walks_def walk_files.simps [of disk "p # _"] below_simps [of disk p])
  then show ?case by blast
next
  case (Suc m)
  show ?case
  proof (cases "read_dir disk p")
    case None
    then have "walks disk p []"
      by (auto simp: walks_def walk_files.simps [of disk "p # _"] below_simps [of disk p])
    then show ?thesis by blast
  next
    case (Some es)
    have tree: "length p \<le> n" "distinct es" "\<forall>e \<in> set es. \<exists>name. e = p @ [name]"
      using tree_diskD [OF Suc.prems(1) Some] by simp_all
    have len: "\<forall>e \<in> set es. length e = Suc (length p)" using tree(3) by force
    let ?ds = "filter (is_dir disk) (sort es)"
    let ?own = "filter (\<lambda>p. \<not> is_dir disk p \<and> is_json_file p) (rev (sort es))"
    have "\<exists>fs. walks disk e fs" if "e \<in> set ?ds" for e
      by (rule Suc.IH [OF Suc.prems(1)]) (use that tree Suc.prems(2) in auto)
    then obtain F where F: "\<And>e. e \<in> set ?ds \<Longrightarrow> walks disk e (F e)" by metis
    let ?fs = "?own @ concat (map F ?ds)"
    have "list_all2 (walks disk) ds (map F ds)" if "set ds \<subseteq> set ?ds" for ds
      using that F by (induction ds) auto
    then have steps: "list_all2 (walks disk) ?ds (map F ?ds)" by blast
    have walk: "walk_files disk (p # stack) out = walk_files disk stack (out @ ?fs)" for stack out
      by (subst walk_files.simps)
        (simp add: Some push_entries_result rev_filter [symmetric] walk_several [OF steps])
    have members: "f \<in> set ?fs \<longleftrightarrow> below disk p f \<and> is_json_file f" for f
      using F Some by (auto simp: walks_def below_simps [of disk p])
    have apart: "set (F d) \<inter> set (F e) = {}" if "d \<in> set ?ds" "e \<in> set ?ds" "d \<noteq> e" for d e
    proof -
      have "length d = length e" using that(1,2) len by simp
      then show ?thesis using F [OF that(1)] F [OF that(2)] that(3) below_prefix [OF Suc.prems(1)]
        by (metis disjoint_iff walks_def)
    qed
    have once: "distinct (concat (map F ds))" if "set ds \<subseteq> set ?ds" "distinct ds" for ds
      using that
    proof (induction ds)
      case (Cons d ds)
      have "set (F d) \<inter> set (concat (map F ds)) = {}" using apart Cons.prems by fastforce
      then show ?case using Cons F by (auto simp: walks_def)
    qed simp
    have "distinct (concat (map F ?ds))" using once [of ?ds] tree(2) by simp
    moreover have "set ?own \<inter> set (concat (map F ?ds)) = {}"
    proof -
      have "length f = Suc (length p)" if "f \<in> set ?own" for f using that len by simp
      moreover have "Suc (length p) < length f" if "f \<in> set (concat (map F ?ds))" for f
      proof -
        have "\<exists>e \<in> set ?ds. f \<in> set (F e)" using that by simp
        then obtain e where e: "e \<in> set ?ds" "f \<in> set (F e)" by blast
        then have "length e = Suc (length p)" using len by simp
        then show ?thesis using F [OF e(1)] e(2) below_prefix [OF Suc.prems(1)] by (metis walks_def)
      qed
      ultimately show ?thesis by fastforce
    qed
    ultimately have "distinct ?fs" using tree(2) by simp
    then have "walks disk p ?fs" using walk members by (simp only: walks_def simp_thms)
    then show ?thesis by blast
  qed
qed

text \<open>C38. The walk of a data directory ends and misses nothing: on a finite tree of directories
  \<open>json_files\<close> returns the JSON files below the directory, each once and in ascending order.\<close>

theorem json_files_complete:
  assumes "tree_disk disk n"
  shows "\<exists>fs. json_files disk dir = Some fs \<and> sorted fs \<and> distinct fs \<and> set fs = {p. below disk dir p \<and> is_json_file p}"
proof -
  obtain fs where fs: "walks disk dir fs" using walks_tree [OF assms] by blast
  have "walk_files disk [dir] [] = walk_files disk [] fs" using fs by (simp add: walks_def)
  also have "\<dots> = Some fs" by (subst walk_files.simps) simp
  finally have "json_files disk dir = Some (sort fs)" by (simp add: json_files_def)
  then show ?thesis using fs by (auto simp: walks_def)
qed

definition one_file :: "unit pack_disk" where
  "one_file =
     \<lparr>is_dir = (\<lambda>p. p = []), is_file = (\<lambda>p. p \<noteq> []),
      read_dir = (\<lambda>p. if p = [] then Some [[lit ''a.json''], [lit ''b.txt'']] else None),
      metadata_len = (\<lambda>p. None), read_to_string = (\<lambda>p. None), from_str = (\<lambda>s. None)\<rparr>"

theorem json_files_complete_witness: "json_files one_file [] = Some [[lit ''a.json'']]"
proof -
  have tree: "tree_disk one_file 0" by (auto simp: tree_disk_def one_file_def lit_def split: if_splits)
  obtain fs where fs: "json_files one_file [] = Some fs" "distinct fs" "set fs = {p. below one_file [] p \<and> is_json_file p}"
    using json_files_complete [OF tree, of "[]"] by blast
  have look: "read_dir one_file [] = Some [[lit ''a.json''], [lit ''b.txt'']]" "is_dir one_file p \<longleftrightarrow> p = []" for p
    by (simp_all add: one_file_def)
  have "below one_file [] p \<longleftrightarrow> p = [lit ''a.json''] \<or> p = [lit ''b.txt'']" for p
    by (subst below_simps) (auto simp: look)
  moreover have "is_json_file [lit ''a.json'']" "\<not> is_json_file [lit ''b.txt'']" by code_simp+
  ultimately have "set fs = {[lit ''a.json'']}" using fs(3) by auto
  moreover from this fs(2) have "length fs = 1" using distinct_card [OF fs(2)] by simp
  ultimately show ?thesis using fs(1) by (cases fs) auto
qed

end
