(* ===== verification/RecipeBook.thy ===== *)
theory RecipeBook
  imports Tags
begin

text \<open>
  \<open>crates/data/src/recipe.rs\<close>: the recipes of a data pack, read from their JSON files, and the
  book that holds them. A \<open>char\<close> is its scalar value; an experience is the bits of its \<open>f64\<close>.
\<close>

section \<open>Recipes\<close>

datatype data_ingredient = IngItem resource_id | IngTag resource_id

definition data_accepts :: "data_ingredient \<Rightarrow> resource_id \<Rightarrow> (resource_id \<Rightarrow> resource_id \<Rightarrow> bool) \<Rightarrow> bool" where
  "data_accepts g item in_tag = (case g of IngItem r \<Rightarrow> r = item | IngTag t \<Rightarrow> in_tag t item)"

record data_shaped =
  ds_name :: resource_id
  ds_pattern :: "rstring list"
  ds_key :: "(nat, data_ingredient list) ordered_map"
  ds_result :: resource_id
  ds_count :: int
  ds_group :: "rstring option"

text \<open>\<open>String::len\<close> counts bytes.\<close>

definition ds_width :: "data_shaped \<Rightarrow> nat" where
  "ds_width s = (case ds_pattern s of [] \<Rightarrow> 0 | row # _ \<Rightarrow> length (str_bytes row))"

definition ds_height :: "data_shaped \<Rightarrow> nat" where
  "ds_height s = length (ds_pattern s)"

definition ingredient_at :: "data_shaped \<Rightarrow> nat \<Rightarrow> nat \<Rightarrow> data_ingredient list option json_result" where
  "ingredient_at s row column =
     (if length (ds_pattern s) \<le> row then Inr None
      else if length (ds_pattern s ! row) \<le> column then Inr None
      else
        let c = ds_pattern s ! row ! column
        in if c = 32 then Inr None
           else (case map_of (ds_key s) c of
                   Some alternatives \<Rightarrow> Inr (Some alternatives)
                 | None \<Rightarrow> Inl (JsonInvalid [display_id (ds_name s)])))"

record data_shapeless =
  dl_name :: resource_id
  dl_ingredients :: "data_ingredient list list"
  dl_result :: resource_id
  dl_count :: int
  dl_group :: "rstring option"

datatype smelting_kind = Smelting | Blasting | Smoking | CampfireCooking

fun smelting_type_name :: "smelting_kind \<Rightarrow> rstring" where
  "smelting_type_name Smelting = lit ''minecraft:smelting''"
| "smelting_type_name Blasting = lit ''minecraft:blasting''"
| "smelting_type_name Smoking = lit ''minecraft:smoking''"
| "smelting_type_name CampfireCooking = lit ''minecraft:campfire_cooking''"

definition from_type_name :: "rstring \<Rightarrow> smelting_kind option" where
  "from_type_name s =
     (if s = lit ''minecraft:smelting'' then Some Smelting
      else if s = lit ''minecraft:blasting'' then Some Blasting
      else if s = lit ''minecraft:smoking'' then Some Smoking
      else if s = lit ''minecraft:campfire_cooking'' then Some CampfireCooking
      else None)"

fun default_cooking_time :: "smelting_kind \<Rightarrow> int" where
  "default_cooking_time Smelting = 200"
| "default_cooking_time Blasting = 100"
| "default_cooking_time Smoking = 100"
| "default_cooking_time CampfireCooking = 600"

record data_cooking =
  dc_name :: resource_id
  dc_kind :: smelting_kind
  dc_ingredient :: "data_ingredient list"
  dc_result :: resource_id
  dc_count :: int
  dc_time :: int
  dc_experience :: u64

record data_stonecutting =
  dt_name :: resource_id
  dt_ingredient :: "data_ingredient list"
  dt_result :: resource_id
  dt_count :: int

record data_transmute =
  dm_name :: resource_id
  dm_input :: "data_ingredient list"
  dm_material :: "data_ingredient list"
  dm_result :: resource_id
  dm_count :: int
  dm_min :: int
  dm_max :: int
  dm_add_count :: bool
  dm_group :: "rstring option"

definition is_simple :: "data_transmute \<Rightarrow> bool" where
  "is_simple t \<longleftrightarrow> \<not> dm_add_count t \<and> dm_min t = 1 \<and> dm_max t = 1"

datatype data_recipe =
    DataShaped data_shaped
  | DataShapeless data_shapeless
  | DataCooking data_cooking
  | DataStonecutting data_stonecutting
  | DataTransmute data_transmute

fun data_name :: "data_recipe \<Rightarrow> resource_id" where
  "data_name (DataShaped r) = ds_name r"
| "data_name (DataShapeless r) = dl_name r"
| "data_name (DataCooking r) = dc_name r"
| "data_name (DataStonecutting r) = dt_name r"
| "data_name (DataTransmute r) = dm_name r"

fun data_result :: "data_recipe \<Rightarrow> resource_id" where
  "data_result (DataShaped r) = ds_result r"
| "data_result (DataShapeless r) = dl_result r"
| "data_result (DataCooking r) = dc_result r"
| "data_result (DataStonecutting r) = dt_result r"
| "data_result (DataTransmute r) = dm_result r"

fun data_count :: "data_recipe \<Rightarrow> int" where
  "data_count (DataShaped r) = ds_count r"
| "data_count (DataShapeless r) = dl_count r"
| "data_count (DataCooking r) = dc_count r"
| "data_count (DataStonecutting r) = dt_count r"
| "data_count (DataTransmute r) = dm_count r"

datatype recipe_kind = KindShaped | KindShapeless | KindCooking | KindStonecutting | KindTransmute

fun data_kind :: "data_recipe \<Rightarrow> recipe_kind" where
  "data_kind (DataShaped _) = KindShaped"
| "data_kind (DataShapeless _) = KindShapeless"
| "data_kind (DataCooking _) = KindCooking"
| "data_kind (DataStonecutting _) = KindStonecutting"
| "data_kind (DataTransmute _) = KindTransmute"

fun recipe_kind_name :: "recipe_kind \<Rightarrow> rstring" where
  "recipe_kind_name KindShaped = lit ''shaped''"
| "recipe_kind_name KindShapeless = lit ''shapeless''"
| "recipe_kind_name KindCooking = lit ''cooking''"
| "recipe_kind_name KindStonecutting = lit ''stonecutting''"
| "recipe_kind_name KindTransmute = lit ''transmute''"

text \<open>The derived order of the kinds.\<close>

fun kind_rank :: "recipe_kind \<Rightarrow> nat" where
  "kind_rank KindShaped = 0"
| "kind_rank KindShapeless = 1"
| "kind_rank KindCooking = 2"
| "kind_rank KindStonecutting = 3"
| "kind_rank KindTransmute = 4"

lemma kind_rank_inj: "kind_rank a = kind_rank b \<Longrightarrow> a = b"
  by (cases a; cases b) simp_all

instantiation recipe_kind :: linorder
begin

definition less_eq_recipe_kind :: "recipe_kind \<Rightarrow> recipe_kind \<Rightarrow> bool" where
  "less_eq_recipe_kind a b \<longleftrightarrow> kind_rank a \<le> kind_rank b"

definition less_recipe_kind :: "recipe_kind \<Rightarrow> recipe_kind \<Rightarrow> bool" where
  "less_recipe_kind a b \<longleftrightarrow> kind_rank a < kind_rank b"

instance
  by standard (auto simp: less_eq_recipe_kind_def less_recipe_kind_def dest: kind_rank_inj)

end

section \<open>The book\<close>

record recipe_book =
  rb_recipes :: "data_recipe list"
  rb_by_name :: "(resource_id, nat) ordered_map"

definition empty_book :: recipe_book where
  "empty_book = \<lparr>rb_recipes = [], rb_by_name = []\<rparr>"

definition book_insert :: "data_recipe \<Rightarrow> recipe_book \<Rightarrow> recipe_book" where
  "book_insert r b =
     (case map_of (rb_by_name b) (data_name r) of
        Some index \<Rightarrow> b\<lparr>rb_recipes := (rb_recipes b)[index := r]\<rparr>
      | None \<Rightarrow> b\<lparr>rb_by_name := om_insert (data_name r) (length (rb_recipes b)) (rb_by_name b),
                  rb_recipes := rb_recipes b @ [r]\<rparr>)"

definition book_by_name :: "recipe_book \<Rightarrow> resource_id \<Rightarrow> data_recipe option" where
  "book_by_name b name = map_option (\<lambda>index. rb_recipes b ! index) (map_of (rb_by_name b) name)"

definition producing :: "recipe_book \<Rightarrow> resource_id \<Rightarrow> data_recipe list" where
  "producing b item = filter (\<lambda>r. data_result r = item) (rb_recipes b)"

definition of_kind :: "recipe_book \<Rightarrow> recipe_kind \<Rightarrow> data_recipe list" where
  "of_kind b kind = filter (\<lambda>r. data_kind r = kind) (rb_recipes b)"

section \<open>Reading a recipe file\<close>

datatype skipped = Unmodelled rstring | ParseError json_error

definition parse_err :: "json_error + 'a \<Rightarrow> skipped + 'a" where
  "parse_err r = (case r of Inl e \<Rightarrow> Inl (ParseError e) | Inr x \<Rightarrow> Inr x)"

text \<open>\<open>i32::try_from\<close> of an \<open>i64\<close>.\<close>

definition fits_i32 :: "int \<Rightarrow> int option" where
  "fits_i32 i = (if - (2 ^ 31) \<le> i \<and> i < 2 ^ 31 then Some i else None)"

definition STACK_HARD_MAX :: int where "STACK_HARD_MAX = 64"

definition parse_ingredient :: "path \<Rightarrow> rstring \<Rightarrow> skipped + data_ingredient" where
  "parse_ingredient path s =
     (let (is_tag, rest) = (case strip_prefix [HASH] s of Some rest \<Rightarrow> (True, rest) | None \<Rightarrow> (False, s))
      in case parse_id rest of
           Inl _ \<Rightarrow> Inl (ParseError (JsonInvalid path))
         | Inr r \<Rightarrow> Inr (if is_tag then IngTag r else IngItem r))"

definition read_ingredients_value :: "path \<Rightarrow> 'n json \<Rightarrow> skipped + data_ingredient list" where
  "read_ingredients_value path v =
     (case v of
        JString s \<Rightarrow> and_then (parse_ingredient path s) (\<lambda>g. Inr [g])
      | JArray items \<Rightarrow>
          and_then (collect (\<lambda>item. case item of
                JString s \<Rightarrow> parse_ingredient path s
              | _ \<Rightarrow> Inl (ParseError (JsonInvalid path))) items) (\<lambda>out.
            if out = [] then Inl (ParseError (JsonInvalid path)) else Inr out)
      | _ \<Rightarrow> Inl (ParseError (JsonInvalid path)))"

definition read_ingredient :: "'n json_map \<Rightarrow> rstring \<Rightarrow> path \<Rightarrow> skipped + data_ingredient list" where
  "read_ingredient m key path =
     (case map_of m key of
        None \<Rightarrow> Inl (ParseError (JsonInvalid path))
      | Some v \<Rightarrow> read_ingredients_value path v)"

definition read_ingredient_list :: "'n json_map \<Rightarrow> rstring \<Rightarrow> path \<Rightarrow> skipped + data_ingredient list list" where
  "read_ingredient_list m key path =
     and_then (parse_err (required_array m key path)) (collect (read_ingredients_value path))"

definition read_pattern :: "'n json_map \<Rightarrow> path \<Rightarrow> skipped + rstring list" where
  "read_pattern m path =
     and_then (parse_err (required_array m (lit ''pattern'') path)) (\<lambda>rows.
     and_then (collect (\<lambda>row. case row of JString s \<Rightarrow> Inr s | _ \<Rightarrow> Inl (ParseError (JsonInvalid path))) rows) (\<lambda>pattern.
       if pattern = [] then Inl (ParseError (JsonInvalid path)) else Inr pattern))"

fun read_key_fields ::
  "path \<Rightarrow> 'n json_map \<Rightarrow> (nat, data_ingredient list) ordered_map \<Rightarrow> skipped + (nat, data_ingredient list) ordered_map"
where
  "read_key_fields path [] out = Inr out"
| "read_key_fields path ((symbol, v) # entries) out =
     (case symbol of
        [c] \<Rightarrow> and_then (read_ingredients_value path v) (\<lambda>gs. read_key_fields path entries (om_insert c gs out))
      | _ \<Rightarrow> Inl (ParseError (JsonInvalid path)))"

definition read_key :: "'n json_map \<Rightarrow> path \<Rightarrow> skipped + (nat, data_ingredient list) ordered_map" where
  "read_key m path =
     (case map_of m (lit ''key'') of
        Some (JObject key) \<Rightarrow> read_key_fields path key []
      | _ \<Rightarrow> Inl (ParseError (JsonInvalid path)))"

definition read_result :: "'n numbers \<Rightarrow> 'n json_map \<Rightarrow> path \<Rightarrow> skipped + (resource_id \<times> int)" where
  "read_result num m path =
     (case map_of m (lit ''result'') of
        Some (JObject res) \<Rightarrow>
          and_then (parse_err (required_str res (lit ''id'') path)) (\<lambda>s.
          and_then (case parse_id s of Inl _ \<Rightarrow> Inl (ParseError (JsonInvalid path)) | Inr r \<Rightarrow> Inr r) (\<lambda>r.
          and_then (parse_err (optional_i64 num res (lit ''count'') path)) (\<lambda>n.
            let n = (case n of None \<Rightarrow> 1 | Some n \<Rightarrow> n)
            in case fits_i32 n of
                 None \<Rightarrow> Inl (ParseError (JsonInvalid path))
               | Some n \<Rightarrow>
                   if n < 1 \<or> STACK_HARD_MAX < n then Inl (ParseError (JsonInvalid path)) else Inr (r, n))))
      | _ \<Rightarrow> Inl (ParseError (JsonInvalid path)))"

text \<open>\<open>Value::as_i64\<close>.\<close>

definition value_as_i64 :: "'n numbers \<Rightarrow> 'n json \<Rightarrow> int option" where
  "value_as_i64 num v = (case v of JNumber n \<Rightarrow> num_as_i64 num n | _ \<Rightarrow> None)"

definition read_bound ::
  "'n numbers \<Rightarrow> 'n json_map \<Rightarrow> path \<Rightarrow> rstring \<Rightarrow> int option \<Rightarrow> skipped + int"
where
  "read_bound num entries path key fallback =
     (case map_of entries key of
        Some bound \<Rightarrow> (case value_as_i64 num bound of None \<Rightarrow> Inl (ParseError (JsonInvalid path)) | Some i \<Rightarrow> Inr i)
      | None \<Rightarrow> (case fallback of None \<Rightarrow> Inl (ParseError (JsonInvalid path)) | Some i \<Rightarrow> Inr i))"

definition read_material_count :: "'n numbers \<Rightarrow> 'n json_map \<Rightarrow> path \<Rightarrow> skipped + (int \<times> int)" where
  "read_material_count num m path =
     (case map_of m (lit ''material_count'') of
        None \<Rightarrow> Inr (1, 1)
      | Some v \<Rightarrow>
          and_then (case v of
              JNumber n \<Rightarrow> (case num_as_i64 num n of None \<Rightarrow> Inl (ParseError (JsonInvalid path)) | Some i \<Rightarrow> Inr (i, i))
            | JObject entries \<Rightarrow>
                and_then (read_bound num entries path (lit ''min'') None) (\<lambda>lo.
                and_then (read_bound num entries path (lit ''max'') (Some lo)) (\<lambda>hi. Inr (lo, hi)))
            | _ \<Rightarrow> Inl (ParseError (JsonInvalid path))) (\<lambda>(lo, hi).
            case (fits_i32 lo, fits_i32 hi) of
              (Some lo, Some hi) \<Rightarrow>
                if \<not> (1 \<le> lo \<and> lo \<le> STACK_HARD_MAX) \<or> \<not> (1 \<le> hi \<and> hi \<le> STACK_HARD_MAX) \<or> hi < lo
                then Inl (ParseError (JsonInvalid path)) else Inr (lo, hi)
            | _ \<Rightarrow> Inl (ParseError (JsonInvalid path))))"

definition read_shaped :: "'n numbers \<Rightarrow> resource_id \<Rightarrow> 'n json_map \<Rightarrow> path \<Rightarrow> rstring option \<Rightarrow> skipped + data_recipe" where
  "read_shaped num name m path grp =
     and_then (read_pattern m path) (\<lambda>pattern.
     and_then (read_key m path) (\<lambda>key.
     and_then (read_result num m path) (\<lambda>(res, n).
       Inr (DataShaped \<lparr>ds_name = name, ds_pattern = pattern, ds_key = key, ds_result = res, ds_count = n, ds_group = grp\<rparr>))))"

definition read_shapeless :: "'n numbers \<Rightarrow> resource_id \<Rightarrow> 'n json_map \<Rightarrow> path \<Rightarrow> rstring option \<Rightarrow> skipped + data_recipe" where
  "read_shapeless num name m path grp =
     and_then (read_ingredient_list m (lit ''ingredients'') path) (\<lambda>gs.
     and_then (read_result num m path) (\<lambda>(res, n).
       Inr (DataShapeless \<lparr>dl_name = name, dl_ingredients = gs, dl_result = res, dl_count = n, dl_group = grp\<rparr>)))"

definition read_stonecutting :: "'n numbers \<Rightarrow> resource_id \<Rightarrow> 'n json_map \<Rightarrow> path \<Rightarrow> skipped + data_recipe" where
  "read_stonecutting num name m path =
     and_then (read_ingredient m (lit ''ingredient'') path) (\<lambda>g.
     and_then (read_result num m path) (\<lambda>(res, n).
       Inr (DataStonecutting \<lparr>dt_name = name, dt_ingredient = g, dt_result = res, dt_count = n\<rparr>)))"

definition read_transmute :: "'n numbers \<Rightarrow> resource_id \<Rightarrow> 'n json_map \<Rightarrow> path \<Rightarrow> rstring option \<Rightarrow> skipped + data_recipe" where
  "read_transmute num name m path grp =
     and_then (read_ingredient m (lit ''input'') path) (\<lambda>input.
     and_then (read_ingredient m (lit ''material'') path) (\<lambda>material.
     and_then (read_result num m path) (\<lambda>(res, n).
     and_then (read_material_count num m path) (\<lambda>(lo, hi).
       let add = (case map_of m (lit ''add_material_count_to_result'') of Some (JBool b) \<Rightarrow> b | _ \<Rightarrow> False)
       in Inr (DataTransmute \<lparr>dm_name = name, dm_input = input, dm_material = material, dm_result = res, dm_count = n,
            dm_min = lo, dm_max = hi, dm_add_count = add, dm_group = grp\<rparr>)))))"

definition read_cooking :: "'n numbers \<Rightarrow> resource_id \<Rightarrow> smelting_kind \<Rightarrow> 'n json_map \<Rightarrow> path \<Rightarrow> skipped + data_recipe" where
  "read_cooking num name kind m path =
     and_then (read_ingredient m (lit ''ingredient'') path) (\<lambda>g.
     and_then (read_result num m path) (\<lambda>(res, n).
     and_then (parse_err (optional_i64 num m (lit ''cookingtime'') path)) (\<lambda>t.
     and_then (case t of
                 None \<Rightarrow> Inr (default_cooking_time kind)
               | Some t \<Rightarrow> (case fits_i32 t of None \<Rightarrow> Inl (ParseError (JsonInvalid path)) | Some t \<Rightarrow> Inr t)) (\<lambda>t.
     and_then (parse_err (optional_f64 num m (lit ''experience'') path)) (\<lambda>xp.
       Inr (DataCooking \<lparr>dc_name = name, dc_kind = kind, dc_ingredient = g, dc_result = res, dc_count = n, dc_time = t,
         dc_experience = (case xp of None \<Rightarrow> 0 | Some x \<Rightarrow> x)\<rparr>))))))"

definition read_recipe_file ::
  "'n pack_disk \<Rightarrow> 'n numbers \<Rightarrow> path \<Rightarrow> resource_id \<Rightarrow> json_limits \<Rightarrow> skipped + data_recipe"
where
  "read_recipe_file disk num path name limits =
     and_then (parse_err (read_json_object disk path limits)) (\<lambda>m.
     and_then (parse_err (required_str m (lit ''type'') path)) (\<lambda>ty.
     and_then (parse_err (optional_str m (lit ''group'') path)) (\<lambda>grp.
       if ty = lit ''minecraft:crafting_shaped'' then read_shaped num name m path grp
       else if ty = lit ''minecraft:crafting_shapeless'' then read_shapeless num name m path grp
       else if ty = lit ''minecraft:stonecutting'' then read_stonecutting num name m path
       else if ty = lit ''minecraft:crafting_transmute'' then read_transmute num name m path grp
       else (case from_type_name ty of
               None \<Rightarrow> Inl (Unmodelled ty)
             | Some kind \<Rightarrow> read_cooking num name kind m path))))"

section \<open>Loading a directory\<close>

record recipe_load_report =
  rl_files :: nat
  rl_loaded :: "(recipe_kind, nat) ordered_map"
  rl_unmodelled :: "(rstring, nat) ordered_map"
  rl_skipped :: "skip_reason list"

definition empty_load_report :: recipe_load_report where
  "empty_load_report = \<lparr>rl_files = 0, rl_loaded = [], rl_unmodelled = [], rl_skipped = []\<rparr>"

definition total_loaded :: "recipe_load_report \<Rightarrow> nat" where
  "total_loaded r = sum_list (map snd (rl_loaded r))"

definition total_unmodelled :: "recipe_load_report \<Rightarrow> nat" where
  "total_unmodelled r = sum_list (map snd (rl_unmodelled r))"

definition load_is_clean :: "recipe_load_report \<Rightarrow> bool" where
  "load_is_clean r \<longleftrightarrow> rl_skipped r = []"

text \<open>\<open>*map.entry(key).or_insert(0) += 1\<close>.\<close>

definition count_key :: "'k::linorder \<Rightarrow> ('k, nat) ordered_map \<Rightarrow> ('k, nat) ordered_map" where
  "count_key k m = om_insert k ((case map_of m k of None \<Rightarrow> 0 | Some n \<Rightarrow> n) + 1) m"

definition load_recipe_file ::
  "'n pack_disk \<Rightarrow> 'n numbers \<Rightarrow> path \<Rightarrow> rstring \<Rightarrow> json_limits \<Rightarrow> path \<Rightarrow> data_recipe list \<times> recipe_load_report \<Rightarrow>
   data_recipe list \<times> recipe_load_report"
where
  "load_recipe_file disk num base ns limits p acc =
     (let (out, report) = acc
      in if take (length base) p \<noteq> base then (out, report)
         else case parse_id (ns @ [COLON] @ file_stem base p) of
                Inl _ \<Rightarrow> (out, report\<lparr>rl_skipped := rl_skipped report @ [UnusableName p]\<rparr>)
              | Inr name \<Rightarrow>
                  (case read_recipe_file disk num p name limits of
                     Inr r \<Rightarrow> (out @ [r], report\<lparr>rl_loaded := count_key (data_kind r) (rl_loaded report)\<rparr>)
                   | Inl (Unmodelled ty) \<Rightarrow> (out, report\<lparr>rl_unmodelled := count_key ty (rl_unmodelled report)\<rparr>)
                   | Inl (ParseError e) \<Rightarrow> (out, report\<lparr>rl_skipped := rl_skipped report @ [BadFile e]\<rparr>)))"

definition load_recipe_directory ::
  "'n pack_disk \<Rightarrow> 'n numbers \<Rightarrow> path \<Rightarrow> rstring \<Rightarrow> json_limits \<Rightarrow> recipe_load_report \<Rightarrow>
   (data_recipe list \<times> recipe_load_report) option"
where
  "load_recipe_directory disk num ns_dir ns limits report =
     (let base = ns_dir @ [lit ''recipe'']
      in map_option (\<lambda>files.
           let (out, report) = fold (load_recipe_file disk num base ns limits) files ([], report)
           in (out, report\<lparr>rl_files := rl_files report + length out\<rparr>)) (json_files disk base))"

end
