(* ===== verification/RecipeTables.thy ===== *)
theory RecipeTables
  imports RecipeBook Crafting Furnace
begin

text \<open>
  How the recipe tables of the containers are built: the baseline and \<open>from_book\<close> of
  \<open>crates/container/src/crafting.rs\<close>, and \<open>from_recipes\<close> of \<open>smelting_data.rs\<close>. What a conversion
  cannot represent is counted in its report.
\<close>

section \<open>The crafting baseline\<close>

definition shaped :: "rstring \<Rightarrow> ingredient option list list \<Rightarrow> int \<Rightarrow> int \<Rightarrow> recipe server_result" where
  "shaped name rows res n =
     and_then (pattern_from_rows rows) (\<lambda>p. and_then (new_shaped name p res n) (\<lambda>r. Inr (Shaped r)))"

definition item_id_of :: "item_registry \<Rightarrow> rstring \<Rightarrow> int server_result" where
  "item_id_of items name = (case registry_id items name of Inl _ \<Rightarrow> Inl CorruptData | Inr i \<Rightarrow> Inr i)"

definition planks_recipe :: "item_registry \<Rightarrow> string \<Rightarrow> string \<Rightarrow> recipe server_result" where
  "planks_recipe items log wood =
     (let log = lit ''minecraft:'' @ lit log; planks = lit ''minecraft:'' @ lit wood @ lit ''_planks''
      in and_then (item_id_of items log) (\<lambda>l.
         and_then (item_id_of items planks) (\<lambda>p.
         and_then (new_shapeless (lit ''baseline_planks_from_'' @ log) [ingredient_item l] p 4) (\<lambda>r. Inr (Shapeless r)))))"

definition baseline_woods :: "string list" where
  "baseline_woods = [''oak'', ''spruce'', ''birch'', ''jungle'', ''acacia'', ''dark_oak'', ''mangrove'', ''cherry'', ''pale_oak'']"

definition baseline_stems :: "string list" where
  "baseline_stems = [''crimson'', ''warped'']"

definition baseline_planks :: "item_registry \<Rightarrow> ingredient server_result" where
  "baseline_planks items =
     and_then (collect (\<lambda>wood. item_id_of items (lit ''minecraft:'' @ lit wood @ lit ''_planks''))
       (baseline_woods @ baseline_stems)) any_of"

definition ring :: "ingredient \<Rightarrow> ingredient option list list" where
  "ring g = [[Some g, Some g, Some g], [Some g, None, Some g], [Some g, Some g, Some g]]"

definition baseline_shaped :: "item_registry \<Rightarrow> ingredient \<Rightarrow> ingredient \<Rightarrow> ingredient \<Rightarrow> ingredient \<Rightarrow> ingredient \<Rightarrow>
  (rstring \<times> ingredient option list list \<times> rstring \<times> int) list"
where
  "baseline_shaped items planks stick cobblestone coal charcoal =
     [(lit ''baseline_sticks_from_planks'', [[Some planks], [Some planks]], lit ''minecraft:stick'', 4),
      (lit ''baseline_crafting_table'', [[Some planks, Some planks], [Some planks, Some planks]], lit ''minecraft:crafting_table'', 1),
      (lit ''baseline_furnace'', ring cobblestone, lit ''minecraft:furnace'', 1),
      (lit ''baseline_chest'', ring planks, lit ''minecraft:chest'', 1),
      (lit ''baseline_torch'', [[Some coal], [Some stick]], lit ''minecraft:torch'', 4),
      (lit ''baseline_torch_from_charcoal'', [[Some charcoal], [Some stick]], lit ''minecraft:torch'', 4),
      (lit ''baseline_stone'', [[Some cobblestone]], lit ''minecraft:stone'', 1),
      (lit ''baseline_oak_slab'', [[Some planks, Some planks, Some planks]], lit ''minecraft:oak_slab'', 6)]"

definition crafting_baseline :: "item_registry \<Rightarrow> recipe_registry server_result" where
  "crafting_baseline items =
     and_then (collect (\<lambda>wood. planks_recipe items (wood @ ''_log'') wood) baseline_woods) (\<lambda>logs.
     and_then (collect (\<lambda>stem. planks_recipe items (stem @ ''_stem'') stem) baseline_stems) (\<lambda>stems.
     and_then (baseline_planks items) (\<lambda>planks.
     and_then (item_id_of items (lit ''minecraft:stick'')) (\<lambda>stick.
     and_then (item_id_of items (lit ''minecraft:cobblestone'')) (\<lambda>cobblestone.
     and_then (item_id_of items (lit ''minecraft:coal'')) (\<lambda>coal.
     and_then (item_id_of items (lit ''minecraft:charcoal'')) (\<lambda>charcoal.
     and_then (collect (\<lambda>(name, rows, res, n). and_then (item_id_of items res) (\<lambda>res. shaped name rows res n))
         (baseline_shaped items planks (ingredient_item stick) (ingredient_item cobblestone) (ingredient_item coal)
           (ingredient_item charcoal))) (\<lambda>rs.
       new_recipes (logs @ stems @ rs)))))))))"

section \<open>Crafting recipes of a data pack\<close>

text \<open>What a tag expands to, supplied by the loader.\<close>

type_synonym tag_resolver = "resource_id \<Rightarrow> resource_id list"

record crafting_conversion =
  cr_shaped_seen :: nat
  cr_shapeless_seen :: nat
  cr_transmute_seen :: nat
  cr_converted :: nat
  cr_tag_or_unknown :: nat
  cr_complex :: nat
  cr_unknown_results :: "rstring list"
  cr_malformed :: "rstring list"
  cr_other :: nat

definition empty_conversion :: crafting_conversion where
  "empty_conversion = \<lparr>cr_shaped_seen = 0, cr_shapeless_seen = 0, cr_transmute_seen = 0, cr_converted = 0,
     cr_tag_or_unknown = 0, cr_complex = 0, cr_unknown_results = [], cr_malformed = [], cr_other = 0\<rparr>"

definition full_name :: "resource_id \<Rightarrow> rstring" where
  "full_name r = namespace r @ lit '':'' @ rvalue r"

text \<open>The ids of the names the registry knows.\<close>

definition known_ids :: "item_registry \<Rightarrow> resource_id list \<Rightarrow> int list" where
  "known_ids items names =
     concat (map (\<lambda>r. case registry_id items (full_name r) of Inl _ \<Rightarrow> [] | Inr i \<Rightarrow> [i]) names)"

fun alternative_ids :: "item_registry \<Rightarrow> tag_resolver option \<Rightarrow> data_ingredient \<Rightarrow> int list option" where
  "alternative_ids items resolve (IngItem r) =
     (case registry_id items (full_name r) of Inl _ \<Rightarrow> None | Inr i \<Rightarrow> Some [i])"
| "alternative_ids items resolve (IngTag t) =
     (case resolve of
        None \<Rightarrow> None
      | Some f \<Rightarrow> let members = f t in if members = [] then None else Some (known_ids items members))"

definition container_ingredient ::
  "item_registry \<Rightarrow> tag_resolver option \<Rightarrow> data_ingredient list \<Rightarrow> ingredient option"
where
  "container_ingredient items resolve alternatives =
     (case those (map (alternative_ids items resolve) alternatives) of
        None \<Rightarrow> None
      | Some idss \<Rightarrow>
          let ids = remdups_adj (sort (concat idss))
          in case ids of
               [] \<Rightarrow> None
             | [i] \<Rightarrow> Some (ingredient_item i)
             | _ \<Rightarrow> (case any_of ids of Inl _ \<Rightarrow> None | Inr g \<Rightarrow> Some g))"

definition shaped_cell ::
  "item_registry \<Rightarrow> tag_resolver option \<Rightarrow> data_shaped \<Rightarrow> nat \<Rightarrow> nat \<Rightarrow> ingredient option option"
where
  "shaped_cell items resolve s row column =
     (case ingredient_at s row column of
        Inl _ \<Rightarrow> None
      | Inr None \<Rightarrow> Some None
      | Inr (Some alternatives) \<Rightarrow> map_option Some (container_ingredient items resolve alternatives))"

definition shaped_rows ::
  "item_registry \<Rightarrow> tag_resolver option \<Rightarrow> data_shaped \<Rightarrow> ingredient option list list option"
where
  "shaped_rows items resolve s =
     those (map (\<lambda>row. those (map (shaped_cell items resolve s row) [0 ..< ds_width s])) [0 ..< ds_height s])"

text \<open>What becomes of one recipe.\<close>

datatype conversion =
    Converted recipe
  | UnknownResult rstring
  | Malformed rstring
  | TagOrUnknown
  | ComplexTransmute
  | OtherKind

definition convert_shaped :: "item_registry \<Rightarrow> tag_resolver option \<Rightarrow> data_shaped \<Rightarrow> conversion" where
  "convert_shaped items resolve s =
     (case registry_id items (full_name (ds_result s)) of
        Inl _ \<Rightarrow> UnknownResult (display_id (ds_result s))
      | Inr res \<Rightarrow>
          if \<not> (1 \<le> ds_count s \<and> ds_count s \<le> HARD_MAX_STACK_SIZE) then Malformed (display_id (ds_name s))
          else
            (case shaped_rows items resolve s of
               None \<Rightarrow> TagOrUnknown
             | Some rows \<Rightarrow>
                 (case pattern_from_rows rows of
                    Inl _ \<Rightarrow> Malformed (display_id (ds_name s))
                  | Inr p \<Rightarrow>
                      (case new_shaped (display_id (ds_name s)) p res (ds_count s) of
                         Inl _ \<Rightarrow> Malformed (display_id (ds_name s))
                       | Inr r \<Rightarrow> Converted (Shaped r)))))"

definition convert_shapeless :: "item_registry \<Rightarrow> tag_resolver option \<Rightarrow> data_shapeless \<Rightarrow> conversion" where
  "convert_shapeless items resolve s =
     (case registry_id items (full_name (dl_result s)) of
        Inl _ \<Rightarrow> UnknownResult (display_id (dl_result s))
      | Inr res \<Rightarrow>
          if \<not> (1 \<le> dl_count s \<and> dl_count s \<le> HARD_MAX_STACK_SIZE) then Malformed (display_id (dl_name s))
          else
            (case those (map (container_ingredient items resolve) (dl_ingredients s)) of
               None \<Rightarrow> TagOrUnknown
             | Some gs \<Rightarrow>
                 (case new_shapeless (display_id (dl_name s)) gs res (dl_count s) of
                    Inl _ \<Rightarrow> Malformed (display_id (dl_name s))
                  | Inr r \<Rightarrow> Converted (Shapeless r))))"

definition convert_transmute :: "item_registry \<Rightarrow> tag_resolver option \<Rightarrow> data_transmute \<Rightarrow> conversion" where
  "convert_transmute items resolve t =
     (if \<not> is_simple t then ComplexTransmute
      else
        (case registry_id items (full_name (dm_result t)) of
           Inl _ \<Rightarrow> UnknownResult (display_id (dm_result t))
         | Inr res \<Rightarrow>
             (case container_ingredient items resolve (dm_input t) of
                None \<Rightarrow> TagOrUnknown
              | Some input \<Rightarrow>
                  (case container_ingredient items resolve (dm_material t) of
                     None \<Rightarrow> TagOrUnknown
                   | Some material \<Rightarrow>
                       (case new_shapeless (display_id (dm_name t)) [input, material] res (dm_count t) of
                          Inl _ \<Rightarrow> Malformed (display_id (dm_name t))
                        | Inr r \<Rightarrow> Converted (Shapeless r))))))"

definition convert_recipe :: "item_registry \<Rightarrow> tag_resolver option \<Rightarrow> data_recipe \<Rightarrow> conversion" where
  "convert_recipe items resolve r =
     (case r of
        DataShaped s \<Rightarrow> convert_shaped items resolve s
      | DataShapeless s \<Rightarrow> convert_shapeless items resolve s
      | DataTransmute t \<Rightarrow> convert_transmute items resolve t
      | _ \<Rightarrow> OtherKind)"

definition count_seen :: "data_recipe \<Rightarrow> crafting_conversion \<Rightarrow> crafting_conversion" where
  "count_seen r report =
     (case r of
        DataShaped _ \<Rightarrow> report\<lparr>cr_shaped_seen := cr_shaped_seen report + 1\<rparr>
      | DataShapeless _ \<Rightarrow> report\<lparr>cr_shapeless_seen := cr_shapeless_seen report + 1\<rparr>
      | DataTransmute _ \<Rightarrow> report\<lparr>cr_transmute_seen := cr_transmute_seen report + 1\<rparr>
      | _ \<Rightarrow> report)"

fun count_conversion :: "conversion \<Rightarrow> recipe list \<times> crafting_conversion \<Rightarrow> recipe list \<times> crafting_conversion" where
  "count_conversion (Converted r) (rs, report) = (rs @ [r], report\<lparr>cr_converted := cr_converted report + 1\<rparr>)"
| "count_conversion (UnknownResult n) (rs, report) = (rs, report\<lparr>cr_unknown_results := cr_unknown_results report @ [n]\<rparr>)"
| "count_conversion (Malformed n) (rs, report) = (rs, report\<lparr>cr_malformed := cr_malformed report @ [n]\<rparr>)"
| "count_conversion TagOrUnknown (rs, report) = (rs, report\<lparr>cr_tag_or_unknown := cr_tag_or_unknown report + 1\<rparr>)"
| "count_conversion ComplexTransmute (rs, report) = (rs, report\<lparr>cr_complex := cr_complex report + 1\<rparr>)"
| "count_conversion OtherKind (rs, report) = (rs, report\<lparr>cr_other := cr_other report + 1\<rparr>)"

definition from_book ::
  "recipe_book \<Rightarrow> item_registry \<Rightarrow> tag_resolver option \<Rightarrow> (recipe_registry \<times> crafting_conversion) server_result"
where
  "from_book book items resolve =
     (let (rs, report) = fold (\<lambda>r (rs, report). count_conversion (convert_recipe items resolve r) (rs, count_seen r report))
            (rb_recipes book) ([], empty_conversion)
      in and_then (new_recipes rs) (\<lambda>registry. Inr (registry, report)))"

section \<open>Cooking recipes of a data pack\<close>

record smelting_conversion =
  sc_seen :: nat
  sc_converted :: nat
  sc_rows :: nat
  sc_duplicates :: nat
  sc_unresolved :: nat
  sc_empty :: nat
  sc_unknown_results :: "rstring list"
  sc_empty_tags :: "rstring list"

definition empty_smelting :: smelting_conversion where
  "empty_smelting = \<lparr>sc_seen = 0, sc_converted = 0, sc_rows = 0, sc_duplicates = 0, sc_unresolved = 0, sc_empty = 0,
     sc_unknown_results = [], sc_empty_tags = []\<rparr>"

definition accounted :: "smelting_conversion \<Rightarrow> nat" where
  "accounted r = sc_converted r + sc_duplicates r + sc_unresolved r + sc_empty r"

definition smelting_is_total :: "smelting_conversion \<Rightarrow> bool" where
  "smelting_is_total r \<longleftrightarrow> sc_duplicates r = 0 \<and> sc_unresolved r = 0 \<and> sc_empty r = 0 \<and> sc_unknown_results r = []"

text \<open>The inputs of a recipe: the ids, the tags that were empty, and the two flags.\<close>

fun cooking_inputs ::
  "item_registry \<Rightarrow> tag_resolver option \<Rightarrow> data_ingredient list \<Rightarrow> int list \<times> rstring list \<times> bool \<times> bool"
where
  "cooking_inputs items resolve [] = ([], [], False, False)"
| "cooking_inputs items resolve (IngItem r # gs) =
     (let (ids, empties, by_tag, by_empty) = cooking_inputs items resolve gs
      in (known_ids items [r] @ ids, empties, by_tag, by_empty))"
| "cooking_inputs items resolve (IngTag t # gs) =
     (let (ids, empties, by_tag, by_empty) = cooking_inputs items resolve gs
      in case resolve of
           None \<Rightarrow> (ids, empties, True, by_empty)
         | Some f \<Rightarrow>
             let members = f t
             in if members = [] then (ids, display_id t # empties, by_tag, True)
                else (known_ids items members @ ids, empties, by_tag, by_empty))"

definition f64_is_finite :: "u64 \<Rightarrow> bool" where
  "f64_is_finite x = (case f64_value x of Fin _ _ _ \<Rightarrow> True | _ \<Rightarrow> False)"

text \<open>\<open>as f32\<close>: the nearest value of the narrower format.\<close>

definition f64_as_f32 :: "u64 \<Rightarrow> u32" where
  "f64_as_f32 x =
     (case f64_value x of
        NaN \<Rightarrow> of_nat (nan_bits F32)
      | Inf s \<Rightarrow> of_nat (inf_bits F32 s)
      | Fin s m e \<Rightarrow> of_nat (fround F32 s m e))"

text \<open>The rows of one recipe; the set of inputs already taken grows as it goes.\<close>

fun cooking_rows ::
  "data_cooking \<Rightarrow> int \<Rightarrow> int list \<Rightarrow> int ordered_set \<Rightarrow> smelting_recipe list \<Rightarrow>
   (int ordered_set \<times> smelting_recipe list) server_result"
where
  "cooking_rows c output [] taken rows = Inr (taken, rows)"
| "cooking_rows c output (input # inputs) taken rows =
     (if input \<in> set taken then cooking_rows c output inputs taken rows
      else if dc_time c < 0 then Inl CorruptData
      else if \<not> f64_is_finite (dc_experience c) \<or> f64_lt (dc_experience c) 0 then Inl CorruptData
      else cooking_rows c output inputs (os_insert input taken)
             (rows @ [\<lparr>r_input = input, r_output = output, r_count = dc_count c, r_ticks = nat (dc_time c),
                       r_experience = f64_as_f32 (dc_experience c)\<rparr>]))"

definition convert_cooking ::
  "item_registry \<Rightarrow> tag_resolver option \<Rightarrow> data_cooking \<Rightarrow>
   int ordered_set \<times> smelting_recipe list \<times> smelting_conversion \<Rightarrow>
   (int ordered_set \<times> smelting_recipe list \<times> smelting_conversion) server_result"
where
  "convert_cooking items resolve c st =
     (let (taken, rows, report) = st; report = report\<lparr>sc_seen := sc_seen report + 1\<rparr>
      in case registry_id items (full_name (dc_result c)) of
           Inl _ \<Rightarrow> Inr (taken, rows, report\<lparr>sc_unknown_results := sc_unknown_results report @ [display_id (dc_result c)]\<rparr>)
         | Inr output \<Rightarrow>
             let (inputs, empties, by_tag, by_empty) = cooking_inputs items resolve (dc_ingredient c);
                 report = report\<lparr>sc_empty_tags := sc_empty_tags report @ empties\<rparr>
             in and_then (cooking_rows c output inputs taken rows) (\<lambda>(taken', rows').
                  let added = length rows' - length rows; report = report\<lparr>sc_rows := sc_rows report + added\<rparr>
                  in Inr (taken', rows',
                       if 0 < added then report\<lparr>sc_converted := sc_converted report + 1\<rparr>
                       else if by_tag then report\<lparr>sc_unresolved := sc_unresolved report + 1\<rparr>
                       else if by_empty then report\<lparr>sc_empty := sc_empty report + 1\<rparr>
                       else report\<lparr>sc_duplicates := sc_duplicates report + 1\<rparr>)))"

fun convert_cookings ::
  "item_registry \<Rightarrow> tag_resolver option \<Rightarrow> data_cooking list \<Rightarrow>
   int ordered_set \<times> smelting_recipe list \<times> smelting_conversion \<Rightarrow>
   (int ordered_set \<times> smelting_recipe list \<times> smelting_conversion) server_result"
where
  "convert_cookings items resolve [] st = Inr st"
| "convert_cookings items resolve (c # cs) st =
     and_then (convert_cooking items resolve c st) (convert_cookings items resolve cs)"

text \<open>The recipes of one kind, ascending by name (a stable sort).\<close>

definition cooking_candidates :: "recipe_book \<Rightarrow> smelting_kind \<Rightarrow> data_cooking list" where
  "cooking_candidates book kind =
     sort_key dc_name
       (concat (map (\<lambda>r. case r of DataCooking c \<Rightarrow> if dc_kind c = kind then [c] else [] | _ \<Rightarrow> []) (rb_recipes book)))"

definition from_recipes ::
  "recipe_book \<Rightarrow> smelting_kind \<Rightarrow> item_registry \<Rightarrow> tag_resolver option \<Rightarrow>
   (smelting_registry \<times> smelting_conversion) server_result"
where
  "from_recipes book kind items resolve =
     and_then (convert_cookings items resolve (cooking_candidates book kind) ([], [], empty_smelting)) (\<lambda>(taken, rows, report).
     and_then (smelting_new rows) (\<lambda>registry. Inr (registry, report)))"

end
