(* ===== verification/RecipeLaws.thy ===== *)
theory RecipeLaws
  imports RecipeTables CraftingLaws
begin

text \<open>
  What the recipe book and the tables built from it guarantee: the book is a map that keeps its
  order, a recipe that was read is within its bounds, and every recipe a conversion reads is
  converted or counted once.
\<close>

section \<open>The book\<close>

definition book_ok :: "recipe_book \<Rightarrow> bool" where
  "book_ok b \<longleftrightarrow> om_ok (rb_by_name b) \<and>
     (\<forall>name k. map_of (rb_by_name b) name = Some k \<longleftrightarrow> k < length (rb_recipes b) \<and> data_name (rb_recipes b ! k) = name)"

lemma book_ok_empty: "book_ok empty_book"
  by (simp add: book_ok_def empty_book_def)

lemma book_indexD:
  "book_ok b \<Longrightarrow> map_of (rb_by_name b) name = Some k \<Longrightarrow> k < length (rb_recipes b) \<and> data_name (rb_recipes b ! k) = name"
  by (simp add: book_ok_def)

lemma book_indexI:
  "book_ok b \<Longrightarrow> k < length (rb_recipes b) \<Longrightarrow> map_of (rb_by_name b) (data_name (rb_recipes b ! k)) = Some k"
  by (simp add: book_ok_def)

lemma book_names_distinct: "book_ok b \<Longrightarrow> distinct (map data_name (rb_recipes b))"
  unfolding distinct_conv_nth by (metis book_indexI length_map nth_map option.inject)

lemma book_insert_old:
  assumes "book_ok b" "map_of (rb_by_name b) (data_name r) = Some k"
  shows "book_ok (book_insert r b)" "rb_recipes (book_insert r b) = (rb_recipes b)[k := r]"
proof -
  have "book_insert r b = b\<lparr>rb_recipes := (rb_recipes b)[k := r]\<rparr>" using assms(2) by (simp add: book_insert_def)
  then show "book_ok (book_insert r b)" "rb_recipes (book_insert r b) = (rb_recipes b)[k := r]"
    using assms(1) book_indexD [OF assms] by (auto simp: book_ok_def nth_list_update)
qed

lemma book_insert_new:
  assumes "book_ok b" "map_of (rb_by_name b) (data_name r) = None"
  shows "book_ok (book_insert r b)" "rb_recipes (book_insert r b) = rb_recipes b @ [r]"
proof -
  have om: "om_ok (rb_by_name b)" using assms(1) by (simp add: book_ok_def)
  have absent: "data_name (rb_recipes b ! k) \<noteq> data_name r" if "k < length (rb_recipes b)" for k
    using book_indexI [OF assms(1) that] assms(2) by force
  have "map_of (om_insert (data_name r) (length (rb_recipes b)) (rb_by_name b)) name = Some k \<longleftrightarrow>
      k < Suc (length (rb_recipes b)) \<and> data_name ((rb_recipes b @ [r]) ! k) = name" for name k
    using assms(1) absent [of k] om by (auto simp: book_ok_def nth_append less_Suc_eq)
  then show "book_ok (book_insert r b)" using om assms(2) by (simp add: book_ok_def book_insert_def)
  show "rb_recipes (book_insert r b) = rb_recipes b @ [r]" using assms(2) by (simp add: book_insert_def)
qed

lemma book_by_name_iff:
  "book_ok b \<Longrightarrow> book_by_name b name = Some r \<longleftrightarrow> r \<in> set (rb_recipes b) \<and> data_name r = name"
  by (auto simp: book_by_name_def in_set_conv_nth dest: book_indexD book_indexI)

text \<open>C39. A recipe book is a map by name that keeps its load order: from an empty book, every
  insertion keeps the index consistent, a name then finds the recipe inserted last under it, an
  overriding recipe takes the place of the one it replaces, and a new one is appended.\<close>

theorem book_is_a_map:
  "let b = fold book_insert rs empty_book
   in book_ok b \<and> distinct (map data_name (rb_recipes b)) \<and>
     (\<forall>name. book_by_name b name = find (\<lambda>r. data_name r = name) (rev rs)) \<and>
     map data_name (rb_recipes b) = rev (remdups (rev (map data_name rs)))"
proof -
  define b where "b = fold book_insert rs empty_book"
  have step: "book_ok (book_insert r b) \<and> book_by_name (book_insert r b) = (book_by_name b)(data_name r \<mapsto> r) \<and>
      map data_name (rb_recipes (book_insert r b)) =
        (if data_name r \<in> set (map data_name (rb_recipes b)) then map data_name (rb_recipes b)
         else map data_name (rb_recipes b) @ [data_name r])" if ok: "book_ok b" for r b
  proof (cases "map_of (rb_by_name b) (data_name r)")
    case None
    have "data_name r \<notin> set (map data_name (rb_recipes b))"
    proof
      assume "data_name r \<in> set (map data_name (rb_recipes b))"
      then obtain k where "k < length (rb_recipes b)" "data_name (rb_recipes b ! k) = data_name r" by (auto simp: in_set_conv_nth)
      then show False using book_indexI [OF ok] None by force
    qed
    moreover have "rb_by_name (book_insert r b) = om_insert (data_name r) (length (rb_recipes b)) (rb_by_name b)" "om_ok (rb_by_name b)"
      using None ok by (simp_all add: book_insert_def book_ok_def)
    moreover from this have "book_by_name (book_insert r b) name = (if name = data_name r then Some r else book_by_name b name)" for name
      using book_insert_new [OF ok None] book_indexD [OF ok, of name]
      by (cases "map_of (rb_by_name b) name") (auto simp: book_by_name_def nth_append)
    ultimately show ?thesis using book_insert_new [OF ok None] by auto
  next
    case (Some k)
    note k = book_indexD [OF ok Some]
    have "rb_by_name (book_insert r b) = rb_by_name b" using Some by (simp add: book_insert_def)
    moreover have "map data_name ((rb_recipes b)[k := r]) = map data_name (rb_recipes b)"
      using k by (simp add: map_update list_update_same_conv)
    moreover have "data_name r \<in> set (map data_name (rb_recipes b))" using k by (metis length_map nth_map nth_mem)
    moreover have "book_by_name (book_insert r b) name = (if name = data_name r then Some r else book_by_name b name)" for name
      using book_insert_old(2) [OF ok Some] k Some book_indexD [OF ok, of name]
      by (cases "map_of (rb_by_name b) name") (auto simp: book_by_name_def calculation(1) nth_list_update)
    ultimately show ?thesis using book_insert_old [OF ok Some] by auto
  qed
  have "book_ok b \<and> (\<forall>name. book_by_name b name = find (\<lambda>r. data_name r = name) (rev rs)) \<and>
      map data_name (rb_recipes b) = rev (remdups (rev (map data_name rs)))"
    unfolding b_def
  proof (induction rs rule: rev_induct)
    case Nil
    then show ?case by (simp add: book_ok_empty) (simp add: empty_book_def book_by_name_def)
  next
    case (snoc r rs)
    let ?b = "fold book_insert rs empty_book"
    have set: "set (map data_name (rb_recipes ?b)) = set (map data_name rs)"
      using snoc by simp
    show ?case using step [of ?b r] snoc set by (simp add: fun_upd_def)
  qed
  then show ?thesis using book_names_distinct by (simp add: Let_def b_def)
qed

section \<open>Reading\<close>

lemma in_range_Inr:
  "(case fits_i32 n of None \<Rightarrow> Inl e | Some n \<Rightarrow> if n < 1 \<or> STACK_HARD_MAX < n then Inl e else Inr (a, n)) = Inr (b, k) \<Longrightarrow> 1 \<le> k \<and> k \<le> 64"
  by (cases "fits_i32 n") (auto simp: STACK_HARD_MAX_def split: if_splits)

lemma read_result_bounds: "read_result num m path = Inr (r, n) \<Longrightarrow> 1 \<le> n \<and> n \<le> 64"
proof (cases "map_of m (lit ''result'')")
  case (Some v)
  assume "read_result num m path = Inr (r, n)"
  then show ?thesis using Some
    by (cases v) (auto simp: read_result_def and_then_Inr Let_def dest!: in_range_Inr)
qed (simp add: read_result_def)

lemma ingredients_value_some: "read_ingredients_value path v = Inr gs \<Longrightarrow> gs \<noteq> []"
  by (cases v) (auto simp: read_ingredients_value_def and_then_Inr split: if_splits)

lemma read_ingredient_some: "read_ingredient m field path = Inr gs \<Longrightarrow> gs \<noteq> []"
  by (auto simp: read_ingredient_def dest: ingredients_value_some split: option.splits)

lemma material_range:
  "(case fits_i32 a of
      None \<Rightarrow> Inl e
    | Some x \<Rightarrow> (case fits_i32 b of
        None \<Rightarrow> Inl e
      | Some y \<Rightarrow>
          if \<not> (1 \<le> x \<and> x \<le> STACK_HARD_MAX) \<or> \<not> (1 \<le> y \<and> y \<le> STACK_HARD_MAX) \<or> y < x
          then Inl e else Inr (x, y))) = Inr (lo, hi) \<Longrightarrow> 1 \<le> lo \<and> lo \<le> hi \<and> hi \<le> 64"
  by (cases "fits_i32 a"; cases "fits_i32 b") (auto simp: STACK_HARD_MAX_def split: if_splits)

lemma read_material_bounds:
  assumes "read_material_count num m path = Inr (lo, hi)"
  shows "1 \<le> lo \<and> lo \<le> hi \<and> hi \<le> 64"
proof (cases "map_of m (lit ''material_count'')")
  case None
  then show ?thesis using assms by (simp add: read_material_count_def)
next
  case (Some v)
  then show ?thesis using assms
    by (auto simp: read_material_count_def and_then_Inr dest!: material_range simp del: de_Morgan_conj de_Morgan_disj)
qed

text \<open>A recipe within the bounds of its stacks, with something in every ingredient.\<close>

definition data_recipe_ok :: "data_recipe \<Rightarrow> bool" where
  "data_recipe_ok r \<longleftrightarrow> 1 \<le> data_count r \<and> data_count r \<le> 64 \<and>
     (case r of
        DataShaped s \<Rightarrow> ds_pattern s \<noteq> [] \<and> om_ok (ds_key s) \<and> (\<forall>gs \<in> snd ` set (ds_key s). gs \<noteq> [])
      | DataShapeless s \<Rightarrow> (\<forall>gs \<in> set (dl_ingredients s). gs \<noteq> [])
      | DataCooking c \<Rightarrow> dc_ingredient c \<noteq> [] \<and> - (2 ^ 31) \<le> dc_time c \<and> dc_time c < 2 ^ 31
      | DataStonecutting c \<Rightarrow> dt_ingredient c \<noteq> []
      | DataTransmute t \<Rightarrow> dm_input t \<noteq> [] \<and> dm_material t \<noteq> [] \<and> 1 \<le> dm_min t \<and> dm_min t \<le> dm_max t \<and> dm_max t \<le> 64)"

lemma om_insert_values: "om_ok m \<Longrightarrow> snd ` set (om_insert k v m) \<subseteq> insert v (snd ` set m)"
  by (induction k v m rule: om_insert.induct) (auto simp: om_ok_Cons)

lemma read_key_values:
  "read_key_fields path flds out = Inr keys \<Longrightarrow> om_ok out \<Longrightarrow> \<forall>gs \<in> snd ` set out. gs \<noteq> [] \<Longrightarrow>
     om_ok keys \<and> (\<forall>gs \<in> snd ` set keys. gs \<noteq> [])"
proof (induction path flds out rule: read_key_fields.induct)
  case (2 path symbol v flds out)
  obtain c gs where c: "symbol = [c]" "read_ingredients_value path v = Inr gs"
      "read_key_fields path flds (om_insert c gs out) = Inr keys"
    using 2(2) by (auto simp: and_then_Inr split: list.splits)
  show ?case
  proof (rule 2(1) [OF c(1) refl c(2,3)])
    show "om_ok (om_insert c gs out)" using 2(3) by simp
    show "\<forall>gs \<in> snd ` set (om_insert c gs out). gs \<noteq> []"
      using 2(4) om_insert_values [OF 2(3), of c gs] ingredients_value_some [OF c(2)] by blast
  qed
qed simp

lemma parse_err_Inr [simp]: "parse_err r = Inr x \<longleftrightarrow> r = Inr x"
  by (cases r) (simp_all add: parse_err_def)

lemma read_kinds_ok:
  "read_shaped num name m path grp = Inr r \<Longrightarrow> data_name r = name \<and> data_recipe_ok r"
  "read_shapeless num name m path grp = Inr r \<Longrightarrow> data_name r = name \<and> data_recipe_ok r"
  "read_stonecutting num name m path = Inr r \<Longrightarrow> data_name r = name \<and> data_recipe_ok r"
  "read_transmute num name m path grp = Inr r \<Longrightarrow> data_name r = name \<and> data_recipe_ok r"
  "read_cooking num name kind m path = Inr r \<Longrightarrow> data_name r = name \<and> data_recipe_ok r"
proof -
  show "data_name r = name \<and> data_recipe_ok r" if "read_shaped num name m path grp = Inr r"
    using that read_key_values [of path _ "[]"] read_result_bounds
    by (fastforce simp: read_shaped_def and_then_Inr data_recipe_ok_def read_pattern_def read_key_def
        split: if_splits option.splits json.splits)
  show "data_name r = name \<and> data_recipe_ok r" if "read_shapeless num name m path grp = Inr r"
    using that read_result_bounds ingredients_value_some
    by (fastforce simp: read_shapeless_def and_then_Inr data_recipe_ok_def read_ingredient_list_def collect_Inr
        list_all2_conv_all_nth in_set_conv_nth)
  show "data_name r = name \<and> data_recipe_ok r" if "read_stonecutting num name m path = Inr r"
    using that read_result_bounds read_ingredient_some
    by (fastforce simp: read_stonecutting_def and_then_Inr data_recipe_ok_def)
  show "data_name r = name \<and> data_recipe_ok r" if "read_transmute num name m path grp = Inr r"
    using that read_result_bounds read_ingredient_some read_material_bounds
    by (fastforce simp: read_transmute_def and_then_Inr data_recipe_ok_def Let_def)
  show "data_name r = name \<and> data_recipe_ok r" if run: "read_cooking num name kind m path = Inr r"
  proof -
    obtain g where g: "read_ingredient m (lit ''ingredient'') path = Inr g"
      using run by (cases "read_ingredient m (lit ''ingredient'') path") (simp_all add: read_cooking_def)
    obtain res n where p: "read_result num m path = Inr (res, n)"
      using run g by (cases "read_result num m path") (auto simp: read_cooking_def)
    obtain t where t: "optional_i64 num m (lit ''cookingtime'') path = Inr t"
      using run g p by (cases "optional_i64 num m (lit ''cookingtime'') path") (simp_all add: read_cooking_def parse_err_def)
    let ?time = "case t of None \<Rightarrow> Inr (default_cooking_time kind)
          | Some t \<Rightarrow> (case fits_i32 t of None \<Rightarrow> Inl (ParseError (JsonInvalid path)) | Some t \<Rightarrow> Inr t)"
    obtain time where time: "?time = Inr time"
      using run g p t by (cases ?time) (simp_all add: read_cooking_def parse_err_def)
    obtain xp where xp: "optional_f64 num m (lit ''experience'') path = Inr xp"
      using run g p t time by (cases "optional_f64 num m (lit ''experience'') path") (simp_all add: read_cooking_def parse_err_def)
    have r: "r = DataCooking \<lparr>dc_name = name, dc_kind = kind, dc_ingredient = g, dc_result = res, dc_count = n, dc_time = time,
        dc_experience = (case xp of None \<Rightarrow> 0 | Some x \<Rightarrow> x)\<rparr>"
      using run g p t time xp by (simp add: read_cooking_def parse_err_def)
    have "- (2 ^ 31) \<le> time \<and> time < 2 ^ 31"
      using time by (cases kind; cases t) (auto simp: fits_i32_def split: option.splits if_splits)
    then show ?thesis using r read_ingredient_some [OF g] read_result_bounds [OF p]
      by (simp add: data_recipe_ok_def)
  qed
qed

text \<open>A recipe that was read is within its bounds: it has the name of its file, produces
  between one and sixty-four items, has no empty ingredient, pattern or key, and a transmutation
  takes a range of materials that a stack can hold.\<close>

lemma recipe_files_are_checked:
  assumes "read_recipe_file disk num path name limits = Inr r"
  shows "data_name r = name \<and> data_recipe_ok r"
proof -
  obtain m ty grp where "(if ty = lit ''minecraft:crafting_shaped'' then read_shaped num name m path grp
       else if ty = lit ''minecraft:crafting_shapeless'' then read_shapeless num name m path grp
       else if ty = lit ''minecraft:stonecutting'' then read_stonecutting num name m path
       else if ty = lit ''minecraft:crafting_transmute'' then read_transmute num name m path grp
       else (case from_type_name ty of
               None \<Rightarrow> Inl (Unmodelled ty)
             | Some kind \<Rightarrow> read_cooking num name kind m path)) = Inr r"
    using assms unfolding read_recipe_file_def and_then_Inr by blast
  then show ?thesis using read_kinds_ok [where r = r and name = name] by (simp split: if_splits option.splits)
qed

text \<open>A file that holds one stonecutting recipe.\<close>

definition one_recipe_disk :: "unit pack_disk" where
  "one_recipe_disk =
     \<lparr>is_dir = (\<lambda>p. False), is_file = (\<lambda>p. True), read_dir = (\<lambda>p. None), metadata_len = (\<lambda>p. Some 1),
      read_to_string = (\<lambda>p. Some []),
      from_str = (\<lambda>s. Some (JObject [(lit ''type'', JString (lit ''minecraft:stonecutting'')),
        (lit ''ingredient'', JString (lit ''m:a'')), (lit ''result'', JObject [(lit ''id'', JString (lit ''m:b''))])]))\<rparr>"

definition no_numbers :: "unit numbers" where
  "no_numbers = \<lparr>num_as_i64 = (\<lambda>_. None), num_as_f64 = (\<lambda>_. None)\<rparr>"

definition pack_id :: "char \<Rightarrow> resource_id" where
  "pack_id c = \<lparr>namespace = lit ''m'', rvalue = lit [c]\<rparr>"

definition stone_recipe :: data_recipe where
  "stone_recipe = DataStonecutting \<lparr>dt_name = pack_id CHR ''r'', dt_ingredient = [IngItem (pack_id CHR ''a'')],
     dt_result = pack_id CHR ''b'', dt_count = 1\<rparr>"

lemma pack_names: "parse_id (lit ''m:a'') = Inr (pack_id CHR ''a'')" "parse_id (lit ''m:b'') = Inr (pack_id CHR ''b'')"
  by (simp_all add: parse_id_def pack_id_def lit_def valid_namespace_def valid_value_def contains_pair.simps
      is_ascii_lowercase_def is_ascii_digit_def str_bytes_def utf8_char_def)

lemma recipe_files_are_checked_witness: "data_recipe_ok stone_recipe"
proof -
  define m where "m = [(lit ''type'', JString (lit ''minecraft:stonecutting'')),
      (lit ''ingredient'', JString (lit ''m:a'')), (lit ''result'', JObject [(lit ''id'', JString (lit ''m:b''))]) :: rstring \<times> unit json]"
  have "read_json_object one_recipe_disk [] DEFAULT_LIMITS = Inr m"
    by (simp add: read_json_object_def read_json_def parse_json_def into_object_def one_recipe_disk_def DEFAULT_LIMITS_def m_def)
  moreover have keys: "map_of m (lit ''type'') = Some (JString (lit ''minecraft:stonecutting''))" "map_of m (lit ''group'') = None"
      "map_of m (lit ''ingredient'') = Some (JString (lit ''m:a''))"
      "map_of m (lit ''result'') = Some (JObject [(lit ''id'', JString (lit ''m:b''))])"
    by (simp_all add: m_def lit_def)
  moreover have "read_result no_numbers m [] = Inr (pack_id CHR ''b'', 1)"
  proof -
    have "lit ''count'' \<noteq> lit ''id''" by (simp add: lit_def)
    then show ?thesis
      by (simp add: read_result_def keys required_str_def optional_i64_def parse_err_def pack_names fits_i32_def STACK_HARD_MAX_def)
  qed
  moreover have "strip_prefix [HASH] (lit ''m:a'') = None" by (simp add: strip_prefix_def HASH_def lit_def)
  then have "read_ingredient m (lit ''ingredient'') [] = Inr [IngItem (pack_id CHR ''a'')]"
    by (simp add: read_ingredient_def keys read_ingredients_value_def parse_ingredient_def pack_names)
  moreover have "lit ''minecraft:stonecutting'' \<noteq> lit ''minecraft:crafting_shaped''" "lit ''minecraft:stonecutting'' \<noteq> lit ''minecraft:crafting_shapeless''"
    by (simp_all add: lit_def)
  ultimately have "read_recipe_file one_recipe_disk no_numbers [] (pack_id CHR ''r'') DEFAULT_LIMITS = Inr stone_recipe"
    by (simp add: read_recipe_file_def required_str_def optional_str_def parse_err_def read_stonecutting_def stone_recipe_def)
  from recipe_files_are_checked [OF this] show ?thesis by simp
qed

section \<open>Crafting recipes of a data pack\<close>

lemma later_equal_iff: "(\<exists>j k. j < k \<and> k < length xs \<and> f (xs ! j) = f (xs ! k)) \<longleftrightarrow> \<not> distinct (map f xs)"
proof
  assume "\<exists>j k. j < k \<and> k < length xs \<and> f (xs ! j) = f (xs ! k)"
  then obtain j k where "j < k" "k < length xs" "f (xs ! j) = f (xs ! k)" by blast
  then show "\<not> distinct (map f xs)" using nth_eq_iff_index_eq [of "map f xs" j k] by auto
next
  assume "\<not> distinct (map f xs)"
  then obtain j k where jk: "j < length xs" "k < length xs" "j \<noteq> k" "f (xs ! j) = f (xs ! k)"
    by (auto simp: distinct_conv_nth)
  then show "\<exists>j k. j < k \<and> k < length xs \<and> f (xs ! j) = f (xs ! k)"
    by (cases "j < k") (fastforce, rule exI [of _ k], rule exI [of _ j], simp)
qed

lemma new_recipes_iff: "new_recipes rs = (if distinct (map recipe_name rs) then Inr rs else Inl Invariant)"
proof -
  have "list_ex (\<lambda>k. list_ex (\<lambda>e. recipe_name e = recipe_name (rs ! k)) (take k rs)) [0 ..< length rs] \<longleftrightarrow>
      (\<exists>j k. j < k \<and> k < length rs \<and> recipe_name (rs ! j) = recipe_name (rs ! k))"
  proof -
    have "set (take k rs) = nth rs ` {0 ..< k}" if "k < length rs" for k using nth_image [of k rs] that by simp
    then show ?thesis by (fastforce simp: list_ex_iff)
  qed
  also have "\<dots> \<longleftrightarrow> \<not> distinct (map recipe_name rs)"
    by (rule later_equal_iff)
  finally show ?thesis by (simp add: new_recipes_def)
qed

lemma display_id_inj: "well_formed_id a \<Longrightarrow> well_formed_id b \<Longrightarrow> display_id a = display_id b \<Longrightarrow> a = b"
  by (metis parse_display sum.inject(2))

lemma converted_ok:
  assumes "convert_recipe items resolve d = Converted r"
  shows "recipe_name r = display_id (data_name d) \<and> recipe_ok r"
proof (cases d)
  case (DataShaped s)
  then obtain p res q where "new_shaped (display_id (ds_name s)) p res (ds_count s) = Inr q" "r = Shaped q"
    using assms by (auto simp: convert_recipe_def convert_shaped_def split: sum.splits option.splits if_splits)
  then show ?thesis using DataShaped new_recipes_ok(1)
    by (auto simp: recipe_name_def new_shaped_def split: if_splits)
next
  case (DataShapeless s)
  then obtain gs res q where "new_shapeless (display_id (dl_name s)) gs res (dl_count s) = Inr q" "r = Shapeless q"
    using assms by (auto simp: convert_recipe_def convert_shapeless_def split: sum.splits option.splits if_splits)
  then show ?thesis using DataShapeless new_recipes_ok(2)
    by (auto simp: recipe_name_def new_shapeless_def split: if_splits)
next
  case (DataTransmute t)
  then obtain gs res q where "new_shapeless (display_id (dm_name t)) gs res (dm_count t) = Inr q" "r = Shapeless q"
    using assms by (auto simp: convert_recipe_def convert_transmute_def split: sum.splits option.splits if_splits)
  then show ?thesis using DataTransmute new_recipes_ok(2)
    by (auto simp: recipe_name_def new_shapeless_def split: if_splits)
qed (use assms in \<open>simp_all add: convert_recipe_def\<close>)

text \<open>The recipes read as crafting recipes, and where they went.\<close>

definition crafting_seen :: "crafting_conversion \<Rightarrow> nat" where
  "crafting_seen rep = cr_shaped_seen rep + cr_shapeless_seen rep + cr_transmute_seen rep"

definition crafting_accounted :: "crafting_conversion \<Rightarrow> nat" where
  "crafting_accounted rep =
     cr_converted rep + length (cr_unknown_results rep) + length (cr_malformed rep) + cr_tag_or_unknown rep + cr_complex rep"

lemma convert_other:
  "convert_recipe items resolve d = OtherKind \<longleftrightarrow> (case d of DataCooking _ \<Rightarrow> True | DataStonecutting _ \<Rightarrow> True | _ \<Rightarrow> False)"
  by (auto simp: convert_recipe_def convert_shaped_def convert_shapeless_def convert_transmute_def
      split: data_recipe.split sum.split option.split)

lemma convert_step:
  assumes "count_conversion (convert_recipe items resolve d) (rs, count_seen d rep) = (rs', rep')"
  shows "(rs' = rs \<or> (\<exists>r. convert_recipe items resolve d = Converted r \<and> rs' = rs @ [r])) \<and>
    length rs' + cr_converted rep = length rs + cr_converted rep' \<and>
    crafting_seen rep' + crafting_accounted rep = crafting_seen rep + crafting_accounted rep' \<and>
    crafting_seen rep' + cr_other rep' = Suc (crafting_seen rep + cr_other rep)"
  using assms convert_other [of items resolve d]
  by (cases "convert_recipe items resolve d"; cases d)
    (auto simp: crafting_seen_def crafting_accounted_def count_seen_def)

text \<open>C40. Every recipe of a pack is accounted for. Building the crafting table from a consistent
  book never fails; its recipes are all within bounds and have distinct names, as many as the
  report counts converted; every crafting recipe read was converted or counted under one reason,
  and the others were counted as other kinds.\<close>

theorem pack_recipes_accounted:
  assumes "book_ok book" "\<forall>d \<in> set (rb_recipes book). well_formed_id (data_name d)"
  shows "\<exists>registry rep. from_book book items resolve = Inr (registry, rep) \<and>
    list_all recipe_ok registry \<and> distinct (recipe_names registry) \<and> length registry = cr_converted rep \<and>
    crafting_seen rep = crafting_accounted rep \<and> crafting_seen rep + cr_other rep = length (rb_recipes book)"
proof -
  let ?f = "\<lambda>d (rs, rep). count_conversion (convert_recipe items resolve d) (rs, count_seen d rep)"
  have "distinct (map data_name ds) \<Longrightarrow> \<forall>d \<in> set ds. well_formed_id (data_name d) \<Longrightarrow>
      fold ?f ds ([], empty_conversion) = (rs, rep) \<Longrightarrow>
      list_all recipe_ok rs \<and> distinct (map recipe_name rs) \<and> set (map recipe_name rs) \<subseteq> display_id ` data_name ` set ds \<and>
      length rs = cr_converted rep \<and> crafting_seen rep = crafting_accounted rep \<and>
      crafting_seen rep + cr_other rep = length ds" for ds rs rep
  proof (induction ds arbitrary: rs rep rule: rev_induct)
    case Nil
    then show ?case by (auto simp: empty_conversion_def crafting_seen_def crafting_accounted_def)
  next
    case (snoc d ds)
    obtain rs0 rep0 where run: "fold ?f ds ([], empty_conversion) = (rs0, rep0)" by fastforce
    have ih: "list_all recipe_ok rs0 \<and> distinct (map recipe_name rs0) \<and> set (map recipe_name rs0) \<subseteq> display_id ` data_name ` set ds \<and>
        length rs0 = cr_converted rep0 \<and> crafting_seen rep0 = crafting_accounted rep0 \<and>
        crafting_seen rep0 + cr_other rep0 = length ds"
      using snoc.IH [OF _ _ run] snoc.prems(1,2) by simp
    have "count_conversion (convert_recipe items resolve d) (rs0, count_seen d rep0) = (rs, rep)"
      using snoc.prems(3) run by simp
    note step = convert_step [OF this]
    have counts: "length rs = cr_converted rep" "crafting_seen rep = crafting_accounted rep"
        "crafting_seen rep + cr_other rep = length (ds @ [d])"
      using step ih by simp_all
    have fresh: "display_id (data_name d) \<notin> display_id ` data_name ` set ds"
    proof
      assume "display_id (data_name d) \<in> display_id ` data_name ` set ds"
      then obtain e where e: "e \<in> set ds" "display_id (data_name e) = display_id (data_name d)" by auto
      then have "data_name e = data_name d" using display_id_inj snoc.prems(2) by simp
      then have "data_name d \<in> data_name ` set ds" using e(1) by (metis imageI)
      then show False using snoc.prems(1) by simp
    qed
    consider "rs = rs0" | r where "convert_recipe items resolve d = Converted r" "rs = rs0 @ [r]" using step by blast
    then show ?case
    proof cases
      case 1
      then show ?thesis using ih counts by auto
    next
      case 2
      have "recipe_name r \<notin> set (map recipe_name rs0)" using converted_ok [OF 2(1)] fresh ih by auto
      then show ?thesis using ih counts converted_ok [OF 2(1)] 2(2) by auto
    qed
  qed
  note all = this [OF book_names_distinct [OF assms(1)] assms(2)]
  obtain rs rep where run: "fold ?f (rb_recipes book) ([], empty_conversion) = (rs, rep)" by fastforce
  note law = all [OF run]
  have "from_book book items resolve = Inr (rs, rep)" using law unfolding from_book_def run by (simp add: new_recipes_iff)
  then show ?thesis using law by (simp add: recipe_names_def)
qed

definition pack_items :: item_registry where
  "pack_items = \<lparr>by_name = (\<lambda>_. Some 5), by_id = []\<rparr>"

definition small_book :: recipe_book where
  "small_book = book_insert (DataShapeless \<lparr>dl_name = pack_id CHR ''r'', dl_ingredients = [[IngItem (pack_id CHR ''a'')]],
     dl_result = pack_id CHR ''b'', dl_count = 1, dl_group = None\<rparr>) empty_book"

theorem pack_recipes_accounted_witness:
  "\<exists>registry rep. from_book small_book pack_items None = Inr (registry, rep) \<and> length registry = cr_converted rep \<and>
     crafting_seen rep + cr_other rep = 1"
proof -
  have "book_ok small_book" unfolding small_book_def
    by (rule book_insert_new(1)) (simp_all add: book_ok_empty, simp add: empty_book_def)
  moreover have "well_formed_id (pack_id CHR ''r'')"
    by (simp add: pack_id_def well_formed_id_def lit_def valid_namespace_def valid_value_def is_ascii_lowercase_def
        str_bytes_def utf8_char_def)
  then have "\<forall>d \<in> set (rb_recipes small_book). well_formed_id (data_name d)"
    by (simp add: small_book_def book_insert_def empty_book_def)
  moreover have "length (rb_recipes small_book) = 1" by (simp add: small_book_def book_insert_def empty_book_def)
  ultimately show ?thesis using pack_recipes_accounted [of small_book pack_items None] by auto
qed

section \<open>Cooking recipes of a data pack\<close>

lemma check_recipes_distinct:
  "distinct (map r_input (es @ rs)) \<Longrightarrow> check_recipes es rs = Inr ()"
proof (induction es rs rule: check_recipes.induct)
  case (2 earlier r rs)
  have "r_input r \<notin> r_input ` set earlier" using 2(2) by simp
  then have "\<not> (\<exists>e \<in> set earlier. r_input e = r_input r)" by (metis imageI)
  moreover from this have "check_recipes (earlier @ [r]) rs = Inr ()" by (rule 2(1)) (use 2(2) in simp)
  ultimately show ?case by simp
qed simp

lemma cooking_rows_law:
  "cooking_rows c made inputs taken rows = Inr (taken', rows') \<Longrightarrow> set taken = r_input ` set rows \<Longrightarrow>
     distinct (map r_input rows) \<Longrightarrow>
     set taken' = r_input ` set rows' \<and> distinct (map r_input rows') \<and> length rows \<le> length rows'"
  by (induction c made inputs taken rows rule: cooking_rows.induct) (auto split: if_splits)

text \<open>A recipe with a time and an experience that the table can hold.\<close>

definition cooking_ok :: "data_cooking \<Rightarrow> bool" where
  "cooking_ok c \<longleftrightarrow> 0 \<le> dc_time c \<and> f64_is_finite (dc_experience c) \<and> \<not> f64_lt (dc_experience c) 0"

lemma cooking_rows_total: "cooking_ok c \<Longrightarrow> \<exists>st. cooking_rows c made inputs taken rows = Inr st"
  by (induction c made inputs taken rows rule: cooking_rows.induct) (auto simp: cooking_ok_def)

definition cooking_counted :: "smelting_recipe list \<Rightarrow> smelting_conversion \<Rightarrow> nat \<Rightarrow> bool" where
  "cooking_counted rows rep n \<longleftrightarrow> sc_seen rep = n \<and> accounted rep + length (sc_unknown_results rep) = n \<and> sc_rows rep = length rows"

lemma convert_cooking_law:
  assumes "cooking_ok c" "set taken = r_input ` set rows" "distinct (map r_input rows)" "cooking_counted rows rep n"
  shows "\<exists>taken' rows' rep'. convert_cooking items resolve c (taken, rows, rep) = Inr (taken', rows', rep') \<and>
    set taken' = r_input ` set rows' \<and> distinct (map r_input rows') \<and> cooking_counted rows' rep' (Suc n)"
proof (cases "registry_id items (full_name (dc_result c))")
  case (Inl e)
  then show ?thesis using assms by (auto simp: convert_cooking_def cooking_counted_def accounted_def)
next
  case (Inr made)
  obtain inputs empties by_tag by_empty where ins: "cooking_inputs items resolve (dc_ingredient c) = (inputs, empties, by_tag, by_empty)"
    by (metis prod_cases4)
  obtain taken' rows' where run: "cooking_rows c made inputs taken rows = Inr (taken', rows')"
    using cooking_rows_total [OF assms(1)] by fastforce
  note law = cooking_rows_law [OF run assms(2,3)]
  then show ?thesis using Inr ins run assms(4)
    by (auto simp: convert_cooking_def cooking_counted_def accounted_def Let_def)
qed

lemma convert_cookings_law:
  "\<forall>c \<in> set cs. cooking_ok c \<Longrightarrow> set taken = r_input ` set rows \<Longrightarrow> distinct (map r_input rows) \<Longrightarrow> cooking_counted rows rep n \<Longrightarrow>
     \<exists>taken' rows' rep'. convert_cookings items resolve cs (taken, rows, rep) = Inr (taken', rows', rep') \<and>
       distinct (map r_input rows') \<and> cooking_counted rows' rep' (n + length cs)"
proof (induction cs arbitrary: taken rows rep n)
  case (Cons c cs)
  obtain taken1 rows1 rep1 where one: "convert_cooking items resolve c (taken, rows, rep) = Inr (taken1, rows1, rep1)"
      "set taken1 = r_input ` set rows1" "distinct (map r_input rows1)" "cooking_counted rows1 rep1 (Suc n)"
    using convert_cooking_law [of c taken rows rep n items resolve] Cons.prems by auto
  show ?case using Cons.IH [OF _ one(2-4)] Cons.prems(1) one(1) by simp
qed auto

text \<open>Every cooking recipe of a pack lands in one bucket. When each recipe of the kind has a time
  and an experience that a table can hold, the conversion succeeds; each of them is counted as
  converted, as taken, as blocked by a tag or as of unknown result, exactly once, and the table has
  one row per input.\<close>

lemma cooking_recipes_accounted:
  assumes "\<forall>c \<in> set (cooking_candidates book kind). cooking_ok c"
  shows "\<exists>registry rep. from_recipes book kind items resolve = Inr (registry, rep) \<and>
    distinct (map r_input registry) \<and> sc_rows rep = length registry \<and>
    sc_seen rep = length (cooking_candidates book kind) \<and> accounted rep + length (sc_unknown_results rep) = sc_seen rep"
proof -
  obtain taken rows rep where run: "convert_cookings items resolve (cooking_candidates book kind) ([], [], empty_smelting) = Inr (taken, rows, rep)"
      "distinct (map r_input rows)" "cooking_counted rows rep (0 + length (cooking_candidates book kind))"
  proof -
    have "cooking_counted [] empty_smelting 0" by (simp add: cooking_counted_def empty_smelting_def accounted_def)
    with convert_cookings_law [OF assms, of "[]" "[]" empty_smelting 0 items resolve] show thesis using that by auto
  qed
  then show ?thesis using check_recipes_distinct [of "[]" rows]
    by (auto simp: from_recipes_def smelting_new_def cooking_counted_def)
qed

definition cooking_book :: recipe_book where
  "cooking_book = \<lparr>rb_recipes = [DataCooking \<lparr>dc_name = pack_id CHR ''r'', dc_kind = Smelting, dc_ingredient = [IngItem (pack_id CHR ''a'')],
     dc_result = pack_id CHR ''b'', dc_count = 1, dc_time = 200, dc_experience = 0\<rparr>], rb_by_name = [(pack_id CHR ''r'', 0)]\<rparr>"

lemma zero_experience: "f64_is_finite 0" "\<not> f64_lt 0 0"
  by (simp_all add: f64_is_finite_def f64_lt_def f64_value_def fdecode_def F64_def)

lemma cooking_recipes_accounted_witness:
  "\<exists>registry rep. from_recipes cooking_book Smelting pack_items None = Inr (registry, rep) \<and> sc_seen rep = 1"
proof -
  have one: "cooking_candidates cooking_book Smelting = [\<lparr>dc_name = pack_id CHR ''r'', dc_kind = Smelting,
      dc_ingredient = [IngItem (pack_id CHR ''a'')], dc_result = pack_id CHR ''b'', dc_count = 1, dc_time = 200, dc_experience = 0\<rparr>]"
    by (simp add: cooking_candidates_def cooking_book_def)
  have "\<forall>c \<in> set (cooking_candidates cooking_book Smelting). cooking_ok c"
    unfolding one by (simp add: cooking_ok_def zero_experience)
  from cooking_recipes_accounted [OF this, of pack_items None] show ?thesis unfolding one by auto
qed

text \<open>The conversion does not check the cooking time that a row of the table may have.\<close>

lemma long_cooking_is_accepted:
  fixes n :: resource_id
  defines "c \<equiv> \<lparr>dc_name = n, dc_kind = CampfireCooking, dc_ingredient = [IngItem n], dc_result = n, dc_count = 1,
      dc_time = 600, dc_experience = 0\<rparr>"
    and "items \<equiv> \<lparr>by_name = (\<lambda>_. Some 5), by_id = []\<rparr>"
  shows "case from_recipes \<lparr>rb_recipes = [DataCooking c], rb_by_name = []\<rparr> CampfireCooking items None of
       Inr (rows, _) \<Rightarrow> map r_ticks rows = [600] \<and> new_recipe 5 5 1 600 0 = Inl Invariant
     | Inl _ \<Rightarrow> False"
  by (simp add: c_def items_def from_recipes_def cooking_candidates_def convert_cooking_def registry_id_def known_ids_def
      zero_experience smelting_new_def new_recipe_def stack_consts MAX_COOK_TICKS_def Let_def)

text \<open>The width of a pattern is that of its first row: what a longer row adds is not read.\<close>

lemma longer_rows_are_cut:
  "let g = IngItem \<lparr>namespace = [109], rvalue = [98]\<rparr>;
       s = \<lparr>ds_name = \<lparr>namespace = [109], rvalue = [97]\<rparr>, ds_pattern = [[65], [65, 65]], ds_key = [(65, [g])],
         ds_result = \<lparr>namespace = [109], rvalue = [98]\<rparr>, ds_count = 1, ds_group = None\<rparr>;
       items = \<lparr>by_name = (\<lambda>_. Some 5), by_id = []\<rparr>
   in shaped_rows items None s = Some [[Some [5]], [Some [5]]]"
  by code_simp

end
