(* ===== verification/Spec2Isabelle.thy ===== *)
theory Spec2Isabelle
  imports Framing Packing TickClock JavaRandom NbtCodec MenuSessions ItemRegistry Hopper Furnace
    AtomicLaws WorldTheorems WorldLight FluidSearch FluidTheorems RedstoneLaws RedstoneTheorems
    CraftingLaws TagLaws TagFiles RecipeLaws
begin

text \<open>
  A verification development of the Apoptosis server, a game server written in Rust
  (src/crates and src/apps). This root theory imports every component.

  The program. A connection hands bytes to the frame codec (crates/protocol/src/framing.rs),
  which cuts them into packets; a packet's fields are read with the primitives of
  crates/protocol/src/wire.rs and varint.rs, and structured payloads with the NBT reader
  (crates/nbt). The decoded requests change the game state: inventories and item stacks
  (crates/entity), containers and menus (crates/container), furnaces and hoppers. The state
  advances on a fixed tick (crates/core/src/tick.rs) with a Java-compatible random source
  (crates/core/src/random.rs).

  Theories and the code they model.
  \<^item> Prelude: result types (crates/core/src/error.rs), machine integers, shared lemmas on
    lists and loops.
  \<^item> Bytes, Strings: big-endian byte views of words; Rust strings as lists of scalar values
    with UTF-8 and UTF-16, as the standard library defines them.
  \<^item> VarInt (protocol/src/varint.rs), Wire (wire.rs), Framing (framing.rs, packet.rs):
    variable-length integers, the packet reader and writer, the frame codec with its
    buffer. Compression (flate2) is not under src/: deflate and inflate are parameters
    and the round trip assumes that inflating a deflated body returns it.
  \<^item> ResourceIds (core/src/ids.rs), Packing (packing.rs), TickClock (tick.rs),
    JavaRandom (random.rs): the core crate.
  \<^item> NbtString, Nbt, NbtEq, NbtCodec (crates/nbt): modified UTF-8, the tag tree over the
    ordered keyed store of KeyedStore, its equality, and the bounded reader and the writer.
  \<^item> Components, ItemStack, StackSizes, Inventory (crates/entity): data components of an
    item, stacks and their limits, the player inventory.
  \<^item> TextTables, ItemRegistry (crates/registry/src/items.rs): parsing of the generated
    item table and the lookups over it.
  \<^item> Container, Click, Menu, MenuClicks, MenuLaws, MenuSessions (crates/container):
    containers, the decoding of a click, the menu with its slot mappings, one definition per
    gesture handler, the conservation of items by a click, when a click fails, and sessions of
    clicks, failing ones included.
  \<^item> Hopper, Furnace (crates/container): item transfer and the furnace tick. Floats
    defines the IEEE operations on bit patterns that the furnace's f32 fields use.
  \<^item> Compression, Region, RegionLaws, RegionStore (crates/persistence: compression.rs and
    region.rs): the codecs of a stored chunk, a region file as its bytes, parsed header,
    sector bitmap and journal of writes, the laws of the allocator and of the file, and
    the contract of a store of chunks (locale chunk_store) interpreted on it.
  \<^item> OrderedMap, Dimensions (dimension.rs, chunk.rs): the standard ordered map, and the
    keys with their orders. Saving (dirty.rs, autosave.rs, save.rs): the dirty tracker,
    the autosave timer and save reports. AtomicFile, AtomicLaws (save.rs): the replacement of
    the level file by calls of the operating system that may fail, over a file system with
    directories, nodes and what of them has been synced, and what a power loss may leave.
  \<^item> WorldStorage, WorldLaws, FlushLaws, WorldTheorems (world.rs): the save queue over a
    bounded cache of region handles, and the flush.
  \<^item> BlockRegistry, BlockLaws (registry/src/blocks.rs): the block table, the mixed-radix
    index of a block's states, and the two directions between ids and properties.
  \<^item> LightTable (registry/src/light.rs), LightEngine, LightLaws, LightTheorems
    (world/src/light.rs): the light of a chunk, by a flood from seeds, and its specification
    as the brightest level along any path (the relation shines).
  \<^item> WorldBlocks, ChunkLaws, WorldLight (world/src/chunk.rs, world.rs): sections, chunks, the
    loaded world, block writes, and the light cache with its invalidation; the relation
    world_step has one rule per operation.
  \<^item> TickQueue: the buckets of scheduled ticks that two queues share. FluidQueue
    (simulation/src/fluid/queue.rs) states the contract of such a queue (locale tick_queue)
    and interprets it; RedstoneQueue and RedstoneLaws (redstone/src/update.rs) interpret it
    again and add the rotation of neighbour updates.
  \<^item> BlockPos, FluidState, FluidFlow, FluidSearch, FluidLaws (simulation/src/fluid): positions,
    fluids, one fluid tick over any world (the trait FluidWorld is a record), the sideways
    search against its specification, and the contract of a world (locale fluid_laws) with
    what a tick does to it. WorldFluids and FluidTheorems (server/src/game/fluids.rs)
    interpret the contract on the block storage and the block registry.

  \<^item> RedstonePower, RedstonePropagation (redstone/src/power.rs, blocks.rs, components.rs,
    propagation.rs): signal levels, the components with their outputs, the gathering of a
    block's inputs, the state each block should have, and the loop over the update queue.
    RedstoneBounds, RedstoneSettled and RedstoneLoop prove that signals stay in range, what
    dust at rest carries and what the loop keeps over any world that obeys the locale
    view_laws; RedstoneWorlds interprets it on the game's world and on the box FlatWorld, and
    RedstoneTheorems holds the properties.
  \<^item> Crafting, CraftingLaws (container/src/crafting.rs): ingredients, shaped and shapeless
    recipes, the search for a match and crafting from a grid.
  \<^item> Json, Tags, TagLaws, TagFiles (data/src/json.rs, tag.rs, tag_resolve.rs): the bounded
    reading of pack files, the walk of a directory, tag files and their resolution, with the
    closure of the references (the relation tag_holds) as its specification.
  \<^item> RecipeBook, RecipeTables, RecipeLaws (data/src/recipe.rs, container/src/crafting.rs,
    container/src/smelting_data.rs): the recipes of a pack, the book that holds them, and the
    crafting and furnace tables built from it. The JSON parser and the readings of a number
    are parameters, since serde_json is not under src/; a value is one of the six variants the
    source matches on.

  State and operations. A struct is a record with the struct's fields; a method that
  takes a mutable reference returns the new state beside its result; a fallible function
  returns a sum whose left side is the error of crates/core/src/error.rs without its
  message. i32 and i64 values are words where their bits matter and int otherwise, with
  the wrap-around or saturation written out; usize is nat, because the code's lengths are
  bounded by memory. Floats are their bit patterns. Ordered maps are key-sorted lists.

  A crash of the machine is modelled as stopping between two writes of a region file. In
  the replacement of the level file a power loss may come between any two changes, a write
  being one change for each byte: it leaves any directory there has been since the directory
  was last synced, and any bytes in a file that was not synced since it was written. There
  every call may fail (a failed write after any prefix of its bytes; a failed rename changes
  nothing), and so may the sync of a region file; the other calls on region files succeed.
  The region theorems bound the file by 2^24 sectors (64 GiB), beyond which the code
  truncates a location; the storage invariant carries how many more operations fit under
  the bounds of its counters, and a cache of at least two handles. The light theorems take
  chunks of fewer than 2^18 sections, so that no i32 of the engine overflows. The search of
  a fluid goes at most four steps deep, and positions are i32 values that saturate.

  What the lemmas show. Round trips: VarInts, primitives, frames, packed palettes,
  modified UTF-8 and NBT documents decode to what was encoded. Bounds: the readers never
  read past their input, the NBT reader respects its budgets, the random draws stay in
  range. Invariants: the clock never releases more than its cap, inventories and menus
  keep their well-formedness under every click, and items are conserved by inventory
  operations, by whole sessions of clicks that may fail, by hoppers and by furnaces, up to what the
  operation reports as dropped or consumed. Where the code does not conserve (a
  quick move out of a take-only slot whose items do not fit) the failing run is a theorem.
  Refinement: a region file behaves as a map from positions to chunks, and the storage as
  that map behind its queue, failing only as the file does; a flush loses nothing a reader
  sees, even when a region's sync fails (the code then drops the chunks from the queue all the
  same), an interrupted save leaves every other chunk readable, and the level file is the old
  or the new document after any failure or power loss. Light: the flood computes the brightest level along any path, and
  the cache never holds a stale light. Fluids: a tick is total, local and honest about its
  work, and leaves no lava newly in contact with water; the cached search takes the
  shortest ways; capped drains run the due ticks in order and lose none. Redstone: the
  rotation serves every pending update within a bounded number of drains; a propagation
  reports exactly its writes within its budget and leaves every block outside the queue in
  the state its neighbours ask for; dust at rest carries the strongest of its sources.
  Crafting: a shaped recipe is found exactly where it lies, a shapeless match is an
  assignment, and a craft takes one item of each matched slot. Data packs: resolved tags are
  the closure of their references unless a guard is reported, the walk of a directory ends
  and misses no file, the recipe book is a map that keeps its order, and every recipe of a
  pack is converted or counted. Where the code falls short (greedy shapeless matching with
  overlapping ingredients, ragged patterns, tags of a cycle, cooking times no table row may
  have) the failing run is a lemma.

  Loops and fuel. Every loop is a structural recursion, or a function whose measure is
  proved to decrease (the resolution of tags by its depth limit of 64); the rejection loop of
  the bounded random draw and the walk of a directory may not end and are partial functions
  into option, so that their results are stated only where they are reached, which is proved
  for the walk on every finite tree. The redstone loop is bounded by the budget of the code.

  Not modelled: sockets, threads, encryption, paths and logging; the NBT form of chunks and
  of the level document; world generation, whose content is floating-point noise; the loot
  tables, advancements and functions of a data pack; entity and block physics (movement,
  rays); the command graph and the game loop, which drive the modelled parts from sessions
  and sockets. They are further programs beside the state the development covers, not parts
  of a modelled component.
\<close>

end
